(* ===== verification/AlpmPrelude.thy ===== *)
theory AlpmPrelude
  imports Main "HOL-Library.Word" "HOL-Library.Char_ord" "HOL-Library.List_Lexorder"
    "HOL-Library.Product_Lexorder"
begin

text \<open>
  Shared vocabulary of the development. A C string is the list of its bytes up to (and
  without) the terminating NUL, so a pointer into a string is a suffix of that list and
  \<open>*s == 0\<close> is \<open>s = []\<close>. The order on strings is the lexicographic order on unsigned
  bytes (\<open>Char_ord\<close>, \<open>List_Lexorder\<close>), which is the order of \<open>strcmp\<close>.
  Characters are classified as in the C locale. Results of comparison functions are
  \<open>int\<close>s of which the code reads the sign only; the value chosen for \<open>strcmp\<close> is the sign.
\<close>

type_synonym u8 = "8 word"
type_synonym u16 = "16 word"
type_synonym u32 = "32 word"
type_synonym u64 = "64 word"

named_theorems cstring_simps \<open>facts about bytes, character classes and \<open>strcmp\<close>\<close>

section \<open>Three-way comparison\<close>

definition cmp3 :: "'a::linorder \<Rightarrow> 'a \<Rightarrow> int" where
  "cmp3 x y = (if x < y then -1 else if y < x then 1 else 0)"

lemma cmp3_eq_0 [simp]: "cmp3 x y = 0 \<longleftrightarrow> x = y"
  by (auto simp: cmp3_def)

lemma cmp3_refl [simp]: "cmp3 x x = 0"
  by simp

lemma cmp3_less_0 [simp]: "cmp3 x y < 0 \<longleftrightarrow> x < y"
  by (auto simp: cmp3_def)

lemma cmp3_greater_0 [simp]: "0 < cmp3 x y \<longleftrightarrow> y < x"
  by (auto simp: cmp3_def)

lemma cmp3_le_0 [simp]: "cmp3 x y \<le> 0 \<longleftrightarrow> x \<le> y"
  by (auto simp: cmp3_def)

lemma cmp3_swap: "cmp3 y x = - cmp3 x y"
  by (auto simp: cmp3_def)

lemma cmp3_range: "cmp3 x y \<in> {-1, 0, 1}"
  by (simp add: cmp3_def)

lemma cmp3_Cons: "cmp3 (a # x) (b # y) = (if a = b then cmp3 x y else cmp3 a b)"
  by (auto simp: cmp3_def)

lemma cmp3_Pair: "cmp3 (a, x) (b, y) = (if a = b then cmp3 x y else cmp3 a b)"
  by (auto simp: cmp3_def)

section \<open>Bytes and character classes\<close>

definition uchar :: "char \<Rightarrow> int" where
  "uchar c = int (of_char c)"

text \<open>\<open>char\<close> is a signed byte on the platforms the library is built for.\<close>

definition schar :: "char \<Rightarrow> int" where
  "schar c = (if uchar c < 128 then uchar c else uchar c - 256)"

text \<open>\<open>*s\<close> for a pointer \<open>s\<close> into a string, the terminator included.\<close>

definition deref :: "string \<Rightarrow> int" where
  "deref s = (case s of [] \<Rightarrow> 0 | c # _ \<Rightarrow> schar c)"

definition isdigit :: "char \<Rightarrow> bool" where
  "isdigit c \<longleftrightarrow> CHR ''0'' \<le> c \<and> c \<le> CHR ''9''"

definition isalpha :: "char \<Rightarrow> bool" where
  "isalpha c \<longleftrightarrow> (CHR ''A'' \<le> c \<and> c \<le> CHR ''Z'') \<or> (CHR ''a'' \<le> c \<and> c \<le> CHR ''z'')"

definition isalnum :: "char \<Rightarrow> bool" where
  "isalnum c \<longleftrightarrow> isalpha c \<or> isdigit c"

lemma uchar_inj [simp]: "uchar a = uchar b \<longleftrightarrow> a = b"
  by (simp add: uchar_def)

lemma uchar_less_iff [simp]: "uchar a < uchar b \<longleftrightarrow> a < b"
  by (simp add: uchar_def less_char_def)

lemma uchar_range: "0 \<le> uchar c" "uchar c < 256"
  using of_char_mod_256 [where ?'a = nat, of c] by (simp_all add: uchar_def)

lemma schar_inj [simp]: "schar a = schar b \<longleftrightarrow> a = b"
  using uchar_range[of a] uchar_range[of b] by (auto simp: schar_def)

lemma digit_not_alpha [cstring_simps]: "isdigit c \<Longrightarrow> \<not> isalpha c"
  by (auto simp: isdigit_def isalpha_def less_eq_char_def)

lemma alpha_not_digit [cstring_simps]: "isalpha c \<Longrightarrow> \<not> isdigit c"
  using digit_not_alpha by blast

section \<open>Decimal digits\<close>

text \<open>The value of a string of decimal digits.\<close>

primrec decimal :: "string \<Rightarrow> nat" where
  "decimal [] = 0"
| "decimal (c # cs) = (of_char c - 48) * 10 ^ length cs + decimal cs"

lemma digit_range:
  assumes "isdigit c"
  shows "48 \<le> (of_char c :: nat)" "(of_char c :: nat) \<le> 57"
  using assms by (simp_all add: isdigit_def less_eq_char_def)

lemma decimal_bound: "list_all isdigit s \<Longrightarrow> decimal s < 10 ^ length s"
proof (induction s)
  case Nil
  then show ?case by simp
next
  case (Cons c cs)
  have "of_char c - 48 \<le> (9 :: nat)" using Cons.prems digit_range [of c] by simp
  then have "(of_char c - 48) * 10 ^ length cs \<le> 9 * (10 :: nat) ^ length cs"
    by (rule mult_le_mono1)
  then have "decimal (c # cs) < 9 * 10 ^ length cs + 10 ^ length cs"
    unfolding decimal.simps by (rule add_le_less_mono) (use Cons in simp)
  then show ?case by simp
qed

lemma decimal_lower: "isdigit c \<Longrightarrow> c \<noteq> CHR ''0'' \<Longrightarrow> 10 ^ length cs \<le> decimal (c # cs)"
proof -
  assume c: "isdigit c" "c \<noteq> CHR ''0''"
  have "of_char c \<noteq> (of_char CHR ''0'' :: nat)"
    using c(2) by (simp only: of_char_eq_iff not_False_eq_True)
  then have "of_char c \<noteq> (48 :: nat)" by simp
  then have "1 \<le> of_char c - (48 :: nat)" using digit_range [OF c(1)] by simp
  then have "1 * 10 ^ length cs \<le> (of_char c - 48) * (10 :: nat) ^ length cs" by (rule mult_le_mono1)
  then show ?thesis unfolding decimal.simps by (simp only: mult_1 trans_le_add1)
qed

lemma decimal_strip: "decimal (dropWhile (\<lambda>c. c = CHR ''0'') s) = decimal s"
  by (induction s) auto

lemma decimal_longer:
  assumes "list_all isdigit s" "list_all isdigit t" "length s < length t"
    and "t = [] \<or> hd t \<noteq> CHR ''0''"
  shows "decimal s < decimal t"
proof -
  obtain c cs where t: "t = c # cs" using assms(3) by (cases t) auto
  have "decimal s < 10 ^ length s" using assms(1) by (rule decimal_bound)
  also have "\<dots> \<le> (10::nat) ^ length cs" using assms(3) t by (intro power_increasing) auto
  also have "\<dots> \<le> decimal t" using assms t by (simp add: decimal_lower del: decimal.simps)
  finally show ?thesis .
qed

lemma decimal_same_length:
  "list_all isdigit s \<Longrightarrow> list_all isdigit t \<Longrightarrow> length s = length t \<Longrightarrow>
   cmp3 s t = cmp3 (decimal s) (decimal t)"
proof (induction s arbitrary: t)
  case Nil
  then show ?case by simp
next
  case (Cons c cs)
  then obtain d ds where t: "t = d # ds" by (cases t) auto
  have ds: "list_all isdigit ds" "length cs = length ds" using Cons.prems t by auto
  have IH: "cmp3 cs ds = cmp3 (decimal cs) (decimal ds)"
    using Cons ds by auto
  have step: "decimal (a # as) < decimal (b # bs)"
    if "list_all isdigit (a # as)" "list_all isdigit (b # bs)" "length as = length bs" "a < b" for a b as bs
  proof -
    have "of_char a - 48 + 1 \<le> (of_char b - 48 :: nat)"
      using that digit_range [of a] digit_range [of b] by (simp add: less_char_def)
    then have "(of_char a - 48 + 1) * 10 ^ length as \<le> (of_char b - 48) * (10::nat) ^ length as"
      by (rule mult_le_mono1)
    then show ?thesis using decimal_bound [of as] that by (simp add: algebra_simps)
  qed
  consider "c < d" | "d < c" | "c = d" by fastforce
  then show ?case
  proof cases
    case 1
    then have "decimal (c # cs) < decimal t" using step Cons.prems t ds by blast
    then show ?thesis using 1 t by (simp add: cmp3_def del: decimal.simps)
  next
    case 2
    then have "decimal t < decimal (c # cs)" using step [of d ds c cs] Cons.prems t ds by simp
    then show ?thesis using 2 t by (auto simp: cmp3_def simp del: decimal.simps)
  next
    case 3
    then show ?thesis using IH t ds by (simp add: cmp3_Cons) (auto simp: cmp3_def)
  qed
qed

section \<open>\<open>strcmp\<close>\<close>

fun strcmp :: "string \<Rightarrow> string \<Rightarrow> int" where
  "strcmp [] [] = 0"
| "strcmp [] (_ # _) = -1"
| "strcmp (_ # _) [] = 1"
| "strcmp (a # as) (b # bs) =
     (if a = b then strcmp as bs else if uchar a < uchar b then -1 else 1)"

lemma strcmp_cmp3 [cstring_simps]: "strcmp a b = cmp3 a b"
  by (induction a b rule: strcmp.induct)
    (auto simp: cmp3_def)

lemma strcmp_eq_0 [simp]: "strcmp a b = 0 \<longleftrightarrow> a = b"
  by (simp add: strcmp_cmp3)

end
