(* ===== verification/AlpmVersion.thy ===== *)
theory AlpmVersion
  imports AlpmPrelude
begin

text \<open>
  Version comparison (\<open>lib/libalpm/version.c\<close>): \<open>parseEVR\<close>, \<open>rpmvercmp\<close> and
  \<open>alpm_pkg_vercmp\<close>, the specification of \<open>rpmvercmp\<close> as the lexicographic order of
  the version's segments, and the order laws that follow from it.

  A pointer into a duplicated version string is a suffix of it; a difference of two pointers
  is a difference of two lengths. A segment that the C code delimits by overwriting the
  byte after it with NUL is the \<open>takeWhile\<close> of its class.
\<close>

section \<open>The code\<close>

text \<open>\<open>strrchr\<close>: the text before and after the last occurrence of a character.\<close>

fun strrchr :: "char \<Rightarrow> string \<Rightarrow> (string \<times> string) option" where
  "strrchr c [] = None"
| "strrchr c (x # xs) =
     (case strrchr c xs of
        Some (b, a) \<Rightarrow> Some (x # b, a)
      | None \<Rightarrow> if x = c then Some ([], xs) else None)"

definition parseEVR :: "string \<Rightarrow> string \<times> string \<times> string option" where
  "parseEVR evr =
     (let digits = takeWhile isdigit evr;
          s = dropWhile isdigit evr;
          (body, release) = (case strrchr CHR ''-'' s of
                               None \<Rightarrow> (s, None)
                             | Some (before, after) \<Rightarrow> (before, Some after))
      in case s of
           CHR '':'' # _ \<Rightarrow> (if digits = [] then ''0'' else digits, tl body, release)
         | _ \<Rightarrow> (''0'', digits @ body, release))"

text \<open>The showdown after the loop.\<close>

definition rpmvercmp_final :: "string \<Rightarrow> string \<Rightarrow> int" where
  "rpmvercmp_final one two =
     (if one = [] \<and> two = [] then 0
      else if (one = [] \<and> \<not> (case two of [] \<Rightarrow> False | c # _ \<Rightarrow> isalpha c))
              \<or> (case one of [] \<Rightarrow> False | c # _ \<Rightarrow> isalpha c)
      then -1 else 1)"

abbreviation skip_separators :: "string \<Rightarrow> string" where
  "skip_separators \<equiv> dropWhile (\<lambda>c. \<not> isalnum c)"

text \<open>
  The comparison of two delimited segments; a result other than 0 ends \<open>rpmvercmp\<close>
  (\<open>goto cleanup\<close>), 0 goes on with the rest of the versions.
\<close>

definition rpmvercmp_segment :: "bool \<Rightarrow> string \<Rightarrow> string \<Rightarrow> int" where
  "rpmvercmp_segment isnum seg1 seg2 =
     (if seg1 = [] then -1
      else if seg2 = [] then (if isnum then 1 else -1)
      else
        let one = (if isnum then dropWhile (\<lambda>c. c = CHR ''0'') seg1 else seg1);
            two = (if isnum then dropWhile (\<lambda>c. c = CHR ''0'') seg2 else seg2)
        in if isnum \<and> length one > length two then 1
        else if isnum \<and> length two > length one then -1
        else let rc = strcmp one two
             in if rc \<noteq> 0 then (if rc < 1 then -1 else 1) else 0)"

lemma length_dropWhile_less:
  "takeWhile P xs \<noteq> [] \<Longrightarrow> length (dropWhile P xs) < length xs"
  by (cases xs) (auto intro: le_imp_less_Suc length_dropWhile_le split: if_splits)

text \<open>
  The loop over segments. At its head \<open>ptr1 = one\<close> and \<open>ptr2 = two\<close>, so the separator
  lengths are the lengths skipped in this round.
\<close>

function rpmvercmp_loop :: "string \<Rightarrow> string \<Rightarrow> int" where
  "rpmvercmp_loop one two =
     (if one = [] \<or> two = [] then rpmvercmp_final one two
      else
        let ptr1 = one; ptr2 = two;
            one = skip_separators one; two = skip_separators two
        in if one = [] \<or> two = [] then rpmvercmp_final one two
        else if length ptr1 - length one \<noteq> length ptr2 - length two
        then (if length ptr1 - length one < length ptr2 - length two then -1 else 1)
        else
          let isnum = isdigit (hd one);
              ctype = (if isnum then isdigit else isalpha);
              seg1 = takeWhile ctype one; rest1 = dropWhile ctype one;
              seg2 = takeWhile ctype two; rest2 = dropWhile ctype two;
              ret = rpmvercmp_segment isnum seg1 seg2
          in if ret \<noteq> 0 then ret else rpmvercmp_loop rest1 rest2)"
  by pat_completeness auto

termination
proof (relation "measure (\<lambda>(one, two). length one)", goal_cases)
  case 1
  show ?case by simp
next
  case (2 one two)
  then have "takeWhile (if isdigit (hd (skip_separators one)) then isdigit else isalpha)
      (skip_separators one) \<noteq> []"
    by (auto simp: rpmvercmp_segment_def)
  from length_dropWhile_less [OF this] show ?case
    using length_dropWhile_le [of "\<lambda>c. \<not> isalnum c" one] 2 by auto
qed

declare rpmvercmp_loop.simps [simp del]

definition rpmvercmp :: "string \<Rightarrow> string \<Rightarrow> int" where
  "rpmvercmp a b = (if strcmp a b = 0 then 0 else rpmvercmp_loop a b)"

definition alpm_pkg_vercmp :: "string option \<Rightarrow> string option \<Rightarrow> int" where
  "alpm_pkg_vercmp a b =
     (case (a, b) of
        (None, None) \<Rightarrow> 0
      | (None, Some _) \<Rightarrow> -1
      | (Some _, None) \<Rightarrow> 1
      | (Some a, Some b) \<Rightarrow>
          if strcmp a b = 0 then 0
          else
            let (epoch1, ver1, rel1) = parseEVR a;
                (epoch2, ver2, rel2) = parseEVR b;
                ret = rpmvercmp epoch1 epoch2
            in if ret = 0
               then let ret = rpmvercmp ver1 ver2
                    in (case (rel1, rel2) of
                          (Some r1, Some r2) \<Rightarrow> if ret = 0 then rpmvercmp r1 r2 else ret
                        | _ \<Rightarrow> ret)
               else ret)"

section \<open>The specification\<close>

text \<open>
  A version is a sequence of segments, each with the number of separator bytes before it.
  Segments are ordered by separators, then kind, then contents: text before numbers, numbers
  by value. The end of the version sorts after text that follows without a separator
  (\<open>1.0rc < 1.0\<close>) and before everything else (\<open>1.0 < 1.0.1\<close>, \<open>1.0 < 1.0.rc\<close>).
\<close>

type_synonym segment_key = "nat \<times> nat \<times> string \<times> nat"

definition end_key :: segment_key where
  "end_key = (0, 1, [], 0)"

definition segment_class :: "string \<Rightarrow> char \<Rightarrow> bool" where
  "segment_class s = (if isdigit (hd s) then isdigit else isalpha)"

definition segment_key :: "nat \<Rightarrow> string \<Rightarrow> segment_key" where
  "segment_key sep s =
     (if isdigit (hd s) then (sep, 2, [], decimal (takeWhile isdigit s))
      else (sep, 0, takeWhile isalpha s, 0))"

lemma segment_class_hd: "skip_separators s = t \<Longrightarrow> t \<noteq> [] \<Longrightarrow> segment_class t (hd t)"
  using hd_dropWhile [of "\<lambda>c. \<not> isalnum c" s] by (auto simp: segment_class_def isalnum_def)

lemma dropWhile_hd_less: "P (hd t) \<Longrightarrow> t \<noteq> [] \<Longrightarrow> length (dropWhile P t) < length t"
  by (cases t) (auto simp: le_imp_less_Suc length_dropWhile_le)

function version_key :: "string \<Rightarrow> segment_key list" where
  "version_key s =
     (let t = skip_separators s in
      if t = [] then [end_key]
      else segment_key (length s - length t) t # version_key (dropWhile (segment_class t) t))"
  by pat_completeness auto

termination
proof (relation "measure length", goal_cases)
  case 1
  show ?case by simp
next
  case (2 s t)
  then have "length (dropWhile (segment_class t) t) < length t"
    using segment_class_hd [of s t] by (intro dropWhile_hd_less) auto
  then show ?case
    using length_dropWhile_le [of "\<lambda>c. \<not> isalnum c" s] 2 by simp
qed

declare version_key.simps [simp del]

definition no_trailing_separator :: "string \<Rightarrow> bool" where
  "no_trailing_separator s \<longleftrightarrow> s = [] \<or> isalnum (last s)"

lemma no_trailing_skip:
  "no_trailing_separator s \<Longrightarrow> skip_separators s = [] \<longleftrightarrow> s = []"
  by (cases "s = []") (auto simp: no_trailing_separator_def dropWhile_eq_Nil_conv intro!: last_in_set)

lemma last_dropWhile: "dropWhile P s \<noteq> [] \<Longrightarrow> last (dropWhile P s) = last s"
  by (induction s) auto

lemma no_trailing_dropWhile:
  "no_trailing_separator s \<Longrightarrow> no_trailing_separator (dropWhile P s)"
  unfolding no_trailing_separator_def
  by (cases "dropWhile P s = []") (auto simp: last_dropWhile simp del: dropWhile_eq_Nil_conv)

lemma version_key_Nil [simp]: "version_key [] = [end_key]"
  by (simp add: version_key.simps)

lemma version_key_step:
  "skip_separators s = t \<Longrightarrow> t \<noteq> [] \<Longrightarrow>
   version_key s = segment_key (length s - length t) t # version_key (dropWhile (segment_class t) t)"
  by (subst version_key.simps) (simp add: Let_def)

lemma key_alpha_end: "isalpha c \<Longrightarrow> version_key (c # cs) < [end_key]"
  by (simp add: version_key_step isalnum_def segment_key_def end_key_def cstring_simps)

lemma key_digit_end: "isdigit c \<Longrightarrow> [end_key] < version_key (c # cs)"
  by (simp add: version_key_step isalnum_def segment_key_def end_key_def)

lemma key_separator_end:
  assumes "\<not> isalnum c" "skip_separators cs \<noteq> []"
  shows "[end_key] < version_key (c # cs)"
proof -
  have "0 < length (c # cs) - length (skip_separators cs)"
    using length_dropWhile_le [of "\<lambda>c. \<not> isalnum c" cs] by simp
  then show ?thesis
    using assms by (simp add: version_key_step segment_key_def end_key_def)
qed

lemma key_end:
  assumes "no_trailing_separator (c # cs)"
  shows "cmp3 [end_key] (version_key (c # cs)) = (if isalpha c then 1 else -1)"
proof (cases "isalnum c")
  case True
  then show ?thesis
    using key_alpha_end [of c cs] key_digit_end [of c cs]
    by (auto simp: cmp3_def isalnum_def cstring_simps)
next
  case False
  then have "skip_separators cs \<noteq> []"
    using no_trailing_skip [OF assms] by simp
  then show ?thesis
    using key_separator_end [OF False] False by (simp add: cmp3_def isalnum_def)
qed

lemma final_key:
  assumes "no_trailing_separator one" "no_trailing_separator two" "one = [] \<or> two = []"
  shows "rpmvercmp_final one two = cmp3 (version_key one) (version_key two)"
proof (cases one)
  case Nil
  then show ?thesis
    using assms key_end by (cases two) (simp_all add: rpmvercmp_final_def)
next
  case (Cons c cs)
  then have "two = []" using assms(3) by simp
  then show ?thesis
    using Cons assms(1) key_end [of c cs] cmp3_swap [of "version_key one" "[end_key]"]
    by (auto simp: rpmvercmp_final_def)
qed

lemma takeWhile_class:
  "t \<noteq> [] \<Longrightarrow> P (hd t) \<Longrightarrow> takeWhile P t \<noteq> []"
  by (cases t) auto

lemma segment_class_all: "list_all P (takeWhile P t)"
  by (induction t) auto

lemma list_all_dropWhile: "list_all P t \<Longrightarrow> list_all P (dropWhile Q t)"
  by (induction t) auto

lemma hd_strip: "dropWhile (\<lambda>c. c = CHR ''0'') t = [] \<or> hd (dropWhile (\<lambda>c. c = CHR ''0'') t) \<noteq> CHR ''0''"
  using hd_dropWhile [of "\<lambda>c. c = CHR ''0''" t] by auto

lemma numeric_segments:
  assumes "list_all isdigit s" "list_all isdigit t" "s \<noteq> []" "t \<noteq> []"
  shows "rpmvercmp_segment True s t = cmp3 (decimal s) (decimal t)"
proof -
  let ?strip = "dropWhile (\<lambda>c. c = CHR ''0'')"
  have all: "list_all isdigit (?strip s)" "list_all isdigit (?strip t)"
    using assms by (auto intro: list_all_dropWhile)
  consider "length (?strip t) < length (?strip s)" | "length (?strip s) < length (?strip t)"
    | "length (?strip s) = length (?strip t)" by linarith
  then show ?thesis
  proof cases
    case 1
    then have "decimal t < decimal s"
      using decimal_longer [OF all(2,1) 1] hd_strip by (simp add: decimal_strip)
    then show ?thesis using 1 assms by (simp add: rpmvercmp_segment_def cmp3_def)
  next
    case 2
    then have "decimal s < decimal t"
      using decimal_longer [OF all 2] hd_strip by (simp add: decimal_strip)
    then show ?thesis using 2 assms by (simp add: rpmvercmp_segment_def cmp3_def)
  next
    case 3
    have "cmp3 (?strip s) (?strip t) = cmp3 (decimal s) (decimal t)"
      using decimal_same_length [OF all 3] by (simp add: decimal_strip)
    then show ?thesis using 3 assms by (simp add: rpmvercmp_segment_def strcmp_cmp3 Let_def) (simp add: cmp3_def)
  qed
qed

lemma alpha_segments:
  "s \<noteq> [] \<Longrightarrow> t \<noteq> [] \<Longrightarrow> rpmvercmp_segment False s t = cmp3 s t"
  by (simp add: rpmvercmp_segment_def strcmp_cmp3 cmp3_def)

lemma segment_compare:
  assumes "one \<noteq> []" "two \<noteq> []" "isalnum (hd one)" "isalnum (hd two)"
  shows "rpmvercmp_segment (isdigit (hd one)) (takeWhile (segment_class one) one)
           (takeWhile (segment_class one) two)
         = cmp3 (segment_key n one) (segment_key n two)"
proof -
  have t: "takeWhile P s = [] \<longleftrightarrow> \<not> P (hd s)" if "s \<noteq> []" for P and s :: string
    using that by (cases s) auto
  show ?thesis
  proof (cases "isdigit (hd one)"; cases "isdigit (hd two)")
    assume "isdigit (hd one)" "isdigit (hd two)"
    then show ?thesis using assms t
      by (simp add: segment_class_def segment_key_def numeric_segments segment_class_all cmp3_Pair)
  next
    assume "isdigit (hd one)" "\<not> isdigit (hd two)"
    then show ?thesis using assms t
      by (simp add: segment_class_def segment_key_def rpmvercmp_segment_def cmp3_Pair cmp3_def)
  next
    assume "\<not> isdigit (hd one)" "isdigit (hd two)"
    then show ?thesis using assms t
      by (simp add: segment_class_def segment_key_def rpmvercmp_segment_def cmp3_Pair cmp3_def
          isalnum_def cstring_simps)
  next
    assume "\<not> isdigit (hd one)" "\<not> isdigit (hd two)"
    then show ?thesis using assms t
      by (simp add: segment_class_def segment_key_def alpha_segments cmp3_Pair isalnum_def) 
  qed
qed

lemma segment_key_class:
  assumes "segment_key n one = segment_key m two"
  shows "segment_class two = segment_class one"
  using assms by (auto simp: segment_key_def segment_class_def split: if_splits)

lemma rpmvercmp_loop_key:
  "no_trailing_separator one \<Longrightarrow> no_trailing_separator two \<Longrightarrow>
   rpmvercmp_loop one two = cmp3 (version_key one) (version_key two)"
proof (induction "length one" arbitrary: one two rule: less_induct)
  case less
  define one' two' where d: "one' = skip_separators one" "two' = skip_separators two"
  show ?case
  proof (cases "one = [] \<or> two = []")
    case True
    then show ?thesis using final_key less.prems by (simp add: rpmvercmp_loop.simps)
  next
    case False
    then have ne: "one' \<noteq> []" "two' \<noteq> []" 
      using less.prems no_trailing_skip d by auto
    then have alnum: "isalnum (hd one')" "isalnum (hd two')"
      using d hd_dropWhile [of "\<lambda>c. \<not> isalnum c" one] hd_dropWhile [of "\<lambda>c. \<not> isalnum c" two]
      by (simp_all del: dropWhile_eq_Nil_conv)
    let ?n = "length one - length one'" and ?m = "length two - length two'"
    let ?k1 = "segment_key ?n one'" and ?k2 = "segment_key ?m two'"
    let ?rest = "dropWhile (segment_class one')"
    have key: "version_key one = ?k1 # version_key (?rest one')"
      "version_key two = ?k2 # version_key (dropWhile (segment_class two') two')"
      using version_key_step d ne by auto
    have loop: "rpmvercmp_loop one two =
        (if ?n \<noteq> ?m then (if ?n < ?m then -1 else 1)
         else let ret = rpmvercmp_segment (isdigit (hd one')) (takeWhile (segment_class one') one')
                          (takeWhile (segment_class one') two')
              in if ret \<noteq> 0 then ret else rpmvercmp_loop (?rest one') (?rest two'))"
      using False ne by (subst rpmvercmp_loop.simps) (simp only: d Let_def segment_class_def simp_thms if_False)
    show ?thesis
    proof (cases "?n = ?m")
      case False
      then show ?thesis
        unfolding loop key by (auto simp: cmp3_Cons segment_key_def cmp3_def)
    next
      case eq: True
      have ret: "rpmvercmp_segment (isdigit (hd one')) (takeWhile (segment_class one') one')
                  (takeWhile (segment_class one') two') = cmp3 ?k1 ?k2"
        using segment_compare [OF ne alnum] eq by simp
      show ?thesis
      proof (cases "?k1 = ?k2")
        case False
        then show ?thesis unfolding loop key ret using eq by (simp add: cmp3_Cons Let_def)
      next
        case True
        have "rpmvercmp_loop (?rest one') (?rest two') = cmp3 (version_key (?rest one')) (version_key (?rest two'))"
        proof (rule less.hyps)
          show "length (?rest one') < length one"
            using dropWhile_hd_less [of "segment_class one'" one'] segment_class_hd [of one one'] ne(1) d(1)
              length_dropWhile_le [of "\<lambda>c. \<not> isalnum c" one] by (metis less_le_trans)
        qed (use less.prems d no_trailing_dropWhile in auto)
        then show ?thesis unfolding loop key ret using eq True segment_key_class [OF True]
          by (simp add: cmp3_Cons Let_def)
      qed
    qed
  qed
qed

lemma rpmvercmp_refl [simp]: "rpmvercmp a a = 0"
  by (simp add: rpmvercmp_def)

lemma rpmvercmp_key:
  "no_trailing_separator a \<Longrightarrow> no_trailing_separator b \<Longrightarrow>
   rpmvercmp a b = cmp3 (version_key a) (version_key b)"
  by (simp add: rpmvercmp_def rpmvercmp_loop_key)

section \<open>Antisymmetry, for every pair of strings\<close>

lemma final_swap: "one = [] \<or> two = [] \<Longrightarrow> rpmvercmp_final two one = - rpmvercmp_final one two"
  by (auto simp: rpmvercmp_final_def split: list.splits)

lemma segment_swap:
  assumes "one \<noteq> []" "two \<noteq> []" "isalnum (hd one)" "isalnum (hd two)"
  shows "rpmvercmp_segment (isdigit (hd two)) (takeWhile (segment_class two) two)
           (takeWhile (segment_class two) one)
         = - rpmvercmp_segment (isdigit (hd one)) (takeWhile (segment_class one) one)
           (takeWhile (segment_class one) two)"
  using segment_compare [OF assms] segment_compare [OF assms(2,1,4,3)] cmp3_swap by metis

lemma segment_equal_class:
  assumes "one \<noteq> []" "two \<noteq> []" "isalnum (hd one)" "isalnum (hd two)"
    and "rpmvercmp_segment (isdigit (hd one)) (takeWhile (segment_class one) one)
           (takeWhile (segment_class one) two) = 0"
  shows "segment_class two = segment_class one"
  using segment_compare [OF assms(1-4), of 0] assms(5) segment_key_class by (metis cmp3_eq_0)

lemma rpmvercmp_loop_unfold:
  assumes "one \<noteq> []" "two \<noteq> []" "one' = skip_separators one" "two' = skip_separators two"
  shows "rpmvercmp_loop one two =
    (if one' = [] \<or> two' = [] then rpmvercmp_final one' two'
     else if length one - length one' \<noteq> length two - length two'
     then (if length one - length one' < length two - length two' then -1 else 1)
     else let ret = rpmvercmp_segment (isdigit (hd one')) (takeWhile (segment_class one') one')
                      (takeWhile (segment_class one') two')
          in if ret \<noteq> 0 then ret
             else rpmvercmp_loop (dropWhile (segment_class one') one') (dropWhile (segment_class one') two'))"
  using assms by (subst rpmvercmp_loop.simps) (simp only: Let_def segment_class_def simp_thms if_False)

lemma rpmvercmp_loop_swap: "rpmvercmp_loop two one = - rpmvercmp_loop one two"
proof (induction "length one" arbitrary: one two rule: less_induct)
  case less
  define one' two' where d: "one' = skip_separators one" "two' = skip_separators two"
  show ?case
  proof (cases "one = [] \<or> two = [] \<or> one' = [] \<or> two' = []")
    case True
    then show ?thesis
      using final_swap [of one two] final_swap [of one' two'] d
        rpmvercmp_loop_unfold [OF _ _ d] rpmvercmp_loop_unfold [OF _ _ d(2,1)]
      by (cases "one = [] \<or> two = []") (auto simp: rpmvercmp_loop.simps simp del: dropWhile_eq_Nil_conv)
  next
    case False
    then have ne: "one' \<noteq> []" "two' \<noteq> []" and ne': "one \<noteq> []" "two \<noteq> []" by auto
    have alnum: "isalnum (hd one')" "isalnum (hd two')"
      using ne d hd_dropWhile [of "\<lambda>c. \<not> isalnum c" one] hd_dropWhile [of "\<lambda>c. \<not> isalnum c" two]
      by (simp_all del: dropWhile_eq_Nil_conv)
    let ?ret = "rpmvercmp_segment (isdigit (hd one')) (takeWhile (segment_class one') one')
                  (takeWhile (segment_class one') two')"
    let ?rest = "dropWhile (segment_class one')"
    have "length (?rest one') < length one"
      using dropWhile_hd_less [of "segment_class one'" one'] segment_class_hd [of one one'] ne(1) d(1)
        length_dropWhile_le [of "\<lambda>c. \<not> isalnum c" one] by (metis less_le_trans)
    then have IH: "rpmvercmp_loop (?rest two') (?rest one') = - rpmvercmp_loop (?rest one') (?rest two')"
      by (rule less.hyps)
    have "segment_class two' = segment_class one'" if "?ret = 0"
      using segment_equal_class [OF ne alnum that] .
    then show ?thesis
      unfolding rpmvercmp_loop_unfold [OF ne' d] rpmvercmp_loop_unfold [OF ne'(2,1) d(2,1)]
        segment_swap [OF ne alnum]
      using IH ne by (auto simp: Let_def)
  qed
qed

lemma rpmvercmp_swap: "rpmvercmp b a = - rpmvercmp a b"
  by (auto simp: rpmvercmp_def rpmvercmp_loop_swap [of b a])

lemma rpmvercmp_trans:
  assumes "no_trailing_separator a" "no_trailing_separator b" "no_trailing_separator c"
    and "rpmvercmp a b \<le> 0" "rpmvercmp b c \<le> 0"
  shows "rpmvercmp a c \<le> 0"
  using assms by (simp add: rpmvercmp_key)


section \<open>Whole versions\<close>

definition evr_key :: "string \<Rightarrow> segment_key list \<times> segment_key list \<times> segment_key list" where
  "evr_key s = (case parseEVR s of
     (epoch, version, release) \<Rightarrow>
       (version_key epoch, version_key version, version_key (case release of None \<Rightarrow> [] | Some r \<Rightarrow> r)))"

text \<open>A complete version has a release, and none of its parts ends in a separator.\<close>

definition complete_version :: "string \<Rightarrow> bool" where
  "complete_version s = (case parseEVR s of
     (epoch, version, release) \<Rightarrow>
       no_trailing_separator epoch \<and> no_trailing_separator version \<and>
       (case release of None \<Rightarrow> False | Some r \<Rightarrow> no_trailing_separator r))"

lemma vercmp_evr_key:
  assumes "complete_version a" "complete_version b"
  shows "alpm_pkg_vercmp (Some a) (Some b) = cmp3 (evr_key a) (evr_key b)"
  using assms
  by (auto simp: alpm_pkg_vercmp_def evr_key_def complete_version_def rpmvercmp_key cmp3_Pair Let_def
      split: prod.splits option.splits)

lemma strrchr_append:
  "c \<notin> set after \<Longrightarrow> strrchr c (before @ c # after) = Some (before, after)"
proof (induction before)
  case Nil
  have "strrchr c after = None" using Nil by (induction after) auto
  then show ?case by simp
qed auto

lemma strrchr_None: "c \<notin> set s \<Longrightarrow> strrchr c s = None"
  by (induction s) auto

lemma takeWhile_digits_colon:
  "list_all isdigit e \<Longrightarrow> takeWhile isdigit (e @ CHR '':'' # s) = e \<and> dropWhile isdigit (e @ CHR '':'' # s) = CHR '':'' # s"
  by (induction e) (auto simp: isdigit_def less_eq_char_def)

lemma parseEVR_epoch:
  assumes "list_all isdigit e" "e \<noteq> []"
  shows "\<exists>v r. parseEVR (e @ CHR '':'' # s) = (e, v, r)"
  using assms takeWhile_digits_colon [of e s]
  by (auto simp: parseEVR_def Let_def split: option.splits)

lemma rpmvercmp_digits:
  assumes "list_all isdigit s" "list_all isdigit t" "s \<noteq> []" "t \<noteq> []"
  shows "rpmvercmp s t = cmp3 (decimal s) (decimal t)"
proof -
  have key: "version_key d = [(0, 2, [], decimal d), end_key]" if "list_all isdigit d" "d \<noteq> []" for d
  proof -
    have d: "takeWhile isdigit d = d" "dropWhile isdigit d = []" "isdigit (hd d)" "skip_separators d = d"
      using that by (induction d) (auto simp: isalnum_def list_all_iff)
    show ?thesis using version_key_step [OF d(4) that(2)] d by (simp add: segment_class_def segment_key_def)
  qed
  have "no_trailing_separator d" if "list_all isdigit d" for d
    using that by (cases "d = []") (auto simp: no_trailing_separator_def isalnum_def list_all_iff)
  then show ?thesis
    using assms by (simp add: rpmvercmp_key key cmp3_Cons cmp3_Pair) 
qed

section \<open>Properties\<close>

text \<open>swapping the arguments of \<open>alpm_pkg_vercmp\<close> negates the result, for all
  strings and for the NULL pointer: "newer" and "older" are always opposite.\<close>

theorem vercmp_antisymmetric: "alpm_pkg_vercmp b a = - alpm_pkg_vercmp a b"
proof (cases "a = None \<or> b = None")
  case True
  then show ?thesis by (auto simp: alpm_pkg_vercmp_def split: option.splits)
next
  case False
  then obtain x y where "a = Some x" "b = Some y" by (cases a; cases b) auto
  moreover obtain e1 v1 r1 where "parseEVR x = (e1, v1, r1)" by (metis prod_cases3)
  moreover obtain e2 v2 r2 where "parseEVR y = (e2, v2, r2)" by (metis prod_cases3)
  ultimately show ?thesis
    using rpmvercmp_swap [of e2 e1] rpmvercmp_swap [of v2 v1] rpmvercmp_swap [of "the r2" "the r1"]
    by (auto simp: alpm_pkg_vercmp_def Let_def split: option.splits)
qed

text \<open>C35: on complete versions (a release present, no part ending in a separator) the result is
  the comparison of the epochs, then the versions, then the releases, each as a sequence of
  segments: separators first, text before numbers, numbers by value whatever their length.\<close>

theorem vercmp_is_segment_order:
  assumes "complete_version a" "complete_version b"
  shows "alpm_pkg_vercmp (Some a) (Some b) = cmp3 (evr_key a) (evr_key b)"
  using assms by (rule vercmp_evr_key)

theorem vercmp_is_segment_order_witness:
  "complete_version ''1:1.0rc2-1'' \<and> complete_version ''1:1.0-1''
   \<and> alpm_pkg_vercmp (Some ''1:1.0rc2-1'') (Some ''1:1.0-1'')
     = cmp3 (evr_key ''1:1.0rc2-1'') (evr_key ''1:1.0-1'')"
proof -
  have "complete_version ''1:1.0rc2-1''" "complete_version ''1:1.0-1''" by code_simp+
  then show ?thesis using vercmp_is_segment_order by simp
qed

text \<open>C36: "not newer than" is transitive on complete versions, so the newest of a set of
  packages does not depend on the order in which they are compared.\<close>

theorem vercmp_transitive:
  assumes "complete_version a" "complete_version b" "complete_version c"
    and "alpm_pkg_vercmp (Some a) (Some b) \<le> 0" "alpm_pkg_vercmp (Some b) (Some c) \<le> 0"
  shows "alpm_pkg_vercmp (Some a) (Some c) \<le> 0"
  using assms by (simp add: vercmp_evr_key)

theorem vercmp_transitive_witness:
  "alpm_pkg_vercmp (Some ''1.0-1'') (Some ''2:0.1-1'') \<le> 0"
proof -
  have "complete_version ''1.0-1''" "complete_version ''1.0.1-1''" "complete_version ''2:0.1-1''"
    "alpm_pkg_vercmp (Some ''1.0-1'') (Some ''1.0.1-1'') \<le> 0"
    "alpm_pkg_vercmp (Some ''1.0.1-1'') (Some ''2:0.1-1'') \<le> 0"
    by code_simp+
  then show ?thesis by (rule vercmp_transitive)
qed

text \<open>without the restriction transitivity fails. A version that ends in a separator
  closes a cycle: \<open>1.\<close> is older than \<open>1.0\<close>, which is older than \<open>1..a\<close>, which is
  older than \<open>1.\<close>.\<close>

theorem vercmp_cycle:
  "alpm_pkg_vercmp (Some ''1.'') (Some ''1.0'') = -1
   \<and> alpm_pkg_vercmp (Some ''1.0'') (Some ''1..a'') = -1
   \<and> alpm_pkg_vercmp (Some ''1..a'') (Some ''1.'') = -1"
  by code_simp

text \<open>the epoch decides before anything else, by its value: whatever the versions and
  releases are, the package with the numerically smaller epoch is older.\<close>

theorem vercmp_epoch_first:
  assumes "list_all isdigit e1" "list_all isdigit e2" "e1 \<noteq> []" "e2 \<noteq> []"
    and "decimal e1 < decimal e2"
  shows "alpm_pkg_vercmp (Some (e1 @ CHR '':'' # s1)) (Some (e2 @ CHR '':'' # s2)) = -1"
proof -
  obtain v1 r1 v2 r2 where "parseEVR (e1 @ CHR '':'' # s1) = (e1, v1, r1)"
    "parseEVR (e2 @ CHR '':'' # s2) = (e2, v2, r2)"
    using parseEVR_epoch assms by meson
  moreover have "e1 @ CHR '':'' # s1 \<noteq> e2 @ CHR '':'' # s2"
    using assms takeWhile_digits_colon by (metis less_irrefl)
  moreover have "rpmvercmp e1 e2 = -1"
    using assms by (simp add: rpmvercmp_digits cmp3_def)
  ultimately show ?thesis by (simp add: alpm_pkg_vercmp_def Let_def)
qed

theorem vercmp_epoch_first_witness:
  "alpm_pkg_vercmp (Some (''09'' @ CHR '':'' # ''999-1'')) (Some (''10'' @ CHR '':'' # ''1-1'')) = -1"
  by (rule vercmp_epoch_first) code_simp+

text \<open>\<open>parseEVR\<close> takes \<open>epoch:version-release\<close> apart again: the epoch is the digits
  before the first colon, the release what follows the last hyphen.\<close>

theorem parseEVR_roundtrip:
  assumes "list_all isdigit e" "e \<noteq> []" "CHR ''-'' \<notin> set r"
  shows "parseEVR (e @ CHR '':'' # v @ CHR ''-'' # r) = (e, v, Some r)"
proof -
  have "strrchr CHR ''-'' ((CHR '':'' # v) @ CHR ''-'' # r) = Some (CHR '':'' # v, r)"
    using assms(3) by (rule strrchr_append)
  then show ?thesis
    using assms takeWhile_digits_colon [OF assms(1)] by (simp add: parseEVR_def Let_def)
qed

theorem parseEVR_roundtrip_witness:
  "parseEVR (''2'' @ CHR '':'' # ''1.0-rc1'' @ CHR ''-'' # ''3'') = (''2'', ''1.0-rc1'', Some ''3'')"
  by (rule parseEVR_roundtrip) (simp_all add: isdigit_def)

end
