(* ===== verification/AlpmRawstr.thy ===== *)
theory AlpmRawstr
  imports AlpmPrelude
begin

text \<open>
  Locale-independent case-insensitive comparison (\<open>lib/libalpm/rawstr.c\<close>). The results
  are differences of \<open>char\<close>s, which are signed bytes, so their sign is not the order of
  \<open>strcmp\<close>; what the comparisons promise is when they return 0 and that swapping the
  arguments swaps the sign.
\<close>

definition raw_toupper :: "char \<Rightarrow> char" where
  "raw_toupper c = (if CHR ''a'' \<le> c \<and> c \<le> CHR ''z'' then char_of (of_char c - (32 :: nat)) else c)"

definition raw_at :: "string \<Rightarrow> int" where
  "raw_at s = (case s of [] \<Rightarrow> 0 | c # _ \<Rightarrow> schar (raw_toupper c))"

fun alpm_raw_cmp :: "string \<Rightarrow> string \<Rightarrow> int" where
  "alpm_raw_cmp (a # as) (b # bs) =
     (if raw_toupper a \<noteq> raw_toupper b then raw_at (a # as) - raw_at (b # bs)
      else alpm_raw_cmp as bs)"
| "alpm_raw_cmp first second = raw_at first - raw_at second"

fun alpm_raw_ncmp :: "string \<Rightarrow> string \<Rightarrow> nat \<Rightarrow> int" where
  "alpm_raw_ncmp (a # as) (b # bs) (Suc n) =
     (if raw_toupper a \<noteq> raw_toupper b then raw_at (a # as) - raw_at (b # bs)
      else alpm_raw_ncmp as bs n)"
| "alpm_raw_ncmp first second n = (if n = 0 then 0 else raw_at first - raw_at second)"

lemma raw_toupper_nul [simp]: "raw_toupper c = CHR 0x00 \<longleftrightarrow> c = CHR 0x00"
proof (cases "CHR ''a'' \<le> c \<and> c \<le> CHR ''z''")
  case True
  then have "(97::nat) \<le> of_char c" "of_char c \<le> (122::nat)"
    by (simp_all add: less_eq_char_def)
  then have "(of_char (raw_toupper c) :: nat) \<noteq> 0"
    using True by (simp add: raw_toupper_def)
  then have "raw_toupper c \<noteq> CHR 0x00" by auto
  moreover have "c \<noteq> CHR 0x00" using True by (auto simp: less_eq_char_def)
  ultimately show ?thesis by simp
qed (auto simp: raw_toupper_def)

lemma schar_0 [simp]: "schar c = 0 \<longleftrightarrow> c = CHR 0x00"
  using schar_inj [of c "CHR 0x00"] by (simp add: schar_def uchar_def del: schar_inj)

lemma raw_at_simps [simp]: "raw_at [] = 0" "raw_at (c # cs) = schar (raw_toupper c)"
  by (simp_all add: raw_at_def)

lemma raw_at_0: "CHR 0x00 \<notin> set s \<Longrightarrow> raw_at s = 0 \<longleftrightarrow> s = []"
  by (cases s) auto

text \<open>\<open>_alpm_raw_cmp\<close> returns 0 exactly for strings that are equal up to the case of
  the letters a to z.\<close>

theorem raw_cmp_zero:
  assumes "CHR 0x00 \<notin> set first" "CHR 0x00 \<notin> set second"
  shows "alpm_raw_cmp first second = 0 \<longleftrightarrow> map raw_toupper first = map raw_toupper second"
  using assms
proof (induction first second rule: alpm_raw_cmp.induct)
  case (1 a as b bs)
  then show ?case by auto
qed (auto simp: raw_at_0)

theorem raw_cmp_zero_witness: "alpm_raw_cmp ''Foo-1'' ''fOO-1'' = 0"
  by (subst raw_cmp_zero) code_simp+

text \<open>\<open>_alpm_raw_ncmp\<close> returns 0 exactly when the first \<open>n\<close> characters are equal up
  to case.\<close>

theorem raw_ncmp_zero:
  assumes "CHR 0x00 \<notin> set first" "CHR 0x00 \<notin> set second"
  shows "alpm_raw_ncmp first second n = 0 \<longleftrightarrow>
    map raw_toupper (take n first) = map raw_toupper (take n second)"
  using assms
proof (induction first second n rule: alpm_raw_ncmp.induct)
  case (1 a as b bs n)
  then show ?case by auto
qed (simp_all add: raw_at_0)

theorem raw_ncmp_zero_witness: "alpm_raw_ncmp ''Signature: x'' ''SIGNATURE: y'' 10 = 0"
  by (subst raw_ncmp_zero) code_simp+

end
