(* ===== verification/AlpmUtil.thy ===== *)
theory AlpmUtil
  imports AlpmPrelude
begin

text \<open>
  String and number helpers (\<open>lib/libalpm/util.c\<close>): the name hash, the splitting of
  database entry names, line trimming, number parsing, pattern lists, the package cache
  lookup and the checksum test. \<open>unsigned long\<close> and \<open>off_t\<close> have 64 bits. POSIX
  \<open>fnmatch\<close>, \<open>stat\<close> and the digest functions are parameters.
\<close>

unbundle bit_operations_syntax

section \<open>The sdbm hash\<close>


definition hash_step :: "u64 \<Rightarrow> char \<Rightarrow> u64" where
  "hash_step hash c = word_of_int (schar c) + hash * 65599"

definition alpm_hash_sdbm :: "string option \<Rightarrow> u64" where
  "alpm_hash_sdbm str = (case str of None \<Rightarrow> 0 | Some s \<Rightarrow> foldl hash_step 0 s)"

abbreviation name_hash_of :: "string \<Rightarrow> u64" where
  "name_hash_of s \<equiv> alpm_hash_sdbm (Some s)"

lemma hash_step_split: "hash_step h c = h * 65599 + hash_step 0 c"
  by (simp add: hash_step_def)

lemma hash_foldl: "foldl hash_step h t = h * 65599 ^ length t + foldl hash_step 0 t"
proof (induction t arbitrary: h)
  case (Cons c t)
  have 1: "foldl hash_step h (c # t) = hash_step h c * 65599 ^ length t + foldl hash_step 0 t"
    using Cons.IH [of "hash_step h c"] by simp
  have 2: "foldl hash_step 0 (c # t) = hash_step 0 c * 65599 ^ length t + foldl hash_step 0 t"
    using Cons.IH [of "hash_step 0 c"] by simp
  show ?case unfolding 1 2 hash_step_split [of h c] by (simp add: algebra_simps)
qed simp

lemma hash_append:
  "name_hash_of (s @ t) = name_hash_of s * 65599 ^ length t + name_hash_of t"
  using hash_foldl [of "foldl hash_step 0 s" t] by (simp add: alpm_hash_sdbm_def)

section \<open>Splitting a package specifier\<close>

text \<open>
  The two backward scans have no lower bound: they stop at a hyphen or at a NUL byte, and
  there is none before the string. Reading there is undefined; the model makes it the
  outcome \<open>SplitOutOfBounds\<close>. \<open>scan_back t n\<close> reads \<open>t ! (n - 1)\<close>, then downwards.
\<close>

datatype split_result =
    SplitOutOfBounds
  | SplitError
  | SplitOk string string u64

fun scan_back :: "string \<Rightarrow> nat \<Rightarrow> nat option" where
  "scan_back t 0 = None"
| "scan_back t (Suc i) = (if t ! i = CHR ''-'' then Some i else scan_back t i)"

definition alpm_splitname :: "string option \<Rightarrow> split_result" where
  "alpm_splitname target =
     (case target of
        None \<Rightarrow> SplitError
      | Some t \<Rightarrow>
          let e = length (takeWhile (\<lambda>c. c \<noteq> CHR ''/'') t)
          in (case scan_back t e of
                None \<Rightarrow> SplitOutOfBounds
              | Some p \<Rightarrow>
                  (case scan_back t p of
                     None \<Rightarrow> SplitOutOfBounds
                   | Some pkgver \<Rightarrow>
                       if pkgver = 0 then SplitError
                       else
                         let name = take pkgver t;
                             version = take (e - pkgver - 1) (drop (pkgver + 1) t)
                         in SplitOk name version (name_hash_of name))))"

lemma scan_back_None: "n \<le> length t \<Longrightarrow> scan_back t n = None \<longleftrightarrow> CHR ''-'' \<notin> set (take n t)"
  by (induction n) (auto simp: take_Suc_conv_app_nth)

lemma scan_back_Some:
  "scan_back t n = Some i \<Longrightarrow>
   i < n \<and> t ! i = CHR ''-'' \<and> (\<forall>j. i < j \<and> j < n \<longrightarrow> t ! j \<noteq> CHR ''-'')"
  by (induction n) (auto split: if_splits simp: less_Suc_eq)

lemma scan_back_last:
  assumes "CHR ''-'' \<notin> set s" "n = length p + Suc (length s)"
  shows "scan_back (p @ CHR ''-'' # s @ q) n = Some (length p)"
proof -
  have "scan_back (p @ CHR ''-'' # s @ q) (length p + Suc k) = Some (length p)"
    if "k \<le> length s" for k
    using that
  proof (induction k)
    case (Suc k)
    then have k: "k < length s" by simp
    then have "s ! k \<noteq> CHR ''-''" using assms(1) nth_mem by metis
    then show ?case using Suc k by (simp add: nth_append)
  qed simp
  then show ?thesis using assms(2) by simp
qed

lemma scan_back_count:
  assumes "scan_back t n = Some i" "n \<le> length t"
  shows "count_list (take n t) CHR ''-'' = Suc (count_list (take i t) CHR ''-'')"
  using assms
proof (induction n)
  case (Suc n)
  then show ?case by (auto simp: take_Suc_conv_app_nth split: if_splits)
qed simp

section \<open>Trimming and tokens\<close>

fun strip_len :: "string \<Rightarrow> nat \<Rightarrow> nat" where
  "strip_len str 0 = 0"
| "strip_len str (Suc n) = (if str ! n = CHR 0x0A then strip_len str n else Suc n)"

text \<open>The result is the trimmed string and its length.\<close>

definition alpm_strip_newline :: "string \<Rightarrow> nat \<Rightarrow> string \<times> nat" where
  "alpm_strip_newline str len =
     (if str = [] then (str, 0)
      else
        let len = (if len = 0 then length str else len);
            len = strip_len str len
        in (take len str, len))"

lemma strip_len_append: "n \<le> length s \<Longrightarrow> strip_len (s @ t) n = strip_len s n"
  by (induction n) (auto simp: nth_append)

lemma strip_len_rev:
  "strip_len s (length s) = length (dropWhile (\<lambda>c. c = CHR 0x0A) (rev s))"
  by (induction s rule: rev_induct) (auto simp: strip_len_append nth_append)

text \<open>
  \<open>strsep\<close> on the string at \<open>*str\<close> (\<open>None\<close> is the NULL pointer): the token, and
  the new \<open>*str\<close>.
\<close>

fun strsep :: "string option \<Rightarrow> string \<Rightarrow> string option \<times> string option" where
  "strsep None delims = (None, None)"
| "strsep (Some s) delims =
     (let token = takeWhile (\<lambda>c. c \<notin> set delims) s
      in (Some token,
          case dropWhile (\<lambda>c. c \<notin> set delims) s of [] \<Rightarrow> None | _ # rest \<Rightarrow> Some rest))"

lemma take_strip:
  "take (length (dropWhile P (rev s))) s = rev (dropWhile P (rev s))"
proof (induction s rule: rev_induct)
  case (snoc x s)
  then show ?case using length_dropWhile_le [of P "rev s"] by simp
qed simp

section \<open>Numbers\<close>

text \<open>The conversion of \<open>unsigned long long\<close> to \<open>off_t\<close> keeps the bits.\<close>

definition to_off_t :: "int \<Rightarrow> int" where
  "to_off_t n = sint (word_of_int n :: u64)"

lemma to_off_t_value:
  assumes "0 \<le> n" "n < 2 ^ 64"
  shows "to_off_t n = (if n < 2 ^ 63 then n else n - 2 ^ 64)"
proof -
  have eq: "to_off_t n = (n + 2 ^ 63) mod 2 ^ 64 - 2 ^ 63"
    by (simp add: to_off_t_def sint_sbintrunc' signed_take_bit_eq_take_bit_shift take_bit_eq_mod)
  show ?thesis
  proof (cases "n < 2 ^ 63")
    case True
    then have "(n + 2 ^ 63) mod 2 ^ 64 = n + 2 ^ 63"
      using assms by (intro mod_pos_pos_trivial) auto
    then show ?thesis using eq True by simp
  next
    case False
    have "n + 2 ^ 63 = (n - 2 ^ 63) + 2 ^ 64" by simp
    then have "(n + 2 ^ 63) mod 2 ^ 64 = ((n - 2 ^ 63) + 2 ^ 64) mod 2 ^ 64" by (rule arg_cong)
    also have "\<dots> = (n - 2 ^ 63) mod 2 ^ 64" by (rule mod_add_self2)
    also have "\<dots> = n - 2 ^ 63" using assms False by (intro mod_pos_pos_trivial) auto
    finally show ?thesis using eq False by simp
  qed
qed

text \<open>
  \<open>strtoull\<close> on a line that starts with a digit takes the longest run of digits and
  saturates at \<open>ULLONG_MAX\<close> with \<open>ERANGE\<close>.
\<close>

definition alpm_strtoofft :: "string \<Rightarrow> int" where
  "alpm_strtoofft line =
     (if line = [] \<or> \<not> isdigit (hd line) then -1
      else
        let digits = takeWhile isdigit line; endp = dropWhile isdigit line;
            n = int (decimal digits); erange = (2 ^ 64 - 1 < n);
            result = (if erange then 2 ^ 64 - 1 else n)
        in if result = 2 ^ 64 - 1 \<and> erange then -1
           else if endp \<noteq> [] then -1
           else to_off_t result)"

definition isspace :: "char \<Rightarrow> bool" where
  "isspace c \<longleftrightarrow> c = CHR '' '' \<or> (CHR 0x09 \<le> c \<and> c \<le> CHR 0x0D)"

text \<open>
  \<open>strtoll\<close>: leading white space, an optional sign, digits; saturating with
  \<open>ERANGE\<close>. Without digits nothing is converted and \<open>end = line\<close>. The model returns
  the value, the range error and the unread rest.
\<close>

definition strtoll :: "string \<Rightarrow> int \<times> bool \<times> string" where
  "strtoll line =
     (let s = dropWhile isspace line;
          neg = (s \<noteq> [] \<and> hd s = CHR ''-'');
          s = (if s \<noteq> [] \<and> (hd s = CHR ''-'' \<or> hd s = CHR ''+'') then tl s else s);
          digits = takeWhile isdigit s;
          n = (if neg then - int (decimal digits) else int (decimal digits))
      in if digits = [] then (0, False, line)
         else if n < - (2 ^ 63) then (- (2 ^ 63), True, dropWhile isdigit s)
         else if 2 ^ 63 - 1 < n then (2 ^ 63 - 1, True, dropWhile isdigit s)
         else (n, False, dropWhile isdigit s))"

definition alpm_parsedate :: "string \<Rightarrow> int" where
  "alpm_parsedate line =
     (let (result, erange, endp) = strtoll line
      in if result = 0 \<and> endp = line then 0
         else if erange then 0
         else if endp \<noteq> [] then 0
         else result)"

section \<open>Pattern lists\<close>

text \<open>
  \<open>fnm\<close> stands for \<open>fnmatch(pattern, string, 0) == 0\<close>. The list is walked from its
  last pattern to its first.
\<close>

fun fnmatch_from_last :: "(string \<Rightarrow> string \<Rightarrow> bool) \<Rightarrow> string list \<Rightarrow> string \<Rightarrow> int" where
  "fnmatch_from_last fnm [] s = -1"
| "fnmatch_from_last fnm (p # ps) s =
     (let inverted = (p \<noteq> [] \<and> hd p = CHR ''!'');
          pattern = (if inverted \<or> (p \<noteq> [] \<and> hd p = CHR 0x5C) then tl p else p)
      in if fnm pattern s then (if inverted then 1 else 0) else fnmatch_from_last fnm ps s)"

definition alpm_fnmatch_patterns :: "(string \<Rightarrow> string \<Rightarrow> bool) \<Rightarrow> string list \<Rightarrow> string \<Rightarrow> int" where
  "alpm_fnmatch_patterns fnm patterns s = fnmatch_from_last fnm (rev patterns) s"

section \<open>The package cache\<close>

definition PATH_MAX :: nat where
  "PATH_MAX = 4096"

text \<open>
  \<open>snprintf\<close> into a buffer of \<open>PATH_MAX\<close> bytes truncates. \<open>is_reg\<close> tells whether
  \<open>stat\<close> succeeds on a path and finds a regular file.
\<close>

definition path_buffer :: "string \<Rightarrow> string" where
  "path_buffer s = take (PATH_MAX - 1) s"

fun alpm_filecache_find :: "(string \<Rightarrow> bool) \<Rightarrow> string list \<Rightarrow> string \<Rightarrow> string option" where
  "alpm_filecache_find is_reg [] filename = None"
| "alpm_filecache_find is_reg (dir # cachedirs) filename =
     (let path = path_buffer (dir @ filename)
      in if is_reg path then Some path else alpm_filecache_find is_reg cachedirs filename)"

definition alpm_filecache_exists :: "(string \<Rightarrow> bool) \<Rightarrow> string list \<Rightarrow> string \<Rightarrow> bool" where
  "alpm_filecache_exists is_reg cachedirs filename \<longleftrightarrow>
     alpm_filecache_find is_reg cachedirs filename \<noteq> None"

section \<open>Checksums\<close>

datatype validation_type = VALIDATION_MD5SUM | VALIDATION_SHA256SUM | VALIDATION_OTHER

definition alpm_test_checksum ::
  "(string \<Rightarrow> string option) \<Rightarrow> (string \<Rightarrow> string option) \<Rightarrow> string \<Rightarrow> string option \<Rightarrow> validation_type \<Rightarrow> int" where
  "alpm_test_checksum md5sum sha256sum filepath expected type =
     (case type of
        VALIDATION_OTHER \<Rightarrow> -1
      | _ \<Rightarrow>
          let computed = (if type = VALIDATION_MD5SUM then md5sum filepath else sha256sum filepath)
          in (case (expected, computed) of
                (Some e, Some c) \<Rightarrow> if strcmp e c \<noteq> 0 then 1 else 0
              | _ \<Rightarrow> -1))"

definition pattern_body :: "string \<Rightarrow> string" where
  "pattern_body p = (if p \<noteq> [] \<and> (hd p = CHR ''!'' \<or> hd p = CHR 0x5C) then tl p else p)"

lemma fnmatch_from_last_step:
  "fnmatch_from_last fnm (p # ps) s =
     (if fnm (pattern_body p) s then (if p \<noteq> [] \<and> hd p = CHR ''!'' then 1 else 0)
      else fnmatch_from_last fnm ps s)"
  by (cases p) (auto simp: pattern_body_def Let_def)

section \<open>Properties\<close>

text \<open>\<open>_alpm_splitname\<close> takes a database entry name apart again: for a name and a
  \<open>version-release\<close> without slashes (the version and the release without hyphens), with or
  without a trailing \<open>/file\<close>, it returns the name, the version with its release, and the
  hash of the name. The name itself may contain hyphens.\<close>

theorem splitname_roundtrip:
  assumes "name \<noteq> []" "CHR ''/'' \<notin> set (name @ ver @ rel)"
    and "CHR ''-'' \<notin> set ver" "CHR ''-'' \<notin> set rel"
    and "rest = [] \<or> hd rest = CHR ''/''"
  shows "alpm_splitname (Some (name @ CHR ''-'' # ver @ CHR ''-'' # rel @ rest)) =
         SplitOk name (ver @ CHR ''-'' # rel) (name_hash_of name)"
proof -
  let ?t = "name @ CHR ''-'' # ver @ CHR ''-'' # rel @ rest"
  let ?e = "length name + Suc (length ver) + Suc (length rel)"
  have "takeWhile (\<lambda>c. c \<noteq> CHR ''/'') ?t = name @ CHR ''-'' # ver @ CHR ''-'' # rel"
    using assms(2,5) by (cases rest) (auto simp: takeWhile_append)
  then have e: "length (takeWhile (\<lambda>c. c \<noteq> CHR ''/'') ?t) = ?e" by simp
  have "scan_back ?t ?e = Some (length name + Suc (length ver))"
    using scan_back_last [OF assms(4), of ?e "name @ CHR ''-'' # ver" rest] by simp
  moreover have "scan_back ?t (length name + Suc (length ver)) = Some (length name)"
    using scan_back_last [OF assms(3), of _ name "CHR ''-'' # rel @ rest"] by simp
  ultimately show ?thesis
    using assms(1) e by (simp add: alpm_splitname_def Let_def)
qed

theorem splitname_roundtrip_witness:
  "alpm_splitname (Some (''gcc-libs'' @ CHR ''-'' # ''1:11.2'' @ CHR ''-'' # ''4'' @ ''/desc'')) =
   SplitOk ''gcc-libs'' (''1:11.2'' @ CHR ''-'' # ''4'') (name_hash_of ''gcc-libs'')"
  by (rule splitname_roundtrip) simp_all

text \<open>\<open>_alpm_splitname\<close> reads before the start of the string exactly when the part of it
  before the first slash has fewer than two hyphens: the scans have no lower bound, so the
  error return for such names is reached only by luck.\<close>

theorem splitname_out_of_bounds:
  "alpm_splitname (Some t) = SplitOutOfBounds \<longleftrightarrow>
   count_list (takeWhile (\<lambda>c. c \<noteq> CHR ''/'') t) CHR ''-'' < 2"
proof -
  define e where "e = length (takeWhile (\<lambda>c. c \<noteq> CHR ''/'') t)"
  have e: "e \<le> length t" and take: "takeWhile (\<lambda>c. c \<noteq> CHR ''/'') t = take e t"
    unfolding e_def by (simp add: length_takeWhile_le) (rule takeWhile_eq_take)
  have none: "scan_back t n = None \<longleftrightarrow> count_list (take n t) CHR ''-'' = 0" if "n \<le> length t" for n
    using scan_back_None [OF that] by (simp add: count_list_0_iff)
  show ?thesis
  proof (cases "scan_back t e")
    case None
    then show ?thesis using none [OF e] take e by (simp add: alpm_splitname_def Let_def min_absorb2)
  next
    case (Some p)
    then have "p \<le> length t" using scan_back_Some [OF Some] e by simp
    then show ?thesis
      using Some scan_back_count [OF Some e] none [of p] take e
      by (auto simp: alpm_splitname_def Let_def min_absorb2 split: option.splits)
  qed
qed

text \<open>the name hash is the polynomial hash of the bytes, so the hash of a concatenation is
  determined by the hashes and the length of the second part (arithmetic modulo 2 to the 64).\<close>

theorem hash_sdbm_append:
  "alpm_hash_sdbm (Some (s @ t)) =
   alpm_hash_sdbm (Some s) * 65599 ^ length t + alpm_hash_sdbm (Some t)"
  by (rule hash_append)

text \<open>\<open>_alpm_strip_newline\<close> called with the length of the line, or with 0, removes exactly
  the trailing newlines and returns the new length.\<close>

theorem strip_newline_spec:
  assumes "len = 0 \<or> len = length str"
  shows "alpm_strip_newline str len =
    (let s = rev (dropWhile (\<lambda>c. c = CHR 0x0A) (rev str)) in (s, length s))"
proof (cases "str = []")
  case False
  then show ?thesis
    using assms by (auto simp: alpm_strip_newline_def Let_def strip_len_rev take_strip)
qed (simp add: alpm_strip_newline_def)

theorem strip_newline_spec_witness:
  "alpm_strip_newline [CHR ''a'', CHR 0x0A, CHR 0x0A] 3 = (''a'', 1)"
  by (subst strip_newline_spec) simp_all

text \<open>\<open>_alpm_strtoofft\<close> accepts exactly the non-empty strings of digits and returns their
  value when it fits in \<open>off_t\<close>; values from 2 to the 63 to 2 to the 64 minus 1 are accepted
  too and come back negative, larger ones are refused.\<close>

theorem strtoofft_spec:
  "alpm_strtoofft line =
     (if line \<noteq> [] \<and> list_all isdigit line
      then let n = int (decimal line)
           in if n < 2 ^ 63 then n else if n < 2 ^ 64 then n - 2 ^ 64 else -1
      else -1)"
proof -
  have off: "to_off_t n = (if n < 2 ^ 63 then n else n - 2 ^ 64)" if "0 \<le> n" "n < 2 ^ 64" for n
    using that by (rule to_off_t_value)
  show ?thesis
  proof (cases "line \<noteq> [] \<and> list_all isdigit line")
    case True
    then have facts: "takeWhile isdigit line = line" "dropWhile isdigit line = []" "isdigit (hd line)"
      by (auto simp: takeWhile_eq_all_conv list_all_iff)
    show ?thesis
      using True off [of "int (decimal line)"] unfolding alpm_strtoofft_def Let_def facts(1,2) by (simp add: facts(3))
  next
    case False
    then have "line = [] \<or> dropWhile isdigit line \<noteq> []"
      by (auto simp: list_all_iff)
    then show ?thesis
      using False unfolding alpm_strtoofft_def Let_def by (simp only: if_False if_True simp_thms) auto
  qed
qed

text \<open>\<open>_alpm_fnmatch_patterns\<close> is decided by the last pattern of the list that matches,
  after removal of a leading exclamation mark or backslash: 0 for a plain pattern, 1 for an
  inverted one, -1 when no pattern matches.\<close>

theorem fnmatch_patterns_last_match:
  "alpm_fnmatch_patterns fnm patterns s =
     (let ms = filter (\<lambda>p. fnm (pattern_body p) s) patterns
      in if ms = [] then -1
         else if last ms \<noteq> [] \<and> hd (last ms) = CHR ''!'' then 1 else 0)"
proof (induction patterns rule: rev_induct)
  case (snoc p ps)
  then show ?case
    by (auto simp: alpm_fnmatch_patterns_def fnmatch_from_last_step Let_def
        simp del: fnmatch_from_last.simps(2))
qed (simp add: alpm_fnmatch_patterns_def)

end
