(* ===== verification/AlpmBase64.thy ===== *)
theory AlpmBase64
  imports AlpmPrelude
begin

text \<open>
  Base64 (\<open>lib/libalpm/base64.c\<close>, taken there from PolarSSL): \<open>base64_decode\<close> as the
  library compiles it, and \<open>base64_encode\<close>, which the file keeps under \<open>#if 0\<close> and
  which serves here as the inverse the decoder is measured against. Bytes are \<open>8 word\<close>, the
  accumulator \<open>x\<close> and the counter \<open>j\<close> are \<open>uint32_t\<close>, lengths are \<open>size_t\<close> values
  modelled by \<open>nat\<close> (no sum in the code comes near their limit for a buffer that exists).
\<close>

unbundle bit_operations_syntax


section \<open>Tables\<close>

definition base64_enc_map :: "u8 list" where
  "base64_enc_map =
    [65, 66, 67, 68, 69, 70, 71, 72, 73, 74,
     75, 76, 77, 78, 79, 80, 81, 82, 83, 84,
     85, 86, 87, 88, 89, 90, 97, 98, 99, 100,
     101, 102, 103, 104, 105, 106, 107, 108, 109, 110,
     111, 112, 113, 114, 115, 116, 117, 118, 119, 120,
     121, 122, 48, 49, 50, 51, 52, 53, 54, 55,
     56, 57, 43, 47]"

definition base64_dec_map :: "u8 list" where
  "base64_dec_map =
    [127, 127, 127, 127, 127, 127, 127, 127, 127, 127,
     127, 127, 127, 127, 127, 127, 127, 127, 127, 127,
     127, 127, 127, 127, 127, 127, 127, 127, 127, 127,
     127, 127, 127, 127, 127, 127, 127, 127, 127, 127,
     127, 127, 127,  62, 127, 127, 127,  63,  52,  53,
      54,  55,  56,  57,  58,  59,  60,  61, 127, 127,
     127,  64, 127, 127, 127,   0,   1,   2,   3,   4,
       5,   6,   7,   8,   9,  10,  11,  12,  13,  14,
      15,  16,  17,  18,  19,  20,  21,  22,  23,  24,
      25, 127, 127, 127, 127, 127, 127,  26,  27,  28,
      29,  30,  31,  32,  33,  34,  35,  36,  37,  38,
      39,  40,  41,  42,  43,  44,  45,  46,  47,  48,
      49,  50,  51, 127, 127, 127, 127, 127]"

abbreviation enc :: "u8 \<Rightarrow> u8" where
  "enc v \<equiv> base64_enc_map ! unat (v AND 0x3F)"

abbreviation dec :: "u8 \<Rightarrow> u8" where
  "dec c \<equiv> base64_dec_map ! unat c"

section \<open>The code\<close>

fun base64_encode :: "u8 list \<Rightarrow> u8 list" where
  "base64_encode (C1 # C2 # C3 # src) =
     enc (drop_bit 2 C1)
     # enc (push_bit 4 (C1 AND 3) + drop_bit 4 C2)
     # enc (push_bit 2 (C2 AND 15) + drop_bit 6 C3)
     # enc C3
     # base64_encode src"
| "base64_encode [C1, C2] =
     [enc (drop_bit 2 C1), enc (push_bit 4 (C1 AND 3) + drop_bit 4 C2),
      enc (push_bit 2 (C2 AND 15)), 61]"
| "base64_encode [C1] =
     [enc (drop_bit 2 C1), enc (push_bit 4 (C1 AND 3)), 61, 61]"
| "base64_encode [] = []"

text \<open>
  The first loop counts the significant characters (\<open>n\<close>) and refuses bad input
  (\<open>None\<close>): 13 is CR, 10 is LF, 61 is the padding character.
\<close>

fun base64_scan :: "u8 list \<Rightarrow> u32 \<Rightarrow> nat \<Rightarrow> nat option" where
  "base64_scan [] j n = Some n"
| "base64_scan (c # src) j n =
     (if c = 13 \<and> src \<noteq> [] \<and> hd src = 10 then base64_scan src j n
      else if c = 10 then base64_scan src j n
      else
        let j = (if c = 61 then j + 1 else j)
        in if c = 61 \<and> j > 2 then None
           else if c > 127 \<or> dec c = 127 then None
           else if dec c < 64 \<and> j \<noteq> 0 then None
           else base64_scan src j (n + 1))"

text \<open>The second loop decodes; its output is collected in order.\<close>

fun base64_fill :: "u8 list \<Rightarrow> u32 \<Rightarrow> nat \<Rightarrow> u32 \<Rightarrow> u8 list" where
  "base64_fill [] j n x = []"
| "base64_fill (c # src) j n x =
     (if c = 13 \<or> c = 10 then base64_fill src j n x
      else
        let j = j - (if dec c = 64 then 1 else 0);
            x = (push_bit 6 x) OR ucast (dec c AND 0x3F)
        in if n + 1 = 4
           then (if j > 0 then [ucast (drop_bit 16 x)] else [])
                @ (if j > 1 then [ucast (drop_bit 8 x)] else [])
                @ (if j > 2 then [ucast x] else [])
                @ base64_fill src j 0 x
           else base64_fill src j (n + 1) x)"

datatype base64_status = B64_OK | B64_INVALID_CHARACTER | B64_BUFFER_TOO_SMALL

text \<open>
  The status, the new value of \<open>*dlen\<close> and the bytes written to \<open>dst\<close>. Input without
  a significant character succeeds without touching \<open>*dlen\<close>.
\<close>

definition base64_decode :: "nat \<Rightarrow> u8 list \<Rightarrow> base64_status \<times> nat \<times> u8 list" where
  "base64_decode dlen src =
     (case base64_scan src 0 0 of
        None \<Rightarrow> (B64_INVALID_CHARACTER, dlen, [])
      | Some n \<Rightarrow>
          if n = 0 then (B64_OK, dlen, [])
          else
            let n = (n * 6 + 7) div 8
            in if dlen < n then (B64_BUFFER_TOO_SMALL, n, [])
               else let out = base64_fill src 3 0 0 in (B64_OK, length out, out))"

section \<open>The decoder inverts the encoder\<close>

lemma map_lengths: "length base64_enc_map = 64" "length base64_dec_map = 128"
  by (simp_all add: base64_enc_map_def base64_dec_map_def)

lemma enc_table:
  "\<forall>v\<in>set [0..<64]. (let c = base64_enc_map ! v in
     c \<noteq> 13 \<and> c \<noteq> 10 \<and> c \<noteq> 61 \<and> c \<le> 127 \<and> dec c = word_of_nat v)"
  by code_simp

lemma enc_char:
  fixes v :: u8
  defines "c \<equiv> enc v"
  shows "c \<noteq> 13" "c \<noteq> 10" "c \<noteq> 61" "\<not> 127 < c" "dec c = v AND 0x3F"
proof -
  have "v AND 0x3F \<le> 0x3F" by (rule word_and_le1)
  then have "unat (v AND 0x3F) \<le> unat (0x3F :: u8)" by (simp add: word_le_nat_alt)
  then have "unat (v AND 0x3F) \<in> set [0..<64]" by simp
  then show "c \<noteq> 13" "c \<noteq> 10" "c \<noteq> 61" "\<not> 127 < c" "dec c = v AND 0x3F"
    using enc_table unfolding c_def Let_def by (auto simp: not_less)
qed

lemma dec_61 [simp]: "base64_dec_map ! 61 = 64"
  by (simp add: base64_dec_map_def)

lemma and_63_less: "(v :: u8) AND 0x3F < 64" "(v :: u8) AND 0x3F \<noteq> 127" "(v :: u8) AND 0x3F \<noteq> 64"
proof -
  have "v AND 0x3F \<le> 0x3F" by (rule word_and_le1)
  then show "v AND 0x3F < 64" by (rule order_le_less_trans) simp
  then show "v AND 0x3F \<noteq> 127" "v AND 0x3F \<noteq> 64" by auto
qed

lemma mask6: "0x3F = (mask 6 :: u8)"
  by (simp add: mask_eq_exp_minus_1)

lemma mask2: "3 = (mask 2 :: u8)"
  by (simp add: mask_eq_exp_minus_1)

lemma mask4: "15 = (mask 4 :: u8)"
  by (simp add: mask_eq_exp_minus_1)

lemma high_bit: "8 \<le> n \<Longrightarrow> \<not> bit (w :: u8) n"
  using bit_imp_le_length [of w n] by auto

lemma sextet_or:
  "push_bit 4 (C1 AND 3) + drop_bit 4 (C2 :: u8) = push_bit 4 (C1 AND 3) OR drop_bit 4 C2"
  "push_bit 2 (C2 AND 15) + drop_bit 6 (C3 :: u8) = push_bit 2 (C2 AND 15) OR drop_bit 6 C3"
  by (rule disjunctive_add_eq_or, rule bit_word_eqI,
      auto simp: bit_simps mask2 mask4 dest: bit_imp_le_length)+

lemma byte_eqI:
  fixes v w :: u8
  assumes "bit v 0 = bit w 0" "bit v 1 = bit w 1" "bit v 2 = bit w 2" "bit v 3 = bit w 3"
    and "bit v 4 = bit w 4" "bit v 5 = bit w 5" "bit v 6 = bit w 6" "bit v 7 = bit w 7"
  shows "v = w"
proof (rule bit_word_eqI)
  fix n :: nat
  assume "n < LENGTH(8)"
  then have "n \<in> {0, 1, 2, 3, 4, 5, 6, 7}" by auto
  then show "bit v n = bit w n" using assms by blast
qed

text \<open>The accumulator after a group of four characters with the values \<open>a b c d\<close>.\<close>

definition sextets :: "u32 \<Rightarrow> u8 \<Rightarrow> u8 \<Rightarrow> u8 \<Rightarrow> u8 \<Rightarrow> u32" where
  "sextets x a b c d =
     push_bit 6 (push_bit 6 (push_bit 6 (push_bit 6 x OR ucast (a AND 0x3F))
       OR ucast (b AND 0x3F)) OR ucast (c AND 0x3F)) OR ucast (d AND 0x3F)"

lemmas sextet_bits = sextets_def bit_simps mask6 mask2 mask4 high_bit numeral_2_eq_2 [symmetric]

lemma sextets_byte1:
  "ucast (drop_bit 16 (sextets x (drop_bit 2 C1) (push_bit 4 (C1 AND 3) OR drop_bit 4 C2) c d)) = (C1 :: u8)"
  "ucast (drop_bit 16 (sextets x (drop_bit 2 C1) (push_bit 4 (C1 AND 3)) c d)) = (C1 :: u8)"
  by (rule byte_eqI; simp add: sextet_bits)+

lemma sextets_byte2:
  "ucast (drop_bit 8 (sextets x a (push_bit 4 (C1 AND 3) OR drop_bit 4 C2)
     (push_bit 2 (C2 AND 15) OR drop_bit 6 C3) d)) = (C2 :: u8)"
  "ucast (drop_bit 8 (sextets x a (push_bit 4 (C1 AND 3) OR drop_bit 4 C2)
     (push_bit 2 (C2 AND 15)) d)) = (C2 :: u8)"
  by (rule byte_eqI; simp add: sextet_bits)+

lemma sextets_byte3:
  "ucast (sextets x a b (push_bit 2 (C2 AND 15) OR drop_bit 6 C3) C3) = (C3 :: u8)"
  by (rule byte_eqI; simp add: sextet_bits)

lemma scan_encode: "base64_scan (base64_encode xs) 0 n = Some (n + length (base64_encode xs))"
  by (induction xs arbitrary: n rule: base64_encode.induct) (simp_all add: enc_char and_63_less)

lemma sextets_mask:
  "sextets x (a AND 0x3F) (b AND 0x3F) (c AND 0x3F) (d AND 0x3F) = sextets x a b c d"
  "sextets x (a AND 0x3F) (b AND 0x3F) (c AND 0x3F) 64 = sextets x a b c 0"
  "sextets x (a AND 0x3F) (b AND 0x3F) 64 64 = sextets x a b 0 0"
  by (simp_all add: sextets_def and.assoc)

text \<open>One group of four characters, of which the last two may be padding.\<close>

lemma fill_group:
  assumes "c1 \<notin> {13, 10}" "c2 \<notin> {13, 10}" "c3 \<notin> {13, 10}" "c4 \<notin> {13, 10}"
    and "dec c1 \<noteq> 64" "dec c2 \<noteq> 64" "dec c3 = 64 \<longrightarrow> dec c4 = 64"
  shows "base64_fill (c1 # c2 # c3 # c4 # src) 3 0 x =
    (let x' = sextets x (dec c1) (dec c2) (dec c3) (dec c4)
     in [ucast (drop_bit 16 x')]
        @ (if dec c3 = 64 then [] else [ucast (drop_bit 8 x')])
        @ (if dec c4 = 64 then [] else [ucast x'])
        @ base64_fill src (3 - (if dec c3 = 64 then 1 else 0) - (if dec c4 = 64 then 1 else 0)) 0 x')"
  using assms by (simp add: sextets_def Let_def)

lemma fill_encode: "base64_fill (base64_encode xs) 3 0 x = xs"
proof (induction xs arbitrary: x rule: base64_encode.induct)
  case (1 C1 C2 C3 src)
  define v1 v2 v3 where "v1 = drop_bit 2 C1" and "v2 = push_bit 4 (C1 AND 3) + drop_bit 4 C2"
    and "v3 = push_bit 2 (C2 AND 15) + drop_bit 6 C3"
  note v = this [unfolded sextet_or]
  have "base64_fill (enc v1 # enc v2 # enc v3 # enc C3 # base64_encode src) 3 0 x =
    (let x' = sextets x v1 v2 v3 C3
     in ucast (drop_bit 16 x') # ucast (drop_bit 8 x') # ucast x' # src)"
    by (subst fill_group) (simp_all add: enc_char and_63_less sextets_mask Let_def 1)
  then show ?case
    unfolding base64_encode.simps Let_def v1_def [symmetric] v2_def [symmetric] v3_def [symmetric]
    by (simp only: v sextets_byte1 sextets_byte2 sextets_byte3)
next
  case (2 C1 C2)
  define v1 v2 v3 where "v1 = drop_bit 2 C1" and "v2 = push_bit 4 (C1 AND 3) + drop_bit 4 C2"
    and "v3 = push_bit 2 (C2 AND 15)"
  note v = this [unfolded sextet_or]
  have "base64_fill [enc v1, enc v2, enc v3, 61] 3 0 x =
    (let x' = sextets x v1 v2 v3 0 in [ucast (drop_bit 16 x'), ucast (drop_bit 8 x')])"
    by (subst fill_group) (simp_all add: enc_char and_63_less sextets_mask Let_def)
  then show ?case
    unfolding base64_encode.simps Let_def v1_def [symmetric] v2_def [symmetric] v3_def [symmetric]
    by (simp only: v sextets_byte1 sextets_byte2)
next
  case (3 C1)
  define v1 v2 where "v1 = drop_bit 2 C1" and "v2 = push_bit 4 (C1 AND 3)"
  have "base64_fill [enc v1, enc v2, 61, 61] 3 0 x =
    (let x' = sextets x v1 v2 0 0 in [ucast (drop_bit 16 x')])"
    by (subst fill_group) (simp_all add: enc_char and_63_less sextets_mask Let_def)
  then show ?case
    unfolding base64_encode.simps Let_def v1_def [symmetric] v2_def [symmetric]
    by (simp only: v1_def v2_def sextets_byte1)
qed simp

lemma length_encode: "length (base64_encode xs) = 4 * ((length xs + 2) div 3)"
  by (induction xs rule: base64_encode.induct) (simp_all, presburger)

section \<open>The decoder stays inside its buffer\<close>

text \<open>The number of bytes the second loop looks at: everything but CR and LF.\<close>

definition significant :: "u8 list \<Rightarrow> nat" where
  "significant src = length (filter (\<lambda>c. c \<noteq> 13 \<and> c \<noteq> 10) src)"

lemma scan_counts: "base64_scan src j n = Some m \<Longrightarrow> m = n + significant src"
proof (induction src j n rule: base64_scan.induct)
  case (2 c src j n)
  have "dec 13 = 127" by (simp add: base64_dec_map_def)
  with 2 show ?case by (auto simp: significant_def Let_def split: if_splits)
qed (simp add: significant_def)

lemma group_length:
  "length ((if p then [a] else []) @ (if q then [b] else []) @ (if r then [c] else []) @ rest) \<le> 3 + length rest"
  by simp

lemma fill_length: "n < 4 \<Longrightarrow> 4 * length (base64_fill src j n x) \<le> 3 * (n + significant src)"
proof (induction src arbitrary: j n x)
  case Nil
  then show ?case by simp
next
  case (Cons c src)
  define j' where "j' = j - (if dec c = 64 then 1 else 0)"
  define x' where "x' = (push_bit 6 x) OR ucast (dec c AND 0x3F)"
  consider "c = 13 \<or> c = 10" | "c \<noteq> 13" "c \<noteq> 10" "n + 1 = 4" | "c \<noteq> 13" "c \<noteq> 10" "n + 1 < 4"
    using Cons.prems by fastforce
  then show ?case
  proof cases
    case 1
    then show ?thesis using Cons by (auto simp: significant_def)
  next
    case 2
    have "length (base64_fill (c # src) j n x) \<le> 3 + length (base64_fill src j' 0 x')"
      unfolding base64_fill.simps Let_def j'_def [symmetric] x'_def [symmetric]
      using 2 group_length by simp
    moreover have "4 * length (base64_fill src j' 0 x') \<le> 3 * (0 + significant src)"
      by (rule Cons.IH) simp
    ultimately show ?thesis using 2 by (simp add: significant_def)
  next
    case 3
    then have "base64_fill (c # src) j n x = base64_fill src j' (n + 1) x'"
      by (simp add: Let_def j'_def x'_def)
    then show ?thesis using Cons.IH [of "n + 1" j' x'] 3 by (simp add: significant_def)
  qed
qed

section \<open>Properties\<close>

text \<open>decoding what \<open>base64_encode\<close> produces gives the original bytes back, whenever the
  buffer has room for the decoder's estimate; every byte string, whatever its length modulo
  three, survives the round trip.\<close>

theorem base64_roundtrip:
  assumes "xs \<noteq> []" "(length (base64_encode xs) * 6 + 7) div 8 \<le> dlen"
  shows "base64_decode dlen (base64_encode xs) = (B64_OK, length xs, xs)"
proof -
  have "base64_encode xs \<noteq> []" using assms(1) by (cases xs rule: base64_encode.cases) auto
  then show ?thesis
    using assms(2) by (simp add: base64_decode_def scan_encode fill_encode Let_def)
qed

theorem base64_roundtrip_witness:
  "base64_decode 8 (base64_encode [1, 255, 128, 7]) = (B64_OK, 4, [1, 255, 128, 7])"
  using base64_roundtrip [of "[1, 255, 128, 7]" 8] by (simp add: length_encode)

text \<open>\<open>base64_decode\<close> never writes more bytes than the caller's buffer holds, for any
  input, and when it reports success with output the reported length is the number written.\<close>

theorem base64_decode_in_bounds:
  "length (snd (snd (base64_decode dlen src))) \<le> dlen"
proof -
  have "length (base64_fill src 3 0 0) \<le> (m * 6 + 7) div 8" if "base64_scan src 0 0 = Some m" for m
    using scan_counts [OF that] fill_length [of 0 src 3 0] by simp
  then show ?thesis
    by (auto simp: base64_decode_def Let_def split: option.splits intro: le_trans)
qed

text \<open>a call with an empty buffer, which the library makes first to learn the size,
  reports a size that is enough for the second call: the second call then never fails for lack
  of room.\<close>

theorem base64_size_query:
  assumes "base64_decode 0 src = (B64_BUFFER_TOO_SMALL, n, [])"
  shows "\<exists>out. base64_decode n src = (B64_OK, length out, out)"
  using assms by (auto simp: base64_decode_def Let_def split: option.splits if_splits)

theorem base64_size_query_witness:
  "\<exists>out. base64_decode 3 [89, 81, 61, 61] = (B64_OK, length out, out)"
  by (rule base64_size_query) code_simp

end
