(* ===== verification/AlpmList.thy ===== *)
theory AlpmList
  imports AlpmPrelude "HOL-Library.Multiset"
begin

text \<open>
  The list library (\<open>lib/libalpm/alpm_list.c\<close>) as its clients see it: an
  \<open>alpm_list_t *\<close> is the list of the data pointers of its nodes, \<open>NULL\<close> is \<open>[]\<close>. Callers
  store no \<open>NULL\<close> data, so the library's tests for it are always true. Comparison functions
  (\<open>alpm_list_fn_cmp\<close>) are arguments of type \<open>'a \<Rightarrow> 'a \<Rightarrow> int\<close>; what the sorted operations
  need of them is the locale \<open>comparator\<close>, and \<open>strcmp\<close> and the other comparison functions
  of the library are its interpretations.
\<close>

section \<open>The operations\<close>

definition alpm_list_add :: "'a list \<Rightarrow> 'a \<Rightarrow> 'a list" where
  "alpm_list_add xs x = xs @ [x]"

fun alpm_list_add_sorted :: "('a \<Rightarrow> 'a \<Rightarrow> int) \<Rightarrow> 'a list \<Rightarrow> 'a \<Rightarrow> 'a list" where
  "alpm_list_add_sorted fn [] x = [x]"
| "alpm_list_add_sorted fn (y # ys) x =
     (if fn x y \<le> 0 then x # y # ys else y # alpm_list_add_sorted fn ys x)"

fun alpm_list_mmerge :: "('a \<Rightarrow> 'a \<Rightarrow> int) \<Rightarrow> 'a list \<Rightarrow> 'a list \<Rightarrow> 'a list" where
  "alpm_list_mmerge fn [] right = right"
| "alpm_list_mmerge fn left [] = left"
| "alpm_list_mmerge fn (l # left) (r # right) =
     (if fn l r \<le> 0 then l # alpm_list_mmerge fn left (r # right)
      else r # alpm_list_mmerge fn (l # left) right)"

text \<open>
  The list is cut after \<open>half\<close> nodes. The count is the caller's; every caller passes the
  length of the list, and for a larger count the code would walk off its end.
\<close>

function alpm_list_msort :: "('a \<Rightarrow> 'a \<Rightarrow> int) \<Rightarrow> nat \<Rightarrow> 'a list \<Rightarrow> 'a list" where
  "alpm_list_msort fn n list =
     (if n > 1 then
        let half = n div 2;
            left = take half list;
            right = drop half list;
            left = alpm_list_msort fn half left;
            right = alpm_list_msort fn (n - half) right
        in alpm_list_mmerge fn left right
      else list)"
  by pat_completeness auto
termination by (relation "measure (\<lambda>(fn, n, xs). n)") auto

declare alpm_list_msort.simps [simp del]

text \<open>The data handed back through \<open>data\<close> is the second component.\<close>

fun alpm_list_remove :: "('a \<Rightarrow> 'b \<Rightarrow> int) \<Rightarrow> 'a list \<Rightarrow> 'b \<Rightarrow> 'a list \<times> 'a option" where
  "alpm_list_remove fn [] needle = ([], None)"
| "alpm_list_remove fn (x # xs) needle =
     (if fn x needle = 0 then (xs, Some x)
      else map_prod (Cons x) id (alpm_list_remove fn xs needle))"

definition alpm_list_remove_str :: "string list \<Rightarrow> string \<Rightarrow> string list \<times> string option" where
  "alpm_list_remove_str haystack needle = alpm_list_remove strcmp haystack needle"

fun alpm_list_find :: "('a \<Rightarrow> 'b \<Rightarrow> int) \<Rightarrow> 'a list \<Rightarrow> 'b \<Rightarrow> 'a option" where
  "alpm_list_find fn [] needle = None"
| "alpm_list_find fn (x # xs) needle =
     (if fn x needle = 0 then Some x else alpm_list_find fn xs needle)"

definition ptr_cmp :: "'a \<Rightarrow> 'a \<Rightarrow> int" where
  "ptr_cmp p q = (if p \<noteq> q then 1 else 0)"

definition alpm_list_find_ptr :: "'a list \<Rightarrow> 'a \<Rightarrow> 'a option" where
  "alpm_list_find_ptr haystack needle = alpm_list_find ptr_cmp haystack needle"

definition alpm_list_find_str :: "string list \<Rightarrow> string \<Rightarrow> string option" where
  "alpm_list_find_str haystack needle = alpm_list_find strcmp haystack needle"

fun remove_dupes_loop :: "'a list \<Rightarrow> 'a list \<Rightarrow> 'a list" where
  "remove_dupes_loop [] newlist = newlist"
| "remove_dupes_loop (x # lp) newlist =
     remove_dupes_loop lp
       (if alpm_list_find_ptr newlist x = None then alpm_list_add newlist x else newlist)"

definition alpm_list_remove_dupes :: "'a list \<Rightarrow> 'a list" where
  "alpm_list_remove_dupes list = remove_dupes_loop list []"

text \<open>Both result lists are appended to, so they are accumulators.\<close>

fun diff_sorted_loop ::
  "('a \<Rightarrow> 'a \<Rightarrow> int) \<Rightarrow> 'a list \<Rightarrow> 'a list \<Rightarrow> 'a list \<Rightarrow> 'a list \<Rightarrow> 'a list \<times> 'a list" where
  "diff_sorted_loop fn (l # ls) (r # rs) onlyleft onlyright =
     (let cmp = fn l r
      in if cmp < 0 then diff_sorted_loop fn ls (r # rs) (alpm_list_add onlyleft l) onlyright
         else if cmp > 0 then diff_sorted_loop fn (l # ls) rs onlyleft (alpm_list_add onlyright r)
         else diff_sorted_loop fn ls rs onlyleft onlyright)"
| "diff_sorted_loop fn (l # ls) [] onlyleft onlyright =
     diff_sorted_loop fn ls [] (alpm_list_add onlyleft l) onlyright"
| "diff_sorted_loop fn [] (r # rs) onlyleft onlyright =
     diff_sorted_loop fn [] rs onlyleft (alpm_list_add onlyright r)"
| "diff_sorted_loop fn [] [] onlyleft onlyright = (onlyleft, onlyright)"

definition alpm_list_diff_sorted ::
  "('a \<Rightarrow> 'a \<Rightarrow> int) \<Rightarrow> 'a list \<Rightarrow> 'a list \<Rightarrow> 'a list \<times> 'a list" where
  "alpm_list_diff_sorted fn left right = diff_sorted_loop fn left right [] []"

definition alpm_list_diff :: "('a \<Rightarrow> 'a \<Rightarrow> int) \<Rightarrow> 'a list \<Rightarrow> 'a list \<Rightarrow> 'a list" where
  "alpm_list_diff fn lhs rhs =
     (let left = alpm_list_msort fn (length lhs) lhs;
          right = alpm_list_msort fn (length rhs) rhs
      in fst (alpm_list_diff_sorted fn left right))"

text \<open>
  The two \<open>libc\<close> functions the library uses on arrays: \<open>qsort\<close>, which is a stable merge
  sort in glibc, and \<open>bsearch\<close>.
\<close>

definition qsort :: "('a \<Rightarrow> 'a \<Rightarrow> int) \<Rightarrow> 'a list \<Rightarrow> 'a list" where
  "qsort fn xs = alpm_list_msort fn (length xs) xs"

function bsearch_between :: "('k \<Rightarrow> 'a \<Rightarrow> int) \<Rightarrow> 'k \<Rightarrow> 'a list \<Rightarrow> nat \<Rightarrow> nat \<Rightarrow> 'a option" where
  "bsearch_between fn key xs l u =
     (if l < u then
        let idx = (l + u) div 2;
            c = fn key (xs ! idx)
        in if c < 0 then bsearch_between fn key xs l idx
           else if c > 0 then bsearch_between fn key xs (idx + 1) u
           else Some (xs ! idx)
      else None)"
  by pat_completeness auto
termination by (relation "measure (\<lambda>(fn, key, xs, l, u). u - l)") auto

declare bsearch_between.simps [simp del]

definition bsearch :: "('k \<Rightarrow> 'a \<Rightarrow> int) \<Rightarrow> 'k \<Rightarrow> 'a list \<Rightarrow> 'a option" where
  "bsearch fn key xs = bsearch_between fn key xs 0 (length xs)"

section \<open>What holds for every comparison function\<close>

lemma set_add_sorted [simp]: "set (alpm_list_add_sorted fn xs x) = insert x (set xs)"
  by (induction xs) auto

lemma mset_add_sorted [simp]: "mset (alpm_list_add_sorted fn xs x) = add_mset x (mset xs)"
  by (induction xs) auto

lemma add_sorted_not_Nil [simp]: "alpm_list_add_sorted fn xs x \<noteq> []"
  by (cases xs) auto

lemma mset_mmerge [simp]: "mset (alpm_list_mmerge fn xs ys) = mset xs + mset ys"
  by (induction fn xs ys rule: alpm_list_mmerge.induct) auto

lemma set_mmerge [simp]: "set (alpm_list_mmerge fn xs ys) = set xs \<union> set ys"
  by (induction fn xs ys rule: alpm_list_mmerge.induct) auto

lemma mset_msort [simp]: "mset (alpm_list_msort fn n xs) = mset xs"
proof (induction fn n xs rule: alpm_list_msort.induct)
  case (1 fn n xs)
  show ?case
  proof (cases "n > 1")
    case True
    have "mset (alpm_list_msort fn n xs) = mset (take (n div 2) xs) + mset (drop (n div 2) xs)"
      using 1 True by (subst alpm_list_msort.simps) (simp add: Let_def)
    then show ?thesis by (metis append_take_drop_id mset_append)
  qed (simp add: alpm_list_msort.simps)
qed

lemma set_msort [simp]: "set (alpm_list_msort fn n xs) = set xs"
  by (metis mset_msort set_mset_mset)

lemma length_msort [simp]: "length (alpm_list_msort fn n xs) = length xs"
  by (metis mset_msort size_mset)

lemma find_Some: "alpm_list_find fn xs n = Some x \<Longrightarrow> x \<in> set xs \<and> fn x n = 0"
  by (induction xs) (auto split: if_splits)

lemma find_None [simp]: "alpm_list_find fn xs n = None \<longleftrightarrow> (\<forall>x\<in>set xs. fn x n \<noteq> 0)"
  by (induction xs) auto

lemma find_first: "alpm_list_find fn xs n = List.find (\<lambda>x. fn x n = 0) xs"
  by (induction xs) auto

lemma ptr_cmp_0 [simp]: "ptr_cmp p q = 0 \<longleftrightarrow> p = q"
  by (simp add: ptr_cmp_def)

lemma find_ptr_None [simp]: "alpm_list_find_ptr xs x = None \<longleftrightarrow> x \<notin> set xs"
  by (auto simp: alpm_list_find_ptr_def)

lemma find_ptr_Some: "alpm_list_find_ptr xs x = (if x \<in> set xs then Some x else None)"
  by (auto simp: alpm_list_find_ptr_def dest: find_Some intro: find_None [THEN iffD2])
    (metis find_None find_Some not_None_eq ptr_cmp_0)

lemma find_str_Some: "alpm_list_find_str xs x = (if x \<in> set xs then Some x else None)"
  by (auto simp: alpm_list_find_str_def)
    (metis find_None find_Some not_None_eq strcmp_eq_0)

lemma remove_data: "snd (alpm_list_remove fn xs n) = alpm_list_find fn xs n"
  by (induction xs) auto

lemma remove_list:
  "fst (alpm_list_remove fn xs n) =
    (case alpm_list_find fn xs n of None \<Rightarrow> xs | Some x \<Rightarrow> remove1 x xs)"
  by (induction xs) (auto split: option.splits dest: find_Some)

lemma remove_cases:
  "(alpm_list_remove fn xs n = (xs, None) \<and> (\<forall>x\<in>set xs. fn x n \<noteq> 0)) \<or>
   (\<exists>us x vs. xs = us @ x # vs \<and> fn x n = 0 \<and> (\<forall>u\<in>set us. fn u n \<noteq> 0) \<and>
      alpm_list_remove fn xs n = (us @ vs, Some x))"
proof (induction xs)
  case (Cons y ys)
  show ?case
  proof (cases "fn y n = 0")
    case True
    then have "y # ys = [] @ y # ys \<and> fn y n = 0 \<and> (\<forall>u\<in>set []. fn u n \<noteq> 0) \<and>
      alpm_list_remove fn (y # ys) n = ([] @ ys, Some y)" by simp
    then show ?thesis by blast
  next
    case False
    from Cons.IH show ?thesis
    proof
      assume "alpm_list_remove fn ys n = (ys, None) \<and> (\<forall>x\<in>set ys. fn x n \<noteq> 0)"
      then show ?thesis using False by simp
    next
      assume "\<exists>us x vs. ys = us @ x # vs \<and> fn x n = 0 \<and> (\<forall>u\<in>set us. fn u n \<noteq> 0) \<and>
        alpm_list_remove fn ys n = (us @ vs, Some x)"
      then obtain us x vs where "ys = us @ x # vs" "fn x n = 0" "\<forall>u\<in>set us. fn u n \<noteq> 0"
        "alpm_list_remove fn ys n = (us @ vs, Some x)" by blast
      then have "y # ys = (y # us) @ x # vs \<and> fn x n = 0 \<and> (\<forall>u\<in>set (y # us). fn u n \<noteq> 0) \<and>
        alpm_list_remove fn (y # ys) n = ((y # us) @ vs, Some x)" using False by simp
      then show ?thesis by blast
    qed
  qed
qed simp

lemma remove_dupes_loop_acc:
  "distinct acc \<Longrightarrow> distinct (remove_dupes_loop xs acc) \<and>
   set (remove_dupes_loop xs acc) = set acc \<union> set xs"
  by (induction xs arbitrary: acc) (auto simp: alpm_list_add_def)

lemma remove_dupes_spec [simp]:
  "distinct (alpm_list_remove_dupes xs)" "set (alpm_list_remove_dupes xs) = set xs"
  using remove_dupes_loop_acc [of "[]" xs] by (simp_all add: alpm_list_remove_dupes_def)

text \<open>The two results of \<open>alpm_list_diff_sorted\<close> without accumulators.\<close>

fun only_left :: "('a \<Rightarrow> 'a \<Rightarrow> int) \<Rightarrow> 'a list \<Rightarrow> 'a list \<Rightarrow> 'a list" where
  "only_left fn (l # ls) (r # rs) =
     (if fn l r < 0 then l # only_left fn ls (r # rs)
      else if fn l r > 0 then only_left fn (l # ls) rs
      else only_left fn ls rs)"
| "only_left fn ls [] = ls"
| "only_left fn [] (r # rs) = []"

fun only_right :: "('a \<Rightarrow> 'a \<Rightarrow> int) \<Rightarrow> 'a list \<Rightarrow> 'a list \<Rightarrow> 'a list" where
  "only_right fn (l # ls) (r # rs) =
     (if fn l r < 0 then only_right fn ls (r # rs)
      else if fn l r > 0 then r # only_right fn (l # ls) rs
      else only_right fn ls rs)"
| "only_right fn ls [] = []"
| "only_right fn [] (r # rs) = r # rs"

lemma only_simps [simp]: "only_left fn [] rs = []" "only_right fn [] rs = rs"
  by (cases rs; simp)+

lemma diff_sorted_loop_only:
  "diff_sorted_loop fn ls rs a b = (a @ only_left fn ls rs, b @ only_right fn ls rs)"
  by (induction fn ls rs a b rule: diff_sorted_loop.induct) (auto simp: Let_def alpm_list_add_def)

lemma diff_sorted_only:
  "alpm_list_diff_sorted fn ls rs = (only_left fn ls rs, only_right fn ls rs)"
  by (simp add: alpm_list_diff_sorted_def diff_sorted_loop_only)

lemma only_left_subset: "set (only_left fn ls rs) \<subseteq> set ls"
  by (induction fn ls rs rule: only_left.induct) auto

lemma only_right_subset: "set (only_right fn ls rs) \<subseteq> set rs"
  by (induction fn ls rs rule: only_right.induct) auto

section \<open>Comparison functions\<close>

text \<open>
  The contract of an \<open>alpm_list_fn_cmp\<close> that the sorting operations rely on: swapping the
  arguments swaps the sign, and \<open>\<le> 0\<close> is transitive.
\<close>

lemma list2_induct [case_names Nil Nil2 Cons]:
  assumes "\<And>ys. P [] ys" "\<And>x xs. P (x # xs) []"
    and "\<And>x xs y ys. P xs (y # ys) \<Longrightarrow> P (x # xs) ys \<Longrightarrow> P xs ys \<Longrightarrow> P (x # xs) (y # ys)"
  shows "P xs ys"
proof (induction xs arbitrary: ys)
  case (Cons x xs)
  show ?case by (induction ys) (auto intro: assms Cons)
qed (rule assms)

locale comparator =
  fixes fn :: "'a \<Rightarrow> 'a \<Rightarrow> int"
  assumes swap: "fn a b < 0 \<longleftrightarrow> 0 < fn b a"
    and trans: "fn a b \<le> 0 \<Longrightarrow> fn b c \<le> 0 \<Longrightarrow> fn a c \<le> 0"
begin

abbreviation ordered :: "'a list \<Rightarrow> bool" where
  "ordered \<equiv> sorted_wrt (\<lambda>a b. fn a b \<le> 0)"

lemma refl [simp]: "fn a a = 0"
  using swap [of a a] by linarith

lemma total: "0 < fn a b \<Longrightarrow> fn b a < 0" "\<not> fn a b \<le> 0 \<Longrightarrow> fn b a \<le> 0"
  using swap [of b a] by auto

lemma zero_sym: "fn a b = 0 \<Longrightarrow> fn b a = 0"
  using swap [of a b] swap [of b a] by linarith

lemma trans_less: "fn a b < 0 \<Longrightarrow> fn b c \<le> 0 \<Longrightarrow> fn a c < 0" "fn a b \<le> 0 \<Longrightarrow> fn b c < 0 \<Longrightarrow> fn a c < 0"
  using trans [of b c a] trans [of c a b] swap by (smt (verit))+

lemma zero_cong: "fn a b = 0 \<Longrightarrow> fn a c = 0 \<longleftrightarrow> fn b c = 0"
  using trans [of a b c] trans [of b a c] zero_sym [of a b] swap trans [of c b a] trans [of c a b]
  by (smt (verit))

lemma zero_cong_less: "fn a b = 0 \<Longrightarrow> fn a c < 0 \<longleftrightarrow> fn b c < 0"
  using trans_less(2) [of a b c] trans_less(2) [of b a c] zero_sym [of a b] by linarith

lemma add_sorted_ordered: "ordered xs \<Longrightarrow> ordered (alpm_list_add_sorted fn xs x)"
  by (induction xs) (auto dest: total trans intro: trans)

lemma mmerge_ordered: "ordered xs \<Longrightarrow> ordered ys \<Longrightarrow> ordered (alpm_list_mmerge fn xs ys)"
  by (induction xs ys rule: list2_induct) (auto dest: total(2) trans)

lemma msort_ordered: "length xs \<le> n \<Longrightarrow> ordered (alpm_list_msort fn n xs)"
proof (induction n arbitrary: xs rule: less_induct)
  case (less n)
  show ?case
  proof (cases "n > 1")
    case True
    then have "n div 2 < n" "n - n div 2 < n" by auto
    moreover have "length (take (n div 2) xs) \<le> n div 2" "length (drop (n div 2) xs) \<le> n - n div 2"
      using less.prems by auto
    ultimately have "ordered (alpm_list_msort fn (n div 2) (take (n div 2) xs))"
      "ordered (alpm_list_msort fn (n - n div 2) (drop (n div 2) xs))"
      by (simp_all add: less.IH)
    then show ?thesis
      using True by (subst alpm_list_msort.simps) (simp add: Let_def mmerge_ordered)
  next
    case False
    then have "length xs \<le> 1" using less.prems by simp
    then have "ordered xs" by (cases xs) auto
    then show ?thesis using False by (simp add: alpm_list_msort.simps)
  qed
qed

text \<open>Stability: merging keeps the relative order of equivalent elements, left before right.\<close>

lemma mmerge_stable:
  "ordered xs \<Longrightarrow> filter (\<lambda>y. fn x y = 0) (alpm_list_mmerge fn xs ys) =
   filter (\<lambda>y. fn x y = 0) xs @ filter (\<lambda>y. fn x y = 0) ys"
proof (induction xs ys rule: list2_induct)
  case (Cons l left r right)
  show ?case
  proof (cases "fn l r \<le> 0")
    case False
    have "fn x y \<noteq> 0" if "fn x r = 0" "y \<in> set (l # left)" for y
    proof
      assume "fn x y = 0"
      have "fn r l < 0" using total(1) False by simp
      moreover have "fn l y \<le> 0" using that(2) Cons.prems by auto
      ultimately have "fn r y < 0" by (rule trans_less)
      then have "fn x y < 0" using zero_cong_less [OF that(1)] by simp
      with \<open>fn x y = 0\<close> show False by simp
    qed
    then have "filter (\<lambda>y. fn x y = 0) (l # left) = []" if "fn x r = 0"
      using that by (simp only: filter_empty_conv) blast
    then show ?thesis using Cons False by auto
  qed (use Cons in auto)
qed auto

lemma msort_stable:
  "filter (\<lambda>y. fn x y = 0) (alpm_list_msort fn n xs) = filter (\<lambda>y. fn x y = 0) xs"
  if "length xs \<le> n"
  using that
proof (induction n arbitrary: xs rule: less_induct)
  case (less n)
  show ?case
  proof (cases "n > 1")
    case True
    then have n: "n div 2 < n" "n - n div 2 < n" by auto
    have len: "length (take (n div 2) xs) \<le> n div 2" "length (drop (n div 2) xs) \<le> n - n div 2"
      using less.prems by auto
    have "filter (\<lambda>y. fn x y = 0) (alpm_list_msort fn n xs) =
      filter (\<lambda>y. fn x y = 0) (take (n div 2) xs) @ filter (\<lambda>y. fn x y = 0) (drop (n div 2) xs)"
      using True less.IH [OF n(1) len(1)] less.IH [OF n(2) len(2)]
      by (subst alpm_list_msort.simps) (simp add: Let_def mmerge_stable msort_ordered [OF len(1)])
    then show ?thesis by (simp flip: filter_append)
  qed (simp add: alpm_list_msort.simps)
qed

lemma ordered_only_left: "ordered ls \<Longrightarrow> ordered (only_left fn ls rs)"
  by (induction ls rs rule: list2_induct) (auto dest: set_mp [OF only_left_subset])

text \<open>
  On ordered lists the difference counts: of the elements equivalent to \<open>x\<close>, as many are
  only in the left list as it has more of them.
\<close>

lemma count_above: "ordered (r # rs) \<Longrightarrow> fn x r < 0 \<Longrightarrow> filter (\<lambda>y. fn x y = 0) (r # rs) = []"
  by (force simp: filter_empty_conv dest: trans_less(1))

lemma only_left_count:
  "ordered ls \<Longrightarrow> ordered rs \<Longrightarrow>
   length (filter (\<lambda>y. fn x y = 0) (only_left fn ls rs)) =
   length (filter (\<lambda>y. fn x y = 0) ls) - length (filter (\<lambda>y. fn x y = 0) rs)"
proof (induction ls rs rule: list2_induct)
  case (Cons l ls r rs)
  consider "fn l r < 0" | "fn l r > 0" | "fn l r = 0" by linarith
  then show ?case
  proof cases
    case 1
    have "filter (\<lambda>y. fn x y = 0) (r # rs) = []" if "fn x l = 0"
      using count_above Cons.prems(2) zero_cong_less [OF that] 1 by blast
    then show ?thesis using Cons.IH(1) Cons.prems 1 by auto
  next
    case 2
    have "filter (\<lambda>y. fn x y = 0) (l # ls) = []" if "fn x r = 0"
      using count_above Cons.prems(1) zero_cong_less [OF that] total(1) [OF 2] by blast
    then show ?thesis using Cons.IH(2) Cons.prems 2 by auto
  next
    case 3
    have "fn x l = 0 \<longleftrightarrow> fn x r = 0"
      using 3 zero_cong zero_sym by metis
    then show ?thesis using Cons.IH(3) Cons.prems 3 by auto
  qed
qed auto

text \<open>Binary search on an ordered array finds an equivalent element iff there is one.\<close>

lemma bsearch_between_Some:
  "bsearch_between fn key xs l u = Some x \<Longrightarrow> u \<le> length xs \<Longrightarrow> x \<in> set xs \<and> fn key x = 0"
proof (induction "u - l" arbitrary: l u rule: less_induct)
  case less
  define idx where "idx = (l + u) div 2"
  have "l < u" using less.prems by (subst (asm) bsearch_between.simps) (simp split: if_splits)
  then have idx: "l \<le> idx" "idx < u" by (auto simp: idx_def)
  consider "fn key (xs ! idx) < 0" | "fn key (xs ! idx) > 0" | "fn key (xs ! idx) = 0" by linarith
  then show ?case
  proof cases
    case 1
    then show ?thesis using less.hyps [of idx l] less.prems idx \<open>l < u\<close>
      by (subst (asm) bsearch_between.simps) (simp add: Let_def flip: idx_def)
  next
    case 2
    then show ?thesis using less.hyps [of u "idx + 1"] less.prems idx \<open>l < u\<close>
      by (subst (asm) bsearch_between.simps) (simp add: Let_def flip: idx_def)
  next
    case 3
    then show ?thesis using less.prems idx \<open>l < u\<close>
      by (subst (asm) bsearch_between.simps) (auto simp add: Let_def simp flip: idx_def)
  qed
qed

lemma bsearch_between_finds:
  assumes "ordered xs" "l \<le> k" "k < u" "u \<le> length xs" "fn key (xs ! k) = 0"
  shows "bsearch_between fn key xs l u \<noteq> None"
  using assms(2-)
proof (induction "u - l" arbitrary: l u rule: less_induct)
  case less
  define idx where "idx = (l + u) div 2"
  have idx: "l \<le> idx" "idx < u" "l < u" using less.prems by (auto simp: idx_def)
  have le: "fn (xs ! i) (xs ! j) \<le> 0" if "i \<le> j" "j < length xs" for i j
    using assms(1) that by (cases "i = j") (auto simp: sorted_wrt_iff_nth_less)
  consider "fn key (xs ! idx) < 0" | "fn key (xs ! idx) > 0" | "fn key (xs ! idx) = 0" by linarith
  then show ?case
  proof cases
    case 1
    have "k < idx"
    proof (rule ccontr)
      assume "\<not> k < idx"
      then have "fn key (xs ! k) < 0" using trans_less(1) [OF 1 le [of idx k]] less.prems by simp
      then show False using less.prems by simp
    qed
    then show ?thesis using 1 less.hyps [of idx l] less.prems idx
      by (subst bsearch_between.simps) (simp add: Let_def flip: idx_def)
  next
    case 2
    have "idx < k"
    proof (rule ccontr)
      assume "\<not> idx < k"
      then have "fn (xs ! k) key < 0"
        using trans_less(2) [OF le [of k idx] total(1) [OF 2]] idx less.prems by simp
      then show False using less.prems zero_sym by fastforce
    qed
    then show ?thesis using 2 less.hyps [of u "idx + 1"] less.prems idx
      by (subst bsearch_between.simps) (simp add: Let_def flip: idx_def)
  next
    case 3
    then show ?thesis using idx by (subst bsearch_between.simps) (simp add: Let_def flip: idx_def)
  qed
qed

lemma bsearch_Some: "bsearch fn key xs = Some x \<Longrightarrow> x \<in> set xs \<and> fn key x = 0"
  using bsearch_between_Some unfolding bsearch_def by blast

lemma bsearch_None: "ordered xs \<Longrightarrow> bsearch fn key xs = None \<longleftrightarrow> (\<forall>x\<in>set xs. fn key x \<noteq> 0)"
  using bsearch_between_finds [of xs 0 _ "length xs" key] bsearch_between_Some [of key xs 0 "length xs"]
  unfolding bsearch_def by (metis in_set_conv_nth le0 le_refl not_None_eq)

lemma qsort_ordered: "ordered (qsort fn xs)"
  by (simp add: qsort_def msort_ordered)

end

text \<open>Comparison functions that only return 0 on equal arguments.\<close>

locale strict_comparator = comparator +
  assumes eq: "fn a b = 0 \<Longrightarrow> a = b"
begin

lemma zero_iff: "fn a b = 0 \<longleftrightarrow> a = b"
  using eq by auto

lemma mset_only_left:
  "ordered ls \<Longrightarrow> ordered rs \<Longrightarrow> mset (only_left fn ls rs) = mset ls - mset rs"
  by (rule multiset_eqI) (use only_left_count in \<open>simp add: count_mset zero_iff count_list_eq_length_filter\<close>)

lemma diff_mset: "mset (alpm_list_diff fn lhs rhs) = mset lhs - mset rhs"
  by (simp add: alpm_list_diff_def Let_def diff_sorted_only mset_only_left msort_ordered)

lemma ordered_unique: "ordered xs \<Longrightarrow> ordered ys \<Longrightarrow> mset xs = mset ys \<Longrightarrow> xs = ys"
proof (induction xs arbitrary: ys)
  case (Cons x xs)
  obtain y ys' where ys: "ys = y # ys'" using Cons.prems(3) by (cases ys) auto
  have "y \<in> set (x # xs)" "x \<in> set ys"
    using Cons.prems(3) ys by (metis list.set_intros(1) mset_eq_setD)+
  then have "fn x y \<le> 0" "fn y x \<le> 0" using Cons.prems ys by auto
  then have "x = y" using eq total swap by (metis linorder_not_less order_le_less)
  then show ?case using Cons ys by simp
qed simp

lemma msort_unique: "mset xs = mset ys \<Longrightarrow> alpm_list_msort fn (length xs) xs = alpm_list_msort fn (length ys) ys"
  by (rule ordered_unique) (auto intro: msort_ordered)

end

interpretation strcmp: strict_comparator strcmp
  by unfold_locales (auto simp: strcmp_cmp3)

section \<open>Properties\<close>

text \<open>\<open>alpm_list_msort\<close> sorts stably for every comparison function that keeps the contract:
  its result is ordered, and each class of equivalent elements keeps its members and their
  order. (The two facts determine the result.)\<close>

theorem msort_sorts_stably:
  assumes "comparator fn"
  shows "sorted_wrt (\<lambda>a b. fn a b \<le> 0) (alpm_list_msort fn (length xs) xs) \<and>
    filter (\<lambda>y. fn x y = 0) (alpm_list_msort fn (length xs) xs) = filter (\<lambda>y. fn x y = 0) xs"
  using comparator.msort_ordered [OF assms] comparator.msort_stable [OF assms] by blast

theorem msort_sorts_stably_witness:
  "sorted_wrt (\<lambda>a b. strcmp a b \<le> 0) (alpm_list_msort strcmp 3 [''b'', ''a'', ''b'']) \<and>
   filter (\<lambda>y. strcmp ''b'' y = 0) (alpm_list_msort strcmp 3 [''b'', ''a'', ''b'']) = [''b'', ''b'']"
  using msort_sorts_stably [OF strcmp.comparator_axioms, of "[''b'', ''a'', ''b'']" "''b''"]
  by (simp add: numeral_3_eq_3)

text \<open>\<open>alpm_list_diff\<close> on strings is multiset difference whatever the order of its
  arguments: every string appears in the result as often as it appears more in the left list,
  and the result is sorted.\<close>

theorem list_diff_multiset:
  "mset (alpm_list_diff strcmp lhs rhs) = mset lhs - mset rhs \<and>
   sorted (alpm_list_diff strcmp lhs rhs)"
proof -
  have "sorted_wrt (\<lambda>a b. strcmp a b \<le> 0) (alpm_list_diff strcmp lhs rhs)"
    by (simp add: alpm_list_diff_def Let_def diff_sorted_only strcmp.ordered_only_left strcmp.msort_ordered)
  then show ?thesis by (simp add: strcmp.diff_mset strcmp_cmp3)
qed

end
