(* ===== verification/AlpmFilelist.thy ===== *)
theory AlpmFilelist
  imports AlpmList
begin

text \<open>
  File lists (\<open>lib/libalpm/filelist.c\<close>). An \<open>alpm_filelist_t\<close> (an array with its count) is
  the list of its entries; the walks over two arrays with the counters \<open>ctrA\<close> and \<open>ctrB\<close>
  are recursions over the two remaining tails. The entries of a package's list are its paths
  without the leading slash, directories with a trailing one; no path is empty.
\<close>

record alpm_file_t =
  fname :: string
  fsize :: int
  fmode :: nat

type_synonym alpm_filelist_t = "alpm_file_t list"

section \<open>The operations\<close>

fun filelist_difference_loop :: "alpm_filelist_t \<Rightarrow> alpm_filelist_t \<Rightarrow> string list \<Rightarrow> string list" where
  "filelist_difference_loop (a # filesA) (b # filesB) ret =
     (let cmp = strcmp (fname a) (fname b)
      in if cmp < 0 then filelist_difference_loop filesA (b # filesB) (alpm_list_add ret (fname a))
         else if cmp > 0 then filelist_difference_loop (a # filesA) filesB ret
         else filelist_difference_loop filesA filesB ret)"
| "filelist_difference_loop (a # filesA) [] ret =
     filelist_difference_loop filesA [] (alpm_list_add ret (fname a))"
| "filelist_difference_loop [] filesB ret = ret"

definition alpm_filelist_difference :: "alpm_filelist_t \<Rightarrow> alpm_filelist_t \<Rightarrow> string list" where
  "alpm_filelist_difference filesA filesB = filelist_difference_loop filesA filesB []"

text \<open>The subtraction is on (signed) \<open>char\<close>s, the terminator counts as 0.\<close>

fun alpm_filelist_pathcmp :: "string \<Rightarrow> string \<Rightarrow> int" where
  "alpm_filelist_pathcmp (a # p1) (b # p2) =
     (if a = b then alpm_filelist_pathcmp p1 p2 else schar a - schar b)"
| "alpm_filelist_pathcmp [] p2 =
     (let p2 = (if p2 \<noteq> [] \<and> hd p2 = CHR ''/'' then tl p2 else p2) in 0 - deref p2)"
| "alpm_filelist_pathcmp p1 [] =
     (let p1 = (if hd p1 = CHR ''/'' then tl p1 else p1) in deref p1 - 0)"

definition ends_slash :: "string \<Rightarrow> bool" where
  "ends_slash s \<longleftrightarrow> s \<noteq> [] \<and> s ! (length s - 1) = CHR ''/''"

fun filelist_intersection_loop :: "alpm_filelist_t \<Rightarrow> alpm_filelist_t \<Rightarrow> string list \<Rightarrow> string list" where
  "filelist_intersection_loop (a # filesA) (b # filesB) ret =
     (let cmp = alpm_filelist_pathcmp (fname a) (fname b)
      in if cmp < 0 then filelist_intersection_loop filesA (b # filesB) ret
         else if cmp > 0 then filelist_intersection_loop (a # filesA) filesB ret
         else
           let ret = (if \<not> ends_slash (fname a) \<or> \<not> ends_slash (fname b)
                      then alpm_list_add ret (fname a) else ret)
           in filelist_intersection_loop filesA filesB ret)"
| "filelist_intersection_loop [] filesB ret = ret"
| "filelist_intersection_loop filesA [] ret = ret"

definition alpm_filelist_intersection :: "alpm_filelist_t \<Rightarrow> alpm_filelist_t \<Rightarrow> string list" where
  "alpm_filelist_intersection filesA filesB = filelist_intersection_loop filesA filesB []"

definition alpm_files_cmp :: "alpm_file_t \<Rightarrow> alpm_file_t \<Rightarrow> int" where
  "alpm_files_cmp file1 file2 = strcmp (fname file1) (fname file2)"

text \<open>The search key is a file of which only the name is set.\<close>

definition alpm_filelist_contains :: "alpm_filelist_t option \<Rightarrow> string \<Rightarrow> alpm_file_t option" where
  "alpm_filelist_contains filelist path =
     (case filelist of
        None \<Rightarrow> None
      | Some files \<Rightarrow>
          bsearch alpm_files_cmp \<lparr>fname = path, fsize = 0, fmode = 0\<rparr> files)"

fun filelist_sort_from :: "alpm_filelist_t \<Rightarrow> nat \<Rightarrow> nat \<Rightarrow> bool" where
  "filelist_sort_from files i 0 = False"
| "filelist_sort_from files i (Suc k) =
     (strcmp (fname (files ! (i - 1))) (fname (files ! i)) > 0 \<or> filelist_sort_from files (i + 1) k)"

text \<open>\<open>filelist_sort_from files 1 (count - 1)\<close> is whether the loop meets a pair out of order.\<close>

definition alpm_filelist_sort :: "alpm_filelist_t \<Rightarrow> alpm_filelist_t" where
  "alpm_filelist_sort files =
     (if filelist_sort_from files 1 (length files - 1) then qsort alpm_files_cmp files else files)"

section \<open>Sorting and searching\<close>

interpretation files_cmp: comparator alpm_files_cmp
  by unfold_locales (auto simp: alpm_files_cmp_def strcmp_cmp3)

abbreviation names :: "alpm_filelist_t \<Rightarrow> string list" where
  "names files \<equiv> map fname files"

lemma ordered_names: "files_cmp.ordered files \<longleftrightarrow> sorted (names files)"
  by (simp add: alpm_files_cmp_def strcmp_cmp3 sorted_wrt_map)

lemma filelist_sort_from_iff:
  "filelist_sort_from files i k \<longleftrightarrow>
   (\<exists>j\<in>{i..<i + k}. fname (files ! j) < fname (files ! (j - 1)))"
proof (induction k arbitrary: i)
  case (Suc k)
  have "{i..<i + Suc k} = insert i {i + 1..<i + 1 + k}" by auto
  then show ?case using Suc by (simp add: strcmp_cmp3)
qed simp

lemma filelist_sort_sorted: "sorted (names (alpm_filelist_sort files))"
proof (cases "filelist_sort_from files 1 (length files - 1)")
  case True
  then show ?thesis
    using files_cmp.qsort_ordered [of files] by (simp add: alpm_filelist_sort_def ordered_names)
next
  case False
  have "fname (files ! i) \<le> fname (files ! Suc i)" if "Suc i < length files" for i
  proof -
    have "Suc i \<in> {1..<1 + (length files - 1)}" using that by auto
    then show ?thesis using False by (force simp: filelist_sort_from_iff not_less)
  qed
  then have "sorted (names files)" by (simp add: sorted_iff_nth_Suc)
  then show ?thesis using False by (simp add: alpm_filelist_sort_def)
qed

lemma filelist_sort_mset: "mset (alpm_filelist_sort files) = mset files"
  by (simp add: alpm_filelist_sort_def qsort_def)

section \<open>Difference\<close>

lemma distinct_mset_diff:
  assumes "distinct xs"
  shows "mset xs - mset ys = mset (filter (\<lambda>n. n \<notin> set ys) xs)"
proof (rule multiset_eqI)
  fix n
  have "count_list xs n \<le> 1" using assms by (simp add: distinct_count_atmost_1 flip: count_mset)
  moreover have "n \<in> set ys \<Longrightarrow> 1 \<le> count_list ys n" by (simp add: Suc_le_eq flip: count_mset)
  moreover have "n \<notin> set ys \<Longrightarrow> count_list ys n = 0" by simp
  moreover have "count_list (filter (\<lambda>n. n \<notin> set ys) xs) n = (if n \<in> set ys then 0 else count_list xs n)"
    by (induction xs) auto
  ultimately show "count (mset xs - mset ys) n = count (mset (filter (\<lambda>n. n \<notin> set ys) xs)) n"
    by (cases "n \<in> set ys") (simp_all add: count_mset)
qed

lemma difference_only_left:
  "filelist_difference_loop filesA filesB ret = ret @ only_left strcmp (names filesA) (names filesB)"
  by (induction filesA filesB ret rule: filelist_difference_loop.induct)
    (auto simp: Let_def alpm_list_add_def)

section \<open>Intersection\<close>

text \<open>
  The two spellings of a path, as file and as directory, and what the caller wants to know:
  the same path in both lists, not a directory in both.
\<close>

definition same_path :: "string \<Rightarrow> string \<Rightarrow> bool" where
  "same_path p q \<longleftrightarrow> p = q \<or> p = q @ ''/'' \<or> q = p @ ''/''"

definition conflicting :: "string \<Rightarrow> string \<Rightarrow> bool" where
  "conflicting p q \<longleftrightarrow> same_path p q \<and> \<not> (ends_slash p \<and> ends_slash q)"

definition ascii :: "string \<Rightarrow> bool" where
  "ascii s \<longleftrightarrow> (\<forall>c\<in>set s. 0 < uchar c \<and> uchar c < 128)"

text \<open>
  The lists the walk is made for: ASCII paths, strictly sorted, and no path both as a file
  and as a directory.
\<close>

definition proper_files :: "alpm_filelist_t \<Rightarrow> bool" where
  "proper_files files \<longleftrightarrow>
     sorted_wrt (<) (names files) \<and> (\<forall>p\<in>set (names files). ascii p) \<and>
     (\<forall>p\<in>set (names files). \<forall>q\<in>set (names files). \<forall>r.
        same_path p r \<longrightarrow> same_path q r \<longrightarrow> p = q)"

lemma schar_pos: "0 < uchar c \<Longrightarrow> uchar c < 128 \<Longrightarrow> schar c = uchar c"
  by (simp add: schar_def)

lemma deref_ascii: "ascii s \<Longrightarrow> 0 \<le> deref s \<and> (deref s = 0 \<longleftrightarrow> s = [])"
  by (cases s) (auto simp: ascii_def deref_def schar_pos)

lemma ascii_Cons [simp]: "ascii (c # s) \<longleftrightarrow> 0 < uchar c \<and> uchar c < 128 \<and> ascii s"
  by (auto simp: ascii_def)

lemma pathcmp_0:
  "ascii p \<Longrightarrow> ascii q \<Longrightarrow> alpm_filelist_pathcmp p q = 0 \<longleftrightarrow> same_path p q"
proof (induction p q rule: alpm_filelist_pathcmp.induct)
  case (1 a p1 b p2)
  then show ?case by (auto simp: same_path_def)
next
  case (2 p2)
  then show ?case
    using deref_ascii by (cases p2) (auto simp: same_path_def Let_def)
next
  case (3 a p1)
  then show ?case
    using deref_ascii by (auto simp: same_path_def Let_def deref_def schar_pos)
qed

lemma pathcmp_sign:
  "ascii p \<Longrightarrow> ascii q \<Longrightarrow> (alpm_filelist_pathcmp p q < 0 \<longrightarrow> p < q) \<and>
   (alpm_filelist_pathcmp p q > 0 \<longrightarrow> q < p)"
proof (induction p q rule: alpm_filelist_pathcmp.induct)
  case (1 a p1 b p2)
  then show ?case by (auto simp: schar_pos)
next
  case (2 p2)
  then show ?case
    using deref_ascii [of "tl p2"] deref_ascii [of p2] by (cases p2) (auto simp: Let_def)
next
  case (3 a p1)
  then have "ascii (a # p1)" "ascii p1" by auto
  then show ?case using deref_ascii [of p1] deref_ascii [of "a # p1"] by (simp add: Let_def)
qed

lemma intersection_acc:
  "filelist_intersection_loop A B ret = ret @ filelist_intersection_loop A B []"
proof (induction A B arbitrary: ret rule: list2_induct)
  case (Cons a A b B)
  let ?c = "alpm_filelist_pathcmp (fname a) (fname b)"
  let ?r = "if \<not> ends_slash (fname a) \<or> \<not> ends_slash (fname b) then [fname a] else []"
  consider "?c < 0" | "?c > 0" | "?c = 0" by linarith
  then show ?case
  proof cases
    case 1
    then show ?thesis using Cons.IH(1) [of ret] by simp
  next
    case 2
    then show ?thesis using Cons.IH(2) [of ret] by (simp add: Let_def)
  next
    case 3
    then have "filelist_intersection_loop (a # A) (b # B) r = filelist_intersection_loop A B (r @ ?r)" for r
      by (simp add: Let_def alpm_list_add_def)
    then show ?thesis using Cons.IH(3) [of "ret @ ?r"] Cons.IH(3) [of ?r] by simp
  qed
qed auto

lemma intersection_sound:
  "x \<in> set (filelist_intersection_loop A B []) \<Longrightarrow> \<forall>p\<in>set (names A) \<union> set (names B). ascii p \<Longrightarrow>
   x \<in> set (names A) \<and> (\<exists>y\<in>set (names B). conflicting x y)"
proof (induction A B rule: list2_induct)
  case (Cons a A b B)
  have ab: "ascii (fname a)" "ascii (fname b)" using Cons.prems by auto
  consider "alpm_filelist_pathcmp (fname a) (fname b) < 0" | "alpm_filelist_pathcmp (fname a) (fname b) > 0"
    | "alpm_filelist_pathcmp (fname a) (fname b) = 0" by linarith
  then show ?case
  proof cases
    case 1
    then show ?thesis using Cons by simp
  next
    case 2
    then show ?thesis using Cons by (simp add: Let_def)
  next
    case 3
    then have "same_path (fname a) (fname b)" using pathcmp_0 ab by simp
    then show ?thesis
      using 3 Cons intersection_acc [of A B "[fname a]"]
      by (auto simp: Let_def alpm_list_add_def conflicting_def split: if_splits)
  qed
qed auto

lemma proper_files_Cons: "proper_files (a # A) \<Longrightarrow> proper_files A"
  by (auto simp: proper_files_def)

lemma intersection_complete:
  assumes "proper_files A" "proper_files B" "x \<in> set (names A)" "y \<in> set (names B)" "conflicting x y"
    and "\<forall>z\<in>set (names A) \<union> set (names B). \<not> (x < z \<and> z < y) \<and> \<not> (y < z \<and> z < x)"
  shows "x \<in> set (filelist_intersection_loop A B [])"
  using assms
proof (induction A B rule: list2_induct)
  case (Cons a A b B)
  note pA = proper_files_Cons [OF Cons.prems(1)] and pB = proper_files_Cons [OF Cons.prems(2)]
  let ?a = "fname a" and ?b = "fname b"
  have asc: "ascii ?a" "ascii ?b" "ascii x" "ascii y"
    using Cons.prems by (auto simp: proper_files_def)
  have le: "?a \<le> x" "?b \<le> y"
    using Cons.prems by (auto simp: proper_files_def intro: less_imp_le)
  have xy: "alpm_filelist_pathcmp x y = 0"
    using Cons.prems(5) asc by (simp add: pathcmp_0 conflicting_def)
  consider "alpm_filelist_pathcmp ?a ?b < 0" | "alpm_filelist_pathcmp ?a ?b > 0"
    | "alpm_filelist_pathcmp ?a ?b = 0" by linarith
  then show ?case
  proof cases
    case 1
    have "x \<noteq> ?a"
    proof
      assume "x = ?a"
      moreover have "?a < ?b" using 1 pathcmp_sign asc by blast
      moreover have "y \<noteq> ?b" using 1 xy \<open>x = ?a\<close> by auto
      ultimately show False using le Cons.prems(6) by auto
    qed
    then have "x \<in> set (names A)" using Cons.prems by auto
    then have "x \<in> set (filelist_intersection_loop A (b # B) [])"
      using Cons.IH(1) pA Cons.prems by (metis Un_iff list.set_intros(2) list.simps(9))
    then show ?thesis using 1 by simp
  next
    case 2
    have "y \<noteq> ?b"
    proof
      assume "y = ?b"
      moreover have "?b < ?a" using 2 pathcmp_sign asc by blast
      moreover have "x \<noteq> ?a" using 2 xy \<open>y = ?b\<close> by auto
      ultimately show False using le Cons.prems(6) by auto
    qed
    then have "y \<in> set (names B)" using Cons.prems by auto
    then have "x \<in> set (filelist_intersection_loop (a # A) B [])"
      using Cons.IH(2) pB Cons.prems by (metis Un_iff list.set_intros(2) list.simps(9))
    then show ?thesis using 2 by (simp add: Let_def)
  next
    case 3
    have same: "same_path ?a ?b" "same_path x y"
      using 3 xy asc by (simp_all add: pathcmp_0)
    have sym: "same_path p q \<Longrightarrow> same_path q p" for p q by (auto simp: same_path_def)
    have "x = ?a \<longleftrightarrow> y = ?b"
      using Cons.prems(1-4) same sym unfolding proper_files_def
      by (metis list.set_intros(1) list.simps(9))
    then show ?thesis
    proof (cases "x = ?a")
      case True
      then show ?thesis
        using 3 \<open>x = ?a \<longleftrightarrow> y = ?b\<close> Cons.prems(5) intersection_acc [of A B "[?a]"]
        by (simp add: Let_def alpm_list_add_def conflicting_def)
    next
      case False
      then have "x \<in> set (names A)" "y \<in> set (names B)"
        using \<open>x = ?a \<longleftrightarrow> y = ?b\<close> Cons.prems by auto
      then have "x \<in> set (filelist_intersection_loop A B [])"
        using Cons.IH(3) pA pB Cons.prems by simp
      then show ?thesis
        using 3 intersection_acc [of A B "[?a]"] by (simp add: Let_def alpm_list_add_def)
    qed
  qed
qed auto

abbreviation named :: "string \<Rightarrow> alpm_file_t" where
  "named n \<equiv> \<lparr>fname = n, fsize = 0, fmode = 0\<rparr>"

section \<open>Properties\<close>

text \<open>after \<open>_alpm_filelist_sort\<close>, whatever the order before, \<open>alpm_filelist_contains\<close>
  finds exactly the paths that the list has: it returns an entry of that name if there is one
  and \<open>NULL\<close> otherwise. Sorting only reorders the entries.\<close>

theorem filelist_contains_after_sort:
  "(case alpm_filelist_contains (Some (alpm_filelist_sort files)) path of
      None \<Rightarrow> path \<notin> set (names files)
    | Some f \<Rightarrow> f \<in> set files \<and> fname f = path) \<and>
   mset (alpm_filelist_sort files) = mset files"
proof -
  have "files_cmp.ordered (alpm_filelist_sort files)"
    by (simp only: ordered_names filelist_sort_sorted)
  moreover have "set (alpm_filelist_sort files) = set files"
    by (metis filelist_sort_mset set_mset_mset)
  ultimately show ?thesis
    using files_cmp.bsearch_Some files_cmp.bsearch_None
    by (fastforce simp: alpm_filelist_contains_def alpm_files_cmp_def filelist_sort_mset split: option.split)
qed

text \<open>the difference of two sorted file lists is the multiset difference of their names, in
  order: with duplicate-free lists, exactly the files of the first that the second lacks.\<close>

theorem filelist_difference_spec:
  assumes "sorted (names A)" "sorted (names B)" "distinct (names A)"
  shows "alpm_filelist_difference A B = filter (\<lambda>n. n \<notin> set (names B)) (names A)"
proof (rule strcmp.ordered_unique)
  have ord: "strcmp.ordered (names A)" "strcmp.ordered (names B)"
    using assms by (simp_all add: strcmp_cmp3)
  then show "strcmp.ordered (alpm_filelist_difference A B)"
    by (simp add: alpm_filelist_difference_def difference_only_left strcmp.ordered_only_left)
  show "strcmp.ordered (filter (\<lambda>n. n \<notin> set (names B)) (names A))"
    using ord(1) by (rule sorted_wrt_filter)
  have "mset (names A) - mset (names B) = mset (filter (\<lambda>n. n \<notin> set (names B)) (names A))"
    using assms(3) by (rule distinct_mset_diff)
  then show "mset (alpm_filelist_difference A B) = mset (filter (\<lambda>n. n \<notin> set (names B)) (names A))"
    using strcmp.mset_only_left [OF ord]
    by (simp add: alpm_filelist_difference_def difference_only_left del: mset_map)
qed

theorem filelist_difference_spec_witness:
  "alpm_filelist_difference [\<lparr>fname = ''a'', fsize = 1, fmode = 0\<rparr>, \<lparr>fname = ''b'', fsize = 1, fmode = 0\<rparr>]
     [\<lparr>fname = ''a'', fsize = 2, fmode = 0\<rparr>] = [''b'']"
  by (subst filelist_difference_spec) (simp_all add: less_char_def)

text \<open>the intersection of two proper file lists only reports paths of the first list that
  the second also has, not as a directory in both; and it reports every such path for which
  no other entry of the lists sorts between its two spellings: in particular every common file.\<close>

theorem filelist_intersection_spec:
  assumes "proper_files A" "proper_files B"
  shows "set (alpm_filelist_intersection A B) \<subseteq>
      {x \<in> set (names A). \<exists>y\<in>set (names B). conflicting x y} \<and>
    {x \<in> set (names A). \<exists>y\<in>set (names B). conflicting x y \<and>
       (\<forall>z\<in>set (names A) \<union> set (names B). \<not> (x < z \<and> z < y) \<and> \<not> (y < z \<and> z < x))}
      \<subseteq> set (alpm_filelist_intersection A B)"
proof (intro conjI subsetI)
  have "\<forall>p\<in>set (names A) \<union> set (names B). ascii p" using assms by (auto simp: proper_files_def)
  then show "x \<in> {x \<in> set (names A). \<exists>y\<in>set (names B). conflicting x y}"
    if "x \<in> set (alpm_filelist_intersection A B)" for x
    using intersection_sound [OF that [unfolded alpm_filelist_intersection_def]] by blast
qed (use intersection_complete [OF assms] in \<open>auto simp: alpm_filelist_intersection_def\<close>)

theorem filelist_intersection_spec_witness:
  "''b'' \<in> set (alpm_filelist_intersection [named ''a'', named ''b''] [named ''b''])"
proof -
  have "proper_files [named ''a'', named ''b'']" "proper_files [named ''b'']"
    by (auto simp: proper_files_def same_path_def ascii_def uchar_def less_char_def)
  from filelist_intersection_spec [OF this] show ?thesis
    by (auto simp: conflicting_def same_path_def ends_slash_def)
qed

text \<open>the condition matters, the walk does miss conflicts: a package with the file \<open>foo\<close>
  and one with the directory \<open>foo/\<close> are not reported when the second also has \<open>foo-bar\<close>,
  which \<open>strcmp\<close> sorts between the two, although both lists are proper.\<close>

theorem filelist_intersection_misses:
  "proper_files [named ''foo''] \<and> proper_files [named ''foo-bar'', named ''foo/''] \<and>
   conflicting ''foo'' ''foo/'' \<and>
   alpm_filelist_intersection [named ''foo''] [named ''foo-bar'', named ''foo/''] = [] \<and>
   alpm_filelist_intersection [named ''foo''] [named ''foo/''] = [''foo'']"
  by (auto simp: proper_files_def conflicting_def same_path_def alpm_filelist_intersection_def
      ends_slash_def deref_def schar_def uchar_def less_char_def ascii_def Let_def alpm_list_add_def)

end
