(* ===== verification/AlpmTypes.thy ===== *)
theory AlpmTypes
  imports AlpmVersion AlpmUtil AlpmFilelist
begin

text \<open>
  The data the components share (\<open>alpm.h\<close>, \<open>package.h\<close>, \<open>handle.h\<close>, \<open>trans.h\<close>). Structures
  that the library passes by pointer and compares or updates through it (packages, databases)
  live in stores: a pointer is a number and the store maps it to the structure. Everything
  else is a value. A string that may be \<open>NULL\<close> is a \<open>string option\<close>. Bit fields are \<open>int\<close>
  in C and 32-bit words here. Memory allocation succeeds.
\<close>

unbundle bit_operations_syntax


type_synonym pkgref = nat
type_synonym dbref = nat

section \<open>Error codes\<close>

datatype alpm_errno_t =
    ALPM_ERR_OK | ALPM_ERR_MEMORY | ALPM_ERR_SYSTEM
  | ALPM_ERR_BADPERMS | ALPM_ERR_NOT_A_FILE | ALPM_ERR_NOT_A_DIR
  | ALPM_ERR_WRONG_ARGS | ALPM_ERR_DISK_SPACE | ALPM_ERR_HANDLE_NULL
  | ALPM_ERR_HANDLE_NOT_NULL | ALPM_ERR_HANDLE_LOCK | ALPM_ERR_DB_OPEN
  | ALPM_ERR_DB_CREATE | ALPM_ERR_DB_NULL | ALPM_ERR_DB_NOT_NULL
  | ALPM_ERR_DB_NOT_FOUND | ALPM_ERR_DB_INVALID | ALPM_ERR_DB_INVALID_SIG
  | ALPM_ERR_DB_VERSION | ALPM_ERR_DB_WRITE | ALPM_ERR_DB_REMOVE
  | ALPM_ERR_SERVER_BAD_URL | ALPM_ERR_SERVER_NONE | ALPM_ERR_TRANS_NOT_NULL
  | ALPM_ERR_TRANS_NULL | ALPM_ERR_TRANS_DUP_TARGET | ALPM_ERR_TRANS_DUP_FILENAME
  | ALPM_ERR_TRANS_NOT_INITIALIZED | ALPM_ERR_TRANS_NOT_PREPARED | ALPM_ERR_TRANS_ABORT
  | ALPM_ERR_TRANS_TYPE | ALPM_ERR_TRANS_NOT_LOCKED | ALPM_ERR_TRANS_HOOK_FAILED
  | ALPM_ERR_PKG_NOT_FOUND | ALPM_ERR_PKG_IGNORED | ALPM_ERR_PKG_INVALID
  | ALPM_ERR_PKG_INVALID_CHECKSUM | ALPM_ERR_PKG_INVALID_SIG | ALPM_ERR_PKG_MISSING_SIG
  | ALPM_ERR_PKG_OPEN | ALPM_ERR_PKG_CANT_REMOVE | ALPM_ERR_PKG_INVALID_NAME
  | ALPM_ERR_PKG_INVALID_ARCH | ALPM_ERR_SIG_MISSING | ALPM_ERR_SIG_INVALID
  | ALPM_ERR_UNSATISFIED_DEPS | ALPM_ERR_CONFLICTING_DEPS | ALPM_ERR_FILE_CONFLICTS
  | ALPM_ERR_RETRIEVE | ALPM_ERR_INVALID_REGEX | ALPM_ERR_LIBARCHIVE
  | ALPM_ERR_LIBCURL | ALPM_ERR_EXTERNAL_DOWNLOAD | ALPM_ERR_GPGME
  | ALPM_ERR_MISSING_CAPABILITY_SIGNATURES

section \<open>Dependencies\<close>

datatype alpm_depmod_t =
    ALPM_DEP_MOD_ANY | ALPM_DEP_MOD_EQ | ALPM_DEP_MOD_GE | ALPM_DEP_MOD_LE
  | ALPM_DEP_MOD_GT | ALPM_DEP_MOD_LT

record alpm_depend_t =
  dname :: string
  dversion :: "string option"
  ddesc :: "string option"
  dname_hash :: u64
  dmod :: alpm_depmod_t

record alpm_depmissing_t =
  miss_target :: string
  miss_depend :: alpm_depend_t
  miss_causingpkg :: "string option"

record alpm_conflict_t =
  package1_hash :: u64
  package2_hash :: u64
  package1 :: string
  package2 :: string
  conflict_reason :: alpm_depend_t

datatype alpm_fileconflicttype_t = ALPM_FILECONFLICT_TARGET | ALPM_FILECONFLICT_FILESYSTEM

record alpm_fileconflict_t =
  fc_target :: string
  fc_type :: alpm_fileconflicttype_t
  fc_file :: string
  fc_ctarget :: "string option"

section \<open>Packages\<close>

record alpm_backup_t =
  bname :: string
  bhash :: "string option"

record alpm_group_t =
  gname :: string
  gpackages :: "pkgref list"

text \<open>A reason the library has no name for can come out of the local database.\<close>

datatype alpm_pkgreason_t = ALPM_PKG_REASON_EXPLICIT | ALPM_PKG_REASON_DEPEND | Other_reason u32

datatype alpm_pkgfrom_t = ALPM_PKG_FROM_FILE | ALPM_PKG_FROM_LOCALDB | ALPM_PKG_FROM_SYNCDB

text \<open>The union \<open>origin_data\<close>: which member is in use follows from \<open>origin\<close>.\<close>

datatype origin_data = Origin_db dbref | Origin_file string

text \<open>
  The accessor table \<open>ops\<close> is left out: every accessor, lazy or not, returns the field of
  the loaded package. \<open>handle\<close> is left out as there is one handle.
\<close>

record alpm_pkg_t =
  name_hash :: u64
  filename :: "string option"
  base :: "string option"
  pname :: string
  version :: "string option"
  desc :: "string option"
  url :: "string option"
  packager :: "string option"
  md5sum :: "string option"
  sha256sum :: "string option"
  base64_sig :: "string option"
  arch :: "string option"
  builddate :: int
  installdate :: int
  psize :: int
  isize :: int
  download_size :: int
  licenses :: "string list"
  replaces :: "alpm_depend_t list"
  groups :: "string list"
  backup :: "alpm_backup_t list"
  depends :: "alpm_depend_t list"
  optdepends :: "alpm_depend_t list"
  checkdepends :: "alpm_depend_t list"
  makedepends :: "alpm_depend_t list"
  conflicts :: "alpm_depend_t list"
  provides :: "alpm_depend_t list"
  removes :: "pkgref list"
  oldpkg :: "pkgref option"
  files :: alpm_filelist_t
  origin_data :: origin_data
  origin :: alpm_pkgfrom_t
  preason :: alpm_pkgreason_t
  scriptlet :: bool
  infolevel :: u32
  validation :: u32

type_synonym pkgs = "pkgref \<Rightarrow> alpm_pkg_t"

text \<open>A package as \<open>calloc\<close> makes it, with no origin (the value 0) standing for a file.\<close>

definition alpm_pkg_new :: alpm_pkg_t where
  "alpm_pkg_new =
     \<lparr>name_hash = 0, filename = None, base = None, pname = [], version = None, desc = None,
      url = None, packager = None, md5sum = None, sha256sum = None, base64_sig = None,
      arch = None, builddate = 0, installdate = 0, psize = 0, isize = 0, download_size = 0,
      licenses = [], replaces = [], groups = [], backup = [], depends = [], optdepends = [],
      checkdepends = [], makedepends = [], conflicts = [], provides = [], removes = [],
      oldpkg = None, files = [], origin_data = Origin_file [], origin = ALPM_PKG_FROM_FILE,
      preason = ALPM_PKG_REASON_EXPLICIT, scriptlet = False, infolevel = 0, validation = 0\<rparr>"

section \<open>Transactions and the handle\<close>

datatype alpm_transstate_t =
    STATE_IDLE | STATE_INITIALIZED | STATE_PREPARED | STATE_DOWNLOADING
  | STATE_COMMITING | STATE_COMMITED | STATE_INTERRUPTED

record alpm_trans_t =
  tflags :: u32
  tstate :: alpm_transstate_t
  unresolvable :: "pkgref list"
  tadd :: "pkgref list"
  tremove :: "pkgref list"
  skip_remove :: "string list"

abbreviation "ALPM_TRANS_FLAG_NODEPS \<equiv> 1 :: u32"
abbreviation "ALPM_TRANS_FLAG_NOSAVE \<equiv> 4 :: u32"
abbreviation "ALPM_TRANS_FLAG_NODEPVERSION \<equiv> 8 :: u32"
abbreviation "ALPM_TRANS_FLAG_CASCADE \<equiv> 16 :: u32"
abbreviation "ALPM_TRANS_FLAG_RECURSE \<equiv> 32 :: u32"
abbreviation "ALPM_TRANS_FLAG_DBONLY \<equiv> 64 :: u32"
abbreviation "ALPM_TRANS_FLAG_NOHOOKS \<equiv> 128 :: u32"
abbreviation "ALPM_TRANS_FLAG_ALLDEPS \<equiv> 256 :: u32"
abbreviation "ALPM_TRANS_FLAG_DOWNLOADONLY \<equiv> 512 :: u32"
abbreviation "ALPM_TRANS_FLAG_NOSCRIPTLET \<equiv> 1024 :: u32"
abbreviation "ALPM_TRANS_FLAG_NOCONFLICTS \<equiv> 2048 :: u32"
abbreviation "ALPM_TRANS_FLAG_NEEDED \<equiv> 8192 :: u32"
abbreviation "ALPM_TRANS_FLAG_ALLEXPLICIT \<equiv> 16384 :: u32"
abbreviation "ALPM_TRANS_FLAG_UNNEEDED \<equiv> 32768 :: u32"
abbreviation "ALPM_TRANS_FLAG_RECURSEALL \<equiv> 65536 :: u32"
abbreviation "ALPM_TRANS_FLAG_NOLOCK \<equiv> 131072 :: u32"

text \<open>The callbacks and their contexts, as addresses: 0 is the null pointer.\<close>

record alpm_callbacks =
  logcb :: u64
  logcb_ctx :: u64
  dlcb :: u64
  dlcb_ctx :: u64
  fetchcb :: u64
  fetchcb_ctx :: u64
  eventcb :: u64
  eventcb_ctx :: u64
  questioncb :: u64
  questioncb_ctx :: u64
  progresscb :: u64
  progresscb_ctx :: u64

text \<open>
  The handle without the state of curl. A stream is whether it is open; \<open>root\<close>, \<open>dbpath\<close> and
  \<open>dbext\<close>, which are never empty once set, are empty for the null pointer.
\<close>

record alpm_handle_t =
  db_local :: "dbref option"
  dbs_sync :: "dbref list"
  trans :: "alpm_trans_t option"
  root :: string
  dbpath :: string
  logfile :: "string option"
  lockfile :: "string option"
  gpgdir :: "string option"
  logstream :: bool
  callbacks :: alpm_callbacks
  known_keys :: "string list"
  cachedirs :: "string list"
  hookdirs :: "string list"
  overwrite_files :: "string list"
  noupgrade :: "string list"
  noextract :: "string list"
  ignorepkg :: "string list"
  ignoregroup :: "string list"
  assumeinstalled :: "alpm_depend_t list"
  architectures :: "string list"
  usesyslog :: int
  checkspace :: int
  disable_dl_timeout :: u16
  parallel_downloads :: u32
  dbext :: string
  hsiglevel :: u32
  localfilesiglevel :: u32
  remotefilesiglevel :: u32
  pm_errno :: alpm_errno_t
  lockfd :: int

text \<open>The handle as \<open>_alpm_handle_new\<close> allocates it: all zero but for the lock descriptor.\<close>

definition alpm_handle_new :: alpm_handle_t where
  "alpm_handle_new =
     \<lparr>db_local = None, dbs_sync = [], trans = None, root = [], dbpath = [], logfile = None, lockfile = None,
      gpgdir = None, logstream = False,
      callbacks = \<lparr>logcb = 0, logcb_ctx = 0, dlcb = 0, dlcb_ctx = 0, fetchcb = 0, fetchcb_ctx = 0, eventcb = 0,
        eventcb_ctx = 0, questioncb = 0, questioncb_ctx = 0, progresscb = 0, progresscb_ctx = 0\<rparr>,
      known_keys = [], cachedirs = [], hookdirs = [], overwrite_files = [], noupgrade = [], noextract = [],
      ignorepkg = [], ignoregroup = [], assumeinstalled = [], architectures = [],
      usesyslog = 0, checkspace = 0, disable_dl_timeout = 0, parallel_downloads = 0, dbext = [], hsiglevel = 0,
      localfilesiglevel = 0, remotefilesiglevel = 0, pm_errno = ALPM_ERR_OK, lockfd = -1\<rparr>"

section \<open>Questions\<close>

text \<open>
  The answers of the frontend's question callback, as functions of what the question shows:
  a question without callback keeps the default the code puts into it, which is \<open>0\<close>.
\<close>

record alpm_questions =
  q_install_ignorepkg :: "pkgref \<Rightarrow> bool"
  q_replace_pkg :: "pkgref \<Rightarrow> pkgref \<Rightarrow> dbref \<Rightarrow> bool"
  q_conflict_pkg :: "alpm_conflict_t \<Rightarrow> bool"
  q_corrupted_pkg :: "string \<Rightarrow> bool"
  q_remove_pkgs :: "pkgref list \<Rightarrow> bool"
  q_select_provider :: "alpm_depend_t \<Rightarrow> pkgref list \<Rightarrow> int"

definition no_questions :: alpm_questions where
  "no_questions =
     \<lparr>q_install_ignorepkg = \<lambda>_. False, q_replace_pkg = \<lambda>_ _ _. False, q_conflict_pkg = \<lambda>_. False,
      q_corrupted_pkg = \<lambda>_. False, q_remove_pkgs = \<lambda>_. False, q_select_provider = \<lambda>_ _. 0\<rparr>"

end
