(* ===== verification/AlpmPackage.thy ===== *)
theory AlpmPackage
  imports AlpmTypes
begin

text \<open>
  Packages and what hangs on them: \<open>lib/libalpm/package.c\<close> (without the trivial accessors,
  which are the record's selectors, and without what needs the databases, which is in
  \<open>AlpmDeps\<close>), \<open>backup.c\<close> and \<open>group.c\<close>. \<open>ps\<close> is the store of packages; \<open>fnm p s\<close> stands
  for \<open>fnmatch(p, s, 0) == 0\<close>.
\<close>

section \<open>Comparing and finding packages\<close>

definition alpm_pkg_cmp :: "pkgs \<Rightarrow> pkgref \<Rightarrow> pkgref \<Rightarrow> int" where
  "alpm_pkg_cmp ps p1 p2 = strcmp (pname (ps p1)) (pname (ps p2))"

definition alpm_pkg_compare_versions :: "alpm_pkg_t \<Rightarrow> alpm_pkg_t \<Rightarrow> int" where
  "alpm_pkg_compare_versions spkg localpkg = alpm_pkg_vercmp (version spkg) (version localpkg)"

fun pkg_find_loop :: "pkgs \<Rightarrow> u64 \<Rightarrow> string \<Rightarrow> pkgref list \<Rightarrow> pkgref option" where
  "pkg_find_loop ps needle_hash needle [] = None"
| "pkg_find_loop ps needle_hash needle (info # lp) =
     (if name_hash (ps info) \<noteq> needle_hash then pkg_find_loop ps needle_hash needle lp
      else if strcmp (pname (ps info)) needle = 0 then Some info
      else pkg_find_loop ps needle_hash needle lp)"

definition alpm_pkg_find :: "pkgs \<Rightarrow> pkgref list \<Rightarrow> string option \<Rightarrow> pkgref option" where
  "alpm_pkg_find ps haystack needle =
     (case needle of
        None \<Rightarrow> None
      | Some n \<Rightarrow> pkg_find_loop ps (alpm_hash_sdbm needle) n haystack)"

definition alpm_pkg_should_ignore ::
  "(string \<Rightarrow> string \<Rightarrow> bool) \<Rightarrow> alpm_handle_t \<Rightarrow> alpm_pkg_t \<Rightarrow> bool" where
  "alpm_pkg_should_ignore fnm handle pkg =
     (let fnmatch = (\<lambda>pattern s. if fnm pattern s then 0 else 1)
      in alpm_list_find fnmatch (ignorepkg handle) (pname pkg) \<noteq> None \<or>
         (\<exists>grp\<in>set (groups pkg). alpm_list_find fnmatch (ignoregroup handle) grp \<noteq> None))"

section \<open>Backup entries\<close>

text \<open>A backup string is \<open>file\<close>, or \<open>file\<close>, a tab and \<open>hash\<close>.\<close>

definition alpm_split_backup :: "string \<Rightarrow> alpm_backup_t" where
  "alpm_split_backup str =
     (let name = takeWhile (\<lambda>c. c \<noteq> CHR 0x09) str;
          ptr = dropWhile (\<lambda>c. c \<noteq> CHR 0x09) str
      in if ptr = [] then \<lparr>bname = str, bhash = None\<rparr>
         else \<lparr>bname = name, bhash = Some (tl ptr)\<rparr>)"

fun needbackup_loop :: "string \<Rightarrow> alpm_backup_t list \<Rightarrow> alpm_backup_t option" where
  "needbackup_loop file [] = None"
| "needbackup_loop file (b # lp) =
     (if strcmp file (bname b) = 0 then Some b else needbackup_loop file lp)"

definition alpm_needbackup :: "string option \<Rightarrow> alpm_pkg_t option \<Rightarrow> alpm_backup_t option" where
  "alpm_needbackup file pkg =
     (case (file, pkg) of
        (Some f, Some p) \<Rightarrow> needbackup_loop f (backup p)
      | _ \<Rightarrow> None)"

definition alpm_backup_dup :: "alpm_backup_t \<Rightarrow> alpm_backup_t" where
  "alpm_backup_dup b = \<lparr>bname = bname b, bhash = bhash b\<rparr>"

section \<open>Groups\<close>

definition alpm_group_new :: "string \<Rightarrow> alpm_group_t" where
  "alpm_group_new name = \<lparr>gname = name, gpackages = []\<rparr>"

section \<open>Copying packages\<close>

definition alpm_dep_dup :: "alpm_depend_t \<Rightarrow> alpm_depend_t" where
  "alpm_dep_dup dep =
     \<lparr>dname = dname dep, dversion = dversion dep, ddesc = ddesc dep,
      dname_hash = dname_hash dep, dmod = dmod dep\<rparr>"

definition list_depdup :: "alpm_depend_t list \<Rightarrow> alpm_depend_t list" where
  "list_depdup old = foldl (\<lambda>new i. alpm_list_add new (alpm_dep_dup i)) [] old"

definition alpm_file_copy :: "alpm_file_t \<Rightarrow> alpm_file_t" where
  "alpm_file_copy src = \<lparr>fname = fname src, fsize = fsize src, fmode = fmode src\<rparr>"

text \<open>
  The status is 1 when the package could not be loaded in full (\<open>force_load\<close> failed), and
  the copy is made all the same.
\<close>

definition alpm_pkg_dup :: "(alpm_pkg_t \<Rightarrow> bool) \<Rightarrow> alpm_pkg_t \<Rightarrow> int \<times> alpm_pkg_t" where
  "alpm_pkg_dup force_load pkg =
     (let ret = (if force_load pkg then 1 else 0);
          newpkg = alpm_pkg_new
            \<lparr>name_hash := name_hash pkg, filename := filename pkg, base := base pkg,
             pname := pname pkg, version := version pkg, desc := desc pkg, url := url pkg,
             builddate := builddate pkg, installdate := installdate pkg,
             packager := packager pkg, md5sum := md5sum pkg, sha256sum := sha256sum pkg,
             arch := arch pkg, psize := psize pkg, isize := isize pkg,
             scriptlet := scriptlet pkg, preason := preason pkg, validation := validation pkg\<rparr>;
          newpkg = newpkg
            \<lparr>licenses := licenses pkg, replaces := list_depdup (replaces pkg),
             groups := groups pkg,
             backup := foldl (\<lambda>l i. alpm_list_add l (alpm_backup_dup i)) [] (backup pkg),
             depends := list_depdup (depends pkg), optdepends := list_depdup (optdepends pkg),
             conflicts := list_depdup (conflicts pkg), provides := list_depdup (provides pkg)\<rparr>;
          newpkg = newpkg
            \<lparr>files := map alpm_file_copy (files pkg), infolevel := infolevel pkg,
             origin := origin pkg, origin_data := origin_data pkg\<rparr>
      in (ret, newpkg))"

text \<open>Dropping a target: a loaded file is freed (\<open>None\<close>), a database entry forgets the transaction.\<close>

definition alpm_pkg_free_trans :: "alpm_pkg_t \<Rightarrow> alpm_pkg_t option" where
  "alpm_pkg_free_trans pkg =
     (if origin pkg = ALPM_PKG_FROM_FILE then None
      else Some (pkg\<lparr>removes := [], oldpkg := None\<rparr>))"

section \<open>Checking a downloaded package\<close>

text \<open>
  \<open>file_md5 path\<close> is the MD5 sum of a file, \<open>None\<close> if it cannot be read. The result is the
  return value with the error code left in the handle. A package that is not in any cache
  directory makes \<open>_alpm_filecache_find\<close> return \<open>NULL\<close> and the checksum fail.
\<close>

definition alpm_pkg_checkmd5sum ::
  "(string \<Rightarrow> bool) \<Rightarrow> (string \<Rightarrow> string option) \<Rightarrow> alpm_handle_t \<Rightarrow> alpm_pkg_t \<Rightarrow> int \<times> alpm_errno_t" where
  "alpm_pkg_checkmd5sum is_reg file_md5 handle pkg =
     (if origin pkg \<noteq> ALPM_PKG_FROM_SYNCDB then (-1, ALPM_ERR_WRONG_ARGS)
      else
        let fpath = Option.bind (filename pkg) (alpm_filecache_find is_reg (cachedirs handle));
            retval = (case fpath of
                None \<Rightarrow> -1
              | Some f \<Rightarrow> alpm_test_checksum file_md5 (\<lambda>_. None) f (md5sum pkg) VALIDATION_MD5SUM)
        in if retval = 1 then (-1, ALPM_ERR_PKG_INVALID) else (retval, ALPM_ERR_OK))"

section \<open>Facts\<close>

interpretation pkg_cmp: comparator "alpm_pkg_cmp ps" for ps
  by unfold_locales (auto simp: alpm_pkg_cmp_def strcmp_cmp3)

lemma pkg_cmp_zero: "alpm_pkg_cmp ps p q = 0 \<longleftrightarrow> pname (ps p) = pname (ps q)"
  by (simp add: alpm_pkg_cmp_def)

text \<open>The stored hash is the hash of the name: what lets the hash be compared first.\<close>

definition hashed :: "alpm_pkg_t \<Rightarrow> bool" where
  "hashed pkg \<longleftrightarrow> name_hash pkg = name_hash_of (pname pkg)"

definition dep_hashed :: "alpm_depend_t \<Rightarrow> bool" where
  "dep_hashed dep \<longleftrightarrow> dname_hash dep = name_hash_of (dname dep)"

lemma pkg_find_loop_find:
  "\<forall>p\<in>set haystack. hashed (ps p) \<Longrightarrow>
   pkg_find_loop ps (name_hash_of n) n haystack = List.find (\<lambda>p. pname (ps p) = n) haystack"
  by (induction haystack) (auto simp: hashed_def)

lemma pkg_find_Some:
  "alpm_pkg_find ps haystack needle = Some p \<Longrightarrow>
   p \<in> set haystack \<and> needle = Some (pname (ps p)) \<and> hashed (ps p)"
proof -
  have *: "pkg_find_loop ps h n haystack = Some p \<Longrightarrow>
    p \<in> set haystack \<and> pname (ps p) = n \<and> name_hash (ps p) = h" for h n
    by (induction haystack) (auto split: if_splits)
  assume "alpm_pkg_find ps haystack needle = Some p"
  then show ?thesis using * by (auto simp: alpm_pkg_find_def hashed_def split: option.splits)
qed

lemma pkg_find_find:
  "\<forall>p\<in>set haystack. hashed (ps p) \<Longrightarrow>
   alpm_pkg_find ps haystack (Some n) = List.find (\<lambda>p. pname (ps p) = n) haystack"
  using pkg_find_loop_find by (simp add: alpm_pkg_find_def)

lemma pkg_find_None:
  "\<forall>p\<in>set haystack. hashed (ps p) \<Longrightarrow>
   alpm_pkg_find ps haystack (Some n) = None \<longleftrightarrow> n \<notin> pname ` ps ` set haystack"
  by (auto simp: pkg_find_find find_None_iff)

lemma dep_dup_id [simp]: "alpm_dep_dup d = d"
  by (simp add: alpm_dep_dup_def)

lemma list_depdup_id [simp]: "list_depdup ds = ds"
proof -
  have "foldl (\<lambda>new i. alpm_list_add new (alpm_dep_dup i)) acc ds = acc @ ds" for acc
    by (induction ds arbitrary: acc) (auto simp: alpm_list_add_def)
  then show ?thesis by (simp add: list_depdup_def)
qed

lemma file_copy_id [simp]: "alpm_file_copy f = f"
  by (simp add: alpm_file_copy_def)

lemma only_left_mset: "mset (only_left fn ls rs) \<subseteq># mset ls"
proof (induction fn ls rs rule: only_left.induct)
  case (1 fn l ls r rs)
  then show ?case by (auto intro: subset_mset.order_trans [of _ "mset ls"])
qed auto

lemma distinct_submset: "mset xs \<subseteq># mset ys \<Longrightarrow> distinct ys \<Longrightarrow> distinct xs"
proof -
  assume sub: "mset xs \<subseteq># mset ys" and ys: "distinct ys"
  have "count (mset xs) a = (if a \<in> set xs then 1 else 0)" for a
  proof (cases "a \<in> set xs")
    case True
    have "count (mset xs) a \<le> count (mset ys) a" using sub by (rule mset_subset_eq_count)
    also have "\<dots> \<le> 1" using ys by (simp add: distinct_count_atmost_1)
    finally show ?thesis using True by (metis One_nat_def count_greater_zero_iff le_antisym Suc_leI set_mset_mset)
  qed (simp add: count_mset_0_iff)
  then show "distinct xs" by (simp add: distinct_count_atmost_1)
qed

lemma pkg_diff:
  assumes "distinct (map (\<lambda>p. pname (ps p)) xs)"
  shows "set (alpm_list_diff (alpm_pkg_cmp ps) xs ys) = {p \<in> set xs. pname (ps p) \<notin> pname ` ps ` set ys}"
    "distinct (alpm_list_diff (alpm_pkg_cmp ps) xs ys)" "distinct (map (\<lambda>p. pname (ps p)) (alpm_list_diff (alpm_pkg_cmp ps) xs ys))"
proof -
  let ?d = "alpm_list_diff (alpm_pkg_cmp ps) xs ys"
  have sub: "mset ?d \<subseteq># mset xs"
    unfolding alpm_list_diff_def Let_def diff_sorted_only fst_conv
    using only_left_mset [of "alpm_pkg_cmp ps" "alpm_list_msort (alpm_pkg_cmp ps) (length xs) xs"] by simp
  then show "distinct ?d" using assms distinct_submset [of ?d xs] by (simp add: distinct_map)
  have "mset (map (\<lambda>p. pname (ps p)) ?d) \<subseteq># mset (map (\<lambda>p. pname (ps p)) xs)"
    using sub by (simp add: image_mset_subseteq_mono)
  then show "distinct (map (\<lambda>p. pname (ps p)) ?d)"
    using assms by (rule distinct_submset)
  have le: "length (filter (\<lambda>y. pname (ps x) = pname (ps y)) xs) \<le> 1" for x
    using assms by (induction xs) (auto simp: filter_empty_conv)
  have n: "length (filter (\<lambda>y. pname (ps x) = pname (ps y)) ?d) =
      length (filter (\<lambda>y. pname (ps x) = pname (ps y)) xs) - length (filter (\<lambda>y. pname (ps x) = pname (ps y)) ys)" for x
  proof -
    have eq: "(\<lambda>y. pname (ps x) = pname (ps y)) = (\<lambda>y. alpm_pkg_cmp ps x y = 0)" by (simp add: pkg_cmp_zero)
    show ?thesis
      unfolding eq alpm_list_diff_def Let_def diff_sorted_only fst_conv
      by (simp add: pkg_cmp.only_left_count pkg_cmp.msort_ordered pkg_cmp.msort_stable)
  qed
  have in_xs: "x \<in> set xs" if "x \<in> set ?d" for x using sub that by (metis mset_subset_eqD set_mset_mset)
  show "set ?d = {p \<in> set xs. pname (ps p) \<notin> pname ` ps ` set ys}"
  proof (intro set_eqI iffI)
    fix x
    assume x: "x \<in> set ?d"
    then have "0 < length (filter (\<lambda>y. pname (ps x) = pname (ps y)) ?d)" by (auto simp: filter_empty_conv)
    then have "length (filter (\<lambda>y. pname (ps x) = pname (ps y)) ys) = 0" using n [of x] le [of x] by linarith
    then have "\<forall>y\<in>set ys. pname (ps x) \<noteq> pname (ps y)" by (simp add: filter_empty_conv)
    then show "x \<in> {p \<in> set xs. pname (ps p) \<notin> pname ` ps ` set ys}" using in_xs [OF x] by auto
  next
    fix x
    assume x: "x \<in> {p \<in> set xs. pname (ps p) \<notin> pname ` ps ` set ys}"
    then have "filter (\<lambda>y. pname (ps x) = pname (ps y)) ys = []" by (auto simp: filter_empty_conv)
    moreover have "0 < length (filter (\<lambda>y. pname (ps x) = pname (ps y)) xs)" using x by (auto simp: filter_empty_conv)
    ultimately have "0 < length (filter (\<lambda>y. pname (ps x) = pname (ps y)) ?d)" using n [of x] by simp
    then obtain y where "y \<in> set ?d" "pname (ps x) = pname (ps y)" by (auto simp: filter_empty_conv)
    moreover have "inj_on (\<lambda>p. pname (ps p)) (set xs)" using assms by (simp add: distinct_map)
    ultimately have "y = x" using in_xs [of y] x by (auto dest: inj_onD)
    then show "x \<in> set ?d" using \<open>y \<in> set ?d\<close> by simp
  qed
qed

end
