(* ===== verification/AlpmPkghash.thy ===== *)
theory AlpmPkghash
  imports AlpmPackage
begin

text \<open>
  The hash table of packages (\<open>lib/libalpm/pkghash.c\<close>): open addressing with linear probing,
  together with the list of the entries. A table entry and the list node it shares with the
  list are the package they hold. The C loops that probe for a bucket end only if they find
  one, so the functions return \<open>None\<close> when the code would not return: probing \<open>buckets\<close> times
  visits every bucket, and a loop that has not ended by then never does (or, in
  \<open>move_one_entry\<close>, reads through a \<open>NULL\<close> bucket).
\<close>

record alpm_pkghash_t =
  hash_table :: "pkgref option list"
  hlist :: "pkgref list"
  buckets :: nat
  entries :: nat
  limit :: nat

section \<open>Creation\<close>

definition prime_list :: "nat list" where
  "prime_list =
    [11, 13, 17, 19, 23, 29, 31, 37, 41, 43, 47,
     53, 59, 61, 67, 71, 73, 79, 83, 89, 97, 103,
     109, 113, 127, 137, 139, 149, 157, 167, 179, 193,
     199, 211, 227, 241, 257, 277, 293, 313, 337, 359,
     383, 409, 439, 467, 503, 541, 577, 619, 661, 709,
     761, 823, 887, 953, 1031, 1109, 1193, 1289, 1381,
     1493, 1613, 1741, 1879, 2029, 2179, 2357, 2549,
     2753, 2971, 3209, 3469, 3739, 4027, 4349, 4703,
     5087, 5503, 5953, 6427, 6949, 7517, 8123, 8783,
     9497, 10273, 11113, 12011, 12983, 14033, 15173,
     16411, 17749, 19183, 20753, 22447, 24281, 26267,
     28411, 30727, 33223, 35933, 38873, 42043, 45481,
     49201, 53201, 57557, 62233, 67307, 72817, 78779,
     85229, 92203, 99733, 107897, 116731, 126271, 136607,
     147793, 159871, 172933, 187091, 202409, 218971, 236897,
     256279, 277261, 299951, 324503, 351061, 379787, 410857,
     444487, 480881, 520241, 562841, 608903, 658753, 712697,
     771049, 834181, 902483, 976369]"

definition stride :: nat where
  "stride = 1"

text \<open>
  The loads 0.58 and 0.68 are \<open>double\<close>s; truncating the quotient and the product gives the
  integer parts below for every size and every prime of the list. \<open>None\<close> is \<open>NULL\<close>.
\<close>

definition alpm_pkghash_create :: "nat \<Rightarrow> alpm_pkghash_t option" where
  "alpm_pkghash_create sz =
     (let sz = sz * 100 div 58 + 1
      in case List.find (\<lambda>p. p > sz) prime_list of
           None \<Rightarrow> None
         | Some p \<Rightarrow>
             Some \<lparr>hash_table = replicate p None, hlist = [], buckets = p, entries = 0,
                   limit = p * 68 div 100\<rparr>)"

section \<open>Probing, adding and rehashing\<close>

definition next_position :: "nat \<Rightarrow> nat \<Rightarrow> nat" where
  "next_position n position = (position + stride) mod n"

fun probe_free :: "pkgref option list \<Rightarrow> nat \<Rightarrow> nat \<Rightarrow> nat \<Rightarrow> nat option" where
  "probe_free tbl n 0 position = None"
| "probe_free tbl n (Suc fuel) position =
     (if tbl ! position \<noteq> None then probe_free tbl n fuel (next_position n position)
      else Some position)"

definition home :: "u64 \<Rightarrow> nat \<Rightarrow> nat" where
  "home nhash n = unat nhash mod n"

definition get_hash_position :: "u64 \<Rightarrow> alpm_pkghash_t \<Rightarrow> nat option" where
  "get_hash_position nhash hash =
     probe_free (hash_table hash) (buckets hash) (buckets hash) (home nhash (buckets hash))"

definition rehash_size :: "nat \<Rightarrow> nat" where
  "rehash_size n =
     (if n < 500 then n * 2
      else if n < 2000 then n * 3 div 2
      else if n < 5000 then n * 4 div 3
      else n + 1)"

text \<open>The buckets of the old table are visited in order, empty ones skipped.\<close>

fun rehash_move :: "pkgs \<Rightarrow> pkgref option list \<Rightarrow> alpm_pkghash_t \<Rightarrow> alpm_pkghash_t option" where
  "rehash_move ps [] newhash = Some newhash"
| "rehash_move ps (None # old) newhash = rehash_move ps old newhash"
| "rehash_move ps (Some package # old) newhash =
     (case get_hash_position (name_hash (ps package)) newhash of
        None \<Rightarrow> None
      | Some position \<Rightarrow>
          rehash_move ps old
            (newhash\<lparr>hash_table := (hash_table newhash)[position := Some package]\<rparr>))"

text \<open>\<open>Some None\<close>: the code returns \<open>NULL\<close>, the old hash being untouched.\<close>

definition rehash :: "pkgs \<Rightarrow> alpm_pkghash_t \<Rightarrow> alpm_pkghash_t option option" where
  "rehash ps oldhash =
     (case alpm_pkghash_create (rehash_size (buckets oldhash)) of
        None \<Rightarrow> Some None
      | Some newhash \<Rightarrow>
          (case rehash_move ps (hash_table oldhash) (newhash\<lparr>hlist := hlist oldhash\<rparr>) of
             None \<Rightarrow> None
           | Some newhash \<Rightarrow> Some (Some (newhash\<lparr>entries := entries oldhash\<rparr>))))"

text \<open>The result: whether the package was added, and the value of \<open>*hashref\<close>.\<close>

definition pkghash_insert ::
  "pkgs \<Rightarrow> alpm_pkghash_t \<Rightarrow> pkgref \<Rightarrow> bool \<Rightarrow> (bool \<times> alpm_pkghash_t) option" where
  "pkghash_insert ps hash pkg keep_sorted =
     (case get_hash_position (name_hash (ps pkg)) hash of
        None \<Rightarrow> None
      | Some position \<Rightarrow>
          Some (True, hash
            \<lparr>hash_table := (hash_table hash)[position := Some pkg],
             hlist := (if \<not> keep_sorted then hlist hash @ [pkg]
                       else alpm_list_mmerge (alpm_pkg_cmp ps) (hlist hash) [pkg]),
             entries := entries hash + 1\<rparr>))"

definition pkghash_add_pkg ::
  "pkgs \<Rightarrow> alpm_pkghash_t \<Rightarrow> pkgref \<Rightarrow> bool \<Rightarrow> (bool \<times> alpm_pkghash_t) option" where
  "pkghash_add_pkg ps hashref pkg keep_sorted =
     (if entries hashref \<ge> limit hashref then
        (case rehash ps hashref of
           None \<Rightarrow> None
         | Some None \<Rightarrow> Some (False, hashref)
         | Some (Some hash) \<Rightarrow> pkghash_insert ps hash pkg keep_sorted)
      else pkghash_insert ps hashref pkg keep_sorted)"

definition alpm_pkghash_add ::
  "pkgs \<Rightarrow> alpm_pkghash_t \<Rightarrow> pkgref \<Rightarrow> (bool \<times> alpm_pkghash_t) option" where
  "alpm_pkghash_add ps hash pkg = pkghash_add_pkg ps hash pkg False"

definition alpm_pkghash_add_sorted ::
  "pkgs \<Rightarrow> alpm_pkghash_t \<Rightarrow> pkgref \<Rightarrow> (bool \<times> alpm_pkghash_t) option" where
  "alpm_pkghash_add_sorted ps hash pkg = pkghash_add_pkg ps hash pkg True"

section \<open>Removing\<close>

text \<open>Going backwards from \<open>end\<close> to \<open>start\<close>; the result is the final \<open>end\<close> with the hash.\<close>

fun move_one_entry_loop ::
  "pkgs \<Rightarrow> nat \<Rightarrow> alpm_pkghash_t \<Rightarrow> nat \<Rightarrow> nat \<Rightarrow> (nat \<times> alpm_pkghash_t) option" where
  "move_one_entry_loop ps 0 hash start end' = None"
| "move_one_entry_loop ps (Suc fuel) hash start end' =
     (if end' = start then Some (end', hash)
      else
        (case hash_table hash ! end' of
           None \<Rightarrow> None
         | Some info \<Rightarrow>
             (case get_hash_position (name_hash (ps info)) hash of
                None \<Rightarrow> None
              | Some new_position \<Rightarrow>
                  if new_position = start then
                    Some (end', hash
                      \<lparr>hash_table := (hash_table hash)[start := Some info, end' := None]\<rparr>)
                  else
                    move_one_entry_loop ps fuel hash start
                      ((buckets hash + end' - stride) mod buckets hash))))"

definition move_one_entry ::
  "pkgs \<Rightarrow> alpm_pkghash_t \<Rightarrow> nat \<Rightarrow> nat \<Rightarrow> (nat \<times> alpm_pkghash_t) option" where
  "move_one_entry ps hash start end' = move_one_entry_loop ps (buckets hash) hash start end'"

fun find_stop :: "pkgref option list \<Rightarrow> nat \<Rightarrow> nat \<Rightarrow> nat \<Rightarrow> nat \<Rightarrow> nat option" where
  "find_stop tbl n 0 position stop = None"
| "find_stop tbl n (Suc fuel) position stop =
     (if tbl ! stop \<noteq> None \<and> stop \<noteq> position
      then find_stop tbl n fuel position (next_position n stop)
      else Some stop)"

fun plug_holes :: "pkgs \<Rightarrow> nat \<Rightarrow> alpm_pkghash_t \<Rightarrow> nat \<Rightarrow> nat \<Rightarrow> alpm_pkghash_t option" where
  "plug_holes ps 0 hash position stop = None"
| "plug_holes ps (Suc fuel) hash position stop =
     (case move_one_entry ps hash position stop of
        None \<Rightarrow> None
      | Some (prev, hash) \<Rightarrow>
          if prev \<noteq> position then plug_holes ps fuel hash prev stop else Some hash)"

definition remove_at ::
  "pkgs \<Rightarrow> alpm_pkghash_t \<Rightarrow> nat \<Rightarrow> pkgref \<Rightarrow> (alpm_pkghash_t \<times> pkgref option) option" where
  "remove_at ps hash position info =
     (let n = buckets hash;
          hash = hash
            \<lparr>hlist := remove1 info (hlist hash),
             hash_table := (hash_table hash)[position := None],
             entries := entries hash - 1\<rparr>
      in case find_stop (hash_table hash) n n position (next_position n position) of
           None \<Rightarrow> None
         | Some stop \<Rightarrow>
             (let stop = (n + stop - stride) mod n
              in case plug_holes ps n hash position stop of
                   None \<Rightarrow> None
                 | Some hash \<Rightarrow> Some (hash, Some info)))"

fun remove_loop ::
  "pkgs \<Rightarrow> nat \<Rightarrow> alpm_pkghash_t \<Rightarrow> pkgref \<Rightarrow> nat \<Rightarrow> (alpm_pkghash_t \<times> pkgref option) option" where
  "remove_loop ps 0 hash pkg position = None"
| "remove_loop ps (Suc fuel) hash pkg position =
     (case hash_table hash ! position of
        None \<Rightarrow> Some (hash, None)
      | Some info \<Rightarrow>
          if name_hash (ps info) = name_hash (ps pkg) \<and>
             strcmp (pname (ps info)) (pname (ps pkg)) = 0
          then remove_at ps hash position info
          else remove_loop ps fuel hash pkg (next_position (buckets hash) position))"

text \<open>The second component is what \<open>*data\<close> receives.\<close>

definition alpm_pkghash_remove ::
  "pkgs \<Rightarrow> alpm_pkghash_t \<Rightarrow> pkgref \<Rightarrow> (alpm_pkghash_t \<times> pkgref option) option" where
  "alpm_pkghash_remove ps hash pkg =
     remove_loop ps (buckets hash) hash pkg (home (name_hash (ps pkg)) (buckets hash))"

section \<open>Finding\<close>

fun find_loop :: "pkgs \<Rightarrow> nat \<Rightarrow> alpm_pkghash_t \<Rightarrow> string \<Rightarrow> nat \<Rightarrow> pkgref option option" where
  "find_loop ps 0 hash name position = None"
| "find_loop ps (Suc fuel) hash name position =
     (case hash_table hash ! position of
        None \<Rightarrow> Some None
      | Some info \<Rightarrow>
          if name_hash (ps info) = alpm_hash_sdbm (Some name) \<and> strcmp (pname (ps info)) name = 0
          then Some (Some info)
          else find_loop ps fuel hash name (next_position (buckets hash) position))"

definition alpm_pkghash_find ::
  "pkgs \<Rightarrow> alpm_pkghash_t \<Rightarrow> string \<Rightarrow> pkgref option option" where
  "alpm_pkghash_find ps hash name =
     find_loop ps (buckets hash) hash name
       (home (alpm_hash_sdbm (Some name)) (buckets hash))"

section \<open>Positions modulo the number of buckets\<close>

lemma next_position_add [simp]: "next_position n ((h + k) mod n) = (h + Suc k) mod n"
  by (simp add: next_position_def stride_def mod_Suc_eq)

lemma next_position_Suc: "h < n \<Longrightarrow> next_position n h = (h + 1) mod n"
  by (simp add: next_position_def stride_def)

lemma mod_add_eq_iff:
  assumes "(a :: nat) < n" "b < n"
  shows "(h + a) mod n = (h + b) mod n \<longleftrightarrow> a = b"
proof -
  have "c = d" if "c \<le> d" "(h + c) mod n = (h + d) mod n" "d < n" for c d
  proof -
    have "n dvd (h + d) - (h + c)"
      using that mod_eq_dvd_iff_nat [of "h + c" "h + d" n] by simp
    then show ?thesis using that dvd_imp_le [of n "d - c"] by fastforce
  qed
  then show ?thesis using assms by (metis nat_le_linear)
qed

lemma mod_back: "0 < m \<Longrightarrow> m \<le> n \<Longrightarrow> (n + (s + m) mod n - Suc 0) mod n = (s + (m - 1)) mod n" for m n s :: nat
proof -
  assume "0 < m" "m \<le> n"
  then have "n + (s + m) mod n - Suc 0 = (n - 1) + (s + m) mod n" by simp
  then have "(n + (s + m) mod n - Suc 0) mod n = (n - 1 + (s + m)) mod n" by (simp add: mod_add_right_eq)
  also have "n - 1 + (s + m) = n + (s + (m - 1))" using \<open>0 < m\<close> \<open>m \<le> n\<close> by simp
  finally show ?thesis by simp
qed

lemma mod_shift: "(h + j) mod n = s \<Longrightarrow> (h + (j + d)) mod n = (s + d) mod n" for h j n s d :: nat
  by (metis add.assoc mod_add_left_eq)

lemma probe_free_Some:
  "probe_free tbl n f ((h + k) mod n) = Some p \<Longrightarrow>
   \<exists>j<f. p = (h + k + j) mod n \<and> tbl ! p = None \<and> (\<forall>i<j. tbl ! ((h + k + i) mod n) \<noteq> None)"
proof (induction f arbitrary: k)
  case (Suc f)
  show ?case
  proof (cases "tbl ! ((h + k) mod n) = None")
    case False
    then have "probe_free tbl n f ((h + Suc k) mod n) = Some p" using Suc.prems by simp
    from Suc.IH [OF this] obtain j where j: "j < f" "p = (h + Suc k + j) mod n" "tbl ! p = None"
      "\<forall>i<j. tbl ! ((h + Suc k + i) mod n) \<noteq> None" by blast
    have "tbl ! ((h + k + i) mod n) \<noteq> None" if "i < Suc j" for i
      using j(4) False that by (cases i) auto
    then show ?thesis using j by (intro exI [of _ "Suc j"]) auto
  qed (use Suc.prems in \<open>auto intro: exI [of _ 0]\<close>)
qed simp

lemma probe_free_ex:
  "j < f \<Longrightarrow> tbl ! ((h + k + j) mod n) = None \<Longrightarrow> \<exists>p. probe_free tbl n f ((h + k) mod n) = Some p"
proof (induction f arbitrary: k j)
  case (Suc f)
  show ?case
  proof (cases "tbl ! ((h + k) mod n) = None")
    case False
    then have "j \<noteq> 0" using Suc.prems by (cases j) auto
    then show ?thesis using Suc.IH [of "j - 1" "Suc k"] Suc.prems False by simp
  qed simp
qed simp

lemma position_reached: "i < n \<Longrightarrow> \<exists>j<n. i = (h + j) mod n" for i n h :: nat
proof -
  assume i: "i < n"
  have "(h + (i + n - h mod n)) mod n = (h mod n + (i + n - h mod n)) mod n" by (simp add: mod_add_left_eq)
  also have "h mod n < n" using i by simp
  then have "h mod n + (i + n - h mod n) = i + n" by simp
  finally have "(h + (i + n - h mod n) mod n) mod n = i" using i by (simp add: mod_add_right_eq)
  then show ?thesis using i by (metis mod_less_divisor gr_implies_not0 not_gr0)
qed

section \<open>The packages in a table\<close>

definition occupants :: "pkgref option list \<Rightarrow> pkgref list" where
  "occupants tbl = map the (filter (\<lambda>x. x \<noteq> None) tbl)"

lemma set_occupants: "q \<in> set (occupants tbl) \<longleftrightarrow> (\<exists>i<length tbl. tbl ! i = Some q)"
  by (force simp: occupants_def in_set_conv_nth image_iff)

lemma mset_occupants: "mset (occupants tbl) = image_mset the (filter_mset (\<lambda>x. x \<noteq> None) (mset tbl))"
  by (simp add: occupants_def mset_filter)

lemma occupants_insert:
  "i < length tbl \<Longrightarrow> tbl ! i = None \<Longrightarrow>
   mset (occupants (tbl[i := Some q])) = add_mset q (mset (occupants tbl))"
  by (simp add: mset_occupants mset_update)

lemma occupants_remove:
  "i < length tbl \<Longrightarrow> tbl ! i = Some q \<Longrightarrow>
   add_mset q (mset (occupants (tbl[i := None]))) = mset (occupants tbl)"
proof -
  assume i: "i < length tbl" "tbl ! i = Some q"
  then have "(tbl[i := None])[i := Some q] = tbl" by (simp add: list_update_same_conv)
  then show ?thesis using occupants_insert [of i "tbl[i := None]" q] i by simp
qed

lemma occupants_inj:
  assumes "distinct (occupants tbl)" "i < length tbl" "j < length tbl"
    and "tbl ! i = Some q" "tbl ! j = Some q"
  shows "i = j"
proof (rule ccontr)
  assume "i \<noteq> j"
  then have "tbl[i := None] ! j = Some q" using assms by simp
  then have "q \<in> set (occupants (tbl[i := None]))" using assms(3) by (auto simp: set_occupants)
  moreover have "mset (occupants tbl) = mset (q # occupants (tbl[i := None]))"
    using occupants_remove [OF assms(2,4)] by simp
  then have "distinct (q # occupants (tbl[i := None]))"
    using assms(1) mset_eq_imp_distinct_iff by blast
  ultimately show False by simp
qed

lemma occupants_free:
  assumes "length (occupants tbl) < length tbl"
  shows "\<exists>i<length tbl. tbl ! i = None"
proof (rule ccontr)
  assume "\<not> ?thesis"
  then have "\<forall>x\<in>set tbl. x \<noteq> None" by (auto simp: in_set_conv_nth)
  then have "filter (\<lambda>x. x \<noteq> None) tbl = tbl" by (simp add: filter_id_conv)
  then show False using assms by (simp add: occupants_def)
qed

lemma occupants_replicate [simp]: "occupants (replicate n None) = []"
  by (simp add: occupants_def)

section \<open>The probing invariant\<close>

text \<open>
  Every package is reachable: from its home bucket to the bucket it is in, no bucket is empty.
  While a package is being removed one bucket (\<open>hole\<close>) may be.
\<close>

definition reachable :: "pkgs \<Rightarrow> nat option \<Rightarrow> pkgref option list \<Rightarrow> nat \<Rightarrow> pkgref \<Rightarrow> bool" where
  "reachable ps hole tbl i q \<longleftrightarrow>
     (let n = length tbl; h = home (name_hash (ps q)) n
      in \<exists>k<n. i = (h + k) mod n \<and>
           (\<forall>j\<le>k. tbl ! ((h + j) mod n) \<noteq> None \<or> Some ((h + j) mod n) = hole))"

definition probe_inv :: "pkgs \<Rightarrow> nat option \<Rightarrow> pkgref option list \<Rightarrow> bool" where
  "probe_inv ps hole tbl \<longleftrightarrow>
     (\<forall>i<length tbl. \<forall>q. tbl ! i = Some q \<longrightarrow> reachable ps hole tbl i q)"

lemma reachableI:
  "i = (home (name_hash (ps q)) (length tbl) + k) mod length tbl \<Longrightarrow> k < length tbl \<Longrightarrow>
   (\<And>j. j \<le> k \<Longrightarrow> tbl ! ((home (name_hash (ps q)) (length tbl) + j) mod length tbl) \<noteq> None \<or>
      Some ((home (name_hash (ps q)) (length tbl) + j) mod length tbl) = hole) \<Longrightarrow>
   reachable ps hole tbl i q"
  unfolding reachable_def Let_def by blast

lemma probe_invE:
  assumes "probe_inv ps hole tbl" "i < length tbl" "tbl ! i = Some q" "n = length tbl"
  obtains k where "k < n" "i = (home (name_hash (ps q)) n + k) mod n"
    "\<And>j. j \<le> k \<Longrightarrow> tbl ! ((home (name_hash (ps q)) n + j) mod n) \<noteq> None \<or>
       Some ((home (name_hash (ps q)) n + j) mod n) = hole"
  using assms unfolding probe_inv_def reachable_def Let_def by blast

lemma home_less [simp]: "0 < n \<Longrightarrow> home x n < n" "0 < n \<Longrightarrow> (home x n + 0) mod n = home x n"
  by (simp_all add: home_def)

lemma probe_inv_replicate [simp]: "probe_inv ps hole (replicate n None)"
  by (simp add: probe_inv_def)

lemma reachable_mono:
  assumes "reachable ps hole tbl i q" "length tbl' = length tbl"
    and "\<And>j. j < length tbl \<Longrightarrow> tbl ! j \<noteq> None \<or> Some j = hole \<Longrightarrow> tbl' ! j \<noteq> None \<or> Some j = hole'"
  shows "reachable ps hole' tbl' i q"
  using assms unfolding reachable_def Let_def
  by (metis gr_implies_not0 mod_less_divisor not_gr0)

lemma get_hash_position_spec:
  assumes "buckets hash = length (hash_table hash)" "i < buckets hash" "hash_table hash ! i = None"
  shows "\<exists>k<buckets hash. get_hash_position x hash = Some ((home x (buckets hash) + k) mod buckets hash) \<and>
    hash_table hash ! ((home x (buckets hash) + k) mod buckets hash) = None \<and>
    (\<forall>j<k. hash_table hash ! ((home x (buckets hash) + j) mod buckets hash) \<noteq> None)"
proof -
  let ?n = "buckets hash" and ?t = "hash_table hash"
  let ?h = "home x ?n"
  obtain j where j: "j < ?n" "i = (?h + j) mod ?n" using position_reached [OF assms(2)] by blast
  have h: "(?h + 0) mod ?n = ?h" using assms(2) by simp
  obtain p where p: "probe_free ?t ?n ?n ((?h + 0) mod ?n) = Some p"
    using probe_free_ex [of j ?n ?t ?h 0 ?n] j assms(3) by auto
  from probe_free_Some [OF this] h p show ?thesis
    unfolding get_hash_position_def by auto
qed

lemma probe_inv_insert:
  assumes "probe_inv ps None tbl" "n = length tbl" "h = home (name_hash (ps q)) n" "k < n"
    and "tbl ! ((h + k) mod n) = None" "\<forall>j<k. tbl ! ((h + j) mod n) \<noteq> None"
  shows "probe_inv ps None (tbl[(h + k) mod n := Some q])"
proof -
  let ?p = "(h + k) mod n" and ?t = "tbl[(h + k) mod n := Some q]"
  have keep: "tbl ! j \<noteq> None \<or> Some j = None \<Longrightarrow> ?t ! j \<noteq> None \<or> Some j = None" if "j < length tbl" for j
    using that by (cases "j = ?p") auto
  have "reachable ps None ?t i r" if "i < n" "?t ! i = Some r" for i r
  proof (cases "i = ?p")
    case True
    then have "r = q" using that assms(2) by simp
    have "0 < n" using assms(4) by simp
    then have "(h + j) mod n < length tbl" for j using assms(2) by simp
    then have "?t ! ((h + j) mod n) \<noteq> None" if "j \<le> k" for j
      using that assms(6) by (cases "j = k") (auto simp: nth_list_update)
    then show ?thesis
      using True assms(2-4) \<open>r = q\<close> by (auto simp: reachable_def Let_def)
  next
    case False
    then have "reachable ps None tbl i r"
      using that assms(1,2) by (simp add: probe_inv_def)
    then show ?thesis by (rule reachable_mono) (use keep in auto)
  qed
  then show ?thesis using assms(2) by (simp add: probe_inv_def)
qed

section \<open>Looking for a package\<close>

text \<open>The search that \<open>_alpm_pkghash_find\<close> and \<open>_alpm_pkghash_remove\<close> share.\<close>

fun probe_match :: "(pkgref \<Rightarrow> bool) \<Rightarrow> pkgref option list \<Rightarrow> nat \<Rightarrow> nat \<Rightarrow> nat \<Rightarrow> nat option option" where
  "probe_match P tbl n 0 position = None"
| "probe_match P tbl n (Suc fuel) position =
     (case tbl ! position of
        None \<Rightarrow> Some None
      | Some info \<Rightarrow>
          if P info then Some (Some position)
          else probe_match P tbl n fuel (next_position n position))"

lemma find_loop_probe:
  "find_loop ps f hash name pos = map_option (map_option (\<lambda>p. the (hash_table hash ! p)))
    (probe_match (\<lambda>q. name_hash (ps q) = name_hash_of name \<and> strcmp (pname (ps q)) name = 0)
      (hash_table hash) (buckets hash) f pos)"
  by (induction f arbitrary: pos) (auto split: option.split)

lemma remove_loop_probe:
  "remove_loop ps f hash pkg pos =
    (case probe_match (\<lambda>q. name_hash (ps q) = name_hash (ps pkg) \<and> strcmp (pname (ps q)) (pname (ps pkg)) = 0)
        (hash_table hash) (buckets hash) f pos of
       None \<Rightarrow> None
     | Some None \<Rightarrow> Some (hash, None)
     | Some (Some p) \<Rightarrow> remove_at ps hash p (the (hash_table hash ! p)))"
  by (induction f arbitrary: pos) (auto split: option.split)

lemma probe_match_loop:
  assumes inv: "probe_inv ps None tbl" "n = length tbl" "\<exists>i<n. tbl ! i = None"
    and home: "\<And>q. P q \<Longrightarrow> q \<in> set (occupants tbl) \<Longrightarrow> home (name_hash (ps q)) n = h"
  shows "k + f = n \<Longrightarrow> \<forall>j<k. \<exists>q. tbl ! ((h + j) mod n) = Some q \<and> \<not> P q \<Longrightarrow>
    \<exists>r. probe_match P tbl n f ((h + k) mod n) = Some r \<and>
      (case r of None \<Rightarrow> \<forall>q\<in>set (occupants tbl). \<not> P q
       | Some p \<Rightarrow> p < n \<and> (\<exists>q. tbl ! p = Some q \<and> P q))"
proof (induction f arbitrary: k)
  case 0
  obtain i where i: "i < n" "tbl ! i = None" using inv(3) by blast
  then obtain j where "j < n" "i = (h + j) mod n" using position_reached by blast
  then show ?case using 0 i by fastforce
next
  case (Suc f)
  show ?case
  proof (cases "tbl ! ((h + k) mod n)")
    case None
    have "\<not> P q" if q: "q \<in> set (occupants tbl)" for q
    proof
      assume "P q"
      obtain i where i: "i < n" "tbl ! i = Some q" using q inv(2) by (auto simp: set_occupants)
      then obtain m where m: "m < n" "i = (h + m) mod n" "\<forall>j\<le>m. tbl ! ((h + j) mod n) \<noteq> None"
        using inv(1,2) home [OF \<open>P q\<close> q] unfolding probe_inv_def reachable_def Let_def by blast
      then have "m < k" using None by (meson not_le)
      then show False using Suc.prems(2) m(2) i(2) \<open>P q\<close> by fastforce
    qed
    then show ?thesis using None by simp
  next
    case (Some q)
    show ?thesis
    proof (cases "P q")
      case True
      have "0 < n" using Suc.prems(1) by simp
      then show ?thesis using Some True by simp
    next
      case False
      then have "\<forall>j<Suc k. \<exists>q. tbl ! ((h + j) mod n) = Some q \<and> \<not> P q"
        using Some Suc.prems(2) by (auto simp: less_Suc_eq)
      then show ?thesis using Suc.IH [of "Suc k"] Suc.prems(1) Some False by simp
    qed
  qed
qed

lemma probe_match_spec:
  assumes "probe_inv ps None tbl" "n = length tbl" "\<exists>i<n. tbl ! i = None"
    and "\<And>q. P q \<Longrightarrow> q \<in> set (occupants tbl) \<Longrightarrow> home (name_hash (ps q)) n = h" "h < n"
  shows "probe_match P tbl n n h = Some None \<and> (\<forall>q\<in>set (occupants tbl). \<not> P q) \<or>
    (\<exists>p q. probe_match P tbl n n h = Some (Some p) \<and> p < n \<and> tbl ! p = Some q \<and> P q)"
proof -
  have "(h + 0) mod n = h" using assms(5) by simp
  then obtain r where r: "probe_match P tbl n n h = Some r"
    "case r of None \<Rightarrow> \<forall>q\<in>set (occupants tbl). \<not> P q | Some p \<Rightarrow> p < n \<and> (\<exists>q. tbl ! p = Some q \<and> P q)"
    using probe_match_loop [OF assms(1-4), of P 0 n] by auto
  then show ?thesis by (cases r) auto
qed

section \<open>Plugging the hole\<close>

text \<open>The run of occupied buckets after the hole \<open>s\<close>: \<open>e\<close> of them, and an empty one behind.\<close>

definition run_after :: "pkgref option list \<Rightarrow> nat \<Rightarrow> nat \<Rightarrow> bool" where
  "run_after tbl s e \<longleftrightarrow>
     (let n = length tbl
      in s < n \<and> Suc e < n \<and> tbl ! s = None \<and> (\<forall>m. 1 \<le> m \<and> m \<le> e \<longrightarrow> tbl ! ((s + m) mod n) \<noteq> None) \<and>
         tbl ! ((s + Suc e) mod n) = None)"

text \<open>The package at distance \<open>m\<close> from the hole would be put into the hole.\<close>

definition plugs :: "pkgs \<Rightarrow> alpm_pkghash_t \<Rightarrow> nat \<Rightarrow> nat \<Rightarrow> bool" where
  "plugs ps hash s m \<longleftrightarrow>
     (\<exists>q. hash_table hash ! ((s + m) mod buckets hash) = Some q \<and>
          get_hash_position (name_hash (ps q)) hash = Some s)"

lemma get_hash_position_total:
  assumes "buckets hash = length (hash_table hash)" "s < buckets hash" "hash_table hash ! s = None"
  shows "\<exists>p. get_hash_position x hash = Some p"
  using get_hash_position_spec [OF assms] by blast

lemma move_one_entry_loop_spec:
  assumes len: "buckets hash = length (hash_table hash)" and run: "run_after (hash_table hash) s e"
  shows "m < f \<Longrightarrow> m \<le> e \<Longrightarrow>
    (\<exists>d q. 1 \<le> d \<and> d \<le> m \<and> hash_table hash ! ((s + d) mod buckets hash) = Some q \<and>
       get_hash_position (name_hash (ps q)) hash = Some s \<and> (\<forall>i. d < i \<and> i \<le> m \<longrightarrow> \<not> plugs ps hash s i) \<and>
       move_one_entry_loop ps f hash s ((s + m) mod buckets hash) =
         Some ((s + d) mod buckets hash, hash\<lparr>hash_table :=
           (hash_table hash)[s := Some q, (s + d) mod buckets hash := None]\<rparr>)) \<or>
    (\<forall>i. 1 \<le> i \<and> i \<le> m \<longrightarrow> \<not> plugs ps hash s i) \<and>
    move_one_entry_loop ps f hash s ((s + m) mod buckets hash) = Some (s, hash)"
proof (induction f arbitrary: m)
  case (Suc f)
  let ?n = "buckets hash" and ?t = "hash_table hash"
  have s: "s < ?n" "e < ?n" "?t ! s = None" using run len by (auto simp: run_after_def Let_def)
  show ?case
  proof (cases "m = 0")
    case True
    then show ?thesis using s by simp
  next
    case False
    then have "?t ! ((s + m) mod ?n) \<noteq> None"
      using run len Suc.prems by (simp add: run_after_def Let_def)
    then obtain q where q: "?t ! ((s + m) mod ?n) = Some q" by blast
    have ne: "(s + m) mod ?n \<noteq> s" using q s by auto
    obtain p where p: "get_hash_position (name_hash (ps q)) hash = Some p"
      using get_hash_position_total [OF len s(1,3)] by blast
    show ?thesis
    proof (cases "p = s")
      case True
      have "move_one_entry_loop ps (Suc f) hash s ((s + m) mod ?n) =
         Some ((s + m) mod ?n, hash\<lparr>hash_table := ?t[s := Some q, (s + m) mod ?n := None]\<rparr>)"
        using True p q ne by simp
      then show ?thesis using q p True False by (intro disjI1 exI [of _ m] exI [of _ q]) auto
    next
      case ps: False
      have "\<not> plugs ps hash s m" using q p ps by (simp add: plugs_def)
      then have ext: "\<not> plugs ps hash s i" if "i \<le> m" "i \<le> m - 1 \<Longrightarrow> \<not> plugs ps hash s i" for i
        using that by (cases "i = m") auto
      have "(?n + (s + m) mod ?n - stride) mod ?n = (s + (m - 1)) mod ?n"
        using mod_back [of m ?n s] False Suc.prems s by (simp add: stride_def)
      then have step: "move_one_entry_loop ps (Suc f) hash s ((s + m) mod ?n) =
        move_one_entry_loop ps f hash s ((s + (m - 1)) mod ?n)"
        using ps p q ne by simp
      have "m - 1 < f" "m - 1 \<le> e" "m - 1 \<le> m" using False Suc.prems by auto
      from Suc.IH [OF this(1,2)] show ?thesis
        unfolding step using ext \<open>m - 1 \<le> m\<close> by (meson le_trans)
    qed
  qed
qed simp

lemma no_plugs_inv:
  assumes len: "buckets hash = length (hash_table hash)" and run: "run_after (hash_table hash) s e"
    and inv: "probe_inv ps (Some s) (hash_table hash)"
    and none: "\<forall>i. 1 \<le> i \<and> i \<le> e \<longrightarrow> \<not> plugs ps hash s i"
  shows "probe_inv ps None (hash_table hash)"
proof -
  let ?n = "buckets hash" and ?t = "hash_table hash"
  have s: "s < ?n" "e < ?n" "?t ! s = None" "?t ! ((s + Suc e) mod ?n) = None"
    using run len by (auto simp: run_after_def Let_def)
  have "reachable ps None ?t i q" if iq: "i < ?n" "?t ! i = Some q" for i q
  proof -
    let ?h = "home (name_hash (ps q)) ?n"
    obtain k where k: "k < ?n" "i = (?h + k) mod ?n"
      "\<And>j. j \<le> k \<Longrightarrow> ?t ! ((?h + j) mod ?n) \<noteq> None \<or> Some ((?h + j) mod ?n) = Some s"
      using probe_invE [OF inv _ iq(2) len] iq(1) len by auto
    have "(?h + j) mod ?n \<noteq> s" if "j \<le> k" for j
    proof
      assume j: "(?h + j) mod ?n = s"
      have "j \<noteq> k" using j iq k(2) s by auto
      then have "j < k" using that by simp
      have other: "?t ! ((?h + m) mod ?n) \<noteq> None" if "m \<le> k" "m \<noteq> j" for m
        using k(1,3) that \<open>j < k\<close> mod_add_eq_iff [of m ?n j ?h] j by auto
      have "k - j \<le> e"
      proof (rule ccontr)
        assume "\<not> k - j \<le> e"
        then have "(?h + (j + Suc e)) mod ?n = (s + Suc e) mod ?n" "j + Suc e \<le> k" "j + Suc e \<noteq> j"
          using mod_shift [OF j, of "Suc e"] by auto
        then show False using other s(4) by metis
      qed
      moreover have "(s + (k - j)) mod ?n = i"
        using j k(2) \<open>j < k\<close> by (metis add.assoc le_add_diff_inverse less_imp_le mod_add_left_eq)
      moreover obtain p where p: "get_hash_position (name_hash (ps q)) hash = Some p" "?t ! p = None"
        "\<exists>m<?n. p = (?h + m) mod ?n \<and> (\<forall>i<m. ?t ! ((?h + i) mod ?n) \<noteq> None)"
        using get_hash_position_spec [OF len s(1,3), of "name_hash (ps q)"] by auto
      then obtain m where m: "m < ?n" "p = (?h + m) mod ?n" "\<forall>i<m. ?t ! ((?h + i) mod ?n) \<noteq> None" by blast
      have "m = j"
      proof (rule ccontr)
        assume "m \<noteq> j"
        then consider "m < j" | "j < m" by linarith
        then show False
        proof cases
          case 1
          then show False using other [of m] p(2) m(2) \<open>j < k\<close> by simp
        next
          case 2
          then show False using m(3) j s(3) by blast
        qed
      qed
      ultimately have "plugs ps hash s (k - j)" using iq p j m by (auto simp: plugs_def)
      then show False using none \<open>k - j \<le> e\<close> \<open>j < k\<close> by auto
    qed
    then have "?t ! ((?h + j) mod ?n) \<noteq> None" if "j \<le> k" for j using k(3) that by blast
    then show ?thesis using reachableI [of i ps q ?t k None] k(1,2) len by simp
  qed
  then show ?thesis using len by (simp add: probe_inv_def)
qed

lemma plug_step:
  assumes len: "buckets hash = length (hash_table hash)" "n = buckets hash" and run: "run_after (hash_table hash) s e"
    and inv: "probe_inv ps (Some s) (hash_table hash)"
    and d: "1 \<le> d" "d \<le> e" "hash_table hash ! ((s + d) mod n) = Some q"
    and pos: "get_hash_position (name_hash (ps q)) hash = Some s"
    and t': "t' = (hash_table hash)[s := Some q, (s + d) mod n := None]"
  shows "run_after t' ((s + d) mod n) (e - d)" "probe_inv ps (Some ((s + d) mod n)) t'"
    "length t' = length (hash_table hash)" "mset (occupants t') = mset (occupants (hash_table hash))"
proof -
  let ?t = "hash_table hash" and ?s = "(s + d) mod n"
  have s: "s < n" "Suc e < n" "?t ! s = None" "?t ! ((s + Suc e) mod n) = None"
    "\<And>m. 1 \<le> m \<Longrightarrow> m \<le> e \<Longrightarrow> ?t ! ((s + m) mod n) \<noteq> None"
    using run len by (simp_all add: run_after_def Let_def)
  have ss: "?s < n" "?s \<noteq> s" using s d by auto
  have less: "x mod n < n" for x using s(1) by simp
  show len': "length t' = length ?t" by (simp add: t')
  have t'_nth: "t' ! x = (if x = ?s then None else if x = s then Some q else ?t ! x)" if "x < n" for x
    using that ss s len by (auto simp: t' nth_list_update)
  have shift: "(?s + m) mod n = (s + (d + m)) mod n" for m by (simp add: mod_shift)
  have ne_s: "(s + m) mod n \<noteq> s" if "1 \<le> m" "m < n" for m
    using mod_add_eq_iff [of m n 0 s] that s(1) by auto
  show "run_after t' ?s (e - d)"
    unfolding run_after_def Let_def len'
  proof (intro conjI allI impI)
    show "?s < length ?t" "Suc (e - d) < length ?t" using ss s len d by auto
    show "t' ! ?s = None" using t'_nth ss by simp
    show "t' ! ((?s + m) mod length ?t) \<noteq> None" if "1 \<le> m \<and> m \<le> e - d" for m
    proof -
      have "(s + (d + m)) mod n \<noteq> ?s"
        using mod_add_eq_iff [of "d + m" n d s] that s(2) d(2) by linarith
      moreover have "(s + (d + m)) mod n \<noteq> s" using ne_s [of "d + m"] that s(2) d(1,2) by linarith
      moreover have "?t ! ((s + (d + m)) mod n) \<noteq> None" by (rule s(5)) (use that d in linarith)+
      ultimately show ?thesis using t'_nth [OF less] shift len by simp
    qed
    have "(s + Suc e) mod n \<noteq> s" by (rule ne_s) (use s(2) in auto)
    then show "t' ! ((?s + Suc (e - d)) mod length ?t) = None"
      using t'_nth [OF less [of "s + Suc e"]] s(1,4) shift [of "Suc (e - d)"] d len by simp
  qed
  show "mset (occupants t') = mset (occupants ?t)"
    using occupants_remove [of ?s "?t[s := Some q]" q] occupants_insert [of s ?t q] s ss d(3) len
    by (simp add: t')
  have "reachable ps (Some ?s) t' i r" if ir: "i < n" "t' ! i = Some r" for i r
  proof (cases "i = s")
    case True
    then have "r = q" using ir t'_nth ss s by simp
    let ?h = "home (name_hash (ps q)) n"
    obtain k where k: "k < n" "s = (?h + k) mod n" "\<forall>j<k. ?t ! ((?h + j) mod n) \<noteq> None"
      using get_hash_position_spec [OF len(1) _ s(3), of "name_hash (ps q)"] s(1) len pos by auto
    have "t' ! ((?h + j) mod n) \<noteq> None \<or> Some ((?h + j) mod n) = Some ?s" if "j \<le> k" for j
      using k that t'_nth [of "(?h + j) mod n"] s(1) by (cases "j = k") auto
    then show ?thesis
      using True k reachableI [of i ps q t' k] \<open>r = q\<close> len len' by simp
  next
    case False
    then have "?t ! i = Some r" using ir t'_nth by (auto split: if_splits)
    then have "reachable ps (Some s) ?t i r" using inv ir len by (simp add: probe_inv_def)
    then show ?thesis by (rule reachable_mono) (use t'_nth len len' in auto)
  qed
  then show "probe_inv ps (Some ?s) t'" using len len' by (simp add: probe_inv_def)
qed

lemma plug_holes_spec:
  "e < f \<Longrightarrow> buckets hash = length (hash_table hash) \<Longrightarrow> run_after (hash_table hash) s e \<Longrightarrow>
   probe_inv ps (Some s) (hash_table hash) \<Longrightarrow>
   \<exists>t'. plug_holes ps f hash s ((s + e) mod buckets hash) = Some (hash\<lparr>hash_table := t'\<rparr>) \<and>
     probe_inv ps None t' \<and> length t' = length (hash_table hash) \<and>
     mset (occupants t') = mset (occupants (hash_table hash))"
proof (induction f arbitrary: hash s e)
  case (Suc f)
  let ?n = "buckets hash" and ?t = "hash_table hash"
  have e: "e < ?n" using Suc.prems(2,3) by (simp add: run_after_def Let_def)
  from move_one_entry_loop_spec [OF Suc.prems(2,3) e order_refl, of ps]
  show ?case
  proof (elim disjE exE conjE)
    fix d q
    assume d: "1 \<le> d" "d \<le> e" "?t ! ((s + d) mod ?n) = Some q"
      and pos: "get_hash_position (name_hash (ps q)) hash = Some s"
      and move: "move_one_entry_loop ps ?n hash s ((s + e) mod ?n) =
        Some ((s + d) mod ?n, hash\<lparr>hash_table := ?t[s := Some q, (s + d) mod ?n := None]\<rparr>)"
    define t' where "t' = ?t[s := Some q, (s + d) mod ?n := None]"
    note step = plug_step [OF Suc.prems(2) HOL.refl Suc.prems(3,4) d pos t'_def]
    have "?t ! s = None" using Suc.prems(3) by (simp add: run_after_def Let_def)
    then have ne: "(s + d) mod ?n \<noteq> s" using d(3) by auto
    have "((s + d) mod ?n + (e - d)) mod ?n = (s + e) mod ?n"
      using mod_shift [of s d ?n "(s + d) mod ?n" "e - d"] d(2) by simp
    moreover have "e - d < f" using Suc.prems(1) d(1,2) by linarith
    ultimately obtain t'' where "plug_holes ps f (hash\<lparr>hash_table := t'\<rparr>) ((s + d) mod ?n) ((s + e) mod ?n) =
        Some (hash\<lparr>hash_table := t''\<rparr>)" "probe_inv ps None t''" "length t'' = length t'"
        "mset (occupants t'') = mset (occupants t')"
      using Suc.IH [of "e - d" "hash\<lparr>hash_table := t'\<rparr>" "(s + d) mod ?n"] Suc.prems(1,2) d step by auto
    moreover from this(1) have "plug_holes ps (Suc f) hash s ((s + e) mod ?n) = Some (hash\<lparr>hash_table := t''\<rparr>)"
      using move ne by (simp add: move_one_entry_def t'_def)
    ultimately show ?thesis using step(3,4) by metis
  next
    assume none: "\<forall>i. 1 \<le> i \<and> i \<le> e \<longrightarrow> \<not> plugs ps hash s i"
      and move: "move_one_entry_loop ps ?n hash s ((s + e) mod ?n) = Some (s, hash)"
    have "probe_inv ps None ?t" using no_plugs_inv [OF Suc.prems(2-4) none] .
    then show ?thesis using move by (intro exI [of _ ?t]) (simp add: move_one_entry_def)
  qed
qed simp

lemma find_stop_spec:
  assumes "s < n" "n = length tbl" "tbl ! s = None" "x < n" "x \<noteq> s" "tbl ! x = None"
  shows "1 \<le> k \<Longrightarrow> k < n \<Longrightarrow> n \<le> f + k \<Longrightarrow> (\<forall>m. 1 \<le> m \<and> m < k \<longrightarrow> tbl ! ((s + m) mod n) \<noteq> None) \<Longrightarrow>
    \<exists>e. run_after tbl s e \<and> find_stop tbl n f s ((s + k) mod n) = Some ((s + Suc e) mod n)"
proof (induction f arbitrary: k)
  case (Suc f)
  have ne_s: "(s + m) mod n \<noteq> s" if "1 \<le> m" "m < n" for m
    using mod_add_eq_iff [of m n 0 s] that assms(1) by auto
  show ?case
  proof (cases "tbl ! ((s + k) mod n) = None")
    case True
    moreover have "tbl ! ((s + m) mod n) \<noteq> None" if "1 \<le> m" "m \<le> k - 1" for m
      using Suc.prems(1,4) that by simp
    ultimately have "run_after tbl s (k - 1)"
      using Suc.prems(1,2) assms(1-3) by (simp add: run_after_def Let_def)
    then show ?thesis using True Suc.prems by (intro exI [of _ "k - 1"]) simp
  next
    case False
    obtain y where y: "y < n" "x = (s + y) mod n" using position_reached [OF assms(4)] by blast
    have "y \<noteq> 0" using y(2) assms(1,5) by (cases y) auto
    then have "\<not> y \<le> k"
      using y(2) assms(6) False Suc.prems(4) by (metis One_nat_def Suc_leI le_neq_implies_less neq0_conv)
    then have "Suc k < n" using y(1) by simp
    moreover have "\<forall>m. 1 \<le> m \<and> m < Suc k \<longrightarrow> tbl ! ((s + m) mod n) \<noteq> None"
      using Suc.prems(4) False by (auto simp: less_Suc_eq)
    ultimately obtain e where "run_after tbl s e" "find_stop tbl n f s ((s + Suc k) mod n) = Some ((s + Suc e) mod n)"
      using Suc.IH [of "Suc k"] Suc.prems(3) by auto
    then show ?thesis using False ne_s [OF Suc.prems(1,2)] by auto
  qed
qed simp

lemma remove_at_spec:
  assumes len: "buckets hash = length (hash_table hash)" "n = buckets hash"
    and inv: "probe_inv ps None (hash_table hash)"
    and p: "p < n" "hash_table hash ! p = Some info"
    and free: "x < n" "hash_table hash ! x = None"
  shows "\<exists>t'. remove_at ps hash p info =
      Some (hash\<lparr>hlist := remove1 info (hlist hash), hash_table := t', entries := entries hash - 1\<rparr>, Some info) \<and>
    probe_inv ps None t' \<and> length t' = length (hash_table hash) \<and>
    add_mset info (mset (occupants t')) = mset (occupants (hash_table hash))"
proof -
  let ?t = "(hash_table hash)[p := None]"
  let ?hash = "hash\<lparr>hlist := remove1 info (hlist hash), hash_table := ?t, entries := entries hash - 1\<rparr>"
  have t: "p < n" "n = length ?t" "?t ! p = None" "x < n" "x \<noteq> p" "?t ! x = None"
    using p free len by (cases "x = p"; auto)+
  have n: "2 \<le> n" using t(1,4,5) by linarith
  have inv': "probe_inv ps (Some p) ?t"
  proof -
    have "reachable ps (Some p) ?t i q" if "i < n" "?t ! i = Some q" for i q
    proof -
      have "i \<noteq> p" using that t by auto
      then have "reachable ps None (hash_table hash) i q" using that inv len by (simp add: probe_inv_def)
      then show ?thesis by (rule reachable_mono) (auto simp: nth_list_update)
    qed
    then show ?thesis using t(2) by (simp add: probe_inv_def)
  qed
  obtain e where e: "run_after ?t p e"
    "find_stop ?t n n p ((p + 1) mod n) = Some ((p + Suc e) mod n)"
    using find_stop_spec [OF t, of 1 n] n by auto
  have "Suc e < n" using e(1) t(2) by (simp add: run_after_def Let_def)
  then have stop: "(n + (p + Suc e) mod n - stride) mod n = (p + e) mod n"
    using mod_back [of "Suc e" n p] by (simp add: stride_def)
  obtain t' where t': "plug_holes ps n ?hash p ((p + e) mod n) = Some (?hash\<lparr>hash_table := t'\<rparr>)"
    "probe_inv ps None t'" "length t' = length ?t" "mset (occupants t') = mset (occupants ?t)"
    using plug_holes_spec [of e n ?hash p ps] e(1) inv' \<open>Suc e < n\<close> len t(2) by auto
  have "remove_at ps hash p info = Some (?hash\<lparr>hash_table := t'\<rparr>, Some info)"
    using e(2) stop t'(1) t(1) len by (simp add: remove_at_def Let_def next_position_Suc)
  then show ?thesis
    using t' occupants_remove [of p "hash_table hash" info] p len by (intro exI [of _ t']) simp
qed

section \<open>The hash as a map\<close>

text \<open>The invariant of a hash between operations, and the map from names to packages it stands for.\<close>

definition pkghash_inv :: "pkgs \<Rightarrow> alpm_pkghash_t \<Rightarrow> bool" where
  "pkghash_inv ps h \<longleftrightarrow>
     buckets h = length (hash_table h) \<and> buckets h \<in> set prime_list \<and> limit h = buckets h * 68 div 100 \<and>
     entries h = length (hlist h) \<and> entries h \<le> limit h \<and>
     mset (occupants (hash_table h)) = mset (hlist h) \<and>
     distinct (map (\<lambda>p. pname (ps p)) (hlist h)) \<and> (\<forall>p\<in>set (hlist h). hashed (ps p)) \<and>
     probe_inv ps None (hash_table h)"

definition contents :: "pkgs \<Rightarrow> alpm_pkghash_t \<Rightarrow> string \<Rightarrow> pkgref option" where
  "contents ps h n = List.find (\<lambda>p. pname (ps p) = n) (hlist h)"

lemma prime_list_ge: "p \<in> set prime_list \<Longrightarrow> 11 \<le> p"
  by (auto simp: prime_list_def)

lemma pkghash_invD:
  assumes "pkghash_inv ps h"
  shows "buckets h = length (hash_table h)" "0 < buckets h" "entries h < buckets h"
    "entries h \<le> limit h" "entries h = length (hlist h)"
    "set (occupants (hash_table h)) = set (hlist h)" "probe_inv ps None (hash_table h)"
    "\<exists>i<buckets h. hash_table h ! i = None"
proof -
  show *: "buckets h = length (hash_table h)" "0 < buckets h" "entries h < buckets h"
    "entries h \<le> limit h" "entries h = length (hlist h)" "probe_inv ps None (hash_table h)"
    using assms prime_list_ge [of "buckets h"] by (auto simp: pkghash_inv_def)
  have m: "mset (occupants (hash_table h)) = mset (hlist h)" using assms by (simp add: pkghash_inv_def)
  then show "set (occupants (hash_table h)) = set (hlist h)" by (rule mset_eq_setD)
  have "length (occupants (hash_table h)) = length (hlist h)" using m by (rule mset_eq_length)
  then show "\<exists>i<buckets h. hash_table h ! i = None" using * occupants_free by metis
qed

lemma contents_Some:
  assumes "pkghash_inv ps h"
  shows "contents ps h n = Some p \<longleftrightarrow> p \<in> set (hlist h) \<and> pname (ps p) = n"
proof -
  have "distinct (map (\<lambda>p. pname (ps p)) (hlist h))" using assms by (simp add: pkghash_inv_def)
  moreover have "List.find (\<lambda>p. pname (ps p) = n) xs = Some p \<longleftrightarrow> p \<in> set xs \<and> pname (ps p) = n"
    if "distinct (map (\<lambda>p. pname (ps p)) xs)" for xs
    using that by (induction xs) auto
  ultimately show ?thesis unfolding contents_def by blast
qed

lemma contents_None: "contents ps h n = None \<longleftrightarrow> (\<forall>p\<in>set (hlist h). pname (ps p) \<noteq> n)"
  by (auto simp: contents_def find_None_iff)

lemma contents_cong:
  assumes "pkghash_inv ps h" "pkghash_inv ps h'" "set (hlist h') = set (hlist h)"
  shows "contents ps h' = contents ps h"
proof
  fix n
  have "contents ps h' n = Some p \<longleftrightarrow> contents ps h n = Some p" for p
    using assms by (simp add: contents_Some)
  then show "contents ps h' n = contents ps h n"
    by (metis not_None_eq)
qed

lemma find_contents:
  assumes inv: "pkghash_inv ps h"
  shows "alpm_pkghash_find ps h n = Some (contents ps h n)"
proof -
  let ?P = "\<lambda>q. name_hash (ps q) = name_hash_of n \<and> strcmp (pname (ps q)) n = 0"
  note I = pkghash_invD [OF inv]
  have P: "?P q \<longleftrightarrow> pname (ps q) = n" if "q \<in> set (hlist h)" for q
    using that inv by (auto simp: pkghash_inv_def hashed_def)
  let ?h = "home (name_hash_of n) (buckets h)"
  have "probe_match ?P (hash_table h) (buckets h) (buckets h) ?h = Some None \<and>
      (\<forall>q\<in>set (occupants (hash_table h)). \<not> ?P q) \<or>
    (\<exists>p q. probe_match ?P (hash_table h) (buckets h) (buckets h) ?h = Some (Some p) \<and>
      p < buckets h \<and> hash_table h ! p = Some q \<and> ?P q)"
    by (rule probe_match_spec [OF I(7,1) I(8)]) (use I(2) in auto)
  then show ?thesis
  proof (elim disjE exE conjE)
    assume "probe_match ?P (hash_table h) (buckets h) (buckets h) ?h = Some None"
      and none: "\<forall>q\<in>set (occupants (hash_table h)). \<not> ?P q"
    moreover from none have "contents ps h n = None" using P I(6) by (auto simp: contents_None)
    ultimately show ?thesis by (simp add: alpm_pkghash_find_def find_loop_probe)
  next
    fix p q
    assume found: "probe_match ?P (hash_table h) (buckets h) (buckets h) ?h = Some (Some p)"
      "p < buckets h" "hash_table h ! p = Some q" and q: "name_hash (ps q) = name_hash_of n"
      "strcmp (pname (ps q)) n = 0"
    then have "q \<in> set (hlist h)" using I(1,6) set_occupants by metis
    then have "contents ps h n = Some q" using contents_Some [OF inv] q P by blast
    then show ?thesis using found by (simp add: alpm_pkghash_find_def find_loop_probe)
  qed
qed

lemma insert_spec:
  assumes b: "buckets h = length (hash_table h)" "i < buckets h" "hash_table h ! i = None"
    and inv: "probe_inv ps None (hash_table h)"
  shows "\<exists>t'. pkghash_insert ps h pkg st = Some (True, h\<lparr>hash_table := t',
      hlist := (if \<not> st then hlist h @ [pkg] else alpm_list_mmerge (alpm_pkg_cmp ps) (hlist h) [pkg]),
      entries := entries h + 1\<rparr>) \<and>
    probe_inv ps None t' \<and> length t' = length (hash_table h) \<and>
    mset (occupants t') = add_mset pkg (mset (occupants (hash_table h)))"
proof -
  let ?n = "buckets h" and ?x = "name_hash (ps pkg)"
  obtain k where k: "k < ?n" "get_hash_position ?x h = Some ((home ?x ?n + k) mod ?n)"
    "hash_table h ! ((home ?x ?n + k) mod ?n) = None" "\<forall>j<k. hash_table h ! ((home ?x ?n + j) mod ?n) \<noteq> None"
    using get_hash_position_spec [OF b] by blast
  define t' where "t' = (hash_table h)[(home ?x ?n + k) mod ?n := Some pkg]"
  have "0 < ?n" using b(2) by simp
  then have "(home ?x ?n + k) mod ?n < length (hash_table h)" using b(1) by simp
  then have "mset (occupants t') = add_mset pkg (mset (occupants (hash_table h)))"
    unfolding t'_def by (rule occupants_insert) (rule k)
  moreover have "probe_inv ps None t'"
    unfolding t'_def by (rule probe_inv_insert) (use inv b k in auto)
  moreover have "length t' = length (hash_table h)" by (simp add: t'_def)
  ultimately show ?thesis using k(2) by (intro exI [of _ t']) (simp add: pkghash_insert_def t'_def)
qed

lemma create_spec:
  assumes "alpm_pkghash_create n = Some h"
  shows "buckets h = length (hash_table h)" "buckets h \<in> set prime_list" "limit h = buckets h * 68 div 100"
    "hash_table h = replicate (buckets h) None" "hlist h = []" "entries h = 0" "n \<le> limit h"
proof -
  obtain p where p: "List.find (\<lambda>p. p > n * 100 div 58 + 1) prime_list = Some p"
    and h: "h = \<lparr>hash_table = replicate p None, hlist = [], buckets = p, entries = 0, limit = p * 68 div 100\<rparr>"
    using assms by (auto simp: alpm_pkghash_create_def Let_def split: option.splits)
  have "n * 100 div 58 + 1 < p" using p by (auto simp: find_Some_iff)
  moreover have "p \<in> set prime_list" using p by (auto simp: find_Some_iff)
  moreover have "n \<le> p * 68 div 100" using calculation(1) by linarith
  ultimately show "buckets h = length (hash_table h)" "buckets h \<in> set prime_list" "limit h = buckets h * 68 div 100"
    "hash_table h = replicate (buckets h) None" "hlist h = []" "entries h = 0" "n \<le> limit h"
    by (simp_all add: h)
qed

lemma create_inv: "alpm_pkghash_create n = Some h \<Longrightarrow> pkghash_inv ps h \<and> contents ps h = Map.empty"
  using create_spec [of n h] by (auto simp: pkghash_inv_def contents_def fun_eq_iff)

lemma rehash_move_spec:
  "buckets nh = length (hash_table nh) \<Longrightarrow> probe_inv ps None (hash_table nh) \<Longrightarrow>
   length (occupants (hash_table nh)) + length (occupants old) < buckets nh \<Longrightarrow>
   \<exists>t'. rehash_move ps old nh = Some (nh\<lparr>hash_table := t'\<rparr>) \<and> probe_inv ps None t' \<and>
     length t' = length (hash_table nh) \<and> mset (occupants t') = mset (occupants (hash_table nh)) + mset (occupants old)"
proof (induction ps old nh rule: rehash_move.induct)
  case (1 ps nh)
  then show ?case by (intro exI [of _ "hash_table nh"]) (simp add: occupants_def)
next
  case (2 ps old nh)
  then show ?case by (simp add: occupants_def)
next
  case (3 ps q old nh)
  let ?n = "buckets nh" and ?x = "name_hash (ps q)" and ?t = "hash_table nh"
  have occ: "occupants (Some q # old) = q # occupants old" by (simp add: occupants_def)
  obtain i where i: "i < ?n" "?t ! i = None"
    using occupants_free [of ?t] "3.prems"(1,3) by auto
  obtain k where k: "k < ?n" "get_hash_position ?x nh = Some ((home ?x ?n + k) mod ?n)"
    "?t ! ((home ?x ?n + k) mod ?n) = None" "\<forall>j<k. ?t ! ((home ?x ?n + j) mod ?n) \<noteq> None"
    using get_hash_position_spec [OF "3.prems"(1) i] by blast
  define t' where "t' = ?t[(home ?x ?n + k) mod ?n := Some q]"
  have "0 < ?n" using i by simp
  then have "(home ?x ?n + k) mod ?n < length ?t" using "3.prems"(1) by simp
  then have occ': "mset (occupants t') = add_mset q (mset (occupants ?t))"
    unfolding t'_def by (rule occupants_insert) (rule k)
  have inv': "probe_inv ps None t'"
    unfolding t'_def by (rule probe_inv_insert) (use "3.prems"(1,2) k in auto)
  have len': "length t' = length ?t" by (simp add: t'_def)
  have "length (occupants t') = Suc (length (occupants ?t))"
    using occ' by (metis size_add_mset size_mset)
  then obtain t'' where "rehash_move ps old (nh\<lparr>hash_table := t'\<rparr>) = Some (nh\<lparr>hash_table := t''\<rparr>)"
    "probe_inv ps None t''" "length t'' = length t'" "mset (occupants t'') = mset (occupants t') + mset (occupants old)"
    using "3.IH" [OF k(2)] "3.prems" inv' len' occ by (auto simp: t'_def)
  moreover from this(1) have "rehash_move ps (Some q # old) nh = Some (nh\<lparr>hash_table := t''\<rparr>)"
    using k(2) by (simp add: t'_def)
  ultimately show ?case using occ occ' len' by auto
qed

lemma rehash_size_greater: "11 \<le> n \<Longrightarrow> n < rehash_size n"
proof -
  assume "11 \<le> n"
  then have "n < n * 2" "n < n * 3 div 2" "n < n * 4 div 3" by linarith+
  then show ?thesis by (simp add: rehash_size_def)
qed

lemma rehash_spec:
  assumes inv: "pkghash_inv ps h"
  shows "rehash ps h = Some None \<and> alpm_pkghash_create (rehash_size (buckets h)) = None \<or>
    (\<exists>h'. rehash ps h = Some (Some h') \<and> pkghash_inv ps h' \<and> hlist h' = hlist h \<and> entries h' < limit h')"
proof (cases "alpm_pkghash_create (rehash_size (buckets h))")
  case None
  then show ?thesis by (simp add: rehash_def)
next
  case (Some nh)
  note c = create_spec [OF Some] and I = pkghash_invD [OF inv]
  have m: "mset (occupants (hash_table h)) = mset (hlist h)" using inv by (simp add: pkghash_inv_def)
  then have lo: "length (occupants (hash_table h)) = entries h" using I(5) by (metis size_mset)
  have "entries h < limit nh"
    using I(3) rehash_size_greater [OF prime_list_ge, of "buckets h"] c(7) inv
    by (auto simp: pkghash_inv_def)
  moreover have "limit nh \<le> buckets nh" using c(3) by simp
  ultimately have eb: "entries h < buckets nh" by simp
  have e: "occupants (hash_table nh) = []" "probe_inv ps None (hash_table nh)"
    by (subst c(4), simp)+
  then obtain t' where t': "rehash_move ps (hash_table h) (nh\<lparr>hlist := hlist h\<rparr>) = Some (nh\<lparr>hlist := hlist h, hash_table := t'\<rparr>)"
    "probe_inv ps None t'" "length t' = buckets nh" "mset (occupants t') = mset (occupants (hash_table h))"
    using rehash_move_spec [of "nh\<lparr>hlist := hlist h\<rparr>" ps "hash_table h"] c(1) e lo eb by auto
  let ?h' = "nh\<lparr>hlist := hlist h, hash_table := t', entries := entries h\<rparr>"
  have "rehash ps h = Some (Some ?h')" using Some t'(1) by (simp add: rehash_def)
  moreover have "pkghash_inv ps ?h'"
    using inv c(2,3) t'(2-4) \<open>entries h < limit nh\<close> by (simp add: pkghash_inv_def)
  ultimately show ?thesis using \<open>entries h < limit nh\<close> by auto
qed

section \<open>Adding and removing keep the invariant\<close>

lemma contents_upd:
  assumes "pkghash_inv ps h" "pkghash_inv ps h'" "set (hlist h') = insert p (set (hlist h))"
    and "contents ps h (pname (ps p)) = None"
  shows "contents ps h' = (contents ps h)(pname (ps p) \<mapsto> p)"
proof
  fix n
  have "contents ps h' n = Some q \<longleftrightarrow> ((contents ps h)(pname (ps p) \<mapsto> p)) n = Some q" for q
    using assms(4) contents_Some [OF assms(1)] contents_Some [OF assms(2)]
    by (auto simp: assms(3) contents_None)
  then show "contents ps h' n = ((contents ps h)(pname (ps p) \<mapsto> p)) n"
    by (metis not_None_eq)
qed

lemma pkghash_insert_inv:
  assumes inv: "pkghash_inv ps h" and room: "entries h < limit h"
    and new: "hashed (ps pkg)" "contents ps h (pname (ps pkg)) = None"
  shows "\<exists>h'. pkghash_insert ps h pkg st = Some (True, h') \<and> pkghash_inv ps h' \<and>
    hlist h' = (if \<not> st then hlist h @ [pkg] else alpm_list_mmerge (alpm_pkg_cmp ps) (hlist h) [pkg]) \<and>
    contents ps h' = (contents ps h)(pname (ps pkg) \<mapsto> pkg)"
proof -
  note I = pkghash_invD [OF inv]
  obtain i where i: "i < buckets h" "hash_table h ! i = None" using I(8) by blast
  let ?l = "if \<not> st then hlist h @ [pkg] else alpm_list_mmerge (alpm_pkg_cmp ps) (hlist h) [pkg]"
  obtain t' where t': "pkghash_insert ps h pkg st = Some (True, h\<lparr>hash_table := t', hlist := ?l, entries := entries h + 1\<rparr>)"
    "probe_inv ps None t'" "length t' = length (hash_table h)" "mset (occupants t') = add_mset pkg (mset (occupants (hash_table h)))"
    using insert_spec [OF I(1) i I(7)] by blast
  let ?h' = "h\<lparr>hash_table := t', hlist := ?l, entries := entries h + 1\<rparr>"
  have l: "mset ?l = add_mset pkg (mset (hlist h))" by simp
  then have sl: "set ?l = insert pkg (set (hlist h))" by (metis set_mset_add_mset_insert set_mset_mset)
  have "mset (map (\<lambda>p. pname (ps p)) ?l) = mset (pname (ps pkg) # map (\<lambda>p. pname (ps p)) (hlist h))"
    unfolding mset_map l by simp
  moreover have "distinct (pname (ps pkg) # map (\<lambda>p. pname (ps p)) (hlist h))"
    using inv new(2) by (auto simp: pkghash_inv_def contents_None)
  ultimately have "distinct (map (\<lambda>p. pname (ps p)) ?l)" by (metis mset_eq_imp_distinct_iff)
  moreover have "length ?l = Suc (length (hlist h))" by (metis l size_add_mset size_mset)
  moreover have "mset (occupants t') = mset ?l" using t'(4) inv l by (simp add: pkghash_inv_def)
  ultimately have inv': "pkghash_inv ps ?h'"
    using inv room new(1) t'(2,3) unfolding pkghash_inv_def by (auto simp: sl)
  have "contents ps ?h' = (contents ps h)(pname (ps pkg) \<mapsto> pkg)"
    by (rule contents_upd [OF inv inv']) (use sl new(2) in auto)
  then show ?thesis using t'(1) inv' by auto
qed

text \<open>
  Adding a package whose name is new: the code returns, and it either refuses because the
  primes are exhausted (leaving the hash alone), or the hash gains the package.
\<close>

lemma add_pkg_spec:
  assumes inv: "pkghash_inv ps h" and new: "hashed (ps pkg)" "contents ps h (pname (ps pkg)) = None"
  shows "pkghash_add_pkg ps h pkg st = Some (False, h) \<and> limit h \<le> entries h \<and>
      alpm_pkghash_create (rehash_size (buckets h)) = None \<or>
    (\<exists>h'. pkghash_add_pkg ps h pkg st = Some (True, h') \<and> pkghash_inv ps h' \<and>
      hlist h' = (if \<not> st then hlist h @ [pkg] else alpm_list_mmerge (alpm_pkg_cmp ps) (hlist h) [pkg]) \<and>
      contents ps h' = (contents ps h)(pname (ps pkg) \<mapsto> pkg))"
proof (cases "limit h \<le> entries h")
  case True
  from rehash_spec [OF inv] show ?thesis
  proof (elim disjE exE conjE)
    fix h'
    assume h': "rehash ps h = Some (Some h')" "pkghash_inv ps h'" "hlist h' = hlist h" "entries h' < limit h'"
    have c: "contents ps h' = contents ps h" using h'(3) by (auto simp: contents_def)
    then have "contents ps h' (pname (ps pkg)) = None" using new(2) by simp
    then have "\<exists>h''. pkghash_insert ps h' pkg st = Some (True, h'') \<and> pkghash_inv ps h'' \<and>
      hlist h'' = (if \<not> st then hlist h @ [pkg] else alpm_list_mmerge (alpm_pkg_cmp ps) (hlist h) [pkg]) \<and>
      contents ps h'' = (contents ps h)(pname (ps pkg) \<mapsto> pkg)"
      using pkghash_insert_inv [OF h'(2,4) new(1), of st] unfolding c h'(3) by blast
    moreover have "pkghash_add_pkg ps h pkg st = pkghash_insert ps h' pkg st"
      using True h'(1) by (simp add: pkghash_add_pkg_def)
    ultimately show ?thesis by simp
  qed (simp add: True pkghash_add_pkg_def)
next
  case False
  then show ?thesis
    using pkghash_insert_inv [OF inv _ new, of st] by (simp add: pkghash_add_pkg_def)
qed

lemma remove_spec:
  assumes inv: "pkghash_inv ps h" and pkg: "hashed (ps pkg)"
  shows "\<exists>h'. alpm_pkghash_remove ps h pkg = Some (h', contents ps h (pname (ps pkg))) \<and> pkghash_inv ps h' \<and>
    hlist h' = (case contents ps h (pname (ps pkg)) of None \<Rightarrow> hlist h | Some q \<Rightarrow> remove1 q (hlist h)) \<and>
    contents ps h' = (contents ps h)(pname (ps pkg) := None)"
proof -
  let ?n = "pname (ps pkg)"
  let ?P = "\<lambda>q. name_hash (ps q) = name_hash (ps pkg) \<and> strcmp (pname (ps q)) ?n = 0"
  note I = pkghash_invD [OF inv]
  let ?h = "home (name_hash (ps pkg)) (buckets h)"
  have P: "?P q \<longleftrightarrow> pname (ps q) = ?n" if "q \<in> set (hlist h)" for q
    using that inv pkg by (auto simp: pkghash_inv_def hashed_def)
  have "probe_match ?P (hash_table h) (buckets h) (buckets h) ?h = Some None \<and>
      (\<forall>q\<in>set (occupants (hash_table h)). \<not> ?P q) \<or>
    (\<exists>p q. probe_match ?P (hash_table h) (buckets h) (buckets h) ?h = Some (Some p) \<and>
      p < buckets h \<and> hash_table h ! p = Some q \<and> ?P q)"
    by (rule probe_match_spec [OF I(7,1) I(8)]) (use I(2) in auto)
  then show ?thesis
  proof (elim disjE exE conjE)
    assume m: "probe_match ?P (hash_table h) (buckets h) (buckets h) ?h = Some None"
      and none: "\<forall>q\<in>set (occupants (hash_table h)). \<not> ?P q"
    from none have "contents ps h ?n = None" using P I(6) by (auto simp: contents_None)
    then show ?thesis using m inv
      by (intro exI [of _ h]) (auto simp: alpm_pkghash_remove_def remove_loop_probe)
  next
    fix p q
    assume m: "probe_match ?P (hash_table h) (buckets h) (buckets h) ?h = Some (Some p)"
      and p: "p < buckets h" "hash_table h ! p = Some q" and q: "name_hash (ps q) = name_hash (ps pkg)"
      "strcmp (pname (ps q)) ?n = 0"
    then have q_in: "q \<in> set (hlist h)" using I(1,6) set_occupants by metis
    then have c: "contents ps h ?n = Some q" using contents_Some [OF inv] q P by blast
    obtain i where i: "i < buckets h" "hash_table h ! i = None" using I(8) by blast
    obtain t' where t': "remove_at ps h p q = Some (h\<lparr>hlist := remove1 q (hlist h), hash_table := t', entries := entries h - 1\<rparr>, Some q)"
      "probe_inv ps None t'" "length t' = length (hash_table h)" "add_mset q (mset (occupants t')) = mset (occupants (hash_table h))"
      using remove_at_spec [OF I(1) HOL.refl I(7) p i] by blast
    let ?h' = "h\<lparr>hlist := remove1 q (hlist h), hash_table := t', entries := entries h - 1\<rparr>"
    have "alpm_pkghash_remove ps h pkg = Some (?h', Some q)"
      using m t'(1) p(2) by (simp add: alpm_pkghash_remove_def remove_loop_probe)
    moreover have mo: "mset (occupants t') = mset (remove1 q (hlist h))"
      using t'(4) inv by (metis add_mset_remove_trivial mset_remove1 pkghash_inv_def)
    moreover have dist: "distinct (map (\<lambda>p. pname (ps p)) (hlist h))" using inv by (simp add: pkghash_inv_def)
    then have dist': "distinct (hlist h)" by (simp add: distinct_map)
    have dist'': "distinct (map (\<lambda>p. pname (ps p)) (remove1 q (hlist h)))"
      using dist by (auto simp: distinct_map inj_on_def dest: notin_set_remove1)
    have inv': "pkghash_inv ps ?h'"
      using inv q_in t'(2,3) mo dist'' unfolding pkghash_inv_def
      by (auto simp: length_remove1 dest: notin_set_remove1)
    have uniq: "r = q" if "r \<in> set (hlist h)" "pname (ps r) = ?n" for r
      using contents_Some [OF inv, of ?n r] that c by simp
    have "contents ps ?h' = (contents ps h)(?n := None)"
    proof
      fix n
      have "contents ps ?h' n = Some r \<longleftrightarrow> ((contents ps h)(?n := None)) n = Some r" for r
      proof -
        have "contents ps ?h' n = Some r \<longleftrightarrow> r \<in> set (hlist h) \<and> r \<noteq> q \<and> pname (ps r) = n"
          using contents_Some [OF inv', of n r] dist' by (auto simp: set_remove1_eq)
        also have "\<dots> \<longleftrightarrow> ((contents ps h)(?n := None)) n = Some r"
          using contents_Some [OF inv, of n r] uniq [of r] q(2) by (cases "n = ?n") auto
        finally show ?thesis .
      qed
      then show "contents ps ?h' n = ((contents ps h)(?n := None)) n" by (metis not_None_eq)
    qed
    ultimately show ?thesis using c inv' by auto
  qed
qed

section \<open>The interface\<close>

text \<open>
  What the databases expect of an index of packages: a partial operation returns \<open>None\<close> when
  it does not return, looking up, inserting and deleting are those of the map \<open>entry_map\<close>,
  and an insertion may be refused, which leaves the index as it is.
\<close>

locale pkg_index =
  fixes invar :: "'h \<Rightarrow> bool"
    and lookup :: "'h \<Rightarrow> string \<Rightarrow> pkgref option option"
    and insert :: "'h \<Rightarrow> pkgref \<Rightarrow> (bool \<times> 'h) option"
    and delete :: "'h \<Rightarrow> pkgref \<Rightarrow> ('h \<times> pkgref option) option"
    and entry_map :: "'h \<Rightarrow> string \<Rightarrow> pkgref option"
    and key :: "pkgref \<Rightarrow> string"
    and valid :: "pkgref \<Rightarrow> bool"
  assumes lookup_map: "invar h \<Longrightarrow> lookup h n = Some (entry_map h n)"
    and insert_map: "invar h \<Longrightarrow> valid p \<Longrightarrow> entry_map h (key p) = None \<Longrightarrow>
      insert h p = Some (False, h) \<or>
      (\<exists>h'. insert h p = Some (True, h') \<and> invar h' \<and> entry_map h' = (entry_map h)(key p \<mapsto> p))"
    and delete_map: "invar h \<Longrightarrow> valid p \<Longrightarrow>
      \<exists>h'. delete h p = Some (h', entry_map h (key p)) \<and> invar h' \<and> entry_map h' = (entry_map h)(key p := None)"
begin

lemma lookup_returns: "invar h \<Longrightarrow> \<exists>r. lookup h n = Some r"
  by (simp add: lookup_map)

lemma insert_keeps:
  "invar h \<Longrightarrow> valid p \<Longrightarrow> entry_map h (key p) = None \<Longrightarrow> insert h p = Some (b, h') \<Longrightarrow>
   invar h' \<and> (\<forall>n. n \<noteq> key p \<longrightarrow> lookup h' n = lookup h n) \<and>
   lookup h' (key p) = Some (if b then Some p else None)"
  using insert_map [of h p] by (auto simp: lookup_map)

lemma delete_keeps:
  "invar h \<Longrightarrow> valid p \<Longrightarrow> delete h p = Some (h', r) \<Longrightarrow>
   invar h' \<and> r = entry_map h (key p) \<and> lookup h' (key p) = Some None \<and>
   (\<forall>n. n \<noteq> key p \<longrightarrow> lookup h' n = lookup h n)"
  using delete_map [of h p] by (auto simp: lookup_map)

text \<open>Deleting what was just inserted restores the map.\<close>

lemma insert_delete:
  assumes "invar h" "valid p" "entry_map h (key p) = None" "insert h p = Some (b, h')"
  shows "\<exists>h'' r. delete h' p = Some (h'', r) \<and> invar h'' \<and> entry_map h'' = entry_map h"
proof -
  have h': "invar h'" "entry_map h' = entry_map h \<or> entry_map h' = (entry_map h)(key p \<mapsto> p)"
    using insert_map [OF assms(1-3)] assms by auto
  then show ?thesis
    using delete_map [OF h'(1) assms(2)] assms(3) by (auto simp: fun_upd_idem)
qed

end

interpretation pkghash: pkg_index "pkghash_inv ps" "alpm_pkghash_find ps" "alpm_pkghash_add ps"
  "alpm_pkghash_remove ps" "contents ps" "\<lambda>p. pname (ps p)" "\<lambda>p. hashed (ps p)" for ps
proof unfold_locales
  show "pkghash_inv ps h \<Longrightarrow> alpm_pkghash_find ps h n = Some (contents ps h n)" for h n
    by (rule find_contents)
  show "pkghash_inv ps h \<Longrightarrow> hashed (ps p) \<Longrightarrow> contents ps h (pname (ps p)) = None \<Longrightarrow>
    alpm_pkghash_add ps h p = Some (False, h) \<or>
    (\<exists>h'. alpm_pkghash_add ps h p = Some (True, h') \<and> pkghash_inv ps h' \<and> contents ps h' = (contents ps h)(pname (ps p) \<mapsto> p))"
    for h p
    unfolding alpm_pkghash_add_def using add_pkg_spec by blast
  show "pkghash_inv ps h \<Longrightarrow> hashed (ps p) \<Longrightarrow>
    \<exists>h'. alpm_pkghash_remove ps h p = Some (h', contents ps h (pname (ps p))) \<and> pkghash_inv ps h' \<and>
      contents ps h' = (contents ps h)(pname (ps p) := None)" for h p
    using remove_spec by blast
qed

interpretation pkghash_sorted: pkg_index "pkghash_inv ps" "alpm_pkghash_find ps" "alpm_pkghash_add_sorted ps"
  "alpm_pkghash_remove ps" "contents ps" "\<lambda>p. pname (ps p)" "\<lambda>p. hashed (ps p)" for ps
proof (unfold_locales, goal_cases lookup insert delete)
  case (insert h p)
  then show ?case unfolding alpm_pkghash_add_sorted_def using add_pkg_spec [where st = True] by blast
qed (use pkghash.lookup_map pkghash.delete_map in blast)+

section \<open>Properties\<close>

text \<open>The table can grow as long as it has fewer buckets than 608903, which holds 414054 packages.\<close>

lemma growing:
  assumes "b \<in> set prime_list" "b < 608903"
  shows "alpm_pkghash_create (rehash_size b) \<noteq> None"
proof -
  have "\<forall>p\<in>set prime_list. p < 608903 \<longrightarrow> p \<le> 562841" by (simp add: prime_list_def)
  then have "b \<le> 562841" using assms by blast
  moreover have "b < 2000 \<longrightarrow> b * 3 div 2 \<le> 562842" "b < 5000 \<longrightarrow> b * 4 div 3 \<le> 562842" by linarith+
  ultimately have "rehash_size b \<le> 562842" by (simp add: rehash_size_def)
  then have "rehash_size b * 100 div 58 + 1 < 976369" by linarith
  moreover have "976369 \<in> set prime_list" by (simp add: prime_list_def)
  ultimately have "List.find (\<lambda>p. rehash_size b * 100 div 58 + 1 < p) prime_list \<noteq> None"
    unfolding find_None_iff by blast
  then show ?thesis by (auto simp: alpm_pkghash_create_def Let_def)
qed

lemma add_total:
  assumes "pkghash_inv ps h" "hashed (ps pkg)" "\<forall>p\<in>set (hlist h). pname (ps p) \<noteq> pname (ps pkg)"
    and "entries h < 414054"
  shows "(\<exists>h'. alpm_pkghash_add ps h pkg = Some (True, h') \<and> pkghash_inv ps h' \<and> hlist h' = hlist h @ [pkg] \<and>
      contents ps h' = (contents ps h)(pname (ps pkg) \<mapsto> pkg)) \<and>
    (\<exists>h'. alpm_pkghash_add_sorted ps h pkg = Some (True, h') \<and> pkghash_inv ps h' \<and>
      contents ps h' = (contents ps h)(pname (ps pkg) \<mapsto> pkg) \<and>
      (sorted (map (\<lambda>p. pname (ps p)) (hlist h)) \<longrightarrow> sorted (map (\<lambda>p. pname (ps p)) (hlist h'))))"
proof -
  have grow: "alpm_pkghash_create (rehash_size (buckets h)) \<noteq> None" if "limit h \<le> entries h"
    by (rule growing) (use that assms(1,4) in \<open>auto simp: pkghash_inv_def\<close>)
  have new: "contents ps h (pname (ps pkg)) = None" using assms(3) by (simp add: contents_None)
  have ord: "pkg_cmp.ordered ps xs \<longleftrightarrow> sorted (map (\<lambda>p. pname (ps p)) xs)" for xs
    by (simp add: alpm_pkg_cmp_def strcmp_cmp3 sorted_wrt_map)
  have "sorted (map (\<lambda>p. pname (ps p)) (hlist h)) \<longrightarrow>
    sorted (map (\<lambda>p. pname (ps p)) (alpm_list_mmerge (alpm_pkg_cmp ps) (hlist h) [pkg]))"
    using pkg_cmp.mmerge_ordered [of ps "hlist h" "[pkg]"] by (simp add: ord)
  then show ?thesis
    using add_pkg_spec [OF assms(1,2) new, of False] add_pkg_spec [OF assms(1,2) new, of True] grow
    by (auto simp: alpm_pkghash_add_def alpm_pkghash_add_sorted_def)
qed

text \<open>C32: looking up a name in a well-formed hash always returns (the probing meets an empty
  bucket) and finds the package of that name if and only if the hash has one.\<close>

theorem pkghash_find_exact:
  assumes "pkghash_inv ps h"
  shows "\<exists>r. alpm_pkghash_find ps h n = Some r \<and>
    (case r of None \<Rightarrow> \<forall>p\<in>set (hlist h). pname (ps p) \<noteq> n
     | Some p \<Rightarrow> p \<in> set (hlist h) \<and> pname (ps p) = n)"
  using pkghash.lookup_map [OF assms] contents_Some [OF assms] contents_None
  by (auto split: option.splits)

theorem pkghash_find_exact_witness:
  "\<exists>h r. alpm_pkghash_create 2 = Some h \<and> alpm_pkghash_find (\<lambda>_. alpm_pkg_new) h ''a'' = Some r \<and> r = None"
proof -
  obtain h where h: "alpm_pkghash_create 2 = Some h"
    by (simp add: alpm_pkghash_create_def prime_list_def)
  then show ?thesis
    using pkghash_find_exact [of "\<lambda>_. alpm_pkg_new" h "''a''"] create_inv [OF h] create_spec(5) [OF h]
    by (auto split: option.splits)
qed

text \<open>C33: adding a package with a new name returns, and succeeds as long as the hash has fewer
  than 414054 packages, across every resize: afterwards the hash is well formed again, the new
  name leads to the package, every other name to what it led to, and the list is extended at
  its end (\<open>_alpm_pkghash_add\<close>) or by a merge that keeps it sorted
  (\<open>_alpm_pkghash_add_sorted\<close>).\<close>

theorem pkghash_add_total:
  assumes "pkghash_inv ps h" "hashed (ps pkg)" "\<forall>p\<in>set (hlist h). pname (ps p) \<noteq> pname (ps pkg)"
    and "entries h < 414054"
  shows "(\<exists>h'. alpm_pkghash_add ps h pkg = Some (True, h') \<and> pkghash_inv ps h' \<and> hlist h' = hlist h @ [pkg] \<and>
      contents ps h' = (contents ps h)(pname (ps pkg) \<mapsto> pkg)) \<and>
    (\<exists>h'. alpm_pkghash_add_sorted ps h pkg = Some (True, h') \<and> pkghash_inv ps h' \<and>
      contents ps h' = (contents ps h)(pname (ps pkg) \<mapsto> pkg) \<and>
      (sorted (map (\<lambda>p. pname (ps p)) (hlist h)) \<longrightarrow> sorted (map (\<lambda>p. pname (ps p)) (hlist h'))))"
  by (rule add_total [OF assms])

theorem pkghash_add_total_witness:
  "\<exists>h h'. alpm_pkghash_create 2 = Some h \<and>
    alpm_pkghash_add (\<lambda>_. alpm_pkg_new\<lparr>pname := ''a'', name_hash := name_hash_of ''a''\<rparr>) h 7 = Some (True, h') \<and>
    hlist h' = [7]"
proof -
  obtain h where h: "alpm_pkghash_create 2 = Some h"
    by (simp add: alpm_pkghash_create_def prime_list_def)
  then show ?thesis
    using pkghash_add_total [of "\<lambda>_. alpm_pkg_new\<lparr>pname := ''a'', name_hash := name_hash_of ''a''\<rparr>" h 7]
      create_inv [OF h] create_spec(5,6) [OF h] by (auto simp: hashed_def)
qed

text \<open>C34: removing by name returns and undoes nothing else: the package of that name leaves the
  list and is handed back, the holes in the table are plugged so that every other package is
  still found, and a name the hash does not have changes nothing.\<close>

theorem pkghash_remove_total:
  assumes "pkghash_inv ps h" "hashed (ps pkg)"
  shows "\<exists>h'. alpm_pkghash_remove ps h pkg = Some (h', contents ps h (pname (ps pkg))) \<and> pkghash_inv ps h' \<and>
    hlist h' = filter (\<lambda>p. pname (ps p) \<noteq> pname (ps pkg)) (hlist h) \<and>
    (\<forall>n. alpm_pkghash_find ps h' n = (if n = pname (ps pkg) then Some None else alpm_pkghash_find ps h n))"
proof -
  obtain h' where h': "alpm_pkghash_remove ps h pkg = Some (h', contents ps h (pname (ps pkg)))" "pkghash_inv ps h'"
    "hlist h' = (case contents ps h (pname (ps pkg)) of None \<Rightarrow> hlist h | Some q \<Rightarrow> remove1 q (hlist h))"
    using remove_spec [OF assms] by blast
  have d: "distinct (map (\<lambda>p. pname (ps p)) (hlist h))" using assms(1) by (simp add: pkghash_inv_def)
  have "hlist h' = filter (\<lambda>p. pname (ps p) \<noteq> pname (ps pkg)) (hlist h)"
  proof (cases "contents ps h (pname (ps pkg))")
    case None
    then have "filter (\<lambda>p. pname (ps p) \<noteq> pname (ps pkg)) (hlist h) = hlist h"
      unfolding contents_None filter_id_conv .
    then show ?thesis using h'(3) None by simp
  next
    case (Some q)
    then have q: "q \<in> set (hlist h)" "pname (ps q) = pname (ps pkg)" using contents_Some [OF assms(1)] by auto
    have "remove1 q (hlist h) = filter (\<lambda>p. p \<noteq> q) (hlist h)"
      using d by (simp add: distinct_remove1_removeAll distinct_map removeAll_filter_not_eq)
        (metis (mono_tags, lifting) filter_cong)
    also have "\<dots> = filter (\<lambda>p. pname (ps p) \<noteq> pname (ps pkg)) (hlist h)"
      using d q by (intro filter_cong) (auto simp: distinct_map inj_on_def)
    finally show ?thesis using h'(3) Some by simp
  qed
  then show ?thesis using h'(1,2) pkghash.delete_keeps [OF assms h'(1)] by auto
qed

theorem pkghash_remove_total_witness:
  "\<exists>h h' r. alpm_pkghash_create 2 = Some h \<and>
    alpm_pkghash_remove (\<lambda>_. alpm_pkg_new\<lparr>pname := ''a'', name_hash := name_hash_of ''a''\<rparr>) h 7 = Some (h', r) \<and>
    hlist h' = []"
proof -
  obtain h where h: "alpm_pkghash_create 2 = Some h"
    by (simp add: alpm_pkghash_create_def prime_list_def)
  then show ?thesis
    using pkghash_remove_total [of "\<lambda>_. alpm_pkg_new\<lparr>pname := ''a'', name_hash := name_hash_of ''a''\<rparr>" h 7]
      create_inv [OF h] create_spec(5) [OF h] by (auto simp: hashed_def)
qed

end
