(* ===== verification/AlpmDb.thy ===== *)
theory AlpmDb
  imports AlpmPkghash
begin

text \<open>
  Databases (\<open>lib/libalpm/db.c\<close>): registration, servers, the package cache and the group
  cache. The state of the library is a \<open>alpm_world\<close>: the handle, the databases and the
  packages. The back ends (\<open>be_local.c\<close>, \<open>be_sync.c\<close>) are the arguments \<open>populate\<close> and
  \<open>validate\<close>, as the code calls them through \<open>db->ops\<close>; their return value is an \<open>int\<close>.
  \<open>pm_errno\<close> is kept, log messages are not. An operation on the package cache returns
  \<open>None\<close> if it does not return (see \<open>AlpmPkghash\<close>).
\<close>

unbundle bit_operations_syntax

abbreviation "DB_STATUS_VALID \<equiv> 1 :: u32"
abbreviation "DB_STATUS_INVALID \<equiv> 2 :: u32"
abbreviation "DB_STATUS_EXISTS \<equiv> 4 :: u32"
abbreviation "DB_STATUS_MISSING \<equiv> 8 :: u32"
abbreviation "DB_STATUS_LOCAL \<equiv> 1024 :: u32"
abbreviation "DB_STATUS_PKGCACHE \<equiv> 2048 :: u32"
abbreviation "DB_STATUS_GRPCACHE \<equiv> 4096 :: u32"

abbreviation "ALPM_DB_USAGE_SYNC \<equiv> 1 :: u32"
abbreviation "ALPM_DB_USAGE_SEARCH \<equiv> 2 :: u32"
abbreviation "ALPM_DB_USAGE_INSTALL \<equiv> 4 :: u32"
abbreviation "ALPM_DB_USAGE_UPGRADE \<equiv> 8 :: u32"
abbreviation "ALPM_DB_USAGE_ALL \<equiv> 15 :: u32"

abbreviation "ALPM_SIG_USE_DEFAULT \<equiv> 0x40000000 :: u32"

record alpm_db_t =
  treename :: string
  db_path :: "string option"
  pkgcache :: "alpm_pkghash_t option"
  grpcache :: "alpm_group_t list"
  servers :: "string list"
  status :: u32
  siglevel :: u32
  usage :: u32

record alpm_world =
  handle :: alpm_handle_t
  wdbs :: "dbref \<Rightarrow> alpm_db_t"
  wpkgs :: pkgs
  next_ref :: nat

type_synonym db_op = "dbref \<Rightarrow> alpm_world \<Rightarrow> int \<times> alpm_world"

definition set_errno :: "alpm_errno_t \<Rightarrow> alpm_world \<Rightarrow> alpm_world" where
  "set_errno e w = w\<lparr>handle := (handle w)\<lparr>pm_errno := e\<rparr>\<rparr>"

definition upd_db :: "dbref \<Rightarrow> (alpm_db_t \<Rightarrow> alpm_db_t) \<Rightarrow> alpm_world \<Rightarrow> alpm_world" where
  "upd_db d f w = w\<lparr>wdbs := (wdbs w)(d := f (wdbs w d))\<rparr>"

definition has_status :: "alpm_db_t \<Rightarrow> u32 \<Rightarrow> bool" where
  "has_status db flag \<longleftrightarrow> status db AND flag \<noteq> 0"

section \<open>Registration\<close>

definition alpm_db_new :: "string \<Rightarrow> bool \<Rightarrow> alpm_db_t" where
  "alpm_db_new name is_local =
     \<lparr>treename = name, db_path = None, pkgcache = None, grpcache = [], servers = [],
      status = (if is_local then 0 OR DB_STATUS_LOCAL else 0 AND NOT DB_STATUS_LOCAL),
      siglevel = 0, usage = ALPM_DB_USAGE_ALL\<rparr>"

definition alpm_db_register_sync :: "db_op \<Rightarrow> alpm_world \<Rightarrow> string \<Rightarrow> u32 \<Rightarrow> dbref option \<times> alpm_world" where
  "alpm_db_register_sync validate w name level =
     (let d = next_ref w;
          w = w\<lparr>wdbs := (wdbs w)(d := (alpm_db_new name False)\<lparr>siglevel := level\<rparr>), next_ref := d + 1\<rparr>;
          (r, w) = validate d w
      in (Some d, w\<lparr>handle := (handle w)\<lparr>dbs_sync := alpm_list_add (dbs_sync (handle w)) d\<rparr>\<rparr>))"

text \<open>A failed validation frees the database; its slot in the store stays behind unused.\<close>

definition alpm_db_register_local :: "db_op \<Rightarrow> alpm_world \<Rightarrow> dbref option \<times> alpm_world" where
  "alpm_db_register_local validate w =
     (let d = next_ref w;
          w = w\<lparr>wdbs := (wdbs w)(d := (alpm_db_new ''local'' True)\<lparr>usage := ALPM_DB_USAGE_ALL\<rparr>), next_ref := d + 1\<rparr>;
          (r, w) = validate d w
      in if r \<noteq> 0 then (None, w)
         else (Some d, w\<lparr>handle := (handle w)\<lparr>db_local := Some d\<rparr>\<rparr>))"

definition alpm_register_syncdb ::
  "db_op \<Rightarrow> alpm_world \<Rightarrow> string option \<Rightarrow> u32 \<Rightarrow> dbref option \<times> alpm_world" where
  "alpm_register_syncdb validate w name level =
     (let w = set_errno ALPM_ERR_OK w
      in case name of
           None \<Rightarrow> (None, set_errno ALPM_ERR_WRONG_ARGS w)
         | Some n \<Rightarrow>
             if n = [] then (None, set_errno ALPM_ERR_WRONG_ARGS w)
             else if CHR ''/'' \<in> set n then (None, set_errno ALPM_ERR_WRONG_ARGS w)
             else if trans (handle w) \<noteq> None then (None, set_errno ALPM_ERR_TRANS_NOT_NULL w)
             else if strcmp n ''local'' = 0 then (None, set_errno ALPM_ERR_DB_NOT_NULL w)
             else if \<exists>d\<in>set (dbs_sync (handle w)). strcmp n (treename (wdbs w d)) = 0
               then (None, set_errno ALPM_ERR_DB_NOT_NULL w)
             else alpm_db_register_sync validate w n level)"

definition alpm_db_cmp :: "alpm_world \<Rightarrow> dbref \<Rightarrow> dbref \<Rightarrow> int" where
  "alpm_db_cmp w d1 d2 = strcmp (treename (wdbs w d1)) (treename (wdbs w d2))"

text \<open>Unregistering frees the database.\<close>

definition alpm_db_unregister :: "alpm_world \<Rightarrow> dbref option \<Rightarrow> int \<times> alpm_world" where
  "alpm_db_unregister w db =
     (case db of
        None \<Rightarrow> (-1, w)
      | Some d \<Rightarrow>
          (let w = set_errno ALPM_ERR_OK w; h = handle w
           in if trans h \<noteq> None then (-1, set_errno ALPM_ERR_TRANS_NOT_NULL w)
              else if Some d = db_local h then (0, w\<lparr>handle := h\<lparr>db_local := None\<rparr>\<rparr>)
              else
                (let (l, data) = alpm_list_remove (alpm_db_cmp w) (dbs_sync h) d;
                     w = w\<lparr>handle := h\<lparr>dbs_sync := l\<rparr>\<rparr>
                 in if data = None then (-1, set_errno ALPM_ERR_DB_NOT_FOUND w) else (0, w))))"

definition alpm_unregister_all_syncdbs :: "alpm_world \<Rightarrow> int \<times> alpm_world" where
  "alpm_unregister_all_syncdbs w =
     (let w = set_errno ALPM_ERR_OK w
      in if trans (handle w) \<noteq> None then (-1, set_errno ALPM_ERR_TRANS_NOT_NULL w)
         else (0, w\<lparr>handle := (handle w)\<lparr>dbs_sync := []\<rparr>\<rparr>))"

section \<open>Servers, levels and paths\<close>

definition sanitize_url :: "string \<Rightarrow> string" where
  "sanitize_url u =
     (let len = length u in if u ! (len - 1) = CHR ''/'' then take (len - 1) u else u)"

definition alpm_db_add_server :: "alpm_world \<Rightarrow> dbref \<Rightarrow> string option \<Rightarrow> int \<times> alpm_world" where
  "alpm_db_add_server w d new_url =
     (let w = set_errno ALPM_ERR_OK w
      in case new_url of
           None \<Rightarrow> (-1, set_errno ALPM_ERR_WRONG_ARGS w)
         | Some u \<Rightarrow>
             if u = [] then (-1, set_errno ALPM_ERR_WRONG_ARGS w)
             else (0, upd_db d (\<lambda>db. db\<lparr>servers := alpm_list_add (servers db) (sanitize_url u)\<rparr>) w))"

definition alpm_db_remove_server :: "alpm_world \<Rightarrow> dbref \<Rightarrow> string option \<Rightarrow> int \<times> alpm_world" where
  "alpm_db_remove_server w d old_url =
     (let w = set_errno ALPM_ERR_OK w
      in case old_url of
           None \<Rightarrow> (-1, set_errno ALPM_ERR_WRONG_ARGS w)
         | Some u \<Rightarrow>
             if u = [] then (-1, set_errno ALPM_ERR_WRONG_ARGS w)
             else
               (let (l, vdata) = alpm_list_remove_str (servers (wdbs w d)) (sanitize_url u);
                    w = upd_db d (\<lambda>db. db\<lparr>servers := l\<rparr>) w
                in (if vdata \<noteq> None then 0 else 1, w)))"

fun set_servers_loop :: "alpm_world \<Rightarrow> dbref \<Rightarrow> string list \<Rightarrow> int \<times> alpm_world" where
  "set_servers_loop w d [] = (0, w)"
| "set_servers_loop w d (u # i) =
     (let (r, w) = alpm_db_add_server w d (Some u)
      in if r \<noteq> 0 then (-1, w) else set_servers_loop w d i)"

definition alpm_db_set_servers :: "alpm_world \<Rightarrow> dbref \<Rightarrow> string list \<Rightarrow> int \<times> alpm_world" where
  "alpm_db_set_servers w d urls = set_servers_loop (upd_db d (\<lambda>db. db\<lparr>servers := []\<rparr>) w) d urls"

definition alpm_db_get_siglevel :: "alpm_world \<Rightarrow> dbref \<Rightarrow> u32" where
  "alpm_db_get_siglevel w d =
     (if siglevel (wdbs w d) AND ALPM_SIG_USE_DEFAULT \<noteq> 0 then hsiglevel (handle w) else siglevel (wdbs w d))"

definition alpm_db_set_usage :: "alpm_world \<Rightarrow> dbref \<Rightarrow> u32 \<Rightarrow> int \<times> alpm_world" where
  "alpm_db_set_usage w d u = (0, upd_db d (\<lambda>db. db\<lparr>usage := u\<rparr>) w)"

text \<open>The path is computed on first use and kept.\<close>

definition alpm_db_path :: "alpm_world \<Rightarrow> dbref \<Rightarrow> string \<times> alpm_world" where
  "alpm_db_path w d =
     (case db_path (wdbs w d) of
        Some p \<Rightarrow> (p, w)
      | None \<Rightarrow>
          let db = wdbs w d; h = handle w;
              p = (if has_status db DB_STATUS_LOCAL then dbpath h @ treename db @ ''/''
                   else dbpath h @ ''sync/'' @ treename db @ dbext h)
          in (p, upd_db d (\<lambda>db. db\<lparr>db_path := Some p\<rparr>) w))"

section \<open>The package cache\<close>

definition free_groupcache :: "alpm_db_t \<Rightarrow> alpm_db_t" where
  "free_groupcache db =
     (if \<not> has_status db DB_STATUS_GRPCACHE then db
      else db\<lparr>grpcache := [], status := status db AND NOT DB_STATUS_GRPCACHE\<rparr>)"

text \<open>\<open>pkgcache\<close> keeps a stale pointer, which the code does not follow while the flag is off.\<close>

definition alpm_db_free_pkgcache :: "alpm_db_t \<Rightarrow> alpm_db_t" where
  "alpm_db_free_pkgcache db =
     (if \<not> has_status db DB_STATUS_PKGCACHE then db
      else free_groupcache (db\<lparr>status := status db AND NOT DB_STATUS_PKGCACHE\<rparr>))"

definition load_pkgcache :: "db_op \<Rightarrow> db_op" where
  "load_pkgcache populate d w =
     (let w = upd_db d alpm_db_free_pkgcache w;
          (r, w) = populate d w
      in if r = -1 then (-1, w)
         else (0, upd_db d (\<lambda>db. db\<lparr>status := status db OR DB_STATUS_PKGCACHE\<rparr>) w))"

definition alpm_db_get_pkgcache_hash ::
  "db_op \<Rightarrow> alpm_world \<Rightarrow> dbref option \<Rightarrow> alpm_pkghash_t option \<times> alpm_world" where
  "alpm_db_get_pkgcache_hash populate w db =
     (case db of
        None \<Rightarrow> (None, w)
      | Some d \<Rightarrow>
          if \<not> has_status (wdbs w d) DB_STATUS_VALID then (None, set_errno ALPM_ERR_DB_INVALID w)
          else if \<not> has_status (wdbs w d) DB_STATUS_PKGCACHE then
            (let (r, w) = load_pkgcache populate d w
             in if r \<noteq> 0 then (None, w) else (pkgcache (wdbs w d), w))
          else (pkgcache (wdbs w d), w))"

definition alpm_db_get_pkgcache ::
  "db_op \<Rightarrow> alpm_world \<Rightarrow> dbref option \<Rightarrow> pkgref list \<times> alpm_world" where
  "alpm_db_get_pkgcache populate w db =
     (let (hash, w) = alpm_db_get_pkgcache_hash populate w db
      in case hash of None \<Rightarrow> ([], w) | Some h \<Rightarrow> (hlist h, w))"

definition alpm_db_get_pkgfromcache ::
  "db_op \<Rightarrow> alpm_world \<Rightarrow> dbref option \<Rightarrow> string \<Rightarrow> (pkgref option \<times> alpm_world) option" where
  "alpm_db_get_pkgfromcache populate w db target =
     (let (hash, w) = alpm_db_get_pkgcache_hash populate w db
      in case hash of
           None \<Rightarrow> Some (None, w)
         | Some h \<Rightarrow> map_option (\<lambda>r. (r, w)) (alpm_pkghash_find (wpkgs w) h target))"

text \<open>\<open>force_load\<close> tells whether the full data of a package cannot be loaded.\<close>

definition alpm_db_add_pkgincache ::
  "(alpm_pkg_t \<Rightarrow> bool) \<Rightarrow> alpm_world \<Rightarrow> dbref option \<Rightarrow> pkgref option \<Rightarrow> (int \<times> alpm_world) option" where
  "alpm_db_add_pkgincache force_load w db pkg =
     (case (db, pkg) of
        (Some d, Some p) \<Rightarrow>
          if \<not> has_status (wdbs w d) DB_STATUS_PKGCACHE then Some (-1, w)
          else
            (let (r, newpkg) = alpm_pkg_dup force_load (wpkgs w p)
             in if r \<noteq> 0 then Some (-1, set_errno ALPM_ERR_PKG_INVALID w)
                else
                  (let newpkg = newpkg
                         \<lparr>origin := (if has_status (wdbs w d) DB_STATUS_LOCAL
                                     then ALPM_PKG_FROM_LOCALDB else ALPM_PKG_FROM_SYNCDB),
                          origin_data := Origin_db d\<rparr>;
                       n = next_ref w;
                       w = w\<lparr>wpkgs := (wpkgs w)(n := newpkg), next_ref := n + 1\<rparr>
                   in case pkgcache (wdbs w d) of
                        None \<Rightarrow> Some (-1, set_errno ALPM_ERR_MEMORY w)
                      | Some h \<Rightarrow>
                          (case alpm_pkghash_add_sorted (wpkgs w) h n of
                             None \<Rightarrow> None
                           | Some (False, h) \<Rightarrow> Some (-1, set_errno ALPM_ERR_MEMORY w)
                           | Some (True, h) \<Rightarrow>
                               Some (0, upd_db d (\<lambda>db. free_groupcache (db\<lparr>pkgcache := Some h\<rparr>)) w))))
      | _ \<Rightarrow> Some (-1, w))"

definition alpm_db_remove_pkgfromcache ::
  "alpm_world \<Rightarrow> dbref option \<Rightarrow> pkgref option \<Rightarrow> (int \<times> alpm_world) option" where
  "alpm_db_remove_pkgfromcache w db pkg =
     (case (db, pkg) of
        (Some d, Some p) \<Rightarrow>
          if \<not> has_status (wdbs w d) DB_STATUS_PKGCACHE then Some (-1, w)
          else
            (case pkgcache (wdbs w d) of
               None \<Rightarrow> Some (-1, w)
             | Some h \<Rightarrow>
                 (case alpm_pkghash_remove (wpkgs w) h p of
                    None \<Rightarrow> None
                  | Some (h, data) \<Rightarrow>
                      let w = upd_db d (\<lambda>db. db\<lparr>pkgcache := Some h\<rparr>) w
                      in if data = None then Some (-1, w)
                         else Some (0, upd_db d free_groupcache w)))
      | _ \<Rightarrow> Some (-1, w))"

section \<open>The group cache\<close>

text \<open>
  Putting one package into one group: the first group of that name that lacks the package
  takes it, else a new group is created.
\<close>

fun grpcache_put :: "alpm_group_t list \<Rightarrow> string \<Rightarrow> pkgref \<Rightarrow> alpm_group_t list" where
  "grpcache_put [] grpname pkg =
     [(alpm_group_new grpname)\<lparr>gpackages := alpm_list_add [] pkg\<rparr>]"
| "grpcache_put (grp # j) grpname pkg =
     (if strcmp (gname grp) grpname = 0 \<and> alpm_list_find_ptr (gpackages grp) pkg = None
      then grp\<lparr>gpackages := alpm_list_add (gpackages grp) pkg\<rparr> # j
      else grp # grpcache_put j grpname pkg)"

fun load_grpcache_pkg :: "alpm_group_t list \<Rightarrow> pkgref \<Rightarrow> string list \<Rightarrow> alpm_group_t list" where
  "load_grpcache_pkg cache pkg [] = cache"
| "load_grpcache_pkg cache pkg (grpname # i) = load_grpcache_pkg (grpcache_put cache grpname pkg) pkg i"

fun load_grpcache_loop :: "pkgs \<Rightarrow> alpm_group_t list \<Rightarrow> pkgref list \<Rightarrow> alpm_group_t list" where
  "load_grpcache_loop ps cache [] = cache"
| "load_grpcache_loop ps cache (pkg # lp) =
     load_grpcache_loop ps (load_grpcache_pkg cache pkg (groups (ps pkg))) lp"

definition load_grpcache :: "db_op \<Rightarrow> alpm_world \<Rightarrow> dbref \<Rightarrow> alpm_world" where
  "load_grpcache populate w d =
     (let (pkgs, w) = alpm_db_get_pkgcache populate w (Some d)
      in upd_db d (\<lambda>db. db\<lparr>grpcache := load_grpcache_loop (wpkgs w) (grpcache db) pkgs,
                          status := status db OR DB_STATUS_GRPCACHE\<rparr>) w)"

definition alpm_db_get_groupcache ::
  "db_op \<Rightarrow> alpm_world \<Rightarrow> dbref option \<Rightarrow> alpm_group_t list \<times> alpm_world" where
  "alpm_db_get_groupcache populate w db =
     (case db of
        None \<Rightarrow> ([], w)
      | Some d \<Rightarrow>
          if \<not> has_status (wdbs w d) DB_STATUS_VALID then ([], set_errno ALPM_ERR_DB_INVALID w)
          else
            let w = (if \<not> has_status (wdbs w d) DB_STATUS_GRPCACHE then load_grpcache populate w d else w)
            in (grpcache (wdbs w d), w))"

definition alpm_db_get_groupfromcache ::
  "db_op \<Rightarrow> alpm_world \<Rightarrow> dbref option \<Rightarrow> string option \<Rightarrow> alpm_group_t option \<times> alpm_world" where
  "alpm_db_get_groupfromcache populate w db target =
     (case target of
        None \<Rightarrow> (None, w)
      | Some t \<Rightarrow>
          if db = None \<or> t = [] then (None, w)
          else
            let (cache, w) = alpm_db_get_groupcache populate w db
            in (alpm_list_find (\<lambda>info t. strcmp (gname info) t) cache t, w))"

section \<open>Reading loaded caches\<close>

text \<open>
  The first read of a cache loads it; from then on reading changes nothing. The theories on
  dependencies, conflicts and transactions work on a world whose caches are loaded and read
  them with these functions, which the lemmas at the end of the section tie to the code.
\<close>

definition cached_pkgs :: "alpm_world \<Rightarrow> dbref option \<Rightarrow> pkgref list" where
  "cached_pkgs w db =
     (case db of
        None \<Rightarrow> []
      | Some d \<Rightarrow>
          (if has_status (wdbs w d) DB_STATUS_VALID
           then (case pkgcache (wdbs w d) of None \<Rightarrow> [] | Some h \<Rightarrow> hlist h)
           else []))"

definition cached_pkg :: "alpm_world \<Rightarrow> dbref option \<Rightarrow> string \<Rightarrow> pkgref option" where
  "cached_pkg w db n =
     (case db of
        None \<Rightarrow> None
      | Some d \<Rightarrow>
          (if has_status (wdbs w d) DB_STATUS_VALID
           then (case pkgcache (wdbs w d) of
                   None \<Rightarrow> None
                 | Some h \<Rightarrow> (case alpm_pkghash_find (wpkgs w) h n of None \<Rightarrow> None | Some r \<Rightarrow> r))
           else None))"

definition loaded :: "alpm_world \<Rightarrow> dbref option \<Rightarrow> bool" where
  "loaded w db \<longleftrightarrow>
     (case db of
        None \<Rightarrow> True
      | Some d \<Rightarrow>
          has_status (wdbs w d) DB_STATUS_VALID \<and> has_status (wdbs w d) DB_STATUS_PKGCACHE \<and>
          (\<exists>h. pkgcache (wdbs w d) = Some h \<and> pkghash_inv (wpkgs w) h))"

lemma get_hash_loaded:
  "loaded w (Some d) \<Longrightarrow> alpm_db_get_pkgcache_hash populate w (Some d) = (pkgcache (wdbs w d), w)"
  unfolding loaded_def alpm_db_get_pkgcache_hash_def option.case by presburger

lemma get_pkgcache_loaded:
  assumes "loaded w db"
  shows "alpm_db_get_pkgcache populate w db = (cached_pkgs w db, w)"
proof (cases db)
  case None
  then show ?thesis by (simp add: alpm_db_get_pkgcache_def alpm_db_get_pkgcache_hash_def cached_pkgs_def)
next
  case (Some d)
  then show ?thesis
    using assms get_hash_loaded [of w d] by (auto simp: loaded_def alpm_db_get_pkgcache_def cached_pkgs_def)
qed

lemma get_pkgfromcache_loaded:
  assumes "loaded w db"
  shows "alpm_db_get_pkgfromcache populate w db n = Some (cached_pkg w db n, w)"
proof (cases db)
  case None
  then show ?thesis by (simp add: alpm_db_get_pkgfromcache_def alpm_db_get_pkgcache_hash_def cached_pkg_def)
next
  case (Some d)
  then show ?thesis
    using assms get_hash_loaded [of w d]
    by (auto simp: loaded_def alpm_db_get_pkgfromcache_def cached_pkg_def find_contents)
qed

lemma cached_pkg_Some:
  assumes "loaded w db"
  shows "cached_pkg w db n = Some p \<longleftrightarrow> p \<in> set (cached_pkgs w db) \<and> pname (wpkgs w p) = n"
  using assms
  by (cases db) (auto simp: loaded_def cached_pkg_def cached_pkgs_def find_contents contents_Some)

lemma loaded_hashed: "loaded w db \<Longrightarrow> p \<in> set (cached_pkgs w db) \<Longrightarrow> hashed (wpkgs w p)"
  by (cases db) (auto simp: loaded_def cached_pkgs_def pkghash_inv_def)

lemma loaded_distinct: "loaded w db \<Longrightarrow> distinct (map (\<lambda>p. pname (wpkgs w p)) (cached_pkgs w db))"
  by (cases db) (auto simp: loaded_def cached_pkgs_def pkghash_inv_def)

section \<open>Searching\<close>

text \<open>
  \<open>regcomp\<close> is whether a needle is a valid (extended, case-insensitive) regular expression,
  \<open>regexec r s\<close> whether it matches \<open>s\<close>; \<open>strstr\<close> is from the C library.
\<close>

fun strstr :: "string \<Rightarrow> string \<Rightarrow> bool" where
  "strstr [] needle = (needle = [])"
| "strstr (c # s) needle = (take (length needle) (c # s) = needle \<or> strstr s needle)"

definition search_match :: "(string \<Rightarrow> string \<Rightarrow> bool) \<Rightarrow> string \<Rightarrow> alpm_pkg_t \<Rightarrow> bool" where
  "search_match regexec targ pkg \<longleftrightarrow>
     regexec targ (pname pkg) \<or> strstr (pname pkg) targ \<or>
     (case desc pkg of None \<Rightarrow> False | Some d \<Rightarrow> regexec targ d) \<or>
     (\<exists>p\<in>set (provides pkg). regexec targ (dname p)) \<or>
     (\<exists>g\<in>set (groups pkg). regexec targ g)"

fun db_search_loop ::
  "(string \<Rightarrow> bool) \<Rightarrow> (string \<Rightarrow> string \<Rightarrow> bool) \<Rightarrow> pkgs \<Rightarrow> string list \<Rightarrow> pkgref list \<Rightarrow> pkgref list \<Rightarrow>
   alpm_errno_t + pkgref list" where
  "db_search_loop regcomp regexec ps [] list ret = Inr ret"
| "db_search_loop regcomp regexec ps (targ # i) list ret =
     (if \<not> regcomp targ then Inl ALPM_ERR_INVALID_REGEX
      else
        let ret = filter (\<lambda>pkg. search_match regexec targ (ps pkg)) list
        in db_search_loop regcomp regexec ps i ret ret)"

definition alpm_db_search ::
  "db_op \<Rightarrow> (string \<Rightarrow> bool) \<Rightarrow> (string \<Rightarrow> string \<Rightarrow> bool) \<Rightarrow> alpm_world \<Rightarrow> dbref \<Rightarrow> string list \<Rightarrow>
   (alpm_errno_t + pkgref list) \<times> alpm_world" where
  "alpm_db_search populate regcomp regexec w d needles =
     (let w = set_errno ALPM_ERR_OK w
      in if usage (wdbs w d) AND ALPM_DB_USAGE_SEARCH = 0 then (Inr [], w)
         else
           (let (list, w) = alpm_db_get_pkgcache populate w (Some d)
            in case db_search_loop regcomp regexec (wpkgs w) needles list [] of
                 Inl e \<Rightarrow> (Inl e, set_errno e w)
               | Inr ret \<Rightarrow> (Inr ret, w)))"

section \<open>Facts about the group cache\<close>

definition members :: "alpm_group_t list \<Rightarrow> string \<Rightarrow> pkgref list" where
  "members cache g = (case List.find (\<lambda>grp. gname grp = g) cache of None \<Rightarrow> [] | Some grp \<Rightarrow> gpackages grp)"

lemma members_Nil [simp]: "members [] g = []"
  by (simp add: members_def)

lemma members_Cons: "members (grp # cache) g = (if gname grp = g then gpackages grp else members cache g)"
  by (simp add: members_def)

lemma put_spec:
  "distinct (map gname cache) \<Longrightarrow> pkg \<notin> set (members cache g) \<Longrightarrow>
   map gname (grpcache_put cache g pkg) = (if g \<in> gname ` set cache then map gname cache else map gname cache @ [g]) \<and>
   members (grpcache_put cache g pkg) = (members cache)(g := members cache g @ [pkg])"
proof (induction cache)
  case Nil
  then show ?case by (auto simp: members_Cons alpm_group_new_def alpm_list_add_def)
next
  case (Cons grp cache)
  then show ?case
    by (cases "gname grp = g")
      (auto simp: members_Cons alpm_list_add_def find_ptr_Some fun_eq_iff)
qed

lemma put_distinct:
  "distinct (map gname cache) \<Longrightarrow> pkg \<notin> set (members cache g) \<Longrightarrow>
   distinct (map gname (grpcache_put cache g pkg))"
  using put_spec [of cache pkg g] by auto

lemma load_pkg_spec:
  "distinct (map gname cache) \<Longrightarrow> distinct gs \<Longrightarrow> \<forall>g\<in>set gs. pkg \<notin> set (members cache g) \<Longrightarrow>
   distinct (map gname (load_grpcache_pkg cache pkg gs)) \<and>
   gname ` set (load_grpcache_pkg cache pkg gs) = gname ` set cache \<union> set gs \<and>
   members (load_grpcache_pkg cache pkg gs) = (\<lambda>g. members cache g @ (if g \<in> set gs then [pkg] else []))"
proof (induction gs arbitrary: cache)
  case (Cons g gs)
  let ?c = "grpcache_put cache g pkg"
  have put: "map gname ?c = (if g \<in> gname ` set cache then map gname cache else map gname cache @ [g])"
    "members ?c = (members cache)(g := members cache g @ [pkg])"
    using put_spec [of cache pkg g] Cons.prems by auto
  have names: "gname ` set ?c = insert g (gname ` set cache)"
    using arg_cong [OF put(1), of set] by (auto split: if_splits)
  have "distinct (map gname ?c)" using put_distinct [of cache pkg g] Cons.prems by simp
  moreover have "\<forall>g'\<in>set gs. pkg \<notin> set (members ?c g')" using put(2) Cons.prems by auto
  ultimately show ?case using Cons.IH [of ?c] Cons.prems(2) names put(2) by (auto simp: fun_eq_iff)
qed simp

lemma load_loop_spec:
  "distinct (map gname cache) \<Longrightarrow> distinct pkgs \<Longrightarrow> \<forall>p\<in>set pkgs. distinct (groups (ps p)) \<Longrightarrow>
   \<forall>p\<in>set pkgs. \<forall>g. p \<notin> set (members cache g) \<Longrightarrow>
   distinct (map gname (load_grpcache_loop ps cache pkgs)) \<and>
   gname ` set (load_grpcache_loop ps cache pkgs) = gname ` set cache \<union> (\<Union>p\<in>set pkgs. set (groups (ps p))) \<and>
   members (load_grpcache_loop ps cache pkgs) = (\<lambda>g. members cache g @ filter (\<lambda>p. g \<in> set (groups (ps p))) pkgs)"
proof (induction pkgs arbitrary: cache)
  case (Cons p pkgs)
  let ?c = "load_grpcache_pkg cache p (groups (ps p))"
  have step: "distinct (map gname ?c)" "gname ` set ?c = gname ` set cache \<union> set (groups (ps p))"
    "members ?c = (\<lambda>g. members cache g @ (if g \<in> set (groups (ps p)) then [p] else []))"
    using load_pkg_spec [of cache "groups (ps p)" p] Cons.prems by auto
  have "\<forall>q\<in>set pkgs. \<forall>g. q \<notin> set (members ?c g)" using step(3) Cons.prems by auto
  then show ?case using Cons.IH [of ?c] Cons.prems step by (auto simp: fun_eq_iff)
qed simp

section \<open>Facts about flags and the store\<close>

lemma keep_flags [simp]:
  "has_status (free_groupcache db) DB_STATUS_VALID = has_status db DB_STATUS_VALID"
  "has_status (free_groupcache db) DB_STATUS_PKGCACHE = has_status db DB_STATUS_PKGCACHE"
  "\<not> has_status (free_groupcache db) DB_STATUS_GRPCACHE"
  "pkgcache (free_groupcache db) = pkgcache db"
  "has_status (db\<lparr>pkgcache := x\<rparr>) f = has_status db f"
  by (auto simp: has_status_def free_groupcache_def and.assoc)

lemma pkghash_inv_same:
  assumes "\<forall>p\<in>set (hlist h). pname (ps' p) = pname (ps p) \<and> name_hash (ps' p) = name_hash (ps p)" "pkghash_inv ps h"
  shows "pkghash_inv ps' h" "contents ps' h = contents ps h"
proof -
  have occ: "set (occupants (hash_table h)) = set (hlist h)" using pkghash_invD(6) [OF assms(2)] .
  have "reachable ps' None (hash_table h) i q"
    if "i < length (hash_table h)" "hash_table h ! i = Some q" for i q
  proof -
    have "q \<in> set (hlist h)" using that occ set_occupants by blast
    then show ?thesis
      using that assms pkghash_invD(7) [OF assms(2)] by (simp add: probe_inv_def reachable_def)
  qed
  moreover have "map (\<lambda>p. pname (ps' p)) (hlist h) = map (\<lambda>p. pname (ps p)) (hlist h)" using assms(1) by simp
  then have "distinct (map (\<lambda>p. pname (ps' p)) (hlist h))" using assms(2) by (simp only: pkghash_inv_def)
  ultimately show "pkghash_inv ps' h"
    using assms unfolding pkghash_inv_def by (auto simp: probe_inv_def hashed_def)
  show "contents ps' h = contents ps h"
    using assms(1) by (auto simp: contents_def fun_eq_iff intro!: find_cong)
qed

lemma pkghash_inv_cong:
  assumes "\<forall>p\<in>set (hlist h). ps' p = ps p" "pkghash_inv ps h"
  shows "pkghash_inv ps' h" "contents ps' h = contents ps h"
  using pkghash_inv_same [OF _ assms(2), of ps'] assms(1) by simp_all

lemma pkg_dup_name [simp]:
  "pname (snd (alpm_pkg_dup f p)) = pname p" "name_hash (snd (alpm_pkg_dup f p)) = name_hash p"
  "fst (alpm_pkg_dup f p) = (if f p then 1 else 0)"
  by (simp_all add: alpm_pkg_dup_def Let_def)

section \<open>Properties\<close>

text \<open>the group cache: when no package lists a group twice, every group of some package is in
  the cache exactly once and holds exactly the packages that list it, in the order of the
  package cache.\<close>

theorem grpcache_exact:
  assumes "distinct pkgs" "\<forall>p\<in>set pkgs. distinct (groups (ps p))"
  shows "distinct (map gname (load_grpcache_loop ps [] pkgs)) \<and>
    gname ` set (load_grpcache_loop ps [] pkgs) = (\<Union>p\<in>set pkgs. set (groups (ps p))) \<and>
    (\<forall>grp\<in>set (load_grpcache_loop ps [] pkgs). gpackages grp = filter (\<lambda>p. gname grp \<in> set (groups (ps p))) pkgs)"
proof -
  have loop: "distinct (map gname (load_grpcache_loop ps [] pkgs))"
    "gname ` set (load_grpcache_loop ps [] pkgs) = (\<Union>p\<in>set pkgs. set (groups (ps p)))"
    "members (load_grpcache_loop ps [] pkgs) = (\<lambda>g. filter (\<lambda>p. g \<in> set (groups (ps p))) pkgs)"
    using load_loop_spec [of "[]" pkgs ps] assms by auto
  have "members cache (gname grp) = gpackages grp"
    if "distinct (map gname cache)" "grp \<in> set cache" for cache grp
    using that by (induction cache) (auto simp: members_Cons)
  then show ?thesis using loop by metis
qed

theorem grpcache_exact_witness:
  "gpackages (hd (load_grpcache_loop (\<lambda>p. alpm_pkg_new\<lparr>groups := if p = 2 then [] else [''base'']\<rparr>) [] [1, 2, 3])) = [1, 3]"
  using grpcache_exact [of "[1, 2, 3]" "\<lambda>p. alpm_pkg_new\<lparr>groups := if p = 2 then [] else [''base'']\<rparr>"]
  by (auto simp: alpm_pkg_new_def alpm_group_new_def alpm_list_add_def alpm_list_find_ptr_def)

text \<open>a package that lists a group twice splits the group: the cache then has two groups of
  that name, and asking for the group returns only the first, without the packages that
  joined the second.\<close>

theorem grpcache_duplicate:
  "load_grpcache_loop (\<lambda>p. alpm_pkg_new\<lparr>groups := if p = 1 then [''g'', ''g''] else [''g'']\<rparr>) [] [1, 2] =
     [\<lparr>gname = ''g'', gpackages = [1, 2]\<rparr>, \<lparr>gname = ''g'', gpackages = [1]\<rparr>]"
  by (simp add: alpm_pkg_new_def alpm_group_new_def alpm_list_add_def alpm_list_find_ptr_def ptr_cmp_def)

text \<open>adding a package to a loaded cache, when its name is new there and the package can be
  loaded: the cache afterwards finds under that name a copy of the package that belongs to the
  database, every other name leads where it did, and the group cache is dropped.\<close>

theorem cache_add_then_find:
  assumes cache: "pkgcache (wdbs w d) = Some h" "pkghash_inv (wpkgs w) h"
      "has_status (wdbs w d) DB_STATUS_PKGCACHE" "has_status (wdbs w d) DB_STATUS_VALID"
    and fresh: "\<forall>q\<in>set (hlist h). q < next_ref w" "entries h < 414054"
    and pkg: "hashed (wpkgs w p)" "\<forall>q\<in>set (hlist h). pname (wpkgs w q) \<noteq> pname (wpkgs w p)"
      "\<not> force_load (wpkgs w p)"
  shows "\<exists>w'. alpm_db_add_pkgincache force_load w (Some d) (Some p) = Some (0, w') \<and>
    alpm_db_get_pkgfromcache populate w' (Some d) (pname (wpkgs w p)) = Some (Some (next_ref w), w') \<and>
    pname (wpkgs w' (next_ref w)) = pname (wpkgs w p) \<and> origin_data (wpkgs w' (next_ref w)) = Origin_db d \<and>
    (\<forall>n. n \<noteq> pname (wpkgs w p) \<longrightarrow>
      alpm_db_get_pkgfromcache populate w' (Some d) n = Some (contents (wpkgs w) h n, w')) \<and>
    \<not> has_status (wdbs w' d) DB_STATUS_GRPCACHE"
proof -
  define n where "n = next_ref w"
  obtain c where c: "alpm_pkg_dup force_load (wpkgs w p) = (0, c)"
    using pkg(3) pkg_dup_name(3) by (metis prod.collapse)
  have c': "pname c = pname (wpkgs w p)" "name_hash c = name_hash (wpkgs w p)"
    using pkg_dup_name(1,2) [of force_load "wpkgs w p"] c by simp_all
  define new where "new = c
    \<lparr>origin := (if has_status (wdbs w d) DB_STATUS_LOCAL then ALPM_PKG_FROM_LOCALDB else ALPM_PKG_FROM_SYNCDB),
     origin_data := Origin_db d\<rparr>"
  define ps' where "ps' = (wpkgs w)(n := new)"
  have new: "pname new = pname (wpkgs w p)" "origin_data new = Origin_db d" "hashed new"
    using pkg(1) c' by (simp_all add: new_def hashed_def)
  have same: "\<forall>q\<in>set (hlist h). ps' q = wpkgs w q" using fresh(1) by (auto simp: ps'_def n_def)
  note inv' = pkghash_inv_cong [OF same cache(2)]
  have ps'_n: "ps' n = new" by (simp add: ps'_def)
  then have "\<forall>q\<in>set (hlist h). pname (ps' q) \<noteq> pname (ps' n)" using same pkg(2) new(1) by simp
  then obtain h' where h': "alpm_pkghash_add_sorted ps' h n = Some (True, h')" "pkghash_inv ps' h'"
    "contents ps' h' = (contents ps' h)(pname (ps' n) \<mapsto> n)"
    using add_total [of ps' h n] inv'(1) new(3) fresh(2) by (auto simp: ps'_n)
  have ct: "contents ps' h' = (contents (wpkgs w) h)(pname (wpkgs w p) \<mapsto> n)"
    using h'(3) inv'(2) ps'_n new(1) by simp
  define w' where "w' = upd_db d (\<lambda>db. free_groupcache (db\<lparr>pkgcache := Some h'\<rparr>)) (w\<lparr>wpkgs := ps', next_ref := n + 1\<rparr>)"
  have "alpm_db_add_pkgincache force_load w (Some d) (Some p) = Some (0, w')"
    using cache h'(1) c by (simp add: alpm_db_add_pkgincache_def Let_def w'_def ps'_def new_def n_def)
  moreover have "alpm_db_get_pkgfromcache populate w' (Some d) m = Some (contents ps' h' m, w')" for m
    using cache find_contents [OF h'(2)]
    by (simp add: alpm_db_get_pkgfromcache_def alpm_db_get_pkgcache_hash_def w'_def upd_db_def)
  ultimately show ?thesis
    using ct new by (auto simp: w'_def upd_db_def ps'_def n_def)
qed

theorem cache_add_then_find_witness:
  "\<exists>h w w'. alpm_pkghash_create 2 = Some h \<and>
    alpm_db_add_pkgincache (\<lambda>_. False) w (Some 0) (Some 3) = Some (0, w') \<and>
    alpm_db_get_pkgfromcache (\<lambda>d w. (0, w)) w' (Some 0) ''a'' = Some (Some 7, w')"
proof -
  obtain h where h: "alpm_pkghash_create 2 = Some h"
    by (simp add: alpm_pkghash_create_def prime_list_def)
  define w where "w = \<lparr>handle = alpm_handle_new,
    wdbs = \<lambda>_. (alpm_db_new ''core'' False)\<lparr>pkgcache := Some h, status := DB_STATUS_VALID OR DB_STATUS_PKGCACHE\<rparr>,
    wpkgs = \<lambda>_. alpm_pkg_new\<lparr>pname := ''a'', name_hash := name_hash_of ''a''\<rparr>, next_ref = 7\<rparr>"
  have "\<exists>w'. alpm_db_add_pkgincache (\<lambda>_. False) w (Some 0) (Some 3) = Some (0, w') \<and>
    alpm_db_get_pkgfromcache (\<lambda>d w. (0, w)) w' (Some 0) (pname (wpkgs w 3)) = Some (Some (next_ref w), w')"
    using cache_add_then_find [of w 0 h 3 "\<lambda>_. False" "\<lambda>d w. (0, w)"] create_inv [OF h] create_spec(5,6) [OF h]
    by (auto simp: w_def has_status_def hashed_def)
  then show ?thesis using h by (auto simp: w_def)
qed

definition dbs_named :: "alpm_world \<Rightarrow> bool" where
  "dbs_named w \<longleftrightarrow>
     (let ds = dbs_sync (handle w); ns = map (\<lambda>d. treename (wdbs w d)) ds
      in distinct ns \<and> [] \<notin> set ns \<and> ''local'' \<notin> set ns \<and> (\<forall>n\<in>set ns. CHR ''/'' \<notin> set n) \<and>
         (\<forall>d\<in>set ds. d < next_ref w))"

text \<open>registering a sync database keeps the names of the registered databases distinct,
  non-empty, free of slashes and different from the local database's, whatever the validation
  does to the status of the new database.\<close>

theorem register_keeps_names:
  assumes "dbs_named w"
    and frame: "\<And>d w. dbs_sync (handle (snd (validate d w))) = dbs_sync (handle w) \<and>
      (\<forall>e. treename (wdbs (snd (validate d w)) e) = treename (wdbs w e)) \<and> next_ref (snd (validate d w)) = next_ref w"
  shows "dbs_named (snd (alpm_register_syncdb validate w name level)) \<and>
    (fst (alpm_register_syncdb validate w name level) = None \<longrightarrow>
      dbs_sync (handle (snd (alpm_register_syncdb validate w name level))) = dbs_sync (handle w))"
proof (cases "\<exists>n. name = Some n \<and> n \<noteq> [] \<and> CHR ''/'' \<notin> set n \<and> trans (handle w) = None \<and> n \<noteq> ''local'' \<and>
    (\<forall>d\<in>set (dbs_sync (handle w)). n \<noteq> treename (wdbs w d))")
  case True
  then obtain n where n: "name = Some n" "n \<noteq> []" "CHR ''/'' \<notin> set n" "trans (handle w) = None" "n \<noteq> ''local''"
    "\<forall>d\<in>set (dbs_sync (handle w)). n \<noteq> treename (wdbs w d)" by blast
  let ?d = "next_ref w"
  define w1 where "w1 = (set_errno ALPM_ERR_OK w)\<lparr>wdbs := (wdbs w)(?d := (alpm_db_new n False)\<lparr>siglevel := level\<rparr>), next_ref := ?d + 1\<rparr>"
  define w2 where "w2 = snd (validate ?d w1)"
  have w2: "dbs_sync (handle w2) = dbs_sync (handle w)" "next_ref w2 = ?d + 1"
    "treename (wdbs w2 e) = (if e = ?d then n else treename (wdbs w e))" for e
    using frame [of ?d w1] by (simp_all add: w2_def w1_def set_errno_def alpm_db_new_def)
  have r: "alpm_register_syncdb validate w name level =
    (Some ?d, w2\<lparr>handle := (handle w2)\<lparr>dbs_sync := dbs_sync (handle w) @ [?d]\<rparr>\<rparr>)"
    using n w2(1) by (auto simp: alpm_register_syncdb_def alpm_db_register_sync_def Let_def set_errno_def w1_def w2_def
        alpm_list_add_def split: prod.splits)
  have old: "\<forall>d\<in>set (dbs_sync (handle w)). d \<noteq> ?d" using assms(1) by (auto simp: dbs_named_def Let_def)
  then have m: "map (\<lambda>d. treename (wdbs w2 d)) (dbs_sync (handle w)) = map (\<lambda>d. treename (wdbs w d)) (dbs_sync (handle w))"
    and m': "treename (wdbs w2 ?d) = n" using w2(3) by auto
  have "dbs_named (w2\<lparr>handle := (handle w2)\<lparr>dbs_sync := dbs_sync (handle w) @ [?d]\<rparr>\<rparr>)"
    using assms(1) n w2(2) unfolding dbs_named_def Let_def by (auto simp: m m' simp del: map_eq_conv)
  then show ?thesis using r by simp
next
  case False
  then have r: "fst (alpm_register_syncdb validate w name level) = None"
      "dbs_sync (handle (snd (alpm_register_syncdb validate w name level))) = dbs_sync (handle w)"
      "wdbs (snd (alpm_register_syncdb validate w name level)) = wdbs w"
      "next_ref (snd (alpm_register_syncdb validate w name level)) = next_ref w"
    by (cases name; simp add: alpm_register_syncdb_def Let_def set_errno_def; fastforce)+
  then show ?thesis using assms(1) by (simp add: dbs_named_def)
qed

theorem register_keeps_names_witness:
  "dbs_named (snd (alpm_register_syncdb (\<lambda>d w. (0, w))
     \<lparr>handle = alpm_handle_new, wdbs = \<lambda>_. alpm_db_new ''core'' False, wpkgs = \<lambda>_. alpm_pkg_new, next_ref = 7\<rparr>
     (Some ''core'') 0))"
  by (rule register_keeps_names [THEN conjunct1]) (auto simp: dbs_named_def alpm_handle_new_def)

end
