(* ===== verification/AlpmDeps.thy ===== *)
theory AlpmDeps
  imports AlpmDb
begin

text \<open>
  Dependencies (\<open>lib/libalpm/deps.c\<close>): comparing, parsing and printing them, checking a set
  of changes, resolving what a package needs from the databases, and finding what can be
  removed along with a package. Sorting by dependencies is in \<open>AlpmDepSort\<close>; the reverse
  dependencies of \<open>package.c\<close> are here as they rest on \<open>_alpm_depcmp\<close>.
\<close>

unbundle bit_operations_syntax

section \<open>Comparing a dependency with a package\<close>

definition dep_vercmp :: "string option \<Rightarrow> alpm_depmod_t \<Rightarrow> string option \<Rightarrow> bool" where
  "dep_vercmp version1 mod' version2 =
     (if mod' = ALPM_DEP_MOD_ANY then True
      else
        let cmp = alpm_pkg_vercmp version1 version2
        in case mod' of
             ALPM_DEP_MOD_EQ \<Rightarrow> cmp = 0
           | ALPM_DEP_MOD_GE \<Rightarrow> cmp \<ge> 0
           | ALPM_DEP_MOD_LE \<Rightarrow> cmp \<le> 0
           | ALPM_DEP_MOD_LT \<Rightarrow> cmp < 0
           | ALPM_DEP_MOD_GT \<Rightarrow> cmp > 0
           | _ \<Rightarrow> True)"

definition alpm_depcmp_literal :: "alpm_pkg_t \<Rightarrow> alpm_depend_t \<Rightarrow> bool" where
  "alpm_depcmp_literal pkg dep =
     (if name_hash pkg \<noteq> dname_hash dep \<or> strcmp (pname pkg) (dname dep) \<noteq> 0 then False
      else dep_vercmp (version pkg) (dmod dep) (dversion dep))"

fun alpm_depcmp_provides :: "alpm_depend_t \<Rightarrow> alpm_depend_t list \<Rightarrow> bool" where
  "alpm_depcmp_provides dep [] = False"
| "alpm_depcmp_provides dep (provision # i) =
     (let satisfy =
        (if dmod dep = ALPM_DEP_MOD_ANY then
           dname_hash provision = dname_hash dep \<and> strcmp (dname provision) (dname dep) = 0
         else if dmod provision = ALPM_DEP_MOD_EQ then
           dname_hash provision = dname_hash dep \<and> strcmp (dname provision) (dname dep) = 0 \<and>
           dep_vercmp (dversion provision) (dmod dep) (dversion dep)
         else False)
      in if satisfy then True else alpm_depcmp_provides dep i)"

definition alpm_depcmp :: "alpm_pkg_t \<Rightarrow> alpm_depend_t \<Rightarrow> bool" where
  "alpm_depcmp pkg dep \<longleftrightarrow> alpm_depcmp_literal pkg dep \<or> alpm_depcmp_provides dep (provides pkg)"

fun depends_on_loop :: "alpm_depend_t list \<Rightarrow> alpm_pkg_t \<Rightarrow> bool" where
  "depends_on_loop [] pkg2 = False"
| "depends_on_loop (d # i) pkg2 = (if alpm_depcmp pkg2 d then True else depends_on_loop i pkg2)"

definition alpm_pkg_depends_on :: "alpm_pkg_t \<Rightarrow> alpm_pkg_t \<Rightarrow> bool" where
  "alpm_pkg_depends_on pkg1 pkg2 = depends_on_loop (depends pkg1) pkg2"

fun find_dep_satisfier :: "pkgs \<Rightarrow> pkgref list \<Rightarrow> alpm_depend_t \<Rightarrow> pkgref option" where
  "find_dep_satisfier ps [] dep = None"
| "find_dep_satisfier ps (pkg # i) dep =
     (if alpm_depcmp (ps pkg) dep then Some pkg else find_dep_satisfier ps i dep)"

section \<open>Parsing and printing\<close>

text \<open>\<open>strstr(s, ": ")\<close>: the parts before and from the first occurrence.\<close>

fun split_desc :: "string \<Rightarrow> string \<times> string" where
  "split_desc [] = ([], [])"
| "split_desc (c # s) =
     (if c = CHR '':'' \<and> s \<noteq> [] \<and> hd s = CHR '' '' then ([], c # s)
      else let (a, b) = split_desc s in (c # a, b))"

text \<open>\<open>memchr(s, c, n)\<close> as the parts before and from the first \<open>c\<close>, \<open>None\<close> if there is none.\<close>

definition split_char :: "char \<Rightarrow> string \<Rightarrow> (string \<times> string) option" where
  "split_char c s = (if c \<in> set s then Some (takeWhile (\<lambda>x. x \<noteq> c) s, dropWhile (\<lambda>x. x \<noteq> c) s) else None)"

text \<open>
  The comparator of the part before the description: its kind, the name in front of it and
  the version behind it. (That part has at least the comparator after \<open>ptr\<close>, and \<open>ptr[1]\<close>
  cannot be an equals sign that belongs to the description.)
\<close>

definition dep_operator :: "string \<Rightarrow> alpm_depmod_t \<times> string \<times> string option" where
  "dep_operator s =
     (case split_char CHR ''<'' s of
        Some (name, ptr) \<Rightarrow>
          if tl ptr \<noteq> [] \<and> hd (tl ptr) = CHR ''='' then (ALPM_DEP_MOD_LE, name, Some (drop 2 ptr))
          else (ALPM_DEP_MOD_LT, name, Some (tl ptr))
      | None \<Rightarrow>
          (case split_char CHR ''>'' s of
             Some (name, ptr) \<Rightarrow>
               if tl ptr \<noteq> [] \<and> hd (tl ptr) = CHR ''='' then (ALPM_DEP_MOD_GE, name, Some (drop 2 ptr))
               else (ALPM_DEP_MOD_GT, name, Some (tl ptr))
           | None \<Rightarrow>
               (case split_char CHR ''='' s of
                  Some (name, ptr) \<Rightarrow> (ALPM_DEP_MOD_EQ, name, Some (tl ptr))
                | None \<Rightarrow> (ALPM_DEP_MOD_ANY, s, None))))"

definition alpm_dep_from_string :: "string option \<Rightarrow> alpm_depend_t option" where
  "alpm_dep_from_string depstring =
     (case depstring of
        None \<Rightarrow> None
      | Some s \<Rightarrow>
          let (part, desc') = split_desc s;
              (m, name, ver) = dep_operator part
          in Some \<lparr>dname = name, dversion = ver,
                   ddesc = (if desc' \<noteq> [] then Some (drop 2 desc') else None),
                   dname_hash = alpm_hash_sdbm (Some name), dmod = m\<rparr>)"

definition dep_opr :: "alpm_depmod_t \<Rightarrow> string" where
  "dep_opr m =
     (case m of
        ALPM_DEP_MOD_ANY \<Rightarrow> ''''
      | ALPM_DEP_MOD_GE \<Rightarrow> ''>=''
      | ALPM_DEP_MOD_LE \<Rightarrow> ''<=''
      | ALPM_DEP_MOD_EQ \<Rightarrow> ''=''
      | ALPM_DEP_MOD_LT \<Rightarrow> ''<''
      | ALPM_DEP_MOD_GT \<Rightarrow> ''>'')"

definition alpm_dep_compute_string :: "alpm_depend_t option \<Rightarrow> string option" where
  "alpm_dep_compute_string dep =
     (case dep of
        None \<Rightarrow> None
      | Some d \<Rightarrow>
          let opr = dep_opr (dmod d);
              ver = (if dmod d \<noteq> ALPM_DEP_MOD_ANY then (case dversion d of None \<Rightarrow> [] | Some v \<Rightarrow> v) else []);
              (desc_delim, desc') = (case ddesc d of None \<Rightarrow> ([], []) | Some x \<Rightarrow> ('': '', x))
          in Some (dname d @ opr @ ver @ desc_delim @ desc'))"

definition alpm_find_satisfier :: "pkgs \<Rightarrow> pkgref list \<Rightarrow> string option \<Rightarrow> pkgref option" where
  "alpm_find_satisfier ps pkgs depstring =
     (case alpm_dep_from_string depstring of None \<Rightarrow> None | Some dep \<Rightarrow> find_dep_satisfier ps pkgs dep)"

section \<open>Checking dependencies\<close>

definition no_dep_version :: "alpm_handle_t \<Rightarrow> bool" where
  "no_dep_version h =
     (case trans h of None \<Rightarrow> False | Some t \<Rightarrow> tflags t AND ALPM_TRANS_FLAG_NODEPVERSION \<noteq> 0)"

text \<open>The dependency as it is checked: its kind is overwritten for the time of the check.\<close>

definition checked_dep :: "bool \<Rightarrow> alpm_depend_t \<Rightarrow> alpm_depend_t" where
  "checked_dep nodepversion d = (if nodepversion then d\<lparr>dmod := ALPM_DEP_MOD_ANY\<rparr> else d)"

definition depmiss_new :: "string \<Rightarrow> alpm_depend_t \<Rightarrow> string option \<Rightarrow> alpm_depmissing_t" where
  "depmiss_new tgt dep causing =
     \<lparr>miss_target = tgt, miss_depend = alpm_dep_dup dep, miss_causingpkg = causing\<rparr>"

fun split_modified ::
  "pkgs \<Rightarrow> pkgref list \<Rightarrow> pkgref list \<Rightarrow> pkgref list \<Rightarrow> pkgref list \<Rightarrow> pkgref list \<Rightarrow> pkgref list \<times> pkgref list" where
  "split_modified ps rem upgrade [] modified dblist = (modified, dblist)"
| "split_modified ps rem upgrade (pkg # i) modified dblist =
     (if alpm_pkg_find ps rem (Some (pname (ps pkg))) \<noteq> None \<or>
         alpm_pkg_find ps upgrade (Some (pname (ps pkg))) \<noteq> None
      then split_modified ps rem upgrade i (alpm_list_add modified pkg) dblist
      else split_modified ps rem upgrade i modified (alpm_list_add dblist pkg))"

definition unsatisfied :: "alpm_handle_t \<Rightarrow> pkgs \<Rightarrow> pkgref list \<Rightarrow> pkgref list \<Rightarrow> alpm_depend_t \<Rightarrow> bool" where
  "unsatisfied h ps upgrade dblist dep \<longleftrightarrow>
     find_dep_satisfier ps upgrade dep = None \<and>
     find_dep_satisfier ps dblist dep = None \<and>
     \<not> alpm_depcmp_provides dep (assumeinstalled h)"

fun check_upgrade_deps ::
  "alpm_handle_t \<Rightarrow> pkgs \<Rightarrow> pkgref list \<Rightarrow> pkgref list \<Rightarrow> alpm_pkg_t \<Rightarrow> alpm_depend_t list \<Rightarrow>
   alpm_depmissing_t list \<Rightarrow> alpm_depmissing_t list" where
  "check_upgrade_deps h ps upgrade dblist tp [] baddeps = baddeps"
| "check_upgrade_deps h ps upgrade dblist tp (d # j) baddeps =
     (let d = checked_dep (no_dep_version h) d
      in check_upgrade_deps h ps upgrade dblist tp j
           (if unsatisfied h ps upgrade dblist d
            then alpm_list_add baddeps (depmiss_new (pname tp) d None) else baddeps))"

fun check_upgrade ::
  "alpm_handle_t \<Rightarrow> pkgs \<Rightarrow> pkgref list \<Rightarrow> pkgref list \<Rightarrow> pkgref list \<Rightarrow>
   alpm_depmissing_t list \<Rightarrow> alpm_depmissing_t list" where
  "check_upgrade h ps upgrade dblist [] baddeps = baddeps"
| "check_upgrade h ps upgrade dblist (tp # i) baddeps =
     check_upgrade h ps upgrade dblist i
       (check_upgrade_deps h ps upgrade dblist (ps tp) (depends (ps tp)) baddeps)"

fun check_reverse_deps ::
  "alpm_handle_t \<Rightarrow> pkgs \<Rightarrow> pkgref list \<Rightarrow> pkgref list \<Rightarrow> pkgref list \<Rightarrow> alpm_pkg_t \<Rightarrow> alpm_depend_t list \<Rightarrow>
   alpm_depmissing_t list \<Rightarrow> alpm_depmissing_t list" where
  "check_reverse_deps h ps upgrade dblist modified lp [] baddeps = baddeps"
| "check_reverse_deps h ps upgrade dblist modified lp (d # j) baddeps =
     (let d = checked_dep (no_dep_version h) d
      in check_reverse_deps h ps upgrade dblist modified lp j
           (case find_dep_satisfier ps modified d of
              None \<Rightarrow> baddeps
            | Some causing \<Rightarrow>
                if unsatisfied h ps upgrade dblist d
                then alpm_list_add baddeps (depmiss_new (pname lp) d (Some (pname (ps causing))))
                else baddeps))"

fun check_reverse ::
  "alpm_handle_t \<Rightarrow> pkgs \<Rightarrow> pkgref list \<Rightarrow> pkgref list \<Rightarrow> pkgref list \<Rightarrow> pkgref list \<Rightarrow>
   alpm_depmissing_t list \<Rightarrow> alpm_depmissing_t list" where
  "check_reverse h ps upgrade dblist modified [] baddeps = baddeps"
| "check_reverse h ps upgrade dblist modified (lp # i) baddeps =
     check_reverse h ps upgrade dblist modified i
       (check_reverse_deps h ps upgrade dblist modified (ps lp) (depends (ps lp)) baddeps)"

definition alpm_checkdeps ::
  "alpm_handle_t \<Rightarrow> pkgs \<Rightarrow> pkgref list \<Rightarrow> pkgref list \<Rightarrow> pkgref list \<Rightarrow> bool \<Rightarrow> alpm_depmissing_t list" where
  "alpm_checkdeps h ps pkglist rem upgrade reversedeps =
     (let (modified, dblist) = split_modified ps rem upgrade pkglist [] [];
          baddeps = check_upgrade h ps upgrade dblist upgrade []
      in if reversedeps then check_reverse h ps upgrade dblist modified dblist baddeps else baddeps)"

section \<open>Unneeded dependencies\<close>

text \<open>
  The walk over \<open>*from\<close> unlinks the selected packages as it goes; what stays is collected
  in order.
\<close>

fun select_depends_loop ::
  "pkgs \<Rightarrow> pkgref \<Rightarrow> bool \<Rightarrow> pkgref list \<Rightarrow> pkgref list \<Rightarrow> pkgref list \<Rightarrow> pkgref list \<times> pkgref list" where
  "select_depends_loop ps pkg explicit [] kept to = (kept, to)"
| "select_depends_loop ps pkg explicit (deppkg # i) kept to =
     (if (explicit \<or> preason (ps deppkg) \<noteq> ALPM_PKG_REASON_EXPLICIT) \<and> alpm_pkg_depends_on (ps pkg) (ps deppkg)
      then select_depends_loop ps pkg explicit i kept (alpm_list_add to deppkg)
      else select_depends_loop ps pkg explicit i (alpm_list_add kept deppkg) to)"

definition alpm_select_depends ::
  "pkgs \<Rightarrow> pkgref list \<Rightarrow> pkgref list \<Rightarrow> pkgref \<Rightarrow> bool \<Rightarrow> pkgref list \<times> pkgref list" where
  "alpm_select_depends ps src to pkg explicit =
     (if depends (ps pkg) = [] then (src, to) else select_depends_loop ps pkg explicit src [] to)"

fun keep_without :: "pkgs \<Rightarrow> pkgref list \<Rightarrow> pkgref list \<Rightarrow> pkgref list" where
  "keep_without ps keep [] = keep"
| "keep_without ps keep (t # i) = keep_without ps (fst (alpm_list_remove (alpm_pkg_cmp ps) keep t)) i"

fun select_for_targets ::
  "pkgs \<Rightarrow> bool \<Rightarrow> pkgref list \<Rightarrow> pkgref list \<Rightarrow> pkgref list \<Rightarrow> pkgref list \<times> pkgref list" where
  "select_for_targets ps explicit [] keep rem = (keep, rem)"
| "select_for_targets ps explicit (t # i) keep rem =
     (let (keep, rem) = alpm_select_depends ps keep rem t explicit
      in select_for_targets ps explicit i keep rem)"

lemma select_depends_loop_filter:
  "select_depends_loop ps pkg explicit src kept to =
    (kept @ filter (\<lambda>q. \<not> ((explicit \<or> preason (ps q) \<noteq> ALPM_PKG_REASON_EXPLICIT) \<and> alpm_pkg_depends_on (ps pkg) (ps q))) src,
     to @ filter (\<lambda>q. (explicit \<or> preason (ps q) \<noteq> ALPM_PKG_REASON_EXPLICIT) \<and> alpm_pkg_depends_on (ps pkg) (ps q)) src)"
  by (induction src arbitrary: kept to) (auto simp: alpm_list_add_def)

lemma select_depends_filter:
  "alpm_select_depends ps src to pkg explicit =
    (filter (\<lambda>q. \<not> ((explicit \<or> preason (ps q) \<noteq> ALPM_PKG_REASON_EXPLICIT) \<and> alpm_pkg_depends_on (ps pkg) (ps q))) src,
     to @ filter (\<lambda>q. (explicit \<or> preason (ps q) \<noteq> ALPM_PKG_REASON_EXPLICIT) \<and> alpm_pkg_depends_on (ps pkg) (ps q)) src)"
  by (simp add: alpm_select_depends_def select_depends_loop_filter alpm_pkg_depends_on_def)

lemma select_depends_length:
  "alpm_select_depends ps src to pkg explicit = (src', to') \<Longrightarrow>
   length src' + length to' = length src + length to \<and> length to \<le> length to'"
  using sum_length_filter_compl [of "\<lambda>q. (explicit \<or> preason (ps q) \<noteq> ALPM_PKG_REASON_EXPLICIT) \<and> alpm_pkg_depends_on (ps pkg) (ps q)" src]
  by (auto simp: select_depends_filter)

text \<open>
  The walks over a list that grows at its end while it is walked: \<open>i\<close> is the position of the
  node. They end because what they append is taken from the other list.
\<close>

function recurse_rem ::
  "pkgs \<Rightarrow> bool \<Rightarrow> pkgref list \<Rightarrow> pkgref list \<Rightarrow> nat \<Rightarrow> pkgref list \<times> pkgref list" where
  "recurse_rem ps explicit keep rem i =
     (if i < length rem then
        let (keep', rem') = alpm_select_depends ps keep rem (rem ! i) explicit
        in recurse_rem ps explicit keep' rem' (i + 1)
      else (keep, rem))"
  by pat_completeness auto
termination
  by (relation "measure (\<lambda>(ps, explicit, keep, rem, i). length keep + length rem - i)")
    (auto dest!: sym [of "(_, _)"] select_depends_length)

function recurse_keep ::
  "pkgs \<Rightarrow> pkgref list \<Rightarrow> pkgref list \<Rightarrow> nat \<Rightarrow> pkgref list \<times> pkgref list" where
  "recurse_keep ps rem keep i =
     (if i < length keep \<and> rem \<noteq> [] then
        let (rem', keep') = alpm_select_depends ps rem keep (keep ! i) True
        in recurse_keep ps rem' keep' (i + 1)
      else (rem, keep))"
  by pat_completeness auto
termination
  by (relation "measure (\<lambda>(ps, rem, keep, i). length rem + length keep - i)")
    (auto dest!: sym [of "(_, _)"] select_depends_length)

declare recurse_rem.simps [simp del] recurse_keep.simps [simp del]

text \<open>The packages that are removed along with the targets.\<close>

definition recursedeps_rem :: "pkgs \<Rightarrow> pkgref list \<Rightarrow> pkgref list \<Rightarrow> bool \<Rightarrow> pkgref list \<times> pkgref list" where
  "recursedeps_rem ps cache targs include_explicit =
     (let keep = keep_without ps cache targs;
          (keep, rem) = select_for_targets ps include_explicit targs keep [];
          (keep, rem) = recurse_rem ps include_explicit keep rem 0;
          (rem, keep) = recurse_keep ps rem keep 0
      in (rem, keep))"

text \<open>Each of them is duplicated; the copy goes into the store and onto the target list.\<close>

fun copy_targets ::
  "(alpm_pkg_t \<Rightarrow> bool) \<Rightarrow> alpm_world \<Rightarrow> pkgref list \<Rightarrow> pkgref list \<Rightarrow> int \<times> pkgref list \<times> alpm_world" where
  "copy_targets force_load w [] targs = (0, targs, w)"
| "copy_targets force_load w (pkg # i) targs =
     (let (r, copy) = alpm_pkg_dup force_load (wpkgs w pkg)
      in if r \<noteq> 0 then (-1, targs, set_errno ALPM_ERR_PKG_INVALID w)
         else
           let n = next_ref w
           in copy_targets force_load (w\<lparr>wpkgs := (wpkgs w)(n := copy), next_ref := n + 1\<rparr>) i
                (alpm_list_add targs n))"

definition alpm_recursedeps ::
  "(alpm_pkg_t \<Rightarrow> bool) \<Rightarrow> alpm_world \<Rightarrow> dbref option \<Rightarrow> pkgref list \<Rightarrow> bool \<Rightarrow> int \<times> pkgref list \<times> alpm_world" where
  "alpm_recursedeps force_load w db targs include_explicit =
     (if db = None then (-1, targs, w)
      else
        let (rem, keep) = recursedeps_rem (wpkgs w) (cached_pkgs w db) targs include_explicit
        in copy_targets force_load w rem targs)"

section \<open>Resolving a dependency\<close>

definition usable_db :: "alpm_world \<Rightarrow> dbref \<Rightarrow> bool" where
  "usable_db w d \<longleftrightarrow> usage (wdbs w d) AND (ALPM_DB_USAGE_INSTALL OR ALPM_DB_USAGE_UPGRADE) \<noteq> 0"

text \<open>An ignored package is taken only if the user is asked and agrees.\<close>

definition passed_over :: "(string \<Rightarrow> string \<Rightarrow> bool) \<Rightarrow> alpm_questions \<Rightarrow> alpm_world \<Rightarrow> bool \<Rightarrow> pkgref \<Rightarrow> bool" where
  "passed_over fnm qs w prompt pkg \<longleftrightarrow>
     alpm_pkg_should_ignore fnm (handle w) (wpkgs w pkg) \<and> \<not> (prompt \<and> q_install_ignorepkg qs pkg)"

text \<open>1. literals: the package found, or whether one was ignored.\<close>

fun resolve_literals ::
  "(string \<Rightarrow> string \<Rightarrow> bool) \<Rightarrow> alpm_questions \<Rightarrow> alpm_world \<Rightarrow> alpm_depend_t \<Rightarrow> pkgref list \<Rightarrow> bool \<Rightarrow>
   dbref list \<Rightarrow> bool \<Rightarrow> pkgref + bool" where
  "resolve_literals fnm qs w dep excluding prompt [] ignored = Inr ignored"
| "resolve_literals fnm qs w dep excluding prompt (d # i) ignored =
     (if \<not> usable_db w d then resolve_literals fnm qs w dep excluding prompt i ignored
      else
        (case cached_pkg w (Some d) (dname dep) of
           None \<Rightarrow> resolve_literals fnm qs w dep excluding prompt i ignored
         | Some pkg \<Rightarrow>
             if alpm_depcmp_literal (wpkgs w pkg) dep \<and>
                alpm_pkg_find (wpkgs w) excluding (Some (pname (wpkgs w pkg))) = None
             then
               if passed_over fnm qs w prompt pkg
               then resolve_literals fnm qs w dep excluding prompt i True
               else Inl pkg
             else resolve_literals fnm qs w dep excluding prompt i ignored))"

text \<open>2. satisfiers of one database: an installed provider ends the search.\<close>

fun resolve_providers_db ::
  "(string \<Rightarrow> string \<Rightarrow> bool) \<Rightarrow> alpm_questions \<Rightarrow> alpm_world \<Rightarrow> alpm_depend_t \<Rightarrow> pkgref list \<Rightarrow> bool \<Rightarrow>
   pkgref list \<Rightarrow> pkgref list \<Rightarrow> bool \<Rightarrow> pkgref + pkgref list \<times> bool" where
  "resolve_providers_db fnm qs w dep excluding prompt [] providers ignored = Inr (providers, ignored)"
| "resolve_providers_db fnm qs w dep excluding prompt (pkg # j) providers ignored =
     (if (name_hash (wpkgs w pkg) \<noteq> dname_hash dep \<or> strcmp (pname (wpkgs w pkg)) (dname dep) \<noteq> 0) \<and>
         alpm_depcmp_provides dep (provides (wpkgs w pkg)) \<and>
         alpm_pkg_find (wpkgs w) excluding (Some (pname (wpkgs w pkg))) = None
      then
        if passed_over fnm qs w prompt pkg
        then resolve_providers_db fnm qs w dep excluding prompt j providers True
        else if cached_pkg w (db_local (handle w)) (pname (wpkgs w pkg)) \<noteq> None then Inl pkg
        else resolve_providers_db fnm qs w dep excluding prompt j (alpm_list_add providers pkg) ignored
      else resolve_providers_db fnm qs w dep excluding prompt j providers ignored)"

fun resolve_providers ::
  "(string \<Rightarrow> string \<Rightarrow> bool) \<Rightarrow> alpm_questions \<Rightarrow> alpm_world \<Rightarrow> alpm_depend_t \<Rightarrow> pkgref list \<Rightarrow> bool \<Rightarrow>
   dbref list \<Rightarrow> pkgref list \<Rightarrow> bool \<Rightarrow> pkgref + pkgref list \<times> bool" where
  "resolve_providers fnm qs w dep excluding prompt [] providers ignored = Inr (providers, ignored)"
| "resolve_providers fnm qs w dep excluding prompt (d # i) providers ignored =
     (if \<not> usable_db w d then resolve_providers fnm qs w dep excluding prompt i providers ignored
      else
        (case resolve_providers_db fnm qs w dep excluding prompt (cached_pkgs w (Some d)) providers ignored of
           Inl pkg \<Rightarrow> Inl pkg
         | Inr (providers, ignored) \<Rightarrow> resolve_providers fnm qs w dep excluding prompt i providers ignored))"

text \<open>\<open>Inl\<close> is the error code left in the handle when \<open>NULL\<close> is returned.\<close>

definition resolvedep ::
  "(string \<Rightarrow> string \<Rightarrow> bool) \<Rightarrow> alpm_questions \<Rightarrow> alpm_world \<Rightarrow> alpm_depend_t \<Rightarrow> dbref list \<Rightarrow> pkgref list \<Rightarrow>
   bool \<Rightarrow> alpm_errno_t + pkgref" where
  "resolvedep fnm qs w dep ds excluding prompt =
     (case resolve_literals fnm qs w dep excluding prompt ds False of
        Inl pkg \<Rightarrow> Inr pkg
      | Inr ignored \<Rightarrow>
          (case resolve_providers fnm qs w dep excluding prompt ds [] ignored of
             Inl pkg \<Rightarrow> Inr pkg
           | Inr (providers, ignored) \<Rightarrow>
               let count = length providers;
                   use_index = (if count > 1 then q_select_provider qs dep providers else 0)
               in if count \<ge> 1 \<and> use_index \<ge> 0 \<and> use_index < int count
                  then Inr (providers ! nat use_index)
                  else if ignored then Inl ALPM_ERR_PKG_IGNORED
                  else Inl ALPM_ERR_PKG_NOT_FOUND))"

definition alpm_find_dbs_satisfier ::
  "(string \<Rightarrow> string \<Rightarrow> bool) \<Rightarrow> alpm_questions \<Rightarrow> alpm_world \<Rightarrow> dbref list \<Rightarrow> string option \<Rightarrow> pkgref option" where
  "alpm_find_dbs_satisfier fnm qs w ds depstring =
     (if ds = [] then None
      else
        (case alpm_dep_from_string depstring of
           None \<Rightarrow> None
         | Some dep \<Rightarrow>
             (case resolvedep fnm qs w dep ds [] True of Inl _ \<Rightarrow> None | Inr pkg \<Rightarrow> Some pkg)))"

section \<open>Resolving the dependencies of a package\<close>

text \<open>
  The state is \<open>(*packages, *data)\<close>; \<open>pm_errno\<close> is left to the callers, which set it. The loop
  over the missing dependencies takes the recursive call as an argument. The recursion is
  bounded by \<open>fuel\<close>: every level adds a package with a new name to \<open>*packages\<close>, so the number
  of names in the databases and the preferred packages is enough (\<open>resolvedeps_total\<close>).
\<close>

type_synonym resolve_state = "pkgref list \<times> alpm_depmissing_t list"

fun resolve_loop ::
  "(pkgref \<Rightarrow> resolve_state \<Rightarrow> (int \<times> resolve_state) option) \<Rightarrow> (string \<Rightarrow> string \<Rightarrow> bool) \<Rightarrow> alpm_questions \<Rightarrow>
   alpm_world \<Rightarrow> pkgref list \<Rightarrow> pkgref list \<Rightarrow> alpm_depmissing_t list \<Rightarrow> int \<Rightarrow> resolve_state \<Rightarrow>
   (int \<times> resolve_state) option" where
  "resolve_loop resolvedeps fnm qs w preferred rem [] ret st = Some (ret, st)"
| "resolve_loop resolvedeps fnm qs w preferred rem (miss # j) ret (packages, data) =
     (let missdep = miss_depend miss
      in if find_dep_satisfier (wpkgs w) packages missdep \<noteq> None
         then resolve_loop resolvedeps fnm qs w preferred rem j ret (packages, data)
         else
           let spkg = (case find_dep_satisfier (wpkgs w) preferred missdep of
                         Some s \<Rightarrow> Some s
                       | None \<Rightarrow>
                           (case resolvedep fnm qs w missdep (dbs_sync (handle w)) packages False of
                              Inl _ \<Rightarrow> None | Inr s \<Rightarrow> Some s))
           in case (case spkg of None \<Rightarrow> Some (-1, (packages, data)) | Some s \<Rightarrow> resolvedeps s (packages, data)) of
                None \<Rightarrow> None
              | Some (r, (packages, data)) \<Rightarrow>
                  if r = 0 then resolve_loop resolvedeps fnm qs w preferred rem j ret (packages, data)
                  else
                    (case resolvedep fnm qs w missdep (case db_local (handle w) of None \<Rightarrow> [] | Some d \<Rightarrow> [d]) rem False of
                       Inr _ \<Rightarrow> resolve_loop resolvedeps fnm qs w preferred rem j ret (packages, data)
                     | Inl _ \<Rightarrow>
                         resolve_loop resolvedeps fnm qs w preferred rem j (-1) (packages, alpm_list_add data miss)))"

fun alpm_resolvedeps ::
  "nat \<Rightarrow> (string \<Rightarrow> string \<Rightarrow> bool) \<Rightarrow> alpm_questions \<Rightarrow> alpm_world \<Rightarrow> pkgref list \<Rightarrow> pkgref list \<Rightarrow> pkgref list \<Rightarrow>
   pkgref \<Rightarrow> resolve_state \<Rightarrow> (int \<times> resolve_state) option" where
  "alpm_resolvedeps 0 fnm qs w localpkgs preferred rem pkg st = None"
| "alpm_resolvedeps (Suc fuel) fnm qs w localpkgs preferred rem pkg (packages, data) =
     (if alpm_pkg_find (wpkgs w) packages (Some (pname (wpkgs w pkg))) \<noteq> None then Some (0, (packages, data))
      else
        let packages_copy = packages;
            packages = alpm_list_add packages pkg;
            deps = alpm_checkdeps (handle w) (wpkgs w) localpkgs rem [pkg] False
        in case resolve_loop (alpm_resolvedeps fuel fnm qs w localpkgs preferred rem) fnm qs w preferred rem
                  deps 0 (packages, data) of
             None \<Rightarrow> None
           | Some (ret, (packages, data)) \<Rightarrow>
               Some (ret, (if ret \<noteq> 0 then packages_copy else packages, data)))"

section \<open>Reverse dependencies\<close>

fun requiredby_deps :: "alpm_pkg_t \<Rightarrow> string \<Rightarrow> alpm_depend_t list \<Rightarrow> string list \<Rightarrow> string list" where
  "requiredby_deps pkg cachepkgname [] reqs = reqs"
| "requiredby_deps pkg cachepkgname (d # j) reqs =
     requiredby_deps pkg cachepkgname j
       (if alpm_depcmp pkg d \<and> alpm_list_find_str reqs cachepkgname = None
        then alpm_list_add reqs cachepkgname else reqs)"

fun find_requiredby :: "pkgs \<Rightarrow> alpm_pkg_t \<Rightarrow> pkgref list \<Rightarrow> bool \<Rightarrow> string list \<Rightarrow> string list" where
  "find_requiredby ps pkg [] optional reqs = reqs"
| "find_requiredby ps pkg (cachepkg # i) optional reqs =
     find_requiredby ps pkg i optional
       (requiredby_deps pkg (pname (ps cachepkg))
          (if optional then optdepends (ps cachepkg) else depends (ps cachepkg)) reqs)"

fun requiredby_dbs :: "alpm_world \<Rightarrow> alpm_pkg_t \<Rightarrow> dbref list \<Rightarrow> bool \<Rightarrow> string list \<Rightarrow> string list" where
  "requiredby_dbs w pkg [] optional reqs = reqs"
| "requiredby_dbs w pkg (d # i) optional reqs =
     requiredby_dbs w pkg i optional (find_requiredby (wpkgs w) pkg (cached_pkgs w (Some d)) optional reqs)"

text \<open>A package from a file with no local database finds nothing.\<close>

definition compute_requiredby :: "alpm_world \<Rightarrow> alpm_pkg_t \<Rightarrow> bool \<Rightarrow> string list" where
  "compute_requiredby w pkg optional =
     (case (origin pkg, origin_data pkg) of
        (ALPM_PKG_FROM_FILE, _) \<Rightarrow> find_requiredby (wpkgs w) pkg (cached_pkgs w (db_local (handle w))) optional []
      | (_, Origin_db d) \<Rightarrow>
          if has_status (wdbs w d) DB_STATUS_LOCAL
          then find_requiredby (wpkgs w) pkg (cached_pkgs w (Some d)) optional []
          else
            let reqs = requiredby_dbs w pkg (dbs_sync (handle w)) optional []
            in alpm_list_msort strcmp (length reqs) reqs
      | _ \<Rightarrow> [])"

section \<open>Facts about satisfying dependencies\<close>

lemma depcmp_provides_iff:
  "alpm_depcmp_provides dep provisions \<longleftrightarrow>
    (\<exists>p\<in>set provisions. dname_hash p = dname_hash dep \<and> dname p = dname dep \<and>
       (dmod dep = ALPM_DEP_MOD_ANY \<or>
        dmod p = ALPM_DEP_MOD_EQ \<and> dep_vercmp (dversion p) (dmod dep) (dversion dep)))"
  by (induction provisions) (auto simp: Let_def)

lemma depends_on_iff: "alpm_pkg_depends_on p q \<longleftrightarrow> (\<exists>d\<in>set (depends p). alpm_depcmp q d)"
proof -
  have "depends_on_loop ds q \<longleftrightarrow> (\<exists>d\<in>set ds. alpm_depcmp q d)" for ds by (induction ds) auto
  then show ?thesis by (simp add: alpm_pkg_depends_on_def)
qed

lemma find_sat_None [simp]: "find_dep_satisfier ps pkgs dep = None \<longleftrightarrow> (\<forall>p\<in>set pkgs. \<not> alpm_depcmp (ps p) dep)"
  by (induction pkgs) auto

lemma find_sat_Some: "find_dep_satisfier ps pkgs dep = Some p \<Longrightarrow> p \<in> set pkgs \<and> alpm_depcmp (ps p) dep"
  by (induction pkgs) (auto split: if_splits)

section \<open>Facts about the check\<close>

text \<open>What stays of the local packages, and the packages after the change.\<close>

definition untouched :: "pkgs \<Rightarrow> pkgref list \<Rightarrow> pkgref list \<Rightarrow> pkgref \<Rightarrow> bool" where
  "untouched ps rem upgrade p \<longleftrightarrow>
     pname (ps p) \<notin> pname ` ps ` set rem \<and> pname (ps p) \<notin> pname ` ps ` set upgrade"

definition after_change :: "pkgs \<Rightarrow> pkgref list \<Rightarrow> pkgref list \<Rightarrow> pkgref list \<Rightarrow> pkgref list" where
  "after_change ps pkglist rem upgrade = upgrade @ filter (untouched ps rem upgrade) pkglist"

text \<open>A set of packages is closed when it satisfies all their dependencies.\<close>

definition satisfiable :: "alpm_handle_t \<Rightarrow> pkgs \<Rightarrow> pkgref list \<Rightarrow> alpm_depend_t \<Rightarrow> bool" where
  "satisfiable h ps pkgs dep \<longleftrightarrow>
     (\<exists>q\<in>set pkgs. alpm_depcmp (ps q) dep) \<or> alpm_depcmp_provides dep (assumeinstalled h)"

definition closed :: "alpm_handle_t \<Rightarrow> pkgs \<Rightarrow> pkgref list \<Rightarrow> bool" where
  "closed h ps pkgs \<longleftrightarrow>
     (\<forall>p\<in>set pkgs. \<forall>d\<in>set (depends (ps p)). satisfiable h ps pkgs (checked_dep (no_dep_version h) d))"

lemma split_modified_filter:
  assumes "\<forall>p\<in>set rem \<union> set upgrade. hashed (ps p)"
  shows "split_modified ps rem upgrade pl modified dblist =
    (modified @ filter (\<lambda>p. \<not> untouched ps rem upgrade p) pl, dblist @ filter (untouched ps rem upgrade) pl)"
proof -
  have "alpm_pkg_find ps rem (Some n) \<noteq> None \<or> alpm_pkg_find ps upgrade (Some n) \<noteq> None \<longleftrightarrow>
    n \<in> pname ` ps ` set rem \<or> n \<in> pname ` ps ` set upgrade" for n
    using assms pkg_find_None [of rem ps n] pkg_find_None [of upgrade ps n] by (simp add: ball_Un)
  then show ?thesis
    by (induction pl arbitrary: modified dblist) (auto simp: alpm_list_add_def untouched_def)
qed

lemma check_upgrade_deps_filter:
  "check_upgrade_deps h ps upgrade dblist tp ds baddeps =
    baddeps @ map (\<lambda>d. depmiss_new (pname tp) d None)
      (filter (unsatisfied h ps upgrade dblist) (map (checked_dep (no_dep_version h)) ds))"
  by (induction ds arbitrary: baddeps) (auto simp: Let_def alpm_list_add_def)

lemma check_upgrade_concat:
  "check_upgrade h ps upgrade dblist ups baddeps =
    baddeps @ concat (map (\<lambda>tp. check_upgrade_deps h ps upgrade dblist (ps tp) (depends (ps tp)) []) ups)"
  by (induction ups arbitrary: baddeps) (simp_all add: check_upgrade_deps_filter)

lemma check_reverse_deps_filter:
  "check_reverse_deps h ps upgrade dblist modified lp ds baddeps =
    baddeps @ map (\<lambda>d. depmiss_new (pname lp) d
        (Some (pname (ps (the (find_dep_satisfier ps modified d))))))
      (filter (\<lambda>d. (\<exists>q\<in>set modified. alpm_depcmp (ps q) d) \<and> unsatisfied h ps upgrade dblist d)
        (map (checked_dep (no_dep_version h)) ds))"
  by (induction ds arbitrary: baddeps)
    (auto simp: Let_def alpm_list_add_def split: option.splits dest: find_sat_Some)

lemma check_reverse_concat:
  "check_reverse h ps upgrade dblist modified lps baddeps =
    baddeps @ concat (map (\<lambda>lp. check_reverse_deps h ps upgrade dblist modified (ps lp) (depends (ps lp)) []) lps)"
  by (induction lps arbitrary: baddeps) (simp_all add: check_reverse_deps_filter)

lemma unsatisfied_iff:
  "unsatisfied h ps upgrade dblist dep \<longleftrightarrow> \<not> satisfiable h ps (upgrade @ dblist) dep"
  by (auto simp: unsatisfied_def satisfiable_def)

text \<open>The missing dependencies of a check without reverse dependencies.\<close>

lemma checkdeps_forward:
  assumes "\<forall>p\<in>set rem \<union> set upgrade. hashed (ps p)"
  shows "miss \<in> set (alpm_checkdeps h ps pkglist rem upgrade False) \<longleftrightarrow>
    (\<exists>p\<in>set upgrade. \<exists>d\<in>set (depends (ps p)).
       miss = depmiss_new (pname (ps p)) (checked_dep (no_dep_version h) d) None \<and>
       \<not> satisfiable h ps (after_change ps pkglist rem upgrade) (checked_dep (no_dep_version h) d))"
  unfolding alpm_checkdeps_def split_modified_filter [OF assms] after_change_def
  by (auto simp: check_upgrade_concat check_upgrade_deps_filter unsatisfied_iff)

lemma checkdeps_Nil:
  assumes "\<forall>p\<in>set rem \<union> set upgrade. hashed (ps p)"
  shows "alpm_checkdeps h ps pkglist rem upgrade True = [] \<longleftrightarrow>
    (\<forall>p\<in>set upgrade. \<forall>d\<in>set (depends (ps p)).
       satisfiable h ps (after_change ps pkglist rem upgrade) (checked_dep (no_dep_version h) d)) \<and>
    (\<forall>p\<in>set (filter (untouched ps rem upgrade) pkglist). \<forall>d\<in>set (depends (ps p)).
       (\<exists>q\<in>set pkglist. \<not> untouched ps rem upgrade q \<and> alpm_depcmp (ps q) (checked_dep (no_dep_version h) d)) \<longrightarrow>
       satisfiable h ps (after_change ps pkglist rem upgrade) (checked_dep (no_dep_version h) d))"
  unfolding alpm_checkdeps_def split_modified_filter [OF assms] after_change_def
  by (auto simp: check_upgrade_concat check_upgrade_deps_filter check_reverse_concat check_reverse_deps_filter
      unsatisfied_iff filter_empty_conv)

section \<open>Facts about unneeded dependencies\<close>

abbreviation dep_on :: "pkgs \<Rightarrow> pkgref \<Rightarrow> pkgref \<Rightarrow> bool" where
  "dep_on ps p q \<equiv> alpm_pkg_depends_on (ps p) (ps q)"

text \<open>The packages reached from the targets along dependencies.\<close>

definition reached :: "pkgs \<Rightarrow> pkgref list \<Rightarrow> pkgref \<Rightarrow> bool" where
  "reached ps targs q \<longleftrightarrow> (\<exists>t\<in>set targs. (t, q) \<in> {(a, b). dep_on ps a b}\<^sup>+)"

text \<open>What holds of every package selected so far, \<open>targs\<close> being the original targets.\<close>

definition selected_ok :: "pkgs \<Rightarrow> pkgref list \<Rightarrow> bool \<Rightarrow> pkgref list \<Rightarrow> bool" where
  "selected_ok ps targs explicit rem \<longleftrightarrow>
     (\<forall>q\<in>set rem. reached ps targs q \<and> (explicit \<or> preason (ps q) \<noteq> ALPM_PKG_REASON_EXPLICIT))"

lemma select_mset:
  "alpm_select_depends ps src to pkg explicit = (src', to') \<Longrightarrow> mset src' + mset to' = mset src + mset to"
  by (auto simp: select_depends_filter)

lemma select_ok:
  assumes "selected_ok ps targs explicit rem" "alpm_select_depends ps keep rem p explicit = (keep', rem')"
    and "p \<in> set targs \<or> p \<in> set rem"
  shows "selected_ok ps targs explicit rem'"
proof -
  have "reached ps targs q" if "dep_on ps p q" for q
    using assms(1,3) that unfolding selected_ok_def reached_def
    by (metis (mono_tags, lifting) case_prod_conv mem_Collect_eq trancl.r_into_trancl trancl.trancl_into_trancl)
  then show ?thesis using assms(1,2) by (auto simp: selected_ok_def select_depends_filter)
qed

lemma select_for_targets_spec:
  "selected_ok ps targs explicit rem \<Longrightarrow> set ts \<subseteq> set targs \<Longrightarrow>
   select_for_targets ps explicit ts keep rem = (keep', rem') \<Longrightarrow>
   selected_ok ps targs explicit rem' \<and> mset keep' + mset rem' = mset keep + mset rem"
proof (induction ts arbitrary: keep rem)
  case (Cons t ts)
  obtain k r where kr: "alpm_select_depends ps keep rem t explicit = (k, r)" by fastforce
  have "selected_ok ps targs explicit r" using select_ok [OF Cons.prems(1) kr] Cons.prems(2) by simp
  then show ?case using Cons.IH [of r k] Cons.prems kr select_mset [OF kr] by simp
qed simp

lemma recurse_rem_spec:
  "selected_ok ps targs explicit rem \<Longrightarrow> recurse_rem ps explicit keep rem i = (keep', rem') \<Longrightarrow>
   selected_ok ps targs explicit rem' \<and> mset keep' + mset rem' = mset keep + mset rem"
proof (induction ps explicit keep rem i rule: recurse_rem.induct)
  case (1 ps explicit keep rem i)
  show ?case
  proof (cases "i < length rem")
    case True
    obtain k r where kr: "alpm_select_depends ps keep rem (rem ! i) explicit = (k, r)" by fastforce
    have "selected_ok ps targs explicit r" using select_ok [OF "1.prems"(1) kr] True by simp
    moreover have "recurse_rem ps explicit k r (i + 1) = (keep', rem')"
      using "1.prems"(2) True kr by (subst (asm) recurse_rem.simps) simp
    ultimately show ?thesis using "1.IH" [OF True kr [symmetric] HOL.refl] select_mset [OF kr] by simp
  next
    case False
    then have "recurse_rem ps explicit keep rem i = (keep, rem)" by (simp add: recurse_rem.simps)
    then show ?thesis using "1.prems" by simp
  qed
qed

lemma recurse_keep_spec:
  "\<forall>j<i. \<forall>r\<in>set rem. \<not> dep_on ps (keep ! j) r \<Longrightarrow> i \<le> length keep \<Longrightarrow>
   recurse_keep ps rem keep i = (rem', keep') \<Longrightarrow>
   (\<forall>k\<in>set keep'. \<forall>r\<in>set rem'. \<not> dep_on ps k r) \<and> mset rem' + mset keep' = mset rem + mset keep \<and>
   set rem' \<subseteq> set rem"
proof (induction ps rem keep i rule: recurse_keep.induct)
  case (1 ps rem keep i)
  show ?case
  proof (cases "i < length keep \<and> rem \<noteq> []")
    case True
    obtain r k where rk: "alpm_select_depends ps rem keep (keep ! i) True = (r, k)" by fastforce
    then have rk': "r = filter (\<lambda>q. \<not> dep_on ps (keep ! i) q) rem" "k = keep @ filter (dep_on ps (keep ! i)) rem"
      by (simp_all add: select_depends_filter)
    have k_nth: "k ! j = keep ! j" if "j < i + 1" for j using that True rk'(2) by (simp add: nth_append)
    have "\<not> dep_on ps (k ! j) q" if "j < i + 1" "q \<in> set r" for j q
      using "1.prems"(1) that k_nth [OF that(1)] rk'(1) by (cases "j = i") auto
    then have "\<forall>j<i + 1. \<forall>q\<in>set r. \<not> dep_on ps (k ! j) q" by blast
    moreover have "i + 1 \<le> length k" "set r \<subseteq> set rem" using True rk' by auto
    moreover have "recurse_keep ps r k (i + 1) = (rem', keep')"
      using "1.prems"(3) True rk by (subst (asm) recurse_keep.simps) simp
    ultimately show ?thesis
      using "1.IH" [OF True rk [symmetric] HOL.refl] select_mset [OF rk]
      by (metis subset_trans)
  next
    case False
    then have "recurse_keep ps rem keep i = (rem, keep)" by (subst recurse_keep.simps) auto
    then have "rem' = rem" "keep' = keep" using "1.prems"(3) by simp_all
    moreover have "\<forall>k\<in>set keep. \<forall>r\<in>set rem. \<not> dep_on ps k r"
    proof (cases "rem = []")
      case False
      then have "i = length keep" using \<open>\<not> (i < length keep \<and> rem \<noteq> [])\<close> "1.prems"(2) by simp
      then show ?thesis using "1.prems"(1) by (metis in_set_conv_nth)
    qed simp
    ultimately show ?thesis by simp
  qed
qed

lemma keep_without_filter:
  assumes "distinct (map (\<lambda>p. pname (ps p)) cache)"
  shows "keep_without ps cache targs = filter (\<lambda>p. pname (ps p) \<notin> pname ` ps ` set targs) cache"
  using assms
proof (induction targs arbitrary: cache)
  case (Cons t targs)
  have rm: "fst (alpm_list_remove (alpm_pkg_cmp ps) cache t) = filter (\<lambda>p. pname (ps p) \<noteq> pname (ps t)) cache"
    using Cons.prems
  proof (induction cache)
    case (Cons c cache)
    have ne: "pname (ps p) \<noteq> pname (ps c)" if "p \<in> set cache" for p
      using Cons.prems that by (metis (mono_tags, lifting) distinct.simps(2) image_eqI list.set_map list.simps(9))
    then have "filter (\<lambda>p. pname (ps p) \<noteq> pname (ps c)) cache = cache"
      by (simp add: filter_id_conv)
    then show ?case using Cons ne by (cases "pname (ps c) = pname (ps t)") (simp_all add: pkg_cmp_zero)
  qed simp
  have "distinct (map (\<lambda>p. pname (ps p)) (filter (\<lambda>p. pname (ps p) \<noteq> pname (ps t)) cache))"
    using Cons.prems by (simp add: distinct_map_filter)
  then show ?case using Cons.IH rm by (auto intro!: filter_cong)
qed simp

lemma recursedeps_rem_spec:
  assumes "distinct (map (\<lambda>p. pname (ps p)) cache)" "recursedeps_rem ps cache targs explicit = (rem, keep)"
  shows "mset rem + mset keep = mset (filter (\<lambda>p. pname (ps p) \<notin> pname ` ps ` set targs) cache)"
    "selected_ok ps targs explicit rem" "\<forall>k\<in>set keep. \<forall>r\<in>set rem. \<not> dep_on ps k r"
proof -
  let ?keep = "keep_without ps cache targs"
  obtain k1 r1 where 1: "select_for_targets ps explicit targs ?keep [] = (k1, r1)" by fastforce
  obtain k2 r2 where 2: "recurse_rem ps explicit k1 r1 0 = (k2, r2)" by fastforce
  have 3: "recurse_keep ps r2 k2 0 = (rem, keep)"
    using assms(2) by (simp add: recursedeps_rem_def Let_def 1 2)
  have s1: "selected_ok ps targs explicit r1" "mset k1 + mset r1 = mset ?keep"
    using select_for_targets_spec [OF _ order_refl 1] by (simp_all add: selected_ok_def)
  have s2: "selected_ok ps targs explicit r2" "mset k2 + mset r2 = mset ?keep"
    using recurse_rem_spec [OF s1(1) 2] s1(2) by simp_all
  have s3: "\<forall>k\<in>set keep. \<forall>r\<in>set rem. \<not> dep_on ps k r" "mset rem + mset keep = mset r2 + mset k2" "set rem \<subseteq> set r2"
    using recurse_keep_spec [OF _ _ 3] by simp_all
  show "\<forall>k\<in>set keep. \<forall>r\<in>set rem. \<not> dep_on ps k r" by (rule s3)
  show "selected_ok ps targs explicit rem" using s2(1) s3(3) by (auto simp: selected_ok_def)
  show "mset rem + mset keep = mset (filter (\<lambda>p. pname (ps p) \<notin> pname ` ps ` set targs) cache)"
    using s2(2) s3(2) keep_without_filter [OF assms(1), of targs] by (simp add: add.commute)
qed

section \<open>Facts about resolving\<close>

text \<open>What a resolved package is: a satisfier from a usable database, not excluded by name.\<close>

definition resolved_by ::
  "(string \<Rightarrow> string \<Rightarrow> bool) \<Rightarrow> alpm_questions \<Rightarrow> alpm_world \<Rightarrow> alpm_depend_t \<Rightarrow> dbref list \<Rightarrow> pkgref list \<Rightarrow> bool \<Rightarrow> pkgref \<Rightarrow> bool" where
  "resolved_by fnm qs w dep ds excluding prompt p \<longleftrightarrow>
     alpm_depcmp (wpkgs w p) dep \<and> (\<exists>d\<in>set ds. usable_db w d \<and> p \<in> set (cached_pkgs w (Some d))) \<and>
     alpm_pkg_find (wpkgs w) excluding (Some (pname (wpkgs w p))) = None \<and>
     \<not> passed_over fnm qs w prompt p"

lemma literals_Inl:
  "resolve_literals fnm qs w dep excluding prompt ds ignored = Inl p \<Longrightarrow> \<forall>d\<in>set ds. loaded w (Some d) \<Longrightarrow>
   resolved_by fnm qs w dep ds excluding prompt p"
proof (induction ds arbitrary: ignored)
  case (Cons d ds)
  show ?case
  proof (cases "\<exists>ig. resolve_literals fnm qs w dep excluding prompt ds ig = Inl p")
    case True
    then show ?thesis using Cons by (auto simp: resolved_by_def)
  next
    case False
    then have "usable_db w d" "cached_pkg w (Some d) (dname dep) = Some p" "alpm_depcmp_literal (wpkgs w p) dep"
      "alpm_pkg_find (wpkgs w) excluding (Some (pname (wpkgs w p))) = None" "\<not> passed_over fnm qs w prompt p"
      using Cons.prems(1) by (auto split: if_splits option.splits)
    moreover from this(2) have "p \<in> set (cached_pkgs w (Some d))" using Cons.prems(2) cached_pkg_Some by auto
    ultimately show ?thesis by (auto simp: resolved_by_def alpm_depcmp_def)
  qed
qed simp

lemma providers_db_spec:
  assumes "usable_db w d" "d \<in> set ds" "\<forall>p\<in>set providers. resolved_by fnm qs w dep ds excluding prompt p"
    and "set pkgs \<subseteq> set (cached_pkgs w (Some d))"
  shows "case resolve_providers_db fnm qs w dep excluding prompt pkgs providers ignored of
      Inl p \<Rightarrow> resolved_by fnm qs w dep ds excluding prompt p
    | Inr (providers, ignored) \<Rightarrow> \<forall>p\<in>set providers. resolved_by fnm qs w dep ds excluding prompt p"
  using assms(3,4)
proof (induction pkgs arbitrary: providers ignored)
  case (Cons pkg pkgs)
  have rest: "set pkgs \<subseteq> set (cached_pkgs w (Some d))" and pkg: "pkg \<in> set (cached_pkgs w (Some d))"
    using Cons.prems(2) by auto
  have found: "resolved_by fnm qs w dep ds excluding prompt pkg"
    if "alpm_depcmp_provides dep (provides (wpkgs w pkg))" "\<not> passed_over fnm qs w prompt pkg"
      "alpm_pkg_find (wpkgs w) excluding (Some (pname (wpkgs w pkg))) = None"
    using that pkg assms(1,2) by (auto simp: resolved_by_def alpm_depcmp_def)
  have IH: "case resolve_providers_db fnm qs w dep excluding prompt pkgs q ig of
      Inl p \<Rightarrow> resolved_by fnm qs w dep ds excluding prompt p
    | Inr (providers, ignored) \<Rightarrow> \<forall>p\<in>set providers. resolved_by fnm qs w dep ds excluding prompt p"
    if "\<forall>p\<in>set q. resolved_by fnm qs w dep ds excluding prompt p" for q ig
    using Cons.IH [OF that rest] .
  show ?case
    using Cons.prems(1) found by (auto simp: alpm_list_add_def intro!: IH simp del: split_paired_All)
qed simp

lemma providers_spec:
  assumes "\<forall>p\<in>set providers. resolved_by fnm qs w dep ds excluding prompt p" "set ds' \<subseteq> set ds"
  shows "case resolve_providers fnm qs w dep excluding prompt ds' providers ignored of
      Inl p \<Rightarrow> resolved_by fnm qs w dep ds excluding prompt p
    | Inr (providers, ignored) \<Rightarrow> \<forall>p\<in>set providers. resolved_by fnm qs w dep ds excluding prompt p"
  using assms
proof (induction ds' arbitrary: providers ignored)
  case (Cons d ds')
  show ?case
  proof (cases "usable_db w d")
    case True
    note step = providers_db_spec [OF True _ Cons.prems(1) order_refl, of ignored]
    show ?thesis
    proof (cases "resolve_providers_db fnm qs w dep excluding prompt (cached_pkgs w (Some d)) providers ignored")
      case (Inl p)
      then show ?thesis using step True Cons.prems(2) by simp
    next
      case (Inr st)
      then show ?thesis using step True Cons by (cases st) simp
    qed
  qed (use Cons in simp)
qed simp

lemma resolvedep_resolved:
  assumes "resolvedep fnm qs w dep ds excluding prompt = Inr p" "\<forall>d\<in>set ds. loaded w (Some d)"
  shows "resolved_by fnm qs w dep ds excluding prompt p"
proof (cases "resolve_literals fnm qs w dep excluding prompt ds False")
  case (Inl q)
  then show ?thesis using assms literals_Inl [OF Inl] by (simp add: resolvedep_def)
next
  case (Inr ignored)
  note spec = providers_spec [of "[]" fnm qs w dep ds excluding prompt ds ignored]
  show ?thesis
  proof (cases "resolve_providers fnm qs w dep excluding prompt ds [] ignored")
    case (Inl q)
    then show ?thesis using assms(1) Inr spec by (simp add: resolvedep_def)
  next
    case inr: (Inr st)
    obtain providers ig where st: "st = (providers, ig)" by fastforce
    have "p \<in> set providers"
      using assms(1) Inr inr st by (auto simp: resolvedep_def Let_def nat_less_iff intro!: nth_mem split: if_splits)
    then show ?thesis using spec inr st by auto
  qed
qed

section \<open>Facts about dependency strings\<close>

definition has_delim :: "string \<Rightarrow> bool" where
  "has_delim s \<longleftrightarrow> (\<exists>u v. s = u @ '': '' @ v)"

lemma has_delim_Cons:
  "has_delim (c # s) \<longleftrightarrow> (c = CHR '':'' \<and> s \<noteq> [] \<and> hd s = CHR '' '') \<or> has_delim s"
proof -
  have "(\<exists>u v. c # s = u @ '': '' @ v) \<longleftrightarrow> (\<exists>v. c # s = '': '' @ v) \<or> (\<exists>u v. s = u @ '': '' @ v)"
  proof
    assume "\<exists>u v. c # s = u @ '': '' @ v"
    then obtain u v where "c # s = u @ '': '' @ v" by blast
    then show "(\<exists>v. c # s = '': '' @ v) \<or> (\<exists>u v. s = u @ '': '' @ v)" by (cases u) auto
  next
    assume "(\<exists>v. c # s = '': '' @ v) \<or> (\<exists>u v. s = u @ '': '' @ v)"
    then show "\<exists>u v. c # s = u @ '': '' @ v" by (metis append_Cons append_Nil)
  qed
  then show ?thesis by (cases s) (auto simp: has_delim_def)
qed

lemma has_delim_Nil [simp]: "\<not> has_delim []"
  by (simp add: has_delim_def)

lemma split_desc_append: "split_desc s = (a, b) \<Longrightarrow> a @ b = s"
  by (induction s arbitrary: a b) (auto simp: Let_def split: if_splits prod.splits)

lemma split_desc_head: "split_desc s = (a, b) \<Longrightarrow> b \<noteq> [] \<Longrightarrow> b = '': '' @ drop 2 b"
proof (induction s arbitrary: a b)
  case (Cons c s)
  then show ?case by (cases s) (auto simp: Let_def split: if_splits prod.splits)
qed simp

lemma split_desc_none: "\<not> has_delim s \<Longrightarrow> split_desc s = (s, [])"
  by (induction s) (simp_all add: has_delim_Cons)

lemma split_desc_delim: "\<not> has_delim s \<Longrightarrow> split_desc (s @ '': '' @ d) = (s, '': '' @ d)"
proof (induction s)
  case (Cons c s)
  then have *: "\<not> has_delim s" "\<not> (c = CHR '':'' \<and> s \<noteq> [] \<and> hd s = CHR '' '')"
    by (auto simp: has_delim_Cons)
  then have "\<not> (c = CHR '':'' \<and> s @ '': '' @ d \<noteq> [] \<and> hd (s @ '': '' @ d) = CHR '' '')"
    by (cases s) auto
  then show ?case using Cons.IH [OF *(1)] by simp
qed simp

lemma split_char_join: "split_char c s = Some (a, b) \<Longrightarrow> a @ b = s \<and> b = c # tl b"
  by (induction s arbitrary: a b) (auto simp: split_char_def split: if_splits)

lemma split_char_here: "c \<notin> set a \<Longrightarrow> split_char c (a @ c # b) = Some (a, c # b)"
  by (auto simp: split_char_def takeWhile_append dropWhile_append)

lemma split_char_none: "c \<notin> set s \<Longrightarrow> split_char c s = None"
  by (simp add: split_char_def)

lemma dep_operator_join:
  assumes "dep_operator s = (m, name, ver)"
  shows "s = name @ dep_opr m @ (case ver of None \<Rightarrow> [] | Some v \<Rightarrow> v) \<and> (ver = None \<longleftrightarrow> m = ALPM_DEP_MOD_ANY)"
proof -
  have two: "ptr = c # CHR ''='' # drop 2 ptr" if "ptr = c # tl ptr" "tl ptr \<noteq> []" "hd (tl ptr) = CHR ''=''" for ptr c
    using that by (metis drop0 drop_Suc numeral_2_eq_2 list.collapse)
  show ?thesis using assms
    by (auto simp: dep_operator_def dep_opr_def split: option.splits prod.splits if_splits
        dest!: split_char_join intro: two)
qed

text \<open>What the parts of a dependency must be for its string to be read back as it was.\<close>

definition printable_dep :: "alpm_depend_t \<Rightarrow> bool" where
  "printable_dep d \<longleftrightarrow>
     dep_hashed d \<and> set (dname d) \<inter> set ''<>='' = {} \<and>
     (case (dmod d, dversion d) of
        (ALPM_DEP_MOD_ANY, v) \<Rightarrow> v = None \<and> \<not> has_delim (dname d)
      | (m, None) \<Rightarrow> False
      | (m, Some v) \<Rightarrow>
          \<not> has_delim (dname d @ dep_opr m @ v) \<and>
          (m = ALPM_DEP_MOD_LT \<or> m = ALPM_DEP_MOD_GT \<longrightarrow> take 1 v \<noteq> ''='') \<and>
          (m = ALPM_DEP_MOD_EQ \<or> m = ALPM_DEP_MOD_GE \<or> m = ALPM_DEP_MOD_GT \<longrightarrow> CHR ''<'' \<notin> set v) \<and>
          (m = ALPM_DEP_MOD_EQ \<longrightarrow> CHR ''>'' \<notin> set v))"

lemma dep_operator_printed:
  assumes "set n \<inter> set ''<>='' = {}"
  shows "dep_operator n = (ALPM_DEP_MOD_ANY, n, None)"
    "dep_operator (n @ ''<='' @ v) = (ALPM_DEP_MOD_LE, n, Some v)"
    "take 1 v \<noteq> ''='' \<Longrightarrow> dep_operator (n @ ''<'' @ v) = (ALPM_DEP_MOD_LT, n, Some v)"
    "CHR ''<'' \<notin> set v \<Longrightarrow> dep_operator (n @ ''>='' @ v) = (ALPM_DEP_MOD_GE, n, Some v)"
    "CHR ''<'' \<notin> set v \<Longrightarrow> take 1 v \<noteq> ''='' \<Longrightarrow> dep_operator (n @ ''>'' @ v) = (ALPM_DEP_MOD_GT, n, Some v)"
    "CHR ''<'' \<notin> set v \<Longrightarrow> CHR ''>'' \<notin> set v \<Longrightarrow> dep_operator (n @ ''='' @ v) = (ALPM_DEP_MOD_EQ, n, Some v)"
proof -
  have n: "CHR ''<'' \<notin> set n" "CHR ''>'' \<notin> set n" "CHR ''='' \<notin> set n" using assms by auto
  have hd: "\<not> (v \<noteq> [] \<and> hd v = CHR ''='')" if "take 1 v \<noteq> ''=''" using that by (cases v) auto
  show "dep_operator n = (ALPM_DEP_MOD_ANY, n, None)" using n by (simp add: dep_operator_def split_char_none)
  show "dep_operator (n @ ''<='' @ v) = (ALPM_DEP_MOD_LE, n, Some v)"
    using n by (simp add: dep_operator_def split_char_here)
  show "dep_operator (n @ ''<'' @ v) = (ALPM_DEP_MOD_LT, n, Some v)" if "take 1 v \<noteq> ''=''"
    using n hd [OF that] by (auto simp: dep_operator_def split_char_here)
  show "dep_operator (n @ ''>='' @ v) = (ALPM_DEP_MOD_GE, n, Some v)" if "CHR ''<'' \<notin> set v"
    using n that by (simp add: dep_operator_def split_char_here split_char_none)
  show "dep_operator (n @ ''>'' @ v) = (ALPM_DEP_MOD_GT, n, Some v)" if "CHR ''<'' \<notin> set v" "take 1 v \<noteq> ''=''"
    using n that(1) hd [OF that(2)] by (auto simp: dep_operator_def split_char_here split_char_none)
  show "dep_operator (n @ ''='' @ v) = (ALPM_DEP_MOD_EQ, n, Some v)" if "CHR ''<'' \<notin> set v" "CHR ''>'' \<notin> set v"
    using n that by (simp add: dep_operator_def split_char_here split_char_none)
qed

section \<open>Properties of dependency strings\<close>

text \<open>Printing a parsed dependency gives back the string, whatever the string is.\<close>

theorem dep_parse_print:
  "alpm_dep_compute_string (alpm_dep_from_string (Some s)) = Some s"
proof -
  obtain part d where pd: "split_desc s = (part, d)" by fastforce
  obtain m name ver where op: "dep_operator part = (m, name, ver)" by (cases "dep_operator part") auto
  have parsed: "alpm_dep_from_string (Some s) = Some \<lparr>dname = name, dversion = ver,
      ddesc = (if d \<noteq> [] then Some (drop 2 d) else None), dname_hash = alpm_hash_sdbm (Some name), dmod = m\<rparr>"
    by (simp add: alpm_dep_from_string_def pd op)
  have s: "s = name @ dep_opr m @ (case ver of None \<Rightarrow> [] | Some v \<Rightarrow> v) @ d"
    "ver = None \<longleftrightarrow> m = ALPM_DEP_MOD_ANY"
    using dep_operator_join [OF op] split_desc_append [OF pd] by auto
  show ?thesis
  proof (cases "d = []")
    case True
    then have "alpm_dep_compute_string (alpm_dep_from_string (Some s)) =
        Some (name @ dep_opr m @ (case ver of None \<Rightarrow> [] | Some v \<Rightarrow> v))"
      using s(2) unfolding parsed by (auto simp: alpm_dep_compute_string_def)
    then show ?thesis using s(1) True by simp
  next
    case False
    then have d: "d = '': '' @ drop 2 d" by (rule split_desc_head [OF pd])
    have "alpm_dep_compute_string (alpm_dep_from_string (Some s)) =
        Some (name @ dep_opr m @ (case ver of None \<Rightarrow> [] | Some v \<Rightarrow> v) @ '': '' @ drop 2 d)"
      using False s(2) unfolding parsed by (auto simp: alpm_dep_compute_string_def)
    then show ?thesis using s(1) d by simp
  qed
qed

lemma dep_printed:
  assumes "printable_dep d"
  shows "alpm_dep_from_string (alpm_dep_compute_string (Some d)) = Some d"
proof -
  have name: "set (dname d) \<inter> set ''<>='' = {}" using assms by (simp add: printable_dep_def)
  define x where "x = dname d @ dep_opr (dmod d) @ (case dversion d of None \<Rightarrow> [] | Some v \<Rightarrow> v)"
  have op: "dep_operator x = (dmod d, dname d, dversion d)"
    using assms dep_operator_printed [OF name]
    by (auto simp: printable_dep_def x_def dep_opr_def split: alpm_depmod_t.splits option.splits)
  have "\<not> has_delim x"
    using assms by (auto simp: printable_dep_def x_def dep_opr_def split: alpm_depmod_t.splits option.splits)
  then have split: "split_desc (x @ (case ddesc d of None \<Rightarrow> [] | Some y \<Rightarrow> '': '' @ y)) =
      (x, case ddesc d of None \<Rightarrow> [] | Some y \<Rightarrow> '': '' @ y)"
    using split_desc_none split_desc_delim by (cases "ddesc d") simp_all
  have "dmod d = ALPM_DEP_MOD_ANY \<Longrightarrow> dversion d = None" using assms by (simp add: printable_dep_def)
  then have "alpm_dep_compute_string (Some d) = Some (x @ (case ddesc d of None \<Rightarrow> [] | Some y \<Rightarrow> '': '' @ y))"
    by (auto simp: alpm_dep_compute_string_def x_def Let_def split: option.splits)
  moreover have "dname_hash d = alpm_hash_sdbm (Some (dname d))"
    using assms by (simp add: printable_dep_def dep_hashed_def)
  ultimately show ?thesis
    using op split by (auto simp: alpm_dep_from_string_def split: option.splits)
qed

text \<open>
  Parsing a printed dependency gives back the dependency, if its name is free of comparators,
  its version does not start a longer comparator or hold one that is looked for first, and
  neither holds the delimiter of the description.
\<close>

theorem dep_print_parse:
  assumes "printable_dep d"
  shows "alpm_dep_from_string (alpm_dep_compute_string (Some d)) = Some d"
  by (rule dep_printed [OF assms])

theorem dep_print_parse_witness:
  "alpm_dep_from_string (alpm_dep_compute_string (Some
     \<lparr>dname = ''glibc'', dversion = Some ''2.26-1'', ddesc = Some ''the C library'',
      dname_hash = name_hash_of ''glibc'', dmod = ALPM_DEP_MOD_GE\<rparr>)) =
   Some \<lparr>dname = ''glibc'', dversion = Some ''2.26-1'', ddesc = Some ''the C library'',
      dname_hash = name_hash_of ''glibc'', dmod = ALPM_DEP_MOD_GE\<rparr>"
proof (rule dep_print_parse)
  have "\<not> has_delim ''glibc>=2.26-1''" by (simp add: has_delim_Cons)
  then show "printable_dep \<lparr>dname = ''glibc'', dversion = Some ''2.26-1'', ddesc = Some ''the C library'',
      dname_hash = name_hash_of ''glibc'', dmod = ALPM_DEP_MOD_GE\<rparr>"
    by (simp add: printable_dep_def dep_hashed_def dep_opr_def)
qed

text \<open>
  A provision without a version never satisfies a dependency on a version, nor does one whose
  name differs: of the provisions only those with \<open>name=version\<close> count, and their version
  must be in the asked relation to the asked one.
\<close>

theorem provision_satisfies:
  "alpm_depcmp_provides dep provisions \<longleftrightarrow>
    (\<exists>p\<in>set provisions. dname_hash p = dname_hash dep \<and> dname p = dname dep \<and>
       (case dmod dep of
          ALPM_DEP_MOD_ANY \<Rightarrow> True
        | ALPM_DEP_MOD_EQ \<Rightarrow> dmod p = ALPM_DEP_MOD_EQ \<and> alpm_pkg_vercmp (dversion p) (dversion dep) = 0
        | ALPM_DEP_MOD_GE \<Rightarrow> dmod p = ALPM_DEP_MOD_EQ \<and> alpm_pkg_vercmp (dversion p) (dversion dep) \<ge> 0
        | ALPM_DEP_MOD_LE \<Rightarrow> dmod p = ALPM_DEP_MOD_EQ \<and> alpm_pkg_vercmp (dversion p) (dversion dep) \<le> 0
        | ALPM_DEP_MOD_GT \<Rightarrow> dmod p = ALPM_DEP_MOD_EQ \<and> alpm_pkg_vercmp (dversion p) (dversion dep) > 0
        | ALPM_DEP_MOD_LT \<Rightarrow> dmod p = ALPM_DEP_MOD_EQ \<and> alpm_pkg_vercmp (dversion p) (dversion dep) < 0))"
  unfolding depcmp_provides_iff
  by (intro bex_cong HOL.refl) (cases "dmod dep"; auto simp: dep_vercmp_def Let_def)

section \<open>Properties of the check\<close>

text \<open>A small system: package 1 depends on package 0.\<close>

abbreviation on_lib :: alpm_depend_t where
  "on_lib \<equiv> \<lparr>dname = ''lib'', dversion = None, ddesc = None, dname_hash = name_hash_of ''lib'', dmod = ALPM_DEP_MOD_ANY\<rparr>"

definition pair_name :: "pkgref \<Rightarrow> string" where
  "pair_name p = (if p = 0 then ''lib'' else ''app'')"

definition pair_pkgs :: pkgs where
  "pair_pkgs p =
     alpm_pkg_new\<lparr>pname := pair_name p, name_hash := name_hash_of (pair_name p), version := Some ''1'',
       depends := (if p = 0 then [] else [on_lib])\<rparr>"

lemma pair_facts [simp]:
  "hashed (pair_pkgs p)" "pname (pair_pkgs p) = pair_name p" "depends (pair_pkgs p) = (if p = 0 then [] else [on_lib])"
  "alpm_depcmp (pair_pkgs p) on_lib \<longleftrightarrow> p = 0" "preason (pair_pkgs p) = ALPM_PKG_REASON_EXPLICIT"
  by (auto simp: hashed_def pair_pkgs_def pair_name_def alpm_depcmp_def alpm_depcmp_literal_def dep_vercmp_def
      alpm_pkg_new_def)

lemma checkdeps_closed_iff:
  assumes "\<forall>p\<in>set rem \<union> set upgrade. hashed (ps p)" "closed h ps pkglist"
  shows "alpm_checkdeps h ps pkglist rem upgrade True = [] \<longleftrightarrow> closed h ps (after_change ps pkglist rem upgrade)"
proof -
  have *: "(\<exists>q\<in>set pkglist. \<not> untouched ps rem upgrade q \<and> alpm_depcmp (ps q) (checked_dep (no_dep_version h) d)) \<or>
      satisfiable h ps (after_change ps pkglist rem upgrade) (checked_dep (no_dep_version h) d)"
    if "p \<in> set pkglist" "d \<in> set (depends (ps p))" for p d
    using assms(2) that by (fastforce simp: closed_def satisfiable_def after_change_def)
  have kept: "(\<forall>p\<in>set (filter (untouched ps rem upgrade) pkglist). \<forall>d\<in>set (depends (ps p)).
      (\<exists>q\<in>set pkglist. \<not> untouched ps rem upgrade q \<and> alpm_depcmp (ps q) (checked_dep (no_dep_version h) d)) \<longrightarrow>
      satisfiable h ps (after_change ps pkglist rem upgrade) (checked_dep (no_dep_version h) d)) \<longleftrightarrow>
    (\<forall>p\<in>set (filter (untouched ps rem upgrade) pkglist). \<forall>d\<in>set (depends (ps p)).
      satisfiable h ps (after_change ps pkglist rem upgrade) (checked_dep (no_dep_version h) d))"
    using * by (intro ball_cong HOL.refl) auto
  have changed: "set (after_change ps pkglist rem upgrade) = set upgrade \<union> set (filter (untouched ps rem upgrade) pkglist)"
    by (simp add: after_change_def)
  show ?thesis
    unfolding checkdeps_Nil [OF assms(1)] closed_def changed ball_Un by (simp only: kept)
qed

text \<open>C26: 
  On a system where every dependency is satisfied, the check of a change reports nothing
  exactly if every dependency is satisfied after the change too: no breakage is missed and
  none is made up.
\<close>

theorem checkdeps_closed:
  assumes "\<forall>p\<in>set rem \<union> set upgrade. hashed (ps p)" "closed h ps pkglist"
  shows "alpm_checkdeps h ps pkglist rem upgrade True = [] \<longleftrightarrow> closed h ps (after_change ps pkglist rem upgrade)"
  by (rule checkdeps_closed_iff [OF assms])

theorem checkdeps_closed_witness:
  "alpm_checkdeps alpm_handle_new pair_pkgs [0, 1] [0] [] True \<noteq> [] \<and>
   alpm_checkdeps alpm_handle_new pair_pkgs [0, 1] [1] [] True = []"
proof -
  have h: "\<forall>p\<in>set rem \<union> set []. hashed (pair_pkgs p)" for rem by simp
  have v: "checked_dep (no_dep_version alpm_handle_new) d = d" for d
    by (simp add: no_dep_version_def alpm_handle_new_def checked_dep_def)
  have assumed: "assumeinstalled alpm_handle_new = []" by (simp add: alpm_handle_new_def)
  have c: "closed alpm_handle_new pair_pkgs [0, 1]" by (simp add: closed_def satisfiable_def v)
  have "\<not> closed alpm_handle_new pair_pkgs (after_change pair_pkgs [0, 1] [0] [])"
    "closed alpm_handle_new pair_pkgs (after_change pair_pkgs [0, 1] [1] [])"
    by (simp_all add: closed_def satisfiable_def after_change_def untouched_def v pair_name_def assumed)
  then show ?thesis
    using checkdeps_closed [OF h c, of "[0]"] checkdeps_closed [OF h c, of "[1]"] by simp
qed

text \<open>The check without reverse dependencies reports exactly what a new package lacks after the change.\<close>

theorem checkdeps_reports:
  assumes "\<forall>p\<in>set rem \<union> set upgrade. hashed (ps p)"
  shows "miss \<in> set (alpm_checkdeps h ps pkglist rem upgrade False) \<longleftrightarrow>
    (\<exists>p\<in>set upgrade. \<exists>d\<in>set (depends (ps p)).
       miss = \<lparr>miss_target = pname (ps p), miss_depend = checked_dep (no_dep_version h) d, miss_causingpkg = None\<rparr> \<and>
       \<not> satisfiable h ps (after_change ps pkglist rem upgrade) (checked_dep (no_dep_version h) d))"
  unfolding checkdeps_forward [OF assms] by (simp add: depmiss_new_def)

theorem checkdeps_reports_witness:
  "\<lparr>miss_target = ''app'', miss_depend = on_lib, miss_causingpkg = None\<rparr> \<in>
     set (alpm_checkdeps alpm_handle_new pair_pkgs [] [] [1] False)"
proof -
  have "checked_dep (no_dep_version alpm_handle_new) d = d" "assumeinstalled alpm_handle_new = []" for d
    by (simp_all add: no_dep_version_def alpm_handle_new_def checked_dep_def)
  then show ?thesis
    using checkdeps_reports [of "[]" "[1]" pair_pkgs _ alpm_handle_new "[]"]
    by (simp add: satisfiable_def after_change_def pair_name_def)
qed

section \<open>Properties of unneeded dependencies\<close>

lemma dup_same_deps:
  "alpm_pkg_dup force_load pkg = (r, copy) \<Longrightarrow>
   pname copy = pname pkg \<and> name_hash copy = name_hash pkg \<and> version copy = version pkg \<and>
   provides copy = provides pkg \<and> depends copy = depends pkg \<and> preason copy = preason pkg"
  by (auto simp: alpm_pkg_dup_def Let_def)

lemma depends_on_dup:
  "alpm_pkg_dup force_load pkg = (r, copy) \<Longrightarrow> alpm_pkg_depends_on p copy = alpm_pkg_depends_on p pkg"
  using dup_same_deps [of force_load pkg r copy]
  by (simp add: depends_on_iff alpm_depcmp_def alpm_depcmp_literal_def)

lemma copy_targets_spec:
  assumes "copy_targets force_load w rem targs = (0, targs', w')" "\<forall>p\<in>set rem. p < next_ref w"
  shows "\<exists>new. targs' = targs @ new \<and> length new = length rem \<and>
    (\<forall>i<length rem. snd (alpm_pkg_dup force_load (wpkgs w (rem ! i))) = wpkgs w' (new ! i)) \<and>
    (\<forall>p<next_ref w. wpkgs w' p = wpkgs w p) \<and> wdbs w' = wdbs w \<and> handle w' = handle w"
  using assms
proof (induction rem arbitrary: w targs)
  case (Cons pkg rem)
  obtain r copy where dup: "alpm_pkg_dup force_load (wpkgs w pkg) = (r, copy)" by fastforce
  define w1 where "w1 = w\<lparr>wpkgs := (wpkgs w)(next_ref w := copy), next_ref := next_ref w + 1\<rparr>"
  have "copy_targets force_load w1 rem (targs @ [next_ref w]) = (0, targs', w')"
    using Cons.prems(1) dup by (auto simp: Let_def w1_def alpm_list_add_def split: if_splits)
  moreover have "\<forall>p\<in>set rem. p < next_ref w1" using Cons.prems(2) by (auto simp: w1_def)
  ultimately obtain new where new: "targs' = (targs @ [next_ref w]) @ new" "length new = length rem"
    "\<forall>i<length rem. snd (alpm_pkg_dup force_load (wpkgs w1 (rem ! i))) = wpkgs w' (new ! i)"
    "\<forall>p<next_ref w1. wpkgs w' p = wpkgs w1 p" "wdbs w' = wdbs w1" "handle w' = handle w1"
    using Cons.IH by blast
  have old: "wpkgs w1 p = wpkgs w p" if "p < next_ref w" for p using that by (simp add: w1_def)
  have copy: "wpkgs w' (next_ref w) = copy" using new(4) by (simp add: w1_def)
  have "targs' = targs @ (next_ref w # new)" "length (next_ref w # new) = length (pkg # rem)" using new by simp_all
  moreover have "\<forall>i<length (pkg # rem).
      snd (alpm_pkg_dup force_load (wpkgs w ((pkg # rem) ! i))) = wpkgs w' ((next_ref w # new) ! i)"
    using new(3) Cons.prems(2) old copy dup by (auto simp: nth_Cons split: nat.splits)
  moreover have "\<forall>p<next_ref w. wpkgs w' p = wpkgs w p" using new(4) old by (auto simp: w1_def)
  moreover have "wdbs w' = wdbs w" "handle w' = handle w" using new(5,6) by (simp_all add: w1_def)
  ultimately show ?case by blast
qed simp

lemma recursedeps_added:
  assumes "alpm_recursedeps force_load w (Some d) targs include_explicit = (0, targs', w')"
    and "distinct (map (\<lambda>p. pname (wpkgs w p)) (cached_pkgs w (Some d)))"
    and "\<forall>p\<in>set (cached_pkgs w (Some d)). p < next_ref w"
  shows "\<exists>new. targs' = targs @ new \<and>
    (\<forall>r\<in>set new. \<exists>q\<in>set (cached_pkgs w (Some d)).
       pname (wpkgs w' r) = pname (wpkgs w q) \<and> reached (wpkgs w) targs q \<and>
       pname (wpkgs w q) \<notin> pname ` wpkgs w ` set targs \<and>
       (include_explicit \<or> preason (wpkgs w q) \<noteq> ALPM_PKG_REASON_EXPLICIT)) \<and>
    (\<forall>p\<in>set (cached_pkgs w (Some d)). \<forall>r\<in>set new.
       pname (wpkgs w p) \<notin> pname ` wpkgs w ` set targs \<longrightarrow> pname (wpkgs w p) \<notin> pname ` wpkgs w' ` set new \<longrightarrow>
       \<not> alpm_pkg_depends_on (wpkgs w p) (wpkgs w' r))"
proof -
  let ?cache = "cached_pkgs w (Some d)" and ?ps = "wpkgs w"
  let ?rest = "filter (\<lambda>p. pname (?ps p) \<notin> pname ` ?ps ` set targs) ?cache"
  obtain rem keep where rk: "recursedeps_rem ?ps ?cache targs include_explicit = (rem, keep)" by fastforce
  note spec = recursedeps_rem_spec [OF assms(2) rk]
  have sets: "set rem \<union> set keep = set ?rest" by (metis spec(1) set_mset_mset set_mset_union)
  have copied: "copy_targets force_load w rem targs = (0, targs', w')"
    using assms(1) rk by (simp add: alpm_recursedeps_def)
  have "\<forall>p\<in>set rem. p < next_ref w" using sets assms(3) by auto
  from copy_targets_spec [OF copied this] obtain new where new: "targs' = targs @ new" "length new = length rem"
    "\<forall>i<length rem. snd (alpm_pkg_dup force_load (?ps (rem ! i))) = wpkgs w' (new ! i)" by blast
  have same: "pname (wpkgs w' (new ! i)) = pname (?ps (rem ! i))"
    "alpm_pkg_depends_on p (wpkgs w' (new ! i)) = alpm_pkg_depends_on p (?ps (rem ! i))" if "i < length rem" for i p
    using new(3) that dup_same_deps [of force_load "?ps (rem ! i)"] depends_on_dup [of force_load "?ps (rem ! i)"]
    by (metis prod.collapse)+
  have origin: "\<exists>q\<in>set rem. pname (wpkgs w' r) = pname (?ps q) \<and>
      (\<forall>p. alpm_pkg_depends_on p (wpkgs w' r) = alpm_pkg_depends_on p (?ps q))" if "r \<in> set new" for r
    using that same new(2) by (metis in_set_conv_nth)
  have copy: "pname (?ps q) \<in> pname ` wpkgs w' ` set new" if "q \<in> set rem" for q
    using that same(1) new(2) by (metis image_eqI in_set_conv_nth)
  have added: "\<forall>r\<in>set new. \<exists>q\<in>set ?cache. pname (wpkgs w' r) = pname (?ps q) \<and> reached ?ps targs q \<and>
      pname (?ps q) \<notin> pname ` ?ps ` set targs \<and>
      (include_explicit \<or> preason (?ps q) \<noteq> ALPM_PKG_REASON_EXPLICIT)"
    using origin sets spec(2) unfolding selected_ok_def by (smt (verit) UnCI filter_set mem_Collect_eq set_filter)
  have stay: "\<not> alpm_pkg_depends_on (?ps p) (wpkgs w' r)"
    if "p \<in> set ?cache" "r \<in> set new" "pname (?ps p) \<notin> pname ` ?ps ` set targs"
      "pname (?ps p) \<notin> pname ` wpkgs w' ` set new" for p r
  proof -
    have "p \<in> set rem \<union> set keep" using that(1,3) by (simp add: sets)
    moreover have "p \<notin> set rem" using that(4) copy by blast
    ultimately have "p \<in> set keep" by blast
    then show ?thesis using origin [OF that(2)] spec(3) by blast
  qed
  show ?thesis by (intro exI [of _ new] conjI ballI impI new(1) added [rule_format] stay)
qed

text \<open>C37: 
  Removing unneeded dependencies is safe: what is added to the targets are copies of installed
  packages that the targets depend on, directly or not; none of them was installed on purpose
  (unless that is asked for), and no installed package that stays depends on one of them.
\<close>

theorem recursedeps_safe:
  assumes "alpm_recursedeps force_load w (Some d) targs include_explicit = (0, targs', w')"
    and "distinct (map (\<lambda>p. pname (wpkgs w p)) (cached_pkgs w (Some d)))"
    and "\<forall>p\<in>set (cached_pkgs w (Some d)). p < next_ref w"
  shows "\<exists>new. targs' = targs @ new \<and>
    (\<forall>r\<in>set new. \<exists>q\<in>set (cached_pkgs w (Some d)).
       pname (wpkgs w' r) = pname (wpkgs w q) \<and> reached (wpkgs w) targs q \<and>
       pname (wpkgs w q) \<notin> pname ` wpkgs w ` set targs \<and>
       (include_explicit \<or> preason (wpkgs w q) \<noteq> ALPM_PKG_REASON_EXPLICIT)) \<and>
    (\<forall>p\<in>set (cached_pkgs w (Some d)). \<forall>r\<in>set new.
       pname (wpkgs w p) \<notin> pname ` wpkgs w ` set targs \<longrightarrow> pname (wpkgs w p) \<notin> pname ` wpkgs w' ` set new \<longrightarrow>
       \<not> alpm_pkg_depends_on (wpkgs w p) (wpkgs w' r))"
  by (rule recursedeps_added [OF assms])

text \<open>The small system as a world, its packages installed.\<close>

definition pair_world :: alpm_world where
  "pair_world =
     \<lparr>handle = alpm_handle_new\<lparr>db_local := Some 0\<rparr>,
      wdbs = \<lambda>_. (alpm_db_new ''local'' True)
        \<lparr>pkgcache := Some \<lparr>hash_table = [], hlist = [0, 1], buckets = 0, entries = 2, limit = 0\<rparr>,
         status := DB_STATUS_VALID OR DB_STATUS_PKGCACHE OR DB_STATUS_LOCAL\<rparr>,
      wpkgs = pair_pkgs, next_ref = 2\<rparr>"

lemma pair_world_facts [simp]:
  "wpkgs pair_world = pair_pkgs" "next_ref pair_world = 2" "cached_pkgs pair_world (Some 0) = [0, 1]"
  by (simp_all add: cached_pkgs_def pair_world_def has_status_def)

theorem recursedeps_safe_witness:
  "\<exists>w'. alpm_recursedeps (\<lambda>_. False) pair_world (Some 0) [1] True = (0, [1, 2], w') \<and>
    pname (wpkgs w' 2) = ''lib''"
proof -
  have on: "alpm_pkg_depends_on (pair_pkgs p) (pair_pkgs q) \<longleftrightarrow> p \<noteq> 0 \<and> q = 0" for p q
    by (simp add: depends_on_iff)
  have "recursedeps_rem pair_pkgs [0, 1] [1] True = ([0], [])"
    by (simp add: recursedeps_rem_def select_depends_filter on pkg_cmp_zero pair_name_def recurse_rem.simps
        recurse_keep.simps)
  then obtain w' where w': "alpm_recursedeps (\<lambda>_. False) pair_world (Some 0) [1] True = (0, [1, 2], w')"
    by (simp add: alpm_recursedeps_def alpm_pkg_dup_def alpm_list_add_def)
  have names: "distinct (map (\<lambda>p. pname (wpkgs pair_world p)) (cached_pkgs pair_world (Some 0)))"
    and refs: "\<forall>p\<in>set (cached_pkgs pair_world (Some 0)). p < next_ref pair_world"
    by (simp_all add: pair_name_def)
  from recursedeps_safe [OF w' names refs] have "pname (wpkgs w' 2) = ''lib''"
    by (elim exE conjE) (simp add: pair_name_def)
  then show ?thesis using w' by blast
qed

section \<open>Properties of resolving\<close>

text \<open>C40: 
  What is chosen for a dependency satisfies it, comes from a database in use, is not excluded
  by name, and is ignored only if the user was asked and agreed.
\<close>

theorem resolvedep_sound:
  assumes "resolvedep fnm qs w dep ds excluding prompt = Inr p" "\<forall>d\<in>set ds. loaded w (Some d)"
  shows "alpm_depcmp (wpkgs w p) dep \<and>
    (\<exists>d\<in>set ds. usable_db w d \<and> p \<in> set (cached_pkgs w (Some d))) \<and>
    alpm_pkg_find (wpkgs w) excluding (Some (pname (wpkgs w p))) = None \<and>
    (alpm_pkg_should_ignore fnm (handle w) (wpkgs w p) \<longrightarrow> prompt \<and> q_install_ignorepkg qs p)"
  using resolvedep_resolved [OF assms] by (auto simp: resolved_by_def passed_over_def)

text \<open>The small system with package 0 in a sync database only.\<close>

definition sync_world :: "alpm_pkghash_t \<Rightarrow> alpm_world" where
  "sync_world h =
     \<lparr>handle = alpm_handle_new\<lparr>dbs_sync := [5]\<rparr>,
      wdbs = \<lambda>_. (alpm_db_new ''core'' False)\<lparr>pkgcache := Some h, status := DB_STATUS_VALID OR DB_STATUS_PKGCACHE\<rparr>,
      wpkgs = pair_pkgs, next_ref = 2\<rparr>"

lemma one_cache:
  assumes "hashed (ps p)"
  shows "\<exists>h. pkghash_inv ps h \<and> contents ps h = [pname (ps p) \<mapsto> p] \<and> hlist h = [p]"
proof -
  obtain h where h: "alpm_pkghash_create 2 = Some h" by (simp add: alpm_pkghash_create_def prime_list_def)
  note c = create_inv [OF h, of ps] create_spec [OF h]
  show ?thesis using add_total [of ps h p] c assms by auto
qed

lemma lib_cache: "\<exists>h. pkghash_inv pair_pkgs h \<and> contents pair_pkgs h = [''lib'' \<mapsto> 0] \<and> hlist h = [0]"
  using one_cache [of pair_pkgs 0] by (simp add: pair_name_def)

lemma sync_world_facts:
  assumes "pkghash_inv pair_pkgs h" "contents pair_pkgs h = [''lib'' \<mapsto> 0]" "hlist h = [0]"
  shows "loaded (sync_world h) (Some 5)" "usable_db (sync_world h) 5" "cached_pkgs (sync_world h) (Some 5) = [0]"
    "cached_pkg (sync_world h) (Some 5) ''lib'' = Some 0" "wpkgs (sync_world h) = pair_pkgs"
    "dbs_sync (handle (sync_world h)) = [5]" "db_local (handle (sync_world h)) = None"
    "alpm_pkg_should_ignore fnm (handle (sync_world h)) p = False"
    "no_dep_version (handle (sync_world h)) = False" "assumeinstalled (handle (sync_world h)) = []"
  using assms find_contents [OF assms(1)]
  by (simp_all add: sync_world_def loaded_def has_status_def usable_db_def alpm_db_new_def cached_pkgs_def cached_pkg_def
      alpm_pkg_should_ignore_def alpm_handle_new_def no_dep_version_def)

lemma sync_world_resolve:
  assumes "pkghash_inv pair_pkgs h" "contents pair_pkgs h = [''lib'' \<mapsto> 0]" "hlist h = [0]"
    "alpm_pkg_find pair_pkgs excluding (Some ''lib'') = None"
  shows "resolvedep fnm qs (sync_world h) on_lib [5] excluding prompt = Inr 0"
proof -
  have "alpm_depcmp_literal (pair_pkgs 0) on_lib"
    by (simp add: alpm_depcmp_literal_def pair_pkgs_def pair_name_def dep_vercmp_def)
  then show ?thesis
    using assms(4) by (simp add: resolvedep_def sync_world_facts [OF assms(1-3)] passed_over_def pair_name_def)
qed

theorem resolvedep_sound_witness:
  "\<exists>h. resolvedep (\<lambda>_ _. False) no_questions (sync_world h) on_lib [5] [] False = Inr 0 \<and>
    0 \<in> set (cached_pkgs (sync_world h) (Some 5))"
proof -
  obtain h where h: "pkghash_inv pair_pkgs h" "contents pair_pkgs h = [''lib'' \<mapsto> 0]" "hlist h = [0]"
    using lib_cache by blast
  have r: "resolvedep (\<lambda>_ _. False) no_questions (sync_world h) on_lib [5] [] False = Inr 0"
    by (rule sync_world_resolve [OF h]) (simp add: alpm_pkg_find_def)
  then show ?thesis using resolvedep_sound [OF r] sync_world_facts(1) [OF h] by auto
qed

text \<open>The packages a resolution can put on its list, and what it relies on.\<close>

definition candidates :: "alpm_world \<Rightarrow> pkgref list \<Rightarrow> pkgref set" where
  "candidates w preferred = set preferred \<union> (\<Union>d\<in>set (dbs_sync (handle w)). set (cached_pkgs w (Some d)))"

definition resolvable :: "alpm_world \<Rightarrow> pkgref list \<Rightarrow> bool" where
  "resolvable w preferred \<longleftrightarrow>
     (\<forall>d\<in>set (dbs_sync (handle w)). loaded w (Some d)) \<and> loaded w (db_local (handle w)) \<and>
     (\<forall>p\<in>set preferred. hashed (wpkgs w p))"

lemma candidates_hashed: "resolvable w preferred \<Longrightarrow> p \<in> candidates w preferred \<Longrightarrow> hashed (wpkgs w p)"
  by (auto simp: resolvable_def candidates_def dest: loaded_hashed)

lemma candidates_finite: "finite (candidates w preferred)"
  by (simp add: candidates_def)

text \<open>The satisfier that the loop goes on with.\<close>

abbreviation chosen ::
  "(string \<Rightarrow> string \<Rightarrow> bool) \<Rightarrow> alpm_questions \<Rightarrow> alpm_world \<Rightarrow> pkgref list \<Rightarrow> alpm_depend_t \<Rightarrow> pkgref list \<Rightarrow> pkgref option" where
  "chosen fnm qs w preferred dep packages \<equiv>
     (case find_dep_satisfier (wpkgs w) preferred dep of
        Some s \<Rightarrow> Some s
      | None \<Rightarrow> (case resolvedep fnm qs w dep (dbs_sync (handle w)) packages False of Inl _ \<Rightarrow> None | Inr s \<Rightarrow> Some s))"

lemma chosen_candidate:
  assumes "chosen fnm qs w preferred dep packages = Some s" "resolvable w preferred"
  shows "s \<in> candidates w preferred \<and> alpm_depcmp (wpkgs w s) dep \<and>
    (s \<in> set preferred \<or> alpm_pkg_find (wpkgs w) packages (Some (pname (wpkgs w s))) = None)"
  using assms find_sat_Some [of "wpkgs w" preferred dep s]
    resolvedep_resolved [of fnm qs w dep "dbs_sync (handle w)" packages False s]
  by (auto simp: candidates_def resolvable_def resolved_by_def split: option.splits sum.splits)

text \<open>Resolving ends: one more than the number of names it can choose from is enough fuel.\<close>

definition names_left :: "alpm_world \<Rightarrow> pkgref list \<Rightarrow> pkgref list \<Rightarrow> string set" where
  "names_left w preferred packages = (\<lambda>p. pname (wpkgs w p)) ` candidates w preferred - (\<lambda>p. pname (wpkgs w p)) ` set packages"

definition grown :: "pkgref set \<Rightarrow> pkgref set \<Rightarrow> (int \<times> resolve_state) option \<Rightarrow> bool" where
  "grown A P res \<longleftrightarrow> (\<exists>r p d. res = Some (r, p, d) \<and> A \<subseteq> set p \<and> set p \<subseteq> P)"

lemma grown_mono: "grown B P res \<Longrightarrow> A \<subseteq> B \<Longrightarrow> grown A P res"
  by (fastforce simp: grown_def)

lemma resolve_loop_total:
  assumes "\<And>s pk d. s \<in> candidates w preferred \<Longrightarrow> A \<subseteq> set pk \<Longrightarrow> set pk \<subseteq> P \<Longrightarrow> grown (set pk) P (rec s (pk, d))"
    and "resolvable w preferred" "A \<subseteq> set pk" "set pk \<subseteq> P"
  shows "grown (set pk) P (resolve_loop rec fnm qs w preferred rem deps ret (pk, d))"
  using assms(3,4)
proof (induction deps arbitrary: ret pk d)
  case Nil
  then show ?case by (simp add: grown_def)
next
  case (Cons miss deps)
  let ?next = "case chosen fnm qs w preferred (miss_depend miss) pk of None \<Rightarrow> Some (-1, (pk, d)) | Some s \<Rightarrow> rec s (pk, d)"
  have "grown (set pk) P ?next"
  proof (cases "chosen fnm qs w preferred (miss_depend miss) pk")
    case None
    then show ?thesis using Cons.prems by (simp add: grown_def)
  next
    case (Some s)
    then show ?thesis using assms(1) chosen_candidate [OF Some assms(2)] Cons.prems by simp
  qed
  then obtain r p1 d1 where r: "?next = Some (r, p1, d1)" "set pk \<subseteq> set p1" "set p1 \<subseteq> P"
    unfolding grown_def by blast
  have "A \<subseteq> set p1" using r(2) Cons.prems(1) by blast
  then have 1: "grown (set pk) P (resolve_loop rec fnm qs w preferred rem deps ret' (p1, d'))" for ret' d'
    using Cons.IH r(2,3) grown_mono by blast
  have 2: "grown (set pk) P (resolve_loop rec fnm qs w preferred rem deps ret (pk, d))"
    using Cons.IH Cons.prems by blast
  show ?case unfolding resolve_loop.simps Let_def r(1) using 1 2 by (simp split: sum.split)
qed

lemma resolvedeps_enough:
  assumes "resolvable w preferred" "card (names_left w preferred packages) < fuel"
    and "pkg \<in> candidates w preferred" "set packages \<subseteq> P" "candidates w preferred \<subseteq> P"
    and "\<forall>p\<in>P. hashed (wpkgs w p)"
  shows "grown (set packages) P (alpm_resolvedeps fuel fnm qs w localpkgs preferred rem pkg (packages, data))"
  using assms(2-4)
proof (induction fuel arbitrary: pkg packages data)
  case (Suc fuel)
  let ?rec = "alpm_resolvedeps fuel fnm qs w localpkgs preferred rem"
  show ?case
  proof (cases "alpm_pkg_find (wpkgs w) packages (Some (pname (wpkgs w pkg)))")
    case None
    moreover have "\<forall>p\<in>set packages. hashed (wpkgs w p)" using Suc.prems(3) assms(6) by blast
    ultimately have new: "pname (wpkgs w pkg) \<notin> (\<lambda>p. pname (wpkgs w p)) ` set packages"
      using pkg_find_None [of packages "wpkgs w"] by (simp add: image_image)
    have fin: "finite (names_left w preferred q)" for q by (simp add: names_left_def candidates_finite)
    have "names_left w preferred (packages @ [pkg]) \<subset> names_left w preferred packages"
    proof
      show "names_left w preferred (packages @ [pkg]) \<subseteq> names_left w preferred packages"
        by (auto simp: names_left_def)
      have "pname (wpkgs w pkg) \<in> names_left w preferred packages" using new Suc.prems(2) by (simp add: names_left_def)
      moreover have "pname (wpkgs w pkg) \<notin> names_left w preferred (packages @ [pkg])" by (simp add: names_left_def)
      ultimately show "names_left w preferred (packages @ [pkg]) \<noteq> names_left w preferred packages" by metis
    qed
    from psubset_card_mono [OF fin this] have less: "card (names_left w preferred (packages @ [pkg])) < fuel"
      using Suc.prems(1) by linarith
    have step: "grown (set pk) P (?rec s (pk, d))"
      if "s \<in> candidates w preferred" "set (packages @ [pkg]) \<subseteq> set pk" "set pk \<subseteq> P" for s pk d
    proof -
      have "names_left w preferred pk \<subseteq> names_left w preferred (packages @ [pkg])"
        using that(2) by (auto simp: names_left_def)
      then have "card (names_left w preferred pk) < fuel" using less card_mono [OF fin] by (meson le_less_trans)
      then show ?thesis using Suc.IH that(1,3) by blast
    qed
    have "set (packages @ [pkg]) \<subseteq> P" using Suc.prems(2,3) assms(5) by auto
    from resolve_loop_total [OF step assms(1) order_refl this]
    have "grown (set (packages @ [pkg])) P (resolve_loop ?rec fnm qs w preferred rem
        (alpm_checkdeps (handle w) (wpkgs w) localpkgs rem [pkg] False) 0 (packages @ [pkg], data))" .
    then show ?thesis using None Suc.prems(3) by (auto simp: grown_def alpm_list_add_def)
  next
    case (Some q)
    then show ?thesis using Suc.prems(3) by (simp add: grown_def)
  qed
qed simp

text \<open>C38: 
  Resolving always returns, on cyclic dependencies too: the number of names among the
  candidates bounds the depth of the recursion. The list only grows, by candidates.
\<close>

theorem resolvedeps_total:
  assumes "resolvable w preferred" "pkg \<in> candidates w preferred" "\<forall>p\<in>set packages. hashed (wpkgs w p)"
    and "card ((\<lambda>p. pname (wpkgs w p)) ` candidates w preferred) < fuel"
  shows "\<exists>r packages' data'.
    alpm_resolvedeps fuel fnm qs w localpkgs preferred rem pkg (packages, data) = Some (r, packages', data') \<and>
    set packages \<subseteq> set packages' \<and> set packages' \<subseteq> set packages \<union> candidates w preferred"
proof -
  have less: "card (names_left w preferred packages) < fuel"
    unfolding names_left_def using card_mono [OF finite_imageI [OF candidates_finite] Diff_subset] assms(4)
    by (rule le_less_trans)
  have "\<forall>p\<in>set packages \<union> candidates w preferred. hashed (wpkgs w p)"
    using assms(3) candidates_hashed [OF assms(1)] by auto
  from resolvedeps_enough [OF assms(1) less assms(2) Un_upper1 Un_upper2 this]
  show ?thesis unfolding grown_def by blast
qed

lemma sync_world_resolvable:
  assumes "pkghash_inv pair_pkgs h" "contents pair_pkgs h = [''lib'' \<mapsto> 0]" "hlist h = [0]"
  shows "resolvable (sync_world h) [9]" "candidates (sync_world h) [9] = {0, 9}"
  using sync_world_facts [OF assms] by (auto simp: resolvable_def candidates_def loaded_def)

theorem resolvedeps_total_witness:
  "\<exists>h r packages data. candidates (sync_world h) [9] = {0, 9} \<and>
    alpm_resolvedeps 3 (\<lambda>_ _. False) no_questions (sync_world h) [] [9] [] 9 ([], []) = Some (r, packages, data)"
proof -
  obtain h where h: "pkghash_inv pair_pkgs h" "contents pair_pkgs h = [''lib'' \<mapsto> 0]" "hlist h = [0]"
    using lib_cache by blast
  note res = sync_world_resolvable [OF h]
  have "card ((\<lambda>p. pname (wpkgs (sync_world h) p)) ` candidates (sync_world h) [9]) < 3"
    unfolding res by (simp add: card_insert_if)
  moreover have "9 \<in> candidates (sync_world h) [9]" by (simp add: res)
  ultimately have "\<exists>r packages' data'.
      alpm_resolvedeps 3 (\<lambda>_ _. False) no_questions (sync_world h) [] [9] [] 9 ([], []) = Some (r, packages', data') \<and>
      set [] \<subseteq> set packages' \<and> set packages' \<subseteq> set [] \<union> candidates (sync_world h) [9]"
    by (intro resolvedeps_total [OF res(1)]) simp_all
  then show ?thesis using res(2) by blast
qed

text \<open>
  How a dependency can be provided for: by a package on the list, by a preferred package the
  list has under the same name, or by an installed package that is not removed.
\<close>

definition provided_for :: "alpm_world \<Rightarrow> pkgref list \<Rightarrow> pkgref list \<Rightarrow> pkgref set \<Rightarrow> alpm_depend_t \<Rightarrow> bool" where
  "provided_for w preferred rem packages dep \<longleftrightarrow>
     (\<exists>q\<in>packages. alpm_depcmp (wpkgs w q) dep) \<or>
     (\<exists>q\<in>set preferred. alpm_depcmp (wpkgs w q) dep \<and> (\<exists>p\<in>packages. pname (wpkgs w p) = pname (wpkgs w q))) \<or>
     (\<exists>q\<in>set (cached_pkgs w (db_local (handle w))). alpm_depcmp (wpkgs w q) dep \<and>
        alpm_pkg_find (wpkgs w) rem (Some (pname (wpkgs w q))) = None)"

definition settled :: "alpm_world \<Rightarrow> pkgref list \<Rightarrow> pkgref list \<Rightarrow> pkgref list \<Rightarrow> pkgref set \<Rightarrow> pkgref \<Rightarrow> bool" where
  "settled w localpkgs preferred rem packages p \<longleftrightarrow>
     (\<forall>miss\<in>set (alpm_checkdeps (handle w) (wpkgs w) localpkgs rem [p] False).
        provided_for w preferred rem packages (miss_depend miss))"

lemma provided_for_mono: "provided_for w preferred rem A dep \<Longrightarrow> A \<subseteq> B \<Longrightarrow> provided_for w preferred rem B dep"
  unfolding provided_for_def by (meson subsetD)

lemma settled_mono: "settled w localpkgs preferred rem A p \<Longrightarrow> A \<subseteq> B \<Longrightarrow> settled w localpkgs preferred rem B p"
  unfolding settled_def using provided_for_mono by blast

text \<open>What a call and what the loop leave behind.\<close>

definition call_ok :: "alpm_world \<Rightarrow> pkgref list \<Rightarrow> pkgref list \<Rightarrow> pkgref list \<Rightarrow> pkgref \<Rightarrow> resolve_state \<Rightarrow> int \<Rightarrow> resolve_state \<Rightarrow> bool" where
  "call_ok w localpkgs preferred rem s st r st' \<longleftrightarrow>
     set (fst st) \<subseteq> set (fst st') \<and> length (snd st) \<le> length (snd st') \<and>
     (r \<noteq> 0 \<longrightarrow> fst st' = fst st \<and> length (snd st) < length (snd st')) \<and>
     (r = 0 \<longrightarrow> s \<in> set (fst st') \<or> (\<exists>q\<in>set (fst st). alpm_pkg_find (wpkgs w) (fst st) (Some (pname (wpkgs w s))) = Some q)) \<and>
     (\<forall>p\<in>set (fst st') - set (fst st). settled w localpkgs preferred rem (set (fst st')) p)"

lemma call_ok_provides:
  assumes "call_ok w localpkgs preferred rem s st 0 st'" "chosen fnm qs w preferred dep (fst st) = Some s"
    and "resolvable w preferred"
  shows "provided_for w preferred rem (set (fst st')) dep"
proof -
  note s = chosen_candidate [OF assms(2,3)]
  have sub: "set (fst st) \<subseteq> set (fst st')" using assms(1) by (simp add: call_ok_def)
  consider "s \<in> set (fst st')" | q where "alpm_pkg_find (wpkgs w) (fst st) (Some (pname (wpkgs w s))) = Some q"
    using assms(1) by (auto simp: call_ok_def)
  then show ?thesis
  proof cases
    case 1
    then show ?thesis using s unfolding provided_for_def by blast
  next
    case (2 q)
    then have "q \<in> set (fst st')" "pname (wpkgs w q) = pname (wpkgs w s)" using pkg_find_Some [OF 2] sub by auto
    moreover have "s \<in> set preferred" using s 2 by simp
    ultimately show ?thesis using s unfolding provided_for_def by blast
  qed
qed

lemma local_provides:
  assumes "resolvedep fnm qs w dep (case db_local (handle w) of None \<Rightarrow> [] | Some d \<Rightarrow> [d]) rem False = Inr q"
    and "resolvable w preferred"
  shows "provided_for w preferred rem A dep"
  using resolvedep_resolved [OF assms(1)] assms(2)
  by (auto simp: resolvable_def resolved_by_def provided_for_def split: option.splits)

lemma resolve_loop_Cons:
  "resolve_loop rec fnm qs w preferred rem (miss # deps) ret (pk, d) =
    (if find_dep_satisfier (wpkgs w) pk (miss_depend miss) \<noteq> None
     then resolve_loop rec fnm qs w preferred rem deps ret (pk, d)
     else
       (case (case chosen fnm qs w preferred (miss_depend miss) pk of None \<Rightarrow> Some (-1, (pk, d)) | Some s \<Rightarrow> rec s (pk, d)) of
          None \<Rightarrow> None
        | Some (r, (p1, d1)) \<Rightarrow>
            if r = 0 then resolve_loop rec fnm qs w preferred rem deps ret (p1, d1)
            else
              (case resolvedep fnm qs w (miss_depend miss)
                  (case db_local (handle w) of None \<Rightarrow> [] | Some d \<Rightarrow> [d]) rem False of
                 Inr _ \<Rightarrow> resolve_loop rec fnm qs w preferred rem deps ret (p1, d1)
               | Inl _ \<Rightarrow> resolve_loop rec fnm qs w preferred rem deps (-1) (p1, d1 @ [miss]))))"
  unfolding resolve_loop.simps Let_def alpm_list_add_def by (rule HOL.refl)

lemma resolve_loop_ok:
  assumes rec: "\<And>s st r st'. rec s st = Some (r, st') \<Longrightarrow> call_ok w localpkgs preferred rem s st r st'"
    and "resolvable w preferred"
  shows "resolve_loop rec fnm qs w preferred rem deps ret st = Some (r, st') \<Longrightarrow>
    set (fst st) \<subseteq> set (fst st') \<and> length (snd st) \<le> length (snd st') \<and> (ret \<noteq> 0 \<longrightarrow> r \<noteq> 0) \<and>
    (ret = 0 \<longrightarrow> r \<noteq> 0 \<longrightarrow> length (snd st) < length (snd st')) \<and>
    (\<forall>p\<in>set (fst st') - set (fst st). settled w localpkgs preferred rem (set (fst st')) p) \<and>
    (r = 0 \<longrightarrow> (\<forall>miss\<in>set deps. provided_for w preferred rem (set (fst st')) (miss_depend miss)))"
    (is "_ \<Longrightarrow> ?ok deps ret st")
proof (induction deps arbitrary: ret st)
  case (Cons miss deps)
  obtain pk d where st: "st = (pk, d)" by fastforce
  let ?dep = "miss_depend miss"
  show ?case
  proof (cases "find_dep_satisfier (wpkgs w) pk ?dep")
    case (Some q)
    then have "resolve_loop rec fnm qs w preferred rem deps ret st = Some (r, st')"
      using Cons.prems unfolding st resolve_loop_Cons by simp
    then have "?ok deps ret st" by (rule Cons.IH)
    moreover have "provided_for w preferred rem (set pk) ?dep" using find_sat_Some [OF Some] by (auto simp: provided_for_def)
    ultimately show ?thesis using provided_for_mono st by auto
  next
    case None
    let ?next = "case chosen fnm qs w preferred ?dep pk of None \<Rightarrow> Some (-1, st) | Some s \<Rightarrow> rec s st"
    obtain r1 p1 d1 where step: "?next = Some (r1, p1, d1)"
      using Cons.prems None unfolding st resolve_loop_Cons
      by (cases "case chosen fnm qs w preferred ?dep pk of None \<Rightarrow> Some (-1, (pk, d)) | Some s \<Rightarrow> rec s (pk, d)") auto
    have ok: "set pk \<subseteq> set p1" "length d \<le> length d1"
        "\<forall>p\<in>set p1 - set pk. settled w localpkgs preferred rem (set p1) p"
        "r1 = 0 \<longrightarrow> provided_for w preferred rem (set p1) ?dep"
    proof -
      have "set pk \<subseteq> set p1 \<and> length d \<le> length d1 \<and>
        (\<forall>p\<in>set p1 - set pk. settled w localpkgs preferred rem (set p1) p) \<and>
        (r1 = 0 \<longrightarrow> provided_for w preferred rem (set p1) ?dep)"
      proof (cases "chosen fnm qs w preferred ?dep pk")
        case None
        then show ?thesis using step st by simp
      next
        case (Some s)
        then have "rec s st = Some (r1, p1, d1)" using step by simp
        note ok = rec [OF this]
        have "r1 = 0 \<Longrightarrow> provided_for w preferred rem (set p1) ?dep"
          using call_ok_provides [of w localpkgs preferred rem s "(pk, d)" "(p1, d1)" fnm qs ?dep, unfolded fst_conv] ok Some assms(2) st
          by simp
        then show ?thesis using ok by (simp add: call_ok_def st)
      qed
      then show "set pk \<subseteq> set p1" "length d \<le> length d1"
        "\<forall>p\<in>set p1 - set pk. settled w localpkgs preferred rem (set p1) p"
        "r1 = 0 \<longrightarrow> provided_for w preferred rem (set p1) ?dep" by blast+
    qed
    have rest: "set pk \<subseteq> set (fst st') \<and> length d \<le> length (snd st') \<and> (ret \<noteq> 0 \<longrightarrow> r \<noteq> 0) \<and>
        (ret = 0 \<longrightarrow> r \<noteq> 0 \<longrightarrow> length d < length (snd st')) \<and>
        (\<forall>p\<in>set (fst st') - set pk. settled w localpkgs preferred rem (set (fst st')) p) \<and>
        (r = 0 \<longrightarrow> (\<forall>miss\<in>set (miss # deps). provided_for w preferred rem (set (fst st')) (miss_depend miss)))"
      if loop: "resolve_loop rec fnm qs w preferred rem deps ret' (p1, d') = Some (r, st')"
        and d': "length d1 \<le> length d'"
        and ret': "ret' = ret \<and> provided_for w preferred rem (set p1) ?dep \<or> ret' \<noteq> 0 \<and> length d1 < length d'" for ret' d'
    proof -
      have IH: "set p1 \<subseteq> set (fst st')" "length d' \<le> length (snd st')" "ret' \<noteq> 0 \<longrightarrow> r \<noteq> 0"
          "ret' = 0 \<longrightarrow> r \<noteq> 0 \<longrightarrow> length d' < length (snd st')"
          "\<forall>p\<in>set (fst st') - set p1. settled w localpkgs preferred rem (set (fst st')) p"
          "r = 0 \<longrightarrow> (\<forall>miss\<in>set deps. provided_for w preferred rem (set (fst st')) (miss_depend miss))"
        using Cons.IH [OF loop] by simp_all
      have "settled w localpkgs preferred rem (set (fst st')) p" if "p \<in> set (fst st') - set pk" for p
        using that IH(1,5) ok(3) settled_mono by blast
      moreover have "provided_for w preferred rem (set (fst st')) ?dep" if "r = 0"
        using ret' IH(1,3) that provided_for_mono by blast
      ultimately show ?thesis using ok(1,2) IH d' ret' by auto
    qed
    show ?thesis
    proof (cases "r1 = 0")
      case True
      then have "resolve_loop rec fnm qs w preferred rem deps ret (p1, d1) = Some (r, st')"
        using Cons.prems None step unfolding st resolve_loop_Cons by simp
      from rest [OF this order_refl] ok(4) True show ?thesis by (simp add: st)
    next
      case False
      show ?thesis
      proof (cases "resolvedep fnm qs w ?dep (case db_local (handle w) of None \<Rightarrow> [] | Some d \<Rightarrow> [d]) rem False")
        case (Inl e)
        then have "resolve_loop rec fnm qs w preferred rem deps (-1) (p1, d1 @ [miss]) = Some (r, st')"
          using Cons.prems None step False unfolding st resolve_loop_Cons by simp
        from rest [OF this] show ?thesis by (simp add: st)
      next
        case (Inr q)
        then have "resolve_loop rec fnm qs w preferred rem deps ret (p1, d1) = Some (r, st')"
          using Cons.prems None step False unfolding st resolve_loop_Cons by simp
        from rest [OF this order_refl] local_provides [OF Inr assms(2)] show ?thesis by (simp add: st)
      qed
    qed
  qed
qed simp

lemma resolvedeps_ok:
  assumes "resolvable w preferred"
  shows "alpm_resolvedeps fuel fnm qs w localpkgs preferred rem pkg st = Some (r, st') \<Longrightarrow>
    call_ok w localpkgs preferred rem pkg st r st'"
proof (induction fuel arbitrary: pkg st r st')
  case (Suc fuel)
  obtain pk d where st: "st = (pk, d)" by fastforce
  show ?case
  proof (cases "alpm_pkg_find (wpkgs w) pk (Some (pname (wpkgs w pkg)))")
    case (Some q)
    then show ?thesis using Suc.prems pkg_find_Some [OF Some] by (auto simp: st call_ok_def)
  next
    case None
    let ?deps = "alpm_checkdeps (handle w) (wpkgs w) localpkgs rem [pkg] False"
    obtain r1 p1 d1 where loop: "resolve_loop (alpm_resolvedeps fuel fnm qs w localpkgs preferred rem) fnm qs w preferred rem
        ?deps 0 (pk @ [pkg], d) = Some (r1, p1, d1)"
      and res: "r = r1" "st' = (if r1 \<noteq> 0 then pk else p1, d1)"
      using Suc.prems None by (auto simp: st alpm_list_add_def split: option.splits)
    note ok = resolve_loop_ok [OF Suc.IH assms loop, simplified]
    have "settled w localpkgs preferred rem (set p1) p" if "r1 = 0" "p \<in> set p1 - set pk" for p
      using ok that by (cases "p = pkg") (auto simp: settled_def)
    then show ?thesis using ok res by (auto simp: st call_ok_def)
  qed
qed simp

text \<open>C29: 
  Resolving is all or nothing. If it succeeds, the package is on the list (or one of its name
  was), and everything the new packages lack is provided for. If it fails, the list is as it
  was and something has been reported.
\<close>

theorem resolvedeps_all_or_nothing:
  assumes "resolvable w preferred"
    and "alpm_resolvedeps fuel fnm qs w localpkgs preferred rem pkg (packages, data) = Some (r, packages', data')"
  shows "if r = 0
    then set packages \<subseteq> set packages' \<and> pname (wpkgs w pkg) \<in> pname ` wpkgs w ` set packages' \<and>
      (\<forall>p\<in>set packages' - set packages.
         \<forall>miss\<in>set (alpm_checkdeps (handle w) (wpkgs w) localpkgs rem [p] False).
           provided_for w preferred rem (set packages') (miss_depend miss))
    else packages' = packages \<and> length data < length data'"
proof -
  have ok: "call_ok w localpkgs preferred rem pkg (packages, data) r (packages', data')"
    by (rule resolvedeps_ok [OF assms])
  have "pname (wpkgs w pkg) \<in> pname ` wpkgs w ` set packages'" if "r = 0"
  proof -
    have sub: "set packages \<subseteq> set packages'" using ok by (simp add: call_ok_def)
    consider "pkg \<in> set packages'" | q where "alpm_pkg_find (wpkgs w) packages (Some (pname (wpkgs w pkg))) = Some q"
      using ok \<open>r = 0\<close> by (auto simp: call_ok_def)
    then show ?thesis using sub by cases (auto dest!: pkg_find_Some simp: image_image intro: rev_image_eqI)
  qed
  then show ?thesis using ok by (auto simp: call_ok_def settled_def)
qed

lemma sync_world_checkdeps:
  assumes "pkghash_inv pair_pkgs h" "contents pair_pkgs h = [''lib'' \<mapsto> 0]" "hlist h = [0]"
  shows "alpm_checkdeps (handle (sync_world h)) pair_pkgs [] [] [p] False =
    (if p = 0 then [] else [\<lparr>miss_target = ''app'', miss_depend = on_lib, miss_causingpkg = None\<rparr>])"
  by (simp add: alpm_checkdeps_def check_upgrade_concat check_upgrade_deps_filter unsatisfied_def
      sync_world_facts [OF assms] checked_dep_def depmiss_new_def pair_name_def)

theorem resolvedeps_all_or_nothing_witness:
  "\<exists>h. alpm_resolvedeps 3 (\<lambda>_ _. False) no_questions (sync_world h) [] [9] [] 9 ([], []) = Some (0, [9, 0], []) \<and>
    provided_for (sync_world h) [9] [] {9, 0} on_lib"
proof -
  obtain h where h: "pkghash_inv pair_pkgs h" "contents pair_pkgs h = [''lib'' \<mapsto> 0]" "hlist h = [0]"
    using lib_cache by blast
  note facts = sync_world_facts [OF h]
  have find: "alpm_pkg_find pair_pkgs [9] (Some ''lib'') = None"
    by (subst pkg_find_None) (auto simp: pair_name_def)
  have lib: "alpm_resolvedeps (Suc fuel) (\<lambda>_ _. False) no_questions (sync_world h) [] [9] [] 0 ([9], []) =
      Some (0, [9, 0], [])" for fuel
    using find by (simp add: facts sync_world_checkdeps [OF h] alpm_list_add_def pair_name_def)
  have run: "alpm_resolvedeps 3 (\<lambda>_ _. False) no_questions (sync_world h) [] [9] [] 9 ([], []) = Some (0, [9, 0], [])"
    by (simp add: numeral_3_eq_3 facts sync_world_checkdeps [OF h] sync_world_resolve [OF h find] resolve_loop_Cons
        alpm_list_add_def alpm_pkg_find_def [of _ "[]"] Let_def find pair_name_def [of 0] del: resolve_loop.simps(2) add: lib)
  show ?thesis
    using resolvedeps_all_or_nothing [OF sync_world_resolvable(1) [OF h] run] run sync_world_checkdeps [OF h] facts(5)
    by auto
qed

section \<open>Properties of reverse dependencies\<close>

lemma requiredby_deps_spec:
  "requiredby_deps pkg n ds reqs =
    (if (\<exists>d\<in>set ds. alpm_depcmp pkg d) \<and> n \<notin> set reqs then reqs @ [n] else reqs)"
  by (induction ds arbitrary: reqs) (auto simp: alpm_list_add_def find_str_Some)

definition asks_for :: "alpm_pkg_t \<Rightarrow> bool \<Rightarrow> alpm_pkg_t \<Rightarrow> bool" where
  "asks_for c optional pkg \<longleftrightarrow> (\<exists>d\<in>set (if optional then optdepends c else depends c). alpm_depcmp pkg d)"

lemma find_requiredby_spec:
  "distinct reqs \<Longrightarrow>
   set (find_requiredby ps pkg cache optional reqs) =
     set reqs \<union> {pname (ps c) |c. c \<in> set cache \<and> asks_for (ps c) optional pkg} \<and>
   distinct (find_requiredby ps pkg cache optional reqs)"
  by (induction cache arbitrary: reqs) (auto simp: requiredby_deps_spec asks_for_def)

lemma requiredby_dbs_spec:
  "distinct reqs \<Longrightarrow>
   set (requiredby_dbs w pkg ds optional reqs) =
     set reqs \<union> {pname (wpkgs w c) |c d. d \<in> set ds \<and> c \<in> set (cached_pkgs w (Some d)) \<and> asks_for (wpkgs w c) optional pkg} \<and>
   distinct (requiredby_dbs w pkg ds optional reqs)"
proof (induction ds arbitrary: reqs)
  case (Cons d ds)
  have "distinct (find_requiredby (wpkgs w) pkg (cached_pkgs w (Some d)) optional reqs)"
    using find_requiredby_spec [OF Cons.prems] by blast
  note IH = Cons.IH [OF this]
  have "set (find_requiredby (wpkgs w) pkg (cached_pkgs w (Some d)) optional reqs) =
      set reqs \<union> {pname (wpkgs w c) |c. c \<in> set (cached_pkgs w (Some d)) \<and> asks_for (wpkgs w c) optional pkg}"
    using find_requiredby_spec [OF Cons.prems] by blast
  then show ?case using IH by simp blast
qed simp

text \<open>
  The packages that require an installed package: the names of exactly the installed packages
  with a dependency it satisfies, each once; for a package of a sync database, those of all
  sync databases.
\<close>

theorem requiredby_exact:
  assumes "origin pkg \<noteq> ALPM_PKG_FROM_FILE" "origin_data pkg = Origin_db d"
  shows "set (compute_requiredby w pkg optional) =
      {pname (wpkgs w c) |c. (\<exists>e. e \<in> (if has_status (wdbs w d) DB_STATUS_LOCAL then {d} else set (dbs_sync (handle w))) \<and>
          c \<in> set (cached_pkgs w (Some e))) \<and>
        asks_for (wpkgs w c) optional pkg} \<and>
    distinct (compute_requiredby w pkg optional)"
proof -
  have 1: "set (find_requiredby (wpkgs w) pkg (cached_pkgs w (Some d)) optional []) =
      {pname (wpkgs w c) |c. c \<in> set (cached_pkgs w (Some d)) \<and> asks_for (wpkgs w c) optional pkg} \<and>
    distinct (find_requiredby (wpkgs w) pkg (cached_pkgs w (Some d)) optional [])"
    using find_requiredby_spec [of "[]"] by simp
  have 2: "set (requiredby_dbs w pkg (dbs_sync (handle w)) optional []) =
      {pname (wpkgs w c) |c. (\<exists>e. e \<in> set (dbs_sync (handle w)) \<and> c \<in> set (cached_pkgs w (Some e))) \<and>
        asks_for (wpkgs w c) optional pkg} \<and>
    distinct (requiredby_dbs w pkg (dbs_sync (handle w)) optional [])"
    using requiredby_dbs_spec [of "[]" w pkg "dbs_sync (handle w)" optional] by simp blast
  show ?thesis
  proof (cases "has_status (wdbs w d) DB_STATUS_LOCAL")
    case True
    then have "compute_requiredby w pkg optional = find_requiredby (wpkgs w) pkg (cached_pkgs w (Some d)) optional []"
      using assms by (cases "origin pkg") (simp_all add: compute_requiredby_def)
    then show ?thesis using 1 True by simp
  next
    case False
    let ?reqs = "requiredby_dbs w pkg (dbs_sync (handle w)) optional []"
    have "compute_requiredby w pkg optional = alpm_list_msort strcmp (length ?reqs) ?reqs"
      using assms False by (cases "origin pkg") (simp_all add: compute_requiredby_def Let_def)
    then have m: "mset (compute_requiredby w pkg optional) = mset ?reqs" by (simp only: mset_msort)
    have s: "set (compute_requiredby w pkg optional) = set ?reqs" using m by (rule mset_eq_setD)
    have d: "distinct (compute_requiredby w pkg optional)"
      using mset_eq_imp_distinct_iff [OF m] 2 [THEN conjunct2] by (rule iffD2)
    show ?thesis by (intro conjI d) (use s 2 [THEN conjunct1] False in simp)
  qed
qed

theorem requiredby_exact_witness:
  "set (compute_requiredby pair_world ((pair_pkgs 0)\<lparr>origin := ALPM_PKG_FROM_LOCALDB, origin_data := Origin_db 0\<rparr>) False) =
     {''app''}"
proof -
  have "status (wdbs pair_world 0) = DB_STATUS_VALID OR DB_STATUS_PKGCACHE OR DB_STATUS_LOCAL"
    by (simp add: pair_world_def)
  moreover have "alpm_depcmp ((pair_pkgs 0)\<lparr>origin := ALPM_PKG_FROM_LOCALDB, origin_data := Origin_db 0\<rparr>) on_lib"
    by (simp add: alpm_depcmp_def alpm_depcmp_literal_def pair_pkgs_def pair_name_def dep_vercmp_def)
  ultimately show ?thesis
    using requiredby_exact [of "(pair_pkgs 0)\<lparr>origin := ALPM_PKG_FROM_LOCALDB, origin_data := Origin_db 0\<rparr>" 0 pair_world False]
    by (auto simp: asks_for_def has_status_def pair_name_def)
qed

end
