(* ===== verification/AlpmDepSort.thy ===== *)
theory AlpmDepSort
  imports AlpmDeps "HOL-Library.While_Combinator"
begin

text \<open>
  Sorting packages by dependencies: \<open>dep_graph_init\<close>, \<open>_alpm_warn_dep_cycle\<close> and
  \<open>_alpm_sortbydeps\<close> of \<open>lib/libalpm/deps.c\<close> with the vertices of \<open>graph.h\<close>. A vertex is the
  position it has in the list of vertices; the graph is a store of vertices. The depth-first
  search is the loop of the code, with its iterators and parents instead of a recursion.
\<close>

section \<open>The graph\<close>

datatype alpm_graph_vertex_state =
    ALPM_GRAPH_STATE_UNPROCESSED | ALPM_GRAPH_STATE_PROCESSING | ALPM_GRAPH_STATE_PROCESSED

text \<open>A vertex; \<open>weight\<close> is never used. \<open>iterator\<close> is what is left of the children.\<close>

record alpm_graph_t =
  vdata :: pkgref
  vparent :: "nat option"
  vchildren :: "nat list"
  viterator :: "nat list"
  vstate :: alpm_graph_vertex_state

record vertices =
  vcount :: nat
  vertex_at :: "nat \<Rightarrow> alpm_graph_t"

definition alpm_graph_new :: "pkgref \<Rightarrow> alpm_graph_t" where
  "alpm_graph_new p =
     \<lparr>vdata = p, vparent = None, vchildren = [], viterator = [], vstate = ALPM_GRAPH_STATE_UNPROCESSED\<rparr>"

definition add_vertex :: "vertices \<Rightarrow> pkgref \<Rightarrow> vertices" where
  "add_vertex g p = \<lparr>vcount = vcount g + 1, vertex_at = (vertex_at g)(vcount g := alpm_graph_new p)\<rparr>"

text \<open>
  The walk over the local packages: those the package depends on leave the list, get a vertex
  at the end and become children.
\<close>

fun add_local :: "pkgs \<Rightarrow> pkgref \<Rightarrow> pkgref list \<Rightarrow> pkgref list \<Rightarrow> vertices \<Rightarrow> nat list \<Rightarrow> pkgref list \<times> vertices \<times> nat list" where
  "add_local ps p_i [] kept g children = (kept, g, children)"
| "add_local ps p_i (q # j) kept g children =
     (if alpm_pkg_depends_on (ps p_i) (ps q)
      then add_local ps p_i j kept (add_vertex g q) (alpm_list_add children (vcount g))
      else add_local ps p_i j (alpm_list_add kept q) g children)"

lemma add_local_length:
  "add_local ps p_i locals kept g children = (locals', g', children') \<Longrightarrow>
   vcount g' + length locals' = vcount g + length locals + length kept \<and> vcount g \<le> vcount g'"
  by (induction ps p_i locals kept g children rule: add_local.induct)
    (auto simp: alpm_list_add_def add_vertex_def split: if_splits)

text \<open>The edges, vertex by vertex, while local packages join at the end.\<close>

function graph_edges :: "pkgs \<Rightarrow> vertices \<Rightarrow> pkgref list \<Rightarrow> nat \<Rightarrow> vertices" where
  "graph_edges ps g localpkgs i =
     (if i < vcount g then
        let p_i = vdata (vertex_at g i);
            children = filter (\<lambda>j. alpm_pkg_depends_on (ps p_i) (ps (vdata (vertex_at g j)))) [0..<vcount g];
            (localpkgs, g, children) = add_local ps p_i localpkgs [] g children;
            vertex = (vertex_at g i)\<lparr>vchildren := children, viterator := children\<rparr>
        in graph_edges ps (g\<lparr>vertex_at := (vertex_at g)(i := vertex)\<rparr>) localpkgs (i + 1)
      else g)"
  by pat_completeness auto
termination
  by (relation "measure (\<lambda>(ps, g, localpkgs, i). vcount g + length localpkgs - i)")
    (auto dest!: add_local_length [OF sym])

declare graph_edges.simps [simp del]

definition graph_locals :: "pkgs \<Rightarrow> pkgref list \<Rightarrow> pkgref list \<Rightarrow> pkgref list \<Rightarrow> pkgref list" where
  "graph_locals ps cache targets ignore =
     (let localpkgs = alpm_list_diff (alpm_pkg_cmp ps) cache targets
      in if ignore \<noteq> [] then alpm_list_diff (alpm_pkg_cmp ps) localpkgs ignore else localpkgs)"

definition dep_graph_init :: "pkgs \<Rightarrow> pkgref list \<Rightarrow> pkgref list \<Rightarrow> pkgref list \<Rightarrow> vertices" where
  "dep_graph_init ps cache targets ignore =
     (let localpkgs = graph_locals ps cache targets ignore;
          vertices = foldl add_vertex \<lparr>vcount = 0, vertex_at = \<lambda>_. alpm_graph_new 0\<rparr> targets
      in graph_edges ps vertices localpkgs 0)"

section \<open>The search\<close>

text \<open>
  The nearest ancestor in the transaction. A chain of parents has no cycle, so the number of
  vertices bounds it.
\<close>

fun nearest_target :: "nat \<Rightarrow> pkgref list \<Rightarrow> vertices \<Rightarrow> nat option \<Rightarrow> nat option" where
  "nearest_target fuel targets g None = None"
| "nearest_target 0 targets g (Some a) = None"
| "nearest_target (Suc fuel) targets g (Some a) =
     (if alpm_list_find_ptr targets (vdata (vertex_at g a)) \<noteq> None then Some a
      else nearest_target fuel targets g (vparent (vertex_at g a)))"

text \<open>The warning, if there is one: the ancestor's package and the child's.\<close>

definition alpm_warn_dep_cycle :: "pkgref list \<Rightarrow> vertices \<Rightarrow> nat \<Rightarrow> nat \<Rightarrow> (pkgref \<times> pkgref) list" where
  "alpm_warn_dep_cycle targets g ancestor vertex =
     (if alpm_list_find_ptr targets (vdata (vertex_at g vertex)) = None then []
      else
        (case nearest_target (vcount g) targets g (Some ancestor) of
           None \<Rightarrow> []
         | Some a \<Rightarrow>
             if a = vertex then [] else [(vdata (vertex_at g a), vdata (vertex_at g vertex))]))"

text \<open>The inner loop: the rest of the iterator, the child switched to, and the warnings.\<close>

fun next_child :: "pkgref list \<Rightarrow> vertices \<Rightarrow> nat \<Rightarrow> nat list \<Rightarrow> (pkgref \<times> pkgref) list \<Rightarrow>
   nat list \<times> nat option \<times> (pkgref \<times> pkgref) list" where
  "next_child targets g vertex [] warnings = ([], None, warnings)"
| "next_child targets g vertex (nextchild # iterator) warnings =
     (case vstate (vertex_at g nextchild) of
        ALPM_GRAPH_STATE_UNPROCESSED \<Rightarrow> (iterator, Some nextchild, warnings)
      | ALPM_GRAPH_STATE_PROCESSING \<Rightarrow>
          next_child targets g vertex iterator (warnings @ alpm_warn_dep_cycle targets g vertex nextchild)
      | ALPM_GRAPH_STATE_PROCESSED \<Rightarrow> next_child targets g vertex iterator warnings)"

text \<open>The state of the loop: \<open>i\<close> past the last vertex stands for \<open>NULL\<close>.\<close>

record sort_state =
  sgraph :: vertices
  si :: nat
  svertex :: nat
  newtargs :: "pkgref list"
  warnings :: "(pkgref \<times> pkgref) list"

definition upd_vertex :: "nat \<Rightarrow> (alpm_graph_t \<Rightarrow> alpm_graph_t) \<Rightarrow> vertices \<Rightarrow> vertices" where
  "upd_vertex v f g = g\<lparr>vertex_at := (vertex_at g)(v := f (vertex_at g v))\<rparr>"

definition next_unprocessed :: "vertices \<Rightarrow> nat \<Rightarrow> nat" where
  "next_unprocessed g i =
     (case List.find (\<lambda>j. vstate (vertex_at g j) = ALPM_GRAPH_STATE_UNPROCESSED) [i..<vcount g] of
        Some j \<Rightarrow> j
      | None \<Rightarrow> vcount g)"

definition sort_step :: "pkgref list \<Rightarrow> sort_state \<Rightarrow> sort_state" where
  "sort_step targets s =
     (let v = svertex s;
          g = upd_vertex v (\<lambda>x. x\<lparr>vstate := ALPM_GRAPH_STATE_PROCESSING\<rparr>) (sgraph s);
          (iterator, child, warn) = next_child targets g v (viterator (vertex_at g v)) (warnings s);
          g = upd_vertex v (\<lambda>x. x\<lparr>viterator := iterator\<rparr>) g;
          s = s\<lparr>warnings := warn\<rparr>
      in case child of
           Some c \<Rightarrow> s\<lparr>sgraph := upd_vertex c (\<lambda>x. x\<lparr>vparent := Some v\<rparr>) g, svertex := c\<rparr>
         | None \<Rightarrow>
             let s = (if alpm_list_find_ptr targets (vdata (vertex_at g v)) \<noteq> None
                      then s\<lparr>newtargs := alpm_list_add (newtargs s) (vdata (vertex_at g v))\<rparr> else s);
                 g = upd_vertex v (\<lambda>x. x\<lparr>vstate := ALPM_GRAPH_STATE_PROCESSED\<rparr>) g
             in case vparent (vertex_at g v) of
                  Some p \<Rightarrow> s\<lparr>sgraph := g, svertex := p\<rparr>
                | None \<Rightarrow> let i = next_unprocessed g (si s + 1) in s\<lparr>sgraph := g, si := i, svertex := i\<rparr>)"

text \<open>\<open>None\<close> is a loop that does not end; \<open>sortbydeps_total\<close> shows there is none.\<close>

definition sort_loop :: "pkgref list \<Rightarrow> sort_state \<Rightarrow> sort_state option" where
  "sort_loop targets s = while_option (\<lambda>s. si s < vcount (sgraph s)) (sort_step targets) s"

text \<open>The new list and the warnings.\<close>

definition alpm_sortbydeps ::
  "alpm_world \<Rightarrow> pkgref list \<Rightarrow> pkgref list \<Rightarrow> bool \<Rightarrow> (pkgref list \<times> (pkgref \<times> pkgref) list) option" where
  "alpm_sortbydeps w targets ignore reverse =
     (if targets = [] then Some ([], [])
      else
        let g = dep_graph_init (wpkgs w) (cached_pkgs w (db_local (handle w))) targets ignore
        in case sort_loop targets \<lparr>sgraph = g, si = 0, svertex = 0, newtargs = [], warnings = []\<rparr> of
             None \<Rightarrow> None
           | Some s \<Rightarrow> Some (if reverse then rev (newtargs s) else newtargs s, warnings s))"

section \<open>Facts about the graph\<close>

abbreviation dat :: "vertices \<Rightarrow> nat \<Rightarrow> pkgref" where
  "dat g j \<equiv> vdata (vertex_at g j)"

abbreviation vertex_data :: "vertices \<Rightarrow> pkgref list" where
  "vertex_data g \<equiv> map (dat g) [0..<vcount g]"

lemma foldl_add_vertex:
  "vcount (foldl add_vertex g qs) = vcount g + length qs"
  "k < vcount g \<Longrightarrow> vertex_at (foldl add_vertex g qs) k = vertex_at g k"
  by (induction qs arbitrary: g) (simp_all add: add_vertex_def)

lemma foldl_add_vertex_new:
  "k < length qs \<Longrightarrow> vertex_at (foldl add_vertex g qs) (vcount g + k) = alpm_graph_new (qs ! k)"
proof (induction qs arbitrary: g k)
  case (Cons q qs)
  have count: "vcount (add_vertex g q) = vcount g + 1" "vertex_at (add_vertex g q) (vcount g) = alpm_graph_new q"
    by (simp_all add: add_vertex_def)
  show ?case
  proof (cases k)
    case 0
    then show ?thesis using foldl_add_vertex(2) [of "vcount g" "add_vertex g q"] count by simp
  next
    case (Suc j)
    then show ?thesis using Cons.IH [of j "add_vertex g q"] count Cons.prems by simp
  qed
qed simp

lemma add_local_spec:
  "add_local ps p locals kept g children =
    (kept @ filter (\<lambda>q. \<not> dep_on ps p q) locals, foldl add_vertex g (filter (dep_on ps p) locals),
     children @ [vcount g..<vcount g + length (filter (dep_on ps p) locals)])"
proof (induction ps p locals kept g children rule: add_local.induct)
  case (2 ps p q j kept g children)
  have "vcount g # [Suc (vcount g)..<Suc (vcount g + m)] = [vcount g..<Suc (vcount g + m)]" for m
    by (simp add: upt_rec)
  then show ?case using 2 by (simp add: alpm_list_add_def add_vertex_def)
qed simp

definition edges_ok :: "pkgs \<Rightarrow> vertices \<Rightarrow> pkgref list \<Rightarrow> nat \<Rightarrow> bool" where
  "edges_ok ps g locals i \<longleftrightarrow>
     (\<forall>k<vcount g. vstate (vertex_at g k) = ALPM_GRAPH_STATE_UNPROCESSED \<and> vparent (vertex_at g k) = None \<and>
        viterator (vertex_at g k) = vchildren (vertex_at g k)) \<and>
     (\<forall>k<i. k < vcount g \<longrightarrow>
        set (vchildren (vertex_at g k)) = {j. j < vcount g \<and> dep_on ps (dat g k) (dat g j)} \<and>
        (\<forall>q\<in>set locals. \<not> dep_on ps (dat g k) q))"

lemma graph_edges_spec:
  "edges_ok ps g locals i \<Longrightarrow>
   \<exists>extra locals'. edges_ok ps (graph_edges ps g locals i) locals' (vcount (graph_edges ps g locals i)) \<and>
     vertex_data (graph_edges ps g locals i) = vertex_data g @ extra \<and> mset extra + mset locals' = mset locals"
proof (induction ps g locals i rule: graph_edges.induct)
  case (1 ps g locals i)
  show ?case
  proof (cases "i < vcount g")
    case False
    then have "graph_edges ps g locals i = g" by (subst graph_edges.simps) simp
    then have "edges_ok ps (graph_edges ps g locals i) locals (vcount (graph_edges ps g locals i)) \<and>
        vertex_data (graph_edges ps g locals i) = vertex_data g @ [] \<and> mset [] + mset locals = mset locals"
      using "1.prems" False by (auto simp: edges_ok_def)
    then show ?thesis by blast
  next
    case True
    define p where "p = dat g i"
    define new where "new = filter (dep_on ps p) locals"
    define rest where "rest = filter (\<lambda>q. \<not> dep_on ps p q) locals"
    define kids where "kids = filter (\<lambda>j. dep_on ps p (dat g j)) [0..<vcount g] @ [vcount g..<vcount g + length new]"
    define g1 where "g1 = foldl add_vertex g new"
    define g2 where "g2 = g1\<lparr>vertex_at := (vertex_at g1)(i := (vertex_at g1 i)\<lparr>vchildren := kids, viterator := kids\<rparr>)\<rparr>"
    have local: "add_local ps p locals [] g (filter (\<lambda>j. dep_on ps p (dat g j)) [0..<vcount g]) = (rest, g1, kids)"
      by (simp add: add_local_spec rest_def g1_def kids_def new_def)
    have step: "graph_edges ps g locals i = graph_edges ps g2 rest (i + 1)"
      using True local by (subst graph_edges.simps) (simp add: Let_def g2_def p_def)
    have count: "vcount g2 = vcount g + length new" by (simp add: g2_def g1_def foldl_add_vertex(1))
    have here: "vertex_at g2 i = (vertex_at g i)\<lparr>vchildren := kids, viterator := kids\<rparr>"
      using True by (simp add: g2_def g1_def foldl_add_vertex(2))
    have old: "vertex_at g2 k = vertex_at g k" if "k < vcount g" "k \<noteq> i" for k
      using that by (simp add: g2_def g1_def foldl_add_vertex(2))
    have added: "vertex_at g2 (vcount g + k) = alpm_graph_new (new ! k)" if "k < length new" for k
      using that True by (simp add: g2_def g1_def foldl_add_vertex_new)
    have dat_old: "dat g2 k = dat g k" if "k < vcount g" for k using that here old by (cases "k = i") simp_all
    have dat_new: "dat g2 (vcount g + k) = new ! k" if "k < length new" for k
      using added [OF that] by (simp add: alpm_graph_new_def)
    have split: "k < vcount g2 \<longleftrightarrow> k < vcount g \<or> (\<exists>l<length new. k = vcount g + l)" for k
      unfolding count by (cases "k < vcount g") (auto simp: not_less le_iff_add)
    have data: "vertex_data g2 = vertex_data g @ new"
    proof (rule nth_equalityI)
      show "length (vertex_data g2) = length (vertex_data g @ new)" by (simp add: count)
      show "vertex_data g2 ! k = (vertex_data g @ new) ! k" if "k < length (vertex_data g2)" for k
        using that dat_old dat_new split [of k] by (auto simp: nth_append)
    qed
    have init: "vstate (vertex_at g2 k) = ALPM_GRAPH_STATE_UNPROCESSED \<and> vparent (vertex_at g2 k) = None \<and>
        viterator (vertex_at g2 k) = vchildren (vertex_at g2 k)" if "k < vcount g2" for k
    proof -
      consider "k = i" | "k < vcount g" "k \<noteq> i" | l where "l < length new" "k = vcount g + l"
        using \<open>k < vcount g2\<close> split by blast
      then show ?thesis
      proof cases
        case 1
        then show ?thesis using True "1.prems" here by (simp add: edges_ok_def)
      next
        case 2
        then show ?thesis using "1.prems" old by (simp add: edges_ok_def)
      next
        case (3 l)
        then show ?thesis using added by (simp add: alpm_graph_new_def)
      qed
    qed
    have children: "set (vchildren (vertex_at g2 k)) = {j. j < vcount g2 \<and> dep_on ps (dat g2 k) (dat g2 j)} \<and>
        (\<forall>q\<in>set rest. \<not> dep_on ps (dat g2 k) q)" if "k < i + 1" for k
    proof (cases "k = i")
      case True
      have in_new: "dep_on ps p (new ! l)" if "l < length new" for l
        using nth_mem [OF that] by (simp add: new_def)
      have "set (vchildren (vertex_at g2 i)) = {j. j < vcount g2 \<and> dep_on ps p (dat g2 j)}"
      proof (rule set_eqI)
        fix j
        have "j \<in> set kids \<longleftrightarrow> j < vcount g \<and> dep_on ps p (dat g j) \<or> vcount g \<le> j \<and> j < vcount g2"
          unfolding kids_def count by auto
        moreover have "dep_on ps p (dat g2 j)" if "vcount g \<le> j" "j < vcount g2"
          using that in_new [of "j - vcount g"] dat_new [of "j - vcount g"] count by simp
        ultimately show "j \<in> set (vchildren (vertex_at g2 i)) \<longleftrightarrow> j \<in> {j. j < vcount g2 \<and> dep_on ps p (dat g2 j)}"
          using dat_old [of j] count by (cases "j < vcount g") (auto simp: here)
      qed
      moreover have "\<forall>q\<in>set rest. \<not> dep_on ps p q" by (simp add: rest_def)
      ultimately show ?thesis using True dat_old [OF \<open>i < vcount g\<close>] p_def by simp
    next
      case False
      then have k: "k < i" "k < vcount g" using that \<open>i < vcount g\<close> by auto
      then have "set (vchildren (vertex_at g k)) = {j. j < vcount g \<and> dep_on ps (dat g k) (dat g j)}"
          "\<forall>q\<in>set locals. \<not> dep_on ps (dat g k) q"
        using "1.prems" by (simp_all add: edges_ok_def)
      moreover have "new ! l \<in> set locals" if "l < length new" for l using nth_mem [OF that] by (simp add: new_def)
      moreover have "set rest \<subseteq> set locals" by (auto simp: rest_def)
      ultimately show ?thesis using split dat_old dat_new old [OF k(2) False] k by auto
    qed
    have "edges_ok ps g2 rest (i + 1)" using init children unfolding edges_ok_def by blast
    then obtain extra locals' where "edges_ok ps (graph_edges ps g2 rest (i + 1)) locals' (vcount (graph_edges ps g2 rest (i + 1)))"
        "vertex_data (graph_edges ps g2 rest (i + 1)) = vertex_data g2 @ extra" "mset extra + mset locals' = mset rest"
      using "1.IH" [OF True HOL.refl HOL.refl local [unfolded p_def, symmetric] HOL.refl HOL.refl]
      by (auto simp: g2_def)
    moreover have parts: "mset new + mset rest = mset locals"
      unfolding new_def rest_def by (metis mset_filter multiset_partition)
    ultimately have "edges_ok ps (graph_edges ps g locals i) locals' (vcount (graph_edges ps g locals i)) \<and>
        vertex_data (graph_edges ps g locals i) = vertex_data g @ (new @ extra) \<and>
        mset (new @ extra) + mset locals' = mset locals"
      using parts unfolding step data by (simp add: add.assoc)
    then show ?thesis by blast
  qed
qed

definition graph_init_ok :: "pkgs \<Rightarrow> pkgref list \<Rightarrow> pkgref list \<Rightarrow> vertices \<Rightarrow> bool" where
  "graph_init_ok ps targets locals g \<longleftrightarrow>
     (\<forall>k<vcount g. vstate (vertex_at g k) = ALPM_GRAPH_STATE_UNPROCESSED \<and> vparent (vertex_at g k) = None \<and>
        viterator (vertex_at g k) = vchildren (vertex_at g k) \<and>
        set (vchildren (vertex_at g k)) = {j. j < vcount g \<and> dep_on ps (dat g k) (dat g j)}) \<and>
     (\<exists>extra rest. vertex_data g = targets @ extra \<and> mset extra + mset rest = mset locals \<and>
        (\<forall>k<vcount g. \<forall>q\<in>set rest. \<not> dep_on ps (dat g k) q))"

lemma dep_graph_init_ok: "graph_init_ok ps targets (graph_locals ps cache targets ignore) (dep_graph_init ps cache targets ignore)"
proof -
  let ?g0 = "foldl add_vertex \<lparr>vcount = 0, vertex_at = \<lambda>_. alpm_graph_new 0\<rparr> targets"
  let ?locals = "graph_locals ps cache targets ignore"
  have count: "vcount ?g0 = length targets" by (simp add: foldl_add_vertex(1))
  have new: "vertex_at ?g0 k = alpm_graph_new (targets ! k)" if "k < length targets" for k
    using foldl_add_vertex_new [OF that, of "\<lparr>vcount = 0, vertex_at = \<lambda>_. alpm_graph_new 0\<rparr>"] by simp
  have "edges_ok ps ?g0 ?locals 0" using new count by (simp add: edges_ok_def alpm_graph_new_def)
  moreover have "vertex_data ?g0 = targets"
    using new count by (intro nth_equalityI) (simp_all add: alpm_graph_new_def)
  ultimately obtain extra rest where
    ok: "edges_ok ps (graph_edges ps ?g0 ?locals 0) rest (vcount (graph_edges ps ?g0 ?locals 0))"
    and data: "vertex_data (graph_edges ps ?g0 ?locals 0) = targets @ extra" "mset extra + mset rest = mset ?locals"
    using graph_edges_spec [of ps ?g0 ?locals 0] by auto
  show ?thesis unfolding graph_init_ok_def dep_graph_init_def Let_def
  proof (intro conjI allI impI exI)
    show "vertex_data (graph_edges ps ?g0 ?locals 0) = targets @ extra" by (rule data(1))
    show "mset extra + mset rest = mset ?locals" by (rule data(2))
  qed (use ok in \<open>simp_all add: edges_ok_def\<close>)
qed

section \<open>Facts about the search\<close>

definition edge :: "vertices \<Rightarrow> nat rel" where
  "edge g = {(x, y). x < vcount g \<and> y \<in> set (vchildren (vertex_at g x))}"

abbreviation unprocessed :: "vertices \<Rightarrow> nat \<Rightarrow> bool" where
  "unprocessed g x \<equiv> vstate (vertex_at g x) = ALPM_GRAPH_STATE_UNPROCESSED"

abbreviation processed :: "vertices \<Rightarrow> nat \<Rightarrow> bool" where
  "processed g x \<equiv> vstate (vertex_at g x) = ALPM_GRAPH_STATE_PROCESSED"

text \<open>The vertices on the way from the current vertex up to the one the search began with.\<close>

fun upward :: "vertices \<Rightarrow> nat list \<Rightarrow> bool" where
  "upward g [] \<longleftrightarrow> True"
| "upward g [x] \<longleftrightarrow> vparent (vertex_at g x) = None"
| "upward g (x # y # st) \<longleftrightarrow> vparent (vertex_at g x) = Some y \<and> (y, x) \<in> edge g \<and> upward g (y # st)"

text \<open>
  The invariant of the search: \<open>fin\<close> are the vertices left, in order; \<open>st\<close> the ones on the way.
  A vertex was left only when all its children were, except those that lead back to it.
\<close>

definition same_graph :: "vertices \<Rightarrow> vertices \<Rightarrow> bool" where
  "same_graph g g' \<longleftrightarrow> vcount g' = vcount g \<and>
     (\<forall>x. vdata (vertex_at g' x) = vdata (vertex_at g x) \<and> vchildren (vertex_at g' x) = vchildren (vertex_at g x))"

definition search_inv :: "vertices \<Rightarrow> nat list \<Rightarrow> nat list \<Rightarrow> bool" where
  "search_inv g fin st \<longleftrightarrow>
     (\<forall>x<vcount g. \<forall>y\<in>set (vchildren (vertex_at g x)). y < vcount g) \<and>
     distinct fin \<and> set fin = {x. x < vcount g \<and> processed g x} \<and>
     distinct st \<and> (\<forall>x\<in>set st. x < vcount g \<and> \<not> processed g x) \<and> upward g st \<and>
     (\<forall>x<vcount g. unprocessed g x \<longrightarrow> viterator (vertex_at g x) = vchildren (vertex_at g x)) \<and>
     (\<forall>x<vcount g. x \<notin> set st \<longrightarrow> unprocessed g x \<longrightarrow> vparent (vertex_at g x) = None) \<and>
     (\<forall>x<vcount g. x \<notin> set st \<longrightarrow> unprocessed g x \<or> processed g x) \<and>
     (\<forall>x<vcount g. \<exists>d. vchildren (vertex_at g x) = d @ viterator (vertex_at g x) \<and>
        (\<forall>y\<in>set d. processed g y \<or> y \<in> set st)) \<and>
     (\<forall>x\<in>set (tl st). \<not> unprocessed g x) \<and>
     (\<forall>k<length fin. \<forall>y. (fin ! k, y) \<in> edge g \<longrightarrow> y \<in> set (take k fin) \<or> (y, fin ! k) \<in> (edge g)\<^sup>*)"

definition loop_inv :: "vertices \<Rightarrow> pkgref list \<Rightarrow> nat list \<Rightarrow> nat list \<Rightarrow> sort_state \<Rightarrow> bool" where
  "loop_inv g0 targets fin st s \<longleftrightarrow>
     same_graph g0 (sgraph s) \<and> search_inv (sgraph s) fin st \<and> si s \<le> vcount g0 \<and>
     (si s < vcount g0 \<longrightarrow> st \<noteq> [] \<and> hd st = svertex s \<and> last st = si s) \<and>
     (si s = vcount g0 \<longrightarrow> st = []) \<and>
     (\<forall>j < si s. processed (sgraph s) j) \<and>
     newtargs s = filter (\<lambda>p. p \<in> set targets) (map (dat g0) fin)"

text \<open>What bounds the number of rounds.\<close>

definition search_measure :: "vertices \<Rightarrow> nat" where
  "search_measure g = (\<Sum>x<vcount g. length (viterator (vertex_at g x)) + (if processed g x then 0 else 1))"

lemma next_child_spec:
  "next_child targets g v iter warn = (rest, child, warn') \<Longrightarrow>
   (case child of
      None \<Rightarrow> rest = [] \<and> (\<forall>y\<in>set iter. \<not> unprocessed g y)
    | Some c \<Rightarrow> \<exists>d. iter = d @ c # rest \<and> unprocessed g c \<and> (\<forall>y\<in>set d. \<not> unprocessed g y))"
proof (induction targets g v iter warn rule: next_child.induct)
  case (2 targets g v c iter warn)
  show ?case
  proof (cases "unprocessed g c")
    case True
    then show ?thesis using "2.prems" by (intro option.split [THEN iffD2]) (auto intro: exI [of _ "[]"])
  next
    case False
    then have "case child of
      None \<Rightarrow> rest = [] \<and> (\<forall>y\<in>set iter. \<not> unprocessed g y)
    | Some c \<Rightarrow> \<exists>d. iter = d @ c # rest \<and> unprocessed g c \<and> (\<forall>y\<in>set d. \<not> unprocessed g y)"
      using 2 by (cases "vstate (vertex_at g c)") simp_all
    then show ?thesis using False
      by (auto split: option.splits intro: exI [of _ "c # d" for d] simp: Cons_eq_append_conv)
  qed
qed simp

lemma same_graph_edge: "same_graph g g' \<Longrightarrow> edge g' = edge g"
  by (simp add: same_graph_def edge_def)

lemma upward_cong:
  "\<forall>x\<in>set st. vparent (vertex_at g' x) = vparent (vertex_at g x) \<Longrightarrow> edge g' = edge g \<Longrightarrow> upward g' st = upward g st"
  by (induction g st rule: upward.induct) auto

lemma upward_reach: "upward g st \<Longrightarrow> y \<in> set st \<Longrightarrow> (y, hd st) \<in> (edge g)\<^sup>*"
  by (induction g st rule: upward.induct) (auto intro: rtrancl.rtrancl_into_rtrancl)

lemma search_invD:
  assumes "search_inv g fin st"
  shows "distinct fin" "set fin = {x. x < vcount g \<and> processed g x}" "distinct st"
    "x \<in> set st \<Longrightarrow> x < vcount g \<and> \<not> processed g x" "upward g st"
    "x < vcount g \<Longrightarrow> unprocessed g x \<Longrightarrow> viterator (vertex_at g x) = vchildren (vertex_at g x)"
    "x < vcount g \<Longrightarrow> x \<notin> set st \<Longrightarrow> unprocessed g x \<Longrightarrow> vparent (vertex_at g x) = None"
    "x < vcount g \<Longrightarrow> x \<notin> set st \<Longrightarrow> unprocessed g x \<or> processed g x"
    "x < vcount g \<Longrightarrow> \<exists>d. vchildren (vertex_at g x) = d @ viterator (vertex_at g x) \<and>
        (\<forall>y\<in>set d. processed g y \<or> y \<in> set st)"
    "x \<in> set (tl st) \<Longrightarrow> \<not> unprocessed g x"
    "k < length fin \<Longrightarrow> (fin ! k, y) \<in> edge g \<Longrightarrow> y \<in> set (take k fin) \<or> (y, fin ! k) \<in> (edge g)\<^sup>*"
    "x < vcount g \<Longrightarrow> y \<in> set (vchildren (vertex_at g x)) \<Longrightarrow> y < vcount g"
  using assms unfolding search_inv_def by simp_all

text \<open>Switching to a child \<open>c\<close> puts it on the way.\<close>

lemma search_switch:
  assumes inv: "search_inv g fin (v # st)" and same: "same_graph g g'"
    and v: "viterator (vertex_at g v) = d @ c # rest" "\<forall>y\<in>set d. y = v \<or> \<not> unprocessed g y"
      "vstate (vertex_at g' v) = ALPM_GRAPH_STATE_PROCESSING" "viterator (vertex_at g' v) = rest"
      "vparent (vertex_at g' v) = vparent (vertex_at g v)"
    and c: "c < vcount g" "c \<noteq> v" "unprocessed g c" "vstate (vertex_at g' c) = vstate (vertex_at g c)"
      "viterator (vertex_at g' c) = viterator (vertex_at g c)" "vparent (vertex_at g' c) = Some v"
    and others: "\<And>x. x \<noteq> v \<Longrightarrow> x \<noteq> c \<Longrightarrow> vertex_at g' x = vertex_at g x"
  shows "search_inv g' fin (c # v # st)"
proof -
  note I = search_invD [OF inv]
  have E: "edge g' = edge g" by (rule same_graph_edge [OF same])
  have count: "vcount g' = vcount g" and kids: "vchildren (vertex_at g' x) = vchildren (vertex_at g x)" for x
    using same by (simp_all add: same_graph_def)
  have c_st: "c \<notin> set st" using I(10) [of c] c(3) by auto
  have proc: "processed g' x \<longleftrightarrow> processed g x" if "x \<noteq> v" for x
    using that others [of x] c(4) by (cases "x = c") auto
  have unproc: "unprocessed g' x \<longleftrightarrow> unprocessed g x" if "x \<noteq> v" for x
    using that others [of x] c(4) by (cases "x = c") auto
  have v': "\<not> processed g' v" "\<not> unprocessed g' v" "\<not> processed g v" "v < vcount g" using v(3) I(4) [of v] by auto
  obtain d0 where d0: "vchildren (vertex_at g v) = d0 @ d @ c # rest" "\<forall>y\<in>set d0. processed g y \<or> y \<in> set (v # st)"
    using I(9) [OF v'(4)] v(1) by auto
  have vc: "(v, c) \<in> edge g" using d0(1) v'(4) by (simp add: edge_def)
  have d_done: "processed g y \<or> y \<in> set (v # st)" if "y \<in> set d" for y
    using that v(2) I(8) [of y] I(12) [OF v'(4), of y] d0(1) by auto
  have "upward g' (v # st)"
  proof -
    have "vparent (vertex_at g' x) = vparent (vertex_at g x)" if "x \<in> set (v # st)" for x
      using that v(5) others [of x] c_st c(2) by (cases "x = v"; cases "x = c") auto
    then show ?thesis using upward_cong [of "v # st" g' g] E I(5) by blast
  qed
  then have up: "upward g' (c # v # st)" using c(6) vc E by simp
  have done_kids: "\<exists>d. vchildren (vertex_at g x) = d @ viterator (vertex_at g' x) \<and>
      (\<forall>y\<in>set d. processed g' y \<or> y \<in> set (c # v # st))" if x: "x < vcount g" for x
  proof (cases "x = v")
    case True
    have "\<forall>y\<in>set (d0 @ d @ [c]). processed g' y \<or> y \<in> set (c # v # st)"
      using d0(2) d_done proc by auto
    then show ?thesis using True d0(1) v(4) by (intro exI [of _ "d0 @ d @ [c]"]) simp
  next
    case False
    then have "viterator (vertex_at g' x) = viterator (vertex_at g x)" using others c(5) by (cases "x = c") auto
    moreover obtain d' where "vchildren (vertex_at g x) = d' @ viterator (vertex_at g x)"
        "\<forall>y\<in>set d'. processed g y \<or> y \<in> set (v # st)" using I(9) [OF x] by blast
    moreover have "processed g' y \<or> y \<in> set (c # v # st)" if "processed g y \<or> y \<in> set (v # st)" for y
      using that proc by (cases "y = v") auto
    ultimately show ?thesis by (intro exI [of _ d']) auto
  qed
  show ?thesis
    unfolding search_inv_def count kids E
  proof (intro conjI up)
    show "\<forall>x<vcount g. \<forall>y\<in>set (vchildren (vertex_at g x)). y < vcount g" using I(12) by blast
    have "processed g' x \<longleftrightarrow> processed g x" for x using proc v' by (cases "x = v") simp_all
    then show "set fin = {x. x < vcount g \<and> processed g' x}" using I(2) by simp
    show "distinct (c # v # st)" using I(3) c(2) c_st by simp
    show "\<forall>x\<in>set (c # v # st). x < vcount g \<and> \<not> processed g' x"
      using I(4) proc v' c(1,3) by (metis alpm_graph_vertex_state.distinct(3) set_ConsD)
    show "\<forall>x<vcount g. unprocessed g' x \<longrightarrow> viterator (vertex_at g' x) = vchildren (vertex_at g x)"
      using I(6) unproc v' others c(5) by metis
    show "\<forall>x<vcount g. x \<notin> set (c # v # st) \<longrightarrow> unprocessed g' x \<longrightarrow> vparent (vertex_at g' x) = None"
      using I(7) unproc others by auto
    show "\<forall>x<vcount g. x \<notin> set (c # v # st) \<longrightarrow> unprocessed g' x \<or> processed g' x"
      using I(8) unproc proc by auto
    show "\<forall>x<vcount g. \<exists>d. vchildren (vertex_at g x) = d @ viterator (vertex_at g' x) \<and>
        (\<forall>y\<in>set d. processed g' y \<or> y \<in> set (c # v # st))" using done_kids by blast
    have "\<not> unprocessed g' x" if "x \<in> set (v # st)" for x
      using that I(10) [of x] unproc [of x] v'(2) by (cases "x = v") auto
    then show "\<forall>x\<in>set (tl (c # v # st)). \<not> unprocessed g' x" by simp
    show "\<forall>k<length fin. \<forall>y. (fin ! k, y) \<in> edge g \<longrightarrow> y \<in> set (take k fin) \<or> (y, fin ! k) \<in> (edge g)\<^sup>*"
      using I(11) by blast
  qed (rule I(1))
qed

text \<open>Leaving a vertex without unprocessed children puts it behind those left before.\<close>

lemma search_leave:
  assumes inv: "search_inv g fin (v # st)" and same: "same_graph g g'"
    and v: "\<forall>y\<in>set (viterator (vertex_at g v)). y = v \<or> \<not> unprocessed g y" "processed g' v"
      "viterator (vertex_at g' v) = []" "vparent (vertex_at g' v) = vparent (vertex_at g v)"
    and others: "\<And>x. x \<noteq> v \<Longrightarrow> vertex_at g' x = vertex_at g x"
  shows "search_inv g' (fin @ [v]) st"
proof -
  note I = search_invD [OF inv]
  have E: "edge g' = edge g" by (rule same_graph_edge [OF same])
  have count: "vcount g' = vcount g" and kids: "vchildren (vertex_at g' x) = vchildren (vertex_at g x)" for x
    using same by (simp_all add: same_graph_def)
  have v': "\<not> processed g v" "v < vcount g" "v \<notin> set st" "v \<notin> set fin" using I(2,3) I(4) [of v] by auto
  obtain d where d: "vchildren (vertex_at g v) = d @ viterator (vertex_at g v)"
      "\<forall>y\<in>set d. processed g y \<or> y \<in> set (v # st)" using I(9) [OF v'(2)] by blast
  have all: "processed g y \<or> y \<in> set (v # st)" if "y \<in> set (vchildren (vertex_at g v))" for y
    using that d v(1) I(8) [of y] I(12) [OF v'(2) that] by auto
  have "upward g st" using I(5) by (cases st) auto
  then have up: "upward g' st" using upward_cong [of st g' g] E others v'(3) by metis
  have last: "y \<in> set fin \<or> (y, v) \<in> (edge g)\<^sup>*" if "(v, y) \<in> edge g" for y
    using that all [of y] I(2) I(12) [OF v'(2), of y] upward_reach [OF I(5), of y] by (auto simp: edge_def)
  show ?thesis
    unfolding search_inv_def count kids E
  proof (intro conjI up)
    show "\<forall>x<vcount g. \<forall>y\<in>set (vchildren (vertex_at g x)). y < vcount g" using I(12) by blast
    show "distinct (fin @ [v])" using I(1) v'(4) by simp
    have "processed g' x \<longleftrightarrow> x = v \<or> processed g x" for x using others [of x] v(2) by (cases "x = v") simp_all
    then show "set (fin @ [v]) = {x. x < vcount g \<and> processed g' x}" using I(2) v'(2) by auto
    show "distinct st" using I(3) by simp
    show "\<forall>x\<in>set st. x < vcount g \<and> \<not> processed g' x" using I(4) others v'(3) by (metis list.set_intros(2))
    show "\<forall>x<vcount g. unprocessed g' x \<longrightarrow> viterator (vertex_at g' x) = vchildren (vertex_at g x)"
      using I(6) others v(2) by (metis alpm_graph_vertex_state.distinct(3))
    show "\<forall>x<vcount g. x \<notin> set st \<longrightarrow> unprocessed g' x \<longrightarrow> vparent (vertex_at g' x) = None"
      using I(7) others v(2) by (metis alpm_graph_vertex_state.distinct(3) set_ConsD)
    show "\<forall>x<vcount g. x \<notin> set st \<longrightarrow> unprocessed g' x \<or> processed g' x"
      using I(8) others v(2) by (metis set_ConsD)
    have "\<exists>d. vchildren (vertex_at g x) = d @ viterator (vertex_at g' x) \<and>
        (\<forall>y\<in>set d. processed g' y \<or> y \<in> set st)" if "x < vcount g" for x
    proof (cases "x = v")
      case True
      then show ?thesis using all v(2,3) others by (intro exI [of _ "vchildren (vertex_at g v)"]) (metis append_Nil2 set_ConsD)
    next
      case False
      then show ?thesis using I(9) [OF that] others v(2) by (metis set_ConsD)
    qed
    then show "\<forall>x<vcount g. \<exists>d. vchildren (vertex_at g x) = d @ viterator (vertex_at g' x) \<and>
        (\<forall>y\<in>set d. processed g' y \<or> y \<in> set st)" by blast
    show "\<forall>x\<in>set (tl st). \<not> unprocessed g' x"
      using I(10) others v'(3) by (metis list.sel(3) list.set_sel(2) tl_Nil)
    show "\<forall>k<length (fin @ [v]). \<forall>y. ((fin @ [v]) ! k, y) \<in> edge g \<longrightarrow>
        y \<in> set (take k (fin @ [v])) \<or> (y, (fin @ [v]) ! k) \<in> (edge g)\<^sup>*"
      using I(11) last by (auto simp: nth_append less_Suc_eq)
  qed
qed

lemma upd_vertex_at [simp]:
  "vertex_at (upd_vertex v f g) x = (if x = v then f (vertex_at g v) else vertex_at g x)"
  "vcount (upd_vertex v f g) = vcount g"
  by (simp_all add: upd_vertex_def)

lemma next_unprocessed_spec:
  assumes "i \<le> vcount g"
  shows "i \<le> next_unprocessed g i" "next_unprocessed g i \<le> vcount g"
    "i \<le> j \<Longrightarrow> j < next_unprocessed g i \<Longrightarrow> \<not> unprocessed g j"
    "next_unprocessed g i < vcount g \<Longrightarrow> unprocessed g (next_unprocessed g i)"
proof -
  let ?P = "\<lambda>j. unprocessed g j"
  have "i \<le> next_unprocessed g i \<and> next_unprocessed g i \<le> vcount g \<and>
    (\<forall>j. i \<le> j \<longrightarrow> j < next_unprocessed g i \<longrightarrow> \<not> ?P j) \<and>
    (next_unprocessed g i < vcount g \<longrightarrow> ?P (next_unprocessed g i))"
  proof (cases "List.find ?P [i..<vcount g]")
    case None
    then have "next_unprocessed g i = vcount g" by (simp add: next_unprocessed_def)
    moreover have "\<forall>j. i \<le> j \<longrightarrow> j < vcount g \<longrightarrow> \<not> ?P j" using None by (simp add: find_None_iff)
    ultimately show ?thesis using assms by simp
  next
    case (Some j)
    then obtain k where k: "k < vcount g - i" "j = i + k" "?P j" "\<forall>l<k. \<not> ?P (i + l)"
      by (auto simp: find_Some_iff)
    have "\<not> ?P j'" if "i \<le> j'" "j' < j" for j' using k(2,4) that by (metis le_add_diff_inverse nat_add_left_cancel_less)
    then show ?thesis using Some k by (simp add: next_unprocessed_def)
  qed
  then show "i \<le> next_unprocessed g i" "next_unprocessed g i \<le> vcount g"
    "i \<le> j \<Longrightarrow> j < next_unprocessed g i \<Longrightarrow> \<not> ?P j"
    "next_unprocessed g i < vcount g \<Longrightarrow> ?P (next_unprocessed g i)" by blast+
qed

lemma search_measure_less:
  assumes "same_graph g g'" "v < vcount g"
    and "\<And>x. x \<noteq> v \<Longrightarrow> viterator (vertex_at g' x) = viterator (vertex_at g x) \<and> processed g' x = processed g x"
    and "length (viterator (vertex_at g' v)) + (if processed g' v then 0 else 1) <
      length (viterator (vertex_at g v)) + (if processed g v then 0 else (1 :: nat))"
  shows "search_measure g' < search_measure g"
proof -
  define m where "m g x = length (viterator (vertex_at g x)) + (if processed g x then 0 else (1 :: nat))" for g x
  have count: "vcount g' = vcount g" using assms(1) by (simp add: same_graph_def)
  have split: "search_measure h = m h v + (\<Sum>x\<in>{..<vcount g} - {v}. m h x)" if "vcount h = vcount g" for h
    unfolding search_measure_def m_def that using assms(2) by (intro sum.remove) auto
  have "(\<Sum>x\<in>{..<vcount g} - {v}. m g' x) = (\<Sum>x\<in>{..<vcount g} - {v}. m g x)"
    using assms(3) by (intro sum.cong) (simp_all add: m_def)
  moreover have "m g' v < m g v" using assms(4) by (simp add: m_def)
  ultimately show ?thesis using split [OF count] split [OF HOL.refl] by simp
qed

text \<open>A new search at a vertex without parent.\<close>

lemma search_begin:
  assumes "search_inv g fin []" "i < vcount g" "unprocessed g i"
  shows "search_inv g fin [i]"
proof -
  note I = search_invD [OF assms(1)]
  have "vparent (vertex_at g i) = None" using I(7) assms(2,3) by simp
  moreover have "\<exists>d. vchildren (vertex_at g x) = d @ viterator (vertex_at g x) \<and> (\<forall>y\<in>set d. processed g y \<or> y \<in> set [i])"
    if "x < vcount g" for x using I(9) [OF that] by auto
  ultimately show ?thesis using I assms(2,3) unfolding search_inv_def by simp
qed

lemma same_graph_trans: "same_graph g g' \<Longrightarrow> same_graph g' g'' \<Longrightarrow> same_graph g g''"
  by (simp add: same_graph_def)

lemma same_graph_upd:
  "(\<And>x. vdata (f x) = vdata x \<and> vchildren (f x) = vchildren x) \<Longrightarrow> same_graph g h \<Longrightarrow> same_graph g (upd_vertex v f h)"
  by (simp add: same_graph_def)

lemma sort_step_inv:
  assumes "loop_inv g0 targets fin st s" "si s < vcount g0"
  shows "\<exists>fin' st'. loop_inv g0 targets fin' st' (sort_step targets s) \<and>
    search_measure (sgraph (sort_step targets s)) < search_measure (sgraph s)"
proof -
  define g where "g = sgraph s"
  define v where "v = svertex s"
  define gp where "gp = upd_vertex v (\<lambda>x. x\<lparr>vstate := ALPM_GRAPH_STATE_PROCESSING\<rparr>) g"
  have L: "same_graph g0 g" "search_inv g fin st" "st \<noteq> []" "hd st = v" "last st = si s" "\<forall>j < si s. processed g j"
      "newtargs s = filter (\<lambda>p. p \<in> set targets) (map (dat g0) fin)" "vcount g = vcount g0"
    using assms by (simp_all add: loop_inv_def g_def v_def same_graph_def)
  obtain st0 where st: "st = v # st0" using L(3,4) by (cases st) auto
  note inv = L(2) [unfolded st]
  note I = search_invD [OF inv]
  have v: "v < vcount g" "\<not> processed g v" using I(4) [of v] by simp_all
  obtain rest child warn where next_c: "next_child targets gp v (viterator (vertex_at gp v)) (warnings s) = (rest, child, warn)"
    by (metis prod_cases3)
  have iter: "viterator (vertex_at gp v) = viterator (vertex_at g v)" by (simp add: gp_def)
  define gi where "gi = upd_vertex v (\<lambda>x. x\<lparr>viterator := rest\<rparr>) gp"
  have same_gi: "same_graph g gi" unfolding gi_def gp_def by (intro same_graph_upd) (simp_all add: same_graph_def)
  show ?thesis
  proof (cases child)
    case (Some c)
    obtain d where d: "viterator (vertex_at g v) = d @ c # rest" "unprocessed gp c" "\<forall>y\<in>set d. \<not> unprocessed gp y"
      using next_child_spec [OF next_c] Some iter by auto
    have c: "c \<noteq> v" "unprocessed g c" using d(2) by (auto simp: gp_def split: if_splits)
    have dy: "\<forall>y\<in>set d. y = v \<or> \<not> unprocessed g y" using d(3) by (auto simp: gp_def split: if_splits)
    have cn: "c < vcount g" using I(9) [OF v(1)] I(12) [OF v(1), of c] d(1) by auto
    define g' where "g' = upd_vertex c (\<lambda>x. x\<lparr>vparent := Some v\<rparr>) gi"
    have same: "same_graph g g'" unfolding g'_def by (intro same_graph_upd same_gi) simp
    have "search_inv g' fin (c # v # st0)"
      by (rule search_switch [OF inv same d(1) dy]) (use c cn in \<open>simp_all add: g'_def gi_def gp_def\<close>)
    moreover have step: "sort_step targets s = s\<lparr>warnings := warn, sgraph := g', svertex := c\<rparr>"
      using next_c Some by (simp add: sort_step_def Let_def g_def v_def gp_def gi_def g'_def)
    ultimately have "loop_inv g0 targets fin (c # v # st0) (sort_step targets s)"
    proof -
      assume "search_inv g' fin (c # v # st0)"
      moreover have "processed g' j" if "j < si s" for j
      proof -
        have "processed g j" using L(6) that by simp
        then show ?thesis using v(2) c(2) by (cases "j = v"; cases "j = c") (simp_all add: g'_def gi_def gp_def)
      qed
      moreover have "same_graph g0 g'" by (rule same_graph_trans [OF L(1) same])
      ultimately show ?thesis using assms L(5,7) st by (simp add: loop_inv_def step)
    qed
    moreover have "search_measure g' < search_measure g"
      by (rule search_measure_less [OF same v(1)]) (use c v d(1) in \<open>simp_all add: g'_def gi_def gp_def\<close>)
    ultimately show ?thesis using step g_def by auto
  next
    case None
    have r: "rest = []" "\<forall>y\<in>set (viterator (vertex_at g v)). y = v \<or> \<not> unprocessed g y"
      using next_child_spec [OF next_c] None iter by (auto simp: gp_def split: if_splits)
    define g' where "g' = upd_vertex v (\<lambda>x. x\<lparr>vstate := ALPM_GRAPH_STATE_PROCESSED\<rparr>) gi"
    have same: "same_graph g g'" unfolding g'_def by (intro same_graph_upd same_gi) simp
    have inv': "search_inv g' (fin @ [v]) st0"
      by (rule search_leave [OF inv same r(2)]) (simp_all add: g'_def gi_def gp_def r(1))
    have count: "vcount g' = vcount g" using same by (simp add: same_graph_def)
    have parent: "vparent (vertex_at g' v) = vparent (vertex_at g v)" by (simp add: g'_def gi_def gp_def)
    have less: "search_measure g' < search_measure g"
      by (rule search_measure_less [OF same v(1)]) (use v(2) in \<open>simp_all add: g'_def gi_def gp_def r(1)\<close>)
    have proc: "processed g' j" if "processed g j \<or> j = v" for j using that by (auto simp: g'_def gi_def gp_def)
    have nt: "newtargs s @ (if dat gi v \<in> set targets then [dat gi v] else []) =
        filter (\<lambda>p. p \<in> set targets) (map (dat g0) (fin @ [v]))"
      using L(1,7) same_gi by (simp add: same_graph_def)
    define s' where "s' = s\<lparr>warnings := warn, newtargs := newtargs s @ (if dat gi v \<in> set targets then [dat gi v] else [])\<rparr>"
    have step: "sort_step targets s =
        (case vparent (vertex_at g v) of
           Some p \<Rightarrow> s'\<lparr>sgraph := g', svertex := p\<rparr>
         | None \<Rightarrow> s'\<lparr>sgraph := g', si := next_unprocessed g' (si s + 1), svertex := next_unprocessed g' (si s + 1)\<rparr>)"
      using next_c None parent unfolding sort_step_def Let_def g_def [symmetric] v_def [symmetric] gp_def [symmetric]
      by (auto simp: gi_def [symmetric] g'_def [symmetric] s'_def alpm_list_add_def split: option.split)
    show ?thesis
    proof (cases st0)
      case Nil
      then have p: "vparent (vertex_at g v) = None" and i: "si s = v" using I(5) L(5) st by simp_all
      let ?i = "next_unprocessed g' (si s + 1)"
      have "si s + 1 \<le> vcount g'" using assms(2) count L(8) by simp
      note nx = next_unprocessed_spec [OF this]
      have all: "processed g' j" if "j < ?i" for j
      proof (cases "j \<le> si s")
        case True
        then have "processed g j \<or> j = v" using L(6) i by (cases "j = si s") simp_all
        then show ?thesis by (rule proc)
      next
        case False
        then have "\<not> unprocessed g' j" using nx(3) that by simp
        moreover have "j < vcount g'" using that nx(2) by simp
        ultimately show ?thesis using search_invD(8) [OF inv', of j] Nil by simp
      qed
      have nil: "search_inv g' (fin @ [v]) []" using inv' Nil by simp
      have st': "search_inv g' (fin @ [v]) (if ?i < vcount g0 then [?i] else [])"
        using nil search_begin [OF nil, of ?i] nx(4) count L(8) by simp
      have "?i \<le> vcount g0" using nx(2) count L(8) by simp
      then have "loop_inv g0 targets (fin @ [v]) (if ?i < vcount g0 then [?i] else []) (sort_step targets s)"
        using st' all nt same_graph_trans [OF L(1) same] by (simp add: loop_inv_def step p s'_def)
      moreover have "sgraph (sort_step targets s) = g'" using step p by simp
      ultimately show ?thesis using less g_def by blast
    next
      case (Cons p st1)
      then have p: "vparent (vertex_at g v) = Some p" using I(5) by simp
      have "loop_inv g0 targets (fin @ [v]) st0 (sort_step targets s)"
        using inv' nt proc assms(2) L(5,6) st Cons count L(8) same_graph_trans [OF L(1) same]
        by (simp add: loop_inv_def step p s'_def)
      moreover have "sgraph (sort_step targets s) = g'" using step p by simp
      ultimately show ?thesis using less g_def by blast
    qed
  qed
qed

lemma sort_loop_total:
  assumes "loop_inv g0 targets fin st s"
  shows "\<exists>t fin'. sort_loop targets s = Some t \<and> loop_inv g0 targets fin' [] t \<and> si t = vcount g0"
proof -
  let ?P = "\<lambda>s. \<exists>fin st. loop_inv g0 targets fin st s"
  have count: "vcount (sgraph s) = vcount g0" if "?P s" for s using that by (auto simp: loop_inv_def same_graph_def)
  have step: "?P (sort_step targets s) \<and> search_measure (sgraph (sort_step targets s)) < search_measure (sgraph s)"
    if "?P s" "si s < vcount (sgraph s)" for s using that sort_step_inv count by metis
  obtain t where t: "while_option (\<lambda>s. si s < vcount (sgraph s)) (sort_step targets) s = Some t"
    using measure_while_option_Some [of ?P "\<lambda>s. si s < vcount (sgraph s)" "sort_step targets" "\<lambda>s. search_measure (sgraph s)" s]
      step assms by blast
  have "?P t" by (rule while_option_rule [OF _ t]) (use step assms in blast)+
  moreover have "\<not> si t < vcount (sgraph t)" using while_option_stop [OF t] .
  ultimately obtain fin' st' where "loop_inv g0 targets fin' st' t" "si t = vcount g0"
    using count by (metis le_neq_implies_less loop_inv_def)
  moreover from this have "st' = []" by (simp add: loop_inv_def)
  ultimately show ?thesis using t by (auto simp: sort_loop_def)
qed

lemma graph_locals_spec:
  assumes "distinct (map (\<lambda>p. pname (ps p)) cache)"
  shows "set (graph_locals ps cache targets ignore) =
      {p \<in> set cache. pname (ps p) \<notin> pname ` ps ` set targets \<and> pname (ps p) \<notin> pname ` ps ` set ignore}"
    "distinct (graph_locals ps cache targets ignore)"
  using pkg_diff [OF assms, of targets] pkg_diff [OF pkg_diff(3) [OF assms], of targets ignore]
  by (cases "ignore = []"; simp add: graph_locals_def Let_def)+

section \<open>Properties\<close>

text \<open>The state in which the search starts.\<close>

lemma search_init:
  assumes "graph_init_ok ps targets locals g" "0 < vcount g"
  shows "loop_inv g targets [] [0] \<lparr>sgraph = g, si = 0, svertex = 0, newtargs = [], warnings = []\<rparr>"
  using assms unfolding loop_inv_def search_inv_def graph_init_ok_def same_graph_def by simp

text \<open>What the search gives on the graph it is run on.\<close>

lemma sortbydeps_run:
  assumes "targets \<noteq> []" "g = dep_graph_init (wpkgs w) (cached_pkgs w (db_local (handle w))) targets ignore"
  shows "\<exists>fin warn. alpm_sortbydeps w targets ignore reverse =
      Some ((if reverse then rev else id) (filter (\<lambda>p. p \<in> set targets) (map (dat g) fin)), warn) \<and>
    mset fin = mset [0..<vcount g] \<and>
    (\<forall>k<length fin. \<forall>y. (fin ! k, y) \<in> edge g \<longrightarrow> y \<in> set (take k fin) \<or> (y, fin ! k) \<in> (edge g)\<^sup>*)"
proof -
  let ?s = "\<lparr>sgraph = g, si = 0, svertex = 0, newtargs = [], warnings = []\<rparr>"
  note ok = dep_graph_init_ok [of "wpkgs w" targets "cached_pkgs w (db_local (handle w))" ignore, folded assms(2)]
  have "length targets \<le> vcount g" using ok unfolding graph_init_ok_def
    by (metis diff_zero le_add1 length_append length_map length_upt)
  then have pos: "0 < vcount g" using assms(1) by (cases targets) auto
  obtain t fin where t: "sort_loop targets ?s = Some t" "loop_inv g targets fin [] t" "si t = vcount g"
    using sort_loop_total [OF search_init [OF ok pos]] by blast
  have inv: "search_inv (sgraph t) fin []" "same_graph g (sgraph t)"
      "newtargs t = filter (\<lambda>p. p \<in> set targets) (map (dat g) fin)" "\<forall>j<vcount g. processed (sgraph t) j"
    using t(2,3) by (simp_all add: loop_inv_def)
  note I = search_invD [OF inv(1)]
  have E: "edge (sgraph t) = edge g" "vcount (sgraph t) = vcount g"
    using same_graph_edge [OF inv(2)] inv(2) by (simp_all add: same_graph_def)
  have "set fin = {..<vcount g}" using I(2) inv(4) E(2) by auto
  then have "mset fin = mset [0..<vcount g]" using I(1) by (metis set_eq_iff_mset_eq_distinct distinct_upt atLeast0LessThan set_upt)
  moreover have "alpm_sortbydeps w targets ignore reverse = Some (if reverse then rev (newtargs t) else newtargs t, warnings t)"
    using t(1) assms by (simp add: alpm_sortbydeps_def Let_def)
  moreover have "\<forall>k<length fin. \<forall>y. (fin ! k, y) \<in> edge g \<longrightarrow> y \<in> set (take k fin) \<or> (y, fin ! k) \<in> (edge g)\<^sup>*"
    using I(11) E(1) by simp
  ultimately show ?thesis using inv(3) by (intro exI [of _ fin] exI [of _ "warnings t"]) simp
qed

lemma sortbydeps_result:
  assumes "loaded w (db_local (handle w))"
  shows "\<exists>new warn. alpm_sortbydeps w targets ignore reverse = Some (new, warn) \<and> mset new = mset targets"
proof (cases "targets = []")
  case False
  let ?cache = "cached_pkgs w (db_local (handle w))"
  define g where "g = dep_graph_init (wpkgs w) ?cache targets ignore"
  obtain fin warn where run: "alpm_sortbydeps w targets ignore reverse =
      Some ((if reverse then rev else id) (filter (\<lambda>p. p \<in> set targets) (map (dat g) fin)), warn)"
      "mset fin = mset [0..<vcount g]"
    using sortbydeps_run [OF False g_def] by blast
  obtain extra rest where data: "vertex_data g = targets @ extra" "mset extra + mset rest = mset (graph_locals (wpkgs w) ?cache targets ignore)"
    using dep_graph_init_ok [of "wpkgs w" targets ?cache ignore] unfolding g_def graph_init_ok_def by blast
  have names: "distinct (map (\<lambda>p. pname (wpkgs w p)) ?cache)" by (rule loaded_distinct [OF assms])
  have "set extra \<subseteq> set (graph_locals (wpkgs w) ?cache targets ignore)"
    using data(2) by (metis Un_upper1 set_mset_mset set_mset_union)
  then have "filter (\<lambda>p. p \<in> set targets) extra = []"
    using graph_locals_spec(1) [OF names] by (auto simp: filter_empty_conv)
  then have "filter (\<lambda>p. p \<in> set targets) (vertex_data g) = targets" using data(1) by (simp add: filter_id_conv)
  moreover have "mset (map (dat g) fin) = mset (vertex_data g)" using run(2) by simp
  ultimately have "mset (filter (\<lambda>p. p \<in> set targets) (map (dat g) fin)) = mset targets" by (metis mset_filter)
  then show ?thesis using run(1) by auto
qed (simp add: alpm_sortbydeps_def)

text \<open>C28: 
  Sorting returns, whatever cycles the dependencies have, and what it returns are the targets
  in some order.
\<close>

theorem sortbydeps_permutes:
  assumes "loaded w (db_local (handle w))"
  shows "\<exists>new warn. alpm_sortbydeps w targets ignore reverse = Some (new, warn) \<and> mset new = mset targets"
  by (rule sortbydeps_result [OF assms])

text \<open>The small system without a local database.\<close>

definition lone_world :: alpm_world where
  "lone_world = \<lparr>handle = alpm_handle_new, wdbs = \<lambda>_. alpm_db_new ''core'' False, wpkgs = pair_pkgs, next_ref = 2\<rparr>"

lemma lone_world_facts [simp]: "loaded lone_world (db_local (handle lone_world))" "wpkgs lone_world = pair_pkgs"
  "cached_pkgs lone_world (db_local (handle lone_world)) = []"
  by (simp_all add: lone_world_def loaded_def alpm_handle_new_def cached_pkgs_def)

theorem sortbydeps_permutes_witness:
  "\<exists>new warn. alpm_sortbydeps lone_world [9, 0, 9] [] True = Some (new, warn) \<and> mset new = {#9, 0, 9#}"
  using sortbydeps_permutes [of lone_world "[9, 0, 9]" "[]" True] by simp

text \<open>\<open>a\<close> stands before \<open>b\<close>.\<close>

definition before :: "'a list \<Rightarrow> 'a \<Rightarrow> 'a \<Rightarrow> bool" where
  "before xs a b \<longleftrightarrow> (\<exists>us vs ws. xs = us @ a # vs @ b # ws)"

lemma before_filter: "before xs a b \<Longrightarrow> P a \<Longrightarrow> P b \<Longrightarrow> before (filter P xs) a b"
  by (fastforce simp: before_def)

lemma before_rev: "before xs a b \<Longrightarrow> before (rev xs) b a"
  by (fastforce simp: before_def)

lemma before_map: "before xs a b \<Longrightarrow> before (map f xs) (f a) (f b)"
  by (fastforce simp: before_def)

lemma before_set: "before xs a b \<Longrightarrow> a \<in> set xs \<and> b \<in> set xs"
  by (auto simp: before_def)

lemma before_trans:
  assumes "distinct xs" "before xs a b" "before xs b c"
  shows "before xs a c"
proof -
  obtain us vs ws where 1: "xs = (us @ a # vs) @ b # ws" using assms(2) by (auto simp: before_def)
  obtain us' vs' ws' where 2: "xs = us' @ b # vs' @ c # ws'" using assms(3) by (auto simp: before_def)
  have "b \<notin> set (us @ a # vs)" "b \<notin> set ws" using assms(1) [unfolded 1] by auto
  moreover have "b \<notin> set us'" "b \<notin> set (vs' @ c # ws')" using assms(1) [unfolded 2] by auto
  ultimately have "us @ a # vs = us'" using 1 2 append_Cons_eq_iff [of b "us @ a # vs" ws us' "vs' @ c # ws'"] by simp
  then have "xs = us @ a # (vs @ b # vs') @ c # ws'" using 2 by simp
  then show ?thesis unfolding before_def by blast
qed

lemma before_take: "k < length xs \<Longrightarrow> y \<in> set (take k xs) \<Longrightarrow> before xs y (xs ! k)"
  unfolding before_def by (metis append.assoc append_Cons id_take_nth_drop split_list)

text \<open>
  The packages the order is about, with the dependencies between them, and those of the
  dependencies that are not part of a cycle.
\<close>

definition sort_relation :: "pkgs \<Rightarrow> pkgref set \<Rightarrow> pkgref rel" where
  "sort_relation ps V = {(p, q). p \<in> V \<and> q \<in> V \<and> dep_on ps p q}"

definition acyclic_part :: "'a rel \<Rightarrow> 'a rel" where
  "acyclic_part R = {(p, q) \<in> R. (q, p) \<notin> R\<^sup>*}"

text \<open>The order of the search, on packages.\<close>

lemma search_order:
  assumes ok: "graph_init_ok ps targets locals g"
    and fin: "mset fin = mset [0..<vcount g]"
      "\<forall>k<length fin. \<forall>y. (fin ! k, y) \<in> edge g \<longrightarrow> y \<in> set (take k fin) \<or> (y, fin ! k) \<in> (edge g)\<^sup>*"
    and data: "distinct (vertex_data g)"
    and pq: "(p, q) \<in> (acyclic_part (sort_relation ps (set targets \<union> set locals)))\<^sup>+" "p \<in> set (vertex_data g)"
  shows "before (map (dat g) fin) q p"
proof -
  let ?R = "sort_relation ps (set targets \<union> set locals)"
  obtain extra rest where D: "vertex_data g = targets @ extra" "mset extra + mset rest = mset locals"
      "\<forall>k<vcount g. \<forall>r\<in>set rest. \<not> dep_on ps (dat g k) r"
    using ok unfolding graph_init_ok_def by blast
  have locals: "set locals = set extra \<union> set rest" using D(2) by (metis set_mset_mset set_mset_union)
  have in_V: "dat g k \<in> set targets \<union> set locals" if "k < vcount g" for k
  proof -
    have "dat g k \<in> set (vertex_data g)" using that by simp
    then show ?thesis using D(1) locals by auto
  qed
  have edge: "(j, k) \<in> edge g \<longleftrightarrow> j < vcount g \<and> k < vcount g \<and> dep_on ps (dat g j) (dat g k)" for j k
    using ok by (auto simp: edge_def graph_init_ok_def)
  have lifted: "(dat g j, dat g k) \<in> ?R\<^sup>*" if "(j, k) \<in> (edge g)\<^sup>*" for j k
    using that
  proof (induction rule: rtrancl_induct)
    case (step k l)
    then have "(dat g k, dat g l) \<in> ?R" using in_V by (simp add: edge sort_relation_def)
    then show ?case using step.IH by (rule rtrancl.rtrancl_into_rtrancl [rotated])
  qed simp
  have set_fin: "set fin = {..<vcount g}" using fin(1) by (metis atLeast0LessThan set_mset_mset set_upt)
  have distinct_D: "distinct (map (dat g) fin)" using data fin(1) by (metis mset_eq_imp_distinct_iff mset_map)
  have set_D: "set (map (dat g) fin) = set (vertex_data g)" using set_fin by (simp add: atLeast0LessThan)
  have one: "before (map (dat g) fin) b a" if ab: "(a, b) \<in> acyclic_part ?R" and a: "a \<in> set (map (dat g) fin)" for a b
  proof -
    have dep: "dep_on ps a b" "b \<in> set targets \<union> set locals" "(b, a) \<notin> ?R\<^sup>*"
      using ab by (auto simp: acyclic_part_def sort_relation_def)
    obtain k where k: "k < length fin" "a = dat g (fin ! k)" using a by (auto simp: in_set_conv_nth)
    have fk: "fin ! k < vcount g" using nth_mem [OF k(1)] set_fin by simp
    have "b \<notin> set rest" using dep(1) D(3) fk k(2) by auto
    then have "b \<in> set (vertex_data g)" using dep(2) D(1) locals by auto
    then obtain j where j: "j < vcount g" "b = dat g j" by auto
    have e: "(fin ! k, j) \<in> edge g" using dep(1) fk j k(2) by (simp add: edge)
    have "(j, fin ! k) \<notin> (edge g)\<^sup>*" using lifted dep(3) j(2) k(2) by blast
    then have "j \<in> set (take k fin)" using fin(2) k(1) e by blast
    then show ?thesis using before_map [OF before_take [OF k(1)], of j "dat g"] j(2) k(2) by simp
  qed
  from pq(1) show ?thesis
  proof (induction rule: trancl_induct)
    case (base b)
    then show ?case using one pq(2) set_D by blast
  next
    case (step b c)
    then have "before (map (dat g) fin) c b" using one before_set by metis
    then show ?case using before_trans [OF distinct_D _ step.IH] by blast
  qed
qed

text \<open>C27: 
  The order is right wherever the dependencies allow one: a target comes after the targets it
  depends on, directly or through installed packages that are neither targets nor ignored,
  as long as none of the dependencies on the way is part of a cycle; the other way round if
  the reverse order is asked for.
\<close>

theorem sortbydeps_orders:
  assumes "loaded w (db_local (handle w))" "distinct targets"
    and "alpm_sortbydeps w targets ignore reverse = Some (new, warn)"
    and "p \<in> set targets" "q \<in> set targets"
    and "(p, q) \<in> (acyclic_part (sort_relation (wpkgs w) (set targets \<union>
      set (graph_locals (wpkgs w) (cached_pkgs w (db_local (handle w))) targets ignore))))\<^sup>+"
  shows "if reverse then before new p q else before new q p"
proof -
  let ?cache = "cached_pkgs w (db_local (handle w))"
  let ?locals = "graph_locals (wpkgs w) ?cache targets ignore"
  define g where "g = dep_graph_init (wpkgs w) ?cache targets ignore"
  have ne: "targets \<noteq> []" using assms(4) by auto
  have ok: "graph_init_ok (wpkgs w) targets ?locals g" unfolding g_def by (rule dep_graph_init_ok)
  obtain fin warn' where run: "alpm_sortbydeps w targets ignore reverse =
      Some ((if reverse then rev else id) (filter (\<lambda>p. p \<in> set targets) (map (dat g) fin)), warn')"
      "mset fin = mset [0..<vcount g]"
      "\<forall>k<length fin. \<forall>y. (fin ! k, y) \<in> edge g \<longrightarrow> y \<in> set (take k fin) \<or> (y, fin ! k) \<in> (edge g)\<^sup>*"
    using sortbydeps_run [OF ne g_def] by blast
  note locals = graph_locals_spec [OF loaded_distinct [OF assms(1)]]
  obtain extra rest where D: "vertex_data g = targets @ extra" "mset extra + mset rest = mset ?locals"
    using ok unfolding graph_init_ok_def by blast
  have "mset extra \<subseteq># mset ?locals" using D(2) by (metis mset_subset_eq_add_left)
  then have "distinct extra" "set extra \<subseteq> set ?locals"
    using distinct_submset locals(2) by (blast, metis mset_subset_eqD set_mset_mset subsetI)
  then have data: "distinct (vertex_data g)" using D(1) assms(2) locals(1) by auto
  have "before (map (dat g) fin) q p"
    using search_order [OF ok run(2,3) data assms(6)] D(1) assms(4) by simp
  then have "before (filter (\<lambda>p. p \<in> set targets) (map (dat g) fin)) q p"
    using assms(4,5) by (intro before_filter) simp_all
  then show ?thesis using run(1) assms(3) before_rev by auto
qed

theorem sortbydeps_orders_witness:
  "\<exists>warn. alpm_sortbydeps lone_world [9, 0] [] False = Some ([0, 9], warn)"
proof -
  let ?R = "sort_relation pair_pkgs {9, 0}"
  obtain new warn where new: "alpm_sortbydeps lone_world [9, 0] [] False = Some (new, warn)" "mset new = mset [9, 0]"
    using sortbydeps_result [of lone_world "[9, 0]" "[]" False] by auto
  have on: "dep_on pair_pkgs p q \<longleftrightarrow> p \<noteq> 0 \<and> q = 0" for p q by (simp add: depends_on_iff)
  have "(0, 9) \<notin> ?R\<^sup>*" by (auto simp: sort_relation_def on elim: converse_rtranclE)
  then have dep: "(9, 0) \<in> (acyclic_part ?R)\<^sup>+" by (auto simp: acyclic_part_def sort_relation_def on)
  have "before new 0 9"
    using sortbydeps_orders [of lone_world "[9, 0]" "[]" False new warn 9 0] new(1) dep
    by (simp add: graph_locals_def alpm_list_diff_def alpm_list_msort.simps diff_sorted_only)
  moreover have "length new = 2" using mset_eq_length [OF new(2)] by simp
  ultimately have "new = [0, 9]" by (auto simp: before_def length_Suc_conv numeral_2_eq_2 append_eq_Cons_conv)
  then show ?thesis using new(1) by blast
qed

end
