(* ===== verification/AlpmConflict.thy ===== *)
theory AlpmConflict
  imports AlpmDeps
begin

text \<open>
  Conflicts (\<open>lib/libalpm/conflict.c\<close>): between packages, by their declared conflicts, and
  between the files of the targets and those of other targets and of the file system.
\<close>

section \<open>Package conflicts\<close>

definition conflict_new :: "alpm_pkg_t \<Rightarrow> alpm_pkg_t \<Rightarrow> alpm_depend_t \<Rightarrow> alpm_conflict_t" where
  "conflict_new pkg1 pkg2 reason =
     \<lparr>package1_hash = name_hash pkg1, package2_hash = name_hash pkg2, package1 = pname pkg1,
      package2 = pname pkg2, conflict_reason = reason\<rparr>"

definition alpm_conflict_dup :: "alpm_conflict_t \<Rightarrow> alpm_conflict_t" where
  "alpm_conflict_dup c =
     \<lparr>package1_hash = package1_hash c, package2_hash = package2_hash c, package1 = package1 c,
      package2 = package2 c, conflict_reason = conflict_reason c\<rparr>"

fun conflict_isin :: "alpm_conflict_t \<Rightarrow> alpm_conflict_t list \<Rightarrow> bool" where
  "conflict_isin needle [] = False"
| "conflict_isin needle (conflict # i) =
     (if package1_hash needle = package1_hash conflict \<and> package2_hash needle = package2_hash conflict \<and>
         strcmp (package1 needle) (package1 conflict) = 0 \<and> strcmp (package2 needle) (package2 conflict) = 0
      then True else conflict_isin needle i)"

definition add_conflict ::
  "alpm_conflict_t list \<Rightarrow> alpm_pkg_t \<Rightarrow> alpm_pkg_t \<Rightarrow> alpm_depend_t \<Rightarrow> alpm_conflict_t list" where
  "add_conflict baddeps pkg1 pkg2 reason =
     (let conflict = conflict_new pkg1 pkg2 reason
      in if conflict_isin conflict baddeps then baddeps else alpm_list_add baddeps conflict)"

text \<open>The three nested loops, from the inside out; \<open>order\<close> tells whether the order is kept.\<close>

fun check_conflict_pkgs ::
  "pkgs \<Rightarrow> alpm_pkg_t \<Rightarrow> alpm_depend_t \<Rightarrow> pkgref list \<Rightarrow> alpm_conflict_t list \<Rightarrow> int \<Rightarrow> alpm_conflict_t list" where
  "check_conflict_pkgs ps pkg1 conflict [] baddeps order = baddeps"
| "check_conflict_pkgs ps pkg1 conflict (pkg2 # k) baddeps order =
     check_conflict_pkgs ps pkg1 conflict k
       (if name_hash pkg1 = name_hash (ps pkg2) \<and> strcmp (pname pkg1) (pname (ps pkg2)) = 0 then baddeps
        else if alpm_depcmp (ps pkg2) conflict
        then (if order \<ge> 0 then add_conflict baddeps pkg1 (ps pkg2) conflict
              else add_conflict baddeps (ps pkg2) pkg1 conflict)
        else baddeps) order"

fun check_conflict_deps ::
  "pkgs \<Rightarrow> alpm_pkg_t \<Rightarrow> alpm_depend_t list \<Rightarrow> pkgref list \<Rightarrow> alpm_conflict_t list \<Rightarrow> int \<Rightarrow> alpm_conflict_t list" where
  "check_conflict_deps ps pkg1 [] list2 baddeps order = baddeps"
| "check_conflict_deps ps pkg1 (conflict # j) list2 baddeps order =
     check_conflict_deps ps pkg1 j list2 (check_conflict_pkgs ps pkg1 conflict list2 baddeps order) order"

fun check_conflict ::
  "pkgs \<Rightarrow> pkgref list \<Rightarrow> pkgref list \<Rightarrow> alpm_conflict_t list \<Rightarrow> int \<Rightarrow> alpm_conflict_t list" where
  "check_conflict ps [] list2 baddeps order = baddeps"
| "check_conflict ps (pkg1 # i) list2 baddeps order =
     check_conflict ps i list2 (check_conflict_deps ps (ps pkg1) (conflicts (ps pkg1)) list2 baddeps order) order"

definition alpm_innerconflicts :: "pkgs \<Rightarrow> pkgref list \<Rightarrow> alpm_conflict_t list" where
  "alpm_innerconflicts ps packages = check_conflict ps packages packages [] 0"

definition alpm_outerconflicts :: "alpm_world \<Rightarrow> dbref option \<Rightarrow> pkgref list \<Rightarrow> alpm_conflict_t list" where
  "alpm_outerconflicts w db packages =
     (if db = None then []
      else
        let dblist = alpm_list_diff (alpm_pkg_cmp (wpkgs w)) (cached_pkgs w db) packages;
            baddeps = check_conflict (wpkgs w) packages dblist [] 1
        in check_conflict (wpkgs w) dblist packages baddeps (-1))"

definition alpm_checkconflicts :: "pkgs \<Rightarrow> pkgref list \<Rightarrow> alpm_conflict_t list" where
  "alpm_checkconflicts ps pkglist = alpm_innerconflicts ps pkglist"

section \<open>File conflicts\<close>

text \<open>
  The file system, as far as the check looks at it: \<open>llstat\<close> (\<open>lstat\<close> without trailing
  slashes) and \<open>lstat\<close> tell whether a path is a directory, \<open>None\<close> if they fail; \<open>opendir\<close>
  gives the entries of a directory. Paths are taken to be shorter than \<open>PATH_MAX\<close> (the code
  indexes its buffer with the untruncated length).
\<close>

record fsys =
  llstat :: "string \<Rightarrow> bool option"
  lstat :: "string \<Rightarrow> bool option"
  opendir :: "string \<Rightarrow> string list option"

text \<open>An unowned file has the empty string as owner.\<close>

definition add_fileconflict ::
  "alpm_fileconflict_t list \<Rightarrow> string \<Rightarrow> alpm_pkg_t \<Rightarrow> alpm_pkg_t option \<Rightarrow> alpm_fileconflict_t list" where
  "add_fileconflict fileconflicts filestr pkg1 pkg2 =
     alpm_list_add fileconflicts
       (case pkg2 of
          None \<Rightarrow> \<lparr>fc_target = pname pkg1, fc_type = ALPM_FILECONFLICT_FILESYSTEM, fc_file = filestr, fc_ctarget = Some []\<rparr>
        | Some p2 \<Rightarrow>
            \<lparr>fc_target = pname pkg1,
             fc_type = (if origin p2 = ALPM_PKG_FROM_LOCALDB then ALPM_FILECONFLICT_FILESYSTEM else ALPM_FILECONFLICT_TARGET),
             fc_file = filestr, fc_ctarget = Some (pname p2)\<rparr>)"

definition has_file :: "alpm_pkg_t \<Rightarrow> string \<Rightarrow> bool" where
  "has_file pkg path \<longleftrightarrow> alpm_filelist_contains (Some (files pkg)) path \<noteq> None"

text \<open>
  Whether every entry below a directory belongs to one of the packages. The recursion goes
  down the directory tree; \<open>fuel\<close> bounds its depth. Every level makes the path longer, so
  \<open>PATH_MAX\<close> is enough.
\<close>

fun owned_by :: "pkgs \<Rightarrow> string \<Rightarrow> pkgref list \<Rightarrow> bool" where
  "owned_by ps path [] = False"
| "owned_by ps path (p # i) = (if has_file (ps p) path then True else owned_by ps path i)"

fun dir_entries_owned ::
  "(string \<Rightarrow> bool) \<Rightarrow> fsys \<Rightarrow> string \<Rightarrow> pkgs \<Rightarrow> string \<Rightarrow> pkgref list \<Rightarrow> string list \<Rightarrow> bool" where
  "dir_entries_owned sub fs rootdir ps dirpath pl [] = True"
| "dir_entries_owned sub fs rootdir ps dirpath pl (name # ents) =
     (if strcmp name ''.'' = 0 \<or> strcmp name ''..'' = 0 then dir_entries_owned sub fs rootdir ps dirpath pl ents
      else
        (case lstat fs (rootdir @ dirpath @ name) of
           None \<Rightarrow> False
         | Some is_dir \<Rightarrow>
             let path = dirpath @ name @ (if is_dir then ''/'' else []);
                 owned = owned_by ps path pl;
                 owned = (if owned \<and> is_dir then sub path else owned)
             in if \<not> owned then False else dir_entries_owned sub fs rootdir ps dirpath pl ents))"

fun dir_belongsto_pkgs :: "nat \<Rightarrow> fsys \<Rightarrow> string \<Rightarrow> pkgs \<Rightarrow> string \<Rightarrow> pkgref list \<Rightarrow> bool" where
  "dir_belongsto_pkgs 0 fs rootdir ps dirpath pl = False"
| "dir_belongsto_pkgs (Suc fuel) fs rootdir ps dirpath pl =
     (case opendir fs (rootdir @ dirpath) of
        None \<Rightarrow> False
      | Some ents \<Rightarrow>
          dir_entries_owned (\<lambda>path. dir_belongsto_pkgs fuel fs rootdir ps path pl) fs rootdir ps dirpath pl ents)"

definition alpm_db_find_file_owners :: "alpm_world \<Rightarrow> dbref option \<Rightarrow> string \<Rightarrow> pkgref list" where
  "alpm_db_find_file_owners w db path =
     foldl (\<lambda>owners p. if has_file (wpkgs w p) path then alpm_list_add owners p else owners) [] (cached_pkgs w db)"

fun find_owner_loop :: "pkgs \<Rightarrow> pkgref list \<Rightarrow> string \<Rightarrow> pkgref option" where
  "find_owner_loop ps [] path = None"
| "find_owner_loop ps (p # i) path = (if has_file (ps p) path then Some p else find_owner_loop ps i path)"

definition alpm_find_file_owner :: "alpm_world \<Rightarrow> string \<Rightarrow> pkgref option" where
  "alpm_find_file_owner w path = find_owner_loop (wpkgs w) (cached_pkgs w (db_local (handle w))) path"

definition alpm_can_overwrite_file :: "(string \<Rightarrow> string \<Rightarrow> bool) \<Rightarrow> alpm_handle_t \<Rightarrow> string \<Rightarrow> string \<Rightarrow> bool" where
  "alpm_can_overwrite_file fnm h path rootedpath \<longleftrightarrow>
     alpm_fnmatch_patterns fnm (overwrite_files h) path = 0 \<or>
     alpm_fnmatch_patterns fnm (overwrite_files h) rootedpath = 0"

text \<open>CHECK 1: a target against one that follows it, and against all that do.\<close>

fun common_conflicts ::
  "(string \<Rightarrow> string \<Rightarrow> bool) \<Rightarrow> alpm_handle_t \<Rightarrow> alpm_pkg_t \<Rightarrow> alpm_pkg_t \<Rightarrow> string list \<Rightarrow>
   alpm_fileconflict_t list \<Rightarrow> alpm_fileconflict_t list" where
  "common_conflicts fnm h p1 p2 [] fileconflicts = fileconflicts"
| "common_conflicts fnm h p1 p2 (common # k) fileconflicts =
     (let path = root h @ common
      in common_conflicts fnm h p1 p2 k
           (if alpm_can_overwrite_file fnm h common path \<and> has_file p2 common then fileconflicts
            else add_fileconflict fileconflicts path p1 (Some p2)))"

fun target_conflicts ::
  "(string \<Rightarrow> string \<Rightarrow> bool) \<Rightarrow> alpm_handle_t \<Rightarrow> pkgs \<Rightarrow> alpm_pkg_t \<Rightarrow> pkgref list \<Rightarrow>
   alpm_fileconflict_t list \<Rightarrow> alpm_fileconflict_t list" where
  "target_conflicts fnm h ps p1 [] fileconflicts = fileconflicts"
| "target_conflicts fnm h ps p1 (p2 # j) fileconflicts =
     target_conflicts fnm h ps p1 j
       (common_conflicts fnm h p1 (ps p2) (alpm_filelist_intersection (files p1) (files (ps p2))) fileconflicts)"

text \<open>CHECK 2. The files to look at, as the new list has them.\<close>

definition new_files :: "alpm_pkg_t \<Rightarrow> alpm_pkg_t option \<Rightarrow> string list" where
  "new_files p1 dbpkg =
     (case dbpkg of
        Some d \<Rightarrow> alpm_filelist_difference (files p1) (files d)
      | None \<Rightarrow> foldl (\<lambda>newfiles f. alpm_list_add newfiles (fname f)) [] (files p1))"

text \<open>
  Whether a conflict is resolved: by whom, and whether the files inside the path are skipped.
  The walk over the targets also finds the files that must not be removed afterwards.
\<close>

fun in_removed :: "pkgs \<Rightarrow> pkgref list \<Rightarrow> string \<Rightarrow> bool" where
  "in_removed ps [] path = False"
| "in_removed ps (rempkg # k) path = (if has_file (ps rempkg) path then True else in_removed ps k path)"

fun changed_hands :: "alpm_world \<Rightarrow> pkgref \<Rightarrow> pkgref list \<Rightarrow> string \<Rightarrow> bool" where
  "changed_hands w p1 [] path = False"
| "changed_hands w p1 (p2 # k) path =
     (if p1 = p2 then changed_hands w p1 k path
      else
        (case cached_pkg w (db_local (handle w)) (pname (wpkgs w p2)) of
           Some localp2 \<Rightarrow> if has_file (wpkgs w localp2) path then True else changed_hands w p1 k path
         | None \<Rightarrow> changed_hands w p1 k path))"

definition dir_replaced ::
  "fsys \<Rightarrow> alpm_world \<Rightarrow> pkgref option \<Rightarrow> pkgref list \<Rightarrow> string \<Rightarrow> bool" where
  "dir_replaced fs w dbpkg rem path =
     (let dir = path @ ''/'';
          owners = alpm_db_find_file_owners w (db_local (handle w)) dir
      in if owners = [] then False
         else
           let pl = (case dbpkg of None \<Rightarrow> [] | Some d \<Rightarrow> alpm_list_add [] d) @ rem
           in if alpm_list_diff (alpm_pkg_cmp (wpkgs w)) owners pl \<noteq> [] then False
              else dir_belongsto_pkgs PATH_MAX fs (root (handle w)) (wpkgs w) dir owners)"

datatype file_verdict =
    No_conflict
  | Resolved
  | Resolved_skip
  | Resolved_hands bool
  | Conflict

text \<open>
  The verdict on one file. \<open>path\<close> is relative to the root and without the trailing slash of
  a directory that stands in the way; \<open>Resolved_hands\<close> goes with an entry of the list of
  files not to be removed.
\<close>

definition check_file ::
  "(string \<Rightarrow> string \<Rightarrow> bool) \<Rightarrow> fsys \<Rightarrow> alpm_world \<Rightarrow> pkgref \<Rightarrow> pkgref option \<Rightarrow> pkgref list \<Rightarrow> pkgref list \<Rightarrow>
   string \<Rightarrow> string \<times> file_verdict" where
  "check_file fnm fs w p1 dbpkg upgrade rem filestr =
     (let h = handle w; ps = wpkgs w; path = root h @ filestr
      in case llstat fs path of
           None \<Rightarrow> (filestr, No_conflict)
         | Some isdir \<Rightarrow>
             let pfile_isdir = (path \<noteq> [] \<and> last path = CHR ''/'')
             in if pfile_isdir \<and> isdir then (filestr, No_conflict)
                else
                  let relative = (if pfile_isdir then butlast filestr else filestr);
                      path = root h @ relative;
                      overwrite = (\<not> isdir \<and> alpm_can_overwrite_file fnm h filestr path)
                  in (relative,
                      if pfile_isdir \<and> (case dbpkg of None \<Rightarrow> False | Some d \<Rightarrow> has_file (ps d) relative)
                      then Resolved_skip
                      else if in_removed ps rem relative
                      then (if pfile_isdir then Resolved_skip else Resolved)
                      else if changed_hands w p1 upgrade relative
                      then Resolved_hands (ends_slash filestr)
                      else if isdir \<and> dir_replaced fs w dbpkg rem relative then Resolved
                      else if alpm_needbackup (Some relative) (Some (ps p1)) \<noteq> None \<and>
                        \<not> owned_by ps relative (cached_pkgs w (db_local h))
                      then Resolved
                      else if overwrite then Resolved
                      else Conflict))"

text \<open>\<open>strncmp(filestr, filestr2, strlen(filestr)) == 0\<close> from the next node on.\<close>

definition skip_inside :: "string \<Rightarrow> string list \<Rightarrow> string list" where
  "skip_inside filestr j = dropWhile (\<lambda>filestr2. take (length filestr) filestr2 = filestr) j"

lemma skip_inside_length: "length (skip_inside f j) \<le> length j"
  by (simp add: skip_inside_def length_dropWhile_le)

text \<open>The walk over the new files; the state is the conflicts and the files not to be removed.\<close>

function check_files ::
  "(string \<Rightarrow> string \<Rightarrow> bool) \<Rightarrow> fsys \<Rightarrow> alpm_world \<Rightarrow> pkgref \<Rightarrow> pkgref option \<Rightarrow> pkgref list \<Rightarrow> pkgref list \<Rightarrow>
   string list \<Rightarrow> alpm_fileconflict_t list \<times> string list \<Rightarrow> alpm_fileconflict_t list \<times> string list" where
  "check_files fnm fs w p1 dbpkg upgrade rem [] st = st"
| "check_files fnm fs w p1 dbpkg upgrade rem (filestr # j) (fileconflicts, skip) =
     (let (relative, verdict) = check_file fnm fs w p1 dbpkg upgrade rem filestr;
          inside = skip_inside filestr j
      in case verdict of
           No_conflict \<Rightarrow> check_files fnm fs w p1 dbpkg upgrade rem j (fileconflicts, skip)
         | Resolved \<Rightarrow> check_files fnm fs w p1 dbpkg upgrade rem j (fileconflicts, skip)
         | Resolved_skip \<Rightarrow> check_files fnm fs w p1 dbpkg upgrade rem inside (fileconflicts, skip)
         | Resolved_hands dir \<Rightarrow>
             check_files fnm fs w p1 dbpkg upgrade rem (if dir then inside else j)
               (fileconflicts, alpm_list_add skip relative)
         | Conflict \<Rightarrow>
             check_files fnm fs w p1 dbpkg upgrade rem j
               (add_fileconflict fileconflicts (root (handle w) @ relative) (wpkgs w p1)
                  (map_option (wpkgs w) (alpm_find_file_owner w relative)), skip))"
  by pat_completeness auto
termination
  by (relation "measure (\<lambda>(_, _, _, _, _, _, _, j, _). length j)")
    (auto simp: less_Suc_eq_le skip_inside_length)

fun fileconflicts_loop ::
  "(string \<Rightarrow> string \<Rightarrow> bool) \<Rightarrow> fsys \<Rightarrow> alpm_world \<Rightarrow> pkgref list \<Rightarrow> pkgref list \<Rightarrow> pkgref list \<Rightarrow>
   alpm_fileconflict_t list \<times> string list \<Rightarrow> alpm_fileconflict_t list \<times> string list" where
  "fileconflicts_loop fnm fs w upgrade rem [] st = st"
| "fileconflicts_loop fnm fs w upgrade rem (p1 # i) (fileconflicts, skip) =
     (let fileconflicts = target_conflicts fnm (handle w) (wpkgs w) (wpkgs w p1) i fileconflicts;
          dbpkg = cached_pkg w (db_local (handle w)) (pname (wpkgs w p1));
          newfiles = new_files (wpkgs w p1) (map_option (wpkgs w) dbpkg)
      in fileconflicts_loop fnm fs w upgrade rem i
           (check_files fnm fs w p1 dbpkg upgrade rem newfiles (fileconflicts, skip)))"

text \<open>The conflicts; the files not to be removed go into the transaction.\<close>

definition alpm_db_find_fileconflicts ::
  "(string \<Rightarrow> string \<Rightarrow> bool) \<Rightarrow> fsys \<Rightarrow> alpm_world \<Rightarrow> pkgref list \<Rightarrow> pkgref list \<Rightarrow> alpm_fileconflict_t list \<times> alpm_world" where
  "alpm_db_find_fileconflicts fnm fs w upgrade rem =
     (let skip = (case trans (handle w) of None \<Rightarrow> [] | Some t \<Rightarrow> skip_remove t);
          (fileconflicts, skip) = fileconflicts_loop fnm fs w upgrade rem upgrade ([], skip)
      in (fileconflicts,
          w\<lparr>handle := (handle w)\<lparr>trans := map_option (\<lambda>t. t\<lparr>skip_remove := skip\<rparr>) (trans (handle w))\<rparr>\<rparr>))"

section \<open>Facts about package conflicts\<close>

text \<open>\<open>a\<close> declares a conflict that \<open>b\<close> satisfies.\<close>

definition declares :: "alpm_pkg_t \<Rightarrow> alpm_pkg_t \<Rightarrow> bool" where
  "declares a b \<longleftrightarrow> pname a \<noteq> pname b \<and> (\<exists>c\<in>set (conflicts a). alpm_depcmp b c)"

definition conflict_pair :: "alpm_conflict_t \<Rightarrow> string \<times> string" where
  "conflict_pair c = (package1 c, package2 c)"

text \<open>Lists as \<open>add_conflict\<close> makes them: the hashes are those of the names, no pair is there twice.\<close>

definition conflicts_ok :: "alpm_conflict_t list \<Rightarrow> bool" where
  "conflicts_ok cs \<longleftrightarrow> distinct (map conflict_pair cs) \<and>
     (\<forall>c\<in>set cs. package1_hash c = name_hash_of (package1 c) \<and> package2_hash c = name_hash_of (package2 c))"

lemma conflict_isin_iff:
  "conflicts_ok cs \<Longrightarrow> package1_hash c = name_hash_of (package1 c) \<Longrightarrow> package2_hash c = name_hash_of (package2 c) \<Longrightarrow>
   conflict_isin c cs \<longleftrightarrow> conflict_pair c \<in> conflict_pair ` set cs"
  by (induction cs) (auto simp: conflicts_ok_def conflict_pair_def)

lemma add_conflict_ok:
  assumes "conflicts_ok cs" "hashed a" "hashed b"
  shows "conflicts_ok (add_conflict cs a b r) \<and>
    conflict_pair ` set (add_conflict cs a b r) = insert (pname a, pname b) (conflict_pair ` set cs)"
proof -
  have pair: "conflict_pair (conflict_new a b r) = (pname a, pname b)"
    by (simp add: conflict_pair_def conflict_new_def)
  have "conflict_isin (conflict_new a b r) cs \<longleftrightarrow> (pname a, pname b) \<in> conflict_pair ` set cs"
    using conflict_isin_iff [OF assms(1), of "conflict_new a b r"] assms(2,3) pair
    by (simp add: conflict_new_def hashed_def)
  then show ?thesis using assms pair
    by (auto simp: add_conflict_def Let_def alpm_list_add_def conflicts_ok_def conflict_new_def hashed_def)
qed

text \<open>The pair in the order asked for.\<close>

definition ordered_pair :: "int \<Rightarrow> alpm_pkg_t \<Rightarrow> alpm_pkg_t \<Rightarrow> string \<times> string" where
  "ordered_pair order a b = (if order \<ge> 0 then (pname a, pname b) else (pname b, pname a))"

lemma check_conflict_pkgs_spec:
  assumes "hashed pkg1" "\<forall>q\<in>set list2. hashed (ps q)"
  shows "conflicts_ok cs \<Longrightarrow>
    conflicts_ok (check_conflict_pkgs ps pkg1 c list2 cs order) \<and>
    conflict_pair ` set (check_conflict_pkgs ps pkg1 c list2 cs order) =
      conflict_pair ` set cs \<union>
      {ordered_pair order pkg1 (ps q) |q. q \<in> set list2 \<and> pname pkg1 \<noteq> pname (ps q) \<and> alpm_depcmp (ps q) c}"
  using assms(2)
proof (induction list2 arbitrary: cs)
  case (Cons q list2)
  define cs' where "cs' = (if name_hash pkg1 = name_hash (ps q) \<and> strcmp (pname pkg1) (pname (ps q)) = 0 then cs
      else if alpm_depcmp (ps q) c
      then (if order \<ge> 0 then add_conflict cs pkg1 (ps q) c else add_conflict cs (ps q) pkg1 c) else cs)"
  have q: "hashed (ps q)" using Cons.prems(2) by simp
  have same: "name_hash pkg1 = name_hash (ps q) \<and> strcmp (pname pkg1) (pname (ps q)) = 0 \<longleftrightarrow> pname pkg1 = pname (ps q)"
    using assms(1) q by (auto simp: hashed_def)
  have cs': "conflicts_ok cs' \<and> conflict_pair ` set cs' = conflict_pair ` set cs \<union>
      (if pname pkg1 \<noteq> pname (ps q) \<and> alpm_depcmp (ps q) c then {ordered_pair order pkg1 (ps q)} else {})"
    using Cons.prems(1) add_conflict_ok [OF Cons.prems(1) assms(1) q, of c] add_conflict_ok [OF Cons.prems(1) q assms(1), of c]
    unfolding cs'_def same by (simp add: ordered_pair_def)
  have "check_conflict_pkgs ps pkg1 c (q # list2) cs order = check_conflict_pkgs ps pkg1 c list2 cs' order"
    by (simp add: cs'_def)
  then show ?case using Cons.IH [of cs'] Cons.prems(2) cs' by auto
qed simp

lemma check_conflict_deps_spec:
  assumes "hashed pkg1" "\<forall>q\<in>set list2. hashed (ps q)"
  shows "conflicts_ok cs \<Longrightarrow>
    conflicts_ok (check_conflict_deps ps pkg1 ds list2 cs order) \<and>
    conflict_pair ` set (check_conflict_deps ps pkg1 ds list2 cs order) =
      conflict_pair ` set cs \<union>
      {ordered_pair order pkg1 (ps q) |q. q \<in> set list2 \<and> pname pkg1 \<noteq> pname (ps q) \<and> (\<exists>c\<in>set ds. alpm_depcmp (ps q) c)}"
proof (induction ds arbitrary: cs)
  case (Cons c ds)
  note first = check_conflict_pkgs_spec [OF assms Cons.prems, of c order]
  show ?case using Cons.IH first by auto
qed simp

lemma check_conflict_spec:
  assumes "\<forall>p\<in>set list1 \<union> set list2. hashed (ps p)"
  shows "conflicts_ok cs \<Longrightarrow>
    conflicts_ok (check_conflict ps list1 list2 cs order) \<and>
    conflict_pair ` set (check_conflict ps list1 list2 cs order) =
      conflict_pair ` set cs \<union>
      {ordered_pair order (ps p) (ps q) |p q. p \<in> set list1 \<and> q \<in> set list2 \<and> declares (ps p) (ps q)}"
  using assms
proof (induction list1 arbitrary: cs)
  case (Cons p list1)
  have h: "hashed (ps p)" "\<forall>q\<in>set list2. hashed (ps q)" using Cons.prems(2) by auto
  note first = check_conflict_deps_spec [OF h Cons.prems(1), of "conflicts (ps p)" order]
  let ?cs = "check_conflict_deps ps (ps p) (conflicts (ps p)) list2 cs order"
  have "\<forall>p\<in>set list1 \<union> set list2. hashed (ps p)" using Cons.prems(2) by auto
  note IH = Cons.IH [OF first [THEN conjunct1] this]
  have eq: "conflict_pair ` set ?cs = conflict_pair ` set cs \<union>
      {ordered_pair order (ps p) (ps q) |q. q \<in> set list2 \<and> declares (ps p) (ps q)}"
    using first by (simp only: declares_def)
  have "{ordered_pair order (ps r) (ps q) |r q. r \<in> set (p # list1) \<and> q \<in> set list2 \<and> declares (ps r) (ps q)} =
      {ordered_pair order (ps p) (ps q) |q. q \<in> set list2 \<and> declares (ps p) (ps q)} \<union>
      {ordered_pair order (ps r) (ps q) |r q. r \<in> set list1 \<and> q \<in> set list2 \<and> declares (ps r) (ps q)}"
    by auto
  then show ?case using IH eq by (simp only: check_conflict.simps Un_assoc)
qed simp

lemma conflicts_ok_Nil [simp]: "conflicts_ok []"
  by (simp add: conflicts_ok_def)

section \<open>Properties of package conflicts\<close>

text \<open>
  Between the targets exactly the pairs are reported, once each, in which the first declares a
  conflict that the second, which has another name, satisfies.
\<close>

theorem innerconflicts_exact:
  assumes "\<forall>p\<in>set packages. hashed (ps p)"
  shows "conflict_pair ` set (alpm_innerconflicts ps packages) =
      {(pname (ps p), pname (ps q)) |p q. p \<in> set packages \<and> q \<in> set packages \<and> declares (ps p) (ps q)} \<and>
    distinct (map conflict_pair (alpm_innerconflicts ps packages))"
  using check_conflict_spec [of packages packages ps "[]" 0] assms
  by (simp add: alpm_innerconflicts_def ordered_pair_def conflicts_ok_def)

text \<open>Two packages, the first of which declares a conflict with the second's name.\<close>

definition rival_pkgs :: pkgs where
  "rival_pkgs p =
     alpm_pkg_new\<lparr>pname := pair_name p, name_hash := name_hash_of (pair_name p),
       conflicts := (if p = 0 then [] else [on_lib])\<rparr>"

lemma rival_facts [simp]:
  "hashed (rival_pkgs p)" "pname (rival_pkgs p) = pair_name p"
  "declares (rival_pkgs p) (rival_pkgs q) \<longleftrightarrow> p \<noteq> 0 \<and> q = 0"
  by (auto simp: hashed_def rival_pkgs_def pair_name_def declares_def alpm_depcmp_def alpm_depcmp_literal_def
      dep_vercmp_def alpm_pkg_new_def)

theorem innerconflicts_exact_witness:
  "conflict_pair ` set (alpm_innerconflicts rival_pkgs [0, 9]) = {(''app'', ''lib'')}"
  using innerconflicts_exact [of "[0, 9]" rival_pkgs] by (auto simp: pair_name_def)

text \<open>A set of packages is free of conflicts when none declares one that another satisfies.\<close>

definition conflict_free :: "pkgs \<Rightarrow> pkgref list \<Rightarrow> bool" where
  "conflict_free ps pl \<longleftrightarrow> (\<forall>p\<in>set pl. \<forall>q\<in>set pl. \<not> declares (ps p) (ps q))"

lemma outerconflicts_pairs:
  assumes "loaded w (Some d)" "\<forall>p\<in>set packages. hashed (wpkgs w p)"
    and "kept = filter (\<lambda>q. pname (wpkgs w q) \<notin> pname ` wpkgs w ` set packages) (cached_pkgs w (Some d))"
  shows "conflict_pair ` set (alpm_outerconflicts w (Some d) packages) =
    {(pname (wpkgs w p), pname (wpkgs w q)) |p q. p \<in> set packages \<and> q \<in> set kept \<and>
       (declares (wpkgs w p) (wpkgs w q) \<or> declares (wpkgs w q) (wpkgs w p))}"
proof -
  let ?ps = "wpkgs w"
  define dblist where "dblist = alpm_list_diff (alpm_pkg_cmp ?ps) (cached_pkgs w (Some d)) packages"
  have kept: "set dblist = set kept"
    unfolding dblist_def assms(3) by (simp add: pkg_diff(1) [OF loaded_distinct [OF assms(1)]])
  have h: "\<forall>p\<in>set packages \<union> set dblist. hashed (?ps p)"
    using assms(2) kept loaded_hashed [OF assms(1)] assms(3) by auto
  then have h': "\<forall>p\<in>set dblist \<union> set packages. hashed (?ps p)" by blast
  note 1 = check_conflict_spec [OF h conflicts_ok_Nil, of 1]
  note 2 = check_conflict_spec [OF h' 1 [THEN conjunct1], of "-1"]
  have "conflict_pair ` set (alpm_outerconflicts w (Some d) packages) =
      {ordered_pair 1 (?ps p) (?ps q) |p q. p \<in> set packages \<and> q \<in> set dblist \<and> declares (?ps p) (?ps q)} \<union>
      {ordered_pair (-1) (?ps p) (?ps q) |p q. p \<in> set dblist \<and> q \<in> set packages \<and> declares (?ps p) (?ps q)}"
    using 1 2 by (simp add: alpm_outerconflicts_def Let_def dblist_def)
  also have "\<dots> = {(pname (?ps p), pname (?ps q)) |p q. p \<in> set packages \<and> q \<in> set kept \<and>
       (declares (?ps p) (?ps q) \<or> declares (?ps q) (?ps p))}"
    unfolding kept ordered_pair_def by auto
  finally show ?thesis .
qed

text \<open>C30: 
  The two checks together are exact: on a system free of conflicts they report nothing if and
  only if the system stays free of conflicts when the packages are added and those of the same
  names go.
\<close>

theorem conflicts_checked:
  assumes "loaded w (Some d)" "\<forall>p\<in>set packages. hashed (wpkgs w p)"
    and "conflict_free (wpkgs w) (cached_pkgs w (Some d))"
  shows "alpm_innerconflicts (wpkgs w) packages = [] \<and> alpm_outerconflicts w (Some d) packages = [] \<longleftrightarrow>
    conflict_free (wpkgs w)
      (packages @ filter (\<lambda>q. pname (wpkgs w q) \<notin> pname ` wpkgs w ` set packages) (cached_pkgs w (Some d)))"
proof -
  let ?ps = "wpkgs w"
  define kept where "kept = filter (\<lambda>q. pname (?ps q) \<notin> pname ` ?ps ` set packages) (cached_pkgs w (Some d))"
  have pairs_Nil: "cs = [] \<longleftrightarrow> conflict_pair ` set cs = {}" for cs by simp
  have inner: "alpm_innerconflicts ?ps packages = [] \<longleftrightarrow>
      (\<forall>p\<in>set packages. \<forall>q\<in>set packages. \<not> declares (?ps p) (?ps q))"
    using check_conflict_spec [of packages packages ?ps "[]" 0] assms(2)
    unfolding alpm_innerconflicts_def ordered_pair_def by (simp add: pairs_Nil) blast
  have outer: "alpm_outerconflicts w (Some d) packages = [] \<longleftrightarrow>
      (\<forall>p\<in>set packages. \<forall>q\<in>set kept. \<not> declares (?ps p) (?ps q) \<and> \<not> declares (?ps q) (?ps p))"
    using outerconflicts_pairs [OF assms(1,2) kept_def]
    by (simp add: pairs_Nil) blast
  have "\<forall>p\<in>set kept. \<forall>q\<in>set kept. \<not> declares (?ps p) (?ps q)"
    using assms(3) by (simp add: conflict_free_def kept_def)
  then show ?thesis unfolding inner outer kept_def [symmetric] conflict_free_def set_append ball_Un by blast
qed

theorem conflicts_checked_witness:
  "\<exists>w d. alpm_innerconflicts (wpkgs w) [9] = [] \<and> cached_pkgs w (Some d) = [0] \<and> alpm_outerconflicts w (Some d) [9] \<noteq> []"
proof -
  obtain h where h: "pkghash_inv rival_pkgs h" "hlist h = [0]" using one_cache [of rival_pkgs 0] by auto
  define w where "w = (sync_world h)\<lparr>wpkgs := rival_pkgs\<rparr>"
  have w: "loaded w (Some 5)" "cached_pkgs w (Some 5) = [0]" "wpkgs w = rival_pkgs"
    using h by (simp_all add: w_def sync_world_def loaded_def has_status_def cached_pkgs_def)
  have "conflict_free (wpkgs w) (cached_pkgs w (Some 5))" by (simp add: conflict_free_def w)
  from conflicts_checked [OF w(1) _ this, of "[9]"]
  have "\<not> (alpm_innerconflicts rival_pkgs [9] = [] \<and> alpm_outerconflicts w (Some 5) [9] = [])"
    by (simp add: conflict_free_def w pair_name_def)
  moreover have "alpm_innerconflicts rival_pkgs [9] = []"
    by (simp add: alpm_innerconflicts_def rival_pkgs_def pair_name_def)
  ultimately show ?thesis using w by metis
qed

section \<open>Properties of file conflicts\<close>

lemma in_removed_iff: "in_removed ps rem path \<longleftrightarrow> (\<exists>r\<in>set rem. has_file (ps r) path)"
  by (induction rem) auto

lemma owned_by_iff: "owned_by ps path pl \<longleftrightarrow> (\<exists>p\<in>set pl. has_file (ps p) path)"
  by (induction pl) auto

lemma changed_hands_iff:
  "changed_hands w p1 upgrade path \<longleftrightarrow>
    (\<exists>p2\<in>set upgrade. p2 \<noteq> p1 \<and> (\<exists>l. cached_pkg w (db_local (handle w)) (pname (wpkgs w p2)) = Some l \<and> has_file (wpkgs w l) path))"
  by (induction upgrade) (auto split: option.split)

text \<open>
  The grounds on which a file of the new package \<open>p1\<close> may take the place of something that
  exists: it is removed with another package, it was another target's, it is a directory of
  which all goes, it is unowned and backed up, or overwriting it is allowed.
\<close>

definition may_replace ::
  "(string \<Rightarrow> string \<Rightarrow> bool) \<Rightarrow> fsys \<Rightarrow> alpm_world \<Rightarrow> pkgref \<Rightarrow> pkgref option \<Rightarrow> pkgref list \<Rightarrow> pkgref list \<Rightarrow>
   bool \<Rightarrow> string \<Rightarrow> bool" where
  "may_replace fnm fs w p1 dbpkg upgrade rem isdir file \<longleftrightarrow>
     (\<exists>r\<in>set rem. has_file (wpkgs w r) file) \<or>
     (\<exists>p2\<in>set upgrade. p2 \<noteq> p1 \<and>
        (\<exists>l. cached_pkg w (db_local (handle w)) (pname (wpkgs w p2)) = Some l \<and> has_file (wpkgs w l) file)) \<or>
     (isdir \<and> dir_replaced fs w dbpkg rem file) \<or>
     (alpm_needbackup (Some file) (Some (wpkgs w p1)) \<noteq> None \<and>
        (\<forall>p\<in>set (cached_pkgs w (db_local (handle w))). \<not> has_file (wpkgs w p) file)) \<or>
     (\<not> isdir \<and> alpm_can_overwrite_file fnm (handle w) file (root (handle w) @ file))"

lemma check_file_plain:
  assumes "f \<noteq> []" "\<not> ends_slash f" "llstat fs (root (handle w) @ f) = Some isdir"
    and "check_file fnm fs w p1 dbpkg upgrade rem f = (relative, v)" "v \<noteq> Conflict"
  shows "may_replace fnm fs w p1 dbpkg upgrade rem isdir f"
proof -
  have "last f \<noteq> CHR ''/''" using assms(1,2) by (simp add: ends_slash_def last_conv_nth)
  then show ?thesis
    using assms unfolding check_file_def may_replace_def in_removed_iff changed_hands_iff owned_by_iff
    by (auto simp: Let_def split: if_splits)
qed

lemma check_file_skips:
  assumes "check_file fnm fs w p1 dbpkg upgrade rem f = (relative, v)" "v = Resolved_skip \<or> v = Resolved_hands True" "f \<noteq> []"
  shows "ends_slash f \<and> llstat fs (root (handle w) @ f) = Some False"
proof -
  have e: "(root (handle w) @ f \<noteq> [] \<and> last (root (handle w) @ f) = CHR ''/'') \<longleftrightarrow> ends_slash f"
    using assms(3) by (simp add: ends_slash_def last_conv_nth [of f])
  show ?thesis using assms(1,2) unfolding check_file_def Let_def e by (auto split: if_splits option.splits)
qed

text \<open>One round of the walk: what is looked at next and what is added.\<close>

lemma check_files_Cons:
  assumes "check_file fnm fs w p1 dbpkg upgrade rem f = (relative, v)"
  shows "\<exists>fl' new skip1. check_files fnm fs w p1 dbpkg upgrade rem (f # fl) (cs, skip) =
      check_files fnm fs w p1 dbpkg upgrade rem fl' (cs @ new, skip1) \<and>
    (fl' = fl \<or> fl' = skip_inside f fl \<and> (v = Resolved_skip \<or> v = Resolved_hands True)) \<and> (v = Conflict \<longrightarrow> new \<noteq> [])"
proof (cases v)
  case Conflict
  then show ?thesis using assms by (auto simp: add_fileconflict_def alpm_list_add_def split: option.split)
next
  case (Resolved_hands dir)
  then show ?thesis using assms
    by (intro exI [of _ "if dir then skip_inside f fl else fl"] exI [of _ "[]"] exI [of _ "alpm_list_add skip relative"])
      (cases dir; simp)
next
  case Resolved_skip
  then show ?thesis using assms
    by (intro exI [of _ "skip_inside f fl"] exI [of _ "[]"] exI [of _ skip]) simp
next
  case No_conflict
  then show ?thesis using assms by (intro exI [of _ fl] exI [of _ "[]"] exI [of _ skip]) simp
next
  case Resolved
  then show ?thesis using assms by (intro exI [of _ fl] exI [of _ "[]"] exI [of _ skip]) simp
qed

lemma check_files_grow:
  "\<exists>new. fst (check_files fnm fs w p1 dbpkg upgrade rem fl (cs, skip)) = cs @ new"
proof (induction "length fl" arbitrary: fl cs skip rule: less_induct)
  case less
  show ?case
  proof (cases fl)
    case (Cons f fl0)
    obtain relative v where "check_file fnm fs w p1 dbpkg upgrade rem f = (relative, v)" by fastforce
    from check_files_Cons [OF this, of fl0 cs skip] obtain fl' new skip1 where
      step: "check_files fnm fs w p1 dbpkg upgrade rem fl (cs, skip) = check_files fnm fs w p1 dbpkg upgrade rem fl' (cs @ new, skip1)"
      and "fl' = fl0 \<or> fl' = skip_inside f fl0" unfolding Cons by blast
    then have "length fl' < length fl" using Cons skip_inside_length [of f fl0] by auto
    from less [OF this, of "cs @ new" skip1] show ?thesis unfolding step by auto
  qed simp
qed

lemma check_files_none:
  "fst (check_files fnm fs w p1 dbpkg upgrade rem fl (cs, skip)) = cs \<Longrightarrow> f \<in> set fl \<Longrightarrow> [] \<notin> set fl \<Longrightarrow>
   snd (check_file fnm fs w p1 dbpkg upgrade rem f) \<noteq> Conflict \<or>
   (\<exists>d\<in>set fl. ends_slash d \<and> take (length d) f = d \<and> llstat fs (root (handle w) @ d) = Some False)"
proof (induction "length fl" arbitrary: fl cs skip rule: less_induct)
  case less
  obtain g fl0 where fl: "fl = g # fl0" using less.prems(2) by (cases fl) auto
  obtain relative v where v: "check_file fnm fs w p1 dbpkg upgrade rem g = (relative, v)" by fastforce
  from check_files_Cons [OF v, of fl0 cs skip] obtain fl' new skip1 where
    step: "check_files fnm fs w p1 dbpkg upgrade rem fl (cs, skip) = check_files fnm fs w p1 dbpkg upgrade rem fl' (cs @ new, skip1)"
    and fl': "fl' = fl0 \<or> fl' = skip_inside g fl0 \<and> (v = Resolved_skip \<or> v = Resolved_hands True)"
    and new: "v = Conflict \<longrightarrow> new \<noteq> []" unfolding fl by blast
  have "new = []" using less.prems(1) check_files_grow [of fnm fs w p1 dbpkg upgrade rem fl' "cs @ new" skip1] step by auto
  then have ok: "v \<noteq> Conflict" and rest: "fst (check_files fnm fs w p1 dbpkg upgrade rem fl' (cs, skip1)) = cs"
    using new less.prems(1) step by simp_all
  have len: "length fl' < length fl" and sub: "set fl' \<subseteq> set fl"
    using fl fl' skip_inside_length [of g fl0] by (auto simp: skip_inside_def dest: set_dropWhileD)
  consider "f = g" | "f \<in> set fl'" | "f \<in> set fl0" "f \<notin> set fl'" using less.prems(2) fl by auto
  then show ?case
  proof cases
    case 1
    then show ?thesis using ok v by simp
  next
    case 2
    have "[] \<notin> set fl'" using less.prems(3) sub by blast
    from less.hyps [OF len rest 2 this] show ?thesis using sub by blast
  next
    case 3
    then have skip: "fl' = skip_inside g fl0" "v = Resolved_skip \<or> v = Resolved_hands True" using fl' by auto
    then have "f \<in> set (takeWhile (\<lambda>f2. take (length g) f2 = g) fl0)"
      using 3 unfolding skip_inside_def by (metis Un_iff set_append takeWhile_dropWhile_id)
    then have "take (length g) f = g" by (auto dest: set_takeWhileD)
    moreover have "g \<noteq> []" using less.prems(3) fl by auto
    ultimately show ?thesis using check_file_skips [OF v skip(2)] fl by auto
  qed
qed

lemma common_conflicts_grow: "\<exists>new. common_conflicts fnm h p1 p2 fl cs = cs @ new"
proof (induction fnm h p1 p2 fl cs rule: common_conflicts.induct)
  case (2 fnm h p1 p2 f fl cs)
  then show ?case by (fastforce simp: Let_def add_fileconflict_def alpm_list_add_def)
qed simp

lemma common_conflicts_none:
  "common_conflicts fnm h p1 p2 fl cs = cs \<Longrightarrow> f \<in> set fl \<Longrightarrow> alpm_can_overwrite_file fnm h f (root h @ f) \<and> has_file p2 f"
proof (induction fl arbitrary: cs)
  case (Cons g fl)
  show ?case
  proof (cases "alpm_can_overwrite_file fnm h g (root h @ g) \<and> has_file p2 g")
    case True
    then show ?thesis using Cons by auto
  next
    case False
    then show ?thesis
      using Cons.prems(1) common_conflicts_grow [of fnm h p1 p2 fl "add_fileconflict cs (root h @ g) p1 (Some p2)"]
      by (auto simp: Let_def add_fileconflict_def alpm_list_add_def)
  qed
qed simp

lemma target_conflicts_grow: "\<exists>new. target_conflicts fnm h ps p1 ts cs = cs @ new"
proof (induction ts arbitrary: cs)
  case (Cons t ts)
  then show ?case
    using common_conflicts_grow [of fnm h p1 "ps t" "alpm_filelist_intersection (files p1) (files (ps t))" cs]
    by (metis append.assoc target_conflicts.simps(2))
qed simp

lemma target_conflicts_none:
  "target_conflicts fnm h ps p1 ts cs = cs \<Longrightarrow> t \<in> set ts \<Longrightarrow> f \<in> set (alpm_filelist_intersection (files p1) (files (ps t))) \<Longrightarrow>
   alpm_can_overwrite_file fnm h f (root h @ f) \<and> has_file (ps t) f"
proof (induction ts arbitrary: cs)
  case (Cons u ts)
  let ?cs = "common_conflicts fnm h p1 (ps u) (alpm_filelist_intersection (files p1) (files (ps u))) cs"
  have "?cs = cs"
    using Cons.prems(1) common_conflicts_grow [of fnm h p1 "ps u" "alpm_filelist_intersection (files p1) (files (ps u))" cs]
      target_conflicts_grow [of fnm h ps p1 ts ?cs] by auto
  then show ?case using Cons common_conflicts_none [of fnm h p1 "ps u"] by auto
qed simp

text \<open>One round of the outer loop adds to the conflicts at two places.\<close>

abbreviation round_files :: "alpm_world \<Rightarrow> pkgref \<Rightarrow> string list" where
  "round_files w t \<equiv>
     new_files (wpkgs w t) (map_option (wpkgs w) (cached_pkg w (db_local (handle w)) (pname (wpkgs w t))))"

lemma fileconflicts_round:
  "\<exists>new1 new2 skip1.
     target_conflicts fnm (handle w) (wpkgs w) (wpkgs w t) ts cs = cs @ new1 \<and>
     check_files fnm fs w t (cached_pkg w (db_local (handle w)) (pname (wpkgs w t))) upgrade rem
       (round_files w t) (cs @ new1, skip) = (cs @ new1 @ new2, skip1) \<and>
     fileconflicts_loop fnm fs w upgrade rem (t # ts) (cs, skip) =
       fileconflicts_loop fnm fs w upgrade rem ts (cs @ new1 @ new2, skip1)"
proof -
  obtain new1 where 1: "target_conflicts fnm (handle w) (wpkgs w) (wpkgs w t) ts cs = cs @ new1"
    using target_conflicts_grow by blast
  let ?st = "check_files fnm fs w t (cached_pkg w (db_local (handle w)) (pname (wpkgs w t))) upgrade rem
    (round_files w t) (cs @ new1, skip)"
  obtain new2 where "fst ?st = (cs @ new1) @ new2" using check_files_grow by blast
  then have 2: "?st = (cs @ new1 @ new2, snd ?st)" by (simp add: prod_eq_iff)
  have "fileconflicts_loop fnm fs w upgrade rem (t # ts) (cs, skip) = fileconflicts_loop fnm fs w upgrade rem ts ?st"
    by (simp only: fileconflicts_loop.simps Let_def 1)
  then show ?thesis
    by (intro exI [of _ new1] exI [of _ new2] exI [of _ "snd ?st"] conjI 1 2) (metis 2)
qed

lemma fileconflicts_loop_grow:
  "\<exists>new. fst (fileconflicts_loop fnm fs w upgrade rem ts (cs, skip)) = cs @ new"
proof (induction ts arbitrary: cs skip)
  case (Cons t ts)
  obtain new1 new2 skip1 where step: "fileconflicts_loop fnm fs w upgrade rem (t # ts) (cs, skip) =
      fileconflicts_loop fnm fs w upgrade rem ts (cs @ new1 @ new2, skip1)"
    using fileconflicts_round [of fnm w t ts cs] by blast
  obtain new3 where "fst (fileconflicts_loop fnm fs w upgrade rem ts (cs @ new1 @ new2, skip1)) = (cs @ new1 @ new2) @ new3"
    using Cons by blast
  then show ?case unfolding step by (intro exI [of _ "new1 @ new2 @ new3"]) simp
qed simp

lemma fileconflicts_loop_none:
  "fst (fileconflicts_loop fnm fs w upgrade rem (us @ t # ts) (cs, skip)) = cs \<Longrightarrow>
   \<exists>skip'. target_conflicts fnm (handle w) (wpkgs w) (wpkgs w t) ts cs = cs \<and>
    fst (check_files fnm fs w t (cached_pkg w (db_local (handle w)) (pname (wpkgs w t))) upgrade rem
      (round_files w t) (cs, skip')) = cs"
proof (induction us arbitrary: skip)
  case Nil
  obtain new1 new2 skip1 where
    1: "target_conflicts fnm (handle w) (wpkgs w) (wpkgs w t) ts cs = cs @ new1"
    and 2: "check_files fnm fs w t (cached_pkg w (db_local (handle w)) (pname (wpkgs w t))) upgrade rem
       (round_files w t) (cs @ new1, skip) = (cs @ new1 @ new2, skip1)"
    and 3: "fileconflicts_loop fnm fs w upgrade rem (t # ts) (cs, skip) =
       fileconflicts_loop fnm fs w upgrade rem ts (cs @ new1 @ new2, skip1)"
    using fileconflicts_round [of fnm w t ts cs] by blast
  obtain new3 where "fst (fileconflicts_loop fnm fs w upgrade rem ts (cs @ new1 @ new2, skip1)) = (cs @ new1 @ new2) @ new3"
    using fileconflicts_loop_grow by blast
  then have "new1 = []" "new2 = []" using Nil 3 by simp_all
  then show ?case using 1 2 by (intro exI [of _ skip]) simp
next
  case (Cons u us)
  obtain new1 new2 skip1 where
    3: "fileconflicts_loop fnm fs w upgrade rem (u # us @ t # ts) (cs, skip) =
       fileconflicts_loop fnm fs w upgrade rem (us @ t # ts) (cs @ new1 @ new2, skip1)"
    using fileconflicts_round [of fnm w u "us @ t # ts" cs] by blast
  obtain new3 where
    "fst (fileconflicts_loop fnm fs w upgrade rem (us @ t # ts) (cs @ new1 @ new2, skip1)) = (cs @ new1 @ new2) @ new3"
    using fileconflicts_loop_grow by blast
  then have "new1 = []" "new2 = []" using Cons.prems 3 by simp_all
  then have "fst (fileconflicts_loop fnm fs w upgrade rem (us @ t # ts) (cs, skip1)) = cs" using Cons.prems 3 by simp
  then show ?case by (rule Cons.IH)
qed

text \<open>C31: 
  When the check finds no conflict, installing is safe. A file that a target shares with a target
  after it may be overwritten and belongs to both; and a new file that stands in the place of
  something that exists has a ground to replace it, or lies inside a directory of the target
  that takes the place of something that is not a directory and was settled itself.
\<close>

theorem fileconflicts_none_safe:
  assumes "fst (alpm_db_find_fileconflicts fnm fs w upgrade rem) = []" "upgrade = us @ t # ts"
    and "f \<in> set (round_files w t)" "[] \<notin> set (round_files w t)" "\<not> ends_slash f"
    and "llstat fs (root (handle w) @ f) = Some isdir"
  shows "(may_replace fnm fs w t (cached_pkg w (db_local (handle w)) (pname (wpkgs w t))) upgrade rem isdir f \<or>
      (\<exists>d\<in>set (round_files w t). ends_slash d \<and> take (length d) f = d \<and> llstat fs (root (handle w) @ d) = Some False)) \<and>
    (\<forall>t'\<in>set ts. \<forall>g\<in>set (alpm_filelist_intersection (files (wpkgs w t)) (files (wpkgs w t'))).
      alpm_can_overwrite_file fnm (handle w) g (root (handle w) @ g) \<and> has_file (wpkgs w t') g)"
proof -
  let ?dbpkg = "cached_pkg w (db_local (handle w)) (pname (wpkgs w t))"
  define skip where "skip = (case trans (handle w) of None \<Rightarrow> [] | Some t \<Rightarrow> skip_remove t)"
  have "fst (fileconflicts_loop fnm fs w upgrade rem upgrade ([], skip)) = []"
    using assms(1) by (simp add: alpm_db_find_fileconflicts_def Let_def skip_def [symmetric] split_beta)
  then have "fst (fileconflicts_loop fnm fs w upgrade rem (us @ t # ts) ([], skip)) = []"
    using assms(2) by simp
  from fileconflicts_loop_none [OF this] obtain skip' where
    targets: "target_conflicts fnm (handle w) (wpkgs w) (wpkgs w t) ts [] = []"
    and walk: "fst (check_files fnm fs w t ?dbpkg upgrade rem (round_files w t) ([], skip')) = []" by blast
  obtain relative v where v: "check_file fnm fs w t ?dbpkg upgrade rem f = (relative, v)" by fastforce
  have "f \<noteq> []" using assms(3,4) by blast
  then have "v \<noteq> Conflict \<Longrightarrow> may_replace fnm fs w t ?dbpkg upgrade rem isdir f"
    using check_file_plain [of f fs w isdir fnm t ?dbpkg upgrade rem relative v] assms(5,6) v by simp
  then show ?thesis
    using check_files_none [OF walk assms(3,4)] v target_conflicts_none [OF targets] by auto
qed

text \<open>A target with one file, which exists and which the user lets it overwrite.\<close>

definition overwrite_world :: alpm_world where
  "overwrite_world =
     \<lparr>handle = alpm_handle_new\<lparr>overwrite_files := [''f'']\<rparr>, wdbs = \<lambda>_. alpm_db_new ''core'' False,
      wpkgs = \<lambda>_. alpm_pkg_new\<lparr>pname := ''app'', files := [\<lparr>fname = ''f'', fsize = 0, fmode = 0\<rparr>]\<rparr>, next_ref = 2\<rparr>"

definition full_disk :: fsys where
  "full_disk = \<lparr>llstat = \<lambda>_. Some False, lstat = \<lambda>_. Some False, opendir = \<lambda>_. None\<rparr>"

theorem fileconflicts_none_safe_witness:
  "may_replace (=) full_disk overwrite_world 9 None [9] [] False ''f'' \<and>
   fst (alpm_db_find_fileconflicts (=) full_disk overwrite_world [9] []) = []"
proof -
  have f: "new_files (wpkgs overwrite_world 9) None = [''f'']"
    "cached_pkg overwrite_world (db_local (handle overwrite_world)) (pname (wpkgs overwrite_world 9)) = None"
    by (simp_all add: overwrite_world_def alpm_handle_new_def cached_pkg_def new_files_def alpm_list_add_def)
  have none: "fst (alpm_db_find_fileconflicts (=) full_disk overwrite_world [9] []) = []"
    by (simp add: Let_def cached_pkgs_def alpm_needbackup_def alpm_pkg_new_def alpm_db_find_fileconflicts_def overwrite_world_def alpm_handle_new_def cached_pkg_def new_files_def
        alpm_list_add_def check_file_def full_disk_def ends_slash_def alpm_can_overwrite_file_def alpm_fnmatch_patterns_def)
  have "llstat full_disk (root (handle overwrite_world) @ ''f'') = Some False" "\<not> ends_slash ''f''"
    by (simp_all add: full_disk_def ends_slash_def)
  with fileconflicts_none_safe [OF none, of "[]" 9 "[]" "''f''" False] f show ?thesis
    using none by (simp add: ends_slash_def)
qed

end
