(* ===== verification/AlpmTargets.thy ===== *)
theory AlpmTargets
  imports AlpmDeps
begin

text \<open>
  What the operations on transactions share: access to the transaction the handle points to,
  and what is known of the library's state when packages are only added to the store.
\<close>

unbundle bit_operations_syntax

text \<open>\<open>handle->trans\<close>, for the functions that are only called with a transaction.\<close>

definition transaction :: "alpm_world \<Rightarrow> alpm_trans_t" where
  "transaction w = the (trans (handle w))"

definition upd_trans :: "(alpm_trans_t \<Rightarrow> alpm_trans_t) \<Rightarrow> alpm_world \<Rightarrow> alpm_world" where
  "upd_trans f w = w\<lparr>handle := (handle w)\<lparr>trans := map_option f (trans (handle w))\<rparr>\<rparr>"

definition has_flag :: "alpm_trans_t \<Rightarrow> u32 \<Rightarrow> bool" where
  "has_flag t f \<longleftrightarrow> tflags t AND f \<noteq> 0"

lemma transaction_upd [simp]: "trans (handle w) \<noteq> None \<Longrightarrow> transaction (upd_trans f w) = f (transaction w)"
  by (auto simp: transaction_def upd_trans_def)

lemma upd_trans_facts [simp]:
  "wpkgs (upd_trans f w) = wpkgs w" "next_ref (upd_trans f w) = next_ref w"
  "trans (handle (upd_trans f w)) = None \<longleftrightarrow> trans (handle w) = None"
  by (simp_all add: upd_trans_def)

lemma set_errno_facts [simp]:
  "wpkgs (set_errno e w) = wpkgs w" "next_ref (set_errno e w) = next_ref w" "wdbs (set_errno e w) = wdbs w"
  "transaction (set_errno e w) = transaction w" "trans (handle (set_errno e w)) = trans (handle w)"
  "db_local (handle (set_errno e w)) = db_local (handle w)" "dbs_sync (handle (set_errno e w)) = dbs_sync (handle w)"
  "assumeinstalled (handle (set_errno e w)) = assumeinstalled (handle w)"
  "no_dep_version (handle (set_errno e w)) = no_dep_version (handle w)"
  "pm_errno (handle (set_errno e w)) = e"
  by (simp_all add: set_errno_def transaction_def no_dep_version_def)

lemma set_errno_cached [simp]: "cached_pkgs (set_errno e w) db = cached_pkgs w db"
  unfolding cached_pkgs_def set_errno_facts ..

text \<open>A new package in the store, at the next free reference.\<close>

definition alloc_pkg :: "alpm_pkg_t \<Rightarrow> alpm_world \<Rightarrow> pkgref \<times> alpm_world" where
  "alloc_pkg p w = (next_ref w, w\<lparr>wpkgs := (wpkgs w)(next_ref w := p), next_ref := next_ref w + 1\<rparr>)"

definition upd_pkg :: "pkgref \<Rightarrow> (alpm_pkg_t \<Rightarrow> alpm_pkg_t) \<Rightarrow> alpm_world \<Rightarrow> alpm_world" where
  "upd_pkg p f w = w\<lparr>wpkgs := (wpkgs w)(p := f (wpkgs w p))\<rparr>"

lemma upd_pkg_facts [simp]:
  "handle (upd_pkg p f w) = handle w" "wdbs (upd_pkg p f w) = wdbs w" "next_ref (upd_pkg p f w) = next_ref w"
  "transaction (upd_pkg p f w) = transaction w" "wpkgs (upd_pkg p f w) = (wpkgs w)(p := f (wpkgs w p))"
  by (simp_all add: upd_pkg_def transaction_def)

lemma upd_pkg_cached [simp]: "cached_pkgs (upd_pkg p f w) db = cached_pkgs w db"
  unfolding cached_pkgs_def upd_pkg_facts ..

abbreviation localdb :: "alpm_world \<Rightarrow> dbref option" where
  "localdb w \<equiv> db_local (handle w)"

abbreviation names :: "alpm_world \<Rightarrow> pkgref list \<Rightarrow> string set" where
  "names w ps \<equiv> (\<lambda>p. pname (wpkgs w p)) ` set ps"

section \<open>States that a transaction goes through\<close>

text \<open>What a transaction changes of a package; the rest is its core.\<close>

definition pkg_core :: "alpm_pkg_t \<Rightarrow> alpm_pkg_t" where
  "pkg_core p = p\<lparr>preason := ALPM_PKG_REASON_EXPLICIT, removes := [], oldpkg := None, download_size := 0, infolevel := 0\<rparr>"

lemma pkg_core_eqD:
  assumes "pkg_core p = pkg_core q"
  shows "pname p = pname q" "name_hash p = name_hash q" "version p = version q" "provides p = provides q"
    "depends p = depends q" "conflicts p = conflicts q" "replaces p = replaces q" "groups p = groups q"
    "origin p = origin q" "origin_data p = origin_data q" "files p = files q" "filename p = filename q"
proof -
  have "pname (pkg_core p) = pname p" "name_hash (pkg_core p) = name_hash p" "version (pkg_core p) = version p"
    "provides (pkg_core p) = provides p" "depends (pkg_core p) = depends p" "conflicts (pkg_core p) = conflicts p"
    "replaces (pkg_core p) = replaces p" "groups (pkg_core p) = groups p" "origin (pkg_core p) = origin p"
    "origin_data (pkg_core p) = origin_data p" "files (pkg_core p) = files p" "filename (pkg_core p) = filename p" for p
    by (simp_all add: pkg_core_def)
  then show "pname p = pname q" "name_hash p = name_hash q" "version p = version q" "provides p = provides q"
    "depends p = depends q" "conflicts p = conflicts q" "replaces p = replaces q" "groups p = groups q"
    "origin p = origin q" "origin_data p = origin_data q" "files p = files q" "filename p = filename q"
    using assms by metis+
qed

lemma pkg_core_upd [simp]:
  "pkg_core (p\<lparr>preason := r\<rparr>) = pkg_core p" "pkg_core (p\<lparr>removes := l\<rparr>) = pkg_core p"
  "pkg_core (p\<lparr>oldpkg := q\<rparr>) = pkg_core p" "pkg_core (p\<lparr>download_size := n\<rparr>) = pkg_core p"
  "pkg_core (p\<lparr>infolevel := i\<rparr>) = pkg_core p"
  by (simp_all add: pkg_core_def)

lemma depcmp_core: "pkg_core p = pkg_core q \<Longrightarrow> alpm_depcmp p = alpm_depcmp q"
  by (rule ext) (simp add: alpm_depcmp_def alpm_depcmp_literal_def pkg_core_eqD [of p q])

lemma hashed_core: "pkg_core p = pkg_core q \<Longrightarrow> hashed p = hashed q"
  by (simp add: hashed_def pkg_core_eqD [of p q])

text \<open>
  \<open>w'\<close> has the databases and the handle of \<open>w\<close> up to the transaction (with the same flags and state) and
  the error code, and its packages and more; they are the same, or the same at their core.
\<close>

definition frame :: "alpm_handle_t \<Rightarrow> alpm_handle_t" where
  "frame h = h\<lparr>trans := None, pm_errno := ALPM_ERR_OK\<rparr>"

definition trans_frame :: "alpm_trans_t \<Rightarrow> u32 \<times> alpm_transstate_t" where
  "trans_frame t = (tflags t, tstate t)"

definition same_frame :: "alpm_world \<Rightarrow> alpm_world \<Rightarrow> bool" where
  "same_frame w w' \<longleftrightarrow>
     wdbs w' = wdbs w \<and> next_ref w \<le> next_ref w' \<and>
     map_option trans_frame (trans (handle w')) = map_option trans_frame (trans (handle w)) \<and>
     frame (handle w') = frame (handle w)"

definition extends :: "alpm_world \<Rightarrow> alpm_world \<Rightarrow> bool" where
  "extends w w' \<longleftrightarrow> same_frame w w' \<and> (\<forall>p<next_ref w. wpkgs w' p = wpkgs w p)"

definition evolves :: "alpm_world \<Rightarrow> alpm_world \<Rightarrow> bool" where
  "evolves w w' \<longleftrightarrow> same_frame w w' \<and> (\<forall>p<next_ref w. pkg_core (wpkgs w' p) = pkg_core (wpkgs w p))"

lemma extends_evolves: "extends w w' \<Longrightarrow> evolves w w'"
  by (simp add: extends_def evolves_def)

lemma extends_refl [simp, intro]: "extends w w"
  by (simp add: extends_def same_frame_def)

lemma evolves_refl [simp, intro]: "evolves w w"
  by (simp add: evolves_def same_frame_def)

lemma extends_trans [trans]: "extends w w' \<Longrightarrow> extends w' w'' \<Longrightarrow> extends w w''"
  by (simp add: extends_def same_frame_def)

lemma evolves_trans [trans]: "evolves w w' \<Longrightarrow> evolves w' w'' \<Longrightarrow> evolves w w''"
  by (simp add: evolves_def same_frame_def)

lemma same_frame_handle:
  assumes "same_frame w w'"
  shows "db_local (handle w') = db_local (handle w)" "dbs_sync (handle w') = dbs_sync (handle w)"
    "assumeinstalled (handle w') = assumeinstalled (handle w)" "no_dep_version (handle w') = no_dep_version (handle w)"
    "root (handle w') = root (handle w)" "wdbs w' = wdbs w" "trans (handle w') = None \<longleftrightarrow> trans (handle w) = None"
    "ignorepkg (handle w') = ignorepkg (handle w)" "ignoregroup (handle w') = ignoregroup (handle w)"
    "cachedirs (handle w') = cachedirs (handle w)"
proof -
  have h: "frame (handle w') = frame (handle w)"
    and t: "map_option trans_frame (trans (handle w')) = map_option trans_frame (trans (handle w))" and d: "wdbs w' = wdbs w"
    using assms by (simp_all add: same_frame_def)
  have "db_local (frame k) = db_local k" "dbs_sync (frame k) = dbs_sync k" "assumeinstalled (frame k) = assumeinstalled k"
    "root (frame k) = root k" "ignorepkg (frame k) = ignorepkg k" "ignoregroup (frame k) = ignoregroup k"
    "cachedirs (frame k) = cachedirs k" for k by (simp_all add: frame_def)
  then show "db_local (handle w') = db_local (handle w)" "dbs_sync (handle w') = dbs_sync (handle w)"
    "assumeinstalled (handle w') = assumeinstalled (handle w)" "root (handle w') = root (handle w)" "wdbs w' = wdbs w"
    "ignorepkg (handle w') = ignorepkg (handle w)" "ignoregroup (handle w') = ignoregroup (handle w)"
    "cachedirs (handle w') = cachedirs (handle w)"
    using h d by metis+
  show "no_dep_version (handle w') = no_dep_version (handle w)" "trans (handle w') = None \<longleftrightarrow> trans (handle w) = None"
    using t by (auto simp: no_dep_version_def trans_frame_def split: option.splits)
qed

lemma extends_same_frame: "extends w w' \<Longrightarrow> same_frame w w'"
  by (simp add: extends_def)

lemma evolves_same_frame: "evolves w w' \<Longrightarrow> same_frame w w'"
  by (simp add: evolves_def)

lemmas extends_handle = same_frame_handle [OF extends_same_frame]
lemmas evolves_handle = same_frame_handle [OF evolves_same_frame]

lemma same_frame_flag:
  assumes "same_frame w w'" "trans (handle w) \<noteq> None"
  shows "has_flag (transaction w') f = has_flag (transaction w) f"
  using assms by (auto simp: same_frame_def has_flag_def transaction_def trans_frame_def map_option_case split: option.splits)

lemma same_frame_state:
  assumes "same_frame w w'" "trans (handle w) \<noteq> None"
  shows "tstate (transaction w') = tstate (transaction w)"
  using assms by (auto simp: same_frame_def transaction_def trans_frame_def map_option_case split: option.splits)

lemmas extends_state = same_frame_state [OF extends_same_frame]
lemmas evolves_state = same_frame_state [OF evolves_same_frame]

lemmas extends_flag = same_frame_flag [OF extends_same_frame]
lemmas evolves_flag = same_frame_flag [OF evolves_same_frame]

lemma same_frame_cached_pkgs:
  assumes "same_frame w w'"
  shows "cached_pkgs w' db = cached_pkgs w db"
  unfolding cached_pkgs_def same_frame_handle(6) [OF assms] ..

lemmas extends_cached_pkgs = same_frame_cached_pkgs [OF extends_same_frame]
lemmas evolves_cached_pkgs = same_frame_cached_pkgs [OF evolves_same_frame]

lemma extends_set_errno [simp]: "extends w (set_errno e w') \<longleftrightarrow> extends w w'"
  by (simp add: extends_def same_frame_def set_errno_def frame_def)

lemma evolves_set_errno [simp]: "evolves w (set_errno e w') \<longleftrightarrow> evolves w w'"
  by (simp add: evolves_def same_frame_def set_errno_def frame_def)

lemma trans_frame_upd [simp]:
  "trans_frame (t\<lparr>unresolvable := a\<rparr>) = trans_frame t" "trans_frame (t\<lparr>tadd := b\<rparr>) = trans_frame t"
  "trans_frame (t\<lparr>tremove := c\<rparr>) = trans_frame t" "trans_frame (t\<lparr>skip_remove := d\<rparr>) = trans_frame t"
  by (simp_all add: trans_frame_def)

lemma extends_upd_trans: "(\<And>t. trans_frame (f t) = trans_frame t) \<Longrightarrow> extends w (upd_trans f w)"
  by (simp add: extends_def same_frame_def upd_trans_def frame_def option.map_comp comp_def)

lemma evolves_upd_pkg: "(\<And>q. pkg_core (f q) = pkg_core q) \<Longrightarrow> evolves w (upd_pkg p f w)"
  by (simp add: evolves_def same_frame_def)

lemma extends_alloc: "alloc_pkg p w = (r, w') \<Longrightarrow> extends w w'"
  by (auto simp: extends_def same_frame_def alloc_pkg_def)

text \<open>The references of a list are in use.\<close>

definition in_use :: "alpm_world \<Rightarrow> pkgref list \<Rightarrow> bool" where
  "in_use w ps \<longleftrightarrow> (\<forall>p\<in>set ps. p < next_ref w)"

lemma in_use_evolves: "in_use w ps \<Longrightarrow> evolves w w' \<Longrightarrow> in_use w' ps"
  by (auto simp: in_use_def evolves_def same_frame_def)

lemmas in_use_extends = in_use_evolves [OF _ extends_evolves]

lemma extends_pkg: "extends w w' \<Longrightarrow> in_use w ps \<Longrightarrow> p \<in> set ps \<Longrightarrow> wpkgs w' p = wpkgs w p"
  by (simp add: extends_def in_use_def)

lemma evolves_pkg: "evolves w w' \<Longrightarrow> in_use w ps \<Longrightarrow> p \<in> set ps \<Longrightarrow> pkg_core (wpkgs w' p) = pkg_core (wpkgs w p)"
  by (simp add: evolves_def in_use_def)

lemma evolves_names: "evolves w w' \<Longrightarrow> in_use w ps \<Longrightarrow> names w' ps = names w ps"
  by (intro image_cong pkg_core_eqD(1)) (auto simp: evolves_pkg)

lemmas extends_names = evolves_names [OF extends_evolves]

lemma loaded_evolves:
  assumes "loaded w db" "evolves w w'" "in_use w (cached_pkgs w db)"
  shows "loaded w' db"
proof (cases db)
  case (Some d)
  then obtain h where h: "pkgcache (wdbs w d) = Some h" "pkghash_inv (wpkgs w) h" and
    st: "has_status (wdbs w d) DB_STATUS_VALID" "has_status (wdbs w d) DB_STATUS_PKGCACHE"
    using assms(1) by (auto simp: loaded_def)
  have "cached_pkgs w db = hlist h" using Some h st by (simp add: cached_pkgs_def)
  then have "\<forall>p\<in>set (hlist h). pname (wpkgs w' p) = pname (wpkgs w p) \<and> name_hash (wpkgs w' p) = name_hash (wpkgs w p)"
    using evolves_pkg [OF assms(2,3)] by (auto dest: pkg_core_eqD)
  from pkghash_inv_same(1) [OF this h(2)] show ?thesis
    using Some h st evolves_handle(6) [OF assms(2)] by (simp add: loaded_def)
qed (simp add: loaded_def)

lemmas loaded_extends = loaded_evolves [OF _ extends_evolves]

lemma satisfiable_evolves:
  assumes "evolves w w'" "in_use w ps"
  shows "satisfiable (handle w') (wpkgs w') ps dep = satisfiable (handle w) (wpkgs w) ps dep"
  using depcmp_core [OF evolves_pkg [OF assms]] evolves_handle(3) [OF assms(1)] by (simp add: satisfiable_def)

lemma closed_evolves:
  assumes "evolves w w'" "in_use w ps"
  shows "closed (handle w') (wpkgs w') ps = closed (handle w) (wpkgs w) ps"
  using pkg_core_eqD(5) [OF evolves_pkg [OF assms]] evolves_handle(4) [OF assms(1)] satisfiable_evolves [OF assms]
  by (simp add: closed_def)

lemmas closed_extends = closed_evolves [OF extends_evolves]

end
