(* ===== verification/AlpmRemove.thy ===== *)
theory AlpmRemove
  imports AlpmTargets
begin

text \<open>
  Preparing a removal (\<open>lib/libalpm/remove.c\<close>): the targets, and what becomes of packages
  that need them. A result \<open>None\<close> is a loop that does not end; \<open>remove_prepare_closed\<close>
  shows that there is none.
\<close>

section \<open>Targets\<close>

text \<open>\<open>_alpm_pkg_dup\<close> into the store; \<open>-1\<close> would be a failed allocation.\<close>

definition dup_pkg :: "(alpm_pkg_t \<Rightarrow> bool) \<Rightarrow> alpm_world \<Rightarrow> pkgref \<Rightarrow> int \<times> pkgref \<times> alpm_world" where
  "dup_pkg force_load w p =
     (let (r, copy) = alpm_pkg_dup force_load (wpkgs w p)
      in (r, alloc_pkg copy w))"

definition alpm_remove_pkg :: "(alpm_pkg_t \<Rightarrow> bool) \<Rightarrow> alpm_world \<Rightarrow> pkgref option \<Rightarrow> int \<times> alpm_world" where
  "alpm_remove_pkg force_load w pkg =
     (let w = set_errno ALPM_ERR_OK w
      in case pkg of
           None \<Rightarrow> (-1, set_errno ALPM_ERR_WRONG_ARGS w)
         | Some p \<Rightarrow>
             if origin (wpkgs w p) \<noteq> ALPM_PKG_FROM_LOCALDB then (-1, set_errno ALPM_ERR_WRONG_ARGS w)
             else
               (case trans (handle w) of
                  None \<Rightarrow> (-1, set_errno ALPM_ERR_TRANS_NULL w)
                | Some t \<Rightarrow>
                    if tstate t \<noteq> STATE_INITIALIZED then (-1, set_errno ALPM_ERR_TRANS_NOT_INITIALIZED w)
                    else if alpm_pkg_find (wpkgs w) (tremove t) (Some (pname (wpkgs w p))) \<noteq> None then (0, w)
                    else
                      (let (r, copy, w') = dup_pkg force_load w p
                       in if r = -1 then (-1, w)
                          else (0, upd_trans (\<lambda>t. t\<lparr>tremove := alpm_list_add (tremove t) copy\<rparr>) w'))))"

section \<open>Packages that need a target\<close>

text \<open>One round over the missing dependencies: the packages that miss them become targets.\<close>

fun cascade_pull :: "(alpm_pkg_t \<Rightarrow> bool) \<Rightarrow> alpm_world \<Rightarrow> alpm_depmissing_t list \<Rightarrow> int \<times> alpm_world" where
  "cascade_pull force_load w [] = (0, w)"
| "cascade_pull force_load w (miss # i) =
     (case cached_pkg w (localdb w) (miss_target miss) of
        Some info \<Rightarrow>
          if alpm_pkg_find (wpkgs w) (tremove (transaction w)) (Some (pname (wpkgs w info))) = None
          then
            (let (r, copy, w') = dup_pkg force_load w info
             in if r = -1 then (-1, w)
                else cascade_pull force_load (upd_trans (\<lambda>t. t\<lparr>tremove := alpm_list_add (tremove t) copy\<rparr>) w') i)
          else cascade_pull force_load w i
      | None \<Rightarrow> cascade_pull force_load w i)"

definition check_removal :: "alpm_world \<Rightarrow> alpm_depmissing_t list" where
  "check_removal w =
     alpm_checkdeps (handle w) (wpkgs w) (cached_pkgs w (localdb w)) (tremove (transaction w)) [] True"

partial_function (option) remove_prepare_cascade ::
  "(alpm_pkg_t \<Rightarrow> bool) \<Rightarrow> alpm_world \<Rightarrow> alpm_depmissing_t list \<Rightarrow> (int \<times> alpm_world) option" where
  "remove_prepare_cascade force_load w lp =
     (if lp = [] then Some (0, w)
      else
        (let (r, w) = cascade_pull force_load w lp
         in if r \<noteq> 0 then Some (r, w) else remove_prepare_cascade force_load w (check_removal w)))"

text \<open>One round over the missing dependencies: the targets that are needed are dropped.\<close>

fun drop_needed :: "alpm_world \<Rightarrow> alpm_depmissing_t list \<Rightarrow> alpm_world" where
  "drop_needed w [] = w"
| "drop_needed w (miss # i) =
     (case alpm_pkg_find (wpkgs w) (tremove (transaction w)) (miss_causingpkg miss) of
        None \<Rightarrow> drop_needed w i
      | Some pkg \<Rightarrow>
          drop_needed
            (upd_trans (\<lambda>t. t\<lparr>tremove := fst (alpm_list_remove (alpm_pkg_cmp (wpkgs w)) (tremove t) pkg)\<rparr>) w) i)"

partial_function (option) remove_prepare_keep_needed ::
  "alpm_world \<Rightarrow> alpm_depmissing_t list \<Rightarrow> alpm_world option" where
  "remove_prepare_keep_needed w lp =
     (if lp = [] then Some w
      else (let w = drop_needed w lp in remove_prepare_keep_needed w (check_removal w)))"

text \<open>The optional dependencies of installed packages that are removed, as the events tell them.\<close>

definition remove_notify_needed_optdepends :: "alpm_world \<Rightarrow> pkgref list \<Rightarrow> (pkgref \<times> alpm_depend_t) list" where
  "remove_notify_needed_optdepends w lp =
     concat (map (\<lambda>pkg.
         if optdepends (wpkgs w pkg) \<noteq> [] \<and> alpm_pkg_find (wpkgs w) lp (Some (pname (wpkgs w pkg))) = None
         then map (Pair pkg)
           (filter (\<lambda>optdep. alpm_find_satisfier (wpkgs w) lp (alpm_dep_compute_string (Some optdep)) \<noteq> None)
             (optdepends (wpkgs w pkg)))
         else [])
       (cached_pkgs w (localdb w)))"

section \<open>Preparation\<close>

definition recurse_targets :: "(alpm_pkg_t \<Rightarrow> bool) \<Rightarrow> alpm_world \<Rightarrow> int \<times> alpm_world" where
  "recurse_targets force_load w =
     (let (r, targs, w) = alpm_recursedeps force_load w (localdb w) (tremove (transaction w))
            (has_flag (transaction w) ALPM_TRANS_FLAG_RECURSEALL)
      in (r, upd_trans (\<lambda>t. t\<lparr>tremove := targs\<rparr>) w))"

text \<open>The check, with what it reports in \<open>data\<close>.\<close>

definition remove_check_deps ::
  "(alpm_pkg_t \<Rightarrow> bool) \<Rightarrow> alpm_world \<Rightarrow> (int \<times> alpm_depmissing_t list \<times> alpm_world) option" where
  "remove_check_deps force_load w =
     (if has_flag (transaction w) ALPM_TRANS_FLAG_NODEPS then Some (0, [], w)
      else
        let lp = check_removal w
        in if lp = [] then Some (0, [], w)
           else if has_flag (transaction w) ALPM_TRANS_FLAG_CASCADE
           then map_option (\<lambda>(r, w). (if r \<noteq> 0 then -1 else 0, [], w)) (remove_prepare_cascade force_load w lp)
           else if has_flag (transaction w) ALPM_TRANS_FLAG_UNNEEDED
           then map_option (\<lambda>w. (0, [], w)) (remove_prepare_keep_needed w lp)
           else Some (-1, lp, set_errno ALPM_ERR_UNSATISFIED_DEPS w))"

definition alpm_remove_prepare ::
  "(alpm_pkg_t \<Rightarrow> bool) \<Rightarrow> alpm_world \<Rightarrow>
   (int \<times> alpm_depmissing_t list \<times> (pkgref \<times> alpm_depend_t) list \<times> alpm_world) option" where
  "alpm_remove_prepare force_load w =
     (let cascade = has_flag (transaction w) ALPM_TRANS_FLAG_CASCADE;
          recurse = has_flag (transaction w) ALPM_TRANS_FLAG_RECURSE;
          nodeps = has_flag (transaction w) ALPM_TRANS_FLAG_NODEPS;
          (r, w) = (if recurse \<and> \<not> cascade then recurse_targets force_load w else (0, w))
      in if r \<noteq> 0 then Some (-1, [], [], w)
         else
           (case remove_check_deps force_load w of
              None \<Rightarrow> None
            | Some (r, data, w) \<Rightarrow>
                if r \<noteq> 0 then Some (-1, data, [], w)
                else
                  (let (r, w) = (if cascade \<and> recurse then recurse_targets force_load w else (0, w))
                   in if r \<noteq> 0 then Some (-1, [], [], w)
                      else
                        Some (0, [], if nodeps then [] else remove_notify_needed_optdepends w (tremove (transaction w)), w))))"

section \<open>Facts about the rounds\<close>

text \<open>The state in which a removal is prepared; it is kept all along.\<close>

definition removal_ready :: "alpm_world \<Rightarrow> bool" where
  "removal_ready w \<longleftrightarrow> trans (handle w) \<noteq> None \<and> localdb w \<noteq> None \<and> loaded w (localdb w) \<and>
     in_use w (cached_pkgs w (localdb w)) \<and> in_use w (tremove (transaction w)) \<and>
     (\<forall>p\<in>set (tremove (transaction w)). hashed (wpkgs w p))"

abbreviation removed_names :: "alpm_world \<Rightarrow> string set" where
  "removed_names w \<equiv> names w (tremove (transaction w))"

text \<open>The installed packages that stay.\<close>

definition stays :: "alpm_world \<Rightarrow> pkgref list" where
  "stays w = after_change (wpkgs w) (cached_pkgs w (localdb w)) (tremove (transaction w)) []"

lemma ready_extends:
  assumes "removal_ready w" "extends w w'"
    and "in_use w' (tremove (transaction w'))" "\<forall>p\<in>set (tremove (transaction w')). hashed (wpkgs w' p)"
  shows "removal_ready w'"
  using assms loaded_extends [of w "localdb w" w'] extends_handle [OF assms(2)] extends_cached_pkgs [OF assms(2)]
    in_use_extends [OF _ assms(2)]
  by (simp add: removal_ready_def)

lemma pull_one:
  assumes "removal_ready w" "p \<in> set (cached_pkgs w (localdb w))" "dup_pkg force_load w p = (r, copy, w1)"
    and "w' = upd_trans (\<lambda>t. t\<lparr>tremove := alpm_list_add (tremove t) copy\<rparr>) w1"
  shows "r \<noteq> -1 \<and> extends w w' \<and> removal_ready w' \<and> removed_names w' = insert (pname (wpkgs w p)) (removed_names w)"
proof -
  obtain r' q where d: "alpm_pkg_dup force_load (wpkgs w p) = (r', q)" by fastforce
  have "r' = r" "alloc_pkg q w = (copy, w1)" using assms(3) unfolding dup_pkg_def d by simp_all
  with d have dup: "alpm_pkg_dup force_load (wpkgs w p) = (r, q)" "alloc_pkg q w = (copy, w1)" by simp_all
  have w1: "copy = next_ref w" "wpkgs w1 = (wpkgs w)(next_ref w := q)" "next_ref w1 = next_ref w + 1" "handle w1 = handle w"
    using dup(2) by (auto simp: alloc_pkg_def)
  have t: "trans (handle w) \<noteq> None" and use: "in_use w (tremove (transaction w))"
    using assms(1) by (simp_all add: removal_ready_def)
  have ext: "extends w w'"
    using extends_alloc [OF dup(2)] extends_upd_trans [of "\<lambda>t. t\<lparr>tremove := alpm_list_add (tremove t) copy\<rparr>" w1] assms(4)
    by (auto intro: extends_trans)
  have rem: "tremove (transaction w') = tremove (transaction w) @ [copy]"
    using t w1(4) assms(4) by (auto simp: alpm_list_add_def transaction_def upd_trans_def)
  have copy: "wpkgs w' copy = q" using w1 assms(4) by simp
  have q: "pname q = pname (wpkgs w p)" "name_hash q = name_hash (wpkgs w p)" using dup_same_deps [OF dup(1)] by simp_all
  have "hashed (wpkgs w p)" using assms(1,2) loaded_hashed by (auto simp: removal_ready_def)
  then have "hashed q" using q by (simp add: hashed_def)
  moreover have "in_use w' (tremove (transaction w'))"
    using in_use_extends [OF use ext] w1 assms(4) rem by (simp add: in_use_def)
  moreover have "hashed (wpkgs w' p)" if "p \<in> set (tremove (transaction w))" for p
    using that assms(1) extends_pkg [OF ext use] by (simp add: removal_ready_def)
  ultimately have "removal_ready w'" using ready_extends [OF assms(1) ext] rem copy by auto
  moreover have "r \<noteq> -1" using dup(1) by (auto simp: alpm_pkg_dup_def Let_def split: if_splits)
  moreover have "removed_names w' = insert (pname (wpkgs w p)) (removed_names w)"
    using extends_names [OF ext use] rem copy q by auto
  ultimately show ?thesis using ext by blast
qed

lemma cascade_pull_spec:
  "removal_ready w \<Longrightarrow>
   \<exists>w'. cascade_pull force_load w lp = (0, w') \<and> extends w w' \<and> removal_ready w' \<and>
     removed_names w' = removed_names w \<union> (names w (cached_pkgs w (localdb w)) \<inter> miss_target ` set lp)"
proof (induction lp arbitrary: w)
  case (Cons miss lp)
  have load: "loaded w (localdb w)" and use: "in_use w (cached_pkgs w (localdb w))"
    using Cons.prems by (simp_all add: removal_ready_def)
  show ?case
  proof (cases "cached_pkg w (localdb w) (miss_target miss)")
    case None
    then have "miss_target miss \<notin> names w (cached_pkgs w (localdb w))"
      using cached_pkg_Some [OF load, of "miss_target miss"] by force
    then show ?thesis using Cons.IH [OF Cons.prems] None by auto
  next
    case (Some info)
    then have info: "info \<in> set (cached_pkgs w (localdb w))" "pname (wpkgs w info) = miss_target miss"
      using cached_pkg_Some [OF load] by simp_all
    then have mem: "miss_target miss \<in> names w (cached_pkgs w (localdb w))" by force
    show ?thesis
    proof (cases "alpm_pkg_find (wpkgs w) (tremove (transaction w)) (Some (pname (wpkgs w info))) = None")
      case True
      obtain r copy w1 where dup: "dup_pkg force_load w info = (r, copy, w1)" by (metis prod_cases3)
      define w2 where "w2 = upd_trans (\<lambda>t. t\<lparr>tremove := alpm_list_add (tremove t) copy\<rparr>) w1"
      note one = pull_one [OF Cons.prems info(1) dup w2_def]
      then obtain w' where w': "cascade_pull force_load w2 lp = (0, w')" "extends w2 w'" "removal_ready w'"
        "removed_names w' = removed_names w2 \<union> (names w2 (cached_pkgs w2 (localdb w2)) \<inter> miss_target ` set lp)"
        using Cons.IH [of w2] by blast
      have ext: "extends w w2" using one by blast
      have same: "names w2 (cached_pkgs w2 (localdb w2)) = names w (cached_pkgs w (localdb w))"
        using extends_names [OF ext use] extends_cached_pkgs [OF ext] extends_handle(1) [OF ext] by simp
      have "cascade_pull force_load w (miss # lp) = cascade_pull force_load w2 lp"
        using Some True dup one by (simp add: w2_def)
      then show ?thesis using w' one ext info mem unfolding same by (auto intro: extends_trans)
    next
      case False
      then have "miss_target miss \<in> removed_names w" using pkg_find_Some info(2) by force
      then show ?thesis using Cons.IH [OF Cons.prems] Some False info by auto
    qed
  qed
qed (simp add: exI)

text \<open>What the check of a removal can report.\<close>

lemma check_removal_miss:
  assumes "removal_ready w" "miss \<in> set (check_removal w)"
  shows "miss_target miss \<in> names w (cached_pkgs w (localdb w)) - removed_names w \<and>
    (\<exists>n\<in>removed_names w. miss_causingpkg miss = Some n)"
proof -
  let ?ps = "wpkgs w" and ?cache = "cached_pkgs w (localdb w)" and ?rem = "tremove (transaction w)"
  have h: "\<forall>p\<in>set ?rem \<union> set []. hashed (?ps p)" using assms(1) by (simp add: removal_ready_def)
  obtain lp d where lp: "lp \<in> set ?cache" "untouched ?ps ?rem [] lp"
    and d: "\<exists>q\<in>set (filter (\<lambda>p. \<not> untouched ?ps ?rem [] p) ?cache). alpm_depcmp (?ps q) d"
    and miss: "miss = depmiss_new (pname (?ps lp)) d
        (Some (pname (?ps (the (find_dep_satisfier ?ps (filter (\<lambda>p. \<not> untouched ?ps ?rem [] p) ?cache) d)))))"
    using assms(2) unfolding check_removal_def alpm_checkdeps_def split_modified_filter [OF h]
    by (auto simp: check_reverse_concat check_reverse_deps_filter)
  obtain q where q: "find_dep_satisfier ?ps (filter (\<lambda>p. \<not> untouched ?ps ?rem [] p) ?cache) d = Some q"
    using d find_sat_None by blast
  then have "q \<in> set ?cache" "\<not> untouched ?ps ?rem [] q" using find_sat_Some [OF q] by auto
  then show ?thesis using lp miss q by (auto simp: untouched_def depmiss_new_def image_image)
qed

lemma cascade_total:
  "removal_ready w \<Longrightarrow>
   \<exists>w'. remove_prepare_cascade force_load w (check_removal w) = Some (0, w') \<and> extends w w' \<and> removal_ready w' \<and>
     check_removal w' = [] \<and> removed_names w \<subseteq> removed_names w'"
proof (induction "card (names w (cached_pkgs w (localdb w)) - removed_names w)" arbitrary: w rule: less_induct)
  case less
  let ?cache = "names w (cached_pkgs w (localdb w))"
  show ?case
  proof (cases "check_removal w")
    case Nil
    then show ?thesis using less.prems by (auto simp: remove_prepare_cascade.simps)
  next
    case (Cons miss lp)
    obtain w1 where w1: "cascade_pull force_load w (check_removal w) = (0, w1)" "extends w w1" "removal_ready w1"
      "removed_names w1 = removed_names w \<union> (?cache \<inter> miss_target ` set (check_removal w))"
      using cascade_pull_spec [OF less.prems] by blast
    have "in_use w (cached_pkgs w (localdb w))" using less.prems by (simp add: removal_ready_def)
    then have same: "names w1 (cached_pkgs w1 (localdb w1)) = ?cache"
      using extends_names [OF w1(2)] extends_cached_pkgs [OF w1(2)] extends_handle(1) [OF w1(2)] by simp
    have "miss_target miss \<in> ?cache - removed_names w" using check_removal_miss [OF less.prems, of miss] Cons by simp
    moreover have "miss_target miss \<in> miss_target ` set (check_removal w)" using Cons by simp
    ultimately have "?cache - removed_names w1 \<subset> ?cache - removed_names w" unfolding w1(4) by blast
    then have "card (names w1 (cached_pkgs w1 (localdb w1)) - removed_names w1) < card (?cache - removed_names w)"
      unfolding same by (intro psubset_card_mono) auto
    from less.hyps [OF this w1(3)] obtain w' where w': "remove_prepare_cascade force_load w1 (check_removal w1) = Some (0, w')"
      "extends w1 w'" "removal_ready w'" "check_removal w' = []" "removed_names w1 \<subseteq> removed_names w'" by blast
    have "remove_prepare_cascade force_load w (check_removal w) = Some (0, w')"
      using w1(1) w'(1) Cons by (subst remove_prepare_cascade.simps) simp
    moreover have "removed_names w \<subseteq> removed_names w'" using w'(5) w1(4) by blast
    ultimately show ?thesis using w'(3,4) extends_trans [OF w1(2) w'(2)] by blast
  qed
qed

lemma drop_needed_spec:
  "removal_ready w \<Longrightarrow>
   \<exists>ts. tremove (transaction (drop_needed w lp)) = ts \<and> extends w (drop_needed w lp) \<and> removal_ready (drop_needed w lp) \<and>
     set ts \<subseteq> set (tremove (transaction w)) \<and> length ts \<le> length (tremove (transaction w)) \<and>
     (lp \<noteq> [] \<longrightarrow> (\<exists>n\<in>removed_names w. miss_causingpkg (hd lp) = Some n) \<longrightarrow> length ts < length (tremove (transaction w)))"
proof (induction lp arbitrary: w)
  case (Cons miss lp)
  let ?ts = "tremove (transaction w)"
  have h: "\<forall>p\<in>set ?ts. hashed (wpkgs w p)" and t: "trans (handle w) \<noteq> None" and use: "in_use w ?ts"
    using Cons.prems by (simp_all add: removal_ready_def)
  show ?case
  proof (cases "alpm_pkg_find (wpkgs w) ?ts (miss_causingpkg miss)")
    case None
    then have "\<not> (\<exists>n\<in>removed_names w. miss_causingpkg miss = Some n)" using pkg_find_None [OF h] by auto
    then show ?thesis using Cons.IH [OF Cons.prems] None by auto
  next
    case (Some pkg)
    have pkg: "pkg \<in> set ?ts" using pkg_find_Some [OF Some] by blast
    define f :: "alpm_trans_t \<Rightarrow> alpm_trans_t" where "f t = t\<lparr>tremove := fst (alpm_list_remove (alpm_pkg_cmp (wpkgs w)) (tremove t) pkg)\<rparr>" for t
    define w1 where "w1 = upd_trans f w"
    have ext: "extends w w1" unfolding w1_def by (rule extends_upd_trans) (simp add: f_def)
    have ts: "tremove (transaction w1) = fst (alpm_list_remove (alpm_pkg_cmp (wpkgs w)) ?ts pkg)"
      using t by (simp add: w1_def f_def)
    obtain us x vs where "?ts = us @ x # vs" "alpm_list_remove (alpm_pkg_cmp (wpkgs w)) ?ts pkg = (us @ vs, Some x)"
      using remove_cases [of "alpm_pkg_cmp (wpkgs w)" ?ts pkg] pkg by (auto simp: pkg_cmp_zero)
    then have less: "set (tremove (transaction w1)) \<subseteq> set ?ts" "length (tremove (transaction w1)) < length ?ts"
      unfolding ts by auto
    have ready: "removal_ready w1"
      using ready_extends [OF Cons.prems ext] less(1) h use by (auto simp: w1_def in_use_def)
    have step: "drop_needed w (miss # lp) = drop_needed w1 lp" using Some by (simp add: w1_def f_def [abs_def])
    have "set (tremove (transaction (drop_needed w1 lp))) \<subseteq> set (tremove (transaction w1))"
      "length (tremove (transaction (drop_needed w1 lp))) \<le> length (tremove (transaction w1))"
      "extends w1 (drop_needed w1 lp)" "removal_ready (drop_needed w1 lp)"
      using Cons.IH [OF ready] by auto
    then show ?thesis unfolding step using less extends_trans [OF ext] by auto
  qed
qed simp

lemma keep_needed_total:
  "removal_ready w \<Longrightarrow>
   \<exists>w'. remove_prepare_keep_needed w (check_removal w) = Some w' \<and> extends w w' \<and> removal_ready w' \<and>
     check_removal w' = [] \<and> set (tremove (transaction w')) \<subseteq> set (tremove (transaction w))"
proof (induction "length (tremove (transaction w))" arbitrary: w rule: less_induct)
  case less
  show ?case
  proof (cases "check_removal w")
    case Nil
    then show ?thesis using less.prems by (auto simp: remove_prepare_keep_needed.simps)
  next
    case (Cons miss lp)
    let ?w1 = "drop_needed w (check_removal w)"
    have "\<exists>n\<in>removed_names w. miss_causingpkg (hd (check_removal w)) = Some n"
      using check_removal_miss [OF less.prems, of miss] Cons by simp
    then have w1: "length (tremove (transaction ?w1)) < length (tremove (transaction w))" "extends w ?w1" "removal_ready ?w1"
      "set (tremove (transaction ?w1)) \<subseteq> set (tremove (transaction w))"
      using drop_needed_spec [OF less.prems, of "check_removal w"] Cons by auto
    from less.hyps [OF w1(1,3)] obtain w' where w': "remove_prepare_keep_needed ?w1 (check_removal ?w1) = Some w'"
      "extends ?w1 w'" "removal_ready w'" "check_removal w' = []"
      "set (tremove (transaction w')) \<subseteq> set (tremove (transaction ?w1))" by blast
    have "remove_prepare_keep_needed w (check_removal w) = Some w'"
      using w'(1) Cons by (subst remove_prepare_keep_needed.simps) (simp add: Let_def)
    then show ?thesis using w' w1 extends_trans [OF w1(2) w'(2)] by blast
  qed
qed

section \<open>Facts about unneeded dependencies\<close>

lemma copy_targets_any:
  "copy_targets force_load w rem targs = (r, targs', w') \<Longrightarrow> \<forall>p\<in>set rem. p < next_ref w \<Longrightarrow>
   next_ref w \<le> next_ref w' \<and> (\<forall>p<next_ref w. wpkgs w' p = wpkgs w p) \<and> wdbs w' = wdbs w \<and>
   (r = 0 \<and> handle w' = handle w \<or> r = -1 \<and> handle w' = (handle w)\<lparr>pm_errno := ALPM_ERR_PKG_INVALID\<rparr>) \<and>
   (\<forall>t\<in>set targs'. t \<in> set targs \<or> t < next_ref w' \<and>
     (\<exists>q\<in>set rem. \<exists>x. alpm_pkg_dup force_load (wpkgs w q) = (x, wpkgs w' t)))"
proof (induction rem arbitrary: w targs)
  case (Cons p rem)
  obtain x q where dup: "alpm_pkg_dup force_load (wpkgs w p) = (x, q)" by fastforce
  show ?case
  proof (cases "x = 0")
    case False
    then show ?thesis using Cons.prems(1) dup by (auto simp: set_errno_def)
  next
    case True
    define w1 where "w1 = w\<lparr>wpkgs := (wpkgs w)(next_ref w := q), next_ref := next_ref w + 1\<rparr>"
    have run: "copy_targets force_load w1 rem (targs @ [next_ref w]) = (r, targs', w')"
      using Cons.prems(1) dup True by (simp add: Let_def w1_def alpm_list_add_def)
    have "\<forall>p\<in>set rem. p < next_ref w1" using Cons.prems(2) by (auto simp: w1_def)
    note IH = Cons.IH [OF run this]
    have old: "wpkgs w1 p = wpkgs w p" if "p < next_ref w" for p using that by (simp add: w1_def)
    have new: "wpkgs w' (next_ref w) = q" and w1: "next_ref w1 = next_ref w + 1" "wdbs w1 = wdbs w" "handle w1 = handle w"
      using IH by (simp_all add: w1_def)
    have "\<exists>q\<in>set (p # rem). \<exists>x. alpm_pkg_dup force_load (wpkgs w q) = (x, wpkgs w' t)"
      if "q \<in> set rem" "alpm_pkg_dup force_load (wpkgs w1 q) = (x, wpkgs w' t)" for q x t
      using that old [of q] Cons.prems(2) by auto
    then have "\<forall>t\<in>set targs'. t \<in> set targs \<or> t < next_ref w' \<and>
        (\<exists>q\<in>set (p # rem). \<exists>x. alpm_pkg_dup force_load (wpkgs w q) = (x, wpkgs w' t))"
      using IH new dup w1(1) by fastforce
    moreover have "\<forall>p<next_ref w. wpkgs w' p = wpkgs w p" using IH old w1(1) by simp
    ultimately show ?thesis using IH w1 by simp
  qed
next
  case Nil
  then have "r = 0" "targs' = targs" "w' = w" by simp_all
  then show ?case by blast
qed

lemma recurse_targets_extends:
  assumes "removal_ready w" "recurse_targets force_load w = (r, w')"
  shows "extends w w' \<and> (r = 0 \<longrightarrow> removal_ready w' \<and>
      (\<forall>t\<in>set (tremove (transaction w')). t \<in> set (tremove (transaction w)) \<or>
        (\<exists>q\<in>set (cached_pkgs w (localdb w)). \<exists>x. alpm_pkg_dup force_load (wpkgs w q) = (x, wpkgs w' t)))) \<and>
    (r \<noteq> 0 \<longrightarrow> r = -1 \<and> pm_errno (handle w') = ALPM_ERR_PKG_INVALID)"
proof -
  let ?cache = "cached_pkgs w (localdb w)" and ?ts = "tremove (transaction w)"
  let ?inc = "has_flag (transaction w) ALPM_TRANS_FLAG_RECURSEALL"
  have t: "trans (handle w) \<noteq> None" and db: "localdb w \<noteq> None" and load: "loaded w (localdb w)"
    and use: "in_use w ?cache" "in_use w ?ts" and h: "\<forall>p\<in>set ?ts. hashed (wpkgs w p)"
    using assms(1) by (simp_all add: removal_ready_def)
  obtain targs w1 where run: "alpm_recursedeps force_load w (localdb w) ?ts ?inc = (r, targs, w1)"
    and w': "w' = upd_trans (\<lambda>t. t\<lparr>tremove := targs\<rparr>) w1"
    using assms(2) unfolding recurse_targets_def by (auto split: prod.splits)
  obtain rem keep where rk: "recursedeps_rem (wpkgs w) ?cache ?ts ?inc = (rem, keep)" by fastforce
  have copied: "copy_targets force_load w rem ?ts = (r, targs, w1)" using run rk db by (auto simp: alpm_recursedeps_def)
  have "set rem \<union> set keep \<subseteq> set ?cache"
    using recursedeps_rem_spec(1) [OF loaded_distinct [OF load] rk] by (metis filter_is_subset set_mset_mset set_mset_union)
  then have sub: "set rem \<subseteq> set ?cache" by blast
  then have "\<forall>p\<in>set rem. p < next_ref w" using use(1) by (auto simp: in_use_def)
  note copy = copy_targets_any [OF copied this]
  have "extends w w1" using copy by (auto simp: extends_def same_frame_def frame_def)
  moreover have "extends w1 w'" unfolding w' by (rule extends_upd_trans) simp
  ultimately have ext: "extends w w'" by (rule extends_trans)
  have t1: "trans (handle w1) \<noteq> None" using copy t by auto
  have tr: "tremove (transaction w') = targs" and w1: "wpkgs w' = wpkgs w1" "next_ref w' = next_ref w1"
    "pm_errno (handle w') = pm_errno (handle w1)"
    using t1 w' by simp_all (simp add: upd_trans_def)
  have new: "\<forall>t\<in>set targs. t \<in> set ?ts \<or> t < next_ref w' \<and>
      (\<exists>q\<in>set ?cache. \<exists>x. alpm_pkg_dup force_load (wpkgs w q) = (x, wpkgs w' t))"
    using copy sub unfolding w1 by blast
  have "hashed (wpkgs w' t)" if mem: "t \<in> set targs" for t
  proof (cases "t \<in> set ?ts")
    case True
    then show ?thesis using h extends_pkg [OF ext use(2)] by simp
  next
    case False
    then obtain q x where "q \<in> set ?cache" "alpm_pkg_dup force_load (wpkgs w q) = (x, wpkgs w' t)" using mem new by blast
    then show ?thesis using dup_same_deps loaded_hashed [OF load] by (fastforce simp: hashed_def)
  qed
  moreover have "in_use w' targs" using new in_use_extends [OF use(2) ext] by (auto simp: in_use_def)
  ultimately have "removal_ready w'" using ready_extends [OF assms(1) ext] tr by simp
  then show ?thesis using ext new copy tr w1 by auto
qed

text \<open>
  Removing what is not needed keeps a closed system closed, unless versions are ignored: the
  packages are selected by the full dependencies.
\<close>

lemma recurse_targets_closed:
  assumes "removal_ready w" "recurse_targets force_load w = (0, w')" "\<not> no_dep_version (handle w)"
    and "closed (handle w) (wpkgs w) (stays w)"
  shows "closed (handle w') (wpkgs w') (stays w')"
proof -
  let ?cache = "cached_pkgs w (localdb w)" and ?ts = "tremove (transaction w)" and ?ps = "wpkgs w"
  note r = recurse_targets_extends [OF assms(1,2)]
  then have ext: "extends w w'" and ready': "removal_ready w'" by simp_all
  obtain d where d: "localdb w = Some d" and load: "loaded w (localdb w)" and use: "in_use w ?cache" "in_use w ?ts"
    and t: "trans (handle w) \<noteq> None"
    using assms(1) by (auto simp: removal_ready_def)
  obtain targs w1 where run: "alpm_recursedeps force_load w (Some d) ?ts (has_flag (transaction w) ALPM_TRANS_FLAG_RECURSEALL) = (0, targs, w1)"
    and w': "w' = upd_trans (\<lambda>t. t\<lparr>tremove := targs\<rparr>) w1"
    using assms(2) d unfolding recurse_targets_def by (auto split: prod.splits)
  have dist: "distinct (map (\<lambda>p. pname (?ps p)) (cached_pkgs w (Some d)))" using loaded_distinct [OF load] d by simp
  have "\<forall>p\<in>set (cached_pkgs w (Some d)). p < next_ref w" using use(1) d by (simp add: in_use_def)
  from recursedeps_added [OF run dist this] obtain new where new: "targs = ?ts @ new"
    "\<forall>p\<in>set ?cache. \<forall>r\<in>set new. pname (?ps p) \<notin> pname ` ?ps ` set ?ts \<longrightarrow> pname (?ps p) \<notin> pname ` wpkgs w1 ` set new \<longrightarrow>
       \<not> alpm_pkg_depends_on (?ps p) (wpkgs w1 r)"
    using d by auto
  have tr: "tremove (transaction w') = ?ts @ new" and w1: "wpkgs w' = wpkgs w1"
    using w' new(1) extends_handle(7) [OF ext] t by simp_all
  have old: "wpkgs w' p = ?ps p" if "p \<in> set ?cache \<or> p \<in> set ?ts" for p using that extends_pkg [OF ext] use by blast
  have cache': "cached_pkgs w' (localdb w') = ?cache" using extends_cached_pkgs [OF ext] extends_handle(1) [OF ext] by simp
  have stay: "p \<in> set (stays w) \<longleftrightarrow> p \<in> set ?cache \<and> pname (?ps p) \<notin> pname ` ?ps ` set ?ts" for p
    by (simp add: stays_def after_change_def untouched_def)
  have stay': "p \<in> set (stays w') \<longleftrightarrow> p \<in> set (stays w) \<and> pname (?ps p) \<notin> pname ` wpkgs w1 ` set new" for p
    unfolding stay unfolding stays_def after_change_def untouched_def cache' tr using old
    by (auto simp: image_Un image_image w1)
  have "satisfiable (handle w') (wpkgs w') (stays w') dep"
    if p: "p \<in> set (stays w')" and dep: "dep \<in> set (depends (?ps p))" for p dep
  proof -
    have "satisfiable (handle w) ?ps (stays w) dep"
      using assms(3,4) p dep stay' by (auto simp: closed_def checked_dep_def)
    then consider q where "q \<in> set (stays w)" "alpm_depcmp (?ps q) dep" | "alpm_depcmp_provides dep (assumeinstalled (handle w))"
      by (auto simp: satisfiable_def)
    then show ?thesis
    proof cases
      case (1 q)
      have "pname (?ps q) \<notin> pname ` wpkgs w1 ` set new"
      proof
        assume "pname (?ps q) \<in> pname ` wpkgs w1 ` set new"
        then obtain n where n: "n \<in> set new" "pname (wpkgs w1 n) = pname (?ps q)" by auto
        have "n \<notin> set ?ts"
        proof
          assume "n \<in> set ?ts"
          moreover have "wpkgs w1 n = ?ps n" using old [of n] \<open>n \<in> set ?ts\<close> w1 by simp
          moreover have "pname (?ps n) \<in> pname ` ?ps ` set ?ts" using \<open>n \<in> set ?ts\<close> by blast
          ultimately show False using 1(1) stay [of q] n(2) by metis
        qed
        then obtain q' x where q': "q' \<in> set ?cache" "alpm_pkg_dup force_load (?ps q') = (x, wpkgs w1 n)"
          using r tr n(1) w1 by auto
        then have "pname (?ps q') = pname (?ps q)" using dup_same_deps [OF q'(2)] n(2) by simp
        then have "q' = q" using 1(1) stay q'(1) loaded_distinct [OF load] by (auto simp: distinct_map inj_on_def)
        then have "alpm_pkg_depends_on (?ps p) (wpkgs w1 n)"
          using depends_on_dup [OF q'(2)] 1(2) dep by (auto simp: depends_on_iff)
        then show False using new(2) n(1) p stay stay' by blast
      qed
      then have "q \<in> set (stays w')" "wpkgs w' q = ?ps q" using 1(1) stay [of q] stay' [of q] old [of q] by simp_all
      then show ?thesis using 1(2) unfolding satisfiable_def by metis
    next
      case 2
      then show ?thesis using extends_handle(3) [OF ext] by (simp add: satisfiable_def)
    qed
  qed
  moreover have "wpkgs w' p = ?ps p" if "p \<in> set (stays w')" for p using that stay stay' old by blast
  ultimately show ?thesis
    using extends_handle(4) [OF ext] assms(3) by (simp add: closed_def checked_dep_def)
qed

section \<open>Properties of preparing a removal\<close>

lemma check_removal_closed:
  assumes "removal_ready w" "closed (handle w) (wpkgs w) (cached_pkgs w (localdb w))"
  shows "check_removal w = [] \<longleftrightarrow> closed (handle w) (wpkgs w) (stays w)"
proof -
  have h: "\<forall>p\<in>set (tremove (transaction w)) \<union> set []. hashed (wpkgs w p)" using assms(1) by (simp add: removal_ready_def)
  show ?thesis unfolding check_removal_def stays_def by (rule checkdeps_closed_iff [OF h assms(2)])
qed

lemma cache_closed_extends:
  assumes "removal_ready w" "extends w w'" "closed (handle w) (wpkgs w) (cached_pkgs w (localdb w))"
  shows "closed (handle w') (wpkgs w') (cached_pkgs w' (localdb w'))"
  using assms closed_extends [OF assms(2)] extends_cached_pkgs [OF assms(2)] extends_handle(1) [OF assms(2)]
  by (simp add: removal_ready_def)

lemma remove_check_deps_spec:
  assumes "removal_ready w" "closed (handle w) (wpkgs w) (cached_pkgs w (localdb w))"
    and "\<not> has_flag (transaction w) ALPM_TRANS_FLAG_NODEPS"
  shows "\<exists>r data w'. remove_check_deps force_load w = Some (r, data, w') \<and> extends w w' \<and>
    (if r = 0 then removal_ready w' \<and> closed (handle w') (wpkgs w') (stays w')
     else r = -1 \<and> pm_errno (handle w') = ALPM_ERR_UNSATISFIED_DEPS \<and> data \<noteq> [] \<and> tremove (transaction w') = tremove (transaction w) \<and>
       \<not> closed (handle w') (wpkgs w') (stays w'))"
proof -
  have done': "closed (handle w') (wpkgs w') (stays w')" if "removal_ready w'" "extends w w'" "check_removal w' = []" for w'
    using check_removal_closed [OF that(1)] cache_closed_extends [OF assms(1) that(2) assms(2)] that(3) by blast
  consider "check_removal w = []" | "check_removal w \<noteq> []" "has_flag (transaction w) ALPM_TRANS_FLAG_CASCADE"
    | "check_removal w \<noteq> []" "\<not> has_flag (transaction w) ALPM_TRANS_FLAG_CASCADE" "has_flag (transaction w) ALPM_TRANS_FLAG_UNNEEDED"
    | "check_removal w \<noteq> []" "\<not> has_flag (transaction w) ALPM_TRANS_FLAG_CASCADE" "\<not> has_flag (transaction w) ALPM_TRANS_FLAG_UNNEEDED"
    by blast
  then show ?thesis
  proof cases
    case 1
    then show ?thesis using assms done' [OF assms(1)] by (simp add: remove_check_deps_def)
  next
    case 2
    obtain w' where "remove_prepare_cascade force_load w (check_removal w) = Some (0, w')" "extends w w'" "removal_ready w'"
      "check_removal w' = []" using cascade_total [OF assms(1)] by blast
    then show ?thesis using 2 assms(3) done' [of w'] by (simp add: remove_check_deps_def)
  next
    case 3
    obtain w' where "remove_prepare_keep_needed w (check_removal w) = Some w'" "extends w w'" "removal_ready w'"
      "check_removal w' = []" using keep_needed_total [OF assms(1)] by blast
    then show ?thesis using 3 assms(3) done' [of w'] by (simp add: remove_check_deps_def)
  next
    case 4
    have "\<not> closed (handle w) (wpkgs w) (stays w)" using 4(1) check_removal_closed [OF assms(1,2)] by blast
    moreover have "closed (handle (set_errno e w)) (wpkgs (set_errno e w)) (stays (set_errno e w)) =
        closed (handle w) (wpkgs w) (stays w)" for e
      by (simp add: stays_def closed_def satisfiable_def)
    ultimately show ?thesis using 4 assms(3) by (simp add: remove_check_deps_def)
  qed
qed

lemma remove_prepare_result:
  assumes "removal_ready w" "closed (handle w) (wpkgs w) (cached_pkgs w (localdb w))"
    and "\<not> has_flag (transaction w) ALPM_TRANS_FLAG_NODEPS"
    and "no_dep_version (handle w) \<Longrightarrow>
      \<not> (has_flag (transaction w) ALPM_TRANS_FLAG_CASCADE \<and> has_flag (transaction w) ALPM_TRANS_FLAG_RECURSE)"
  shows "\<exists>r data evs w'. alpm_remove_prepare force_load w = Some (r, data, evs, w') \<and> extends w w' \<and>
    (if r = 0 then closed (handle w') (wpkgs w') (stays w')
     else r = -1 \<and> (pm_errno (handle w') = ALPM_ERR_PKG_INVALID \<or>
       pm_errno (handle w') = ALPM_ERR_UNSATISFIED_DEPS \<and> data \<noteq> [] \<and> \<not> closed (handle w') (wpkgs w') (stays w')))"
proof -
  let ?cascade = "has_flag (transaction w) ALPM_TRANS_FLAG_CASCADE"
  let ?recurse = "has_flag (transaction w) ALPM_TRANS_FLAG_RECURSE"
  have t: "trans (handle w) \<noteq> None" using assms(1) by (simp add: removal_ready_def)
  obtain r0 w0 where step0: "(if ?recurse \<and> \<not> ?cascade then recurse_targets force_load w else (0, w)) = (r0, w0)" by fastforce
  have w0: "extends w w0" "r0 = 0 \<longrightarrow> removal_ready w0" "r0 \<noteq> 0 \<longrightarrow> pm_errno (handle w0) = ALPM_ERR_PKG_INVALID"
    using step0 recurse_targets_extends [OF assms(1)] assms(1) by (auto split: if_splits)
  show ?thesis
  proof (cases "r0 = 0")
    case False
    then show ?thesis using step0 w0 by (simp add: alpm_remove_prepare_def Let_def)
  next
    case True
    have flag: "has_flag (transaction w0) f = has_flag (transaction w) f" for f by (rule extends_flag [OF w0(1) t])
    obtain r1 data w1 where check: "remove_check_deps force_load w0 = Some (r1, data, w1)" "extends w0 w1"
      "if r1 = 0 then removal_ready w1 \<and> closed (handle w1) (wpkgs w1) (stays w1)
       else r1 = -1 \<and> pm_errno (handle w1) = ALPM_ERR_UNSATISFIED_DEPS \<and> data \<noteq> [] \<and> tremove (transaction w1) = tremove (transaction w0) \<and>
         \<not> closed (handle w1) (wpkgs w1) (stays w1)"
      using remove_check_deps_spec [of w0 force_load] w0 True cache_closed_extends [OF assms(1) w0(1) assms(2)] flag assms(3)
      by auto
    have ext1: "extends w w1" using w0(1) check(2) by (rule extends_trans)
    show ?thesis
    proof (cases "r1 = 0")
      case False
      then show ?thesis using step0 True check ext1 by (simp add: alpm_remove_prepare_def Let_def)
    next
      case ok: True
      obtain r2 w2 where step2: "(if ?cascade \<and> ?recurse then recurse_targets force_load w1 else (0, w1)) = (r2, w2)" by fastforce
      have ready: "removal_ready w1" "closed (handle w1) (wpkgs w1) (stays w1)" using check(3) ok by simp_all
      have version: "no_dep_version (handle w1) \<Longrightarrow> \<not> (?cascade \<and> ?recurse)"
        using assms(4) extends_handle(4) [OF ext1] by simp
      have "extends w1 w2 \<and> (r2 = 0 \<longrightarrow> closed (handle w2) (wpkgs w2) (stays w2)) \<and>
          (r2 \<noteq> 0 \<longrightarrow> pm_errno (handle w2) = ALPM_ERR_PKG_INVALID)"
      proof (cases "?cascade \<and> ?recurse")
        case True
        then have "recurse_targets force_load w1 = (r2, w2)" using step2 by simp
        then show ?thesis
          using recurse_targets_extends [OF ready(1)] recurse_targets_closed [OF ready(1) _ _ ready(2)] version True by blast
      next
        case False
        then have "r2 = 0" "w2 = w1" using step2 by (auto split: if_splits)
        then show ?thesis using ready(2) by simp
      qed
      then show ?thesis
        using step0 True check(1) ok step2 extends_trans [OF ext1] by (simp add: alpm_remove_prepare_def Let_def)
    qed
  qed
qed


text \<open>A local database with one package, which is the target.\<close>

definition removal_world :: "alpm_pkghash_t \<Rightarrow> alpm_world" where
  "removal_world h =
     (sync_world h)\<lparr>handle := alpm_handle_new\<lparr>db_local := Some 5,
        trans := Some \<lparr>tflags = 0, tstate = STATE_INITIALIZED, unresolvable = [], tadd = [], tremove = [0], skip_remove = []\<rparr>\<rparr>\<rparr>"

lemma removal_world_facts:
  assumes "pkghash_inv pair_pkgs h" "hlist h = [0]"
  shows "removal_ready (removal_world h)" "cached_pkgs (removal_world h) (Some 5) = [0]"
    "handle (removal_world h) = alpm_handle_new\<lparr>db_local := Some 5,
        trans := Some \<lparr>tflags = 0, tstate = STATE_INITIALIZED, unresolvable = [], tadd = [], tremove = [0], skip_remove = []\<rparr>\<rparr>"
    "wpkgs (removal_world h) = pair_pkgs" "\<not> has_flag (transaction (removal_world h)) f"
    "no_dep_version (handle (removal_world h)) = False"
  using assms
  by (simp_all add: removal_ready_def removal_world_def sync_world_def loaded_def has_status_def cached_pkgs_def
      in_use_def transaction_def has_flag_def no_dep_version_def)


end
