(* ===== verification/AlpmSysupgrade.thy ===== *)
theory AlpmSysupgrade
  imports AlpmTargets
begin

text \<open>
  Choosing the targets of an upgrade (the first half of \<open>lib/libalpm/sync.c\<close>): newer versions,
  replacements and groups. \<open>fnm\<close> is \<open>fnmatch\<close>, the answers come from the questions record.
\<close>

section \<open>Newer versions\<close>

fun first_cached :: "alpm_world \<Rightarrow> dbref list \<Rightarrow> string \<Rightarrow> pkgref option" where
  "first_cached w [] n = None"
| "first_cached w (d # i) n =
     (case cached_pkg w (Some d) n of Some spkg \<Rightarrow> Some spkg | None \<Rightarrow> first_cached w i n)"

definition alpm_sync_get_new_version ::
  "alpm_world \<Rightarrow> pkgref option \<Rightarrow> dbref list \<Rightarrow> pkgref option \<times> alpm_world" where
  "alpm_sync_get_new_version w pkg dbs =
     (case pkg of
        None \<Rightarrow> (None, w)
      | Some p \<Rightarrow>
          let w = set_errno ALPM_ERR_OK w
          in (case first_cached w dbs (pname (wpkgs w p)) of
                None \<Rightarrow> (None, w)
              | Some spkg \<Rightarrow>
                  if alpm_pkg_compare_versions (wpkgs w spkg) (wpkgs w p) > 0 then (Some spkg, w) else (None, w)))"

definition check_literal ::
  "(string \<Rightarrow> string \<Rightarrow> bool) \<Rightarrow> alpm_world \<Rightarrow> pkgref \<Rightarrow> pkgref \<Rightarrow> bool \<Rightarrow> bool" where
  "check_literal fnm w lpkg spkg enable_downgrade =
     (let cmp = alpm_pkg_compare_versions (wpkgs w spkg) (wpkgs w lpkg);
          ignored = (alpm_pkg_should_ignore fnm (handle w) (wpkgs w spkg) \<or>
                     alpm_pkg_should_ignore fnm (handle w) (wpkgs w lpkg))
      in if cmp > 0 then \<not> ignored
         else if cmp < 0 then enable_downgrade \<and> \<not> ignored
         else False)"

section \<open>Replacements\<close>

definition replaces_pkg :: "alpm_pkg_t \<Rightarrow> alpm_pkg_t \<Rightarrow> bool" where
  "replaces_pkg spkg lpkg \<longleftrightarrow> (\<exists>replace\<in>set (replaces spkg). alpm_depcmp_literal lpkg replace)"

text \<open>The walk over the packages of one database; the new targets are collected apart.\<close>

fun check_replacers_loop ::
  "(string \<Rightarrow> string \<Rightarrow> bool) \<Rightarrow> alpm_questions \<Rightarrow> pkgref \<Rightarrow> dbref \<Rightarrow> pkgref list \<Rightarrow> pkgref list \<Rightarrow> alpm_world \<Rightarrow>
   pkgref list \<times> alpm_world" where
  "check_replacers_loop fnm qs lpkg sdb [] replacers w = (replacers, w)"
| "check_replacers_loop fnm qs lpkg sdb (spkg # k) replacers w =
     (if \<not> replaces_pkg (wpkgs w spkg) (wpkgs w lpkg) then check_replacers_loop fnm qs lpkg sdb k replacers w
      else if alpm_pkg_should_ignore fnm (handle w) (wpkgs w spkg) \<or> alpm_pkg_should_ignore fnm (handle w) (wpkgs w lpkg)
      then check_replacers_loop fnm qs lpkg sdb k replacers w
      else if \<not> q_replace_pkg qs lpkg spkg sdb then check_replacers_loop fnm qs lpkg sdb k replacers w
      else
        (case alpm_pkg_find (wpkgs w) (tadd (transaction w)) (Some (pname (wpkgs w spkg))) of
           Some tpkg \<Rightarrow>
             if origin_data (wpkgs w tpkg) \<noteq> Origin_db sdb then check_replacers_loop fnm qs lpkg sdb k replacers w
             else
               (let w = upd_pkg tpkg (\<lambda>p. p\<lparr>removes := alpm_list_add (removes p) lpkg\<rparr>) w;
                    w = (if preason (wpkgs w lpkg) = ALPM_PKG_REASON_EXPLICIT
                         then upd_pkg tpkg (\<lambda>p. p\<lparr>preason := ALPM_PKG_REASON_EXPLICIT\<rparr>) w else w)
                in check_replacers_loop fnm qs lpkg sdb k replacers w)
         | None \<Rightarrow>
             let w = upd_pkg spkg (\<lambda>p. p\<lparr>preason := preason (wpkgs w lpkg), removes := alpm_list_add [] lpkg\<rparr>) w
             in check_replacers_loop fnm qs lpkg sdb k (alpm_list_add replacers spkg) w))"

definition check_replacers ::
  "(string \<Rightarrow> string \<Rightarrow> bool) \<Rightarrow> alpm_questions \<Rightarrow> alpm_world \<Rightarrow> pkgref \<Rightarrow> dbref \<Rightarrow> pkgref list \<times> alpm_world" where
  "check_replacers fnm qs w lpkg sdb = check_replacers_loop fnm qs lpkg sdb (cached_pkgs w (Some sdb)) [] w"

section \<open>The upgrade of the system\<close>

text \<open>The databases in order; the first with a replacement or a package of the name decides.\<close>

fun upgrade_from ::
  "(string \<Rightarrow> string \<Rightarrow> bool) \<Rightarrow> alpm_questions \<Rightarrow> bool \<Rightarrow> pkgref \<Rightarrow> dbref list \<Rightarrow> alpm_world \<Rightarrow> alpm_world" where
  "upgrade_from fnm qs enable_downgrade lpkg [] w = w"
| "upgrade_from fnm qs enable_downgrade lpkg (sdb # j) w =
     (if usage (wdbs w sdb) AND ALPM_DB_USAGE_UPGRADE = 0 then upgrade_from fnm qs enable_downgrade lpkg j w
      else
        (let (replacers, w) = check_replacers fnm qs w lpkg sdb
         in if replacers \<noteq> [] then upd_trans (\<lambda>t. t\<lparr>tadd := tadd t @ replacers\<rparr>) w
            else
              (case cached_pkg w (Some sdb) (pname (wpkgs w lpkg)) of
                 Some spkg \<Rightarrow>
                   if check_literal fnm w lpkg spkg enable_downgrade
                   then upd_trans (\<lambda>t. t\<lparr>tadd := alpm_list_add (tadd t) spkg\<rparr>) w else w
               | None \<Rightarrow> upgrade_from fnm qs enable_downgrade lpkg j w)))"

fun sysupgrade_loop ::
  "(string \<Rightarrow> string \<Rightarrow> bool) \<Rightarrow> alpm_questions \<Rightarrow> bool \<Rightarrow> pkgref list \<Rightarrow> alpm_world \<Rightarrow> alpm_world" where
  "sysupgrade_loop fnm qs enable_downgrade [] w = w"
| "sysupgrade_loop fnm qs enable_downgrade (lpkg # i) w =
     sysupgrade_loop fnm qs enable_downgrade i
       (if alpm_pkg_find (wpkgs w) (tremove (transaction w)) (Some (pname (wpkgs w lpkg))) \<noteq> None then w
        else if alpm_pkg_find (wpkgs w) (tadd (transaction w)) (Some (pname (wpkgs w lpkg))) \<noteq> None then w
        else upgrade_from fnm qs enable_downgrade lpkg (dbs_sync (handle w)) w)"

definition alpm_sync_sysupgrade ::
  "(string \<Rightarrow> string \<Rightarrow> bool) \<Rightarrow> alpm_questions \<Rightarrow> alpm_world \<Rightarrow> bool \<Rightarrow> int \<times> alpm_world" where
  "alpm_sync_sysupgrade fnm qs w enable_downgrade =
     (let w = set_errno ALPM_ERR_OK w
      in case trans (handle w) of
           None \<Rightarrow> (-1, set_errno ALPM_ERR_TRANS_NULL w)
         | Some t \<Rightarrow>
             if tstate t \<noteq> STATE_INITIALIZED then (-1, set_errno ALPM_ERR_TRANS_NOT_INITIALIZED w)
             else (0, sysupgrade_loop fnm qs enable_downgrade (cached_pkgs w (localdb w)) w))"

section \<open>Groups\<close>

text \<open>The members of the group in one database; the state is the packages and those to pass over.\<close>

fun group_members ::
  "(string \<Rightarrow> string \<Rightarrow> bool) \<Rightarrow> alpm_questions \<Rightarrow> alpm_world \<Rightarrow> pkgref list \<Rightarrow> pkgref list \<times> pkgref list \<Rightarrow>
   pkgref list \<times> pkgref list" where
  "group_members fnm qs w [] (pkgs, ignorelist) = (pkgs, ignorelist)"
| "group_members fnm qs w (pkg # j) (pkgs, ignorelist) =
     (let n = pname (wpkgs w pkg);
          needed = (case trans (handle w) of None \<Rightarrow> False | Some t \<Rightarrow> has_flag t ALPM_TRANS_FLAG_NEEDED);
          up_to_date = (case cached_pkg w (localdb w) n of
              None \<Rightarrow> False
            | Some local \<Rightarrow> alpm_pkg_compare_versions (wpkgs w pkg) (wpkgs w local) = 0)
      in if alpm_pkg_find (wpkgs w) ignorelist (Some n) \<noteq> None then group_members fnm qs w j (pkgs, ignorelist)
         else if needed \<and> up_to_date then group_members fnm qs w j (pkgs, alpm_list_add ignorelist pkg)
         else
           let ignored = alpm_pkg_should_ignore fnm (handle w) (wpkgs w pkg);
               ignorelist = (if ignored then alpm_list_add ignorelist pkg else ignorelist)
           in if ignored \<and> \<not> q_install_ignorepkg qs pkg then group_members fnm qs w j (pkgs, ignorelist)
              else
                group_members fnm qs w j
                  (if alpm_pkg_find (wpkgs w) pkgs (Some n) = None then alpm_list_add pkgs pkg else pkgs, ignorelist))"

definition alpm_db_get_group :: "db_op \<Rightarrow> alpm_world \<Rightarrow> dbref option \<Rightarrow> string option \<Rightarrow> alpm_group_t option \<times> alpm_world" where
  "alpm_db_get_group populate w db name =
     (if db = None then (None, w)
      else
        let w = set_errno ALPM_ERR_OK w
        in if name = None \<or> name = Some [] then (None, set_errno ALPM_ERR_WRONG_ARGS w)
           else alpm_db_get_groupfromcache populate w db name)"

fun find_group_loop ::
  "db_op \<Rightarrow> (string \<Rightarrow> string \<Rightarrow> bool) \<Rightarrow> alpm_questions \<Rightarrow> dbref list \<Rightarrow> string option \<Rightarrow> alpm_world \<Rightarrow>
   pkgref list \<times> pkgref list \<Rightarrow> pkgref list \<times> alpm_world" where
  "find_group_loop populate fnm qs [] name w st = (fst st, w)"
| "find_group_loop populate fnm qs (d # i) name w st =
     (let (grp, w) = alpm_db_get_group populate w (Some d) name
      in case grp of
           None \<Rightarrow> find_group_loop populate fnm qs i name w st
         | Some g \<Rightarrow> find_group_loop populate fnm qs i name w (group_members fnm qs w (gpackages g) st))"

definition alpm_find_group_pkgs ::
  "db_op \<Rightarrow> (string \<Rightarrow> string \<Rightarrow> bool) \<Rightarrow> alpm_questions \<Rightarrow> alpm_world \<Rightarrow> dbref list \<Rightarrow> string option \<Rightarrow>
   pkgref list \<times> alpm_world" where
  "alpm_find_group_pkgs populate fnm qs w dbs name = find_group_loop populate fnm qs dbs name w ([], [])"

section \<open>Facts about replacements\<close>

lemma ignore_core:
  "pkg_core p = pkg_core q \<Longrightarrow> ignorepkg h = ignorepkg k \<Longrightarrow> ignoregroup h = ignoregroup k \<Longrightarrow>
   alpm_pkg_should_ignore fnm h p = alpm_pkg_should_ignore fnm k q"
  by (simp add: alpm_pkg_should_ignore_def pkg_core_eqD [of p q])

lemma replaces_core:
  "pkg_core p = pkg_core p' \<Longrightarrow> pkg_core q = pkg_core q' \<Longrightarrow> replaces_pkg p q = replaces_pkg p' q'"
  by (simp add: replaces_pkg_def alpm_depcmp_literal_def pkg_core_eqD [of p p'] pkg_core_eqD [of q q'])

text \<open>A package of a database that replaces an installed one, with the user's consent.\<close>

definition replacement ::
  "(string \<Rightarrow> string \<Rightarrow> bool) \<Rightarrow> alpm_questions \<Rightarrow> alpm_world \<Rightarrow> pkgref \<Rightarrow> dbref \<Rightarrow> pkgref \<Rightarrow> bool" where
  "replacement fnm qs w lpkg d p \<longleftrightarrow>
     replaces_pkg (wpkgs w p) (wpkgs w lpkg) \<and> q_replace_pkg qs lpkg p d \<and>
     \<not> alpm_pkg_should_ignore fnm (handle w) (wpkgs w p) \<and> \<not> alpm_pkg_should_ignore fnm (handle w) (wpkgs w lpkg)"

lemma replacement_evolves:
  assumes "evolves w w'" "in_use w [lpkg, p]"
  shows "replacement fnm qs w' lpkg d p = replacement fnm qs w lpkg d p"
proof -
  have core: "pkg_core (wpkgs w' p) = pkg_core (wpkgs w p)" "pkg_core (wpkgs w' lpkg) = pkg_core (wpkgs w lpkg)"
    using evolves_pkg [OF assms] by simp_all
  show ?thesis
    unfolding replacement_def replaces_core [OF core]
    using ignore_core [OF core(1), of "handle w'" "handle w"] ignore_core [OF core(2), of "handle w'" "handle w"]
      evolves_handle(8,9) [OF assms(1)] by simp
qed

text \<open>What the walk over one database may do to the packages.\<close>

definition kept_removes :: "alpm_world \<Rightarrow> alpm_world \<Rightarrow> pkgref set \<Rightarrow> bool" where
  "kept_removes w w' ps \<longleftrightarrow> (\<forall>p\<in>ps. set (removes (wpkgs w p)) \<subseteq> set (removes (wpkgs w' p)))"

lemma kept_removes_refl [simp]: "kept_removes w w ps"
  by (simp add: kept_removes_def)

lemma kept_removes_trans: "kept_removes w w' ps \<Longrightarrow> kept_removes w' w'' ps \<Longrightarrow> kept_removes w w'' ps"
  unfolding kept_removes_def by blast

lemma check_replacers_loop_spec:
  assumes "check_replacers_loop fnm qs lpkg sdb k reps w = (reps', w')"
    and "in_use w [lpkg]" "in_use w k" "\<forall>p\<in>set (tadd (transaction w)). hashed (wpkgs w p)"
    and "distinct (map (\<lambda>p. pname (wpkgs w p)) k)"
    and "set k \<inter> set reps = {}"
  shows "\<exists>new. reps' = reps @ new \<and> evolves w w' \<and> handle w' = handle w \<and>
    kept_removes w w' (set (tadd (transaction w)) \<union> set reps) \<and> set new \<subseteq> set k \<and> distinct new \<and>
    (\<forall>p\<in>set new. replacement fnm qs w lpkg sdb p \<and> lpkg \<in> set (removes (wpkgs w' p)) \<and>
       pname (wpkgs w p) \<notin> names w (tadd (transaction w)))"
  using assms
proof (induction k arbitrary: reps w)
  case (Cons spkg k)
  let ?add = "tadd (transaction w)"
  show ?case
  proof (cases "replacement fnm qs w lpkg sdb spkg")
    case False
    then have "check_replacers_loop fnm qs lpkg sdb k reps w = (reps', w')"
      using Cons.prems(1) by (auto simp: replacement_def split: if_splits)
    from Cons.IH [OF this] Cons.prems(2-6) show ?thesis
      by (auto simp: in_use_def)
  next
    case repl: True
    show ?thesis
    proof (cases "alpm_pkg_find (wpkgs w) ?add (Some (pname (wpkgs w spkg)))")
      case (Some tpkg)
      define w1 where "w1 = (if origin_data (wpkgs w tpkg) \<noteq> Origin_db sdb then w
        else let w = upd_pkg tpkg (\<lambda>p. p\<lparr>removes := alpm_list_add (removes p) lpkg\<rparr>) w
             in if preason (wpkgs w lpkg) = ALPM_PKG_REASON_EXPLICIT
                then upd_pkg tpkg (\<lambda>p. p\<lparr>preason := ALPM_PKG_REASON_EXPLICIT\<rparr>) w else w)"
      have run: "check_replacers_loop fnm qs lpkg sdb k reps w1 = (reps', w')"
        using Cons.prems(1) repl Some by (auto simp: replacement_def w1_def Let_def split: if_splits)
      have ev: "evolves w w1" unfolding w1_def Let_def
        by (auto intro!: evolves_upd_pkg evolves_trans [OF evolves_upd_pkg evolves_upd_pkg])
      have h: "handle w1 = handle w" "transaction w1 = transaction w" "next_ref w1 = next_ref w"
        by (simp_all add: w1_def Let_def)
      have kept: "kept_removes w w1 P" for P
        by (auto simp: kept_removes_def w1_def Let_def alpm_list_add_def)
      have core: "pkg_core (wpkgs w1 p) = pkg_core (wpkgs w p)" for p
        by (simp add: w1_def Let_def)
      note same = pkg_core_eqD(1) [OF core] hashed_core [OF core]
      have rep: "replacement fnm qs w1 lpkg sdb p = replacement fnm qs w lpkg sdb p" for p
        unfolding replacement_def replaces_core [OF core core] h ignore_core [OF core refl refl] ..
      from Cons.IH [OF run] Cons.prems(2-6) obtain new where new: "reps' = reps @ new" "evolves w1 w'" "handle w' = handle w1"
        "kept_removes w1 w' (set ?add \<union> set reps)" "set new \<subseteq> set k" "distinct new"
        "\<forall>p\<in>set new. replacement fnm qs w lpkg sdb p \<and> lpkg \<in> set (removes (wpkgs w' p)) \<and> pname (wpkgs w p) \<notin> names w ?add"
        unfolding in_use_def h same rep by auto
      then show ?thesis using evolves_trans [OF ev new(2)] kept_removes_trans [OF kept new(4)] h
        by (intro exI [of _ new]) auto
    next
      case None
      then have absent: "pname (wpkgs w spkg) \<notin> names w ?add" using pkg_find_None [OF Cons.prems(4)] by (simp add: image_image)
      then have notin: "spkg \<notin> set ?add" by auto
      define w1 where "w1 = upd_pkg spkg (\<lambda>p. p\<lparr>preason := preason (wpkgs w lpkg), removes := alpm_list_add [] lpkg\<rparr>) w"
      have run: "check_replacers_loop fnm qs lpkg sdb k (reps @ [spkg]) w1 = (reps', w')"
        using Cons.prems(1) repl None by (simp add: replacement_def w1_def Let_def alpm_list_add_def)
      have ev: "evolves w w1" unfolding w1_def by (auto intro!: evolves_upd_pkg)
      have h: "handle w1 = handle w" "transaction w1 = transaction w" "next_ref w1 = next_ref w"
        by (simp_all add: w1_def)
      have core: "pkg_core (wpkgs w1 p) = pkg_core (wpkgs w p)" for p by (simp add: w1_def)
      note same = pkg_core_eqD(1) [OF core] hashed_core [OF core]
      have rep: "replacement fnm qs w1 lpkg sdb p = replacement fnm qs w lpkg sdb p" for p
        unfolding replacement_def replaces_core [OF core core] h ignore_core [OF core refl refl] ..
      have fresh: "spkg \<notin> set reps" "spkg \<notin> set k" using Cons.prems(5,6) by auto
      have kept: "kept_removes w w1 (set ?add \<union> set reps)" using notin fresh by (auto simp: kept_removes_def w1_def)
      from Cons.IH [OF run] Cons.prems(2-6) fresh obtain new where new: "reps' = (reps @ [spkg]) @ new" "evolves w1 w'" "handle w' = handle w1"
        "kept_removes w1 w' (set ?add \<union> set (reps @ [spkg]))" "set new \<subseteq> set k" "distinct new"
        "\<forall>p\<in>set new. replacement fnm qs w lpkg sdb p \<and> lpkg \<in> set (removes (wpkgs w' p)) \<and> pname (wpkgs w p) \<notin> names w ?add"
        unfolding in_use_def h same rep by auto
      have "lpkg \<in> set (removes (wpkgs w' spkg))" using new(4) by (auto simp: kept_removes_def w1_def alpm_list_add_def)
      moreover have "kept_removes w1 w' (set ?add \<union> set reps)" using new(4) by (simp add: kept_removes_def)
      ultimately show ?thesis
        using evolves_trans [OF ev new(2)] kept_removes_trans [OF kept] h new repl absent fresh
        by (intro exI [of _ "spkg # new"]) auto
    qed
  qed
qed (simp add: exI)

section \<open>Facts about the upgrade\<close>

definition upgrade_ready :: "alpm_world \<Rightarrow> bool" where
  "upgrade_ready w \<longleftrightarrow> trans (handle w) \<noteq> None \<and> loaded w (localdb w) \<and> in_use w (cached_pkgs w (localdb w)) \<and>
     (\<forall>d\<in>set (dbs_sync (handle w)). loaded w (Some d) \<and> in_use w (cached_pkgs w (Some d))) \<and>
     in_use w (tadd (transaction w)) \<and> (\<forall>p\<in>set (tadd (transaction w)). hashed (wpkgs w p)) \<and>
     distinct (map (\<lambda>p. pname (wpkgs w p)) (tadd (transaction w))) \<and>
     in_use w (tremove (transaction w)) \<and> (\<forall>p\<in>set (tremove (transaction w)). hashed (wpkgs w p))"

abbreviation for_upgrade :: "alpm_world \<Rightarrow> dbref \<Rightarrow> bool" where
  "for_upgrade w d \<equiv> usage (wdbs w d) AND ALPM_DB_USAGE_UPGRADE \<noteq> 0"

text \<open>Why a package is a target: a replacement, or another version of an installed package.\<close>

definition upgrade_target ::
  "(string \<Rightarrow> string \<Rightarrow> bool) \<Rightarrow> alpm_questions \<Rightarrow> bool \<Rightarrow> alpm_world \<Rightarrow> alpm_world \<Rightarrow> pkgref \<Rightarrow> pkgref \<Rightarrow> bool" where
  "upgrade_target fnm qs down w w' lpkg p \<longleftrightarrow>
     (\<exists>d\<in>set (dbs_sync (handle w)). for_upgrade w d \<and> p \<in> set (cached_pkgs w (Some d)) \<and>
        (replacement fnm qs w lpkg d p \<and> lpkg \<in> set (removes (wpkgs w' p)) \<or>
         pname (wpkgs w p) = pname (wpkgs w lpkg) \<and> check_literal fnm w lpkg p down))"

lemma check_literal_evolves:
  assumes "evolves w w'" "in_use w [lpkg, p]"
  shows "check_literal fnm w' lpkg p down = check_literal fnm w lpkg p down"
proof -
  have core: "pkg_core (wpkgs w' p) = pkg_core (wpkgs w p)" "pkg_core (wpkgs w' lpkg) = pkg_core (wpkgs w lpkg)"
    using evolves_pkg [OF assms] by simp_all
  show ?thesis
    unfolding check_literal_def alpm_pkg_compare_versions_def pkg_core_eqD(3) [OF core(1)] pkg_core_eqD(3) [OF core(2)]
    using ignore_core [OF core(1), of "handle w'" "handle w"] ignore_core [OF core(2), of "handle w'" "handle w"]
      evolves_handle(8,9) [OF assms(1)] by simp
qed

lemma upgrade_ready_evolves:
  assumes "upgrade_ready w" "evolves w w'" "tadd (transaction w') = tadd (transaction w) @ new"
    and "in_use w new" "\<forall>p\<in>set new. hashed (wpkgs w p) \<and> pname (wpkgs w p) \<notin> names w (tadd (transaction w))"
    and "distinct (map (\<lambda>p. pname (wpkgs w p)) new)" "tremove (transaction w') = tremove (transaction w)"
  shows "upgrade_ready w'"
proof -
  let ?add = "tadd (transaction w) @ new"
  have use: "in_use w ?add" using assms(1,4) by (auto simp: upgrade_ready_def in_use_def)
  have core: "pkg_core (wpkgs w' p) = pkg_core (wpkgs w p)" if "p \<in> set ?add" for p
    using that evolves_pkg [OF assms(2) use] by blast
  have "\<forall>p\<in>set new. \<forall>q\<in>set (tadd (transaction w)). pname (wpkgs w q) \<noteq> pname (wpkgs w p)"
    using assms(5) by (metis image_eqI)
  then have "distinct (map (\<lambda>p. pname (wpkgs w p)) ?add)"
    using assms(1,6) by (fastforce simp: upgrade_ready_def)
  moreover have "map (\<lambda>p. pname (wpkgs w' p)) ?add = map (\<lambda>p. pname (wpkgs w p)) ?add"
    using core by (intro map_cong pkg_core_eqD(1)) auto
  ultimately have "distinct (map (\<lambda>p. pname (wpkgs w' p)) (tadd (transaction w')))" unfolding assms(3) by metis
  moreover have "\<forall>p\<in>set (tadd (transaction w')). hashed (wpkgs w' p)"
    using assms(1,5) hashed_core [OF core] unfolding assms(3) by (auto simp: upgrade_ready_def)
  moreover have "in_use w' (tadd (transaction w'))" unfolding assms(3) by (rule in_use_evolves [OF use assms(2)])
  moreover have rem: "in_use w (tremove (transaction w))" "\<forall>p\<in>set (tremove (transaction w)). hashed (wpkgs w p)"
    using assms(1) by (simp_all add: upgrade_ready_def)
  then have "\<forall>p\<in>set (tremove (transaction w')). hashed (wpkgs w' p)"
    using hashed_core [OF evolves_pkg [OF assms(2) rem(1)]] unfolding assms(7) by blast
  moreover have "in_use w' (tremove (transaction w'))" unfolding assms(7) by (rule in_use_evolves [OF rem(1) assms(2)])
  ultimately show ?thesis
    using assms(1) evolves_handle [OF assms(2)] evolves_cached_pkgs [OF assms(2)] in_use_evolves [OF _ assms(2)]
      loaded_evolves [OF _ assms(2)]
    by (simp add: upgrade_ready_def)
qed

lemma upgrade_target_evolves:
  assumes "upgrade_ready w" "evolves w w1" "in_use w [lpkg]" "upgrade_target fnm qs down w1 w' lpkg p"
  shows "upgrade_target fnm qs down w w' lpkg p"
proof -
  obtain d where d: "d \<in> set (dbs_sync (handle w))" "for_upgrade w d" "p \<in> set (cached_pkgs w (Some d))"
    "replacement fnm qs w1 lpkg d p \<and> lpkg \<in> set (removes (wpkgs w' p)) \<or>
     pname (wpkgs w1 p) = pname (wpkgs w1 lpkg) \<and> check_literal fnm w1 lpkg p down"
    using assms(4) evolves_handle [OF assms(2)] evolves_cached_pkgs [OF assms(2)] by (auto simp: upgrade_target_def)
  have "p < next_ref w" using d(1,3) assms(1) by (auto simp: upgrade_ready_def in_use_def)
  then have use: "in_use w [lpkg, p]" using assms(3) by (simp add: in_use_def)
  have core: "pkg_core (wpkgs w1 p) = pkg_core (wpkgs w p)" "pkg_core (wpkgs w1 lpkg) = pkg_core (wpkgs w lpkg)"
    using evolves_pkg [OF assms(2) use] by simp_all
  show ?thesis
    using d unfolding replacement_evolves [OF assms(2) use] check_literal_evolves [OF assms(2) use]
      pkg_core_eqD(1) [OF core(1)] pkg_core_eqD(1) [OF core(2)] upgrade_target_def by blast
qed

lemma upgrade_from_spec:
  assumes "upgrade_ready w" "lpkg \<in> set (cached_pkgs w (localdb w))" "pname (wpkgs w lpkg) \<notin> names w (tadd (transaction w))"
    and "upgrade_from fnm qs down lpkg ds w = w'" "set ds \<subseteq> set (dbs_sync (handle w))"
  shows "\<exists>new. tadd (transaction w') = tadd (transaction w) @ new \<and> tremove (transaction w') = tremove (transaction w) \<and>
    evolves w w' \<and> upgrade_ready w' \<and> kept_removes w w' (set (tadd (transaction w))) \<and>
    (\<forall>p\<in>set new. upgrade_target fnm qs down w w' lpkg p)"
  using assms
proof (induction ds arbitrary: w)
  case Nil
  then show ?case by (simp add: upgrade_target_def)
next
  case (Cons sdb ds)
  let ?add = "tadd (transaction w)"
  have ready: "loaded w (Some sdb)" "in_use w (cached_pkgs w (Some sdb))" "trans (handle w) \<noteq> None"
    "\<forall>p\<in>set ?add. hashed (wpkgs w p)"
    using Cons.prems(1,5) by (auto simp: upgrade_ready_def)
  have lpkg: "in_use w [lpkg]" using Cons.prems(1,2) by (auto simp: upgrade_ready_def in_use_def)
  have sdb: "sdb \<in> set (dbs_sync (handle w))" using Cons.prems(5) by simp
  show ?case
  proof (cases "for_upgrade w sdb")
    case False
    then show ?thesis using Cons by auto
  next
    case True
    obtain reps w1 where run: "check_replacers fnm qs w lpkg sdb = (reps, w1)" by fastforce
    from check_replacers_loop_spec [OF run [unfolded check_replacers_def] lpkg ready(2,4)
        loaded_distinct [OF ready(1)]]
    have reps: "evolves w w1" "handle w1 = handle w" "kept_removes w w1 (set ?add)"
      "set reps \<subseteq> set (cached_pkgs w (Some sdb))" "distinct reps"
      "\<forall>p\<in>set reps. replacement fnm qs w lpkg sdb p \<and> lpkg \<in> set (removes (wpkgs w1 p)) \<and>
         pname (wpkgs w p) \<notin> names w ?add" by auto
    have same: "transaction w1 = transaction w" "trans (handle w1) \<noteq> None" using reps(2) ready(3) by (simp_all add: transaction_def)
    show ?thesis
    proof (cases "reps = []")
      case False
      have w': "w' = upd_trans (\<lambda>t. t\<lparr>tadd := tadd t @ reps\<rparr>) w1" using Cons.prems(4) True run False by simp
      have "evolves w1 w'" unfolding w' by (intro extends_evolves extends_upd_trans) simp
      then have ev: "evolves w w'" by (rule evolves_trans [OF reps(1)])
      have tr: "tadd (transaction w') = ?add @ reps" "tremove (transaction w') = tremove (transaction w)"
        using same w' by simp_all
      have use: "in_use w reps" using reps(4) ready(2) by (auto simp: in_use_def)
      have hash: "\<forall>p\<in>set reps. hashed (wpkgs w p) \<and> pname (wpkgs w p) \<notin> names w ?add"
        using reps(4,6) loaded_hashed [OF ready(1)] by blast
      have "distinct (map (\<lambda>p. pname (wpkgs w p)) reps)"
        using reps(4,5) loaded_distinct [OF ready(1)] by (auto simp: distinct_map intro: inj_on_subset)
      from upgrade_ready_evolves [OF Cons.prems(1) ev tr(1) use hash this tr(2)] have "upgrade_ready w'" .
      moreover have "upgrade_target fnm qs down w w' lpkg p" if "p \<in> set reps" for p
        using that reps(4,6) True sdb w' by (auto simp: upgrade_target_def)
      moreover have "kept_removes w w' (set ?add)" using reps(3) w' by (simp add: kept_removes_def)
      ultimately show ?thesis using ev tr by blast
    next
      case no: True
      have ready1: "upgrade_ready w1" using upgrade_ready_evolves [OF Cons.prems(1) reps(1), of "[]"] same by (simp add: in_use_def)
      have cache: "lpkg \<in> set (cached_pkgs w1 (localdb w1))"
        using Cons.prems(2) evolves_cached_pkgs [OF reps(1)] reps(2) by simp
      have core: "pkg_core (wpkgs w1 lpkg) = pkg_core (wpkgs w lpkg)" using evolves_pkg [OF reps(1) lpkg] by simp
      have use: "in_use w ?add" using Cons.prems(1) by (simp add: upgrade_ready_def)
      have name: "pname (wpkgs w1 lpkg) \<notin> names w1 (tadd (transaction w1))"
        unfolding pkg_core_eqD(1) [OF core] same using evolves_names [OF reps(1) use] Cons.prems(3) by simp
      show ?thesis
      proof (cases "cached_pkg w1 (Some sdb) (pname (wpkgs w1 lpkg))")
        case None
        then have "upgrade_from fnm qs down lpkg ds w1 = w'" using Cons.prems(4) True run no by simp
        moreover have "set ds \<subseteq> set (dbs_sync (handle w1))" using Cons.prems(5) reps(2) by simp
        ultimately obtain new where new: "tadd (transaction w') = ?add @ new" "tremove (transaction w') = tremove (transaction w)"
          "evolves w1 w'" "upgrade_ready w'" "kept_removes w1 w' (set ?add)"
          "\<forall>p\<in>set new. upgrade_target fnm qs down w1 w' lpkg p"
          using Cons.IH [OF ready1 cache name] same by auto
        then show ?thesis
          using upgrade_target_evolves [OF Cons.prems(1) reps(1) lpkg] evolves_trans [OF reps(1) new(3)]
            kept_removes_trans [OF reps(3) new(5)] by blast
      next
        case (Some spkg)
        have load1: "loaded w1 (Some sdb)" using ready1 sdb reps(2) by (simp add: upgrade_ready_def)
        have spkg: "spkg \<in> set (cached_pkgs w (Some sdb))" "pname (wpkgs w1 spkg) = pname (wpkgs w1 lpkg)"
          using Some cached_pkg_Some [OF load1] evolves_cached_pkgs [OF reps(1)] by simp_all
        have use2: "in_use w [lpkg, spkg]" using lpkg spkg(1) ready(2) by (simp add: in_use_def)
        have core2: "pkg_core (wpkgs w1 spkg) = pkg_core (wpkgs w spkg)" using evolves_pkg [OF reps(1) use2] by simp
        show ?thesis
        proof (cases "check_literal fnm w1 lpkg spkg down")
          case False
          then have "w' = w1" using Cons.prems(4) True run no Some by simp
          then show ?thesis using reps ready1 same by auto
        next
          case lit: True
          have w': "w' = upd_trans (\<lambda>t. t\<lparr>tadd := alpm_list_add (tadd t) spkg\<rparr>) w1"
            using Cons.prems(4) True run no Some lit by simp
          have "evolves w1 w'" unfolding w' by (intro extends_evolves extends_upd_trans) simp
          then have ev: "evolves w w'" by (rule evolves_trans [OF reps(1)])
          have tr: "tadd (transaction w') = ?add @ [spkg]" "tremove (transaction w') = tremove (transaction w)"
            using same w' by (simp_all add: alpm_list_add_def)
          have n: "pname (wpkgs w spkg) = pname (wpkgs w lpkg)"
            using spkg(2) pkg_core_eqD(1) [OF core] pkg_core_eqD(1) [OF core2] by simp
          have hash: "\<forall>p\<in>set [spkg]. hashed (wpkgs w p) \<and> pname (wpkgs w p) \<notin> names w ?add"
            using loaded_hashed [OF ready(1) spkg(1)] n Cons.prems(3) by simp
          have "in_use w [spkg]" using use2 by (simp add: in_use_def)
          from upgrade_ready_evolves [OF Cons.prems(1) ev tr(1) this hash _ tr(2)] have "upgrade_ready w'" by simp
          moreover have "upgrade_target fnm qs down w w' lpkg spkg"
            using lit spkg(1) True sdb n unfolding check_literal_evolves [OF reps(1) use2] by (auto simp: upgrade_target_def)
          moreover have "kept_removes w w' (set ?add)" using reps(3) w' by (simp add: kept_removes_def)
          ultimately show ?thesis using ev tr by auto
        qed
      qed
    qed
  qed
qed

lemma sysupgrade_loop_spec:
  "upgrade_ready w \<Longrightarrow> set ls \<subseteq> set (cached_pkgs w (localdb w)) \<Longrightarrow> sysupgrade_loop fnm qs down ls w = w' \<Longrightarrow>
   \<exists>new. tadd (transaction w') = tadd (transaction w) @ new \<and> tremove (transaction w') = tremove (transaction w) \<and>
    evolves w w' \<and> upgrade_ready w' \<and> kept_removes w w' (set (tadd (transaction w))) \<and>
    (\<forall>p\<in>set new. \<exists>lpkg\<in>set ls. pname (wpkgs w lpkg) \<notin> names w (tremove (transaction w)) \<and>
       upgrade_target fnm qs down w w' lpkg p)"
proof (induction ls arbitrary: w)
  case (Cons lpkg ls)
  let ?add = "tadd (transaction w)" and ?rem = "tremove (transaction w)" and ?n = "pname (wpkgs w lpkg)"
  have hash: "\<forall>p\<in>set ?add. hashed (wpkgs w p)" "\<forall>p\<in>set ?rem. hashed (wpkgs w p)"
    and use: "in_use w ?add" "in_use w ?rem" "in_use w [lpkg]" and lpkg: "lpkg \<in> set (cached_pkgs w (localdb w))"
    using Cons.prems(1,2) by (auto simp: upgrade_ready_def in_use_def)
  show ?case
  proof (cases "?n \<in> names w ?rem \<or> ?n \<in> names w ?add")
    case True
    then have "alpm_pkg_find (wpkgs w) ?rem (Some ?n) \<noteq> None \<or> alpm_pkg_find (wpkgs w) ?add (Some ?n) \<noteq> None"
      using pkg_find_None [OF hash(1)] pkg_find_None [OF hash(2)] by (auto simp: image_image)
    then have "sysupgrade_loop fnm qs down ls w = w'" using Cons.prems(3) by (auto split: if_splits)
    from Cons.IH [OF Cons.prems(1) _ this] Cons.prems(2) show ?thesis by auto
  next
    case False
    then have "alpm_pkg_find (wpkgs w) ?rem (Some ?n) = None" "alpm_pkg_find (wpkgs w) ?add (Some ?n) = None"
      using pkg_find_None [OF hash(1)] pkg_find_None [OF hash(2)] by (auto simp: image_image)
    then have run: "sysupgrade_loop fnm qs down ls (upgrade_from fnm qs down lpkg (dbs_sync (handle w)) w) = w'"
      using Cons.prems(3) by simp
    define w1 where "w1 = upgrade_from fnm qs down lpkg (dbs_sync (handle w)) w"
    obtain new1 where 1: "tadd (transaction w1) = ?add @ new1" "tremove (transaction w1) = ?rem" "evolves w w1" "upgrade_ready w1"
      "kept_removes w w1 (set ?add)" "\<forall>p\<in>set new1. upgrade_target fnm qs down w w1 lpkg p"
      using upgrade_from_spec [OF Cons.prems(1) lpkg _ w1_def [symmetric] order_refl] False by blast
    have "set ls \<subseteq> set (cached_pkgs w1 (localdb w1))"
      using Cons.prems(2) evolves_cached_pkgs [OF 1(3)] evolves_handle(1) [OF 1(3)] by simp
    from Cons.IH [OF 1(4) this] run obtain new2 where 2: "tadd (transaction w') = tadd (transaction w1) @ new2"
      "tremove (transaction w') = tremove (transaction w1)" "evolves w1 w'" "upgrade_ready w'"
      "kept_removes w1 w' (set (tadd (transaction w1)))"
      "\<forall>p\<in>set new2. \<exists>l\<in>set ls. pname (wpkgs w1 l) \<notin> names w1 (tremove (transaction w1)) \<and> upgrade_target fnm qs down w1 w' l p"
      unfolding w1_def by blast
    have "upgrade_target fnm qs down w w' lpkg p" if "p \<in> set new1" for p
    proof -
      have "set (removes (wpkgs w1 p)) \<subseteq> set (removes (wpkgs w' p))" using that 2(5) 1(1) by (simp add: kept_removes_def)
      then show ?thesis using that 1(6) unfolding upgrade_target_def by blast
    qed
    moreover have "\<exists>l\<in>set ls. pname (wpkgs w l) \<notin> names w ?rem \<and> upgrade_target fnm qs down w w' l p" if p: "p \<in> set new2" for p
    proof -
      obtain l where l: "l \<in> set ls" "pname (wpkgs w1 l) \<notin> names w1 ?rem" "upgrade_target fnm qs down w1 w' l p"
        using p 2(6) 1(2) by auto
      have usel: "in_use w [l]" using l(1) Cons.prems(1,2) by (auto simp: upgrade_ready_def in_use_def)
      have "pname (wpkgs w1 l) = pname (wpkgs w l)" using evolves_pkg [OF 1(3) usel] by (auto dest: pkg_core_eqD(1))
      then show ?thesis
        using l evolves_names [OF 1(3) use(2)] upgrade_target_evolves [OF Cons.prems(1) 1(3) usel l(3)] by auto
    qed
    moreover have "kept_removes w1 w' (set ?add)" using 2(5) 1(1) by (simp add: kept_removes_def)
    ultimately show ?thesis
      using 1 2 evolves_trans [OF 1(3) 2(3)] kept_removes_trans [OF 1(5)] False
      by (intro exI [of _ "new1 @ new2"]) auto
  qed
qed (simp add: exI)

text \<open>What the databases offer for an installed package when nothing replaces it.\<close>

definition offered :: "alpm_world \<Rightarrow> pkgref \<Rightarrow> pkgref option" where
  "offered w lpkg = first_cached w (filter (for_upgrade w) (dbs_sync (handle w))) (pname (wpkgs w lpkg))"

lemma check_replacers_none:
  "\<forall>p\<in>set k. \<not> replaces_pkg (wpkgs w p) (wpkgs w lpkg) \<Longrightarrow> check_replacers_loop fnm qs lpkg sdb k reps w = (reps, w)"
  by (induction k) auto

lemma upgrade_from_offered:
  "\<forall>d\<in>set ds. \<forall>p\<in>set (cached_pkgs w (Some d)). \<not> replaces_pkg (wpkgs w p) (wpkgs w lpkg) \<Longrightarrow>
   upgrade_from fnm qs down lpkg ds w =
     (case first_cached w (filter (for_upgrade w) ds) (pname (wpkgs w lpkg)) of
        Some spkg \<Rightarrow> if check_literal fnm w lpkg spkg down then upd_trans (\<lambda>t. t\<lparr>tadd := alpm_list_add (tadd t) spkg\<rparr>) w else w
      | None \<Rightarrow> w)"
proof (induction ds)
  case (Cons d ds)
  have "check_replacers fnm qs w lpkg d = ([], w)"
    unfolding check_replacers_def using Cons.prems by (intro check_replacers_none) simp
  then show ?case using Cons by (simp split: option.split)
qed simp

lemma cached_pkg_evolves:
  assumes "loaded w db" "evolves w w'" "in_use w (cached_pkgs w db)"
  shows "cached_pkg w' db n = cached_pkg w db n"
proof -
  note load' = loaded_evolves [OF assms]
  have "cached_pkg w' db n = Some p \<longleftrightarrow> cached_pkg w db n = Some p" for p
    unfolding cached_pkg_Some [OF load'] cached_pkg_Some [OF assms(1)] evolves_cached_pkgs [OF assms(2)]
    using pkg_core_eqD(1) [OF evolves_pkg [OF assms(2,3)]] by auto
  then show ?thesis by (metis option.exhaust)
qed

lemma offered_evolves:
  assumes "upgrade_ready w" "evolves w w'" "in_use w [l]"
  shows "offered w' l = offered w l"
proof -
  have "first_cached w' ds n = first_cached w ds n" if "set ds \<subseteq> set (dbs_sync (handle w))" for ds n
    using that
  proof (induction ds)
    case (Cons d ds)
    have "cached_pkg w' (Some d) n = cached_pkg w (Some d) n"
      using assms(1) Cons.prems by (intro cached_pkg_evolves [OF _ assms(2)]) (auto simp: upgrade_ready_def)
    then show ?case using Cons by (simp split: option.split)
  qed simp
  moreover have "pname (wpkgs w' l) = pname (wpkgs w l)" using evolves_pkg [OF assms(2,3)] by (auto dest: pkg_core_eqD(1))
  ultimately show ?thesis
    unfolding offered_def evolves_handle(2) [OF assms(2)] evolves_handle(6) [OF assms(2)]
    by (metis filter_is_subset)
qed

definition unreplaced :: "alpm_world \<Rightarrow> pkgref \<Rightarrow> bool" where
  "unreplaced w l \<longleftrightarrow> (\<forall>d\<in>set (dbs_sync (handle w)). \<forall>p\<in>set (cached_pkgs w (Some d)). \<not> replaces_pkg (wpkgs w p) (wpkgs w l))"

lemma unreplaced_evolves:
  assumes "upgrade_ready w" "evolves w w'" "in_use w [l]"
  shows "unreplaced w' l = unreplaced w l"
proof -
  have "replaces_pkg (wpkgs w' p) (wpkgs w' l) = replaces_pkg (wpkgs w p) (wpkgs w l)"
    if "d \<in> set (dbs_sync (handle w))" "p \<in> set (cached_pkgs w (Some d))" for d p
    using that assms(1) evolves_pkg [OF assms(2)] assms(3)
    by (intro replaces_core) (auto simp: upgrade_ready_def)
  then show ?thesis
    unfolding unreplaced_def evolves_handle(2) [OF assms(2)] evolves_cached_pkgs [OF assms(2)] by simp
qed

lemma sysupgrade_loop_complete:
  "upgrade_ready w \<Longrightarrow> set ls \<subseteq> set (cached_pkgs w (localdb w)) \<Longrightarrow> sysupgrade_loop fnm qs down ls w = w' \<Longrightarrow>
   l \<in> set ls \<Longrightarrow> pname (wpkgs w l) \<notin> names w (tremove (transaction w)) \<Longrightarrow> unreplaced w l \<Longrightarrow>
   offered w l = Some spkg \<Longrightarrow> check_literal fnm w l spkg down \<Longrightarrow>
   pname (wpkgs w l) \<in> names w' (tadd (transaction w'))"
proof (induction ls arbitrary: w)
  case (Cons lpkg ls)
  let ?add = "tadd (transaction w)" and ?rem = "tremove (transaction w)"
  have use: "in_use w ?add" "in_use w ?rem" "in_use w [lpkg]" "in_use w [l]" and lpkg: "lpkg \<in> set (cached_pkgs w (localdb w))"
    and t: "trans (handle w) \<noteq> None" and hash: "\<forall>p\<in>set ?add. hashed (wpkgs w p)" and hashr: "\<forall>p\<in>set ?rem. hashed (wpkgs w p)"
    using Cons.prems(1,2,4) by (auto simp: upgrade_ready_def in_use_def)
  define w1 where "w1 = (if alpm_pkg_find (wpkgs w) ?rem (Some (pname (wpkgs w lpkg))) \<noteq> None then w
      else if alpm_pkg_find (wpkgs w) ?add (Some (pname (wpkgs w lpkg))) \<noteq> None then w
      else upgrade_from fnm qs down lpkg (dbs_sync (handle w)) w)"
  have run: "sysupgrade_loop fnm qs down ls w1 = w'" using Cons.prems(3) by (simp add: w1_def)
  have "pname (wpkgs w lpkg) \<notin> names w ?add" if "alpm_pkg_find (wpkgs w) ?add (Some (pname (wpkgs w lpkg))) = None"
    using that pkg_find_None [OF hash] by (auto simp: image_image)
  then have step: "w1 = w \<or> w1 = upgrade_from fnm qs down lpkg (dbs_sync (handle w)) w \<and> pname (wpkgs w lpkg) \<notin> names w ?add"
    unfolding w1_def by presburger
  have 1: "\<exists>new1. tadd (transaction w1) = ?add @ new1" "tremove (transaction w1) = ?rem" "evolves w w1" "upgrade_ready w1"
    using step Cons.prems(1) upgrade_from_spec [OF Cons.prems(1) lpkg _ refl order_refl, of fnm qs down] by auto
  have sub: "set ls \<subseteq> set (cached_pkgs w1 (localdb w1))"
    using Cons.prems(2) evolves_cached_pkgs [OF 1(3)] evolves_handle(1) [OF 1(3)] by simp
  have name: "pname (wpkgs w1 l) = pname (wpkgs w l)" using evolves_pkg [OF 1(3) use(4)] by (auto dest: pkg_core_eqD(1))
  show ?case
  proof (cases "l = lpkg")
    case True
    have "pname (wpkgs w l) \<in> names w1 (tadd (transaction w1))"
    proof (cases "alpm_pkg_find (wpkgs w) ?add (Some (pname (wpkgs w lpkg)))")
      case (Some q)
      then have "pname (wpkgs w l) \<in> names w ?add" using pkg_find_Some [OF Some] True by force
      moreover have "names w1 ?add \<subseteq> names w1 (tadd (transaction w1))" using 1(1) by auto
      ultimately show ?thesis unfolding evolves_names [OF 1(3) use(1)] by (rule rev_subsetD)
    next
      case None
      have "alpm_pkg_find (wpkgs w) ?rem (Some (pname (wpkgs w lpkg))) = None"
        using Cons.prems(5) True pkg_find_None [OF hashr] by (auto simp: image_image)
      then have w1: "w1 = upgrade_from fnm qs down lpkg (dbs_sync (handle w)) w" using None by (simp add: w1_def)
      have spkg: "first_cached w (filter (for_upgrade w) (dbs_sync (handle w))) (pname (wpkgs w lpkg)) = Some spkg"
        using Cons.prems(7) True by (simp add: offered_def)
      have "first_cached w ds n = Some p \<Longrightarrow> \<exists>d\<in>set ds. cached_pkg w (Some d) n = Some p" for ds n p
        by (induction ds) (auto split: option.splits)
      from this [OF spkg] obtain d where "d \<in> set (dbs_sync (handle w))" "cached_pkg w (Some d) (pname (wpkgs w lpkg)) = Some spkg" by auto
      moreover have "loaded w (Some d)" if "d \<in> set (dbs_sync (handle w))" for d using that Cons.prems(1) by (auto simp: upgrade_ready_def)
      ultimately have "pname (wpkgs w spkg) = pname (wpkgs w l)" using cached_pkg_Some True by blast
      moreover have "w1 = upd_trans (\<lambda>t. t\<lparr>tadd := alpm_list_add (tadd t) spkg\<rparr>) w"
        unfolding w1 using upgrade_from_offered [of "dbs_sync (handle w)" w lpkg fnm qs down] Cons.prems(6,8) spkg True
        by (simp add: unreplaced_def)
      ultimately show ?thesis using t by (simp add: alpm_list_add_def)
    qed
    moreover obtain new where new: "tadd (transaction w') = tadd (transaction w1) @ new" "evolves w1 w'"
      using sysupgrade_loop_spec [OF 1(4) sub run] by blast
    have "in_use w1 (tadd (transaction w1))" using 1(4) by (simp add: upgrade_ready_def)
    then have "names w' (tadd (transaction w1)) = names w1 (tadd (transaction w1))" by (rule evolves_names [OF new(2)])
    ultimately show ?thesis using new(1) by auto
  next
    case False
    then have mem: "l \<in> set ls" using Cons.prems(4) by simp
    have removed: "pname (wpkgs w1 l) \<notin> names w1 (tremove (transaction w1))"
      unfolding name 1(2) evolves_names [OF 1(3) use(2)] by (rule Cons.prems(5))
    have un: "unreplaced w1 l" unfolding unreplaced_evolves [OF Cons.prems(1) 1(3) use(4)] by (rule Cons.prems(6))
    have off: "offered w1 l = Some spkg" unfolding offered_evolves [OF Cons.prems(1) 1(3) use(4)] by (rule Cons.prems(7))
    have "first_cached w ds n = Some p \<Longrightarrow> \<exists>d\<in>set ds. cached_pkg w (Some d) n = Some p" for ds n p
      by (induction ds) (auto split: option.splits)
    from this [OF Cons.prems(7) [unfolded offered_def]] obtain d where d: "d \<in> set (dbs_sync (handle w))"
      "cached_pkg w (Some d) (pname (wpkgs w l)) = Some spkg" by auto
    then have "spkg \<in> set (cached_pkgs w (Some d))" using Cons.prems(1) cached_pkg_Some by (auto simp: upgrade_ready_def)
    then have "in_use w [l, spkg]" using use(4) d(1) Cons.prems(1) by (auto simp: in_use_def upgrade_ready_def)
    then have "check_literal fnm w1 l spkg down" using check_literal_evolves [OF 1(3)] Cons.prems(8) by blast
    from Cons.IH [OF 1(4) sub run mem removed un off this] show ?thesis unfolding name .
  qed
qed simp

section \<open>Properties of the upgrade\<close>


text \<open>Version 1 is installed, the sync database has version 2.\<close>

definition versions_pkgs :: pkgs where
  "versions_pkgs p =
     alpm_pkg_new\<lparr>pname := ''lib'', name_hash := name_hash_of ''lib'', version := Some (if p = 0 then ''1'' else ''2'')\<rparr>"

definition versions_world :: "alpm_pkghash_t \<Rightarrow> alpm_pkghash_t \<Rightarrow> alpm_world" where
  "versions_world h1 h2 =
     \<lparr>handle = alpm_handle_new\<lparr>db_local := Some 3, dbs_sync := [5],
        trans := Some \<lparr>tflags = 0, tstate = STATE_INITIALIZED, unresolvable = [], tadd = [], tremove = [], skip_remove = []\<rparr>\<rparr>,
      wdbs = \<lambda>d. (alpm_db_new ''core'' False)
        \<lparr>pkgcache := Some (if d = 3 then h1 else h2), status := DB_STATUS_VALID OR DB_STATUS_PKGCACHE\<rparr>,
      wpkgs = versions_pkgs, next_ref = 10\<rparr>"

lemma versions_world_facts:
  assumes "pkghash_inv versions_pkgs h1" "hlist h1 = [0]" "pkghash_inv versions_pkgs h2" "hlist h2 = [9]"
  shows "cached_pkgs (versions_world h1 h2) (Some 3) = [0]" "cached_pkgs (versions_world h1 h2) (Some 5) = [9]"
    "loaded (versions_world h1 h2) (Some d)" "handle (versions_world h1 h2) = alpm_handle_new\<lparr>db_local := Some 3, dbs_sync := [5],
        trans := Some \<lparr>tflags = 0, tstate = STATE_INITIALIZED, unresolvable = [], tadd = [], tremove = [], skip_remove = []\<rparr>\<rparr>"
    "wpkgs (versions_world h1 h2) = versions_pkgs" "next_ref (versions_world h1 h2) = 10"
    "for_upgrade (versions_world h1 h2) d" "hashed (versions_pkgs p)" "replaces (versions_pkgs p) = []"
    "pname (versions_pkgs p) = ''lib''" "groups (versions_pkgs p) = []"
  using assms
  by (simp_all add: versions_world_def loaded_def has_status_def cached_pkgs_def alpm_db_new_def versions_pkgs_def hashed_def alpm_pkg_new_def)


end
