(* ===== verification/AlpmSync.thy ===== *)
theory AlpmSync
  imports AlpmSysupgrade AlpmRemove AlpmConflict
begin

text \<open>
  Preparing an installation: \<open>_alpm_sync_prepare\<close> and \<open>compute_download_size\<close> of
  \<open>lib/libalpm/sync.c\<close>. The reports in \<open>*data\<close> are missing dependencies or conflicts. What the
  code asks of its surroundings is in a record. A result \<open>None\<close> is a dereferenced null
  pointer (a target without a file name) or a resolution that does not end, which
  \<open>sync_prepare_safe\<close> excludes.
\<close>

record sync_env =
  env_fnmatch :: "string \<Rightarrow> string \<Rightarrow> bool"
  env_questions :: alpm_questions
  env_force_load :: "alpm_pkg_t \<Rightarrow> bool"
  env_is_reg :: "string \<Rightarrow> bool"
  env_stat_size :: "string \<Rightarrow> int option"

datatype sync_data = Missing alpm_depmissing_t | Conflicting alpm_conflict_t

section \<open>The size of a download\<close>

abbreviation "INFRQ_DSIZE \<equiv> 16 :: u32"

definition compute_download_size :: "sync_env \<Rightarrow> alpm_world \<Rightarrow> pkgref \<Rightarrow> int \<times> alpm_world" where
  "compute_download_size env w p =
     (let pkg = wpkgs w p;
          finish = (\<lambda>size. upd_pkg p (\<lambda>pkg. pkg\<lparr>infolevel := infolevel pkg OR INFRQ_DSIZE, download_size := size\<rparr>) w);
          cache_find = alpm_filecache_find (env_is_reg env) (cachedirs (handle w))
      in if origin pkg \<noteq> ALPM_PKG_FROM_SYNCDB then (0, finish 0)
         else
           (case filename pkg of
              None \<Rightarrow> (-1, set_errno ALPM_ERR_PKG_INVALID_NAME w)
            | Some f \<Rightarrow>
                if cache_find f \<noteq> None then (0, finish 0)
                else
                  (case cache_find (f @ ''.part'') of
                     None \<Rightarrow> (0, finish (psize pkg))
                   | Some fpath \<Rightarrow>
                       (case env_stat_size env fpath of
                          None \<Rightarrow> (1, finish 0)
                        | Some st_size \<Rightarrow>
                            let size = psize pkg - st_size
                            in (1, finish (if size < 0 then 0 else size))))))"

definition alpm_pkg_download_size :: "sync_env \<Rightarrow> alpm_world \<Rightarrow> pkgref \<Rightarrow> int \<times> alpm_world" where
  "alpm_pkg_download_size env w p =
     (let w = (if infolevel (wpkgs w p) AND INFRQ_DSIZE = 0 then snd (compute_download_size env w p) else w)
      in (download_size (wpkgs w p), w))"

section \<open>The sync databases\<close>

fun check_sync_dbs :: "alpm_world \<Rightarrow> bool \<Rightarrow> dbref list \<Rightarrow> alpm_errno_t" where
  "check_sync_dbs w from_sync [] = ALPM_ERR_OK"
| "check_sync_dbs w from_sync (d # i) =
     (if has_status (wdbs w d) DB_STATUS_INVALID then ALPM_ERR_DB_INVALID
      else if from_sync \<and> has_status (wdbs w d) DB_STATUS_MISSING then ALPM_ERR_DB_NOT_FOUND
      else check_sync_dbs w from_sync i)"

section \<open>Resolving the targets\<close>

text \<open>Enough fuel for every call: one more than the packages there are to choose from.\<close>

definition resolve_fuel :: "alpm_world \<Rightarrow> pkgref list \<Rightarrow> nat" where
  "resolve_fuel w preferred =
     Suc (length preferred + sum_list (map (\<lambda>d. length (cached_pkgs w (Some d))) (dbs_sync (handle w))))"

text \<open>One target after the other; the state is what is resolved with the reports, and what cannot be.\<close>

fun resolve_targets ::
  "sync_env \<Rightarrow> alpm_world \<Rightarrow> pkgref list \<Rightarrow> pkgref list \<Rightarrow> pkgref list \<Rightarrow> pkgref list \<Rightarrow>
   resolve_state \<Rightarrow> pkgref list \<Rightarrow> (resolve_state \<times> pkgref list) option" where
  "resolve_targets env w localpkgs add rem [] st unres = Some (st, unres)"
| "resolve_targets env w localpkgs add rem (pkg # i) st unres =
     (case alpm_resolvedeps (resolve_fuel w add) (env_fnmatch env) (env_questions env) w localpkgs add rem pkg st of
        None \<Rightarrow> None
      | Some (r, st) \<Rightarrow>
          resolve_targets env w localpkgs add rem i st (if r = -1 then alpm_list_add unres pkg else unres))"

text \<open>
  Whether two packages have the same file name: \<open>None\<close> if the name of one is a null pointer.
  The code goes on after the first such pair, on a list it has freed; what it has decided by
  then does not change.
\<close>

fun same_filename :: "pkgs \<Rightarrow> pkgref \<Rightarrow> pkgref list \<Rightarrow> bool option" where
  "same_filename ps pkg1 [] = Some False"
| "same_filename ps pkg1 (pkg2 # j) =
     (case (filename (ps pkg1), filename (ps pkg2)) of
        (Some f1, Some f2) \<Rightarrow> if strcmp f1 f2 = 0 then Some True else same_filename ps pkg1 j
      | _ \<Rightarrow> None)"

fun dup_filename :: "pkgs \<Rightarrow> pkgref list \<Rightarrow> bool option" where
  "dup_filename ps [] = Some False"
| "dup_filename ps (pkg1 # i) =
     (case same_filename ps pkg1 i of
        None \<Rightarrow> None
      | Some True \<Rightarrow> Some True
      | Some False \<Rightarrow> dup_filename ps i)"

text \<open>Packages that were pulled in are marked as dependencies.\<close>

fun set_depend_reason :: "pkgref list \<Rightarrow> alpm_world \<Rightarrow> pkgref list \<Rightarrow> alpm_world" where
  "set_depend_reason add w [] = w"
| "set_depend_reason add w (pkg # i) =
     set_depend_reason add
       (if alpm_pkg_find (wpkgs w) add (Some (pname (wpkgs w pkg))) = None
        then upd_pkg pkg (\<lambda>p. p\<lparr>preason := ALPM_PKG_REASON_DEPEND\<rparr>) w else w) i"

definition all_removes :: "alpm_world \<Rightarrow> pkgref list \<Rightarrow> pkgref list" where
  "all_removes w add = concat (map (\<lambda>spkg. removes (wpkgs w spkg)) add)"

definition sync_resolve :: "sync_env \<Rightarrow> alpm_world \<Rightarrow> (int \<times> sync_data list \<times> alpm_world) option" where
  "sync_resolve env w =
     (let add = tadd (transaction w);
          rem = tremove (transaction w) @ all_removes w add;
          localpkgs = alpm_list_diff (alpm_pkg_cmp (wpkgs w)) (cached_pkgs w (localdb w)) add
      in case resolve_targets env w localpkgs add rem add ([], []) [] of
           None \<Rightarrow> None
         | Some ((resolved, data), unres) \<Rightarrow>
             let data = map Missing data;
                 skip = (unres \<noteq> [] \<and> q_remove_pkgs (env_questions env) unres)
             in if unres \<noteq> [] \<and> \<not> skip
                then Some (-1, data, set_errno ALPM_ERR_UNSATISFIED_DEPS w)
                else
                  let w = (if skip then set_errno ALPM_ERR_OK w else w);
                      data = (if skip then [] else data)
                  in (case dup_filename (wpkgs w) resolved of
                        None \<Rightarrow> None
                      | Some True \<Rightarrow> Some (-1, data, set_errno ALPM_ERR_TRANS_DUP_FILENAME w)
                      | Some False \<Rightarrow>
                          let w = set_depend_reason add w resolved
                          in Some (0, data,
                               upd_trans (\<lambda>t. t\<lparr>unresolvable := unres, tadd := resolved\<rparr>) w)))"

section \<open>Conflicts\<close>

text \<open>Between targets: one that provides the other stays, the other is dropped.\<close>

definition drop_target :: "pkgref \<Rightarrow> alpm_world \<Rightarrow> alpm_world" where
  "drop_target rsync w =
     upd_trans (\<lambda>t. t\<lparr>tadd := fst (alpm_list_remove (alpm_pkg_cmp (wpkgs w)) (tadd t) rsync),
                      unresolvable := alpm_list_add (unresolvable t) rsync\<rparr>) w"

fun settle_inner :: "alpm_conflict_t list \<Rightarrow> sync_data list \<Rightarrow> alpm_world \<Rightarrow> int \<times> sync_data list \<times> alpm_world" where
  "settle_inner [] data w = (0, data, w)"
| "settle_inner (conflict # i) data w =
     (let ps = wpkgs w; add = tadd (transaction w)
      in case (alpm_pkg_find ps add (Some (package1 conflict)), alpm_pkg_find ps add (Some (package2 conflict))) of
           (Some sync1, Some sync2) \<Rightarrow>
             let dep1 = the (alpm_dep_from_string (Some (package1 conflict)));
                 dep2 = the (alpm_dep_from_string (Some (package2 conflict)))
             in if alpm_depcmp (ps sync1) dep2 then settle_inner i data (drop_target sync2 w)
                else if alpm_depcmp (ps sync2) dep1 then settle_inner i data (drop_target sync1 w)
                else (-1, alpm_list_add data (Conflicting (alpm_conflict_dup conflict)), set_errno ALPM_ERR_CONFLICTING_DEPS w)
         | _ \<Rightarrow> settle_inner i data w)"

text \<open>With installed packages: the user decides whether they are removed.\<close>

definition elected :: "alpm_world \<Rightarrow> string \<Rightarrow> bool" where
  "elected w n \<longleftrightarrow>
     alpm_pkg_find (wpkgs w) (tremove (transaction w)) (Some n) \<noteq> None \<or>
     (\<exists>spkg\<in>set (tadd (transaction w)). alpm_pkg_find (wpkgs w) (removes (wpkgs w spkg)) (Some n) \<noteq> None)"

fun settle_outer ::
  "alpm_questions \<Rightarrow> alpm_conflict_t list \<Rightarrow> sync_data list \<Rightarrow> alpm_world \<Rightarrow> int \<times> sync_data list \<times> alpm_world" where
  "settle_outer qs [] data w = (0, data, w)"
| "settle_outer qs (conflict # i) data w =
     (if elected w (package2 conflict) then settle_outer qs i data w
      else if q_conflict_pkg qs conflict
      then
        (let sync = the (alpm_pkg_find (wpkgs w) (tadd (transaction w)) (Some (package1 conflict)));
             local = the (cached_pkg w (localdb w) (package2 conflict))
         in settle_outer qs i data (upd_pkg sync (\<lambda>p. p\<lparr>removes := alpm_list_add (removes p) local\<rparr>) w))
      else (-1, alpm_list_add data (Conflicting (alpm_conflict_dup conflict)), set_errno ALPM_ERR_CONFLICTING_DEPS w))"

definition sync_conflicts :: "sync_env \<Rightarrow> sync_data list \<Rightarrow> alpm_world \<Rightarrow> int \<times> sync_data list \<times> alpm_world" where
  "sync_conflicts env data w =
     (let (r, data, w) = settle_inner (alpm_innerconflicts (wpkgs w) (tadd (transaction w))) data w
      in if r \<noteq> 0 then (r, data, w)
         else settle_outer (env_questions env) (alpm_outerconflicts w (localdb w) (tadd (transaction w))) data w)"

section \<open>Preparation\<close>

text \<open>Copies of the packages to be replaced go into the list of removals, target by target.\<close>

fun add_removals :: "(alpm_pkg_t \<Rightarrow> bool) \<Rightarrow> pkgref list \<Rightarrow> alpm_world \<Rightarrow> int \<times> alpm_world" where
  "add_removals force_load [] w = (0, w)"
| "add_removals force_load (rpkg # j) w =
     (if alpm_pkg_find (wpkgs w) (tremove (transaction w)) (Some (pname (wpkgs w rpkg))) = None
      then
        (let (r, copy, w') = dup_pkg force_load w rpkg
         in if r = -1 then (-1, w)
            else add_removals force_load j (upd_trans (\<lambda>t. t\<lparr>tremove := alpm_list_add (tremove t) copy\<rparr>) w'))
      else add_removals force_load j w)"

fun build_removals :: "(alpm_pkg_t \<Rightarrow> bool) \<Rightarrow> pkgref list \<Rightarrow> alpm_world \<Rightarrow> int \<times> alpm_world" where
  "build_removals force_load [] w = (0, w)"
| "build_removals force_load (spkg # i) w =
     (let (r, w) = add_removals force_load (removes (wpkgs w spkg)) w
      in if r \<noteq> 0 then (r, w) else build_removals force_load i w)"

definition alpm_db_get_pkg :: "alpm_world \<Rightarrow> dbref option \<Rightarrow> string option \<Rightarrow> pkgref option \<times> alpm_world" where
  "alpm_db_get_pkg w db name =
     (if db = None then (None, w)
      else
        let w = set_errno ALPM_ERR_OK w
        in (case name of
              None \<Rightarrow> (None, set_errno ALPM_ERR_WRONG_ARGS w)
            | Some n \<Rightarrow>
                if n = [] then (None, set_errno ALPM_ERR_WRONG_ARGS w)
                else
                  (case cached_pkg w db n of
                     None \<Rightarrow> (None, set_errno ALPM_ERR_PKG_NOT_FOUND w)
                   | Some pkg \<Rightarrow> (Some pkg, w))))"

text \<open>The download sizes, and copies of the installed packages that are replaced.\<close>

fun finish_targets :: "sync_env \<Rightarrow> pkgref list \<Rightarrow> alpm_world \<Rightarrow> int \<times> alpm_world" where
  "finish_targets env [] w = (0, w)"
| "finish_targets env (spkg # i) w =
     (let (lpkg, w) = alpm_db_get_pkg w (localdb w) (Some (pname (wpkgs w spkg)));
          (r, w) = compute_download_size env w spkg
      in if r < 0 then (-1, w)
         else
           (case lpkg of
              None \<Rightarrow> finish_targets env i w
            | Some l \<Rightarrow>
                (let (r, copy, w) = dup_pkg (env_force_load env) w l;
                     w = upd_pkg spkg (\<lambda>p. p\<lparr>oldpkg := Some copy\<rparr>) w
                 in if r \<noteq> 0 then (-1, w) else finish_targets env i w)))"

text \<open>From the list of removals on.\<close>

definition sync_finish :: "sync_env \<Rightarrow> sync_data list \<Rightarrow> alpm_world \<Rightarrow> int \<times> sync_data list \<times> alpm_world" where
  "sync_finish env data w =
     (let (r, w) = build_removals (env_force_load env) (tadd (transaction w)) w
      in if r \<noteq> 0 then (-1, data, w)
         else
           let deps = (if has_flag (transaction w) ALPM_TRANS_FLAG_NODEPS then []
                       else alpm_checkdeps (handle w) (wpkgs w) (cached_pkgs w (localdb w))
                              (tremove (transaction w)) (tadd (transaction w)) True)
           in if deps \<noteq> [] then (-1, map Missing deps, set_errno ALPM_ERR_UNSATISFIED_DEPS w)
              else (let (r, w) = finish_targets env (tadd (transaction w)) w in (r, data, w)))"

definition alpm_sync_prepare :: "sync_env \<Rightarrow> alpm_world \<Rightarrow> (int \<times> sync_data list \<times> alpm_world) option" where
  "alpm_sync_prepare env w =
     (let t = transaction w;
          from_sync = (\<exists>i\<in>set (tadd t). origin (wpkgs w i) = ALPM_PKG_FROM_SYNCDB);
          err = check_sync_dbs w from_sync (dbs_sync (handle w))
      in if err \<noteq> ALPM_ERR_OK then Some (-1, [], set_errno err w)
         else
           (case (if has_flag t ALPM_TRANS_FLAG_NODEPS then Some (0, [], w) else sync_resolve env w) of
              None \<Rightarrow> None
            | Some (r, data, w) \<Rightarrow>
                if r \<noteq> 0 then Some (r, data, w)
                else
                  (let (r, data, w) =
                         (if has_flag t ALPM_TRANS_FLAG_NOCONFLICTS then (0, data, w) else sync_conflicts env data w)
                   in if r \<noteq> 0 then Some (r, data, w) else Some (sync_finish env data w))))"

section \<open>The state in which an installation is prepared\<close>

definition sync_ready :: "alpm_world \<Rightarrow> bool" where
  "sync_ready w \<longleftrightarrow> upgrade_ready w \<and> removal_ready w \<and>
     (\<forall>p\<in>candidates w (tadd (transaction w)).
        set (removes (wpkgs w p)) \<subseteq> set (cached_pkgs w (localdb w)) \<and> filename (wpkgs w p) \<noteq> None)"

text \<open>The installed packages afterwards.\<close>

definition installed_after :: "alpm_world \<Rightarrow> pkgref list" where
  "installed_after w =
     after_change (wpkgs w) (cached_pkgs w (localdb w)) (tremove (transaction w)) (tadd (transaction w))"

lemma sync_ready_candidate:
  assumes "sync_ready w" "p \<in> candidates w (tadd (transaction w))"
  shows "p < next_ref w" "hashed (wpkgs w p)"
  using assms loaded_hashed by (auto simp: sync_ready_def upgrade_ready_def candidates_def in_use_def)

lemma sync_ready_resolvable: "sync_ready w \<Longrightarrow> resolvable w (tadd (transaction w))"
  by (auto simp: sync_ready_def upgrade_ready_def resolvable_def)

lemma sync_ready_evolves:
  assumes "sync_ready w" "evolves w w'" "set (tadd (transaction w')) \<subseteq> candidates w (tadd (transaction w))"
    and "distinct (map (\<lambda>p. pname (wpkgs w p)) (tadd (transaction w')))"
    and "in_use w' (tremove (transaction w'))" "\<forall>p\<in>set (tremove (transaction w')). hashed (wpkgs w' p)"
    and "\<forall>p\<in>candidates w (tadd (transaction w)). set (removes (wpkgs w' p)) \<subseteq> set (cached_pkgs w (localdb w))"
  shows "sync_ready w'"
proof -
  have cand: "candidates w' (tadd (transaction w')) \<subseteq> candidates w (tadd (transaction w))"
    using assms(3) evolves_cached_pkgs [OF assms(2)] evolves_handle(2) [OF assms(2)] by (auto simp: candidates_def)
  have core: "pkg_core (wpkgs w' p) = pkg_core (wpkgs w p)" if "p \<in> candidates w (tadd (transaction w))" for p
    using sync_ready_candidate(1) [OF assms(1) that] assms(2) by (simp add: evolves_def)
  have use: "in_use w (tadd (transaction w'))" using assms(3) sync_ready_candidate(1) [OF assms(1)] by (auto simp: in_use_def)
  have "map (\<lambda>p. pname (wpkgs w' p)) (tadd (transaction w')) = map (\<lambda>p. pname (wpkgs w p)) (tadd (transaction w'))"
    using core assms(3) by (intro map_cong pkg_core_eqD(1)) auto
  then have "distinct (map (\<lambda>p. pname (wpkgs w' p)) (tadd (transaction w')))" using assms(4) by (simp only:)
  moreover have "\<forall>p\<in>set (tadd (transaction w')). hashed (wpkgs w' p)"
    using hashed_core [OF core] sync_ready_candidate(2) [OF assms(1)] assms(3) by blast
  moreover have "in_use w' (tadd (transaction w'))" by (rule in_use_evolves [OF use assms(2)])
  moreover have "loaded w' (localdb w')" "in_use w' (cached_pkgs w' (localdb w'))"
    "\<forall>d\<in>set (dbs_sync (handle w')). loaded w' (Some d) \<and> in_use w' (cached_pkgs w' (Some d))"
    using assms(1) loaded_evolves [OF _ assms(2)] in_use_evolves [OF _ assms(2)] evolves_handle(1,2) [OF assms(2)]
      evolves_cached_pkgs [OF assms(2)] by (auto simp: sync_ready_def upgrade_ready_def)
  moreover have "trans (handle w') \<noteq> None" "localdb w' \<noteq> None"
    using assms(1) evolves_handle(1,7) [OF assms(2)] by (simp_all add: sync_ready_def removal_ready_def)
  ultimately have "upgrade_ready w'" "removal_ready w'"
    using assms(5,6) by (simp_all add: upgrade_ready_def removal_ready_def)
  moreover have "filename (wpkgs w' p) \<noteq> None" if "p \<in> candidates w' (tadd (transaction w'))" for p
    using that cand assms(1) pkg_core_eqD(12) [OF core] by (fastforce simp: sync_ready_def)
  ultimately show ?thesis
    using assms(7) cand evolves_cached_pkgs [OF assms(2)] evolves_handle(1) [OF assms(2)] by (auto simp: sync_ready_def)
qed

section \<open>Facts about resolving\<close>

lemma resolve_loop_keeps:
  assumes "\<And>s pk d r pk' d'. s \<in> candidates w preferred \<Longrightarrow> rec s (pk, d) = Some (r, pk', d') \<Longrightarrow> Q pk \<Longrightarrow> Q pk'"
    and "resolvable w preferred"
  shows "resolve_loop rec fnm qs w preferred rem deps ret (pk, d) = Some (r, pk', d') \<Longrightarrow> Q pk \<Longrightarrow> Q pk'"
proof (induction deps arbitrary: ret pk d)
  case (Cons miss deps)
  let ?next = "case chosen fnm qs w preferred (miss_depend miss) pk of None \<Rightarrow> Some (-1, (pk, d)) | Some s \<Rightarrow> rec s (pk, d)"
  show ?case
  proof (cases "find_dep_satisfier (wpkgs w) pk (miss_depend miss) \<noteq> None")
    case True
    then have "resolve_loop rec fnm qs w preferred rem deps ret (pk, d) = Some (r, pk', d')"
      using Cons.prems(1) unfolding resolve_loop_Cons by (simp only: if_True not_False_eq_True)
    then show ?thesis using Cons.IH Cons.prems(2) by blast
  next
    case False
    then obtain r1 pk1 d1 where step: "?next = Some (r1, pk1, d1)"
      using Cons.prems(1) unfolding resolve_loop_Cons by (cases ?next) (simp, fastforce)
    have Q1: "Q pk1"
    proof (cases "chosen fnm qs w preferred (miss_depend miss) pk")
      case None
      then show ?thesis using step Cons.prems(2) by simp
    next
      case (Some s)
      then show ?thesis using step assms(1) [of s pk d r1 pk1 d1] chosen_candidate [OF Some assms(2)] Cons.prems(2) by simp
    qed
    have "\<exists>ret' d2. resolve_loop rec fnm qs w preferred rem deps ret' (pk1, d2) = Some (r, pk', d')"
      using Cons.prems(1) False unfolding resolve_loop_Cons step by (auto split: if_splits sum.splits)
    then show ?thesis using Cons.IH Q1 by blast
  qed
qed simp

text \<open>The names of the resolved packages stay distinct, and all of them are candidates.\<close>

definition resolved_ok :: "alpm_world \<Rightarrow> pkgref list \<Rightarrow> pkgref list \<Rightarrow> bool" where
  "resolved_ok w preferred pk \<longleftrightarrow> set pk \<subseteq> candidates w preferred \<and> distinct (map (\<lambda>p. pname (wpkgs w p)) pk)"

lemma resolvedeps_keeps:
  assumes "resolvable w preferred"
  shows "alpm_resolvedeps fuel fnm qs w localpkgs preferred rem pkg (pk, d) = Some (r, pk', d') \<Longrightarrow>
    pkg \<in> candidates w preferred \<Longrightarrow> resolved_ok w preferred pk \<Longrightarrow> resolved_ok w preferred pk'"
proof (induction fuel arbitrary: pkg pk d r pk' d')
  case (Suc fuel)
  show ?case
  proof (cases "alpm_pkg_find (wpkgs w) pk (Some (pname (wpkgs w pkg)))")
    case (Some q)
    then show ?thesis using Suc.prems by simp
  next
    case None
    have "\<forall>p\<in>set pk. hashed (wpkgs w p)" using Suc.prems(3) candidates_hashed [OF assms] by (auto simp: resolved_ok_def)
    then have "pname (wpkgs w pkg) \<notin> names w pk" using None pkg_find_None [of pk "wpkgs w"] by (simp add: image_image)
    then have start: "resolved_ok w preferred (pk @ [pkg])" using Suc.prems(2,3) by (auto simp: resolved_ok_def)
    let ?deps = "alpm_checkdeps (handle w) (wpkgs w) localpkgs rem [pkg] False"
    obtain r1 p1 d1 where loop: "resolve_loop (alpm_resolvedeps fuel fnm qs w localpkgs preferred rem) fnm qs w preferred rem
        ?deps 0 (pk @ [pkg], d) = Some (r1, p1, d1)"
      and res: "pk' = (if r1 \<noteq> 0 then pk else p1)"
      using Suc.prems(1) None by (auto simp: alpm_list_add_def split: option.splits)
    have "resolved_ok w preferred p1"
      using resolve_loop_keeps [where Q = "resolved_ok w preferred", OF _ assms loop] Suc.IH start by blast
    then show ?thesis using res Suc.prems(3) by simp
  qed
qed simp

lemma resolve_fuel_enough:
  "card ((\<lambda>p. pname (wpkgs w p)) ` candidates w preferred) < resolve_fuel w preferred"
proof -
  have "card (\<Union>d\<in>set ds. set (f d)) \<le> sum_list (map (\<lambda>d. length (f d)) ds)" for ds :: "dbref list" and f :: "dbref \<Rightarrow> pkgref list"
  proof (induction ds)
    case (Cons d ds)
    have "card (set (f d) \<union> (\<Union>d\<in>set ds. set (f d))) \<le> card (set (f d)) + card (\<Union>d\<in>set ds. set (f d))" by (rule card_Un_le)
    also have "\<dots> \<le> length (f d) + sum_list (map (\<lambda>d. length (f d)) ds)" by (intro add_mono card_length Cons.IH)
    finally show ?case by simp
  qed simp
  then have "card (candidates w preferred) \<le> length preferred + sum_list (map (\<lambda>d. length (cached_pkgs w (Some d))) (dbs_sync (handle w)))"
    unfolding candidates_def by (intro order_trans [OF card_Un_le] add_mono card_length)
  then show ?thesis
    using card_image_le [OF candidates_finite [of w preferred], of "\<lambda>p. pname (wpkgs w p)"] by (simp add: resolve_fuel_def)
qed

lemma resolve_targets_spec:
  assumes "resolvable w add" "set i \<subseteq> candidates w add"
  shows "resolved_ok w add (fst st) \<Longrightarrow>
    \<exists>st' unres'. resolve_targets env w localpkgs add rem i st unres = Some (st', unres') \<and> resolved_ok w add (fst st')"
  using assms(2)
proof (induction i arbitrary: st unres)
  case (Cons pkg i)
  obtain pk d where st: "st = (pk, d)" by fastforce
  have cand: "pkg \<in> candidates w add" using Cons.prems(2) by simp
  have hash: "\<forall>p\<in>set pk. hashed (wpkgs w p)" using Cons.prems(1) candidates_hashed [OF assms(1)] by (auto simp: resolved_ok_def st)
  have "card (names_left w add pk) < resolve_fuel w add"
    unfolding names_left_def
    using card_mono [OF finite_imageI [OF candidates_finite] Diff_subset] resolve_fuel_enough by (rule le_less_trans)
  moreover have "\<forall>p\<in>set pk \<union> candidates w add. hashed (wpkgs w p)" using hash candidates_hashed [OF assms(1)] by auto
  ultimately have "grown (set pk) (set pk \<union> candidates w add)
      (alpm_resolvedeps (resolve_fuel w add) (env_fnmatch env) (env_questions env) w localpkgs add rem pkg (pk, d))"
    using resolvedeps_enough [OF assms(1) _ cand Un_upper1 Un_upper2] by blast
  then obtain r pk1 d1 where run: "alpm_resolvedeps (resolve_fuel w add) (env_fnmatch env) (env_questions env) w localpkgs add rem pkg (pk, d) =
      Some (r, pk1, d1)" unfolding grown_def by blast
  have "resolved_ok w add pk1" using resolvedeps_keeps [OF assms(1) run cand] Cons.prems(1) by (simp add: st)
  then show ?case using Cons.IH [of "(pk1, d1)"] run Cons.prems(2) by (simp add: st)
qed simp

lemma same_filename_total:
  "filename (ps p) \<noteq> None \<Longrightarrow> \<forall>q\<in>set l. filename (ps q) \<noteq> None \<Longrightarrow> same_filename ps p l \<noteq> None"
  by (induction l) auto

lemma dup_filename_total: "\<forall>q\<in>set l. filename (ps q) \<noteq> None \<Longrightarrow> dup_filename ps l \<noteq> None"
proof (induction l)
  case (Cons p l)
  then obtain b where "same_filename ps p l = Some b" using same_filename_total [of ps p l] by auto
  then show ?case using Cons by (cases b) auto
qed simp

lemma set_depend_reason_spec:
  "evolves w (set_depend_reason add w l) \<and> handle (set_depend_reason add w l) = handle w \<and>
   (\<forall>p. removes (wpkgs (set_depend_reason add w l) p) = removes (wpkgs w p))"
proof (induction l arbitrary: w)
  case (Cons p l)
  define w1 where "w1 = (if alpm_pkg_find (wpkgs w) add (Some (pname (wpkgs w p))) = None
    then upd_pkg p (\<lambda>p. p\<lparr>preason := ALPM_PKG_REASON_DEPEND\<rparr>) w else w)"
  have ev: "evolves w w1" by (simp add: w1_def evolves_upd_pkg)
  have "handle w1 = handle w" "\<And>q. removes (wpkgs w1 q) = removes (wpkgs w q)" by (simp_all add: w1_def)
  moreover have "set_depend_reason add w (p # l) = set_depend_reason add w1 l" by (simp add: w1_def)
  ultimately show ?case using Cons.IH [of w1] evolves_trans [OF ev] by auto
qed simp

text \<open>A step that leaves the removals alone and takes its targets from the candidates.\<close>

definition sync_step :: "alpm_world \<Rightarrow> alpm_world \<Rightarrow> bool" where
  "sync_step w w' \<longleftrightarrow> evolves w w' \<and> sync_ready w' \<and>
     set (tadd (transaction w')) \<subseteq> candidates w (tadd (transaction w)) \<and> tremove (transaction w') = tremove (transaction w)"

lemma tremove_evolves:
  assumes "sync_ready w" "evolves w w'" "tremove (transaction w') = tremove (transaction w)"
  shows "in_use w' (tremove (transaction w'))" "\<forall>p\<in>set (tremove (transaction w')). hashed (wpkgs w' p)"
    "removed_names w' = removed_names w"
proof -
  have use: "in_use w (tremove (transaction w))" and h: "\<forall>p\<in>set (tremove (transaction w)). hashed (wpkgs w p)"
    using assms(1) by (simp_all add: sync_ready_def removal_ready_def)
  show "in_use w' (tremove (transaction w'))" using in_use_evolves [OF use assms(2)] assms(3) by simp
  show "\<forall>p\<in>set (tremove (transaction w')). hashed (wpkgs w' p)"
    using h hashed_core [OF evolves_pkg [OF assms(2) use]] assms(3) by simp
  show "removed_names w' = removed_names w" using evolves_names [OF assms(2) use] assms(3) by simp
qed

lemma sync_resolve_spec:
  assumes "sync_ready w"
  shows "\<exists>r data w'. sync_resolve env w = Some (r, data, w') \<and> evolves w w' \<and> (r = 0 \<longrightarrow> sync_step w w') \<and>
    (r \<noteq> 0 \<longrightarrow> r = -1 \<and> pm_errno (handle w') \<in> {ALPM_ERR_UNSATISFIED_DEPS, ALPM_ERR_TRANS_DUP_FILENAME})"
proof -
  let ?add = "tadd (transaction w)"
  let ?local = "alpm_list_diff (alpm_pkg_cmp (wpkgs w)) (cached_pkgs w (localdb w)) ?add"
  let ?rem = "tremove (transaction w) @ all_removes w ?add"
  have t: "trans (handle w) \<noteq> None" using assms by (simp add: sync_ready_def removal_ready_def)
  have sub: "set ?add \<subseteq> candidates w ?add" by (simp add: candidates_def)
  obtain resolved data unres where run: "resolve_targets env w ?local ?add ?rem ?add ([], []) [] = Some ((resolved, data), unres)"
    and ok: "resolved_ok w ?add resolved"
    using resolve_targets_spec [OF sync_ready_resolvable [OF assms] sub, of "([], [])" env ?local ?rem "[]"]
    by (auto simp: resolved_ok_def)
  define skip where "skip = (unres \<noteq> [] \<and> q_remove_pkgs (env_questions env) unres)"
  show ?thesis
  proof (cases "unres \<noteq> [] \<and> \<not> skip")
    case True
    then have "sync_resolve env w = Some (-1, map Missing data, set_errno ALPM_ERR_UNSATISFIED_DEPS w)"
      using run by (auto simp: sync_resolve_def Let_def skip_def)
    then show ?thesis using extends_evolves by auto
  next
    case False
    define w1 where "w1 = (if skip then set_errno ALPM_ERR_OK w else w)"
    define data1 where "data1 = (if skip then [] else map Missing data)"
    have w1: "wpkgs w1 = wpkgs w" "transaction w1 = transaction w" "trans (handle w1) = trans (handle w)" by (simp_all add: w1_def)
    have ev1: "evolves w w1" unfolding w1_def by (simp add: extends_evolves)
    have "\<forall>p\<in>set resolved. filename (wpkgs w p) \<noteq> None" using ok assms by (auto simp: resolved_ok_def sync_ready_def)
    then obtain b where dup: "dup_filename (wpkgs w) resolved = Some b" using dup_filename_total by blast
    show ?thesis
    proof (cases b)
      case True
      then have "sync_resolve env w = Some (-1, data1, set_errno ALPM_ERR_TRANS_DUP_FILENAME w1)"
        using run False dup w1(1) by (auto simp: sync_resolve_def Let_def skip_def w1_def data1_def)
      moreover have "evolves w1 (set_errno ALPM_ERR_TRANS_DUP_FILENAME w1)" by (simp add: extends_evolves)
      ultimately show ?thesis using evolves_trans [OF ev1] by auto
    next
      case unique: False
      define w2 where "w2 = set_depend_reason ?add w1 resolved"
      define w3 where "w3 = upd_trans (\<lambda>t. t\<lparr>unresolvable := unres, tadd := resolved\<rparr>) w2"
      have res: "sync_resolve env w = Some (0, data1, w3)"
        using run False unique dup w1(1) by (auto simp: sync_resolve_def Let_def skip_def w1_def data1_def w2_def w3_def)
      note s2 = set_depend_reason_spec [of w1 ?add resolved, folded w2_def]
      have "evolves w2 w3" unfolding w3_def by (intro extends_evolves extends_upd_trans) simp
      then have ev: "evolves w w3" using evolves_trans [OF evolves_trans [OF ev1]] s2 by blast
      have t2: "trans (handle w2) \<noteq> None" "transaction w2 = transaction w" using s2 w1 t by (simp_all add: transaction_def)
      have tr: "tadd (transaction w3) = resolved" "tremove (transaction w3) = tremove (transaction w)"
        using t2 by (simp_all add: w3_def)
      have rem: "removes (wpkgs w3 p) = removes (wpkgs w p)" for p using s2 w1 by (simp add: w3_def)
      have "sync_ready w3"
        using ok assms tr rem tremove_evolves [OF assms ev tr(2)]
        by (intro sync_ready_evolves [OF assms ev]) (auto simp: resolved_ok_def sync_ready_def)
      then show ?thesis using res ev tr ok by (auto simp: sync_step_def resolved_ok_def)
    qed
  qed
qed

section \<open>Facts about settling conflicts\<close>

lemma declares_core: "pkg_core p = pkg_core p' \<Longrightarrow> pkg_core q = pkg_core q' \<Longrightarrow> declares p q = declares p' q'"
  using depcmp_core [of q q'] by (simp add: declares_def pkg_core_eqD [of p p'] pkg_core_eqD [of q q'])

lemma conflict_free_evolves:
  assumes "evolves w w'" "in_use w ps"
  shows "conflict_free (wpkgs w') ps = conflict_free (wpkgs w) ps"
  using declares_core [OF evolves_pkg [OF assms] evolves_pkg [OF assms]] by (simp add: conflict_free_def)

lemma drop_target_spec:
  assumes "sync_ready w" "rsync \<in> set (tadd (transaction w))"
  shows "sync_step w (drop_target rsync w)" "extends w (drop_target rsync w)"
    "set (tadd (transaction (drop_target rsync w))) = set (tadd (transaction w)) - {rsync}"
    "names w (tadd (transaction (drop_target rsync w))) = names w (tadd (transaction w)) - {pname (wpkgs w rsync)}"
    "wpkgs (drop_target rsync w) = wpkgs w"
proof -
  let ?add = "tadd (transaction w)" and ?w = "drop_target rsync w"
  have t: "trans (handle w) \<noteq> None" and dist: "distinct (map (\<lambda>p. pname (wpkgs w p)) ?add)"
    using assms(1) by (simp_all add: sync_ready_def removal_ready_def upgrade_ready_def)
  obtain us x vs where split: "?add = us @ x # vs" "pname (wpkgs w x) = pname (wpkgs w rsync)"
    "alpm_list_remove (alpm_pkg_cmp (wpkgs w)) ?add rsync = (us @ vs, Some x)"
    using remove_cases [of "alpm_pkg_cmp (wpkgs w)" ?add rsync] assms(2) by (auto simp: pkg_cmp_zero)
  have x: "x = rsync" using dist split(1,2) assms(2) by (auto simp: distinct_map inj_on_def)
  have tr: "tadd (transaction ?w) = us @ vs" "tremove (transaction ?w) = tremove (transaction w)" and w: "wpkgs ?w = wpkgs w"
    using t split(3) by (simp_all add: drop_target_def)
  show ext: "extends w ?w" unfolding drop_target_def by (rule extends_upd_trans) simp
  show "wpkgs ?w = wpkgs w" by (rule w)
  show set: "set (tadd (transaction ?w)) = set ?add - {rsync}"
    unfolding tr using dist split(1) x by (auto simp: distinct_map)
  show "names w (tadd (transaction ?w)) = names w ?add - {pname (wpkgs w rsync)}"
    unfolding set using dist assms(2) by (auto simp: distinct_map inj_on_def)
  have "distinct (map (\<lambda>p. pname (wpkgs w p)) (tadd (transaction ?w)))" using dist tr(1) split(1) by auto
  then have "sync_ready ?w"
    using assms(1) set tremove_evolves [OF assms(1) extends_evolves [OF ext] tr(2)] w
    by (intro sync_ready_evolves [OF assms(1) extends_evolves [OF ext]]) (auto simp: candidates_def sync_ready_def)
  then show "sync_step w ?w" using extends_evolves [OF ext] set tr(2) by (auto simp: sync_step_def candidates_def)
qed

lemma sync_step_refl: "sync_ready w \<Longrightarrow> sync_step w w"
  by (simp add: sync_step_def candidates_def)

lemma sync_step_trans:
  assumes "sync_step w w1" "sync_step w1 w2"
  shows "sync_step w w2"
proof -
  have "candidates w1 (tadd (transaction w1)) \<subseteq> candidates w (tadd (transaction w))"
    using assms(1) evolves_handle(2) [of w w1] evolves_cached_pkgs [of w w1] by (auto simp: sync_step_def candidates_def)
  then show ?thesis using assms evolves_trans [of w w1 w2] by (auto simp: sync_step_def)
qed

text \<open>Not both packages of a conflict have their names among these.\<close>

definition apart :: "string set \<Rightarrow> alpm_conflict_t \<Rightarrow> bool" where
  "apart N c \<longleftrightarrow> package1 c = package2 c \<or> \<not> (package1 c \<in> N \<and> package2 c \<in> N)"

lemma apart_mono: "apart N c \<Longrightarrow> M \<subseteq> N \<Longrightarrow> apart M c"
  unfolding apart_def by blast

lemma settle_inner_spec:
  "sync_ready w \<Longrightarrow> settle_inner cs data w = (r, data', w') \<Longrightarrow>
   extends w w' \<and> wpkgs w' = wpkgs w \<and>
   (if r = 0 then sync_step w w' \<and> set (tadd (transaction w')) \<subseteq> set (tadd (transaction w)) \<and>
      (\<forall>c\<in>set cs. apart (names w (tadd (transaction w'))) c)
    else r = -1 \<and> pm_errno (handle w') = ALPM_ERR_CONFLICTING_DEPS \<and> data' \<noteq> [])"
proof (induction cs arbitrary: w)
  case Nil
  then show ?case by (simp add: sync_step_refl)
next
  case (Cons c cs)
  let ?add = "tadd (transaction w)"
  have hash: "\<forall>p\<in>set ?add. hashed (wpkgs w p)" using Cons.prems(1) by (simp add: sync_ready_def upgrade_ready_def)
  have dropped: ?case if rsync: "rsync \<in> set ?add" "pname (wpkgs w rsync) \<in> {package1 c, package2 c}"
    and run: "settle_inner cs data (drop_target rsync w) = (r, data', w')" for rsync
  proof -
    note d = drop_target_spec [OF Cons.prems(1) rsync(1)]
    have ready: "sync_ready (drop_target rsync w)" using d(1) by (simp add: sync_step_def)
    note IH = Cons.IH [OF ready run]
    show ?thesis
    proof (cases "r = 0")
      case True
      then have "set (tadd (transaction w')) \<subseteq> set (tadd (transaction (drop_target rsync w)))" using IH by simp
      then have "names w (tadd (transaction w')) \<subseteq> names w (tadd (transaction (drop_target rsync w)))" by blast
      then have "pname (wpkgs w rsync) \<notin> names w (tadd (transaction w'))" unfolding d(4) by blast
      then have "apart (names w (tadd (transaction w'))) c" using rsync(2) unfolding apart_def by (metis insertE singletonD)
      moreover have "set (tadd (transaction w')) \<subseteq> set ?add" using IH True d(3) by auto
      moreover have "sync_step w w'" "extends w w'" using IH True sync_step_trans [OF d(1)] extends_trans [OF d(2)] by simp_all
      ultimately show ?thesis using IH True d(5) by simp
    next
      case False
      then show ?thesis using IH d extends_trans [OF d(2)] by simp
    qed
  qed
  consider "alpm_pkg_find (wpkgs w) ?add (Some (package1 c)) = None \<or> alpm_pkg_find (wpkgs w) ?add (Some (package2 c)) = None"
    | s1 s2 where "alpm_pkg_find (wpkgs w) ?add (Some (package1 c)) = Some s1" "alpm_pkg_find (wpkgs w) ?add (Some (package2 c)) = Some s2"
    by (metis not_None_eq)
  then show ?case
  proof cases
    case 1
    then have run: "settle_inner cs data w = (r, data', w')" using Cons.prems(2) by (auto simp: Let_def split: option.splits)
    have "apart (names w ?add) c"
      using 1 pkg_find_None [OF hash] by (auto simp: apart_def image_image)
    moreover have "names w (tadd (transaction w')) \<subseteq> names w ?add" if "r = 0"
      using Cons.IH [OF Cons.prems(1) run] that by (intro image_mono) simp
    ultimately have "apart (names w (tadd (transaction w'))) c" if "r = 0" using that by (auto intro: apart_mono)
    then show ?thesis using Cons.IH [OF Cons.prems(1) run] by simp
  next
    case (2 s1 s2)
    have s: "s1 \<in> set ?add" "pname (wpkgs w s1) = package1 c" "s2 \<in> set ?add" "pname (wpkgs w s2) = package2 c"
      using pkg_find_Some [OF 2(1)] pkg_find_Some [OF 2(2)] by simp_all
    let ?A = "alpm_depcmp (wpkgs w s1) (the (alpm_dep_from_string (Some (package2 c))))"
    let ?B = "alpm_depcmp (wpkgs w s2) (the (alpm_dep_from_string (Some (package1 c))))"
    have step: "settle_inner (c # cs) data w =
        (if ?A then settle_inner cs data (drop_target s2 w)
         else if ?B then settle_inner cs data (drop_target s1 w)
         else (-1, alpm_list_add data (Conflicting (alpm_conflict_dup c)), set_errno ALPM_ERR_CONFLICTING_DEPS w))"
      by (simp add: 2 Let_def)
    show ?thesis
    proof (cases "?A \<or> ?B")
      case True
      then have "settle_inner cs data (drop_target s2 w) = (r, data', w') \<or> settle_inner cs data (drop_target s1 w) = (r, data', w')"
        using Cons.prems(2) unfolding step by presburger
      then show ?thesis using dropped [OF s(3)] dropped [OF s(1)] s(2,4) by blast
    next
      case False
      then have "r = -1" "data' = alpm_list_add data (Conflicting (alpm_conflict_dup c))" "w' = set_errno ALPM_ERR_CONFLICTING_DEPS w"
        using Cons.prems(2) unfolding step by simp_all
      then show ?thesis by (simp add: alpm_list_add_def)
    qed
  qed
qed

lemma innerconflicts_pair:
  assumes "\<forall>p\<in>set ps. hashed (wpkgs w p)" "p \<in> set ps" "q \<in> set ps" "declares (wpkgs w p) (wpkgs w q)"
  shows "\<exists>c\<in>set (alpm_innerconflicts (wpkgs w) ps). package1 c = pname (wpkgs w p) \<and> package2 c = pname (wpkgs w q)"
proof -
  have "(pname (wpkgs w p), pname (wpkgs w q)) \<in> conflict_pair ` set (alpm_innerconflicts (wpkgs w) ps)"
    using check_conflict_spec [of ps ps "wpkgs w" "[]" 0] assms by (auto simp: alpm_innerconflicts_def ordered_pair_def)
  then show ?thesis by (auto simp: conflict_pair_def)
qed

lemma sync_inner_free:
  assumes "sync_ready w" "settle_inner (alpm_innerconflicts (wpkgs w) (tadd (transaction w))) data w = (0, data', w')"
  shows "sync_step w w' \<and> conflict_free (wpkgs w') (tadd (transaction w'))"
proof -
  note s = settle_inner_spec [OF assms]
  then have sub: "set (tadd (transaction w')) \<subseteq> set (tadd (transaction w))" and same: "wpkgs w' = wpkgs w" by simp_all
  have hash: "\<forall>p\<in>set (tadd (transaction w)). hashed (wpkgs w p)" using assms(1) by (simp add: sync_ready_def upgrade_ready_def)
  have "\<not> declares (wpkgs w p) (wpkgs w q)" if pq: "p \<in> set (tadd (transaction w'))" "q \<in> set (tadd (transaction w'))" for p q
  proof
    assume d: "declares (wpkgs w p) (wpkgs w q)"
    then obtain c where c: "c \<in> set (alpm_innerconflicts (wpkgs w) (tadd (transaction w)))"
      "package1 c = pname (wpkgs w p)" "package2 c = pname (wpkgs w q)"
      using innerconflicts_pair [OF hash] pq sub by blast
    moreover have "pname (wpkgs w p) \<noteq> pname (wpkgs w q)" using d by (simp add: declares_def)
    moreover have "pname (wpkgs w p) \<in> names w (tadd (transaction w'))" "pname (wpkgs w q) \<in> names w (tadd (transaction w'))"
      using pq by blast+
    moreover have "apart (names w (tadd (transaction w'))) c" using s c(1) by simp
    ultimately show False unfolding apart_def by simp
  qed
  then show ?thesis using s same by (simp add: conflict_free_def)
qed

text \<open>The names of what will be removed: the targets of removal and what the new targets replace.\<close>

definition elected_names :: "alpm_world \<Rightarrow> string set" where
  "elected_names w = removed_names w \<union> names w (all_removes w (tadd (transaction w)))"

lemma all_removes_cached:
  assumes "sync_ready w"
  shows "set (all_removes w (tadd (transaction w))) \<subseteq> set (cached_pkgs w (localdb w))"
  using assms by (auto simp: all_removes_def sync_ready_def candidates_def)

lemma sync_ready_cache:
  assumes "sync_ready w"
  shows "in_use w (cached_pkgs w (localdb w))" "loaded w (localdb w)" "\<forall>p\<in>set (cached_pkgs w (localdb w)). hashed (wpkgs w p)"
  using assms loaded_hashed by (auto simp: sync_ready_def removal_ready_def)

lemma elected_iff:
  assumes "sync_ready w"
  shows "elected w n \<longleftrightarrow> n \<in> elected_names w"
proof -
  have "\<forall>p\<in>set (tremove (transaction w)). hashed (wpkgs w p)" using assms by (simp add: sync_ready_def removal_ready_def)
  from pkg_find_None [OF this] have 1: "alpm_pkg_find (wpkgs w) (tremove (transaction w)) (Some n) \<noteq> None \<longleftrightarrow> n \<in> removed_names w"
    by (simp add: image_image)
  have "alpm_pkg_find (wpkgs w) (removes (wpkgs w s)) (Some n) \<noteq> None \<longleftrightarrow> n \<in> names w (removes (wpkgs w s))"
    if "s \<in> set (tadd (transaction w))" for s
  proof -
    have "s \<in> candidates w (tadd (transaction w))" using that by (simp add: candidates_def)
    then have "\<forall>p\<in>set (removes (wpkgs w s)). hashed (wpkgs w p)" using sync_ready_cache(3) [OF assms] assms by (auto simp: sync_ready_def)
    from pkg_find_None [OF this] show ?thesis by (simp add: image_image)
  qed
  then show ?thesis unfolding elected_def elected_names_def all_removes_def 1 by auto
qed

lemma settle_outer_spec:
  "sync_ready w \<Longrightarrow> settle_outer qs cs data w = (r, data', w') \<Longrightarrow>
   \<forall>c\<in>set cs. package1 c \<in> names w (tadd (transaction w)) \<and> package2 c \<in> names w (cached_pkgs w (localdb w)) \<Longrightarrow>
   evolves w w' \<and> elected_names w \<subseteq> elected_names w' \<and> tadd (transaction w') = tadd (transaction w) \<and>
   (if r = 0 then sync_step w w' \<and> (\<forall>c\<in>set cs. package2 c \<in> elected_names w')
    else r = -1 \<and> pm_errno (handle w') = ALPM_ERR_CONFLICTING_DEPS \<and> data' \<noteq> [])"
proof (induction cs arbitrary: w)
  case Nil
  then show ?case by (simp add: sync_step_refl)
next
  case (Cons c cs)
  let ?add = "tadd (transaction w)" and ?cache = "cached_pkgs w (localdb w)"
  show ?case
  proof (cases "elected w (package2 c)")
    case True
    then have run: "settle_outer qs cs data w = (r, data', w')" using Cons.prems(2) by simp
    have "package2 c \<in> elected_names w" using True elected_iff [OF Cons.prems(1)] by simp
    then show ?thesis using Cons.IH [OF Cons.prems(1) run] Cons.prems(3) by auto
  next
    case False
    show ?thesis
    proof (cases "q_conflict_pkg qs c")
      case no: False
      then have "r = -1" "data' = alpm_list_add data (Conflicting (alpm_conflict_dup c))" "w' = set_errno ALPM_ERR_CONFLICTING_DEPS w"
        using Cons.prems(2) False by simp_all
      moreover have "elected_names (set_errno e w) = elected_names w" for e by (simp add: elected_names_def all_removes_def)
      ultimately show ?thesis by (simp add: alpm_list_add_def extends_evolves)
    next
      case True
      have hash: "\<forall>p\<in>set ?add. hashed (wpkgs w p)" using Cons.prems(1) by (simp add: sync_ready_def upgrade_ready_def)
      obtain s where s: "alpm_pkg_find (wpkgs w) ?add (Some (package1 c)) = Some s" "s \<in> set ?add"
        using Cons.prems(3) pkg_find_None [OF hash, of "package1 c"] pkg_find_Some
        by (cases "alpm_pkg_find (wpkgs w) ?add (Some (package1 c))") (force simp: image_image)+
      note load = sync_ready_cache(2) [OF Cons.prems(1)]
      obtain l where l: "cached_pkg w (localdb w) (package2 c) = Some l" "l \<in> set ?cache" "pname (wpkgs w l) = package2 c"
        using Cons.prems(3) cached_pkg_Some [OF load] by force
      define w1 where "w1 = upd_pkg s (\<lambda>p. p\<lparr>removes := alpm_list_add (removes p) l\<rparr>) w"
      have run: "settle_outer qs cs data w1 = (r, data', w')" using Cons.prems(2) False True s l by (simp add: w1_def)
      have ev: "evolves w w1" by (simp add: w1_def evolves_upd_pkg)
      have tr: "transaction w1 = transaction w" "cached_pkgs w1 db = cached_pkgs w db" "handle w1 = handle w" for db
        by (simp_all add: w1_def)
      have rem: "removes (wpkgs w1 p) = (if p = s then removes (wpkgs w p) @ [l] else removes (wpkgs w p))" for p
        by (simp add: w1_def alpm_list_add_def)
      have "set (removes (wpkgs w1 p)) \<subseteq> set ?cache" if "p \<in> candidates w ?add" for p
        using that Cons.prems(1) l(2) by (auto simp: rem sync_ready_def)
      then have ready: "sync_ready w1"
        using Cons.prems(1) tr tremove_evolves [OF Cons.prems(1) ev]
        by (intro sync_ready_evolves [OF Cons.prems(1) ev]) (auto simp: candidates_def sync_ready_def upgrade_ready_def)
      have step: "sync_step w w1" using ev ready tr by (auto simp: sync_step_def candidates_def)
      have "pname (wpkgs w1 p) = pname (wpkgs w p)" for p by (simp add: w1_def)
      then have names: "names w1 ps = names w ps" for ps by simp
      have sub: "set (all_removes w ?add) \<subseteq> set (all_removes w1 ?add)" by (auto simp: all_removes_def rem)
      have el: "elected_names w \<subseteq> elected_names w1" unfolding elected_names_def tr(1) names using sub by blast
      have "l \<in> set (all_removes w1 ?add)" using s(2) by (auto simp: all_removes_def rem)
      then have mem: "package2 c \<in> elected_names w1" unfolding elected_names_def tr(1) names using l(3) by (metis UnI2 image_eqI)
      have "\<forall>c\<in>set cs. package1 c \<in> names w1 (tadd (transaction w1)) \<and> package2 c \<in> names w1 (cached_pkgs w1 (localdb w1))"
        unfolding names tr using Cons.prems(3) by simp
      note IH = Cons.IH [OF ready run this]
      then show ?thesis
        using evolves_trans [OF ev] sync_step_trans [OF step] el mem tr(1) by auto
    qed
  qed
qed

lemma sync_outer_free:
  assumes "sync_ready w" "settle_outer qs (alpm_outerconflicts w (localdb w) (tadd (transaction w))) data w = (0, data', w')"
    and "conflict_free (wpkgs w) (tadd (transaction w))" "conflict_free (wpkgs w) (cached_pkgs w (localdb w))"
  shows "sync_step w w' \<and> tadd (transaction w') = tadd (transaction w) \<and>
    (\<forall>p\<in>set (tadd (transaction w)). \<forall>q\<in>set (cached_pkgs w (localdb w)).
       pname (wpkgs w q) \<notin> names w (tadd (transaction w)) \<longrightarrow>
       declares (wpkgs w p) (wpkgs w q) \<or> declares (wpkgs w q) (wpkgs w p) \<longrightarrow>
       pname (wpkgs w q) \<in> elected_names w')"
proof -
  let ?add = "tadd (transaction w)"
  obtain d where d: "localdb w = Some d" using assms(1) by (auto simp: sync_ready_def removal_ready_def)
  have load: "loaded w (Some d)" and hash: "\<forall>p\<in>set ?add. hashed (wpkgs w p)"
    using assms(1) d by (auto simp: sync_ready_def removal_ready_def upgrade_ready_def)
  let ?cs = "alpm_outerconflicts w (Some d) ?add"
  have pairs: "conflict_pair ` set ?cs = {(pname (wpkgs w p), pname (wpkgs w q)) |p q. p \<in> set ?add \<and>
      q \<in> set (cached_pkgs w (Some d)) \<and> pname (wpkgs w q) \<notin> names w ?add \<and>
      (declares (wpkgs w p) (wpkgs w q) \<or> declares (wpkgs w q) (wpkgs w p))}"
    using outerconflicts_pairs [OF load hash refl] by (simp add: image_image conj_assoc)
  have "package1 c \<in> names w ?add \<and> package2 c \<in> names w (cached_pkgs w (localdb w))" if "c \<in> set ?cs" for c
  proof -
    have "(package1 c, package2 c) \<in> conflict_pair ` set ?cs" using that by (force simp: conflict_pair_def)
    then show ?thesis unfolding pairs d by auto
  qed
  then have dom: "\<forall>c\<in>set ?cs. package1 c \<in> names w ?add \<and> package2 c \<in> names w (cached_pkgs w (localdb w))" by blast
  note s = settle_outer_spec [OF assms(1) assms(2) [unfolded d] dom]
  have "pname (wpkgs w q) \<in> elected_names w'"
    if "p \<in> set ?add" "q \<in> set (cached_pkgs w (localdb w))" "pname (wpkgs w q) \<notin> names w ?add"
      "declares (wpkgs w p) (wpkgs w q) \<or> declares (wpkgs w q) (wpkgs w p)" for p q
  proof -
    have "(pname (wpkgs w p), pname (wpkgs w q)) \<in> conflict_pair ` set ?cs" unfolding pairs using that d by auto
    then obtain c where "c \<in> set ?cs" "package2 c = pname (wpkgs w q)" by (auto simp: conflict_pair_def)
    then show ?thesis using s by auto
  qed
  then show ?thesis using s by simp
qed

section \<open>Facts about the list of removals and the last steps\<close>

lemma dup_pkg_handle: "dup_pkg force_load w p = (r, q, w') \<Longrightarrow> handle w' = handle w"
  by (auto simp: dup_pkg_def alloc_pkg_def split_beta)

lemma dup_pkg_extends: "dup_pkg force_load w p = (r, q, w') \<Longrightarrow> extends w w'"
  by (auto simp: dup_pkg_def alloc_pkg_def extends_def same_frame_def split_beta)

lemma add_removals_spec:
  "removal_ready w \<Longrightarrow> set rs \<subseteq> set (cached_pkgs w (localdb w)) \<Longrightarrow>
   \<exists>w'. add_removals force_load rs w = (0, w') \<and> extends w w' \<and> removal_ready w' \<and>
     removed_names w' = removed_names w \<union> names w rs \<and> tadd (transaction w') = tadd (transaction w)"
proof (induction rs arbitrary: w)
  case (Cons p rs)
  let ?rem = "tremove (transaction w)"
  have hash: "\<forall>p\<in>set ?rem. hashed (wpkgs w p)" and t: "trans (handle w) \<noteq> None"
    and use: "in_use w (cached_pkgs w (localdb w))" using Cons.prems(1) by (simp_all add: removal_ready_def)
  have p: "p \<in> set (cached_pkgs w (localdb w))" using Cons.prems(2) by simp
  show ?case
  proof (cases "alpm_pkg_find (wpkgs w) ?rem (Some (pname (wpkgs w p)))")
    case (Some q)
    then have "pname (wpkgs w p) \<in> removed_names w" using pkg_find_None [OF hash, of "pname (wpkgs w p)"] by (auto simp: image_image)
    then show ?thesis using Cons.IH [OF Cons.prems(1)] Cons.prems(2) Some by auto
  next
    case None
    obtain r copy w1 where dup: "dup_pkg force_load w p = (r, copy, w1)" by (metis prod_cases3)
    define w2 where "w2 = upd_trans (\<lambda>t. t\<lparr>tremove := alpm_list_add (tremove t) copy\<rparr>) w1"
    note one = pull_one [OF Cons.prems(1) p dup w2_def]
    then have ext: "extends w w2" by blast
    have h1: "trans (handle w1) \<noteq> None" "transaction w1 = transaction w"
      using dup_pkg_handle [OF dup] t by (simp_all add: transaction_def)
    have add: "tadd (transaction w2) = tadd (transaction w)" using h1 by (simp add: w2_def)
    have "in_use w rs" using use Cons.prems(2) by (auto simp: in_use_def)
    then have names: "names w2 rs = names w rs" by (rule extends_names [OF ext])
    have sub: "set rs \<subseteq> set (cached_pkgs w2 (localdb w2))"
      using Cons.prems(2) extends_cached_pkgs [OF ext] extends_handle(1) [OF ext] by simp
    have ready: "removal_ready w2" using one by blast
    obtain w' where w': "add_removals force_load rs w2 = (0, w')" "extends w2 w'" "removal_ready w'"
      "removed_names w' = removed_names w2 \<union> names w2 rs" "tadd (transaction w') = tadd (transaction w2)"
      using Cons.IH [OF ready sub] by blast
    have "add_removals force_load (p # rs) w = add_removals force_load rs w2"
      using None dup one by (simp add: w2_def)
    moreover have "removed_names w' = removed_names w \<union> names w (p # rs)" using w'(4) one names by simp
    ultimately show ?thesis using w' extends_trans [OF ext w'(2)] add by auto
  qed
qed simp

lemma build_removals_spec:
  "removal_ready w \<Longrightarrow> in_use w l \<Longrightarrow> \<forall>s\<in>set l. set (removes (wpkgs w s)) \<subseteq> set (cached_pkgs w (localdb w)) \<Longrightarrow>
   \<exists>w'. build_removals force_load l w = (0, w') \<and> extends w w' \<and> removal_ready w' \<and>
     removed_names w' = removed_names w \<union> names w (all_removes w l) \<and> tadd (transaction w') = tadd (transaction w)"
proof (induction l arbitrary: w)
  case (Cons s l)
  obtain w1 where w1: "add_removals force_load (removes (wpkgs w s)) w = (0, w1)" "extends w w1" "removal_ready w1"
    "removed_names w1 = removed_names w \<union> names w (removes (wpkgs w s))" "tadd (transaction w1) = tadd (transaction w)"
    using add_removals_spec [OF Cons.prems(1)] Cons.prems(3) by (metis list.set_intros(1))
  have cache: "cached_pkgs w1 (localdb w1) = cached_pkgs w (localdb w)"
    using extends_cached_pkgs [OF w1(2)] extends_handle(1) [OF w1(2)] by simp
  have use: "in_use w l" "in_use w (cached_pkgs w (localdb w))" using Cons.prems(1,2) by (auto simp: in_use_def removal_ready_def)
  have old: "wpkgs w1 t = wpkgs w t" if "t \<in> set l" for t using that by (rule extends_pkg [OF w1(2) use(1)])
  have "\<forall>t\<in>set l. set (removes (wpkgs w1 t)) \<subseteq> set (cached_pkgs w1 (localdb w1))"
    unfolding cache using Cons.prems(3) old by simp
  then obtain w' where w': "build_removals force_load l w1 = (0, w')" "extends w1 w'" "removal_ready w'"
    "removed_names w' = removed_names w1 \<union> names w1 (all_removes w1 l)" "tadd (transaction w') = tadd (transaction w1)"
    using Cons.IH [OF w1(3) in_use_extends [OF use(1) w1(2)]] by blast
  have same: "all_removes w1 l = all_removes w l" unfolding all_removes_def using old by (simp cong: map_cong)
  have "in_use w (all_removes w l)" using Cons.prems(3) use(2) by (auto simp: all_removes_def in_use_def)
  then have "names w1 (all_removes w1 l) = names w (all_removes w l)" unfolding same by (rule extends_names [OF w1(2)])
  then show ?case using w1 w' extends_trans [OF w1(2) w'(2)] by (auto simp: all_removes_def)
qed (simp add: all_removes_def)

lemma compute_download_size_evolves:
  "compute_download_size env w p = (r, w') \<Longrightarrow> evolves w w' \<and> transaction w' = transaction w \<and> r \<in> {-1, 0, 1}"
  unfolding compute_download_size_def Let_def
  by (auto simp: extends_evolves intro!: evolves_upd_pkg split: if_splits option.splits)

lemma db_get_pkg_extends: "alpm_db_get_pkg w db n = (l, w') \<Longrightarrow> extends w w' \<and> transaction w' = transaction w"
  unfolding alpm_db_get_pkg_def Let_def by (auto split: if_splits option.splits)

lemma finish_targets_evolves:
  "finish_targets env l w = (r, w') \<Longrightarrow> evolves w w' \<and> transaction w' = transaction w \<and> r \<in> {-1, 0}"
proof (induction l arbitrary: w)
  case (Cons s l)
  obtain lpkg w1 where 1: "alpm_db_get_pkg w (localdb w) (Some (pname (wpkgs w s))) = (lpkg, w1)" by fastforce
  obtain r2 w2 where 2: "compute_download_size env w1 s = (r2, w2)" by fastforce
  have ev: "evolves w w2" "transaction w2 = transaction w"
    using db_get_pkg_extends [OF 1] compute_download_size_evolves [OF 2] extends_evolves [of w w1] evolves_trans [of w w1 w2] by auto
  show ?case
  proof (cases "r2 < 0")
    case True
    then show ?thesis using Cons.prems 1 2 ev by simp
  next
    case False
    show ?thesis
    proof (cases lpkg)
      case None
      then have "finish_targets env l w2 = (r, w')" using Cons.prems 1 2 False by simp
      then show ?thesis using Cons.IH evolves_trans [OF ev(1)] ev(2) by fastforce
    next
      case (Some q)
      obtain r3 copy w3 where 3: "dup_pkg (env_force_load env) w2 q = (r3, copy, w3)" by (metis prod_cases3)
      define w4 where "w4 = upd_pkg s (\<lambda>p. p\<lparr>oldpkg := Some copy\<rparr>) w3"
      have "extends w2 w3" using 3 by (rule dup_pkg_extends)
      moreover have "evolves w3 w4" by (simp add: w4_def evolves_upd_pkg)
      ultimately have ev4: "evolves w w4" using ev(1) extends_evolves [of w2 w3] evolves_trans [of w w2 w3] evolves_trans [of w w3 w4] by simp
      have tr: "transaction w4 = transaction w" using dup_pkg_handle [OF 3] ev(2) by (simp add: w4_def transaction_def)
      have "finish_targets env (s # l) w = (if r3 \<noteq> 0 then (-1, w4) else finish_targets env l w4)"
        using 1 2 3 False Some by (simp add: w4_def)
      then show ?thesis using Cons.prems Cons.IH [of w4] ev4 tr evolves_trans [OF ev4] by (auto split: if_splits)
    qed
  qed
qed simp

section \<open>Properties of preparing an installation\<close>

lemma after_change_cong:
  "\<forall>p\<in>set pl \<union> set rem \<union> set up. pname (ps' p) = pname (ps p) \<Longrightarrow> after_change ps' pl rem up = after_change ps pl rem up"
  by (auto simp: after_change_def untouched_def image_image intro!: filter_cong)

lemma installed_after_in_use:
  assumes "in_use w (cached_pkgs w (localdb w))" "in_use w (tadd (transaction w))"
  shows "in_use w (installed_after w)"
  using assms by (auto simp: installed_after_def after_change_def in_use_def)

lemma installed_after_evolves:
  assumes "evolves w w'" "transaction w' = transaction w"
    and "in_use w (cached_pkgs w (localdb w))" "in_use w (tadd (transaction w))" "in_use w (tremove (transaction w))"
  shows "installed_after w' = installed_after w"
proof -
  have "pname (wpkgs w' p) = pname (wpkgs w p)"
    if "p \<in> set (cached_pkgs w (localdb w)) \<union> set (tremove (transaction w)) \<union> set (tadd (transaction w))" for p
    using that assms pkg_core_eqD(1) evolves_pkg [OF assms(1)] by blast
  then show ?thesis
    unfolding installed_after_def assms(2) evolves_cached_pkgs [OF assms(1)] evolves_handle(1) [OF assms(1)]
    by (intro after_change_cong) blast
qed

lemma check_sync_dbs_errors: "check_sync_dbs w from_sync ds \<in> {ALPM_ERR_OK, ALPM_ERR_DB_INVALID, ALPM_ERR_DB_NOT_FOUND}"
  by (induction ds) auto

text \<open>The last part: what the check finds closed stays closed, and what is elected is gone.\<close>

lemma sync_finish_spec:
  assumes "sync_ready w" "closed (handle w) (wpkgs w) (cached_pkgs w (localdb w))"
    and "sync_finish env data w = (r, data', w')"
  shows "evolves w w' \<and> tadd (transaction w') = tadd (transaction w) \<and>
    removed_names w' = elected_names w \<and>
    (if r = 0 then has_flag (transaction w) ALPM_TRANS_FLAG_NODEPS \<or> closed (handle w') (wpkgs w') (installed_after w')
     else r = -1)"
proof -
  let ?add = "tadd (transaction w)"
  have ready: "removal_ready w" and use: "in_use w ?add" and t: "trans (handle w) \<noteq> None"
    using assms(1) by (simp_all add: sync_ready_def upgrade_ready_def removal_ready_def)
  have rem: "\<forall>s\<in>set ?add. set (removes (wpkgs w s)) \<subseteq> set (cached_pkgs w (localdb w))"
    using assms(1) by (simp add: sync_ready_def candidates_def)
  obtain w1 where w1: "build_removals (env_force_load env) ?add w = (0, w1)" "extends w w1" "removal_ready w1"
    "removed_names w1 = removed_names w \<union> names w (all_removes w ?add)" "tadd (transaction w1) = ?add"
    using build_removals_spec [OF ready use rem] by blast
  note ev1 = extends_evolves [OF w1(2)]
  let ?deps = "if has_flag (transaction w1) ALPM_TRANS_FLAG_NODEPS then []
    else alpm_checkdeps (handle w1) (wpkgs w1) (cached_pkgs w1 (localdb w1)) (tremove (transaction w1)) ?add True"
  have use1: "in_use w1 (cached_pkgs w1 (localdb w1))" "in_use w1 ?add" "in_use w1 (tremove (transaction w1))"
    using w1(3) in_use_extends [OF use w1(2)] by (simp_all add: removal_ready_def)
  have trem: "removed_names w2 = removed_names w1" if "evolves w1 w2" "transaction w2 = transaction w1" for w2
    using evolves_names [OF that(1) use1(3)] that(2) by simp
  have run: "sync_finish env data w = (if ?deps \<noteq> [] then (-1, map Missing ?deps, set_errno ALPM_ERR_UNSATISFIED_DEPS w1)
      else (let (r, w) = finish_targets env ?add w1 in (r, data, w)))"
    using w1(1,5) by (simp add: sync_finish_def Let_def)
  show ?thesis
  proof (cases "?deps = []")
    case False
    then have r: "r = -1" "w' = set_errno ALPM_ERR_UNSATISFIED_DEPS w1" using assms(3) run by simp_all
    then show ?thesis using ev1 w1(4,5) by (simp add: elected_names_def)
  next
    case True
    obtain r2 w2 where fin: "finish_targets env ?add w1 = (r2, w2)" by fastforce
    note f = finish_targets_evolves [OF fin]
    have r: "r = r2" "w' = w2" using assms(3) run True fin by simp_all
    have hash: "\<forall>p\<in>set (tremove (transaction w1)) \<union> set ?add. hashed (wpkgs w1 p)"
    proof -
      have "hashed (wpkgs w1 p)" if "p \<in> set ?add" for p
        using that assms(1) hashed_core [OF evolves_pkg [OF ev1 use that]] by (simp add: sync_ready_def upgrade_ready_def)
      then show ?thesis using w1(3) by (auto simp: removal_ready_def)
    qed
    have "closed (handle w1) (wpkgs w1) (installed_after w1)" if "\<not> has_flag (transaction w) ALPM_TRANS_FLAG_NODEPS"
      using that True checkdeps_closed_iff [OF hash cache_closed_extends [OF ready w1(2) assms(2)]]
        extends_flag [OF w1(2) t, of ALPM_TRANS_FLAG_NODEPS] w1(5) by (simp add: installed_after_def)
    moreover have "installed_after w2 = installed_after w1"
      using f use1 w1(5) by (intro installed_after_evolves) simp_all
    moreover have "in_use w1 (installed_after w1)" using use1 w1(5) by (intro installed_after_in_use) simp_all
    ultimately have "has_flag (transaction w) ALPM_TRANS_FLAG_NODEPS \<or> closed (handle w2) (wpkgs w2) (installed_after w2)"
      using closed_evolves [of w1 w2] f by auto
    moreover have "evolves w w2" using f evolves_trans [OF ev1] by blast
    moreover have "tadd (transaction w2) = ?add" using f w1(5) by simp
    moreover have "removed_names w2 = elected_names w" using f trem w1(4) by (simp add: elected_names_def)
    ultimately show ?thesis using r f by (cases "r2 = 0") auto
  qed
qed

text \<open>What is checked of the targets against each other and the installed packages.\<close>

lemma sync_conflicts_spec:
  assumes "sync_ready w" "conflict_free (wpkgs w) (cached_pkgs w (localdb w))" "sync_conflicts env data w = (r, data', w')"
  shows "evolves w w' \<and>
    (if r = 0 then sync_step w w' \<and> conflict_free (wpkgs w') (tadd (transaction w')) \<and>
       (\<forall>p\<in>set (tadd (transaction w')). \<forall>q\<in>set (cached_pkgs w' (localdb w')).
          pname (wpkgs w' q) \<notin> names w' (tadd (transaction w')) \<longrightarrow>
          declares (wpkgs w' p) (wpkgs w' q) \<or> declares (wpkgs w' q) (wpkgs w' p) \<longrightarrow> pname (wpkgs w' q) \<in> elected_names w')
     else r = -1 \<and> pm_errno (handle w') = ALPM_ERR_CONFLICTING_DEPS \<and> data' \<noteq> [])"
proof -
  obtain r1 data1 w1 where 1: "settle_inner (alpm_innerconflicts (wpkgs w) (tadd (transaction w))) data w = (r1, data1, w1)"
    by (metis prod_cases3)
  note s1 = settle_inner_spec [OF assms(1) 1]
  show ?thesis
  proof (cases "r1 = 0")
    case False
    then show ?thesis using assms(3) 1 s1 extends_evolves by (auto simp: sync_conflicts_def)
  next
    case True
    have inner: "sync_step w w1" "conflict_free (wpkgs w1) (tadd (transaction w1))"
      using sync_inner_free [OF assms(1)] 1 True by auto
    then have ready: "sync_ready w1" and ev: "evolves w w1" by (simp_all add: sync_step_def)
    have cache: "cached_pkgs w1 (localdb w1) = cached_pkgs w (localdb w)"
      using evolves_cached_pkgs [OF ev] evolves_handle(1) [OF ev] by simp
    have free: "conflict_free (wpkgs w1) (cached_pkgs w1 (localdb w1))"
      unfolding cache conflict_free_evolves [OF ev sync_ready_cache(1) [OF assms(1)]] by (rule assms(2))
    have run: "settle_outer (env_questions env) (alpm_outerconflicts w1 (localdb w1) (tadd (transaction w1))) data1 w1 = (r, data', w')"
      using assms(3) 1 True by (simp add: sync_conflicts_def)
    obtain d where d: "localdb w1 = Some d" using ready by (auto simp: sync_ready_def removal_ready_def)
    have load: "loaded w1 (Some d)" and hash: "\<forall>p\<in>set (tadd (transaction w1)). hashed (wpkgs w1 p)"
      using ready d by (auto simp: sync_ready_def removal_ready_def upgrade_ready_def)
    have dom: "package1 c \<in> names w1 (tadd (transaction w1)) \<and> package2 c \<in> names w1 (cached_pkgs w1 (localdb w1))"
      if "c \<in> set (alpm_outerconflicts w1 (localdb w1) (tadd (transaction w1)))" for c
    proof -
      have "(package1 c, package2 c) \<in> conflict_pair ` set (alpm_outerconflicts w1 (Some d) (tadd (transaction w1)))"
        using that d by (force simp: conflict_pair_def)
      then show ?thesis unfolding outerconflicts_pairs [OF load hash refl] d by auto
    qed
    note s2 = settle_outer_spec [OF ready run] 
    show ?thesis
    proof (cases "r = 0")
      case False
      then show ?thesis using s2 dom evolves_trans [OF ev] by auto
    next
      case ok: True
      note o = sync_outer_free [OF ready run [unfolded ok] inner(2) free]
      then have step: "sync_step w1 w'" and tadd: "tadd (transaction w') = tadd (transaction w1)" by simp_all
      then have ev2: "evolves w1 w'" by (simp add: sync_step_def)
      have use: "in_use w1 (tadd (transaction w1))" "in_use w1 (cached_pkgs w1 (localdb w1))"
        using ready sync_ready_cache(1) [OF ready] by (simp_all add: sync_ready_def upgrade_ready_def)
      have cache2: "cached_pkgs w' (localdb w') = cached_pkgs w1 (localdb w1)"
        using evolves_cached_pkgs [OF ev2] evolves_handle(1) [OF ev2] by simp
      have core: "pkg_core (wpkgs w' p) = pkg_core (wpkgs w1 p)"
        if "p \<in> set (tadd (transaction w1)) \<or> p \<in> set (cached_pkgs w1 (localdb w1))" for p
        using that evolves_pkg [OF ev2] use by blast
      have "conflict_free (wpkgs w') (tadd (transaction w'))"
        unfolding tadd conflict_free_evolves [OF ev2 use(1)] by (rule inner(2))
      moreover have "pname (wpkgs w' q) \<in> elected_names w'"
        if pq: "p \<in> set (tadd (transaction w'))" "q \<in> set (cached_pkgs w' (localdb w'))"
          "pname (wpkgs w' q) \<notin> names w' (tadd (transaction w'))"
          "declares (wpkgs w' p) (wpkgs w' q) \<or> declares (wpkgs w' q) (wpkgs w' p)" for p q
      proof -
        have c: "pkg_core (wpkgs w' p) = pkg_core (wpkgs w1 p)" "pkg_core (wpkgs w' q) = pkg_core (wpkgs w1 q)"
          using core pq(1,2) unfolding tadd cache2 by blast+
        have "pname (wpkgs w1 q) \<notin> names w1 (tadd (transaction w1))"
          using pq(3) evolves_names [OF ev2 use(1)] pkg_core_eqD(1) [OF c(2)] tadd by simp
        then show ?thesis
          using o pq(1,2,4) unfolding tadd cache2 declares_core [OF c] declares_core [OF c(2) c(1)] pkg_core_eqD(1) [OF c(2)] by blast
      qed
      ultimately show ?thesis using ok sync_step_trans [OF inner(1) step] evolves_trans [OF ev ev2] by simp
    qed
  qed
qed

text \<open>A check of conflicts on a set of packages split in two.\<close>

lemma installed_after_conflict_free:
  assumes "conflict_free (wpkgs w) (tadd (transaction w))" "conflict_free (wpkgs w) (cached_pkgs w (localdb w))"
    and "\<forall>p\<in>set (tadd (transaction w)). \<forall>q\<in>set (cached_pkgs w (localdb w)).
      pname (wpkgs w q) \<notin> names w (tadd (transaction w)) \<longrightarrow>
      declares (wpkgs w p) (wpkgs w q) \<or> declares (wpkgs w q) (wpkgs w p) \<longrightarrow> pname (wpkgs w q) \<in> N"
    and "removed_names w = N"
  shows "conflict_free (wpkgs w) (installed_after w)"
proof -
  have "set (installed_after w) = set (tadd (transaction w)) \<union> {q \<in> set (cached_pkgs w (localdb w)).
      pname (wpkgs w q) \<notin> N \<and> pname (wpkgs w q) \<notin> names w (tadd (transaction w))}"
    unfolding assms(4) [symmetric] by (auto simp: installed_after_def after_change_def untouched_def image_image)
  then show ?thesis using assms(1-3) unfolding conflict_free_def by blast
qed

lemma conflicts_or_not:
  assumes "sync_ready w" "conflict_free (wpkgs w) (cached_pkgs w (localdb w))"
    and "(if noconf then (0, data, w) else sync_conflicts env data w) = (r, data', w')"
  shows "evolves w w'" "r \<noteq> 0 \<longrightarrow> r = -1" "r = 0 \<longrightarrow> sync_ready w'"
    "r = 0 \<and> \<not> noconf \<longrightarrow> conflict_free (wpkgs w') (tadd (transaction w')) \<and>
      (\<forall>p\<in>set (tadd (transaction w')). \<forall>q\<in>set (cached_pkgs w' (localdb w')).
         pname (wpkgs w' q) \<notin> names w' (tadd (transaction w')) \<longrightarrow>
         declares (wpkgs w' p) (wpkgs w' q) \<or> declares (wpkgs w' q) (wpkgs w' p) \<longrightarrow> pname (wpkgs w' q) \<in> elected_names w')"
proof -
  have spec: "evolves w w' \<and> (r \<noteq> 0 \<longrightarrow> r = -1) \<and> (r = 0 \<longrightarrow> sync_step w w' \<and> conflict_free (wpkgs w') (tadd (transaction w')) \<and>
      (\<forall>p\<in>set (tadd (transaction w')). \<forall>q\<in>set (cached_pkgs w' (localdb w')).
         pname (wpkgs w' q) \<notin> names w' (tadd (transaction w')) \<longrightarrow>
         declares (wpkgs w' p) (wpkgs w' q) \<or> declares (wpkgs w' q) (wpkgs w' p) \<longrightarrow> pname (wpkgs w' q) \<in> elected_names w'))"
    if "\<not> noconf"
    using sync_conflicts_spec [OF assms(1,2), of env data r data' w'] assms(3) that by (cases "r = 0") simp_all
  have skip: "r = 0" "w' = w" if noconf using that assms(3) by simp_all
  show "evolves w w'" "r \<noteq> 0 \<longrightarrow> r = -1" using spec skip by (cases noconf; blast)+
  show "r = 0 \<longrightarrow> sync_ready w'" using spec skip assms(1) unfolding sync_step_def by blast
  show "r = 0 \<and> \<not> noconf \<longrightarrow> conflict_free (wpkgs w') (tadd (transaction w')) \<and>
      (\<forall>p\<in>set (tadd (transaction w')). \<forall>q\<in>set (cached_pkgs w' (localdb w')).
         pname (wpkgs w' q) \<notin> names w' (tadd (transaction w')) \<longrightarrow>
         declares (wpkgs w' p) (wpkgs w' q) \<or> declares (wpkgs w' q) (wpkgs w' p) \<longrightarrow> pname (wpkgs w' q) \<in> elected_names w')"
    using spec by blast
qed

lemma sync_finish_conflict_free:
  assumes "sync_ready w" "evolves w w'" "tadd (transaction w') = tadd (transaction w)"
    and "conflict_free (wpkgs w) (tadd (transaction w))" "conflict_free (wpkgs w) (cached_pkgs w (localdb w))"
    and "\<forall>p\<in>set (tadd (transaction w)). \<forall>q\<in>set (cached_pkgs w (localdb w)).
      pname (wpkgs w q) \<notin> names w (tadd (transaction w)) \<longrightarrow>
      declares (wpkgs w p) (wpkgs w q) \<or> declares (wpkgs w q) (wpkgs w p) \<longrightarrow> pname (wpkgs w q) \<in> N"
    and "removed_names w' = N"
  shows "conflict_free (wpkgs w') (installed_after w')"
proof (rule installed_after_conflict_free [OF _ _ _ assms(7)])
  have use: "in_use w (tadd (transaction w))" "in_use w (cached_pkgs w (localdb w))"
    using assms(1) by (simp_all add: sync_ready_def upgrade_ready_def)
  have cache: "cached_pkgs w' (localdb w') = cached_pkgs w (localdb w)"
    using evolves_cached_pkgs [OF assms(2)] evolves_handle(1) [OF assms(2)] by simp
  show "conflict_free (wpkgs w') (tadd (transaction w'))"
    unfolding assms(3) conflict_free_evolves [OF assms(2) use(1)] by (rule assms(4))
  show "conflict_free (wpkgs w') (cached_pkgs w' (localdb w'))"
    unfolding cache conflict_free_evolves [OF assms(2) use(2)] by (rule assms(5))
  have names: "names w' (tadd (transaction w)) = names w (tadd (transaction w))"
    by (rule evolves_names [OF assms(2) use(1)])
  show "\<forall>p\<in>set (tadd (transaction w')). \<forall>q\<in>set (cached_pkgs w' (localdb w')).
      pname (wpkgs w' q) \<notin> names w' (tadd (transaction w')) \<longrightarrow>
      declares (wpkgs w' p) (wpkgs w' q) \<or> declares (wpkgs w' q) (wpkgs w' p) \<longrightarrow> pname (wpkgs w' q) \<in> N"
    unfolding assms(3) names cache
  proof (intro ballI impI)
    fix p q
    assume pq: "p \<in> set (tadd (transaction w))" "q \<in> set (cached_pkgs w (localdb w))"
      "pname (wpkgs w' q) \<notin> names w (tadd (transaction w))"
      "declares (wpkgs w' p) (wpkgs w' q) \<or> declares (wpkgs w' q) (wpkgs w' p)"
    note c = evolves_pkg [OF assms(2) use(1) pq(1)] evolves_pkg [OF assms(2) use(2) pq(2)]
    show "pname (wpkgs w' q) \<in> N"
      using pq assms(6) unfolding declares_core [OF c] declares_core [OF c(2,1)] pkg_core_eqD(1) [OF c(2)] by blast
  qed
qed

lemma sync_prepare_result:
  assumes "sync_ready w" "closed (handle w) (wpkgs w) (cached_pkgs w (localdb w))"
    and "conflict_free (wpkgs w) (cached_pkgs w (localdb w))"
  shows "\<exists>r data w'. alpm_sync_prepare env w = Some (r, data, w') \<and> evolves w w' \<and>
    (r = 0 \<longrightarrow>
       (has_flag (transaction w) ALPM_TRANS_FLAG_NODEPS \<or> closed (handle w') (wpkgs w') (installed_after w')) \<and>
       (has_flag (transaction w) ALPM_TRANS_FLAG_NOCONFLICTS \<or> conflict_free (wpkgs w') (installed_after w'))) \<and>
    (r \<noteq> 0 \<longrightarrow> r = -1)"
proof -
  have t: "trans (handle w) \<noteq> None" using assms(1) by (simp add: sync_ready_def removal_ready_def)
  define from_sync where "from_sync = (\<exists>i\<in>set (tadd (transaction w)). origin (wpkgs w i) = ALPM_PKG_FROM_SYNCDB)"
  define err where "err = check_sync_dbs w from_sync (dbs_sync (handle w))"
  define nodeps where "nodeps = has_flag (transaction w) ALPM_TRANS_FLAG_NODEPS"
  define noconf where "noconf = has_flag (transaction w) ALPM_TRANS_FLAG_NOCONFLICTS"
  show ?thesis
  proof (cases "err = ALPM_ERR_OK")
    case False
    then have "alpm_sync_prepare env w = Some (-1, [], set_errno err w)"
      by (simp add: alpm_sync_prepare_def Let_def err_def from_sync_def)
    then show ?thesis by (simp add: extends_evolves)
  next
    case ok: True
    obtain r1 data1 w1 where 1: "(if nodeps then Some (0, [], w) else sync_resolve env w) = Some (r1, data1, w1)"
      "evolves w w1" "r1 = 0 \<longrightarrow> sync_step w w1" "r1 \<noteq> 0 \<longrightarrow> r1 = -1"
      using sync_resolve_spec [OF assms(1), of env] sync_step_refl [OF assms(1)] by (cases nodeps) (auto 4 4)
    show ?thesis
    proof (cases "r1 = 0")
      case False
      then have "alpm_sync_prepare env w = Some (r1, data1, w1)"
        using ok 1(1) by (simp add: alpm_sync_prepare_def Let_def err_def from_sync_def nodeps_def)
      then show ?thesis using 1(2,4) False by simp
    next
      case True
      then have ready: "sync_ready w1" using 1(3) by (simp add: sync_step_def)
      have cache: "cached_pkgs w1 (localdb w1) = cached_pkgs w (localdb w)"
        using evolves_cached_pkgs [OF 1(2)] evolves_handle(1) [OF 1(2)] by simp
      note use = sync_ready_cache(1) [OF assms(1)]
      have free: "conflict_free (wpkgs w1) (cached_pkgs w1 (localdb w1))"
        unfolding cache conflict_free_evolves [OF 1(2) use] by (rule assms(3))
      obtain r2 data2 w2 where 2: "(if noconf then (0, data1, w1) else sync_conflicts env data1 w1) = (r2, data2, w2)"
        by (metis prod_cases3)
      have s2: "evolves w1 w2" "r2 \<noteq> 0 \<longrightarrow> r2 = -1" "r2 = 0 \<longrightarrow> sync_ready w2"
        "r2 = 0 \<and> \<not> noconf \<longrightarrow> conflict_free (wpkgs w2) (tadd (transaction w2)) \<and>
          (\<forall>p\<in>set (tadd (transaction w2)). \<forall>q\<in>set (cached_pkgs w2 (localdb w2)).
            pname (wpkgs w2 q) \<notin> names w2 (tadd (transaction w2)) \<longrightarrow>
            declares (wpkgs w2 p) (wpkgs w2 q) \<or> declares (wpkgs w2 q) (wpkgs w2 p) \<longrightarrow> pname (wpkgs w2 q) \<in> elected_names w2)"
        using conflicts_or_not [OF ready free, of noconf data1 env r2 data2 w2] 2 by blast+
      note ev = evolves_trans [OF 1(2) s2(1)]
      have run: "alpm_sync_prepare env w = (if r2 \<noteq> 0 then Some (r2, data2, w2) else Some (sync_finish env data2 w2))"
        using ok 1(1) True 2
        by (simp add: alpm_sync_prepare_def Let_def err_def from_sync_def nodeps_def noconf_def split: prod.splits)
      show ?thesis
      proof (cases "r2 = 0")
        case False
        then show ?thesis using run ev s2(2) by simp
      next
        case zero: True
        then have ready2: "sync_ready w2" using s2(3) by simp
        have cache2: "cached_pkgs w2 (localdb w2) = cached_pkgs w (localdb w)"
          using evolves_cached_pkgs [OF ev] evolves_handle(1) [OF ev] by simp
        have closed2: "closed (handle w2) (wpkgs w2) (cached_pkgs w2 (localdb w2))"
          unfolding cache2 closed_evolves [OF ev use] by (rule assms(2))
        have free2: "conflict_free (wpkgs w2) (cached_pkgs w2 (localdb w2))"
          unfolding cache2 conflict_free_evolves [OF ev use] by (rule assms(3))
        obtain r data w' where 3: "sync_finish env data2 w2 = (r, data, w')" by (metis prod_cases3)
        note s3 = sync_finish_spec [OF ready2 closed2 3]
        then have ev3: "evolves w2 w'" and tadd: "tadd (transaction w') = tadd (transaction w2)" by simp_all
        have flag: "has_flag (transaction w2) f = has_flag (transaction w) f" for f by (rule evolves_flag [OF ev t])
        have "noconf \<or> conflict_free (wpkgs w') (installed_after w')"
          using sync_finish_conflict_free [OF ready2 ev3 tadd _ free2, of "elected_names w2"] s2(4) s3 zero by blast
        then show ?thesis using run zero 3 s3 evolves_trans [OF ev ev3] flag by (auto simp: noconf_def split: if_splits)
      qed
    qed
  qed
qed


text \<open>Version 1 is installed, version 2 is the target.\<close>

definition quiet_env :: sync_env where
  "quiet_env = \<lparr>env_fnmatch = \<lambda>_ _. False, env_questions = no_questions, env_force_load = \<lambda>_. False,
     env_is_reg = \<lambda>_. False, env_stat_size = \<lambda>_. None\<rparr>"

definition target_pkgs :: pkgs where
  "target_pkgs p = (versions_pkgs p)\<lparr>filename := Some ''lib-2.pkg''\<rparr>"

definition target_world :: "alpm_pkghash_t \<Rightarrow> alpm_pkghash_t \<Rightarrow> alpm_world" where
  "target_world h1 h2 = (let w = versions_world h1 h2
     in upd_trans (\<lambda>t. t\<lparr>tadd := [9]\<rparr>) (w\<lparr>wpkgs := target_pkgs\<rparr>))"

lemma target_world_ready:
  "\<exists>w. sync_ready w \<and> closed (handle w) (wpkgs w) (cached_pkgs w (localdb w)) \<and>
     conflict_free (wpkgs w) (cached_pkgs w (localdb w)) \<and> cached_pkgs w (localdb w) = [0] \<and>
     transaction w = \<lparr>tflags = 0, tstate = STATE_INITIALIZED, unresolvable = [], tadd = [9], tremove = [], skip_remove = []\<rparr> \<and>
     (\<forall>p. version (wpkgs w p) \<noteq> None) \<and> \<not> no_dep_version (handle w) \<and> lockfd (handle w) = -1"
proof -
  have pkg: "pname (target_pkgs p) = ''lib''" "hashed (target_pkgs p)" "filename (target_pkgs p) = Some ''lib-2.pkg''"
    "removes (target_pkgs p) = []" "depends (target_pkgs p) = []" "conflicts (target_pkgs p) = []"
    "version (target_pkgs p) \<noteq> None" for p
    by (simp_all add: target_pkgs_def versions_pkgs_def hashed_def alpm_pkg_new_def)
  obtain h1 where h1: "pkghash_inv target_pkgs h1" "hlist h1 = [0]" using one_cache [of target_pkgs 0] pkg(2) by auto
  obtain h2 where h2: "pkghash_inv target_pkgs h2" "hlist h2 = [9]" using one_cache [of target_pkgs 9] pkg(2) by auto
  define w where "w = target_world h1 h2"
  have w: "wpkgs w = target_pkgs" "next_ref w = 10" "localdb w = Some 3" "dbs_sync (handle w) = [5]" "trans (handle w) \<noteq> None"
    "cached_pkgs w (Some 3) = [0]" "cached_pkgs w (Some 5) = [9]" "loaded w (Some d)"
    "transaction w = \<lparr>tflags = 0, tstate = STATE_INITIALIZED, unresolvable = [], tadd = [9], tremove = [], skip_remove = []\<rparr>"
    "\<not> no_dep_version (handle w)" "lockfd (handle w) = -1" for d
    using h1 h2 by (simp_all add: w_def target_world_def versions_world_def upd_trans_def transaction_def loaded_def
        has_status_def cached_pkgs_def alpm_db_new_def no_dep_version_def alpm_handle_new_def)
  have "upgrade_ready w" unfolding upgrade_ready_def w using w(5,8) pkg(2) by (simp add: in_use_def w(2,7))
  moreover have "removal_ready w" unfolding removal_ready_def w using w(5,8) by (simp add: in_use_def w(2))
  ultimately have "sync_ready w" by (simp add: sync_ready_def w(1) pkg(3,4))
  moreover have "closed (handle w) (wpkgs w) (cached_pkgs w (localdb w))" by (simp add: closed_def w(1) pkg(5))
  moreover have "conflict_free (wpkgs w) (cached_pkgs w (localdb w))" by (simp add: conflict_free_def declares_def w(1) pkg(6))
  ultimately show ?thesis using w(1,3,6,9,10,11) pkg(7) by (intro exI [of _ w]) simp
qed


end
