(* ===== verification/AlpmHandle.thy ===== *)
theory AlpmHandle
  imports AlpmDb AlpmUtil
begin

text \<open>
  The options of \<open>lib/libalpm/handle.c\<close> and \<open>alpm_initialize\<close> of \<open>lib/libalpm/alpm.c\<close>. Every
  function returns its value and the handle afterwards, which is \<open>None\<close> for the null pointer.
  A function that reads or writes outside of a buffer has the value \<open>None\<close>.
\<close>

unbundle bit_operations_syntax

text \<open>\<open>CHECK_HANDLE\<close>: a null pointer is refused, and a call starts without an error.\<close>

definition check_handle ::
  "'r \<Rightarrow> (alpm_handle_t \<Rightarrow> 'r \<times> alpm_handle_t) \<Rightarrow> alpm_handle_t option \<Rightarrow> 'r \<times> alpm_handle_t option" where
  "check_handle fail body h =
     (case h of
        None \<Rightarrow> (fail, None)
      | Some h \<Rightarrow> let (r, h) = body (h\<lparr>pm_errno := ALPM_ERR_OK\<rparr>) in (r, Some h))"

definition ret_err :: "alpm_errno_t \<Rightarrow> 'r \<Rightarrow> alpm_handle_t \<Rightarrow> 'r \<times> alpm_handle_t" where
  "ret_err e r h = (r, h\<lparr>pm_errno := e\<rparr>)"

section \<open>Reading options\<close>

definition get_option :: "'r \<Rightarrow> (alpm_handle_t \<Rightarrow> 'r) \<Rightarrow> alpm_handle_t option \<Rightarrow> 'r \<times> alpm_handle_t option" where
  "get_option fail field = check_handle fail (\<lambda>h. (field h, h))"

definition alpm_option_get_logcb :: "alpm_handle_t option \<Rightarrow> u64 \<times> alpm_handle_t option" where
  "alpm_option_get_logcb = get_option 0 (\<lambda>h. logcb (callbacks h))"

definition alpm_option_get_logcb_ctx :: "alpm_handle_t option \<Rightarrow> u64 \<times> alpm_handle_t option" where
  "alpm_option_get_logcb_ctx = get_option 0 (\<lambda>h. logcb_ctx (callbacks h))"

definition alpm_option_get_dlcb :: "alpm_handle_t option \<Rightarrow> u64 \<times> alpm_handle_t option" where
  "alpm_option_get_dlcb = get_option 0 (\<lambda>h. dlcb (callbacks h))"

definition alpm_option_get_dlcb_ctx :: "alpm_handle_t option \<Rightarrow> u64 \<times> alpm_handle_t option" where
  "alpm_option_get_dlcb_ctx = get_option 0 (\<lambda>h. dlcb_ctx (callbacks h))"

definition alpm_option_get_fetchcb :: "alpm_handle_t option \<Rightarrow> u64 \<times> alpm_handle_t option" where
  "alpm_option_get_fetchcb = get_option 0 (\<lambda>h. fetchcb (callbacks h))"

definition alpm_option_get_fetchcb_ctx :: "alpm_handle_t option \<Rightarrow> u64 \<times> alpm_handle_t option" where
  "alpm_option_get_fetchcb_ctx = get_option 0 (\<lambda>h. fetchcb_ctx (callbacks h))"

definition alpm_option_get_eventcb :: "alpm_handle_t option \<Rightarrow> u64 \<times> alpm_handle_t option" where
  "alpm_option_get_eventcb = get_option 0 (\<lambda>h. eventcb (callbacks h))"

definition alpm_option_get_eventcb_ctx :: "alpm_handle_t option \<Rightarrow> u64 \<times> alpm_handle_t option" where
  "alpm_option_get_eventcb_ctx = get_option 0 (\<lambda>h. eventcb_ctx (callbacks h))"

definition alpm_option_get_questioncb :: "alpm_handle_t option \<Rightarrow> u64 \<times> alpm_handle_t option" where
  "alpm_option_get_questioncb = get_option 0 (\<lambda>h. questioncb (callbacks h))"

definition alpm_option_get_questioncb_ctx :: "alpm_handle_t option \<Rightarrow> u64 \<times> alpm_handle_t option" where
  "alpm_option_get_questioncb_ctx = get_option 0 (\<lambda>h. questioncb_ctx (callbacks h))"

definition alpm_option_get_progresscb :: "alpm_handle_t option \<Rightarrow> u64 \<times> alpm_handle_t option" where
  "alpm_option_get_progresscb = get_option 0 (\<lambda>h. progresscb (callbacks h))"

definition alpm_option_get_progresscb_ctx :: "alpm_handle_t option \<Rightarrow> u64 \<times> alpm_handle_t option" where
  "alpm_option_get_progresscb_ctx = get_option 0 (\<lambda>h. progresscb_ctx (callbacks h))"

definition alpm_option_get_root :: "alpm_handle_t option \<Rightarrow> string \<times> alpm_handle_t option" where
  "alpm_option_get_root = get_option [] root"

definition alpm_option_get_dbpath :: "alpm_handle_t option \<Rightarrow> string \<times> alpm_handle_t option" where
  "alpm_option_get_dbpath = get_option [] dbpath"

definition alpm_option_get_hookdirs :: "alpm_handle_t option \<Rightarrow> (string list) \<times> alpm_handle_t option" where
  "alpm_option_get_hookdirs = get_option [] hookdirs"

definition alpm_option_get_cachedirs :: "alpm_handle_t option \<Rightarrow> (string list) \<times> alpm_handle_t option" where
  "alpm_option_get_cachedirs = get_option [] cachedirs"

definition alpm_option_get_logfile :: "alpm_handle_t option \<Rightarrow> (string option) \<times> alpm_handle_t option" where
  "alpm_option_get_logfile = get_option None logfile"

definition alpm_option_get_lockfile :: "alpm_handle_t option \<Rightarrow> (string option) \<times> alpm_handle_t option" where
  "alpm_option_get_lockfile = get_option None lockfile"

definition alpm_option_get_gpgdir :: "alpm_handle_t option \<Rightarrow> (string option) \<times> alpm_handle_t option" where
  "alpm_option_get_gpgdir = get_option None gpgdir"

definition alpm_option_get_usesyslog :: "alpm_handle_t option \<Rightarrow> int \<times> alpm_handle_t option" where
  "alpm_option_get_usesyslog = get_option (-1) usesyslog"

definition alpm_option_get_noupgrades :: "alpm_handle_t option \<Rightarrow> (string list) \<times> alpm_handle_t option" where
  "alpm_option_get_noupgrades = get_option [] noupgrade"

definition alpm_option_get_noextracts :: "alpm_handle_t option \<Rightarrow> (string list) \<times> alpm_handle_t option" where
  "alpm_option_get_noextracts = get_option [] noextract"

definition alpm_option_get_ignorepkgs :: "alpm_handle_t option \<Rightarrow> (string list) \<times> alpm_handle_t option" where
  "alpm_option_get_ignorepkgs = get_option [] ignorepkg"

definition alpm_option_get_ignoregroups :: "alpm_handle_t option \<Rightarrow> (string list) \<times> alpm_handle_t option" where
  "alpm_option_get_ignoregroups = get_option [] ignoregroup"

definition alpm_option_get_overwrite_files :: "alpm_handle_t option \<Rightarrow> (string list) \<times> alpm_handle_t option" where
  "alpm_option_get_overwrite_files = get_option [] overwrite_files"

definition alpm_option_get_assumeinstalled :: "alpm_handle_t option \<Rightarrow> (alpm_depend_t list) \<times> alpm_handle_t option" where
  "alpm_option_get_assumeinstalled = get_option [] assumeinstalled"

definition alpm_option_get_architectures :: "alpm_handle_t option \<Rightarrow> (string list) \<times> alpm_handle_t option" where
  "alpm_option_get_architectures = get_option [] architectures"

definition alpm_option_get_checkspace :: "alpm_handle_t option \<Rightarrow> int \<times> alpm_handle_t option" where
  "alpm_option_get_checkspace = get_option (-1) checkspace"

definition alpm_option_get_dbext :: "alpm_handle_t option \<Rightarrow> string \<times> alpm_handle_t option" where
  "alpm_option_get_dbext = get_option [] dbext"

definition alpm_option_get_parallel_downloads :: "alpm_handle_t option \<Rightarrow> u32 \<times> alpm_handle_t option" where
  "alpm_option_get_parallel_downloads = get_option (-1) parallel_downloads"

definition alpm_get_localdb :: "alpm_handle_t option \<Rightarrow> (dbref option) \<times> alpm_handle_t option" where
  "alpm_get_localdb = get_option None db_local"

definition alpm_get_syncdbs :: "alpm_handle_t option \<Rightarrow> (dbref list) \<times> alpm_handle_t option" where
  "alpm_get_syncdbs = get_option [] dbs_sync"

definition alpm_option_get_default_siglevel :: "alpm_handle_t option \<Rightarrow> u32 \<times> alpm_handle_t option" where
  "alpm_option_get_default_siglevel = get_option (-1) hsiglevel"

definition alpm_option_get_local_file_siglevel :: "alpm_handle_t option \<Rightarrow> u32 \<times> alpm_handle_t option" where
  "alpm_option_get_local_file_siglevel =
     get_option (-1) (\<lambda>h. if localfilesiglevel h AND ALPM_SIG_USE_DEFAULT \<noteq> 0 then hsiglevel h else localfilesiglevel h)"

definition alpm_option_get_remote_file_siglevel :: "alpm_handle_t option \<Rightarrow> u32 \<times> alpm_handle_t option" where
  "alpm_option_get_remote_file_siglevel =
     get_option (-1) (\<lambda>h. if remotefilesiglevel h AND ALPM_SIG_USE_DEFAULT \<noteq> 0 then hsiglevel h else remotefilesiglevel h)"

section \<open>Setting plain values\<close>

definition set_field :: "(alpm_handle_t \<Rightarrow> alpm_handle_t) \<Rightarrow> alpm_handle_t option \<Rightarrow> int \<times> alpm_handle_t option" where
  "set_field f = check_handle (-1) (\<lambda>h. (0, f h))"

definition alpm_option_set_logcb :: "alpm_handle_t option \<Rightarrow> u64 \<Rightarrow> u64 \<Rightarrow> int \<times> alpm_handle_t option" where
  "alpm_option_set_logcb h cb ctx =
     set_field (\<lambda>h. h\<lparr>callbacks := (callbacks h)\<lparr>logcb := cb, logcb_ctx := ctx\<rparr>\<rparr>) h"

definition alpm_option_set_dlcb :: "alpm_handle_t option \<Rightarrow> u64 \<Rightarrow> u64 \<Rightarrow> int \<times> alpm_handle_t option" where
  "alpm_option_set_dlcb h cb ctx =
     set_field (\<lambda>h. h\<lparr>callbacks := (callbacks h)\<lparr>dlcb := cb, dlcb_ctx := ctx\<rparr>\<rparr>) h"

definition alpm_option_set_fetchcb :: "alpm_handle_t option \<Rightarrow> u64 \<Rightarrow> u64 \<Rightarrow> int \<times> alpm_handle_t option" where
  "alpm_option_set_fetchcb h cb ctx =
     set_field (\<lambda>h. h\<lparr>callbacks := (callbacks h)\<lparr>fetchcb := cb, fetchcb_ctx := ctx\<rparr>\<rparr>) h"

definition alpm_option_set_eventcb :: "alpm_handle_t option \<Rightarrow> u64 \<Rightarrow> u64 \<Rightarrow> int \<times> alpm_handle_t option" where
  "alpm_option_set_eventcb h cb ctx =
     set_field (\<lambda>h. h\<lparr>callbacks := (callbacks h)\<lparr>eventcb := cb, eventcb_ctx := ctx\<rparr>\<rparr>) h"

definition alpm_option_set_questioncb :: "alpm_handle_t option \<Rightarrow> u64 \<Rightarrow> u64 \<Rightarrow> int \<times> alpm_handle_t option" where
  "alpm_option_set_questioncb h cb ctx =
     set_field (\<lambda>h. h\<lparr>callbacks := (callbacks h)\<lparr>questioncb := cb, questioncb_ctx := ctx\<rparr>\<rparr>) h"

definition alpm_option_set_progresscb :: "alpm_handle_t option \<Rightarrow> u64 \<Rightarrow> u64 \<Rightarrow> int \<times> alpm_handle_t option" where
  "alpm_option_set_progresscb h cb ctx =
     set_field (\<lambda>h. h\<lparr>callbacks := (callbacks h)\<lparr>progresscb := cb, progresscb_ctx := ctx\<rparr>\<rparr>) h"

definition alpm_option_set_usesyslog :: "alpm_handle_t option \<Rightarrow> int \<Rightarrow> int \<times> alpm_handle_t option" where
  "alpm_option_set_usesyslog h v = set_field (\<lambda>h. h\<lparr>usesyslog := v\<rparr>) h"

definition alpm_option_set_checkspace :: "alpm_handle_t option \<Rightarrow> int \<Rightarrow> int \<times> alpm_handle_t option" where
  "alpm_option_set_checkspace h v = set_field (\<lambda>h. h\<lparr>checkspace := v\<rparr>) h"

definition alpm_option_set_disable_dl_timeout :: "alpm_handle_t option \<Rightarrow> u16 \<Rightarrow> int \<times> alpm_handle_t option" where
  "alpm_option_set_disable_dl_timeout h v = set_field (\<lambda>h. h\<lparr>disable_dl_timeout := v\<rparr>) h"

definition alpm_option_set_parallel_downloads :: "alpm_handle_t option \<Rightarrow> u32 \<Rightarrow> int \<times> alpm_handle_t option" where
  "alpm_option_set_parallel_downloads h num_streams =
     check_handle (-1) (\<lambda>h. if num_streams \<ge> 1 then (0, h\<lparr>parallel_downloads := num_streams\<rparr>)
       else ret_err ALPM_ERR_WRONG_ARGS (-1) h) h"

definition alpm_option_set_dbext :: "alpm_handle_t option \<Rightarrow> string option \<Rightarrow> int \<times> alpm_handle_t option" where
  "alpm_option_set_dbext h ext =
     check_handle (-1) (\<lambda>h. case ext of None \<Rightarrow> ret_err ALPM_ERR_WRONG_ARGS (-1) h | Some e \<Rightarrow> (0, h\<lparr>dbext := e\<rparr>)) h"

text \<open>The old name is read before the handle is checked: \<open>None\<close> for a null pointer.\<close>

definition alpm_option_set_logfile :: "alpm_handle_t option \<Rightarrow> string option \<Rightarrow> (int \<times> alpm_handle_t option) option" where
  "alpm_option_set_logfile h path =
     (if h = None then None
      else Some (check_handle (-1)
        (\<lambda>h. case path of None \<Rightarrow> ret_err ALPM_ERR_WRONG_ARGS (-1) h
           | Some p \<Rightarrow> (0, h\<lparr>logfile := Some p, logstream := False\<rparr>)) h))"

text \<open>The levels, with GPGME or without.\<close>

definition alpm_option_set_default_siglevel :: "bool \<Rightarrow> alpm_handle_t option \<Rightarrow> u32 \<Rightarrow> int \<times> alpm_handle_t option" where
  "alpm_option_set_default_siglevel have_gpgme h level =
     check_handle (-1)
       (\<lambda>h. if level = ALPM_SIG_USE_DEFAULT then ret_err ALPM_ERR_WRONG_ARGS (-1) h
            else if have_gpgme then (0, h\<lparr>hsiglevel := level\<rparr>)
            else if level \<noteq> 0 then ret_err ALPM_ERR_MISSING_CAPABILITY_SIGNATURES (-1) h
            else (0, h)) h"

definition alpm_option_set_local_file_siglevel :: "bool \<Rightarrow> alpm_handle_t option \<Rightarrow> u32 \<Rightarrow> int \<times> alpm_handle_t option" where
  "alpm_option_set_local_file_siglevel have_gpgme h level =
     check_handle (-1)
       (\<lambda>h. if have_gpgme then (0, h\<lparr>localfilesiglevel := level\<rparr>)
            else if level \<noteq> 0 \<and> level \<noteq> ALPM_SIG_USE_DEFAULT then ret_err ALPM_ERR_MISSING_CAPABILITY_SIGNATURES (-1) h
            else (0, h)) h"

definition alpm_option_set_remote_file_siglevel :: "bool \<Rightarrow> alpm_handle_t option \<Rightarrow> u32 \<Rightarrow> int \<times> alpm_handle_t option" where
  "alpm_option_set_remote_file_siglevel have_gpgme h level =
     check_handle (-1)
       (\<lambda>h. if have_gpgme then (0, h\<lparr>remotefilesiglevel := level\<rparr>)
            else if level \<noteq> 0 \<and> level \<noteq> ALPM_SIG_USE_DEFAULT then ret_err ALPM_ERR_MISSING_CAPABILITY_SIGNATURES (-1) h
            else (0, h)) h"

section \<open>Directories\<close>

text \<open>\<open>path[len - 1]\<close> is outside of an empty path.\<close>

definition canonicalize_path :: "string \<Rightarrow> string option" where
  "canonicalize_path path =
     (if path = [] then None else Some (if last path \<noteq> CHR ''/'' then path @ ''/'' else path))"

text \<open>
  The storage afterwards, with the error; \<open>stat\<close> (whether there is a directory) and \<open>realpath\<close>
  are parameters.
\<close>

definition alpm_set_directory_option ::
  "(string \<Rightarrow> bool) \<Rightarrow> (string \<Rightarrow> string option) \<Rightarrow> string option \<Rightarrow> string option \<Rightarrow> bool \<Rightarrow>
   (alpm_errno_t \<times> string option) option" where
  "alpm_set_directory_option is_dir realpath value storage must_exist =
     (case value of
        None \<Rightarrow> Some (ALPM_ERR_WRONG_ARGS, storage)
      | Some path \<Rightarrow>
          if must_exist \<and> \<not> is_dir path then Some (ALPM_ERR_NOT_A_DIR, storage)
          else
            (case (if must_exist then realpath path else Some path) of
               None \<Rightarrow> Some (ALPM_ERR_NOT_A_DIR, storage)
             | Some path \<Rightarrow> map_option (\<lambda>p. (ALPM_ERR_OK, Some p)) (canonicalize_path path)))"

definition alpm_option_set_gpgdir ::
  "alpm_handle_t option \<Rightarrow> string option \<Rightarrow> (int \<times> alpm_handle_t option) option" where
  "alpm_option_set_gpgdir h path =
     (case h of
        None \<Rightarrow> Some (-1, None)
      | Some h \<Rightarrow>
          map_option (\<lambda>(err, dir).
              if err \<noteq> ALPM_ERR_OK then (-1, Some (h\<lparr>gpgdir := dir, pm_errno := err\<rparr>))
              else (0, Some (h\<lparr>gpgdir := dir, pm_errno := ALPM_ERR_OK\<rparr>)))
            (alpm_set_directory_option (\<lambda>_. False) (\<lambda>_. None) path (gpgdir h) False))"

definition alpm_option_add_hookdir :: "alpm_handle_t option \<Rightarrow> string option \<Rightarrow> (int \<times> alpm_handle_t option) option" where
  "alpm_option_add_hookdir h dir =
     (case (h, dir) of
        (None, _) \<Rightarrow> Some (-1, None)
      | (Some h, None) \<Rightarrow> Some (-1, Some (h\<lparr>pm_errno := ALPM_ERR_WRONG_ARGS\<rparr>))
      | (Some h, Some d) \<Rightarrow>
          map_option (\<lambda>new. (0, Some (h\<lparr>pm_errno := ALPM_ERR_OK, hookdirs := alpm_list_add (hookdirs h) new\<rparr>)))
            (canonicalize_path d))"

fun add_hookdirs :: "alpm_handle_t option \<Rightarrow> string option list \<Rightarrow> (int \<times> alpm_handle_t option) option" where
  "add_hookdirs h [] = Some (0, h)"
| "add_hookdirs h (i # js) =
     (case alpm_option_add_hookdir h i of
        None \<Rightarrow> None
      | Some (ret, h) \<Rightarrow> if ret \<noteq> 0 then Some (ret, h) else add_hookdirs h js)"

definition alpm_option_set_hookdirs :: "alpm_handle_t option \<Rightarrow> string option list \<Rightarrow> (int \<times> alpm_handle_t option) option" where
  "alpm_option_set_hookdirs h dirs =
     (case h of
        None \<Rightarrow> Some (-1, None)
      | Some h \<Rightarrow> add_hookdirs (Some (h\<lparr>pm_errno := ALPM_ERR_OK, hookdirs := []\<rparr>)) dirs)"

definition alpm_option_remove_hookdir :: "alpm_handle_t option \<Rightarrow> string option \<Rightarrow> (int \<times> alpm_handle_t option) option" where
  "alpm_option_remove_hookdir h dir =
     (case (h, dir) of
        (None, _) \<Rightarrow> Some (-1, None)
      | (Some h, None) \<Rightarrow> Some (-1, Some (h\<lparr>pm_errno := ALPM_ERR_WRONG_ARGS\<rparr>))
      | (Some h, Some d) \<Rightarrow>
          map_option (\<lambda>new.
              let (dirs, vdata) = alpm_list_remove_str (hookdirs h) new
              in (if vdata \<noteq> None then 1 else 0, Some (h\<lparr>pm_errno := ALPM_ERR_OK, hookdirs := dirs\<rparr>)))
            (canonicalize_path d))"

definition alpm_option_add_cachedir :: "alpm_handle_t option \<Rightarrow> string option \<Rightarrow> (int \<times> alpm_handle_t option) option" where
  "alpm_option_add_cachedir h dir =
     (case (h, dir) of
        (None, _) \<Rightarrow> Some (-1, None)
      | (Some h, None) \<Rightarrow> Some (-1, Some (h\<lparr>pm_errno := ALPM_ERR_WRONG_ARGS\<rparr>))
      | (Some h, Some d) \<Rightarrow>
          map_option (\<lambda>new. (0, Some (h\<lparr>pm_errno := ALPM_ERR_OK, cachedirs := alpm_list_add (cachedirs h) new\<rparr>)))
            (canonicalize_path d))"

fun add_cachedirs :: "alpm_handle_t option \<Rightarrow> string option list \<Rightarrow> (int \<times> alpm_handle_t option) option" where
  "add_cachedirs h [] = Some (0, h)"
| "add_cachedirs h (i # js) =
     (case alpm_option_add_cachedir h i of
        None \<Rightarrow> None
      | Some (ret, h) \<Rightarrow> if ret \<noteq> 0 then Some (ret, h) else add_cachedirs h js)"

definition alpm_option_set_cachedirs :: "alpm_handle_t option \<Rightarrow> string option list \<Rightarrow> (int \<times> alpm_handle_t option) option" where
  "alpm_option_set_cachedirs h dirs =
     (case h of
        None \<Rightarrow> Some (-1, None)
      | Some h \<Rightarrow> add_cachedirs (Some (h\<lparr>pm_errno := ALPM_ERR_OK, cachedirs := []\<rparr>)) dirs)"

definition alpm_option_remove_cachedir :: "alpm_handle_t option \<Rightarrow> string option \<Rightarrow> (int \<times> alpm_handle_t option) option" where
  "alpm_option_remove_cachedir h dir =
     (case (h, dir) of
        (None, _) \<Rightarrow> Some (-1, None)
      | (Some h, None) \<Rightarrow> Some (-1, Some (h\<lparr>pm_errno := ALPM_ERR_WRONG_ARGS\<rparr>))
      | (Some h, Some d) \<Rightarrow>
          map_option (\<lambda>new.
              let (dirs, vdata) = alpm_list_remove_str (cachedirs h) new
              in (if vdata \<noteq> None then 1 else 0, Some (h\<lparr>pm_errno := ALPM_ERR_OK, cachedirs := dirs\<rparr>)))
            (canonicalize_path d))"

section \<open>Lists of strings\<close>

definition alpm_option_strlist_add ::
  "((string list \<Rightarrow> string list) \<Rightarrow> alpm_handle_t \<Rightarrow> alpm_handle_t) \<Rightarrow> alpm_handle_t option \<Rightarrow> string \<Rightarrow> int \<times> alpm_handle_t option" where
  "alpm_option_strlist_add upd h str = check_handle (-1) (\<lambda>h. (0, upd (\<lambda>l. alpm_list_add l str) h)) h"

definition alpm_option_strlist_set ::
  "((string list \<Rightarrow> string list) \<Rightarrow> alpm_handle_t \<Rightarrow> alpm_handle_t) \<Rightarrow> alpm_handle_t option \<Rightarrow> string list \<Rightarrow> int \<times> alpm_handle_t option" where
  "alpm_option_strlist_set upd h newlist = check_handle (-1) (\<lambda>h. (0, upd (\<lambda>_. newlist) h)) h"

definition alpm_option_strlist_rem ::
  "(alpm_handle_t \<Rightarrow> string list) \<Rightarrow> ((string list \<Rightarrow> string list) \<Rightarrow> alpm_handle_t \<Rightarrow> alpm_handle_t) \<Rightarrow>
   alpm_handle_t option \<Rightarrow> string \<Rightarrow> int \<times> alpm_handle_t option" where
  "alpm_option_strlist_rem get upd h str =
     check_handle (-1)
       (\<lambda>h. let (l, vdata) = alpm_list_remove_str (get h) str
            in (if vdata \<noteq> None then 1 else 0, upd (\<lambda>_. l) h)) h"

definition alpm_option_add_noupgrade :: "alpm_handle_t option \<Rightarrow> string \<Rightarrow> int \<times> alpm_handle_t option" where
  "alpm_option_add_noupgrade = alpm_option_strlist_add noupgrade_update"

definition alpm_option_set_noupgrades :: "alpm_handle_t option \<Rightarrow> string list \<Rightarrow> int \<times> alpm_handle_t option" where
  "alpm_option_set_noupgrades = alpm_option_strlist_set noupgrade_update"

definition alpm_option_remove_noupgrade :: "alpm_handle_t option \<Rightarrow> string \<Rightarrow> int \<times> alpm_handle_t option" where
  "alpm_option_remove_noupgrade = alpm_option_strlist_rem noupgrade noupgrade_update"

definition alpm_option_add_noextract :: "alpm_handle_t option \<Rightarrow> string \<Rightarrow> int \<times> alpm_handle_t option" where
  "alpm_option_add_noextract = alpm_option_strlist_add noextract_update"

definition alpm_option_set_noextracts :: "alpm_handle_t option \<Rightarrow> string list \<Rightarrow> int \<times> alpm_handle_t option" where
  "alpm_option_set_noextracts = alpm_option_strlist_set noextract_update"

definition alpm_option_remove_noextract :: "alpm_handle_t option \<Rightarrow> string \<Rightarrow> int \<times> alpm_handle_t option" where
  "alpm_option_remove_noextract = alpm_option_strlist_rem noextract noextract_update"

definition alpm_option_add_ignorepkg :: "alpm_handle_t option \<Rightarrow> string \<Rightarrow> int \<times> alpm_handle_t option" where
  "alpm_option_add_ignorepkg = alpm_option_strlist_add ignorepkg_update"

definition alpm_option_set_ignorepkgs :: "alpm_handle_t option \<Rightarrow> string list \<Rightarrow> int \<times> alpm_handle_t option" where
  "alpm_option_set_ignorepkgs = alpm_option_strlist_set ignorepkg_update"

definition alpm_option_remove_ignorepkg :: "alpm_handle_t option \<Rightarrow> string \<Rightarrow> int \<times> alpm_handle_t option" where
  "alpm_option_remove_ignorepkg = alpm_option_strlist_rem ignorepkg ignorepkg_update"

definition alpm_option_add_ignoregroup :: "alpm_handle_t option \<Rightarrow> string \<Rightarrow> int \<times> alpm_handle_t option" where
  "alpm_option_add_ignoregroup = alpm_option_strlist_add ignoregroup_update"

definition alpm_option_set_ignoregroups :: "alpm_handle_t option \<Rightarrow> string list \<Rightarrow> int \<times> alpm_handle_t option" where
  "alpm_option_set_ignoregroups = alpm_option_strlist_set ignoregroup_update"

definition alpm_option_remove_ignoregroup :: "alpm_handle_t option \<Rightarrow> string \<Rightarrow> int \<times> alpm_handle_t option" where
  "alpm_option_remove_ignoregroup = alpm_option_strlist_rem ignoregroup ignoregroup_update"

definition alpm_option_add_overwrite_file :: "alpm_handle_t option \<Rightarrow> string \<Rightarrow> int \<times> alpm_handle_t option" where
  "alpm_option_add_overwrite_file = alpm_option_strlist_add overwrite_files_update"

definition alpm_option_set_overwrite_files :: "alpm_handle_t option \<Rightarrow> string list \<Rightarrow> int \<times> alpm_handle_t option" where
  "alpm_option_set_overwrite_files = alpm_option_strlist_set overwrite_files_update"

definition alpm_option_remove_overwrite_file :: "alpm_handle_t option \<Rightarrow> string \<Rightarrow> int \<times> alpm_handle_t option" where
  "alpm_option_remove_overwrite_file = alpm_option_strlist_rem overwrite_files overwrite_files_update"

definition alpm_option_match_noupgrade :: "(string \<Rightarrow> string \<Rightarrow> bool) \<Rightarrow> alpm_handle_t \<Rightarrow> string \<Rightarrow> int" where
  "alpm_option_match_noupgrade fnm h path = alpm_fnmatch_patterns fnm (noupgrade h) path"

definition alpm_option_match_noextract :: "(string \<Rightarrow> string \<Rightarrow> bool) \<Rightarrow> alpm_handle_t \<Rightarrow> string \<Rightarrow> int" where
  "alpm_option_match_noextract fnm h path = alpm_fnmatch_patterns fnm (noextract h) path"

text \<open>Adding an architecture does not check the handle.\<close>

definition alpm_option_add_architecture :: "alpm_handle_t \<Rightarrow> string \<Rightarrow> int \<times> alpm_handle_t" where
  "alpm_option_add_architecture h name = (0, h\<lparr>architectures := alpm_list_add (architectures h) name\<rparr>)"

definition alpm_option_set_architectures :: "alpm_handle_t option \<Rightarrow> string list \<Rightarrow> int \<times> alpm_handle_t option" where
  "alpm_option_set_architectures h arches = check_handle (-1) (\<lambda>h. (0, h\<lparr>architectures := arches\<rparr>)) h"

definition alpm_option_remove_architecture :: "alpm_handle_t option \<Rightarrow> string \<Rightarrow> int \<times> alpm_handle_t option" where
  "alpm_option_remove_architecture h name =
     check_handle (-1)
       (\<lambda>h. let (l, vdata) = alpm_list_remove_str (architectures h) name
            in (if vdata \<noteq> None then 1 else 0, h\<lparr>architectures := l\<rparr>)) h"

section \<open>Packages that are assumed to be installed\<close>

definition alpm_option_add_assumeinstalled :: "alpm_handle_t option \<Rightarrow> alpm_depend_t \<Rightarrow> int \<times> alpm_handle_t option" where
  "alpm_option_add_assumeinstalled h dep =
     check_handle (-1)
       (\<lambda>h. if dmod dep \<noteq> ALPM_DEP_MOD_EQ \<and> dmod dep \<noteq> ALPM_DEP_MOD_ANY then ret_err ALPM_ERR_WRONG_ARGS (-1) h
            else
              let depcpy = (alpm_dep_dup dep)\<lparr>dname_hash := alpm_hash_sdbm (Some (dname dep))\<rparr>
              in (0, h\<lparr>assumeinstalled := alpm_list_add (assumeinstalled h) depcpy\<rparr>)) h"

fun add_assumeinstalled :: "alpm_handle_t option \<Rightarrow> alpm_depend_t list \<Rightarrow> int \<times> alpm_handle_t option" where
  "add_assumeinstalled h [] = (0, h)"
| "add_assumeinstalled h (dep # deps) =
     (let (r, h) = alpm_option_add_assumeinstalled h dep
      in if r \<noteq> 0 then (-1, h) else add_assumeinstalled h deps)"

definition alpm_option_set_assumeinstalled :: "alpm_handle_t option \<Rightarrow> alpm_depend_t list \<Rightarrow> int \<times> alpm_handle_t option" where
  "alpm_option_set_assumeinstalled h deps =
     (case h of
        None \<Rightarrow> (-1, None)
      | Some h \<Rightarrow> add_assumeinstalled (Some (h\<lparr>pm_errno := ALPM_ERR_OK, assumeinstalled := []\<rparr>)) deps)"

definition assumeinstalled_cmp :: "alpm_depend_t \<Rightarrow> alpm_depend_t \<Rightarrow> int" where
  "assumeinstalled_cmp dep1 dep2 =
     (if dname_hash dep1 \<noteq> dname_hash dep2 \<or> strcmp (dname dep1) (dname dep2) \<noteq> 0 then -1
      else
        (case (dversion dep1, dversion dep2) of
           (Some v1, Some v2) \<Rightarrow> if strcmp v1 v2 = 0 then 0 else -1
         | (None, None) \<Rightarrow> 0
         | _ \<Rightarrow> -1))"

definition alpm_option_remove_assumeinstalled :: "alpm_handle_t option \<Rightarrow> alpm_depend_t \<Rightarrow> int \<times> alpm_handle_t option" where
  "alpm_option_remove_assumeinstalled h dep =
     check_handle (-1)
       (\<lambda>h. let (l, vdata) = alpm_list_remove assumeinstalled_cmp (assumeinstalled h) dep
            in (if vdata \<noteq> None then 1 else 0, h\<lparr>assumeinstalled := l\<rparr>)) h"

section \<open>A new handle\<close>

text \<open>
  \<open>alpm_initialize\<close>: the error or the library's state with the new handle. \<open>SYSHOOKDIR\<close> is set by
  the build; validating the local database is an argument as in \<open>alpm_db_register_local\<close>.
\<close>

definition alpm_initialize ::
  "(string \<Rightarrow> bool) \<Rightarrow> (string \<Rightarrow> string option) \<Rightarrow> string \<Rightarrow> db_op \<Rightarrow> alpm_world \<Rightarrow> string option \<Rightarrow> string option \<Rightarrow>
   (alpm_errno_t + alpm_world) option" where
  "alpm_initialize is_dir realpath syshookdir validate w root_arg dbpath_arg =
     (case alpm_set_directory_option is_dir realpath root_arg None True of
        None \<Rightarrow> None
      | Some (err, r) \<Rightarrow>
          if err \<noteq> ALPM_ERR_OK then Some (Inl err)
          else
            (case alpm_set_directory_option is_dir realpath dbpath_arg None True of
               None \<Rightarrow> None
             | Some (err, d) \<Rightarrow>
                 if err \<noteq> ALPM_ERR_OK then Some (Inl err)
                 else
                   (let h = alpm_handle_new\<lparr>root := the r, dbpath := the d,
                          hookdirs := alpm_list_add [] (the r @ drop 1 syshookdir), dbext := ''.db'',
                          lockfile := Some (the d @ ''db.lck'')\<rparr>;
                        (db, w) = alpm_db_register_local validate (w\<lparr>handle := h\<rparr>)
                    in if db = None then Some (Inl (pm_errno (handle w)))
                       else Some (Inr (w\<lparr>handle := (handle w)\<lparr>parallel_downloads := 1\<rparr>\<rparr>)))))"

section \<open>The lists of strings behave alike\<close>

locale string_list_option =
  fixes get :: "alpm_handle_t \<Rightarrow> string list"
    and set_to :: "string list \<Rightarrow> alpm_handle_t \<Rightarrow> alpm_handle_t"
    and add :: "alpm_handle_t option \<Rightarrow> string \<Rightarrow> int \<times> alpm_handle_t option"
    and put :: "alpm_handle_t option \<Rightarrow> string list \<Rightarrow> int \<times> alpm_handle_t option"
    and rem :: "alpm_handle_t option \<Rightarrow> string \<Rightarrow> int \<times> alpm_handle_t option"
  assumes get_set: "get (set_to l h) = l" and set_set: "set_to l (set_to k h) = set_to l h"
    and get_errno: "get (h\<lparr>pm_errno := e\<rparr>) = get h"
    and add_law: "add (Some h) s = (0, Some (set_to (get h @ [s]) (h\<lparr>pm_errno := ALPM_ERR_OK\<rparr>)))"
    and put_law: "put (Some h) l = (0, Some (set_to l (h\<lparr>pm_errno := ALPM_ERR_OK\<rparr>)))"
    and rem_law: "rem (Some h) s = (if s \<in> set (get h) then 1 else 0, Some (set_to (remove1 s (get h)) (h\<lparr>pm_errno := ALPM_ERR_OK\<rparr>)))"
    and set_errno_ok: "(set_to l h)\<lparr>pm_errno := e\<rparr> = set_to l (h\<lparr>pm_errno := e\<rparr>)"
begin

lemma remove_after_add:
  assumes "s \<notin> set (get h)"
  shows "rem (snd (add (Some h) s)) s = (1, snd (put (Some h) (get h)))"
  using assms by (simp add: add_law rem_law put_law get_set set_set set_errno_ok remove1_append)

lemma remove_again:
  assumes "distinct (get h)"
  shows "fst (rem (snd (rem (Some h) s)) s) = 0"
  using assms by (simp add: rem_law get_set get_errno set_errno_ok distinct_remove1_removeAll)

lemma put_then_get: "map_option get (snd (put (Some h) l)) = Some l"
  by (simp add: put_law get_set)

end

lemma remove_str_remove1: "alpm_list_remove_str l s = (remove1 s l, if s \<in> set l then Some s else None)"
  unfolding alpm_list_remove_str_def by (induction l) auto

lemmas strlist_defs = alpm_option_strlist_add_def alpm_option_strlist_set_def alpm_option_strlist_rem_def
  check_handle_def alpm_list_add_def remove_str_remove1 Let_def

interpretation nu: string_list_option noupgrade "\<lambda>l. noupgrade_update (\<lambda>_. l)"
  alpm_option_add_noupgrade alpm_option_set_noupgrades alpm_option_remove_noupgrade
  by unfold_locales (simp_all add: strlist_defs alpm_option_add_noupgrade_def alpm_option_set_noupgrades_def
      alpm_option_remove_noupgrade_def)

interpretation ne: string_list_option noextract "\<lambda>l. noextract_update (\<lambda>_. l)"
  alpm_option_add_noextract alpm_option_set_noextracts alpm_option_remove_noextract
  by unfold_locales (simp_all add: strlist_defs alpm_option_add_noextract_def alpm_option_set_noextracts_def
      alpm_option_remove_noextract_def)

interpretation ip: string_list_option ignorepkg "\<lambda>l. ignorepkg_update (\<lambda>_. l)"
  alpm_option_add_ignorepkg alpm_option_set_ignorepkgs alpm_option_remove_ignorepkg
  by unfold_locales (simp_all add: strlist_defs alpm_option_add_ignorepkg_def alpm_option_set_ignorepkgs_def
      alpm_option_remove_ignorepkg_def)

interpretation ig: string_list_option ignoregroup "\<lambda>l. ignoregroup_update (\<lambda>_. l)"
  alpm_option_add_ignoregroup alpm_option_set_ignoregroups alpm_option_remove_ignoregroup
  by unfold_locales (simp_all add: strlist_defs alpm_option_add_ignoregroup_def alpm_option_set_ignoregroups_def
      alpm_option_remove_ignoregroup_def)

interpretation ow: string_list_option overwrite_files "\<lambda>l. overwrite_files_update (\<lambda>_. l)"
  alpm_option_add_overwrite_file alpm_option_set_overwrite_files alpm_option_remove_overwrite_file
  by unfold_locales (simp_all add: strlist_defs alpm_option_add_overwrite_file_def alpm_option_set_overwrite_files_def
      alpm_option_remove_overwrite_file_def)

section \<open>What every option call keeps\<close>

text \<open>One call of the frontend that changes the handle.\<close>

inductive option_call :: "alpm_handle_t \<Rightarrow> alpm_handle_t \<Rightarrow> bool" where
  call_logcb: "alpm_option_set_logcb (Some h) cb ctx = (r, Some h') \<Longrightarrow> option_call h h'"
| call_dlcb: "alpm_option_set_dlcb (Some h) cb ctx = (r, Some h') \<Longrightarrow> option_call h h'"
| call_fetchcb: "alpm_option_set_fetchcb (Some h) cb ctx = (r, Some h') \<Longrightarrow> option_call h h'"
| call_eventcb: "alpm_option_set_eventcb (Some h) cb ctx = (r, Some h') \<Longrightarrow> option_call h h'"
| call_questioncb: "alpm_option_set_questioncb (Some h) cb ctx = (r, Some h') \<Longrightarrow> option_call h h'"
| call_progresscb: "alpm_option_set_progresscb (Some h) cb ctx = (r, Some h') \<Longrightarrow> option_call h h'"
| call_usesyslog: "alpm_option_set_usesyslog (Some h) v = (r, Some h') \<Longrightarrow> option_call h h'"
| call_checkspace: "alpm_option_set_checkspace (Some h) v = (r, Some h') \<Longrightarrow> option_call h h'"
| call_disable_dl_timeout: "alpm_option_set_disable_dl_timeout (Some h) v = (r, Some h') \<Longrightarrow> option_call h h'"
| call_parallel_downloads: "alpm_option_set_parallel_downloads (Some h) v = (r, Some h') \<Longrightarrow> option_call h h'"
| call_dbext: "alpm_option_set_dbext (Some h) v = (r, Some h') \<Longrightarrow> option_call h h'"
| call_logfile: "alpm_option_set_logfile (Some h) v = Some (r, Some h') \<Longrightarrow> option_call h h'"
| call_gpgdir: "alpm_option_set_gpgdir (Some h) v = Some (r, Some h') \<Longrightarrow> option_call h h'"
| call_default_siglevel: "alpm_option_set_default_siglevel gpgme (Some h) v = (r, Some h') \<Longrightarrow> option_call h h'"
| call_local_file_siglevel: "alpm_option_set_local_file_siglevel gpgme (Some h) v = (r, Some h') \<Longrightarrow> option_call h h'"
| call_remote_file_siglevel: "alpm_option_set_remote_file_siglevel gpgme (Some h) v = (r, Some h') \<Longrightarrow> option_call h h'"
| call_add_hookdir: "alpm_option_add_hookdir (Some h) v = Some (r, Some h') \<Longrightarrow> option_call h h'"
| call_set_hookdir: "alpm_option_set_hookdirs (Some h) vs = Some (r, Some h') \<Longrightarrow> option_call h h'"
| call_remove_hookdir: "alpm_option_remove_hookdir (Some h) v = Some (r, Some h') \<Longrightarrow> option_call h h'"
| call_add_cachedir: "alpm_option_add_cachedir (Some h) v = Some (r, Some h') \<Longrightarrow> option_call h h'"
| call_set_cachedir: "alpm_option_set_cachedirs (Some h) vs = Some (r, Some h') \<Longrightarrow> option_call h h'"
| call_remove_cachedir: "alpm_option_remove_cachedir (Some h) v = Some (r, Some h') \<Longrightarrow> option_call h h'"
| call_add_noupgrade: "alpm_option_add_noupgrade (Some h) v = (r, Some h') \<Longrightarrow> option_call h h'"
| call_set_noupgrade: "alpm_option_set_noupgrades (Some h) vs = (r, Some h') \<Longrightarrow> option_call h h'"
| call_remove_noupgrade: "alpm_option_remove_noupgrade (Some h) v = (r, Some h') \<Longrightarrow> option_call h h'"
| call_add_noextract: "alpm_option_add_noextract (Some h) v = (r, Some h') \<Longrightarrow> option_call h h'"
| call_set_noextract: "alpm_option_set_noextracts (Some h) vs = (r, Some h') \<Longrightarrow> option_call h h'"
| call_remove_noextract: "alpm_option_remove_noextract (Some h) v = (r, Some h') \<Longrightarrow> option_call h h'"
| call_add_ignorepkg: "alpm_option_add_ignorepkg (Some h) v = (r, Some h') \<Longrightarrow> option_call h h'"
| call_set_ignorepkg: "alpm_option_set_ignorepkgs (Some h) vs = (r, Some h') \<Longrightarrow> option_call h h'"
| call_remove_ignorepkg: "alpm_option_remove_ignorepkg (Some h) v = (r, Some h') \<Longrightarrow> option_call h h'"
| call_add_ignoregroup: "alpm_option_add_ignoregroup (Some h) v = (r, Some h') \<Longrightarrow> option_call h h'"
| call_set_ignoregroup: "alpm_option_set_ignoregroups (Some h) vs = (r, Some h') \<Longrightarrow> option_call h h'"
| call_remove_ignoregroup: "alpm_option_remove_ignoregroup (Some h) v = (r, Some h') \<Longrightarrow> option_call h h'"
| call_add_overwrite_file: "alpm_option_add_overwrite_file (Some h) v = (r, Some h') \<Longrightarrow> option_call h h'"
| call_set_overwrite_file: "alpm_option_set_overwrite_files (Some h) vs = (r, Some h') \<Longrightarrow> option_call h h'"
| call_remove_overwrite_file: "alpm_option_remove_overwrite_file (Some h) v = (r, Some h') \<Longrightarrow> option_call h h'"
| call_add_assumeinstalled: "alpm_option_add_assumeinstalled (Some h) v = (r, Some h') \<Longrightarrow> option_call h h'"
| call_set_assumeinstalled: "alpm_option_set_assumeinstalled (Some h) vs = (r, Some h') \<Longrightarrow> option_call h h'"
| call_remove_assumeinstalled: "alpm_option_remove_assumeinstalled (Some h) v = (r, Some h') \<Longrightarrow> option_call h h'"
| call_add_architecture: "alpm_option_add_architecture h v = (r, h') \<Longrightarrow> option_call h h'"
| call_set_architectures: "alpm_option_set_architectures (Some h) vs = (r, Some h') \<Longrightarrow> option_call h h'"
| call_remove_architecture: "alpm_option_remove_architecture (Some h) v = (r, Some h') \<Longrightarrow> option_call h h'"

text \<open>
  Directories end in a slash, what is assumed to be installed has no version or exactly one and
  the hash of its name, the default level is a level, and there is a stream for downloads.
\<close>

definition is_directory :: "string \<Rightarrow> bool" where
  "is_directory d \<longleftrightarrow> d \<noteq> [] \<and> last d = CHR ''/''"

definition assumable :: "alpm_depend_t \<Rightarrow> bool" where
  "assumable d \<longleftrightarrow> dmod d \<in> {ALPM_DEP_MOD_EQ, ALPM_DEP_MOD_ANY} \<and> dname_hash d = alpm_hash_sdbm (Some (dname d))"

definition options_ok :: "alpm_handle_t \<Rightarrow> bool" where
  "options_ok h \<longleftrightarrow>
     (\<forall>d\<in>set (hookdirs h). is_directory d) \<and> (\<forall>d\<in>set (cachedirs h). is_directory d) \<and>
     (\<forall>d\<in>set_option (gpgdir h). is_directory d) \<and> (\<forall>d\<in>set (assumeinstalled h). assumable d) \<and>
     hsiglevel h \<noteq> ALPM_SIG_USE_DEFAULT \<and> parallel_downloads h \<ge> 1"

lemma canonical_directory: "canonicalize_path p = Some d \<Longrightarrow> is_directory d"
  by (auto simp: canonicalize_path_def is_directory_def split: if_splits)

lemma set_add [simp]: "set (alpm_list_add l x) = insert x (set l)"
  by (simp add: alpm_list_add_def)

lemma list_remove_subset: "set (fst (alpm_list_remove f l x)) \<subseteq> set l"
  by (induction l) (auto simp: map_prod_def split_beta)

lemma add_hookdir_ok:
  "alpm_option_add_hookdir (Some h) v = Some (r, h') \<Longrightarrow> options_ok h \<Longrightarrow> \<exists>h1. h' = Some h1 \<and> options_ok h1"
  unfolding alpm_option_add_hookdir_def options_ok_def by (auto simp: canonical_directory split: option.splits)

lemma add_hookdirs_ok:
  "add_hookdirs h l = Some (r, h') \<Longrightarrow> h = Some h0 \<Longrightarrow> options_ok h0 \<Longrightarrow> \<exists>h1. h' = Some h1 \<and> options_ok h1"
proof (induction l arbitrary: h h0)
  case (Cons d l)
  then obtain r1 h1 where 1: "alpm_option_add_hookdir h d = Some (r1, h1)" by (cases "alpm_option_add_hookdir h d") auto
  then obtain h2 where "h1 = Some h2" "options_ok h2" using Cons.prems(2,3) add_hookdir_ok by blast
  then show ?case using Cons.IH Cons.prems(1) 1 by (auto split: if_splits)
qed auto

lemma add_cachedir_ok:
  "alpm_option_add_cachedir (Some h) v = Some (r, h') \<Longrightarrow> options_ok h \<Longrightarrow> \<exists>h1. h' = Some h1 \<and> options_ok h1"
  unfolding alpm_option_add_cachedir_def options_ok_def by (auto simp: canonical_directory split: option.splits)

lemma add_cachedirs_ok:
  "add_cachedirs h l = Some (r, h') \<Longrightarrow> h = Some h0 \<Longrightarrow> options_ok h0 \<Longrightarrow> \<exists>h1. h' = Some h1 \<and> options_ok h1"
proof (induction l arbitrary: h h0)
  case (Cons d l)
  then obtain r1 h1 where 1: "alpm_option_add_cachedir h d = Some (r1, h1)" by (cases "alpm_option_add_cachedir h d") auto
  then obtain h2 where "h1 = Some h2" "options_ok h2" using Cons.prems(2,3) add_cachedir_ok by blast
  then show ?case using Cons.IH Cons.prems(1) 1 by (auto split: if_splits)
qed auto

lemma add_assumeinstalled_ok:
  "alpm_option_add_assumeinstalled (Some h) d = (r, h') \<Longrightarrow> options_ok h \<Longrightarrow> \<exists>h1. h' = Some h1 \<and> options_ok h1"
  unfolding alpm_option_add_assumeinstalled_def check_handle_def options_ok_def
  by (auto simp: ret_err_def assumable_def alpm_dep_dup_def Let_def split: if_splits)

lemma add_assumed_ok:
  "add_assumeinstalled h l = (r, h') \<Longrightarrow> h = Some h0 \<Longrightarrow> options_ok h0 \<Longrightarrow> \<exists>h1. h' = Some h1 \<and> options_ok h1"
proof (induction l arbitrary: h h0)
  case (Cons d l)
  obtain r1 h1 where 1: "alpm_option_add_assumeinstalled h d = (r1, h1)" by fastforce
  then obtain h2 where "h1 = Some h2" "options_ok h2" using Cons.prems(2,3) add_assumeinstalled_ok by blast
  then show ?case using Cons.IH Cons.prems(1) 1 by (auto split: if_splits)
qed auto

lemmas plain_option_defs =
  alpm_option_set_logcb_def alpm_option_set_dlcb_def alpm_option_set_fetchcb_def alpm_option_set_eventcb_def
  alpm_option_set_questioncb_def alpm_option_set_progresscb_def alpm_option_set_usesyslog_def
  alpm_option_set_checkspace_def alpm_option_set_disable_dl_timeout_def alpm_option_set_parallel_downloads_def
  alpm_option_set_dbext_def alpm_option_set_logfile_def alpm_option_set_default_siglevel_def
  alpm_option_set_local_file_siglevel_def alpm_option_set_remote_file_siglevel_def
  alpm_option_set_architectures_def alpm_option_add_architecture_def alpm_option_remove_architecture_def

lemmas string_option_defs =
  alpm_option_add_noupgrade_def alpm_option_set_noupgrades_def alpm_option_remove_noupgrade_def
  alpm_option_add_noextract_def alpm_option_set_noextracts_def alpm_option_remove_noextract_def
  alpm_option_add_ignorepkg_def alpm_option_set_ignorepkgs_def alpm_option_remove_ignorepkg_def
  alpm_option_add_ignoregroup_def alpm_option_set_ignoregroups_def alpm_option_remove_ignoregroup_def
  alpm_option_add_overwrite_file_def alpm_option_set_overwrite_files_def alpm_option_remove_overwrite_file_def

lemma option_call_ok: "option_call h h' \<Longrightarrow> options_ok h \<Longrightarrow> options_ok h'"
proof (induction rule: option_call.induct)
  case (call_gpgdir h v r h')
  then show ?case
    unfolding alpm_option_set_gpgdir_def alpm_set_directory_option_def options_ok_def
    by (auto simp: canonical_directory split: option.splits)
next
  case (call_add_hookdir h v r h')
  then show ?case using add_hookdir_ok by blast
next
  case (call_set_hookdir h vs r h')
  then have set: "add_hookdirs (Some (h\<lparr>pm_errno := ALPM_ERR_OK, hookdirs := []\<rparr>)) vs = Some (r, Some h')"
    by (simp add: alpm_option_set_hookdirs_def)
  have "options_ok (h\<lparr>pm_errno := ALPM_ERR_OK, hookdirs := []\<rparr>)" using call_set_hookdir.prems by (simp add: options_ok_def)
  then show ?case using add_hookdirs_ok [OF set refl] by simp
next
  case (call_remove_hookdir h v r h')
  then show ?case
    using list_remove_subset unfolding alpm_option_remove_hookdir_def options_ok_def
    by (auto simp: remove_str_remove1 dest: notin_set_remove1 split: option.splits)
next
  case (call_add_cachedir h v r h')
  then show ?case using add_cachedir_ok by blast
next
  case (call_set_cachedir h vs r h')
  then have set: "add_cachedirs (Some (h\<lparr>pm_errno := ALPM_ERR_OK, cachedirs := []\<rparr>)) vs = Some (r, Some h')"
    by (simp add: alpm_option_set_cachedirs_def)
  have "options_ok (h\<lparr>pm_errno := ALPM_ERR_OK, cachedirs := []\<rparr>)" using call_set_cachedir.prems by (simp add: options_ok_def)
  then show ?case using add_cachedirs_ok [OF set refl] by simp
next
  case (call_remove_cachedir h v r h')
  then show ?case
    unfolding alpm_option_remove_cachedir_def options_ok_def
    by (auto simp: remove_str_remove1 dest: notin_set_remove1 split: option.splits)
next
  case (call_add_assumeinstalled h v r h')
  then show ?case using add_assumeinstalled_ok by blast
next
  case (call_set_assumeinstalled h vs r h')
  then have set: "add_assumeinstalled (Some (h\<lparr>pm_errno := ALPM_ERR_OK, assumeinstalled := []\<rparr>)) vs = (r, Some h')"
    by (simp add: alpm_option_set_assumeinstalled_def)
  have "options_ok (h\<lparr>pm_errno := ALPM_ERR_OK, assumeinstalled := []\<rparr>)"
    using call_set_assumeinstalled.prems by (simp add: options_ok_def)
  then show ?case using add_assumed_ok [OF set refl] by simp
next
  case (call_remove_assumeinstalled h v r h')
  then show ?case
    using list_remove_subset [of assumeinstalled_cmp "assumeinstalled h" v]
    unfolding alpm_option_remove_assumeinstalled_def check_handle_def options_ok_def by (auto simp: split_beta Let_def)
qed (auto simp: plain_option_defs string_option_defs set_field_def strlist_defs ret_err_def options_ok_def
      split: if_splits option.splits)

text \<open>The paths and the lock are no options.\<close>

definition paths_of :: "alpm_handle_t \<Rightarrow> string \<times> string \<times> string option \<times> int" where
  "paths_of h = (root h, dbpath h, lockfile h, lockfd h)"

lemma add_dirs_paths:
  "add_hookdirs h l = Some (r, h') \<Longrightarrow> map_option paths_of h' = map_option paths_of h"
  "add_cachedirs h l = Some (r, h') \<Longrightarrow> map_option paths_of h' = map_option paths_of h"
proof (induction l arbitrary: h)
  case (Cons d l)
  {
    case 1
    then obtain r1 h1 where h1: "alpm_option_add_hookdir h d = Some (r1, h1)" by (cases "alpm_option_add_hookdir h d") auto
    then have "map_option paths_of h1 = map_option paths_of h"
      by (auto simp: alpm_option_add_hookdir_def paths_of_def split: option.splits)
    then show ?case using 1 h1 Cons.IH(1) [of h1] by (auto split: if_splits)
  next
    case 2
    then obtain r1 h1 where h1: "alpm_option_add_cachedir h d = Some (r1, h1)" by (cases "alpm_option_add_cachedir h d") auto
    then have "map_option paths_of h1 = map_option paths_of h"
      by (auto simp: alpm_option_add_cachedir_def paths_of_def split: option.splits)
    then show ?case using 2 h1 Cons.IH(2) [of h1] by (auto split: if_splits)
  }
qed simp_all

lemma add_assumed_paths:
  "add_assumeinstalled h l = (r, h') \<Longrightarrow> map_option paths_of h' = map_option paths_of h"
proof (induction l arbitrary: h)
  case (Cons d l)
  obtain r1 h1 where h1: "alpm_option_add_assumeinstalled h d = (r1, h1)" by fastforce
  then have "map_option paths_of h1 = map_option paths_of h"
    by (auto simp: alpm_option_add_assumeinstalled_def check_handle_def ret_err_def paths_of_def Let_def split: option.splits if_splits)
  then show ?case using Cons.prems h1 Cons.IH [of h1] by (auto split: if_splits)
qed simp

lemma option_call_paths: "option_call h h' \<Longrightarrow> paths_of h' = paths_of h"
proof (induction rule: option_call.induct)
  case (call_set_hookdir h vs r h')
  then have "add_hookdirs (Some (h\<lparr>pm_errno := ALPM_ERR_OK, hookdirs := []\<rparr>)) vs = Some (r, Some h')"
    by (simp add: alpm_option_set_hookdirs_def)
  from add_dirs_paths(1) [OF this] show ?case by (simp add: paths_of_def)
next
  case (call_set_cachedir h vs r h')
  then have "add_cachedirs (Some (h\<lparr>pm_errno := ALPM_ERR_OK, cachedirs := []\<rparr>)) vs = Some (r, Some h')"
    by (simp add: alpm_option_set_cachedirs_def)
  from add_dirs_paths(2) [OF this] show ?case by (simp add: paths_of_def)
next
  case (call_set_assumeinstalled h vs r h')
  then have "add_assumeinstalled (Some (h\<lparr>pm_errno := ALPM_ERR_OK, assumeinstalled := []\<rparr>)) vs = (r, Some h')"
    by (simp add: alpm_option_set_assumeinstalled_def)
  from add_assumed_paths [OF this] show ?case by (simp add: paths_of_def)
next
  case (call_add_assumeinstalled h v r h')
  then show ?case
    by (auto simp: alpm_option_add_assumeinstalled_def check_handle_def ret_err_def paths_of_def Let_def split: if_splits)
qed (auto simp: plain_option_defs string_option_defs set_field_def strlist_defs ret_err_def paths_of_def
      alpm_option_add_hookdir_def alpm_option_remove_hookdir_def alpm_option_add_cachedir_def
      alpm_option_remove_cachedir_def alpm_option_set_gpgdir_def alpm_option_remove_assumeinstalled_def split_beta
      split: if_splits option.splits)

lemma register_local_handle:
  assumes "\<forall>d v. \<exists>e. handle (snd (validate d v)) = (handle v)\<lparr>pm_errno := e\<rparr>"
    and "alpm_db_register_local validate w = (x, w1)" "x \<noteq> None"
  shows "\<exists>e. handle w1 = (handle w)\<lparr>pm_errno := e, db_local := x\<rparr>"
proof -
  define v where "v = w\<lparr>wdbs := (wdbs w)(next_ref w := (alpm_db_new ''local'' True)\<lparr>usage := ALPM_DB_USAGE_ALL\<rparr>),
    next_ref := next_ref w + 1\<rparr>"
  obtain r2 w2 where run: "validate (next_ref w) v = (r2, w2)" by fastforce
  obtain e where "handle (snd (validate (next_ref w) v)) = (handle v)\<lparr>pm_errno := e\<rparr>" using assms(1) by blast
  moreover have "handle v = handle w" by (simp add: v_def)
  ultimately have "handle w2 = (handle w)\<lparr>pm_errno := e\<rparr>" using run by simp
  moreover have "x = Some (next_ref w)" "w1 = w2\<lparr>handle := (handle w2)\<lparr>db_local := x\<rparr>\<rparr>"
    using assms(2,3) by (auto simp: alpm_db_register_local_def Let_def run [unfolded v_def, simplified] split: if_splits)
  ultimately show ?thesis by auto
qed

text \<open>C14: 
  C0: A handle made by \<open>alpm_initialize\<close>, after any number of calls that set, add to or remove
  from its options, has hook, cache and key directories that end in a slash, only versionless or
  exactly versioned packages that are assumed to be installed, each with the hash of its name, a default signature level that
  is one, and at least one download stream; its paths are those of the initialisation, and no
  such call takes or drops the lock.
\<close>

theorem options_stay_ok:
  assumes "alpm_initialize is_dir realpath syshookdir validate w0 root_arg dbpath_arg = Some (Inr w)"
    and "last syshookdir = CHR ''/''" "\<forall>d v. \<exists>e. handle (snd (validate d v)) = (handle v)\<lparr>pm_errno := e\<rparr>"
    and "option_call\<^sup>*\<^sup>* (handle w) h"
  shows "options_ok h \<and> is_directory (root h) \<and> is_directory (dbpath h) \<and>
    lockfile h = Some (dbpath h @ ''db.lck'') \<and> lockfd h = -1"
proof -
  obtain r d where r: "alpm_set_directory_option is_dir realpath root_arg None True = Some (ALPM_ERR_OK, Some r)" "is_directory r"
    and d: "alpm_set_directory_option is_dir realpath dbpath_arg None True = Some (ALPM_ERR_OK, Some d)" "is_directory d"
    using assms(1) unfolding alpm_initialize_def
    by (auto simp: alpm_set_directory_option_def canonical_directory split: option.splits if_splits)
  have hook: "is_directory (r @ drop 1 syshookdir)"
    using r(2) assms(2) by (cases syshookdir) (auto simp: is_directory_def split: if_splits)
  let ?h0 = "alpm_handle_new\<lparr>root := r, dbpath := d, hookdirs := [r @ drop 1 syshookdir], dbext := ''.db'',
    lockfile := Some (d @ ''db.lck'')\<rparr>"
  obtain x w1 where reg: "alpm_db_register_local validate (w0\<lparr>handle := ?h0\<rparr>) = (x, w1)" by fastforce
  have w: "w = w1\<lparr>handle := (handle w1)\<lparr>parallel_downloads := 1\<rparr>\<rparr>" "x \<noteq> None"
    using assms(1) r(1) d(1) reg by (auto simp: alpm_initialize_def alpm_list_add_def Let_def split: if_splits)
  then obtain e where h: "handle w = ?h0\<lparr>pm_errno := e, db_local := x, parallel_downloads := 1\<rparr>"
    using register_local_handle [OF assms(3) reg] by auto
  have "options_ok (handle w)"
    unfolding h by (simp add: options_ok_def alpm_handle_new_def hook [simplified])
  moreover have "paths_of (handle w) = (r, d, Some (d @ ''db.lck''), -1)"
    unfolding h by (simp add: paths_of_def alpm_handle_new_def)
  moreover have "options_ok h \<and> paths_of h = paths_of (handle w)" if "options_ok (handle w)"
    using assms(4) that by (induction rule: rtranclp_induct) (auto simp: option_call_ok option_call_paths)
  ultimately show ?thesis using r(2) d(2) by (simp add: paths_of_def)
qed

text \<open>A handle on a system whose root is the directory of that name.\<close>

theorem options_stay_ok_witness:
  "\<exists>w0 w h. alpm_initialize (\<lambda>_. True) Some ''/usr/share/libalpm/hooks/'' (\<lambda>_ w. (0, w)) w0 (Some ''/'') (Some ''/var/lib/pacman'') =
       Some (Inr w) \<and>
     alpm_option_add_cachedir (Some (handle w)) (Some ''/var/cache'') = Some (0, Some h) \<and>
     cachedirs h = [''/var/cache/''] \<and> options_ok h \<and> lockfile h = Some ''/var/lib/pacman/db.lck''"
proof -
  fix w0
  obtain w where init: "alpm_initialize (\<lambda>_. True) Some ''/usr/share/libalpm/hooks/'' (\<lambda>_ w. (0, w)) w0 (Some ''/'')
      (Some ''/var/lib/pacman'') = Some (Inr w)" and dirs: "cachedirs (handle w) = []" "dbpath (handle w) = ''/var/lib/pacman/''"
    by (simp add: alpm_initialize_def alpm_set_directory_option_def canonicalize_path_def
        alpm_db_register_local_def alpm_handle_new_def Let_def)
  define h where "h = (handle w)\<lparr>pm_errno := ALPM_ERR_OK, cachedirs := [''/var/cache/'']\<rparr>"
  have add: "alpm_option_add_cachedir (Some (handle w)) (Some ''/var/cache'') = Some (0, Some h)"
    by (simp add: alpm_option_add_cachedir_def canonicalize_path_def alpm_list_add_def dirs h_def)
  then have call: "option_call\<^sup>*\<^sup>* (handle w) h" using call_add_cachedir by blast
  have "h0 = h0\<lparr>pm_errno := pm_errno h0\<rparr>" for h0 by (cases h0) simp
  then have keep: "\<forall>d v. \<exists>e. handle (snd ((\<lambda>_ w. (0, w)) d v)) = (handle v)\<lparr>pm_errno := e\<rparr>" unfolding snd_conv by blast
  have "options_ok h \<and> lockfile h = Some (dbpath h @ ''db.lck'')"
    using options_stay_ok [OF init _ keep call] by simp
  then have "options_ok h" "lockfile h = Some ''/var/lib/pacman/db.lck''" "cachedirs h = [''/var/cache/'']"
    using dirs by (simp_all add: h_def)
  then show ?thesis using init add by blast
qed

end
