(* ===== verification/AlpmIo.thy ===== *)
theory AlpmIo
  imports AlpmUtil
begin

text \<open>
  Reading and writing text: a stream with the buffer lines are read into, C's \<open>fgets\<close> on it, and
  the decimal output of \<open>printf\<close>.
\<close>

section \<open>Streams\<close>

text \<open>The line buffer keeps what it holds when a read finds the end of the file.\<close>

record reader =
  rbuf :: string
  rrest :: string
  reof :: bool

text \<open>A read into a buffer of so many bytes: whether it returned a line, and the stream afterwards.\<close>

type_synonym read_op = "nat \<Rightarrow> reader \<Rightarrow> bool \<times> reader"

definition newline :: char where
  "newline = CHR 0x0A"

fun take_line :: "nat \<Rightarrow> string \<Rightarrow> string" where
  "take_line 0 s = []"
| "take_line (Suc n) [] = []"
| "take_line (Suc n) (c # s) = (if c = newline then [c] else c # take_line n s)"

definition fgets :: read_op where
  "fgets n r =
     (if rrest r = [] then (False, r\<lparr>reof := True\<rparr>)
      else
        let line = take_line (n - 1) (rrest r); rest = drop (length line) (rrest r)
        in (True, \<lparr>rbuf = line, rrest = rest, reof = (rest = [] \<and> newline \<notin> set line \<and> length line < n - 1)\<rparr>))"

definition open_reader :: "string \<Rightarrow> reader" where
  "open_reader content = \<lparr>rbuf = [], rrest = content, reof = False\<rparr>"

text \<open>A line of text: what it may hold to be read back in one piece.\<close>

definition is_line :: "string \<Rightarrow> bool" where
  "is_line s \<longleftrightarrow> newline \<notin> set s \<and> length s < 1023"

lemma take_line_line: "newline \<notin> set s \<Longrightarrow> length s < n \<Longrightarrow> take_line n (s @ newline # t) = s @ [newline]"
  by (induction s arbitrary: n) (auto simp: gr0_conv_Suc less_Suc_eq_0_disj, (metis Suc_lessE take_line.simps(3))+)

lemma fgets_line:
  assumes "is_line s" "rrest r = s @ newline # t"
  shows "fgets 1024 r = (True, \<lparr>rbuf = s @ [newline], rrest = t, reof = False\<rparr>)"
proof -
  have "take_line 1023 (s @ newline # t) = s @ [newline]"
    using assms(1) by (intro take_line_line) (simp_all add: is_line_def)
  then show ?thesis using assms(2) by (simp add: fgets_def)
qed

lemma fgets_end: "rrest r = [] \<Longrightarrow> fgets n r = (False, r\<lparr>reof := True\<rparr>)"
  by (simp add: fgets_def)

section \<open>Stripping the end of a line\<close>

definition strip_line :: "reader \<Rightarrow> reader \<times> nat" where
  "strip_line r = (let (s, len) = alpm_strip_newline (rbuf r) 0 in (r\<lparr>rbuf := s\<rparr>, len))"

lemma strip_newline_line:
  assumes "newline \<notin> set s"
  shows "alpm_strip_newline (s @ [newline]) 0 = (s, length s)"
proof -
  have "strip_len s (length s) = length s"
    using assms by (cases s rule: rev_cases) (auto simp: newline_def)
  moreover have "strip_len (s @ [newline]) (length (s @ [newline])) = strip_len s (length s)"
    by (simp add: newline_def strip_len_append)
  ultimately show ?thesis by (simp add: alpm_strip_newline_def Let_def)
qed

lemma strip_line_line: "newline \<notin> set s \<Longrightarrow> rbuf r = s @ [newline] \<Longrightarrow> strip_line r = (r\<lparr>rbuf := s\<rparr>, length s)"
  by (simp add: strip_line_def strip_newline_line)

lemma strip_line_empty: "rbuf r = [] \<Longrightarrow> strip_line r = (r, 0)"
  by (simp add: strip_line_def alpm_strip_newline_def)

section \<open>Printing numbers\<close>

definition digit_char :: "nat \<Rightarrow> char" where
  "digit_char d = char_of (48 + d)"

function dec_nat :: "nat \<Rightarrow> string" where
  "dec_nat n = (if n < 10 then [digit_char n] else dec_nat (n div 10) @ [digit_char (n mod 10)])"
  by auto
termination by (relation "measure id") auto

declare dec_nat.simps [simp del]

definition dec_int :: "int \<Rightarrow> string" where
  "dec_int n = (if n < 0 then CHR ''-'' # dec_nat (nat (- n)) else dec_nat (nat n))"

lemma digit_char_digit: "d < 10 \<Longrightarrow> isdigit (digit_char d)" "d < 10 \<Longrightarrow> of_char (digit_char d) - 48 = d"
  by (auto simp: digit_char_def isdigit_def less_eq_char_def of_char_of take_bit_eq_mod)

lemma decimal_append: "decimal (s @ t) = decimal s * 10 ^ length t + decimal t"
  by (induction s) (simp_all add: algebra_simps power_add)

lemma dec_nat_digits: "list_all isdigit (dec_nat n) \<and> dec_nat n \<noteq> [] \<and> decimal (dec_nat n) = n"
proof (induction n rule: dec_nat.induct)
  case (1 n)
  show ?case
  proof (cases "n < 10")
    case True
    then show ?thesis by (simp add: dec_nat.simps [of n] digit_char_digit)
  next
    case False
    have "decimal (dec_nat (n div 10) @ [digit_char (n mod 10)]) = n div 10 * 10 + n mod 10"
      using 1 False by (simp add: decimal_append digit_char_digit)
    then show ?thesis using 1 False by (simp add: dec_nat.simps [of n] digit_char_digit)
  qed
qed

lemma takeWhile_digits [simp]: "takeWhile isdigit (dec_nat n) = dec_nat n" "dropWhile isdigit (dec_nat n) = []"
  using dec_nat_digits [of n] by (simp_all add: list_all_iff)

lemma dec_nat_hd: "isdigit (hd (dec_nat n))"
  using dec_nat_digits [of n] by (cases "dec_nat n") auto

lemma isdigit_facts: "isdigit c \<Longrightarrow> \<not> isspace c" "isdigit c \<Longrightarrow> c \<noteq> CHR ''-''" "isdigit c \<Longrightarrow> c \<noteq> CHR ''+''"
  "isdigit c \<Longrightarrow> c \<noteq> newline"
  by (auto simp: isdigit_def isspace_def newline_def less_eq_char_def)

lemma dec_nat_Cons: "\<exists>c cs. dec_nat m = c # cs \<and> isdigit c"
  using dec_nat_hd [of m] dec_nat_digits [of m] by (cases "dec_nat m") auto

lemma dec_nat_value [simp]: "decimal (dec_nat n) = n" "dec_nat n \<noteq> []"
  using dec_nat_digits [of n] by simp_all

lemma strtoll_dec:
  assumes "- (2 ^ 63) \<le> n" "n < 2 ^ 63"
  shows "strtoll (dec_int n) = (n, False, [])"
proof (cases "n < 0")
  case True
  have "\<not> isspace CHR ''-''" by (simp add: isspace_def less_eq_char_def)
  then have "dropWhile isspace (dec_int n) = CHR ''-'' # dec_nat (nat (- n))" using True by (simp add: dec_int_def)
  then show ?thesis using True assms by (simp add: strtoll_def)
next
  case False
  obtain c cs where c: "dec_nat (nat n) = c # cs" "isdigit c" using dec_nat_Cons by blast
  have "dropWhile isspace (dec_nat (nat n)) = dec_nat (nat n)" using c isdigit_facts(1) by simp
  moreover have "hd (dec_nat (nat n)) \<noteq> CHR ''-''" "hd (dec_nat (nat n)) \<noteq> CHR ''+''" using c isdigit_facts by auto
  ultimately show ?thesis using False assms by (simp add: strtoll_def dec_int_def)
qed

lemma parsedate_dec: "- (2 ^ 63) \<le> n \<Longrightarrow> n < 2 ^ 63 \<Longrightarrow> alpm_parsedate (dec_int n) = n"
  by (simp add: alpm_parsedate_def strtoll_dec)

lemma strtoofft_dec:
  assumes "0 \<le> n" "n < 2 ^ 63"
  shows "alpm_strtoofft (dec_int n) = n"
proof -
  have "to_off_t n = n" using assms to_off_t_value [of n] by simp
  moreover have "\<not> 18446744073709551615 < nat n" using assms by simp
  ultimately show ?thesis using assms dec_nat_hd [of "nat n"] by (simp add: alpm_strtoofft_def dec_int_def Let_def)
qed

lemma dec_nat_length: "n < 10 ^ k \<Longrightarrow> 0 < k \<Longrightarrow> length (dec_nat n) \<le> k"
proof (induction n arbitrary: k rule: dec_nat.induct)
  case (1 n)
  show ?case
  proof (cases "n < 10")
    case True
    then show ?thesis using 1(3) by (simp add: dec_nat.simps [of n])
  next
    case False
    then obtain j where j: "k = Suc j" "0 < j" using 1(2,3) by (cases k; cases "k - 1") auto
    then have "n div 10 < 10 ^ j" using 1(2) by (simp add: less_mult_imp_div_less)
    then show ?thesis using 1(1) [OF False _ j(2)] False j(1) by (simp add: dec_nat.simps [of n])
  qed
qed

lemma dec_int_line:
  assumes "- (2 ^ 63) \<le> n" "n < 2 ^ 63"
  shows "is_line (dec_int n)" "dec_int n \<noteq> []"
proof -
  have digits: "newline \<notin> set (dec_nat m)" for m
    using dec_nat_digits [of m] isdigit_facts(4) by (auto simp: list_all_iff)
  have "nat \<bar>n\<bar> < 10 ^ 20" using assms by simp
  then have "length (dec_nat (nat \<bar>n\<bar>)) \<le> 20" by (intro dec_nat_length) simp_all
  then show "is_line (dec_int n)" "dec_int n \<noteq> []" using digits by (auto simp: is_line_def dec_int_def newline_def split: if_splits)
qed

end
