(* ===== verification/AlpmTrans.thy ===== *)
theory AlpmTrans
  imports AlpmSync AlpmDepSort AlpmHandle
begin

text \<open>
  Transactions: the lock of \<open>lib/libalpm/handle.c\<close>, and \<open>lib/libalpm/trans.c\<close> up to the
  preparation of a transaction. The disk is the set of the lock files there are; other processes
  see the same disk. What the operating system answers is in a record.
\<close>

section \<open>The lock\<close>

datatype open_answer = Fd nat | Interrupted | Refused

record os_env =
  os_makepath :: "string \<Rightarrow> bool"
  os_open :: "nat \<Rightarrow> open_answer"
  os_unlink :: bool

text \<open>The directory part, which the code makes by cutting the string at its last slash.\<close>

definition lock_dir :: "string \<Rightarrow> string" where
  "lock_dir path =
     (if CHR ''/'' \<in> set path then rev (drop 1 (dropWhile (\<lambda>c. c \<noteq> CHR ''/'') (rev path))) else path)"

text \<open>
  \<open>open\<close> with \<open>O_CREAT | O_EXCL\<close> is tried again while it is interrupted. It is refused when the file
  is there; the result is the descriptor.
\<close>

partial_function (option) lock_loop :: "os_env \<Rightarrow> bool \<Rightarrow> nat \<Rightarrow> int option" where
  "lock_loop os exists n =
     (case os_open os n of
        Interrupted \<Rightarrow> lock_loop os exists (n + 1)
      | Refused \<Rightarrow> Some (-1)
      | Fd fd \<Rightarrow> Some (if exists then -1 else int fd))"

definition alpm_handle_lock ::
  "os_env \<Rightarrow> alpm_handle_t \<Rightarrow> string set \<Rightarrow> (int \<times> alpm_handle_t \<times> string set) option" where
  "alpm_handle_lock os h disk =
     (case lockfile h of
        None \<Rightarrow> Some (-1, h, disk)
      | Some path \<Rightarrow>
          if lockfd h \<ge> 0 then Some (0, h, disk)
          else if \<not> os_makepath os (lock_dir path) then Some (-1, h, disk)
          else
            map_option (\<lambda>fd. (if fd \<ge> 0 then 0 else -1, h\<lparr>lockfd := fd\<rparr>, if fd \<ge> 0 then insert path disk else disk))
              (lock_loop os (path \<in> disk) 0))"

text \<open>The result, and whether \<open>errno\<close> is \<open>ENOENT\<close> when it is not 0.\<close>

definition alpm_unlock :: "os_env \<Rightarrow> alpm_handle_t \<Rightarrow> string set \<Rightarrow> (int \<times> bool) \<times> alpm_handle_t \<times> string set" where
  "alpm_unlock os h disk =
     (case lockfile h of
        None \<Rightarrow> ((0, False), h, disk)
      | Some path \<Rightarrow>
          if lockfd h < 0 then ((0, False), h, disk)
          else
            let h = h\<lparr>lockfd := -1\<rparr>
            in if path \<in> disk \<and> os_unlink os then ((0, False), h, disk - {path})
               else ((-1, path \<notin> disk), h\<lparr>pm_errno := ALPM_ERR_SYSTEM\<rparr>, disk))"

definition alpm_handle_unlock :: "os_env \<Rightarrow> alpm_handle_t \<Rightarrow> string set \<Rightarrow> int \<times> alpm_handle_t \<times> string set" where
  "alpm_handle_unlock os h disk =
     (let ((r, enoent), h, disk) = alpm_unlock os h disk
      in (if r \<noteq> 0 \<and> \<not> enoent then -1 else 0, h, disk))"

section \<open>Beginning and ending\<close>

definition alpm_trans_new :: "u32 \<Rightarrow> alpm_trans_t" where
  "alpm_trans_new flags =
     \<lparr>tflags = flags, tstate = STATE_INITIALIZED, unresolvable = [], tadd = [], tremove = [], skip_remove = []\<rparr>"

definition alpm_trans_init ::
  "os_env \<Rightarrow> u32 \<Rightarrow> alpm_world \<Rightarrow> string set \<Rightarrow> (int \<times> alpm_world \<times> string set) option" where
  "alpm_trans_init os flags w disk =
     (let w = set_errno ALPM_ERR_OK w
      in if trans (handle w) \<noteq> None then Some (-1, set_errno ALPM_ERR_TRANS_NOT_NULL w, disk)
         else
           (case (if flags AND ALPM_TRANS_FLAG_NOLOCK = 0 then alpm_handle_lock os (handle w) disk
                  else Some (0, handle w, disk)) of
              None \<Rightarrow> None
            | Some (r, h, disk) \<Rightarrow>
                if r \<noteq> 0 then Some (-1, set_errno ALPM_ERR_HANDLE_LOCK (w\<lparr>handle := h\<rparr>), disk)
                else Some (0, w\<lparr>handle := h\<lparr>trans := Some (alpm_trans_new flags)\<rparr>\<rparr>, disk)))"

text \<open>
  \<open>_alpm_trans_free\<close>: targets from a database forget what the transaction knew of them; the
  memory of the others is free again, which the store does not show.
\<close>

fun free_targets :: "pkgref list \<Rightarrow> alpm_world \<Rightarrow> alpm_world" where
  "free_targets [] w = w"
| "free_targets (p # l) w =
     free_targets l (case alpm_pkg_free_trans (wpkgs w p) of None \<Rightarrow> w | Some pkg \<Rightarrow> upd_pkg p (\<lambda>_. pkg) w)"

definition alpm_trans_free :: "alpm_trans_t \<Rightarrow> alpm_world \<Rightarrow> alpm_world" where
  "alpm_trans_free t w = free_targets (tadd t) (free_targets (unresolvable t) w)"

definition alpm_trans_release :: "os_env \<Rightarrow> alpm_world \<Rightarrow> string set \<Rightarrow> int \<times> alpm_world \<times> string set" where
  "alpm_trans_release os w disk =
     (let w = set_errno ALPM_ERR_OK w
      in case trans (handle w) of
           None \<Rightarrow> (-1, set_errno ALPM_ERR_TRANS_NULL w, disk)
         | Some t \<Rightarrow>
             if tstate t = STATE_IDLE then (-1, set_errno ALPM_ERR_TRANS_NULL w, disk)
             else
               (let w = alpm_trans_free t w;
                    w = w\<lparr>handle := (handle w)\<lparr>trans := None\<rparr>\<rparr>
                in if tflags t AND ALPM_TRANS_FLAG_NOLOCK = 0
                   then (let (_, h, disk) = alpm_handle_unlock os (handle w) disk in (0, w\<lparr>handle := h\<rparr>, disk))
                   else (0, w, disk)))"

definition alpm_trans_interrupt :: "alpm_world \<Rightarrow> int \<times> alpm_world" where
  "alpm_trans_interrupt w =
     (let w = set_errno ALPM_ERR_OK w
      in case trans (handle w) of
           None \<Rightarrow> (-1, set_errno ALPM_ERR_TRANS_NULL w)
         | Some t \<Rightarrow>
             if tstate t = STATE_COMMITING \<or> tstate t = STATE_INTERRUPTED
             then (0, upd_trans (\<lambda>t. t\<lparr>tstate := STATE_INTERRUPTED\<rparr>) w)
             else (-1, set_errno ALPM_ERR_TRANS_TYPE w))"

definition trans_field :: "'r \<Rightarrow> (alpm_trans_t \<Rightarrow> 'r) \<Rightarrow> alpm_world \<Rightarrow> 'r \<times> alpm_world" where
  "trans_field fail f w =
     (let w = set_errno ALPM_ERR_OK w
      in case trans (handle w) of None \<Rightarrow> (fail, set_errno ALPM_ERR_TRANS_NULL w) | Some t \<Rightarrow> (f t, w))"

definition alpm_trans_get_flags :: "alpm_world \<Rightarrow> u32 \<times> alpm_world" where
  "alpm_trans_get_flags = trans_field (-1) tflags"

definition alpm_trans_get_add :: "alpm_world \<Rightarrow> pkgref list \<times> alpm_world" where
  "alpm_trans_get_add = trans_field [] tadd"

definition alpm_trans_get_remove :: "alpm_world \<Rightarrow> pkgref list \<times> alpm_world" where
  "alpm_trans_get_remove = trans_field [] tremove"

section \<open>Targets\<close>

text \<open>Of the package's own handle the model has nothing: there is one.\<close>

definition alpm_add_pkg :: "alpm_world \<Rightarrow> pkgref option \<Rightarrow> int \<times> alpm_world" where
  "alpm_add_pkg w pkg_arg =
     (let w = set_errno ALPM_ERR_OK w
      in case pkg_arg of
           None \<Rightarrow> (-1, set_errno ALPM_ERR_WRONG_ARGS w)
         | Some pkg \<Rightarrow>
             if origin (wpkgs w pkg) = ALPM_PKG_FROM_LOCALDB then (-1, set_errno ALPM_ERR_WRONG_ARGS w)
             else
               (case trans (handle w) of
                  None \<Rightarrow> (-1, set_errno ALPM_ERR_TRANS_NULL w)
                | Some t \<Rightarrow>
                    if tstate t \<noteq> STATE_INITIALIZED then (-1, set_errno ALPM_ERR_TRANS_NOT_INITIALIZED w)
                    else
                      (case alpm_pkg_find (wpkgs w) (tadd t) (Some (pname (wpkgs w pkg))) of
                         Some dup \<Rightarrow> if dup = pkg then (0, w) else (-1, set_errno ALPM_ERR_TRANS_DUP_TARGET w)
                       | None \<Rightarrow>
                           let uptodate =
                                 (case cached_pkg w (localdb w) (pname (wpkgs w pkg)) of
                                    None \<Rightarrow> False
                                  | Some local \<Rightarrow> alpm_pkg_compare_versions (wpkgs w pkg) (wpkgs w local) = 0)
                           in if uptodate \<and> has_flag t ALPM_TRANS_FLAG_NEEDED then (0, w)
                              else
                                (0, upd_trans (\<lambda>t. t\<lparr>tadd := alpm_list_add (tadd t) pkg\<rparr>)
                                      (upd_pkg pkg (\<lambda>p. p\<lparr>preason := ALPM_PKG_REASON_EXPLICIT\<rparr>) w)))))"

section \<open>Preparing\<close>

text \<open>The packages of another architecture; \<open>None\<close> if one has no version, whose length the code takes.\<close>

fun invalid_archs :: "string list \<Rightarrow> pkgs \<Rightarrow> pkgref list \<Rightarrow> string list option" where
  "invalid_archs archs ps [] = Some []"
| "invalid_archs archs ps (p # i) =
     (case arch (ps p) of
        None \<Rightarrow> invalid_archs archs ps i
      | Some a \<Rightarrow>
          if a = ''any'' \<or> a \<in> set archs then invalid_archs archs ps i
          else
            (case version (ps p) of
               None \<Rightarrow> None
             | Some v \<Rightarrow> map_option (Cons (pname (ps p) @ ''-'' @ v @ ''-'' @ a)) (invalid_archs archs ps i)))"

definition check_arch :: "alpm_world \<Rightarrow> pkgref list \<Rightarrow> string list option" where
  "check_arch w pkgs =
     (if architectures (handle w) = [] then Some [] else invalid_archs (architectures (handle w)) (wpkgs w) pkgs)"

definition sort_targets :: "alpm_world \<Rightarrow> alpm_world option" where
  "sort_targets w =
     (let t = transaction w
      in case (if tadd t = [] then Some w
               else map_option (\<lambda>(new, _). upd_trans (\<lambda>t. t\<lparr>tadd := new\<rparr>) w) (alpm_sortbydeps w (tadd t) (tremove t) False)) of
           None \<Rightarrow> None
         | Some w \<Rightarrow>
             if tremove t = [] then Some w
             else map_option (\<lambda>(new, _). upd_trans (\<lambda>t. t\<lparr>tremove := new\<rparr>) w) (alpm_sortbydeps w (tremove t) [] True))"

datatype trans_data = Invalid_arch string | Target sync_data

definition alpm_trans_prepare :: "sync_env \<Rightarrow> alpm_world \<Rightarrow> bool \<Rightarrow> (int \<times> trans_data list \<times> alpm_world) option" where
  "alpm_trans_prepare env w data_ptr =
     (let w = set_errno ALPM_ERR_OK w
      in if \<not> data_ptr then Some (-1, [], set_errno ALPM_ERR_WRONG_ARGS w)
         else
           (case trans (handle w) of
              None \<Rightarrow> Some (-1, [], set_errno ALPM_ERR_TRANS_NULL w)
            | Some t \<Rightarrow>
                if tstate t \<noteq> STATE_INITIALIZED then Some (-1, [], set_errno ALPM_ERR_TRANS_NOT_INITIALIZED w)
                else if tadd t = [] \<and> tremove t = [] then Some (0, [], w)
                else
                  (case check_arch w (tadd t) of
                     None \<Rightarrow> None
                   | Some invalid \<Rightarrow>
                       if invalid \<noteq> [] then Some (-1, map Invalid_arch invalid, set_errno ALPM_ERR_PKG_INVALID_ARCH w)
                       else
                         (case (if tadd t = []
                                then map_option (\<lambda>(r, data, _, w). (r, map (Target \<circ> Missing) data, w))
                                       (alpm_remove_prepare (env_force_load env) w)
                                else map_option (\<lambda>(r, data, w). (r, map Target data, w)) (alpm_sync_prepare env w)) of
                            None \<Rightarrow> None
                          | Some (r, data, w) \<Rightarrow>
                              if r = -1 then Some (-1, data, w)
                              else
                                map_option (\<lambda>w. (0, data, upd_trans (\<lambda>t. t\<lparr>tstate := STATE_PREPARED\<rparr>) w))
                                  (if has_flag t ALPM_TRANS_FLAG_NODEPS then Some w else sort_targets w)))))"

section \<open>What preparing a transaction ensures\<close>

lemma invalid_archs_total: "\<forall>p\<in>set l. version (ps p) \<noteq> None \<Longrightarrow> invalid_archs archs ps l \<noteq> None"
  by (induction l) (auto split: option.splits)

lemma closed_set_cong:
  assumes "set l = set l'" "assumeinstalled h' = assumeinstalled h" "no_dep_version h' = no_dep_version h"
  shows "closed h' ps l' = closed h ps l"
  using assms by (simp add: closed_def satisfiable_def)

lemma installed_after_set:
  assumes "mset (tadd (transaction w')) = mset (tadd (transaction w))" "mset (tremove (transaction w')) = mset (tremove (transaction w))"
    and "wpkgs w' = wpkgs w" "cached_pkgs w' (localdb w') = cached_pkgs w (localdb w)"
  shows "set (installed_after w') = set (installed_after w)"
  using mset_eq_setD [OF assms(1)] mset_eq_setD [OF assms(2)] assms(3,4)
  by (auto simp: installed_after_def after_change_def untouched_def)

lemma upd_trans_same [simp]:
  "loaded (upd_trans f w) db = loaded w db" "cached_pkgs (upd_trans f w) db = cached_pkgs w db"
  "localdb (upd_trans f w) = localdb w" "wdbs (upd_trans f w) = wdbs w"
  "assumeinstalled (handle (upd_trans f w)) = assumeinstalled (handle w)"
  by (simp_all add: upd_trans_def loaded_def cached_pkgs_def split: option.splits)

lemma sort_targets_spec:
  assumes "loaded w (localdb w)" "trans (handle w) \<noteq> None"
  shows "\<exists>w'. sort_targets w = Some w' \<and> extends w w' \<and> wpkgs w' = wpkgs w \<and>
    mset (tadd (transaction w')) = mset (tadd (transaction w)) \<and>
    mset (tremove (transaction w')) = mset (tremove (transaction w))"
proof -
  obtain w1 where w1: "(if tadd (transaction w) = [] then Some w
      else map_option (\<lambda>(new, _). upd_trans (\<lambda>t. t\<lparr>tadd := new\<rparr>) w)
        (alpm_sortbydeps w (tadd (transaction w)) (tremove (transaction w)) False)) = Some w1"
    "extends w w1" "wpkgs w1 = wpkgs w" "mset (tadd (transaction w1)) = mset (tadd (transaction w))"
    "tremove (transaction w1) = tremove (transaction w)" "trans (handle w1) \<noteq> None"
    "cached_pkgs w1 (localdb w1) = cached_pkgs w (localdb w)" "loaded w1 (localdb w1)"
  proof (cases "tadd (transaction w) = []")
    case False
    obtain new warn where new: "alpm_sortbydeps w (tadd (transaction w)) (tremove (transaction w)) False = Some (new, warn)"
      "mset new = mset (tadd (transaction w))" using sortbydeps_result [OF assms(1)] by blast
    define w1 where "w1 = upd_trans (\<lambda>t. t\<lparr>tadd := new\<rparr>) w"
    have "extends w w1" unfolding w1_def by (rule extends_upd_trans) simp
    then show ?thesis
      using that [of w1] new False assms unfolding w1_def by simp
  qed (use assms in auto)
  show ?thesis
  proof (cases "tremove (transaction w) = []")
    case True
    then show ?thesis using w1 by (auto simp: sort_targets_def Let_def)
  next
    case False
    obtain new warn where new: "alpm_sortbydeps w1 (tremove (transaction w)) [] True = Some (new, warn)"
      "mset new = mset (tremove (transaction w))" using sortbydeps_result [OF w1(8)] by blast
    define w2 where "w2 = upd_trans (\<lambda>t. t\<lparr>tremove := new\<rparr>) w1"
    have "extends w1 w2" unfolding w2_def by (rule extends_upd_trans) simp
    then have "extends w w2" using w1(2) extends_trans by blast
    moreover have "sort_targets w = Some w2" using w1 new False by (simp add: sort_targets_def Let_def w2_def)
    moreover have "wpkgs w2 = wpkgs w" "mset (tadd (transaction w2)) = mset (tadd (transaction w))"
      "mset (tremove (transaction w2)) = mset (tremove (transaction w))"
      using w1 new(2) by (simp_all add: w2_def)
    ultimately show ?thesis by blast
  qed
qed

text \<open>Preparing a removal leaves the packages to be added alone.\<close>

abbreviation same_add :: "alpm_world \<Rightarrow> alpm_world \<Rightarrow> bool" where
  "same_add w w' \<equiv> tadd (transaction w') = tadd (transaction w)"

lemma same_add_remove [simp]: "same_add w (upd_trans (\<lambda>t. t\<lparr>tremove := f t\<rparr>) w)"
  by (cases "trans (handle w)") (auto simp: transaction_def upd_trans_def)

lemma dup_pkg_same: "dup_pkg force_load w p = (r, q, w') \<Longrightarrow> transaction w' = transaction w"
  using dup_pkg_handle [of force_load w p r q w'] by (simp add: transaction_def)

lemma cascade_pull_same_add: "cascade_pull force_load w lp = (r, w') \<Longrightarrow> same_add w w'"
proof (induction lp arbitrary: w)
  case (Cons miss lp)
  show ?case
  proof (cases "cached_pkg w (localdb w) (miss_target miss)")
    case None
    then show ?thesis using Cons by simp
  next
    case (Some info)
    obtain r1 copy w1 where dup: "dup_pkg force_load w info = (r1, copy, w1)" by (metis prod_cases3)
    define w2 where "w2 = upd_trans (\<lambda>t. t\<lparr>tremove := alpm_list_add (tremove t) copy\<rparr>) w1"
    have "same_add w w2" unfolding w2_def same_add_remove dup_pkg_same [OF dup] ..
    then show ?thesis
      using Cons.prems Cons.IH [of w] Cons.IH [of w2] Some dup w2_def by (auto split: if_splits)
  qed
qed simp

lemma cascade_same_add:
  assumes "remove_prepare_cascade force_load w lp = Some res"
  shows "same_add w (snd res)"
proof (rule remove_prepare_cascade.raw_induct [OF _ assms, where P = "\<lambda>_ w _ res. same_add w (snd res)"])
  fix rec :: "(alpm_pkg_t \<Rightarrow> bool) \<Rightarrow> alpm_world \<Rightarrow> alpm_depmissing_t list \<Rightarrow> (int \<times> alpm_world) option"
  fix force_load w lp res
  assume IH: "\<And>force_load w lp res. rec force_load w lp = Some res \<Longrightarrow> same_add w (snd res)"
    and step: "(if lp = [] then Some (0, w)
      else let (r, w) = cascade_pull force_load w lp
           in if r \<noteq> 0 then Some (r, w) else rec force_load w (check_removal w)) = Some res"
  obtain r w1 where pull: "cascade_pull force_load w lp = (r, w1)" by fastforce
  show "same_add w (snd res)"
  proof (cases "lp = [] \<or> r \<noteq> 0")
    case True
    then show ?thesis using step cascade_pull_same_add [OF pull] by (auto simp: pull split: if_splits)
  next
    case False
    then have "rec force_load w1 (check_removal w1) = Some res" using step pull by auto
    from IH [OF this] show ?thesis using cascade_pull_same_add [OF pull] by simp
  qed
qed

lemma drop_needed_same_add: "same_add w (drop_needed w lp)"
  by (induction w lp rule: drop_needed.induct) (auto split: option.splits)

lemma keep_needed_same_add:
  assumes "remove_prepare_keep_needed w lp = Some w'"
  shows "same_add w w'"
proof (rule remove_prepare_keep_needed.raw_induct [OF _ assms, where P = "\<lambda>w _ w'. same_add w w'"])
  fix rec :: "alpm_world \<Rightarrow> alpm_depmissing_t list \<Rightarrow> alpm_world option"
  fix w lp w'
  assume IH: "\<And>w lp w'. rec w lp = Some w' \<Longrightarrow> same_add w w'"
    and step: "(if lp = [] then Some w else let w = drop_needed w lp in rec w (check_removal w)) = Some w'"
  show "same_add w w'"
  proof (cases "lp = []")
    case False
    then have "rec (drop_needed w lp) (check_removal (drop_needed w lp)) = Some w'" using step by (simp add: Let_def)
    from IH [OF this] show ?thesis using drop_needed_same_add by simp
  qed (use step in simp)
qed

lemma copy_targets_same: "copy_targets force_load w l targs = (r, t, w') \<Longrightarrow> transaction w' = transaction w"
proof (induction l arbitrary: w targs)
  case (Cons p l)
  obtain r1 copy where dup: "alpm_pkg_dup force_load (wpkgs w p) = (r1, copy)" by fastforce
  show ?case
  proof (cases "r1 = 0")
    case True
    then have "copy_targets force_load (w\<lparr>wpkgs := (wpkgs w)(next_ref w := copy), next_ref := next_ref w + 1\<rparr>) l
        (alpm_list_add targs (next_ref w)) = (r, t, w')" using Cons.prems dup by (simp add: Let_def)
    from Cons.IH [OF this] show ?thesis by (simp add: transaction_def)
  next
    case False
    then show ?thesis using Cons.prems dup by auto
  qed
qed simp

lemma recurse_targets_same_add: "recurse_targets force_load w = (r, w') \<Longrightarrow> same_add w w'"
proof -
  assume run: "recurse_targets force_load w = (r, w')"
  obtain r1 targs w1 where rec: "alpm_recursedeps force_load w (localdb w) (tremove (transaction w))
      (has_flag (transaction w) ALPM_TRANS_FLAG_RECURSEALL) = (r1, targs, w1)" by (metis prod_cases3)
  then have "transaction w1 = transaction w"
    using copy_targets_same by (auto simp: alpm_recursedeps_def split_beta Let_def split: if_splits)
  then show ?thesis using run rec same_add_remove [of "\<lambda>_. targs" w1] by (auto simp: recurse_targets_def)
qed

lemma remove_check_deps_same_add: "remove_check_deps force_load w = Some (r, data, w') \<Longrightarrow> same_add w w'"
  unfolding remove_check_deps_def
  by (auto simp: Let_def split: if_splits dest!: cascade_same_add keep_needed_same_add)

lemma remove_prepare_same_add:
  assumes "alpm_remove_prepare force_load w = Some (r, data, evs, w')"
  shows "same_add w w'"
proof -
  let ?cascade = "has_flag (transaction w) ALPM_TRANS_FLAG_CASCADE"
  let ?recurse = "has_flag (transaction w) ALPM_TRANS_FLAG_RECURSE"
  obtain r0 w0 where 0: "(if ?recurse \<and> \<not> ?cascade then recurse_targets force_load w else (0, w)) = (r0, w0)" by fastforce
  then have s0: "same_add w w0" using recurse_targets_same_add by (auto split: if_splits)
  show ?thesis
  proof (cases "r0 = 0")
    case False
    then show ?thesis using assms 0 s0 by (simp add: alpm_remove_prepare_def Let_def)
  next
    case True
    then obtain r1 data1 w1 where 1: "remove_check_deps force_load w0 = Some (r1, data1, w1)"
      using assms 0 by (auto simp: alpm_remove_prepare_def Let_def split: option.splits)
    note s1 = remove_check_deps_same_add [OF 1]
    obtain r2 w2 where 2: "(if ?cascade \<and> ?recurse then recurse_targets force_load w1 else (0, w1)) = (r2, w2)" by fastforce
    then have s2: "same_add w1 w2" using recurse_targets_same_add by (auto split: if_splits)
    have "w' = w1 \<or> w' = w2"
      using assms 0 1 2 True by (auto simp: alpm_remove_prepare_def Let_def split: if_splits)
    then show ?thesis using s0 s1 s2 by auto
  qed
qed

lemma conflict_free_mono: "conflict_free ps l \<Longrightarrow> set l' \<subseteq> set l \<Longrightarrow> conflict_free ps l'"
  unfolding conflict_free_def by blast

lemma remove_prepare_nodeps:
  assumes "removal_ready w" "has_flag (transaction w) ALPM_TRANS_FLAG_NODEPS"
  shows "\<exists>r data evs w'. alpm_remove_prepare force_load w = Some (r, data, evs, w') \<and> extends w w' \<and> r \<in> {0, -1}"
proof -
  let ?cascade = "has_flag (transaction w) ALPM_TRANS_FLAG_CASCADE"
  let ?recurse = "has_flag (transaction w) ALPM_TRANS_FLAG_RECURSE"
  have t: "trans (handle w) \<noteq> None" using assms(1) by (simp add: removal_ready_def)
  obtain r0 w0 where 0: "(if ?recurse \<and> \<not> ?cascade then recurse_targets force_load w else (0, w)) = (r0, w0)" by fastforce
  then have s0: "extends w w0" "r0 = 0 \<longrightarrow> removal_ready w0" using recurse_targets_extends [OF assms(1)] assms(1) by (auto split: if_splits)
  show ?thesis
  proof (cases "r0 = 0")
    case False
    then show ?thesis using 0 s0 by (simp add: alpm_remove_prepare_def Let_def)
  next
    case True
    have check: "remove_check_deps force_load w0 = Some (0, [], w0)"
      using assms(2) extends_flag [OF s0(1) t, of ALPM_TRANS_FLAG_NODEPS] by (simp add: remove_check_deps_def)
    obtain r2 w2 where 2: "(if ?cascade \<and> ?recurse then recurse_targets force_load w0 else (0, w0)) = (r2, w2)" by fastforce
    then have "extends w0 w2" using recurse_targets_extends [of w0 force_load r2 w2] s0(2) True by (auto split: if_splits)
    then show ?thesis
      using 0 check 2 True extends_trans [OF s0(1)] by (cases "r2 = 0") (simp_all add: alpm_remove_prepare_def Let_def)
  qed
qed

text \<open>What is known of a transaction whose preparation succeeds, before it is sorted.\<close>

definition change_ok :: "alpm_trans_t \<Rightarrow> alpm_world \<Rightarrow> bool" where
  "change_ok t w \<longleftrightarrow>
     (has_flag t ALPM_TRANS_FLAG_NODEPS \<or> closed (handle w) (wpkgs w) (installed_after w)) \<and>
     (has_flag t ALPM_TRANS_FLAG_NOCONFLICTS \<or> conflict_free (wpkgs w) (installed_after w))"

lemma removal_change_ok:
  assumes "removal_ready w" "tadd (transaction w) = []"
    and "closed (handle w) (wpkgs w) (cached_pkgs w (localdb w))" "conflict_free (wpkgs w) (cached_pkgs w (localdb w))"
    and "no_dep_version (handle w) \<Longrightarrow>
      \<not> (has_flag (transaction w) ALPM_TRANS_FLAG_CASCADE \<and> has_flag (transaction w) ALPM_TRANS_FLAG_RECURSE)"
  shows "\<exists>r data evs w'. alpm_remove_prepare force_load w = Some (r, data, evs, w') \<and> evolves w w' \<and> r \<in> {0, -1} \<and>
    (r = 0 \<longrightarrow> change_ok (transaction w) w')"
proof -
  obtain r data evs w' where run: "alpm_remove_prepare force_load w = Some (r, data, evs, w')" "extends w w'" "r \<in> {0, -1}"
    "r = 0 \<longrightarrow> has_flag (transaction w) ALPM_TRANS_FLAG_NODEPS \<or> closed (handle w') (wpkgs w') (stays w')"
    using remove_prepare_nodeps [OF assms(1)] remove_prepare_result [OF assms(1,3) _ assms(5)]
    by (cases "has_flag (transaction w) ALPM_TRANS_FLAG_NODEPS") (force split: if_splits)+
  have "tadd (transaction w') = []" using remove_prepare_same_add [OF run(1)] assms(2) by simp
  then have after: "installed_after w' = stays w'" by (simp add: installed_after_def stays_def)
  have use: "in_use w (cached_pkgs w (localdb w))" using assms(1) by (simp add: removal_ready_def)
  have "set (stays w') \<subseteq> set (cached_pkgs w (localdb w))"
    using extends_cached_pkgs [OF run(2)] extends_handle(1) [OF run(2)] by (auto simp: stays_def after_change_def)
  moreover have "conflict_free (wpkgs w') (cached_pkgs w (localdb w))"
    unfolding conflict_free_evolves [OF extends_evolves [OF run(2)] use] by (rule assms(4))
  ultimately have "conflict_free (wpkgs w') (stays w')" by (rule conflict_free_mono [rotated])
  then show ?thesis using run after extends_evolves by (auto simp: change_ok_def)
qed

lemma sort_change_ok:
  assumes "sort_targets w = Some w'" "extends w w'" "wpkgs w' = wpkgs w"
    and "mset (tadd (transaction w')) = mset (tadd (transaction w))" "mset (tremove (transaction w')) = mset (tremove (transaction w))"
    and "change_ok t w"
  shows "change_ok t w'"
proof -
  have same: "set (installed_after w') = set (installed_after w)"
    using installed_after_set [OF assms(4,5,3)] extends_cached_pkgs [OF assms(2)] extends_handle(1) [OF assms(2)] by simp
  have "closed (handle w') (wpkgs w') (installed_after w') = closed (handle w) (wpkgs w) (installed_after w)"
    unfolding assms(3) by (intro closed_set_cong same [symmetric] extends_handle(3,4) [OF assms(2)])
  moreover have "conflict_free (wpkgs w') (installed_after w') = conflict_free (wpkgs w) (installed_after w)"
    unfolding assms(3) conflict_free_def same ..
  ultimately show ?thesis using assms(6) by (simp add: change_ok_def)
qed

lemma change_ok_state: "change_ok t (upd_trans (\<lambda>t. t\<lparr>tstate := s\<rparr>) w) = change_ok t w"
proof -
  have "transaction (upd_trans (\<lambda>t. t\<lparr>tstate := s\<rparr>) w) = (transaction w)\<lparr>tstate := s\<rparr>" if "trans (handle w) \<noteq> None"
    using that by simp
  moreover have "upd_trans (\<lambda>t. t\<lparr>tstate := s\<rparr>) w = w" if "trans (handle w) = None" using that by (simp add: upd_trans_def)
  moreover have "no_dep_version (handle (upd_trans (\<lambda>t. t\<lparr>tstate := s\<rparr>) w)) = no_dep_version (handle w)"
    by (cases "trans (handle w)") (simp_all add: no_dep_version_def upd_trans_def)
  ultimately show ?thesis
    by (cases "trans (handle w) = None")
      (simp_all add: change_ok_def closed_def satisfiable_def installed_after_def)
qed

lemma sync_ready_errno: "sync_ready w \<Longrightarrow> sync_ready (set_errno e w)"
proof -
  assume r: "sync_ready w"
  have ev: "evolves w (set_errno e w)" by (simp add: extends_evolves)
  show ?thesis
    using r tremove_evolves [OF r ev] by (intro sync_ready_evolves [OF r ev]) (auto simp: sync_ready_def upgrade_ready_def candidates_def)
qed

lemma prepare_change_ok:
  assumes "sync_ready w" "closed (handle w) (wpkgs w) (cached_pkgs w (localdb w))"
    and "conflict_free (wpkgs w) (cached_pkgs w (localdb w))"
    and "no_dep_version (handle w) \<Longrightarrow>
      \<not> (has_flag (transaction w) ALPM_TRANS_FLAG_CASCADE \<and> has_flag (transaction w) ALPM_TRANS_FLAG_RECURSE)"
  shows "\<exists>r data w'. (if tadd (transaction w) = []
      then map_option (\<lambda>(r, data, _, w). (r, map (Target \<circ> Missing) data, w)) (alpm_remove_prepare (env_force_load env) w)
      else map_option (\<lambda>(r, data, w). (r, map Target data, w)) (alpm_sync_prepare env w)) = Some (r, data, w') \<and>
    evolves w w' \<and> r \<in> {0, -1} \<and> (r = 0 \<longrightarrow> change_ok (transaction w) w')"
proof (cases "tadd (transaction w) = []")
  case True
  have "removal_ready w" using assms(1) by (simp add: sync_ready_def)
  from removal_change_ok [OF this True assms(2-4)] show ?thesis using True by fastforce
next
  case False
  from sync_prepare_result [OF assms(1-3), of env]
  obtain r data w' where "alpm_sync_prepare env w = Some (r, data, w')" "evolves w w'"
    "r = 0 \<longrightarrow> change_ok (transaction w) w'" "r \<noteq> 0 \<longrightarrow> r = -1" unfolding change_ok_def by blast
  then show ?thesis using False by auto
qed

lemma sort_or_not:
  assumes "sync_ready w" "evolves w w1" "change_ok t w1"
  shows "\<exists>w2. (if has_flag t ALPM_TRANS_FLAG_NODEPS then Some w1 else sort_targets w1) = Some w2 \<and> extends w1 w2 \<and> change_ok t w2"
proof (cases "has_flag t ALPM_TRANS_FLAG_NODEPS")
  case True
  then show ?thesis using assms(3) by auto
next
  case False
  have "loaded w1 (localdb w1)" "trans (handle w1) \<noteq> None"
    using loaded_evolves [of w "localdb w" w1] assms(1,2) evolves_handle(1,7) [OF assms(2)]
    by (simp_all add: sync_ready_def removal_ready_def)
  from sort_targets_spec [OF this] obtain w2 where "sort_targets w1 = Some w2" "extends w1 w2" "wpkgs w2 = wpkgs w1"
    "mset (tadd (transaction w2)) = mset (tadd (transaction w1))" "mset (tremove (transaction w2)) = mset (tremove (transaction w1))" by blast
  then show ?thesis using False sort_change_ok [OF _ _ _ _ _ assms(3)] by auto
qed



end
