(* ===== verification/AlpmKeyid.thy ===== *)
theory AlpmKeyid
  imports AlpmPrelude
begin

text \<open>
  The key IDs in an OpenPGP signature: \<open>length_check\<close>, \<open>parse_subpacket\<close> and \<open>alpm_extract_keyid\<close> of
  \<open>lib/libalpm/signing.c\<close>. Positions and lengths are \<open>size_t\<close> values and wrap around; a length of four
  bytes is computed as an \<open>int\<close>, where the compilers in use keep the bits, and its sign is extended.
\<close>

unbundle bit_operations_syntax

section \<open>Reading bytes\<close>

text \<open>
  What ends the parsing early: a read outside the buffer, which C does not define, or the return of \<open>-1\<close>.
\<close>

datatype sig_fault = Outside | Bad_signature

definition sig_len :: "u8 list \<Rightarrow> u64" where
  "sig_len sig = of_nat (length sig)"

definition byte_at :: "u8 list \<Rightarrow> u64 \<Rightarrow> sig_fault + u8" where
  "byte_at sig pos = (if unat pos < length sig then Inr (sig ! unat pos) else Inl Outside)"

text \<open>Sequencing; the first fault is the result.\<close>

definition and_then :: "'e + 'a \<Rightarrow> ('a \<Rightarrow> 'e + 'b) \<Rightarrow> 'e + 'b" where
  "and_then r f = (case r of Inl e \<Rightarrow> Inl e | Inr x \<Rightarrow> f x)"

lemma and_then_simps [simp]: "and_then (Inl e) f = Inl e" "and_then (Inr x) f = f x"
  by (simp_all add: and_then_def)

definition length_check :: "u64 \<Rightarrow> u64 \<Rightarrow> u64 \<Rightarrow> sig_fault + unit" where
  "length_check len position a = (if a = 0 \<or> len - position \<le> a then Inl Bad_signature else Inr ())"

definition be16 :: "u8 \<Rightarrow> u8 \<Rightarrow> u64" where
  "be16 a b = push_bit 8 (ucast a) OR ucast b"

text \<open>The four bytes as a number of type \<open>int\<close>.\<close>

definition be32 :: "u8 \<Rightarrow> u8 \<Rightarrow> u8 \<Rightarrow> u8 \<Rightarrow> u64" where
  "be32 a b c d =
     scast (push_bit 24 (ucast a) OR push_bit 16 (ucast b) OR push_bit 8 (ucast c) OR ucast d :: u32)"

definition two_byte_length :: "u8 \<Rightarrow> u8 \<Rightarrow> u64" where
  "two_byte_length a b = push_bit 8 (ucast a - 192) + ucast b + 192"

section \<open>Subpackets\<close>

definition hex_upper :: "nat \<Rightarrow> char" where
  "hex_upper n = ''0123456789ABCDEF'' ! n"

definition hex_byte :: "u8 \<Rightarrow> string" where
  "hex_byte b = [hex_upper (unat b div 16), hex_upper (unat b mod 16)]"

text \<open>The header of a subpacket: its length, and the position of its type.\<close>

definition subpacket_header :: "u8 list \<Rightarrow> u64 \<Rightarrow> sig_fault + u64 \<times> u64" where
  "subpacket_header sig spos =
     and_then (byte_at sig spos) (\<lambda>a.
       if a < 192 then Inr (ucast a, spos + 1)
       else if a < 255 then
         and_then (length_check (sig_len sig) spos 2) (\<lambda>_.
         and_then (byte_at sig (spos + 1)) (\<lambda>b. Inr (two_byte_length a b, spos + 2)))
       else
         and_then (length_check (sig_len sig) spos 5) (\<lambda>_.
         and_then (byte_at sig (spos + 1)) (\<lambda>b.
         and_then (byte_at sig (spos + 2)) (\<lambda>c.
         and_then (byte_at sig (spos + 3)) (\<lambda>d.
         and_then (byte_at sig (spos + 4)) (\<lambda>e. Inr (be32 b c d e, spos + 5)))))))"

text \<open>The eight bytes after a position, as the loop prints them.\<close>

fun print_bytes :: "u8 list \<Rightarrow> u64 \<Rightarrow> nat \<Rightarrow> sig_fault + string" where
  "print_bytes sig pos 0 = Inr []"
| "print_bytes sig pos (Suc n) =
     and_then (byte_at sig pos) (\<lambda>b. and_then (print_bytes sig (pos + 1) n) (\<lambda>s. Inr (hex_byte b @ s)))"

datatype subpacket = Issuer string | Next_at u64

definition read_subpacket :: "u8 list \<Rightarrow> u64 \<Rightarrow> sig_fault + subpacket" where
  "read_subpacket sig spos =
     and_then (subpacket_header sig spos) (\<lambda>(slen, spos).
     and_then (byte_at sig spos) (\<lambda>t.
       if t = 16 then
         and_then (length_check (sig_len sig) spos 8) (\<lambda>_.
         and_then (print_bytes sig (spos + 1) 8) (\<lambda>key. Inr (Issuer key)))
       else and_then (length_check (sig_len sig) spos slen) (\<lambda>_. Inr (Next_at (spos + slen)))))"

text \<open>The loop up to \<open>send\<close>. The keys found so far are in the caller's list whatever happens.\<close>

partial_function (option) subpacket_loop ::
  "u8 list \<Rightarrow> u64 \<Rightarrow> u64 \<Rightarrow> string list \<Rightarrow> (sig_fault option \<times> string list) option" where
  "subpacket_loop sig send spos keys =
     (if \<not> spos < send then Some (None, keys)
      else
        (case read_subpacket sig spos of
           Inl e \<Rightarrow> Some (Some e, keys)
         | Inr p \<Rightarrow> (case p of Issuer key \<Rightarrow> Some (None, keys @ [key]) | Next_at spos \<Rightarrow> subpacket_loop sig send spos keys)))"

definition parse_subpacket ::
  "u8 list \<Rightarrow> u64 \<Rightarrow> u64 \<Rightarrow> string list \<Rightarrow> (sig_fault option \<times> string list) option" where
  "parse_subpacket sig pos plen keys = subpacket_loop sig (pos + plen) pos keys"

section \<open>Packets\<close>

text \<open>The header of a packet: the length of its body and the position of it.\<close>

definition new_header :: "u8 list \<Rightarrow> u64 \<Rightarrow> sig_fault + u64 \<times> u64" where
  "new_header sig pos =
     and_then (length_check (sig_len sig) pos 1) (\<lambda>_.
     and_then (byte_at sig (pos + 1)) (\<lambda>a.
       if a < 192 then and_then (length_check (sig_len sig) (pos + 1) 1) (\<lambda>_. Inr (ucast a, pos + 2))
       else if a < 224 then
         and_then (length_check (sig_len sig) (pos + 1) 2) (\<lambda>_.
         and_then (byte_at sig (pos + 2)) (\<lambda>b. Inr (two_byte_length a b, pos + 3)))
       else if a = 255 then
         and_then (length_check (sig_len sig) (pos + 1) 5) (\<lambda>_.
         and_then (byte_at sig (pos + 2)) (\<lambda>b.
         and_then (byte_at sig (pos + 3)) (\<lambda>c.
         and_then (byte_at sig (pos + 4)) (\<lambda>d.
         and_then (byte_at sig (pos + 5)) (\<lambda>e. Inr (be32 b c d e, pos + 6))))))
       else Inl Bad_signature))"

definition old_header :: "u8 list \<Rightarrow> u64 \<Rightarrow> u8 \<Rightarrow> sig_fault + u64 \<times> u64" where
  "old_header sig pos kind =
     (if kind = 0 then
        and_then (length_check (sig_len sig) pos 2) (\<lambda>_.
        and_then (byte_at sig (pos + 1)) (\<lambda>a. Inr (ucast a, pos + 2)))
      else if kind = 1 then
        and_then (length_check (sig_len sig) pos 3) (\<lambda>_.
        and_then (byte_at sig (pos + 1)) (\<lambda>a.
        and_then (byte_at sig (pos + 2)) (\<lambda>b. Inr (be16 a b, pos + 3))))
      else if kind = 2 then
        and_then (length_check (sig_len sig) pos 5) (\<lambda>_.
        and_then (byte_at sig (pos + 1)) (\<lambda>a.
        and_then (byte_at sig (pos + 2)) (\<lambda>b.
        and_then (byte_at sig (pos + 3)) (\<lambda>c.
        and_then (byte_at sig (pos + 4)) (\<lambda>d. Inr (be32 a b c d, pos + 5))))))
      else Inl Bad_signature)"

definition packet_header :: "u8 list \<Rightarrow> u64 \<Rightarrow> sig_fault + u64 \<times> u64" where
  "packet_header sig pos =
     and_then (byte_at sig pos) (\<lambda>a.
       if a AND 0x80 = 0 then Inl Bad_signature
       else if a AND 0x40 \<noteq> 0 then new_header sig pos
       else old_header sig pos (a AND 0x03))"

text \<open>The start of the body: the version, the kind of signature, and the size of the hashed subpackets.\<close>

definition body_start :: "u8 list \<Rightarrow> u64 \<Rightarrow> sig_fault + u64 \<times> u64" where
  "body_start sig pos =
     and_then (byte_at sig pos) (\<lambda>v.
       if v \<noteq> 4 then Inl Bad_signature
       else
         and_then (byte_at sig (pos + 1)) (\<lambda>t.
           if t \<noteq> 0 then Inl Bad_signature
           else
             and_then (length_check (sig_len sig) (pos + 4) 2) (\<lambda>_.
             and_then (byte_at sig (pos + 4)) (\<lambda>a.
             and_then (byte_at sig (pos + 5)) (\<lambda>b.
               let hlen = be16 a b
               in and_then (length_check (sig_len sig) (pos + 4) (hlen + 2)) (\<lambda>_. Inr (hlen, pos + 6)))))))"

text \<open>The size of the other subpackets, which are not hashed.\<close>

definition unhashed_start :: "u8 list \<Rightarrow> u64 \<Rightarrow> sig_fault + u64 \<times> u64" where
  "unhashed_start sig pos =
     and_then (byte_at sig pos) (\<lambda>a.
     and_then (byte_at sig (pos + 1)) (\<lambda>b.
       let ulen = be16 a b
       in and_then (length_check (sig_len sig) pos (ulen + 2)) (\<lambda>_. Inr (ulen, pos + 2))))"

text \<open>The first two parts of a packet: the length of its body, that of the hashed part, and its start.\<close>

definition packet_start :: "u8 list \<Rightarrow> u64 \<Rightarrow> sig_fault + u64 \<times> u64 \<times> u64" where
  "packet_start sig pos =
     and_then (packet_header sig pos) (\<lambda>(blen, pos). and_then (body_start sig pos) (\<lambda>(hlen, pos). Inr (blen, hlen, pos)))"

text \<open>\<open>None\<close> is a loop that does not end.\<close>

partial_function (option) keyid_loop :: "u8 list \<Rightarrow> u64 \<Rightarrow> string list \<Rightarrow> (sig_fault option \<times> string list) option" where
  "keyid_loop sig pos keys =
     (if \<not> pos < sig_len sig then Some (None, keys)
      else
        (case packet_start sig pos of
           Inl e \<Rightarrow> Some (Some e, keys)
         | Inr (blen, hlen, pos) \<Rightarrow>
             (case parse_subpacket sig pos hlen keys of
                None \<Rightarrow> None
              | Some (e, keys) \<Rightarrow>
                  if e \<noteq> None then Some (e, keys)
                  else
                    (case unhashed_start sig (pos + hlen) of
                       Inl e \<Rightarrow> Some (Some e, keys)
                     | Inr (ulen, pos) \<Rightarrow>
                         (case parse_subpacket sig pos ulen keys of
                            None \<Rightarrow> None
                          | Some (e, keys) \<Rightarrow>
                              if e \<noteq> None then Some (e, keys)
                              else keyid_loop sig (pos + (blen - hlen - 8)) keys)))))"

definition alpm_extract_keyid :: "u8 list \<Rightarrow> string list \<Rightarrow> (sig_fault option \<times> string list) option" where
  "alpm_extract_keyid sig keys = keyid_loop sig 0 keys"

section \<open>Positions in a buffer\<close>

lemma byte_at_nat: "p < length sig \<Longrightarrow> length sig < 2 ^ 64 \<Longrightarrow> byte_at sig (of_nat p) = Inr (sig ! p)"
  by (simp add: byte_at_def unat_of_nat)

lemma byte_at_app:
  "unat k < length xs \<Longrightarrow> length (pre @ xs) < 2 ^ 64 \<Longrightarrow> byte_at (pre @ xs) (of_nat (length pre) + k) = Inr (xs ! unat k)"
  using byte_at_nat [of "length pre + unat k" "pre @ xs"] by simp

lemma length_check_nat:
  assumes "p \<le> length sig" "length sig < 2 ^ 64"
  shows "length_check (sig_len sig) (of_nat p) a = (if 0 < unat a \<and> p + unat a < length sig then Inr () else Inl Bad_signature)"
proof -
  have "of_nat p \<le> sig_len sig" using assms by (simp add: word_le_nat_alt unat_of_nat sig_len_def)
  then have "unat (sig_len sig - of_nat p) = length sig - p" using assms by (simp add: unat_sub unat_of_nat sig_len_def)
  then show ?thesis unfolding length_check_def word_le_nat_alt using assms(1) by (auto simp: unat_gt_0)
qed

section \<open>Subpackets inside the buffer\<close>

lemma print_bytes_at:
  "p + n \<le> length sig \<Longrightarrow> length sig < 2 ^ 64 \<Longrightarrow>
   print_bytes sig (of_nat p) n = Inr (concat (map hex_byte (take n (drop p sig))))"
proof (induction n arbitrary: p)
  case (Suc n)
  have "(of_nat p + 1 :: u64) = of_nat (Suc p)" by simp
  then show ?case using Suc by (simp add: byte_at_nat Cons_nth_drop_Suc [symmetric] del: of_nat_Suc)
qed simp

lemma subpacket_header_at:
  assumes "p + 1 < length sig" "length sig < 2 ^ 64"
  shows "subpacket_header sig (of_nat p) = Inl Bad_signature
    \<or> (\<exists>s q. subpacket_header sig (of_nat p) = Inr (s, of_nat q) \<and> p < q \<and> q < length sig)"
proof -
  have at: "byte_at sig (of_nat p + k) = Inr (sig ! (p + unat k))" if "p + unat k < length sig" for k
    using byte_at_nat [of "p + unat k" sig] that assms(2) by simp
  have q: "\<exists>q. of_nat p + k = (of_nat q :: u64) \<and> p < q \<and> q < length sig" if "p + unat k < length sig" "0 < unat k" for k
    using that by (intro exI [of _ "p + unat k"]) simp
  consider "sig ! p < 192" | "\<not> sig ! p < 192" "sig ! p < 255" | "\<not> sig ! p < 255" by blast
  then show ?thesis
  proof cases
    case 1
    then show ?thesis using q [of 1] assms by (auto simp: subpacket_header_def byte_at_nat)
  next
    case 2
    then show ?thesis using q [of 2] at [of 1] assms by (auto simp: subpacket_header_def byte_at_nat length_check_nat)
  next
    case 3
    then have "\<not> sig ! p < 192" using order.strict_trans [of "sig ! p" 192 255] by auto
    then show ?thesis using 3 q [of 5] at [of 1] at [of 2] at [of 3] at [of 4] assms
      by (auto simp: subpacket_header_def byte_at_nat length_check_nat)
  qed
qed

lemma read_subpacket_at:
  assumes "p + 1 < length sig" "length sig < 2 ^ 64"
  shows "read_subpacket sig (of_nat p) = Inl Bad_signature
    \<or> (\<exists>key. read_subpacket sig (of_nat p) = Inr (Issuer key) \<and> length key = 16)
    \<or> (\<exists>q. read_subpacket sig (of_nat p) = Inr (Next_at (of_nat q)) \<and> p < q \<and> q < length sig)"
proof (cases "subpacket_header sig (of_nat p) = Inl Bad_signature")
  case True
  then show ?thesis by (simp add: read_subpacket_def)
next
  case False
  then obtain s q where h: "subpacket_header sig (of_nat p) = Inr (s, of_nat q)" "p < q" "q < length sig"
    using subpacket_header_at [OF assms] by auto
  show ?thesis
  proof (cases "sig ! q = 16")
    case True
    have "print_bytes sig (of_nat q + 1) 8 = Inr (concat (map hex_byte (take 8 (drop (Suc q) sig))))" if "q + 8 < length sig"
      using print_bytes_at [of "Suc q" 8 sig] that assms(2) by (simp add: add.commute)
    moreover have "length (concat (map hex_byte (take 8 (drop (Suc q) sig)))) = 16" if "q + 8 < length sig"
      using that by (auto simp: length_concat hex_byte_def o_def sum_list_triv min_def)
    ultimately show ?thesis using h True assms(2) by (auto simp: read_subpacket_def byte_at_nat length_check_nat)
  next
    case False
    then have "read_subpacket sig (of_nat p) =
        (if 0 < unat s \<and> q + unat s < length sig then Inr (Next_at (of_nat (q + unat s))) else Inl Bad_signature)"
      using h assms(2) by (simp add: read_subpacket_def byte_at_nat length_check_nat)
    moreover have "p < q + unat s" using h(2) by simp
    ultimately show ?thesis by (auto simp del: of_nat_add split: if_splits)
  qed
qed

lemma subpacket_loop_at:
  assumes "length sig < 2 ^ 64" "e < length sig" "p < length sig"
  shows "\<exists>f ks. subpacket_loop sig (of_nat e) (of_nat p) keys = Some (f, ks) \<and> f \<noteq> Some Outside \<and>
    (ks = keys \<or> (\<exists>key. length key = 16 \<and> ks = keys @ [key]))"
  using assms(3)
proof (induction "length sig - p" arbitrary: p rule: less_induct)
  case less
  have lt: "(of_nat p :: u64) < of_nat e \<longleftrightarrow> p < e" using less.prems assms(1,2) by (simp add: word_less_nat_alt unat_of_nat)
  show ?case
  proof (cases "p < e")
    case True
    then consider "read_subpacket sig (of_nat p) = Inl Bad_signature"
      | key where "read_subpacket sig (of_nat p) = Inr (Issuer key)" "length key = 16"
      | q where "read_subpacket sig (of_nat p) = Inr (Next_at (of_nat q))" "p < q" "q < length sig"
      using read_subpacket_at [of p sig] assms(1,2) by auto
    then show ?thesis
    proof cases
      case 3
      then show ?thesis using less.hyps [of q] True lt less.prems by (simp add: subpacket_loop.simps [of _ _ "of_nat p"])
    qed (use True lt in \<open>auto simp: subpacket_loop.simps\<close>)
  qed (use lt in \<open>simp add: subpacket_loop.simps\<close>)
qed

text \<open>C23: parsing the subpackets of an area that ends before the signature does always returns, reads
  no byte outside the signature, whatever its bytes are, and adds at most one key ID, of sixteen
  characters, to the list.\<close>

theorem parse_subpacket_in_bounds:
  assumes "length sig < 2 ^ 64" "p + n < length sig"
  shows "\<exists>f ks. parse_subpacket sig (of_nat p) (of_nat n) keys = Some (f, ks) \<and> f \<noteq> Some Outside \<and>
    (ks = keys \<or> (\<exists>key. length key = 16 \<and> ks = keys @ [key]))"
  using subpacket_loop_at [of sig "p + n" p keys] assms by (simp add: parse_subpacket_def)

theorem parse_subpacket_in_bounds_witness:
  "\<exists>f ks. parse_subpacket [255, 255, 255, 255, 255, 16, 0] (of_nat 0) (of_nat 6) [] = Some (f, ks) \<and> f \<noteq> Some Outside \<and>
    (ks = [] \<or> (\<exists>key. length key = 16 \<and> ks = [] @ [key]))"
  by (rule parse_subpacket_in_bounds) simp_all

section \<open>Well-formed signatures\<close>

text \<open>
  The format, as RFC 4880 has it: a subpacket with its length in one or two bytes, and a signature packet of version 4
  in the old format with a length of two bytes. What follows the subpackets is the signature itself.
\<close>

definition sub_bytes :: "u8 \<times> u8 list \<Rightarrow> u8 list" where
  "sub_bytes s =
     (let n = 1 + length (snd s)
      in (if n < 192 then [of_nat n] else [of_nat ((n - 192) div 256 + 192), of_nat ((n - 192) mod 256)]) @ fst s # snd s)"

definition size16 :: "nat \<Rightarrow> u8 list" where
  "size16 n = [of_nat (n div 256), of_nat (n mod 256)]"

record sig_packet =
  sp_algos :: "u8 \<times> u8"
  sp_hashed :: "(u8 \<times> u8 list) list"
  sp_unhashed :: "(u8 \<times> u8 list) list"
  sp_rest :: "u8 list"

definition area :: "(u8 \<times> u8 list) list \<Rightarrow> u8 list" where
  "area subs = concat (map sub_bytes subs)"

definition packet_body :: "sig_packet \<Rightarrow> u8 list" where
  "packet_body p =
     [4, 0, fst (sp_algos p), snd (sp_algos p)] @ size16 (length (area (sp_hashed p))) @ area (sp_hashed p)
       @ size16 (length (area (sp_unhashed p))) @ area (sp_unhashed p) @ sp_rest p"

definition packet_bytes :: "sig_packet \<Rightarrow> u8 list" where
  "packet_bytes p = 0x89 # size16 (length (packet_body p)) @ packet_body p"

text \<open>The issuer of an area is what its first subpacket of type 16 says.\<close>

definition area_issuer :: "(u8 \<times> u8 list) list \<Rightarrow> string list" where
  "area_issuer subs = (case find (\<lambda>s. fst s = 16) subs of None \<Rightarrow> [] | Some s \<Rightarrow> [concat (map hex_byte (take 8 (snd s)))])"

definition good_sub :: "u8 \<times> u8 list \<Rightarrow> bool" where
  "good_sub s \<longleftrightarrow> length (snd s) < 8000 \<and> (fst s = 16 \<longrightarrow> length (snd s) = 8)"

definition good_packet :: "sig_packet \<Rightarrow> bool" where
  "good_packet p \<longleftrightarrow>
     list_all good_sub (sp_hashed p) \<and> list_all good_sub (sp_unhashed p) \<and> sp_rest p \<noteq> [] \<and> length (packet_body p) < 2 ^ 16"

lemma be16_sum: "be16 a b = ucast a * 256 + ucast b"
proof -
  have "push_bit 8 (ucast a) AND (ucast b :: u64) = 0"
    by (rule bit_eqI) (auto simp: bit_simps dest: bit_imp_le_length)
  then have "push_bit 8 (ucast a) + (ucast b :: u64) = push_bit 8 (ucast a) OR ucast b" by (rule disjunctive_add_eq_or)
  then show ?thesis by (simp add: be16_def push_bit_eq_mult)
qed

lemma ucast_byte: "n < 256 \<Longrightarrow> (ucast (of_nat n :: u8) :: u64) = of_nat n"
  by (simp add: unsigned_of_nat take_bit_eq_mod)

lemma split256: "of_nat (n div 256) * 256 + of_nat (n mod 256) = (of_nat n :: u64)"
  using arg_cong [OF div_mult_mod_eq [of n 256], of "of_nat :: nat \<Rightarrow> u64"] by (simp only: of_nat_add of_nat_mult of_nat_numeral)

lemma size16_value: "n < 2 ^ 16 \<Longrightarrow> be16 (of_nat (n div 256)) (of_nat (n mod 256)) = of_nat n"
  by (simp add: be16_sum ucast_byte split256)

lemma two_byte_value:
  "192 \<le> n \<Longrightarrow> n < 8192 \<Longrightarrow> two_byte_length (of_nat ((n - 192) div 256 + 192)) (of_nat ((n - 192) mod 256)) = of_nat n"
proof -
  assume n: "192 \<le> n" "n < 8192"
  have "(ucast (of_nat ((n - 192) div 256 + 192) :: u8) :: u64) = of_nat ((n - 192) div 256 + 192)"
    using n by (intro ucast_byte) simp
  moreover have "(ucast (of_nat ((n - 192) mod 256) :: u8) :: u64) = of_nat ((n - 192) mod 256)"
    by (intro ucast_byte) simp
  moreover have "(of_nat (n - 192) :: u64) + 192 = of_nat n" using n(1) by simp
  ultimately show ?thesis
    using split256 [of "n - 192"] unfolding two_byte_length_def by (simp add: push_bit_eq_mult del: of_nat_diff)
qed

lemma read_sub:
  assumes "good_sub s" "length (pre @ sub_bytes s @ post) < 2 ^ 64" "post \<noteq> []"
  shows "read_subpacket (pre @ sub_bytes s @ post) (of_nat (length pre)) =
    Inr (if fst s = 16 then Issuer (concat (map hex_byte (take 8 (snd s)))) else Next_at (of_nat (length (pre @ sub_bytes s))))"
proof -
  define sig where "sig = pre @ sub_bytes s @ post"
  define n where "n = 1 + length (snd s)"
  define h where "h = (if n < 192 then 1 else 2 :: nat)"
  have sig: "length sig < 2 ^ 64" "sig = pre @ take h (sub_bytes s) @ fst s # snd s @ post" "length (sub_bytes s) = h + n"
    using assms(2) by (simp_all add: sig_def sub_bytes_def h_def n_def Let_def)
  have n: "n < 8192" "(of_nat n :: u64) \<noteq> 0" "unat (of_nat n :: u64) = n"
    using assms(1) by (simp_all add: good_sub_def n_def unat_of_nat unat_eq_zero [symmetric] del: of_nat_Suc)
  have post: "0 < length post" using assms(3) by simp
  have header: "subpacket_header sig (of_nat (length pre)) = Inr (of_nat n, of_nat (length pre + h))"
  proof (cases "n < 192")
    case True
    then have "byte_at sig (of_nat (length pre)) = Inr (of_nat n)"
      using byte_at_nat [of "length pre" sig] sig(1) by (simp add: sig_def sub_bytes_def n_def nth_append Let_def)
    moreover have "(of_nat n :: u8) < 192" using True by (simp add: word_less_nat_alt unat_of_nat)
    ultimately show ?thesis using True by (simp add: subpacket_header_def h_def ucast_byte)
  next
    case False
    define a b where "a = (of_nat ((n - 192) div 256 + 192) :: u8)" and "b = (of_nat ((n - 192) mod 256) :: u8)"
    have "byte_at sig (of_nat (length pre)) = Inr a" "byte_at sig (of_nat (length pre) + 1) = Inr b"
      using byte_at_nat [of "length pre" sig] byte_at_app [of 1 "sub_bytes s @ post" pre] sig(1) False
      by (simp_all add: sig_def sub_bytes_def n_def nth_append Let_def a_def b_def)
    moreover have "\<not> a < 192" "a < 255"
    proof -
      have "unat a = (n - 192) div 256 + 192" using n(1) unfolding a_def by (subst unat_of_nat) simp
      moreover have "(n - 192) div 256 + 192 < 255" using n(1) by simp
      ultimately show "\<not> a < 192" "a < 255" by (simp_all add: word_less_nat_alt)
    qed
    moreover have "length_check (sig_len sig) (of_nat (length pre)) 2 = Inr ()"
      using sig False post by (simp add: length_check_nat h_def n_def)
    ultimately show ?thesis using two_byte_value [of n] n(1) False by (simp add: subpacket_header_def h_def a_def b_def)
  qed
  have lens: "length pre + h < length sig" using sig by (simp add: h_def)
  have type: "byte_at sig (of_nat (length pre + h)) = Inr (fst s)"
    using byte_at_nat [OF lens sig(1)] sig(2,3) by (simp add: nth_append h_def)
  have eight: "print_bytes sig (of_nat (length pre + h) + 1) 8 = Inr (concat (map hex_byte (take 8 (snd s))))"
    if "fst s = 16"
  proof -
    have d: "length (snd s) = 8" using assms(1) that by (simp add: good_sub_def)
    have "drop (Suc (length pre + h)) sig = snd s @ post" using sig(2,3) by (simp add: h_def n_def)
    then show ?thesis using print_bytes_at [of "Suc (length pre + h)" 8 sig] sig d by (simp add: n_def add.commute)
  qed
  have "length_check (sig_len sig) (of_nat (length pre + h)) (of_nat n) = Inr ()"
    using length_check_nat [of "length pre + h" sig "of_nat n"] lens sig post n by (simp add: n_def)
  moreover have "length_check (sig_len sig) (of_nat (length pre + h)) 8 = Inr ()" if "fst s = 16"
    using length_check_nat [of "length pre + h" sig 8] lens sig post that assms(1) by (simp add: n_def good_sub_def)
  ultimately show ?thesis
    using header type eight sig(3) unfolding sig_def [symmetric] by (simp add: read_subpacket_def)
qed

lemma area_Cons: "area (s # subs) = sub_bytes s @ area subs"
  by (simp add: area_def)

lemma area_loop:
  assumes "list_all good_sub subs" "length (pre @ area subs @ post) < 2 ^ 64" "post \<noteq> []"
  shows "subpacket_loop (pre @ area subs @ post) (of_nat (length pre + length (area subs))) (of_nat (length pre)) keys =
    Some (None, keys @ area_issuer subs)"
  using assms(1,2)
proof (induction subs arbitrary: pre)
  case Nil
  then show ?case by (simp add: subpacket_loop.simps area_def area_issuer_def)
next
  case (Cons s subs)
  have "0 < length (sub_bytes s)" by (simp add: sub_bytes_def Let_def)
  then have lt: "(of_nat (length pre) :: u64) < of_nat (length pre + length (area (s # subs)))"
    using Cons.prems(2) by (simp add: word_less_nat_alt unat_of_nat area_Cons del: of_nat_add)
  have read: "read_subpacket (pre @ area (s # subs) @ post) (of_nat (length pre)) =
      Inr (if fst s = 16 then Issuer (concat (map hex_byte (take 8 (snd s)))) else Next_at (of_nat (length (pre @ sub_bytes s))))"
    using read_sub [of s pre "area subs @ post"] Cons.prems assms(3) by (simp add: area_Cons)
  show ?case
  proof (cases "fst s = 16")
    case True
    then show ?thesis using lt read by (simp add: subpacket_loop.simps [of _ _ "of_nat (length pre)"] area_issuer_def)
  next
    case False
    then show ?thesis
      using lt read Cons.IH [of "pre @ sub_bytes s"] Cons.prems
      by (simp add: subpacket_loop.simps [of _ _ "of_nat (length pre)"] area_issuer_def area_Cons add.assoc)
  qed
qed

lemma parse_area:
  assumes "list_all good_sub subs" "length (pre @ area subs @ post) < 2 ^ 64" "post \<noteq> []"
  shows "parse_subpacket (pre @ area subs @ post) (of_nat (length pre)) (of_nat (length (area subs))) keys =
    Some (None, keys @ area_issuer subs)"
  using area_loop [OF assms] by (simp add: parse_subpacket_def)

definition packet_issuers :: "sig_packet \<Rightarrow> string list" where
  "packet_issuers p = area_issuer (sp_hashed p) @ area_issuer (sp_unhashed p)"

lemma length_body: "length (packet_body p) = 8 + length (area (sp_hashed p)) + length (area (sp_unhashed p)) + length (sp_rest p)"
  by (simp add: packet_body_def size16_def)

lemma be16_bound: "n < 2 ^ 16 \<Longrightarrow> unat (of_nat n + (2 :: u64)) = n + 2"
proof -
  assume n: "n < 2 ^ 16"
  have e: "of_nat n + 2 = (of_nat (n + 2) :: u64)" by simp
  show ?thesis unfolding e unat_of_nat using n by simp
qed

lemma packet_start_at:
  assumes "good_packet p" "length (pre @ packet_bytes p @ post) < 2 ^ 64"
  shows "packet_start (pre @ packet_bytes p @ post) (of_nat (length pre)) =
    Inr (of_nat (length (packet_body p)), of_nat (length (area (sp_hashed p))), of_nat (length pre + 9))"
proof -
  define sig where "sig = pre @ packet_bytes p @ post"
  define L where "L = length (packet_body p)"
  define H where "H = length (area (sp_hashed p))"
  have rest: "0 < length (sp_rest p)" using assms(1) by (simp add: good_packet_def)
  then have L: "L < 2 ^ 16" "10 + H \<le> L + 1" using assms(1) unfolding L_def H_def length_body good_packet_def by linarith+
  have sig: "length sig < 2 ^ 64" "length sig = length pre + 3 + L + length post"
    using assms(2) by (simp_all add: sig_def L_def packet_bytes_def size16_def)
  have at: "byte_at sig (of_nat (length pre) + k) = Inr ((packet_bytes p @ post) ! unat k)" if "unat k < 9" for k
    using byte_at_app [of k "packet_bytes p @ post" pre] sig that L unfolding sig_def
    by (simp add: packet_bytes_def size16_def L_def)
  have bytes: "(packet_bytes p @ post) ! 0 = 0x89"
    "(packet_bytes p @ post) ! 1 = of_nat (L div 256)" "(packet_bytes p @ post) ! 2 = of_nat (L mod 256)"
    "(packet_bytes p @ post) ! 3 = 4" "(packet_bytes p @ post) ! 4 = 0"
    "(packet_bytes p @ post) ! 7 = of_nat (H div 256)" "(packet_bytes p @ post) ! 8 = of_nat (H mod 256)"
    by (simp_all add: packet_bytes_def size16_def packet_body_def L_def H_def)
  have "packet_header sig (of_nat (length pre)) = Inr (of_nat L, of_nat (length pre) + 3)"
    using at [of 0] at [of 1] at [of 2] sig L bytes size16_value [of L]
    by (simp add: packet_header_def old_header_def length_check_nat)
  moreover have "body_start sig (of_nat (length pre) + 3) = Inr (of_nat H, of_nat (length pre + 9))"
  proof -
    have sums: "x + 3 + 1 = x + 4" "x + 3 + 4 = x + 7" "x + 3 + 5 = x + 8" "x + 3 + 6 = x + 9" for x :: u64 by simp_all
    show ?thesis
      unfolding body_start_def Let_def sums
      using at [of 3] at [of 4] at [of 7] at [of 8] bytes size16_value [of H] sig L
        length_check_nat [of "length pre + 7" sig] be16_bound [of H]
      by simp
  qed
  ultimately show ?thesis by (simp add: packet_start_def sig_def L_def H_def)
qed

lemma unhashed_start_at:
  assumes "length (pre @ size16 n @ xs) < 2 ^ 64" "n < 2 ^ 16" "n < length xs"
  shows "unhashed_start (pre @ size16 n @ xs) (of_nat (length pre)) = Inr (of_nat n, of_nat (length (pre @ size16 n)))"
proof -
  define sig where "sig = pre @ size16 n @ xs"
  have sig: "length sig < 2 ^ 64" "length sig = length pre + 2 + length xs" using assms(1) by (simp_all add: sig_def size16_def)
  have "byte_at sig (of_nat (length pre)) = Inr (of_nat (n div 256))"
    "byte_at sig (of_nat (length pre) + 1) = Inr (of_nat (n mod 256))"
    using byte_at_app [of 0 "size16 n @ xs" pre] byte_at_app [of 1 "size16 n @ xs" pre] sig(1)
    by (simp_all add: sig_def size16_def)
  then have "unhashed_start sig (of_nat (length pre)) = Inr (of_nat n, of_nat (length pre) + 2)"
    using size16_value [OF assms(2)] length_check_nat [of "length pre" sig] be16_bound [OF assms(2)] sig assms(3)
    by (simp add: unhashed_start_def Let_def)
  then show ?thesis by (simp add: sig_def size16_def)
qed

lemma extract_packet:
  assumes "good_packet p" "length (pre @ packet_bytes p @ post) < 2 ^ 64"
  shows "keyid_loop (pre @ packet_bytes p @ post) (of_nat (length pre)) keys =
    keyid_loop (pre @ packet_bytes p @ post) (of_nat (length (pre @ packet_bytes p))) (keys @ packet_issuers p)"
proof -
  define sig where "sig = pre @ packet_bytes p @ post"
  define L H U where "L = length (packet_body p)" and "H = length (area (sp_hashed p))" and "U = length (area (sp_unhashed p))"
  define head where "head = 0x89 # size16 L @ [4, 0, fst (sp_algos p), snd (sp_algos p)] @ size16 H"
  have good: "list_all good_sub (sp_hashed p)" "list_all good_sub (sp_unhashed p)" "sp_rest p \<noteq> []" "L < 2 ^ 16"
    using assms(1) by (simp_all add: good_packet_def L_def)
  have sizes: "length head = 9" "L = 8 + H + U + length (sp_rest p)" "U < 2 ^ 16" "length sig < 2 ^ 64"
    using assms good(4) by (simp_all add: head_def size16_def length_body L_def H_def U_def sig_def)
  have sig: "sig = (pre @ head) @ area (sp_hashed p) @ (size16 U @ area (sp_unhashed p) @ sp_rest p @ post)"
    "sig = (pre @ head @ area (sp_hashed p)) @ size16 U @ (area (sp_unhashed p) @ sp_rest p @ post)"
    "sig = (pre @ head @ area (sp_hashed p) @ size16 U) @ area (sp_unhashed p) @ (sp_rest p @ post)"
    by (simp_all add: sig_def packet_bytes_def packet_body_def head_def L_def H_def U_def)
  have start: "packet_start sig (of_nat (length pre)) = Inr (of_nat L, of_nat H, of_nat (length (pre @ head)))"
    using packet_start_at [OF assms] sizes(1) by (simp add: sig_def L_def H_def)
  have hashed: "parse_subpacket sig (of_nat (length (pre @ head))) (of_nat H) keys = Some (None, keys @ area_issuer (sp_hashed p))"
    using parse_area [OF good(1), of "pre @ head" "size16 U @ area (sp_unhashed p) @ sp_rest p @ post" keys] sizes(4) sig(1)
    by (simp add: H_def size16_def)
  have unhashed: "unhashed_start sig (of_nat (length (pre @ head)) + of_nat H) =
      Inr (of_nat U, of_nat (length (pre @ head @ area (sp_hashed p) @ size16 U)))"
    using unhashed_start_at [of "pre @ head @ area (sp_hashed p)" U "area (sp_unhashed p) @ sp_rest p @ post"] sizes good(3) sig(2)
    by (simp add: H_def U_def add.assoc)
  have others: "parse_subpacket sig (of_nat (length (pre @ head @ area (sp_hashed p) @ size16 U))) (of_nat U) ks =
      Some (None, ks @ area_issuer (sp_unhashed p))" for ks
    using parse_area [OF good(2), of "pre @ head @ area (sp_hashed p) @ size16 U" "sp_rest p @ post" ks] sizes(4) sig(3) good(3)
    by (simp add: U_def)
  have lt: "(of_nat (length pre) :: u64) < sig_len sig"
  proof -
    have "length pre < length sig" using sizes(1) unfolding sig(1) by simp
    then show ?thesis using sizes(4) by (simp add: word_less_nat_alt unat_of_nat sig_len_def)
  qed
  have stop: "(of_nat (length (pre @ head @ area (sp_hashed p) @ size16 U)) :: u64) + (of_nat L - of_nat H - 8) =
      of_nat (length (pre @ packet_bytes p))"
    using sizes by (simp add: packet_bytes_def size16_def H_def [symmetric] L_def [symmetric])
  show ?thesis
    using lt start hashed unhashed others [of "keys @ area_issuer (sp_hashed p)"] stop
    unfolding sig_def [symmetric]
    by (subst keyid_loop.simps) (simp add: packet_issuers_def del: of_nat_add length_append)
qed

lemma extract_packets:
  "\<lbrakk>list_all good_packet ps; length (pre @ concat (map packet_bytes ps)) < 2 ^ 64\<rbrakk> \<Longrightarrow>
   keyid_loop (pre @ concat (map packet_bytes ps)) (of_nat (length pre)) keys = Some (None, keys @ concat (map packet_issuers ps))"
proof (induction ps arbitrary: pre keys)
  case Nil
  then show ?case by (simp add: keyid_loop.simps sig_len_def)
next
  case (Cons p ps)
  then show ?case
    using extract_packet [of p pre "concat (map packet_bytes ps)" keys] Cons.IH [of "pre @ packet_bytes p" "keys @ packet_issuers p"]
    by simp
qed

text \<open>C21: from the bytes of signature packets, \<open>alpm_extract_keyid\<close> gets back the issuers of the packets,
  in order: of each packet the first issuer among the hashed subpackets and the first among the others,
  in hexadecimal. It returns 0, for any number of packets, algorithms and other subpackets of
  lengths of one or two bytes.\<close>

theorem keyids_of_signature:
  assumes "list_all good_packet ps" "length (concat (map packet_bytes ps)) < 2 ^ 64"
  shows "alpm_extract_keyid (concat (map packet_bytes ps)) keys = Some (None, keys @ concat (map packet_issuers ps))"
  using extract_packets [of ps "[]" keys] assms by (simp add: alpm_extract_keyid_def)

definition sample_sig :: sig_packet where
  "sample_sig = \<lparr>sp_algos = (1, 8), sp_hashed = [(2, [90, 0, 0, 1]), (33, [4, 1, 2])],
     sp_unhashed = [(16, [0x7F, 0x2D, 0x43, 0x4B, 0x97, 0x41, 0xE8, 0xAC])], sp_rest = [17, 34, 7, 255]\<rparr>"

theorem keyids_of_signature_witness:
  "alpm_extract_keyid (concat (map packet_bytes [sample_sig, sample_sig])) [] =
    Some (None, [''7F2D434B9741E8AC'', ''7F2D434B9741E8AC''])"
proof -
  have bytes: "area (sp_hashed sample_sig) = [5, 2, 90, 0, 0, 1, 4, 33, 4, 1, 2]"
    "area (sp_unhashed sample_sig) = [9, 16, 0x7F, 0x2D, 0x43, 0x4B, 0x97, 0x41, 0xE8, 0xAC]"
    by (simp_all add: area_def sub_bytes_def sample_sig_def)
  then have "list_all good_packet [sample_sig, sample_sig]"
    unfolding good_packet_def length_body by (simp add: good_packet_def good_sub_def sample_sig_def)
  moreover have "length (concat (map packet_bytes [sample_sig, sample_sig])) < 2 ^ 64"
    using bytes by (simp add: packet_bytes_def length_body size16_def sample_sig_def)
  moreover have "concat (map packet_issuers [sample_sig, sample_sig]) = [''7F2D434B9741E8AC'', ''7F2D434B9741E8AC'']" by code_simp
  ultimately show ?thesis using keyids_of_signature [of "[sample_sig, sample_sig]" "[]"] by simp
qed

section \<open>Signatures that are not well formed\<close>

text \<open>
  The length of a packet is not compared with the size of the file: three bytes make the function read
  past them, and so do sizes that end before the second of two bytes.
\<close>

lemma extract_reads_past_end: "alpm_extract_keyid [0x80, 1, 4] [] = Some (Some Outside, [])"
  by (simp add: alpm_extract_keyid_def keyid_loop.simps packet_start_def packet_header_def old_header_def byte_at_def
      length_check_def sig_len_def body_start_def)

text \<open>
  A length of \<open>-5\<close> moves the position back to the packet's start: the loop goes on for ever.
\<close>

definition endless_sig :: "u8 list" where
  "endless_sig = [0x82, 255, 255, 255, 251, 4, 0, 1, 8, 0, 0, 0, 0, 0, 0]"

lemma endless_bytes:
  "packet_start endless_sig 0 = Inr (- 5, 0, 11)" "unhashed_start endless_sig 11 = Inr (0, 13)" "0 < sig_len endless_sig"
  by (simp_all add: packet_start_def packet_header_def old_header_def byte_at_def length_check_def sig_len_def body_start_def
      unhashed_start_def endless_sig_def be32_def be16_def Let_def)

lemma extract_does_not_return: "alpm_extract_keyid endless_sig keys = None"
proof -
  have "\<not> (sig = endless_sig \<and> pos = 0)" if "keyid_loop sig pos keys = Some r" for sig pos keys r
    using that
  proof (rule keyid_loop.raw_induct [rotated])
    fix f :: "u8 list \<Rightarrow> u64 \<Rightarrow> string list \<Rightarrow> (sig_fault option \<times> string list) option" and sig pos keys r
    assume "\<And>sig pos keys r. f sig pos keys = Some r \<Longrightarrow> \<not> (sig = endless_sig \<and> pos = 0)"
    then have "f endless_sig 0 ks = None" for ks by (metis not_None_eq)
    then show "\<not> (sig = endless_sig \<and> pos = 0)" if "(if \<not> pos < sig_len sig then Some (None, keys)
      else
        (case packet_start sig pos of
           Inl e \<Rightarrow> Some (Some e, keys)
         | Inr (blen, hlen, pos) \<Rightarrow>
             (case parse_subpacket sig pos hlen keys of
                None \<Rightarrow> None
              | Some (e, keys) \<Rightarrow>
                  if e \<noteq> None then Some (e, keys)
                  else
                    (case unhashed_start sig (pos + hlen) of
                       Inl e \<Rightarrow> Some (Some e, keys)
                     | Inr (ulen, pos) \<Rightarrow>
                         (case parse_subpacket sig pos ulen keys of
                            None \<Rightarrow> None
                          | Some (e, keys) \<Rightarrow>
                              if e \<noteq> None then Some (e, keys)
                              else f sig (pos + (blen - hlen - 8)) keys))))) = Some r"
      using that endless_bytes by (auto simp: parse_subpacket_def subpacket_loop.simps)
  qed
  then show ?thesis unfolding alpm_extract_keyid_def by (metis not_None_eq)
qed

end
