(* ===== verification/AlpmSigning.thy ===== *)
theory AlpmSigning
  imports AlpmKeyid AlpmBase64 AlpmHandle
begin

text \<open>
  Signatures (\<open>lib/libalpm/signing.c\<close>): looking up and importing keys, checking the signature of a
  file, and deciding whether it is good enough. GPGME is not part of the repository: its functions are
  an argument, and what it keeps, such as the keyring, is a value of a type of its own that they pass on.
\<close>

unbundle bit_operations_syntax

section \<open>GPGME\<close>

datatype gpg_err =
    GPG_ERR_NO_ERROR | GPG_ERR_EOF | GPG_ERR_KEY_EXPIRED | GPG_ERR_SIG_EXPIRED | GPG_ERR_NO_PUBKEY
  | GPG_ERR_BAD_SIGNATURE | Other_gpg_err nat

datatype gpg_validity =
    GPGME_VALIDITY_UNKNOWN | GPGME_VALIDITY_UNDEFINED | GPGME_VALIDITY_NEVER | GPGME_VALIDITY_MARGINAL
  | GPGME_VALIDITY_FULL | GPGME_VALIDITY_ULTIMATE

datatype gpg_algo =
    GPGME_PK_RSA | GPGME_PK_RSA_E | GPGME_PK_RSA_S | GPGME_PK_DSA | GPGME_PK_ELG_E | GPGME_PK_ELG
  | GPGME_PK_ECDSA | GPGME_PK_ECDH | GPGME_PK_ECC | GPGME_PK_EDDSA | Other_algo nat

record gpg_uid =
  gu_uid :: string
  gu_name :: string
  gu_email :: string

text \<open>A key, with what its first subkey, which every key has, says.\<close>

record gpg_key =
  gk_fpr :: "string option"
  gk_keyid :: string
  gk_timestamp :: int
  gk_expires :: int
  gk_length :: nat
  gk_revoked :: bool
  gk_algo :: gpg_algo
  gk_uids :: "gpg_uid list"
  gk_disabled :: bool

record gpg_signature =
  gs_fpr :: string
  gs_status :: gpg_err
  gs_validity :: gpg_validity

record import_result =
  considered :: nat
  imports_result :: "gpg_err list"

datatype signature_source = Sig_bytes "u8 list" | Sig_file string

abbreviation GPGME_KEYLIST_MODE_LOCAL :: u32 where "GPGME_KEYLIST_MODE_LOCAL \<equiv> 1"
abbreviation GPGME_KEYLIST_MODE_EXTERN :: u32 where "GPGME_KEYLIST_MODE_EXTERN \<equiv> 2"
abbreviation GPGME_KEYLIST_MODE_LOCATE :: u32 where "GPGME_KEYLIST_MODE_LOCATE \<equiv> 3"

text \<open>
  \<open>g_setup\<close> is the first error of the three calls that set up the engine; what \<open>g_get_key\<close> does
  depends on the mode of the context, which is the local keyring unless it is changed. \<open>g_import_key\<close>
  is the answer to the question, \<open>g_open\<close> whether \<open>fopen\<close> opens a file for reading,
  \<open>g_malloc\<close> what a block of memory has in it when it is allocated.
\<close>

record 'r pgp_env =
  have_gpgme :: bool
  g_malloc :: "nat \<Rightarrow> u8 list"
  g_readable :: "string \<Rightarrow> bool"
  g_writable :: "string \<Rightarrow> bool"
  g_open :: "string \<Rightarrow> bool"
  g_setup :: gpg_err
  g_new :: gpg_err
  g_mode :: "u32 \<Rightarrow> gpg_err"
  g_file_data :: gpg_err
  g_sig_data :: gpg_err
  g_get_key :: "u32 \<Rightarrow> string \<Rightarrow> 'r \<Rightarrow> (gpg_err \<times> gpg_key) \<times> 'r"
  g_import :: "gpg_key \<Rightarrow> 'r \<Rightarrow> (gpg_err \<times> import_result) \<times> 'r"
  g_verify :: "signature_source \<Rightarrow> string \<Rightarrow> 'r \<Rightarrow> (gpg_err \<times> gpg_signature list) \<times> 'r"
  g_import_key :: "string option \<Rightarrow> string \<Rightarrow> bool"

text \<open>\<open>pgp_init\<close> is the static variable of \<open>init_gpgme\<close>.\<close>

record 'r pgp_state =
  pgp_handle :: alpm_handle_t
  pgp_init :: bool
  pgp_ring :: 'r

definition sig_errno :: "alpm_errno_t \<Rightarrow> 'r pgp_state \<Rightarrow> 'r pgp_state" where
  "sig_errno e st = st\<lparr>pgp_handle := (pgp_handle st)\<lparr>pm_errno := e\<rparr>\<rparr>"

section \<open>Results\<close>

datatype alpm_sigstatus_t =
    ALPM_SIGSTATUS_VALID | ALPM_SIGSTATUS_KEY_EXPIRED | ALPM_SIGSTATUS_SIG_EXPIRED
  | ALPM_SIGSTATUS_KEY_UNKNOWN | ALPM_SIGSTATUS_KEY_DISABLED | ALPM_SIGSTATUS_INVALID

datatype alpm_sigvalidity_t =
    ALPM_SIGVALIDITY_FULL | ALPM_SIGVALIDITY_MARGINAL | ALPM_SIGVALIDITY_NEVER | ALPM_SIGVALIDITY_UNKNOWN

record alpm_pgpkey_t =
  kdata :: "gpg_key option"
  kfingerprint :: "string option"
  kuid :: "string option"
  kname :: "string option"
  kemail :: "string option"
  kcreated :: int
  kexpires :: int
  klength :: nat
  krevoked :: bool
  kpubkey_algo :: char

record alpm_sigresult_t =
  skey :: alpm_pgpkey_t
  sstatus :: alpm_sigstatus_t
  svalidity :: alpm_sigvalidity_t

type_synonym alpm_siglist_t = "alpm_sigresult_t list"

definition no_pgpkey :: alpm_pgpkey_t where
  "no_pgpkey = \<lparr>kdata = None, kfingerprint = None, kuid = None, kname = None, kemail = None, kcreated = 0, kexpires = 0,
     klength = 0, krevoked = False, kpubkey_algo = CHR 0x00\<rparr>"

text \<open>A result as \<open>calloc\<close> makes it.\<close>

definition no_result :: alpm_sigresult_t where
  "no_result = \<lparr>skey = no_pgpkey, sstatus = ALPM_SIGSTATUS_VALID, svalidity = ALPM_SIGVALIDITY_FULL\<rparr>"

section \<open>Decoding and paths\<close>

text \<open>
  The buffer keeps what was in it where the decoder does not write: for text without a significant
  character, \<open>base64_decode\<close> leaves the size as it is.
\<close>

definition alpm_decode_signature :: "(nat \<Rightarrow> u8 list) \<Rightarrow> string \<Rightarrow> u8 list option" where
  "alpm_decode_signature malloc base64_data =
     (let usline = map (\<lambda>c. of_nat (of_char c)) base64_data;
          destlen = length usline * 3 div 4
      in case base64_decode destlen usline of
           (B64_OK, n, out) \<Rightarrow> Some (take n (out @ drop (length out) (malloc destlen)))
         | _ \<Rightarrow> None)"

definition alpm_sigpath :: "string option \<Rightarrow> string option" where
  "alpm_sigpath path = map_option (\<lambda>p. p @ ''.sig'') path"

definition in_dir :: "string option \<Rightarrow> string \<Rightarrow> string" where
  "in_dir dir file = (case dir of None \<Rightarrow> file | Some d \<Rightarrow> d @ file)"

section \<open>Keys\<close>

definition init_gpgme :: "'r pgp_env \<Rightarrow> 'r pgp_state \<Rightarrow> int \<times> 'r pgp_state" where
  "init_gpgme env st =
     (if pgp_init st then (0, st)
      else
        let sigdir = gpgdir (pgp_handle st);
            st = (if \<not> g_readable env (in_dir sigdir ''pubring.gpg'') \<or> \<not> g_readable env (in_dir sigdir ''trustdb.gpg'')
                  then sig_errno ALPM_ERR_NOT_A_FILE st else st)
        in if g_setup env \<noteq> GPG_ERR_NO_ERROR then (-1, sig_errno ALPM_ERR_GPGME st)
           else (0, st\<lparr>pgp_init := True\<rparr>))"

definition get_key :: "'r pgp_env \<Rightarrow> u32 \<Rightarrow> string \<Rightarrow> 'r pgp_state \<Rightarrow> (gpg_err \<times> gpg_key) \<times> 'r pgp_state" where
  "get_key env mode fpr st = (let (r, ring) = g_get_key env mode fpr (pgp_ring st) in (r, st\<lparr>pgp_ring := ring\<rparr>))"

definition alpm_key_in_keychain :: "'r pgp_env \<Rightarrow> string \<Rightarrow> 'r pgp_state \<Rightarrow> int \<times> 'r pgp_state" where
  "alpm_key_in_keychain env fpr st =
     (if \<not> have_gpgme env then (-1, sig_errno ALPM_ERR_MISSING_CAPABILITY_SIGNATURES st)
      else if alpm_list_find_str (known_keys (pgp_handle st)) fpr \<noteq> None then (1, st)
      else
        let (r, st) = init_gpgme env st
        in if r \<noteq> 0 then (-1, st)
           else if g_new env \<noteq> GPG_ERR_NO_ERROR then (-1, st)
           else
             let ((e, key), st) = get_key env GPGME_KEYLIST_MODE_LOCAL fpr st
             in if e = GPG_ERR_EOF then (0, st)
                else if e = GPG_ERR_NO_ERROR
                then (1, st\<lparr>pgp_handle := (pgp_handle st)\<lparr>known_keys := alpm_list_add (known_keys (pgp_handle st)) fpr\<rparr>\<rparr>)
                else (-1, st))"

definition key_import_wkd :: "'r pgp_env \<Rightarrow> string \<Rightarrow> 'r pgp_state \<Rightarrow> int \<times> 'r pgp_state" where
  "key_import_wkd env email st =
     (let mode = GPGME_KEYLIST_MODE_LOCAL OR GPGME_KEYLIST_MODE_LOCATE
      in if g_new env \<noteq> GPG_ERR_NO_ERROR \<or> g_mode env mode \<noteq> GPG_ERR_NO_ERROR then (-1, st)
         else
           let ((e, key), st) = get_key env mode email st
           in (if e = GPG_ERR_NO_ERROR then 0 else -1, st))"

definition algo_char :: "gpg_algo \<Rightarrow> char" where
  "algo_char a =
     (if a \<in> {GPGME_PK_RSA, GPGME_PK_RSA_E, GPGME_PK_RSA_S} then CHR ''R''
      else if a = GPGME_PK_DSA then CHR ''D''
      else if a \<in> {GPGME_PK_ELG_E, GPGME_PK_ELG, GPGME_PK_ECDSA, GPGME_PK_ECDH, GPGME_PK_ECC, GPGME_PK_EDDSA} then CHR ''E''
      else CHR ''?'')"

text \<open>What the library keeps of a key; \<open>None\<close> is the null pointer of a key without user ID.\<close>

definition fetched_key :: "gpg_key \<Rightarrow> alpm_pgpkey_t option" where
  "fetched_key key =
     (case gk_uids key of
        [] \<Rightarrow> None
      | u # _ \<Rightarrow>
          Some \<lparr>kdata = Some key, kfingerprint = Some (case gk_fpr key of Some f \<Rightarrow> f | None \<Rightarrow> gk_keyid key),
            kuid = Some (gu_uid u), kname = Some (gu_name u), kemail = Some (gu_email u), kcreated = gk_timestamp key,
            kexpires = gk_expires key, klength = gk_length key, krevoked = gk_revoked key, kpubkey_algo = algo_char (gk_algo key)\<rparr>)"

definition key_search_keyserver ::
  "'r pgp_env \<Rightarrow> string \<Rightarrow> 'r pgp_state \<Rightarrow> ((int \<times> alpm_pgpkey_t) \<times> 'r pgp_state) option" where
  "key_search_keyserver env fpr st =
     (let mode = (GPGME_KEYLIST_MODE_LOCAL AND NOT GPGME_KEYLIST_MODE_LOCAL) OR GPGME_KEYLIST_MODE_EXTERN
      in if g_new env \<noteq> GPG_ERR_NO_ERROR \<or> g_mode env mode \<noteq> GPG_ERR_NO_ERROR then Some ((-1, no_pgpkey), st)
         else
           let ((e, key), st) = get_key env mode (''0x'' @ fpr) st;
               (ret, (e, key), st) =
                 (if e = GPG_ERR_EOF then
                    if 8 < length fpr then
                      let ((e, key), st) = get_key env mode (''0x'' @ drop (length fpr - 8) fpr) st
                      in (if e = GPG_ERR_EOF then 0 else -1, (e, key), st)
                    else (0, (e, key), st)
                  else (-1, (e, key), st))
           in if e \<noteq> GPG_ERR_NO_ERROR then Some ((ret, no_pgpkey), st)
              else map_option (\<lambda>k. ((1, k), st)) (fetched_key key))"

definition key_import_keyserver :: "'r pgp_env \<Rightarrow> alpm_pgpkey_t \<Rightarrow> 'r pgp_state \<Rightarrow> int \<times> 'r pgp_state" where
  "key_import_keyserver env key st =
     (if \<not> g_writable env (in_dir (gpgdir (pgp_handle st)) ''pubring.gpg'') then (-1, st)
      else if g_new env \<noteq> GPG_ERR_NO_ERROR then (-1, st)
      else
        let ((e, result), ring) = g_import env (the (kdata key)) (pgp_ring st); st = st\<lparr>pgp_ring := ring\<rparr>
        in if e \<noteq> GPG_ERR_NO_ERROR then (-1, st)
           else if considered result \<noteq> 1 \<or> imports_result result = [] then (-1, st)
           else if hd (imports_result result) \<noteq> GPG_ERR_NO_ERROR then (-1, st)
           else (0, st))"

text \<open>What follows the last occurrence of a character, and what precedes it.\<close>

definition after_last :: "char \<Rightarrow> string \<Rightarrow> string" where
  "after_last c s = rev (takeWhile (\<lambda>x. x \<noteq> c) (rev s))"

definition before_last :: "char \<Rightarrow> string \<Rightarrow> string" where
  "before_last c s = rev (tl (dropWhile (\<lambda>x. x \<noteq> c) (rev s)))"

definition email_from_uid :: "string option \<Rightarrow> string option" where
  "email_from_uid uid =
     (case uid of
        None \<Rightarrow> None
      | Some u \<Rightarrow>
          if CHR ''<'' \<notin> set u then None
          else
            let tail = after_last CHR ''<'' u
            in if CHR ''>'' \<in> set tail then Some (before_last CHR ''>'' tail) else None)"

definition alpm_key_import ::
  "'r pgp_env \<Rightarrow> string option \<Rightarrow> string \<Rightarrow> 'r pgp_state \<Rightarrow> (int \<times> 'r pgp_state) option" where
  "alpm_key_import env uid fpr st =
     (if \<not> have_gpgme env then Some (-1, sig_errno ALPM_ERR_MISSING_CAPABILITY_SIGNATURES st)
      else if \<not> g_writable env (in_dir (gpgdir (pgp_handle st)) ''pubring.gpg'') then Some (-1, st)
      else if \<not> g_import_key env uid fpr then Some (-1, st)
      else
        let (ret, st) = (case email_from_uid uid of None \<Rightarrow> (-1, st) | Some email \<Rightarrow> key_import_wkd env email st)
        in if ret = 0 then Some (ret, st)
           else
             (case key_search_keyserver env fpr st of
                None \<Rightarrow> None
              | Some ((found, key), st) \<Rightarrow>
                  if found = 1 then
                    let (r, st) = key_import_keyserver env key st in Some (if r = 0 then 0 else ret, st)
                  else Some (ret, st)))"

section \<open>Checking a signature\<close>

definition status_of :: "gpg_signature \<Rightarrow> alpm_sigstatus_t" where
  "status_of g =
     (case gs_status g of
        GPG_ERR_NO_ERROR \<Rightarrow> ALPM_SIGSTATUS_VALID
      | GPG_ERR_KEY_EXPIRED \<Rightarrow> ALPM_SIGSTATUS_KEY_EXPIRED
      | GPG_ERR_SIG_EXPIRED \<Rightarrow> ALPM_SIGSTATUS_SIG_EXPIRED
      | GPG_ERR_NO_PUBKEY \<Rightarrow> ALPM_SIGSTATUS_KEY_UNKNOWN
      | _ \<Rightarrow> ALPM_SIGSTATUS_INVALID)"

definition validity_of :: "gpg_signature \<Rightarrow> alpm_sigvalidity_t" where
  "validity_of g =
     (case gs_validity g of
        GPGME_VALIDITY_ULTIMATE \<Rightarrow> ALPM_SIGVALIDITY_FULL
      | GPGME_VALIDITY_FULL \<Rightarrow> ALPM_SIGVALIDITY_FULL
      | GPGME_VALIDITY_MARGINAL \<Rightarrow> ALPM_SIGVALIDITY_MARGINAL
      | GPGME_VALIDITY_NEVER \<Rightarrow> ALPM_SIGVALIDITY_NEVER
      | _ \<Rightarrow> ALPM_SIGVALIDITY_UNKNOWN)"

text \<open>The key of a result: of a key that is not found the fingerprint, of one without user ID nothing.\<close>

definition result_key :: "gpg_signature \<Rightarrow> gpg_err \<times> gpg_key \<Rightarrow> alpm_pgpkey_t" where
  "result_key g r =
     (if fst r = GPG_ERR_EOF then no_pgpkey\<lparr>kfingerprint := Some (gs_fpr g)\<rparr>
      else
        (case gk_uids (snd r) of
           [] \<Rightarrow> no_pgpkey
         | u # _ \<Rightarrow>
             no_pgpkey\<lparr>kdata := Some (snd r), kfingerprint := gk_fpr (snd r), kuid := Some (gu_uid u), kname := Some (gu_name u),
               kemail := Some (gu_email u), kcreated := gk_timestamp (snd r), kexpires := gk_expires (snd r)\<rparr>))"

definition sig_result :: "gpg_signature \<Rightarrow> gpg_err \<times> gpg_key \<Rightarrow> alpm_sigresult_t" where
  "sig_result g r =
     (let key = result_key g r
      in \<lparr>skey = key,
          sstatus = (if (case kdata key of None \<Rightarrow> False | Some k \<Rightarrow> gk_disabled k) then ALPM_SIGSTATUS_KEY_DISABLED else status_of g),
          svalidity = validity_of g\<rparr>)"

text \<open>Results that an error leaves out are as they were allocated.\<close>

fun results_loop :: "'r pgp_env \<Rightarrow> gpg_signature list \<Rightarrow> 'r pgp_state \<Rightarrow> (gpg_err \<times> alpm_siglist_t) \<times> 'r pgp_state" where
  "results_loop env [] st = ((GPG_ERR_NO_ERROR, []), st)"
| "results_loop env (g # gs) st =
     (let (r, st) = get_key env GPGME_KEYLIST_MODE_LOCAL (gs_fpr g) st
      in if fst r \<noteq> GPG_ERR_EOF \<and> fst r \<noteq> GPG_ERR_NO_ERROR then ((fst r, replicate (Suc (length gs)) no_result), st)
         else let ((e, rs), st) = results_loop env gs st in ((e, sig_result g r # rs), st))"

text \<open>\<open>ret\<close> and the list of results; \<open>siglist\<close> is the list the caller passes.\<close>

definition verify_signature ::
  "'r pgp_env \<Rightarrow> string \<Rightarrow> signature_source \<Rightarrow> 'r pgp_state \<Rightarrow> (int \<times> alpm_siglist_t) \<times> 'r pgp_state" where
  "verify_signature env path source st =
     (if g_sig_data env \<noteq> GPG_ERR_NO_ERROR then ((-1, []), sig_errno ALPM_ERR_GPGME st)
      else
        let ((e, gs), ring) = g_verify env source path (pgp_ring st); st = st\<lparr>pgp_ring := ring\<rparr>
        in if e \<noteq> GPG_ERR_NO_ERROR then ((-1, []), sig_errno ALPM_ERR_GPGME st)
           else if gs = [] then ((-1, []), sig_errno ALPM_ERR_SIG_MISSING st)
           else
             let ((e, rs), st) = results_loop env gs st
             in if e \<noteq> GPG_ERR_NO_ERROR then ((-1, rs), sig_errno ALPM_ERR_GPGME st) else ((0, rs), st))"

definition alpm_gpgme_checksig ::
  "'r pgp_env \<Rightarrow> string option \<Rightarrow> string option \<Rightarrow> alpm_siglist_t \<Rightarrow> 'r pgp_state \<Rightarrow> (int \<times> alpm_siglist_t) \<times> 'r pgp_state" where
  "alpm_gpgme_checksig env path sig64 siglist st =
     (if \<not> have_gpgme env then ((-1, []), sig_errno ALPM_ERR_MISSING_CAPABILITY_SIGNATURES st)
      else
        (case path of
           None \<Rightarrow> ((-1, siglist), sig_errno ALPM_ERR_NOT_A_FILE st)
         | Some p \<Rightarrow>
             if \<not> g_readable env p then ((-1, siglist), sig_errno ALPM_ERR_NOT_A_FILE st)
             else if sig64 = None \<and> \<not> (g_readable env (p @ ''.sig'') \<and> g_open env (p @ ''.sig''))
             then ((-1, []), sig_errno ALPM_ERR_SIG_MISSING st)
             else if \<not> g_open env p then ((-1, []), sig_errno ALPM_ERR_NOT_A_FILE st)
             else
               let (r, st) = init_gpgme env st
               in if r \<noteq> 0 then ((-1, []), st)
                  else if g_new env \<noteq> GPG_ERR_NO_ERROR \<or> g_file_data env \<noteq> GPG_ERR_NO_ERROR
                  then ((-1, []), sig_errno ALPM_ERR_GPGME st)
                  else
                    (case sig64 of
                       None \<Rightarrow> verify_signature env p (Sig_file (p @ ''.sig'')) st
                     | Some b \<Rightarrow>
                         (case alpm_decode_signature (g_malloc env) b of
                            None \<Rightarrow> ((-1, []), sig_errno ALPM_ERR_SIG_INVALID st)
                          | Some bytes \<Rightarrow> verify_signature env p (Sig_bytes bytes) st))))"

section \<open>Whether a signature is good enough\<close>

definition result_ok :: "bool \<Rightarrow> bool \<Rightarrow> alpm_sigresult_t \<Rightarrow> bool" where
  "result_ok marginal unknown r =
     (case sstatus r of
        ALPM_SIGSTATUS_VALID \<Rightarrow>
          (case svalidity r of
             ALPM_SIGVALIDITY_FULL \<Rightarrow> True
           | ALPM_SIGVALIDITY_MARGINAL \<Rightarrow> marginal
           | ALPM_SIGVALIDITY_UNKNOWN \<Rightarrow> unknown
           | ALPM_SIGVALIDITY_NEVER \<Rightarrow> False)
      | ALPM_SIGSTATUS_KEY_EXPIRED \<Rightarrow>
          (case svalidity r of
             ALPM_SIGVALIDITY_FULL \<Rightarrow> True
           | ALPM_SIGVALIDITY_MARGINAL \<Rightarrow> marginal
           | ALPM_SIGVALIDITY_UNKNOWN \<Rightarrow> unknown
           | ALPM_SIGVALIDITY_NEVER \<Rightarrow> False)
      | _ \<Rightarrow> False)"

fun results_ok :: "bool \<Rightarrow> bool \<Rightarrow> alpm_siglist_t \<Rightarrow> int" where
  "results_ok marginal unknown [] = 0"
| "results_ok marginal unknown (r # rs) = (if result_ok marginal unknown r then results_ok marginal unknown rs else -1)"

definition alpm_check_pgp_helper ::
  "'r pgp_env \<Rightarrow> string option \<Rightarrow> string option \<Rightarrow> bool \<Rightarrow> bool \<Rightarrow> bool \<Rightarrow> 'r pgp_state
    \<Rightarrow> (int \<times> alpm_siglist_t) \<times> 'r pgp_state" where
  "alpm_check_pgp_helper env path sig64 optional marginal unknown st =
     (let ((ret, siglist), st) = alpm_gpgme_checksig env path sig64 [] st
      in if ret \<noteq> 0 \<and> pm_errno (pgp_handle st) = ALPM_ERR_SIG_MISSING then
           if optional then ((0, siglist), sig_errno ALPM_ERR_OK st) else ((ret, siglist), st)
         else if ret \<noteq> 0 then ((ret, siglist), st)
         else ((results_ok marginal unknown siglist, siglist), st))"

text \<open>
  The pass after a failed check: what can be done about it is to import a key that is not known. A
  result without fingerprint would be a null pointer for \<open>strcmp\<close>.
\<close>

fun process_results :: "'r pgp_env \<Rightarrow> alpm_siglist_t \<Rightarrow> int \<Rightarrow> 'r pgp_state \<Rightarrow> (int \<times> 'r pgp_state) option" where
  "process_results env [] retry st = Some (retry, st)"
| "process_results env (r # rs) retry st =
     (if sstatus r \<noteq> ALPM_SIGSTATUS_KEY_UNKNOWN then process_results env rs retry st
      else
        (case kfingerprint (skey r) of
           None \<Rightarrow> if have_gpgme env then None else process_results env rs retry st
         | Some fpr \<Rightarrow>
             let (known, st) = alpm_key_in_keychain env fpr st
             in if known = 1 then process_results env rs retry st
                else
                  (case alpm_key_import env (kuid (skey r)) fpr st of
                     None \<Rightarrow> None
                   | Some (i, st) \<Rightarrow> process_results env rs (if i = 0 then 1 else retry) st)))"

definition alpm_process_siglist :: "'r pgp_env \<Rightarrow> alpm_siglist_t \<Rightarrow> 'r pgp_state \<Rightarrow> (int \<times> 'r pgp_state) option" where
  "alpm_process_siglist env siglist st = process_results env siglist 0 st"

section \<open>The interface\<close>

definition alpm_pkg_check_pgp_signature ::
  "'r pgp_env \<Rightarrow> alpm_pkg_t option \<Rightarrow> alpm_siglist_t option \<Rightarrow> 'r pgp_state \<Rightarrow> (int \<times> alpm_siglist_t option) \<times> 'r pgp_state" where
  "alpm_pkg_check_pgp_signature env pkg siglist st =
     (case (pkg, siglist) of
        (None, _) \<Rightarrow> ((-1, siglist), st)
      | (Some p, None) \<Rightarrow> ((-1, None), sig_errno ALPM_ERR_WRONG_ARGS st)
      | (Some p, Some l) \<Rightarrow>
          let ((r, l), st) = alpm_gpgme_checksig env (filename p) (base64_sig p) l (sig_errno ALPM_ERR_OK st)
          in ((r, Some l), st))"

text \<open>Of a database, the path that \<open>_alpm_db_path\<close> gives.\<close>

definition alpm_db_check_pgp_signature ::
  "'r pgp_env \<Rightarrow> string option option \<Rightarrow> alpm_siglist_t option \<Rightarrow> 'r pgp_state \<Rightarrow> (int \<times> alpm_siglist_t option) \<times> 'r pgp_state" where
  "alpm_db_check_pgp_signature env db siglist st =
     (case (db, siglist) of
        (None, _) \<Rightarrow> ((-1, siglist), st)
      | (Some p, None) \<Rightarrow> ((-1, None), sig_errno ALPM_ERR_WRONG_ARGS st)
      | (Some p, Some l) \<Rightarrow>
          let ((r, l), st) = alpm_gpgme_checksig env p None l (sig_errno ALPM_ERR_OK st) in ((r, Some l), st))"

definition alpm_siglist_cleanup :: "alpm_siglist_t option \<Rightarrow> int \<times> alpm_siglist_t option" where
  "alpm_siglist_cleanup siglist = (case siglist of None \<Rightarrow> (-1, None) | Some _ \<Rightarrow> (0, Some []))"

section \<open>What is accepted\<close>

text \<open>The signatures gpgme reports that are good enough for a level.\<close>

definition good_signature :: "bool \<Rightarrow> bool \<Rightarrow> gpg_signature \<Rightarrow> bool" where
  "good_signature marginal unknown g \<longleftrightarrow>
     gs_status g \<in> {GPG_ERR_NO_ERROR, GPG_ERR_KEY_EXPIRED} \<and>
     (gs_validity g \<in> {GPGME_VALIDITY_FULL, GPGME_VALIDITY_ULTIMATE} \<or>
      marginal \<and> gs_validity g = GPGME_VALIDITY_MARGINAL \<or>
      unknown \<and> gs_validity g \<in> {GPGME_VALIDITY_UNKNOWN, GPGME_VALIDITY_UNDEFINED})"

text \<open>The source of the signature of a file, if there is one.\<close>

definition signature_of :: "'r pgp_env \<Rightarrow> string \<Rightarrow> string option \<Rightarrow> signature_source option" where
  "signature_of env p sig64 =
     (case sig64 of
        None \<Rightarrow> if g_readable env (p @ ''.sig'') \<and> g_open env (p @ ''.sig'') then Some (Sig_file (p @ ''.sig'')) else None
      | Some b \<Rightarrow> map_option Sig_bytes (alpm_decode_signature (g_malloc env) b))"

lemma results_ok_iff: "results_ok marginal unknown l = 0 \<longleftrightarrow> list_all (result_ok marginal unknown) l"
  by (induction l) auto

lemma result_ok_good: "result_ok marginal unknown (sig_result g r) \<Longrightarrow> good_signature marginal unknown g"
  by (cases "gs_status g"; cases "gs_validity g")
    (auto simp: result_ok_def sig_result_def good_signature_def status_of_def validity_of_def Let_def split: if_splits option.splits)

lemma results_loop_good:
  "results_loop env gs st = ((GPG_ERR_NO_ERROR, rs), st') \<Longrightarrow> list_all (result_ok marginal unknown) rs \<Longrightarrow>
   list_all (good_signature marginal unknown) gs"
  by (induction gs arbitrary: st rs)
    (auto simp: Let_def dest: result_ok_good split: prod.splits if_splits)

lemma init_keeps: "pgp_ring (snd (init_gpgme env st)) = pgp_ring st"
  by (auto simp: init_gpgme_def sig_errno_def Let_def)

lemma sig_errno_simps [simp]: "pgp_ring (sig_errno e st) = pgp_ring st" "pm_errno (pgp_handle (sig_errno e st)) = e"
  by (simp_all add: sig_errno_def)

lemma verify_signature_cases:
  assumes "verify_signature env p src st = ((r, l), st')"
  shows "r = 0 \<and> (\<exists>gs ring'. g_verify env src p (pgp_ring st) = ((GPG_ERR_NO_ERROR, gs), ring') \<and> gs \<noteq> [] \<and>
      (\<forall>m u. list_all (result_ok m u) l \<longrightarrow> list_all (good_signature m u) gs))
    \<or> r = -1 \<and> pm_errno (pgp_handle st') = ALPM_ERR_GPGME
    \<or> r = -1 \<and> pm_errno (pgp_handle st') = ALPM_ERR_SIG_MISSING \<and> l = [] \<and>
      fst (g_verify env src p (pgp_ring st)) = (GPG_ERR_NO_ERROR, [])"
  using assms results_loop_good
  by (auto simp: verify_signature_def Let_def split: prod.splits if_splits)

text \<open>
  A check that succeeds has gone through gpgme; one that reports a missing signature has found no file,
  or gpgme no signature in it.
\<close>

lemma init_cases:
  "init_gpgme env st = (i, st1) \<Longrightarrow> pgp_ring st1 = pgp_ring st \<and> (i = 0 \<or> i = -1 \<and> pm_errno (pgp_handle st1) = ALPM_ERR_GPGME)"
  by (auto simp: init_gpgme_def sig_errno_def Let_def split: if_splits)

definition check_ok :: "'r pgp_env \<Rightarrow> string \<Rightarrow> string option \<Rightarrow> 'r \<Rightarrow> alpm_siglist_t \<Rightarrow> bool" where
  "check_ok env p sig64 ring l \<longleftrightarrow>
     (\<exists>src gs ring'. signature_of env p sig64 = Some src \<and> g_verify env src p ring = ((GPG_ERR_NO_ERROR, gs), ring') \<and> gs \<noteq> [] \<and>
       (\<forall>m u. list_all (result_ok m u) l \<longrightarrow> list_all (good_signature m u) gs))"

definition no_signature :: "'r pgp_env \<Rightarrow> string \<Rightarrow> string option \<Rightarrow> 'r \<Rightarrow> bool" where
  "no_signature env p sig64 ring \<longleftrightarrow>
     sig64 = None \<and> signature_of env p sig64 = None \<or>
     (\<exists>src. signature_of env p sig64 = Some src \<and> fst (g_verify env src p ring) = (GPG_ERR_NO_ERROR, []))"

lemma verify_cases:
  assumes "verify_signature env p src st1 = ((r, l), st')" "pgp_ring st1 = ring" "signature_of env p sig64 = Some src"
  shows "r = 0 \<and> check_ok env p sig64 ring l
    \<or> r = -1 \<and> (pm_errno (pgp_handle st') = ALPM_ERR_SIG_MISSING \<longrightarrow> no_signature env p sig64 ring)"
  using verify_signature_cases [OF assms(1)] assms(2,3) by (auto simp: check_ok_def no_signature_def)

lemma checksig_cases:
  assumes "alpm_gpgme_checksig env path sig64 [] st = ((r, l), st')"
  shows "r = 0 \<and> (\<exists>p. path = Some p \<and> g_readable env p \<and> check_ok env p sig64 (pgp_ring st) l)
    \<or> r = -1 \<and> (pm_errno (pgp_handle st') = ALPM_ERR_SIG_MISSING \<longrightarrow>
        (\<exists>p. path = Some p \<and> g_readable env p \<and> no_signature env p sig64 (pgp_ring st)))"
proof (cases "have_gpgme env \<and> (\<exists>p. path = Some p \<and> g_readable env p)")
  case False
  then show ?thesis using assms by (auto simp: alpm_gpgme_checksig_def split: option.splits if_splits)
next
  case True
  then obtain p where p: "have_gpgme env" "path = Some p" "g_readable env p" by blast
  obtain i st1 where i: "init_gpgme env st = (i, st1)" by fastforce
  show ?thesis
  proof (cases sig64)
    case None
    show ?thesis
    proof (cases "signature_of env p None")
      case (Some src)
      then show ?thesis using assms p i init_cases [OF i] None verify_cases [of env p src st1 r l st' "pgp_ring st" None]
        by (auto simp: alpm_gpgme_checksig_def signature_of_def split: if_splits)
    qed (use assms p None in \<open>auto simp: alpm_gpgme_checksig_def signature_of_def no_signature_def split: if_splits\<close>)
  next
    case (Some b)
    show ?thesis
    proof (cases "alpm_decode_signature (g_malloc env) b")
      case (Some bytes)
      then show ?thesis using assms p i init_cases [OF i] \<open>sig64 = Some b\<close>
          verify_cases [of env p "Sig_bytes bytes" st1 r l st' "pgp_ring st" "Some b"]
        by (auto simp: alpm_gpgme_checksig_def signature_of_def split: if_splits)
    qed (use assms p i init_cases [OF i] Some in \<open>auto simp: alpm_gpgme_checksig_def split: if_splits\<close>)
  qed
qed

lemma helper_accepts:
  assumes "alpm_check_pgp_helper env path sig64 optional marginal unknown st = ((0, l), st')"
  shows "\<exists>p. path = Some p \<and> g_readable env p \<and>
    ((\<exists>src gs ring. signature_of env p sig64 = Some src \<and> g_verify env src p (pgp_ring st) = ((GPG_ERR_NO_ERROR, gs), ring) \<and>
        gs \<noteq> [] \<and> list_all (good_signature marginal unknown) gs)
     \<or> optional \<and> no_signature env p sig64 (pgp_ring st))"
proof -
  obtain r l1 st1 where c: "alpm_gpgme_checksig env path sig64 [] st = ((r, l1), st1)" by (metis surj_pair)
  show ?thesis
    using assms c checksig_cases [OF c]
    by (auto simp: alpm_check_pgp_helper_def results_ok_iff check_ok_def split: if_splits)
qed

text \<open>C13: when a signature is required, \<open>_alpm_check_pgp_helper\<close> accepts a file only if the file can be
  read, there is signature data for it (what the package's base64 text decodes to, or the file
  beside it), gpgme has verified the file against that data without an error and has found at
  least one signature, and every signature it found is valid or valid by an expired key and
  trusted fully, or marginally or not at all where the level allows that. Where a signature is
  optional, the only other files it accepts are those without one: no file beside it, or data in
  which gpgme finds no signature.\<close>

theorem accepted_signatures_are_good:
  assumes "alpm_check_pgp_helper env path sig64 optional marginal unknown st = ((0, l), st')"
  shows "\<exists>p. path = Some p \<and> g_readable env p \<and>
    ((\<exists>src gs ring. signature_of env p sig64 = Some src \<and> g_verify env src p (pgp_ring st) = ((GPG_ERR_NO_ERROR, gs), ring) \<and>
        gs \<noteq> [] \<and> list_all (good_signature marginal unknown) gs)
     \<or> optional \<and> no_signature env p sig64 (pgp_ring st))"
  using assms by (rule helper_accepts)

definition sample_key :: gpg_key where
  "sample_key = \<lparr>gk_fpr = Some ''AB'', gk_keyid = ''AB'', gk_timestamp = 0, gk_expires = 0, gk_length = 4096, gk_revoked = False,
     gk_algo = GPGME_PK_RSA, gk_uids = [\<lparr>gu_uid = ''A <a@b>'', gu_name = ''A'', gu_email = ''a@b''\<rparr>], gk_disabled = False\<rparr>"

definition sample_pgp :: "nat pgp_env" where
  "sample_pgp =
     \<lparr>have_gpgme = True, g_malloc = \<lambda>n. replicate n 0, g_readable = \<lambda>_. True, g_writable = \<lambda>_. True, g_open = \<lambda>_. True, g_setup = GPG_ERR_NO_ERROR,
      g_new = GPG_ERR_NO_ERROR, g_mode = \<lambda>_. GPG_ERR_NO_ERROR, g_file_data = GPG_ERR_NO_ERROR, g_sig_data = GPG_ERR_NO_ERROR,
      g_get_key = \<lambda>_ _ r. ((GPG_ERR_NO_ERROR, sample_key), r),
      g_import = \<lambda>_ r. ((GPG_ERR_NO_ERROR, \<lparr>considered = 1, imports_result = [GPG_ERR_NO_ERROR]\<rparr>), r + 1),
      g_verify = \<lambda>_ _ r. ((GPG_ERR_NO_ERROR,
        [\<lparr>gs_fpr = ''AB'', gs_status = GPG_ERR_NO_ERROR, gs_validity = GPGME_VALIDITY_MARGINAL\<rparr>]), r),
      g_import_key = \<lambda>_ _. True\<rparr>"

definition sample_pgp_state :: "nat pgp_state" where
  "sample_pgp_state = \<lparr>pgp_handle = alpm_handle_new, pgp_init = False, pgp_ring = 0\<rparr>"

theorem accepted_signatures_are_good_witness:
  "\<exists>p. Some ''a.pkg'' = Some p \<and> g_readable sample_pgp p \<and>
    ((\<exists>src gs ring. signature_of sample_pgp p (Some ''aGk='') = Some src \<and>
        g_verify sample_pgp src p (pgp_ring sample_pgp_state) = ((GPG_ERR_NO_ERROR, gs), ring) \<and>
        gs \<noteq> [] \<and> list_all (good_signature True False) gs)
     \<or> False \<and> no_signature sample_pgp p (Some ''aGk='') (pgp_ring sample_pgp_state))"
proof -
  have d: "alpm_decode_signature (\<lambda>n. replicate n 0) ''aGk='' = Some [104, 105]" by code_simp
  obtain l st' where "alpm_check_pgp_helper sample_pgp (Some ''a.pkg'') (Some ''aGk='') False True False sample_pgp_state = ((0, l), st')"
    by (simp add: alpm_check_pgp_helper_def alpm_gpgme_checksig_def sample_pgp_def sample_pgp_state_def init_gpgme_def d
        verify_signature_def get_key_def Let_def result_ok_def sig_result_def status_of_def validity_of_def result_key_def sample_key_def)
  then show ?thesis by (rule accepted_signatures_are_good)
qed

section \<open>Reading what others write\<close>

text \<open>The text of a signature in a sync database gives the signature back.\<close>

lemma decode_signature_encode:
  assumes "xs \<noteq> []"
  shows "alpm_decode_signature malloc (map (\<lambda>b. char_of (unat b)) (base64_encode xs)) = Some xs"
proof -
  define src where "src = map (\<lambda>c. of_nat (of_char c) :: u8) (map (\<lambda>b. char_of (unat b)) (base64_encode xs))"
  have "unat b mod 256 = unat b" for b :: u8 using unsigned_less [of b, where ?'a=nat] by simp
  then have "src = base64_encode xs" by (simp add: src_def o_def of_char_of take_bit_eq_mod)
  moreover have "(length (base64_encode xs) * 6 + 7) div 8 \<le> length (base64_encode xs) * 3 div 4"
    unfolding length_encode by simp
  ultimately show ?thesis
    using base64_roundtrip [OF assms] unfolding alpm_decode_signature_def Let_def src_def [symmetric] by simp
qed

lemma after_last_append: "c \<notin> set t \<Longrightarrow> after_last c (s @ c # t) = t"
proof -
  assume "c \<notin> set t"
  then have e: "takeWhile (\<lambda>x. x \<noteq> c) (rev t) = rev t" by (intro takeWhile_eq_all_conv [THEN iffD2]) auto
  show ?thesis by (simp add: after_last_def takeWhile_tail e)
qed

lemma before_last_append: "c \<notin> set t \<Longrightarrow> before_last c (s @ c # t) = s"
proof -
  assume "c \<notin> set t"
  then have "dropWhile (\<lambda>x. x \<noteq> c) (rev t @ c # rev s) = c # rev s" by (subst dropWhile_append2) auto
  then show ?thesis by (simp add: before_last_def)
qed

text \<open>The address of a user ID, whatever the name is.\<close>

lemma email_of_uid:
  assumes "CHR ''<'' \<notin> set mail"
  shows "email_from_uid (Some (name @ '' <'' @ mail @ ''>'')) = Some mail"
proof -
  have "name @ '' <'' @ mail @ ''>'' = (name @ '' '') @ CHR ''<'' # (mail @ ''>'')" by simp
  then have a: "after_last CHR ''<'' (name @ '' <'' @ mail @ ''>'') = mail @ ''>''"
    using after_last_append [of "CHR ''<''" "mail @ ''>''" "name @ '' ''"] assms by simp
  have b: "before_last CHR ''>'' (mail @ ''>'') = mail" using before_last_append [of "CHR ''>''" "[]" mail] by simp
  show ?thesis using a b by (simp add: email_from_uid_def)
qed

end
