(* ===== verification/AlpmStream.thy ===== *)
theory AlpmStream
  imports AlpmPrelude
begin

text \<open>
  Streams of \<open>lib/libalpm/util.c\<close>: lines out of the blocks of an archive, the pipes to and from a
  program that runs in a chroot, and copying a file. What the calls of the system return is an
  argument; bytes are characters, NUL included.
\<close>

abbreviation NL :: char where "NL \<equiv> CHR 0x0A"
abbreviation NUL :: char where "NUL \<equiv> CHR 0x00"

section \<open>Lines out of blocks\<close>

text \<open>
  What is left of the block, the line (\<open>None\<close> before it is allocated) with the size it has, and
  the last result of the archive: \<open>0\<close>, \<open>1\<close> at its end, negative for an error.
\<close>

record archive_read_buffer =
  block_rest :: string
  bline :: "string option"
  line_size :: nat
  max_line_size :: nat
  real_line_size :: nat
  bret :: int

abbreviation ARCHIVE_OK :: int where "ARCHIVE_OK \<equiv> 0"
abbreviation ARCHIVE_EOF :: int where "ARCHIVE_EOF \<equiv> 1"
abbreviation ERANGE :: int where "ERANGE \<equiv> 34"

definition empty_buffer :: archive_read_buffer where
  "empty_buffer = \<lparr>block_rest = [], bline = None, line_size = 0, max_line_size = 0, real_line_size = 0, bret = 0\<rparr>"

text \<open>\<open>archive_read_data_block\<close>: the blocks that come, with their results; then the end of the archive.\<close>

type_synonym blocks = "(int \<times> string) list"

fun next_block :: "blocks \<Rightarrow> int \<times> string \<times> blocks" where
  "next_block [] = (ARCHIVE_EOF, [], [])"
| "next_block ((r, blk) # bs) = (r, blk, bs)"

text \<open>The index of the end of the line in the block: a newline, or a NUL if there is none.\<close>

definition find_byte :: "char \<Rightarrow> string \<Rightarrow> nat option" where
  "find_byte c s = (if c \<in> set s then Some (length (takeWhile (\<lambda>x. x \<noteq> c) s)) else None)"

definition find_eol :: "string \<Rightarrow> nat option" where
  "find_eol s = (case find_byte NL s of Some n \<Rightarrow> Some n | None \<Rightarrow> find_byte NUL s)"

text \<open>Room for what is copied next: the buffer, or nothing if the line would be too long.\<close>

definition grow_line :: "nat \<Rightarrow> nat \<Rightarrow> archive_read_buffer \<Rightarrow> archive_read_buffer option" where
  "grow_line have_len new b =
     (case bline b of
        None \<Rightarrow> Some (b\<lparr>bline := Some [], line_size := length (block_rest b) + 1\<rparr>)
      | Some _ \<Rightarrow>
          let needed = have_len + new + 1
          in if needed > max_line_size b then None
             else Some (if needed > line_size b then b\<lparr>line_size := needed\<rparr> else b))"

text \<open>
  The loop; \<open>acc\<close> is what stands between the start of the line and \<open>line_offset\<close>. An error or the
  end of the archive clears the buffer.
\<close>

function archive_fgets_loop :: "string \<Rightarrow> archive_read_buffer \<Rightarrow> blocks \<Rightarrow> int \<times> archive_read_buffer \<times> blocks" where
  "archive_fgets_loop acc b bs =
     (if block_rest b = [] \<and> bret b = ARCHIVE_EOF then (ARCHIVE_EOF, empty_buffer, bs)
      else
        let (b, bs') =
              (if block_rest b = [] then (let (r, blk, bs) = next_block bs in (b\<lparr>bret := r, block_rest := blk\<rparr>, bs))
               else (b, bs))
        in if bret b < ARCHIVE_OK then (bret b, empty_buffer, bs')
           else
             case grow_line (length acc) (case find_eol (block_rest b) of Some n \<Rightarrow> n | None \<Rightarrow> length (block_rest b)) b of
               None \<Rightarrow> (- ERANGE, empty_buffer, bs')
             | Some b \<Rightarrow>
                 (case find_eol (block_rest b) of
                    Some n \<Rightarrow>
                      (ARCHIVE_OK,
                       b\<lparr>bline := Some (acc @ take n (block_rest b)), real_line_size := length acc + n,
                         block_rest := drop (n + 1) (block_rest b)\<rparr>, bs')
                  | None \<Rightarrow>
                      if block_rest b = [] then (ARCHIVE_OK, b\<lparr>bline := Some acc, real_line_size := length acc\<rparr>, bs')
                      else archive_fgets_loop (acc @ block_rest b) (b\<lparr>block_rest := []\<rparr>) bs'))"
  by pat_completeness auto

termination
proof (relation "measure (\<lambda>(acc, b, bs). length bs + (if block_rest b = [] then 0 else 1))")
  fix acc :: string and b c d :: archive_read_buffer and bs bs' :: blocks and x
  assume x: "x = (if block_rest b = [] then (let (r, blk, bs) = next_block bs in (b\<lparr>bret := r, block_rest := blk\<rparr>, bs)) else (b, bs))"
    "(c, bs') = x" "block_rest d \<noteq> []"
    "grow_line (length acc) (case find_eol (block_rest c) of Some n \<Rightarrow> n | None \<Rightarrow> length (block_rest c)) c = Some d"
  have "block_rest d = block_rest c" using x(4) by (auto simp: grow_line_def Let_def split: option.splits if_splits)
  then show "((acc @ block_rest d, d\<lparr>block_rest := []\<rparr>, bs'), acc, b, bs)
      \<in> measure (\<lambda>(acc, b, bs). length bs + (if block_rest b = [] then 0 else 1))"
    using x by (cases bs) (auto split: if_splits prod.splits)
qed simp

declare archive_fgets_loop.simps [simp del]

definition alpm_archive_fgets :: "archive_read_buffer \<Rightarrow> blocks \<Rightarrow> int \<times> archive_read_buffer \<times> blocks" where
  "alpm_archive_fgets b bs = archive_fgets_loop [] b bs"

text \<open>The lines of so many calls, up to the result that ends them; \<open>None\<close> if that has not come.\<close>

fun archive_lines :: "nat \<Rightarrow> archive_read_buffer \<Rightarrow> blocks \<Rightarrow> (string list \<times> int) option" where
  "archive_lines 0 b bs = None"
| "archive_lines (Suc n) b bs =
     (case alpm_archive_fgets b bs of
        (r, b, bs) \<Rightarrow>
          if r \<noteq> ARCHIVE_OK then Some ([], r)
          else map_option (\<lambda>(ls, r). (the (bline b) # ls, r)) (archive_lines n b bs))"

text \<open>The reference: the text cut at its newlines; what follows the last one is a line too.\<close>

fun cut_lines :: "string \<Rightarrow> string list" where
  "cut_lines [] = [[]]"
| "cut_lines (c # s) = (if c = NL then [] # cut_lines s else (c # hd (cut_lines s)) # tl (cut_lines s))"

lemma cut_lines_nonempty [simp]: "cut_lines s \<noteq> []"
  by (cases s) auto

lemma cut_lines_line: "NL \<notin> set l \<Longrightarrow> cut_lines (l @ NL # s) = l # cut_lines s"
  by (induction l) auto

lemma cut_lines_last: "NL \<notin> set l \<Longrightarrow> cut_lines l = [l]"
  by (induction l) auto

text \<open>One call returns the first line of what is left, wherever the blocks end.\<close>

lemma find_eol_text:
  assumes "NUL \<notin> set s"
  shows "find_eol s = (if NL \<in> set s then Some (length (takeWhile (\<lambda>x. x \<noteq> NL) s)) else None)"
  using assms by (simp add: find_eol_def find_byte_def)

lemma grow_line_room:
  assumes "bline b = None \<longrightarrow> k = 0" "k + n < max_line_size b"
  obtains c where "grow_line k n b = Some c" "bline c \<noteq> None" "block_rest c = block_rest b" "bret c = bret b"
    "max_line_size c = max_line_size b"
proof (cases "bline b")
  case None
  then show ?thesis by (intro that [of "b\<lparr>bline := Some [], line_size := length (block_rest b) + 1\<rparr>"]) (simp_all add: grow_line_def)
next
  case (Some x)
  then show ?thesis using assms(2)
    by (intro that [of "if k + n + 1 > line_size b then b\<lparr>line_size := k + n + 1\<rparr> else b"]) (simp_all add: grow_line_def)
qed

text \<open>The first newline of a block is the first one of all that is left.\<close>

lemma first_newline:
  assumes "R @ rest = l @ t" "NL \<notin> set l" "t = [] \<or> hd t = NL"
  shows "NL \<in> set R \<Longrightarrow> takeWhile (\<lambda>x. x \<noteq> NL) R = l \<and> t \<noteq> [] \<and> drop (length l + 1) R @ rest = tl t"
    and "NL \<notin> set R \<Longrightarrow> \<exists>l'. l = R @ l' \<and> rest = l' @ t"
proof -
  have tw: "takeWhile (\<lambda>x. x \<noteq> NL) (l @ t) = l" using assms(2,3) by (cases t) (auto simp: takeWhile_append takeWhile_eq_all_conv)
  show "takeWhile (\<lambda>x. x \<noteq> NL) R = l \<and> t \<noteq> [] \<and> drop (length l + 1) R @ rest = tl t" if "NL \<in> set R"
  proof -
    have l: "takeWhile (\<lambda>x. x \<noteq> NL) R = l"
      using tw that unfolding assms(1) [symmetric] by (simp add: takeWhile_append1)
    obtain a c where "R = a @ NL # c" "NL \<notin> set a" using split_list_first [OF \<open>NL \<in> set R\<close>] by blast
    then have "length l < length R" unfolding l [symmetric] by (auto simp: takeWhile_append takeWhile_eq_all_conv)
    moreover have "NL \<in> set (l @ t)" using that unfolding assms(1) [symmetric] by simp
    then have "t \<noteq> []" using assms(2) by auto
    moreover have "drop (length l + 1) (R @ rest) = tl t" unfolding assms(1) by (cases t) (auto simp: \<open>t \<noteq> []\<close>)
    ultimately show ?thesis using l by simp
  qed
  show "\<exists>l'. l = R @ l' \<and> rest = l' @ t" if "NL \<notin> set R"
    using assms that by (auto simp: append_eq_append_conv2 hd_append split: if_splits) (metis hd_in_set)
qed

lemma fgets_loop_line:
  assumes "\<forall>x\<in>set bs. fst x = ARCHIVE_OK \<and> snd x \<noteq> []" "NUL \<notin> set (block_rest b @ concat (map snd bs))"
    and "bret b = ARCHIVE_OK" "bline b = None \<longrightarrow> acc = []"
    and "block_rest b @ concat (map snd bs) = l @ t" "NL \<notin> set l" "t = [] \<or> hd t = NL" "length (acc @ l) < max_line_size b"
  shows "\<exists>b' bs'. archive_fgets_loop acc b bs = (ARCHIVE_OK, b', bs') \<and> bline b' = Some (acc @ l) \<and>
    max_line_size b' = max_line_size b \<and> (\<forall>x\<in>set bs'. fst x = ARCHIVE_OK \<and> snd x \<noteq> []) \<and>
    (if t = [] then block_rest b' = [] \<and> bret b' = ARCHIVE_EOF
     else block_rest b' @ concat (map snd bs') = tl t \<and> bret b' = ARCHIVE_OK)"
  using assms
proof (induction "length bs + (if block_rest b = [] then 0 else 1)" arbitrary: acc b bs l)
  case 0
  then have e: "bs = []" "block_rest b = []" by (simp_all split: if_splits)
  then have "l = []" "t = []" using "0.prems"(5) by simp_all
  moreover obtain c where "grow_line (length acc) 0 (b\<lparr>bret := ARCHIVE_EOF, block_rest := []\<rparr>) = Some c"
    "block_rest c = []" "bret c = ARCHIVE_EOF" "max_line_size c = max_line_size b"
    using grow_line_room [of "b\<lparr>bret := ARCHIVE_EOF, block_rest := []\<rparr>" "length acc" 0] "0.prems"(4,8) by auto
  ultimately show ?case
    using e "0.prems"(3) by (subst archive_fgets_loop.simps) (simp add: find_eol_def find_byte_def)
next
  case (Suc n)
  define c where "c = (if block_rest b = [] then b\<lparr>bret := ARCHIVE_OK, block_rest := snd (hd bs)\<rparr> else b)"
  define bs2 where "bs2 = (if block_rest b = [] then tl bs else bs)"
  have bs: "block_rest b = [] \<Longrightarrow> bs = (ARCHIVE_OK, snd (hd bs)) # tl bs"
    using Suc.hyps(2) Suc.prems(1) by (cases bs) (auto simp: prod_eq_iff split: if_splits)
  have c: "block_rest c \<noteq> []" "bret c = ARCHIVE_OK" "bline c = bline b" "max_line_size c = max_line_size b"
    "block_rest c @ concat (map snd bs2) = l @ t" "n = length bs2" "\<forall>x\<in>set bs2. fst x = ARCHIVE_OK \<and> snd x \<noteq> []"
    "NUL \<notin> set (block_rest c @ concat (map snd bs2))"
    using Suc.hyps(2) Suc.prems bs by (cases bs; force simp: c_def bs2_def split: if_splits)+
  have read: "(if block_rest b = [] then (let (r, blk, bs) = next_block bs in (b\<lparr>bret := r, block_rest := blk\<rparr>, bs)) else (b, bs)) = (c, bs2)"
    using bs by (cases bs) (auto simp: c_def bs2_def)
  have eol: "find_eol (block_rest c) = (if NL \<in> set (block_rest c) then Some (length (takeWhile (\<lambda>x. x \<noteq> NL) (block_rest c))) else None)"
    using c(8) by (intro find_eol_text) simp
  have start: "\<not> (block_rest b = [] \<and> bret b = ARCHIVE_EOF)" using Suc.prems(3) by simp
  show ?case
  proof (cases "NL \<in> set (block_rest c)")
    case True
    note f = first_newline(1) [OF c(5) Suc.prems(6,7) True]
    obtain d where d: "grow_line (length acc) (length l) c = Some d" "block_rest d = block_rest c" "bret d = bret c"
      "max_line_size d = max_line_size c"
      using grow_line_room [of c "length acc" "length l"] Suc.prems(4,8) c(3,4) by auto
    have "take (length l) (block_rest c) = l" using f takeWhile_eq_take [of "\<lambda>x. x \<noteq> NL" "block_rest c"] by simp
    then have "archive_fgets_loop acc b bs = (ARCHIVE_OK,
        d\<lparr>bline := Some (acc @ l), real_line_size := length acc + length l, block_rest := drop (length l + 1) (block_rest c)\<rparr>, bs2)"
      using start f d eol True c(2) by (subst archive_fgets_loop.simps) (simp add: read)
    then show ?thesis using f c d Suc.prems(8) by simp
  next
    case False
    obtain l' where l': "l = block_rest c @ l'" "concat (map snd bs2) = l' @ t"
      using first_newline(2) [OF c(5) Suc.prems(6,7) False] by blast
    obtain d where d: "grow_line (length acc) (length (block_rest c)) c = Some d" "bline d \<noteq> None" "block_rest d = block_rest c"
      "bret d = bret c" "max_line_size d = max_line_size c"
      using grow_line_room [of c "length acc" "length (block_rest c)"] Suc.prems(4,8) c(3,4) l'(1) by auto
    have "archive_fgets_loop acc b bs = archive_fgets_loop (acc @ block_rest c) (d\<lparr>block_rest := []\<rparr>) bs2"
      using start d eol False c(1,2) by (subst archive_fgets_loop.simps) (auto simp: read)
    then show ?thesis
      using Suc.hyps(1) [of bs2 "d\<lparr>block_rest := []\<rparr>" "acc @ block_rest c" l'] c d l' Suc.prems(6-8) by simp
  qed
qed

text \<open>Whatever blocks a text comes in, reading lines until the end gives the text cut at its newlines.\<close>

lemma archive_lines_cut:
  assumes "\<forall>x\<in>set bs. fst x = ARCHIVE_OK \<and> snd x \<noteq> []" "NUL \<notin> set (block_rest b @ concat (map snd bs))" "bret b = ARCHIVE_OK"
    and "\<forall>l\<in>set (cut_lines (block_rest b @ concat (map snd bs))). length l < max_line_size b"
    and "length (cut_lines (block_rest b @ concat (map snd bs))) < n"
  shows "archive_lines n b bs = Some (cut_lines (block_rest b @ concat (map snd bs)), ARCHIVE_EOF)"
  using assms
proof (induction n arbitrary: b bs)
  case (Suc n)
  define content where "content = block_rest b @ concat (map snd bs)"
  define l where "l = takeWhile (\<lambda>x. x \<noteq> NL) content"
  define t where "t = dropWhile (\<lambda>x. x \<noteq> NL) content"
  have split: "content = l @ t" "NL \<notin> set l" "t = [] \<or> hd t = NL"
  proof -
    show "content = l @ t" by (simp add: l_def t_def)
    show "NL \<notin> set l" by (auto simp: l_def dest: set_takeWhileD)
    show "t = [] \<or> hd t = NL" using hd_dropWhile [of "\<lambda>x. x \<noteq> NL" content] by (auto simp: t_def)
  qed
  have cut: "cut_lines content = (if t = [] then [l] else l # cut_lines (tl t))"
    using cut_lines_line [OF split(2)] cut_lines_last [OF split(2)] split(1,3) by (cases t) simp_all
  obtain b' bs' where r: "archive_fgets_loop [] b bs = (ARCHIVE_OK, b', bs')" "bline b' = Some l" "max_line_size b' = max_line_size b"
    "\<forall>x\<in>set bs'. fst x = ARCHIVE_OK \<and> snd x \<noteq> []"
    "if t = [] then block_rest b' = [] \<and> bret b' = ARCHIVE_EOF
     else block_rest b' @ concat (map snd bs') = tl t \<and> bret b' = ARCHIVE_OK"
    using fgets_loop_line [of bs b "[]" l t] Suc.prems(1-4) split cut unfolding content_def by (auto split: if_splits)
  show ?case
  proof (cases "t = []")
    case True
    then have "archive_lines n b' bs' = Some ([], ARCHIVE_EOF)"
      using r(5) Suc.prems(5) cut unfolding content_def
      by (cases n) (auto simp: alpm_archive_fgets_def archive_fgets_loop.simps [of "[]" b'])
    then show ?thesis using r(1,2) True cut by (simp add: alpm_archive_fgets_def content_def)
  next
    case False
    have "archive_lines n b' bs' = Some (cut_lines (tl t), ARCHIVE_EOF)"
    proof -
      have e: "block_rest b' @ concat (map snd bs') = tl t" using r(5) False by simp
      have "set (tl t) \<subseteq> set content" unfolding split(1) by (cases t) auto
      then show ?thesis
        using Suc.IH [of bs' b'] r(3-5) False Suc.prems(2,4,5) cut unfolding e content_def [symmetric] by auto
    qed
    then show ?thesis using r(1,2) False cut by (simp add: alpm_archive_fgets_def content_def)
  qed
qed simp

text \<open>C24: Reading an archive line by line does not depend on where its blocks end: for a text
  without NULs, in blocks that are not empty, whose lines fit the limit, the calls of
  \<open>_alpm_archive_fgets\<close> return the text cut at its newlines, with what follows the last newline as a
  last line even when it is empty, and then the end of the archive.\<close>

theorem archive_fgets_lines:
  assumes "\<forall>x\<in>set bs. fst x = ARCHIVE_OK \<and> snd x \<noteq> []" "NUL \<notin> set (concat (map snd bs))"
    and "\<forall>l\<in>set (cut_lines (concat (map snd bs))). length l < limit"
  shows "archive_lines (length (cut_lines (concat (map snd bs))) + 1) (empty_buffer\<lparr>max_line_size := limit\<rparr>) bs =
    Some (cut_lines (concat (map snd bs)), ARCHIVE_EOF)"
  using archive_lines_cut [of bs "empty_buffer\<lparr>max_line_size := limit\<rparr>" "length (cut_lines (concat (map snd bs))) + 1"] assms
  by (simp add: empty_buffer_def)

theorem archive_fgets_lines_witness:
  "archive_lines 4 (empty_buffer\<lparr>max_line_size := 10\<rparr>) [(0, ''ab''), (0, ''c'' @ [NL, CHR ''d'']), (0, ''e'' @ [NL])] =
    Some ([''abc'', ''de'', []], ARCHIVE_EOF)"
  using archive_fgets_lines [of "[(0, ''ab''), (0, ''c'' @ [NL, CHR ''d'']), (0, ''e'' @ [NL])]" 10]
  by (simp add: numeral_eq_Suc del: archive_lines.simps)

section \<open>The output of a program\<close>

text \<open>What the pipe brings: data, an interruption that is tried again, or an error; then its end.\<close>

datatype pipe_event = Ready string | Again | Broken

datatype read_answer = Bytes string | Try_again | Read_error

fun pipe_read :: "nat \<Rightarrow> pipe_event list \<Rightarrow> read_answer \<times> pipe_event list" where
  "pipe_read n [] = (Bytes [], [])"
| "pipe_read n (Ready d # p) = (Bytes (take n d), if length d \<le> n then p else Ready (drop n d) # p)"
| "pipe_read n (Again # p) = (Try_again, p)"
| "pipe_read n (Broken # p) = (Read_error, p)"

text \<open>What the event and the log show of a line: up to the first NUL.\<close>

definition chroot_process_output :: "string \<Rightarrow> string" where
  "chroot_process_output line = takeWhile (\<lambda>c. c \<noteq> NUL) line"

text \<open>The complete lines of the buffer, and what is left in it.\<close>

function output_lines :: "string \<Rightarrow> string list \<times> string" where
  "output_lines buf =
     (case find_byte NL buf of
        None \<Rightarrow> ([], buf)
      | Some n \<Rightarrow> (let (ls, left) = output_lines (drop (n + 1) buf) in (chroot_process_output (take (n + 1) buf) # ls, left)))"
  by pat_completeness auto
termination
  by (relation "measure length") (auto simp: find_byte_def split: if_splits dest!: length_pos_if_in_set)

declare output_lines.simps [simp del]

definition flush :: "string \<Rightarrow> string list" where
  "flush buf = (if buf = [] then [] else [chroot_process_output (buf @ [NL])])"

definition chroot_read_from_child ::
  "nat \<Rightarrow> string \<Rightarrow> pipe_event list \<Rightarrow> int \<times> string \<times> string list \<times> pipe_event list" where
  "chroot_read_from_child buf_limit buf p =
     (let space = buf_limit - length buf - 2; (answer, p) = pipe_read space p
      in case answer of
           Bytes d \<Rightarrow>
             if d \<noteq> []
             then
               (case find_byte NL d of
                  Some n \<Rightarrow>
                    (let line = take (length buf + n + 1) (buf @ d);
                         (ls, left) = output_lines (drop (length buf + n + 1) (buf @ d))
                     in (0, left, chroot_process_output line # ls, p))
                | None \<Rightarrow>
                    if length d = space then (0, [], [chroot_process_output ((buf @ d) @ [NL])], p)
                    else (0, buf @ d, [], p))
             else (-1, buf, flush buf, p)
         | Try_again \<Rightarrow> (0, buf, [], p)
         | Read_error \<Rightarrow> (-1, buf, flush buf, p))"

text \<open>The loop of the parent: reads until the pipe ends, then what is left in the buffer.\<close>

definition pipe_size :: "pipe_event list \<Rightarrow> nat" where
  "pipe_size p = (\<Sum>e\<leftarrow>p. case e of Ready d \<Rightarrow> length d + 1 | _ \<Rightarrow> 1)"

lemma read_shrinks:
  assumes "pipe_read n p = (answer, p')" "answer \<noteq> Bytes []" "answer \<noteq> Read_error"
  shows "pipe_size p' < pipe_size p"
proof (cases p)
  case (Cons e q)
  then show ?thesis using assms by (cases e) (auto simp: pipe_size_def split: if_splits)
qed (use assms in auto)

lemma read_consumes:
  assumes "chroot_read_from_child buf_limit buf p = (0, buf', ls, p')"
  shows "pipe_size p' < pipe_size p"
proof -
  obtain answer q where q: "pipe_read (buf_limit - length buf - 2) p = (answer, q)" by fastforce
  have "q = p'" "answer \<noteq> Bytes []" "answer \<noteq> Read_error"
    using assms q by (auto simp: chroot_read_from_child_def Let_def split: read_answer.splits if_splits option.splits prod.splits)
  then show ?thesis using read_shrinks [OF q] by simp
qed

function chroot_output :: "nat \<Rightarrow> string \<Rightarrow> pipe_event list \<Rightarrow> string list" where
  "chroot_output buf_limit buf p =
     (case chroot_read_from_child buf_limit buf p of
        (r, buf', ls, p') \<Rightarrow> if r \<noteq> 0 then ls @ flush buf' else ls @ chroot_output buf_limit buf' p')"
  by pat_completeness auto
termination
  by (relation "measure (\<lambda>(_, _, p). pipe_size p)") (simp_all, metis read_consumes)

declare chroot_output.simps [simp del]

section \<open>What is reported of the output\<close>

definition pipe_data :: "pipe_event list \<Rightarrow> string" where
  "pipe_data p = concat (map (\<lambda>e. case e of Ready d \<Rightarrow> d | _ \<Rightarrow> []) p)"

definition quiet_pipe :: "pipe_event list \<Rightarrow> bool" where
  "quiet_pipe p \<longleftrightarrow> (\<forall>e\<in>set p. e = Again \<or> (\<exists>d. e = Ready d \<and> d \<noteq> []))"

lemma process_text: "NUL \<notin> set l \<Longrightarrow> chroot_process_output l = l"
  by (auto simp: chroot_process_output_def takeWhile_eq_all_conv)

lemma cut_lines_append:
  "cut_lines (a @ b) = butlast (cut_lines a) @ cut_lines (last (cut_lines a) @ b)"
proof (induction a)
  case (Cons c a)
  then show ?case by (cases "cut_lines a"; cases "tl (cut_lines a)") auto
qed simp

lemma cut_lines_no_newline: "l \<in> set (cut_lines s) \<Longrightarrow> NL \<notin> set l"
proof (induction s arbitrary: l)
  case (Cons c s)
  then show ?case by (cases "cut_lines s") (auto split: if_splits)
qed simp

lemma cut_lines_subset: "l \<in> set (cut_lines s) \<Longrightarrow> set l \<subseteq> set s"
proof (induction s arbitrary: l)
  case (Cons c s)
  then show ?case by (cases "cut_lines s") (fastforce split: if_splits)+
qed simp

lemma cut_lines_first:
  assumes "NL \<in> set s" "n = length (takeWhile (\<lambda>x. x \<noteq> NL) s)"
  shows "cut_lines s = take n s # cut_lines (drop (n + 1) s)" "take (n + 1) s = take n s @ [NL]"
proof -
  obtain a c where s: "s = a @ NL # c" "NL \<notin> set a" using split_list_first [OF assms(1)] by blast
  then have "n = length a" using assms(2) by (simp add: takeWhile_append takeWhile_eq_all_conv)
  then show "cut_lines s = take n s # cut_lines (drop (n + 1) s)" "take (n + 1) s = take n s @ [NL]"
    using s cut_lines_line [OF s(2)] by simp_all
qed

lemma output_lines_cut:
  "NUL \<notin> set s \<Longrightarrow> output_lines s = (map (\<lambda>l. l @ [NL]) (butlast (cut_lines s)), last (cut_lines s))"
proof (induction s rule: output_lines.induct)
  case (1 s)
  show ?case
  proof (cases "NL \<in> set s")
    case True
    define n where "n = length (takeWhile (\<lambda>x. x \<noteq> NL) s)"
    then have f: "find_byte NL s = Some n" using True by (simp add: find_byte_def)
    have "set (drop (n + 1) s) \<subseteq> set s" "set (take (n + 1) s) \<subseteq> set s" by (rule set_drop_subset set_take_subset)+
    then have "NUL \<notin> set (drop (n + 1) s)" "NUL \<notin> set (take (n + 1) s)" using 1(2) by blast+
    then show ?thesis
      using 1(1) [OF f] cut_lines_first [OF True n_def] f
      by (subst output_lines.simps) (simp add: process_text)
  next
    case False
    then show ?thesis by (subst output_lines.simps) (simp add: find_byte_def cut_lines_last)
  qed
qed

text \<open>A read that brings data: the complete lines are reported, the rest stays in the buffer.\<close>

lemma read_data:
  assumes "pipe_read (buf_limit - length buf - 2) p = (Bytes d, p')" "d \<noteq> []" "NL \<notin> set buf" "NUL \<notin> set (buf @ d)"
    and "\<forall>l\<in>set (cut_lines (buf @ d)). length l + 2 < buf_limit"
  shows "chroot_read_from_child buf_limit buf p =
    (0, last (cut_lines (buf @ d)), map (\<lambda>l. l @ [NL]) (butlast (cut_lines (buf @ d))), p')"
proof (cases "NL \<in> set d")
  case True
  define n where "n = length (takeWhile (\<lambda>x. x \<noteq> NL) d)"
  have f: "find_byte NL d = Some n" using True by (simp add: find_byte_def n_def)
  have m: "length buf + n = length (takeWhile (\<lambda>x. x \<noteq> NL) (buf @ d))"
    using assms(3) True by (auto simp: n_def takeWhile_append)
  have cut: "cut_lines (buf @ d) = take (length buf + n) (buf @ d) # cut_lines (drop (length buf + n + 1) (buf @ d))"
    "take (length buf + n + 1) (buf @ d) = take (length buf + n) (buf @ d) @ [NL]"
    using cut_lines_first [OF _ m] True by auto
  have "set (drop (length buf + n + 1) (buf @ d)) \<subseteq> set (buf @ d)" "set (take (length buf + n + 1) (buf @ d)) \<subseteq> set (buf @ d)"
    by (rule set_drop_subset set_take_subset)+
  then have "NUL \<notin> set (drop (length buf + n + 1) (buf @ d))" "NUL \<notin> set (take (length buf + n + 1) (buf @ d))"
    using assms(4) by blast+
  note this [THEN output_lines_cut] this [THEN process_text]
  then show ?thesis
    unfolding cut(1) using assms(1,2) f cut(2) process_text [OF \<open>NUL \<notin> set (take (length buf + n + 1) (buf @ d))\<close>]
      output_lines_cut [OF \<open>NUL \<notin> set (drop (length buf + n + 1) (buf @ d))\<close>]
    by (simp del: take_append drop_append add: chroot_read_from_child_def Let_def)
next
  case False
  then have "cut_lines (buf @ d) = [buf @ d]" using assms(3) by (intro cut_lines_last) simp
  then show ?thesis
    using assms(1,2,5) False by (simp add: chroot_read_from_child_def Let_def find_byte_def)
qed

lemma read_quiet:
  assumes "quiet_pipe p" "0 < n"
  obtains "p = []" "pipe_read n p = (Bytes [], [])"
  | q where "p = Again # q" "pipe_read n p = (Try_again, q)" "quiet_pipe q" "pipe_data q = pipe_data p"
  | d q where "d \<noteq> []" "pipe_read n p = (Bytes d, q)" "quiet_pipe q" "pipe_data p = d @ pipe_data q"
proof (cases p)
  case (Cons e q)
  show ?thesis
  proof (cases e)
    case (Ready d)
    then have "d \<noteq> []" using assms(1) Cons by (auto simp: quiet_pipe_def)
    then show ?thesis
      using that(3) [of "take n d" "if length d \<le> n then q else Ready (drop n d) # q"] assms Ready Cons
      by (auto simp: quiet_pipe_def pipe_data_def)
  qed (use that(2) assms Cons in \<open>auto simp: quiet_pipe_def pipe_data_def\<close>)
qed (use that(1) in simp)

lemma cut_lines_start: "NL \<notin> set l \<Longrightarrow> cut_lines (l @ s) = (l @ hd (cut_lines s)) # tl (cut_lines s)"
  by (induction l) auto

text \<open>A part of the text has no longer lines than the whole.\<close>

lemma cut_lines_fit:
  assumes "\<forall>l\<in>set (cut_lines (a @ b)). length l + k < (n :: nat)"
  shows "\<forall>l\<in>set (cut_lines a). length l + k < n"
proof -
  let ?l = "last (cut_lines a)"
  have "NL \<notin> set ?l" by (rule cut_lines_no_newline [of _ a]) simp
  note start = cut_lines_start [OF this, of b]
  have "length (?l @ hd (cut_lines b)) + k < n" using assms unfolding cut_lines_append [of a b] start by simp
  moreover have "\<forall>l\<in>set (butlast (cut_lines a)). length l + k < n" using assms unfolding cut_lines_append [of a b] by simp
  moreover have "set (cut_lines a) = insert ?l (set (butlast (cut_lines a)))"
    using append_butlast_last_id [OF cut_lines_nonempty [of a]] by (metis list.set(2) rotate1.simps(2) set_rotate1)
  ultimately show ?thesis by auto
qed

lemma chroot_output_lines:
  assumes "quiet_pipe p" "NL \<notin> set buf" "NUL \<notin> set (buf @ pipe_data p)"
    and "\<forall>l\<in>set (cut_lines (buf @ pipe_data p)). length l + 2 < buf_limit"
  shows "chroot_output buf_limit buf p =
    map (\<lambda>l. l @ [NL]) (butlast (cut_lines (buf @ pipe_data p))) @
    (let tail = last (cut_lines (buf @ pipe_data p)) in if tail = [] then [] else [tail @ [NL], tail @ [NL]])"
  using assms
proof (induction "pipe_size p" arbitrary: p buf rule: less_induct)
  case less
  have "length buf + 2 < buf_limit"
    using cut_lines_fit [OF less.prems(4)] cut_lines_last [OF less.prems(2)] by simp
  then have room: "0 < buf_limit - length buf - 2" by simp
  show ?case
  proof (rule read_quiet [OF less.prems(1) room])
    assume p: "p = []" "pipe_read (buf_limit - length buf - 2) p = (Bytes [], [])"
    have "cut_lines buf = [buf]" using less.prems(2) by (rule cut_lines_last)
    then show ?thesis
      using p less.prems(3)
      by (subst chroot_output.simps) (simp add: chroot_read_from_child_def pipe_data_def flush_def process_text)
  next
    fix q assume q: "p = Again # q" "pipe_read (buf_limit - length buf - 2) p = (Try_again, q)" "quiet_pipe q" "pipe_data q = pipe_data p"
    have "chroot_output buf_limit buf p = chroot_output buf_limit buf q"
      using q(2) by (subst chroot_output.simps) (simp add: chroot_read_from_child_def Let_def)
    moreover have "pipe_size q < pipe_size p" using q(1) by (simp add: pipe_size_def)
    ultimately show ?thesis using less.hyps [of q buf] less.prems q(3,4) by simp
  next
    fix d q assume q: "d \<noteq> []" "pipe_read (buf_limit - length buf - 2) p = (Bytes d, q)" "quiet_pipe q" "pipe_data p = d @ pipe_data q"
    have cut: "cut_lines (buf @ pipe_data p) = butlast (cut_lines (buf @ d)) @ cut_lines (last (cut_lines (buf @ d)) @ pipe_data q)"
      using cut_lines_append [of "buf @ d" "pipe_data q"] q(4) by simp
    let ?l = "last (cut_lines (buf @ d))"
    have last: "?l \<in> set (cut_lines (buf @ d))" by simp
    have fits: "\<forall>l\<in>set (cut_lines (buf @ d)). length l + 2 < buf_limit"
      using less.prems(4) q(4) by (intro cut_lines_fit [of "buf @ d" "pipe_data q"]) simp
    have read: "chroot_read_from_child buf_limit buf p = (0, ?l, map (\<lambda>l. l @ [NL]) (butlast (cut_lines (buf @ d))), q)"
      by (rule read_data [OF q(2,1) less.prems(2) _ fits]) (use less.prems(3) q(4) in simp)
    have "NUL \<notin> set (?l @ pipe_data q)" using less.prems(3) cut_lines_subset [OF last] q(4) by auto
    moreover have "pipe_size q < pipe_size p" using read_shrinks [OF q(2)] q(1) by simp
    ultimately have "chroot_output buf_limit ?l q =
        map (\<lambda>l. l @ [NL]) (butlast (cut_lines (?l @ pipe_data q))) @
        (let tail = List.last (cut_lines (?l @ pipe_data q)) in if tail = [] then [] else [tail @ [NL], tail @ [NL]])"
      using less.prems(4) q(3) cut_lines_no_newline [OF last] by (intro less.hyps) (simp_all add: cut)
    then show ?thesis
      using read by (subst chroot_output.simps) (simp add: cut butlast_append last_append)
  qed
qed

text \<open>The buffer keeps room for one more byte, a newline and the NUL, so no write leaves it.\<close>

lemma find_byte_None: "find_byte c s = None \<longleftrightarrow> c \<notin> set s"
  by (simp add: find_byte_def)

lemma pipe_read_bound: "pipe_read n p = (Bytes d, q) \<Longrightarrow> length d \<le> n"
  by (cases p rule: list.exhaust [case_names Nil Cons]) (auto, metis (no_types, lifting) length_take min.cobounded2 pipe_read.simps prod.inject read_answer.inject(1) pipe_event.exhaust read_answer.distinct(1,3))

lemma output_lines_left: "length (snd (output_lines s)) \<le> length s"
proof (induction s rule: output_lines.induct)
  case (1 s)
  show ?case
  proof (cases "find_byte NL s")
    case (Some n)
    then show ?thesis using 1 [OF Some] by (subst output_lines.simps) (simp add: split_beta)
  qed (subst output_lines.simps, simp)
qed

lemma chroot_buffer_bound:
  assumes "length buf + 2 < buf_limit" "chroot_read_from_child buf_limit buf p = (r, buf', ls, q)"
  shows "length buf' + 2 < buf_limit"
proof -
  obtain answer p' where a: "pipe_read (buf_limit - length buf - 2) p = (answer, p')" by fastforce
  show ?thesis
  proof (cases answer)
    case (Bytes d)
    then have d: "length d \<le> buf_limit - length buf - 2" using a pipe_read_bound by blast
    show ?thesis
    proof (cases "find_byte NL d")
      case None
      then show ?thesis
        using assms a Bytes d by (auto simp: chroot_read_from_child_def Let_def split: if_splits)
    next
      case (Some n)
      have "length (snd (output_lines (drop (length buf + n + 1) (buf @ d)))) < length (buf @ d)"
        using output_lines_left [of "drop (length buf + n + 1) (buf @ d)"] Some
        by (cases d) (auto simp: find_byte_def)
      then show ?thesis
        using assms a Bytes d Some by (auto simp: chroot_read_from_child_def Let_def split: if_splits prod.splits)
    qed
  qed (use assms a in \<open>auto simp: chroot_read_from_child_def Let_def\<close>)
qed

section \<open>The input of a program\<close>

definition EAGAIN :: int where "EAGAIN = 11"
definition EWOULDBLOCK :: int where "EWOULDBLOCK = 11"
definition EINTR :: int where "EINTR = 4"

definition should_retry :: "int \<Rightarrow> bool" where
  "should_retry errnum \<longleftrightarrow> errnum = EAGAIN \<or> errnum = EWOULDBLOCK \<or> errnum = EINTR"

text \<open>
  The callback is the list of what its calls return; each answer of \<open>write\<close> is the number of bytes it
  took or the error. The result has what reached the program.
\<close>

datatype write_answer = Took nat | Write_errno int

definition chroot_write_to_child ::
  "nat \<Rightarrow> string \<Rightarrow> string list \<Rightarrow> write_answer \<Rightarrow> int \<times> string \<times> string list \<times> string" where
  "chroot_write_to_child buf_limit buf supplied answer =
     (let (buf, supplied) =
        (if buf = [] then (case supplied of [] \<Rightarrow> ([], []) | s # ss \<Rightarrow> (take buf_limit s, ss)) else (buf, supplied))
      in if buf = [] then (-1, buf, supplied, [])
         else
           case answer of
             Took n \<Rightarrow> (0, drop n buf, supplied, take n buf)
           | Write_errno e \<Rightarrow> if should_retry e then (0, buf, supplied, []) else (-1, buf, supplied, []))"

fun chroot_input :: "nat \<Rightarrow> string \<Rightarrow> string list \<Rightarrow> write_answer list \<Rightarrow> string \<times> string \<times> string list" where
  "chroot_input buf_limit buf supplied [] = ([], buf, supplied)"
| "chroot_input buf_limit buf supplied (a # as) =
     (case chroot_write_to_child buf_limit buf supplied a of
        (r, buf, supplied, sent) \<Rightarrow>
          if r \<noteq> 0 then (sent, buf, supplied)
          else (case chroot_input buf_limit buf supplied as of (out2, rest) \<Rightarrow> (sent @ out2, rest)))"

lemma chroot_write_conserves:
  assumes "\<forall>s\<in>set supplied. length s \<le> buf_limit"
    and "chroot_write_to_child buf_limit buf supplied a = (r, buf', supplied', sent)"
  shows "sent @ buf' @ concat supplied' = buf @ concat supplied" "set supplied' \<subseteq> set supplied"
  using assms
  by (auto simp: chroot_write_to_child_def Let_def split: list.splits if_splits write_answer.splits)

text \<open>
  No byte for the program is lost, doubled or reordered: what was sent, what waits in the buffer and
  what the callback still has is what there was.\<close>

theorem chroot_input_conserves:
  assumes "\<forall>s\<in>set supplied. length s \<le> buf_limit" "chroot_input buf_limit buf supplied answers = (sent, buf', supplied')"
  shows "sent @ buf' @ concat supplied' = buf @ concat supplied"
  using assms
proof (induction answers arbitrary: buf supplied sent)
  case (Cons a as)
  obtain r b2 s2 sent2 where w: "chroot_write_to_child buf_limit buf supplied a = (r, b2, s2, sent2)" by (metis prod_cases4)
  note c = chroot_write_conserves [OF Cons.prems(1) w]
  show ?case
  proof (cases "r = 0")
    case True
    obtain out2 where m: "chroot_input buf_limit b2 s2 as = (out2, buf', supplied')" "sent = sent2 @ out2"
      using Cons.prems(2) w True by (auto split: prod.splits)
    have "\<forall>s\<in>set s2. length s \<le> buf_limit" using Cons.prems(1) c(2) by blast
    then have "out2 @ buf' @ concat supplied' = b2 @ concat s2" using Cons.IH m(1) by blast
    then show ?thesis using c(1) m(2) by simp
  next
    case False
    then show ?thesis using Cons.prems(2) w c(1) by simp
  qed
qed simp

theorem chroot_input_conserves_witness:
  "chroot_input 4 [] [''ab'', ''cd''] [Took 1, Write_errno 11, Took 1, Took 2] = (''abcd'', [], []) \<and>
   ''abcd'' @ [] @ concat [] = [] @ concat [''ab'', ''cd'']"
proof -
  have "chroot_input 4 [] [''ab'', ''cd''] [Took 1, Write_errno 11, Took 1, Took 2] = (''abcd'', [], [])"
    by (simp add: chroot_write_to_child_def should_retry_def EAGAIN_def)
  then show ?thesis using chroot_input_conserves [of "[''ab'', ''cd'']" 4 "[]"] by auto
qed

section \<open>The parent of a program in the chroot\<close>

text \<open>What \<open>poll\<close> says of the two pipes, and the pipes that are still open.\<close>

datatype revents = Nothing | Possible | Hung_up

datatype poll_event = Poll_failed int | Polled revents revents

record chroot_io =
  reading :: bool
  writing :: bool
  ibuf :: string
  obuf :: string
  unread :: "string list"
  from_child :: "pipe_event list"
  takes :: "write_answer list"
  reported :: "string list"
  delivered :: string

definition PIPE_BUF :: nat where "PIPE_BUF = 4096"
definition LINE_MAX :: nat where "LINE_MAX = 2048"

definition poll_child :: "revents \<Rightarrow> chroot_io \<Rightarrow> chroot_io" where
  "poll_child ev s =
     (case ev of
        Nothing \<Rightarrow> s
      | Possible \<Rightarrow>
          (case chroot_read_from_child LINE_MAX (ibuf s) (from_child s) of
             (r, b, ls, p) \<Rightarrow> s\<lparr>ibuf := b, from_child := p, reported := reported s @ ls, reading := r = 0\<rparr>)
      | Hung_up \<Rightarrow> s\<lparr>reading := False\<rparr>)"

definition poll_parent :: "revents \<Rightarrow> chroot_io \<Rightarrow> chroot_io" where
  "poll_parent ev s =
     (case ev of
        Nothing \<Rightarrow> s
      | Possible \<Rightarrow>
          (case chroot_write_to_child PIPE_BUF (obuf s) (unread s) (case takes s of [] \<Rightarrow> Took 0 | a # _ \<Rightarrow> a) of
             (r, b, rest, out) \<Rightarrow>
               s\<lparr>obuf := b, unread := rest, takes := tl (takes s), delivered := delivered s @ out, writing := r = 0\<rparr>)
      | Hung_up \<Rightarrow> s\<lparr>writing := False\<rparr>)"

text \<open>The loop, as far as the events go; closed descriptors have no events.\<close>

fun poll_loop :: "poll_event list \<Rightarrow> chroot_io \<Rightarrow> chroot_io" where
  "poll_loop [] s = s"
| "poll_loop (ev # evs) s =
     (if \<not> reading s \<and> \<not> writing s then s
      else
        case ev of
          Poll_failed e \<Rightarrow> if e = EINTR then poll_loop evs s else s
        | Polled c p \<Rightarrow>
            poll_loop evs
              (let s' = (if reading s then poll_child c s else s) in if writing s then poll_parent p s' else s'))"

datatype wait_status = Exited nat | Signaled nat | Stopped

datatype wait_answer = Status wait_status | Wait_errno int

fun wait_child :: "wait_answer list \<Rightarrow> wait_status option" where
  "wait_child [] = None"
| "wait_child (Status st # _) = Some st"
| "wait_child (Wait_errno e # ws) = (if e = EINTR then wait_child ws else None)"

definition chroot_retval :: "wait_status option \<Rightarrow> int" where
  "chroot_retval st =
     (case st of None \<Rightarrow> 1 | Some (Exited n) \<Rightarrow> if n \<noteq> 0 then 1 else 0 | Some (Signaled _) \<Rightarrow> 1 | Some Stopped \<Rightarrow> 0)"

text \<open>
  \<open>_alpm_run_chroot\<close>: what could be set up, the callback with what it will give, the child. The result
  has what was reported and what was sent. A failing \<open>chdir\<close> is a success.
\<close>

record chroot_env =
  chdir_works :: bool
  pipes_work :: bool
  fork_works :: bool
  child_says :: "pipe_event list"
  child_takes :: "write_answer list"
  polls :: "poll_event list"
  waits :: "wait_answer list"

definition alpm_run_chroot :: "chroot_env \<Rightarrow> string list option \<Rightarrow> int \<times> string list \<times> string" where
  "alpm_run_chroot env stdin_cb =
     (if \<not> chdir_works env then (0, [], [])
      else if \<not> pipes_work env then (1, [], [])
      else if \<not> fork_works env then (1, [], [])
      else
        let s = poll_loop (polls env)
              \<lparr>reading = True, writing = stdin_cb \<noteq> None, ibuf = [], obuf = [],
               unread = (case stdin_cb of None \<Rightarrow> [] | Some ss \<Rightarrow> ss), from_child = child_says env,
               takes = child_takes env, reported = [], delivered = []\<rparr>
        in (chroot_retval (wait_child (waits env)), reported s @ flush (ibuf s), delivered s))"

lemma poll_loop_output:
  assumes "pipe_size (from_child s) < n" "reading s" "\<not> writing s"
  shows "(let s' = poll_loop (replicate n (Polled Possible Nothing)) s in reported s' @ flush (ibuf s')) =
    reported s @ chroot_output LINE_MAX (ibuf s) (from_child s)"
  using assms
proof (induction n arbitrary: s)
  case (Suc n)
  obtain r b ls p where rd: "chroot_read_from_child LINE_MAX (ibuf s) (from_child s) = (r, b, ls, p)" by (metis prod_cases4)
  let ?s = "s\<lparr>ibuf := b, from_child := p, reported := reported s @ ls, reading := r = 0\<rparr>"
  have step: "poll_loop (replicate (Suc n) (Polled Possible Nothing)) s = poll_loop (replicate n (Polled Possible Nothing)) ?s"
    using Suc.prems(2,3) rd by (simp add: poll_child_def Let_def)
  show ?case
  proof (cases "r = 0")
    case True
    then have "pipe_size p < n" using read_consumes rd Suc.prems(1) by fastforce
    then show ?thesis
      using Suc.IH [of ?s] Suc.prems(3) True rd step
      by (subst chroot_output.simps) simp
  next
    case False
    then have "poll_loop (replicate n (Polled Possible Nothing)) ?s = ?s" using Suc.prems(3) by (cases n) simp_all
    then show ?thesis using step rd False by (subst chroot_output.simps) (simp add: Let_def)
  qed
qed simp

text \<open>
  What a program in the chroot writes is reported line by line, but a last line without a newline is
  reported twice: at the end of the pipe \<open>_alpm_chroot_read_from_child\<close> passes it on and leaves it in
  the buffer, which \<open>_alpm_run_chroot\<close> passes on again. The pipe is polled until it ends, and the
  lines fit the buffer.\<close>

theorem run_chroot_reports:
  assumes "chdir_works env" "pipes_work env" "fork_works env"
    and "polls env = replicate n (Polled Possible Nothing)" "pipe_size (child_says env) < n"
    and "quiet_pipe (child_says env)" "NUL \<notin> set (pipe_data (child_says env))"
    and "\<forall>l\<in>set (cut_lines (pipe_data (child_says env))). length l + 2 < LINE_MAX"
  shows "alpm_run_chroot env None =
    (chroot_retval (wait_child (waits env)),
     map (\<lambda>l. l @ [NL]) (butlast (cut_lines (pipe_data (child_says env)))) @
     (let tail = last (cut_lines (pipe_data (child_says env))) in if tail = [] then [] else [tail @ [NL], tail @ [NL]]),
     [])"
proof -
  have quiet: "delivered (poll_loop evs s) = delivered s" if "\<not> writing s" for evs s
    using that
    by (induction evs s rule: poll_loop.induct) (auto simp: poll_child_def Let_def split: poll_event.splits revents.splits prod.splits)
  let ?s = "\<lparr>reading = True, writing = False, ibuf = [], obuf = [], unread = [], from_child = child_says env,
    takes = child_takes env, reported = [], delivered = []\<rparr>"
  have "(let s' = poll_loop (polls env) ?s in reported s' @ flush (ibuf s')) = chroot_output LINE_MAX [] (child_says env)"
    using poll_loop_output [of ?s n] assms(4,5) by simp
  then show ?thesis
    using assms(1-3) quiet [of ?s] chroot_output_lines [OF assms(6), of "[]" LINE_MAX] assms(7,8)
    by (simp add: alpm_run_chroot_def Let_def)
qed

theorem run_chroot_reports_witness:
  "alpm_run_chroot \<lparr>chdir_works = True, pipes_work = True, fork_works = True,
     child_says = [Ready (''one'' @ [NL] @ ''tw''), Again, Ready ''o''], child_takes = [],
     polls = replicate 20 (Polled Possible Nothing), waits = [Wait_errno 4, Status (Exited 0)]\<rparr> None =
   (0, [''one'' @ [NL], ''two'' @ [NL], ''two'' @ [NL]], [])"
  using run_chroot_reports [of "\<lparr>chdir_works = True, pipes_work = True, fork_works = True,
     child_says = [Ready (''one'' @ [NL] @ ''tw''), Again, Ready ''o''], child_takes = [],
     polls = replicate 20 (Polled Possible Nothing), waits = [Wait_errno 4, Status (Exited 0)]\<rparr>" 20]
  by (simp add: quiet_pipe_def pipe_data_def pipe_size_def LINE_MAX_def chroot_retval_def EINTR_def)

section \<open>Copying a file\<close>

text \<open>
  The answers of \<open>read\<close>, which then sees the end of the file, and of \<open>write\<close>, which then takes all.
  \<open>errno\<close> is what an earlier call left. The end is an error, a copy with what was written, a loop that
  does not end, or an access outside of the buffer.
\<close>

datatype read_event = Chunk string | Read_errno int

datatype copy_end = Copied string | Failed string | Endless string | Out_of_bounds string

text \<open>\<open>write(out, buf + nwrite, nread)\<close>: the offset is the last count, \<open>-1\<close> after an interruption.\<close>

function copy_write :: "string \<Rightarrow> int \<Rightarrow> nat \<Rightarrow> write_answer list \<Rightarrow> (string \<Rightarrow> copy_end) option \<times> string \<times> write_answer list \<times> int option" where
  "copy_write buf nwrite nread ws =
     (if nwrite < 0 then (Some Out_of_bounds, [], ws, None)
      else
        let piece = take nread (drop (nat nwrite) buf)
        in case ws of
             [] \<Rightarrow> (None, piece, [], None)
           | Took n # ws \<Rightarrow>
               if nread - n > 0
               then (case copy_write buf (int n) (nread - n) ws of (e, out2, rest) \<Rightarrow> (e, take n piece @ out2, rest))
               else (None, take n piece, ws, None)
           | Write_errno e # ws \<Rightarrow>
               if e \<noteq> EINTR then (Some Failed, [], ws, Some e)
               else if nread > 0 then (Some Out_of_bounds, [], ws, Some e)
               else (None, [], ws, Some e))"
  by pat_completeness auto
termination by (relation "measure (\<lambda>(_, _, _, ws). length ws)") auto

declare copy_write.simps [simp del]

fun copy_loop :: "int \<Rightarrow> read_event list \<Rightarrow> write_answer list \<Rightarrow> string \<Rightarrow> copy_end" where
  "copy_loop errno [] ws out = (if errno = EINTR then Endless out else Copied out)"
| "copy_loop errno (Read_errno e # rs) ws out = (if e = EINTR then copy_loop e rs ws out else Copied out)"
| "copy_loop errno (Chunk d # rs) ws out =
     (case copy_write d 0 (length d) ws of
        (Some stop, piece, _) \<Rightarrow> stop (out @ piece)
      | (None, piece, ws, set_errno) \<Rightarrow>
          copy_loop (case set_errno of Some e \<Rightarrow> e | None \<Rightarrow> errno) rs ws (out @ piece))"

text \<open>
  \<open>_alpm_copyfile\<close>: the destination is not truncated, so what it had beyond the copy stays. The
  arguments say what could be opened and the mode set.
\<close>

definition alpm_copyfile :: "bool \<Rightarrow> bool \<Rightarrow> int \<Rightarrow> string \<Rightarrow> read_event list \<Rightarrow> write_answer list \<Rightarrow> int \<times> copy_end" where
  "alpm_copyfile opened moded errno old rs ws =
     (if \<not> opened \<or> \<not> moded then (1, Failed old)
      else
        let over = (\<lambda>out. out @ drop (length out) old)
        in case copy_loop errno rs ws [] of
             Copied out \<Rightarrow> (0, Copied (over out))
           | Failed out \<Rightarrow> (1, Failed (over out))
           | Endless out \<Rightarrow> (0, Endless (over out))
           | Out_of_bounds out \<Rightarrow> (0, Out_of_bounds (over out)))"

text \<open>When every write takes all it is given the copy starts with exactly the file.\<close>

lemma copy_loop_whole:
  assumes "\<forall>e\<in>set rs. \<exists>d. e = Chunk d" "errno \<noteq> EINTR"
  shows "copy_loop errno rs [] out = Copied (out @ concat (map (\<lambda>e. case e of Chunk d \<Rightarrow> d | _ \<Rightarrow> []) rs))"
  using assms
proof (induction rs arbitrary: out)
  case (Cons e rs)
  then obtain d where "e = Chunk d" by auto
  then show ?case using Cons by (simp add: copy_write.simps)
qed simp

text \<open>
  A copy goes wrong as soon as the writes are short twice: the second offset is counted from the start
  of the buffer again. So are the bytes written, while the copy is a success.\<close>

theorem copyfile_short_writes:
  assumes "0 < a" "0 < b" "a + b < length d" "errno \<noteq> EINTR"
  shows "alpm_copyfile True True errno [] [Chunk d] [Took a, Took b] =
    (0, Copied (take a d @ take b (drop a d) @ take (length d - a - b) (drop b d)))"
  using assms by (simp add: alpm_copyfile_def copy_write.simps Let_def min_def)

theorem copyfile_short_writes_witness:
  "alpm_copyfile True True 0 [] [Chunk ''abc''] [Took 1, Took 1] = (0, Copied ''abb'')"
  using copyfile_short_writes [of 1 1 "''abc''" 0] by (simp add: EINTR_def numeral_eq_Suc)

end
