(* ===== verification/AlpmFs.thy ===== *)
theory AlpmFs
  imports AlpmPrelude "HOL-Library.AList" "HOL-Library.Sublist"
begin

text \<open>
  The file system the library works on: a tree of directories, files and symbolic links, and the
  system calls the library makes, on the paths it makes them. A location is the list of names from
  the root; a path is resolved to a location along the links. Calls that change an entry fail where
  the system says so (permissions, read-only file systems, busy entries).
\<close>

section \<open>Trees\<close>

type_synonym location = "string list"

datatype node = Dir | File string | Link string

datatype errno = ENOENT | EEXIST | ENOTDIR | EISDIR | ENOTEMPTY | EACCES | EROFS | EBUSY | ETXTBSY | ELOOP | EINVAL

text \<open>
  The entries below the root; whether an entry may be changed, whether what is there may be
  written, and the device an entry is on.
\<close>

record filesys =
  fs_nodes :: "(location \<times> node) list"
  fs_fault :: "location \<Rightarrow> errno option"
  fs_nowrite :: "location \<Rightarrow> errno option"
  fs_dev :: "location \<Rightarrow> nat"

definition look :: "filesys \<Rightarrow> location \<Rightarrow> node option" where
  "look fs l = (if l = [] then Some Dir else map_of (fs_nodes fs) l)"

definition fs_put :: "location \<Rightarrow> node \<Rightarrow> filesys \<Rightarrow> filesys" where
  "fs_put l n fs = fs\<lparr>fs_nodes := AList.update l n (fs_nodes fs)\<rparr>"

definition fs_del :: "location \<Rightarrow> filesys \<Rightarrow> filesys" where
  "fs_del l fs = fs\<lparr>fs_nodes := AList.delete l (fs_nodes fs)\<rparr>"

definition children :: "filesys \<Rightarrow> location \<Rightarrow> string list" where
  "children fs d = remdups (map last (filter (\<lambda>l. l \<noteq> [] \<and> butlast l = d) (map fst (fs_nodes fs))))"

lemma look_put [simp]: "l \<noteq> [] \<Longrightarrow> look (fs_put l n fs) k = (if k = l then Some n else look fs k)"
  by (simp add: look_def fs_put_def update_conv')

lemma look_del [simp]: "l \<noteq> [] \<Longrightarrow> look (fs_del l fs) k = (if k = l then None else look fs k)"
  by (simp add: look_def fs_del_def delete_conv')

lemma children_look: "c \<in> set (children fs d) \<longleftrightarrow> look fs (d @ [c]) \<noteq> None"
proof -
  have "c \<in> set (children fs d) \<longleftrightarrow> d @ [c] \<in> fst ` set (fs_nodes fs)"
    by (auto simp: children_def image_iff)
      (metis append_butlast_last_id fst_conv, metis butlast_snoc fst_conv last_snoc snoc_eq_iff_butlast)
  then show ?thesis by (simp add: look_def map_of_eq_None_iff)
qed

section \<open>Paths\<close>

text \<open>The names of a path; slashes may be repeated, and \<open>.\<close> is where one is.\<close>

fun split_at :: "string \<Rightarrow> string \<Rightarrow> string list" where
  "split_at name [] = [name]"
| "split_at name (c # cs) = (if c = CHR ''/'' then name # split_at [] cs else split_at (name @ [c]) cs)"

definition components :: "string \<Rightarrow> string list" where
  "components path = filter (\<lambda>c. c \<noteq> [] \<and> c \<noteq> ''.'') (split_at [] path)"

definition slashed :: "string \<Rightarrow> bool" where
  "slashed path \<longleftrightarrow> path \<noteq> [] \<and> last path = CHR ''/''"

text \<open>Path resolution: the last link is followed if \<open>follow\<close>, and at most \<open>n\<close> links in all.\<close>

function walk :: "filesys \<Rightarrow> nat \<Rightarrow> bool \<Rightarrow> location \<Rightarrow> string list \<Rightarrow> errno + location" where
  "walk fs n follow cur [] = Inr cur"
| "walk fs n follow cur (c # cs) =
     (if c = ''..'' then walk fs n follow (butlast cur) cs
      else case look fs (cur @ [c]) of
          None \<Rightarrow> if cs = [] then Inr (cur @ [c]) else Inl ENOENT
        | Some Dir \<Rightarrow> walk fs n follow (cur @ [c]) cs
        | Some (File _) \<Rightarrow> if cs = [] then Inr (cur @ [c]) else Inl ENOTDIR
        | Some (Link target) \<Rightarrow>
            if cs = [] \<and> \<not> follow then Inr (cur @ [c])
            else
              (case n of
                 0 \<Rightarrow> Inl ELOOP
               | Suc m \<Rightarrow>
                   walk fs m follow (if target \<noteq> [] \<and> hd target = CHR ''/'' then [] else cur) (components target @ cs)))"
  by pat_completeness auto
termination
  by (relation "measures [\<lambda>(fs, n, follow, cur, cs). n, \<lambda>(fs, n, follow, cur, cs). length cs]") auto

definition resolve :: "filesys \<Rightarrow> bool \<Rightarrow> string \<Rightarrow> errno + location" where
  "resolve fs follow path = (if path = [] then Inl ENOENT else walk fs 40 (follow \<or> slashed path) [] (components path))"

section \<open>Looking\<close>

definition stat_node :: "filesys \<Rightarrow> bool \<Rightarrow> string \<Rightarrow> errno + location \<times> node" where
  "stat_node fs follow path =
     (case resolve fs follow path of
        Inl e \<Rightarrow> Inl e
      | Inr l \<Rightarrow>
          (case look fs l of
             None \<Rightarrow> Inl ENOENT
           | Some n \<Rightarrow> if slashed path \<and> n \<noteq> Dir then Inl ENOTDIR else Inr (l, n)))"

definition stat :: "filesys \<Rightarrow> string \<Rightarrow> errno + location \<times> node" where
  "stat fs = stat_node fs True"

definition lstat :: "filesys \<Rightarrow> string \<Rightarrow> errno + location \<times> node" where
  "lstat fs = stat_node fs False"

definition access_exists :: "filesys \<Rightarrow> string \<Rightarrow> bool" where
  "access_exists fs path = (case stat fs path of Inl _ \<Rightarrow> False | Inr _ \<Rightarrow> True)"

definition access_write :: "filesys \<Rightarrow> string \<Rightarrow> errno option" where
  "access_write fs path = (case stat fs path of Inl e \<Rightarrow> Some e | Inr (l, _) \<Rightarrow> fs_nowrite fs l)"

text \<open>The names in a directory, \<open>.\<close> and \<open>..\<close> left out.\<close>

definition opendir :: "filesys \<Rightarrow> string \<Rightarrow> errno + string list" where
  "opendir fs path =
     (case stat fs path of
        Inl e \<Rightarrow> Inl e
      | Inr (l, n) \<Rightarrow> if n = Dir then Inr (children fs l) else Inl ENOTDIR)"

definition read_file :: "filesys \<Rightarrow> string \<Rightarrow> errno + string" where
  "read_file fs path =
     (case stat fs path of
        Inl e \<Rightarrow> Inl e
      | Inr (l, n) \<Rightarrow> (case n of File content \<Rightarrow> Inr content | _ \<Rightarrow> Inl EISDIR))"

section \<open>Changing\<close>

text \<open>The result of a call: an error, or nothing; and the tree afterwards.\<close>

type_synonym 'a call = "filesys \<Rightarrow> 'a \<times> filesys"

definition unlink :: "string \<Rightarrow> errno option call" where
  "unlink path fs =
     (case lstat fs path of
        Inl e \<Rightarrow> (Some e, fs)
      | Inr (l, n) \<Rightarrow>
          if n = Dir then (Some EISDIR, fs)
          else (case fs_fault fs l of Some e \<Rightarrow> (Some e, fs) | None \<Rightarrow> (None, fs_del l fs)))"

definition rmdir :: "string \<Rightarrow> errno option call" where
  "rmdir path fs =
     (case lstat fs path of
        Inl e \<Rightarrow> (Some e, fs)
      | Inr (l, n) \<Rightarrow>
          if n \<noteq> Dir then (Some ENOTDIR, fs)
          else if l = [] then (Some EBUSY, fs)
          else if children fs l \<noteq> [] then (Some ENOTEMPTY, fs)
          else (case fs_fault fs l of Some e \<Rightarrow> (Some e, fs) | None \<Rightarrow> (None, fs_del l fs)))"

definition mkdir :: "string \<Rightarrow> errno option call" where
  "mkdir path fs =
     (case resolve fs False path of
        Inl e \<Rightarrow> (Some e, fs)
      | Inr l \<Rightarrow>
          if look fs l \<noteq> None then (Some EEXIST, fs)
          else (case fs_fault fs l of Some e \<Rightarrow> (Some e, fs) | None \<Rightarrow> (None, fs_put l Dir fs)))"

text \<open>\<open>fopen(path, "w")\<close>, the output, and \<open>fclose\<close>.\<close>

definition write_file :: "string \<Rightarrow> string \<Rightarrow> errno option call" where
  "write_file path content fs =
     (case resolve fs True path of
        Inl e \<Rightarrow> (Some e, fs)
      | Inr l \<Rightarrow>
          if slashed path then (Some EISDIR, fs)
          else
            (case look fs l of
               Some Dir \<Rightarrow> (Some EISDIR, fs)
             | Some (Link _) \<Rightarrow> (Some ELOOP, fs)
             | Some (File _) \<Rightarrow>
                 (case fs_nowrite fs l of Some e \<Rightarrow> (Some e, fs) | None \<Rightarrow> (None, fs_put l (File content) fs))
             | None \<Rightarrow>
                 (case fs_fault fs l of Some e \<Rightarrow> (Some e, fs) | None \<Rightarrow> (None, fs_put l (File content) fs))))"

text \<open>A renamed directory takes everything below it along.\<close>

definition move_nodes :: "location \<Rightarrow> location \<Rightarrow> (location \<times> node) list \<Rightarrow> (location \<times> node) list" where
  "move_nodes a b ns =
     map (\<lambda>(l, n). (if prefix a l then b @ drop (length a) l else l, n))
       (filter (\<lambda>(l, n). prefix a l \<or> l \<noteq> b) ns)"

definition rename :: "string \<Rightarrow> string \<Rightarrow> errno option call" where
  "rename old new fs =
     (case lstat fs old of
        Inl e \<Rightarrow> (Some e, fs)
      | Inr (a, n) \<Rightarrow>
          (case resolve fs False new of
             Inl e \<Rightarrow> (Some e, fs)
           | Inr b \<Rightarrow>
               if a = b then (None, fs)
               else if a = [] \<or> b = [] then (Some EBUSY, fs)
               else if strict_prefix a b then (Some EINVAL, fs)
               else if n \<noteq> Dir \<and> (slashed new \<or> look fs b = Some Dir) then (Some EISDIR, fs)
               else if n = Dir \<and> look fs b \<notin> {None, Some Dir} then (Some ENOTDIR, fs)
               else if n = Dir \<and> children fs b \<noteq> [] then (Some ENOTEMPTY, fs)
               else
                 (case (fs_fault fs a, fs_fault fs b) of
                    (Some e, _) \<Rightarrow> (Some e, fs)
                  | (None, Some e) \<Rightarrow> (Some e, fs)
                  | (None, None) \<Rightarrow>
                      (None, if n = Dir then fs\<lparr>fs_nodes := move_nodes a b (fs_nodes fs)\<rparr> else fs_put b n (fs_del a fs)))))"

section \<open>What the calls change\<close>

text \<open>Outside of these locations nothing has changed.\<close>

definition changes_only :: "location set \<Rightarrow> filesys \<Rightarrow> filesys \<Rightarrow> bool" where
  "changes_only L fs fs' \<longleftrightarrow> (\<forall>l. l \<notin> L \<longrightarrow> look fs' l = look fs l)"

lemma changes_only_refl [simp]: "changes_only L fs fs"
  by (simp add: changes_only_def)

lemma changes_only_trans: "changes_only L fs fs' \<Longrightarrow> changes_only L fs' fs'' \<Longrightarrow> changes_only L fs fs''"
  by (simp add: changes_only_def)

lemma changes_only_mono: "changes_only L fs fs' \<Longrightarrow> L \<subseteq> M \<Longrightarrow> changes_only M fs fs'"
  by (auto simp: changes_only_def)

lemma lstat_location: "lstat fs path = Inr (l, n) \<Longrightarrow> look fs l = Some n"
  by (auto simp: lstat_def stat_node_def split: sum.splits option.splits if_splits)

lemma lstat_slashed: "lstat fs path = Inr (l, n) \<Longrightarrow> slashed path \<Longrightarrow> n = Dir"
  by (auto simp: lstat_def stat_node_def split: sum.splits option.splits if_splits)

lemma unlink_result:
  assumes "unlink path fs = (r, fs')"
  shows "r \<noteq> None \<and> fs' = fs \<or>
    r = None \<and> (\<exists>l n. lstat fs path = Inr (l, n) \<and> n \<noteq> Dir \<and> l \<noteq> [] \<and> fs_fault fs l = None \<and> fs' = fs_del l fs)"
  using assms lstat_location [of fs path] unfolding unlink_def
  by (auto simp: look_def split: sum.splits option.splits if_splits)

lemma rmdir_result:
  assumes "rmdir path fs = (r, fs')"
  shows "r \<noteq> None \<and> fs' = fs \<or>
    r = None \<and> (\<exists>l. lstat fs path = Inr (l, Dir) \<and> l \<noteq> [] \<and> children fs l = [] \<and> fs_fault fs l = None \<and> fs' = fs_del l fs)"
  using assms unfolding rmdir_def by (auto split: sum.splits option.splits if_splits)

lemma rename_file_result:
  assumes "rename old new fs = (r, fs')" "lstat fs old = Inr (a, n)" "n \<noteq> Dir"
  shows "fs' = fs \<and> (r \<noteq> None \<or> resolve fs False new = Inr a) \<or>
    r = None \<and> (\<exists>b. resolve fs False new = Inr b \<and> a \<noteq> b \<and> a \<noteq> [] \<and> b \<noteq> [] \<and> look fs b \<noteq> Some Dir \<and>
      fs' = fs_put b n (fs_del a fs))"
  using assms unfolding rename_def by (auto split: sum.splits option.splits if_splits)

section \<open>Paths that meet no link\<close>

text \<open>No entry on the way to the location is a link, and the way never goes up.\<close>

definition direct :: "filesys \<Rightarrow> string list \<Rightarrow> bool" where
  "direct fs cs \<longleftrightarrow> ''..'' \<notin> set cs \<and> (\<forall>k t. 0 < k \<longrightarrow> k < length cs \<longrightarrow> look fs (take k cs) \<noteq> Some (Link t))"

lemma walk_direct:
  assumes "''..'' \<notin> set cs" "\<And>k t. 0 < k \<Longrightarrow> k < length cs \<Longrightarrow> look fs (cur @ take k cs) \<noteq> Some (Link t)"
    and "walk fs n False cur cs = Inr l"
  shows "l = cur @ cs"
  using assms
proof (induction cs arbitrary: cur)
  case (Cons c cs)
  have step: "look fs ((cur @ [c]) @ take k cs) \<noteq> Some (Link t)" if "0 < k" "k < length cs" for k t
    using Cons.prems(2) [of "Suc k" t] that by simp
  have first: "cs \<noteq> [] \<Longrightarrow> look fs (cur @ [c]) \<noteq> Some (Link t)" for t
    using Cons.prems(2) [of 1 t] by simp
  show ?case
  proof (cases "look fs (cur @ [c])")
    case (Some nd)
    show ?thesis
    proof (cases nd)
      case Dir
      moreover have "c \<noteq> ''..''" using Cons.prems(1) by auto
      ultimately have "walk fs n False (cur @ [c]) cs = Inr l" using Cons.prems(3) Some by simp
      from Cons.IH [OF _ step this] show ?thesis using Cons.prems(1) by simp
    qed (use Cons.prems(1,3) Some first in \<open>auto split: if_splits\<close>)
  qed (use Cons.prems(1,3) in \<open>auto split: if_splits\<close>)
qed simp

lemma resolve_direct:
  assumes "direct fs (components path)" "\<not> slashed path" "resolve fs False path = Inr l"
  shows "l = components path"
  using walk_direct [of "components path" fs "[]" 40 l] assms by (auto simp: direct_def resolve_def split: if_splits)

lemma lstat_direct:
  assumes "direct fs (components path)" "\<not> slashed path" "lstat fs path = Inr (l, n)"
  shows "l = components path"
  using resolve_direct [OF assms(1,2)] assms(3) by (auto simp: lstat_def stat_node_def split: sum.splits option.splits if_splits)

text \<open>Removing entries, and putting one that is no link on the way, keeps a path direct.\<close>

lemma direct_del: "direct fs cs \<Longrightarrow> l \<noteq> [] \<Longrightarrow> direct (fs_del l fs) cs"
  by (simp add: direct_def)

lemma direct_put: "direct fs cs \<Longrightarrow> l \<noteq> [] \<Longrightarrow> \<not> strict_prefix l cs \<Longrightarrow> direct (fs_put l n fs) cs"
  by (auto simp: direct_def strict_prefix_def take_is_prefix)

section \<open>Longer paths\<close>

text \<open>A path that ends in a name: what is put behind it makes the name longer.\<close>

definition named :: "string \<Rightarrow> bool" where
  "named path \<longleftrightarrow> last (split_at [] path) \<noteq> [] \<and> last (split_at [] path) \<noteq> ''.''"

lemma split_at_nonempty [simp]: "split_at name s \<noteq> []"
  by (induction name s rule: split_at.induct) auto

lemma split_at_name: "CHR ''/'' \<notin> set s \<Longrightarrow> split_at name s = [name @ s]"
  by (induction name s rule: split_at.induct) auto

lemma split_at_append:
  "CHR ''/'' \<notin> set s \<Longrightarrow> split_at name (p @ s) = butlast (split_at name p) @ [last (split_at name p) @ s]"
  by (induction name p rule: split_at.induct) (auto simp: split_at_name)

lemma components_named: "named p \<Longrightarrow> components p \<noteq> [] \<and> last (components p) = last (split_at [] p)"
  by (cases "split_at [] p" rule: rev_cases) (auto simp: named_def components_def)

lemma components_longer:
  assumes "named p" "CHR ''/'' \<notin> set s"
  shows "components (p @ s) = butlast (components p) @ [last (components p) @ s]"
proof -
  obtain xs x where x: "split_at [] p = xs @ [x]" by (cases "split_at [] p" rule: rev_cases) auto
  have "split_at [] (p @ s) = xs @ [x @ s]" using split_at_append [OF assms(2), of "[]" p] x by simp
  moreover have "x @ s \<noteq> ''.''" "x @ s \<noteq> []" using assms(1) x by (auto simp: named_def append_eq_Cons_conv)
  ultimately show ?thesis using assms(1) x by (simp add: components_def named_def)
qed

text \<open>What renaming changes is at or below the two places.\<close>

lemma map_of_move:
  assumes "\<not> prefix a l" "\<not> prefix b l"
  shows "map_of (move_nodes a b ns) l = map_of ns l"
proof -
  have ne: "b @ k \<noteq> l" "b \<noteq> l" for k using assms(2) by auto
  show ?thesis
  proof (induction ns)
    case (Cons x ns)
    obtain k n where x: "x = (k, n)" by fastforce
    show ?case
    proof (cases "prefix a k")
      case True
      then have "k \<noteq> l" using assms(1) by blast
      then show ?thesis using Cons True x ne(1) [of "drop (length a) k"] by (simp add: move_nodes_def ne(1) [symmetric])
    next
      case False
      then show ?thesis using Cons x ne(2) by (simp add: move_nodes_def)
    qed
  qed (simp add: move_nodes_def)
qed

lemma rename_changes:
  assumes "rename old new fs = (r, fs')"
  shows "fs' = fs \<or> (\<exists>a n b. lstat fs old = Inr (a, n) \<and> resolve fs False new = Inr b \<and>
    changes_only {l. prefix a l \<or> prefix b l} fs fs')"
proof (cases "fs' = fs")
  case False
  then obtain a n where a: "lstat fs old = Inr (a, n)" using assms by (auto simp: rename_def split: sum.splits)
  then obtain b where b: "resolve fs False new = Inr b" using assms False by (auto simp: rename_def split: sum.splits)
  have ne: "a \<noteq> []" "b \<noteq> []" using assms a b False by (auto simp: rename_def split: if_splits)
  have "fs' = (if n = Dir then fs\<lparr>fs_nodes := move_nodes a b (fs_nodes fs)\<rparr> else fs_put b n (fs_del a fs))"
    using assms a b False by (auto simp: rename_def split: if_splits option.splits)
  moreover have "changes_only {l. prefix a l \<or> prefix b l} fs (fs\<lparr>fs_nodes := move_nodes a b (fs_nodes fs)\<rparr>)"
    by (simp add: changes_only_def look_def map_of_move)
  moreover have "changes_only {l. prefix a l \<or> prefix b l} fs (fs_put b n (fs_del a fs))"
    using ne by (auto simp: changes_only_def)
  ultimately show ?thesis using a b by (cases "n = Dir") auto
qed simp

section \<open>Reading back what was written\<close>

lemma walk_put_file:
  assumes "walk fs n follow cur cs = Inr k" "look fs l = None \<or> look fs l = Some (File x)" "l \<noteq> []"
  shows "walk (fs_put l (File content) fs) n follow cur cs = Inr k"
  using assms
proof (induction fs n follow cur cs rule: walk.induct)
  case (2 fs n follow cur c cs)
  show ?case
  proof (cases "c = ''..''")
    case up: False
    show ?thesis
    proof (cases "cur @ [c] = l")
      case True
      then show ?thesis using 2(4-6) up by (auto split: if_splits)
    next
      case False
      show ?thesis
      proof (cases "\<exists>t m. look fs (cur @ [c]) = Some (Link t) \<and> \<not> (cs = [] \<and> \<not> follow) \<and> n = Suc m")
        case True
        then obtain t m where t: "look fs (cur @ [c]) = Some (Link t)" "\<not> (cs = [] \<and> \<not> follow)" "n = Suc m" by blast
        from 2(3) [OF up t(1) refl t(2,3)] show ?thesis using 2(4-6) t up False by auto
      next
        case link: False
        show ?thesis
          using 2(2) [OF up] 2(4-6) up False link
          by (cases "look fs (cur @ [c])") (auto split: node.splits if_splits nat.splits)
      qed
    qed
  qed (use 2 in simp)
qed simp

lemma write_file_result:
  assumes "write_file path content fs = (None, fs')"
  obtains l where "resolve fs True path = Inr l" "l \<noteq> []" "\<not> slashed path"
    "look fs l = None \<or> (\<exists>x. look fs l = Some (File x))" "fs' = fs_put l (File content) fs"
proof (cases "resolve fs True path")
  case (Inr l)
  have "look fs [] = Some Dir" by (simp add: look_def)
  then have "l \<noteq> []" using assms Inr by (auto simp: write_file_def split: if_splits)
  moreover have "look fs l = None \<or> (\<exists>x. look fs l = Some (File x))" "\<not> slashed path" "fs' = fs_put l (File content) fs"
    using assms Inr by (auto simp: write_file_def split: if_splits option.splits node.splits)
  ultimately show ?thesis using that [OF Inr] by auto
qed (use assms in \<open>simp add: write_file_def\<close>)

lemma resolve_put_file:
  assumes "resolve fs True path = Inr k" "look fs l = None \<or> (\<exists>x. look fs l = Some (File x))" "l \<noteq> []"
  shows "resolve (fs_put l (File content) fs) True path = Inr k"
  using assms walk_put_file [of fs 40 True "[]" "components path" k l _ content]
  by (auto simp: resolve_def split: if_splits)

lemma read_resolved:
  assumes "resolve fs True path = Inr l" "look fs l = Some (File x)" "\<not> slashed path"
  shows "read_file fs path = Inr x"
  using assms by (simp add: read_file_def stat_def stat_node_def)

lemma read_written:
  assumes "write_file path content fs = (None, fs')"
  shows "read_file fs' path = Inr content"
proof -
  obtain l where l: "resolve fs True path = Inr l" "l \<noteq> []" "\<not> slashed path"
    "look fs l = None \<or> (\<exists>x. look fs l = Some (File x))" "fs' = fs_put l (File content) fs"
    using write_file_result [OF assms] by blast
  have "resolve fs' True path = Inr l" using resolve_put_file [OF l(1,4,2)] l(5) by simp
  then show ?thesis by (rule read_resolved [OF _ _ l(3)]) (use l(2,5) in simp)
qed

text \<open>Another write keeps what was written, unless the two paths lead to the same file.\<close>

lemma read_written_before:
  assumes "write_file path content fs = (None, fs1)" "write_file path' content' fs1 = (None, fs2)"
    and "resolve fs2 True path \<noteq> resolve fs2 True path'"
  shows "read_file fs2 path = Inr content"
proof -
  obtain l where l: "resolve fs True path = Inr l" "l \<noteq> []" "\<not> slashed path"
    "look fs l = None \<or> (\<exists>x. look fs l = Some (File x))" "fs1 = fs_put l (File content) fs"
    using write_file_result [OF assms(1)] by blast
  obtain k where k: "resolve fs1 True path' = Inr k" "k \<noteq> []"
    "look fs1 k = None \<or> (\<exists>x. look fs1 k = Some (File x))" "fs2 = fs_put k (File content') fs1"
    using write_file_result [OF assms(2)] by metis
  have "resolve fs1 True path = Inr l" using resolve_put_file [OF l(1,4,2)] l(5) by simp
  then have r: "resolve fs2 True path = Inr l" "resolve fs2 True path' = Inr k"
    using resolve_put_file [OF _ k(3,2)] k(1,4) by simp_all
  show ?thesis by (rule read_resolved [OF r(1) _ l(3)]) (use r assms(3) l(2,5) k(2,4) in simp)
qed

end
