(* ===== verification/AlpmFsUtil.thy ===== *)
theory AlpmFsUtil
  imports AlpmFs AlpmUtil AlpmHandle
begin

text \<open>
  The helpers of \<open>lib/libalpm/util.c\<close> that touch the file system: making directories, counting and
  checking entries, and choosing a directory for the package cache.
\<close>

section \<open>Making directories\<close>

text \<open>\<open>pre\<close> is the part of the path before the pointer of the loop.\<close>

fun makepath_from :: "string \<Rightarrow> string \<Rightarrow> int call" where
  "makepath_from pre [] fs = (let (e, fs) = mkdir pre fs in (if e = None \<or> e = Some EEXIST then 0 else 1, fs))"
| "makepath_from pre (c # rest) fs =
     (if c \<noteq> CHR ''/'' \<or> pre = [] \<or> last pre = CHR ''/'' then makepath_from (pre @ [c]) rest fs
      else
        let (e, fs) = mkdir pre fs
        in if e \<noteq> None \<and> e \<noteq> Some EEXIST then (1, fs) else makepath_from (pre @ [c]) rest fs)"

definition alpm_makepath :: "string \<Rightarrow> int call" where
  "alpm_makepath path = makepath_from [] path"

section \<open>Looking at entries\<close>

text \<open>The number of entries, of which one is enough unless all are counted; \<open>-1\<close> on error.\<close>

definition alpm_files_in_directory :: "filesys \<Rightarrow> string \<Rightarrow> bool \<Rightarrow> int" where
  "alpm_files_in_directory fs path full_count =
     (case opendir fs path of
        Inl _ \<Rightarrow> -1
      | Inr ns \<Rightarrow> if full_count then int (length ns) else if ns = [] then 0 else 1)"

text \<open>\<open>_alpm_access\<close> for writing: the error, if there is one. A directory is put before the file.\<close>

definition alpm_access_write :: "filesys \<Rightarrow> string option \<Rightarrow> string \<Rightarrow> errno option" where
  "alpm_access_write fs dir path =
     (case dir of None \<Rightarrow> access_write fs path | Some d \<Rightarrow> access_write fs (d @ path))"

definition alpm_read_file :: "filesys \<Rightarrow> string \<Rightarrow> alpm_errno_t + string" where
  "alpm_read_file fs path =
     (case stat fs path of
        Inl _ \<Rightarrow> Inl ALPM_ERR_NOT_A_FILE
      | Inr (_, n) \<Rightarrow>
          (case n of File content \<Rightarrow> if content = [] then Inl ALPM_ERR_SYSTEM else Inr content | _ \<Rightarrow> Inl ALPM_ERR_SYSTEM))"

section \<open>The cache directory\<close>

text \<open>The write bits of a directory's mode are the argument \<open>writable\<close>, \<open>TMPDIR\<close> is \<open>tmpdir_env\<close>.\<close>

fun filecache_loop :: "(location \<Rightarrow> bool) \<Rightarrow> string list \<Rightarrow> string option call" where
  "filecache_loop writable [] fs = (None, fs)"
| "filecache_loop writable (cachedir # i) fs =
     (case stat fs cachedir of
        Inl _ \<Rightarrow>
          (let (r, fs) = alpm_makepath cachedir fs in if r = 0 then (Some cachedir, fs) else filecache_loop writable i fs)
      | Inr (l, n) \<Rightarrow>
          if n \<noteq> Dir then filecache_loop writable i fs
          else if alpm_access_write fs None cachedir \<noteq> None then filecache_loop writable i fs
          else if \<not> writable l then filecache_loop writable i fs
          else (Some cachedir, fs))"

text \<open>
  The test of \<open>TMPDIR\<close> asks for \<open>stat\<close> to fail, and for the buffer to say \<open>S_ISDIR\<close>, which is then
  what the last \<open>stat\<close> that succeeded left there; \<open>stale_dir\<close> is what it says.
\<close>

definition alpm_filecache_setup ::
  "(location \<Rightarrow> bool) \<Rightarrow> string option \<Rightarrow> bool \<Rightarrow> alpm_handle_t \<Rightarrow> filesys \<Rightarrow> (string \<times> alpm_handle_t \<times> filesys) option" where
  "alpm_filecache_setup writable tmpdir_env stale_dir h fs =
     (let (found, fs) = filecache_loop writable (cachedirs h) fs
      in case found of
           Some cachedir \<Rightarrow> Some (cachedir, h, fs)
         | None \<Rightarrow>
             let tmpdir = (case tmpdir_env of
                             None \<Rightarrow> ''/tmp''
                           | Some t \<Rightarrow> if (case stat fs t of Inl _ \<Rightarrow> True | Inr _ \<Rightarrow> False) \<and> stale_dir then t else ''/tmp'')
             in (case alpm_option_add_cachedir (Some h) (Some tmpdir) of
                   Some (_, Some h) \<Rightarrow> Some (last (cachedirs h), h, fs)
                 | _ \<Rightarrow> None))"

section \<open>What making directories does\<close>

text \<open>Entries that were there stay, and what is new is a directory.\<close>

definition only_new_dirs :: "filesys \<Rightarrow> filesys \<Rightarrow> bool" where
  "only_new_dirs fs fs' \<longleftrightarrow>
     (\<forall>l. look fs' l = look fs l \<or> look fs l = None \<and> look fs' l = Some Dir) \<and>
     fs_fault fs' = fs_fault fs \<and> fs_nowrite fs' = fs_nowrite fs \<and> fs_dev fs' = fs_dev fs"

lemma only_new_dirs_refl [simp]: "only_new_dirs fs fs"
  by (simp add: only_new_dirs_def)

lemma only_new_dirs_trans: "only_new_dirs fs fs' \<Longrightarrow> only_new_dirs fs' fs'' \<Longrightarrow> only_new_dirs fs fs''"
  unfolding only_new_dirs_def by metis

lemma mkdir_only_new_dirs: "only_new_dirs fs (snd (mkdir path fs))"
proof -
  have "l \<noteq> []" if "look fs l = None" for l using that by (auto simp: look_def)
  then show ?thesis
    by (auto simp: mkdir_def only_new_dirs_def fs_put_def look_def update_conv' split: sum.splits option.splits)
qed

lemma makepath_only_new_dirs: "only_new_dirs fs (snd (makepath_from pre rest fs))"
proof (induction pre rest fs rule: makepath_from.induct)
  case (1 pre fs)
  then show ?case using mkdir_only_new_dirs [of fs pre] by (simp add: split_beta Let_def)
next
  case (2 pre c rest fs)
  show ?case
  proof (cases "c \<noteq> CHR ''/'' \<or> pre = [] \<or> last pre = CHR ''/''")
    case True
    then show ?thesis using 2(1) by simp
  next
    case False
    obtain e fs' where m: "mkdir pre fs = (e, fs')" by fastforce
    then have new: "only_new_dirs fs fs'" using mkdir_only_new_dirs [of fs pre] by simp
    show ?thesis
    proof (cases "e \<noteq> None \<and> e \<noteq> Some EEXIST")
      case True
      then show ?thesis using False m new by simp
    next
      case ok: False
      then have "only_new_dirs fs' (snd (makepath_from (pre @ [c]) rest fs'))"
        using 2(2) [OF False m [symmetric]] by simp
      then have "only_new_dirs fs (snd (makepath_from (pre @ [c]) rest fs'))" using new only_new_dirs_trans by blast
      moreover have "makepath_from pre (c # rest) fs = makepath_from (pre @ [c]) rest fs'" using False ok m by auto
      ultimately show ?thesis by simp
    qed
  qed
qed

end
