(* ===== verification/AlpmLocal.thy ===== *)
theory AlpmLocal
  imports AlpmFsUtil AlpmIo AlpmDeps AlpmDb AlpmPackage
begin

text \<open>
  The local database (\<open>lib/libalpm/be_local.c\<close>): one directory per package below the path of the
  database, with the files \<open>desc\<close> and \<open>files\<close>, and \<open>install\<close> for a scriptlet. Lines are read by
  \<open>safe_fgets\<close>, whose source is not part of the repository: it is the argument \<open>rd\<close>, and what the
  properties assume of it is the locale \<open>line_reader\<close>, which \<open>fgets\<close> satisfies.
\<close>

unbundle bit_operations_syntax

abbreviation "INFRQ_BASE \<equiv> 1 :: u32"
abbreviation "INFRQ_DESC \<equiv> 2 :: u32"
abbreviation "INFRQ_FILES \<equiv> 4 :: u32"
abbreviation "INFRQ_SCRIPTLET \<equiv> 8 :: u32"
abbreviation "INFRQ_ALL \<equiv> 31 :: u32"
abbreviation "INFRQ_ERROR \<equiv> 0x40000000 :: u32"

abbreviation "ALPM_PKG_VALIDATION_NONE \<equiv> 1 :: u32"
abbreviation "ALPM_PKG_VALIDATION_MD5SUM \<equiv> 2 :: u32"
abbreviation "ALPM_PKG_VALIDATION_SHA256SUM \<equiv> 4 :: u32"
abbreviation "ALPM_PKG_VALIDATION_SIGNATURE \<equiv> 8 :: u32"

text \<open>\<open>sprintf\<close> of the null pointer: the version of a package in the database is never null.\<close>

definition c_string :: "string option \<Rightarrow> string" where
  "c_string s = (case s of None \<Rightarrow> ''(null)'' | Some x \<Rightarrow> x)"

definition alpm_local_db_pkgpath :: "string \<Rightarrow> alpm_pkg_t \<Rightarrow> string \<Rightarrow> string" where
  "alpm_local_db_pkgpath dir info name = dir @ pname info @ ''-'' @ c_string (version info) @ ''/'' @ name"

section \<open>Reading lines\<close>

text \<open>\<open>READ_NEXT\<close>: no line is an error unless the file is at its end, where the line before stays.\<close>

definition read_next :: "read_op \<Rightarrow> reader \<Rightarrow> bool \<times> reader" where
  "read_next rd r =
     (let (got, r) = rd 1024 r
      in if \<not> got \<and> \<not> reof r then (False, r) else (True, fst (strip_line r)))"

text \<open>\<open>READ_AND_STORE_ALL\<close> and \<open>READ_AND_SPLITDEP\<close>: the lines up to an empty one, after those there are.\<close>

partial_function (option) read_all :: "read_op \<Rightarrow> string list \<Rightarrow> reader \<Rightarrow> (bool \<times> string list \<times> reader) option" where
  "read_all rd f r =
     (case rd 1024 r of
        (got, r) \<Rightarrow>
          if \<not> got then Some (reof r, f, r)
          else
            (case strip_line r of
               (r, len) \<Rightarrow> if len = 0 then Some (True, f, r) else read_all rd (f @ [rbuf r]) r))"

definition read_dep :: "string \<Rightarrow> alpm_depend_t" where
  "read_dep line = the (alpm_dep_from_string (Some line))"

definition add_validation :: "u32 \<Rightarrow> string \<Rightarrow> u32" where
  "add_validation v i =
     (if i = ''none'' then v OR ALPM_PKG_VALIDATION_NONE
      else if i = ''md5'' then v OR ALPM_PKG_VALIDATION_MD5SUM
      else if i = ''sha256'' then v OR ALPM_PKG_VALIDATION_SHA256SUM
      else if i = ''pgp'' then v OR ALPM_PKG_VALIDATION_SIGNATURE
      else v)"

text \<open>\<open>(alpm_pkgreason_t)atoi(line)\<close>: the number is cut to 32 bits.\<close>

definition read_reason :: "string \<Rightarrow> alpm_pkgreason_t" where
  "read_reason line =
     (let n = word_of_int (fst (strtoll line)) :: u32
      in if n = 0 then ALPM_PKG_REASON_EXPLICIT else if n = 1 then ALPM_PKG_REASON_DEPEND else Other_reason n)"

text \<open>What comes after a header: whether there was no error, the package and the stream.\<close>

definition one_line :: "read_op \<Rightarrow> (string \<Rightarrow> alpm_pkg_t \<Rightarrow> alpm_pkg_t) \<Rightarrow> alpm_pkg_t \<Rightarrow> reader \<Rightarrow> (bool \<times> alpm_pkg_t \<times> reader) option" where
  "one_line rd store info r = (let (ok, r) = read_next rd r in Some (ok, if ok then store (rbuf r) info else info, r))"

definition many_lines ::
  "read_op \<Rightarrow> (alpm_pkg_t \<Rightarrow> 'a list) \<Rightarrow> (string \<Rightarrow> 'a) \<Rightarrow> ('a list \<Rightarrow> alpm_pkg_t \<Rightarrow> alpm_pkg_t) \<Rightarrow> alpm_pkg_t \<Rightarrow> reader \<Rightarrow>
   (bool \<times> alpm_pkg_t \<times> reader) option" where
  "many_lines rd field conv store info r =
     map_option (\<lambda>(ok, ls, r). (ok, store (field info @ map conv ls) info, r)) (read_all rd [] r)"

text \<open>The headers of \<open>desc\<close>; the name and the version are read to be compared, which only logs.\<close>

definition read_section :: "read_op \<Rightarrow> string \<Rightarrow> alpm_pkg_t \<Rightarrow> reader \<Rightarrow> (bool \<times> alpm_pkg_t \<times> reader) option" where
  "read_section rd line info r =
     (if line = ''%NAME%'' then one_line rd (\<lambda>l p. p) info r
      else if line = ''%VERSION%'' then one_line rd (\<lambda>l p. p) info r
      else if line = ''%BASE%'' then one_line rd (\<lambda>l p. p\<lparr>base := Some l\<rparr>) info r
      else if line = ''%DESC%'' then one_line rd (\<lambda>l p. p\<lparr>desc := Some l\<rparr>) info r
      else if line = ''%GROUPS%'' then many_lines rd groups (\<lambda>l. l) (\<lambda>x p. p\<lparr>groups := x\<rparr>) info r
      else if line = ''%URL%'' then one_line rd (\<lambda>l p. p\<lparr>url := Some l\<rparr>) info r
      else if line = ''%LICENSE%'' then many_lines rd licenses (\<lambda>l. l) (\<lambda>x p. p\<lparr>licenses := x\<rparr>) info r
      else if line = ''%ARCH%'' then one_line rd (\<lambda>l p. p\<lparr>arch := Some l\<rparr>) info r
      else if line = ''%BUILDDATE%'' then one_line rd (\<lambda>l p. p\<lparr>builddate := alpm_parsedate l\<rparr>) info r
      else if line = ''%INSTALLDATE%'' then one_line rd (\<lambda>l p. p\<lparr>installdate := alpm_parsedate l\<rparr>) info r
      else if line = ''%PACKAGER%'' then one_line rd (\<lambda>l p. p\<lparr>packager := Some l\<rparr>) info r
      else if line = ''%REASON%'' then one_line rd (\<lambda>l p. p\<lparr>preason := read_reason l\<rparr>) info r
      else if line = ''%VALIDATION%''
      then map_option (\<lambda>(ok, v, r). (ok, if ok then info\<lparr>validation := foldl add_validation (validation info) v\<rparr> else info, r))
             (read_all rd [] r)
      else if line = ''%SIZE%'' then one_line rd (\<lambda>l p. p\<lparr>isize := alpm_strtoofft l\<rparr>) info r
      else if line = ''%REPLACES%'' then many_lines rd replaces read_dep (\<lambda>x p. p\<lparr>replaces := x\<rparr>) info r
      else if line = ''%DEPENDS%'' then many_lines rd depends read_dep (\<lambda>x p. p\<lparr>depends := x\<rparr>) info r
      else if line = ''%OPTDEPENDS%'' then many_lines rd optdepends read_dep (\<lambda>x p. p\<lparr>optdepends := x\<rparr>) info r
      else if line = ''%MAKEDEPENDS%'' then many_lines rd makedepends read_dep (\<lambda>x p. p\<lparr>makedepends := x\<rparr>) info r
      else if line = ''%CHECKDEPENDS%'' then many_lines rd checkdepends read_dep (\<lambda>x p. p\<lparr>checkdepends := x\<rparr>) info r
      else if line = ''%CONFLICTS%'' then many_lines rd conflicts read_dep (\<lambda>x p. p\<lparr>conflicts := x\<rparr>) info r
      else if line = ''%PROVIDES%'' then many_lines rd provides read_dep (\<lambda>x p. p\<lparr>provides := x\<rparr>) info r
      else Some (True, info, r))"

text \<open>The loop over \<open>desc\<close>; \<open>None\<close> if it does not end.\<close>

partial_function (option) read_desc :: "read_op \<Rightarrow> alpm_pkg_t \<Rightarrow> reader \<Rightarrow> (bool \<times> alpm_pkg_t) option" where
  "read_desc rd info r =
     (if reof r then Some (True, info)
      else
        (case rd 1024 r of
           (got, r) \<Rightarrow>
             if \<not> got \<and> \<not> reof r then Some (False, info)
             else
               (case strip_line r of
                  (r, len) \<Rightarrow>
                    if len = 0 then read_desc rd info r
                    else
                      (case read_section rd (rbuf r) info r of
                         None \<Rightarrow> None
                       | Some (ok, info, r) \<Rightarrow> if ok then read_desc rd info r else Some (False, info)))))"

text \<open>
  The loop over \<open>files\<close>. A list of files replaces the one there was; its lines and those of
  \<open>%BACKUP%\<close> end at an empty line or where no line is read, for whatever reason.
\<close>

partial_function (option) read_files :: "read_op \<Rightarrow> alpm_pkg_t \<Rightarrow> reader \<Rightarrow> alpm_pkg_t option" where
  "read_files rd info r =
     (case rd 1024 r of
        (got, r) \<Rightarrow>
          if \<not> got then Some info
          else
            (case strip_line r of
             (r, _) \<Rightarrow>
               if rbuf r = ''%FILES%''
               then (case read_all rd [] r of
                       None \<Rightarrow> None
                     | Some (_, ls, r) \<Rightarrow>
                         read_files rd
                           (info\<lparr>files := alpm_filelist_sort (map (\<lambda>l. \<lparr>fname = l, fsize = 0, fmode = 0\<rparr>) ls)\<rparr>) r)
               else if rbuf r = ''%BACKUP%''
               then (case read_all rd [] r of
                       None \<Rightarrow> None
                     | Some (_, ls, r) \<Rightarrow> read_files rd (info\<lparr>backup := backup info @ map alpm_split_backup ls\<rparr>) r)
               else read_files rd info r))"

section \<open>Loading a package\<close>

definition lacks :: "u32 \<Rightarrow> alpm_pkg_t \<Rightarrow> u32 \<Rightarrow> bool" where
  "lacks inforeq info flag \<longleftrightarrow> inforeq AND flag \<noteq> 0 \<and> infolevel info AND flag = 0"

definition add_level :: "u32 \<Rightarrow> alpm_pkg_t \<Rightarrow> alpm_pkg_t" where
  "add_level flag info = info\<lparr>infolevel := infolevel info OR flag\<rparr>"

text \<open>The three parts: whether there was no error, and the package.\<close>

definition load_desc :: "read_op \<Rightarrow> filesys \<Rightarrow> string \<Rightarrow> u32 \<Rightarrow> alpm_pkg_t \<Rightarrow> (bool \<times> alpm_pkg_t) option" where
  "load_desc rd fs dir inforeq info =
     (if \<not> lacks inforeq info INFRQ_DESC then Some (True, info)
      else
        case read_file fs (alpm_local_db_pkgpath dir info ''desc'') of
          Inl _ \<Rightarrow> Some (False, info)
        | Inr content \<Rightarrow>
            map_option (\<lambda>(ok, info). (ok, if ok then add_level INFRQ_DESC info else info)) (read_desc rd info (open_reader content)))"

definition load_files :: "read_op \<Rightarrow> filesys \<Rightarrow> string \<Rightarrow> u32 \<Rightarrow> alpm_pkg_t \<Rightarrow> (bool \<times> alpm_pkg_t) option" where
  "load_files rd fs dir inforeq info =
     (if \<not> lacks inforeq info INFRQ_FILES then Some (True, info)
      else
        case read_file fs (alpm_local_db_pkgpath dir info ''files'') of
          Inl _ \<Rightarrow> Some (False, info)
        | Inr content \<Rightarrow> map_option (\<lambda>info. (True, add_level INFRQ_FILES info)) (read_files rd info (open_reader content)))"

definition load_install :: "filesys \<Rightarrow> string \<Rightarrow> u32 \<Rightarrow> alpm_pkg_t \<Rightarrow> alpm_pkg_t" where
  "load_install fs dir inforeq info =
     (if \<not> lacks inforeq info INFRQ_SCRIPTLET then info
      else
        add_level INFRQ_SCRIPTLET
          (if access_exists fs (alpm_local_db_pkgpath dir info ''install'') then info\<lparr>scriptlet := True\<rparr> else info))"

definition local_db_read :: "read_op \<Rightarrow> filesys \<Rightarrow> string \<Rightarrow> alpm_pkg_t \<Rightarrow> u32 \<Rightarrow> (int \<times> alpm_pkg_t) option" where
  "local_db_read rd fs dir info inforeq =
     (if infolevel info AND inforeq = inforeq then Some (0, info)
      else if infolevel info AND INFRQ_ERROR \<noteq> 0 then Some (-1, info)
      else
        case load_desc rd fs dir inforeq info of
          None \<Rightarrow> None
        | Some (False, info) \<Rightarrow> Some (-1, add_level INFRQ_ERROR info)
        | Some (True, info) \<Rightarrow>
            (case load_files rd fs dir inforeq info of
               None \<Rightarrow> None
             | Some (False, info) \<Rightarrow> Some (-1, add_level INFRQ_ERROR info)
             | Some (True, info) \<Rightarrow> Some (0, load_install fs dir inforeq info)))"

text \<open>\<open>LAZY_LOAD\<close> and the accessors of a package from the local database; errors of the loading are ignored.\<close>

definition lazy_load ::
  "read_op \<Rightarrow> filesys \<Rightarrow> string \<Rightarrow> u32 \<Rightarrow> (alpm_pkg_t \<Rightarrow> 'a) \<Rightarrow> alpm_pkg_t \<Rightarrow> ('a \<times> alpm_pkg_t) option" where
  "lazy_load rd fs dir info field pkg =
     (if infolevel pkg AND info = 0 then map_option (\<lambda>(_, pkg). (field pkg, pkg)) (local_db_read rd fs dir pkg info)
      else Some (field pkg, pkg))"

type_synonym 'a accessor = "read_op \<Rightarrow> filesys \<Rightarrow> string \<Rightarrow> alpm_pkg_t \<Rightarrow> ('a \<times> alpm_pkg_t) option"

definition cache_get_base :: "(string option) accessor" where
  "cache_get_base rd fs dir = lazy_load rd fs dir INFRQ_DESC base"

definition cache_get_desc :: "(string option) accessor" where
  "cache_get_desc rd fs dir = lazy_load rd fs dir INFRQ_DESC desc"

definition cache_get_url :: "(string option) accessor" where
  "cache_get_url rd fs dir = lazy_load rd fs dir INFRQ_DESC url"

definition cache_get_builddate :: "int accessor" where
  "cache_get_builddate rd fs dir = lazy_load rd fs dir INFRQ_DESC builddate"

definition cache_get_installdate :: "int accessor" where
  "cache_get_installdate rd fs dir = lazy_load rd fs dir INFRQ_DESC installdate"

definition cache_get_packager :: "(string option) accessor" where
  "cache_get_packager rd fs dir = lazy_load rd fs dir INFRQ_DESC packager"

definition cache_get_arch :: "(string option) accessor" where
  "cache_get_arch rd fs dir = lazy_load rd fs dir INFRQ_DESC arch"

definition cache_get_isize :: "int accessor" where
  "cache_get_isize rd fs dir = lazy_load rd fs dir INFRQ_DESC isize"

definition cache_get_reason :: "alpm_pkgreason_t accessor" where
  "cache_get_reason rd fs dir = lazy_load rd fs dir INFRQ_DESC preason"

definition cache_get_validation :: "u32 accessor" where
  "cache_get_validation rd fs dir = lazy_load rd fs dir INFRQ_DESC validation"

definition cache_get_licenses :: "(string list) accessor" where
  "cache_get_licenses rd fs dir = lazy_load rd fs dir INFRQ_DESC licenses"

definition cache_get_groups :: "(string list) accessor" where
  "cache_get_groups rd fs dir = lazy_load rd fs dir INFRQ_DESC groups"

definition cache_get_depends :: "(alpm_depend_t list) accessor" where
  "cache_get_depends rd fs dir = lazy_load rd fs dir INFRQ_DESC depends"

definition cache_get_optdepends :: "(alpm_depend_t list) accessor" where
  "cache_get_optdepends rd fs dir = lazy_load rd fs dir INFRQ_DESC optdepends"

definition cache_get_makedepends :: "(alpm_depend_t list) accessor" where
  "cache_get_makedepends rd fs dir = lazy_load rd fs dir INFRQ_DESC makedepends"

definition cache_get_checkdepends :: "(alpm_depend_t list) accessor" where
  "cache_get_checkdepends rd fs dir = lazy_load rd fs dir INFRQ_DESC checkdepends"

definition cache_get_conflicts :: "(alpm_depend_t list) accessor" where
  "cache_get_conflicts rd fs dir = lazy_load rd fs dir INFRQ_DESC conflicts"

definition cache_get_provides :: "(alpm_depend_t list) accessor" where
  "cache_get_provides rd fs dir = lazy_load rd fs dir INFRQ_DESC provides"

definition cache_get_replaces :: "(alpm_depend_t list) accessor" where
  "cache_get_replaces rd fs dir = lazy_load rd fs dir INFRQ_DESC replaces"

definition cache_get_files :: "alpm_filelist_t accessor" where
  "cache_get_files rd fs dir = lazy_load rd fs dir INFRQ_FILES files"

definition cache_get_backup :: "(alpm_backup_t list) accessor" where
  "cache_get_backup rd fs dir = lazy_load rd fs dir INFRQ_FILES backup"

definition cache_has_scriptlet :: "bool accessor" where
  "cache_has_scriptlet rd fs dir = lazy_load rd fs dir INFRQ_SCRIPTLET scriptlet"

definition cache_force_load :: "read_op \<Rightarrow> filesys \<Rightarrow> string \<Rightarrow> alpm_pkg_t \<Rightarrow> (int \<times> alpm_pkg_t) option" where
  "cache_force_load rd fs dir pkg = local_db_read rd fs dir pkg INFRQ_ALL"

section \<open>Writing\<close>

text \<open>A part of the file: the header, its lines, and an empty line.\<close>

definition section_text :: "string \<Rightarrow> string list \<Rightarrow> string" where
  "section_text header lines = concat (map (\<lambda>l. l @ [newline]) (header # lines)) @ [newline]"

definition write_string :: "string \<Rightarrow> string option \<Rightarrow> string" where
  "write_string header s = (case s of None \<Rightarrow> [] | Some x \<Rightarrow> section_text header [x])"

definition write_number :: "string \<Rightarrow> int \<Rightarrow> string" where
  "write_number header n = (if n = 0 then [] else section_text header [dec_int n])"

definition write_list :: "string \<Rightarrow> string list \<Rightarrow> string" where
  "write_list header l = (if l = [] then [] else section_text header l)"

definition write_deps :: "string \<Rightarrow> alpm_depend_t list \<Rightarrow> string" where
  "write_deps header deplist =
     (if deplist = [] then [] else section_text header (map (\<lambda>d. the (alpm_dep_compute_string (Some d))) deplist))"

definition reason_number :: "alpm_pkgreason_t \<Rightarrow> u32" where
  "reason_number r = (case r of ALPM_PKG_REASON_EXPLICIT \<Rightarrow> 0 | ALPM_PKG_REASON_DEPEND \<Rightarrow> 1 | Other_reason n \<Rightarrow> n)"

definition validation_names :: "u32 \<Rightarrow> string list" where
  "validation_names v =
     (if v AND ALPM_PKG_VALIDATION_NONE \<noteq> 0 then [''none''] else []) @
     (if v AND ALPM_PKG_VALIDATION_MD5SUM \<noteq> 0 then [''md5''] else []) @
     (if v AND ALPM_PKG_VALIDATION_SHA256SUM \<noteq> 0 then [''sha256''] else []) @
     (if v AND ALPM_PKG_VALIDATION_SIGNATURE \<noteq> 0 then [''pgp''] else [])"

definition desc_text :: "alpm_pkg_t \<Rightarrow> string" where
  "desc_text info =
     section_text ''%NAME%'' [pname info] @ section_text ''%VERSION%'' [c_string (version info)] @
     write_string ''%BASE%'' (base info) @ write_string ''%DESC%'' (desc info) @ write_string ''%URL%'' (url info) @
     write_string ''%ARCH%'' (arch info) @ write_number ''%BUILDDATE%'' (builddate info) @
     write_number ''%INSTALLDATE%'' (installdate info) @ write_string ''%PACKAGER%'' (packager info) @
     write_number ''%SIZE%'' (isize info) @ write_number ''%REASON%'' (uint (reason_number (preason info))) @
     write_list ''%GROUPS%'' (groups info) @ write_list ''%LICENSE%'' (licenses info) @
     (if validation info = 0 then [] else section_text ''%VALIDATION%'' (validation_names (validation info))) @
     write_deps ''%REPLACES%'' (replaces info) @ write_deps ''%DEPENDS%'' (depends info) @
     write_deps ''%OPTDEPENDS%'' (optdepends info) @ write_deps ''%CONFLICTS%'' (conflicts info) @
     write_deps ''%PROVIDES%'' (provides info)"

definition files_text :: "alpm_pkg_t \<Rightarrow> string" where
  "files_text info =
     (if files info = [] then [] else section_text ''%FILES%'' (map fname (files info))) @
     (if backup info = [] then []
      else section_text ''%BACKUP%'' (map (\<lambda>b. bname b @ CHR 0x09 # c_string (bhash b)) (backup info)))"

definition local_db_write :: "string \<Rightarrow> bool \<Rightarrow> alpm_pkg_t \<Rightarrow> u32 \<Rightarrow> int call" where
  "local_db_write dir is_local info inforeq fs =
     (if \<not> is_local then (-1, fs)
      else
        let (e, fs) = (if inforeq AND INFRQ_DESC \<noteq> 0
                       then write_file (alpm_local_db_pkgpath dir info ''desc'') (desc_text info) fs else (None, fs))
        in if e \<noteq> None then (-1, fs)
           else
             let (e, fs) = (if inforeq AND INFRQ_FILES \<noteq> 0
                            then write_file (alpm_local_db_pkgpath dir info ''files'') (files_text info) fs else (None, fs))
             in (if e \<noteq> None then -1 else 0, fs))"

section \<open>The directories\<close>

definition make_dbdir :: "string \<Rightarrow> int call" where
  "make_dbdir path fs = (let (r, fs) = alpm_makepath path fs in (if r \<noteq> 0 then -1 else 0, fs))"

text \<open>The only error is \<open>ALPM_ERR_SYSTEM\<close>.\<close>

definition checkdbdir :: "string \<Rightarrow> int call" where
  "checkdbdir path fs =
     (case stat fs path of
        Inl _ \<Rightarrow> make_dbdir path fs
      | Inr (_, n) \<Rightarrow>
          if n = Dir then (0, fs)
          else (let (e, fs) = unlink path fs in if e \<noteq> None then (-1, fs) else make_dbdir path fs))"

definition local_db_prepare :: "string \<Rightarrow> alpm_pkg_t \<Rightarrow> int call" where
  "local_db_prepare dir info fs =
     (let (r, fs) = checkdbdir dir fs
      in if r \<noteq> 0 then (-1, fs)
         else (let (e, fs) = mkdir (alpm_local_db_pkgpath dir info []) fs in (if e = None then 0 else -1, fs)))"

text \<open>Removing the files of an entry one by one; a name that is too long for the buffer is left.\<close>

fun unlink_entries :: "string \<Rightarrow> string list \<Rightarrow> int \<Rightarrow> int call" where
  "unlink_entries pkgpath [] ret fs = (ret, fs)"
| "unlink_entries pkgpath (name # dp) ret fs =
     (if length pkgpath + length name + 2 > 4096 then unlink_entries pkgpath dp (-1) fs
      else
        let (e, fs) = unlink (pkgpath @ ''/'' @ name) fs
        in unlink_entries pkgpath dp (if e \<noteq> None then -1 else ret) fs)"

definition local_db_remove :: "string \<Rightarrow> alpm_pkg_t \<Rightarrow> int call" where
  "local_db_remove dir info fs =
     (let pkgpath = alpm_local_db_pkgpath dir info []
      in case opendir fs pkgpath of
           Inl _ \<Rightarrow> (-1, fs)
         | Inr ns \<Rightarrow>
             (let (ret, fs) = unlink_entries pkgpath ns 0 fs;
                  (e, fs) = rmdir pkgpath fs
              in (if e \<noteq> None then -1 else ret, fs)))"

section \<open>The version of the database\<close>

definition ALPM_LOCAL_DB_VERSION :: nat where
  "ALPM_LOCAL_DB_VERSION = 9"

text \<open>\<open>fscanf("%zu")\<close>: the number, if there is one. It saturates, and a minus sign negates it.\<close>

definition scan_size :: "string \<Rightarrow> nat option" where
  "scan_size s =
     (let t = dropWhile isspace s;
          signed = (t \<noteq> [] \<and> (hd t = CHR ''-'' \<or> hd t = CHR ''+''));
          digits = takeWhile isdigit (if signed then tl t else t);
          n = min (decimal digits) (2 ^ 64 - 1)
      in if digits = [] then None
         else Some (if signed \<and> hd t = CHR ''-'' \<and> decimal digits < 2 ^ 64 then (2 ^ 64 - n) mod 2 ^ 64 else n))"

definition local_db_add_version :: "string \<Rightarrow> int call" where
  "local_db_add_version dir fs =
     (let (e, fs) = write_file (dir @ ''ALPM_DB_VERSION'') (dec_nat ALPM_LOCAL_DB_VERSION @ [newline]) fs
      in (if e = None then 0 else 1, fs))"

text \<open>The result, and whether the directory could be made.\<close>

definition local_db_create :: "string \<Rightarrow> (int \<times> bool) call" where
  "local_db_create dir fs =
     (let (e, fs) = mkdir dir fs
      in if e \<noteq> None then ((-1, False), fs)
         else (let (r, fs) = local_db_add_version dir fs in ((if r \<noteq> 0 then 1 else 0, True), fs)))"

definition set_status :: "u32 \<Rightarrow> u32 \<Rightarrow> dbref \<Rightarrow> alpm_world \<Rightarrow> alpm_world" where
  "set_status on off db w = upd_db db (\<lambda>d. d\<lparr>status := (status d OR on) AND NOT off\<rparr>) w"

definition version_ok :: "dbref \<Rightarrow> alpm_world \<Rightarrow> int \<times> alpm_world" where
  "version_ok db w = (0, set_status DB_STATUS_VALID DB_STATUS_INVALID db w)"

definition version_error :: "dbref \<Rightarrow> alpm_world \<Rightarrow> int \<times> alpm_world" where
  "version_error db w = (-1, set_errno ALPM_ERR_DB_VERSION (set_status DB_STATUS_INVALID DB_STATUS_VALID db w))"

definition local_db_validate :: "dbref \<Rightarrow> alpm_world \<Rightarrow> filesys \<Rightarrow> (int \<times> alpm_world) \<times> filesys" where
  "local_db_validate db w fs =
     (if has_status (wdbs w db) DB_STATUS_VALID then ((0, w), fs)
      else if has_status (wdbs w db) DB_STATUS_INVALID then ((-1, w), fs)
      else
        let (dir, w) = alpm_db_path w db
        in case opendir fs dir of
             Inl ENOENT \<Rightarrow>
               (let ((r, made), fs) = local_db_create dir fs
                in if r = 0
                   then ((0, set_status DB_STATUS_EXISTS DB_STATUS_MISSING db (set_status DB_STATUS_VALID DB_STATUS_INVALID db w)), fs)
                   else
                     ((-1, set_status DB_STATUS_MISSING DB_STATUS_EXISTS db (if made then w else set_errno ALPM_ERR_DB_CREATE w)), fs))
           | Inl _ \<Rightarrow> ((-1, set_errno ALPM_ERR_DB_OPEN w), fs)
           | Inr ns \<Rightarrow>
               (let w = set_status DB_STATUS_EXISTS DB_STATUS_MISSING db w
                in case read_file fs (dir @ ''ALPM_DB_VERSION'') of
                     Inl _ \<Rightarrow>
                       if ns \<noteq> [] then (version_error db w, fs)
                       else
                         (let (r, fs) = local_db_add_version dir fs
                          in (if r \<noteq> 0 then version_error db w else version_ok db w, fs))
                   | Inr content \<Rightarrow>
                       (if scan_size content = Some ALPM_LOCAL_DB_VERSION then version_ok db w else version_error db w, fs)))"

section \<open>Filling the cache\<close>

text \<open>Whether an entry is a directory, for a system that says so in \<open>d_type\<close> and for one that does not.\<close>

definition is_dir :: "filesys \<Rightarrow> bool \<Rightarrow> string \<Rightarrow> string \<Rightarrow> bool" where
  "is_dir fs d_type path d_name =
     (let node = (if d_type then lstat fs (path @ d_name) else stat fs (take 4095 (path @ ''/'' @ d_name)))
      in case node of Inl _ \<Rightarrow> False | Inr (_, n) \<Rightarrow> n = Dir)"

text \<open>
  One entry after the other: \<open>None\<close> if the code reads outside of the name of an entry, or a search
  in the hash does not return. The flag is whether the hash had room; the number is the count.
\<close>

fun populate_loop ::
  "read_op \<Rightarrow> filesys \<Rightarrow> bool \<Rightarrow> string \<Rightarrow> dbref \<Rightarrow> string list \<Rightarrow> alpm_pkghash_t \<Rightarrow> nat \<Rightarrow> alpm_world \<Rightarrow>
   (bool \<times> alpm_pkghash_t \<times> nat \<times> alpm_world) option" where
  "populate_loop rd fs d_type dir db [] hash found w = Some (True, hash, found, w)"
| "populate_loop rd fs d_type dir db (name # ns) hash found w =
     (if \<not> is_dir fs d_type dir name then populate_loop rd fs d_type dir db ns hash found w
      else
        case alpm_splitname (Some name) of
          SplitOutOfBounds \<Rightarrow> None
        | SplitError \<Rightarrow> populate_loop rd fs d_type dir db ns hash found w
        | SplitOk n ver h \<Rightarrow>
            (case alpm_pkghash_find (wpkgs w) hash n of
               None \<Rightarrow> None
             | Some (Some _) \<Rightarrow> populate_loop rd fs d_type dir db ns hash found w
             | Some None \<Rightarrow>
                 let pkg = alpm_pkg_new
                       \<lparr>pname := n, version := Some ver, name_hash := h, origin := ALPM_PKG_FROM_LOCALDB, origin_data := Origin_db db\<rparr>
                 in (case local_db_read rd fs dir pkg INFRQ_BASE of
                       None \<Rightarrow> None
                     | Some (r, pkg) \<Rightarrow>
                         if r = -1 then populate_loop rd fs d_type dir db ns hash found w
                         else
                           let p = next_ref w; w = w\<lparr>wpkgs := (wpkgs w)(p := pkg), next_ref := p + 1\<rparr>
                           in (case alpm_pkghash_add (wpkgs w) hash p of
                                 None \<Rightarrow> None
                               | Some (added, hash) \<Rightarrow>
                                   if added then populate_loop rd fs d_type dir db ns hash (found + 1) w
                                   else Some (False, hash, found, w)))))"

text \<open>The number of links of the directory, from which its size is estimated, is an argument.\<close>

definition local_db_populate ::
  "read_op \<Rightarrow> bool \<Rightarrow> nat \<Rightarrow> filesys \<Rightarrow> dbref \<Rightarrow> alpm_world \<Rightarrow> (int \<times> alpm_world) option" where
  "local_db_populate rd d_type nlink fs db w =
     (if has_status (wdbs w db) DB_STATUS_INVALID then Some (-1, set_errno ALPM_ERR_DB_INVALID w)
      else if has_status (wdbs w db) DB_STATUS_MISSING then Some (-1, set_errno ALPM_ERR_DB_NOT_FOUND w)
      else
        let (dir, w) = alpm_db_path w db
        in case opendir fs dir of
             Inl _ \<Rightarrow> Some (-1, set_errno ALPM_ERR_DB_OPEN w)
           | Inr ns \<Rightarrow>
               (let w = set_status DB_STATUS_EXISTS DB_STATUS_MISSING db w;
                    est_count = (if nlink \<ge> 2 then nlink else length ns + 2);
                    est_count = (if est_count \<ge> 2 then est_count - 2 else est_count)
                in case alpm_pkghash_create est_count of
                     None \<Rightarrow> Some (-1, set_errno ALPM_ERR_MEMORY (upd_db db (\<lambda>d. d\<lparr>pkgcache := None\<rparr>) w))
                   | Some hash \<Rightarrow>
                       (case populate_loop rd fs d_type dir db ns hash 0 w of
                          None \<Rightarrow> None
                        | Some (room, hash, found, w) \<Rightarrow>
                            if \<not> room then Some (-1, set_errno ALPM_ERR_MEMORY (upd_db db (\<lambda>d. d\<lparr>pkgcache := Some hash\<rparr>) w))
                            else
                              let hash = (if found > 0
                                          then hash\<lparr>hlist := alpm_list_msort (alpm_pkg_cmp (wpkgs w)) found (hlist hash)\<rparr> else hash)
                              in Some (0, upd_db db (\<lambda>d. d\<lparr>pkgcache := Some hash\<rparr>) w))))"

section \<open>The reason of an installation\<close>

definition alpm_pkg_set_reason ::
  "read_op \<Rightarrow> pkgref option \<Rightarrow> alpm_pkgreason_t \<Rightarrow> alpm_world \<Rightarrow> filesys \<Rightarrow> ((int \<times> alpm_world) \<times> filesys) option" where
  "alpm_pkg_set_reason rd pkg reason w fs =
     (case pkg of
        None \<Rightarrow> Some ((-1, w), fs)
      | Some p \<Rightarrow>
          if origin (wpkgs w p) \<noteq> ALPM_PKG_FROM_LOCALDB then Some ((-1, set_errno ALPM_ERR_WRONG_ARGS w), fs)
          else
            (case (origin_data (wpkgs w p), db_local (handle w)) of
               (Origin_db d, Some l) \<Rightarrow>
                 if d \<noteq> l then Some ((-1, set_errno ALPM_ERR_WRONG_ARGS w), fs)
                 else
                   let (dir, w) = alpm_db_path w d
                   in (case cache_get_reason rd fs dir (wpkgs w p) of
                         None \<Rightarrow> None
                       | Some (old, info) \<Rightarrow>
                           let w = w\<lparr>wpkgs := (wpkgs w)(p := info)\<rparr>
                           in if old = reason then Some ((0, w), fs)
                              else
                                let info = info\<lparr>preason := reason\<rparr>; w = w\<lparr>wpkgs := (wpkgs w)(p := info)\<rparr>;
                                    (r, fs) = local_db_write dir (has_status (wdbs w l) DB_STATUS_LOCAL) info INFRQ_DESC fs
                                in if r \<noteq> 0 then Some ((-1, set_errno ALPM_ERR_DB_WRITE w), fs) else Some ((0, w), fs))
             | _ \<Rightarrow> Some ((-1, set_errno ALPM_ERR_WRONG_ARGS w), fs)))"

end
