(* ===== verification/AlpmPkgLoad.thy ===== *)
theory AlpmPkgLoad
  imports AlpmSigning AlpmDeps AlpmStream AlpmLocal
begin

text \<open>
  Package files (\<open>lib/libalpm/be_package.c\<close>): reading the description and the file list out of the
  archive, and validating the file against its sync database entry and its signature. libarchive and
  the file system are arguments: the entries of the archive with what reading them returns.
\<close>

section \<open>The surroundings\<close>

datatype read_result = Chunk string | Read_failed

text \<open>
  An entry: its path, type, size and mode; its data as \<open>archive_read_data_block\<close> and as
  \<open>archive_read_data\<close> return them; what skipping the data returns. \<open>pa_end\<close> is the result of
  \<open>archive_read_next_header\<close> after the last entry.
\<close>

record pkg_entry =
  pe_path :: string
  pe_dir :: bool
  pe_size :: int
  pe_mode :: nat
  pe_blocks :: blocks
  pe_reads :: "read_result list"
  pe_skip :: int

record pkg_archive =
  pa_entries :: "pkg_entry list"
  pa_end :: int

text \<open>
  \<open>pk_access\<close> is the \<open>errno\<close> of a file that cannot be read, \<open>pk_open\<close> opens an archive and tells the
  size of the file, \<open>pk_mtree\<close> is the archive that the data of an mtree file stands for, \<open>pk_sigfile\<close> the
  contents of a file that can be opened; the sums of a file are \<open>None\<close> if they cannot be computed.
\<close>

record 'r pkg_env =
  pk_pgp :: "'r pgp_env"
  pk_access :: "string \<Rightarrow> errno"
  pk_open :: "string \<Rightarrow> errno + int \<times> pkg_archive"
  pk_mtree :: "string \<Rightarrow> pkg_archive option"
  pk_sigfile :: "string \<Rightarrow> u8 list option"
  pk_md5 :: "string \<Rightarrow> string option"
  pk_sha256 :: "string \<Rightarrow> string option"

section \<open>The description\<close>

text \<open>What the functions of \<open>string.h\<close> see of the bytes: those before a NUL.\<close>

definition c_bytes :: "string \<Rightarrow> string" where
  "c_bytes s = takeWhile (\<lambda>c. c \<noteq> NUL) s"

definition add_dep :: "string \<Rightarrow> alpm_depend_t list \<Rightarrow> alpm_depend_t list" where
  "add_dep ptr deps = (case alpm_dep_from_string (Some ptr) of None \<Rightarrow> deps | Some d \<Rightarrow> alpm_list_add deps d)"

definition desc_field :: "string \<Rightarrow> string \<Rightarrow> alpm_pkg_t \<Rightarrow> alpm_pkg_t" where
  "desc_field key ptr newpkg =
     (if key = ''pkgname'' then newpkg\<lparr>pname := ptr, name_hash := name_hash_of ptr\<rparr>
      else if key = ''pkgbase'' then newpkg\<lparr>base := Some ptr\<rparr>
      else if key = ''pkgver'' then newpkg\<lparr>version := Some ptr\<rparr>
      else if key = ''basever'' then newpkg
      else if key = ''pkgdesc'' then newpkg\<lparr>desc := Some ptr\<rparr>
      else if key = ''group'' then newpkg\<lparr>groups := alpm_list_add (groups newpkg) ptr\<rparr>
      else if key = ''url'' then newpkg\<lparr>url := Some ptr\<rparr>
      else if key = ''license'' then newpkg\<lparr>licenses := alpm_list_add (licenses newpkg) ptr\<rparr>
      else if key = ''builddate'' then newpkg\<lparr>builddate := alpm_parsedate ptr\<rparr>
      else if key = ''packager'' then newpkg\<lparr>packager := Some ptr\<rparr>
      else if key = ''arch'' then newpkg\<lparr>arch := Some ptr\<rparr>
      else if key = ''size'' then newpkg\<lparr>isize := alpm_strtoofft ptr\<rparr>
      else if key = ''depend'' then newpkg\<lparr>depends := add_dep ptr (depends newpkg)\<rparr>
      else if key = ''optdepend'' then newpkg\<lparr>optdepends := add_dep ptr (optdepends newpkg)\<rparr>
      else if key = ''makedepend'' then newpkg\<lparr>makedepends := add_dep ptr (makedepends newpkg)\<rparr>
      else if key = ''checkdepend'' then newpkg\<lparr>checkdepends := add_dep ptr (checkdepends newpkg)\<rparr>
      else if key = ''conflict'' then newpkg\<lparr>conflicts := add_dep ptr (conflicts newpkg)\<rparr>
      else if key = ''replaces'' then newpkg\<lparr>replaces := add_dep ptr (replaces newpkg)\<rparr>
      else if key = ''provides'' then newpkg\<lparr>provides := add_dep ptr (provides newpkg)\<rparr>
      else if key = ''backup'' then newpkg\<lparr>backup := alpm_list_add (backup newpkg) \<lparr>bname = ptr, bhash = None\<rparr>\<rparr>
      else newpkg)"

text \<open>A line of the description as \<open>_alpm_archive_fgets\<close> returns it.\<close>

definition desc_line :: "string \<Rightarrow> alpm_pkg_t \<Rightarrow> alpm_pkg_t" where
  "desc_line line newpkg =
     (let (key, len) = alpm_strip_newline (if line \<noteq> [] \<and> hd line = NUL then [] else line) (length line)
      in if len = 0 \<or> hd key = CHR ''#'' then newpkg
         else
           (case find_byte CHR '' '' key of
              None \<Rightarrow> newpkg
            | Some n \<Rightarrow>
                if len < n + 2 \<or> take 3 (drop n key) \<noteq> '' = '' then newpkg
                else desc_field (c_bytes (take n key)) (c_bytes (drop (n + 3) key)) newpkg))"

text \<open>
  The loop. Its fuel is enough: every call takes a byte or a block, but for the last two.
\<close>

definition desc_fuel :: "blocks \<Rightarrow> nat" where
  "desc_fuel bs = sum_list (map (\<lambda>b. length (snd b) + 1) bs) + 2"

definition parse_descfile :: "blocks \<Rightarrow> alpm_pkg_t \<Rightarrow> int \<times> alpm_pkg_t" where
  "parse_descfile bs newpkg =
     (case archive_lines (desc_fuel bs) (empty_buffer\<lparr>max_line_size := 512 * 1024\<rparr>) bs of
        None \<Rightarrow> (-1, newpkg)
      | Some (ls, r) \<Rightarrow> (if r \<noteq> ARCHIVE_EOF then -1 else 0, fold desc_line ls newpkg))"

section \<open>The file list\<close>

text \<open>Whether the path has been handled, and the package.\<close>

definition handle_simple_path :: "string \<Rightarrow> alpm_pkg_t \<Rightarrow> bool \<times> alpm_pkg_t" where
  "handle_simple_path path pkg =
     (if path = ''.INSTALL'' then (True, pkg\<lparr>scriptlet := True\<rparr>)
      else if path \<noteq> [] \<and> hd path = CHR ''.'' then (True, pkg)
      else (False, pkg))"

text \<open>
  The character before the path is read if the path is empty: it is the slash of the \<open>./\<close> that was
  stripped, and otherwise outside the string, which is \<open>None\<close>.
\<close>

definition add_entry_to_files_list :: "bool \<Rightarrow> pkg_entry \<Rightarrow> string \<Rightarrow> alpm_filelist_t \<Rightarrow> alpm_filelist_t option" where
  "add_entry_to_files_list stripped e path filelist =
     (if pe_dir e \<and> path = [] \<and> \<not> stripped then None
      else
        let name = (if pe_dir e \<and> path \<noteq> [] \<and> last path \<noteq> CHR ''/'' then path @ ''/'' else path)
        in Some (filelist @ [\<lparr>fname = name, fsize = pe_size e, fmode = pe_mode e\<rparr>]))"

text \<open>The data of an entry, read until nothing comes.\<close>

fun read_data :: "read_result list \<Rightarrow> string \<Rightarrow> string option" where
  "read_data [] acc = Some acc"
| "read_data (Read_failed # rs) acc = None"
| "read_data (Chunk d # rs) acc = (if d = [] then Some acc else read_data rs (acc @ d))"

fun mtree_entries :: "pkg_entry list \<Rightarrow> alpm_filelist_t \<Rightarrow> alpm_pkg_t \<Rightarrow> (alpm_filelist_t \<times> alpm_pkg_t) option" where
  "mtree_entries [] filelist pkg = Some (filelist, pkg)"
| "mtree_entries (e # es) filelist pkg =
     (let stripped = (take 2 (pe_path e) = ''./'');
          path = (if stripped then drop 2 (pe_path e) else pe_path e);
          (handled, pkg) = handle_simple_path path pkg
      in if handled then mtree_entries es filelist pkg
         else
           (case add_entry_to_files_list stripped e path filelist of
              None \<Rightarrow> None
            | Some filelist \<Rightarrow> mtree_entries es filelist pkg))"

text \<open>
  The return value, the package and \<open>pm_errno\<close>. What was found out about a scriptlet stays when it fails.
\<close>

definition build_filelist_from_mtree ::
  "'r pkg_env \<Rightarrow> pkg_entry \<Rightarrow> alpm_pkg_t \<Rightarrow> alpm_errno_t \<Rightarrow> (int \<times> alpm_pkg_t \<times> alpm_errno_t) option" where
  "build_filelist_from_mtree env e pkg errno =
     (case read_data (pe_reads e) [] of
        None \<Rightarrow> Some (-1, pkg, ALPM_ERR_LIBARCHIVE)
      | Some mtree_data \<Rightarrow>
          (case pk_mtree env mtree_data of
             None \<Rightarrow> Some (-1, pkg, ALPM_ERR_LIBARCHIVE)
           | Some mtree \<Rightarrow>
               (case mtree_entries (pa_entries mtree) [] pkg of
                  None \<Rightarrow> None
                | Some (filelist, pkg) \<Rightarrow>
                    if pa_end mtree \<noteq> ARCHIVE_EOF \<and> pa_end mtree \<noteq> ARCHIVE_OK then Some (-1, pkg, ALPM_ERR_LIBARCHIVE)
                    else Some (0, pkg\<lparr>files := filelist\<rparr>, errno))))"

section \<open>Loading a package\<close>

record load_state =
  ld_pkg :: alpm_pkg_t
  ld_config :: bool
  ld_mtree :: bool
  ld_errno :: alpm_errno_t

definition pkginfo_ok :: "alpm_pkg_t \<Rightarrow> bool" where
  "pkginfo_ok newpkg \<longleftrightarrow>
     pname newpkg \<noteq> [] \<and> (case version newpkg of None \<Rightarrow> False | Some v \<Rightarrow> v \<noteq> [] \<and> CHR ''-'' \<in> set v)"

text \<open>The loop over the entries: an error, or the state at its end.\<close>

fun load_entries :: "'r pkg_env \<Rightarrow> bool \<Rightarrow> pkg_entry list \<Rightarrow> int \<Rightarrow> load_state \<Rightarrow> (alpm_errno_t + load_state) option" where
  "load_entries env full [] ret s =
     (if ret \<noteq> ARCHIVE_EOF \<and> ret \<noteq> ARCHIVE_OK then Some (Inl ALPM_ERR_LIBARCHIVE) else Some (Inr s))"
| "load_entries env full (e # es) ret s =
     (if pe_path e = ''.PKGINFO'' then
        let (r, newpkg) = parse_descfile (pe_blocks e) (ld_pkg s)
        in if r \<noteq> 0 \<or> \<not> pkginfo_ok newpkg then Some (Inl ALPM_ERR_PKG_INVALID)
           else load_entries env full es ret (s\<lparr>ld_pkg := newpkg, ld_config := True\<rparr>)
      else if full \<and> pe_path e = ''.MTREE'' then
        (case build_filelist_from_mtree env e (ld_pkg s) (ld_errno s) of
           None \<Rightarrow> None
         | Some (r, newpkg, errno) \<Rightarrow>
             load_entries env full es ret (s\<lparr>ld_pkg := newpkg, ld_mtree := (r = 0), ld_errno := errno\<rparr>))
      else
        let (handled, newpkg) = handle_simple_path (pe_path e) (ld_pkg s)
        in if handled then load_entries env full es ret (s\<lparr>ld_pkg := newpkg\<rparr>)
           else
             (case (if full \<and> \<not> ld_mtree s then add_entry_to_files_list False e (pe_path e) (files newpkg)
                    else Some (files newpkg)) of
                None \<Rightarrow> None
              | Some filelist \<Rightarrow>
                  let s = s\<lparr>ld_pkg := newpkg\<lparr>files := filelist\<rparr>\<rparr>
                  in if pe_skip e \<noteq> 0 then Some (Inl ALPM_ERR_LIBARCHIVE)
                     else if (\<not> full \<or> ld_mtree s) \<and> ld_config s then Some (Inr s)
                     else load_entries env full es ret s))"

definition access_error :: "errno \<Rightarrow> alpm_errno_t" where
  "access_error e = (if e = ENOENT then ALPM_ERR_PKG_NOT_FOUND else if e = EACCES then ALPM_ERR_BADPERMS else ALPM_ERR_PKG_OPEN)"

text \<open>The package, if it could be loaded, and \<open>pm_errno\<close>.\<close>

definition alpm_pkg_load_internal ::
  "'r pkg_env \<Rightarrow> string option \<Rightarrow> bool \<Rightarrow> alpm_errno_t \<Rightarrow> (alpm_pkg_t option \<times> alpm_errno_t) option" where
  "alpm_pkg_load_internal env pkgfile full errno =
     (case pkgfile of
        None \<Rightarrow> Some (None, ALPM_ERR_WRONG_ARGS)
      | Some path \<Rightarrow>
          if path = [] then Some (None, ALPM_ERR_WRONG_ARGS)
          else
            (case pk_open env path of
               Inl e \<Rightarrow> Some (None, access_error e)
             | Inr (st_size, archive) \<Rightarrow>
                 (case load_entries env full (pa_entries archive) (pa_end archive)
                         \<lparr>ld_pkg = alpm_pkg_new\<lparr>filename := Some path, psize := st_size\<rparr>, ld_config = False, ld_mtree = False,
                          ld_errno = errno\<rparr> of
                    None \<Rightarrow> None
                  | Some (Inl e) \<Rightarrow> Some (None, e)
                  | Some (Inr s) \<Rightarrow>
                      if \<not> ld_config s then Some (None, ALPM_ERR_PKG_INVALID)
                      else
                        let p = (ld_pkg s)\<lparr>origin := ALPM_PKG_FROM_FILE, origin_data := Origin_file path,
                                           infolevel := INFRQ_BASE OR INFRQ_DESC OR INFRQ_SCRIPTLET, validation := ALPM_PKG_VALIDATION_NONE\<rparr>;
                            p = (if full then p\<lparr>files := alpm_filelist_sort (files p), infolevel := infolevel p OR INFRQ_FILES\<rparr> else p)
                        in Some (Some p, ld_errno s))))"

section \<open>Validating a package\<close>

abbreviation "ALPM_SIG_PACKAGE \<equiv> 1 :: u32"
abbreviation "ALPM_SIG_PACKAGE_OPTIONAL \<equiv> 2 :: u32"
abbreviation "ALPM_SIG_PACKAGE_MARGINAL_OK \<equiv> 4 :: u32"
abbreviation "ALPM_SIG_PACKAGE_UNKNOWN_OK \<equiv> 8 :: u32"

definition pkg_has_sig :: "'r pkg_env \<Rightarrow> string \<Rightarrow> alpm_pkg_t option \<Rightarrow> u32 \<Rightarrow> bool" where
  "pkg_has_sig env pkgfile syncpkg level \<longleftrightarrow>
     level AND ALPM_SIG_PACKAGE \<noteq> 0 \<and>
     ((case syncpkg of None \<Rightarrow> False | Some p \<Rightarrow> base64_sig p \<noteq> None) \<or> g_readable (pk_pgp env) (pkgfile @ ''.sig''))"

text \<open>The sums that are compared: the error, or the checks that were made.\<close>

definition check_sums :: "'r pkg_env \<Rightarrow> string \<Rightarrow> alpm_pkg_t option \<Rightarrow> bool \<Rightarrow> u32 \<Rightarrow> alpm_errno_t + u32" where
  "check_sums env pkgfile syncpkg has_sig v =
     (case syncpkg of
        None \<Rightarrow> Inr v
      | Some p \<Rightarrow>
          if has_sig \<and> base64_sig p \<noteq> None then Inr v
          else if md5sum p \<noteq> None \<and> sha256sum p = None then
            if alpm_test_checksum (pk_md5 env) (pk_sha256 env) pkgfile (md5sum p) VALIDATION_MD5SUM \<noteq> 0
            then Inl ALPM_ERR_PKG_INVALID_CHECKSUM else Inr (v OR ALPM_PKG_VALIDATION_MD5SUM)
          else if sha256sum p \<noteq> None then
            if alpm_test_checksum (pk_md5 env) (pk_sha256 env) pkgfile (sha256sum p) VALIDATION_SHA256SUM \<noteq> 0
            then Inl ALPM_ERR_PKG_INVALID_CHECKSUM else Inr (v OR ALPM_PKG_VALIDATION_SHA256SUM)
          else Inr v)"

text \<open>
  The return value, the list for the caller's \<open>sigdata\<close> if it is written, and the checks passed.
\<close>

definition alpm_pkg_validate_internal ::
  "'r pkg_env \<Rightarrow> string option \<Rightarrow> alpm_pkg_t option \<Rightarrow> u32 \<Rightarrow> u32 \<Rightarrow> 'r pgp_state
    \<Rightarrow> (int \<times> alpm_siglist_t option \<times> u32) \<times> 'r pgp_state" where
  "alpm_pkg_validate_internal env pkgfile syncpkg level v st =
     (let st = sig_errno ALPM_ERR_OK st
      in case pkgfile of
           None \<Rightarrow> ((-1, None, v), sig_errno ALPM_ERR_WRONG_ARGS st)
         | Some path \<Rightarrow>
             if path = [] then ((-1, None, v), sig_errno ALPM_ERR_WRONG_ARGS st)
             else if \<not> g_readable (pk_pgp env) path then ((-1, None, v), sig_errno (access_error (pk_access env path)) st)
             else
               let has_sig = pkg_has_sig env path syncpkg level
               in (case check_sums env path syncpkg has_sig v of
                     Inl e \<Rightarrow> ((-1, None, v), sig_errno e st)
                   | Inr v \<Rightarrow>
                       if level AND ALPM_SIG_PACKAGE = 0
                       then ((0, None, if v = 0 then ALPM_PKG_VALIDATION_NONE else v), st)
                       else if \<not> has_sig \<and> level AND ALPM_SIG_PACKAGE_OPTIONAL = 0
                       then ((-1, None, v), sig_errno ALPM_ERR_PKG_MISSING_SIG st)
                       else
                         let ((r, l), st) = alpm_check_pgp_helper (pk_pgp env) (Some path)
                               (case syncpkg of None \<Rightarrow> None | Some p \<Rightarrow> base64_sig p)
                               (level AND ALPM_SIG_PACKAGE_OPTIONAL \<noteq> 0) (level AND ALPM_SIG_PACKAGE_MARGINAL_OK \<noteq> 0)
                               (level AND ALPM_SIG_PACKAGE_UNKNOWN_OK \<noteq> 0) st
                         in if r \<noteq> 0 then ((-1, Some l, v), sig_errno ALPM_ERR_PKG_INVALID_SIG st)
                            else
                              let v = (if has_sig then v OR ALPM_PKG_VALIDATION_SIGNATURE else v)
                              in ((0, Some l, if v = 0 then ALPM_PKG_VALIDATION_NONE else v), st)))"

section \<open>Loading a package for the user\<close>

definition MAX_SIGFILE_SIZE :: nat where
  "MAX_SIGFILE_SIZE = 16384"

text \<open>An empty file is an error, as \<open>fread\<close> then reads no item.\<close>

definition read_sigfile :: "'r pkg_env \<Rightarrow> string \<Rightarrow> u8 list option" where
  "read_sigfile env sigpath =
     (case pk_sigfile env sigpath of
        None \<Rightarrow> None
      | Some sig \<Rightarrow> if length sig > MAX_SIGFILE_SIZE \<or> sig = [] then None else Some sig)"

text \<open>The keys that are missing; whether importing one has failed.\<close>

fun import_keys :: "'r pkg_env \<Rightarrow> string option \<Rightarrow> bool \<Rightarrow> string list \<Rightarrow> bool \<Rightarrow> 'r pgp_state \<Rightarrow> (bool \<times> 'r pgp_state) option" where
  "import_keys env path full [] fail st = Some (fail, st)"
| "import_keys env path full (key # keys) fail st =
     (let (known, st) = alpm_key_in_keychain (pk_pgp env) key st
      in if known \<noteq> 0 then import_keys env path full keys fail st
         else
           (case alpm_pkg_load_internal env path full (pm_errno (pgp_handle st)) of
              None \<Rightarrow> None
            | Some (pkg_temp, e) \<Rightarrow>
                (case alpm_key_import (pk_pgp env) (case pkg_temp of None \<Rightarrow> None | Some p \<Rightarrow> packager p) key (sig_errno e st) of
                   None \<Rightarrow> None
                 | Some (r, st) \<Rightarrow> import_keys env path full keys (fail \<or> r = -1) st)))"

text \<open>The first part: \<open>Inl\<close> is the return of \<open>-1\<close>.\<close>

definition fetch_missing_keys ::
  "'r pkg_env \<Rightarrow> string option \<Rightarrow> bool \<Rightarrow> u32 \<Rightarrow> 'r pgp_state \<Rightarrow> ('r pgp_state + 'r pgp_state) option" where
  "fetch_missing_keys env path full level st =
     (case alpm_sigpath path of
        None \<Rightarrow> Some (Inr st)
      | Some sigpath \<Rightarrow>
          if \<not> g_readable (pk_pgp env) sigpath \<or> level AND ALPM_SIG_PACKAGE = 0 then Some (Inr st)
          else
            (case read_sigfile env sigpath of
               None \<Rightarrow> Some (Inl st)
             | Some sig \<Rightarrow>
                 (case alpm_extract_keyid sig [] of
                    None \<Rightarrow> None
                  | Some (fault, keys) \<Rightarrow>
                      if fault = Some Outside then None
                      else if fault \<noteq> None then Some (Inr st)
                      else
                        (case import_keys env path full keys False st of
                           None \<Rightarrow> None
                         | Some (fail, st) \<Rightarrow> Some (if fail then Inl st else Inr st)))))"

text \<open>
  The handle is not null and \<open>pkg\<close> neither. \<open>None\<close> is memory outside, or not returning at all.
\<close>

definition alpm_pkg_load ::
  "'r pkg_env \<Rightarrow> string option \<Rightarrow> bool \<Rightarrow> u32 \<Rightarrow> 'r pgp_state \<Rightarrow> ((int \<times> alpm_pkg_t option) \<times> 'r pgp_state) option" where
  "alpm_pkg_load env path full level st =
     (case fetch_missing_keys env path full level (sig_errno ALPM_ERR_OK st) of
        None \<Rightarrow> None
      | Some (Inl st) \<Rightarrow> Some ((-1, None), st)
      | Some (Inr st) \<Rightarrow>
          let ((r, l, v), st) = alpm_pkg_validate_internal env path None level 0 st
          in if r = -1 then Some ((-1, None), st)
             else
               (case alpm_pkg_load_internal env path full (pm_errno (pgp_handle st)) of
                  None \<Rightarrow> None
                | Some (None, e) \<Rightarrow> Some ((-1, None), sig_errno e st)
                | Some (Some p, e) \<Rightarrow> Some ((0, Some (p\<lparr>validation := v\<rparr>)), sig_errno e st)))"

section \<open>What loading guarantees\<close>

lemma pkginfo_files [simp]: "pkginfo_ok (p\<lparr>files := l\<rparr>) = pkginfo_ok p"
  by (simp add: pkginfo_ok_def)

lemma simple_path_info [simp]: "pkginfo_ok (snd (handle_simple_path path p)) = pkginfo_ok p"
  by (simp add: handle_simple_path_def pkginfo_ok_def)

lemma simple_path_result: "handle_simple_path path p = (h, p') \<Longrightarrow> pkginfo_ok p' = pkginfo_ok p"
  using simple_path_info [of path p] by simp

lemma mtree_entries_info: "mtree_entries es l p = Some (l', p') \<Longrightarrow> pkginfo_ok p' = pkginfo_ok p"
proof (induction es arbitrary: l p)
  case (Cons e es)
  define path where "path = (if take 2 (pe_path e) = ''./'' then drop 2 (pe_path e) else pe_path e)"
  obtain h p1 where h: "handle_simple_path path p = (h, p1)" by fastforce
  then show ?case
    using Cons.prems Cons.IH [of _ p1] simple_path_result [OF h]
    by (auto simp: Let_def path_def [symmetric] split: if_splits option.splits)
qed simp

lemma mtree_info:
  assumes "build_filelist_from_mtree env e p n = Some (r, p', n')"
  shows "pkginfo_ok p' = pkginfo_ok p"
  using assms mtree_entries_info
  by (auto simp: build_filelist_from_mtree_def split: option.splits if_splits)

text \<open>Once the description has been accepted, the name and version are there.\<close>

lemma load_entries_info:
  assumes "load_entries env full es ret s = Some (Inr s')" "ld_config s \<longrightarrow> pkginfo_ok (ld_pkg s)"
  shows "ld_config s' \<longrightarrow> pkginfo_ok (ld_pkg s')"
  using assms
proof (induction es arbitrary: s)
  case (Cons e es)
  consider "pe_path e = ''.PKGINFO''" | "pe_path e \<noteq> ''.PKGINFO''" "full" "pe_path e = ''.MTREE''"
    | "pe_path e \<noteq> ''.PKGINFO''" "\<not> (full \<and> pe_path e = ''.MTREE'')" by blast
  then show ?case
  proof cases
    case 1
    then show ?thesis using Cons by (auto split: prod.splits if_splits)
  next
    case 2
    then show ?thesis using Cons mtree_info [of env e "ld_pkg s"] by (auto split: option.splits)
  next
    case 3
    then show ?thesis using Cons simple_path_result [of "pe_path e" "ld_pkg s"]
      by (auto simp: Let_def split: prod.splits if_splits option.splits)
  qed
qed (auto split: if_splits)

lemma load_entries_errors: "load_entries env full es ret s = Some (Inl e) \<Longrightarrow> e \<in> {ALPM_ERR_LIBARCHIVE, ALPM_ERR_PKG_INVALID}"
proof (induction es arbitrary: s)
  case (Cons x es)
  consider "pe_path x = ''.PKGINFO''" | "pe_path x \<noteq> ''.PKGINFO''" "full" "pe_path x = ''.MTREE''"
    | "pe_path x \<noteq> ''.PKGINFO''" "\<not> (full \<and> pe_path x = ''.MTREE'')" by blast
  then show ?case by cases (use Cons in \<open>auto simp: Let_def split: prod.splits if_splits option.splits\<close>)
qed (auto split: if_splits)

lemma load_complete:
  assumes "alpm_pkg_load_internal env path full n = Some (r, e)"
  shows "case r of
      Some p \<Rightarrow> (\<exists>f opened. path = Some f \<and> pk_open env f = Inr opened \<and> pname p \<noteq> [] \<and>
        (\<exists>v. version p = Some v \<and> CHR ''-'' \<in> set v) \<and> origin p = ALPM_PKG_FROM_FILE \<and> origin_data p = Origin_file f \<and>
        (full \<longrightarrow> sorted (map fname (files p))))
    | None \<Rightarrow>
        (case path of
           None \<Rightarrow> e = ALPM_ERR_WRONG_ARGS
         | Some f \<Rightarrow>
             if f = [] then e = ALPM_ERR_WRONG_ARGS
             else (case pk_open env f of Inl en \<Rightarrow> e = access_error en | Inr _ \<Rightarrow> e \<in> {ALPM_ERR_LIBARCHIVE, ALPM_ERR_PKG_INVALID}))"
proof (cases path)
  case None
  then show ?thesis using assms by (auto simp: alpm_pkg_load_internal_def)
next
  case (Some f)
  show ?thesis
  proof (cases "f = [] \<or> (\<exists>en. pk_open env f = Inl en)")
    case True
    then show ?thesis using assms Some by (cases "f = []") (auto simp: alpm_pkg_load_internal_def)
  next
    case False
    then obtain size a where f: "f \<noteq> []" "pk_open env f = Inr (size, a)" by (cases "pk_open env f") auto
    define s where "s = \<lparr>ld_pkg = alpm_pkg_new\<lparr>filename := Some f, psize := size\<rparr>, ld_config = False, ld_mtree = False, ld_errno = n\<rparr>"
    obtain l where l: "load_entries env full (pa_entries a) (pa_end a) s = Some l"
      using assms Some f unfolding s_def by (auto simp: alpm_pkg_load_internal_def split: option.splits)
    show ?thesis
    proof (cases l)
      case (Inl e')
      then show ?thesis using assms Some f l load_entries_errors [of env full "pa_entries a" "pa_end a" s e'] unfolding s_def
        by (auto simp: alpm_pkg_load_internal_def)
    next
      case (Inr s')
      then have "ld_config s' \<longrightarrow> pkginfo_ok (ld_pkg s')" using load_entries_info [of env full "pa_entries a" "pa_end a" s s'] l by (simp add: s_def)
      then show ?thesis using assms Some f l Inr filelist_sort_sorted unfolding s_def
        by (auto simp: alpm_pkg_load_internal_def pkginfo_ok_def Let_def split: if_splits option.splits)
    qed
  qed
qed

text \<open>C12: loading a package either gives one that is complete or says why it does not. A package that is
  returned came from a file that could be opened; it has a name, a version with a release, the
  file as its origin and, if it was loaded in full, a sorted file list. With no package
  \<open>pm_errno\<close> tells apart a missing name, a file that is not there, that may not be read or
  that is no archive, an archive that breaks off, and contents that are not a package.\<close>

theorem loaded_package_complete:
  assumes "alpm_pkg_load_internal env path full n = Some (r, e)"
  shows "case r of
      Some p \<Rightarrow> (\<exists>f opened. path = Some f \<and> pk_open env f = Inr opened \<and> pname p \<noteq> [] \<and>
        (\<exists>v. version p = Some v \<and> CHR ''-'' \<in> set v) \<and> origin p = ALPM_PKG_FROM_FILE \<and> origin_data p = Origin_file f \<and>
        (full \<longrightarrow> sorted (map fname (files p))))
    | None \<Rightarrow>
        (case path of
           None \<Rightarrow> e = ALPM_ERR_WRONG_ARGS
         | Some f \<Rightarrow>
             if f = [] then e = ALPM_ERR_WRONG_ARGS
             else (case pk_open env f of Inl en \<Rightarrow> e = access_error en | Inr _ \<Rightarrow> e \<in> {ALPM_ERR_LIBARCHIVE, ALPM_ERR_PKG_INVALID}))"
  using assms by (rule load_complete)

section \<open>What the description says\<close>

lemma cut_lines_length: "length (cut_lines s) \<le> length s + 1"
  by (induction s) (auto split: list.splits)

lemma desc_line_empty [simp]: "desc_line [] p = p"
  by (simp add: desc_line_def alpm_strip_newline_def)

definition desc_text :: "(string \<times> string) list \<Rightarrow> string" where
  "desc_text kvs = concat (map (\<lambda>(k, v). k @ '' = '' @ v @ [NL]) kvs)"

definition plain_entry :: "string \<times> string \<Rightarrow> bool" where
  "plain_entry kv \<longleftrightarrow>
     (case kv of (k, v) \<Rightarrow> k \<noteq> [] \<and> hd k \<noteq> CHR ''#'' \<and> set k \<inter> {CHR '' '', NL, NUL} = {} \<and> set v \<inter> {NL, NUL} = {} \<and>
       length k + length v < 512 * 1024 - 3)"

lemma c_bytes_plain: "NUL \<notin> set s \<Longrightarrow> c_bytes s = s"
  unfolding c_bytes_def by (intro takeWhile_eq_all_conv [THEN iffD2]) auto

lemma strip_plain: "s \<noteq> [] \<Longrightarrow> last s \<noteq> NL \<Longrightarrow> alpm_strip_newline s (length s) = (s, length s)"
  by (cases s rule: rev_cases) (simp_all add: alpm_strip_newline_def nth_append)

lemma desc_line_entry:
  assumes "plain_entry (k, v)"
  shows "desc_line (k @ '' = '' @ v) p = desc_field k v p"
proof -
  define line where "line = k @ '' = '' @ v"
  have k: "k \<noteq> []" "hd k \<noteq> CHR ''#''" "CHR '' '' \<notin> set k" "NL \<notin> set k" "NUL \<notin> set k" "NL \<notin> set v" "NUL \<notin> set v"
    using assms by (auto simp: plain_entry_def)
  have "NL \<notin> set line" "NUL \<notin> set line" "line \<noteq> []" using k by (auto simp: line_def)
  then have hd: "hd line \<noteq> NUL" and last: "last line \<noteq> NL" using hd_in_set [of line] last_in_set [of line] by metis+
  have strip: "alpm_strip_newline (if line \<noteq> [] \<and> hd line = NUL then [] else line) (length line) = (line, length line)"
    using strip_plain [of line] hd last k(1) by (simp add: line_def)
  have "find_byte CHR '' '' line = Some (length k)"
  proof -
    have "takeWhile (\<lambda>x. x \<noteq> CHR '' '') line = k"
      using k(3) unfolding line_def by (subst takeWhile_append2) auto
    then show ?thesis by (simp add: find_byte_def line_def)
  qed
  moreover have "hd line \<noteq> CHR ''#''" using k by (simp add: line_def)
  ultimately show ?thesis
    using strip k unfolding desc_line_def line_def [symmetric] by (simp add: line_def c_bytes_plain)
qed

lemma cut_desc_text:
  "list_all plain_entry kvs \<Longrightarrow> cut_lines (desc_text kvs) = map (\<lambda>(k, v). k @ '' = '' @ v) kvs @ [[]]"
proof (induction kvs)
  case (Cons kv kvs)
  obtain k v where kv: "kv = (k, v)" by fastforce
  then have "NL \<notin> set (k @ '' = '' @ v)" using Cons.prems by (auto simp: plain_entry_def)
  then show ?case
    using Cons cut_lines_line [of "k @ '' = '' @ v" "desc_text kvs"] by (simp add: desc_text_def kv)
qed (simp add: desc_text_def)

lemma fold_desc_lines:
  "list_all plain_entry kvs \<Longrightarrow> fold desc_line (map (\<lambda>(k, v). k @ '' = '' @ v) kvs) p = fold (\<lambda>(k, v). desc_field k v) kvs p"
proof (induction kvs arbitrary: p)
  case (Cons kv kvs)
  then show ?case by (cases kv) (simp add: desc_line_entry [simplified])
qed simp

lemma parse_desc_text:
  assumes "list_all plain_entry kvs" "\<forall>b\<in>set bs. fst b = ARCHIVE_OK \<and> snd b \<noteq> []" "concat (map snd bs) = desc_text kvs"
  shows "parse_descfile bs p = (0, fold (\<lambda>(k, v). desc_field k v) kvs p)"
proof -
  have nul: "NUL \<notin> set (desc_text kvs)"
    using assms(1) by (auto simp: desc_text_def list_all_iff plain_entry_def)
  have short: "\<forall>l\<in>set (cut_lines (desc_text kvs)). length l < 512 * 1024"
    using assms(1) unfolding cut_desc_text [OF assms(1)] by (auto simp: list_all_iff plain_entry_def)
  have "length (desc_text kvs) + 2 \<le> desc_fuel bs"
    unfolding assms(3) [symmetric] by (induction bs) (auto simp: desc_fuel_def)
  then have fuel: "length (cut_lines (desc_text kvs)) < desc_fuel bs" using cut_lines_length [of "desc_text kvs"] by simp
  have "archive_lines (desc_fuel bs) (empty_buffer\<lparr>max_line_size := 512 * 1024\<rparr>) bs = Some (cut_lines (desc_text kvs), ARCHIVE_EOF)"
    using archive_lines_cut [of bs "empty_buffer\<lparr>max_line_size := 512 * 1024\<rparr>" "desc_fuel bs"] assms(2,3) nul short fuel
    by (simp add: empty_buffer_def)
  then show ?thesis
    using fold_desc_lines [OF assms(1)] unfolding parse_descfile_def cut_desc_text [OF assms(1)] by simp
qed



section \<open>What validation guarantees\<close>

definition sync_sig :: "alpm_pkg_t option \<Rightarrow> string option" where
  "sync_sig syncpkg = (case syncpkg of None \<Rightarrow> None | Some p \<Rightarrow> base64_sig p)"

definition signed_well :: "'r pgp_env \<Rightarrow> string \<Rightarrow> string option \<Rightarrow> u32 \<Rightarrow> 'r \<Rightarrow> bool" where
  "signed_well env path sig64 level ring \<longleftrightarrow>
     (\<exists>src gs ring'. signature_of env path sig64 = Some src \<and> g_verify env src path ring = ((GPG_ERR_NO_ERROR, gs), ring') \<and> gs \<noteq> [] \<and>
       list_all (good_signature (level AND ALPM_SIG_PACKAGE_MARGINAL_OK \<noteq> 0) (level AND ALPM_SIG_PACKAGE_UNKNOWN_OK \<noteq> 0)) gs)"

definition sums_match :: "'r pkg_env \<Rightarrow> string \<Rightarrow> alpm_pkg_t \<Rightarrow> bool" where
  "sums_match env path p \<longleftrightarrow>
     (case sha256sum p of
        Some s \<Rightarrow> pk_sha256 env path = Some s
      | None \<Rightarrow> (case md5sum p of Some s \<Rightarrow> pk_md5 env path = Some s | None \<Rightarrow> True))"

lemma test_checksum_ok:
  "alpm_test_checksum md5 sha path (Some s) t = 0 \<Longrightarrow> (if t = VALIDATION_MD5SUM then md5 else sha) path = Some s"
  by (cases t) (auto simp: alpm_test_checksum_def Let_def split: option.splits if_splits)

lemma check_sums_ok:
  assumes "check_sums env path (Some p) has_sig v = Inr v'" "\<not> (has_sig \<and> base64_sig p \<noteq> None)"
  shows "sums_match env path p"
  using assms test_checksum_ok [of "pk_md5 env" "pk_sha256 env" path _ VALIDATION_MD5SUM]
    test_checksum_ok [of "pk_md5 env" "pk_sha256 env" path _ VALIDATION_SHA256SUM]
  by (auto simp: check_sums_def sums_match_def split: if_splits option.splits)

lemma validate_sound:
  assumes "alpm_pkg_validate_internal env pkgfile syncpkg level v st = ((0, l, v'), st')"
  shows "\<exists>path. pkgfile = Some path \<and> path \<noteq> [] \<and> g_readable (pk_pgp env) path \<and>
    (level AND ALPM_SIG_PACKAGE \<noteq> 0 \<longrightarrow>
       signed_well (pk_pgp env) path (sync_sig syncpkg) level (pgp_ring st) \<or>
       level AND ALPM_SIG_PACKAGE_OPTIONAL \<noteq> 0 \<and> no_signature (pk_pgp env) path (sync_sig syncpkg) (pgp_ring st)) \<and>
    (\<forall>p. syncpkg = Some p \<longrightarrow> sums_match env path p \<or> level AND ALPM_SIG_PACKAGE \<noteq> 0 \<and> base64_sig p \<noteq> None)"
proof -
  let ?st = "sig_errno ALPM_ERR_OK st"
  obtain path where path: "pkgfile = Some path" "path \<noteq> []" "g_readable (pk_pgp env) path"
    using assms by (auto simp: alpm_pkg_validate_internal_def Let_def split: option.splits if_splits)
  define has where "has = pkg_has_sig env path syncpkg level"
  obtain v1 where sums: "check_sums env path syncpkg has v = Inr v1"
    using assms path by (auto simp: alpm_pkg_validate_internal_def Let_def has_def split: sum.splits)
  have "sums_match env path p \<or> level AND ALPM_SIG_PACKAGE \<noteq> 0 \<and> base64_sig p \<noteq> None" if "syncpkg = Some p" for p
    using check_sums_ok [of env path p has v v1] sums that by (auto simp: has_def pkg_has_sig_def)
  moreover have "signed_well (pk_pgp env) path (sync_sig syncpkg) level (pgp_ring st) \<or>
      level AND ALPM_SIG_PACKAGE_OPTIONAL \<noteq> 0 \<and> no_signature (pk_pgp env) path (sync_sig syncpkg) (pgp_ring st)"
    if "level AND ALPM_SIG_PACKAGE \<noteq> 0"
  proof -
    obtain r sl st1 where h: "alpm_check_pgp_helper (pk_pgp env) (Some path) (sync_sig syncpkg)
        (level AND ALPM_SIG_PACKAGE_OPTIONAL \<noteq> 0) (level AND ALPM_SIG_PACKAGE_MARGINAL_OK \<noteq> 0)
        (level AND ALPM_SIG_PACKAGE_UNKNOWN_OK \<noteq> 0) ?st = ((r, sl), st1)" by (metis surj_pair)
    then have "r = 0"
      using assms path sums that unfolding has_def sync_sig_def
      by (auto simp: alpm_pkg_validate_internal_def Let_def split: if_splits)
    with h show ?thesis using helper_accepts [of "pk_pgp env" "Some path"] unfolding signed_well_def by force
  qed
  ultimately show ?thesis using path by blast
qed


section \<open>A package\<close>

definition sample_archive :: pkg_archive where
  "sample_archive =
     \<lparr>pa_entries =
        [\<lparr>pe_path = ''.PKGINFO'', pe_dir = False, pe_size = 40, pe_mode = 420,
          pe_blocks = [(0, ''pkgname = foo'' @ [NL]), (0, ''pkgver = 1-1'' @ [NL])], pe_reads = [], pe_skip = 0\<rparr>,
         \<lparr>pe_path = ''usr'', pe_dir = True, pe_size = 0, pe_mode = 493, pe_blocks = [], pe_reads = [], pe_skip = 0\<rparr>],
      pa_end = ARCHIVE_EOF\<rparr>"

definition sample_env_pkg :: "nat pkg_env" where
  "sample_env_pkg =
     \<lparr>pk_pgp = sample_pgp, pk_access = \<lambda>_. ENOENT, pk_open = \<lambda>f. if f = ''foo.pkg'' then Inr (100, sample_archive) else Inl ENOENT,
      pk_mtree = \<lambda>_. None, pk_sigfile = \<lambda>_. None, pk_md5 = \<lambda>_. Some ''m'', pk_sha256 = \<lambda>_. Some ''s''\<rparr>"

lemma sample_loads: "\<exists>p e. alpm_pkg_load_internal sample_env_pkg (Some ''foo.pkg'') True ALPM_ERR_OK = Some (Some p, e)"
proof -
  have desc: "parse_descfile [(0, ''pkgname = foo'' @ [NL]), (0, ''pkgver = 1-1'' @ [NL])] p =
      (0, fold (\<lambda>(k, v). desc_field k v) [(''pkgname'', ''foo''), (''pkgver'', ''1-1'')] p)" for p
    by (rule parse_desc_text) (auto simp: plain_entry_def desc_text_def)
  show ?thesis
    by (simp add: alpm_pkg_load_internal_def sample_env_pkg_def sample_archive_def desc [simplified] desc_field_def pkginfo_ok_def
        handle_simple_path_def add_entry_to_files_list_def)
qed

theorem loaded_package_complete_witness:
  "\<exists>p e. alpm_pkg_load_internal sample_env_pkg (Some ''foo.pkg'') True ALPM_ERR_OK = Some (Some p, e) \<and>
    pname p \<noteq> [] \<and> (\<exists>v. version p = Some v \<and> CHR ''-'' \<in> set v) \<and> sorted (map fname (files p))"
proof -
  obtain p e where p: "alpm_pkg_load_internal sample_env_pkg (Some ''foo.pkg'') True ALPM_ERR_OK = Some (Some p, e)"
    using sample_loads by auto
  show ?thesis using loaded_package_complete [OF p] p by auto
qed

definition sample_sync :: alpm_pkg_t where
  "sample_sync = alpm_pkg_new\<lparr>pname := ''foo'', version := Some ''1-1'', md5sum := Some ''m'', sha256sum := Some ''s''\<rparr>"


end
