(* ===== verification/AlpmScript.thy ===== *)
theory AlpmScript
  imports AlpmFsUtil AlpmLocal AlpmStream
begin

text \<open>
  Archives and scriptlets: \<open>_alpm_open_archive\<close> and \<open>_alpm_unpack\<close> of \<open>lib/libalpm/util.c\<close>,
  and \<open>grep\<close> and \<open>_alpm_runscriptlet\<close> of \<open>lib/libalpm/trans.c\<close>. What the libraries and programs do
  that are not part of the repository is in a record of functions.
\<close>

section \<open>The surroundings\<close>

text \<open>
  An entry of an archive: its path, and what it is. Of libarchive: the entries of a file, or
  \<open>None\<close> if it is no archive, and what extracting one to a path does, with the flags \<open>0\<close> and
  with those of \<open>perform_extraction\<close>; the result is libarchive's, and whether its error is \<open>ENOSPC\<close>.
\<close>

record arch_entry =
  entry_path :: string
  entry_node :: node

abbreviation ARCHIVE_WARN :: int where "ARCHIVE_WARN \<equiv> -20"

text \<open>
  The other functions: \<open>fnmatch\<close>; the MD5 sum of a content; \<open>regcomp\<close>, \<open>None\<close> for an error, with
  \<open>regexec\<close>; \<open>llstat\<close>, \<open>mdirname\<close>, \<open>mbasename\<close> and \<open>safe_fgets\<close> of \<open>pacman/src/common\<close>, whose source is not
  in the repository; the name \<open>mkdtemp\<close> chooses; what may be executed; how a file is read and written when it is copied, with
  the \<open>errno\<close> there is; what a program does that runs in the root, given its path and arguments; the clock.
\<close>

record alpm_env =
  sys_entries :: "string \<Rightarrow> arch_entry list option"
  sys_extract :: "bool \<Rightarrow> arch_entry \<Rightarrow> string \<Rightarrow> (int \<times> bool) call"
  sys_fnmatch :: "string \<Rightarrow> string \<Rightarrow> bool"
  sys_md5 :: "string \<Rightarrow> string"
  sys_regex :: "string \<Rightarrow> (string \<Rightarrow> bool) option"
  sys_llstat :: "filesys \<Rightarrow> string \<Rightarrow> errno + location \<times> node"
  sys_dirname :: "string \<Rightarrow> string"
  sys_basename :: "string \<Rightarrow> string"
  sys_fgets :: read_op
  sys_mkdtemp :: "filesys \<Rightarrow> string \<Rightarrow> string option"
  sys_copy :: "string \<Rightarrow> int \<times> read_event list \<times> write_answer list"
  sys_child :: "string list \<Rightarrow> filesys \<Rightarrow> chroot_env \<times> filesys"
  sys_executable :: "filesys \<Rightarrow> string \<Rightarrow> bool"
  sys_shell :: string
  sys_ldconfig :: string
  sys_time :: int

definition alpm_compute_md5sum :: "alpm_env \<Rightarrow> filesys \<Rightarrow> string \<Rightarrow> string option" where
  "alpm_compute_md5sum env fs name = (case read_file fs name of Inl _ \<Rightarrow> None | Inr content \<Rightarrow> Some (sys_md5 env content))"

section \<open>Archives\<close>

definition alpm_open_archive :: "alpm_env \<Rightarrow> filesys \<Rightarrow> string \<Rightarrow> arch_entry list option" where
  "alpm_open_archive env fs path =
     (case read_file fs path of Inl _ \<Rightarrow> None | Inr content \<Rightarrow> sys_entries env content)"

text \<open>The part of an entry's path that is looked up: up to the first slash.\<close>

definition entry_prefix :: "string \<Rightarrow> string" where
  "entry_prefix path = takeWhile (\<lambda>c. c \<noteq> CHR ''/'') path @ (if CHR ''/'' \<in> set path then ''/'' else [])"

text \<open>\<open>list\<close> is empty for all entries; the current directory is \<open>into\<close>.\<close>

fun unpack_loop :: "alpm_env \<Rightarrow> string \<Rightarrow> string list \<Rightarrow> bool \<Rightarrow> arch_entry list \<Rightarrow> int call" where
  "unpack_loop env into list breakfirst [] fs = (0, fs)"
| "unpack_loop env into list breakfirst (e # es) fs =
     (if list \<noteq> [] \<and> alpm_list_find_str list (entry_prefix (entry_path e)) = None
      then unpack_loop env into list breakfirst es fs
      else
        let ((readret, _), fs) = sys_extract env False e (into @ ''/'' @ entry_path e) fs
        in if readret \<noteq> ARCHIVE_WARN \<and> readret \<noteq> ARCHIVE_OK then (1, fs)
           else if breakfirst then (0, fs)
           else unpack_loop env into list breakfirst es fs)"

definition alpm_unpack :: "alpm_env \<Rightarrow> string \<Rightarrow> string \<Rightarrow> string list \<Rightarrow> bool \<Rightarrow> int call" where
  "alpm_unpack env path into list breakfirst fs =
     (case alpm_open_archive env fs path of
        None \<Rightarrow> (1, fs)
      | Some es \<Rightarrow>
          (case stat fs into of
             Inr (_, Dir) \<Rightarrow> unpack_loop env into list breakfirst es fs
           | _ \<Rightarrow> (1, fs)))"

definition alpm_unpack_single :: "alpm_env \<Rightarrow> string \<Rightarrow> string \<Rightarrow> string option \<Rightarrow> int call" where
  "alpm_unpack_single env archive into name_opt fs =
     (case name_opt of None \<Rightarrow> (1, fs) | Some name \<Rightarrow> alpm_unpack env archive into [name] True fs)"

section \<open>Scriptlets\<close>

text \<open>A line counts up to the first hash sign. A line that cannot be read is skipped.\<close>

partial_function (option) grep_loop :: "read_op \<Rightarrow> string \<Rightarrow> reader \<Rightarrow> bool option" where
  "grep_loop rd needle r =
     (if reof r then Some False
      else
        (case rd 1024 r of
           (got, r) \<Rightarrow>
             if \<not> got then grep_loop rd needle r
             else if strstr (takeWhile (\<lambda>c. c \<noteq> CHR ''#'') (rbuf r)) needle then Some True
             else grep_loop rd needle r))"

text \<open>A directory can be opened, but never read to its end.\<close>

definition grep :: "alpm_env \<Rightarrow> filesys \<Rightarrow> string \<Rightarrow> string \<Rightarrow> bool option" where
  "grep env fs fn needle =
     (case stat fs fn of
        Inl _ \<Rightarrow> Some False
      | Inr (_, File content) \<Rightarrow> grep_loop (sys_fgets env) needle (open_reader content)
      | Inr _ \<Rightarrow> None)"

text \<open>\<open>_alpm_copyfile\<close> on the tree; \<open>None\<close> if it does not return or leaves its buffer.\<close>

definition copy_in_tree :: "alpm_env \<Rightarrow> string \<Rightarrow> string \<Rightarrow> filesys \<Rightarrow> (int \<times> filesys) option" where
  "copy_in_tree env src dest fs =
     (let old = (case read_file fs dest of Inr c \<Rightarrow> c | Inl _ \<Rightarrow> []);
          (e, opened) = write_file dest old fs
      in case read_file fs src of
           Inl _ \<Rightarrow> Some (1, opened)
         | Inr content \<Rightarrow>
             if e \<noteq> None then Some (1, fs)
             else
               (case sys_copy env content of
                  (errno, rs, ws) \<Rightarrow>
                    (case alpm_copyfile True True errno old rs ws of
                       (r, Copied out) \<Rightarrow> Some (r, snd (write_file dest out fs))
                     | (r, Failed out) \<Rightarrow> Some (r, snd (write_file dest out fs))
                     | _ \<Rightarrow> None)))"

definition script_cmdline :: "string \<Rightarrow> string \<Rightarrow> string option \<Rightarrow> string option \<Rightarrow> string" where
  "script_cmdline scriptpath script ver oldver =
     path_buffer (''. '' @ scriptpath @ ''; '' @ script @ '' '' @ c_string ver @ (case oldver of None \<Rightarrow> [] | Some v \<Rightarrow> '' '' @ v))"

text \<open>The end of every way through the function: the copy and its directory go.\<close>

definition script_cleanup :: "string \<Rightarrow> string \<Rightarrow> int \<Rightarrow> int call" where
  "script_cleanup scriptfn tmpdir retval fs = (retval, snd (rmdir tmpdir (snd (unlink scriptfn fs))))"

definition script_tmpdir :: "alpm_env \<Rightarrow> string \<Rightarrow> string option call" where
  "script_tmpdir env rootdir fs =
     (let tmp = rootdir @ ''tmp/'';
          (_, fs) = (if access_exists fs tmp then (0, fs) else alpm_makepath tmp fs)
      in case sys_mkdtemp env fs (tmp @ ''alpm_XXXXXX'') of
           None \<Rightarrow> (None, fs)
         | Some tmpdir \<Rightarrow> (let (e, fs) = mkdir tmpdir fs in (if e = None then Some tmpdir else None, fs)))"

definition alpm_runscriptlet ::
  "alpm_env \<Rightarrow> string \<Rightarrow> string \<Rightarrow> string \<Rightarrow> string option \<Rightarrow> string option \<Rightarrow> bool \<Rightarrow> filesys \<Rightarrow> (int \<times> filesys) option" where
  "alpm_runscriptlet env rootdir filepath script ver oldver is_archive fs =
     (if \<not> access_exists fs filepath then Some (0, fs)
      else
        (case (if is_archive then Some True else grep env fs filepath script) of
           None \<Rightarrow> None
         | Some False \<Rightarrow> Some (0, fs)
         | Some True \<Rightarrow>
             (case script_tmpdir env rootdir fs of
                (None, fs) \<Rightarrow> Some (1, fs)
              | (Some tmpdir, fs) \<Rightarrow>
                  let scriptfn = tmpdir @ ''/.INSTALL''
                  in (case (if is_archive then Some (alpm_unpack_single env filepath tmpdir (Some ''.INSTALL'') fs)
                            else copy_in_tree env filepath scriptfn fs) of
                        None \<Rightarrow> None
                      | Some (r, fs) \<Rightarrow>
                          if r \<noteq> 0 then Some (script_cleanup scriptfn tmpdir 1 fs)
                          else
                            (case (if is_archive then grep env fs scriptfn script else Some True) of
                               None \<Rightarrow> None
                             | Some False \<Rightarrow> Some (script_cleanup scriptfn tmpdir 0 fs)
                             | Some True \<Rightarrow>
                                 (case sys_child env [sys_shell env, sys_shell env, ''-c'',
                                         script_cmdline (drop (length rootdir - 1) scriptfn) script ver oldver] fs of
                                    (child, fs) \<Rightarrow>
                                      Some (script_cleanup scriptfn tmpdir (fst (alpm_run_chroot child None)) fs)))))))"

section \<open>The cache of the linker\<close>

text \<open>\<open>_alpm_ldconfig\<close>: only where the root has a configuration and the program.\<close>

definition alpm_ldconfig :: "alpm_env \<Rightarrow> string \<Rightarrow> int call" where
  "alpm_ldconfig env rootdir fs =
     (if access_exists fs (path_buffer (rootdir @ ''etc/ld.so.conf''))
        \<and> sys_executable env fs (path_buffer (rootdir @ sys_ldconfig env))
      then (case sys_child env [sys_ldconfig env, ''ldconfig''] fs of (child, fs) \<Rightarrow> (fst (alpm_run_chroot child None), fs))
      else (0, fs))"

end
