(* ===== verification/AlpmRemoveFiles.thy ===== *)
theory AlpmRemoveFiles
  imports AlpmTrans AlpmScript
begin

text \<open>
  Committing a removal (\<open>lib/libalpm/remove.c\<close>): unlinking the files of a package, saving the
  configuration files that were changed, and taking the package out of the database. A result \<open>None\<close> is
  a scriptlet that does not return or an access outside of memory. The names of files are not empty.
\<close>

section \<open>What may be removed\<close>

text \<open>
  \<open>stbuf\<close> is the device of the directory if the caller knows it. The path of the parent is the
  directory's with two dots behind it, whether that ends in a slash or not.
\<close>

definition dir_is_mountpoint :: "filesys \<Rightarrow> string \<Rightarrow> nat option \<Rightarrow> bool" where
  "dir_is_mountpoint fs directory stbuf =
     (case (case stbuf of
              Some dev \<Rightarrow> Some dev
            | None \<Rightarrow> (case stat fs directory of Inl _ \<Rightarrow> None | Inr (l, _) \<Rightarrow> Some (fs_dev fs l))) of
        None \<Rightarrow> False
      | Some dev \<Rightarrow>
          (case stat fs (path_buffer (directory @ ''..'')) of Inl _ \<Rightarrow> False | Inr (p, _) \<Rightarrow> dev \<noteq> fs_dev fs p))"

definition can_remove_file :: "filesys \<Rightarrow> string \<Rightarrow> alpm_file_t \<Rightarrow> bool" where
  "can_remove_file fs rootdir file =
     (let filepath = path_buffer (rootdir @ fname file)
      in if slashed (fname file) \<and> dir_is_mountpoint fs filepath None then True
         else
           (case alpm_access_write fs None filepath of
              None \<Rightarrow> True
            | Some e \<Rightarrow> \<not> (e \<noteq> EACCES \<and> e \<noteq> ETXTBSY \<and> access_exists fs filepath)))"

definition should_skip_file :: "alpm_env \<Rightarrow> alpm_handle_t \<Rightarrow> string list \<Rightarrow> alpm_pkg_t option \<Rightarrow> string \<Rightarrow> bool" where
  "should_skip_file env h skip newpkg path \<longleftrightarrow>
     alpm_fnmatch_patterns (sys_fnmatch env) (noupgrade h) path = 0 \<or>
     alpm_list_find_str skip path \<noteq> None \<or>
     (newpkg \<noteq> None \<and> alpm_needbackup (Some path) newpkg \<noteq> None \<and>
      alpm_filelist_contains (map_option files newpkg) path \<noteq> None)"

section \<open>Saved configuration files\<close>

definition ULONG_MAX :: nat where "ULONG_MAX = 2 ^ 64 - 1"

definition strtoul :: "string \<Rightarrow> nat" where
  "strtoul s = (case scan_size s of None \<Rightarrow> 0 | Some n \<Rightarrow> n)"

definition pacsave :: "string \<Rightarrow> nat \<Rightarrow> string" where
  "pacsave file i = file @ ''.pacsave.'' @ dec_nat i"

text \<open>The highest number of the names that match.\<close>

fun log_max_loop :: "(string \<Rightarrow> bool) \<Rightarrow> nat \<Rightarrow> string list \<Rightarrow> nat \<Rightarrow> nat" where
  "log_max_loop reg basename_len [] log_max = log_max"
| "log_max_loop reg basename_len (d_name # ents) log_max =
     log_max_loop reg basename_len ents
       (if reg d_name \<and> strtoul (drop (basename_len + 9) d_name) > log_max
        then strtoul (drop (basename_len + 9) d_name) else log_max)"

text \<open>The loop from \<open>i\<close> down to 2, and whether every name fitted.\<close>

fun shift_loop :: "string \<Rightarrow> nat \<Rightarrow> bool call" where
  "shift_loop file 0 fs = (True, fs)"
| "shift_loop file (Suc i) fs =
     (if i = 0 then (True, fs)
      else if length (pacsave file i) \<ge> PATH_MAX \<or> length (pacsave file (Suc i)) \<ge> PATH_MAX then (False, fs)
      else shift_loop file i (snd (rename (pacsave file i) (pacsave file (Suc i)) fs)))"

definition shift_pacsave :: "alpm_env \<Rightarrow> string \<Rightarrow> filesys \<Rightarrow> filesys" where
  "shift_pacsave env file fs =
     (case sys_regex env (path_buffer (''^'' @ sys_basename env file @ [CHR 0x5C] @ ''.pacsave'' @ [CHR 0x5C] @ ''.([[:digit:]]+)$'')) of
        None \<Rightarrow> fs
      | Some reg \<Rightarrow>
          (case opendir fs (sys_dirname env file) of
             Inl _ \<Rightarrow> fs
           | Inr ents \<Rightarrow>
               let log_max = log_max_loop reg (length (sys_basename env file)) ents 0;
                   (ok, fs) = shift_loop file ((log_max + 1) mod (ULONG_MAX + 1)) fs;
                   oldfile = file @ ''.pacsave''; newfile = oldfile @ ''.1''
               in if \<not> ok then fs
                  else if length oldfile \<ge> PATH_MAX \<or> length newfile \<ge> PATH_MAX then fs
                  else (case stat fs oldfile of Inl _ \<Rightarrow> fs | Inr _ \<Rightarrow> snd (rename oldfile newfile fs))))"

section \<open>Unlinking\<close>

text \<open>Whether a package that stays owns the directory.\<close>

definition owned_by_other :: "alpm_world \<Rightarrow> alpm_pkg_t \<Rightarrow> string \<Rightarrow> bool" where
  "owned_by_other w old path \<longleftrightarrow>
     (\<exists>q\<in>set (cached_pkgs w (localdb w)).
        \<not> (name_hash old = name_hash (wpkgs w q) \<and> strcmp (pname old) (pname (wpkgs w q)) = 0) \<and>
        alpm_filelist_contains (Some (files (wpkgs w q))) path \<noteq> None)"

definition unlink_dir ::
  "alpm_world \<Rightarrow> alpm_pkg_t \<Rightarrow> alpm_pkg_t option \<Rightarrow> string \<Rightarrow> string \<Rightarrow> nat \<Rightarrow> int call" where
  "unlink_dir w old newpkg path file dev fs =
     (if alpm_files_in_directory fs file False \<noteq> 0 then (0, fs)
      else if newpkg \<noteq> None \<and> alpm_filelist_contains (map_option files newpkg) path \<noteq> None then (0, fs)
      else if dir_is_mountpoint fs file (Some dev) then (0, fs)
      else if owned_by_other w old path then (0, fs)
      else (let (e, fs) = rmdir file fs in (if e \<noteq> None then -1 else 0, fs)))"

text \<open>
  Whether the file has to be saved: a file that cannot be hashed is taken as unchanged, and the hash of
  the package is compared without looking whether there is one.
\<close>

definition was_modified :: "alpm_env \<Rightarrow> filesys \<Rightarrow> string \<Rightarrow> alpm_backup_t \<Rightarrow> bool option" where
  "was_modified env fs file b =
     (case alpm_compute_md5sum env fs file of
        None \<Rightarrow> Some False
      | Some filehash \<Rightarrow> (case bhash b of None \<Rightarrow> None | Some h \<Rightarrow> Some (strcmp filehash h \<noteq> 0)))"

definition save_file :: "alpm_env \<Rightarrow> string \<Rightarrow> int call" where
  "save_file env file fs =
     (let fs = shift_pacsave env file fs;
          (e, fs) = rename file (file @ ''.pacsave'') fs
      in (if e \<noteq> None then -1 else 0, fs))"

definition unlink_nondir :: "string \<Rightarrow> int call" where
  "unlink_nondir file fs = (let (e, fs) = unlink file fs in (if e \<noteq> None then -1 else 0, fs))"

definition unlink_file ::
  "alpm_env \<Rightarrow> alpm_world \<Rightarrow> alpm_pkg_t \<Rightarrow> alpm_pkg_t option \<Rightarrow> alpm_file_t \<Rightarrow> bool \<Rightarrow> filesys \<Rightarrow> (int \<times> filesys) option" where
  "unlink_file env w old newpkg fileobj nosave fs =
     (let file = root (handle w) @ fname fileobj
      in if file = [] \<or> length file \<ge> PATH_MAX then Some (-1, fs)
         else
           let file = (if slashed file then butlast file else file)
           in case sys_llstat env fs file of
                Inl _ \<Rightarrow> Some (1, fs)
              | Inr (l, n) \<Rightarrow>
                  if n = Dir then Some (unlink_dir w old newpkg (fname fileobj) file (fs_dev fs l) fs)
                  else
                    (case alpm_needbackup (Some (fname fileobj)) (Some old) of
                       None \<Rightarrow> Some (unlink_nondir file fs)
                     | Some b \<Rightarrow>
                         if nosave then Some (unlink_nondir file fs)
                         else
                           (case was_modified env fs file b of
                              None \<Rightarrow> None
                            | Some True \<Rightarrow> Some (save_file env file fs)
                            | Some False \<Rightarrow> Some (unlink_nondir file fs))))"

text \<open>The files are unlinked from the last to the first; the number of failures comes back.\<close>

fun unlink_loop ::
  "alpm_env \<Rightarrow> alpm_world \<Rightarrow> alpm_pkg_t \<Rightarrow> alpm_pkg_t option \<Rightarrow> bool \<Rightarrow> alpm_file_t list \<Rightarrow> int \<Rightarrow> filesys \<Rightarrow>
   (int \<times> filesys) option" where
  "unlink_loop env w old newpkg nosave [] err fs = Some (err, fs)"
| "unlink_loop env w old newpkg nosave (f # fl) err fs =
     (if should_skip_file env (handle w) (skip_remove (transaction w)) newpkg (fname f)
      then unlink_loop env w old newpkg nosave fl err fs
      else
        (case unlink_file env w old newpkg f nosave fs of
           None \<Rightarrow> None
         | Some (r, fs) \<Rightarrow> unlink_loop env w old newpkg nosave fl (if r < 0 then err + 1 else err) fs))"

definition remove_package_files ::
  "alpm_env \<Rightarrow> alpm_world \<Rightarrow> alpm_pkg_t \<Rightarrow> alpm_pkg_t option \<Rightarrow> filesys \<Rightarrow> (int \<times> alpm_world \<times> filesys) option" where
  "remove_package_files env w old newpkg fs =
     (if \<exists>f\<in>set (files old).
           \<not> should_skip_file env (handle w) (skip_remove (transaction w)) newpkg (fname f) \<and>
           \<not> can_remove_file fs (root (handle w)) f
      then Some (-1, set_errno ALPM_ERR_PKG_CANT_REMOVE w, fs)
      else
        map_option (\<lambda>(err, fs). (err, w, fs))
          (unlink_loop env w old newpkg (has_flag (transaction w) ALPM_TRANS_FLAG_NOSAVE) (rev (files old)) 0 fs))"

section \<open>Packages\<close>

text \<open>A scriptlet of an installed package; its result is not looked at.\<close>

definition run_local_scriptlet ::
  "alpm_env \<Rightarrow> alpm_world \<Rightarrow> dbref \<Rightarrow> alpm_pkg_t \<Rightarrow> string \<Rightarrow> string option \<Rightarrow> string option \<Rightarrow> filesys \<Rightarrow> (alpm_world \<times> filesys) option" where
  "run_local_scriptlet env w d pkg script ver oldver fs =
     (if scriptlet pkg \<and> \<not> has_flag (transaction w) ALPM_TRANS_FLAG_NOSCRIPTLET
      then
        (case alpm_db_path w d of
           (dir, w) \<Rightarrow>
             map_option (\<lambda>(_, fs). (w, fs))
               (alpm_runscriptlet env (root (handle w)) (alpm_local_db_pkgpath dir pkg ''install'') script ver oldver False fs))
      else Some (w, fs))"

text \<open>Out of the database and out of the cache, whatever fails.\<close>

definition remove_entry :: "alpm_world \<Rightarrow> dbref \<Rightarrow> pkgref \<Rightarrow> filesys \<Rightarrow> (alpm_world \<times> filesys) option" where
  "remove_entry w d p fs =
     (case alpm_db_path w d of
        (dir, w) \<Rightarrow>
          (case local_db_remove dir (wpkgs w p) fs of
             (_, fs) \<Rightarrow> map_option (\<lambda>(_, w). (w, fs)) (alpm_db_remove_pkgfromcache w (Some d) (Some p))))"

definition alpm_remove_single_package ::
  "alpm_env \<Rightarrow> alpm_world \<Rightarrow> dbref \<Rightarrow> pkgref \<Rightarrow> pkgref option \<Rightarrow> filesys \<Rightarrow> (int \<times> alpm_world \<times> filesys) option" where
  "alpm_remove_single_package env w d p newpkg fs =
     (let pkg = wpkgs w p; script = (\<lambda>name w fs. if newpkg = None then run_local_scriptlet env w d pkg name (version pkg) None fs else Some (w, fs))
      in case script ''pre_remove'' w fs of
           None \<Rightarrow> None
         | Some (w, fs) \<Rightarrow>
             (case (if has_flag (transaction w) ALPM_TRANS_FLAG_DBONLY then Some (0, w, fs)
                    else remove_package_files env w pkg (map_option (wpkgs w) newpkg) fs) of
                None \<Rightarrow> None
              | Some (_, w, fs) \<Rightarrow>
                  (case script ''post_remove'' w fs of
                     None \<Rightarrow> None
                   | Some (w, fs) \<Rightarrow> map_option (\<lambda>(w, fs). (0, w, fs)) (remove_entry w d p fs))))"

text \<open>
  Before each target the transaction may be interrupted from outside: \<open>interrupted k\<close> for the one \<open>k\<close>
  places from the end. A removal always returns 0, so the code for a failure of it is left out.
\<close>

fun remove_packages_loop ::
  "alpm_env \<Rightarrow> (nat \<Rightarrow> bool) \<Rightarrow> dbref \<Rightarrow> pkgref list \<Rightarrow> alpm_world \<Rightarrow> filesys \<Rightarrow> (bool \<times> alpm_world \<times> filesys) option" where
  "remove_packages_loop env interrupted d [] w fs = Some (True, w, fs)"
| "remove_packages_loop env interrupted d (p # targ) w fs =
     (let w = (if interrupted (length targ) then snd (alpm_trans_interrupt w) else w)
      in if tstate (transaction w) = STATE_INTERRUPTED then Some (False, w, fs)
         else
           (case alpm_remove_single_package env w d p None fs of
              None \<Rightarrow> None
            | Some (_, w, fs) \<Rightarrow> remove_packages_loop env interrupted d targ w fs))"

definition alpm_remove_packages ::
  "alpm_env \<Rightarrow> (nat \<Rightarrow> bool) \<Rightarrow> dbref \<Rightarrow> bool \<Rightarrow> alpm_world \<Rightarrow> filesys \<Rightarrow> (int \<times> alpm_world \<times> filesys) option" where
  "alpm_remove_packages env interrupted d run_ldconfig w fs =
     (case remove_packages_loop env interrupted d (tremove (transaction w)) w fs of
        None \<Rightarrow> None
      | Some (finished, w, fs) \<Rightarrow>
          Some (0, w, if finished \<and> run_ldconfig then snd (alpm_ldconfig env (root (handle w)) fs) else fs))"

section \<open>What a removal changes\<close>

definition removal_path :: "alpm_world \<Rightarrow> alpm_file_t \<Rightarrow> string" where
  "removal_path w f = (let file = root (handle w) @ fname f in if slashed file then butlast file else file)"

definition removal_place :: "alpm_world \<Rightarrow> alpm_file_t \<Rightarrow> location" where
  "removal_place w f = components (removal_path w f)"

text \<open>The places next to a file whose names go on with \<open>.pacsave\<close>, and what is below them.\<close>

definition pacsave_places :: "location \<Rightarrow> location set" where
  "pacsave_places cs = {l. \<exists>s. prefix (butlast cs @ [last cs @ ''.pacsave'' @ s]) l}"

text \<open>
  What may change: the files that are not skipped, unless they are directories that another package
  owns, and for those with a backup entry the places of the saved copies.
\<close>

definition removable :: "alpm_env \<Rightarrow> alpm_world \<Rightarrow> alpm_pkg_t \<Rightarrow> alpm_pkg_t option \<Rightarrow> filesys \<Rightarrow> location set" where
  "removable env w old newpkg fs =
     {removal_place w f | f. f \<in> set (files old) \<and>
        \<not> should_skip_file env (handle w) (skip_remove (transaction w)) newpkg (fname f) \<and>
        \<not> (look fs (removal_place w f) = Some Dir \<and> owned_by_other w old (fname f))} \<union>
     (\<Union>f\<in>{f \<in> set (files old). \<not> should_skip_file env (handle w) (skip_remove (transaction w)) newpkg (fname f) \<and>
            alpm_needbackup (Some (fname f)) (Some old) \<noteq> None}. pacsave_places (removal_place w f))"

text \<open>
  The paths of the package meet no link and end in a name, none is a saved copy of another or below
  one, and \<open>llstat\<close> is \<open>lstat\<close> where there is no slash to cut off.
\<close>

definition plain_files :: "alpm_env \<Rightarrow> alpm_world \<Rightarrow> alpm_pkg_t \<Rightarrow> filesys \<Rightarrow> bool" where
  "plain_files env w old fs \<longleftrightarrow>
     (\<forall>f\<in>set (files old). named (removal_path w f) \<and> \<not> slashed (removal_path w f) \<and> direct fs (removal_place w f) \<and>
        (\<forall>g\<in>set (files old). alpm_needbackup (Some (fname g)) (Some old) \<noteq> None \<longrightarrow>
           removal_place w f \<notin> pacsave_places (removal_place w g)))"

definition llstat_is_lstat :: "alpm_env \<Rightarrow> bool" where
  "llstat_is_lstat env \<longleftrightarrow> (\<forall>fs p. \<not> slashed p \<longrightarrow> sys_llstat env fs p = AlpmFs.lstat fs p)"

text \<open>Entries at these places only disappear.\<close>

definition only_goes :: "location set \<Rightarrow> filesys \<Rightarrow> filesys \<Rightarrow> bool" where
  "only_goes P fs fs' \<longleftrightarrow> (\<forall>l\<in>P. look fs' l = look fs l \<or> look fs' l = None)"

definition ways :: "location \<Rightarrow> location set" where
  "ways cs = {take k cs | k. 0 < k}"

lemma only_goes_refl [simp]: "only_goes P fs fs"
  by (simp add: only_goes_def)

lemma only_goes_trans: "only_goes P fs fs' \<Longrightarrow> only_goes P fs' fs'' \<Longrightarrow> only_goes P fs fs''"
  unfolding only_goes_def by metis

lemma only_goes_changes: "changes_only L fs fs' \<Longrightarrow> P \<inter> L = {} \<Longrightarrow> only_goes P fs fs'"
  unfolding only_goes_def changes_only_def by blast

lemma only_goes_del: "l \<noteq> [] \<Longrightarrow> only_goes P fs (fs_del l fs)"
  by (simp add: only_goes_def)

lemma direct_only_goes:
  assumes "direct fs cs" "only_goes (ways cs) fs fs'"
  shows "direct fs' cs"
proof -
  have "look fs' (take k cs) \<noteq> Some (Link t)" if "0 < k" "k < length cs" for k t
  proof -
    have "take k cs \<in> ways cs" using that by (auto simp: ways_def)
    then show ?thesis using assms that unfolding only_goes_def direct_def by (metis option.distinct(1))
  qed
  then show ?thesis using assms(1) by (simp add: direct_def)
qed

lemma pacsave_up: "l \<in> pacsave_places cs \<Longrightarrow> prefix l k \<Longrightarrow> k \<in> pacsave_places cs"
  unfolding pacsave_places_def using prefix_order.trans by blast

lemma ways_pacsave: "cs \<notin> pacsave_places ds \<Longrightarrow> ways cs \<inter> pacsave_places ds = {}"
  using pacsave_up [of _ ds cs] take_is_prefix [of _ cs] unfolding ways_def by blast

lemma no_slash_dec: "CHR ''/'' \<notin> set (dec_nat n)"
  using dec_nat_digits [of n] by (auto simp: list_all_iff isdigit_def)

text \<open>A path with a longer name leads next to the place of the shorter one.\<close>

lemma resolve_longer:
  assumes "named p" "direct fs (components p)" "CHR ''/'' \<notin> set t" "t \<noteq> []" "last (components p) @ t \<noteq> ''..''"
    and "resolve fs False (p @ t) = Inr l"
  shows "l = butlast (components p) @ [last (components p) @ t]"
proof -
  let ?cs = "components p" and ?ds = "components (p @ t)"
  have ds: "?ds = butlast ?cs @ [last ?cs @ t]" by (rule components_longer [OF assms(1,3)])
  have ne: "?cs \<noteq> []" using components_named [OF assms(1)] by blast
  have "take k ?ds = take k ?cs" if "k < length ?ds" for k
    using that ne unfolding ds by (simp add: take_butlast)
  then have "direct fs ?ds"
    using assms(2,5) ne unfolding direct_def by (auto simp: ds dest: in_set_butlastD)
  moreover have "\<not> slashed (p @ t)" using assms(3,4) by (metis last_appendR last_in_set slashed_def)
  ultimately show ?thesis using resolve_direct assms(6) ds by metis
qed

lemma resolve_pacsave:
  assumes "named p" "direct fs (components p)" "CHR ''/'' \<notin> set s" "resolve fs False (p @ ''.pacsave'' @ s) = Inr l"
  shows "l = butlast (components p) @ [last (components p) @ ''.pacsave'' @ s]" "l \<in> pacsave_places (components p)"
proof -
  have "last (components p) @ ''.pacsave'' @ s \<noteq> ''..''" by (auto simp: append_eq_Cons_conv)
  then show "l = butlast (components p) @ [last (components p) @ ''.pacsave'' @ s]"
    by (intro resolve_longer [OF assms(1,2) _ _ _ assms(4)]) (use assms(3) in simp_all)
  then show "l \<in> pacsave_places (components p)" by (auto simp: pacsave_places_def)
qed

lemma stat_resolved: "AlpmFs.lstat fs p = Inr (l, n) \<Longrightarrow> resolve fs False p = Inr l"
  by (auto simp: AlpmFs.lstat_def stat_node_def split: sum.splits option.splits if_splits)

text \<open>Shifting the saved copies changes nothing but their places.\<close>

lemma rename_pacsaves:
  assumes "named p" "direct fs (components p)" "CHR ''/'' \<notin> set s" "CHR ''/'' \<notin> set t"
  shows "changes_only (pacsave_places (components p)) fs (snd (rename (p @ ''.pacsave'' @ s) (p @ ''.pacsave'' @ t) fs))"
proof -
  obtain r fs' where r: "rename (p @ ''.pacsave'' @ s) (p @ ''.pacsave'' @ t) fs = (r, fs')" by fastforce
  from rename_changes [OF r] show ?thesis
  proof
    assume "\<exists>a n b. AlpmFs.lstat fs (p @ ''.pacsave'' @ s) = Inr (a, n) \<and> resolve fs False (p @ ''.pacsave'' @ t) = Inr b \<and>
      changes_only {l. prefix a l \<or> prefix b l} fs fs'"
    then obtain a n b where ab: "AlpmFs.lstat fs (p @ ''.pacsave'' @ s) = Inr (a, n)" "resolve fs False (p @ ''.pacsave'' @ t) = Inr b"
      "changes_only {l. prefix a l \<or> prefix b l} fs fs'" by blast
    have "a \<in> pacsave_places (components p)" "b \<in> pacsave_places (components p)"
      using resolve_pacsave(2) [OF assms(1,2,3) stat_resolved [OF ab(1)]] resolve_pacsave(2) [OF assms(1,2,4) ab(2)] by auto
    then have "{l. prefix a l \<or> prefix b l} \<subseteq> pacsave_places (components p)" using pacsave_up by blast
    then show ?thesis using changes_only_mono ab(3) r by simp
  qed (use r in simp)
qed

lemma direct_pacsaves:
  assumes "direct fs cs" "cs \<notin> pacsave_places cs" "changes_only (pacsave_places cs) fs fs'"
  shows "direct fs' cs"
  using direct_only_goes [OF assms(1)] only_goes_changes [OF assms(3)] ways_pacsave [OF assms(2)] by blast

lemma pacsave_suffix: "pacsave p i = p @ ''.pacsave'' @ (CHR ''.'' # dec_nat i)"
  by (simp add: pacsave_def)

lemma shift_loop_changes:
  assumes "named p" "direct fs (components p)" "components p \<notin> pacsave_places (components p)"
  shows "changes_only (pacsave_places (components p)) fs (snd (shift_loop p n fs))"
  using assms(2)
proof (induction n arbitrary: fs)
  case (Suc i)
  let ?fs = "snd (rename (pacsave p i) (pacsave p (Suc i)) fs)"
  have c: "changes_only (pacsave_places (components p)) fs ?fs"
    unfolding pacsave_suffix by (rule rename_pacsaves [OF assms(1) Suc.prems]) (simp_all add: no_slash_dec)
  from Suc.IH [OF direct_pacsaves [OF Suc.prems assms(3) c]] c show ?case by (auto intro: changes_only_trans)
qed simp

lemma shift_pacsave_changes:
  assumes "named p" "direct fs (components p)" "components p \<notin> pacsave_places (components p)"
  shows "changes_only (pacsave_places (components p)) fs (shift_pacsave env p fs)"
proof -
  have last: "changes_only (pacsave_places (components p)) fs (snd (rename (p @ ''.pacsave'') ((p @ ''.pacsave'') @ ''.1'') fs))"
    if "direct fs (components p)" for fs
    using rename_pacsaves [OF assms(1) that, of "[]" "''.1''"] by simp
  show ?thesis
  proof (cases "sys_regex env (path_buffer (''^'' @ sys_basename env p @ [CHR 0x5C] @ ''.pacsave'' @ [CHR 0x5C] @ ''.([[:digit:]]+)$''))")
    case (Some reg)
    show ?thesis
    proof (cases "AlpmFs.opendir fs (sys_dirname env p)")
      case (Inr ents)
      define n where "n = (log_max_loop reg (length (sys_basename env p)) ents 0 + 1) mod (ULONG_MAX + 1)"
      obtain ok fs1 where l: "shift_loop p n fs = (ok, fs1)" by fastforce
      have c: "changes_only (pacsave_places (components p)) fs fs1" using shift_loop_changes [OF assms, of n] l by simp
      note last = last [OF direct_pacsaves [OF assms(2,3) c]]
      have "shift_pacsave env p fs \<in> {fs1, snd (rename (p @ ''.pacsave'') ((p @ ''.pacsave'') @ ''.1'') fs1)}"
        using Some Inr l unfolding n_def by (simp add: shift_pacsave_def Let_def split: sum.split)
      then show ?thesis using c changes_only_trans [OF c last] by auto
    qed (use Some in \<open>simp add: shift_pacsave_def\<close>)
  qed (simp add: shift_pacsave_def)
qed

text \<open>
  What unlinking one file does in a state the others have brought: the own place, if it is no directory
  of another, and the places of its saved copies.
\<close>

definition own_changes :: "alpm_world \<Rightarrow> alpm_pkg_t \<Rightarrow> alpm_file_t \<Rightarrow> filesys \<Rightarrow> location set" where
  "own_changes w old f fs =
     (if look fs (removal_place w f) = Some Dir \<and> owned_by_other w old (fname f) then {} else {removal_place w f}) \<union>
     (if alpm_needbackup (Some (fname f)) (Some old) \<noteq> None then pacsave_places (removal_place w f) else {})"

lemma unlink_nondir_changes:
  assumes "\<not> slashed p" "direct fs (components p)" "unlink_nondir p fs = (r, fs')"
  shows "fs' = fs \<or> look fs (components p) \<noteq> Some Dir \<and> components p \<noteq> [] \<and> fs' = fs_del (components p) fs"
proof -
  obtain e where u: "unlink p fs = (e, fs')" using assms(3) by (auto simp: unlink_nondir_def split: prod.splits)
  show ?thesis
    using unlink_result [OF u] lstat_direct [OF assms(2,1)] AlpmFs.lstat_location [of fs p] by auto
qed

lemma unlink_dir_changes:
  assumes "\<not> slashed p" "direct fs (components p)" "unlink_dir w old newpkg path p dev fs = (r, fs')"
  shows "fs' = fs \<or> \<not> owned_by_other w old path \<and> components p \<noteq> [] \<and> children fs (components p) = [] \<and> fs' = fs_del (components p) fs"
proof (cases "fs' = fs")
  case False
  then obtain e where u: "rmdir p fs = (e, fs')" "\<not> owned_by_other w old path"
    using assms(3) by (auto simp: unlink_dir_def split: if_splits prod.splits)
  then show ?thesis using rmdir_result [OF u(1)] lstat_direct [OF assms(2,1)] False by auto
qed simp

lemma save_file_changes:
  assumes "named p" "\<not> slashed p" "direct fs (components p)" "components p \<notin> pacsave_places (components p)"
    and "look fs (components p) \<noteq> Some Dir" "save_file env p fs = (r, fs')"
  shows "changes_only (insert (components p) (pacsave_places (components p))) fs fs' \<and>
    only_goes {components p} fs fs'"
proof -
  define fs1 where "fs1 = shift_pacsave env p fs"
  have c: "changes_only (pacsave_places (components p)) fs fs1"
    unfolding fs1_def by (rule shift_pacsave_changes [OF assms(1,3,4)])
  note d = direct_pacsaves [OF assms(3,4) c]
  have same: "look fs1 (components p) = look fs (components p)" using c assms(4) by (simp add: changes_only_def)
  obtain e where r: "rename p (p @ ''.pacsave'') fs1 = (e, fs')"
    using assms(6) by (auto simp: save_file_def fs1_def Let_def split: prod.splits)
  have "changes_only (insert (components p) (pacsave_places (components p))) fs1 fs' \<and> only_goes {components p} fs1 fs'"
  proof (cases "fs' = fs1")
    case False
    then obtain a n where a: "AlpmFs.lstat fs1 p = Inr (a, n)" using r by (auto simp: rename_def split: sum.splits)
    then have n: "a = components p" "n \<noteq> Dir"
      using lstat_direct [OF d assms(2) a] AlpmFs.lstat_location [OF a] same assms(5) by auto
    obtain b where b: "resolve fs1 False (p @ ''.pacsave'') = Inr b" "a \<noteq> b" "a \<noteq> []" "b \<noteq> []" "fs' = fs_put b n (fs_del a fs1)"
      using rename_file_result [OF r a n(2)] False by blast
    have "b \<in> pacsave_places (components p)" using resolve_pacsave(2) [OF assms(1) d, of "[]"] b(1) by simp
    then show ?thesis using b n by (auto simp: changes_only_def only_goes_def)
  qed simp
  then show ?thesis
    using c same unfolding changes_only_def only_goes_def by auto
qed

lemma unlink_file_changes:
  assumes u: "unlink_file env w old newpkg f nosave fs = Some (r, fs')"
    and p: "named (removal_path w f)" "\<not> slashed (removal_path w f)" "direct fs (removal_place w f)"
    and no: "alpm_needbackup (Some (fname f)) (Some old) \<noteq> None \<Longrightarrow> removal_place w f \<notin> pacsave_places (removal_place w f)"
    and ll: "llstat_is_lstat env"
  shows "changes_only (own_changes w old f fs) fs fs' \<and> only_goes {removal_place w f} fs fs'"
proof (cases "fs' = fs")
  case False
  let ?p = "removal_path w f" and ?cs = "removal_place w f"
  have place: "components ?p = ?cs" by (simp add: removal_place_def)
  have le: "\<not> (root (handle w) @ fname f = [] \<or> length (root (handle w) @ fname f) \<ge> PATH_MAX)"
    using u False by (auto simp: unlink_file_def Let_def)
  then obtain l n where l: "sys_llstat env fs ?p = Inr (l, n)"
    using u False by (auto simp: unlink_file_def removal_path_def Let_def split: sum.splits)
  then have ls: "AlpmFs.lstat fs ?p = Inr (l, n)" using ll p(2) by (simp add: llstat_is_lstat_def)
  have n: "look fs ?cs = Some n"
    using lstat_direct [of fs ?p, OF _ p(2) ls] p(3) AlpmFs.lstat_location [OF ls] unfolding place by simp
  have del: "changes_only L fs fs' \<and> only_goes {?cs} fs fs'" if "?cs \<in> L" "?cs \<noteq> []" "fs' = fs_del ?cs fs" for L
    using that by (auto simp: changes_only_def only_goes_def)
  note d = p(3) [folded place]
  show ?thesis
  proof (cases "n = Dir")
    case True
    then have dir: "unlink_dir w old newpkg (fname f) ?p (fs_dev fs l) fs = (r, fs')"
      using u le l by (auto simp: unlink_file_def removal_path_def Let_def split: if_splits)
    from unlink_dir_changes [OF p(2) d dir] False del show ?thesis
      by (auto simp: own_changes_def place)
  next
    case nondir: False
    then have own: "?cs \<in> own_changes w old f fs" using n by (simp add: own_changes_def)
    have "unlink_nondir ?p fs = (r, fs') \<or> alpm_needbackup (Some (fname f)) (Some old) \<noteq> None \<and> save_file env ?p fs = (r, fs')"
      using u le l nondir by (auto simp: unlink_file_def removal_path_def Let_def split: option.splits if_splits bool.splits)
    then show ?thesis
    proof
      assume un: "unlink_nondir ?p fs = (r, fs')"
      from unlink_nondir_changes [OF p(2) d un] False del [OF own] show ?thesis by (simp add: place)
    next
      assume s: "alpm_needbackup (Some (fname f)) (Some old) \<noteq> None \<and> save_file env ?p fs = (r, fs')"
      then have "?cs \<notin> pacsave_places ?cs" using no by blast
      from save_file_changes [OF p(1,2) d, unfolded place, OF this] s n nondir
      have c: "changes_only (insert ?cs (pacsave_places ?cs)) fs fs'" "only_goes {?cs} fs fs'" by auto
      have "insert ?cs (pacsave_places ?cs) \<subseteq> own_changes w old f fs"
        using s n nondir by (simp add: own_changes_def)
      then show ?thesis using c changes_only_mono by blast
    qed
  qed
qed simp

text \<open>One file after the other: what they all change together, with the ways to them only getting shorter.\<close>

definition all_ways :: "alpm_world \<Rightarrow> alpm_pkg_t \<Rightarrow> location set" where
  "all_ways w old = (\<Union>f\<in>set (files old). ways (removal_place w f))"

lemma place_way: "named (removal_path w f) \<Longrightarrow> removal_place w f \<in> ways (removal_place w f)"
  using components_named [of "removal_path w f"]
  by (auto simp: ways_def removal_place_def intro!: exI [of _ "length (components (removal_path w f))"])

lemma unlink_loop_changes:
  assumes "unlink_loop env w old newpkg nosave fl err fs = Some (r, fs')" "set fl \<subseteq> set (files old)"
    and "plain_files env w old fs0" "llstat_is_lstat env"
    and "changes_only (removable env w old newpkg fs0) fs0 fs" "only_goes (all_ways w old) fs0 fs"
  shows "changes_only (removable env w old newpkg fs0) fs0 fs' \<and> only_goes (all_ways w old) fs0 fs'"
  using assms(1,2,5,6)
proof (induction fl arbitrary: err fs)
  case (Cons f fl)
  let ?A = "removable env w old newpkg fs0" and ?P = "all_ways w old"
  have f: "f \<in> set (files old)" using Cons.prems(2) by simp
  have pl: "named (removal_path w f)" "\<not> slashed (removal_path w f)" "direct fs0 (removal_place w f)"
    using assms(3) f by (simp_all add: plain_files_def)
  have apart: "removal_place w g \<notin> pacsave_places (removal_place w h)"
    if "g \<in> set (files old)" "h \<in> set (files old)" "alpm_needbackup (Some (fname h)) (Some old) \<noteq> None" for g h
    using assms(3) that by (simp add: plain_files_def)
  have in_ways: "ways (removal_place w f) \<subseteq> ?P" using f by (auto simp: all_ways_def)
  show ?case
  proof (cases "should_skip_file env (handle w) (skip_remove (transaction w)) newpkg (fname f)")
    case True
    then show ?thesis using Cons by simp
  next
    case False
    then obtain r1 fs1 where u: "unlink_file env w old newpkg f nosave fs = Some (r1, fs1)"
      using Cons.prems(1) by (auto split: option.splits)
    have "only_goes (ways (removal_place w f)) fs0 fs"
      using Cons.prems(4) in_ways by (auto simp: only_goes_def)
    then have d: "direct fs (removal_place w f)" by (rule direct_only_goes [OF pl(3)])
    note ch = unlink_file_changes [OF u pl(1,2) d apart [OF f f] assms(4)]
    have same: "look fs (removal_place w f) = Some Dir \<Longrightarrow> look fs0 (removal_place w f) = Some Dir"
      using Cons.prems(4) place_way [OF pl(1)] in_ways unfolding only_goes_def by (metis option.distinct(1) subsetD)
    have sub: "l \<in> ?A" if "l \<in> own_changes w old f fs" "look fs l \<noteq> look fs1 l" for l
    proof (cases "l = removal_place w f")
      case True
      have "\<not> (look fs0 l = Some Dir \<and> owned_by_other w old (fname f))"
      proof
        assume o: "look fs0 l = Some Dir \<and> owned_by_other w old (fname f)"
        then have "look fs l = Some Dir \<or> look fs l = None"
          using Cons.prems(4) place_way [OF pl(1)] in_ways True unfolding only_goes_def by (metis subsetD)
        moreover have "look fs1 l = look fs l \<or> look fs1 l = None" using ch True by (simp add: only_goes_def)
        ultimately have "look fs l = Some Dir" using that(2) by auto
        then have "l \<in> pacsave_places (removal_place w f)" "alpm_needbackup (Some (fname f)) (Some old) \<noteq> None"
          using that(1) o True by (auto simp: own_changes_def split: if_splits)
        then show False using apart [OF f f] True by blast
      qed
      then show ?thesis using f False True unfolding removable_def by blast
    next
      case other: False
      then have "l \<in> pacsave_places (removal_place w f)" "alpm_needbackup (Some (fname f)) (Some old) \<noteq> None"
        using that(1) by (auto simp: own_changes_def split: if_splits)
      then show ?thesis using f False unfolding removable_def by blast
    qed
    have c: "changes_only ?A fs0 fs1"
      using Cons.prems(3) ch sub unfolding changes_only_def by metis
    have "only_goes ?P fs fs1"
    proof -
      have "look fs1 l = look fs l \<or> look fs1 l = None" if way: "l \<in> ?P" for l
      proof -
        obtain g where g: "g \<in> set (files old)" "l \<in> ways (removal_place w g)" using way by (auto simp: all_ways_def)
        have "l \<notin> pacsave_places (removal_place w f)" if "alpm_needbackup (Some (fname f)) (Some old) \<noteq> None"
          using ways_pacsave [OF apart [OF g(1) f that]] g(2) by blast
        then have "l \<in> own_changes w old f fs \<Longrightarrow> l = removal_place w f"
          by (auto simp: own_changes_def split: if_splits)
        then show ?thesis using ch unfolding changes_only_def only_goes_def by (metis singletonI)
      qed
      then show ?thesis by (simp add: only_goes_def)
    qed
    then have o: "only_goes ?P fs0 fs1" using Cons.prems(4) only_goes_trans by blast
    from Cons.IH [OF _ _ c o] show ?thesis using Cons.prems(1,2) False u by simp
  qed
qed simp

text \<open>C5: 
  Removing the files of a package touches nothing else: outside of the package's own files that are not
  skipped, and the saved copies of its configuration files, the tree stays as it was. Directories that
  another installed package owns stay too, and of the library nothing changes but the error. The paths of the
  package meet no link and are not among its saved copies.\<close>

theorem removal_touches_own_files:
  assumes "remove_package_files env w old newpkg fs = Some (r, w', fs')" "plain_files env w old fs" "llstat_is_lstat env"
  shows "changes_only (removable env w old newpkg fs) fs fs' \<and> w' \<in> {w, set_errno ALPM_ERR_PKG_CANT_REMOVE w}"
  using assms(1) unlink_loop_changes [OF _ _ assms(2,3), of newpkg _ "rev (files old)" 0 fs]
  by (auto simp: remove_package_files_def split: if_splits)

text \<open>An example: a package with a directory that another owns, a file and a changed configuration file.\<close>

definition sample_env :: alpm_env where
  "sample_env =
     \<lparr>sys_entries = \<lambda>_. None, sys_extract = \<lambda>_ _ _ fs. ((0, False), fs), sys_fnmatch = \<lambda>p s. p = s, sys_md5 = \<lambda>c. c,
      sys_regex = \<lambda>_. None, sys_llstat = AlpmFs.lstat, sys_dirname = \<lambda>s. s, sys_basename = \<lambda>s. s,
      sys_fgets = fgets, sys_mkdtemp = \<lambda>_ p. Some p, sys_copy = \<lambda>c. (0, [Chunk c], []),
      sys_child = \<lambda>_ fs. (\<lparr>chdir_works = True, pipes_work = True, fork_works = True, child_says = [], child_takes = [],
        polls = [], waits = [Status (Exited 0)]\<rparr>, fs),
      sys_executable = \<lambda>_ _. False, sys_shell = ''/bin/sh'', sys_ldconfig = ''/sbin/ldconfig'', sys_time = 0\<rparr>"

definition sample_files :: "string list \<Rightarrow> alpm_filelist_t" where
  "sample_files ns = map (\<lambda>n. \<lparr>fname = n, fsize = 0, fmode = 0\<rparr>) ns"

definition sample_pkg :: alpm_pkg_t where
  "sample_pkg = alpm_pkg_new\<lparr>pname := ''a'', name_hash := 1, files := sample_files [''e/'', ''e/c'', ''e/f''],
     backup := [\<lparr>bname = ''e/c'', bhash = Some ''old''\<rparr>]\<rparr>"

definition sample_other :: alpm_pkg_t where
  "sample_other = alpm_pkg_new\<lparr>pname := ''b'', name_hash := 2, files := sample_files [''e/'']\<rparr>"

definition sample_db :: alpm_db_t where
  "sample_db = (alpm_db_new ''local'' True)\<lparr>status := DB_STATUS_LOCAL OR DB_STATUS_VALID OR DB_STATUS_PKGCACHE,
     pkgcache := Some \<lparr>hash_table = [], hlist = [1], buckets = 0, entries = 1, limit = 0\<rparr>\<rparr>"

definition sample_world :: alpm_world where
  "sample_world = \<lparr>handle = alpm_handle_new\<lparr>root := ''/'', db_local := Some 5, trans := Some (alpm_trans_new 0)\<rparr>,
     wdbs = \<lambda>_. sample_db, wpkgs = (\<lambda>p. if p = 0 then sample_pkg else sample_other), next_ref = 9\<rparr>"

definition sample_fs :: filesys where
  "sample_fs = \<lparr>fs_nodes = [([''e''], Dir), ([''e'', ''c''], File ''new''), ([''e'', ''f''], File []), ([''x''], Dir)],
     fs_fault = \<lambda>_. None, fs_nowrite = \<lambda>_. None, fs_dev = \<lambda>_. 0\<rparr>"

lemma sample_removed:
  "map_option (\<lambda>(r, w, fs). (r, fs_nodes fs)) (remove_package_files sample_env sample_world sample_pkg None sample_fs) =
     Some (0, [([''e''], Dir), ([''x''], Dir), ([''e'', ''c.pacsave''], File ''new'')])"
  by code_simp

lemma sample_places:
  "removal_place sample_world \<lparr>fname = ''e/'', fsize = 0, fmode = 0\<rparr> = [''e'']"
  "removal_place sample_world \<lparr>fname = ''e/c'', fsize = 0, fmode = 0\<rparr> = [''e'', ''c'']"
  "removal_place sample_world \<lparr>fname = ''e/f'', fsize = 0, fmode = 0\<rparr> = [''e'', ''f'']"
  by code_simp+

lemma pacsave_places_iff:
  assumes "cs \<noteq> []"
  shows "l \<in> pacsave_places cs \<longleftrightarrow>
     length cs \<le> length l \<and> take (length cs - 1) l = butlast cs \<and> prefix (last cs @ ''.pacsave'') (l ! (length cs - 1))"
proof
  assume "l \<in> pacsave_places cs"
  then obtain s r where "l = butlast cs @ (last cs @ ''.pacsave'' @ s) # r" by (auto simp: pacsave_places_def prefix_def)
  then show "length cs \<le> length l \<and> take (length cs - 1) l = butlast cs \<and> prefix (last cs @ ''.pacsave'') (l ! (length cs - 1))"
    using assms by (simp add: nth_append)
next
  assume r: "length cs \<le> length l \<and> take (length cs - 1) l = butlast cs \<and> prefix (last cs @ ''.pacsave'') (l ! (length cs - 1))"
  then obtain s where s: "l ! (length cs - 1) = last cs @ ''.pacsave'' @ s" by (auto simp: prefix_def)
  have "length cs - 1 < length l" using r assms by (cases cs) auto
  from id_take_nth_drop [OF this] have "l = butlast cs @ (last cs @ ''.pacsave'' @ s) # drop (Suc (length cs - 1)) l"
    using r s by simp
  then have "prefix (butlast cs @ [last cs @ ''.pacsave'' @ s]) l" by (metis append.assoc append_Cons append_Nil prefixI)
  then show "l \<in> pacsave_places cs" by (auto simp: pacsave_places_def)
qed

lemma sample_plain: "plain_files sample_env sample_world sample_pkg sample_fs"
proof -
  have f: "files sample_pkg = [\<lparr>fname = ''e/'', fsize = 0, fmode = 0\<rparr>, \<lparr>fname = ''e/c'', fsize = 0, fmode = 0\<rparr>, \<lparr>fname = ''e/f'', fsize = 0, fmode = 0\<rparr>]"
    by (simp add: sample_pkg_def sample_files_def)
  have n: "\<forall>f\<in>set (files sample_pkg). named (removal_path sample_world f) \<and> \<not> slashed (removal_path sample_world f)" by code_simp
  have d: "direct sample_fs (removal_place sample_world f)" if "f \<in> set (files sample_pkg)" for f
    using that by (auto simp: f sample_places direct_def sample_fs_def look_def less_Suc_eq numeral_eq_Suc)
  have b: "alpm_needbackup (Some (fname g)) (Some sample_pkg) \<noteq> None \<longleftrightarrow> fname g = ''e/c''" for g
    by (auto simp: sample_pkg_def alpm_needbackup_def )
  show ?thesis
    unfolding plain_files_def using n d
    by (auto simp: f b sample_places pacsave_places_iff)
qed

theorem removal_touches_own_files_witness:
  "\<exists>fs'. changes_only (removable sample_env sample_world sample_pkg None sample_fs) sample_fs fs' \<and>
     fs_nodes fs' = [([''e''], Dir), ([''x''], Dir), ([''e'', ''c.pacsave''], File ''new'')]"
proof -
  obtain w' fs' where r: "remove_package_files sample_env sample_world sample_pkg None sample_fs = Some (0, w', fs')"
    "fs_nodes fs' = [([''e''], Dir), ([''x''], Dir), ([''e'', ''c.pacsave''], File ''new'')]"
    using sample_removed by auto
  have "llstat_is_lstat sample_env" by (simp add: llstat_is_lstat_def sample_env_def)
  from removal_touches_own_files [OF r(1) sample_plain this] r(2) show ?thesis by blast
qed

section \<open>Changed configuration files\<close>

lemma walk_follow:
  assumes "walk fs n follow cur cs = Inr l" "\<forall>t. look fs l \<noteq> Some (Link t)"
  shows "walk fs n True cur cs = Inr l"
  using assms
proof (induction fs n follow cur cs rule: walk.induct)
  case (2 fs n follow cur c cs)
  show ?case
  proof (cases "c = ''..''")
    case up: False
    show ?thesis
    proof (cases "look fs (cur @ [c])")
      case (Some nd)
      show ?thesis
      proof (cases nd)
        case Dir
        then show ?thesis using 2(2) [OF up] 2(4,5) up Some by simp
      next
        case (Link t)
        have ne: "\<not> (cs = [] \<and> \<not> follow)" 
        proof
          assume e: "cs = [] \<and> \<not> follow"
          then have "l = cur @ [c]" using 2(4) up Some Link by simp
          then show False using 2(5) Some Link by blast
        qed
        then obtain m where "n = Suc m" using 2(4) up Some Link by (cases n) auto
        then show ?thesis using 2(3) [OF up Some Link ne] 2(4,5) up Some Link ne by auto
      qed (use 2(4) up Some in \<open>auto split: if_splits\<close>)
    qed (use 2(4) up in \<open>auto split: if_splits\<close>)
  qed (use 2 in simp)
qed simp

lemma read_lstat:
  assumes "AlpmFs.lstat fs p = Inr (l, File c)" "\<not> slashed p"
  shows "read_file fs p = Inr c"
proof -
  have r: "resolve fs False p = Inr l" "look fs l = Some (File c)"
    using stat_resolved [OF assms(1)] AlpmFs.lstat_location [OF assms(1)] by auto
  then have "resolve fs True p = Inr l"
    using assms(2) walk_follow [of fs 40 False "[]" "components p" l] by (auto simp: resolve_def split: if_splits)
  from read_resolved [OF this r(2) assms(2)] show ?thesis .
qed



end
