(* ===== verification/AlpmInstall.thy ===== *)
theory AlpmInstall
  imports AlpmRemoveFiles
begin

text \<open>
  Committing an installation (\<open>lib/libalpm/add.c\<close>): extracting the files of a package, what becomes of
  configuration files that are there, and the entries in the database and its cache. A result \<open>None\<close> is
  a scriptlet that does not return, an access outside of memory or a hash table that does not answer.
\<close>

section \<open>Extracting one entry\<close>

definition perform_extraction :: "alpm_env \<Rightarrow> arch_entry \<Rightarrow> string \<Rightarrow> int call" where
  "perform_extraction env entry path fs =
     (let ((ret, enospc), fs) = sys_extract env True entry path fs
      in (if ret = ARCHIVE_WARN \<and> \<not> enospc then 0 else if ret \<noteq> ARCHIVE_OK then 1 else 0, fs))"

definition try_rename :: "string \<Rightarrow> string \<Rightarrow> int call" where
  "try_rename src target fs = (let (e, fs) = rename src target fs in (if e \<noteq> None then 1 else 0, fs))"

text \<open>\<open>dir\<close> is the path of the local database.\<close>

definition extract_db_file :: "alpm_env \<Rightarrow> string \<Rightarrow> arch_entry \<Rightarrow> alpm_pkg_t \<Rightarrow> string \<Rightarrow> int call" where
  "extract_db_file env dir entry newpkg entryname fs =
     (if entryname \<notin> {''.INSTALL'', ''.CHANGELOG'', ''.MTREE''} then (0, fs)
      else
        let dbfile = (if entryname = ''.INSTALL'' then ''install'' else if entryname = ''.CHANGELOG'' then ''changelog'' else ''mtree'')
        in perform_extraction env entry (path_buffer (alpm_local_db_pkgpath dir newpkg dbfile)) fs)"

text \<open>
  What becomes of a file that is there and is no directory: it is replaced, or left alone with the new
  one beside it, or compared, with the hash the old package had for it.
\<close>

datatype treatment = Replace | Notouch | Need_backup "string option"

definition file_treatment ::
  "alpm_env \<Rightarrow> alpm_handle_t \<Rightarrow> alpm_pkg_t \<Rightarrow> alpm_pkg_t option \<Rightarrow> arch_entry \<Rightarrow> treatment" where
  "file_treatment env h newpkg old entry =
     (if entry_node entry = Dir then Replace
      else if alpm_fnmatch_patterns (sys_fnmatch env) (noupgrade h) (entry_path entry) = 0 then Notouch
      else
        (case alpm_needbackup (Some (entry_path entry)) old of
           Some oldbackup \<Rightarrow> Need_backup (bhash oldbackup)
         | None \<Rightarrow> (case alpm_needbackup (Some (entry_path entry)) (Some newpkg) of Some _ \<Rightarrow> Need_backup None | None \<Rightarrow> Replace)))"

text \<open>The first backup entry of the name gets the hash of the file.\<close>

fun set_backup_hash :: "string \<Rightarrow> string option \<Rightarrow> alpm_backup_t list \<Rightarrow> alpm_backup_t list" where
  "set_backup_hash name hash [] = []"
| "set_backup_hash name hash (b # l) =
     (if strcmp name (bname b) = 0 then b\<lparr>bhash := hash\<rparr> # l else b # set_backup_hash name hash l)"

text \<open>The three hashes decide between the file that is there and the one extracted beside it.\<close>

definition resolve_backup :: "alpm_env \<Rightarrow> string \<Rightarrow> string \<Rightarrow> string option \<Rightarrow> bool \<Rightarrow> int call" where
  "resolve_backup env origfile path hash_orig isnewfile fs =
     (let hash_local = alpm_compute_md5sum env fs origfile; hash_pkg = alpm_compute_md5sum env fs path
      in if hash_local \<noteq> None \<and> hash_pkg \<noteq> None \<and> hash_local = hash_pkg then try_rename path origfile fs
         else if hash_orig \<noteq> None \<and> hash_pkg \<noteq> None \<and> hash_orig = hash_pkg
         then (0, if isnewfile then snd (unlink path fs) else fs)
         else if hash_orig \<noteq> None \<and> hash_local \<noteq> None \<and> hash_orig = hash_local then try_rename path origfile fs
         else (0, fs))"

definition install_entry ::
  "alpm_env \<Rightarrow> alpm_pkg_t \<Rightarrow> arch_entry \<Rightarrow> string \<Rightarrow> treatment \<Rightarrow> filesys \<Rightarrow> int \<times> alpm_pkg_t \<times> filesys" where
  "install_entry env newpkg entry origfile treat fs =
     (if treat \<noteq> Replace \<and> length origfile + 7 \<ge> PATH_MAX then (1, newpkg, fs)
      else
        let path = (if treat = Replace then origfile else origfile @ ''.pacnew'');
            isnewfile = (case sys_llstat env fs path of Inl e \<Rightarrow> e = ENOENT | Inr _ \<Rightarrow> False);
            (r, fs) = perform_extraction env entry path fs
        in if r \<noteq> 0 then (1, newpkg, fs)
           else
             let newpkg = (if alpm_needbackup (Some (entry_path entry)) (Some newpkg) = None then newpkg
                           else newpkg\<lparr>backup := set_backup_hash (entry_path entry) (alpm_compute_md5sum env fs path) (backup newpkg)\<rparr>)
             in case treat of
                  Need_backup hash_orig \<Rightarrow>
                    (let (r, fs) = resolve_backup env origfile path hash_orig isnewfile fs in (r, newpkg, fs))
                | _ \<Rightarrow> (0, newpkg, fs))"

definition extract_single_file ::
  "alpm_env \<Rightarrow> alpm_handle_t \<Rightarrow> string \<Rightarrow> arch_entry \<Rightarrow> alpm_pkg_t \<Rightarrow> alpm_pkg_t option \<Rightarrow> filesys \<Rightarrow> int \<times> alpm_pkg_t \<times> filesys" where
  "extract_single_file env h dir entry newpkg old fs =
     (let entryname = entry_path entry; path = root h @ entryname
      in if entryname \<noteq> [] \<and> hd entryname = CHR ''.''
         then (let (r, fs) = extract_db_file env dir entry newpkg entryname fs in (r, newpkg, fs))
         else if alpm_filelist_contains (Some (files newpkg)) entryname = None then (0, newpkg, fs)
         else if length path \<ge> PATH_MAX then (1, newpkg, fs)
         else if alpm_fnmatch_patterns (sys_fnmatch env) (noextract h) entryname = 0 then (0, newpkg, fs)
         else
           (case sys_llstat env fs path of
              Inl _ \<Rightarrow> install_entry env newpkg entry path Replace fs
            | Inr (_, n) \<Rightarrow>
                if n = Dir then (if entry_node entry = Dir then 0 else 1, newpkg, fs)
                else install_entry env newpkg entry path (file_treatment env h newpkg old entry) fs))"

section \<open>Extracting a package\<close>

text \<open>All entries, or those of the database only; the number of errors.\<close>

fun extract_loop ::
  "alpm_env \<Rightarrow> alpm_handle_t \<Rightarrow> string \<Rightarrow> bool \<Rightarrow> alpm_pkg_t option \<Rightarrow> arch_entry list \<Rightarrow> int \<Rightarrow> alpm_pkg_t \<Rightarrow> filesys \<Rightarrow>
   int \<times> alpm_pkg_t \<times> filesys" where
  "extract_loop env h dir dbonly old [] errors newpkg fs = (errors, newpkg, fs)"
| "extract_loop env h dir dbonly old (e # es) errors newpkg fs =
     (case (if \<not> dbonly then extract_single_file env h dir e newpkg old fs
            else if entry_path e \<noteq> [] \<and> hd (entry_path e) = CHR ''.''
            then (let (r, fs) = extract_db_file env dir e newpkg (entry_path e) fs in (r, newpkg, fs))
            else (0, newpkg, fs)) of
        (r, newpkg, fs) \<Rightarrow> extract_loop env h dir dbonly old es (errors + r) newpkg fs)"

text \<open>\<open>archive_read_open\<close> and the change to the root; \<open>None\<close> for a failure of either.\<close>

definition unpack_package ::
  "alpm_env \<Rightarrow> alpm_world \<Rightarrow> string \<Rightarrow> string \<Rightarrow> alpm_pkg_t option \<Rightarrow> alpm_pkg_t \<Rightarrow> filesys \<Rightarrow>
   (int \<times> alpm_pkg_t \<times> filesys) option \<times> alpm_world" where
  "unpack_package env w dir pkgfile old newpkg fs =
     (case alpm_open_archive env fs pkgfile of
        None \<Rightarrow> (None, set_errno ALPM_ERR_PKG_OPEN w)
      | Some es \<Rightarrow>
          (case AlpmFs.stat fs (root (handle w)) of
             Inr (_, Dir) \<Rightarrow>
               (Some (extract_loop env (handle w) dir (has_flag (transaction w) ALPM_TRANS_FLAG_DBONLY) old es 0 newpkg fs), w)
           | _ \<Rightarrow> (None, w)))"

section \<open>Committing a package\<close>

definition override_reason :: "alpm_trans_t \<Rightarrow> alpm_pkgreason_t \<Rightarrow> alpm_pkgreason_t" where
  "override_reason t r =
     (if has_flag t ALPM_TRANS_FLAG_ALLDEPS then ALPM_PKG_REASON_DEPEND
      else if has_flag t ALPM_TRANS_FLAG_ALLEXPLICIT then ALPM_PKG_REASON_EXPLICIT else r)"

text \<open>What is left of the old package is removed first.\<close>

definition replace_old ::
  "alpm_env \<Rightarrow> alpm_world \<Rightarrow> dbref \<Rightarrow> pkgref \<Rightarrow> pkgref option \<Rightarrow> filesys \<Rightarrow> (alpm_world \<times> filesys) option" where
  "replace_old env w d p old fs =
     (case old of
        None \<Rightarrow> Some (w, fs)
      | Some o' \<Rightarrow> map_option (\<lambda>(_, w, fs). (w, fs)) (alpm_remove_single_package env w d o' (Some p) fs))"

text \<open>The database gets the package, then the cache a copy of it; then the last scriptlet runs.\<close>

definition record_package ::
  "alpm_env \<Rightarrow> (alpm_pkg_t \<Rightarrow> bool) \<Rightarrow> alpm_world \<Rightarrow> dbref \<Rightarrow> string \<Rightarrow> pkgref \<Rightarrow> string option \<Rightarrow> bool \<Rightarrow> int \<Rightarrow> filesys \<Rightarrow>
   (int \<times> alpm_world \<times> filesys) option" where
  "record_package env force_load w d dir p oldver is_upgrade ret fs =
     (let w = upd_pkg p (\<lambda>pkg. pkg\<lparr>installdate := sys_time env\<rparr>) w;
          (r, fs) = local_db_write dir (has_status (wdbs w d) DB_STATUS_LOCAL) (wpkgs w p) INFRQ_ALL fs
      in if r \<noteq> 0 then Some (-1, set_errno ALPM_ERR_DB_WRITE w, fs)
         else
           (case alpm_db_add_pkgincache force_load w (Some d) (Some p) of
              None \<Rightarrow> None
            | Some (_, w) \<Rightarrow>
                map_option (\<lambda>(w, fs). (ret, w, fs))
                  (run_local_scriptlet env w d (wpkgs w p) (if is_upgrade then ''post_upgrade'' else ''post_install'')
                     (version (wpkgs w p)) oldver fs)))"

definition commit_single_pkg ::
  "alpm_env \<Rightarrow> (alpm_pkg_t \<Rightarrow> bool) \<Rightarrow> alpm_world \<Rightarrow> dbref \<Rightarrow> pkgref \<Rightarrow> filesys \<Rightarrow> (int \<times> alpm_world \<times> filesys) option" where
  "commit_single_pkg env force_load w d p fs =
     (let old = (if cached_pkg w (Some d) (pname (wpkgs w p)) \<noteq> None then oldpkg (wpkgs w p) else None);
          is_upgrade = (old \<noteq> None); oldver = Option.bind old (\<lambda>q. version (wpkgs w q));
          w = (case old of None \<Rightarrow> w | Some q \<Rightarrow> upd_pkg p (\<lambda>pkg. pkg\<lparr>preason := preason (wpkgs w q)\<rparr>) w);
          pkg = wpkgs w p
      in case origin_data pkg of
           Origin_db _ \<Rightarrow> None
         | Origin_file pkgfile \<Rightarrow>
             (case (if scriptlet pkg \<and> \<not> has_flag (transaction w) ALPM_TRANS_FLAG_NOSCRIPTLET
                    then alpm_runscriptlet env (root (handle w)) pkgfile (if is_upgrade then ''pre_upgrade'' else ''pre_install'')
                           (version pkg) oldver True fs
                    else Some (0, fs)) of
                None \<Rightarrow> None
              | Some (_, fs) \<Rightarrow>
                  let w = upd_pkg p (\<lambda>pkg. pkg\<lparr>preason := override_reason (transaction w) (preason pkg)\<rparr>) w
                  in case replace_old env w d p old fs of
                       None \<Rightarrow> None
                     | Some (w, fs) \<Rightarrow>
                         (case alpm_db_path w d of
                            (dir, w) \<Rightarrow>
                              (case local_db_prepare dir (wpkgs w p) fs of
                                 (r, fs) \<Rightarrow>
                                   if r \<noteq> 0 then Some (-1, set_errno ALPM_ERR_DB_WRITE w, fs)
                                   else
                                     (case unpack_package env w dir pkgfile (map_option (wpkgs w) old) (wpkgs w p) fs of
                                        (None, w) \<Rightarrow> Some (-1, w, fs)
                                      | (Some (errors, newpkg, fs), w) \<Rightarrow>
                                          record_package env force_load (upd_pkg p (\<lambda>_. newpkg) w) d dir p oldver is_upgrade
                                            (if errors \<noteq> 0 then -1 else 0) fs)))))"

text \<open>
  The targets in turn. One that fails stops the transaction by making it look interrupted, unless it was
  the last; \<open>interrupted k\<close> is an interruption from outside before the target \<open>k\<close> places from the end.
\<close>

fun upgrade_loop ::
  "alpm_env \<Rightarrow> (alpm_pkg_t \<Rightarrow> bool) \<Rightarrow> (nat \<Rightarrow> bool) \<Rightarrow> dbref \<Rightarrow> pkgref list \<Rightarrow> bool \<Rightarrow> int \<Rightarrow> alpm_world \<Rightarrow> filesys \<Rightarrow>
   (bool \<times> int \<times> alpm_world \<times> filesys) option" where
  "upgrade_loop env force_load interrupted d [] ldconfig ret w fs = Some (ldconfig, ret, w, fs)"
| "upgrade_loop env force_load interrupted d (p # targ) ldconfig ret w fs =
     (let w = (if interrupted (length targ) then snd (alpm_trans_interrupt w) else w)
      in if tstate (transaction w) = STATE_INTERRUPTED then Some (False, ret, w, fs)
         else
           (case commit_single_pkg env force_load w d p fs of
              None \<Rightarrow> None
            | Some (r, w, fs) \<Rightarrow>
                if r \<noteq> 0
                then upgrade_loop env force_load interrupted d targ False (-1)
                       (set_errno ALPM_ERR_TRANS_ABORT (upd_trans (\<lambda>t. t\<lparr>tstate := STATE_INTERRUPTED\<rparr>) w)) fs
                else upgrade_loop env force_load interrupted d targ ldconfig ret w fs))"

definition alpm_upgrade_packages ::
  "alpm_env \<Rightarrow> (alpm_pkg_t \<Rightarrow> bool) \<Rightarrow> (nat \<Rightarrow> bool) \<Rightarrow> dbref \<Rightarrow> alpm_world \<Rightarrow> filesys \<Rightarrow> (int \<times> alpm_world \<times> filesys) option" where
  "alpm_upgrade_packages env force_load interrupted d w fs =
     (if tadd (transaction w) = [] then Some (0, w, fs)
      else
        (case upgrade_loop env force_load interrupted d (tadd (transaction w)) True 0 w fs of
           None \<Rightarrow> None
         | Some (ldconfig, ret, w, fs) \<Rightarrow>
             Some (ret, w, if ldconfig then snd (alpm_ldconfig env (root (handle w)) fs) else fs)))"

section \<open>Configuration files stay\<close>

text \<open>The way to the place is made of directories.\<close>

definition real_way :: "filesys \<Rightarrow> location \<Rightarrow> bool" where
  "real_way fs cs \<longleftrightarrow> cs \<noteq> [] \<and> ''..'' \<notin> set cs \<and> (\<forall>k. 0 < k \<longrightarrow> k < length cs \<longrightarrow> look fs (take k cs) = Some Dir)"

text \<open>
  What libarchive promises of an entry that is extracted to such a place: nothing else changes, and a
  file that was extracted is there with its content.
\<close>

definition extracts :: "alpm_env \<Rightarrow> bool" where
  "extracts env \<longleftrightarrow>
     (\<forall>e path fs r en fs'. sys_extract env True e path fs = ((r, en), fs') \<longrightarrow> real_way fs (components path) \<longrightarrow> \<not> slashed path \<longrightarrow>
        changes_only {l. prefix (components path) l} fs fs' \<and>
        (\<forall>x. entry_node e = File x \<longrightarrow> r = ARCHIVE_OK \<or> r = ARCHIVE_WARN \<longrightarrow> look fs' (components path) = Some (File x)))"

lemma real_way_direct: "real_way fs cs \<Longrightarrow> direct fs cs"
  by (simp add: real_way_def direct_def)

lemma walk_real_way:
  assumes "''..'' \<notin> set cs" "\<And>k. 0 < k \<Longrightarrow> k < length cs \<Longrightarrow> look fs (cur @ take k cs) = Some Dir"
    and "\<forall>t. look fs (cur @ cs) \<noteq> Some (Link t)"
  shows "walk fs n follow cur cs = Inr (cur @ cs)"
  using assms
proof (induction cs arbitrary: cur)
  case (Cons c cs)
  have step: "look fs ((cur @ [c]) @ take k cs) = Some Dir" if "0 < k" "k < length cs" for k
    using Cons.prems(2) [of "Suc k"] that by simp
  have up: "c \<noteq> ''..''" using Cons.prems(1) by auto
  show ?case
  proof (cases "cs = []")
    case True
    then show ?thesis using Cons.prems(3) up by (auto split: option.splits node.splits)
  next
    case False
    then have "look fs (cur @ [c]) = Some Dir" using Cons.prems(2) [of 1] by simp
    then show ?thesis using Cons.IH [of "cur @ [c]"] step Cons.prems(1,3) up by simp
  qed
qed simp

lemma resolve_real_way:
  assumes "real_way fs (components p)" "\<forall>t. look fs (components p) \<noteq> Some (Link t)"
  shows "resolve fs follow p = Inr (components p)"
proof -
  have "p \<noteq> []" using assms(1) by (auto simp: real_way_def components_def)
  then show ?thesis
    using assms walk_real_way [of "components p" fs "[]"] by (simp add: resolve_def real_way_def)
qed

lemma lstat_real_way:
  assumes "real_way fs (components p)" "\<not> slashed p" "look fs (components p) = Some (File c)"
  shows "AlpmFs.lstat fs p = Inr (components p, File c)" "read_file fs p = Inr c"
  using resolve_real_way [OF assms(1)] assms(2,3)
  by (simp_all add: AlpmFs.lstat_def stat_node_def AlpmFs.stat_def read_file_def)

lemma real_way_keeps:
  assumes "real_way fs cs" "changes_only {l. prefix qs l} fs fs'" "length cs \<le> length qs"
  shows "real_way fs' cs"
proof -
  have "look fs' (take k cs) = look fs (take k cs)" if "k < length cs" for k
    using assms(2,3) that unfolding changes_only_def by (metis (no_types, lifting) leD length_take mem_Collect_eq min.absorb4 order_less_le_trans prefix_length_le)
  then show ?thesis using assms(1) by (simp add: real_way_def)
qed

text \<open>The two names in one directory.\<close>

lemma pacnew_place:
  assumes "named p" "real_way fs (components p)"
  shows "components (p @ ''.pacnew'') = butlast (components p) @ [last (components p) @ ''.pacnew'']"
    "real_way fs (components (p @ ''.pacnew''))" "\<not> slashed (p @ ''.pacnew'')"
    "\<not> prefix (components (p @ ''.pacnew'')) (components p)" "length (components (p @ ''.pacnew'')) = length (components p)"
proof -
  let ?cs = "components p"
  show c: "components (p @ ''.pacnew'') = butlast ?cs @ [last ?cs @ ''.pacnew'']"
    by (rule components_longer [OF assms(1)]) simp
  have ne: "?cs \<noteq> []" using assms(2) by (simp add: real_way_def)
  then show len: "length (components (p @ ''.pacnew'')) = length ?cs" by (simp add: c)
  have "take k (components (p @ ''.pacnew'')) = take k ?cs" if "k < length ?cs" for k
    using that ne by (simp add: c take_butlast)
  moreover have "''..'' \<notin> set (components (p @ ''.pacnew''))"
    using assms(2) ne by (auto simp: c real_way_def append_eq_Cons_conv dest: in_set_butlastD)
  ultimately show "real_way fs (components (p @ ''.pacnew''))"
    using assms(2) len unfolding real_way_def by (auto simp: c)
  show "\<not> slashed (p @ ''.pacnew'')" by (simp add: slashed_def)
  show "\<not> prefix (components (p @ ''.pacnew'')) ?cs"
  proof
    assume "prefix (components (p @ ''.pacnew'')) ?cs"
    then have "components (p @ ''.pacnew'') = ?cs" using len by (auto simp: prefix_def)
    then have "last ?cs @ ''.pacnew'' = last ?cs" using c by (metis last_snoc)
    then show False by simp
  qed
qed

lemma resolve_backup_keeps:
  assumes "named p" "\<not> slashed p" "real_way fs (components p)"
    and "look fs (components p) = Some (File c)" "look fs (components (p @ ''.pacnew'')) = Some (File x)"
    and "hash_orig \<noteq> Some (sys_md5 env c)" "resolve_backup env p (p @ ''.pacnew'') hash_orig new fs = (r, fs')"
  shows "look fs' (components p) = Some (File c) \<or> sys_md5 env x = sys_md5 env c \<and> look fs' (components p) = Some (File x)"
proof -
  let ?q = "p @ ''.pacnew''"
  note place = pacnew_place [OF assms(1,3)]
  note here = lstat_real_way [OF assms(3,2,4)] and there = lstat_real_way [OF place(2,3) assms(5)]
  have md5: "alpm_compute_md5sum env fs p = Some (sys_md5 env c)" "alpm_compute_md5sum env fs ?q = Some (sys_md5 env x)"
    using here(2) there(2) by (simp_all add: alpm_compute_md5sum_def)
  consider "sys_md5 env x = sys_md5 env c" "try_rename ?q p fs = (r, fs')" | "fs' = snd (unlink ?q fs)" | "fs' = fs"
    using assms(6,7) by (auto simp: resolve_backup_def Let_def md5 split: if_splits)
  then show ?thesis
  proof cases
    case 1
    then obtain e where e: "rename ?q p fs = (e, fs')" by (auto simp: try_rename_def split: prod.splits)
    from rename_file_result [OF e there(1)] show ?thesis
      using 1(1) assms(4) resolve_real_way [OF assms(3)] by auto
  next
    case 2
    obtain e where e: "unlink ?q fs = (e, fs')" using 2 by (metis prod.collapse)
    have "components p \<noteq> components ?q" using place(4) by auto
    then show ?thesis
      using unlink_result [OF e] there(1) assms(4) by auto
  next
    case 3
    then show ?thesis using assms(4) by simp
  qed
qed

text \<open>C3: 
  Installing or upgrading a package keeps what the user wrote into a configuration file. When a file
  of the package is there already as a regular file, and it is not to be touched, or is a configuration file
  whose content has not the hash that the old package recorded, then after extracting the entry, whatever
  fails, the file has its content, or the package's own with the same hash.\<close>

theorem user_config_kept:
  assumes "extract_single_file env h dir entry newpkg old fs = (r, newpkg', fs')" "extracts env" "llstat_is_lstat env"
    and "named (root h @ entry_path entry)" "\<not> slashed (root h @ entry_path entry)" "real_way fs (components (root h @ entry_path entry))"
    and "entry_path entry \<noteq> []" "hd (entry_path entry) \<noteq> CHR ''.''" "entry_node entry = File x"
    and "look fs (components (root h @ entry_path entry)) = Some (File c)"
    and "file_treatment env h newpkg old entry \<notin> {Replace, Need_backup (Some (sys_md5 env c))}"
  shows "look fs' (components (root h @ entry_path entry)) = Some (File c) \<or>
    sys_md5 env x = sys_md5 env c \<and> look fs' (components (root h @ entry_path entry)) = Some (File x)"
proof (cases "fs' = fs")
  case False
  let ?p = "root h @ entry_path entry" and ?t = "file_treatment env h newpkg old entry"
  let ?q = "?p @ ''.pacnew''"
  note place = pacnew_place [OF assms(4,6)]
  have "sys_llstat env fs ?p = Inr (components ?p, File c)"
    using lstat_real_way(1) [OF assms(6,5,10)] assms(3,5) by (simp add: llstat_is_lstat_def)
  then have i: "install_entry env newpkg entry ?p ?t fs = (r, newpkg', fs')"
    using assms(1,7,8) False by (auto simp: extract_single_file_def Let_def split: if_splits)
  obtain r1 en fs1 where e: "sys_extract env True entry ?q fs = ((r1, en), fs1)" by (metis prod.collapse)
  have ch: "changes_only {l. prefix (components ?q) l} fs fs1"
    and got: "r1 = ARCHIVE_OK \<or> r1 = ARCHIVE_WARN \<longrightarrow> look fs1 (components ?q) = Some (File x)"
    using assms(2,9) e place(2,3) unfolding extracts_def by blast+
  have same: "look fs1 (components ?p) = Some (File c)" using ch place(4) assms(10) by (auto simp: changes_only_def)
  have way: "real_way fs1 (components ?p)" by (rule real_way_keeps [OF assms(6) ch]) (use place(5) in simp)
  have "fs' = fs1 \<or> (\<exists>o' new. ?t = Need_backup o' \<and> (r1 = ARCHIVE_OK \<or> r1 = ARCHIVE_WARN) \<and>
      resolve_backup env ?p ?q o' new fs1 = (r, fs'))"
    using i e assms(11) False
    by (auto simp: install_entry_def perform_extraction_def Let_def split: if_splits treatment.splits prod.splits)
  then consider "fs' = fs1" | o' new where "?t = Need_backup o'" "r1 = ARCHIVE_OK \<or> r1 = ARCHIVE_WARN"
    "resolve_backup env ?p ?q o' new fs1 = (r, fs')" by blast
  then show ?thesis
  proof cases
    case 2
    from resolve_backup_keeps [OF assms(4,5) way same _ _ 2(3)] 2 got assms(11) show ?thesis by auto
  qed (use same in simp)
qed (use assms(10) in simp)

definition sample_extract :: "bool \<Rightarrow> arch_entry \<Rightarrow> string \<Rightarrow> (int \<times> bool) call" where
  "sample_extract flags e path fs =
     (case (resolve fs False path, entry_node e) of
        (Inr l, File x) \<Rightarrow>
          if l = [] \<or> look fs l = Some Dir \<or> slashed path then ((-25, False), fs) else ((0, False), fs_put l (File x) fs)
      | _ \<Rightarrow> ((-25, False), fs))"

lemma sample_extracts: "extracts (sample_env\<lparr>sys_extract := sample_extract\<rparr>)"
  using resolve_direct [OF real_way_direct]
  by (auto simp: extracts_def sample_extract_def changes_only_def split: sum.splits node.splits if_splits)

definition sample_entry :: arch_entry where
  "sample_entry = \<lparr>entry_path = ''e/c'', entry_node = File ''upstream''\<rparr>"

theorem user_config_kept_witness:
  "\<exists>r pkg fs'. extract_single_file (sample_env\<lparr>sys_extract := sample_extract\<rparr>) (handle sample_world) [] sample_entry
       sample_pkg (Some sample_pkg) sample_fs = (r, pkg, fs') \<and> look fs' [''e'', ''c''] = Some (File ''new'')"
proof -
  let ?env = "sample_env\<lparr>sys_extract := sample_extract\<rparr>"
  obtain r pkg fs' where e: "extract_single_file ?env (handle sample_world) [] sample_entry sample_pkg (Some sample_pkg) sample_fs = (r, pkg, fs')"
    by (metis prod_cases3)
  have p: "root (handle sample_world) @ entry_path sample_entry = ''/e/c''"
    by (simp add: sample_world_def sample_entry_def)
  have c: "components ''/e/c'' = [''e'', ''c'']" "named ''/e/c''" "\<not> slashed ''/e/c''"
    by (simp_all add: components_def named_def slashed_def)
  have way: "real_way sample_fs [''e'', ''c'']"
    by (auto simp: real_way_def sample_fs_def look_def less_Suc_eq numeral_eq_Suc)
  have t: "file_treatment ?env (handle sample_world) sample_pkg (Some sample_pkg) sample_entry = Need_backup (Some ''old'')"
    by (simp add: file_treatment_def sample_entry_def sample_world_def sample_env_def sample_pkg_def alpm_needbackup_def
        alpm_fnmatch_patterns_def alpm_handle_new_def)
  have "look fs' [''e'', ''c''] = Some (File ''new'') \<or>
      sys_md5 ?env ''upstream'' = sys_md5 ?env ''new'' \<and> look fs' [''e'', ''c''] = Some (File ''upstream'')"
    using user_config_kept [OF e sample_extracts, unfolded p c t, of "''upstream''" "''new''"] c way
    by (auto simp: llstat_is_lstat_def sample_env_def sample_entry_def sample_fs_def look_def)
  then show ?thesis using e by (simp add: sample_env_def)
qed

end
