(* ===== verification/AlpmCommit.thy ===== *)
theory AlpmCommit
  imports AlpmInstall
begin

text \<open>
  What committing does to the set of installed packages: the detailed steps of \<open>remove.c\<close> and \<open>add.c\<close>
  implement updates of a map from names to versions.
\<close>

section \<open>The abstract state\<close>

definition installed :: "alpm_world \<Rightarrow> dbref \<Rightarrow> string \<Rightarrow> string option option" where
  "installed w d n = map_option (\<lambda>p. version (wpkgs w p)) (cached_pkg w (Some d) n)"

text \<open>What committing keeps of a package.\<close>

definition pkg_id :: "alpm_pkg_t \<Rightarrow> string \<times> u64 \<times> string option \<times> pkgref option \<times> origin_data \<times> bool" where
  "pkg_id p = (pname p, name_hash p, version p, oldpkg p, origin_data p, scriptlet p)"

definition keeps_pkgs :: "alpm_world \<Rightarrow> alpm_world \<Rightarrow> bool" where
  "keeps_pkgs w w' \<longleftrightarrow> next_ref w \<le> next_ref w' \<and> (\<forall>p<next_ref w. pkg_id (wpkgs w' p) = pkg_id (wpkgs w p)) \<and>
     map_option tflags (trans (handle w')) = map_option tflags (trans (handle w))"

text \<open>A cache that is loaded, whose packages are in the store.\<close>

definition sound_cache :: "alpm_world \<Rightarrow> dbref \<Rightarrow> bool" where
  "sound_cache w d \<longleftrightarrow> loaded w (Some d) \<and> in_use w (cached_pkgs w (Some d))"

lemma pkg_idD:
  assumes "pkg_id p = pkg_id q"
  shows "pname p = pname q" "name_hash p = name_hash q" "version p = version q" "oldpkg p = oldpkg q"
    "origin_data p = origin_data q" "scriptlet p = scriptlet q" "hashed p = hashed q"
  using assms by (simp_all add: pkg_id_def hashed_def)

lemma keeps_pkgs_refl [simp]: "keeps_pkgs w w"
  by (simp add: keeps_pkgs_def)

lemma keeps_pkgs_trans: "keeps_pkgs w w' \<Longrightarrow> keeps_pkgs w' w'' \<Longrightarrow> keeps_pkgs w w''"
  by (fastforce simp: keeps_pkgs_def)

lemma has_flag_keeps: "keeps_pkgs w w' \<Longrightarrow> trans (handle w) \<noteq> None \<Longrightarrow> has_flag (transaction w') f = has_flag (transaction w) f"
  by (auto simp: keeps_pkgs_def has_flag_def transaction_def)

text \<open>When the cache is the same and the packages in it keep their names and versions, nothing changed.\<close>

lemma same_cache:
  assumes "sound_cache w d" "keeps_pkgs w w'" "pkgcache (wdbs w' d) = pkgcache (wdbs w d)"
    and "has_status (wdbs w' d) DB_STATUS_VALID = has_status (wdbs w d) DB_STATUS_VALID"
      "has_status (wdbs w' d) DB_STATUS_PKGCACHE = has_status (wdbs w d) DB_STATUS_PKGCACHE"
  shows "sound_cache w' d \<and> installed w' d = installed w d \<and> cached_pkgs w' (Some d) = cached_pkgs w (Some d) \<and>
    (\<forall>n. cached_pkg w' (Some d) n = cached_pkg w (Some d) n)"
proof -
  obtain h where h: "pkgcache (wdbs w d) = Some h" "pkghash_inv (wpkgs w) h"
    using assms(1) by (auto simp: sound_cache_def loaded_def)
  have list: "cached_pkgs w (Some d) = hlist h" using assms(1) h by (simp add: sound_cache_def loaded_def cached_pkgs_def)
  have id: "pkg_id (wpkgs w' p) = pkg_id (wpkgs w p)" if "p \<in> set (hlist h)" for p
    using assms(1,2) that list by (auto simp: sound_cache_def in_use_def keeps_pkgs_def)
  have inv: "pkghash_inv (wpkgs w') h" "contents (wpkgs w') h = contents (wpkgs w) h"
    using pkghash_inv_same [OF _ h(2), of "wpkgs w'"] pkg_idD(1,2) [OF id] by auto
  have "\<forall>p\<in>set (hlist h). p < next_ref w" "next_ref w \<le> next_ref w'"
    using assms(1,2) list by (simp_all add: sound_cache_def in_use_def keeps_pkgs_def)
  then have use: "in_use w' (hlist h)" unfolding in_use_def by (meson order_less_le_trans)
  have ld: "loaded w' (Some d)" using assms(1,3-5) h(1) inv(1) by (simp add: sound_cache_def loaded_def)
  have pkgs: "cached_pkgs w' (Some d) = hlist h" using assms(1,3,4) h by (simp add: sound_cache_def loaded_def cached_pkgs_def)
  have find: "cached_pkg w' (Some d) n = cached_pkg w (Some d) n" for n
    using assms(1,3,4) h inv by (simp add: cached_pkg_def sound_cache_def loaded_def find_contents)
  have "installed w' d = installed w d"
  proof
    fix n
    have "version (wpkgs w' p) = version (wpkgs w p)" if "cached_pkg w (Some d) n = Some p" for p
    proof -
      have "p \<in> set (hlist h)" using that cached_pkg_Some [of w "Some d" n p] assms(1) list by (simp add: sound_cache_def)
      from pkg_idD(3) [OF id [OF this]] show ?thesis .
    qed
    then show "installed w' d n = installed w d n" by (cases "cached_pkg w (Some d) n") (simp_all add: installed_def find)
  qed
  moreover have "sound_cache w' d" unfolding sound_cache_def pkgs using ld use by blast
  moreover have "cached_pkgs w' (Some d) = cached_pkgs w (Some d)" unfolding pkgs list ..
  ultimately show ?thesis using find by blast
qed

lemma db_path_same:
  assumes "alpm_db_path w d = (dir, w')"
  shows "keeps_pkgs w w'" "handle w' = handle w" "wpkgs w' = wpkgs w" "next_ref w' = next_ref w" "pkgcache (wdbs w' d) = pkgcache (wdbs w d)"
    "status (wdbs w' d) = status (wdbs w d)"
  using assms by (auto simp: alpm_db_path_def upd_db_def keeps_pkgs_def Let_def split: option.splits)

section \<open>Removing\<close>

lemma remove_entry_spec:
  assumes "sound_cache w d" "hashed (wpkgs w p)"
  obtains w' fs' where "remove_entry w d p fs = Some (w', fs')" "sound_cache w' d" "keeps_pkgs w w'" "wpkgs w' = wpkgs w"
    "installed w' d = (installed w d)(pname (wpkgs w p) := None)"
    "\<forall>n. cached_pkg w' (Some d) n = (if n = pname (wpkgs w p) then None else cached_pkg w (Some d) n)"
    "length (cached_pkgs w' (Some d)) \<le> length (cached_pkgs w (Some d))"
    "handle w' = handle w" "next_ref w' = next_ref w"
proof -
  obtain dir w1 where w1: "alpm_db_path w d = (dir, w1)" by fastforce
  note same = db_path_same [OF w1]
  have c1: "sound_cache w1 d \<and> installed w1 d = installed w d \<and> cached_pkgs w1 (Some d) = cached_pkgs w (Some d) \<and>
      (\<forall>n. cached_pkg w1 (Some d) n = cached_pkg w (Some d) n)"
    by (rule same_cache [OF assms(1) same(1)]) (simp_all add: same has_status_def)
  obtain h where h: "pkgcache (wdbs w1 d) = Some h" "pkghash_inv (wpkgs w1) h"
    "has_status (wdbs w1 d) DB_STATUS_VALID" "has_status (wdbs w1 d) DB_STATUS_PKGCACHE"
    using c1 by (auto simp: sound_cache_def loaded_def)
  obtain h' where h': "alpm_pkghash_remove (wpkgs w1) h p = Some (h', contents (wpkgs w1) h (pname (wpkgs w p)))" "pkghash_inv (wpkgs w1) h'"
    "hlist h' = (case contents (wpkgs w1) h (pname (wpkgs w p)) of None \<Rightarrow> hlist h | Some q \<Rightarrow> remove1 q (hlist h))"
    "contents (wpkgs w1) h' = (contents (wpkgs w1) h)(pname (wpkgs w p) := None)"
    using remove_spec [OF h(2), of p] assms(2) same(3) by auto
  obtain r fs1 where l: "local_db_remove dir (wpkgs w1 p) fs = (r, fs1)" by fastforce
  obtain b w2 where w2: "alpm_db_remove_pkgfromcache w1 (Some d) (Some p) = Some (b, w2)"
    "w2 = upd_db d (\<lambda>db. db\<lparr>pkgcache := Some h'\<rparr>) w1 \<or>
     w2 = upd_db d free_groupcache (upd_db d (\<lambda>db. db\<lparr>pkgcache := Some h'\<rparr>) w1)"
    using h h'(1) same(3) by (cases "contents (wpkgs w1) h (pname (wpkgs w p))") (auto simp: alpm_db_remove_pkgfromcache_def Let_def)
  have f: "pkgcache (wdbs w2 d) = Some h'" "has_status (wdbs w2 d) DB_STATUS_VALID" "has_status (wdbs w2 d) DB_STATUS_PKGCACHE"
    "wpkgs w2 = wpkgs w1" "next_ref w2 = next_ref w1" "handle w2 = handle w1"
    using w2(2) h(3,4) by (auto simp: upd_db_def)
  have pk: "cached_pkgs w2 (Some d) = hlist h'" "cached_pkgs w1 (Some d) = hlist h"
    using f h by (simp_all add: cached_pkgs_def)
  have sub: "set (hlist h') \<subseteq> set (hlist h)" "length (hlist h') \<le> length (hlist h)"
    using h'(3) set_remove1_subset [of _ "hlist h"] by (auto split: option.splits simp: length_remove1)
  have find: "cached_pkg w2 (Some d) n = (if n = pname (wpkgs w p) then None else cached_pkg w1 (Some d) n)" for n
    using f h h' by (simp add: cached_pkg_def find_contents)
  have "sound_cache w2 d"
    using c1 f h'(2) sub(1) pk by (auto simp: sound_cache_def loaded_def in_use_def)
  moreover have "keeps_pkgs w w2" using same(1-4) f by (simp add: keeps_pkgs_def)
  moreover have "installed w2 d = (installed w d)(pname (wpkgs w p) := None)"
    using find c1 f(4) same(3) by (auto simp: installed_def)
  moreover have "remove_entry w d p fs = Some (w2, fs1)" using w1 l w2(1) by (simp add: remove_entry_def)
  ultimately show ?thesis using that [of w2 fs1] f same find c1 pk sub(2) by simp
qed

text \<open>Neither the files of a package nor its scriptlets touch the cache.\<close>

lemma remove_files_keeps:
  assumes "remove_package_files env w old newpkg fs = Some (r, w', fs')"
  shows "w' = w \<or> w' = set_errno ALPM_ERR_PKG_CANT_REMOVE w"
  using assms by (auto simp: remove_package_files_def split: if_splits)

lemma set_errno_keeps:
  "keeps_pkgs w (set_errno e w)" "wdbs (set_errno e w) = wdbs w" "wpkgs (set_errno e w) = wpkgs w" "next_ref (set_errno e w) = next_ref w"
  "transaction (set_errno e w) = transaction w" "trans (handle (set_errno e w)) = trans (handle w)"
  by (simp_all add: keeps_pkgs_def set_errno_def transaction_def)

lemma local_scriptlet_keeps:
  assumes "run_local_scriptlet env w d pkg script ver oldver fs = Some (w', fs')"
  shows "w' = w \<or> w' = snd (alpm_db_path w d)"
  using assms by (auto simp: run_local_scriptlet_def split: if_splits prod.splits)

lemma cache_kept:
  assumes "sound_cache w d" "w' = w \<or> w' = set_errno e w \<or> w' = snd (alpm_db_path w d)"
  shows "sound_cache w' d \<and> keeps_pkgs w w' \<and> installed w' d = installed w d \<and> cached_pkgs w' (Some d) = cached_pkgs w (Some d) \<and>
    (\<forall>n. cached_pkg w' (Some d) n = cached_pkg w (Some d) n) \<and> wpkgs w' = wpkgs w \<and> next_ref w' = next_ref w \<and>
    transaction w' = transaction w \<and> trans (handle w') = trans (handle w)"
proof -
  have "keeps_pkgs w w' \<and> wpkgs w' = wpkgs w \<and> next_ref w' = next_ref w \<and> pkgcache (wdbs w' d) = pkgcache (wdbs w d) \<and>
      status (wdbs w' d) = status (wdbs w d) \<and> transaction w' = transaction w \<and> trans (handle w') = trans (handle w)"
    using assms(2) set_errno_keeps [where w = w and e = e] db_path_same [of w d "fst (alpm_db_path w d)" "snd (alpm_db_path w d)"]
    by (auto simp: transaction_def)
  then show ?thesis using same_cache [OF assms(1), of w'] by (simp add: has_status_def)
qed

text \<open>What an operation needs of the packages it removes, for it to return: no scriptlet, and a hash for every backup entry.\<close>

definition quiet :: "alpm_world \<Rightarrow> alpm_pkg_t \<Rightarrow> bool" where
  "quiet w pkg \<longleftrightarrow> scriptlet pkg \<longrightarrow> has_flag (transaction w) ALPM_TRANS_FLAG_NOSCRIPTLET"

definition backups_hashed :: "alpm_pkg_t \<Rightarrow> bool" where
  "backups_hashed pkg \<longleftrightarrow> (\<forall>b\<in>set (backup pkg). bhash b \<noteq> None)"

lemma needbackup_in: "needbackup_loop f bs = Some b \<Longrightarrow> b \<in> set bs"
  by (induction bs) (auto split: if_splits)

lemma unlink_file_returns:
  assumes "backups_hashed old"
  shows "unlink_file env w old newpkg f nosave fs \<noteq> None"
proof -
  have m: "was_modified env fs p b \<noteq> None" if "alpm_needbackup (Some (fname f)) (Some old) = Some b" for p b
    using that needbackup_in [of "fname f" "backup old" b] assms
    by (auto simp: was_modified_def backups_hashed_def alpm_needbackup_def split: option.splits)
  define p where "p = (if slashed (root (handle w) @ fname f) then butlast (root (handle w) @ fname f) else root (handle w) @ fname f)"
  show ?thesis
    using m [of _ p] unfolding unlink_file_def Let_def p_def [symmetric]
    by (cases "sys_llstat env fs p") (auto split: option.splits bool.splits)
qed

lemma unlink_loop_returns: "backups_hashed old \<Longrightarrow> \<exists>r fs'. unlink_loop env w old newpkg nosave fl err fs = Some (r, fs')"
proof (induction fl arbitrary: err fs)
  case (Cons f fl)
  then show ?case using unlink_file_returns [of old env w newpkg f nosave fs] by (auto split: option.splits)
qed simp

lemma remove_single_spec:
  assumes "sound_cache w d" "hashed (wpkgs w p)" "backups_hashed (wpkgs w p)" "newpkg = None \<Longrightarrow> quiet w (wpkgs w p)"
  obtains w' fs' where "alpm_remove_single_package env w d p newpkg fs = Some (0, w', fs')" "sound_cache w' d" "keeps_pkgs w w'"
    "wpkgs w' = wpkgs w" "installed w' d = (installed w d)(pname (wpkgs w p) := None)"
    "\<forall>n. cached_pkg w' (Some d) n = (if n = pname (wpkgs w p) then None else cached_pkg w (Some d) n)"
    "length (cached_pkgs w' (Some d)) \<le> length (cached_pkgs w (Some d))" "next_ref w' = next_ref w"
    "transaction w' = transaction w" "trans (handle w') = trans (handle w)"
proof -
  have script: "(if newpkg = None then run_local_scriptlet env v d (wpkgs w p) name ver None fs else Some (v, fs)) = Some (v, fs)"
    if "transaction v = transaction w" for name ver v fs
    using assms(4) that by (auto simp: run_local_scriptlet_def quiet_def)
  obtain r w1 fs1 where w1: "(if has_flag (transaction w) ALPM_TRANS_FLAG_DBONLY then Some (0, w, fs)
      else remove_package_files env w (wpkgs w p) (map_option (wpkgs w) newpkg) fs) = Some (r, w1, fs1)"
    "w1 = w \<or> w1 = set_errno ALPM_ERR_PKG_CANT_REMOVE w"
  proof -
    have "\<exists>r w1 fs1. remove_package_files env w (wpkgs w p) (map_option (wpkgs w) newpkg) fs = Some (r, w1, fs1)"
      using unlink_loop_returns [OF assms(3), of env w "map_option (wpkgs w) newpkg" _ "rev (files (wpkgs w p))" 0 fs]
      by (fastforce simp: remove_package_files_def)
    then show ?thesis using that remove_files_keeps by (cases "has_flag (transaction w) ALPM_TRANS_FLAG_DBONLY") fastforce+
  qed
  have c1: "sound_cache w1 d \<and> keeps_pkgs w w1 \<and> installed w1 d = installed w d \<and> cached_pkgs w1 (Some d) = cached_pkgs w (Some d) \<and>
    (\<forall>n. cached_pkg w1 (Some d) n = cached_pkg w (Some d) n) \<and> wpkgs w1 = wpkgs w \<and> next_ref w1 = next_ref w \<and>
    transaction w1 = transaction w \<and> trans (handle w1) = trans (handle w)"
    using cache_kept [OF assms(1), of w1] w1(2) by blast
  obtain w2 fs2 where w2: "remove_entry w1 d p fs1 = Some (w2, fs2)" "sound_cache w2 d" "keeps_pkgs w1 w2" "wpkgs w2 = wpkgs w1"
    "installed w2 d = (installed w1 d)(pname (wpkgs w1 p) := None)"
    "\<forall>n. cached_pkg w2 (Some d) n = (if n = pname (wpkgs w1 p) then None else cached_pkg w1 (Some d) n)"
    "length (cached_pkgs w2 (Some d)) \<le> length (cached_pkgs w1 (Some d))" "handle w2 = handle w1" "next_ref w2 = next_ref w1"
    using remove_entry_spec [of w1 d p fs1] c1 assms(2) by auto
  have "alpm_remove_single_package env w d p newpkg fs = Some (0, w2, fs2)"
    using w1(1) w2(1) script c1 by (simp add: alpm_remove_single_package_def Let_def)
  moreover have "transaction w2 = transaction w" "trans (handle w2) = trans (handle w)"
    using w2(8) c1 by (simp_all add: transaction_def)
  moreover have "keeps_pkgs w w2" using c1 w2(3) keeps_pkgs_trans by blast
  ultimately show ?thesis using that w2(2,4-7,9) c1 by simp
qed

lemma interrupt_keeps:
  assumes "sound_cache w d" "trans (handle w) \<noteq> None"
  shows "sound_cache (snd (alpm_trans_interrupt w)) d \<and> keeps_pkgs w (snd (alpm_trans_interrupt w)) \<and>
    installed (snd (alpm_trans_interrupt w)) d = installed w d \<and>
    cached_pkgs (snd (alpm_trans_interrupt w)) (Some d) = cached_pkgs w (Some d) \<and>
    (\<forall>n. cached_pkg (snd (alpm_trans_interrupt w)) (Some d) n = cached_pkg w (Some d) n) \<and>
    wpkgs (snd (alpm_trans_interrupt w)) = wpkgs w \<and> next_ref (snd (alpm_trans_interrupt w)) = next_ref w \<and>
    trans (handle (snd (alpm_trans_interrupt w))) \<noteq> None"
proof -
  let ?w = "snd (alpm_trans_interrupt w)"
  have k: "keeps_pkgs w ?w" "wdbs ?w = wdbs w" "wpkgs ?w = wpkgs w" "next_ref ?w = next_ref w" "trans (handle ?w) \<noteq> None"
    using assms(2) by (auto simp: alpm_trans_interrupt_def Let_def set_errno_def keeps_pkgs_def upd_trans_def)
  then show ?thesis using same_cache [OF assms(1) k(1)] by simp
qed

lemma quiet_keeps: "keeps_pkgs w w' \<Longrightarrow> trans (handle w) \<noteq> None \<Longrightarrow> quiet w' pkg = quiet w pkg"
  by (simp add: quiet_def has_flag_keeps)

definition removes_names :: "(string \<Rightarrow> string option option) \<Rightarrow> string list \<Rightarrow> string \<Rightarrow> string option option" where
  "removes_names m ns = (\<lambda>n. if n \<in> set ns then None else m n)"

lemma remove_loop_spec:
  assumes "sound_cache w d" "trans (handle w) \<noteq> None"
    and "\<forall>p\<in>set ps. hashed (wpkgs w p) \<and> backups_hashed (wpkgs w p) \<and> quiet w (wpkgs w p)"
  shows "\<exists>done k w' fs'. remove_packages_loop env interrupted d ps w fs = Some (done, w', fs') \<and> sound_cache w' d \<and>
    keeps_pkgs w w' \<and> installed w' d = removes_names (installed w d) (map (\<lambda>p. pname (wpkgs w p)) (take k ps)) \<and>
    ((\<forall>k. \<not> interrupted k) \<and> tstate (transaction w) \<noteq> STATE_INTERRUPTED \<longrightarrow> k = length ps)"
  using assms
proof (induction ps arbitrary: w fs)
  case Nil
  then show ?case by (auto simp: removes_names_def)
next
  case (Cons p ps)
  define w1 where "w1 = (if interrupted (length ps) then snd (alpm_trans_interrupt w) else w)"
  have c1: "sound_cache w1 d \<and> keeps_pkgs w w1 \<and> installed w1 d = installed w d \<and> wpkgs w1 = wpkgs w \<and> trans (handle w1) \<noteq> None"
    using interrupt_keeps [OF Cons.prems(1,2)] Cons.prems(1,2) by (auto simp: w1_def)
  show ?case
  proof (cases "tstate (transaction w1) = STATE_INTERRUPTED")
    case True
    then have "remove_packages_loop env interrupted d (p # ps) w fs = Some (False, w1, fs)" by (simp add: w1_def Let_def)
    moreover have "installed w1 d = removes_names (installed w d) (map (\<lambda>p. pname (wpkgs w p)) (take 0 (p # ps)))"
      using c1 by (simp add: removes_names_def)
    moreover have "\<not> ((\<forall>k. \<not> interrupted k) \<and> tstate (transaction w) \<noteq> STATE_INTERRUPTED)" using True by (auto simp: w1_def split: if_splits)
    ultimately show ?thesis using c1 by blast
  next
    case False
    have q: "quiet w1 pkg = quiet w pkg" for pkg using quiet_keeps c1 Cons.prems(2) by blast
    have pre: "sound_cache w1 d" "hashed (wpkgs w1 p)" "backups_hashed (wpkgs w1 p)" "quiet w1 (wpkgs w1 p)"
      using c1 Cons.prems(3) q by simp_all
    obtain w2 fs2 where w2: "alpm_remove_single_package env w1 d p None fs = Some (0, w2, fs2)" "sound_cache w2 d" "keeps_pkgs w1 w2"
      "wpkgs w2 = wpkgs w1" "installed w2 d = (installed w1 d)(pname (wpkgs w1 p) := None)"
      "\<forall>n. cached_pkg w2 (Some d) n = (if n = pname (wpkgs w1 p) then None else cached_pkg w1 (Some d) n)"
      "length (cached_pkgs w2 (Some d)) \<le> length (cached_pkgs w1 (Some d))" "next_ref w2 = next_ref w1"
      "transaction w2 = transaction w1" "trans (handle w2) = trans (handle w1)"
      by (rule remove_single_spec [OF pre])
    have q2: "quiet w2 pkg = quiet w pkg" for pkg using q quiet_keeps [OF w2(3)] c1 by simp
    have "trans (handle w2) \<noteq> None" "\<forall>p\<in>set ps. hashed (wpkgs w2 p) \<and> backups_hashed (wpkgs w2 p) \<and> quiet w2 (wpkgs w2 p)"
      using w2(4,10) c1 Cons.prems(3) q2 by simp_all
    from Cons.IH [OF w2(2) this] obtain b k w3 fs3 where w3: "remove_packages_loop env interrupted d ps w2 fs2 = Some (b, w3, fs3)" "sound_cache w3 d" "keeps_pkgs w2 w3"
      "installed w3 d = removes_names (installed w2 d) (map (\<lambda>p. pname (wpkgs w2 p)) (take k ps))"
      "(\<forall>k. \<not> interrupted k) \<and> tstate (transaction w2) \<noteq> STATE_INTERRUPTED \<longrightarrow> k = length ps" by blast
    have "remove_packages_loop env interrupted d (p # ps) w fs = Some (b, w3, fs3)"
      using False w2(1) w3(1) by (simp add: w1_def [symmetric] Let_def)
    moreover have "installed w3 d = removes_names (installed w d) (map (\<lambda>p. pname (wpkgs w p)) (take (Suc k) (p # ps)))"
      using w3(4) w2(4,5) c1 by (auto simp: removes_names_def fun_eq_iff)
    moreover have "keeps_pkgs w w3" using c1 w2(3) w3(3) keeps_pkgs_trans by blast
    moreover have "(\<forall>k. \<not> interrupted k) \<and> tstate (transaction w) \<noteq> STATE_INTERRUPTED \<longrightarrow> Suc k = length (p # ps)"
      using w3(5) w2(9) by (auto simp: w1_def)
    ultimately show ?thesis using w3(2) by blast
  qed
qed

section \<open>Adding to the cache\<close>

lemma set_contents: "pkghash_inv ps h \<Longrightarrow> p \<in> set (hlist h) \<longleftrightarrow> contents ps h (pname (ps p)) = Some p"
  by (simp add: contents_Some)

lemma add_cache_spec:
  assumes "sound_cache w d" "hashed (wpkgs w p)" "cached_pkg w (Some d) (pname (wpkgs w p)) = None" "\<not> force_load (wpkgs w p)"
    and "length (cached_pkgs w (Some d)) < 414054"
  obtains w' where "alpm_db_add_pkgincache force_load w (Some d) (Some p) = Some (0, w')" "sound_cache w' d" "keeps_pkgs w w'"
    "installed w' d = (installed w d)(pname (wpkgs w p) \<mapsto> version (wpkgs w p))"
    "\<forall>n. n \<noteq> pname (wpkgs w p) \<longrightarrow> cached_pkg w' (Some d) n = cached_pkg w (Some d) n"
    "length (cached_pkgs w' (Some d)) \<le> length (cached_pkgs w (Some d)) + 1"
    "\<forall>q<next_ref w. wpkgs w' q = wpkgs w q" "handle w' = handle w"
proof -
  obtain h where h: "pkgcache (wdbs w d) = Some h" "pkghash_inv (wpkgs w) h" "has_status (wdbs w d) DB_STATUS_PKGCACHE"
    "has_status (wdbs w d) DB_STATUS_VALID" using assms(1) by (auto simp: sound_cache_def loaded_def)
  have list: "cached_pkgs w (Some d) = hlist h" using h by (simp add: cached_pkgs_def)
  have use: "q < next_ref w" if "q \<in> set (hlist h)" for q using assms(1) list that by (simp add: sound_cache_def in_use_def)
  have find: "cached_pkg w (Some d) n = contents (wpkgs w) h n" for n using h by (simp add: cached_pkg_def find_contents)
  define n where "n = next_ref w"
  obtain c where c: "alpm_pkg_dup force_load (wpkgs w p) = (0, c)" using assms(4) pkg_dup_name(3) by (metis prod.collapse)
  define new where "new = c
    \<lparr>origin := (if has_status (wdbs w d) DB_STATUS_LOCAL then ALPM_PKG_FROM_LOCALDB else ALPM_PKG_FROM_SYNCDB), origin_data := Origin_db d\<rparr>"
  have new: "pname new = pname (wpkgs w p)" "name_hash new = name_hash (wpkgs w p)" "version new = version (wpkgs w p)"
    using c by (auto simp: new_def alpm_pkg_dup_def Let_def)
  define ps' where "ps' = (wpkgs w)(n := new)"
  have same: "\<forall>q\<in>set (hlist h). ps' q = wpkgs w q" using use by (auto simp: ps'_def n_def)
  note inv' = pkghash_inv_cong [OF same h(2)]
  have fresh: "\<forall>q\<in>set (hlist h). pname (ps' q) \<noteq> pname (ps' n)"
    using assms(3) same new(1) by (auto simp: find contents_None ps'_def)
  obtain h' where h': "alpm_pkghash_add_sorted ps' h n = Some (True, h')" "pkghash_inv ps' h'" "contents ps' h' = (contents ps' h)(pname (ps' n) \<mapsto> n)"
  proof -
    have "hashed (ps' n)" "entries h < 414054"
      using assms(2,5) new h(2) list by (simp_all add: ps'_def hashed_def pkghash_inv_def)
    from add_total [OF inv'(1) this(1) fresh this(2)] show ?thesis using that by blast
  qed
  define w' where "w' = upd_db d (\<lambda>db. free_groupcache (db\<lparr>pkgcache := Some h'\<rparr>)) (w\<lparr>wpkgs := ps', next_ref := n + 1\<rparr>)"
  have add: "alpm_db_add_pkgincache force_load w (Some d) (Some p) = Some (0, w')"
    using h h'(1) c by (simp add: alpm_db_add_pkgincache_def Let_def w'_def ps'_def new_def n_def)
  have w': "pkgcache (wdbs w' d) = Some h'" "has_status (wdbs w' d) DB_STATUS_VALID" "has_status (wdbs w' d) DB_STATUS_PKGCACHE"
    "wpkgs w' = ps'" "next_ref w' = n + 1" "handle w' = handle w"
    using h(3,4) by (auto simp: w'_def upd_db_def)
  have sub: "set (hlist h') \<subseteq> insert n (set (hlist h))"
  proof
    fix q assume "q \<in> set (hlist h')"
    then have "contents ps' h' (pname (ps' q)) = Some q" using set_contents [OF h'(2)] by blast
    then have "q = n \<or> contents ps' h (pname (ps' q)) = Some q" unfolding h'(3) by (auto split: if_splits)
    then show "q \<in> insert n (set (hlist h))" using set_contents [OF inv'(1)] by blast
  qed
  have list': "cached_pkgs w' (Some d) = hlist h'" using w' by (simp add: cached_pkgs_def)
  have find': "cached_pkg w' (Some d) m = (if m = pname (wpkgs w p) then Some n else cached_pkg w (Some d) m)" for m
  proof -
    have "ps' n = new" by (simp add: ps'_def)
    then have "contents ps' h' = (contents (wpkgs w) h)(pname (wpkgs w p) \<mapsto> n)" using h'(3) inv'(2) new(1) by metis
    moreover have "cached_pkg w' (Some d) m = contents ps' h' m"
      by (simp add: cached_pkg_def w'(1,2,4) find_contents [OF h'(2)])
    ultimately show ?thesis by (simp add: find)
  qed
  have snd: "sound_cache w' d"
  proof -
    have "q < next_ref w'" if "q \<in> set (hlist h')" for q
    proof (cases "q = n")
      case False
      then have "q < next_ref w" using that sub use by blast
      then show ?thesis using w'(5) by (simp add: n_def)
    qed (simp add: w'(5))
    then show ?thesis using w' h'(2) list' by (simp add: sound_cache_def loaded_def in_use_def)
  qed
  have keep: "\<forall>q<next_ref w. wpkgs w' q = wpkgs w q" using w' by (simp add: ps'_def n_def)
  then have kp: "keeps_pkgs w w'" using w' by (simp add: keeps_pkgs_def n_def)
  have len: "length (cached_pkgs w' (Some d)) \<le> length (cached_pkgs w (Some d)) + 1"
  proof -
    have "distinct (hlist h')" "distinct (hlist h)" using h'(2) h(2) by (auto simp: pkghash_inv_def distinct_map)
    then have "length (hlist h') = card (set (hlist h'))" "length (hlist h) = card (set (hlist h))" by (simp_all add: distinct_card)
    moreover have "card (set (hlist h')) \<le> card (insert n (set (hlist h)))" by (rule card_mono) (use sub in auto)
    ultimately show ?thesis unfolding list list' by (simp add: card_insert_if split: if_splits)
  qed
  have inst: "installed w' d = (installed w d)(pname (wpkgs w p) \<mapsto> version (wpkgs w p))"
  proof
    fix m
    have "wpkgs w' q = wpkgs w q" if "cached_pkg w (Some d) m = Some q" for q
      using that keep use contents_Some [OF h(2)] by (auto simp: find)
    then show "installed w' d m = ((installed w d)(pname (wpkgs w p) \<mapsto> version (wpkgs w p))) m"
      using new(3) w'(4) by (cases "cached_pkg w (Some d) m") (auto simp: installed_def find' ps'_def)
  qed
  show ?thesis by (rule that [OF add snd kp inst _ len keep w'(6)]) (simp add: find')
qed

section \<open>Installing\<close>

text \<open>What an installation needs of a target, for it to return and be recorded.\<close>

definition committable :: "alpm_world \<Rightarrow> dbref \<Rightarrow> pkgref \<Rightarrow> bool" where
  "committable w d p \<longleftrightarrow>
     p < next_ref w \<and> hashed (wpkgs w p) \<and> (\<exists>f. origin_data (wpkgs w p) = Origin_file f) \<and> quiet w (wpkgs w p) \<and>
     (cached_pkg w (Some d) (pname (wpkgs w p)) \<noteq> None \<longrightarrow>
        (\<exists>q<next_ref w. oldpkg (wpkgs w p) = Some q \<and> q \<noteq> p \<and> pname (wpkgs w q) = pname (wpkgs w p) \<and> hashed (wpkgs w q) \<and>
           backups_hashed (wpkgs w q)))"

text \<open>A step that is about the package \<open>p\<close>: the other packages, names and the transaction stay.\<close>

definition about :: "pkgref \<Rightarrow> string \<Rightarrow> dbref \<Rightarrow> alpm_world \<Rightarrow> alpm_world \<Rightarrow> bool" where
  "about p n d w w' \<longleftrightarrow>
     sound_cache w' d \<and> keeps_pkgs w w' \<and> (\<forall>q<next_ref w. q \<noteq> p \<longrightarrow> wpkgs w' q = wpkgs w q) \<and>
     transaction w' = transaction w \<and> trans (handle w') = trans (handle w) \<and>
     (\<forall>m. m \<noteq> n \<longrightarrow> cached_pkg w' (Some d) m = cached_pkg w (Some d) m \<and> installed w' d m = installed w d m)"

lemma about_trans: "about p n d w w' \<Longrightarrow> about p n d w' w'' \<Longrightarrow> about p n d w w''"
  unfolding about_def using keeps_pkgs_trans keeps_pkgs_def order_less_le_trans by (metis (no_types, lifting))

lemma upd_about:
  assumes "sound_cache w d" "pkg_id (f (wpkgs w p)) = pkg_id (wpkgs w p)"
  shows "about p n d w (upd_pkg p f w) \<and> installed (upd_pkg p f w) d = installed w d \<and>
    (\<forall>m. cached_pkg (upd_pkg p f w) (Some d) m = cached_pkg w (Some d) m) \<and> cached_pkgs (upd_pkg p f w) (Some d) = cached_pkgs w (Some d)"
proof -
  have k: "keeps_pkgs w (upd_pkg p f w)" using assms(2) by (simp add: keeps_pkgs_def)
  show ?thesis using same_cache [OF assms(1) k] k by (simp add: about_def)
qed

lemma kept_about:
  assumes "sound_cache w d" "w' = w \<or> w' = set_errno e w \<or> w' = snd (alpm_db_path w d)"
  shows "about p n d w w' \<and> installed w' d = installed w d \<and> (\<forall>m. cached_pkg w' (Some d) m = cached_pkg w (Some d) m) \<and>
    cached_pkgs w' (Some d) = cached_pkgs w (Some d) \<and> wpkgs w' = wpkgs w"
  using cache_kept [OF assms] by (simp add: about_def)

text \<open>Extracting changes nothing of a package but the hashes of its backup entries.\<close>

lemma install_entry_id: "install_entry env newpkg e path t fs = (r, newpkg', fs') \<Longrightarrow> pkg_id newpkg' = pkg_id newpkg"
  by (auto simp: install_entry_def Let_def pkg_id_def split: if_splits prod.splits treatment.splits)

lemma extract_single_id: "extract_single_file env h dir e newpkg old fs = (r, newpkg', fs') \<Longrightarrow> pkg_id newpkg' = pkg_id newpkg"
  by (auto simp: extract_single_file_def Let_def dest: install_entry_id split: if_splits prod.splits sum.splits)

lemma extract_loop_id: "extract_loop env h dir dbonly old es errors newpkg fs = (r, newpkg', fs') \<Longrightarrow> pkg_id newpkg' = pkg_id newpkg"
proof (induction es arbitrary: errors newpkg fs)
  case (Cons e es)
  obtain r1 pkg1 fs1 where e: "(if \<not> dbonly then extract_single_file env h dir e newpkg old fs
            else if entry_path e \<noteq> [] \<and> hd (entry_path e) = CHR ''.''
            then (let (r, fs) = extract_db_file env dir e newpkg (entry_path e) fs in (r, newpkg, fs))
            else (0, newpkg, fs)) = (r1, pkg1, fs1)" by (metis prod_cases3)
  then have "pkg_id pkg1 = pkg_id newpkg" by (auto dest: extract_single_id split: if_splits prod.splits)
  moreover have "extract_loop env h dir dbonly old es (errors + r1) pkg1 fs1 = (r, newpkg', fs')" using Cons.prems e by simp
  ultimately show ?case using Cons.IH by metis
qed simp

lemma record_package_spec:
  assumes "sound_cache w d" "hashed (wpkgs w p)" "quiet w (wpkgs w p)" "cached_pkg w (Some d) (pname (wpkgs w p)) = None"
    and "\<forall>x. \<not> force_load x" "length (cached_pkgs w (Some d)) < 414054" "p < next_ref w"
  obtains r w' fs' where "record_package env force_load w d dir p oldver up ret fs = Some (r, w', fs')"
    "about p (pname (wpkgs w p)) d w w'" "length (cached_pkgs w' (Some d)) \<le> length (cached_pkgs w (Some d)) + 1"
    "r = 0 \<Longrightarrow> installed w' d (pname (wpkgs w p)) = Some (version (wpkgs w p))"
proof -
  let ?n = "pname (wpkgs w p)"
  define w1 where "w1 = upd_pkg p (\<lambda>pkg. pkg\<lparr>installdate := sys_time env\<rparr>) w"
  have id: "pkg_id ((wpkgs w p)\<lparr>installdate := sys_time env\<rparr>) = pkg_id (wpkgs w p)" by (simp add: pkg_id_def)
  note u = upd_about [OF assms(1), of "\<lambda>pkg. pkg\<lparr>installdate := sys_time env\<rparr>" p ?n, OF id, folded w1_def]
  have p1: "pname (wpkgs w1 p) = ?n" "version (wpkgs w1 p) = version (wpkgs w p)" "hashed (wpkgs w1 p)" "scriptlet (wpkgs w1 p) = scriptlet (wpkgs w p)"
    using assms(2) by (simp_all add: w1_def hashed_def)
  have t1: "transaction w1 = transaction w" "trans (handle w1) = trans (handle w)" by (simp_all add: w1_def)
  obtain e fs1 where l: "local_db_write dir (has_status (wdbs w1 d) DB_STATUS_LOCAL) (wpkgs w1 p) INFRQ_ALL fs = (e, fs1)" by fastforce
  show ?thesis
  proof (cases "e = 0")
    case False
    then have "record_package env force_load w d dir p oldver up ret fs = Some (-1, set_errno ALPM_ERR_DB_WRITE w1, fs1)"
      using l by (simp add: record_package_def w1_def [symmetric])
    moreover note k = kept_about [of w1 d "set_errno ALPM_ERR_DB_WRITE w1" ALPM_ERR_DB_WRITE p ?n]
    ultimately show ?thesis
      using that u k about_trans [of p ?n d w w1] by (auto simp: about_def [of p ?n d w w1])
  next
    case True
    have "sound_cache w1 d" "cached_pkg w1 (Some d) (pname (wpkgs w1 p)) = None" "\<not> force_load (wpkgs w1 p)"
      "length (cached_pkgs w1 (Some d)) < 414054" using u p1 assms(4-6) by (simp_all add: about_def)
    then obtain w2 where w2: "alpm_db_add_pkgincache force_load w1 (Some d) (Some p) = Some (0, w2)" "sound_cache w2 d" "keeps_pkgs w1 w2"
      "installed w2 d = (installed w1 d)(pname (wpkgs w1 p) \<mapsto> version (wpkgs w1 p))"
      "\<forall>n. n \<noteq> pname (wpkgs w1 p) \<longrightarrow> cached_pkg w2 (Some d) n = cached_pkg w1 (Some d) n"
      "length (cached_pkgs w2 (Some d)) \<le> length (cached_pkgs w1 (Some d)) + 1"
      "\<forall>q<next_ref w1. wpkgs w2 q = wpkgs w1 q" "handle w2 = handle w1"
      using add_cache_spec [of w1 d p force_load] p1(3) by metis
    have t2: "transaction w2 = transaction w1" using w2(8) by (simp add: transaction_def)
    have a2: "about p ?n d w1 w2"
      using w2 t2 p1(1) by (simp add: about_def)
    have "wpkgs w2 p = wpkgs w1 p" using w2(7) assms(7) by (simp add: w1_def)
    then have "run_local_scriptlet env w2 d (wpkgs w2 p) name v o' fs1 = Some (w2, fs1)" for name v o'
      using p1(4) assms(3) t1 t2 by (auto simp: run_local_scriptlet_def quiet_def)
    then have "record_package env force_load w d dir p oldver up ret fs = Some (ret, w2, fs1)"
      using l True w2(1) by (simp add: record_package_def w1_def [symmetric])
    moreover have "about p ?n d w w2" using u a2 about_trans by blast
    ultimately show ?thesis using that w2(4,6) p1 u by simp
  qed
qed

lemma aboutD:
  assumes "about p n d w w'"
  shows "sound_cache w' d" "keeps_pkgs w w'" "transaction w' = transaction w" "trans (handle w') = trans (handle w)"
    "q < next_ref w \<Longrightarrow> q \<noteq> p \<Longrightarrow> wpkgs w' q = wpkgs w q" "next_ref w \<le> next_ref w'"
    "q < next_ref w \<Longrightarrow> pkg_id (wpkgs w' q) = pkg_id (wpkgs w q)"
    "m \<noteq> n \<Longrightarrow> cached_pkg w' (Some d) m = cached_pkg w (Some d) m" "m \<noteq> n \<Longrightarrow> installed w' d m = installed w d m"
  using assms by (simp_all add: about_def keeps_pkgs_def)

lemma quiet_about: "about p n d w w' \<Longrightarrow> quiet w' = quiet w"
  by (rule ext) (simp add: quiet_def about_def)

text \<open>After the old package is gone: the directory, the files, and the record.\<close>

lemma commit_rest_spec:
  assumes "sound_cache w d" "hashed (wpkgs w p)" "quiet w (wpkgs w p)" "cached_pkg w (Some d) (pname (wpkgs w p)) = None"
    and "\<forall>x. \<not> force_load x" "length (cached_pkgs w (Some d)) < 414054" "p < next_ref w"
  shows "\<exists>r w' fs'. (case alpm_db_path w d of
                            (dir, w) \<Rightarrow>
                              (case local_db_prepare dir (wpkgs w p) fs of
                                 (r, fs) \<Rightarrow>
                                   if r \<noteq> 0 then Some (-1, set_errno ALPM_ERR_DB_WRITE w, fs)
                                   else
                                     (case unpack_package env w dir pkgfile (map_option (wpkgs w) old) (wpkgs w p) fs of
                                        (None, w) \<Rightarrow> Some (-1, w, fs)
                                      | (Some (errors, newpkg, fs), w) \<Rightarrow>
                                          record_package env force_load (upd_pkg p (\<lambda>_. newpkg) w) d dir p oldver up
                                            (if errors \<noteq> 0 then -1 else 0) fs))) = Some (r, w', fs') \<and>
    about p (pname (wpkgs w p)) d w w' \<and> length (cached_pkgs w' (Some d)) \<le> length (cached_pkgs w (Some d)) + 1 \<and>
    (r = 0 \<longrightarrow> installed w' d (pname (wpkgs w p)) = Some (version (wpkgs w p)))"
proof -
  let ?n = "pname (wpkgs w p)"
  obtain dir w1 where w1: "alpm_db_path w d = (dir, w1)" by fastforce
  have k1: "about p ?n d w w1" "installed w1 d = installed w d" "\<forall>m. cached_pkg w1 (Some d) m = cached_pkg w (Some d) m"
    "cached_pkgs w1 (Some d) = cached_pkgs w (Some d)" "wpkgs w1 = wpkgs w"
    using kept_about [OF assms(1), of w1 _ p ?n] w1 by auto
  have err: "about p ?n d w (set_errno e w1) \<and> length (cached_pkgs (set_errno e w1) (Some d)) \<le> length (cached_pkgs w (Some d)) + 1" for e
    using kept_about [OF aboutD(1) [OF k1(1)], of "set_errno e w1" e p ?n] k1 about_trans by auto
  obtain r fs1 where prep: "local_db_prepare dir (wpkgs w1 p) fs = (r, fs1)" by fastforce
  show ?thesis
  proof (cases "r = 0")
    case False
    then show ?thesis using w1 prep err by simp
  next
    case True
    obtain res w2 where un: "unpack_package env w1 dir pkgfile (map_option (wpkgs w1) old) (wpkgs w1 p) fs1 = (res, w2)" by fastforce
    have w2: "w2 = w1 \<or> w2 = set_errno ALPM_ERR_PKG_OPEN w1" "res \<noteq> None \<Longrightarrow> w2 = w1"
      using un by (auto simp: unpack_package_def split: option.splits sum.splits prod.splits node.splits)
    show ?thesis
    proof (cases res)
      case None
      then show ?thesis using w1 prep True un w2(1) err k1 by auto
    next
      case (Some x)
      obtain errors newpkg fs2 where x: "x = (errors, newpkg, fs2)" by (metis prod_cases3)
      have eq: "w2 = w1" using w2(2) Some by simp
      have id: "pkg_id newpkg = pkg_id (wpkgs w1 p)"
        using un Some x extract_loop_id by (fastforce simp: unpack_package_def split: option.splits sum.splits prod.splits node.splits)
      define w3 where "w3 = upd_pkg p (\<lambda>_. newpkg) w1"
      have u: "about p ?n d w1 w3" "\<forall>m. cached_pkg w3 (Some d) m = cached_pkg w1 (Some d) m" "cached_pkgs w3 (Some d) = cached_pkgs w1 (Some d)"
        using upd_about [OF aboutD(1) [OF k1(1)], of "\<lambda>_. newpkg" p ?n] id by (simp_all add: w3_def)
      have p3: "wpkgs w3 p = newpkg" by (simp add: w3_def)
      note ids = pkg_idD [OF id, unfolded k1(5)]
      have a3: "about p ?n d w w3" using k1(1) u(1) about_trans by blast
      have pre: "sound_cache w3 d" "hashed (wpkgs w3 p)" "quiet w3 (wpkgs w3 p)" "cached_pkg w3 (Some d) (pname (wpkgs w3 p)) = None"
        "length (cached_pkgs w3 (Some d)) < 414054" "p < next_ref w3"
        using aboutD(1,6) [OF a3] p3 ids assms(2-4,6,7) quiet_about [OF a3] u k1 by (auto simp: quiet_def)
      obtain r4 w4 fs4 where w4: "record_package env force_load w3 d dir p oldver up (if errors \<noteq> 0 then -1 else 0) fs2 = Some (r4, w4, fs4)"
        "about p (pname (wpkgs w3 p)) d w3 w4" "length (cached_pkgs w4 (Some d)) \<le> length (cached_pkgs w3 (Some d)) + 1"
        "r4 = 0 \<Longrightarrow> installed w4 d (pname (wpkgs w3 p)) = Some (version (wpkgs w3 p))"
        using record_package_spec [OF pre(1-4) assms(5) pre(5,6), of env dir oldver up "if errors \<noteq> 0 then -1 else 0" fs2] by blast
      have "about p ?n d w w4" using a3 w4(2) p3 ids(1) about_trans by metis
      then show ?thesis
        using w1 prep True un Some x eq w4 p3 ids u(3) k1(4) by (simp add: w3_def [symmetric])
    qed
  qed
qed

lemma commit_single_spec:
  assumes "sound_cache w d" "committable w d p" "trans (handle w) \<noteq> None" "\<forall>x. \<not> force_load x" "length (cached_pkgs w (Some d)) < 414054"
  shows "\<exists>r w' fs'. commit_single_pkg env force_load w d p fs = Some (r, w', fs') \<and> about p (pname (wpkgs w p)) d w w' \<and>
    length (cached_pkgs w' (Some d)) \<le> length (cached_pkgs w (Some d)) + 1 \<and>
    (r = 0 \<longrightarrow> installed w' d (pname (wpkgs w p)) = Some (version (wpkgs w p)))"
proof -
  let ?n = "pname (wpkgs w p)"
  define old where "old = (if cached_pkg w (Some d) ?n \<noteq> None then oldpkg (wpkgs w p) else None)"
  define w1 where "w1 = (case old of None \<Rightarrow> w | Some q \<Rightarrow> upd_pkg p (\<lambda>pkg. pkg\<lparr>preason := preason (wpkgs w q)\<rparr>) w)"
  define w2 where "w2 = upd_pkg p (\<lambda>pkg. pkg\<lparr>preason := override_reason (transaction w1) (preason pkg)\<rparr>) w1"
  have id: "pkg_id (pkg\<lparr>preason := r\<rparr>) = pkg_id pkg" for pkg r by (simp add: pkg_id_def)
  have a1: "about p ?n d w w1 \<and> (\<forall>m. cached_pkg w1 (Some d) m = cached_pkg w (Some d) m) \<and> cached_pkgs w1 (Some d) = cached_pkgs w (Some d)"
    using upd_about [OF assms(1), where n = ?n] kept_about [OF assms(1), of w _ p ?n] id by (auto simp: w1_def split: option.split)
  have a2: "about p ?n d w w2" "\<forall>m. cached_pkg w2 (Some d) m = cached_pkg w (Some d) m" "cached_pkgs w2 (Some d) = cached_pkgs w (Some d)"
    using upd_about [OF aboutD(1) [OF conjunct1 [OF a1]], where n = ?n and p = p and f = "\<lambda>pkg. pkg\<lparr>preason := override_reason (transaction w1) (preason pkg)\<rparr>"] a1 id
      about_trans by (auto simp: w2_def)
  have c: "p < next_ref w" "hashed (wpkgs w p)" "quiet w (wpkgs w p)" "\<exists>f. origin_data (wpkgs w p) = Origin_file f"
    using assms(2) by (simp_all add: committable_def)
  note ids1 = pkg_idD [OF aboutD(7) [OF conjunct1 [OF a1] c(1)]] and ids2 = pkg_idD [OF aboutD(7) [OF a2(1) c(1)]]
  obtain pkgfile where pf: "origin_data (wpkgs w1 p) = Origin_file pkgfile" using c(4) ids1 by auto
  have noscript: "\<not> (scriptlet (wpkgs w1 p) \<and> \<not> has_flag (transaction w1) ALPM_TRANS_FLAG_NOSCRIPTLET)"
    using c(3) ids1 aboutD(3) [OF conjunct1 [OF a1]] by (auto simp: quiet_def)
  have "\<exists>w3 fs3. replace_old env w2 d p old fs = Some (w3, fs3) \<and> about p ?n d w2 w3 \<and> cached_pkg w3 (Some d) ?n = None \<and>
      length (cached_pkgs w3 (Some d)) \<le> length (cached_pkgs w2 (Some d))"
  proof (cases old)
    case None
    have "cached_pkg w2 (Some d) ?n = None"
    proof (rule ccontr)
      assume "cached_pkg w2 (Some d) ?n \<noteq> None"
      then have "cached_pkg w (Some d) ?n \<noteq> None" using a2(2) by simp
      then show False using None assms(2) unfolding old_def committable_def by auto
    qed
    moreover have "about p ?n d w2 w2" using kept_about [OF aboutD(1) [OF a2(1)], of w2] by blast
    ultimately show ?thesis using None by (simp add: replace_old_def)
  next
    case (Some q)
    then have q: "q < next_ref w" "q \<noteq> p" "pname (wpkgs w q) = ?n" "hashed (wpkgs w q)" "backups_hashed (wpkgs w q)"
      using assms(2) by (auto simp: old_def committable_def split: if_splits)
    have same: "wpkgs w2 q = wpkgs w q" by (rule aboutD(5) [OF a2(1) q(1,2)])
    have pre: "sound_cache w2 d" "hashed (wpkgs w2 q)" "backups_hashed (wpkgs w2 q)" "Some p = None \<Longrightarrow> quiet w2 (wpkgs w2 q)"
      using aboutD(1) [OF a2(1)] same q by simp_all
    obtain w3 fs3 where w3: "alpm_remove_single_package env w2 d q (Some p) fs = Some (0, w3, fs3)" "sound_cache w3 d" "keeps_pkgs w2 w3"
      "wpkgs w3 = wpkgs w2" "installed w3 d = (installed w2 d)(pname (wpkgs w2 q) := None)"
      "\<forall>n. cached_pkg w3 (Some d) n = (if n = pname (wpkgs w2 q) then None else cached_pkg w2 (Some d) n)"
      "length (cached_pkgs w3 (Some d)) \<le> length (cached_pkgs w2 (Some d))" "next_ref w3 = next_ref w2"
      "transaction w3 = transaction w2" "trans (handle w3) = trans (handle w2)"
      by (rule remove_single_spec [OF pre])
    have "about p ?n d w2 w3" using w3 same q(3) by (simp add: about_def)
    then show ?thesis using w3 same q(3) Some by (simp add: replace_old_def)
  qed
  then obtain w3 fs3 where w3: "replace_old env w2 d p old fs = Some (w3, fs3)" "about p ?n d w2 w3" "cached_pkg w3 (Some d) ?n = None"
    "length (cached_pkgs w3 (Some d)) \<le> length (cached_pkgs w2 (Some d))" by blast
  have a3: "about p ?n d w w3" using a2(1) w3(2) about_trans by blast
  note ids3 = pkg_idD [OF aboutD(7) [OF a3 c(1)]]
  have pre: "sound_cache w3 d" "hashed (wpkgs w3 p)" "quiet w3 (wpkgs w3 p)" "cached_pkg w3 (Some d) (pname (wpkgs w3 p)) = None"
    "length (cached_pkgs w3 (Some d)) < 414054" "p < next_ref w3"
    using aboutD(1,6) [OF a3] ids3 c w3(3,4) a2(3) assms(5) quiet_about [OF a3] by (auto simp: quiet_def)
  define oldver where "oldver = Option.bind old (\<lambda>q. version (wpkgs w q))"
  obtain r w4 fs4 where w4: "(case alpm_db_path w3 d of
                            (dir, w) \<Rightarrow>
                              (case local_db_prepare dir (wpkgs w p) fs3 of
                                 (r, fs) \<Rightarrow>
                                   if r \<noteq> 0 then Some (-1, set_errno ALPM_ERR_DB_WRITE w, fs)
                                   else
                                     (case unpack_package env w dir pkgfile (map_option (wpkgs w) old) (wpkgs w p) fs of
                                        (None, w) \<Rightarrow> Some (-1, w, fs)
                                      | (Some (errors, newpkg, fs), w) \<Rightarrow>
                                          record_package env force_load (upd_pkg p (\<lambda>_. newpkg) w) d dir p oldver (old \<noteq> None)
                                            (if errors \<noteq> 0 then -1 else 0) fs))) = Some (r, w4, fs4)"
    "about p (pname (wpkgs w3 p)) d w3 w4" "length (cached_pkgs w4 (Some d)) \<le> length (cached_pkgs w3 (Some d)) + 1"
    "r = 0 \<longrightarrow> installed w4 d (pname (wpkgs w3 p)) = Some (version (wpkgs w3 p))"
    using commit_rest_spec [OF pre(1-4) assms(4) pre(5,6)] by blast
  have "commit_single_pkg env force_load w d p fs = Some (r, w4, fs4)"
    unfolding commit_single_pkg_def Let_def old_def [symmetric] w1_def [symmetric] oldver_def [symmetric]
    by (simp only: pf if_not_P [OF noscript] w2_def [symmetric] origin_data.case option.case prod.case w3(1) w4(1))
  moreover have "about p ?n d w w4" using a3 w4(2) ids3(1) about_trans by metis
  ultimately show ?thesis using w4(3,4) ids3 w3(4) a2(3) by auto
qed

section \<open>All targets\<close>

definition installs_names :: "(string \<Rightarrow> string option option) \<Rightarrow> (string \<times> string option) list \<Rightarrow> string \<Rightarrow> string option option" where
  "installs_names m l = (\<lambda>n. case map_of l n of Some v \<Rightarrow> Some v | None \<Rightarrow> m n)"

text \<open>The targets can be installed one after the other: no two have a name, or an old package, in common.\<close>

definition targets_ready :: "alpm_world \<Rightarrow> dbref \<Rightarrow> pkgref list \<Rightarrow> bool" where
  "targets_ready w d ps \<longleftrightarrow>
     (\<forall>p\<in>set ps. committable w d p) \<and> distinct (map (\<lambda>p. pname (wpkgs w p)) ps) \<and>
     (\<forall>p\<in>set ps. \<forall>q. oldpkg (wpkgs w p) = Some q \<longrightarrow> q \<notin> set ps) \<and>
     length (cached_pkgs w (Some d)) + length ps \<le> 414054"

text \<open>A step about one target leaves the others ready.\<close>

lemma ready_about:
  assumes "targets_ready w d (p # ps)" "about p (pname (wpkgs w p)) d w w'"
    and "length (cached_pkgs w' (Some d)) \<le> length (cached_pkgs w (Some d)) + 1"
  shows "targets_ready w' d ps" "\<forall>q\<in>set ps. wpkgs w' q = wpkgs w q"
proof -
  have pn: "q \<noteq> p" "pname (wpkgs w q) \<noteq> pname (wpkgs w p)" if "q \<in> set ps" for q
  proof -
    have "pname (wpkgs w p) \<notin> (\<lambda>p. pname (wpkgs w p)) ` set ps" using assms(1) by (simp add: targets_ready_def)
    then show "q \<noteq> p" "pname (wpkgs w q) \<noteq> pname (wpkgs w p)" using that by (metis (no_types, lifting) image_eqI)+
  qed
  have q: "q < next_ref w" if "q \<in> set ps" for q using assms(1) that by (auto simp: targets_ready_def committable_def)
  show same: "\<forall>q\<in>set ps. wpkgs w' q = wpkgs w q" using aboutD(5) [OF assms(2) q pn(1)] by blast
  have "committable w' d q" if "q \<in> set ps" for q
  proof -
    have c: "committable w d q" using assms(1) that by (simp add: targets_ready_def)
    have old: "wpkgs w' r = wpkgs w r" "r < next_ref w'" if "oldpkg (wpkgs w q) = Some r" "r < next_ref w" for r
    proof -
      have "r \<noteq> p" using assms(1) that \<open>q \<in> set ps\<close> by (auto simp: targets_ready_def)
      then show "wpkgs w' r = wpkgs w r" using aboutD(5) [OF assms(2)] that by blast
      show "r < next_ref w'" using that(2) aboutD(6) [OF assms(2)] by simp
    qed
    have "cached_pkg w' (Some d) (pname (wpkgs w q)) = cached_pkg w (Some d) (pname (wpkgs w q))"
      by (rule aboutD(8) [OF assms(2) pn(2) [OF that]])
    then show ?thesis
      using c same that old aboutD(6) [OF assms(2)] quiet_about [OF assms(2)] unfolding committable_def by fastforce
  qed
  then show "targets_ready w' d ps"
    using assms(1,3) same by (simp add: targets_ready_def cong: map_cong)
qed

lemma interrupted_stays: "tstate (transaction w) = STATE_INTERRUPTED \<Longrightarrow> trans (handle w) \<noteq> None \<Longrightarrow>
    tstate (transaction (snd (alpm_trans_interrupt w))) = STATE_INTERRUPTED"
  by (auto simp: alpm_trans_interrupt_def Let_def set_errno_def transaction_def upd_trans_def)

text \<open>A stopped transaction stays stopped.\<close>

lemma upgrade_loop_stopped:
  assumes "tstate (transaction w) = STATE_INTERRUPTED" "trans (handle w) \<noteq> None" "\<not> ldconfig"
  shows "\<exists>w'. upgrade_loop env force_load interrupted d ps ldconfig ret w fs = Some (False, ret, w', fs) \<and>
    (w' = w \<or> w' = snd (alpm_trans_interrupt w))"
  using assms interrupted_stays [OF assms(1,2)] by (cases ps) (auto simp: Let_def)

lemma upgrade_loop_spec:
  assumes "sound_cache w d" "trans (handle w) \<noteq> None" "targets_ready w d ps" "\<forall>x. \<not> force_load x"
  shows "\<exists>ld r w' fs'. upgrade_loop env force_load interrupted d ps ldconfig 0 w fs = Some (ld, r, w', fs') \<and>
    sound_cache w' d \<and> trans (handle w') \<noteq> None \<and> keeps_pkgs w w' \<and>
    (\<forall>n. n \<notin> (\<lambda>p. pname (wpkgs w p)) ` set ps \<longrightarrow> installed w' d n = installed w d n) \<and>
    (r = 0 \<and> (\<forall>k. \<not> interrupted k) \<and> tstate (transaction w) \<noteq> STATE_INTERRUPTED \<longrightarrow>
      installed w' d = installs_names (installed w d) (map (\<lambda>p. (pname (wpkgs w p), version (wpkgs w p))) ps))"
  using assms(1-3)
proof (induction ps arbitrary: w fs)
  case Nil
  then show ?case by (auto simp: installs_names_def)
next
  case (Cons p ps)
  let ?n = "pname (wpkgs w p)"
  define w1 where "w1 = (if interrupted (length ps) then snd (alpm_trans_interrupt w) else w)"
  have c1: "sound_cache w1 d" "keeps_pkgs w w1" "installed w1 d = installed w d" "wpkgs w1 = wpkgs w" "next_ref w1 = next_ref w"
    "trans (handle w1) \<noteq> None" "cached_pkgs w1 (Some d) = cached_pkgs w (Some d)" "\<forall>n. cached_pkg w1 (Some d) n = cached_pkg w (Some d) n"
    using interrupt_keeps [OF Cons.prems(1,2)] Cons.prems(1,2) by (simp_all add: w1_def)
  have step: "upgrade_loop env force_load interrupted d (p # ps) ldconfig 0 w fs =
      (if tstate (transaction w1) = STATE_INTERRUPTED then Some (False, 0, w1, fs)
       else
         (case commit_single_pkg env force_load w1 d p fs of
            None \<Rightarrow> None
          | Some (r, w, fs) \<Rightarrow>
              if r \<noteq> 0
              then upgrade_loop env force_load interrupted d ps False (-1)
                     (set_errno ALPM_ERR_TRANS_ABORT (upd_trans (\<lambda>t. t\<lparr>tstate := STATE_INTERRUPTED\<rparr>) w)) fs
              else upgrade_loop env force_load interrupted d ps ldconfig 0 w fs))"
    by (simp add: w1_def [symmetric] Let_def)
  have r1: "targets_ready w1 d (p # ps)"
    using Cons.prems(3) c1 quiet_keeps [OF c1(2) Cons.prems(2)] unfolding targets_ready_def committable_def by simp
  show ?case
  proof (cases "tstate (transaction w1) = STATE_INTERRUPTED")
    case True
    then have "\<not> ((\<forall>k. \<not> interrupted k) \<and> tstate (transaction w) \<noteq> STATE_INTERRUPTED)" by (auto simp: w1_def split: if_splits)
    then show ?thesis using step True c1 by auto
  next
    case False
    have "committable w1 d p" "length (cached_pkgs w1 (Some d)) < 414054" using r1 by (simp_all add: targets_ready_def)
    then obtain r w2 fs2 where w2: "commit_single_pkg env force_load w1 d p fs = Some (r, w2, fs2)" "about p ?n d w1 w2"
      "length (cached_pkgs w2 (Some d)) \<le> length (cached_pkgs w1 (Some d)) + 1"
      "r = 0 \<longrightarrow> installed w2 d ?n = Some (version (wpkgs w p))"
      using commit_single_spec [OF c1(1) _ c1(6) assms(4)] c1(4) by metis
    have ab: "about p (pname (wpkgs w1 p)) d w1 w2" using w2(2) c1(4) by simp
    note r2 = ready_about [OF r1 ab w2(3)]
    have t2: "trans (handle w2) \<noteq> None" using aboutD(4) [OF w2(2)] c1(6) by simp
    show ?thesis
    proof (cases "r = 0")
      case True
      from Cons.IH [OF aboutD(1) [OF w2(2)] t2 r2(1)] obtain ld r3 w3 fs3 where
        w3: "upgrade_loop env force_load interrupted d ps ldconfig 0 w2 fs2 = Some (ld, r3, w3, fs3)" "sound_cache w3 d"
        "trans (handle w3) \<noteq> None" "keeps_pkgs w2 w3" "\<forall>n. n \<notin> (\<lambda>p. pname (wpkgs w2 p)) ` set ps \<longrightarrow> installed w3 d n = installed w2 d n"
        "r3 = 0 \<and> (\<forall>k. \<not> interrupted k) \<and> tstate (transaction w2) \<noteq> STATE_INTERRUPTED \<longrightarrow>
          installed w3 d = installs_names (installed w2 d) (map (\<lambda>p. (pname (wpkgs w2 p), version (wpkgs w2 p))) ps)" by blast
      have names: "map (\<lambda>p. (pname (wpkgs w2 p), version (wpkgs w2 p))) ps = map (\<lambda>p. (pname (wpkgs w p), version (wpkgs w p))) ps"
        "(\<lambda>p. pname (wpkgs w2 p)) ` set ps = (\<lambda>p. pname (wpkgs w p)) ` set ps"
        using r2(2) c1(4) by auto
      have other: "installed w2 d m = installed w d m" if "m \<noteq> ?n" for m using aboutD(9) [OF w2(2) that] c1(3) by simp
      have keep: "\<forall>n. n \<notin> (\<lambda>p. pname (wpkgs w p)) ` set (p # ps) \<longrightarrow> installed w3 d n = installed w d n"
        using w3(5) other unfolding names by simp
      have new: "installed w3 d = installs_names (installed w d) (map (\<lambda>p. (pname (wpkgs w p), version (wpkgs w p))) (p # ps))"
        if ok: "r3 = 0 \<and> (\<forall>k. \<not> interrupted k) \<and> tstate (transaction w) \<noteq> STATE_INTERRUPTED"
      proof
        fix m
        have "tstate (transaction w2) \<noteq> STATE_INTERRUPTED" using False aboutD(3) [OF w2(2)] by simp
        then have e: "installed w3 d = installs_names (installed w2 d) (map (\<lambda>p. (pname (wpkgs w p), version (wpkgs w p))) ps)"
          using w3(6) ok unfolding names by blast
        have "?n \<notin> fst ` set (map (\<lambda>p. (pname (wpkgs w p), version (wpkgs w p))) ps)"
          using Cons.prems(3) by (auto simp: targets_ready_def)
        then have none: "map_of (map (\<lambda>p. (pname (wpkgs w p), version (wpkgs w p))) ps) ?n = None" by (simp only: map_of_eq_None_iff not_False_eq_True)
        show "installed w3 d m = installs_names (installed w d) (map (\<lambda>p. (pname (wpkgs w p), version (wpkgs w p))) (p # ps)) m"
        proof (cases "m = ?n")
          case True
          then show ?thesis using none w2(4) \<open>r = 0\<close> unfolding e installs_names_def by simp
        next
          case False
          then show ?thesis using other [OF False] unfolding e installs_names_def by (simp split: option.split)
        qed
      qed
      have "keeps_pkgs w w3" using c1(2) aboutD(2) [OF w2(2)] w3(4) keeps_pkgs_trans by blast
      then show ?thesis using step False w2(1) True w3(1-3) keep new by simp
    next
      case bad: False
      define w3 where "w3 = set_errno ALPM_ERR_TRANS_ABORT (upd_trans (\<lambda>t. t\<lparr>tstate := STATE_INTERRUPTED\<rparr>) w2)"
      have t3: "tstate (transaction w3) = STATE_INTERRUPTED" "trans (handle w3) \<noteq> None" "wdbs w3 = wdbs w2" "keeps_pkgs w2 w3"
        using t2 by (auto simp: w3_def set_errno_def upd_trans_def transaction_def keeps_pkgs_def)
      have c3: "sound_cache w3 d" "installed w3 d = installed w2 d" "keeps_pkgs w2 w3"
        using same_cache [OF aboutD(1) [OF w2(2)] t3(4)] t3(3,4) by simp_all
      obtain w4 where w4: "upgrade_loop env force_load interrupted d ps False (-1) w3 fs2 = Some (False, -1, w4, fs2)"
        "w4 = w3 \<or> w4 = snd (alpm_trans_interrupt w3)"
        using upgrade_loop_stopped [OF t3(1,2)] by blast
      have c4: "sound_cache w4 d" "installed w4 d = installed w2 d" "keeps_pkgs w3 w4" "trans (handle w4) \<noteq> None"
        using w4(2) c3 interrupt_keeps [OF c3(1) t3(2)] t3(2) by auto
      have "keeps_pkgs w w4" using c1(2) aboutD(2) [OF w2(2)] c3(3) c4(3) keeps_pkgs_trans by blast
      moreover have "\<forall>n. n \<notin> (\<lambda>p. pname (wpkgs w p)) ` set (p # ps) \<longrightarrow> installed w4 d n = installed w d n"
        using c4(2) aboutD(9) [OF w2(2)] c1(3) by simp
      moreover have "upgrade_loop env force_load interrupted d (p # ps) ldconfig 0 w fs = Some (False, -1, w4, fs2)"
        unfolding step using False w2(1) bad w4(1) by (simp add: w3_def)
      ultimately show ?thesis using c4(1,4) by (intro exI [of _ False] exI [of _ "-1"] exI [of _ w4] exI [of _ fs2]) simp
    qed
  qed
qed

section \<open>Properties\<close>


lemma pair_installed:
  assumes "pkghash_inv pair_pkgs h" "hlist h = [0]" "wpkgs w = pair_pkgs" "wdbs w = wdbs (sync_world h)" "0 < next_ref w"
  shows "sound_cache w 5" "installed w 5 = [''lib'' \<mapsto> Some ''1'']" "cached_pkgs w (Some 5) = [0]"
    "cached_pkg w (Some 5) = [''lib'' \<mapsto> 0]"
proof -
  show c: "cached_pkgs w (Some 5) = [0]" using assms by (simp add: cached_pkgs_def sync_world_def has_status_def)
  show s: "sound_cache w 5" using assms c by (simp add: sound_cache_def loaded_def sync_world_def has_status_def in_use_def)
  have "cached_pkg w (Some 5) n = Some p \<longleftrightarrow> p = 0 \<and> pair_name p = n" for n p
    using cached_pkg_Some [of w "Some 5" n p] s c assms(3) by (auto simp: sound_cache_def)
  then show f: "cached_pkg w (Some 5) = [''lib'' \<mapsto> 0]"
    by (intro ext) (simp add: pair_name_def, metis not_None_eq)
  show "installed w 5 = [''lib'' \<mapsto> Some ''1'']" by (auto simp: installed_def f assms(3) pair_pkgs_def)
qed




end
