(* ===== verification/AlpmSyncCommit.thy ===== *)
theory AlpmSyncCommit
  imports AlpmCommit AlpmPkgLoad
begin

text \<open>
  Committing a transaction: \<open>_alpm_sync_load\<close>, \<open>_alpm_sync_check\<close> and \<open>_alpm_sync_commit\<close> of
  \<open>lib/libalpm/sync.c\<close> with the steps they are made of, and \<open>alpm_trans_commit\<close> of \<open>lib/libalpm/trans.c\<close>.
\<close>

section \<open>The surroundings\<close>

text \<open>What a download is asked for.\<close>

record dload_payload =
  remote_name :: string
  max_size :: int
  dl_servers :: "string list"
  download_signature :: bool
  signature_optional :: bool

text \<open>The world, the disk, and what gpgme keeps.\<close>

record 'r machine =
  mworld :: alpm_world
  mdisk :: filesys
  minit :: bool
  mring :: 'r

text \<open>
  The steps that other files implement, as functions: downloading, the two checks of the disk space
  and running the hooks, before (\<open>True\<close>) and after the transaction. They return what the function
  returns and \<open>pm_errno\<close>. The contents of the disk determine what the package files are.
\<close>

record 'r commit_env =
  ce_pkg :: "filesys \<Rightarrow> 'r pkg_env"
  ce_sys :: alpm_env
  ce_conflict :: "filesys \<Rightarrow> fsys"
  ce_questions :: alpm_questions
  ce_force_load :: "alpm_pkg_t \<Rightarrow> bool"
  ce_writable :: "location \<Rightarrow> bool"
  ce_tmpdir :: "string option"
  ce_stale_dir :: bool
  ce_download :: "dload_payload list \<Rightarrow> string \<Rightarrow> alpm_errno_t \<Rightarrow> filesys \<Rightarrow> int \<times> alpm_errno_t \<times> filesys"
  ce_downloadspace :: "string \<Rightarrow> int list \<Rightarrow> alpm_errno_t \<Rightarrow> filesys \<Rightarrow> int \<times> alpm_errno_t"
  ce_diskspace :: "alpm_world \<Rightarrow> filesys \<Rightarrow> int \<times> alpm_errno_t"
  ce_hook :: "bool \<Rightarrow> alpm_world \<Rightarrow> filesys \<Rightarrow> int \<times> alpm_errno_t \<times> filesys"
  ce_stop_remove :: "nat \<Rightarrow> bool"
  ce_stop_add :: "nat \<Rightarrow> bool"

definition is_reg :: "filesys \<Rightarrow> string \<Rightarrow> bool" where
  "is_reg fs path = (case AlpmFs.stat fs path of Inr (_, File _) \<Rightarrow> True | _ \<Rightarrow> False)"

definition m_error :: "alpm_errno_t \<Rightarrow> 'r machine \<Rightarrow> 'r machine" where
  "m_error e m = m\<lparr>mworld := set_errno e (mworld m)\<rparr>"

definition m_pkg :: "'r machine \<Rightarrow> pkgref \<Rightarrow> alpm_pkg_t" where
  "m_pkg m p = wpkgs (mworld m) p"

definition m_state :: "alpm_transstate_t \<Rightarrow> 'r machine \<Rightarrow> 'r machine" where
  "m_state s m = m\<lparr>mworld := upd_trans (\<lambda>t. t\<lparr>tstate := s\<rparr>) (mworld m)\<rparr>"

text \<open>A call of the signature code, which changes the handle and what gpgme keeps.\<close>

definition m_pgp :: "'r machine \<Rightarrow> 'r pgp_state" where
  "m_pgp m = \<lparr>pgp_handle = handle (mworld m), pgp_init = minit m, pgp_ring = mring m\<rparr>"

definition put_pgp :: "'r pgp_state \<Rightarrow> 'r machine \<Rightarrow> 'r machine" where
  "put_pgp st m = m\<lparr>mworld := (mworld m)\<lparr>handle := pgp_handle st\<rparr>, minit := pgp_init st, mring := pgp_ring st\<rparr>"

text \<open>The database of a package that is not from a file.\<close>

definition pkg_db :: "alpm_pkg_t \<Rightarrow> dbref option" where
  "pkg_db p = (case origin_data p of Origin_db d \<Rightarrow> Some d | Origin_file _ \<Rightarrow> None)"

definition pkg_siglevel :: "'r machine \<Rightarrow> dbref \<Rightarrow> u32" where
  "pkg_siglevel m d = alpm_db_get_siglevel (mworld m) d"

section \<open>Downloading\<close>

definition prompt_to_delete :: "'r commit_env \<Rightarrow> string \<Rightarrow> 'r machine \<Rightarrow> bool \<times> 'r machine" where
  "prompt_to_delete env filepath m =
     (if q_corrupted_pkg (ce_questions env) filepath
      then (True, m\<lparr>mdisk := snd (unlink (filepath @ ''.sig'') (snd (unlink filepath (mdisk m))))\<rparr>)
      else (False, m))"

definition cached_file :: "'r machine \<Rightarrow> string \<Rightarrow> string option" where
  "cached_file m name = alpm_filecache_find (is_reg (mdisk m)) (cachedirs (handle (mworld m))) name"

definition need_download :: "'r machine \<Rightarrow> alpm_pkg_t \<Rightarrow> u32 \<Rightarrow> string \<Rightarrow> bool" where
  "need_download m spkg level name \<longleftrightarrow>
     download_size spkg \<noteq> 0 \<or> cached_file m name = None \<or>
     level AND ALPM_SIG_PACKAGE \<noteq> 0 \<and> cached_file m (name @ ''.sig'') = None"

text \<open>The result, the packages to download, and the machine; a package of a database without one is \<open>None\<close>.\<close>

fun find_dl_candidates :: "pkgref list \<Rightarrow> pkgref list \<Rightarrow> 'r machine \<Rightarrow> (int \<times> pkgref list \<times> 'r machine) option" where
  "find_dl_candidates [] wanted m = Some (0, wanted, m)"
| "find_dl_candidates (p # i) wanted m =
     (if origin (m_pkg m p) = ALPM_PKG_FROM_FILE then find_dl_candidates i wanted m
      else
        (case pkg_db (m_pkg m p) of
           None \<Rightarrow> None
         | Some d \<Rightarrow>
             if servers (wdbs (mworld m) d) = [] then Some (1, wanted, m_error ALPM_ERR_SERVER_NONE m)
             else
               (case filename (m_pkg m p) of
                  None \<Rightarrow> Some (-1, wanted, m_error ALPM_ERR_PKG_INVALID_NAME m)
                | Some name \<Rightarrow>
                    find_dl_candidates i
                      (if need_download m (m_pkg m p) (pkg_siglevel m d) name then wanted @ [p] else wanted) m)))"

definition payload_of :: "'r machine \<Rightarrow> pkgref \<Rightarrow> dload_payload" where
  "payload_of m p =
     (let pkg = m_pkg m p; d = the (pkg_db pkg); level = pkg_siglevel m d
      in \<lparr>remote_name = the (filename pkg), max_size = psize pkg, dl_servers = servers (wdbs (mworld m) d),
          download_signature = (level AND ALPM_SIG_PACKAGE \<noteq> 0),
          signature_optional = (level AND ALPM_SIG_PACKAGE_OPTIONAL \<noteq> 0)\<rparr>)"

text \<open>The end of the function: the targets forget the sizes of their downloads.\<close>

definition forget_sizes :: "'r machine \<Rightarrow> 'r machine" where
  "forget_sizes m =
     m\<lparr>mworld := fold (\<lambda>p. upd_pkg p (\<lambda>pkg. pkg\<lparr>infolevel := infolevel pkg AND NOT INFRQ_DSIZE, download_size := 0\<rparr>))
                    (tadd (transaction (mworld m))) (mworld m)\<rparr>"

definition fetch_files :: "'r commit_env \<Rightarrow> string \<Rightarrow> pkgref list \<Rightarrow> 'r machine \<Rightarrow> int \<times> 'r machine" where
  "fetch_files env cachedir wanted m =
     (let h = handle (mworld m);
          (r, e) = (if checkspace h \<noteq> 0
                    then ce_downloadspace env cachedir (map (\<lambda>p. psize (m_pkg m p)) wanted) (pm_errno h) (mdisk m)
                    else (0, pm_errno h));
          m = m_error e m
      in if r \<noteq> 0 then (r, m)
         else
           let (r, e, fs) = ce_download env (map (payload_of m) wanted) cachedir e (mdisk m)
           in (r, m_error e (m\<lparr>mdisk := fs\<rparr>)))"

definition download_files :: "'r commit_env \<Rightarrow> 'r machine \<Rightarrow> (int \<times> 'r machine) option" where
  "download_files env m =
     (case alpm_filecache_setup (ce_writable env) (ce_tmpdir env) (ce_stale_dir env) (handle (mworld m)) (mdisk m) of
        None \<Rightarrow> None
      | Some (cachedir, h, fs) \<Rightarrow>
          let m = m_state STATE_DOWNLOADING (m\<lparr>mworld := (mworld m)\<lparr>handle := h\<rparr>, mdisk := fs\<rparr>)
          in (case find_dl_candidates (tadd (transaction (mworld m))) [] m of
                None \<Rightarrow> None
              | Some (ret, wanted, m) \<Rightarrow>
                  if ret \<noteq> 0 \<or> wanted = [] then Some (ret, forget_sizes m)
                  else (let (ret, m) = fetch_files env cachedir wanted m in Some (ret, forget_sizes m))))"

section \<open>The keyring\<close>

text \<open>\<open>alpm_pkg_get_sig\<close>: the signature of a package.\<close>

definition alpm_pkg_get_sig :: "'r commit_env \<Rightarrow> alpm_pkg_t \<Rightarrow> 'r machine \<Rightarrow> (u8 list option \<times> 'r machine) option" where
  "alpm_pkg_get_sig env pkg m =
     (case base64_sig pkg of
        Some b \<Rightarrow>
          (case alpm_decode_signature (g_malloc (pk_pgp (ce_pkg env (mdisk m)))) b of
             None \<Rightarrow> Some (None, m_error ALPM_ERR_SIG_INVALID m)
           | Some sig \<Rightarrow> Some (Some sig, m))
      | None \<Rightarrow>
          (case filename pkg of
             None \<Rightarrow> None
           | Some name \<Rightarrow>
               (case cached_file m name of
                  None \<Rightarrow> Some (None, m_error ALPM_ERR_PKG_NOT_FOUND m)
                | Some path \<Rightarrow>
                    if \<not> g_readable (pk_pgp (ce_pkg env (mdisk m))) (path @ ''.sig'') then Some (None, m_error ALPM_ERR_SIG_MISSING m)
                    else
                      (case alpm_read_file (mdisk m) (path @ ''.sig'') of
                         Inl e \<Rightarrow> Some (None, m_error e m)
                       | Inr content \<Rightarrow> Some (Some (map (\<lambda>c. of_nat (of_char c)) content), m)))))"

type_synonym keyinfo_t = "string \<times> string"

text \<open>The keys of a package that are not known. A package without packager is a null pointer for \<open>strdup\<close>.\<close>

fun unknown_keys ::
  "'r pgp_env \<Rightarrow> string option \<Rightarrow> string list \<Rightarrow> keyinfo_t list \<Rightarrow> 'r pgp_state \<Rightarrow> (keyinfo_t list \<times> 'r pgp_state) option" where
  "unknown_keys env owner [] errors st = Some (errors, st)"
| "unknown_keys env owner (key # k) errors st =
     (if key \<in> snd ` set errors then unknown_keys env owner k errors st
      else
        let (known, st) = alpm_key_in_keychain env key st
        in if known \<noteq> 0 then unknown_keys env owner k errors st
           else (case owner of None \<Rightarrow> None | Some uid \<Rightarrow> unknown_keys env owner k (errors @ [(uid, key)]) st))"

fun keyring_errors :: "'r commit_env \<Rightarrow> pkgref list \<Rightarrow> keyinfo_t list \<Rightarrow> 'r machine \<Rightarrow> (keyinfo_t list \<times> 'r machine) option" where
  "keyring_errors env [] errors m = Some (errors, m)"
| "keyring_errors env (p # i) errors m =
     (if origin (m_pkg m p) = ALPM_PKG_FROM_FILE then keyring_errors env i errors m
      else
        (case pkg_db (m_pkg m p) of
           None \<Rightarrow> None
         | Some d \<Rightarrow>
             if pkg_siglevel m d AND ALPM_SIG_PACKAGE = 0 then keyring_errors env i errors m
             else
               (case alpm_pkg_get_sig env (m_pkg m p) m of
                  None \<Rightarrow> None
                | Some (None, m) \<Rightarrow> keyring_errors env i errors m
                | Some (Some sig, m) \<Rightarrow>
                    (case alpm_extract_keyid sig [] of
                       None \<Rightarrow> None
                     | Some (fault, keys) \<Rightarrow>
                         if fault = Some Outside then None
                         else if fault \<noteq> None then keyring_errors env i errors m
                         else
                           (case unknown_keys (pk_pgp (ce_pkg env (mdisk m))) (packager (m_pkg m p)) keys errors (m_pgp m) of
                              None \<Rightarrow> None
                            | Some (errors, st) \<Rightarrow> keyring_errors env i errors (put_pgp st m))))))"

fun import_errors :: "'r pgp_env \<Rightarrow> keyinfo_t list \<Rightarrow> bool \<Rightarrow> 'r pgp_state \<Rightarrow> (bool \<times> 'r pgp_state) option" where
  "import_errors env [] fail st = Some (fail, st)"
| "import_errors env ((uid, key) # k) fail st =
     (case alpm_key_import env (Some uid) key st of
        None \<Rightarrow> None
      | Some (r, st) \<Rightarrow> import_errors env k (fail \<or> r = -1) st)"

text \<open>Without gpgme the function is not compiled, and not called.\<close>

definition check_keyring :: "'r commit_env \<Rightarrow> 'r machine \<Rightarrow> (int \<times> 'r machine) option" where
  "check_keyring env m =
     (if \<not> have_gpgme (pk_pgp (ce_pkg env (mdisk m))) then Some (0, m)
      else
        (case keyring_errors env (tadd (transaction (mworld m))) [] m of
           None \<Rightarrow> None
         | Some (errors, m) \<Rightarrow>
             (case import_errors (pk_pgp (ce_pkg env (mdisk m))) errors False (m_pgp m) of
                None \<Rightarrow> None
              | Some (fail, st) \<Rightarrow> Some (if fail then -1 else 0, put_pgp st m))))"

section \<open>Integrity\<close>

record invalid_pkg =
  iv_path :: "string option"
  iv_siglist :: "alpm_siglist_t option"
  iv_error :: alpm_errno_t

text \<open>The packages that are not valid, in order; the others note how they were validated.\<close>

fun validity_loop :: "'r commit_env \<Rightarrow> pkgref list \<Rightarrow> invalid_pkg list \<Rightarrow> 'r machine \<Rightarrow> (invalid_pkg list \<times> 'r machine) option" where
  "validity_loop env [] errors m = Some (errors, m)"
| "validity_loop env (p # i) errors m =
     (if origin (m_pkg m p) = ALPM_PKG_FROM_FILE then validity_loop env i errors m
      else
        (case (pkg_db (m_pkg m p), filename (m_pkg m p)) of
           (Some d, Some name) \<Rightarrow>
             let path = cached_file m name;
                 ((r, siglist, v), st) =
                   alpm_pkg_validate_internal (ce_pkg env (mdisk m)) path (Some (m_pkg m p)) (pkg_siglevel m d) 0 (m_pgp m);
                 m = put_pgp st m
             in if r = -1
                then validity_loop env i
                       (errors @ [\<lparr>iv_path = path, iv_siglist = siglist, iv_error = pm_errno (handle (mworld m))\<rparr>]) m
                else validity_loop env i errors (m\<lparr>mworld := upd_pkg p (\<lambda>pkg. pkg\<lparr>validation := v\<rparr>) (mworld m)\<rparr>)
         | _ \<Rightarrow> None))"

text \<open>The switch over the errors: import keys, ask whether to delete the file. A package whose file was not
  found has an error for which nothing is done.\<close>

definition report_invalid :: "'r commit_env \<Rightarrow> invalid_pkg \<Rightarrow> 'r machine \<Rightarrow> 'r machine option" where
  "report_invalid env v m =
     (case (iv_error v, iv_path v) of
        (ALPM_ERR_PKG_INVALID_SIG, Some path) \<Rightarrow>
          (case alpm_process_siglist (pk_pgp (ce_pkg env (mdisk m))) (case iv_siglist v of None \<Rightarrow> [] | Some l \<Rightarrow> l) (m_pgp m) of
             None \<Rightarrow> None
           | Some (_, st) \<Rightarrow> Some (snd (prompt_to_delete env path (put_pgp st m))))
      | (ALPM_ERR_PKG_INVALID_CHECKSUM, Some path) \<Rightarrow> Some (snd (prompt_to_delete env path m))
      | _ \<Rightarrow> Some m)"

fun report_all :: "'r commit_env \<Rightarrow> invalid_pkg list \<Rightarrow> 'r machine \<Rightarrow> 'r machine option" where
  "report_all env [] m = Some m"
| "report_all env (v # i) m = (case report_invalid env v m of None \<Rightarrow> None | Some m \<Rightarrow> report_all env i m)"

definition invalid_unless_set :: "'r machine \<Rightarrow> 'r machine" where
  "invalid_unless_set m = (if pm_errno (handle (mworld m)) = ALPM_ERR_OK then m_error ALPM_ERR_PKG_INVALID m else m)"

definition check_validity :: "'r commit_env \<Rightarrow> 'r machine \<Rightarrow> (int \<times> 'r machine) option" where
  "check_validity env m =
     (case validity_loop env (tadd (transaction (mworld m))) [] m of
        None \<Rightarrow> None
      | Some (errors, m) \<Rightarrow>
          if errors = [] then Some (0, m)
          else (case report_all env errors m of None \<Rightarrow> None | Some m \<Rightarrow> Some (-1, invalid_unless_set m)))"

section \<open>Loading\<close>

text \<open>The package that is loaded takes the place of the one from the sync database.\<close>

definition load_target :: "pkgref \<Rightarrow> alpm_pkg_t \<Rightarrow> 'r machine \<Rightarrow> pkgref \<times> 'r machine" where
  "load_target p pkgfile m =
     (let w = mworld m; spkg = wpkgs w p; q = next_ref w;
          pkgfile = pkgfile\<lparr>preason := preason spkg, validation := validation spkg, oldpkg := oldpkg spkg\<rparr>;
          freed = (case alpm_pkg_free_trans (spkg\<lparr>oldpkg := None\<rparr>) of None \<Rightarrow> spkg\<lparr>oldpkg := None\<rparr> | Some pkg \<Rightarrow> pkg)
      in (q, m\<lparr>mworld := w\<lparr>wpkgs := (wpkgs w)(p := freed, q := pkgfile), next_ref := q + 1\<rparr>\<rparr>))"

text \<open>The targets as they are then, the files that could not be loaded, and the machine.\<close>

fun load_loop :: "'r commit_env \<Rightarrow> pkgref list \<Rightarrow> 'r machine \<Rightarrow> (pkgref list \<times> string list \<times> 'r machine) option" where
  "load_loop env [] m = Some ([], [], m)"
| "load_loop env (p # i) m =
     (if origin (m_pkg m p) = ALPM_PKG_FROM_FILE
      then map_option (\<lambda>(ps, bad, m). (p # ps, bad, m)) (load_loop env i m)
      else
        (case (filename (m_pkg m p), version (m_pkg m p)) of
           (Some name, Some ver) \<Rightarrow>
             (case alpm_pkg_load_internal (ce_pkg env (mdisk m)) (cached_file m name) True (pm_errno (handle (mworld m))) of
                None \<Rightarrow> None
              | Some (found, e) \<Rightarrow>
                  let m = m_error e m
                  in (case found of
                        None \<Rightarrow> map_option (\<lambda>(ps, bad, m). (p # ps, name # bad, m)) (load_loop env i m)
                      | Some pkgfile \<Rightarrow>
                          if pname pkgfile \<noteq> pname (m_pkg m p) \<or> version pkgfile \<noteq> Some ver
                          then map_option (\<lambda>(ps, bad, m). (p # ps, name # bad, m)) (load_loop env i m)
                          else
                            (case load_target p pkgfile m of
                               (q, m) \<Rightarrow> map_option (\<lambda>(ps, bad, m). (q # ps, bad, m)) (load_loop env i m))))
         | _ \<Rightarrow> None))"

text \<open>\<open>given\<close> is whether there is a place for the names of the files; it is written without a test.\<close>

definition load_packages :: "'r commit_env \<Rightarrow> bool \<Rightarrow> 'r machine \<Rightarrow> (int \<times> string list \<times> 'r machine) option" where
  "load_packages env given m =
     (case load_loop env (tadd (transaction (mworld m))) m of
        None \<Rightarrow> None
      | Some (targets, bad, m) \<Rightarrow>
          if bad \<noteq> [] \<and> \<not> given then None
          else
            let m = m\<lparr>mworld := upd_trans (\<lambda>t. t\<lparr>tadd := targets\<rparr>) (mworld m)\<rparr>
            in if bad \<noteq> [] then Some (-1, bad, invalid_unless_set m) else Some (0, [], m))"

datatype commit_data = Bad_package string | File_conflict alpm_fileconflict_t

definition alpm_sync_load :: "'r commit_env \<Rightarrow> bool \<Rightarrow> 'r machine \<Rightarrow> (int \<times> commit_data list \<times> 'r machine) option" where
  "alpm_sync_load env given m =
     (case download_files env m of
        None \<Rightarrow> None
      | Some (r, m) \<Rightarrow>
          if r = -1 then Some (-1, [], m)
          else
            (case check_keyring env m of
               None \<Rightarrow> None
             | Some (r, m) \<Rightarrow>
                 if r \<noteq> 0 then Some (-1, [], m)
                 else
                   (case check_validity env m of
                      None \<Rightarrow> None
                    | Some (r, m) \<Rightarrow>
                        if r \<noteq> 0 then Some (-1, [], m)
                        else if has_flag (transaction (mworld m)) ALPM_TRANS_FLAG_DOWNLOADONLY then Some (0, [], m)
                        else map_option (\<lambda>(r, bad, m). (r, map Bad_package bad, m)) (load_packages env given m))))"

section \<open>The last checks\<close>

definition alpm_sync_check :: "'r commit_env \<Rightarrow> 'r machine \<Rightarrow> int \<times> commit_data list \<times> 'r machine" where
  "alpm_sync_check env m =
     (let w = mworld m; dbonly = has_flag (transaction w) ALPM_TRANS_FLAG_DBONLY;
          (conflict, w) = (if dbonly then ([], w)
                           else alpm_db_find_fileconflicts (sys_fnmatch (ce_sys env)) (ce_conflict env (mdisk m)) w
                                  (tadd (transaction w)) (tremove (transaction w)));
          m = m\<lparr>mworld := w\<rparr>
      in if conflict \<noteq> [] then (-1, map File_conflict conflict, m_error ALPM_ERR_FILE_CONFLICTS m)
         else if checkspace (handle w) \<noteq> 0 \<and> \<not> dbonly then
           (let (r, e) = ce_diskspace env w (mdisk m) in (if r = -1 then -1 else 0, [], m_error e m))
         else (0, [], m))"

section \<open>Committing\<close>

definition m_remove :: "'r commit_env \<Rightarrow> dbref \<Rightarrow> bool \<Rightarrow> 'r machine \<Rightarrow> (int \<times> 'r machine) option" where
  "m_remove env d run_ldconfig m =
     map_option (\<lambda>(r, w, fs). (r, m\<lparr>mworld := w, mdisk := fs\<rparr>))
       (alpm_remove_packages (ce_sys env) (ce_stop_remove env) d run_ldconfig (mworld m) (mdisk m))"

definition m_upgrade :: "'r commit_env \<Rightarrow> dbref \<Rightarrow> 'r machine \<Rightarrow> (int \<times> 'r machine) option" where
  "m_upgrade env d m =
     map_option (\<lambda>(r, w, fs). (r, m\<lparr>mworld := w, mdisk := fs\<rparr>))
       (alpm_upgrade_packages (ce_sys env) (ce_force_load env) (ce_stop_add env) d (mworld m) (mdisk m))"

definition alpm_sync_commit :: "'r commit_env \<Rightarrow> dbref \<Rightarrow> 'r machine \<Rightarrow> (int \<times> 'r machine) option" where
  "alpm_sync_commit env d m =
     (case (if tremove (transaction (mworld m)) \<noteq> [] then m_remove env d False m else Some (0, m)) of
        None \<Rightarrow> None
      | Some (r, m) \<Rightarrow>
          if r = -1 then Some (-1, m)
          else map_option (\<lambda>(r, m). (if r = -1 then -1 else 0, m)) (m_upgrade env d m))"

definition m_hook :: "'r commit_env \<Rightarrow> bool \<Rightarrow> 'r machine \<Rightarrow> int \<times> 'r machine" where
  "m_hook env pre m =
     (if has_flag (transaction (mworld m)) ALPM_TRANS_FLAG_NOHOOKS then (0, m)
      else (let (r, e, fs) = ce_hook env pre (mworld m) (mdisk m) in (r, m_error e (m\<lparr>mdisk := fs\<rparr>))))"

definition commit_targets :: "'r commit_env \<Rightarrow> dbref \<Rightarrow> 'r machine \<Rightarrow> (int \<times> 'r machine) option" where
  "commit_targets env d m = (if tadd (transaction (mworld m)) = [] then m_remove env d True m else alpm_sync_commit env d m)"

text \<open>The hooks after the transaction are left out if it was interrupted.\<close>

definition end_transaction :: "'r commit_env \<Rightarrow> 'r machine \<Rightarrow> 'r machine" where
  "end_transaction env m =
     m_state STATE_COMMITED
       (if tstate (transaction (mworld m)) = STATE_INTERRUPTED then m else snd (m_hook env False m))"

text \<open>From the hooks before the transaction to the end.\<close>

definition run_transaction :: "'r commit_env \<Rightarrow> dbref \<Rightarrow> 'r machine \<Rightarrow> (int \<times> 'r machine) option" where
  "run_transaction env d m =
     (let (r, m) = m_hook env True m
      in if r \<noteq> 0 then Some (-1, m_error ALPM_ERR_TRANS_HOOK_FAILED m)
         else
           map_option (\<lambda>(r, m). if r = -1 then (-1, m) else (0, end_transaction env m))
             (commit_targets env d (m_state STATE_COMMITING m)))"

text \<open>The handle is not null; \<open>d\<close> is the local database.\<close>

definition alpm_trans_commit :: "'r commit_env \<Rightarrow> dbref \<Rightarrow> bool \<Rightarrow> 'r machine \<Rightarrow> (int \<times> commit_data list \<times> 'r machine) option" where
  "alpm_trans_commit env d given m =
     (let m = m_error ALPM_ERR_OK m
      in case trans (handle (mworld m)) of
           None \<Rightarrow> Some (-1, [], m_error ALPM_ERR_TRANS_NULL m)
         | Some t \<Rightarrow>
             if tstate t \<noteq> STATE_PREPARED then Some (-1, [], m_error ALPM_ERR_TRANS_NOT_PREPARED m)
             else if has_flag t ALPM_TRANS_FLAG_NOLOCK then Some (-1, [], m_error ALPM_ERR_TRANS_NOT_LOCKED m)
             else if tadd t = [] \<and> tremove t = [] then Some (0, [], m)
             else
               (case (if tadd t = [] then Some (0, [], m) else alpm_sync_load env given m) of
                  None \<Rightarrow> None
                | Some (r, data, m) \<Rightarrow>
                    if r \<noteq> 0 then Some (-1, data, m)
                    else if tadd t \<noteq> [] \<and> has_flag t ALPM_TRANS_FLAG_DOWNLOADONLY then Some (0, data, m)
                    else
                      (case (if tadd t = [] then (0, data, m)
                             else (let (r, conflicts, m) = alpm_sync_check env m in (r, data @ conflicts, m))) of
                         (r, data, m) \<Rightarrow>
                           if r \<noteq> 0 then Some (-1, data, m)
                           else map_option (\<lambda>(r, m). (r, data, m)) (run_transaction env d m))))"

section \<open>What the steps keep\<close>

text \<open>What decides which file a package is loaded from and how it is checked, and what the steps keep of the rest.\<close>

definition file_id :: "alpm_pkg_t \<Rightarrow> string \<times> string option \<times> alpm_pkgfrom_t \<times> origin_data \<times> string option \<times> string option \<times> string option \<times> string option" where
  "file_id p = (pname p, version p, origin p, origin_data p, filename p, md5sum p, sha256sum p, base64_sig p)"

definition hview :: "alpm_handle_t \<Rightarrow> (u32 \<times> alpm_transstate_t \<times> pkgref list \<times> pkgref list) option \<times> u32 \<times> string \<times> dbref option \<times> string option \<times> int" where
  "hview h = (map_option (\<lambda>t. (tflags t, tstate t, tadd t, tremove t)) (trans h), hsiglevel h, root h, db_local h, lockfile h, lockfd h)"

definition wview :: "alpm_world \<Rightarrow> _" where
  "wview w = (hview (handle w), wdbs w, next_ref w, \<lambda>p. file_id (wpkgs w p))"

definition mview :: "'r machine \<Rightarrow> _" where
  "mview m = (wview (mworld m), cachedirs (handle (mworld m)), mdisk m)"

lemma file_idD:
  assumes "file_id p = file_id q"
  shows "pname p = pname q" "version p = version q" "origin p = origin q" "origin_data p = origin_data q" "filename p = filename q"
    "md5sum p = md5sum q" "sha256sum p = sha256sum q" "base64_sig p = base64_sig q"
  using assms by (simp_all add: file_id_def)

lemma wview_simps [simp]:
  "wview (set_errno e w) = wview w"
  by (simp_all add: wview_def hview_def set_errno_def)

lemma wview_state:
  assumes "wview w = wview w'"
  shows "wview (upd_trans (\<lambda>t. t\<lparr>tstate := s\<rparr>) w) = wview (upd_trans (\<lambda>t. t\<lparr>tstate := s\<rparr>) w')"
  using assms by (cases "trans (handle w)"; cases "trans (handle w')") (auto simp: wview_def hview_def upd_trans_def)

lemma wview_upd_pkg: "(\<And>p. file_id (f p) = file_id p) \<Longrightarrow> wview (upd_pkg p f w) = wview w"
  by (auto simp: wview_def upd_pkg_def)

lemma m_error_view [simp]: "mview (m_error e m) = mview m" "mdisk (m_error e m) = mdisk m" "wview (mworld (m_error e m)) = wview (mworld m)"
  by (simp_all add: mview_def m_error_def set_errno_def wview_def hview_def)

text \<open>The signature code changes nothing of the handle but the error and the known keys.\<close>

definition sview :: "'r pgp_state \<Rightarrow> _" where
  "sview st = (hview (pgp_handle st), cachedirs (pgp_handle st), dbpath (pgp_handle st), dbext (pgp_handle st))"

lemma sview_errno [simp]: "sview (sig_errno e st) = sview st"
  by (simp add: sview_def sig_errno_def hview_def)

lemma sview_ring [simp]: "sview (st\<lparr>pgp_ring := r\<rparr>) = sview st" "sview (st\<lparr>pgp_init := i\<rparr>) = sview st"
  by (simp_all add: sview_def)

lemma sview_known [simp]: "sview (st\<lparr>pgp_handle := (pgp_handle st)\<lparr>known_keys := k\<rparr>\<rparr>) = sview st"
  by (simp add: sview_def hview_def)

lemma init_view: "init_gpgme env st = (r, st') \<Longrightarrow> sview st' = sview st"
  by (auto simp: init_gpgme_def Let_def split: if_splits)

lemma get_key_view: "get_key env mode fpr st = (r, st') \<Longrightarrow> sview st' = sview st"
  by (auto simp: get_key_def split: prod.splits)

lemma in_keychain_view: "alpm_key_in_keychain env fpr st = (r, st') \<Longrightarrow> sview st' = sview st"
  by (auto simp: alpm_key_in_keychain_def Let_def dest!: init_view get_key_view split: prod.splits if_splits)

lemma wkd_view: "key_import_wkd env email st = (r, st') \<Longrightarrow> sview st' = sview st"
  by (auto simp: key_import_wkd_def Let_def dest!: get_key_view split: prod.splits if_splits)

lemma search_view: "key_search_keyserver env fpr st = Some (r, st') \<Longrightarrow> sview st' = sview st"
  by (auto simp: key_search_keyserver_def Let_def dest!: get_key_view split: prod.splits if_splits)

lemma import_keyserver_view: "key_import_keyserver env key st = (r, st') \<Longrightarrow> sview st' = sview st"
  by (auto simp: key_import_keyserver_def Let_def split: prod.splits if_splits)

lemma key_import_view: "alpm_key_import env uid fpr st = Some (r, st') \<Longrightarrow> sview st' = sview st"
  by (auto simp: alpm_key_import_def Let_def dest!: wkd_view search_view import_keyserver_view
      split: prod.splits if_splits option.splits)

lemma results_loop_view: "results_loop env gs st = (r, st') \<Longrightarrow> sview st' = sview st"
  by (induction gs arbitrary: st r) (auto simp: Let_def dest!: get_key_view split: prod.splits if_splits)

lemma verify_view: "verify_signature env p src st = (r, st') \<Longrightarrow> sview st' = sview st"
  by (auto simp: verify_signature_def Let_def dest!: results_loop_view split: prod.splits if_splits)

lemma checksig_view: "alpm_gpgme_checksig env path sig64 l st = (r, st') \<Longrightarrow> sview st' = sview st"
  by (auto simp: alpm_gpgme_checksig_def Let_def dest!: init_view verify_view split: prod.splits if_splits option.splits)

lemma helper_view: "alpm_check_pgp_helper env path sig64 a b c st = (r, st') \<Longrightarrow> sview st' = sview st"
  by (auto simp: alpm_check_pgp_helper_def Let_def dest!: checksig_view split: prod.splits if_splits)

lemma validate_view: "alpm_pkg_validate_internal env path p level v st = (r, st') \<Longrightarrow> sview st' = sview st"
  by (auto simp: alpm_pkg_validate_internal_def Let_def dest!: helper_view split: prod.splits if_splits option.splits sum.splits)

lemma put_pgp_view: "sview st = sview (m_pgp m) \<Longrightarrow> mview (put_pgp st m) = mview m"
  by (simp add: mview_def wview_def put_pgp_def sview_def m_pgp_def)

lemma unknown_keys_view: "unknown_keys env owner k errors st = Some (r, st') \<Longrightarrow> sview st' = sview st"
  by (induction k arbitrary: errors st) (auto simp: Let_def dest!: in_keychain_view split: prod.splits if_splits option.splits)

lemma import_errors_view: "import_errors env k fail st = Some (r, st') \<Longrightarrow> sview st' = sview st"
  by (induction k arbitrary: fail st) (auto dest!: key_import_view split: prod.splits if_splits option.splits)

lemma get_sig_view: "alpm_pkg_get_sig env pkg m = Some (r, m') \<Longrightarrow> mview m' = mview m"
  by (auto simp: alpm_pkg_get_sig_def split: option.splits if_splits sum.splits)

lemma keyring_errors_view: "keyring_errors env ps errors m = Some (r, m') \<Longrightarrow> mview m' = mview m"
proof (induction ps arbitrary: errors m)
  case (Cons p ps)
  then show ?case
    by (auto dest!: get_sig_view unknown_keys_view put_pgp_view split: if_splits option.splits prod.splits)
qed simp

lemma check_keyring_view: "check_keyring env m = Some (r, m') \<Longrightarrow> mview m' = mview m"
  by (auto simp: check_keyring_def dest!: keyring_errors_view import_errors_view put_pgp_view split: if_splits option.splits prod.splits)

lemma filecache_view: "alpm_filecache_setup a b c h fs = Some (dir, h', fs') \<Longrightarrow> hview h' = hview h"
  by (auto simp: alpm_filecache_setup_def alpm_option_add_cachedir_def check_handle_def ret_err_def hview_def Let_def
      split: prod.splits option.splits if_splits)

lemma find_dl_view: "find_dl_candidates ps l m = Some (r, l', m') \<Longrightarrow> wview (mworld m') = wview (mworld m)"
proof (induction ps arbitrary: l m)
  case (Cons p ps)
  then show ?case by (auto split: if_splits option.splits)
qed simp

lemma forget_view: "wview (mworld (forget_sizes m)) = wview (mworld m)"
proof -
  have "wview (fold (\<lambda>p. upd_pkg p (\<lambda>pkg. pkg\<lparr>infolevel := infolevel pkg AND NOT INFRQ_DSIZE, download_size := 0\<rparr>)) ps w) = wview w" for ps w
    by (induction ps arbitrary: w) (simp_all add: wview_upd_pkg file_id_def)
  then show ?thesis by (simp add: forget_sizes_def)
qed

lemma fetch_view: "fetch_files env dir l m = (r, m') \<Longrightarrow> wview (mworld m') = wview (mworld m)"
  by (auto simp: fetch_files_def Let_def m_error_def split: prod.splits if_splits)

lemma download_view:
  assumes "download_files env m = Some (r, m')"
  shows "wview (mworld m') = wview (mworld (m_state STATE_DOWNLOADING m))"
proof -
  obtain dir h fs where f: "alpm_filecache_setup (ce_writable env) (ce_tmpdir env) (ce_stale_dir env) (handle (mworld m)) (mdisk m) = Some (dir, h, fs)"
    using assms by (auto simp: download_files_def split: option.splits)
  define m1 where "m1 = m_state STATE_DOWNLOADING (m\<lparr>mworld := (mworld m)\<lparr>handle := h\<rparr>, mdisk := fs\<rparr>)"
  have v1: "wview (mworld m1) = wview (mworld (m_state STATE_DOWNLOADING m))"
    using wview_state [of "(mworld m)\<lparr>handle := h\<rparr>" "mworld m" STATE_DOWNLOADING] filecache_view [OF f]
    by (simp add: m1_def m_state_def wview_def)
  obtain ret l m2 where d: "find_dl_candidates (tadd (transaction (mworld m1))) [] m1 = Some (ret, l, m2)"
    using assms f by (auto simp: download_files_def m1_def Let_def split: option.splits)
  obtain ret' m3 where e: "fetch_files env dir l m2 = (ret', m3)" by fastforce
  have "m' = forget_sizes m2 \<or> m' = forget_sizes m3"
    using assms f d e by (auto simp: download_files_def m1_def Let_def split: if_splits)
  then show ?thesis using v1 find_dl_view [OF d] fetch_view [OF e] by (auto simp: forget_view)
qed

section \<open>What passes\<close>

lemma siglevel_view:
  assumes "wview (mworld m') = wview (mworld m)"
  shows "pkg_siglevel m' d = pkg_siglevel m d"
proof -
  have "hview (handle (mworld m')) = hview (handle (mworld m))" "wdbs (mworld m') = wdbs (mworld m)"
    using assms unfolding wview_def prod.inject by blast+
  moreover from this(1) have "hsiglevel (handle (mworld m')) = hsiglevel (handle (mworld m))"
    unfolding hview_def prod.inject by (elim conjE)
  ultimately show ?thesis unfolding pkg_siglevel_def alpm_db_get_siglevel_def by (simp only:)
qed

lemma file_id_view:
  assumes "wview (mworld m') = wview (mworld m)"
  shows "file_id (m_pkg m' p) = file_id (m_pkg m p)"
proof -
  have "(\<lambda>p. file_id (wpkgs (mworld m') p)) = (\<lambda>p. file_id (wpkgs (mworld m) p))"
    using assms unfolding wview_def prod.inject by (elim conjE)
  then show ?thesis unfolding m_pkg_def by (rule fun_cong)
qed

lemma pkg_db_id: "file_id p = file_id q \<Longrightarrow> pkg_db p = pkg_db q"
  using file_idD(4) [of p q] by (simp add: pkg_db_def)

lemma cached_view: "mview m' = mview m \<Longrightarrow> cached_file m' name = cached_file m name"
  by (simp add: mview_def cached_file_def)

text \<open>A package as it is checked: signed well enough, or without a signature where it is optional, with its sums.\<close>

definition passed :: "'r commit_env \<Rightarrow> filesys \<Rightarrow> string \<Rightarrow> alpm_pkg_t \<Rightarrow> u32 \<Rightarrow> bool" where
  "passed env fs path p level \<longleftrightarrow>
     g_readable (pk_pgp (ce_pkg env fs)) path \<and>
     (\<exists>ring. level AND ALPM_SIG_PACKAGE \<noteq> 0 \<longrightarrow>
        signed_well (pk_pgp (ce_pkg env fs)) path (base64_sig p) level ring \<or>
        level AND ALPM_SIG_PACKAGE_OPTIONAL \<noteq> 0 \<and> no_signature (pk_pgp (ce_pkg env fs)) path (base64_sig p) ring) \<and>
     (sums_match (ce_pkg env fs) path p \<or> level AND ALPM_SIG_PACKAGE \<noteq> 0 \<and> base64_sig p \<noteq> None)"

lemma passed_id:
  assumes "file_id p = file_id q"
  shows "passed env fs path p level = passed env fs path q level"
  unfolding passed_def sums_match_def file_idD(6-8) [OF assms] by (rule refl)

lemma validate_result:
  assumes "alpm_pkg_validate_internal env path p level v st = ((r, l, v'), st')"
  shows "r = 0 \<or> r = -1"
proof (cases "\<exists>f. path = Some f \<and> f \<noteq> [] \<and> g_readable (pk_pgp env) f")
  case False
  then show ?thesis using assms by (cases path) (auto simp: alpm_pkg_validate_internal_def Let_def split: if_splits)
next
  case True
  then obtain f where f: "path = Some f" "f \<noteq> []" "g_readable (pk_pgp env) f" by blast
  show ?thesis
  proof (cases "check_sums env f p (pkg_has_sig env f p level) v")
    case (Inl e)
    then show ?thesis using assms f by (simp add: alpm_pkg_validate_internal_def Let_def)
  next
    case (Inr v1)
    obtain r1 l1 st1 where "alpm_check_pgp_helper (pk_pgp env) (Some f) (case p of None \<Rightarrow> None | Some q \<Rightarrow> base64_sig q)
        (level AND ALPM_SIG_PACKAGE_OPTIONAL \<noteq> 0) (level AND ALPM_SIG_PACKAGE_MARGINAL_OK \<noteq> 0)
        (level AND ALPM_SIG_PACKAGE_UNKNOWN_OK \<noteq> 0) (sig_errno ALPM_ERR_OK st) = ((r1, l1), st1)" by (metis surj_pair)
    then show ?thesis using assms f Inr by (simp add: alpm_pkg_validate_internal_def Let_def split: if_splits)
  qed
qed

lemma validate_passed:
  assumes "alpm_pkg_validate_internal (ce_pkg env fs) path (Some p) level v st = ((r, l, v'), st')" "r \<noteq> -1"
  shows "\<exists>f. path = Some f \<and> passed env fs f p level"
proof -
  have "r = 0" using validate_result [OF assms(1)] assms(2) by simp
  then show ?thesis using validate_sound [of "ce_pkg env fs" path "Some p" level v st l v' st'] assms(1)
    by (auto simp: passed_def sync_sig_def)
qed

text \<open>If the list of errors stays empty, every target from a sync database has passed.\<close>

lemma validity_spec:
  assumes "validity_loop env ps errors m = Some ([], m')"
  shows "mview m' = mview m \<and> errors = [] \<and>
    (\<forall>p\<in>set ps. origin (m_pkg m p) \<noteq> ALPM_PKG_FROM_FILE \<longrightarrow>
      (\<exists>d name path. pkg_db (m_pkg m p) = Some d \<and> filename (m_pkg m p) = Some name \<and> cached_file m name = Some path \<and>
        passed env (mdisk m) path (m_pkg m p) (pkg_siglevel m d)))"
  using assms
proof (induction ps arbitrary: errors m)
  case (Cons p ps)
  show ?case
  proof (cases "origin (m_pkg m p) = ALPM_PKG_FROM_FILE")
    case True
    then show ?thesis using Cons by auto
  next
    case False
    then obtain d name where dn: "pkg_db (m_pkg m p) = Some d" "filename (m_pkg m p) = Some name"
      using Cons.prems by (auto split: option.splits)
    obtain r sl v st where val: "alpm_pkg_validate_internal (ce_pkg env (mdisk m)) (cached_file m name) (Some (m_pkg m p))
        (pkg_siglevel m d) 0 (m_pgp m) = ((r, sl, v), st)" by (metis surj_pair)
    define m1 where "m1 = put_pgp st m"
    define m2 where "m2 = m1\<lparr>mworld := upd_pkg p (\<lambda>pkg. pkg\<lparr>validation := v\<rparr>) (mworld m1)\<rparr>"
    have v1: "mview m1 = mview m" using put_pgp_view validate_view [OF val] by (simp add: m1_def)
    have v2: "mview m2 = mview m1" by (simp add: m2_def mview_def wview_upd_pkg file_id_def)
    have r: "r \<noteq> -1"
    proof
      assume "r = -1"
      then have "validity_loop env ps (errors @ [\<lparr>iv_path = cached_file m name, iv_siglist = sl, iv_error = pm_errno (handle (mworld m1))\<rparr>]) m1 = Some ([], m')"
        using Cons.prems False dn val by (simp add: m1_def Let_def)
      from Cons.IH [OF this] show False by simp
    qed
    then have "validity_loop env ps errors m2 = Some ([], m')"
      using Cons.prems False dn val by (simp add: m1_def m2_def Let_def)
    note ih = Cons.IH [OF this]
    have v: "mview m2 = mview m" "wview (mworld m2) = wview (mworld m)" "mdisk m2 = mdisk m"
      using v1 v2 by (simp_all add: mview_def)
    note same = file_id_view [OF v(2)] siglevel_view [OF v(2)] cached_view [OF v(1)]
    have "\<exists>d name path. pkg_db (m_pkg m q) = Some d \<and> filename (m_pkg m q) = Some name \<and> cached_file m name = Some path \<and>
        passed env (mdisk m) path (m_pkg m q) (pkg_siglevel m d)"
      if "q \<in> set (p # ps)" "origin (m_pkg m q) \<noteq> ALPM_PKG_FROM_FILE" for q
    proof (cases "q = p")
      case True
      then show ?thesis using validate_passed [OF val r] dn by auto
    next
      case False
      then show ?thesis using ih that same(2,3) v(3) pkg_db_id [OF same(1)] passed_id [OF same(1)] file_idD(3,5) [OF same(1)]
        by (metis set_ConsD)
    qed
    then show ?thesis using ih v(1) by simp
  qed
qed simp

section \<open>What is loaded\<close>

lemma load_internal_origin:
  assumes "alpm_pkg_load_internal env path full n = Some (Some p, e)"
  shows "\<exists>f. path = Some f \<and> origin p = ALPM_PKG_FROM_FILE \<and> origin_data p = Origin_file f"
  using load_complete [OF assms] by auto

text \<open>What replaces a target: itself if it comes from a file, and otherwise the package in the file of the cache.\<close>

definition replaces_target :: "'r machine \<Rightarrow> 'r machine \<Rightarrow> pkgref \<Rightarrow> pkgref \<Rightarrow> bool" where
  "replaces_target m m' p q \<longleftrightarrow>
     (if origin (m_pkg m p) = ALPM_PKG_FROM_FILE then q = p
      else pname (m_pkg m' q) = pname (m_pkg m p) \<and> version (m_pkg m' q) = version (m_pkg m p) \<and>
        origin (m_pkg m' q) = ALPM_PKG_FROM_FILE \<and>
        (\<exists>name path. filename (m_pkg m p) = Some name \<and> cached_file m name = Some path \<and>
           origin_data (m_pkg m' q) = Origin_file path))"

definition grows :: "'r machine \<Rightarrow> 'r machine \<Rightarrow> bool" where
  "grows m m' \<longleftrightarrow>
     mdisk m' = mdisk m \<and> cachedirs (handle (mworld m')) = cachedirs (handle (mworld m)) \<and>
     hview (handle (mworld m')) = hview (handle (mworld m)) \<and> wdbs (mworld m') = wdbs (mworld m) \<and>
     next_ref (mworld m) \<le> next_ref (mworld m') \<and>
     (\<forall>x<next_ref (mworld m). file_id (m_pkg m' x) = file_id (m_pkg m x))"

lemma grows_refl [simp]: "grows m m"
  by (simp add: grows_def)

lemma grows_trans: "grows m m' \<Longrightarrow> grows m' m'' \<Longrightarrow> grows m m''"
  by (auto simp: grows_def)

lemma grows_error [simp]: "grows m (m_error e m)" "grows (m_error e m) m' = grows m m'"
  by (auto simp: grows_def m_error_def set_errno_def m_pkg_def hview_def)

lemma grows_cached: "grows m m' \<Longrightarrow> cached_file m' name = cached_file m name"
  by (simp add: grows_def cached_file_def)

lemma replaces_grows:
  assumes "grows m m1" "replaces_target m1 m' p q" "p < next_ref (mworld m)"
  shows "replaces_target m m' p q"
proof -
  have e: "file_id (m_pkg m1 p) = file_id (m_pkg m p)" using assms(1,3) by (simp add: grows_def)
  show ?thesis
    using assms(2) unfolding replaces_target_def file_idD(1,2,3,5) [OF e] grows_cached [OF assms(1)] .
qed

lemma load_target_spec:
  assumes "load_target p pkgfile m = (q, m')" "p < next_ref (mworld m)"
  shows "q = next_ref (mworld m)" "grows m m'" "next_ref (mworld m') = q + 1" "file_id (m_pkg m' q) = file_id pkgfile"
  using assms
  by (auto simp: load_target_def Let_def grows_def m_pkg_def file_id_def alpm_pkg_free_trans_def split: if_splits)

lemma load_targets_spec:
  assumes "load_loop env ps m = Some (qs, [], m')" "\<forall>p\<in>set ps. p < next_ref (mworld m)"
  shows "grows m m' \<and> list_all2 (replaces_target m m') ps qs"
  using assms
proof (induction ps arbitrary: qs m)
  case (Cons p ps)
  have p: "p < next_ref (mworld m)" "\<forall>p\<in>set ps. p < next_ref (mworld m)" using Cons.prems(2) by auto
  show ?case
  proof (cases "origin (m_pkg m p) = ALPM_PKG_FROM_FILE")
    case True
    then obtain qs' where l: "load_loop env ps m = Some (qs', [], m')" "qs = p # qs'" using Cons.prems(1) by auto
    then show ?thesis using Cons.IH [OF l(1) p(2)] True by (simp add: replaces_target_def)
  next
    case False
    then obtain name ver where nv: "filename (m_pkg m p) = Some name" "version (m_pkg m p) = Some ver"
      using Cons.prems(1) by (auto split: option.splits)
    obtain r e where load: "alpm_pkg_load_internal (ce_pkg env (mdisk m)) (cached_file m name) True (pm_errno (handle (mworld m))) = Some (r, e)"
      using Cons.prems(1) False nv by (auto split: option.splits)
    obtain pkgfile where r: "r = Some pkgfile" using Cons.prems(1) False nv load by (cases r) (auto simp: Let_def)
    have same: "pname pkgfile = pname (m_pkg m p)" "version pkgfile = Some ver"
      using Cons.prems(1) False nv load r by (auto simp: Let_def m_error_def set_errno_def m_pkg_def split: if_splits prod.splits)
    obtain q m1 where t: "load_target p pkgfile (m_error e m) = (q, m1)" by fastforce
    have p': "p < next_ref (mworld (m_error e m))" using p(1) by (simp add: m_error_def set_errno_def)
    note t1 = load_target_spec [OF t p']
    have g: "grows m m1" using t1(2) by simp
    obtain qs' where l: "load_loop env ps m1 = Some (qs', [], m')" "qs = q # qs'"
      using Cons.prems(1) False nv load r same t by (auto simp: Let_def m_error_def set_errno_def m_pkg_def split: if_splits)
    have "\<forall>p\<in>set ps. p < next_ref (mworld m1)" using p(2) g by (auto simp: grows_def)
    note ih = Cons.IH [OF l(1) this]
    have g': "grows m m'" using g ih grows_trans by blast
    have "q < next_ref (mworld m1)" using t1(3) by simp
    then have q: "file_id (m_pkg m' q) = file_id pkgfile" using ih t1(4) by (simp add: grows_def)
    obtain f where f: "cached_file m name = Some f" "origin pkgfile = ALPM_PKG_FROM_FILE" "origin_data pkgfile = Origin_file f"
      using load_internal_origin load unfolding r by blast
    have "replaces_target m m' p q"
      using False nv same f file_idD(1-4) [OF q] by (simp add: replaces_target_def)
    moreover have "list_all2 (replaces_target m m') ps qs'"
      using ih p(2) replaces_grows [OF g] by (metis (no_types, lifting) list_all2_mono list.rel_mono_strong)
    ultimately show ?thesis using g' l(2) by simp
  qed
qed simp

section \<open>Only what has passed is loaded\<close>

lemma trans_view:
  assumes "hview (handle w') = hview (handle w)" "trans (handle w) \<noteq> None"
  shows "trans (handle w') \<noteq> None \<and> tadd (transaction w') = tadd (transaction w) \<and> tremove (transaction w') = tremove (transaction w) \<and>
    tflags (transaction w') = tflags (transaction w)"
  using assms by (auto simp: hview_def transaction_def)

lemma wview_parts:
  assumes "wview w' = wview w"
  shows "hview (handle w') = hview (handle w)" "next_ref w' = next_ref w"
  using assms unfolding wview_def prod.inject by blast+

lemma check_validity_ok: "check_validity env m = Some (0, m') \<Longrightarrow> validity_loop env (tadd (transaction (mworld m))) [] m = Some ([], m')"
  by (auto simp: check_validity_def split: option.splits if_splits)

lemma load_packages_ok:
  assumes "load_packages env given m = Some (0, bad, m')"
  shows "\<exists>qs m1. load_loop env (tadd (transaction (mworld m))) m = Some (qs, [], m1) \<and>
    m' = m1\<lparr>mworld := upd_trans (\<lambda>t. t\<lparr>tadd := qs\<rparr>) (mworld m1)\<rparr>"
  using assms by (auto simp: load_packages_def Let_def split: option.splits if_splits)

lemma loaded_from:
  assumes w1: "wview (mworld m1) = wview (mworld m)" and k: "check_keyring env m1 = Some (0, m2)"
    and c: "check_validity env m2 = Some (0, m3)" and l: "load_packages env given m3 = Some (0, bad, m')"
    and t: "trans (handle (mworld m)) \<noteq> None" and old: "\<forall>p\<in>set (tadd (transaction (mworld m))). p < next_ref (mworld m)"
  shows "list_all2 (\<lambda>p q. if origin (m_pkg m p) = ALPM_PKG_FROM_FILE then q = p
      else pname (m_pkg m' q) = pname (m_pkg m p) \<and> version (m_pkg m' q) = version (m_pkg m p) \<and>
        (\<exists>d path. pkg_db (m_pkg m p) = Some d \<and> origin_data (m_pkg m' q) = Origin_file path \<and>
           passed env (mdisk m') path (m_pkg m p) (pkg_siglevel m d)))
    (tadd (transaction (mworld m))) (tadd (transaction (mworld m')))"
proof -
  note loop = check_validity_ok [OF c]
  note val = validity_spec [OF loop]
  have w2: "wview (mworld m2) = wview (mworld m)" using check_keyring_view [OF k] w1 by (simp add: mview_def)
  have w3: "wview (mworld m3) = wview (mworld m)" "mview m3 = mview m2" "mdisk m3 = mdisk m2" using val w2 by (simp_all add: mview_def)
  have t2: "tadd (transaction (mworld m2)) = tadd (transaction (mworld m))"
    using trans_view [OF wview_parts(1) [OF w2] t] by simp
  have t3: "trans (handle (mworld m3)) \<noteq> None" "tadd (transaction (mworld m3)) = tadd (transaction (mworld m))"
    using trans_view [OF wview_parts(1) [OF w3(1)] t] by simp_all
  obtain qs m4 where q: "load_loop env (tadd (transaction (mworld m))) m3 = Some (qs, [], m4)"
    "m' = m4\<lparr>mworld := upd_trans (\<lambda>t. t\<lparr>tadd := qs\<rparr>) (mworld m4)\<rparr>"
    using load_packages_ok [OF l] t3(2) by auto
  have "\<forall>p\<in>set (tadd (transaction (mworld m))). p < next_ref (mworld m3)" using old wview_parts(2) [OF w3(1)] by simp
  from load_targets_spec [OF q(1) this]
  have g: "grows m3 m4" and all: "list_all2 (replaces_target m3 m4) (tadd (transaction (mworld m))) qs" by blast+
  have "trans (handle (mworld m4)) \<noteq> None" using g t3(1) trans_view [of "mworld m4" "mworld m3"] by (simp add: grows_def)
  then have t': "tadd (transaction (mworld m')) = qs" using q(2) by simp
  have same': "m_pkg m' x = m_pkg m4 x" "mdisk m' = mdisk m3" for x using q(2) g by (simp_all add: m_pkg_def upd_trans_def grows_def)
  show ?thesis
    unfolding t'
  proof (rule list.rel_mono_strong [OF all])
    fix p q
    assume p: "p \<in> set (tadd (transaction (mworld m)))" and r: "replaces_target m3 m4 p q"
    have e: "file_id (m_pkg m3 p) = file_id (m_pkg m p)" "file_id (m_pkg m2 p) = file_id (m_pkg m p)"
      using file_id_view [OF w3(1)] file_id_view [OF w2] by simp_all
    show "if origin (m_pkg m p) = ALPM_PKG_FROM_FILE then q = p
      else pname (m_pkg m' q) = pname (m_pkg m p) \<and> version (m_pkg m' q) = version (m_pkg m p) \<and>
        (\<exists>d path. pkg_db (m_pkg m p) = Some d \<and> origin_data (m_pkg m' q) = Origin_file path \<and>
           passed env (mdisk m') path (m_pkg m p) (pkg_siglevel m d))"
    proof (cases "origin (m_pkg m p) = ALPM_PKG_FROM_FILE")
      case True
      then show ?thesis using r file_idD(3) [OF e(1)] by (simp add: replaces_target_def)
    next
      case False
      then obtain d name path where v: "pkg_db (m_pkg m2 p) = Some d" "filename (m_pkg m2 p) = Some name" "cached_file m2 name = Some path"
        "passed env (mdisk m2) path (m_pkg m2 p) (pkg_siglevel m2 d)"
        using val p t2 file_idD(3) [OF e(2)] by metis
      have r': "pname (m_pkg m4 q) = pname (m_pkg m p)" "version (m_pkg m4 q) = version (m_pkg m p)"
        "\<exists>name path. filename (m_pkg m p) = Some name \<and> cached_file m3 name = Some path \<and> origin_data (m_pkg m4 q) = Origin_file path"
        using r False unfolding replaces_target_def file_idD(1,2,3,5) [OF e(1)] by simp_all
      have "origin_data (m_pkg m4 q) = Origin_file path"
        using r'(3) v(2,3) cached_view [OF w3(2)] unfolding file_idD(5) [OF e(2)] by auto
      moreover have "pkg_db (m_pkg m p) = Some d" using v(1) pkg_db_id [OF e(2)] by simp
      moreover have "passed env (mdisk m') path (m_pkg m p) (pkg_siglevel m d)"
        using v(4) same'(2) w3(3) unfolding passed_id [OF e(2)] siglevel_view [OF w2] by simp
      ultimately show ?thesis using False r'(1,2) unfolding same'(1) by auto
    qed
  qed
qed

lemma m_state_same [simp]:
  "m_pkg (m_state s m) p = m_pkg m p" "pkg_siglevel (m_state s m) d = pkg_siglevel m d" "next_ref (mworld (m_state s m)) = next_ref (mworld m)"
  by (simp_all add: m_state_def m_pkg_def pkg_siglevel_def alpm_db_get_siglevel_def upd_trans_def)

lemma m_state_trans:
  assumes "trans (handle (mworld m)) \<noteq> None"
  shows "trans (handle (mworld (m_state s m))) \<noteq> None" "tadd (transaction (mworld (m_state s m))) = tadd (transaction (mworld m))"
    "tflags (transaction (mworld (m_state s m))) = tflags (transaction (mworld m))"
  using assms by (auto simp: m_state_def upd_trans_def transaction_def)


definition sample_commit :: "nat commit_env" where
  "sample_commit =
     \<lparr>ce_pkg = \<lambda>_. sample_env_pkg\<lparr>pk_open := \<lambda>_. Inr (100, sample_archive)\<rparr>, ce_sys = sample_env,
      ce_conflict = \<lambda>_. \<lparr>llstat = \<lambda>_. None, lstat = \<lambda>_. None, opendir = \<lambda>_. None\<rparr>,
      ce_questions = no_questions, ce_force_load = \<lambda>_. False, ce_writable = \<lambda>_. True, ce_tmpdir = None, ce_stale_dir = False,
      ce_download = \<lambda>_ _ e fs. (0, e, fs), ce_downloadspace = \<lambda>_ _ e _. (0, e), ce_diskspace = \<lambda>w _. (0, pm_errno (handle w)),
      ce_hook = \<lambda>_ w fs. (0, pm_errno (handle w), fs), ce_stop_remove = \<lambda>_. False, ce_stop_add = \<lambda>_. False\<rparr>"

text \<open>A target of a database that asks for signatures, marginal ones included; its file is in the cache.\<close>

definition sample_target :: alpm_pkg_t where
  "sample_target = sample_sync\<lparr>origin := ALPM_PKG_FROM_SYNCDB, origin_data := Origin_db 0, filename := Some ''c''\<rparr>"

definition sample_machine :: "nat machine" where
  "sample_machine =
     \<lparr>mworld =
        \<lparr>handle = alpm_handle_new\<lparr>trans := Some ((alpm_trans_new 0)\<lparr>tadd := [1], tstate := STATE_PREPARED\<rparr>), cachedirs := [''/e/'']\<rparr>,
         wdbs = \<lambda>_. (alpm_db_new ''core'' False)\<lparr>servers := [''u''], siglevel := 5\<rparr>, wpkgs = \<lambda>_. sample_target, next_ref = 2\<rparr>,
      mdisk = sample_fs, minit = False, mring = 0\<rparr>"

definition sample_running :: "nat machine" where
  "sample_running = m_state STATE_DOWNLOADING sample_machine"

lemma sample_stats:
  "AlpmFs.stat sample_fs ''/e/'' = Inr ([''e''], Dir)" "alpm_access_write sample_fs None ''/e/'' = None"
  "alpm_filecache_find (is_reg sample_fs) [''/e/''] ''c'' = Some ''/e/c''"
  "alpm_filecache_find (is_reg sample_fs) [''/e/''] ''c.sig'' = None"
  "alpm_read_file sample_fs ''/e/c.sig'' = Inl ALPM_ERR_NOT_A_FILE"
  by code_simp+

lemma sample_at:
  assumes "mview m = mview sample_running"
  shows "trans (handle (mworld m)) \<noteq> None" "tadd (transaction (mworld m)) = [1]"
    "\<not> has_flag (transaction (mworld m)) ALPM_TRANS_FLAG_DOWNLOADONLY" "mdisk m = sample_fs"
    "file_id (m_pkg m 1) = file_id sample_target" "pkg_siglevel m 0 = 5" "cached_file m ''c'' = Some ''/e/c''"
proof -
  have w: "wview (mworld m) = wview (mworld sample_running)" using assms by (simp add: mview_def)
  have t: "trans (handle (mworld sample_running)) \<noteq> None" by (simp add: sample_running_def sample_machine_def m_state_def upd_trans_def)
  show "trans (handle (mworld m)) \<noteq> None" "tadd (transaction (mworld m)) = [1]"
    "\<not> has_flag (transaction (mworld m)) ALPM_TRANS_FLAG_DOWNLOADONLY"
    using trans_view [OF wview_parts(1) [OF w] t] by (simp_all add: sample_running_def sample_machine_def m_state_def upd_trans_def transaction_def has_flag_def alpm_trans_new_def)
  show "mdisk m = sample_fs" using assms by (simp add: mview_def sample_running_def sample_machine_def m_state_def upd_trans_def)
  show "file_id (m_pkg m 1) = file_id sample_target" using file_id_view [OF w, of 1] by (simp add: m_pkg_def sample_running_def sample_machine_def m_state_def upd_trans_def)
  show "pkg_siglevel m 0 = 5" unfolding siglevel_view [OF w]
    by (simp add: pkg_siglevel_def sample_running_def sample_machine_def m_state_def upd_trans_def alpm_db_get_siglevel_def)
  show "cached_file m ''c'' = Some ''/e/c''" unfolding cached_view [OF assms]
    unfolding cached_file_def by (simp add: sample_running_def sample_machine_def m_state_def upd_trans_def sample_stats del: alpm_filecache_find.simps)
qed

lemma sample_target_at:
  assumes "file_id p = file_id sample_target"
  shows "origin p = ALPM_PKG_FROM_SYNCDB" "pkg_db p = Some 0" "filename p = Some ''c''" "base64_sig p = None"
    "pname p = ''foo''" "version p = Some ''1-1''" "md5sum p = Some ''m''" "sha256sum p = Some ''s''"
  using file_idD [OF assms] pkg_db_id [OF assms] by (simp_all add: sample_target_def sample_sync_def pkg_db_def alpm_pkg_new_def)

lemmas sample_facts = sample_at sample_target_at [OF sample_at(5)]

lemma sample_downloads: "\<exists>r m. download_files sample_commit sample_machine = Some (r, m) \<and> r \<noteq> -1 \<and> mview m = mview sample_running"
proof -
  obtain m where d: "download_files sample_commit sample_machine = Some (0, m)" "mdisk m = sample_fs" "cachedirs (handle (mworld m)) = [''/e/'']"
    by (simp add: download_files_def sample_commit_def sample_machine_def m_state_def alpm_filecache_setup_def sample_stats transaction_def
        upd_trans_def m_pkg_def sample_target_def pkg_db_def alpm_trans_new_def need_download_def cached_file_def fetch_files_def
        forget_sizes_def m_error_def set_errno_def Let_def alpm_handle_new_def)
  then show ?thesis using download_view [OF d(1)] by (auto simp: mview_def sample_running_def sample_machine_def m_state_def upd_trans_def)
qed

lemma sample_keyring:
  assumes "mview m = mview sample_running"
  shows "\<exists>m'. check_keyring sample_commit m = Some (0, m') \<and> mview m' = mview sample_running"
proof -
  note facts = sample_facts [OF assms]
  obtain m' where k: "check_keyring sample_commit m = Some (0, m')"
    using facts by (simp add: check_keyring_def sample_commit_def sample_env_pkg_def alpm_pkg_get_sig_def sample_stats sample_pgp_def)
  then show ?thesis using check_keyring_view [OF k] assms by auto
qed

lemma sample_validity:
  assumes "mview m = mview sample_running"
  shows "\<exists>m'. check_validity sample_commit m = Some (0, m') \<and> mview m' = mview sample_running"
proof -
  note facts = sample_facts [OF assms]
  obtain l v st where v: "alpm_pkg_validate_internal (ce_pkg sample_commit (mdisk m)) (Some ''/e/c'') (Some (m_pkg m 1)) 5 0 (m_pgp m) = ((0, l, v), st)"
    using facts by (simp add: alpm_pkg_validate_internal_def sample_commit_def sample_env_pkg_def pkg_has_sig_def check_sums_def
        alpm_test_checksum_def alpm_check_pgp_helper_def alpm_gpgme_checksig_def sample_pgp_def m_pgp_def init_gpgme_def sig_errno_def
        verify_signature_def get_key_def Let_def result_ok_def sig_result_def status_of_def validity_of_def result_key_def sample_key_def)
  obtain m' where k: "check_validity sample_commit m = Some (0, m')"
    using facts v by (simp add: check_validity_def Let_def)
  then show ?thesis using check_validity_ok [OF k] validity_spec assms by metis
qed

lemma sample_package:
  "\<exists>p e'. alpm_pkg_load_internal (ce_pkg sample_commit sample_fs) (Some ''/e/c'') True e = Some (Some p, e') \<and>
    pname p = ''foo'' \<and> version p = Some ''1-1''"
proof -
  have desc: "parse_descfile [(0, ''pkgname = foo'' @ [NL]), (0, ''pkgver = 1-1'' @ [NL])] p =
      (0, fold (\<lambda>(k, v). desc_field k v) [(''pkgname'', ''foo''), (''pkgver'', ''1-1'')] p)" for p
    by (rule parse_desc_text) (auto simp: plain_entry_def desc_text_def)
  show ?thesis
    by (simp add: sample_commit_def alpm_pkg_load_internal_def sample_env_pkg_def sample_archive_def desc [simplified] desc_field_def
        pkginfo_ok_def handle_simple_path_def add_entry_to_files_list_def)
qed

lemma sample_load:
  assumes "mview m = mview sample_running"
  shows "\<exists>m'. load_packages sample_commit True m = Some (0, [], m')"
proof -
  note facts = sample_facts [OF assms]
  obtain p e where p: "alpm_pkg_load_internal (ce_pkg sample_commit sample_fs) (Some ''/e/c'') True (pm_errno (handle (mworld m))) = Some (Some p, e)"
    "pname p = ''foo''" "version p = Some ''1-1''"
    using sample_package by blast
  have "pname (m_pkg (m_error e m) 1) = ''foo''" "version (m_pkg (m_error e m) 1) = Some ''1-1''" using facts by (simp_all add: m_pkg_def m_error_def set_errno_def)
  then show ?thesis using facts p by (simp add: load_packages_def Let_def split: prod.split)
qed

lemma sample_sync_load: "\<exists>data m'. alpm_sync_load sample_commit True sample_machine = Some (0, data, m')"
proof -
  obtain r m1 where d: "download_files sample_commit sample_machine = Some (r, m1)" "r \<noteq> -1" "mview m1 = mview sample_running"
    using sample_downloads by blast
  obtain m2 where k: "check_keyring sample_commit m1 = Some (0, m2)" "mview m2 = mview sample_running" using sample_keyring [OF d(3)] by blast
  obtain m3 where v: "check_validity sample_commit m2 = Some (0, m3)" "mview m3 = mview sample_running" using sample_validity [OF k(2)] by blast
  obtain m4 where "load_packages sample_commit True m3 = Some (0, [], m4)" using sample_load [OF v(2)] by blast
  then show ?thesis using d k(1) v(1) sample_at(3) [OF v(2)] by (simp add: alpm_sync_load_def)
qed


end
