(* ===== verification/AlpmLifecycle.thy ===== *)
theory AlpmLifecycle
  imports AlpmSyncCommit
begin

text \<open>
  The life of transactions in several processes that use the same disk: which of the calls of
  \<open>lib/libalpm/trans.c\<close> change the lock, that the one who commits holds it alone, and
  that no process is kept from its transaction for good.
\<close>

section \<open>Only beginning and releasing change the lock\<close>

text \<open>What a call keeps that does not go on to another stage of the transaction.\<close>

definition lock_of :: "alpm_world \<Rightarrow> string option \<times> int \<times> (u32 \<times> alpm_transstate_t) option" where
  "lock_of w = (lockfile (handle w), lockfd (handle w), map_option (\<lambda>t. (tflags t, tstate t)) (trans (handle w)))"

lemma lock_of_simps [simp]:
  "lock_of (set_errno e w) = lock_of w" "lock_of (upd_pkg p f w) = lock_of w" "lock_of (upd_db d g w) = lock_of w"
  "lock_of (w\<lparr>wpkgs := ps, next_ref := n\<rparr>) = lock_of w" "lock_of (w\<lparr>wpkgs := ps\<rparr>) = lock_of w" "lock_of (w\<lparr>wdbs := ds\<rparr>) = lock_of w"
  by (simp_all add: lock_of_def set_errno_def upd_pkg_def upd_db_def)

lemma lock_of_upd_trans [simp]:
  "(\<And>t. tflags (f t) = tflags t) \<Longrightarrow> (\<And>t. tstate (f t) = tstate t) \<Longrightarrow> lock_of (upd_trans f w) = lock_of w"
  by (simp add: lock_of_def upd_trans_def option.map_comp o_def)

lemma lock_of_view: "wview w' = wview w \<Longrightarrow> lock_of w' = lock_of w"
  unfolding wview_def hview_def lock_of_def prod.inject
  by (cases "trans (handle w)"; cases "trans (handle w')") auto

text \<open>What every call keeps; none makes a transaction idle, as \<open>STATE_IDLE\<close> is never assigned.\<close>

definition idle :: "alpm_world \<Rightarrow> bool" where
  "idle w \<longleftrightarrow> (\<exists>t. trans (handle w) = Some t \<and> tstate t = STATE_IDLE)"

definition keeps_lock :: "alpm_world \<Rightarrow> alpm_world \<Rightarrow> bool" where
  "keeps_lock w w' \<longleftrightarrow> lockfile (handle w') = lockfile (handle w) \<and> lockfd (handle w') = lockfd (handle w) \<and>
     map_option tflags (trans (handle w')) = map_option tflags (trans (handle w)) \<and> (idle w' \<longrightarrow> idle w)"

lemma keeps_lock_refl [simp]: "keeps_lock w w"
  by (simp add: keeps_lock_def)

lemma keeps_lock_trans: "keeps_lock w w' \<Longrightarrow> keeps_lock w' w'' \<Longrightarrow> keeps_lock w w''"
  by (auto simp: keeps_lock_def)

lemma keeps_lockI: "lock_of w' = lock_of w \<Longrightarrow> keeps_lock w w'"
  unfolding keeps_lock_def lock_of_def idle_def prod.inject
  by (cases "trans (handle w)"; cases "trans (handle w')") auto

lemma keeps_lock_right: "keeps_lock w w' \<Longrightarrow> lock_of w'' = lock_of w' \<Longrightarrow> keeps_lock w w''"
  using keeps_lockI keeps_lock_trans by blast

lemma keeps_lock_state: "s \<noteq> STATE_IDLE \<Longrightarrow> keeps_lock w (upd_trans (\<lambda>t. t\<lparr>tstate := s\<rparr>) w)"
  by (auto simp: keeps_lock_def idle_def upd_trans_def option.map_comp o_def)

lemma keeps_lock_errno [simp]: "keeps_lock w (set_errno e w') = keeps_lock w w'" "keeps_lock (set_errno e w) w' = keeps_lock w w'"
  by (simp_all add: keeps_lock_def idle_def set_errno_def)

lemma dup_pkg_lock: "dup_pkg force_load w p = (r, q, w') \<Longrightarrow> lock_of w' = lock_of w"
  by (auto simp: dup_pkg_def alloc_pkg_def Let_def split: prod.splits)

lemma add_pkg_lock: "alpm_add_pkg w p = (r, w') \<Longrightarrow> lock_of w' = lock_of w"
  by (auto simp: alpm_add_pkg_def Let_def split: option.splits if_splits)

lemma remove_pkg_lock: "alpm_remove_pkg force_load w p = (r, w') \<Longrightarrow> lock_of w' = lock_of w"
  by (auto simp: alpm_remove_pkg_def Let_def dest!: dup_pkg_lock split: option.splits if_splits prod.splits)

lemma interrupt_lock: "keeps_lock w (snd (alpm_trans_interrupt w))"
  using keeps_lock_state [of STATE_INTERRUPTED w] by (auto simp: alpm_trans_interrupt_def Let_def keeps_lock_def idle_def upd_trans_def set_errno_def split: option.splits)

subsection \<open>Preparing\<close>

lemma cascade_pull_lock: "cascade_pull force_load w lp = (r, w') \<Longrightarrow> lock_of w' = lock_of w"
  by (induction lp arbitrary: w) (auto dest!: dup_pkg_lock split: option.splits if_splits prod.splits)

lemma cascade_lock: "remove_prepare_cascade force_load w lp = Some (r, w') \<Longrightarrow> lock_of w' = lock_of w"
proof -
  have "lock_of (snd res) = lock_of w" if "remove_prepare_cascade force_load w lp = Some res" for res
    by (rule remove_prepare_cascade.raw_induct [OF _ that, where P = "\<lambda>_ w _ res. lock_of (snd res) = lock_of w"])
      (auto dest!: cascade_pull_lock split: if_splits prod.splits)
  then show "remove_prepare_cascade force_load w lp = Some (r, w') \<Longrightarrow> lock_of w' = lock_of w" by fastforce
qed

lemma drop_needed_lock [simp]: "lock_of (drop_needed w lp) = lock_of w"
  by (induction w lp rule: drop_needed.induct) (auto split: option.splits)

lemma keep_needed_lock: "remove_prepare_keep_needed w lp = Some w' \<Longrightarrow> lock_of w' = lock_of w"
  by (erule remove_prepare_keep_needed.raw_induct [rotated, where P = "\<lambda>w _ w'. lock_of w' = lock_of w"])
    (auto simp: Let_def split: if_splits)

lemma copy_targets_lock: "copy_targets force_load w l targs = (r, t, w') \<Longrightarrow> lock_of w' = lock_of w"
  by (induction force_load w l targs rule: copy_targets.induct) (auto simp: Let_def split: if_splits prod.splits)

lemma recurse_targets_lock: "recurse_targets force_load w = (r, w') \<Longrightarrow> lock_of w' = lock_of w"
  by (auto simp: recurse_targets_def alpm_recursedeps_def Let_def dest!: copy_targets_lock split: if_splits prod.splits)

lemma remove_check_deps_lock: "remove_check_deps force_load w = Some (r, data, w') \<Longrightarrow> lock_of w' = lock_of w"
  by (auto simp: remove_check_deps_def Let_def dest!: cascade_lock keep_needed_lock split: if_splits)

lemma remove_prepare_lock: "alpm_remove_prepare force_load w = Some (r, data, evs, w') \<Longrightarrow> lock_of w' = lock_of w"
  by (auto simp: alpm_remove_prepare_def Let_def dest!: recurse_targets_lock remove_check_deps_lock
      split: if_splits prod.splits option.splits)

lemma set_depend_reason_lock [simp]: "lock_of (set_depend_reason add w l) = lock_of w"
  by (induction add w l rule: set_depend_reason.induct) auto

lemma sync_resolve_lock: "sync_resolve env w = Some (r, data, w') \<Longrightarrow> lock_of w' = lock_of w"
  by (auto simp: sync_resolve_def Let_def split: option.splits if_splits prod.splits bool.splits)

lemma settle_inner_lock: "settle_inner l data w = (r, data', w') \<Longrightarrow> lock_of w' = lock_of w"
  by (induction l data w rule: settle_inner.induct)
    (auto simp: Let_def drop_target_def split: option.splits if_splits)

lemma settle_outer_lock: "settle_outer qs l data w = (r, data', w') \<Longrightarrow> lock_of w' = lock_of w"
  by (induction qs l data w rule: settle_outer.induct) (auto simp: Let_def split: if_splits)

lemma sync_conflicts_lock: "sync_conflicts env data w = (r, data', w') \<Longrightarrow> lock_of w' = lock_of w"
  by (auto simp: sync_conflicts_def dest!: settle_inner_lock settle_outer_lock split: if_splits prod.splits)

lemma add_removals_lock: "add_removals force_load l w = (r, w') \<Longrightarrow> lock_of w' = lock_of w"
  by (induction l arbitrary: w) (auto dest!: dup_pkg_lock split: if_splits prod.splits)

lemma build_removals_lock: "build_removals force_load l w = (r, w') \<Longrightarrow> lock_of w' = lock_of w"
  by (induction l arbitrary: w) (auto dest!: add_removals_lock split: if_splits prod.splits)

lemma get_pkg_lock: "alpm_db_get_pkg w db name = (p, w') \<Longrightarrow> lock_of w' = lock_of w"
  by (auto simp: alpm_db_get_pkg_def Let_def split: if_splits option.splits)

lemma download_size_lock: "compute_download_size env w p = (r, w') \<Longrightarrow> lock_of w' = lock_of w"
  by (auto simp: compute_download_size_def Let_def split: if_splits option.splits)

lemma finish_targets_lock: "finish_targets env l w = (r, w') \<Longrightarrow> lock_of w' = lock_of w"
  by (induction l arbitrary: w)
    (auto simp: Let_def dest!: get_pkg_lock download_size_lock dup_pkg_lock split: if_splits prod.splits option.splits)

lemma sync_finish_lock: "sync_finish env data w = (r, data', w') \<Longrightarrow> lock_of w' = lock_of w"
  by (auto simp: sync_finish_def Let_def dest!: build_removals_lock finish_targets_lock split: if_splits prod.splits)

lemma sync_prepare_lock: "alpm_sync_prepare env w = Some (r, data, w') \<Longrightarrow> lock_of w' = lock_of w"
  by (auto simp: alpm_sync_prepare_def Let_def dest!: sync_resolve_lock sync_conflicts_lock sync_finish_lock
      split: if_splits prod.splits option.splits)

lemma sort_targets_lock: "sort_targets w = Some w' \<Longrightarrow> lock_of w' = lock_of w"
  by (auto simp: sort_targets_def Let_def split: if_splits option.splits)

lemma prepare_lock: "alpm_trans_prepare env w ptr = Some (r, data, w') \<Longrightarrow> keeps_lock w w'"
proof -
  have step: "keeps_lock w (upd_trans (\<lambda>t. t\<lparr>tstate := STATE_PREPARED\<rparr>) w1)" if "lock_of w1 = lock_of w" for w1
    using keeps_lock_trans [OF keeps_lockI [OF that] keeps_lock_state] by simp
  show "alpm_trans_prepare env w ptr = Some (r, data, w') \<Longrightarrow> keeps_lock w w'"
    by (auto simp: alpm_trans_prepare_def Let_def
        dest!: remove_prepare_lock sync_prepare_lock sort_targets_lock split: if_splits option.splits)
      (simp_all add: step keeps_lockI)
qed

subsection \<open>Committing\<close>

lemma fileconflicts_lock: "alpm_db_find_fileconflicts fnm fs w up rem = (r, w') \<Longrightarrow> lock_of w' = lock_of w"
  by (auto simp: alpm_db_find_fileconflicts_def lock_of_def Let_def option.map_comp o_def split: prod.splits)

lemma db_path_lock: "alpm_db_path w d = (p, w') \<Longrightarrow> lock_of w' = lock_of w"
  by (auto simp: alpm_db_path_def Let_def split: option.splits)

lemma local_scriptlet_lock: "run_local_scriptlet env w d pkg s v ov fs = Some (w', fs') \<Longrightarrow> lock_of w' = lock_of w"
  by (auto simp: run_local_scriptlet_def dest!: db_path_lock split: if_splits prod.splits)

lemma remove_files_lock: "remove_package_files env w old newpkg fs = Some (r, w', fs') \<Longrightarrow> lock_of w' = lock_of w"
  by (auto simp: remove_package_files_def split: if_splits)

lemma uncache_lock: "alpm_db_remove_pkgfromcache w db p = Some (r, w') \<Longrightarrow> lock_of w' = lock_of w"
  by (auto simp: alpm_db_remove_pkgfromcache_def Let_def split: option.splits if_splits prod.splits)

lemma cache_lock: "alpm_db_add_pkgincache force_load w db p = Some (r, w') \<Longrightarrow> lock_of w' = lock_of w"
  by (auto simp: alpm_db_add_pkgincache_def Let_def alloc_pkg_def split: option.splits if_splits prod.splits bool.splits)

lemma remove_entry_lock: "remove_entry w d p fs = Some (w', fs') \<Longrightarrow> lock_of w' = lock_of w"
  by (auto simp: remove_entry_def dest!: db_path_lock uncache_lock split: prod.splits)

lemma remove_single_lock: "alpm_remove_single_package env w d p newpkg fs = Some (r, w', fs') \<Longrightarrow> lock_of w' = lock_of w"
  by (auto simp: alpm_remove_single_package_def Let_def dest!: local_scriptlet_lock remove_files_lock remove_entry_lock
      split: option.splits if_splits prod.splits)

lemma remove_loop_lock: "remove_packages_loop env i d l w fs = Some (r, w', fs') \<Longrightarrow> keeps_lock w w'"
proof (induction env i d l w fs rule: remove_packages_loop.induct)
  case (2 env i d p l w fs)
  define w1 where "w1 = (if i (length l) then snd (alpm_trans_interrupt w) else w)"
  have k: "keeps_lock w w1" using interrupt_lock by (simp add: w1_def)
  show ?case
  proof (cases "tstate (transaction w1) = STATE_INTERRUPTED")
    case True
    then show ?thesis using 2(2) k by (simp add: w1_def Let_def split: if_splits)
  next
    case False
    then obtain r2 w2 fs2 where s: "alpm_remove_single_package env w1 d p None fs = Some (r2, w2, fs2)"
      using 2(2) by (auto simp: w1_def [symmetric] Let_def split: option.splits)
    then have "remove_packages_loop env i d l w2 fs2 = Some (r, w', fs')" using 2(2) False by (simp add: w1_def [symmetric] Let_def)
    from 2(1) [OF w1_def False s refl refl this] keeps_lockI [OF remove_single_lock [OF s]] k show ?thesis
      using keeps_lock_trans by blast
  qed
qed simp

lemma remove_packages_lock: "alpm_remove_packages env i d ldc w fs = Some (r, w', fs') \<Longrightarrow> keeps_lock w w'"
  by (auto simp: alpm_remove_packages_def dest!: remove_loop_lock split: option.splits)

lemma unpack_lock: "unpack_package env w dir f old newpkg fs = (r, w') \<Longrightarrow> lock_of w' = lock_of w"
  by (auto simp: unpack_package_def split: option.splits sum.splits node.splits prod.splits)

lemma replace_old_lock: "replace_old env w d p old fs = Some (w', fs') \<Longrightarrow> lock_of w' = lock_of w"
  by (auto simp: replace_old_def dest!: remove_single_lock split: option.splits)

lemma record_lock: "record_package env fl w d dir p ov up ret fs = Some (r, w', fs') \<Longrightarrow> lock_of w' = lock_of w"
  by (auto simp: record_package_def Let_def dest!: cache_lock local_scriptlet_lock split: option.splits if_splits prod.splits)

lemma commit_single_lock: "commit_single_pkg env fl w d p fs = Some (r, w', fs') \<Longrightarrow> lock_of w' = lock_of w"
  by (auto simp: commit_single_pkg_def Let_def dest!: replace_old_lock db_path_lock unpack_lock record_lock
      split: option.splits origin_data.splits if_splits prod.splits)

lemma upgrade_loop_lock: "upgrade_loop env fl i d l ldc ret w fs = Some (b, r, w', fs') \<Longrightarrow> keeps_lock w w'"
proof (induction env fl i d l ldc ret w fs rule: upgrade_loop.induct)
  case (2 env fl i d p l ldc ret w fs)
  define w1 where "w1 = (if i (length l) then snd (alpm_trans_interrupt w) else w)"
  have k: "keeps_lock w w1" using interrupt_lock by (simp add: w1_def)
  show ?case
  proof (cases "tstate (transaction w1) = STATE_INTERRUPTED")
    case True
    then show ?thesis using 2(3) k by (simp add: w1_def Let_def split: if_splits)
  next
    case False
    then obtain r2 w2 fs2 where s: "commit_single_pkg env fl w1 d p fs = Some (r2, w2, fs2)"
      using 2(3) by (auto simp: w1_def [symmetric] Let_def split: option.splits)
    have k2: "keeps_lock w w2" using keeps_lockI [OF commit_single_lock [OF s]] k keeps_lock_trans by blast
    show ?thesis
    proof (cases "r2 = 0")
      case True
      then have "upgrade_loop env fl i d l ldc ret w2 fs2 = Some (b, r, w', fs')"
        using 2(3) False s by (simp add: w1_def [symmetric] Let_def)
      from 2(2) [OF w1_def False s refl refl _ this] True k2 show ?thesis using keeps_lock_trans by blast
    next
      case r2: False
      then have "upgrade_loop env fl i d l False (-1)
          (set_errno ALPM_ERR_TRANS_ABORT (upd_trans (\<lambda>t. t\<lparr>tstate := STATE_INTERRUPTED\<rparr>) w2)) fs2 = Some (b, r, w', fs')"
        using 2(3) False s by (simp add: w1_def [symmetric] Let_def)
      from 2(1) [OF w1_def False s refl refl r2 this]
      have "keeps_lock (upd_trans (\<lambda>t. t\<lparr>tstate := STATE_INTERRUPTED\<rparr>) w2) w'" by simp
      then show ?thesis using k2 keeps_lock_state [of STATE_INTERRUPTED w2] keeps_lock_trans by blast
    qed
  qed
qed simp

lemma upgrade_packages_lock: "alpm_upgrade_packages env fl i d w fs = Some (r, w', fs') \<Longrightarrow> keeps_lock w w'"
  by (auto simp: alpm_upgrade_packages_def dest!: upgrade_loop_lock split: option.splits if_splits)

lemma download_lock:
  assumes "download_files env m = Some (r, m')"
  shows "keeps_lock (mworld m) (mworld m')"
proof -
  have "keeps_lock (mworld m) (mworld (m_state STATE_DOWNLOADING m))" by (simp add: m_state_def keeps_lock_state)
  then show ?thesis using keeps_lockI [OF lock_of_view [OF download_view [OF assms]]] keeps_lock_trans by blast
qed

lemma load_target_lock: "load_target p pkgfile m = (q, m') \<Longrightarrow> lock_of (mworld m') = lock_of (mworld m)"
  by (auto simp: load_target_def Let_def)

lemma m_error_lock [simp]: "lock_of (mworld (m_error e m)) = lock_of (mworld m)"
  by (simp add: m_error_def)

lemma load_loop_lock: "load_loop env ps m = Some (qs, bad, m') \<Longrightarrow> lock_of (mworld m') = lock_of (mworld m)"
proof (induction ps arbitrary: qs bad m)
  case (Cons p ps)
  show ?case
    using Cons.prems by (auto simp: Let_def dest!: Cons.IH load_target_lock split: if_splits option.splits prod.splits)
qed simp

lemma load_packages_lock:
  assumes "load_packages env given m = Some (r, bad, m')"
  shows "lock_of (mworld m') = lock_of (mworld m)"
proof -
  obtain qs bad' m1 where l: "load_loop env (tadd (transaction (mworld m))) m = Some (qs, bad', m1)"
    using assms by (auto simp: load_packages_def split: option.splits)
  define m2 where "m2 = m1\<lparr>mworld := upd_trans (\<lambda>t. t\<lparr>tadd := qs\<rparr>) (mworld m1)\<rparr>"
  have "m' = m2 \<or> m' = invalid_unless_set m2"
    using assms l by (auto simp: load_packages_def m2_def Let_def split: if_splits)
  then show ?thesis using load_loop_lock [OF l] by (auto simp: m2_def invalid_unless_set_def)
qed

lemma mview_lock: "mview m' = mview m \<Longrightarrow> lock_of (mworld m') = lock_of (mworld m)"
  by (rule lock_of_view) (simp add: mview_def)

lemma put_pgp_lock: "sview st = sview (m_pgp m) \<Longrightarrow> lock_of (mworld (put_pgp st m)) = lock_of (mworld m)"
  by (rule mview_lock [OF put_pgp_view])

lemma validity_loop_lock: "validity_loop env ps errors m = Some (errors', m') \<Longrightarrow> lock_of (mworld m') = lock_of (mworld m)"
proof (induction ps arbitrary: errors m)
  case (Cons p ps)
  show ?case
  proof (cases "origin (m_pkg m p) = ALPM_PKG_FROM_FILE")
    case True
    then show ?thesis using Cons by simp
  next
    case False
    then obtain d name where dn: "pkg_db (m_pkg m p) = Some d" "filename (m_pkg m p) = Some name"
      using Cons.prems by (auto split: option.splits)
    obtain r sl v st where val: "alpm_pkg_validate_internal (ce_pkg env (mdisk m)) (cached_file m name) (Some (m_pkg m p))
        (pkg_siglevel m d) 0 (m_pgp m) = ((r, sl, v), st)" by (metis surj_pair)
    have put: "lock_of (mworld (put_pgp st m)) = lock_of (mworld m)" by (rule put_pgp_lock [OF validate_view [OF val]])
    show ?thesis using Cons.prems False dn val put by (auto simp: Let_def dest!: Cons.IH split: if_splits)
  qed
qed simp

lemma process_results_view: "process_results env l retry st = Some (r, st') \<Longrightarrow> sview st' = sview st"
proof (induction l arbitrary: retry st)
  case (Cons x l)
  show ?case
  proof (cases "sstatus x = ALPM_SIGSTATUS_KEY_UNKNOWN")
    case True
    show ?thesis
    proof (cases "kfingerprint (skey x)")
      case None
      then show ?thesis using Cons True by (simp split: if_splits)
    next
      case (Some fpr)
      obtain known st1 where k: "alpm_key_in_keychain env fpr st = (known, st1)" by fastforce
      show ?thesis
        using Cons.prems True Some k in_keychain_view [OF k]
        by (simp split: if_splits option.splits prod.splits) (metis Cons.IH key_import_view)+
    qed
  qed (use Cons in simp)
qed simp

lemma prompt_lock: "lock_of (mworld (snd (prompt_to_delete env path m))) = lock_of (mworld m)"
  by (simp add: prompt_to_delete_def)

lemma report_lock: "report_invalid env v m = Some m' \<Longrightarrow> lock_of (mworld m') = lock_of (mworld m)"
  by (auto simp: report_invalid_def alpm_process_siglist_def prompt_lock put_pgp_lock dest!: process_results_view
      split: alpm_errno_t.splits option.splits)

lemma report_all_lock: "report_all env vs m = Some m' \<Longrightarrow> lock_of (mworld m') = lock_of (mworld m)"
  by (induction vs arbitrary: m) (auto dest!: report_lock split: option.splits)

lemma check_validity_lock: "check_validity env m = Some (r, m') \<Longrightarrow> lock_of (mworld m') = lock_of (mworld m)"
  by (auto simp: check_validity_def invalid_unless_set_def dest!: validity_loop_lock report_all_lock split: option.splits if_splits)

lemma sync_load_lock: "alpm_sync_load env given m = Some (r, data, m') \<Longrightarrow> keeps_lock (mworld m) (mworld m')"
  by (auto simp: alpm_sync_load_def dest!: download_lock mview_lock [OF check_keyring_view] check_validity_lock load_packages_lock
      split: option.splits if_splits)
    (metis keeps_lock_right)+

lemma sync_check_lock: "alpm_sync_check env m = (r, data, m') \<Longrightarrow> lock_of (mworld m') = lock_of (mworld m)"
  by (auto simp: alpm_sync_check_def Let_def dest!: fileconflicts_lock split: prod.splits if_splits)

lemma m_remove_lock: "m_remove env d l m = Some (r, m') \<Longrightarrow> keeps_lock (mworld m) (mworld m')"
  by (auto simp: m_remove_def dest!: remove_packages_lock)

lemma m_upgrade_lock: "m_upgrade env d m = Some (r, m') \<Longrightarrow> keeps_lock (mworld m) (mworld m')"
  by (auto simp: m_upgrade_def dest!: upgrade_packages_lock)

lemma sync_commit_lock: "alpm_sync_commit env d m = Some (r, m') \<Longrightarrow> keeps_lock (mworld m) (mworld m')"
  by (auto simp: alpm_sync_commit_def dest!: m_remove_lock m_upgrade_lock intro: keeps_lock_trans split: option.splits if_splits)

lemma hook_lock: "m_hook env pre m = (r, m') \<Longrightarrow> lock_of (mworld m') = lock_of (mworld m)"
  by (auto simp: m_hook_def split: prod.splits if_splits)

lemma commit_targets_lock: "commit_targets env d m = Some (r, m') \<Longrightarrow> keeps_lock (mworld m) (mworld m')"
  by (auto simp: commit_targets_def dest: m_remove_lock sync_commit_lock split: if_splits)

lemma end_lock: "keeps_lock (mworld m) (mworld (end_transaction env m))"
proof -
  have "lock_of (mworld (snd (m_hook env False m))) = lock_of (mworld m)" by (rule hook_lock [OF surjective_pairing])
  from keeps_lock_trans [OF keeps_lockI [OF this] keeps_lock_state] show ?thesis
    by (simp add: end_transaction_def m_state_def keeps_lock_state)
qed

lemma run_lock:
  assumes "run_transaction env d m = Some (r, m')"
  shows "keeps_lock (mworld m) (mworld m')"
proof -
  obtain r1 m1 where h: "m_hook env True m = (r1, m1)" by fastforce
  note k1 = keeps_lockI [OF hook_lock [OF h]]
  show ?thesis
  proof (cases "r1 = 0")
    case True
    then obtain r2 m2 where c: "commit_targets env d (m_state STATE_COMMITING m1) = Some (r2, m2)" "m' = m2 \<or> m' = end_transaction env m2"
      using assms h by (auto simp: run_transaction_def split: if_splits)
    have "keeps_lock (mworld m1) (mworld (m_state STATE_COMMITING m1))" by (simp add: m_state_def keeps_lock_state)
    then have "keeps_lock (mworld m) (mworld m2)" using k1 commit_targets_lock [OF c(1)] keeps_lock_trans by blast
    then show ?thesis using c(2) end_lock keeps_lock_trans by blast
  qed (use assms h k1 in \<open>auto simp: run_transaction_def m_error_def\<close>)
qed

lemma m_error_keeps [simp]:
  "keeps_lock (mworld (m_error e m)) w = keeps_lock (mworld m) w" "keeps_lock w (mworld (m_error e m)) = keeps_lock w (mworld m)"
  "trans (handle (mworld (m_error e m))) = trans (handle (mworld m))"
  by (simp_all add: m_error_def)

lemma commit_lock:
  assumes "alpm_trans_commit env d given m = Some (r, data, m')"
  shows "keeps_lock (mworld m) (mworld m')"
proof -
  have ran: "keeps_lock (mworld m) (mworld m')"
    if "run_transaction env d m1 = Some (r1, m')" "keeps_lock (mworld m) (mworld m1)" for r1 m1
    using run_lock [OF that(1)] that(2) keeps_lock_trans by blast
  have checked: "keeps_lock (mworld m) (mworld m2)"
    if "alpm_sync_check env m1 = (r1, data1, m2)" "keeps_lock (mworld m) (mworld m1)" for r1 data1 m1 m2
    using sync_check_lock [OF that(1)] that(2) keeps_lock_right by blast
  show ?thesis
    using assms
    by (auto simp: alpm_trans_commit_def Let_def dest!: sync_load_lock
        split: option.splits if_splits prod.splits) (auto intro: ran checked)
qed

section \<open>Several processes\<close>

text \<open>
  Every process has its own handle and its own state of gpgme; the disk and the lock files on it
  are shared. A call is one step, with whatever flags, packages and answers of the surroundings;
  \<open>fair\<close> limits what the operating system answers.
\<close>

record 'r system =
  procs :: "nat \<Rightarrow> alpm_world"
  gpg :: "nat \<Rightarrow> bool \<times> 'r"
  sdisk :: filesys
  locks :: "string set"

definition put_proc :: "nat \<Rightarrow> alpm_world \<Rightarrow> 'r system \<Rightarrow> 'r system" where
  "put_proc i w S = S\<lparr>procs := (procs S)(i := w)\<rparr>"

definition machine_of :: "'r system \<Rightarrow> nat \<Rightarrow> 'r machine" where
  "machine_of S i = \<lparr>mworld = procs S i, mdisk = sdisk S, minit = fst (gpg S i), mring = snd (gpg S i)\<rparr>"

definition put_machine :: "nat \<Rightarrow> 'r machine \<Rightarrow> 'r system \<Rightarrow> 'r system" where
  "put_machine i m S = (put_proc i (mworld m) S)\<lparr>gpg := (gpg S)(i := (minit m, mring m)), sdisk := mdisk m\<rparr>"

inductive call :: "(os_env \<Rightarrow> bool) \<Rightarrow> 'r system \<Rightarrow> 'r system \<Rightarrow> bool" for fair where
  call_init: "fair os \<Longrightarrow> alpm_trans_init os flags (procs S i) (locks S) = Some (r, w, l) \<Longrightarrow>
    call fair S ((put_proc i w S)\<lparr>locks := l\<rparr>)"
| call_release: "fair os \<Longrightarrow> alpm_trans_release os (procs S i) (locks S) = (r, w, l) \<Longrightarrow>
    call fair S ((put_proc i w S)\<lparr>locks := l\<rparr>)"
| call_add: "alpm_add_pkg (procs S i) p = (r, w) \<Longrightarrow> call fair S (put_proc i w S)"
| call_remove: "alpm_remove_pkg force_load (procs S i) p = (r, w) \<Longrightarrow> call fair S (put_proc i w S)"
| call_prepare: "alpm_trans_prepare senv (procs S i) given = Some (r, data, w) \<Longrightarrow> call fair S (put_proc i w S)"
| call_interrupt: "alpm_trans_interrupt (procs S i) = (r, w) \<Longrightarrow> call fair S (put_proc i w S)"
| call_commit: "alpm_trans_commit env d given (machine_of S i) = Some (r, data', m) \<Longrightarrow> call fair S (put_machine i m S)"

text \<open>At first no process has a transaction, and there are no lock files.\<close>

definition at_rest :: "'r system \<Rightarrow> bool" where
  "at_rest S \<longleftrightarrow> (\<forall>i. trans (handle (procs S i)) = None \<and> lockfd (handle (procs S i)) < 0) \<and> locks S = {}"

inductive system_reached :: "(os_env \<Rightarrow> bool) \<Rightarrow> 'r system \<Rightarrow> bool" for fair where
  start: "at_rest S \<Longrightarrow> system_reached fair S"
| more: "system_reached fair S \<Longrightarrow> call fair S S' \<Longrightarrow> system_reached fair S'"

text \<open>A process with a transaction that locks.\<close>

definition locking :: "alpm_world \<Rightarrow> bool" where
  "locking w \<longleftrightarrow> (\<exists>t. trans (handle w) = Some t \<and> \<not> has_flag t ALPM_TRANS_FLAG_NOLOCK)"

definition own_lock :: "alpm_world \<Rightarrow> string set \<Rightarrow> bool" where
  "own_lock w l \<longleftrightarrow> (locking w \<longleftrightarrow> lockfd (handle w) \<ge> 0) \<and> \<not> idle w \<and>
     (locking w \<longrightarrow> (\<exists>path. lockfile (handle w) = Some path \<and> path \<in> l))"

definition exclusive :: "'r system \<Rightarrow> bool" where
  "exclusive S \<longleftrightarrow> (\<forall>i. own_lock (procs S i) (locks S)) \<and>
     (\<forall>i j. locking (procs S i) \<longrightarrow> locking (procs S j) \<longrightarrow>
        lockfile (handle (procs S i)) = lockfile (handle (procs S j)) \<longrightarrow> i = j)"

text \<open>No lock file is left behind; this needs \<open>unlink\<close> to work.\<close>

definition accounted :: "'r system \<Rightarrow> bool" where
  "accounted S \<longleftrightarrow> (\<forall>path\<in>locks S. \<exists>i. locking (procs S i) \<and> lockfile (handle (procs S i)) = Some path)"

section \<open>What beginning and releasing do to the lock\<close>

lemma locking_keeps: "keeps_lock w w' \<Longrightarrow> locking w' = locking w"
  by (cases "trans (handle w)"; cases "trans (handle w')") (auto simp: keeps_lock_def locking_def has_flag_def)

lemma own_lock_keeps: "keeps_lock w w' \<Longrightarrow> own_lock w l \<Longrightarrow> own_lock w' l"
  using locking_keeps [of w w'] by (auto simp: own_lock_def keeps_lock_def)

text \<open>The lock is got only if the file is not there.\<close>

lemma lock_loop_result:
  assumes "lock_loop os exists n = Some fd"
  shows "fd = -1 \<or> fd \<ge> 0 \<and> \<not> exists"
  by (rule lock_loop.raw_induct [OF _ assms, where P = "\<lambda>os exists n fd. fd = -1 \<or> fd \<ge> 0 \<and> \<not> exists"])
    (auto split: open_answer.splits if_splits)

lemma handle_lock_result:
  assumes "alpm_handle_lock os h l = Some (r, h', l')" "lockfd h < 0"
  shows "lockfile h' = lockfile h \<and> trans h' = trans h \<and>
    (if r = 0 then \<exists>path. lockfile h = Some path \<and> path \<notin> l \<and> l' = insert path l \<and> lockfd h' \<ge> 0 else l' = l \<and> lockfd h' < 0)"
  using assms by (auto simp: alpm_handle_lock_def dest!: lock_loop_result split: option.splits if_splits)

lemma handle_unlock_result:
  assumes "alpm_handle_unlock os h l = (r, h', l')" "lockfile h = Some path" "lockfd h \<ge> 0"
  shows "lockfile h' = lockfile h \<and> trans h' = trans h \<and> lockfd h' = -1 \<and> (l' = l \<or> l' = l - {path}) \<and>
    (os_unlink os \<longrightarrow> l' = l - {path})"
  using assms by (auto simp: alpm_handle_unlock_def alpm_unlock_def Let_def split: if_splits)

lemma free_targets_handle [simp]: "handle (free_targets l w) = handle w"
  by (induction l arbitrary: w) (auto simp: upd_pkg_def split: option.splits)

text \<open>Beginning a transaction when there is none.\<close>

lemma init_result:
  assumes "alpm_trans_init os flags w l = Some (r, w', l')" "own_lock w l"
  shows "lockfile (handle w') = lockfile (handle w) \<and> own_lock w' l' \<and>
    (if locking w' \<and> \<not> locking w then \<exists>path. lockfile (handle w) = Some path \<and> path \<notin> l \<and> l' = insert path l
     else locking w' = locking w \<and> l' = l)"
proof (cases "trans (handle w)")
  case (Some t)
  then show ?thesis using assms by (auto simp: alpm_trans_init_def Let_def set_errno_def own_lock_def locking_def idle_def)
next
  case None
  then have fd: "lockfd (handle w) < 0" using assms(2) by (auto simp: own_lock_def locking_def)
  show ?thesis
  proof (cases "flags AND ALPM_TRANS_FLAG_NOLOCK = 0")
    case False
    then show ?thesis using assms(1) None fd
      by (auto simp: alpm_trans_init_def Let_def set_errno_def own_lock_def locking_def idle_def has_flag_def alpm_trans_new_def)
  next
    case True
    then obtain r1 h1 where h: "alpm_handle_lock os (handle (set_errno ALPM_ERR_OK w)) l = Some (r1, h1, l')"
      using assms(1) None by (auto simp: alpm_trans_init_def Let_def set_errno_def split: option.splits if_splits)
    note res = handle_lock_result [OF h]
    show ?thesis using assms(1) None True h res fd
      by (auto simp: alpm_trans_init_def Let_def set_errno_def own_lock_def locking_def idle_def has_flag_def alpm_trans_new_def split: if_splits)
  qed
qed

lemma release_result:
  assumes "alpm_trans_release os w l = (r, w', l')" "own_lock w l"
  shows "lockfile (handle w') = lockfile (handle w) \<and> trans (handle w') = None \<and> own_lock w' l' \<and>
    (trans (handle w) \<noteq> None \<longrightarrow> r = 0) \<and>
    (if locking w then \<exists>path. lockfile (handle w) = Some path \<and> (l' = l \<or> l' = l - {path}) \<and> (os_unlink os \<longrightarrow> l' = l - {path})
     else l' = l)"
proof (cases "trans (handle w)")
  case None
  then show ?thesis using assms by (auto simp: alpm_trans_release_def Let_def set_errno_def own_lock_def locking_def idle_def)
next
  case (Some t)
  then have st: "tstate t \<noteq> STATE_IDLE" using assms(2) by (auto simp: own_lock_def idle_def)
  define w1 where "w1 = alpm_trans_free t (set_errno ALPM_ERR_OK w)"
  define w2 where "w2 = w1\<lparr>handle := (handle w1)\<lparr>trans := None\<rparr>\<rparr>"
  have h2: "lockfile (handle w2) = lockfile (handle w)" "lockfd (handle w2) = lockfd (handle w)" "trans (handle w2) = None"
    by (simp_all add: w2_def w1_def alpm_trans_free_def set_errno_def)
  show ?thesis
  proof (cases "has_flag t ALPM_TRANS_FLAG_NOLOCK")
    case True
    then have "r = 0 \<and> w' = w2 \<and> l' = l"
      using assms(1) Some st by (simp add: alpm_trans_release_def Let_def set_errno_def has_flag_def w1_def [unfolded set_errno_def] w2_def)
    then show ?thesis using True Some h2 assms(2) by (auto simp: own_lock_def locking_def idle_def)
  next
    case False
    obtain r3 h3 where u: "alpm_handle_unlock os (handle w2) l = (r3, h3, l')" "r = 0" "w' = w2\<lparr>handle := h3\<rparr>"
      using assms(1) Some st False
      by (auto simp: alpm_trans_release_def Let_def set_errno_def has_flag_def w1_def [unfolded set_errno_def] w2_def split: prod.splits)
    have lk: "locking w" using False Some by (simp add: locking_def)
    then obtain path where path: "lockfile (handle w) = Some path" "lockfd (handle w) \<ge> 0" using assms(2) by (auto simp: own_lock_def)
    show ?thesis using handle_unlock_result [OF u(1)] h2 path u(2,3) lk
      by (auto simp: own_lock_def locking_def idle_def)
  qed
qed

section \<open>What all reachable systems have\<close>

lemma put_proc_simps [simp]:
  "procs (put_proc i w S) = (procs S)(i := w)" "locks (put_proc i w S) = locks S"
  "procs (put_machine i m S) = (procs S)(i := mworld m)" "locks (put_machine i m S) = locks S"
  "mworld (machine_of S i) = procs S i" "mdisk (machine_of S i) = sdisk S"
  by (simp_all add: put_proc_def put_machine_def machine_of_def)

text \<open>A call is one that begins, one that releases, or one that keeps the lock.\<close>

lemma call_cases:
  assumes "call fair S S'"
  obtains (init) i os flags r w l where "fair os" "alpm_trans_init os flags (procs S i) (locks S) = Some (r, w, l)"
      "procs S' = (procs S)(i := w)" "locks S' = l"
    | (release) i os r w l where "fair os" "alpm_trans_release os (procs S i) (locks S) = (r, w, l)"
      "procs S' = (procs S)(i := w)" "locks S' = l"
    | (other) i w where "keeps_lock (procs S i) w" "procs S' = (procs S)(i := w)" "locks S' = locks S"
  using assms
proof cases
  case (call_add i p r w)
  then show ?thesis using other [of i w] keeps_lockI [OF add_pkg_lock] by simp
next
  case (call_remove force_load i p r w)
  then show ?thesis using other [of i w] keeps_lockI [OF remove_pkg_lock] by simp
next
  case (call_interrupt i r w)
  then show ?thesis using other [of i w] interrupt_lock [of "procs S i"] by simp
next
  case (call_commit env d given i r data' m)
  then show ?thesis using other [of i "mworld m"] commit_lock [OF call_commit(2)] by simp
qed (auto intro: other init release dest: prepare_lock)

text \<open>What changes is one process and at most its own lock.\<close>

lemma exclusive_change:
  assumes "exclusive S" "own_lock w l" "lockfile (handle w) = lockfile (handle (procs S i))"
    and "procs S' = (procs S)(i := w)" "locks S' = l"
    and "if locking w \<and> \<not> locking (procs S i) then \<exists>path. lockfile (handle w) = Some path \<and> path \<notin> locks S \<and> l = insert path (locks S)
      else if locking (procs S i) \<and> \<not> locking w then \<exists>path. lockfile (handle w) = Some path \<and> (l = locks S \<or> l = locks S - {path})
      else l = locks S"
  shows "exclusive S'"
proof -
  have own: "own_lock (procs S j) (locks S)" for j using assms(1) by (simp add: exclusive_def)
  have ex: "locking (procs S j) \<Longrightarrow> locking (procs S k) \<Longrightarrow> lockfile (handle (procs S j)) = lockfile (handle (procs S k)) \<Longrightarrow> j = k"
    for j k using assms(1) by (simp add: exclusive_def)
  have "own_lock (procs S' j) (locks S')" for j
  proof (cases "j = i")
    case True
    then show ?thesis using assms(2,4,5) by simp
  next
    case False
    have "\<exists>path. lockfile (handle (procs S j)) = Some path \<and> path \<in> l" if lk: "locking (procs S j)"
    proof -
      obtain path where path: "lockfile (handle (procs S j)) = Some path" "path \<in> locks S" using own [of j] lk by (auto simp: own_lock_def)
      have "lockfile (handle w) \<noteq> Some path" if "locking (procs S i)" using ex [OF lk that] path assms(3) False by auto
      then show ?thesis using path assms(6) by (auto split: if_splits)
    qed
    then show ?thesis using own [of j] False assms(4,5) by (auto simp: own_lock_def)
  qed
  moreover have "j = k"
    if lk: "locking (procs S' j)" "locking (procs S' k)" "lockfile (handle (procs S' j)) = lockfile (handle (procs S' k))" for j k
  proof (cases "locking w \<longrightarrow> locking (procs S i)")
    case True
    have "lockfile (handle (procs S' x)) = lockfile (handle (procs S x))" "locking (procs S' x) \<Longrightarrow> locking (procs S x)" for x
      using True assms(3,4) by (simp_all split: if_splits)
    then show ?thesis using ex lk by simp
  next
    case False
    then obtain path where path: "lockfile (handle w) = Some path" "path \<notin> locks S" using assms(6) by auto
    have none: "lockfile (handle (procs S x)) \<noteq> Some path" if "locking (procs S x)" for x using own [of x] that path by (auto simp: own_lock_def)
    show ?thesis
    proof (cases "j = i \<or> k = i")
      case True
      show ?thesis
      proof (rule ccontr)
        assume ne: "j \<noteq> k"
        define x where "x = (if j = i then k else j)"
        have "x \<noteq> i" "locking (procs S' x)" "lockfile (handle (procs S' x)) = lockfile (handle w)"
          using True ne lk assms(4) by (cases "j = i"; simp add: x_def)+
        then show False using none [of x] path(1) assms(4) by simp
      qed
    next
      case False
      then show ?thesis using ex lk assms(4) by simp
    qed
  qed
  ultimately show ?thesis by (simp add: exclusive_def)
qed

lemma call_exclusive:
  assumes "exclusive S" "call fair S S'"
  shows "exclusive S'"
  using assms(2)
proof (cases rule: call_cases)
  case (init i os flags r w l)
  have own: "own_lock (procs S i) (locks S)" using assms(1) by (simp add: exclusive_def)
  note res = init_result [OF init(2) own]
  show ?thesis by (rule exclusive_change [OF assms(1) _ _ init(3,4)]) (use res in \<open>simp_all split: if_splits\<close>)
next
  case (release i os r w l)
  have own: "own_lock (procs S i) (locks S)" using assms(1) by (simp add: exclusive_def)
  note res = release_result [OF release(2) own]
  then have "\<not> locking w" by (simp add: locking_def)
  then show ?thesis
    by (intro exclusive_change [OF assms(1) _ _ release(3,4)]) (use res in \<open>auto split: if_splits\<close>)
next
  case (other i w)
  have own: "own_lock w (locks S)" using own_lock_keeps [OF other(1)] assms(1) by (simp add: exclusive_def)
  show ?thesis using locking_keeps [OF other(1)] other(1)
    by (intro exclusive_change [OF assms(1) own _ other(2,3)]) (auto simp: keeps_lock_def)
qed

lemma accounted_change:
  assumes "accounted S" "lockfile (handle w) = lockfile (handle (procs S i))" "procs S' = (procs S)(i := w)"
    and "\<And>path. path \<in> locks S' \<Longrightarrow> lockfile (handle w) = Some path \<Longrightarrow> locking (procs S i) \<or> path \<notin> locks S \<Longrightarrow> locking w"
    and "\<And>path. path \<in> locks S' \<Longrightarrow> path \<in> locks S \<or> lockfile (handle w) = Some path"
  shows "accounted S'"
proof -
  have "\<exists>j. locking (procs S' j) \<and> lockfile (handle (procs S' j)) = Some path" if path: "path \<in> locks S'" for path
  proof (cases "path \<in> locks S")
    case True
    then obtain j where j: "locking (procs S j)" "lockfile (handle (procs S j)) = Some path" using assms(1) by (auto simp: accounted_def)
    then show ?thesis using assms(2,3) assms(4) [OF path] by (intro exI [of _ j]) auto
  next
    case False
    then show ?thesis using assms(3) assms(4,5) [OF path] by (intro exI [of _ i]) auto
  qed
  then show ?thesis by (simp add: accounted_def)
qed

lemma call_accounted:
  assumes "exclusive S" "accounted S" "call fair S S'" "\<forall>os. fair os \<longrightarrow> os_unlink os"
  shows "accounted S'"
  using assms(3)
proof (cases rule: call_cases)
  case (init i os flags r w l)
  have own: "own_lock (procs S i) (locks S)" using assms(1) by (simp add: exclusive_def)
  note res = init_result [OF init(2) own]
  show ?thesis by (rule accounted_change [OF assms(2) _ init(3)]) (use res init(4) in \<open>auto split: if_splits\<close>)
next
  case (release i os r w l)
  have own: "own_lock (procs S i) (locks S)" using assms(1) by (simp add: exclusive_def)
  note res = release_result [OF release(2) own]
  have unlink: "os_unlink os" using assms(4) release(1) by blast
  show ?thesis by (rule accounted_change [OF assms(2) _ release(3)]) (use res release(4) unlink in \<open>auto split: if_splits\<close>)
next
  case (other i w)
  show ?thesis
    by (rule accounted_change [OF assms(2) _ other(2)])
      (use other locking_keeps [OF other(1)] in \<open>auto simp: keeps_lock_def\<close>)
qed

lemma rest_exclusive: "at_rest S \<Longrightarrow> exclusive S \<and> accounted S"
  by (auto simp: at_rest_def exclusive_def accounted_def own_lock_def locking_def idle_def not_le)

lemma reached_exclusive: "system_reached fair S \<Longrightarrow> exclusive S"
  by (induction rule: system_reached.induct) (blast intro: call_exclusive dest: rest_exclusive)+

lemma reached_accounted:
  assumes "system_reached fair S" "\<forall>os. fair os \<longrightarrow> os_unlink os"
  shows "accounted S"
  using assms(1)
proof induction
  case (more S S')
  then show ?case using call_accounted [OF reached_exclusive] assms(2) by blast
qed (simp add: rest_exclusive)

text \<open>
  \<open>alpm_unlock\<close>, which a frontend may call at any time, is not a call here: it gives the lock
  up while the transaction goes on.
\<close>

lemma unlock_gives_up:
  assumes "own_lock w l" "locking w" "os_unlink os"
  shows "\<exists>h l' path. alpm_unlock os (handle w) l = ((0, False), h, l') \<and> lockfile h = Some path \<and> path \<notin> l' \<and>
    locking (w\<lparr>handle := h\<rparr>)"
  using assms by (auto simp: own_lock_def alpm_unlock_def locking_def)

section \<open>Exclusion and progress\<close>


text \<open>Two processes, and the first removes a package; a hook makes a directory and fails.\<close>

definition rest_system :: "nat system" where
  "rest_system =
     \<lparr>procs = \<lambda>_. \<lparr>handle = alpm_handle_new\<lparr>lockfile := Some ''/l''\<rparr>, wdbs = \<lambda>_. alpm_db_new ''local'' True,
         wpkgs = \<lambda>_. alpm_pkg_new\<lparr>pname := ''foo'', version := Some ''1-1'', origin := ALPM_PKG_FROM_LOCALDB\<rparr>, next_ref = 1\<rparr>,
      gpg = \<lambda>_. (False, 0), sdisk = sample_fs, locks = {}\<rparr>"

definition open_os :: os_env where
  "open_os = \<lparr>os_makepath = \<lambda>_. True, os_open = \<lambda>_. Fd 3, os_unlink = True\<rparr>"

definition hook_env :: "nat commit_env" where
  "hook_env = sample_commit\<lparr>ce_hook := \<lambda>_ _ fs. (1, ALPM_ERR_SYSTEM, snd (mkdir ''/y'' fs))\<rparr>"

lemma hook_makes_dir: "snd (mkdir ''/y'' sample_fs) \<noteq> sample_fs"
proof -
  have "look (snd (mkdir ''/y'' sample_fs)) [''y''] \<noteq> look sample_fs [''y'']" by code_simp
  then show ?thesis by metis
qed

lemma rest_reached: "system_reached fair rest_system"
  by (rule system_reached.start) (simp add: at_rest_def rest_system_def alpm_handle_new_def)

lemma begun_reached:
  obtains w where "system_reached os_unlink ((put_proc 0 w rest_system)\<lparr>locks := {''/l''}\<rparr>)"
    "w = (procs rest_system 0)\<lparr>handle := (handle (procs rest_system 0))\<lparr>lockfd := 3, trans := Some (alpm_trans_new 1)\<rparr>\<rparr>"
proof -
  have "alpm_trans_init open_os 1 (procs rest_system 0) (locks rest_system) =
      Some (0, (procs rest_system 0)\<lparr>handle := (handle (procs rest_system 0))\<lparr>lockfd := 3, trans := Some (alpm_trans_new 1)\<rparr>\<rparr>, {''/l''})"
    by (simp add: alpm_trans_init_def rest_system_def alpm_handle_new_def set_errno_def alpm_handle_lock_def open_os_def lock_loop.simps)
  from call_init [OF _ this, of os_unlink] show thesis
    using that system_reached.more [OF rest_reached] by (simp add: open_os_def)
qed

lemma prepared_reached:
  "\<exists>(S :: nat system) t. system_reached os_unlink S \<and> sdisk S = sample_fs \<and> trans (handle (procs S 0)) = Some t \<and> tstate t = STATE_PREPARED \<and>
     tflags t = 1 \<and> tadd t = [] \<and> tremove t \<noteq> []"
proof -
  obtain w where w: "system_reached os_unlink ((put_proc 0 w rest_system)\<lparr>locks := {''/l''}\<rparr>)"
    "w = (procs rest_system 0)\<lparr>handle := (handle (procs rest_system 0))\<lparr>lockfd := 3, trans := Some (alpm_trans_new 1)\<rparr>\<rparr>"
    by (rule begun_reached)
  obtain w1 t1 where w1: "alpm_remove_pkg (\<lambda>_. False) w (Some 0) = (0, w1)" "trans (handle w1) = Some t1"
    "t1 = (alpm_trans_new 1)\<lparr>tremove := [1]\<rparr>"
    by (simp add: w(2) rest_system_def alpm_remove_pkg_def set_errno_def alpm_handle_new_def alpm_pkg_new_def alpm_trans_new_def
        alpm_pkg_find_def dup_pkg_def alpm_pkg_dup_def alloc_pkg_def Let_def upd_trans_def alpm_list_add_def split: prod.splits)
  define S1 where "S1 = put_proc 0 w1 ((put_proc 0 w rest_system)\<lparr>locks := {''/l''}\<rparr>)"
  have S1: "system_reached os_unlink S1" "procs S1 0 = w1" "sdisk S1 = sample_fs"
    using system_reached.more [OF w(1) call_remove [of _ _ 0]] w1(1) by (auto simp: S1_def put_proc_def rest_system_def)
  define senv where "senv = \<lparr>env_fnmatch = \<lambda>_ _. False, env_questions = no_questions, env_force_load = \<lambda>_. False,
      env_is_reg = \<lambda>_. False, env_stat_size = \<lambda>_. None\<rparr>"
  obtain w2 t2 where w2: "alpm_trans_prepare senv w1 True = Some (0, [], w2)" "trans (handle w2) = Some t2"
    "t2 = t1\<lparr>tstate := STATE_PREPARED\<rparr>"
    using w1(2,3) by (simp add: alpm_trans_prepare_def set_errno_def alpm_trans_new_def check_arch_def alpm_remove_prepare_def
        remove_check_deps_def has_flag_def transaction_def Let_def upd_trans_def)
  have "system_reached os_unlink (put_proc 0 w2 S1)"
    using system_reached.more [OF S1(1) call_prepare [of senv S1 0 True 0 "[]" w2]] w2(1) S1(2) by simp
  moreover have "sdisk (put_proc 0 w2 S1) = sample_fs" using S1(3) by (simp add: put_proc_def)
  ultimately show ?thesis using w2(2,3) w1(3)
    by (intro exI [of _ "put_proc 0 w2 S1"] exI [of _ t2]) (simp add: alpm_trans_new_def)
qed


text \<open>C9: no process is kept from its transaction for good. As long as removing a lock file works, in every
  reachable system a process without a transaction gets one, if the system lets it make the lock file: at once,
  or after another process has released the transaction it has, which it always can.\<close>

theorem transaction_can_begin:
  assumes "system_reached os_unlink S" "trans (handle (procs S j)) = None" "lockfile (handle (procs S j)) = Some path"
    and "os_unlink os" "os_makepath os (lock_dir path)" "os_open os 0 = Fd fd"
  shows "\<exists>S'. (S' = S \<or> (\<exists>i r w l. i \<noteq> j \<and> alpm_trans_release os (procs S i) (locks S) = (0, w, l) \<and>
      S' = (put_proc i w S)\<lparr>locks := l\<rparr>)) \<and>
    (\<exists>w l. alpm_trans_init os flags (procs S' j) (locks S') = Some (0, w, l) \<and>
      trans (handle w) = Some (alpm_trans_new flags))"
proof -
  have ex: "exclusive S" by (rule reached_exclusive [OF assms(1)])
  have own: "own_lock (procs S i) (locks S)" for i using ex by (simp add: exclusive_def)
  have starts: "\<exists>w l. alpm_trans_init os flags (procs S j) l0 = Some (0, w, l) \<and> trans (handle w) = Some (alpm_trans_new flags)"
    if "path \<notin> l0" for l0
  proof -
    have "lockfd (handle (procs S j)) < 0" using own [of j] assms(2) by (auto simp: own_lock_def locking_def)
    moreover have "lock_loop os False 0 = Some (int fd)" using assms(6) by (simp add: lock_loop.simps)
    ultimately show ?thesis using that assms(2,3,5)
      by (auto simp: alpm_trans_init_def alpm_handle_lock_def Let_def set_errno_def)
  qed
  show ?thesis
  proof (cases "path \<in> locks S")
    case False
    then show ?thesis using starts by blast
  next
    case True
    then obtain i where i: "locking (procs S i)" "lockfile (handle (procs S i)) = Some path"
      using reached_accounted [OF assms(1)] by (auto simp: accounted_def)
    obtain r w l where rel: "alpm_trans_release os (procs S i) (locks S) = (r, w, l)" by (metis prod_cases3)
    note res = release_result [OF rel own]
    have "r = 0" "path \<notin> l" using res i assms(4) by (auto simp: locking_def)
    moreover have ne: "i \<noteq> j" using i(1) assms(2) by (auto simp: locking_def)
    moreover have "procs ((put_proc i w S)\<lparr>locks := l\<rparr>) j = procs S j" using ne by simp
    ultimately show ?thesis using starts [of l] rel by (intro exI [of _ "(put_proc i w S)\<lparr>locks := l\<rparr>"]) auto
  qed
qed

theorem transaction_can_begin_witness:
  "\<exists>w S w' l. system_reached os_unlink ((put_proc 0 w rest_system)\<lparr>locks := {''/l''}\<rparr>) \<and>
     alpm_trans_init open_os 0 (procs S 1) (locks (S :: nat system)) = Some (0, w', l)"
proof -
  obtain w where w: "system_reached os_unlink ((put_proc 0 w rest_system)\<lparr>locks := {''/l''}\<rparr>)" by (rule begun_reached)
  have "trans (handle (procs ((put_proc 0 w rest_system)\<lparr>locks := {''/l''}\<rparr>) 1)) = None"
    "lockfile (handle (procs ((put_proc 0 w rest_system)\<lparr>locks := {''/l''}\<rparr>) 1)) = Some ''/l''"
    by (simp_all add: rest_system_def alpm_handle_new_def)
  from transaction_can_begin [OF w this, of open_os 3 0] w show ?thesis by (auto simp: open_os_def)
qed

end
