(* ===== verification/AlpmLocalCache.thy ===== *)
theory AlpmLocalCache
  imports AlpmLocal
begin

text \<open>
  \<open>local_db_populate\<close> fills the package cache with the entries of the directory of the database.
\<close>

section \<open>One entry after the other\<close>

text \<open>The entry has the name of a package, with its version.\<close>

definition entry_of :: "filesys \<Rightarrow> bool \<Rightarrow> string \<Rightarrow> string \<Rightarrow> string \<Rightarrow> string \<Rightarrow> bool" where
  "entry_of fs d_type dir e n v \<longleftrightarrow> is_dir fs d_type dir e \<and> (\<exists>h. alpm_splitname (Some e) = SplitOk n v h)"

lemma split_hash: "alpm_splitname t = SplitOk n v h \<Longrightarrow> h = name_hash_of n"
  by (auto simp: alpm_splitname_def Let_def split: option.splits if_splits)

lemma read_base: "infolevel pkg = 0 \<Longrightarrow> local_db_read rd fs dir pkg INFRQ_BASE = Some (0, pkg)"
  by (simp add: local_db_read_def load_desc_def load_files_def load_install_def lacks_def)

text \<open>What the loop has made of the hash and the store.\<close>

definition filled ::
  "filesys \<Rightarrow> bool \<Rightarrow> string \<Rightarrow> dbref \<Rightarrow> string list \<Rightarrow> alpm_pkghash_t \<Rightarrow> alpm_world \<Rightarrow> alpm_pkghash_t \<Rightarrow> alpm_world \<Rightarrow> bool" where
  "filled fs d_type dir db ns hash w hash' w' \<longleftrightarrow>
     pkghash_inv (wpkgs w') hash' \<and> (\<forall>p\<in>set (hlist hash'). p < next_ref w') \<and>
     handle w' = handle w \<and> wdbs w' = wdbs w \<and> next_ref w \<le> next_ref w' \<and>
     (\<forall>p<next_ref w. wpkgs w' p = wpkgs w p) \<and> set (hlist hash) \<subseteq> set (hlist hash') \<and>
     (\<forall>e\<in>set ns. \<forall>n v. entry_of fs d_type dir e n v \<longrightarrow> (\<exists>p\<in>set (hlist hash'). pname (wpkgs w' p) = n)) \<and>
     (\<forall>p\<in>set (hlist hash'). p \<in> set (hlist hash) \<or>
        origin (wpkgs w' p) = ALPM_PKG_FROM_LOCALDB \<and> origin_data (wpkgs w' p) = Origin_db db \<and>
        (\<exists>e\<in>set ns. \<exists>v. version (wpkgs w' p) = Some v \<and> entry_of fs d_type dir e (pname (wpkgs w' p)) v))"

lemma filled_skip:
  assumes "filled fs d_type dir db ns hash w hash' w'"
    and "\<And>n v. entry_of fs d_type dir e n v \<Longrightarrow> \<exists>p\<in>set (hlist hash). p < next_ref w \<and> pname (wpkgs w p) = n"
  shows "filled fs d_type dir db (e # ns) hash w hash' w'"
proof -
  have "\<exists>p\<in>set (hlist hash'). pname (wpkgs w' p) = n" if "entry_of fs d_type dir e n v" for n v
    using assms(2) [OF that] assms(1) unfolding filled_def by (metis subsetD)
  then show ?thesis using assms(1) unfolding filled_def by auto
qed

lemma filled_add:
  assumes f: "filled fs d_type dir db ns hash1 w1 hash' w'" and h: "hlist hash1 = hlist hash @ [next_ref w]"
    and w1: "w1 = w\<lparr>wpkgs := (wpkgs w)(next_ref w := pkg), next_ref := next_ref w + 1\<rparr>"
    and pkg: "origin pkg = ALPM_PKG_FROM_LOCALDB" "origin_data pkg = Origin_db db"
    and e: "\<And>n v. entry_of fs d_type dir e n v \<longleftrightarrow> n = pname pkg \<and> Some v = version pkg" "version pkg \<noteq> None"
  shows "filled fs d_type dir db (e # ns) hash w hash' w'"
proof -
  have new: "wpkgs w' (next_ref w) = pkg" "next_ref w \<in> set (hlist hash')"
    using f h by (auto simp: filled_def w1)
  have "\<forall>e'\<in>set (e # ns). \<forall>n v. entry_of fs d_type dir e' n v \<longrightarrow> (\<exists>p\<in>set (hlist hash'). pname (wpkgs w' p) = n)"
    using f new e(1) by (auto simp: filled_def)
  moreover have "p \<in> set (hlist hash) \<or>
      origin (wpkgs w' p) = ALPM_PKG_FROM_LOCALDB \<and> origin_data (wpkgs w' p) = Origin_db db \<and>
      (\<exists>e\<in>set (e # ns). \<exists>v. version (wpkgs w' p) = Some v \<and> entry_of fs d_type dir e (pname (wpkgs w' p)) v)"
    if "p \<in> set (hlist hash')" for p
  proof (cases "p = next_ref w")
    case True
    then show ?thesis using new pkg e by auto
  next
    case False
    then have "p \<in> set (hlist hash1) \<longleftrightarrow> p \<in> set (hlist hash)" using h by simp
    then show ?thesis using f that unfolding filled_def by (metis list.set_intros(2))
  qed
  ultimately show ?thesis using f h unfolding filled_def w1 by auto
qed

lemma populate_loop_filled:
  assumes "\<forall>e\<in>set ns. is_dir fs d_type dir e \<longrightarrow> alpm_splitname (Some e) \<noteq> SplitOutOfBounds"
    and "pkghash_inv (wpkgs w) hash" "\<forall>p\<in>set (hlist hash). p < next_ref w" "entries hash + length ns \<le> 414054"
  shows "\<exists>hash' found' w'. populate_loop rd fs d_type dir db ns hash found w = Some (True, hash', found', w') \<and>
    filled fs d_type dir db ns hash w hash' w' \<and> length (hlist hash') + found = length (hlist hash) + found'"
  using assms
proof (induction ns arbitrary: hash found w)
  case Nil
  then show ?case by (auto simp: filled_def)
next
  case (Cons e ns)
  have skip: ?case if "populate_loop rd fs d_type dir db (e # ns) hash found w = populate_loop rd fs d_type dir db ns hash found w"
    "\<And>n v. entry_of fs d_type dir e n v \<Longrightarrow> \<exists>p\<in>set (hlist hash). p < next_ref w \<and> pname (wpkgs w p) = n"
    using Cons.IH [of w hash found] Cons.prems that filled_skip [OF _ that(2)] by fastforce
  show ?case
  proof (cases "is_dir fs d_type dir e \<and> (\<exists>n v h. alpm_splitname (Some e) = SplitOk n v h)")
    case False
    then show ?thesis using Cons.prems(1) by (intro skip) (auto simp: entry_of_def split: split_result.splits)
  next
    case True
    then obtain n v h where e: "is_dir fs d_type dir e" "alpm_splitname (Some e) = SplitOk n v h" by blast
    have entry: "entry_of fs d_type dir e n' v' \<longleftrightarrow> n' = n \<and> v' = v" for n' v' using e by (auto simp: entry_of_def)
    show ?thesis
    proof (cases "contents (wpkgs w) hash n")
      case (Some p)
      then have "p \<in> set (hlist hash)" "pname (wpkgs w p) = n" by (auto simp: contents_def find_Some_iff)
      then show ?thesis
        using e Some find_contents [OF Cons.prems(2), of n] Cons.prems(3) by (intro skip) (auto simp: entry)
    next
      case None
      define pkg where "pkg = alpm_pkg_new
        \<lparr>pname := n, version := Some v, name_hash := h, origin := ALPM_PKG_FROM_LOCALDB, origin_data := Origin_db db\<rparr>"
      have pkg: "pname pkg = n" "version pkg = Some v" "origin pkg = ALPM_PKG_FROM_LOCALDB" "origin_data pkg = Origin_db db"
        "hashed pkg" "infolevel pkg = 0"
        using split_hash [OF e(2)] by (simp_all add: pkg_def hashed_def alpm_pkg_new_def)
      define w1 where "w1 = w\<lparr>wpkgs := (wpkgs w)(next_ref w := pkg), next_ref := next_ref w + 1\<rparr>"
      have w1: "wpkgs w1 (next_ref w) = pkg" "next_ref w1 = next_ref w + 1" "\<And>p. p \<noteq> next_ref w \<Longrightarrow> wpkgs w1 p = wpkgs w p"
        by (simp_all add: w1_def)
      have same: "\<forall>p\<in>set (hlist hash). wpkgs w1 p = wpkgs w p" using Cons.prems(3) by (auto simp: w1_def)
      note inv = pkghash_inv_cong [OF same Cons.prems(2)]
      have "\<forall>p\<in>set (hlist hash). pname (wpkgs w1 p) \<noteq> pname (wpkgs w1 (next_ref w))"
        using None same w1(1) pkg(1) by (auto simp: contents_def find_None_iff)
      moreover have "hashed (wpkgs w1 (next_ref w))" "entries hash < 414054" using w1(1) pkg(5) Cons.prems(4) by simp_all
      ultimately obtain hash1 where a: "alpm_pkghash_add (wpkgs w1) hash (next_ref w) = Some (True, hash1)"
        "pkghash_inv (wpkgs w1) hash1" "hlist hash1 = hlist hash @ [next_ref w]"
        using conjunct1 [OF add_total [OF inv(1), of "next_ref w"]] by blast
      have step: "populate_loop rd fs d_type dir db (e # ns) hash found w = populate_loop rd fs d_type dir db ns hash1 (found + 1) w1"
        unfolding populate_loop.simps(2) e(2) split_result.case find_contents [OF Cons.prems(2)] None option.case
          pkg_def [symmetric] Let_def read_base [OF pkg(6)] prod.case w1_def [symmetric] a(1)
        using e(1) by simp
      have ent: "entries hash1 = length (hlist hash) + 1" "entries hash = length (hlist hash)"
        using pkghash_invD(5) [OF a(2)] pkghash_invD(5) [OF Cons.prems(2)] a(3) by simp_all
      obtain hash' found' w' where r: "populate_loop rd fs d_type dir db ns hash1 (found + 1) w1 = Some (True, hash', found', w')"
        "filled fs d_type dir db ns hash1 w1 hash' w'" "length (hlist hash') + (found + 1) = length (hlist hash1) + found'"
        using Cons.IH [of w1 hash1 "found + 1"] Cons.prems a(2,3) ent w1(2) by fastforce
      have "filled fs d_type dir db (e # ns) hash w hash' w'"
        by (rule filled_add [OF r(2) a(3) w1_def pkg(3,4)]) (use entry pkg in auto)
      then show ?thesis using step r(1,3) a(3) by simp
    qed
  qed
qed

section \<open>The whole directory\<close>

lemma create_room: "n \<le> 400000 \<Longrightarrow> alpm_pkghash_create n \<noteq> None"
proof -
  assume "n \<le> 400000"
  then have "n * 100 div 58 + 1 < 976369" by simp
  moreover have "976369 \<in> set prime_list" by (simp add: prime_list_def)
  ultimately have "List.find (\<lambda>p. p > n * 100 div 58 + 1) prime_list \<noteq> None" by (auto simp: find_None_iff)
  then show ?thesis by (auto simp: alpm_pkghash_create_def Let_def split: option.splits)
qed

lemma sorted_cache:
  assumes "pkghash_inv ps hash" "found = length (hlist hash)"
  defines "hash' \<equiv> hash\<lparr>hlist := alpm_list_msort (alpm_pkg_cmp ps) found (hlist hash)\<rparr>"
  shows "pkghash_inv ps hash'" "set (hlist hash') = set (hlist hash)" "sorted (map (\<lambda>p. pname (ps p)) (hlist hash'))"
proof -
  have m: "mset (hlist hash') = mset (hlist hash)" using assms(2) by (simp add: hash'_def)
  then show set: "set (hlist hash') = set (hlist hash)" by (rule mset_eq_setD)
  have "distinct (map (\<lambda>p. pname (ps p)) (hlist hash'))"
    using assms(1) m unfolding pkghash_inv_def by (metis mset_eq_imp_distinct_iff mset_map)
  then show "pkghash_inv ps hash'"
    using assms(1) m set mset_eq_length [OF m] unfolding pkghash_inv_def by (auto simp: hash'_def)
  have "sorted_wrt (\<lambda>a b. alpm_pkg_cmp ps a b \<le> 0) (hlist hash')"
    using assms(2) pkg_cmp.msort_ordered [of "hlist hash" found ps] by (simp add: hash'_def)
  then show "sorted (map (\<lambda>p. pname (ps p)) (hlist hash'))"
    by (simp add: sorted_wrt_map alpm_pkg_cmp_def strcmp_cmp3)
qed

text \<open>C16: When the local database is read, the cache holds exactly the packages of which there is an
  entry, one per name, with the version of one of its entries; they come from the database, the list
  is sorted by name, and a search finds every one of them. The packages that were known before and the other
  databases are untouched. An entry whose name is no name of a package is passed over.\<close>

theorem populate_exact:
  assumes "\<not> has_status (wdbs w db) DB_STATUS_INVALID" "\<not> has_status (wdbs w db) DB_STATUS_MISSING"
    and dir: "opendir fs (fst (alpm_db_path w db)) = Inr ns" and "length ns \<le> 400000" "nlink \<le> 400000"
    and split: "\<forall>e\<in>set ns. is_dir fs d_type (fst (alpm_db_path w db)) e \<longrightarrow> alpm_splitname (Some e) \<noteq> SplitOutOfBounds"
  shows "\<exists>w' hash. local_db_populate rd d_type nlink fs db w = Some (0, w') \<and> pkgcache (wdbs w' db) = Some hash \<and>
    (\<forall>p\<in>set (hlist hash). origin (wpkgs w' p) = ALPM_PKG_FROM_LOCALDB \<and> origin_data (wpkgs w' p) = Origin_db db \<and>
      (\<exists>e\<in>set ns. \<exists>v. version (wpkgs w' p) = Some v \<and>
        entry_of fs d_type (fst (alpm_db_path w db)) e (pname (wpkgs w' p)) v)) \<and>
    (\<forall>n. (\<exists>e\<in>set ns. \<exists>v. entry_of fs d_type (fst (alpm_db_path w db)) e n v) \<longleftrightarrow>
      (\<exists>p\<in>set (hlist hash). pname (wpkgs w' p) = n \<and> alpm_pkghash_find (wpkgs w') hash n = Some (Some p))) \<and>
    sorted (map (\<lambda>p. pname (wpkgs w' p)) (hlist hash)) \<and> distinct (map (\<lambda>p. pname (wpkgs w' p)) (hlist hash)) \<and>
    (\<forall>p<next_ref w. wpkgs w' p = wpkgs w p) \<and> (\<forall>d. d \<noteq> db \<longrightarrow> wdbs w' d = wdbs w d) \<and> handle w' = handle w"
proof -
  obtain d w0 where p: "alpm_db_path w db = (d, w0)" by fastforce
  then have w0: "handle w0 = handle w" "wpkgs w0 = wpkgs w" "next_ref w0 = next_ref w" "\<And>k. k \<noteq> db \<Longrightarrow> wdbs w0 k = wdbs w k"
    by (auto simp: alpm_db_path_def Let_def upd_db_def split: option.splits)
  define w1 where "w1 = set_status DB_STATUS_EXISTS DB_STATUS_MISSING db w0"
  have w1: "handle w1 = handle w" "wpkgs w1 = wpkgs w" "next_ref w1 = next_ref w" "\<And>k. k \<noteq> db \<Longrightarrow> wdbs w1 k = wdbs w k"
    using w0 by (simp_all add: w1_def set_status_def upd_db_def)
  define est where "est = (let c = (if nlink \<ge> 2 then nlink else length ns + 2) in if c \<ge> 2 then c - 2 else c)"
  have "est \<le> 400000" using assms(4,5) by (auto simp: est_def Let_def)
  then obtain h0 where h0: "alpm_pkghash_create est = Some h0" using create_room by blast
  have "pkghash_inv (wpkgs w1) h0" "hlist h0 = []" "entries h0 = 0"
    using create_inv [OF h0] create_spec(5,6) [OF h0] by simp_all
  moreover have "\<forall>e\<in>set ns. is_dir fs d_type d e \<longrightarrow> alpm_splitname (Some e) \<noteq> SplitOutOfBounds" using split p by simp
  ultimately obtain hash' found w2 where r: "populate_loop rd fs d_type d db ns h0 0 w1 = Some (True, hash', found, w2)"
    "filled fs d_type d db ns h0 w1 hash' w2" "length (hlist hash') = found"
    using populate_loop_filled [of ns fs d_type d w1 h0 rd db 0] assms(4) by auto
  define hash where "hash = (if found > 0 then hash'\<lparr>hlist := alpm_list_msort (alpm_pkg_cmp (wpkgs w2)) found (hlist hash')\<rparr> else hash')"
  define w' where "w' = upd_db db (\<lambda>d. d\<lparr>pkgcache := Some hash\<rparr>) w2"
  have run: "local_db_populate rd d_type nlink fs db w = Some (0, w')"
    using assms(1,2) dir h0 r(1) p
    by (simp add: local_db_populate_def w1_def [symmetric] est_def Let_def hash_def w'_def)
  have F: "pkghash_inv (wpkgs w2) hash'" using r(2) by (simp add: filled_def)
  have hash: "pkghash_inv (wpkgs w2) hash" "set (hlist hash) = set (hlist hash')" "sorted (map (\<lambda>p. pname (wpkgs w2 p)) (hlist hash))"
    using sorted_cache [OF F r(3) [symmetric]] F r(3) by (auto simp: hash_def)
  have w': "wpkgs w' = wpkgs w2" "handle w' = handle w2" "pkgcache (wdbs w' db) = Some hash" "\<And>k. k \<noteq> db \<Longrightarrow> wdbs w' k = wdbs w2 k"
    by (simp_all add: w'_def upd_db_def)
  have dist: "distinct (map (\<lambda>p. pname (wpkgs w2 p)) (hlist hash))" using hash(1) by (simp add: pkghash_inv_def)
  have found: "alpm_pkghash_find (wpkgs w2) hash n = Some (Some q)" if "q \<in> set (hlist hash)" "pname (wpkgs w2 q) = n" for q n
    using find_contents [OF hash(1), of n] contents_Some [OF hash(1), of n q] that by simp
  have origins: "q \<in> set (hlist hash) \<Longrightarrow> origin (wpkgs w2 q) = ALPM_PKG_FROM_LOCALDB \<and> origin_data (wpkgs w2 q) = Origin_db db \<and>
      (\<exists>e\<in>set ns. \<exists>v. version (wpkgs w2 q) = Some v \<and> entry_of fs d_type d e (pname (wpkgs w2 q)) v)" for q
    using r(2) hash(2) create_spec(5) [OF h0] by (auto simp: filled_def)
  have every: "entry_of fs d_type d e n v \<Longrightarrow> e \<in> set ns \<Longrightarrow> \<exists>q\<in>set (hlist hash). pname (wpkgs w2 q) = n" for e n v
    using r(2) unfolding filled_def hash(2) by meson
  have names: "(\<exists>e\<in>set ns. \<exists>v. entry_of fs d_type d e n v) \<longleftrightarrow>
      (\<exists>p\<in>set (hlist hash). pname (wpkgs w2 p) = n \<and> alpm_pkghash_find (wpkgs w2) hash n = Some (Some p))" (is "?L \<longleftrightarrow> ?R") for n
  proof
    assume ?L
    then obtain q where "q \<in> set (hlist hash)" "pname (wpkgs w2 q) = n" using every by blast
    then show ?R using found by blast
  next
    assume ?R
    then show ?L using origins by blast
  qed
  have "\<forall>p<next_ref w. wpkgs w2 p = wpkgs w p" "handle w2 = handle w" "wdbs w2 = wdbs w1"
    using r(2) w1(1-3) by (simp_all add: filled_def)
  then show ?thesis
    unfolding p fst_conv
    by (intro exI [of _ w'] exI [of _ hash] conjI run w'(3)) (use origins names hash(3) dist w' w1(4) in simp_all)
qed

text \<open>The entries of the database are directories; \<open>a\<close> has no version.\<close>

definition local_fs :: filesys where
  "local_fs =
     \<lparr>fs_nodes = [([''l''], Dir), ([''l'', ''a-1-2''], Dir), ([''l'', ''a-1-3''], Dir), ([''l'', ''ALPM_DB_VERSION''], File ''9'')],
      fs_fault = \<lambda>_. None, fs_nowrite = \<lambda>_. None, fs_dev = \<lambda>_. 0\<rparr>"

definition local_world :: alpm_world where
  "local_world =
     \<lparr>handle = alpm_handle_new, wdbs = \<lambda>_. (alpm_db_new ''local'' True)\<lparr>db_path := Some ''/l/''\<rparr>,
      wpkgs = \<lambda>_. alpm_pkg_new, next_ref = 1\<rparr>"

theorem populate_exact_witness:
  "\<exists>w' hash. local_db_populate fgets True 2 local_fs 0 local_world = Some (0, w') \<and> pkgcache (wdbs w' 0) = Some hash \<and>
    (\<exists>p\<in>set (hlist hash). pname (wpkgs w' p) = ''a'')"
proof -
  have dir: "fst (alpm_db_path local_world 0) = ''/l/''" by (simp add: alpm_db_path_def local_world_def)
  have ns: "opendir local_fs ''/l/'' = Inr [''a-1-2'', ''a-1-3'', ''ALPM_DB_VERSION'']"
    by (simp add: opendir_def stat_def stat_node_def resolve_def components_def local_fs_def look_def slashed_def children_def)
  have is_dir: "is_dir local_fs True ''/l/'' ''a-1-2''" "is_dir local_fs True ''/l/'' ''a-1-3''"
    "\<not> is_dir local_fs True ''/l/'' ''ALPM_DB_VERSION''"
    by (simp_all add: is_dir_def lstat_def stat_node_def resolve_def components_def local_fs_def look_def slashed_def)
  have split: "alpm_splitname (Some ''a-1-2'') = SplitOk ''a'' ''1-2'' (name_hash_of ''a'')"
    "alpm_splitname (Some ''a-1-3'') = SplitOk ''a'' ''1-3'' (name_hash_of ''a'')"
    by (simp_all add: alpm_splitname_def Let_def)
  have st: "\<not> has_status (wdbs local_world 0) DB_STATUS_INVALID" "\<not> has_status (wdbs local_world 0) DB_STATUS_MISSING"
    by (simp_all add: has_status_def local_world_def alpm_db_new_def)
  have e: "entry_of local_fs True ''/l/'' ''a-1-2'' ''a'' ''1-2''" using is_dir split by (auto simp: entry_of_def)
  obtain w' hash where "local_db_populate fgets True 2 local_fs 0 local_world = Some (0, w')" "pkgcache (wdbs w' 0) = Some hash"
    "\<forall>n. (\<exists>e\<in>set [''a-1-2'', ''a-1-3'', ''ALPM_DB_VERSION'']. \<exists>v. entry_of local_fs True ''/l/'' e n v) \<longleftrightarrow>
      (\<exists>p\<in>set (hlist hash). pname (wpkgs w' p) = n \<and> alpm_pkghash_find (wpkgs w') hash n = Some (Some p))"
    using populate_exact [of local_world 0 local_fs "[''a-1-2'', ''a-1-3'', ''ALPM_DB_VERSION'']" 2 True fgets] st is_dir split ns
    unfolding dir by auto
  then show ?thesis using e by (metis list.set_intros(1))
qed

end
