(* ===== verification/AlpmSyncDb.thy ===== *)
theory AlpmSyncDb
  imports AlpmSyncCommit AlpmLocalCache
begin

text \<open>
  The databases of packages that can be installed (\<open>lib/libalpm/be_sync.c\<close>):
  reading the archive of the entries into the package cache.
\<close>

section \<open>Lines of an entry\<close>

text \<open>
  A line, with the size of the buffer it is in. \<open>READ_AND_SPLITDEP\<close> reads every line through the pointer to the
  line of the header, which is only good as long as the buffer has not grown.
\<close>

type_synonym sized_line = "string \<times> nat"

fun sized_lines :: "nat \<Rightarrow> archive_read_buffer \<Rightarrow> blocks \<Rightarrow> (sized_line list \<times> int) option" where
  "sized_lines 0 b bs = None"
| "sized_lines (Suc n) b bs =
     (case alpm_archive_fgets b bs of
        (r, b, bs) \<Rightarrow>
          if r \<noteq> ARCHIVE_OK then Some ([], r)
          else map_option (\<lambda>(ls, r). ((the (bline b), line_size b) # ls, r)) (sized_lines n b bs))"

text \<open>The line without its newline, as the string functions see it; empty if its length is 0.\<close>

definition stripped :: "string \<Rightarrow> string" where
  "stripped line = c_bytes (fst (alpm_strip_newline (if line \<noteq> [] \<and> hd line = NUL then [] else line) (length line)))"

section \<open>Sections\<close>

text \<open>The lines up to an empty one; if they end before, what was read stays and the rest is \<open>None\<close>.\<close>

fun read_and_store_all :: "sized_line list \<Rightarrow> string list \<Rightarrow> string list \<times> sized_line list option" where
  "read_and_store_all [] f = (f, None)"
| "read_and_store_all ((line, _) # ls) f =
     (if stripped line = [] then (f, Some ls) else read_and_store_all ls (alpm_list_add f (stripped line)))"

text \<open>\<open>None\<close> if the pointer is no good any more.\<close>

fun read_and_splitdep :: "nat \<Rightarrow> sized_line list \<Rightarrow> alpm_depend_t list \<Rightarrow> (alpm_depend_t list \<times> sized_line list option) option" where
  "read_and_splitdep room [] f = Some (f, None)"
| "read_and_splitdep room ((line, n) # ls) f =
     (if stripped line = [] then Some (f, Some ls)
      else if n \<noteq> room then None
      else read_and_splitdep room ls (add_dep (stripped line) f))"

fun read_file_names :: "sized_line list \<Rightarrow> alpm_filelist_t \<Rightarrow> (alpm_filelist_t \<times> sized_line list) option" where
  "read_file_names [] acc = None"
| "read_file_names ((line, _) # ls) acc =
     (if stripped line = [] then Some (acc, ls)
      else read_file_names ls (acc @ [\<lparr>fname = stripped line, fsize = 0, fmode = 0\<rparr>]))"

text \<open>\<open>_alpm_validate_filename\<close>.\<close>

definition alpm_validate_filename :: "string \<Rightarrow> int" where
  "alpm_validate_filename name =
     (if name \<noteq> [] \<and> hd name = CHR ''.'' then -1
      else if CHR ''/'' \<in> set name then -1
      else if length name > PATH_MAX then -1
      else 0)"

text \<open>What comes of a section: go on with the rest, or stop with an error.\<close>

datatype outcome = Go_on "sized_line list" | Parse_error

definition rest_or_error :: "sized_line list option \<Rightarrow> outcome" where
  "rest_or_error r = (case r of None \<Rightarrow> Parse_error | Some ls \<Rightarrow> Go_on ls)"

definition store_line :: "(string \<Rightarrow> alpm_pkg_t \<Rightarrow> alpm_pkg_t) \<Rightarrow> sized_line list \<Rightarrow> alpm_pkg_t \<Rightarrow> (alpm_pkg_t \<times> outcome) option" where
  "store_line f ls pkg =
     Some (case ls of [] \<Rightarrow> (pkg, Parse_error) | (line, _) # ls \<Rightarrow> (f (stripped line) pkg, Go_on ls))"

definition store_filename :: "sized_line list \<Rightarrow> alpm_pkg_t \<Rightarrow> (alpm_pkg_t \<times> outcome) option" where
  "store_filename ls pkg =
     Some (case ls of
             [] \<Rightarrow> (pkg, Parse_error)
           | (line, _) # ls \<Rightarrow>
               (pkg\<lparr>filename := Some (stripped line)\<rparr>, if alpm_validate_filename (stripped line) < 0 then Parse_error else Go_on ls))"

definition store_all ::
  "(string list \<Rightarrow> alpm_pkg_t \<Rightarrow> alpm_pkg_t) \<Rightarrow> string list \<Rightarrow> sized_line list \<Rightarrow> alpm_pkg_t \<Rightarrow> (alpm_pkg_t \<times> outcome) option" where
  "store_all f old ls pkg = (case read_and_store_all ls old of (new, r) \<Rightarrow> Some (f new pkg, rest_or_error r))"

definition store_deps ::
  "nat \<Rightarrow> (alpm_depend_t list \<Rightarrow> alpm_pkg_t \<Rightarrow> alpm_pkg_t) \<Rightarrow> alpm_depend_t list \<Rightarrow> sized_line list \<Rightarrow> alpm_pkg_t \<Rightarrow>
   (alpm_pkg_t \<times> outcome) option" where
  "store_deps room f old ls pkg = map_option (\<lambda>(new, r). (f new pkg, rest_or_error r)) (read_and_splitdep room ls old)"

definition store_files :: "sized_line list \<Rightarrow> alpm_pkg_t \<Rightarrow> (alpm_pkg_t \<times> outcome) option" where
  "store_files ls pkg =
     Some (case read_file_names ls [] of
             None \<Rightarrow> (pkg, Parse_error)
           | Some (fl, ls) \<Rightarrow> (pkg\<lparr>files := alpm_filelist_sort fl\<rparr>, Go_on ls))"

text \<open>One header with what follows; a mismatch of the name or the version is only reported.\<close>

definition sync_section :: "string \<Rightarrow> nat \<Rightarrow> sized_line list \<Rightarrow> alpm_pkg_t \<Rightarrow> (alpm_pkg_t \<times> outcome) option" where
  "sync_section line room ls pkg =
     (if line = ''%NAME%'' then store_line (\<lambda>_ p. p) ls pkg
      else if line = ''%VERSION%'' then store_line (\<lambda>_ p. p) ls pkg
      else if line = ''%FILENAME%'' then store_filename ls pkg
      else if line = ''%BASE%'' then store_line (\<lambda>s p. p\<lparr>base := Some s\<rparr>) ls pkg
      else if line = ''%DESC%'' then store_line (\<lambda>s p. p\<lparr>desc := Some s\<rparr>) ls pkg
      else if line = ''%GROUPS%'' then store_all (\<lambda>l p. p\<lparr>groups := l\<rparr>) (groups pkg) ls pkg
      else if line = ''%URL%'' then store_line (\<lambda>s p. p\<lparr>url := Some s\<rparr>) ls pkg
      else if line = ''%LICENSE%'' then store_all (\<lambda>l p. p\<lparr>licenses := l\<rparr>) (licenses pkg) ls pkg
      else if line = ''%ARCH%'' then store_line (\<lambda>s p. p\<lparr>arch := Some s\<rparr>) ls pkg
      else if line = ''%BUILDDATE%'' then store_line (\<lambda>s p. p\<lparr>builddate := alpm_parsedate s\<rparr>) ls pkg
      else if line = ''%PACKAGER%'' then store_line (\<lambda>s p. p\<lparr>packager := Some s\<rparr>) ls pkg
      else if line = ''%CSIZE%'' then store_line (\<lambda>s p. p\<lparr>psize := alpm_strtoofft s\<rparr>) ls pkg
      else if line = ''%ISIZE%'' then store_line (\<lambda>s p. p\<lparr>isize := alpm_strtoofft s\<rparr>) ls pkg
      else if line = ''%MD5SUM%'' then store_line (\<lambda>s p. p\<lparr>md5sum := Some s\<rparr>) ls pkg
      else if line = ''%SHA256SUM%'' then store_line (\<lambda>s p. p\<lparr>sha256sum := Some s\<rparr>) ls pkg
      else if line = ''%PGPSIG%'' then store_line (\<lambda>s p. p\<lparr>base64_sig := Some s\<rparr>) ls pkg
      else if line = ''%REPLACES%'' then store_deps room (\<lambda>l p. p\<lparr>replaces := l\<rparr>) (replaces pkg) ls pkg
      else if line = ''%DEPENDS%'' then store_deps room (\<lambda>l p. p\<lparr>depends := l\<rparr>) (depends pkg) ls pkg
      else if line = ''%OPTDEPENDS%'' then store_deps room (\<lambda>l p. p\<lparr>optdepends := l\<rparr>) (optdepends pkg) ls pkg
      else if line = ''%MAKEDEPENDS%'' then store_deps room (\<lambda>l p. p\<lparr>makedepends := l\<rparr>) (makedepends pkg) ls pkg
      else if line = ''%CHECKDEPENDS%'' then store_deps room (\<lambda>l p. p\<lparr>checkdepends := l\<rparr>) (checkdepends pkg) ls pkg
      else if line = ''%CONFLICTS%'' then store_deps room (\<lambda>l p. p\<lparr>conflicts := l\<rparr>) (conflicts pkg) ls pkg
      else if line = ''%PROVIDES%'' then store_deps room (\<lambda>l p. p\<lparr>provides := l\<rparr>) (provides pkg) ls pkg
      else if line = ''%FILES%'' then store_files ls pkg
      else Some (pkg, Go_on ls))"

lemma store_all_shorter: "read_and_store_all ls f = (f', Some ls') \<Longrightarrow> length ls' \<le> length ls"
  by (induction ls f rule: read_and_store_all.induct) (auto split: if_splits)

lemma splitdep_shorter: "read_and_splitdep room ls f = Some (f', Some ls') \<Longrightarrow> length ls' \<le> length ls"
  by (induction room ls f rule: read_and_splitdep.induct) (auto split: if_splits)

lemma file_names_shorter: "read_file_names ls f = Some (f', ls') \<Longrightarrow> length ls' \<le> length ls"
  by (induction ls f rule: read_file_names.induct) (auto split: if_splits)

lemma store_line_shorter: "store_line f ls pkg = Some (pkg', Go_on ls') \<Longrightarrow> length ls' \<le> length ls"
  by (auto simp: store_line_def split: list.splits)

lemma store_filename_shorter: "store_filename ls pkg = Some (pkg', Go_on ls') \<Longrightarrow> length ls' \<le> length ls"
  by (auto simp: store_filename_def split: list.splits if_splits)

lemma store_all_section_shorter: "store_all f old ls pkg = Some (pkg', Go_on ls') \<Longrightarrow> length ls' \<le> length ls"
  by (auto simp: store_all_def rest_or_error_def dest: store_all_shorter split: prod.splits option.splits)

lemma store_deps_shorter: "store_deps room f old ls pkg = Some (pkg', Go_on ls') \<Longrightarrow> length ls' \<le> length ls"
  by (auto simp: store_deps_def rest_or_error_def dest: splitdep_shorter split: option.splits)

lemma store_files_shorter: "store_files ls pkg = Some (pkg', Go_on ls') \<Longrightarrow> length ls' \<le> length ls"
  by (auto simp: store_files_def dest: file_names_shorter split: option.splits)

lemmas section_shorter = store_line_shorter store_filename_shorter store_all_section_shorter store_deps_shorter store_files_shorter

lemma sync_section_shorter: "sync_section line room ls pkg = Some (pkg', Go_on ls') \<Longrightarrow> length ls' \<le> length ls"
  unfolding sync_section_def by (auto dest!: section_shorter split: if_splits)

text \<open>All the lines of an entry: whether they could be parsed, and the package.\<close>

function sync_lines :: "sized_line list \<Rightarrow> alpm_pkg_t \<Rightarrow> (bool \<times> alpm_pkg_t) option" where
  "sync_lines [] pkg = Some (True, pkg)"
| "sync_lines ((line, room) # ls) pkg =
     (if stripped line = [] then sync_lines ls pkg
      else
        (case sync_section (stripped line) room ls pkg of
           None \<Rightarrow> None
         | Some (pkg, Parse_error) \<Rightarrow> Some (False, pkg)
         | Some (pkg, Go_on ls) \<Rightarrow> sync_lines ls pkg))"
  by pat_completeness auto
termination
  by (relation "measure (\<lambda>(ls, _). length ls)") (auto dest: sync_section_shorter simp: less_Suc_eq_le)

declare sync_lines.simps [simp del]

section \<open>Entries\<close>

text \<open>
  The archive of a database: the size of the file, how it is compressed, the entries with their name and
  their data, and the result after the last one.
\<close>

datatype archive_filter = FILTER_NONE | FILTER_GZIP | FILTER_COMPRESS | FILTER_BZIP2 | FILTER_LZMA | FILTER_XZ | FILTER_UU | FILTER_OTHER

record sync_entry =
  se_path :: "string option"
  se_dir :: bool
  se_blocks :: blocks

record sync_archive =
  sa_size :: nat
  sa_filter :: archive_filter
  sa_entries :: "sync_entry list"
  sa_end :: int

text \<open>The name in the entry after the last slash.\<close>

definition entry_filename :: "string \<Rightarrow> string option" where
  "entry_filename entryname =
     (if CHR ''/'' \<in> set entryname then Some (rev (takeWhile (\<lambda>c. c \<noteq> CHR ''/'') (rev entryname))) else None)"

text \<open>
  The package of the entry: the likely one, one in the cache, or a new one; the result is \<open>None\<close> where
  there is none, and undefined where the name is read outside or a search does not return.
\<close>

definition load_pkg_for_entry ::
  "dbref \<Rightarrow> string \<Rightarrow> pkgref option \<Rightarrow> alpm_pkghash_t \<Rightarrow> alpm_world \<Rightarrow> (pkgref option \<times> alpm_pkghash_t \<times> alpm_world) option" where
  "load_pkg_for_entry db entryname likely_pkg cache w =
     (case alpm_splitname (Some entryname) of
        SplitOutOfBounds \<Rightarrow> None
      | SplitError \<Rightarrow> Some (None, cache, w)
      | SplitOk n v h \<Rightarrow>
          (case (case likely_pkg of
                   Some l \<Rightarrow> if h = name_hash (wpkgs w l) \<and> strcmp (pname (wpkgs w l)) n = 0 then Some (Some l)
                             else alpm_pkghash_find (wpkgs w) cache n
                 | None \<Rightarrow> alpm_pkghash_find (wpkgs w) cache n) of
             None \<Rightarrow> None
           | Some (Some p) \<Rightarrow> Some (Some p, cache, w)
           | Some None \<Rightarrow>
               let p = next_ref w;
                   pkg = alpm_pkg_new\<lparr>pname := n, version := Some v, name_hash := h, origin := ALPM_PKG_FROM_SYNCDB, origin_data := Origin_db db\<rparr>;
                   w = w\<lparr>wpkgs := (wpkgs w)(p := pkg), next_ref := p + 1\<rparr>
               in (case alpm_pkghash_add (wpkgs w) cache p of
                     None \<Rightarrow> None
                   | Some (added, cache) \<Rightarrow> Some (if added then (Some p, cache, w) else (None, cache, set_errno ALPM_ERR_MEMORY w)))))"

text \<open>The state of the loop over the archive.\<close>

record sync_state =
  sy_likely :: "pkgref option"
  sy_cache :: alpm_pkghash_t
  sy_world :: alpm_world

definition sync_db_read :: "dbref \<Rightarrow> sync_entry \<Rightarrow> sync_state \<Rightarrow> (int \<times> sync_state) option" where
  "sync_db_read db e s =
     (case se_path e of
        None \<Rightarrow> Some (-1, s)
      | Some entryname \<Rightarrow>
          (case load_pkg_for_entry db entryname (sy_likely s) (sy_cache s) (sy_world s) of
             None \<Rightarrow> None
           | Some (None, cache, w) \<Rightarrow> Some (-1, s\<lparr>sy_cache := cache, sy_world := w\<rparr>)
           | Some (Some p, cache, w) \<Rightarrow>
               let s = s\<lparr>sy_cache := cache, sy_world := w\<rparr>
               in case entry_filename entryname of
                    None \<Rightarrow> Some (0, s)
                  | Some f \<Rightarrow>
                      if f \<noteq> ''desc'' \<and> f \<noteq> ''depends'' \<and> f \<noteq> ''files'' then Some (0, s)
                      else
                        (case sized_lines (desc_fuel (se_blocks e)) (empty_buffer\<lparr>max_line_size := 512 * 1024\<rparr>) (se_blocks e) of
                           None \<Rightarrow> None
                         | Some (ls, ret) \<Rightarrow>
                             (case sync_lines ls (wpkgs w p) of
                                None \<Rightarrow> None
                              | Some (parsed, pkg) \<Rightarrow>
                                  let s = s\<lparr>sy_world := upd_pkg p (\<lambda>_. pkg) w\<rparr>
                                  in if parsed \<and> ret = ARCHIVE_EOF then Some (0, s\<lparr>sy_likely := Some p\<rparr>) else Some (-1, s)))))"

fun populate_entries :: "dbref \<Rightarrow> sync_entry list \<Rightarrow> int \<Rightarrow> sync_state \<Rightarrow> (int \<times> sync_state) option" where
  "populate_entries db [] ret s = Some (ret, s)"
| "populate_entries db (e # es) ret s =
     (if se_dir e then populate_entries db es ret s
      else
        (case sync_db_read db e s of
           None \<Rightarrow> None
         | Some (r, s) \<Rightarrow> populate_entries db es (if r \<noteq> 0 then -1 else ret) s))"

definition estimate_package_count :: "nat \<Rightarrow> archive_filter \<Rightarrow> nat" where
  "estimate_package_count st_size code =
     st_size div (case code of
         FILTER_NONE \<Rightarrow> 3015 | FILTER_GZIP \<Rightarrow> 464 | FILTER_COMPRESS \<Rightarrow> 464 | FILTER_BZIP2 \<Rightarrow> 394 | FILTER_LZMA \<Rightarrow> 400 | FILTER_XZ \<Rightarrow> 400
       | FILTER_UU \<Rightarrow> 3015 * 4 div 3 | FILTER_OTHER \<Rightarrow> 500) + 1"

text \<open>\<open>sd_open\<close> is \<open>None\<close> for a file that is no archive that can be read.\<close>

definition sync_db_populate :: "(string \<Rightarrow> sync_archive option) \<Rightarrow> dbref \<Rightarrow> alpm_world \<Rightarrow> (int \<times> alpm_world) option" where
  "sync_db_populate sd_open db w =
     (if has_status (wdbs w db) DB_STATUS_INVALID then Some (-1, set_errno ALPM_ERR_DB_INVALID w)
      else if has_status (wdbs w db) DB_STATUS_MISSING then Some (-1, set_errno ALPM_ERR_DB_NOT_FOUND w)
      else
        let (path, w) = alpm_db_path w db
        in case sd_open path of
             None \<Rightarrow> Some (-1, set_status DB_STATUS_INVALID DB_STATUS_VALID db (set_errno ALPM_ERR_DB_OPEN w))
           | Some archive \<Rightarrow>
               let est_count = estimate_package_count (sa_size archive) (sa_filter archive);
                   est_count = (if dbext (handle w) = ''.files'' then est_count div 4 else est_count)
               in (case alpm_pkghash_create est_count of
                     None \<Rightarrow> Some (-1, set_errno ALPM_ERR_MEMORY (upd_db db (\<lambda>d. d\<lparr>pkgcache := None\<rparr>) w))
                   | Some cache \<Rightarrow>
                       (case populate_entries db (sa_entries archive) 0 \<lparr>sy_likely = None, sy_cache = cache, sy_world = w\<rparr> of
                          None \<Rightarrow> None
                        | Some (ret, s) \<Rightarrow>
                            let w = sy_world s; cache = sy_cache s
                            in if sa_end archive \<noteq> ARCHIVE_EOF
                               then Some (-1, set_errno ALPM_ERR_LIBARCHIVE (upd_db db (\<lambda>d. alpm_db_free_pkgcache (d\<lparr>pkgcache := Some cache\<rparr>)) w))
                               else
                                 let count = length (hlist cache);
                                     cache = (if count > 0 then cache\<lparr>hlist := alpm_list_msort (alpm_pkg_cmp (wpkgs w)) count (hlist cache)\<rparr>
                                              else cache)
                                 in Some (ret, upd_db db (\<lambda>d. d\<lparr>pkgcache := Some cache\<rparr>) w))))"

section \<open>What the cache of a database holds\<close>

text \<open>What reading the sections leaves alone, and a name that stays in its directory.\<close>

definition identity :: "alpm_pkg_t \<Rightarrow> string \<times> string option \<times> u64 \<times> alpm_pkgfrom_t \<times> origin_data" where
  "identity p = (pname p, version p, name_hash p, origin p, origin_data p)"

definition safe_filename :: "alpm_pkg_t \<Rightarrow> bool" where
  "safe_filename p \<longleftrightarrow>
     (case filename p of None \<Rightarrow> True | Some f \<Rightarrow> (f = [] \<or> hd f \<noteq> CHR ''.'') \<and> CHR ''/'' \<notin> set f \<and> length f \<le> PATH_MAX)"

lemmas store_defs = store_line_def store_filename_def store_all_def store_deps_def store_files_def

lemma section_identity: "sync_section line n ls p = Some (p', r) \<Longrightarrow> identity p' = identity p"
  unfolding sync_section_def
  by (auto simp: store_defs identity_def split: if_splits list.splits prod.splits option.splits)

lemma section_safe: "sync_section line n ls p = Some (p', Go_on ls') \<Longrightarrow> safe_filename p \<Longrightarrow> safe_filename p'"
  unfolding sync_section_def
  by (auto simp: store_defs safe_filename_def alpm_validate_filename_def split: if_splits list.splits prod.splits option.splits)

lemma lines_keep:
  "sync_lines ls p = Some (b, p') \<Longrightarrow> identity p' = identity p \<and> (b \<longrightarrow> safe_filename p \<longrightarrow> safe_filename p')"
proof (induction ls p arbitrary: b p' rule: sync_lines.induct)
  case (2 line n ls p)
  show ?case
  proof (cases "stripped line = []")
    case True
    then show ?thesis using 2 by (simp add: sync_lines.simps)
  next
    case False
    then obtain p1 r where s: "sync_section (stripped line) n ls p = Some (p1, r)"
      using 2(3) by (auto simp: sync_lines.simps split: option.splits)
    show ?thesis
    proof (cases r)
      case (Go_on ls')
      then show ?thesis using 2(2) [OF False s refl Go_on] 2(3) False s section_identity [OF s] section_safe [of "stripped line" n ls p p1 ls']
        by (simp add: sync_lines.simps)
    next
      case Parse_error
      then show ?thesis using 2(3) False s section_identity [OF s] by (simp add: sync_lines.simps)
    qed
  qed
qed (simp add: sync_lines.simps)

definition sync_inv :: "dbref \<Rightarrow> sync_state \<Rightarrow> bool" where
  "sync_inv db s \<longleftrightarrow> pkghash_inv (wpkgs (sy_world s)) (sy_cache s) \<and>
     (\<forall>p\<in>set (hlist (sy_cache s)). p < next_ref (sy_world s) \<and> origin (wpkgs (sy_world s) p) = ALPM_PKG_FROM_SYNCDB \<and>
        origin_data (wpkgs (sy_world s) p) = Origin_db db) \<and>
     (\<forall>l. sy_likely s = Some l \<longrightarrow> l \<in> set (hlist (sy_cache s)))"

definition all_safe :: "sync_state \<Rightarrow> bool" where
  "all_safe s \<longleftrightarrow> (\<forall>p\<in>set (hlist (sy_cache s)). safe_filename (wpkgs (sy_world s) p))"

lemma load_entry:
  assumes "load_pkg_for_entry db name (sy_likely s) (sy_cache s) (sy_world s) = Some (found, cache, w)"
    and "sync_inv db s" "entries (sy_cache s) < 414054"
  shows "sync_inv db (s\<lparr>sy_cache := cache, sy_world := w\<rparr>) \<and> (all_safe s \<longrightarrow> all_safe (s\<lparr>sy_cache := cache, sy_world := w\<rparr>)) \<and>
    entries cache \<le> entries (sy_cache s) + 1 \<and> wdbs w = wdbs (sy_world s) \<and> handle w = handle (sy_world s) \<and>
    (\<forall>p. found = Some p \<longrightarrow> p \<in> set (hlist cache))"
proof -
  define w0 where "w0 = sy_world s"
  have inv: "pkghash_inv (wpkgs w0) (sy_cache s)" using assms(2) by (simp add: sync_inv_def w0_def)
  obtain n v h where split: "alpm_splitname (Some name) = SplitOk n v h \<or> alpm_splitname (Some name) = SplitError"
    using assms(1) by (cases "alpm_splitname (Some name)") (auto simp: load_pkg_for_entry_def)
  show ?thesis
  proof (cases "alpm_splitname (Some name) = SplitError")
    case True
    then show ?thesis using assms by (auto simp: load_pkg_for_entry_def sync_inv_def all_safe_def)
  next
    case False
    then have sp: "alpm_splitname (Some name) = SplitOk n v h" using split by simp
    define like where "like = (case sy_likely s of
        Some l \<Rightarrow> if h = name_hash (wpkgs w0 l) \<and> strcmp (pname (wpkgs w0 l)) n = 0 then Some (Some l) else alpm_pkghash_find (wpkgs w0) (sy_cache s) n
      | None \<Rightarrow> alpm_pkghash_find (wpkgs w0) (sy_cache s) n)"
    have like: "like = Some (contents (wpkgs w0) (sy_cache s) n) \<or> (\<exists>l. sy_likely s = Some l \<and> like = Some (Some l))"
      using find_contents [OF inv, of n] by (auto simp: like_def split: option.splits)
    show ?thesis
    proof (cases "\<exists>p. like = Some (Some p)")
      case True
      then obtain p where p: "like = Some (Some p)" by blast
      then have "p \<in> set (hlist (sy_cache s))"
        using like contents_Some [OF inv, of n p] assms(2) by (auto simp: sync_inv_def)
      then show ?thesis using assms p sp unfolding like_def w0_def by (auto simp: load_pkg_for_entry_def)
    next
      case False
      then have none: "like = Some None" "contents (wpkgs w0) (sy_cache s) n = None" using like by auto
      define pkg where "pkg = alpm_pkg_new\<lparr>pname := n, version := Some v, name_hash := h, origin := ALPM_PKG_FROM_SYNCDB, origin_data := Origin_db db\<rparr>"
      define w1 where "w1 = w0\<lparr>wpkgs := (wpkgs w0)(next_ref w0 := pkg), next_ref := next_ref w0 + 1\<rparr>"
      have same: "\<forall>p\<in>set (hlist (sy_cache s)). wpkgs w1 p = wpkgs w0 p" using assms(2) by (auto simp: w1_def sync_inv_def w0_def)
      note inv1 = pkghash_inv_cong [OF same inv]
      have new: "wpkgs w1 (next_ref w0) = pkg" by (simp add: w1_def)
      have hp: "hashed pkg" using split_hash [OF sp] by (simp add: pkg_def hashed_def)
      have "\<forall>p\<in>set (hlist (sy_cache s)). pname (wpkgs w1 p) \<noteq> pname (wpkgs w1 (next_ref w0))"
        using none(2) same new by (auto simp: contents_def find_None_iff pkg_def)
      with hp new assms(3) obtain hash1 where a: "alpm_pkghash_add (wpkgs w1) (sy_cache s) (next_ref w0) = Some (True, hash1)"
        "pkghash_inv (wpkgs w1) hash1" "hlist hash1 = hlist (sy_cache s) @ [next_ref w0]"
        using conjunct1 [OF add_total [OF inv1(1), of "next_ref w0"]] by metis
      have res: "found = Some (next_ref w0)" "cache = hash1" "w = w1"
        using assms(1) sp none(1) a(1) unfolding like_def w1_def
        by (simp_all add: load_pkg_for_entry_def w0_def [symmetric] pkg_def [symmetric] Let_def)
      have ent: "entries hash1 = entries (sy_cache s) + 1"
        using pkghash_invD(5) [OF a(2)] pkghash_invD(5) [OF inv] a(3) by simp
      have "filename pkg = None" "origin pkg = ALPM_PKG_FROM_SYNCDB" "origin_data pkg = Origin_db db"
        by (simp_all add: pkg_def alpm_pkg_new_def)
      then show ?thesis
        using assms(2) a(2,3) new same ent unfolding res sync_inv_def all_safe_def
        by (auto simp: w0_def [symmetric] safe_filename_def w1_def)
    qed
  qed
qed

lemma read_entry:
  assumes "sync_db_read db e s = Some (r, s')" "sync_inv db s" "entries (sy_cache s) < 414054"
  shows "sync_inv db s' \<and> (r = 0 \<longrightarrow> all_safe s \<longrightarrow> all_safe s') \<and> entries (sy_cache s') \<le> entries (sy_cache s) + 1 \<and>
    wdbs (sy_world s') = wdbs (sy_world s) \<and> handle (sy_world s') = handle (sy_world s)"
proof (cases "se_path e")
  case None
  then show ?thesis using assms by (simp add: sync_db_read_def)
next
  case (Some name)
  obtain found cache w where l: "load_pkg_for_entry db name (sy_likely s) (sy_cache s) (sy_world s) = Some (found, cache, w)"
    using assms(1) Some by (auto simp: sync_db_read_def split: option.splits)
  define s1 where "s1 = s\<lparr>sy_cache := cache, sy_world := w\<rparr>"
  have s1: "sync_inv db s1" "all_safe s \<longrightarrow> all_safe s1" "entries (sy_cache s1) \<le> entries (sy_cache s) + 1"
    "wdbs (sy_world s1) = wdbs (sy_world s)" "handle (sy_world s1) = handle (sy_world s)" "\<forall>p. found = Some p \<longrightarrow> p \<in> set (hlist cache)"
    using load_entry [OF l assms(2,3)] by (simp_all add: s1_def)
  show ?thesis
  proof (cases "s' = s1")
    case True
    then show ?thesis using s1 by simp
  next
    case False
    then obtain p f where p: "found = Some p" "entry_filename name = Some f" "f = ''desc'' \<or> f = ''depends'' \<or> f = ''files''"
      using assms(1) Some l by (auto simp: sync_db_read_def s1_def [symmetric] Let_def split: option.splits if_splits)
    obtain ls ret where ls: "sized_lines (desc_fuel (se_blocks e)) (empty_buffer\<lparr>max_line_size := 512 * 1024\<rparr>) (se_blocks e) = Some (ls, ret)"
      using assms(1) Some l p by (auto simp: sync_db_read_def s1_def [symmetric] Let_def split: option.splits)
    obtain parsed pkg where pkg: "sync_lines ls (wpkgs w p) = Some (parsed, pkg)"
      using assms(1) Some l p ls by (auto simp: sync_db_read_def s1_def [symmetric] Let_def split: option.splits)
    define s2 where "s2 = s1\<lparr>sy_world := upd_pkg p (\<lambda>_. pkg) w\<rparr>"
    have r: "(if parsed \<and> ret = ARCHIVE_EOF then (0, s2\<lparr>sy_likely := Some p\<rparr>) else (-1, s2)) = (r, s')"
      using assms(1) Some l p ls pkg by (auto simp: sync_db_read_def s1_def [symmetric] s2_def Let_def split: if_splits)
    note keep = lines_keep [OF pkg]
    have id: "pname pkg = pname (wpkgs w p)" "name_hash pkg = name_hash (wpkgs w p)" "origin pkg = origin (wpkgs w p)"
      "origin_data pkg = origin_data (wpkgs w p)" using keep by (simp_all add: identity_def)
    have inv: "pkghash_inv (wpkgs w) cache" using s1(1) by (simp add: sync_inv_def s1_def)
    have "pkghash_inv (wpkgs (upd_pkg p (\<lambda>_. pkg) w)) cache"
      by (rule pkghash_inv_same(1) [OF _ inv]) (simp add: id)
    then have s2: "sync_inv db s2" using s1(1) id by (auto simp: sync_inv_def s2_def s1_def)
    have likely: "sync_inv db (s2\<lparr>sy_likely := Some p\<rparr>)" using s2 s1(6) p(1) by (simp add: sync_inv_def s2_def s1_def)
    have safe: "all_safe s1 \<longrightarrow> parsed \<longrightarrow> all_safe s2" "all_safe (s2\<lparr>sy_likely := Some p\<rparr>) = all_safe s2"
      using keep s1(6) p(1) by (auto simp: all_safe_def s2_def s1_def)
    have same: "sy_cache s2 = sy_cache s1" "wdbs (sy_world s2) = wdbs (sy_world s1)" "handle (sy_world s2) = handle (sy_world s1)"
      by (simp_all add: s2_def s1_def)
    show ?thesis
    proof (cases "parsed \<and> ret = ARCHIVE_EOF")
      case True
      then have "r = 0" "s' = s2\<lparr>sy_likely := Some p\<rparr>" using r by simp_all
      then show ?thesis using likely safe True s1(2-5) same by simp
    next
      case False
      then have "r = -1" "s' = s2" using r unfolding if_not_P [OF False] by simp_all
      then show ?thesis using s2 s1(3-5) same by simp
    qed
  qed
qed

lemma populate_keeps:
  assumes "populate_entries db es ret s = Some (r, s')" "sync_inv db s" "entries (sy_cache s) + length es \<le> 414054"
  shows "sync_inv db s' \<and> (r = 0 \<longrightarrow> ret = 0 \<and> (all_safe s \<longrightarrow> all_safe s')) \<and>
    wdbs (sy_world s') = wdbs (sy_world s) \<and> handle (sy_world s') = handle (sy_world s)"
  using assms
proof (induction es arbitrary: ret s)
  case (Cons e es)
  show ?case
  proof (cases "se_dir e")
    case True
    then have "populate_entries db es ret s = Some (r, s')" using Cons.prems(1) by simp
    from Cons.IH [OF this Cons.prems(2)] show ?thesis using Cons.prems(3) by simp
  next
    case False
    then obtain r1 s1 where e: "sync_db_read db e s = Some (r1, s1)" using Cons.prems(1) by (auto split: option.splits)
    note step = read_entry [OF e Cons.prems(2)]
    have "populate_entries db es (if r1 \<noteq> 0 then -1 else ret) s1 = Some (r, s')" using Cons.prems(1) False e by simp
    from Cons.IH [OF this] show ?thesis using step Cons.prems(3) by (auto split: if_splits)
  qed
qed simp

text \<open>C18: what a sync database says cannot lead out of the cache directory. When the archive of a database has
  been read without an error, its cache is sorted by name and a search finds every package
  of it; every package belongs to this database, and the file name it gives, if any, has no slash, does not
  begin with a dot and is not longer than \<open>PATH_MAX\<close>. The other databases and the handle are untouched.\<close>

theorem sync_cache_safe:
  assumes "sync_db_populate sd_open db w = Some (0, w')"
    and "\<And>path a. sd_open path = Some a \<Longrightarrow> length (sa_entries a) \<le> 414054"
  shows "\<exists>cache. pkgcache (wdbs w' db) = Some cache \<and> sorted (map (\<lambda>p. pname (wpkgs w' p)) (hlist cache)) \<and>
    (\<forall>p\<in>set (hlist cache). alpm_pkghash_find (wpkgs w') cache (pname (wpkgs w' p)) = Some (Some p) \<and>
       origin (wpkgs w' p) = ALPM_PKG_FROM_SYNCDB \<and> origin_data (wpkgs w' p) = Origin_db db \<and>
       (\<forall>f. filename (wpkgs w' p) = Some f \<longrightarrow> CHR ''/'' \<notin> set f \<and> (f = [] \<or> hd f \<noteq> CHR ''.'') \<and> length f \<le> PATH_MAX)) \<and>
    (\<forall>d. d \<noteq> db \<longrightarrow> wdbs w' d = wdbs w d) \<and> handle w' = handle w"
proof -
  obtain path w0 where p: "alpm_db_path w db = (path, w0)" by fastforce
  then have w0: "handle w0 = handle w" "\<And>k. k \<noteq> db \<Longrightarrow> wdbs w0 k = wdbs w k"
    by (auto simp: alpm_db_path_def Let_def upd_db_def split: option.splits)
  obtain a est cache0 where a: "sd_open path = Some a" and c0: "alpm_pkghash_create est = Some cache0"
    and run: "case populate_entries db (sa_entries a) 0 \<lparr>sy_likely = None, sy_cache = cache0, sy_world = w0\<rparr> of
        None \<Rightarrow> False
      | Some (ret, s) \<Rightarrow> ret = 0 \<and> sa_end a = ARCHIVE_EOF \<and>
          w' = upd_db db (\<lambda>d. d\<lparr>pkgcache := Some (if length (hlist (sy_cache s)) > 0
            then (sy_cache s)\<lparr>hlist := alpm_list_msort (alpm_pkg_cmp (wpkgs (sy_world s))) (length (hlist (sy_cache s))) (hlist (sy_cache s))\<rparr>
            else sy_cache s)\<rparr>) (sy_world s)"
    using assms(1) p by (auto simp: sync_db_populate_def Let_def split: option.splits if_splits)
  then obtain s where s: "populate_entries db (sa_entries a) 0 \<lparr>sy_likely = None, sy_cache = cache0, sy_world = w0\<rparr> = Some (0, s)"
    by (auto split: option.splits)
  define cache where "cache = (if length (hlist (sy_cache s)) > 0
    then (sy_cache s)\<lparr>hlist := alpm_list_msort (alpm_pkg_cmp (wpkgs (sy_world s))) (length (hlist (sy_cache s))) (hlist (sy_cache s))\<rparr>
    else sy_cache s)"
  have w': "w' = upd_db db (\<lambda>d. d\<lparr>pkgcache := Some cache\<rparr>) (sy_world s)" using run s by (simp add: cache_def)
  have "sync_inv db \<lparr>sy_likely = None, sy_cache = cache0, sy_world = w0\<rparr>" "all_safe \<lparr>sy_likely = None, sy_cache = cache0, sy_world = w0\<rparr>"
    using create_inv [OF c0] create_spec(5) [OF c0] by (simp_all add: sync_inv_def all_safe_def)
  from populate_keeps [OF s this(1)] this(2) have inv: "sync_inv db s" "all_safe s" "wdbs (sy_world s) = wdbs w0" "handle (sy_world s) = handle w0"
    using assms(2) [OF a] create_spec(6) [OF c0] by auto
  have ph: "pkghash_inv (wpkgs (sy_world s)) (sy_cache s)" using inv(1) by (simp add: sync_inv_def)
  have cache: "pkghash_inv (wpkgs (sy_world s)) cache" "set (hlist cache) = set (hlist (sy_cache s))"
    "sorted (map (\<lambda>p. pname (wpkgs (sy_world s) p)) (hlist cache))"
    using sorted_cache [OF ph refl] ph by (auto simp: cache_def)
  have found: "alpm_pkghash_find (wpkgs (sy_world s)) cache (pname (wpkgs (sy_world s) q)) = Some (Some q)" if "q \<in> set (hlist cache)" for q
    using find_contents [OF cache(1)] contents_Some [OF cache(1)] that by simp
  have "\<forall>q\<in>set (hlist cache). origin (wpkgs (sy_world s) q) = ALPM_PKG_FROM_SYNCDB \<and> origin_data (wpkgs (sy_world s) q) = Origin_db db \<and>
      safe_filename (wpkgs (sy_world s) q)"
    using inv(1,2) cache(2) by (simp add: sync_inv_def all_safe_def)
  then show ?thesis
    using cache(3) found inv(3,4) w0 unfolding w' by (intro exI [of _ cache]) (auto simp: upd_db_def safe_filename_def)
qed

text \<open>An archive with a directory and a package in it.\<close>

definition sample_sync_archive :: sync_archive where
  "sample_sync_archive =
     \<lparr>sa_size = 100, sa_filter = FILTER_NONE, sa_entries =
        [\<lparr>se_path = Some ''a-1-2/'', se_dir = True, se_blocks = []\<rparr>,
         \<lparr>se_path = Some ''a-1-2/desc'', se_dir = False, se_blocks = [(0, ''%FILENAME%'' @ [NL] @ ''a.pkg'' @ [NL])]\<rparr>],
      sa_end = ARCHIVE_EOF\<rparr>"

definition sync_world :: alpm_world where
  "sync_world =
     \<lparr>handle = alpm_handle_new, wdbs = \<lambda>_. (alpm_db_new ''core'' False)\<lparr>db_path := Some ''/l/sync/core.db''\<rparr>,
      wpkgs = \<lambda>_. alpm_pkg_new, next_ref = 1\<rparr>"

abbreviation "sample_blocks \<equiv> [(0 :: int, ''%FILENAME%'' @ [NL] @ ''a.pkg'' @ [NL])]"

lemma sample_lines:
  "sized_lines (desc_fuel sample_blocks) (empty_buffer\<lparr>max_line_size := 512 * 1024\<rparr>) sample_blocks =
     Some ([(''%FILENAME%'', 18), (''a.pkg'', 18), ([], 18)], ARCHIVE_EOF)"
proof -
  have "sized_lines (Suc (Suc (Suc (Suc n)))) (empty_buffer\<lparr>max_line_size := 512 * 1024\<rparr>) sample_blocks =
      Some ([(''%FILENAME%'', 18), (''a.pkg'', 18), ([], 18)], ARCHIVE_EOF)" for n
    by (simp add: alpm_archive_fgets_def archive_fgets_loop.simps empty_buffer_def grow_line_def find_eol_def find_byte_def)
  from this [of 16] have "sized_lines 20 (empty_buffer\<lparr>max_line_size := 512 * 1024\<rparr>) sample_blocks =
      Some ([(''%FILENAME%'', 18), (''a.pkg'', 18), ([], 18)], ARCHIVE_EOF)"
    by (simp del: sized_lines.simps)
  moreover have "desc_fuel sample_blocks = 20" by (simp add: desc_fuel_def)
  ultimately show ?thesis by metis
qed

lemma sample_parsed:
  "sync_lines [(''%FILENAME%'', 18), (''a.pkg'', 18), ([], 18)] pkg = Some (True, pkg\<lparr>filename := Some ''a.pkg''\<rparr>)"
  by (simp add: sync_lines.simps stripped_def c_bytes_def alpm_strip_newline_def sync_section_def store_filename_def
      alpm_validate_filename_def PATH_MAX_def)

theorem sync_cache_safe_witness:
  "\<exists>w' cache. sync_db_populate (\<lambda>_. Some sample_sync_archive) 0 sync_world = Some (0, w') \<and> pkgcache (wdbs w' 0) = Some cache \<and>
    (\<forall>p\<in>set (hlist cache). \<forall>f. filename (wpkgs w' p) = Some f \<longrightarrow> CHR ''/'' \<notin> set f)"
proof -
  obtain h where h: "alpm_pkghash_create 1 = Some h"
    by (simp add: alpm_pkghash_create_def Let_def prime_list_def)
  have split: "alpm_splitname (Some ''a-1-2/desc'') = SplitOk ''a'' ''1-2'' (name_hash_of ''a'')"
    by (simp add: alpm_splitname_def Let_def)
  note inv = create_inv [OF h, of "wpkgs sync_world"]
  have "\<exists>s'. populate_entries 0 (sa_entries sample_sync_archive) 0 \<lparr>sy_likely = None, sy_cache = h, sy_world = sync_world\<rparr> = Some (0, s')"
  proof -
    define pkg where "pkg = alpm_pkg_new\<lparr>pname := ''a'', version := Some ''1-2'', name_hash := name_hash_of ''a'',
      origin := ALPM_PKG_FROM_SYNCDB, origin_data := Origin_db 0\<rparr>"
    define w1 where "w1 = sync_world\<lparr>wpkgs := (wpkgs sync_world)(1 := pkg), next_ref := 2\<rparr>"
    have find: "alpm_pkghash_find (wpkgs sync_world) h ''a'' = Some None"
      using find_contents [of "wpkgs sync_world" h "''a''"] inv by simp
    obtain h1 where add: "alpm_pkghash_add (wpkgs w1) h 1 = Some (True, h1)"
      using conjunct1 [OF add_total [of "wpkgs w1" h 1]] create_inv [OF h, of "wpkgs w1"] create_spec(5,6) [OF h]
      by (auto simp: w1_def pkg_def hashed_def)
    have load: "load_pkg_for_entry 0 ''a-1-2/desc'' None h sync_world = Some (Some 1, h1, w1)"
      using find add by (simp add: load_pkg_for_entry_def split Let_def w1_def pkg_def sync_world_def)
    show ?thesis
      using load sample_lines sample_parsed [of "wpkgs w1 1"]
      by (simp add: sample_sync_archive_def sync_db_read_def entry_filename_def)
  qed
  moreover have "\<not> has_status (wdbs sync_world 0) DB_STATUS_INVALID" "\<not> has_status (wdbs sync_world 0) DB_STATUS_MISSING"
    "alpm_db_path sync_world 0 = (''/l/sync/core.db'', sync_world)" "dbext (handle sync_world) \<noteq> ''.files''"
    by (simp_all add: sync_world_def has_status_def alpm_db_new_def alpm_db_path_def alpm_handle_new_def)
  moreover have "estimate_package_count (sa_size sample_sync_archive) (sa_filter sample_sync_archive) = 1"
    "sa_end sample_sync_archive = ARCHIVE_EOF"
    by (simp_all add: sample_sync_archive_def estimate_package_count_def)
  ultimately obtain w' where w': "sync_db_populate (\<lambda>_. Some sample_sync_archive) 0 sync_world = Some (0, w')"
    using h by (fastforce simp: sync_db_populate_def Let_def)
  from sync_cache_safe [OF this] show ?thesis using w' by (fastforce simp: sample_sync_archive_def)
qed

end
