(* ===== verification/AlpmSyncUpdate.thy ===== *)
theory AlpmSyncUpdate
  imports AlpmSyncDb AlpmLifecycle
begin

text \<open>
  Updating the databases of packages that can be installed (\<open>lib/libalpm/be_sync.c\<close>): the directory
  they are in, the check of their signatures, and \<open>alpm_db_update\<close>.
\<close>

abbreviation "ALPM_SIG_DATABASE \<equiv> 1024 :: u32"
abbreviation "ALPM_SIG_DATABASE_OPTIONAL \<equiv> 2048 :: u32"
abbreviation "ALPM_SIG_DATABASE_MARGINAL_OK \<equiv> 4096 :: u32"
abbreviation "ALPM_SIG_DATABASE_UNKNOWN_OK \<equiv> 8192 :: u32"

section \<open>The directory\<close>

definition make_sync_dir :: "string \<Rightarrow> alpm_world \<Rightarrow> (string option \<times> alpm_world) call" where
  "make_sync_dir syncpath w fs =
     (let (r, fs) = alpm_makepath syncpath fs
      in if r \<noteq> 0 then ((None, set_errno ALPM_ERR_SYSTEM w), fs) else ((Some syncpath, w), fs))"

definition get_sync_dir :: "alpm_world \<Rightarrow> (string option \<times> alpm_world) call" where
  "get_sync_dir w fs =
     (let syncpath = dbpath (handle w) @ ''sync/''
      in case AlpmFs.stat fs syncpath of
           Inl _ \<Rightarrow> make_sync_dir syncpath w fs
         | Inr (_, n) \<Rightarrow>
             if n = Dir then ((Some syncpath, w), fs)
             else
               let (e, fs) = unlink syncpath fs
               in if e \<noteq> None then ((None, set_errno ALPM_ERR_SYSTEM w), fs) else make_sync_dir syncpath w fs)"

section \<open>The signature of a database\<close>

text \<open>The signatures are checked again as long as a key could be imported, which may be for ever.\<close>

partial_function (option) check_signatures :: "'r pgp_env \<Rightarrow> string \<Rightarrow> u32 \<Rightarrow> 'r pgp_state \<Rightarrow> (int \<times> 'r pgp_state) option" where
  "check_signatures env path level st =
     (case alpm_check_pgp_helper env (Some path) None (level AND ALPM_SIG_DATABASE_OPTIONAL \<noteq> 0)
             (level AND ALPM_SIG_DATABASE_MARGINAL_OK \<noteq> 0) (level AND ALPM_SIG_DATABASE_UNKNOWN_OK \<noteq> 0) st of
        ((ret, siglist), st) \<Rightarrow>
          if ret = 0 then Some (0, st)
          else
            (case alpm_process_siglist env siglist st of
               None \<Rightarrow> None
             | Some (retry, st) \<Rightarrow> if retry \<noteq> 0 then check_signatures env path level st else Some (ret, st)))"

definition put_world :: "alpm_world \<Rightarrow> 'r machine \<Rightarrow> 'r machine" where
  "put_world w m = m\<lparr>mworld := w\<rparr>"

text \<open>The part of \<open>sync_db_validate\<close> for a file that is there.\<close>

definition check_database :: "(filesys \<Rightarrow> 'r pgp_env) \<Rightarrow> dbref \<Rightarrow> string \<Rightarrow> 'r machine \<Rightarrow> (int \<times> 'r machine) option" where
  "check_database pgp db path m =
     (let siglevel = alpm_db_get_siglevel (mworld m) db
      in if siglevel AND ALPM_SIG_DATABASE = 0
         then Some (0, put_world (set_status DB_STATUS_VALID DB_STATUS_INVALID db (mworld m)) m)
         else
           (case check_signatures (pgp (mdisk m)) path siglevel (m_pgp m) of
              None \<Rightarrow> None
            | Some (ret, st) \<Rightarrow>
                let m = put_pgp st m
                in if ret \<noteq> 0
                   then Some (1, m_error ALPM_ERR_DB_INVALID_SIG
                                   (put_world (set_status DB_STATUS_INVALID DB_STATUS_VALID db (mworld m)) m))
                   else Some (0, put_world (set_status DB_STATUS_VALID DB_STATUS_INVALID db (mworld m)) m)))"

definition sync_db_validate :: "(filesys \<Rightarrow> 'r pgp_env) \<Rightarrow> dbref \<Rightarrow> 'r machine \<Rightarrow> (int \<times> 'r machine) option" where
  "sync_db_validate pgp db m =
     (if has_status (wdbs (mworld m) db) DB_STATUS_VALID \<or> has_status (wdbs (mworld m) db) DB_STATUS_MISSING then Some (0, m)
      else if has_status (wdbs (mworld m) db) DB_STATUS_INVALID then Some (-1, m_error ALPM_ERR_DB_INVALID_SIG m)
      else
        let (path, w) = alpm_db_path (mworld m) db
        in if AlpmFs.stat (mdisk m) path = Inl ENOENT
           then Some (0, put_world (set_status DB_STATUS_VALID DB_STATUS_INVALID db (set_status DB_STATUS_MISSING DB_STATUS_EXISTS db w)) m)
           else check_database pgp db path (put_world (set_status DB_STATUS_EXISTS DB_STATUS_MISSING db w) m))"

section \<open>Updating\<close>

record db_payload =
  pl_servers :: "string list"
  pl_filepath :: string
  pl_force :: bool
  pl_unlink_on_fail :: bool
  pl_signature :: bool
  pl_optional :: bool
  pl_max_size :: int

text \<open>The system calls of the lock, gpgme as the disk makes it, and the download.\<close>

record 'r update_env =
  ue_os :: os_env
  ue_pgp :: "filesys \<Rightarrow> 'r pgp_env"
  ue_download :: "db_payload list \<Rightarrow> string \<Rightarrow> alpm_errno_t \<Rightarrow> filesys \<Rightarrow> int \<times> alpm_errno_t \<times> filesys"

definition db_payload_of :: "bool \<Rightarrow> alpm_world \<Rightarrow> dbref \<Rightarrow> db_payload" where
  "db_payload_of force w d =
     (let db = wdbs w d; siglevel = alpm_db_get_siglevel w d
      in \<lparr>pl_servers = servers db, pl_filepath = treename db @ dbext (handle w), pl_force = force \<or> has_status db DB_STATUS_INVALID,
          pl_unlink_on_fail = True, pl_signature = (siglevel AND ALPM_SIG_DATABASE \<noteq> 0),
          pl_optional = (siglevel AND ALPM_SIG_DATABASE_OPTIONAL \<noteq> 0), pl_max_size = 128 * 1024 * 1024\<rparr>)"

definition syncs :: "alpm_world \<Rightarrow> dbref \<Rightarrow> bool" where
  "syncs w d \<longleftrightarrow> usage (wdbs w d) AND ALPM_DB_USAGE_SYNC \<noteq> 0"

fun update_payloads :: "bool \<Rightarrow> alpm_world \<Rightarrow> dbref list \<Rightarrow> db_payload list \<Rightarrow> alpm_errno_t + db_payload list" where
  "update_payloads force w [] payloads = Inr payloads"
| "update_payloads force w (d # i) payloads =
     (if \<not> syncs w d then update_payloads force w i payloads
      else if Some d = db_local (handle w) then Inl ALPM_ERR_WRONG_ARGS
      else if servers (wdbs w d) = [] then Inl ALPM_ERR_SERVER_NONE
      else update_payloads force w i (payloads @ [db_payload_of force w d]))"

definition forget_db :: "dbref \<Rightarrow> alpm_world \<Rightarrow> alpm_world" where
  "forget_db d w =
     upd_db d (\<lambda>db. (alpm_db_free_pkgcache db)\<lparr>status := status (alpm_db_free_pkgcache db) AND NOT DB_STATUS_VALID
       AND NOT DB_STATUS_INVALID AND NOT DB_STATUS_EXISTS AND NOT DB_STATUS_MISSING\<rparr>) w"

fun revalidate :: "(filesys \<Rightarrow> 'r pgp_env) \<Rightarrow> dbref list \<Rightarrow> int \<Rightarrow> 'r machine \<Rightarrow> (int \<times> 'r machine) option" where
  "revalidate pgp [] ret m = Some (ret, m)"
| "revalidate pgp (d # i) ret m =
     (if \<not> syncs (mworld m) d then revalidate pgp i ret m
      else
        (case sync_db_validate pgp d (put_world (forget_db d (mworld m)) m) of
           None \<Rightarrow> None
         | Some (r, m) \<Rightarrow> revalidate pgp i (if r \<noteq> 0 then -1 else ret) m))"

definition update_locked :: "'r update_env \<Rightarrow> dbref list \<Rightarrow> bool \<Rightarrow> string \<Rightarrow> 'r machine \<Rightarrow> (int \<times> 'r machine) option" where
  "update_locked env dbs force syncpath m =
     (case update_payloads force (mworld m) dbs [] of
        Inl e \<Rightarrow> Some (-1, m_error e m)
      | Inr payloads \<Rightarrow>
          if payloads = [] then Some (0, m)
          else
            let (ret, e, fs) = ue_download env payloads syncpath (pm_errno (handle (mworld m))) (mdisk m);
                m = m_error e (m\<lparr>mdisk := fs\<rparr>)
            in if ret < 0 then Some (ret, m) else revalidate (ue_pgp env) dbs ret m)"

text \<open>With the lock files of the disk, as in \<open>AlpmTrans\<close>. The list is not empty: an empty one is \<open>NULL\<close>.\<close>

definition with_handle :: "alpm_handle_t \<Rightarrow> 'r machine \<Rightarrow> 'r machine" where
  "with_handle h m = put_world ((mworld m)\<lparr>handle := h\<rparr>) m"

definition update_in_dir ::
  "'r update_env \<Rightarrow> dbref list \<Rightarrow> bool \<Rightarrow> string \<Rightarrow> 'r machine \<Rightarrow> string set \<Rightarrow> (int \<times> 'r machine \<times> string set) option" where
  "update_in_dir env dbs force syncpath m disk =
     (case alpm_handle_lock (ue_os env) (handle (mworld m)) disk of
        None \<Rightarrow> None
      | Some (r, h, disk) \<Rightarrow>
          (case (if r \<noteq> 0 then Some (-1, m_error ALPM_ERR_HANDLE_LOCK (with_handle h m))
                 else update_locked env dbs force syncpath (with_handle h m)) of
             None \<Rightarrow> None
           | Some (ret, m) \<Rightarrow>
               (case alpm_handle_unlock (ue_os env) (handle (mworld m)) disk of
                  (_, h, disk) \<Rightarrow>
                    Some (ret, if ret = -1 then with_handle h m else m_error ALPM_ERR_OK (with_handle h m), disk))))"

definition alpm_db_update ::
  "'r update_env \<Rightarrow> dbref list \<Rightarrow> bool \<Rightarrow> 'r machine \<Rightarrow> string set \<Rightarrow> (int \<times> 'r machine \<times> string set) option" where
  "alpm_db_update env dbs force m disk =
     (if dbs = [] then Some (-1, m, disk)
      else
        (case get_sync_dir (set_errno ALPM_ERR_OK (mworld m)) (mdisk m) of
           ((None, w), fs) \<Rightarrow> Some (-1, put_world w (m\<lparr>mdisk := fs\<rparr>), disk)
         | ((Some syncpath, w), fs) \<Rightarrow> update_in_dir env dbs force syncpath (put_world w (m\<lparr>mdisk := fs\<rparr>)) disk))"

definition sync_get_validation :: "alpm_pkg_t \<Rightarrow> u32 \<times> alpm_pkg_t" where
  "sync_get_validation pkg =
     (if validation pkg \<noteq> 0 then (validation pkg, pkg)
      else
        let v = (if md5sum pkg \<noteq> None then ALPM_PKG_VALIDATION_MD5SUM else 0) OR
                (if sha256sum pkg \<noteq> None then ALPM_PKG_VALIDATION_SHA256SUM else 0) OR
                (if base64_sig pkg \<noteq> None then ALPM_PKG_VALIDATION_SIGNATURE else 0);
            v = (if v = 0 then ALPM_PKG_VALIDATION_NONE else v)
        in (v, pkg\<lparr>validation := v\<rparr>))"

section \<open>What an accepted database is\<close>

text \<open>No file, no signature asked for, or one that is good enough for the level.\<close>

definition trusted_db :: "'r pgp_env \<Rightarrow> filesys \<Rightarrow> string \<Rightarrow> u32 \<Rightarrow> bool" where
  "trusted_db env fs path level \<longleftrightarrow>
     AlpmFs.stat fs path = Inl ENOENT \<or> level AND ALPM_SIG_DATABASE = 0 \<or>
     g_readable env path \<and>
     (\<exists>ring. (\<exists>src gs ring'. signature_of env path None = Some src \<and> g_verify env src path ring = ((GPG_ERR_NO_ERROR, gs), ring') \<and>
          gs \<noteq> [] \<and> list_all (good_signature (level AND ALPM_SIG_DATABASE_MARGINAL_OK \<noteq> 0) (level AND ALPM_SIG_DATABASE_UNKNOWN_OK \<noteq> 0)) gs)
       \<or> level AND ALPM_SIG_DATABASE_OPTIONAL \<noteq> 0 \<and> no_signature env path None ring)"

lemma check_signatures_result:
  assumes "check_signatures env path level st = Some (ret, st')"
  shows "sview st' = sview st \<and> (ret = 0 \<longrightarrow> level AND ALPM_SIG_DATABASE \<noteq> 0 \<longrightarrow> trusted_db env fs path level)"
proof -
  have "sview (snd res) = sview st \<and> (fst res = 0 \<longrightarrow> level AND ALPM_SIG_DATABASE \<noteq> 0 \<longrightarrow> trusted_db env fs path level)"
    if "check_signatures env path level st = Some res" for res
  proof (rule check_signatures.raw_induct [OF _ that, where P = "\<lambda>env path level st res. sview (snd res) = sview st \<and>
      (fst res = 0 \<longrightarrow> level AND ALPM_SIG_DATABASE \<noteq> 0 \<longrightarrow> trusted_db env fs path level)"])
    fix f :: "'a pgp_env \<Rightarrow> string \<Rightarrow> u32 \<Rightarrow> 'a pgp_state \<Rightarrow> (int \<times> 'a pgp_state) option"
      and env :: "'a pgp_env" and path level st res
    assume IH: "\<And>env path level st res. f env path level st = Some res \<Longrightarrow>
        sview (snd res) = sview st \<and> (fst res = 0 \<longrightarrow> level AND ALPM_SIG_DATABASE \<noteq> 0 \<longrightarrow> trusted_db env fs path level)"
      and run: "(case alpm_check_pgp_helper env (Some path) None (level AND ALPM_SIG_DATABASE_OPTIONAL \<noteq> 0)
             (level AND ALPM_SIG_DATABASE_MARGINAL_OK \<noteq> 0) (level AND ALPM_SIG_DATABASE_UNKNOWN_OK \<noteq> 0) st of
        ((ret, siglist), st) \<Rightarrow>
          if ret = 0 then Some (0, st)
          else
            (case alpm_process_siglist env siglist st of
               None \<Rightarrow> None
             | Some (retry, st) \<Rightarrow> if retry \<noteq> 0 then f env path level st else Some (ret, st))) = Some res"
    obtain r l st1 where h: "alpm_check_pgp_helper env (Some path) None (level AND ALPM_SIG_DATABASE_OPTIONAL \<noteq> 0)
        (level AND ALPM_SIG_DATABASE_MARGINAL_OK \<noteq> 0) (level AND ALPM_SIG_DATABASE_UNKNOWN_OK \<noteq> 0) st = ((r, l), st1)"
      by (metis surj_pair)
    have v: "sview st1 = sview st" using h by (rule helper_view)
    show "sview (snd res) = sview st \<and> (fst res = 0 \<longrightarrow> level AND ALPM_SIG_DATABASE \<noteq> 0 \<longrightarrow> trusted_db env fs path level)"
    proof (cases "r = 0")
      case True
      then have "res = (0, st1)" using run h by simp
      moreover have "trusted_db env fs path level"
        using helper_accepts [OF h [unfolded True]] by (auto simp: trusted_db_def)
      ultimately show ?thesis using v by simp
    next
      case False
      then obtain retry st2 where p: "alpm_process_siglist env l st1 = Some (retry, st2)"
        using run h by (auto split: option.splits)
      have "sview st2 = sview st1" using p by (simp add: alpm_process_siglist_def process_results_view)
      then show ?thesis using run h False p v IH [of env path level st2 res] by (cases "retry = 0") auto
    qed
  qed
  then show ?thesis using assms by fastforce
qed

text \<open>Flags that are set, cleared, and left alone.\<close>

lemma flags:
  fixes a b c s :: u32
  shows "a AND b = 0 \<Longrightarrow> ((s OR a) AND NOT b) AND a = a" "((s OR a) AND NOT b) AND b = 0"
    "c AND a = 0 \<Longrightarrow> c AND b = 0 \<Longrightarrow> ((s OR a) AND NOT b) AND c = s AND c"
  by (auto simp: bit_eq_iff bit_simps)

lemma set_status_flags:
  "on AND off = 0 \<Longrightarrow> on \<noteq> 0 \<Longrightarrow> has_status (wdbs (set_status on off d w) d) on"
  "\<not> has_status (wdbs (set_status on off d w) d) off"
  "c AND on = 0 \<Longrightarrow> c AND off = 0 \<Longrightarrow> has_status (wdbs (set_status on off d w) d) c = has_status (wdbs w d) c"
  by (simp_all add: has_status_def set_status_def upd_db_def flags)

text \<open>What a validation leaves alone; \<open>db_file\<close> is the path of a database before it is computed, too.\<close>

definition db_file :: "alpm_handle_t \<Rightarrow> alpm_db_t \<Rightarrow> string" where
  "db_file h db =
     (case db_path db of
        Some p \<Rightarrow> p
      | None \<Rightarrow> if has_status db DB_STATUS_LOCAL then dbpath h @ treename db @ ''/'' else dbpath h @ ''sync/'' @ treename db @ dbext h)"

definition hkeep :: "alpm_handle_t \<Rightarrow> _" where
  "hkeep h = (hsiglevel h, dbpath h, dbext h)"

definition dbkeep :: "alpm_handle_t \<Rightarrow> alpm_db_t \<Rightarrow> string \<times> u32 \<times> u32 \<times> string list \<times> string" where
  "dbkeep h db = (treename db, siglevel db, usage db, servers db, db_file h db)"

definition others_same :: "dbref set \<Rightarrow> alpm_world \<Rightarrow> alpm_world \<Rightarrow> bool" where
  "others_same D w w' \<longleftrightarrow> (\<forall>d. d \<notin> D \<longrightarrow> wdbs w' d = wdbs w d) \<and> (\<forall>d. dbkeep (handle w') (wdbs w' d) = dbkeep (handle w) (wdbs w d)) \<and>
     wpkgs w' = wpkgs w \<and> hkeep (handle w') = hkeep (handle w)"

lemma others_same_refl [simp]: "others_same D w w"
  by (simp add: others_same_def)

lemma others_same_trans: "others_same D w w' \<Longrightarrow> others_same D w' w'' \<Longrightarrow> others_same D w w''"
  by (simp add: others_same_def)

lemma others_same_mono: "others_same D w w' \<Longrightarrow> D \<subseteq> E \<Longrightarrow> others_same E w w'"
  by (auto simp: others_same_def)

lemma others_same_handle:
  assumes "hkeep h = hkeep (handle w)"
  shows "others_same D w (w\<lparr>handle := h\<rparr>)"
  using assms by (simp add: others_same_def dbkeep_def db_file_def hkeep_def cong: option.case_cong)

lemma others_same_errno: "others_same D w (set_errno e w)"
  unfolding set_errno_def by (rule others_same_handle) (simp add: hkeep_def)

lemma others_same_upd:
  assumes "dbkeep (handle w) (f (wdbs w d)) = dbkeep (handle w) (wdbs w d)"
  shows "others_same {d} w (upd_db d f w)"
  using assms by (simp add: others_same_def upd_db_def)

lemma set_status_same:
  assumes "DB_STATUS_LOCAL AND on = 0" "DB_STATUS_LOCAL AND off = 0"
  shows "others_same {d} w (set_status on off d w)"
  unfolding set_status_def
  by (rule others_same_upd) (simp add: dbkeep_def db_file_def has_status_def flags(3) [OF assms] split: option.split)

lemma db_path_split: "alpm_db_path w d = (db_file (handle w) (wdbs w d), upd_db d (\<lambda>db. db\<lparr>db_path := Some (db_file (handle w) db)\<rparr>) w)"
proof (cases "db_path (wdbs w d)")
  case (Some p)
  then have "(wdbs w d)\<lparr>db_path := Some (db_file (handle w) (wdbs w d))\<rparr> = wdbs w d" by (simp add: db_file_def)
  then have "(wdbs w)(d := (wdbs w d)\<lparr>db_path := Some (db_file (handle w) (wdbs w d))\<rparr>) = wdbs w" by (metis fun_upd_triv)
  then show ?thesis using Some by (simp add: alpm_db_path_def upd_db_def) (simp add: db_file_def)
qed (simp add: alpm_db_path_def db_file_def upd_db_def Let_def)

lemma path_same: "others_same {d} w (snd (alpm_db_path w d))"
  unfolding db_path_split snd_conv by (rule others_same_upd) (simp add: dbkeep_def db_file_def)

lemma put_pgp_same:
  assumes "sview st = sview (m_pgp m)"
  shows "others_same D (mworld m) (mworld (put_pgp st m))"
  unfolding put_pgp_def using assms by (simp add: others_same_handle m_pgp_def sview_def hview_def hkeep_def)

lemma same_siglevel: "others_same D w w' \<Longrightarrow> alpm_db_get_siglevel w' d = alpm_db_get_siglevel w d"
  by (auto simp: others_same_def alpm_db_get_siglevel_def dbkeep_def hkeep_def)

lemma same_syncs: "others_same D w w' \<Longrightarrow> syncs w' d = syncs w d"
  by (simp add: others_same_def syncs_def dbkeep_def)

lemma same_file: "others_same D w w' \<Longrightarrow> db_file (handle w') (wdbs w' d) = db_file (handle w) (wdbs w d)"
  by (simp add: others_same_def dbkeep_def)

lemma clear_flags:
  fixes s :: u32
  shows "c AND f = 0 \<Longrightarrow> (s AND NOT f) AND c = s AND c" "(s AND NOT f) AND f = 0" "s AND c = 0 \<Longrightarrow> (s AND NOT f) AND c = 0"
  by (auto simp: bit_eq_iff bit_simps)

lemma free_cache_flag: "c AND DB_STATUS_PKGCACHE = 0 \<Longrightarrow> c AND DB_STATUS_GRPCACHE = 0 \<Longrightarrow>
    has_status (alpm_db_free_pkgcache db) c = has_status db c"
  using clear_flags(1) [of c DB_STATUS_PKGCACHE "status db"]
    clear_flags(1) [of c DB_STATUS_GRPCACHE "status db AND NOT DB_STATUS_PKGCACHE"]
  by (simp add: alpm_db_free_pkgcache_def free_groupcache_def has_status_def)

lemma free_cache_cleared: "\<not> has_status (alpm_db_free_pkgcache db) DB_STATUS_PKGCACHE"
  using clear_flags(2) [of "status db" DB_STATUS_PKGCACHE]
    clear_flags(3) [of "status db AND NOT DB_STATUS_PKGCACHE" DB_STATUS_PKGCACHE DB_STATUS_GRPCACHE]
  by (simp add: alpm_db_free_pkgcache_def free_groupcache_def has_status_def)

lemma free_cache_keeps: "treename (alpm_db_free_pkgcache db) = treename db" "siglevel (alpm_db_free_pkgcache db) = siglevel db"
  "usage (alpm_db_free_pkgcache db) = usage db" "servers (alpm_db_free_pkgcache db) = servers db"
  "db_path (alpm_db_free_pkgcache db) = db_path db"
  by (simp_all add: alpm_db_free_pkgcache_def free_groupcache_def)

text \<open>The four flags that are cleared, on variables for the flags.\<close>

lemma four_flags:
  fixes s :: u32
  defines "t \<equiv> \<lambda>a b c d. s AND NOT a AND NOT b AND NOT c AND NOT d"
  shows "t a b c d AND a = 0" "t a b c d AND b = 0" "t a b c d AND d = 0"
    "e AND a = 0 \<Longrightarrow> e AND b = 0 \<Longrightarrow> e AND c = 0 \<Longrightarrow> e AND d = 0 \<Longrightarrow> t a b c d AND e = s AND e"
  unfolding t_def by (auto simp: bit_eq_iff bit_simps)

lemma forget_same: "others_same {d} w (forget_db d w)"
proof -
  have "has_status ((alpm_db_free_pkgcache db)\<lparr>status := status (alpm_db_free_pkgcache db) AND NOT DB_STATUS_VALID
       AND NOT DB_STATUS_INVALID AND NOT DB_STATUS_EXISTS AND NOT DB_STATUS_MISSING\<rparr>) DB_STATUS_LOCAL = has_status db DB_STATUS_LOCAL" for db
    using free_cache_flag [of DB_STATUS_LOCAL db] four_flags(4) [of DB_STATUS_LOCAL DB_STATUS_VALID DB_STATUS_INVALID DB_STATUS_EXISTS DB_STATUS_MISSING]
    by (simp add: has_status_def)
  then show ?thesis
    unfolding forget_db_def by (intro others_same_upd) (simp add: dbkeep_def db_file_def free_cache_keeps cong: option.case_cong)
qed

lemma forget_flags:
  "\<not> has_status (wdbs (forget_db d w) d) DB_STATUS_VALID" "\<not> has_status (wdbs (forget_db d w) d) DB_STATUS_INVALID"
  "\<not> has_status (wdbs (forget_db d w) d) DB_STATUS_MISSING" "\<not> has_status (wdbs (forget_db d w) d) DB_STATUS_PKGCACHE"
  using four_flags [of "status (alpm_db_free_pkgcache (wdbs w d))" DB_STATUS_VALID DB_STATUS_INVALID DB_STATUS_EXISTS DB_STATUS_MISSING]
    four_flags(4) [of DB_STATUS_PKGCACHE DB_STATUS_VALID DB_STATUS_INVALID DB_STATUS_EXISTS DB_STATUS_MISSING "status (alpm_db_free_pkgcache (wdbs w d))"]
    free_cache_cleared [of "wdbs w d"]
  by (simp_all add: forget_db_def has_status_def upd_db_def)

text \<open>A database that was just validated: valid, nothing of it cached, and to be trusted.\<close>

definition fresh_db :: "(filesys \<Rightarrow> 'r pgp_env) \<Rightarrow> 'r machine \<Rightarrow> dbref \<Rightarrow> bool" where
  "fresh_db pgp m d \<longleftrightarrow>
     has_status (wdbs (mworld m) d) DB_STATUS_VALID \<and> \<not> has_status (wdbs (mworld m) d) DB_STATUS_INVALID \<and>
     \<not> has_status (wdbs (mworld m) d) DB_STATUS_PKGCACHE \<and>
     trusted_db (pgp (mdisk m)) (mdisk m) (db_file (handle (mworld m)) (wdbs (mworld m) d)) (alpm_db_get_siglevel (mworld m) d)"

lemma fresh_same:
  assumes "others_same D (mworld m) (mworld m')" "mdisk m' = mdisk m" "d \<notin> D"
  shows "fresh_db pgp m' d = fresh_db pgp m d"
proof -
  have w: "wdbs (mworld m') d = wdbs (mworld m) d" using assms(1,3) by (simp add: others_same_def)
  show ?thesis using same_siglevel [OF assms(1)] same_file [OF assms(1), of d] assms(2) w by (simp add: fresh_db_def)
qed

lemma put_world_simps [simp]: "mworld (put_world w m) = w" "mdisk (put_world w m) = mdisk m" "put_world (mworld m) m = m"
  by (simp_all add: put_world_def)

lemma set_status_lock [simp]: "lock_of (set_status on off d w) = lock_of w"
  by (simp add: set_status_def)

lemma set_valid:
  "has_status (wdbs (set_status DB_STATUS_VALID DB_STATUS_INVALID d w) d) DB_STATUS_VALID"
  "\<not> has_status (wdbs (set_status DB_STATUS_VALID DB_STATUS_INVALID d w) d) DB_STATUS_INVALID"
  "has_status (wdbs (set_status DB_STATUS_VALID DB_STATUS_INVALID d w) d) DB_STATUS_PKGCACHE = has_status (wdbs w d) DB_STATUS_PKGCACHE"
  by (rule set_status_flags; simp)+

lemma other_status_cache:
  "has_status (wdbs (set_status DB_STATUS_MISSING DB_STATUS_EXISTS d w) d) DB_STATUS_PKGCACHE = has_status (wdbs w d) DB_STATUS_PKGCACHE"
  "has_status (wdbs (set_status DB_STATUS_EXISTS DB_STATUS_MISSING d w) d) DB_STATUS_PKGCACHE = has_status (wdbs w d) DB_STATUS_PKGCACHE"
  by (rule set_status_flags; simp)+

lemma set_status_after:
  assumes "others_same {d} w0 w" "DB_STATUS_LOCAL AND on = 0" "DB_STATUS_LOCAL AND off = 0"
  shows "others_same {d} w0 (set_status on off d w)"
  by (rule others_same_trans [OF assms(1) set_status_same [OF assms(2,3)]])

text \<open>The last step of a validation that accepts the database.\<close>

lemma accept_fresh:
  assumes "\<not> has_status (wdbs (mworld m) d) DB_STATUS_PKGCACHE"
    and "trusted_db (pgp (mdisk m)) (mdisk m) (db_file (handle (mworld m)) (wdbs (mworld m) d)) (alpm_db_get_siglevel (mworld m) d)"
    and "m' = put_world (set_status DB_STATUS_VALID DB_STATUS_INVALID d (mworld m)) m"
  shows "fresh_db pgp m' d"
proof -
  have o: "others_same {d} (mworld m) (mworld m')"
    unfolding assms(3) put_world_simps by (rule set_status_same; simp)
  show ?thesis
    using assms(1,2) same_siglevel [OF o] same_file [OF o] set_valid [of d "mworld m"] by (simp add: fresh_db_def) (simp add: assms(3))
qed

lemma check_database_result:
  assumes "check_database pgp d path m = Some (r, m')" "path = db_file (handle (mworld m)) (wdbs (mworld m) d)"
  shows "others_same {d} (mworld m) (mworld m') \<and> lock_of (mworld m') = lock_of (mworld m) \<and> mdisk m' = mdisk m \<and>
    (\<not> has_status (wdbs (mworld m) d) DB_STATUS_PKGCACHE \<longrightarrow> r = 0 \<longrightarrow> fresh_db pgp m' d)"
proof (cases "alpm_db_get_siglevel (mworld m) d AND ALPM_SIG_DATABASE = 0")
  case True
  then have res: "r = 0" "m' = put_world (set_status DB_STATUS_VALID DB_STATUS_INVALID d (mworld m)) m"
    using assms(1) by (simp_all add: check_database_def Let_def)
  then show ?thesis
    using accept_fresh [OF _ _ res(2)] True set_status_same [of DB_STATUS_VALID DB_STATUS_INVALID] by (simp add: trusted_db_def)
next
  case False
  obtain ret st where c: "check_signatures (pgp (mdisk m)) path (alpm_db_get_siglevel (mworld m) d) (m_pgp m) = Some (ret, st)"
    using assms(1) False by (auto simp: check_database_def Let_def split: option.splits)
  note sig = check_signatures_result [OF c, of "mdisk m"]
  define m3 where "m3 = put_pgp st m"
  have m3: "others_same {d} (mworld m) (mworld m3)" "mdisk m3 = mdisk m" "wdbs (mworld m3) = wdbs (mworld m)"
    "lock_of (mworld m3) = lock_of (mworld m)"
    using put_pgp_same [of st m] put_pgp_lock [of st m] sig by (simp_all add: m3_def) (simp_all add: put_pgp_def)
  have m': "(if ret \<noteq> 0 then (1, m_error ALPM_ERR_DB_INVALID_SIG (put_world (set_status DB_STATUS_INVALID DB_STATUS_VALID d (mworld m3)) m3))
      else (0, put_world (set_status DB_STATUS_VALID DB_STATUS_INVALID d (mworld m3)) m3)) = (r, m')"
    using assms(1) False c by (simp add: check_database_def m3_def Let_def split: if_splits)
  show ?thesis
  proof (cases "ret = 0")
    case True
    have res: "r = 0" "m' = put_world (set_status DB_STATUS_VALID DB_STATUS_INVALID d (mworld m3)) m3" using m' True by simp_all
    have "trusted_db (pgp (mdisk m3)) (mdisk m3) (db_file (handle (mworld m3)) (wdbs (mworld m3) d)) (alpm_db_get_siglevel (mworld m3) d)"
      using sig True False same_file [OF m3(1)] same_siglevel [OF m3(1)] m3(2) assms(2) by simp
    then show ?thesis
      using accept_fresh [OF _ _ res(2)] res m3 set_status_after [OF m3(1), of DB_STATUS_VALID DB_STATUS_INVALID] by simp
  next
    case False
    then have res: "r = 1" "m' = m_error ALPM_ERR_DB_INVALID_SIG (put_world (set_status DB_STATUS_INVALID DB_STATUS_VALID d (mworld m3)) m3)"
      using m' by simp_all
    have "others_same {d} (mworld m) (mworld m')"
      using others_same_trans [OF set_status_after [OF m3(1), of DB_STATUS_INVALID DB_STATUS_VALID] others_same_errno]
      by (simp add: res(2) m_error_def)
    then show ?thesis using res m3 by (simp add: m_error_def)
  qed
qed

definition pristine :: "alpm_db_t \<Rightarrow> bool" where
  "pristine db \<longleftrightarrow> \<not> has_status db DB_STATUS_VALID \<and> \<not> has_status db DB_STATUS_INVALID \<and> \<not> has_status db DB_STATUS_MISSING \<and>
     \<not> has_status db DB_STATUS_PKGCACHE"

lemma sync_validate_result:
  assumes "sync_db_validate pgp d m = Some (r, m')"
  shows "others_same {d} (mworld m) (mworld m') \<and> lock_of (mworld m') = lock_of (mworld m) \<and> mdisk m' = mdisk m \<and>
    (pristine (wdbs (mworld m) d) \<longrightarrow> r = 0 \<longrightarrow> fresh_db pgp m' d)"
proof (cases "has_status (wdbs (mworld m) d) DB_STATUS_VALID \<or> has_status (wdbs (mworld m) d) DB_STATUS_MISSING \<or>
    has_status (wdbs (mworld m) d) DB_STATUS_INVALID")
  case True
  then show ?thesis
    using assms by (auto simp: sync_db_validate_def pristine_def m_error_def others_same_errno split: if_splits)
next
  case False
  obtain path w1 where p: "alpm_db_path (mworld m) d = (path, w1)" by fastforce
  then have path: "path = db_file (handle (mworld m)) (wdbs (mworld m) d)" and w1: "others_same {d} (mworld m) w1" "lock_of w1 = lock_of (mworld m)"
      "has_status (wdbs w1 d) DB_STATUS_PKGCACHE = has_status (wdbs (mworld m) d) DB_STATUS_PKGCACHE"
    using path_same [of d "mworld m"] by (auto simp: db_path_split upd_db_def has_status_def lock_of_def)
  show ?thesis
  proof (cases "AlpmFs.stat (mdisk m) path = Inl ENOENT")
    case True
    define m2 where "m2 = put_world (set_status DB_STATUS_MISSING DB_STATUS_EXISTS d w1) m"
    have m2: "others_same {d} (mworld m) (mworld m2)" unfolding m2_def put_world_simps by (rule set_status_after [OF w1(1)]; simp)
    have res: "r = 0" "m' = put_world (set_status DB_STATUS_VALID DB_STATUS_INVALID d (mworld m2)) m2"
      using assms False p True by (simp_all add: sync_db_validate_def m2_def put_world_def)
    have "trusted_db (pgp (mdisk m2)) (mdisk m2) (db_file (handle (mworld m2)) (wdbs (mworld m2) d)) (alpm_db_get_siglevel (mworld m2) d)"
      using True same_file [OF m2] by (simp add: trusted_db_def path m2_def)
    from accept_fresh [of m2 d pgp m', OF _ this res(2)] show ?thesis
      using res w1(2,3) set_status_after [OF m2, of DB_STATUS_VALID DB_STATUS_INVALID] other_status_cache(1) [of d w1]
      by (simp add: pristine_def) (simp add: m2_def)
  next
    case exists: False
    define m2 where "m2 = put_world (set_status DB_STATUS_EXISTS DB_STATUS_MISSING d w1) m"
    have m2: "others_same {d} (mworld m) (mworld m2)" unfolding m2_def put_world_simps by (rule set_status_after [OF w1(1)]; simp)
    have c: "check_database pgp d path m2 = Some (r, m')" using assms False p exists by (simp add: sync_db_validate_def m2_def)
    have "path = db_file (handle (mworld m2)) (wdbs (mworld m2) d)" using path same_file [OF m2] by simp
    from check_database_result [OF c this] show ?thesis
      using m2 others_same_trans [OF m2, of "mworld m'"] w1(2,3) other_status_cache(2) [of d w1]
      by (simp add: pristine_def) (simp add: m2_def)
  qed
qed

text \<open>The loop over the databases.\<close>

lemma forget_lock [simp]: "lock_of (forget_db d w) = lock_of w"
  by (simp add: forget_db_def)

lemma revalidate_result:
  assumes "revalidate pgp ds ret m = Some (r, m')"
  shows "others_same {d \<in> set ds. syncs (mworld m) d} (mworld m) (mworld m') \<and> lock_of (mworld m') = lock_of (mworld m) \<and> mdisk m' = mdisk m \<and>
    (r \<ge> 0 \<longrightarrow> ret \<ge> 0 \<and> (\<forall>d\<in>set ds. syncs (mworld m) d \<longrightarrow> fresh_db pgp m' d))"
  using assms
proof (induction ds arbitrary: ret m)
  case (Cons d ds)
  show ?case
  proof (cases "syncs (mworld m) d")
    case False
    then have "{e \<in> set (d # ds). syncs (mworld m) e} = {e \<in> set ds. syncs (mworld m) e}" by auto
    then show ?thesis using Cons.prems False Cons.IH [of ret m] by simp
  next
    case True
    define m0 where "m0 = put_world (forget_db d (mworld m)) m"
    obtain r1 m1 where v: "sync_db_validate pgp d m0 = Some (r1, m1)"
      and rest: "revalidate pgp ds (if r1 \<noteq> 0 then -1 else ret) m1 = Some (r, m')"
      using Cons.prems True by (auto simp: m0_def split: option.splits)
    have "pristine (wdbs (mworld m0) d)" using forget_flags [of d "mworld m"] by (simp add: pristine_def m0_def)
    then have step: "others_same {d} (mworld m) (mworld m1)" "lock_of (mworld m1) = lock_of (mworld m)" "mdisk m1 = mdisk m"
      "r1 = 0 \<longrightarrow> fresh_db pgp m1 d"
      using sync_validate_result [OF v] others_same_trans [OF forget_same [of d "mworld m"], of "mworld m1"] by (simp_all add: m0_def)
    define D where "D = {e \<in> set ds. syncs (mworld m1) e}"
    have D: "D = {e \<in> set ds. syncs (mworld m) e}" using same_syncs [OF step(1)] by (simp add: D_def)
    have IH: "others_same D (mworld m1) (mworld m')" "lock_of (mworld m') = lock_of (mworld m1)" "mdisk m' = mdisk m1"
      "r \<ge> 0 \<longrightarrow> r1 = 0 \<and> ret \<ge> 0 \<and> (\<forall>e\<in>D. fresh_db pgp m' e)"
      using Cons.IH [OF rest] by (auto simp: D_def split: if_splits)
    have set: "{e \<in> set (d # ds). syncs (mworld m) e} = insert d D" using True by (auto simp: D)
    have "others_same (insert d D) (mworld m) (mworld m')"
      using others_same_trans [OF others_same_mono [OF step(1), of "insert d D"] others_same_mono [OF IH(1), of "insert d D"]] by auto
    moreover have "fresh_db pgp m' d" if "r \<ge> 0"
      using that IH step fresh_same [OF IH(1,3), of d pgp] by (cases "d \<in> D") auto
    ultimately show ?thesis using IH step unfolding set by (auto simp: D)
  qed
qed simp

lemma payloads_empty:
  "update_payloads force w ds ps = Inr [] \<Longrightarrow> ps = [] \<and> (\<forall>d\<in>set ds. \<not> syncs w d)"
  by (induction ds arbitrary: ps) (auto split: if_splits)

abbreviation updated :: "dbref list \<Rightarrow> alpm_world \<Rightarrow> dbref set" where
  "updated dbs w \<equiv> {d \<in> set dbs. syncs w d}"

lemma update_locked_result:
  assumes "update_locked env dbs force dir m = Some (r, m')"
  shows "others_same (updated dbs (mworld m)) (mworld m) (mworld m') \<and> lock_of (mworld m') = lock_of (mworld m) \<and>
    (r \<ge> 0 \<longrightarrow> (\<forall>d\<in>updated dbs (mworld m). fresh_db (ue_pgp env) m' d))"
proof (cases "update_payloads force (mworld m) dbs []")
  case (Inl e)
  then show ?thesis using assms by (auto simp: update_locked_def m_error_def others_same_errno)
next
  case (Inr ps)
  show ?thesis
  proof (cases "ps = []")
    case True
    then show ?thesis using assms Inr payloads_empty [of force "mworld m" dbs "[]"] by (auto simp: update_locked_def)
  next
    case False
    obtain ret e fs where dl: "ue_download env ps dir (pm_errno (handle (mworld m))) (mdisk m) = (ret, e, fs)" by (metis surj_pair)
    define m1 where "m1 = m_error e (m\<lparr>mdisk := fs\<rparr>)"
    have m1: "others_same D (mworld m) (mworld m1)" "lock_of (mworld m1) = lock_of (mworld m)" for D
      by (simp_all add: m1_def m_error_def others_same_errno)
    have run: "(if ret < 0 then Some (ret, m1) else revalidate (ue_pgp env) dbs ret m1) = Some (r, m')"
      using assms Inr False dl by (simp add: update_locked_def m1_def Let_def split: if_splits)
    show ?thesis
    proof (cases "ret < 0")
      case True
      then show ?thesis using run m1 by auto
    next
      case False
      then have "revalidate (ue_pgp env) dbs ret m1 = Some (r, m')" using run by simp
      from revalidate_result [OF this] show ?thesis
        using others_same_trans [OF m1(1), of _ "mworld m'"] m1(2) same_syncs [OF m1(1)] by simp
    qed
  qed
qed

text \<open>Getting the directory and the lock, and giving the lock up, changes nothing of the databases.\<close>

lemma get_sync_dir_world: "get_sync_dir w fs = ((dir, w'), fs') \<Longrightarrow> w' = (if dir = None then set_errno ALPM_ERR_SYSTEM w else w)"
  by (auto simp: get_sync_dir_def make_sync_dir_def Let_def split: sum.splits prod.splits if_splits)

lemma with_handle_same:
  assumes "hkeep h = hkeep (handle (mworld m))"
  shows "others_same D (mworld m) (mworld (with_handle h m))" "mdisk (with_handle h m) = mdisk m"
  using others_same_handle [OF assms] by (simp_all add: with_handle_def)

lemma handle_lock_keeps: "alpm_handle_lock os h disk = Some (r, h', disk') \<Longrightarrow> hkeep h' = hkeep h \<and> lockfile h' = lockfile h"
  by (auto simp: alpm_handle_lock_def hkeep_def split: option.splits if_splits)

lemma handle_unlock_keeps: "alpm_handle_unlock os h disk = (r, h', disk') \<Longrightarrow> hkeep h' = hkeep h"
  by (auto simp: alpm_handle_unlock_def alpm_unlock_def hkeep_def Let_def split: option.splits if_splits prod.splits)

text \<open>The steps of an update that gets as far as the lock.\<close>

lemma update_in_dir_cases:
  assumes "update_in_dir env dbs force dir m1 disk = Some (r, m', disk')"
  obtains r1 h1 disk1 m2 h3 r3 where "alpm_handle_lock (ue_os env) (handle (mworld m1)) disk = Some (r1, h1, disk1)"
    "(if r1 \<noteq> 0 then Some (-1, m_error ALPM_ERR_HANDLE_LOCK (with_handle h1 m1)) else update_locked env dbs force dir (with_handle h1 m1)) = Some (r, m2)"
    "alpm_handle_unlock (ue_os env) (handle (mworld m2)) disk1 = (r3, h3, disk')"
    "m' = (if r = -1 then with_handle h3 m2 else m_error ALPM_ERR_OK (with_handle h3 m2))"
  using assms unfolding update_in_dir_def
  by (cases "alpm_handle_lock (ue_os env) (handle (mworld m1)) disk") (auto split: option.splits prod.splits)

lemma update_cases:
  assumes "alpm_db_update env dbs force m disk = Some (r, m', disk')"
  obtains (early) "r = -1" "disk' = disk" "wdbs (mworld m') = wdbs (mworld m)" "wpkgs (mworld m') = wpkgs (mworld m)"
      "dbs = [] \<or> fst (fst (get_sync_dir (set_errno ALPM_ERR_OK (mworld m)) (mdisk m))) = None"
  | (run) dir m1 where "\<And>D. others_same D (mworld m) (mworld m1)" "lock_of (mworld m1) = lock_of (mworld m)"
      "update_in_dir env dbs force dir m1 disk = Some (r, m', disk')"
proof -
  obtain dir w fs where g: "get_sync_dir (set_errno ALPM_ERR_OK (mworld m)) (mdisk m) = ((dir, w), fs)" by (metis surj_pair)
  note w = get_sync_dir_world [OF g]
  show ?thesis
  proof (cases "dbs = [] \<or> dir = None")
    case True
    then show ?thesis using early assms g w by (auto simp: alpm_db_update_def set_errno_def split: if_splits)
  next
    case False
    then obtain d where d: "dir = Some d" by blast
    have "others_same D (mworld m) w" for D using w d by (simp add: others_same_errno)
    moreover have "lock_of w = lock_of (mworld m)" using w d by simp
    ultimately show ?thesis using run [of "put_world w (m\<lparr>mdisk := fs\<rparr>)" d] assms False g d by (simp add: alpm_db_update_def)
  qed
qed

text \<open>What happens while the handle has the lock, or has not got it.\<close>

lemma in_dir_step:
  assumes "others_same {} w (mworld m1)" "hkeep h1 = hkeep (handle (mworld m1))"
    and "(if r1 \<noteq> 0 then Some (-1, m_error ALPM_ERR_HANDLE_LOCK (with_handle h1 m1)) else update_locked env dbs force dir (with_handle h1 m1)) = Some (r, m2)"
  shows "others_same (updated dbs w) w (mworld m2) \<and> (r \<ge> 0 \<longrightarrow> (\<forall>d\<in>updated dbs w. fresh_db (ue_pgp env) m2 d)) \<and>
    lockfile (handle (mworld m2)) = lockfile h1 \<and> lockfd (handle (mworld m2)) = lockfd h1 \<and>
    (r1 \<noteq> 0 \<longrightarrow> r = -1 \<and> wdbs (mworld m2) = wdbs w)"
proof -
  have h: "others_same {} w (mworld (with_handle h1 m1))" by (rule others_same_trans [OF assms(1) with_handle_same(1) [OF assms(2)]])
  have hh: "handle (mworld (with_handle h1 m1)) = h1" by (simp add: with_handle_def)
  show ?thesis
  proof (cases "r1 = 0")
    case True
    then have "update_locked env dbs force dir (with_handle h1 m1) = Some (r, m2)" using assms(3) by simp
    note u = update_locked_result [OF this]
    have same: "updated dbs (mworld (with_handle h1 m1)) = updated dbs w" using same_syncs [OF h] by simp
    have "others_same (updated dbs w) w (mworld m2)"
      using others_same_trans [OF others_same_mono [OF h]] u unfolding same by simp
    then show ?thesis using u True hh unfolding same by (simp add: lock_of_def)
  next
    case False
    then have "r = -1" "m2 = m_error ALPM_ERR_HANDLE_LOCK (with_handle h1 m1)" using assms(3) by simp_all
    moreover have "others_same (updated dbs w) w (mworld m2)"
      using others_same_trans [OF others_same_mono [OF h] others_same_errno] calculation by (simp add: m_error_def)
    ultimately show ?thesis using h hh by (simp add: m_error_def set_errno_def others_same_def fun_eq_iff)
  qed
qed

lemma end_step:
  assumes "alpm_handle_unlock os (handle (mworld m2)) disk = (r3, h3, disk')"
    and "m' = (if r = -1 then with_handle h3 m2 else m_error ALPM_ERR_OK (with_handle h3 m2))"
  shows "others_same D (mworld m2) (mworld m')" "mdisk m' = mdisk m2" "lockfd (handle (mworld m')) = lockfd h3" "wdbs (mworld m') = wdbs (mworld m2)"
  using with_handle_same [OF handle_unlock_keeps [OF assms(1)]] assms(2)
    others_same_trans [OF with_handle_same(1) [OF handle_unlock_keeps [OF assms(1)]] others_same_errno]
  by (auto simp: m_error_def with_handle_def set_errno_def)

lemma unlock_without: "alpm_handle_unlock os h disk = (r, h', disk') \<Longrightarrow> lockfd h < 0 \<Longrightarrow> h' = h \<and> disk' = disk"
  by (auto simp: alpm_handle_unlock_def alpm_unlock_def split: option.splits)

text \<open>C11: databases after an update. An update of databases changes none but those that are listed and take part
  in updates, and no package. When it does not fail, every one of these is valid and nothing of it is
  cached any more; and either its file is missing, or no signature was asked for, or its file can be read and gpgme
  has verified it with signatures that are all good enough for the level, or, where a
  signature is optional, it has none.\<close>

theorem updated_databases_are_trusted:
  assumes "alpm_db_update env dbs force m disk = Some (r, m', disk')"
  shows "(\<forall>d. d \<notin> updated dbs (mworld m) \<longrightarrow> wdbs (mworld m') d = wdbs (mworld m) d) \<and> wpkgs (mworld m') = wpkgs (mworld m) \<and>
    (r \<ge> 0 \<longrightarrow> (\<forall>d\<in>updated dbs (mworld m). fresh_db (ue_pgp env) m' d))"
  using assms
proof (cases rule: update_cases)
  case early
  then show ?thesis by simp
next
  case (run dir m1)
  from run(3) show ?thesis
  proof (cases rule: update_in_dir_cases)
    case (1 r1 h1 disk1 m2 h3 r3)
    have k: "hkeep h1 = hkeep (handle (mworld m1))" using handle_lock_keeps [OF 1(1)] by simp
    note step = in_dir_step [OF run(1) k 1(2)]
    note last = end_step [OF 1(3,4)]
    show ?thesis using step last(1) [of "{}"] fresh_same [OF last(1) last(2), of _ "{}"] by (auto simp: others_same_def)
  qed
qed

text \<open>C19: an update and the lock. While another process holds the lock, an update fails and changes nothing of the databases.
  An update that is allowed to remove the lock file leaves the disk without a lock of its own, and when it got as
  far as asking for the lock, the handle has none afterwards: also one that a transaction of the handle held
  before, whose lock file is gone then.\<close>

theorem update_gives_up_the_lock:
  assumes "alpm_db_update env dbs force m disk = Some (r, m', disk')" "lockfile (handle (mworld m)) = Some path"
  shows "(lockfd (handle (mworld m)) < 0 \<and> path \<in> disk \<longrightarrow> r = -1 \<and> wdbs (mworld m') = wdbs (mworld m)) \<and>
    (lockfd (handle (mworld m)) < 0 \<and> os_unlink (ue_os env) \<longrightarrow> disk' = disk) \<and>
    (dbs \<noteq> [] \<and> fst (fst (get_sync_dir (set_errno ALPM_ERR_OK (mworld m)) (mdisk m))) \<noteq> None \<longrightarrow>
       lockfd (handle (mworld m')) < 0 \<and>
       (lockfd (handle (mworld m)) \<ge> 0 \<and> os_unlink (ue_os env) \<longrightarrow> path \<notin> disk'))"
  using assms(1)
proof (cases rule: update_cases)
  case early
  then show ?thesis by auto
next
  case (run dir m1)
  have m1: "lockfile (handle (mworld m1)) = Some path" "lockfd (handle (mworld m1)) = lockfd (handle (mworld m))"
    using run(2) assms(2) by (simp_all add: lock_of_def)
  from run(3) show ?thesis
  proof (cases rule: update_in_dir_cases)
    case (1 r1 h1 disk1 m2 h3 r3)
    have k: "hkeep h1 = hkeep (handle (mworld m1))" "lockfile h1 = Some path" using handle_lock_keeps [OF 1(1)] m1 by simp_all
    note step = in_dir_step [OF run(1) k(1) 1(2)]
    note last = end_step [OF 1(3,4)]
    show ?thesis
    proof (cases "lockfd (handle (mworld m)) < 0")
      case True
      then have l: "if r1 = 0 then path \<notin> disk \<and> disk1 = insert path disk \<and> lockfd h1 \<ge> 0 else disk1 = disk \<and> lockfd h1 < 0"
        using handle_lock_result [OF 1(1)] m1 by (auto split: if_splits)
      show ?thesis
        using l step last(3,4) k(2) handle_unlock_result [OF 1(3), of path] unlock_without [OF 1(3)] True by (cases "r1 = 0") auto
    next
      case False
      then have "r1 = 0" "disk1 = disk" "lockfd h1 \<ge> 0" using 1(1) m1 by (auto simp: alpm_handle_lock_def)
      then show ?thesis using step last(3) k(2) handle_unlock_result [OF 1(3), of path] False by auto
    qed
  qed
qed

section \<open>An update\<close>

text \<open>
  A regular file in the place of the directory is not removed: \<open>stat\<close> of the path with the slash at its
  end fails, and \<open>_alpm_makepath\<close> takes it that something of this name exists for success.
\<close>

definition no_sync_dir :: filesys where
  "no_sync_dir =
     \<lparr>fs_nodes = [([''l''], Dir), ([''l'', ''sync''], File ''x'')],
      fs_fault = \<lambda>_. None, fs_nowrite = \<lambda>_. None, fs_dev = \<lambda>_. 0\<rparr>"

lemma sync_file_stays:
  assumes "dbpath (handle w) = ''/l/''"
  shows "fst (get_sync_dir w no_sync_dir) = (Some ''/l/sync/'', w)"
proof -
  have "(case AlpmFs.stat no_sync_dir ''/l/sync/'' of Inl _ \<Rightarrow> True | _ \<Rightarrow> False)" "fst (alpm_makepath ''/l/sync/'' no_sync_dir) = 0"
    by code_simp+
  then show ?thesis
    using assms by (auto simp: get_sync_dir_def make_sync_dir_def Let_def split: sum.splits prod.splits)
qed

text \<open>One database, signed by a key that is trusted marginally, which its level allows; \<open>fd\<close> is the descriptor of the lock.\<close>

definition sync_fs :: filesys where
  "sync_fs =
     \<lparr>fs_nodes = [([''l''], Dir), ([''l'', ''sync''], Dir), ([''l'', ''sync'', ''core.db''], File ''x'')],
      fs_fault = \<lambda>_. None, fs_nowrite = \<lambda>_. None, fs_dev = \<lambda>_. 0\<rparr>"

definition sample_machine_at :: "int \<Rightarrow> nat machine" where
  "sample_machine_at fd =
     \<lparr>mworld = \<lparr>handle = alpm_handle_new\<lparr>dbpath := ''/l/'', lockfile := Some ''/l/db.lck'', lockfd := fd\<rparr>,
        wdbs = \<lambda>_. (alpm_db_new ''core'' False)\<lparr>db_path := Some ''/l/sync/core.db'', servers := [''s''], siglevel := 5120\<rparr>,
        wpkgs = \<lambda>_. alpm_pkg_new, next_ref = 1\<rparr>,
      mdisk = sync_fs, minit = False, mring = 0\<rparr>"

definition sample_updates :: "nat update_env" where
  "sample_updates = \<lparr>ue_os = open_os, ue_pgp = \<lambda>_. sample_pgp, ue_download = \<lambda>_ _ e fs. (0, e, fs)\<rparr>"

lemma sample_dir: "get_sync_dir (set_errno ALPM_ERR_OK (mworld (sample_machine_at fd))) (mdisk (sample_machine_at fd)) =
    ((Some ''/l/sync/'', set_errno ALPM_ERR_OK (mworld (sample_machine_at fd))), sync_fs)"
  by (simp add: get_sync_dir_def sample_machine_at_def set_errno_def stat_def stat_node_def resolve_def components_def sync_fs_def look_def slashed_def)

lemma sample_signed: "\<exists>st'. check_signatures sample_pgp p 5120 st = Some (0, st')"
proof -
  have "\<exists>l st'. alpm_check_pgp_helper sample_pgp (Some p) None False True False st = ((0, l), st')"
    by (simp add: alpm_check_pgp_helper_def alpm_gpgme_checksig_def sample_pgp_def init_gpgme_def verify_signature_def get_key_def Let_def
        result_ok_def sig_result_def status_of_def validity_of_def result_key_def sample_key_def)
  then show ?thesis by (subst check_signatures.simps) auto
qed

lemma sample_update:
  "\<exists>m' disk'. alpm_db_update sample_updates [0] False (sample_machine_at fd) (if fd < 0 then {} else {''/l/db.lck''}) = Some (0, m', disk')"
proof -
  define m1 where "m1 = put_world (set_errno ALPM_ERR_OK (mworld (sample_machine_at fd))) (sample_machine_at fd\<lparr>mdisk := sync_fs\<rparr>)"
  obtain h disk1 where l: "alpm_handle_lock open_os (handle (mworld m1)) (if fd < 0 then {} else {''/l/db.lck''}) = Some (0, h, disk1)"
    and h: "h = (handle (mworld m1))\<lparr>lockfd := if fd < 0 then 3 else fd\<rparr>"
    by (auto simp: m1_def sample_machine_at_def set_errno_def alpm_handle_lock_def open_os_def lock_loop.simps)
  define m2 where "m2 = with_handle h m1"
  define m3 where "m3 = put_world (forget_db 0 (mworld (m_error ALPM_ERR_OK m2))) (m_error ALPM_ERR_OK m2)"
  have w: "wdbs (mworld m2) 0 = (alpm_db_new ''core'' False)\<lparr>db_path := Some ''/l/sync/core.db'', servers := [''s''], siglevel := 5120\<rparr>"
    "db_local (handle (mworld m2)) = None" "mdisk m2 = sync_fs" "pm_errno (handle (mworld m2)) = ALPM_ERR_OK"
    by (simp_all add: m2_def m1_def with_handle_def h sample_machine_at_def set_errno_def alpm_handle_new_def)
  have "\<exists>m4. sync_db_validate (ue_pgp sample_updates) 0 m3 = Some (0, m4)"
  proof -
    have flags: "\<not> has_status (wdbs (mworld m3) 0) DB_STATUS_VALID" "\<not> has_status (wdbs (mworld m3) 0) DB_STATUS_INVALID"
      "\<not> has_status (wdbs (mworld m3) 0) DB_STATUS_MISSING" using forget_flags by (simp_all add: m3_def)
    have o: "others_same {0} (mworld m2) (mworld m3)"
      using others_same_trans [OF others_same_errno forget_same] by (simp add: m3_def m_error_def)
    obtain w1 where p: "alpm_db_path (mworld m3) 0 = (''/l/sync/core.db'', w1)"
      using same_file [OF o, of 0] w by (simp add: db_path_split db_file_def)
    define m4 where "m4 = put_world (set_status DB_STATUS_EXISTS DB_STATUS_MISSING 0 w1) m3"
    have "others_same {0} (mworld m3) w1" using path_same [of 0 "mworld m3"] p by simp
    then have "others_same {0} (mworld m2) (mworld m4)"
      using others_same_trans [OF o] set_status_after [of 0 _ w1 DB_STATUS_EXISTS DB_STATUS_MISSING] by (simp add: m4_def)
    then have level: "alpm_db_get_siglevel (mworld m4) 0 = 5120"
      using same_siglevel [of "{0}" "mworld m2" "mworld m4" 0] w by (simp add: alpm_db_get_siglevel_def)
    have there: "AlpmFs.stat (mdisk m3) ''/l/sync/core.db'' \<noteq> Inl ENOENT"
      by (simp add: m3_def m_error_def w stat_def stat_node_def resolve_def components_def sync_fs_def look_def slashed_def)
    obtain st where c: "check_signatures sample_pgp ''/l/sync/core.db'' 5120 (m_pgp m4) = Some (0, st)"
      using sample_signed by blast
    then have "\<exists>m5. check_database (ue_pgp sample_updates) 0 ''/l/sync/core.db'' m4 = Some (0, m5)"
      by (simp add: check_database_def level sample_updates_def Let_def)
    then show ?thesis using flags p there by (simp add: sync_db_validate_def m4_def)
  qed
  then obtain m4 where v: "sync_db_validate (ue_pgp sample_updates) 0 m3 = Some (0, m4)" by blast
  have update_os: "ue_os sample_updates = open_os" by (simp add: sample_updates_def)
  have syncs: "syncs (mworld m2) 0" "syncs (mworld (m_error ALPM_ERR_OK m2)) 0" by (simp_all add: syncs_def w alpm_db_new_def m_error_def set_errno_def)
  have same: "m2\<lparr>mdisk := sync_fs\<rparr> = m2" using w(3) by (cases m2) simp
  have "update_locked sample_updates [0] False ''/l/sync/'' m2 = Some (0, m4)"
    using v syncs w by (simp add: update_locked_def sample_updates_def m3_def same Let_def)
  then have "\<exists>m' disk'. update_in_dir sample_updates [0] False ''/l/sync/'' m1 (if fd < 0 then {} else {''/l/db.lck''}) = Some (0, m', disk')"
    using l by (cases "alpm_handle_unlock open_os (handle (mworld m4)) disk1")
      (simp add: update_in_dir_def m2_def update_os)
  moreover have "alpm_db_update sample_updates [0] False (sample_machine_at fd) lk = update_in_dir sample_updates [0] False ''/l/sync/'' m1 lk" for lk
    using sample_dir [of fd] by (simp add: alpm_db_update_def m1_def)
  ultimately show ?thesis by simp
qed

theorem updated_databases_are_trusted_witness:
  "\<exists>m' disk'. alpm_db_update sample_updates [0] False (sample_machine_at (-1)) {} = Some (0, m', disk') \<and>
    trusted_db sample_pgp (mdisk m') (db_file (handle (mworld m')) (wdbs (mworld m') 0)) (alpm_db_get_siglevel (mworld m') 0)"
proof -
  obtain m' disk' where u: "alpm_db_update sample_updates [0] False (sample_machine_at (-1)) {} = Some (0, m', disk')"
    using sample_update [of "-1"] by auto
  have "syncs (mworld (sample_machine_at (-1))) 0" by (simp add: syncs_def sample_machine_at_def alpm_db_new_def)
  then show ?thesis using u updated_databases_are_trusted [OF u] by (auto simp: fresh_db_def sample_updates_def)
qed

text \<open>The handle has the lock for its transaction.\<close>

theorem update_gives_up_the_lock_witness:
  "\<exists>r m' disk'. alpm_db_update sample_updates [0] False (sample_machine_at 3) {''/l/db.lck''} = Some (r, m', disk') \<and>
    lockfd (handle (mworld m')) < 0 \<and> ''/l/db.lck'' \<notin> disk'"
proof -
  obtain m' disk' where u: "alpm_db_update sample_updates [0] False (sample_machine_at 3) {''/l/db.lck''} = Some (0, m', disk')"
    using sample_update [of 3] by auto
  have "lockfile (handle (mworld (sample_machine_at 3))) = Some ''/l/db.lck''" by (simp add: sample_machine_at_def)
  from update_gives_up_the_lock [OF u this] show ?thesis
    using u sample_dir [of 3] by (auto simp: sample_updates_def open_os_def sample_machine_at_def)
qed

end
