(* ===== verification/AlpmHook.thy ===== *)
theory AlpmHook
  imports AlpmTrans AlpmFs
begin

text \<open>
  Hooks (\<open>lib/libalpm/hook.c\<close>): reading and checking the hook files, matching their triggers against
  a transaction, and running them in order.
\<close>

section \<open>Hooks\<close>

abbreviation "ALPM_HOOK_OP_INSTALL \<equiv> 1 :: u32"
abbreviation "ALPM_HOOK_OP_UPGRADE \<equiv> 2 :: u32"
abbreviation "ALPM_HOOK_OP_REMOVE \<equiv> 4 :: u32"

text \<open>The values 0, for what has not been set, are constructors.\<close>

datatype trigger_type = TYPE_UNSET | ALPM_HOOK_TYPE_PACKAGE | ALPM_HOOK_TYPE_PATH

datatype alpm_hook_when = WHEN_UNSET | ALPM_HOOK_PRE_TRANSACTION | ALPM_HOOK_POST_TRANSACTION

text \<open>A line of the file without a value leaves a null pointer in a list.\<close>

record alpm_trigger_t =
  trig_op :: u32
  trig_type :: trigger_type
  trig_targets :: "string option list"

record alpm_hook_t =
  hook_name :: string
  hook_desc :: "string option"
  hook_triggers :: "alpm_trigger_t list"
  hook_depends :: "string option list"
  hook_cmd :: "string list option"
  hook_matches :: "string list"
  hook_when :: alpm_hook_when
  abort_on_fail :: bool
  needs_targets :: bool

definition new_trigger :: alpm_trigger_t where
  "new_trigger = \<lparr>trig_op = 0, trig_type = TYPE_UNSET, trig_targets = []\<rparr>"

definition new_hook :: alpm_hook_t where
  "new_hook = \<lparr>hook_name = [], hook_desc = None, hook_triggers = [], hook_depends = [], hook_cmd = None, hook_matches = [],
     hook_when = WHEN_UNSET, abort_on_fail = False, needs_targets = False\<rparr>"

section \<open>Checking\<close>

definition alpm_trigger_validate :: "alpm_trigger_t \<Rightarrow> int" where
  "alpm_trigger_validate t = (if trig_targets t = [] \<or> trig_type t = TYPE_UNSET \<or> trig_op t = 0 then -1 else 0)"

fun triggers_validate :: "alpm_trigger_t list \<Rightarrow> int \<Rightarrow> int" where
  "triggers_validate [] ret = ret"
| "triggers_validate (t # i) ret = triggers_validate i (if alpm_trigger_validate t \<noteq> 0 then -1 else ret)"

definition alpm_hook_validate :: "alpm_hook_t \<Rightarrow> int" where
  "alpm_hook_validate hook =
     (if hook_triggers hook = [] then 0
      else
        let ret = triggers_validate (hook_triggers hook) 0;
            ret = (if hook_cmd hook = None then -1 else ret)
        in if hook_when hook = WHEN_UNSET then -1 else ret)"

section \<open>Parsing\<close>

text \<open>
  What the callback is called with: the section, and the key with its value. The result is what it
  returns; \<open>None\<close> where it follows a null pointer.
\<close>

type_synonym ini_item = "string option \<times> string option \<times> string option"

definition trigger_operation :: "string \<Rightarrow> alpm_trigger_t \<Rightarrow> int \<times> alpm_trigger_t" where
  "trigger_operation v t =
     (if v = ''Install'' then (0, t\<lparr>trig_op := trig_op t OR ALPM_HOOK_OP_INSTALL\<rparr>)
      else if v = ''Upgrade'' then (0, t\<lparr>trig_op := trig_op t OR ALPM_HOOK_OP_UPGRADE\<rparr>)
      else if v = ''Remove'' then (0, t\<lparr>trig_op := trig_op t OR ALPM_HOOK_OP_REMOVE\<rparr>)
      else (1, t))"

definition trigger_kind :: "string \<Rightarrow> alpm_trigger_t \<Rightarrow> int \<times> alpm_trigger_t" where
  "trigger_kind v t =
     (if v = ''Package'' then (0, t\<lparr>trig_type := ALPM_HOOK_TYPE_PACKAGE\<rparr>)
      else if v = ''File'' then (0, t\<lparr>trig_type := ALPM_HOOK_TYPE_PATH\<rparr>)
      else if v = ''Path'' then (0, t\<lparr>trig_type := ALPM_HOOK_TYPE_PATH\<rparr>)
      else (1, t))"

definition trigger_option :: "string \<Rightarrow> string option \<Rightarrow> alpm_trigger_t \<Rightarrow> (int \<times> alpm_trigger_t) option" where
  "trigger_option key val t =
     (if key = ''Operation'' then map_option (\<lambda>v. trigger_operation v t) val
      else if key = ''Type'' then map_option (\<lambda>v. trigger_kind v t) val
      else if key = ''Target'' then Some (0, t\<lparr>trig_targets := alpm_list_add (trig_targets t) val\<rparr>)
      else Some (1, t))"

definition hook_moment :: "string \<Rightarrow> alpm_hook_t \<Rightarrow> int \<times> alpm_hook_t" where
  "hook_moment v hook =
     (if v = ''PreTransaction'' then (0, hook\<lparr>hook_when := ALPM_HOOK_PRE_TRANSACTION\<rparr>)
      else if v = ''PostTransaction'' then (0, hook\<lparr>hook_when := ALPM_HOOK_POST_TRANSACTION\<rparr>)
      else (1, hook))"

text \<open>\<open>wordsplit\<close> is the function of this name of the front end; it sets \<open>hook->cmd\<close> also when it fails.\<close>

definition action_option ::
  "(string \<Rightarrow> string list option) \<Rightarrow> string \<Rightarrow> string option \<Rightarrow> alpm_hook_t \<Rightarrow> (int \<times> alpm_hook_t) option" where
  "action_option wordsplit key val hook =
     (if key = ''When'' then map_option (\<lambda>v. hook_moment v hook) val
      else if key = ''Description'' then Some (0, hook\<lparr>hook_desc := val\<rparr>)
      else if key = ''Depends'' then Some (0, hook\<lparr>hook_depends := alpm_list_add (hook_depends hook) val\<rparr>)
      else if key = ''AbortOnFail'' then Some (0, hook\<lparr>abort_on_fail := True\<rparr>)
      else if key = ''NeedsTargets'' then Some (0, hook\<lparr>needs_targets := True\<rparr>)
      else if key = ''Exec'' then
        map_option (\<lambda>v. (if wordsplit v = None then 1 else 0, hook\<lparr>hook_cmd := wordsplit v\<rparr>)) val
      else Some (1, hook))"

definition alpm_hook_parse_cb ::
  "(string \<Rightarrow> string list option) \<Rightarrow> ini_item \<Rightarrow> alpm_hook_t \<Rightarrow> (int \<times> alpm_hook_t) option" where
  "alpm_hook_parse_cb wordsplit item hook =
     (case item of
        (None, _, _) \<Rightarrow> Some (1, hook)
      | (Some section, None, _) \<Rightarrow>
          Some (if section = ''Trigger'' then (0, hook\<lparr>hook_triggers := alpm_list_add (hook_triggers hook) new_trigger\<rparr>)
                else if section = ''Action'' then (0, hook)
                else (1, hook))
      | (Some section, Some key, val) \<Rightarrow>
          if section = ''Trigger'' then
            (if hook_triggers hook = [] then None
             else
               map_option (\<lambda>(r, t). (r, hook\<lparr>hook_triggers := butlast (hook_triggers hook) @ [t]\<rparr>))
                 (trigger_option key val (last (hook_triggers hook))))
          else if section = ''Action'' then action_option wordsplit key val hook
          else Some (0, hook))"

text \<open>The items of a file, up to one the callback refuses.\<close>

fun parse_items :: "(string \<Rightarrow> string list option) \<Rightarrow> ini_item list \<Rightarrow> int \<Rightarrow> alpm_hook_t \<Rightarrow> (int \<times> alpm_hook_t) option" where
  "parse_items wordsplit [] ret hook = Some (ret, hook)"
| "parse_items wordsplit (x # xs) ret hook =
     (case alpm_hook_parse_cb wordsplit x hook of
        None \<Rightarrow> None
      | Some (r, hook) \<Rightarrow> if r \<noteq> 0 then Some (r, hook) else parse_items wordsplit xs ret hook)"

section \<open>Matching\<close>

text \<open>The patterns from the last one on; \<open>None\<close> where one is a null pointer.\<close>

fun targets_from_last :: "(string \<Rightarrow> string \<Rightarrow> bool) \<Rightarrow> string option list \<Rightarrow> string \<Rightarrow> int option" where
  "targets_from_last fnm [] s = Some (-1)"
| "targets_from_last fnm (None # ps) s = None"
| "targets_from_last fnm (Some p # ps) s =
     (let r = fnmatch_from_last fnm [p] s in if r \<noteq> -1 then Some r else targets_from_last fnm ps s)"

definition match_targets :: "(string \<Rightarrow> string \<Rightarrow> bool) \<Rightarrow> string option list \<Rightarrow> string \<Rightarrow> int option" where
  "match_targets fnm targets s = targets_from_last fnm (rev targets) s"

fun matching :: "(string \<Rightarrow> int option) \<Rightarrow> string list \<Rightarrow> string list option" where
  "matching m [] = Some []"
| "matching m (n # ns) =
     (case m n of None \<Rightarrow> None | Some r \<Rightarrow> map_option (\<lambda>l. if r = 0 then n # l else l) (matching m ns))"

definition names_of :: "alpm_pkg_t \<Rightarrow> string list" where
  "names_of p = map fname (files p)"

definition new_names :: "(string \<Rightarrow> string \<Rightarrow> bool) \<Rightarrow> alpm_world \<Rightarrow> string list" where
  "new_names fnm w =
     filter (\<lambda>n. alpm_option_match_noextract fnm (handle w) n \<noteq> 0) (concat (map (\<lambda>p. names_of (wpkgs w p)) (tadd (transaction w))))"

definition gone_names :: "alpm_world \<Rightarrow> string list" where
  "gone_names w =
     concat (map (\<lambda>p. case oldpkg (wpkgs w p) of None \<Rightarrow> [] | Some old \<Rightarrow> names_of (wpkgs w old)) (tadd (transaction w))) @
     concat (map (\<lambda>p. names_of (wpkgs w p)) (tremove (transaction w)))"

text \<open>The names that are in both of two sorted lists are taken out of them: what is left, with what was found.\<close>

function take_common :: "string list \<Rightarrow> string list \<Rightarrow> string list \<times> string list \<times> string list" where
  "take_common [] rs = ([], [], rs)"
| "take_common (i # is) rs =
     (case dropWhile (\<lambda>j. strcmp i j > 0) rs of
        [] \<Rightarrow> (i # is, [], rs)
      | j # js \<Rightarrow>
          let before = takeWhile (\<lambda>j. strcmp i j > 0) rs
          in if strcmp i j = 0 then
               let (install, upgrade, remove) = take_common (dropWhile (\<lambda>x. strcmp x i = 0) is) (dropWhile (\<lambda>x. strcmp x i = 0) js)
               in (install, i # upgrade, before @ remove)
             else
               let (install, upgrade, remove) = take_common is (j # js)
               in (i # install, upgrade, before @ remove))"
  by pat_completeness auto
termination
  by (relation "measure (\<lambda>(is, _). length is)") (auto simp: less_Suc_eq_le length_dropWhile_le)

definition save_matches :: "u32 \<Rightarrow> string list \<times> string list \<times> string list \<Rightarrow> string list" where
  "save_matches op l =
     (case l of
        (install, upgrade, remove) \<Rightarrow>
          (if op AND ALPM_HOOK_OP_INSTALL \<noteq> 0 then install else []) @ (if op AND ALPM_HOOK_OP_UPGRADE \<noteq> 0 then upgrade else []) @
          (if op AND ALPM_HOOK_OP_REMOVE \<noteq> 0 then remove else []))"

definition match_file ::
  "(string \<Rightarrow> string \<Rightarrow> bool) \<Rightarrow> alpm_world \<Rightarrow> alpm_hook_t \<Rightarrow> alpm_trigger_t \<Rightarrow> (bool \<times> alpm_hook_t) option" where
  "match_file fnm w hook t =
     (case (matching (match_targets fnm (trig_targets t)) (new_names fnm w), matching (match_targets fnm (trig_targets t)) (gone_names w)) of
        (Some install, Some remove) \<Rightarrow>
          let install = alpm_list_msort strcmp (length install) install;
              remove = alpm_list_msort strcmp (length remove) remove;
              matches = save_matches (trig_op t) (take_common install remove)
          in Some (matches \<noteq> [], if needs_targets hook then hook\<lparr>hook_matches := hook_matches hook @ matches\<rparr> else hook)
      | _ \<Rightarrow> None)"

text \<open>
  The loops of the packages: without \<open>NeedsTargets\<close> the first match ends them. The result has the names of
  the two lists; the flag says whether it was ended.
\<close>

fun match_adds ::
  "(string \<Rightarrow> int option) \<Rightarrow> pkgs \<Rightarrow> u32 \<Rightarrow> bool \<Rightarrow> pkgref list \<Rightarrow> string list \<Rightarrow> string list \<Rightarrow> (bool \<times> string list \<times> string list) option" where
  "match_adds m ps op needs [] install upgrade = Some (False, install, upgrade)"
| "match_adds m ps op needs (p # i) install upgrade =
     (case m (pname (ps p)) of
        None \<Rightarrow> None
      | Some r \<Rightarrow>
          if r \<noteq> 0 then match_adds m ps op needs i install upgrade
          else if oldpkg (ps p) \<noteq> None then
            (if op AND ALPM_HOOK_OP_UPGRADE = 0 then match_adds m ps op needs i install upgrade
             else if needs then match_adds m ps op needs i install (alpm_list_add upgrade (pname (ps p)))
             else Some (True, install, upgrade))
          else
            (if op AND ALPM_HOOK_OP_INSTALL = 0 then match_adds m ps op needs i install upgrade
             else if needs then match_adds m ps op needs i (alpm_list_add install (pname (ps p))) upgrade
             else Some (True, install, upgrade)))"

fun match_removes ::
  "(string \<Rightarrow> int option) \<Rightarrow> pkgs \<Rightarrow> pkgref list \<Rightarrow> bool \<Rightarrow> pkgref list \<Rightarrow> string list \<Rightarrow> (bool \<times> string list) option" where
  "match_removes m ps adds needs [] remove = Some (False, remove)"
| "match_removes m ps adds needs (p # i) remove =
     (case m (pname (ps p)) of
        None \<Rightarrow> None
      | Some r \<Rightarrow>
          if r \<noteq> 0 \<or> (\<exists>q\<in>set adds. alpm_pkg_cmp ps p q = 0) then match_removes m ps adds needs i remove
          else if needs then match_removes m ps adds needs i (alpm_list_add remove (pname (ps p)))
          else Some (True, remove))"

definition match_pkg ::
  "(string \<Rightarrow> string \<Rightarrow> bool) \<Rightarrow> alpm_world \<Rightarrow> alpm_hook_t \<Rightarrow> alpm_trigger_t \<Rightarrow> (bool \<times> alpm_hook_t) option" where
  "match_pkg fnm w hook t =
     (let m = match_targets fnm (trig_targets t); op = trig_op t; needs = needs_targets hook; tr = transaction w
      in case (if op AND ALPM_HOOK_OP_INSTALL \<noteq> 0 \<or> op AND ALPM_HOOK_OP_UPGRADE \<noteq> 0
               then match_adds m (wpkgs w) op needs (tadd tr) [] [] else Some (False, [], [])) of
           None \<Rightarrow> None
         | Some (True, _) \<Rightarrow> Some (True, hook)
         | Some (False, install, upgrade) \<Rightarrow>
             (case (if op AND ALPM_HOOK_OP_REMOVE \<noteq> 0 then match_removes m (wpkgs w) (tadd tr) needs (tremove tr) [] else Some (False, [])) of
                None \<Rightarrow> None
              | Some (True, _) \<Rightarrow> Some (True, hook)
              | Some (False, remove) \<Rightarrow>
                  Some (install \<noteq> [] \<or> upgrade \<noteq> [] \<or> remove \<noteq> [], hook\<lparr>hook_matches := hook_matches hook @ install @ upgrade @ remove\<rparr>)))"

definition alpm_hook_trigger_match ::
  "(string \<Rightarrow> string \<Rightarrow> bool) \<Rightarrow> alpm_world \<Rightarrow> alpm_hook_t \<Rightarrow> alpm_trigger_t \<Rightarrow> (bool \<times> alpm_hook_t) option" where
  "alpm_hook_trigger_match fnm w hook t = (if trig_type t = ALPM_HOOK_TYPE_PACKAGE then match_pkg fnm w hook t else match_file fnm w hook t)"

fun triggers_match ::
  "(string \<Rightarrow> string \<Rightarrow> bool) \<Rightarrow> alpm_world \<Rightarrow> alpm_trigger_t list \<Rightarrow> bool \<Rightarrow> alpm_hook_t \<Rightarrow> (bool \<times> alpm_hook_t) option" where
  "triggers_match fnm w [] ret hook = Some (ret, hook)"
| "triggers_match fnm w (t # i) ret hook =
     (case alpm_hook_trigger_match fnm w hook t of
        None \<Rightarrow> None
      | Some (r, hook) \<Rightarrow>
          if r \<and> \<not> needs_targets hook then Some (True, hook) else triggers_match fnm w i (ret \<or> r) hook)"

definition alpm_hook_triggered :: "(string \<Rightarrow> string \<Rightarrow> bool) \<Rightarrow> alpm_world \<Rightarrow> alpm_hook_t \<Rightarrow> (bool \<times> alpm_hook_t) option" where
  "alpm_hook_triggered fnm w hook = triggers_match fnm w (hook_triggers hook) False hook"

section \<open>Reading the hook directories\<close>

text \<open>
  What reads a hook file is an argument: the items with the result of \<open>parse_ini\<close> when no item is refused. The
  effect of a command, with what is written to its standard input, is another one.
\<close>

record hook_env =
  he_ini :: "filesys \<Rightarrow> string \<Rightarrow> ini_item list \<times> int"
  he_wordsplit :: "string \<Rightarrow> string list option"
  he_fnmatch :: "string \<Rightarrow> string \<Rightarrow> bool"
  he_run :: "string list \<Rightarrow> string option \<Rightarrow> filesys \<Rightarrow> int \<times> filesys"

abbreviation "ALPM_HOOK_SUFFIX \<equiv> ''.hook''"

definition stem :: "string \<Rightarrow> string" where
  "stem name = take (length name - length ALPM_HOOK_SUFFIX) name"

definition is_hook_name :: "string \<Rightarrow> bool" where
  "is_hook_name name \<longleftrightarrow> length ALPM_HOOK_SUFFIX \<le> length name \<and> drop (length name - length ALPM_HOOK_SUFFIX) name = ALPM_HOOK_SUFFIX"

definition find_hook :: "alpm_hook_t list \<Rightarrow> string \<Rightarrow> alpm_hook_t option" where
  "find_hook haystack needle = List.find (\<lambda>h. strcmp (hook_name h) needle = 0) haystack"

text \<open>One entry of a directory: whether it could be read, and the hook of it, if it has one.\<close>

definition read_hook ::
  "hook_env \<Rightarrow> filesys \<Rightarrow> string \<Rightarrow> string \<Rightarrow> alpm_hook_t list \<Rightarrow> (bool \<times> alpm_hook_t option) option" where
  "read_hook env fs dir name hooks =
     (if length name \<ge> PATH_MAX - length dir then Some (False, None)
      else if \<not> is_hook_name name then Some (True, None)
      else if find_hook hooks name \<noteq> None then Some (True, None)
      else
        (case AlpmFs.stat fs (dir @ name) of
           Inl _ \<Rightarrow> Some (False, None)
         | Inr (_, n) \<Rightarrow>
             if n = Dir then Some (True, None)
             else
               (case parse_items (he_wordsplit env) (fst (he_ini env fs (dir @ name))) (snd (he_ini env fs (dir @ name))) new_hook of
                  None \<Rightarrow> None
                | Some (r, hook) \<Rightarrow>
                    if r \<noteq> 0 \<or> alpm_hook_validate hook \<noteq> 0 then Some (False, None)
                    else Some (True, Some (hook\<lparr>hook_name := name\<rparr>)))))"

fun read_entries :: "hook_env \<Rightarrow> filesys \<Rightarrow> string \<Rightarrow> string list \<Rightarrow> int \<Rightarrow> alpm_hook_t list \<Rightarrow> (int \<times> alpm_hook_t list) option" where
  "read_entries env fs dir [] ret hooks = Some (ret, hooks)"
| "read_entries env fs dir (name # ns) ret hooks =
     (case read_hook env fs dir name hooks of
        None \<Rightarrow> None
      | Some (good, found) \<Rightarrow>
          read_entries env fs dir ns (if good then ret else -1)
            (case found of None \<Rightarrow> hooks | Some h \<Rightarrow> alpm_list_add hooks h))"

text \<open>The directories from the last one on.\<close>

fun read_dirs :: "hook_env \<Rightarrow> filesys \<Rightarrow> string list \<Rightarrow> int \<Rightarrow> alpm_hook_t list \<Rightarrow> (int \<times> alpm_hook_t list) option" where
  "read_dirs env fs [] ret hooks = Some (ret, hooks)"
| "read_dirs env fs (dir # i) ret hooks =
     (if length dir \<ge> PATH_MAX then read_dirs env fs i (-1) hooks
      else
        (case opendir fs dir of
           Inl e \<Rightarrow> read_dirs env fs i (if e = ENOENT then ret else -1) hooks
         | Inr ns \<Rightarrow>
             (case read_entries env fs dir ns ret hooks of
                None \<Rightarrow> None
              | Some (ret, hooks) \<Rightarrow> read_dirs env fs i ret hooks)))"

section \<open>Running\<close>

definition alpm_hook_cmp :: "alpm_hook_t \<Rightarrow> alpm_hook_t \<Rightarrow> int" where
  "alpm_hook_cmp h1 h2 =
     (let l1 = length (hook_name h1) - length ALPM_HOOK_SUFFIX; l2 = length (hook_name h2) - length ALPM_HOOK_SUFFIX;
          n = (if l1 \<le> l2 then l1 else l2);
          ret = strcmp (take n (hook_name h1)) (take n (hook_name h2))
      in if ret = 0 \<and> l1 \<noteq> l2 then (if l1 < l2 then -1 else 1) else ret)"

text \<open>What the command gets is asked for in pieces of at most \<open>needed\<close> bytes.\<close>

fun alpm_hook_feed_targets :: "nat \<Rightarrow> string list \<Rightarrow> string \<times> string list" where
  "alpm_hook_feed_targets needed [] = ([], [])"
| "alpm_hook_feed_targets needed (s # pos) =
     (if length s + 1 \<le> needed then
        (let (written, rest) = alpm_hook_feed_targets (needed - (length s + 1)) pos in (s @ [CHR 0x0A] @ written, rest))
      else (take needed s, drop needed s # pos))"

definition feed_text :: "string list \<Rightarrow> string" where
  "feed_text l = concat (map (\<lambda>s. s @ [CHR 0x0A]) l)"

function alpm_strlist_dedup :: "string list \<Rightarrow> string list" where
  "alpm_strlist_dedup [] = []"
| "alpm_strlist_dedup (s # i) = s # alpm_strlist_dedup (dropWhile (\<lambda>x. strcmp s x = 0) i)"
  by pat_completeness auto
termination
  by (relation "measure length") (auto simp: less_Suc_eq_le length_dropWhile_le)

definition hook_input :: "alpm_hook_t \<Rightarrow> string option" where
  "hook_input hook =
     (if needs_targets hook
      then Some (feed_text (alpm_strlist_dedup (alpm_list_msort strcmp (length (hook_matches hook)) (hook_matches hook)))) else None)"

definition alpm_hook_run_hook :: "hook_env \<Rightarrow> alpm_world \<Rightarrow> alpm_hook_t \<Rightarrow> filesys \<Rightarrow> (int \<times> filesys) option" where
  "alpm_hook_run_hook env w hook fs =
     (if \<exists>dep\<in>set (hook_depends hook). alpm_find_satisfier (wpkgs w) (cached_pkgs w (db_local (handle w))) dep = None then Some (-1, fs)
      else map_option (\<lambda>cmd. he_run env cmd (hook_input hook) fs) (hook_cmd hook))"

fun triggered_hooks :: "hook_env \<Rightarrow> alpm_hook_when \<Rightarrow> alpm_world \<Rightarrow> alpm_hook_t list \<Rightarrow> alpm_hook_t list option" where
  "triggered_hooks env when w [] = Some []"
| "triggered_hooks env when w (h # i) =
     (if hook_when h \<noteq> when then triggered_hooks env when w i
      else
        (case alpm_hook_triggered (he_fnmatch env) w h of
           None \<Rightarrow> None
         | Some (r, h) \<Rightarrow> map_option (\<lambda>l. if r then h # l else l) (triggered_hooks env when w i)))"

text \<open>The result, the disk, and the hooks that the log says were run.\<close>

fun run_hooks ::
  "hook_env \<Rightarrow> alpm_hook_when \<Rightarrow> alpm_world \<Rightarrow> alpm_hook_t list \<Rightarrow> int \<Rightarrow> filesys \<Rightarrow> (int \<times> filesys \<times> alpm_hook_t list) option" where
  "run_hooks env when w [] ret fs = Some (ret, fs, [])"
| "run_hooks env when w (h # i) ret fs =
     (case alpm_hook_run_hook env w h fs of
        None \<Rightarrow> None
      | Some (r, fs) \<Rightarrow>
          let ret = (if r \<noteq> 0 \<and> abort_on_fail h then -1 else ret)
          in if ret \<noteq> 0 \<and> when = ALPM_HOOK_PRE_TRANSACTION then Some (ret, fs, [h])
             else map_option (\<lambda>(r, fs, started). (r, fs, h # started)) (run_hooks env when w i ret fs))"

definition alpm_hook_run ::
  "hook_env \<Rightarrow> alpm_hook_when \<Rightarrow> alpm_world \<Rightarrow> filesys \<Rightarrow> (int \<times> filesys \<times> alpm_hook_t list) option" where
  "alpm_hook_run env when w fs =
     (case read_dirs env fs (rev (hookdirs (handle w))) 0 [] of
        None \<Rightarrow> None
      | Some (ret, hooks) \<Rightarrow>
          if ret \<noteq> 0 \<and> when = ALPM_HOOK_PRE_TRANSACTION then Some (ret, fs, [])
          else
            (case triggered_hooks env when w (alpm_list_msort alpm_hook_cmp (length hooks) hooks) of
               None \<Rightarrow> None
             | Some triggered \<Rightarrow> run_hooks env when w triggered ret fs))"

section \<open>The order of the hooks\<close>

lemma strcmp_by_prefix:
  "strcmp a b =
     (if strcmp (take (length b) a) (take (length a) b) = 0 then (if length a < length b then -1 else if length b < length a then 1 else 0)
      else strcmp (take (length b) a) (take (length a) b))"
proof (induction a arbitrary: b)
  case Nil
  then show ?case by (cases b) simp_all
next
  case (Cons x a)
  show ?case
  proof (cases b)
    case (Cons y b')
    then show ?thesis using Cons.IH [of b'] by simp
  qed simp
qed

lemma strcmp_stems:
  "(let l1 = length a - k; l2 = length b - k; n = (if l1 \<le> l2 then l1 else l2); ret = strcmp (take n a) (take n b)
    in if ret = 0 \<and> l1 \<noteq> l2 then (if l1 < l2 then -1 else 1) else ret) = strcmp (take (length a - k) a) (take (length b - k) b)"
proof -
  define l1 l2 n where "l1 = length a - k" and "l2 = length b - k" and "n = (if l1 \<le> l2 then l1 else l2)"
  have len: "length (take l1 a) = l1" "length (take l2 b) = l2" by (simp_all add: l1_def l2_def)
  have "take l2 (take l1 a) = take n a" "take l1 (take l2 b) = take n b" by (auto simp: n_def min_def)
  then have "strcmp (take l1 a) (take l2 b) =
      (if strcmp (take n a) (take n b) = 0 then (if l1 < l2 then -1 else if l2 < l1 then 1 else 0) else strcmp (take n a) (take n b))"
    using strcmp_by_prefix [of "take l1 a" "take l2 b"] unfolding len by (simp del: take_take)
  then show ?thesis unfolding Let_def l1_def [symmetric] l2_def [symmetric] n_def [symmetric] by (cases l1 l2 rule: linorder_cases) simp_all
qed

lemma hook_cmp_stem: "alpm_hook_cmp h1 h2 = strcmp (stem (hook_name h1)) (stem (hook_name h2))"
  unfolding alpm_hook_cmp_def stem_def by (rule strcmp_stems)

interpretation hook_cmp: comparator alpm_hook_cmp
  by unfold_locales (auto simp: hook_cmp_stem strcmp_cmp3)

lemma stem_inj: "is_hook_name a \<Longrightarrow> is_hook_name b \<Longrightarrow> stem a = stem b \<Longrightarrow> a = b"
  unfolding is_hook_name_def stem_def by (metis append_take_drop_id)

section \<open>What a command gets\<close>

text \<open>However it is asked for, the text of the targets arrives as it is.\<close>

lemma feed_conserves:
  "alpm_hook_feed_targets needed l = (written, rest) \<Longrightarrow>
   written @ feed_text rest = feed_text l \<and> length written = min needed (length (feed_text l))"
proof (induction l arbitrary: needed written rest)
  case (Cons s l)
  show ?case
  proof (cases "length s + 1 \<le> needed")
    case True
    obtain w r where r: "alpm_hook_feed_targets (needed - (length s + 1)) l = (w, r)" by fastforce
    then have "written = s @ [CHR 0x0A] @ w" "rest = r" using Cons.prems True by simp_all
    then show ?thesis using Cons.IH [OF r] True by (simp add: feed_text_def)
  next
    case False
    then have "written = take needed s" "rest = drop needed s # l" using Cons.prems by simp_all
    then show ?thesis using False by (simp add: feed_text_def)
  qed
qed (simp add: feed_text_def)

lemma dedup_set: "set (alpm_strlist_dedup l) = set l"
proof (induction l rule: alpm_strlist_dedup.induct)
  case (2 s i)
  have "set i \<subseteq> insert s (set (dropWhile (\<lambda>x. strcmp s x = 0) i))"
    by (induction i) (auto simp: strcmp_cmp3)
  moreover have "set (dropWhile (\<lambda>x. strcmp s x = 0) i) \<subseteq> set i" using set_dropWhileD by fastforce
  ultimately show ?case using 2 by auto
qed simp

lemma dropWhile_same_sorted: "sorted (s # i) \<Longrightarrow> s \<notin> set (dropWhile (\<lambda>x. strcmp s x = 0) i)"
proof (induction i)
  case (Cons x i)
  then show ?case by (cases "s = x") (auto simp: strcmp_cmp3)
qed simp

lemma dedup_sorted: "sorted l \<Longrightarrow> sorted (alpm_strlist_dedup l) \<and> distinct (alpm_strlist_dedup l)"
proof (induction l rule: alpm_strlist_dedup.induct)
  case (2 s i)
  have "sorted (dropWhile (\<lambda>x. strcmp s x = 0) i)" using 2(2) by (simp add: sorted_dropWhile)
  moreover have "\<forall>x\<in>set (dropWhile (\<lambda>x. strcmp s x = 0) i). s \<le> x" using 2(2) by (auto dest: set_dropWhileD)
  ultimately show ?case using 2 dropWhile_same_sorted [OF 2(2)] by (simp add: dedup_set)
qed simp

section \<open>What a trigger is for\<close>

lemma matching_filter: "matching m ns = Some l \<Longrightarrow> l = filter (\<lambda>n. m n = Some 0) ns"
  by (induction ns arbitrary: l) (auto split: option.splits if_splits)

lemma dropWhile_equal: "sorted l \<Longrightarrow> \<forall>x\<in>set l. i \<le> x \<Longrightarrow> dropWhile (\<lambda>x. x = i) l = filter (\<lambda>x. x \<noteq> i) l"
proof (induction l)
  case (Cons y l)
  show ?case
  proof (cases "y = i")
    case True
    then show ?thesis using Cons by simp
  next
    case False
    then have "\<forall>x\<in>set l. x \<noteq> i" using Cons.prems by (auto simp: order.antisym)
    then show ?thesis using False by simp
  qed
qed simp

lemma split_below: "sorted l \<Longrightarrow> takeWhile (\<lambda>j. j < i) l = filter (\<lambda>j. j < i) l \<and> dropWhile (\<lambda>j. j < i) l = filter (\<lambda>j. i \<le> j) l"
proof (induction l)
  case (Cons y l)
  show ?case
  proof (cases "y < i")
    case True
    then show ?thesis using Cons by simp
  next
    case False
    then have "\<forall>x\<in>set l. i \<le> x" using Cons.prems by auto
    then have "filter (\<lambda>j. j < i) l = []" "filter (\<lambda>j. i \<le> j) l = l" by (auto simp: filter_empty_conv not_less)
    then show ?thesis using False by simp
  qed
qed simp

text \<open>The two lists without what they have in common.\<close>

lemma take_common_spec:
  assumes "sorted is" "sorted rs" "take_common is rs = (a, u, r)"
  shows "a = filter (\<lambda>x. x \<notin> set rs) is \<and> set u = set is \<inter> set rs \<and> r = filter (\<lambda>x. x \<notin> set is) rs"
  using assms
proof (induction "length is" arbitrary: "is" rs a u r rule: less_induct)
  case less
  show ?case
  proof (cases "is")
    case Nil
    then show ?thesis using less.prems by simp
  next
    case (Cons i is')
    have less': "(strcmp i j > 0) = (j < i)" for j by (simp add: strcmp_cmp3)
    have same: "(strcmp x i = 0) = (x = i)" for x by (simp add: strcmp_cmp3)
    define before after where "before = filter (\<lambda>j. j < i) rs" and "after = filter (\<lambda>j. i \<le> j) rs"
    have parts: "takeWhile (\<lambda>j. j < i) rs = before" "dropWhile (\<lambda>j. j < i) rs = after"
      using split_below [OF less.prems(2), of i] by (simp_all add: before_def after_def)
    have rs: "rs = before @ after" using takeWhile_dropWhile_id [of "\<lambda>j. j < i" rs] parts by simp
    have above: "\<forall>x\<in>set is'. i \<le> x" "sorted is'" using less.prems(1) Cons by simp_all
    have out: "\<forall>x\<in>set before. x \<notin> set is" using above Cons by (auto simp: before_def)
    have run: "(case after of [] \<Rightarrow> (is, [], rs)
      | j # js \<Rightarrow> if j = i then (case take_common (dropWhile (\<lambda>x. x = i) is') (dropWhile (\<lambda>x. x = i) js) of (x, y, z) \<Rightarrow> (x, i # y, before @ z))
          else (case take_common is' after of (x, y, z) \<Rightarrow> (i # x, y, before @ z))) = (a, u, r)"
      using less.prems(3) unfolding Cons
      by (cases after) (simp_all add: less' same parts Let_def eq_commute [of i] strcmp_cmp3 split: prod.splits if_splits)
    have sa: "sorted after" using less.prems(2) by (simp add: after_def sorted_wrt_filter)
    show ?thesis
    proof (cases after)
      case Nil
      then have "set rs \<inter> set is = {}" using out rs by auto
      then have "filter (\<lambda>x. x \<notin> set rs) is = is" "filter (\<lambda>x. x \<notin> set is) rs = rs" by (auto simp: filter_id_conv)
      then show ?thesis using run Nil \<open>set rs \<inter> set is = {}\<close> by auto
    next
      case after: (Cons j js)
      then have "j \<in> set (filter (\<lambda>j. i \<le> j) rs)" by (simp add: after_def)
      then have ij: "i \<le> j" by simp
      show ?thesis
      proof (cases "j = i")
        case True
        define is2 js2 where "is2 = filter (\<lambda>x. x \<noteq> i) is'" and "js2 = filter (\<lambda>x. x \<noteq> i) js"
        have drops: "dropWhile (\<lambda>x. x = i) is' = is2" "dropWhile (\<lambda>x. x = i) js = js2"
          using dropWhile_equal [of is' i] dropWhile_equal [of js i] above sa after True by (auto simp: is2_def js2_def)
        obtain x y z where t: "take_common is2 js2 = (x, y, z)" by (metis surj_pair)
        have "length is2 < length is" using Cons by (simp add: is2_def less_Suc_eq_le)
        moreover have "sorted is2" "sorted js2" using above(2) sa after by (simp_all add: is2_def js2_def sorted_wrt_filter)
        ultimately have IH: "x = filter (\<lambda>e. e \<notin> set js2) is2" "set y = set is2 \<inter> set js2" "z = filter (\<lambda>e. e \<notin> set is2) js2"
          using less.hyps t by blast+
        have res: "a = x" "u = i # y" "r = before @ z" using run after True drops t by simp_all
        have "\<forall>e\<in>set is2. (e \<in> set rs) = (e \<in> set js2)" using out rs after Cons by (auto simp: is2_def js2_def True)
        then have "a = filter (\<lambda>e. e \<notin> set rs) is" using res IH Cons rs after True by (auto simp: is2_def intro!: filter_cong)
        moreover have "set u = set is \<inter> set rs" using res IH Cons rs after True out by (auto simp: is2_def js2_def)
        moreover have "r = filter (\<lambda>e. e \<notin> set is) rs"
          using res IH Cons rs after True out by (auto simp: is2_def js2_def intro!: filter_cong)
        ultimately show ?thesis by simp
      next
        case False
        obtain x y z where t: "take_common is' after = (x, y, z)" by (metis surj_pair)
        have IH: "x = filter (\<lambda>e. e \<notin> set after) is'" "set y = set is' \<inter> set after" "z = filter (\<lambda>e. e \<notin> set is') after"
          using less.hyps [of is' after x y z] t above(2) sa Cons by simp_all
        have res: "a = i # x" "u = y" "r = before @ z" using run after False t by simp_all
        have i: "i \<notin> set after" using False ij sa after by auto
        have "a = filter (\<lambda>e. e \<notin> set rs) is" using res IH Cons rs i out by (auto intro!: filter_cong)
        moreover have "set u = set is \<inter> set rs" using res IH Cons rs i out by auto
        moreover have "r = filter (\<lambda>e. e \<notin> set is) rs"
        proof -
          have "filter (\<lambda>e. e \<notin> set is) before = before" using out by (auto simp: filter_id_conv)
          moreover have "filter (\<lambda>e. e \<notin> set is) after = z" using IH Cons i by (auto intro!: filter_cong)
          ultimately show ?thesis using res rs by simp
        qed
        ultimately show ?thesis by simp
      qed
    qed
  qed
qed

text \<open>The names a trigger is for: the packages or the files that the transaction installs, upgrades or removes.\<close>

definition affects :: "(string \<Rightarrow> string \<Rightarrow> bool) \<Rightarrow> alpm_world \<Rightarrow> alpm_trigger_t \<Rightarrow> string \<Rightarrow> bool" where
  "affects fnm w t n \<longleftrightarrow>
     match_targets fnm (trig_targets t) n = Some 0 \<and>
     (if trig_type t = ALPM_HOOK_TYPE_PACKAGE then
        (\<exists>p\<in>set (tadd (transaction w)). pname (wpkgs w p) = n \<and>
           (if oldpkg (wpkgs w p) = None then trig_op t AND ALPM_HOOK_OP_INSTALL \<noteq> 0 else trig_op t AND ALPM_HOOK_OP_UPGRADE \<noteq> 0)) \<or>
        trig_op t AND ALPM_HOOK_OP_REMOVE \<noteq> 0 \<and>
          (\<exists>p\<in>set (tremove (transaction w)). pname (wpkgs w p) = n) \<and> \<not> (\<exists>p\<in>set (tadd (transaction w)). pname (wpkgs w p) = n)
      else
        trig_op t AND ALPM_HOOK_OP_INSTALL \<noteq> 0 \<and> n \<in> set (new_names fnm w) \<and> n \<notin> set (gone_names w) \<or>
        trig_op t AND ALPM_HOOK_OP_UPGRADE \<noteq> 0 \<and> n \<in> set (new_names fnm w) \<and> n \<in> set (gone_names w) \<or>
        trig_op t AND ALPM_HOOK_OP_REMOVE \<noteq> 0 \<and> n \<notin> set (new_names fnm w) \<and> n \<in> set (gone_names w))"

definition add_hit :: "(string \<Rightarrow> int option) \<Rightarrow> pkgs \<Rightarrow> u32 \<Rightarrow> pkgref \<Rightarrow> bool" where
  "add_hit m ps op p \<longleftrightarrow> m (pname (ps p)) = Some 0 \<and>
    (if oldpkg (ps p) = None then op AND ALPM_HOOK_OP_INSTALL \<noteq> 0 else op AND ALPM_HOOK_OP_UPGRADE \<noteq> 0)"

definition remove_hit :: "(string \<Rightarrow> int option) \<Rightarrow> pkgs \<Rightarrow> pkgref list \<Rightarrow> pkgref \<Rightarrow> bool" where
  "remove_hit m ps adds p \<longleftrightarrow> m (pname (ps p)) = Some 0 \<and> \<not> (\<exists>q\<in>set adds. pname (ps q) = pname (ps p))"

lemma match_adds_step:
  assumes "match_adds m ps op needs (p # l) i0 u0 = Some res"
  shows "add_hit m ps op p \<and> \<not> needs \<and> res = (True, i0, u0) \<or>
    add_hit m ps op p \<and> needs \<and> (\<exists>i u. set i \<union> set u = insert (pname (ps p)) (set i0 \<union> set u0) \<and> match_adds m ps op needs l i u = Some res) \<or>
    \<not> add_hit m ps op p \<and> match_adds m ps op needs l i0 u0 = Some res"
proof (cases "add_hit m ps op p")
  case True
  then have "match_adds m ps op needs (p # l) i0 u0 =
      (if \<not> needs then Some (True, i0, u0)
       else if oldpkg (ps p) = None then match_adds m ps op needs l (alpm_list_add i0 (pname (ps p))) u0
       else match_adds m ps op needs l i0 (alpm_list_add u0 (pname (ps p))))"
    by (auto simp: add_hit_def split: if_splits)
  note run = assms [unfolded this]
  show ?thesis
  proof (cases needs)
    case False
    then show ?thesis using run True by simp
  next
    case needed: True
    have "\<exists>i u. set i \<union> set u = insert (pname (ps p)) (set i0 \<union> set u0) \<and> match_adds m ps op needs l i u = Some res"
    proof (cases "oldpkg (ps p)")
      case None
      then show ?thesis
        using run needed by (intro exI [of _ "alpm_list_add i0 (pname (ps p))"] exI [of _ u0]) auto
    next
      case Some
      then show ?thesis
        using run needed by (intro exI [of _ i0] exI [of _ "alpm_list_add u0 (pname (ps p))"]) auto
    qed
    then show ?thesis using True needed by blast
  qed
next
  case False
  then have "match_adds m ps op needs (p # l) i0 u0 = (case m (pname (ps p)) of None \<Rightarrow> None | Some _ \<Rightarrow> match_adds m ps op needs l i0 u0)"
    by (auto simp: add_hit_def split: option.splits if_splits)
  then show ?thesis using assms False by (auto split: option.splits)
qed

lemma match_adds_spec:
  assumes "match_adds m ps op needs l i0 u0 = Some (b, i1, u1)"
  shows "if needs then \<not> b \<and> set i1 \<union> set u1 = set i0 \<union> set u0 \<union> (\<lambda>p. pname (ps p)) ` {p \<in> set l. add_hit m ps op p}
    else i1 = i0 \<and> u1 = u0 \<and> b = (\<exists>p\<in>set l. add_hit m ps op p)"
  using assms
proof (induction l arbitrary: i0 u0)
  case (Cons p l)
  have split: "(\<lambda>p. pname (ps p)) ` {q \<in> set (p # l). add_hit m ps op q} =
      (if add_hit m ps op p then {pname (ps p)} else {}) \<union> (\<lambda>p. pname (ps p)) ` {q \<in> set l. add_hit m ps op q}" by auto
  show ?case
  proof (cases needs)
    case True
    show ?thesis using match_adds_step [OF Cons.prems] Cons.IH True unfolding split by auto blast+
  next
    case False
    show ?thesis using match_adds_step [OF Cons.prems] Cons.IH [of i0 u0] False by auto
  qed
qed (auto split: if_splits)

lemma match_removes_step:
  assumes "match_removes m ps adds needs (p # l) r0 = Some res"
  shows "remove_hit m ps adds p \<and> \<not> needs \<and> res = (True, r0) \<or>
    remove_hit m ps adds p \<and> needs \<and> match_removes m ps adds needs l (alpm_list_add r0 (pname (ps p))) = Some res \<or>
    \<not> remove_hit m ps adds p \<and> match_removes m ps adds needs l r0 = Some res"
proof -
  have cmp: "(alpm_pkg_cmp ps p q = 0) = (pname (ps q) = pname (ps p))" for q by (auto simp: alpm_pkg_cmp_def strcmp_cmp3)
  show ?thesis using assms by (auto simp: remove_hit_def cmp split: option.splits if_splits)
qed

lemma match_removes_spec:
  assumes "match_removes m ps adds needs l r0 = Some (b, r1)"
  shows "if needs then \<not> b \<and> set r1 = set r0 \<union> (\<lambda>p. pname (ps p)) ` {p \<in> set l. remove_hit m ps adds p}
    else r1 = r0 \<and> b = (\<exists>p\<in>set l. remove_hit m ps adds p)"
  using assms
proof (induction l arbitrary: r0)
  case (Cons p l)
  have split: "(\<lambda>p. pname (ps p)) ` {q \<in> set (p # l). remove_hit m ps adds q} =
      (if remove_hit m ps adds p then {pname (ps p)} else {}) \<union> (\<lambda>p. pname (ps p)) ` {q \<in> set l. remove_hit m ps adds q}" by auto
  show ?case
  proof (cases needs)
    case True
    show ?thesis using match_removes_step [OF Cons.prems] Cons.IH True unfolding split by auto
  next
    case False
    show ?thesis using match_removes_step [OF Cons.prems] Cons.IH [of r0] False by auto
  qed
qed (auto split: if_splits)

lemma affects_pkg:
  assumes "trig_type t = ALPM_HOOK_TYPE_PACKAGE"
  shows "{n. affects fnm w t n} = (\<lambda>p. pname (wpkgs w p)) ` {p \<in> set (tadd (transaction w)). add_hit (match_targets fnm (trig_targets t)) (wpkgs w) (trig_op t) p} \<union>
    (if trig_op t AND ALPM_HOOK_OP_REMOVE \<noteq> 0
     then (\<lambda>p. pname (wpkgs w p)) ` {p \<in> set (tremove (transaction w)). remove_hit (match_targets fnm (trig_targets t)) (wpkgs w) (tadd (transaction w)) p} else {})"
  using assms by (auto simp: affects_def add_hit_def remove_hit_def image_iff)

text \<open>What matching one trigger gives, and what it does to the hook.\<close>

definition match_result :: "string set \<Rightarrow> alpm_hook_t \<Rightarrow> bool \<times> alpm_hook_t \<Rightarrow> bool" where
  "match_result N hook res \<longleftrightarrow> fst res = (N \<noteq> {}) \<and> snd res = hook\<lparr>hook_matches := hook_matches (snd res)\<rparr> \<and>
     (if needs_targets hook then set (hook_matches (snd res)) = set (hook_matches hook) \<union> N
      else hook_matches (snd res) = hook_matches hook)"

lemma match_pkg_spec:
  assumes "trig_type t = ALPM_HOOK_TYPE_PACKAGE" "match_pkg fnm w hook t = Some res"
  shows "match_result {n. affects fnm w t n} hook res"
proof -
  define m op where "m = match_targets fnm (trig_targets t)" and "op = trig_op t"
  define A where "A = {p \<in> set (tadd (transaction w)). add_hit m (wpkgs w) op p}"
  define B where "B = (if op AND ALPM_HOOK_OP_REMOVE \<noteq> 0 then {p \<in> set (tremove (transaction w)). remove_hit m (wpkgs w) (tadd (transaction w)) p} else {})"
  have N: "{n. affects fnm w t n} = (\<lambda>p. pname (wpkgs w p)) ` A \<union> (\<lambda>p. pname (wpkgs w p)) ` B"
    using affects_pkg [OF assms(1), of fnm w] by (simp add: A_def B_def m_def op_def)
  obtain b install upgrade where adds: "(if op AND ALPM_HOOK_OP_INSTALL \<noteq> 0 \<or> op AND ALPM_HOOK_OP_UPGRADE \<noteq> 0
      then match_adds m (wpkgs w) op (needs_targets hook) (tadd (transaction w)) [] [] else Some (False, [], [])) = Some (b, install, upgrade)"
    using assms(2) by (auto simp: match_pkg_def m_def op_def Let_def split: option.splits if_splits)
  have A: "if needs_targets hook then \<not> b \<and> set install \<union> set upgrade = (\<lambda>p. pname (wpkgs w p)) ` A
      else install = [] \<and> upgrade = [] \<and> b = (A \<noteq> {})"
  proof (cases "op AND ALPM_HOOK_OP_INSTALL \<noteq> 0 \<or> op AND ALPM_HOOK_OP_UPGRADE \<noteq> 0")
    case True
    then show ?thesis using adds match_adds_spec [of m "wpkgs w" op "needs_targets hook" "tadd (transaction w)" "[]" "[]" b install upgrade]
      by (auto simp: A_def)
  next
    case False
    then show ?thesis using adds by (auto simp: A_def add_hit_def)
  qed
  note run = assms(2) [unfolded match_pkg_def Let_def m_def [symmetric] op_def [symmetric] adds]
  show ?thesis
  proof (cases b)
    case True
    then have "res = (True, hook)" using run by simp
    then show ?thesis using A True N by (auto simp: match_result_def split: if_splits)
  next
    case False
    obtain b2 remove where removes: "(if op AND ALPM_HOOK_OP_REMOVE \<noteq> 0
        then match_removes m (wpkgs w) (tadd (transaction w)) (needs_targets hook) (tremove (transaction w)) [] else Some (False, [])) = Some (b2, remove)"
      using run False by (auto split: option.splits)
    have B: "if needs_targets hook then \<not> b2 \<and> set remove = (\<lambda>p. pname (wpkgs w p)) ` B else remove = [] \<and> b2 = (B \<noteq> {})"
      using removes match_removes_spec [of m "wpkgs w" "tadd (transaction w)" "needs_targets hook" "tremove (transaction w)" "[]" b2 remove]
      by (auto simp: B_def split: if_splits)
    have "res = (if b2 then (True, hook) else (install \<noteq> [] \<or> upgrade \<noteq> [] \<or> remove \<noteq> [],
        hook\<lparr>hook_matches := hook_matches hook @ install @ upgrade @ remove\<rparr>))"
      using run [unfolded removes] False by (cases b2) simp_all
    then show ?thesis using A B False unfolding N by (auto simp: match_result_def split: if_splits)
  qed
qed

lemma match_file_spec:
  assumes "trig_type t \<noteq> ALPM_HOOK_TYPE_PACKAGE" "match_file fnm w hook t = Some res"
  shows "match_result {n. affects fnm w t n} hook res"
proof -
  define m where "m = match_targets fnm (trig_targets t)"
  obtain i0 r0 where l: "matching m (new_names fnm w) = Some i0" "matching m (gone_names w) = Some r0"
    using assms(2) by (auto simp: match_file_def m_def split: option.splits)
  define i1 r1 where "i1 = alpm_list_msort strcmp (length i0) i0" and "r1 = alpm_list_msort strcmp (length r0) r0"
  obtain a u r where t: "take_common i1 r1 = (a, u, r)" by (metis surj_pair)
  have sets: "set i1 = {n \<in> set (new_names fnm w). m n = Some 0}" "set r1 = {n \<in> set (gone_names w). m n = Some 0}"
    using matching_filter [OF l(1)] matching_filter [OF l(2)] by (simp_all add: i1_def r1_def)
  have "sorted i1" "sorted r1" unfolding i1_def r1_def using strcmp.msort_ordered by (auto simp: strcmp_cmp3)
  from take_common_spec [OF this t] have c: "set a = set i1 - set r1" "set u = set i1 \<inter> set r1" "set r = set r1 - set i1" by auto
  have res: "res = (save_matches (trig_op t) (a, u, r) \<noteq> [],
      if needs_targets hook then hook\<lparr>hook_matches := hook_matches hook @ save_matches (trig_op t) (a, u, r)\<rparr> else hook)"
    using assms(2) l t by (auto simp: match_file_def m_def [symmetric] i1_def r1_def Let_def)
  have N: "set (save_matches (trig_op t) (a, u, r)) = {n. affects fnm w t n}"
    using assms(1) c sets by (auto simp: save_matches_def affects_def m_def)
  have "(save_matches (trig_op t) (a, u, r) \<noteq> []) = ({n. affects fnm w t n} \<noteq> {})" unfolding N [symmetric] by simp
  then show ?thesis using N unfolding res by (auto simp: match_result_def)
qed

lemma trigger_match_spec: "alpm_hook_trigger_match fnm w hook t = Some res \<Longrightarrow> match_result {n. affects fnm w t n} hook res"
  using match_pkg_spec match_file_spec by (auto simp: alpm_hook_trigger_match_def split: if_splits)

definition affected :: "(string \<Rightarrow> string \<Rightarrow> bool) \<Rightarrow> alpm_world \<Rightarrow> alpm_hook_t \<Rightarrow> string set" where
  "affected fnm w hook = {n. \<exists>t\<in>set (hook_triggers hook). affects fnm w t n}"

lemma matches_trans: "a = b\<lparr>hook_matches := x\<rparr> \<Longrightarrow> b = c\<lparr>hook_matches := y\<rparr> \<Longrightarrow> a = c\<lparr>hook_matches := x\<rparr>"
  by simp

lemma triggers_spec:
  assumes "triggers_match fnm w ts ret hook = Some (r, hook')"
  shows "r = (ret \<or> (\<exists>t\<in>set ts. \<exists>n. affects fnm w t n)) \<and> hook' = hook\<lparr>hook_matches := hook_matches hook'\<rparr> \<and>
    (needs_targets hook \<longrightarrow> set (hook_matches hook') = set (hook_matches hook) \<union> {n. \<exists>t\<in>set ts. affects fnm w t n})"
  using assms
proof (induction ts arbitrary: ret hook)
  case (Cons t ts)
  obtain r1 h1 where m: "alpm_hook_trigger_match fnm w hook t = Some (r1, h1)"
    using Cons.prems by (auto split: option.splits)
  note res = trigger_match_spec [OF m, unfolded match_result_def fst_conv snd_conv]
  have needs: "needs_targets h1 = needs_targets hook" by (subst res [THEN conjunct2, THEN conjunct1]) simp
  have r1: "r1 = (\<exists>n. affects fnm w t n)" using res by auto
  show ?case
  proof (cases "r1 \<and> \<not> needs_targets hook")
    case True
    then have "r = True" "hook' = h1" using Cons.prems m needs by simp_all
    then show ?thesis using True r1 res by auto
  next
    case False
    then have rest: "triggers_match fnm w ts (ret \<or> r1) h1 = Some (r, hook')" using Cons.prems m needs by (auto split: if_splits)
    note IH = Cons.IH [OF rest]
    have "hook' = hook\<lparr>hook_matches := hook_matches hook'\<rparr>" 
      by (rule matches_trans [OF conjunct1 [OF conjunct2 [OF IH]] conjunct1 [OF conjunct2 [OF res]]])
    moreover have "needs_targets hook \<longrightarrow> set (hook_matches hook') = set (hook_matches hook) \<union> {n. \<exists>t\<in>set (t # ts). affects fnm w t n}"
      using IH res needs by auto
    ultimately show ?thesis using IH r1 by auto
  qed
qed simp

lemma triggered_spec:
  assumes "alpm_hook_triggered fnm w hook = Some (r, hook')"
  shows "r = (affected fnm w hook \<noteq> {})" "hook' = hook\<lparr>hook_matches := hook_matches hook'\<rparr>"
    "needs_targets hook \<longrightarrow> set (hook_matches hook') = set (hook_matches hook) \<union> affected fnm w hook"
  using triggers_spec [OF assms [unfolded alpm_hook_triggered_def]] by (auto simp: affected_def)

section \<open>Which hooks there are\<close>

text \<open>The hook of a file, if it is valid, and the one that counts for a name: of the last directory that has one.\<close>

definition entry_hook :: "hook_env \<Rightarrow> filesys \<Rightarrow> string \<Rightarrow> string \<Rightarrow> alpm_hook_t option" where
  "entry_hook env fs dir name = (case read_hook env fs dir name [] of Some (_, found) \<Rightarrow> found | None \<Rightarrow> None)"

definition file_hook :: "hook_env \<Rightarrow> filesys \<Rightarrow> string \<Rightarrow> string \<Rightarrow> alpm_hook_t option" where
  "file_hook env fs dir name =
     (if length dir < PATH_MAX \<and> (case opendir fs dir of Inl _ \<Rightarrow> False | Inr ns \<Rightarrow> name \<in> set ns) then entry_hook env fs dir name else None)"

fun chosen_hook :: "hook_env \<Rightarrow> filesys \<Rightarrow> string list \<Rightarrow> string \<Rightarrow> alpm_hook_t option" where
  "chosen_hook env fs [] name = None"
| "chosen_hook env fs (dir # dirs) name = (case file_hook env fs dir name of Some h \<Rightarrow> Some h | None \<Rightarrow> chosen_hook env fs dirs name)"

definition hook_table :: "alpm_hook_t list \<Rightarrow> string \<rightharpoonup> alpm_hook_t" where
  "hook_table hooks = map_of (map (\<lambda>h. (hook_name h, h)) hooks)"

lemma find_hook_table: "find_hook hooks name = hook_table hooks name"
  by (induction hooks) (auto simp: find_hook_def hook_table_def strcmp_cmp3)

lemma hook_table_add: "hook_table hooks (hook_name h) = None \<Longrightarrow> hook_table (hooks @ [h]) = (hook_table hooks)(hook_name h \<mapsto> h)"
  by (auto simp: hook_table_def map_add_def fun_eq_iff split: option.splits)

lemma hook_table_names: "hook_table hooks name = None \<longleftrightarrow> name \<notin> hook_name ` set hooks"
  by (simp add: hook_table_def map_of_eq_None_iff image_image)

lemma parse_cb_matches: "alpm_hook_parse_cb ws x hook = Some (r, h) \<Longrightarrow> hook_matches h = hook_matches hook"
  by (auto simp: alpm_hook_parse_cb_def action_option_def hook_moment_def split: prod.splits option.splits if_splits)

lemma parse_items_matches: "parse_items ws xs ret hook = Some (r, h) \<Longrightarrow> hook_matches h = hook_matches hook"
  by (induction xs arbitrary: hook) (auto dest: parse_cb_matches split: option.splits if_splits)

lemma read_hook_found:
  assumes "read_hook env fs dir name hooks = Some (good, found)"
  shows "found = (if hook_table hooks name = None then entry_hook env fs dir name else None) \<and>
    (\<forall>h. found = Some h \<longrightarrow> hook_name h = name \<and> is_hook_name name \<and> hook_matches h = [])"
  using assms parse_items_matches [of "he_wordsplit env" "fst (he_ini env fs (dir @ name))" "snd (he_ini env fs (dir @ name))" new_hook]
  by (auto simp: read_hook_def entry_hook_def find_hook_table hook_table_def new_hook_def split: if_splits sum.splits option.splits prod.splits)

lemma entries_table:
  assumes "read_entries env fs dir ns ret hooks = Some (ret', hooks')" "distinct (map hook_name hooks)"
    and "\<forall>h\<in>set hooks. is_hook_name (hook_name h) \<and> hook_matches h = []"
  shows "distinct (map hook_name hooks') \<and> (\<forall>h\<in>set hooks'. is_hook_name (hook_name h) \<and> hook_matches h = []) \<and>
    hook_table hooks' = (\<lambda>n. case hook_table hooks n of Some h \<Rightarrow> Some h | None \<Rightarrow> if n \<in> set ns then entry_hook env fs dir n else None)"
  using assms
proof (induction ns arbitrary: ret hooks)
  case (Cons name ns)
  obtain good found where r: "read_hook env fs dir name hooks = Some (good, found)"
    and rest: "read_entries env fs dir ns (if good then ret else -1) (case found of None \<Rightarrow> hooks | Some h \<Rightarrow> alpm_list_add hooks h) = Some (ret', hooks')"
    using Cons.prems(1) by (auto split: option.splits)
  note found = read_hook_found [OF r]
  show ?case
  proof (cases found)
    case None
    then have "entry_hook env fs dir name = None \<or> hook_table hooks name \<noteq> None" using found by (auto split: if_splits)
    then show ?thesis using Cons.IH [OF rest] Cons.prems(2,3) None by (auto simp: fun_eq_iff split: option.splits)
  next
    case (Some h)
    then have h: "hook_name h = name" "is_hook_name name" "hook_matches h = []" "hook_table hooks name = None" "entry_hook env fs dir name = Some h"
      using found by (auto split: if_splits)
    have t: "hook_table (hooks @ [h]) = (hook_table hooks)(name \<mapsto> h)" using hook_table_add [of hooks h] h by simp
    have "name \<notin> hook_name ` set hooks" using h(4) by (simp add: hook_table_names)
    then have "distinct (map hook_name (hooks @ [h]))" using Cons.prems(2) h(1) by simp
    then show ?thesis using Cons.IH [OF rest] Cons.prems(3) Some h t by (auto simp: alpm_list_add_def fun_eq_iff split: option.splits)
  qed
qed (auto simp: fun_eq_iff split: option.splits)

lemma dirs_table:
  assumes "read_dirs env fs dirs ret hooks = Some (ret', hooks')" "distinct (map hook_name hooks)"
    and "\<forall>h\<in>set hooks. is_hook_name (hook_name h) \<and> hook_matches h = []"
  shows "distinct (map hook_name hooks') \<and> (\<forall>h\<in>set hooks'. is_hook_name (hook_name h) \<and> hook_matches h = []) \<and>
    hook_table hooks' = (\<lambda>n. case hook_table hooks n of Some h \<Rightarrow> Some h | None \<Rightarrow> chosen_hook env fs dirs n)"
  using assms
proof (induction dirs arbitrary: ret hooks)
  case (Cons dir dirs)
  show ?case
  proof (cases "length dir < PATH_MAX \<and> (\<exists>ns. opendir fs dir = Inr ns)")
    case False
    then have "file_hook env fs dir n = None" for n by (auto simp: file_hook_def split: sum.splits)
    then have skip: "chosen_hook env fs (dir # dirs) = chosen_hook env fs dirs" by (simp add: fun_eq_iff)
    have "\<exists>ret1. read_dirs env fs dirs ret1 hooks = Some (ret', hooks')"
    proof (cases "PATH_MAX \<le> length dir")
      case True
      then have "read_dirs env fs dirs (-1) hooks = Some (ret', hooks')" using Cons.prems(1) by simp
      then show ?thesis ..
    next
      case short: False
      then obtain e where "opendir fs dir = Inl e" using False by (cases "opendir fs dir") auto
      then have "read_dirs env fs dirs (if e = ENOENT then ret else -1) hooks = Some (ret', hooks')" using Cons.prems(1) short by simp
      then show ?thesis ..
    qed
    then obtain ret1 where "read_dirs env fs dirs ret1 hooks = Some (ret', hooks')" ..
    from Cons.IH [OF this Cons.prems(2,3)] show ?thesis unfolding skip .
  next
    case True
    then obtain ns where ns: "opendir fs dir = Inr ns" "length dir < PATH_MAX" by blast
    then obtain ret1 hooks1 where e: "read_entries env fs dir ns ret hooks = Some (ret1, hooks1)"
      and rest: "read_dirs env fs dirs ret1 hooks1 = Some (ret', hooks')"
      using Cons.prems(1) by (auto split: option.splits)
    note step = entries_table [OF e Cons.prems(2,3)]
    have "file_hook env fs dir n = (if n \<in> set ns then entry_hook env fs dir n else None)" for n
      using ns by (simp add: file_hook_def)
    then show ?thesis using Cons.IH [OF rest] step by (auto simp: fun_eq_iff split: option.splits)
  qed
qed (auto simp: fun_eq_iff split: option.splits)

lemma hook_table_set: "distinct (map hook_name hooks) \<Longrightarrow> h \<in> set hooks \<longleftrightarrow> hook_table hooks (hook_name h) = Some h"
  unfolding hook_table_def by (subst map_of_eq_Some_iff) (auto simp: o_def)

lemma hook_table_name: "hook_table hooks n = Some h \<Longrightarrow> hook_name h = n \<and> h \<in> set hooks"
  unfolding hook_table_def by (drule map_of_SomeD) auto

section \<open>Which hooks are run\<close>

abbreviation by_stem :: "alpm_hook_t list \<Rightarrow> bool" where
  "by_stem \<equiv> sorted_wrt (\<lambda>a b. stem (hook_name a) < stem (hook_name b))"

lemma msort_by_stem:
  assumes "distinct (map hook_name hooks)" "\<forall>h\<in>set hooks. is_hook_name (hook_name h)"
  shows "by_stem (alpm_list_msort alpm_hook_cmp (length hooks) hooks)"
proof -
  define l where "l = alpm_list_msort alpm_hook_cmp (length hooks) hooks"
  have "mset l = mset hooks" by (simp add: l_def)
  then have m: "set l = set hooks" "distinct (map hook_name l)"
    using assms(1) by (metis mset_eq_setD, metis mset_map mset_eq_imp_distinct_iff)
  have "distinct (map (\<lambda>h. stem (hook_name h)) l)"
    using m assms(2) stem_inj by (auto simp: distinct_map inj_on_def)
  moreover have "sorted (map (\<lambda>h. stem (hook_name h)) l)"
    using hook_cmp.msort_ordered [of hooks "length hooks"] by (simp add: l_def hook_cmp_stem strcmp_cmp3 sorted_map)
  ultimately have "sorted_wrt (<) (map (\<lambda>h. stem (hook_name h)) l)" unfolding strict_sorted_iff by blast
  then show ?thesis by (simp add: l_def [symmetric] sorted_wrt_map)
qed

definition triggered_from :: "hook_env \<Rightarrow> alpm_hook_when \<Rightarrow> alpm_world \<Rightarrow> alpm_hook_t \<Rightarrow> alpm_hook_t \<Rightarrow> bool" where
  "triggered_from env when w h0 h \<longleftrightarrow> h = h0\<lparr>hook_matches := hook_matches h\<rparr> \<and> hook_when h0 = when \<and> affected (he_fnmatch env) w h0 \<noteq> {} \<and>
     (needs_targets h0 \<longrightarrow> set (hook_matches h) = set (hook_matches h0) \<union> affected (he_fnmatch env) w h0)"

lemma triggered_name: "triggered_from env when w h0 h \<Longrightarrow> hook_name h = hook_name h0"
  unfolding triggered_from_def by (metis alpm_hook_t.select_convs(1) alpm_hook_t.surjective alpm_hook_t.update_convs(6))

lemma triggered_hooks_spec:
  assumes "triggered_hooks env when w hs = Some l"
  shows "(\<forall>h\<in>set l. \<exists>h0\<in>set hs. triggered_from env when w h0 h) \<and>
    (\<forall>h0\<in>set hs. hook_when h0 = when \<and> affected (he_fnmatch env) w h0 \<noteq> {} \<longrightarrow> hook_name h0 \<in> hook_name ` set l) \<and>
    (by_stem hs \<longrightarrow> by_stem l)"
  using assms
proof (induction hs arbitrary: l)
  case (Cons h hs)
  show ?case
  proof (cases "hook_when h = when")
    case False
    then show ?thesis using Cons by auto
  next
    case True
    obtain r h1 l1 where t: "alpm_hook_triggered (he_fnmatch env) w h = Some (r, h1)" "triggered_hooks env when w hs = Some l1"
      "l = (if r then h1 # l1 else l1)"
      using Cons.prems True by (auto split: option.splits)
    note IH = Cons.IH [OF t(2)] and tr = triggered_spec [OF t(1)]
    have from1: "r \<longrightarrow> triggered_from env when w h h1" using tr True unfolding triggered_from_def by blast
    have name: "hook_name h1 = hook_name h" by (subst tr(2)) simp
    have "by_stem (h # hs) \<longrightarrow> by_stem l"
      using IH t(3) triggered_name by (fastforce simp: name)
    then show ?thesis using IH t(3) from1 tr(1) name by auto
  qed
qed simp

lemma run_hooks_spec:
  assumes "run_hooks env when w hs ret fs = Some (ret', fs', started)"
  shows "\<exists>rest. hs = started @ rest \<and> (ret' = 0 \<or> when \<noteq> ALPM_HOOK_PRE_TRANSACTION \<longrightarrow> rest = []) \<and>
    (ret' = 0 \<longrightarrow> ret = 0 \<and> (\<forall>h\<in>set started. abort_on_fail h \<longrightarrow> (\<exists>fs1 fs2. alpm_hook_run_hook env w h fs1 = Some (0, fs2))))"
  using assms
proof (induction hs arbitrary: ret fs started)
  case (Cons h hs)
  obtain r fs1 where r: "alpm_hook_run_hook env w h fs = Some (r, fs1)" using Cons.prems by (auto split: option.splits)
  define ret1 where "ret1 = (if r \<noteq> 0 \<and> abort_on_fail h then -1 else ret)"
  show ?case
  proof (cases "ret1 \<noteq> 0 \<and> when = ALPM_HOOK_PRE_TRANSACTION")
    case True
    then have "ret' = ret1" "started = [h]" using Cons.prems r by (simp_all add: ret1_def Let_def)
    then show ?thesis using True by simp
  next
    case False
    then obtain ran1 where rest: "run_hooks env when w hs ret1 fs1 = Some (ret', fs', ran1)" "started = h # ran1"
      using Cons.prems r by (auto simp: ret1_def Let_def split: if_splits)
    obtain rest' where IH: "hs = ran1 @ rest'" "ret' = 0 \<or> when \<noteq> ALPM_HOOK_PRE_TRANSACTION \<longrightarrow> rest' = []"
      "ret' = 0 \<longrightarrow> ret1 = 0 \<and> (\<forall>h\<in>set ran1. abort_on_fail h \<longrightarrow> (\<exists>fs1 fs2. alpm_hook_run_hook env w h fs1 = Some (0, fs2)))"
      using Cons.IH [OF rest(1)] by blast
    have "ret' = 0 \<longrightarrow> ret = 0 \<and> (abort_on_fail h \<longrightarrow> r = 0)" using IH(3) by (auto simp: ret1_def split: if_splits)
    then show ?thesis using IH r rest(2) by (intro exI [of _ rest']) auto
  qed
qed simp

text \<open>C17: the hooks of a transaction. The hooks that are run are run in the order of their names without the suffix, each
  once. Each is what the last of the hook directories that has a valid file of the name says, is meant for this
  moment, and has a trigger that something of the transaction matches; a hook that needs targets gets exactly the
  names that match. If no error is returned, or after the transaction, all hooks for which this holds are run; and if
  none is returned, every one of them that may abort has succeeded.\<close>

theorem hooks_run_exactly:
  assumes "alpm_hook_run env when w fs = Some (ret, fs', started)"
  shows "by_stem started \<and>
    (\<forall>h\<in>set started. \<exists>h0. chosen_hook env fs (rev (hookdirs (handle w))) (hook_name h) = Some h0 \<and>
       h = h0\<lparr>hook_matches := hook_matches h\<rparr> \<and> hook_when h0 = when \<and> affected (he_fnmatch env) w h0 \<noteq> {} \<and>
       (needs_targets h0 \<longrightarrow> set (hook_matches h) = affected (he_fnmatch env) w h0)) \<and>
    (ret = 0 \<or> when \<noteq> ALPM_HOOK_PRE_TRANSACTION \<longrightarrow>
       (\<forall>n h0. chosen_hook env fs (rev (hookdirs (handle w))) n = Some h0 \<and> hook_when h0 = when \<and> affected (he_fnmatch env) w h0 \<noteq> {} \<longrightarrow>
          n \<in> hook_name ` set started)) \<and>
    (ret = 0 \<longrightarrow> (\<forall>h\<in>set started. abort_on_fail h \<longrightarrow> (\<exists>fs1 fs2. alpm_hook_run_hook env w h fs1 = Some (0, fs2))))"
proof -
  obtain ret0 hooks where d: "read_dirs env fs (rev (hookdirs (handle w))) 0 [] = Some (ret0, hooks)"
    using assms by (auto simp: alpm_hook_run_def split: option.splits)
  have table: "distinct (map hook_name hooks)" "\<forall>h\<in>set hooks. is_hook_name (hook_name h) \<and> hook_matches h = []"
    "hook_table hooks = chosen_hook env fs (rev (hookdirs (handle w)))"
    using dirs_table [OF d] by (simp_all add: hook_table_def)
  show ?thesis
  proof (cases "ret0 \<noteq> 0 \<and> when = ALPM_HOOK_PRE_TRANSACTION")
    case True
    then show ?thesis using assms d by (simp add: alpm_hook_run_def)
  next
    case False
    define hs where "hs = alpm_list_msort alpm_hook_cmp (length hooks) hooks"
    obtain l where l: "triggered_hooks env when w hs = Some l" and r: "run_hooks env when w l ret0 fs = Some (ret, fs', started)"
      using assms d False by (auto simp: alpm_hook_run_def hs_def split: option.splits if_splits)
    have "by_stem hs" unfolding hs_def using msort_by_stem table(1,2) by blast
    then have tr: "\<forall>h\<in>set l. \<exists>h0\<in>set hooks. triggered_from env when w h0 h" "by_stem l"
      "\<forall>h0\<in>set hooks. hook_when h0 = when \<and> affected (he_fnmatch env) w h0 \<noteq> {} \<longrightarrow> hook_name h0 \<in> hook_name ` set l"
      using triggered_hooks_spec [OF l] by (simp_all add: hs_def)
    obtain rest where run: "l = started @ rest" "ret = 0 \<or> when \<noteq> ALPM_HOOK_PRE_TRANSACTION \<longrightarrow> rest = []"
      "ret = 0 \<longrightarrow> (\<forall>h\<in>set started. abort_on_fail h \<longrightarrow> (\<exists>fs1 fs2. alpm_hook_run_hook env w h fs1 = Some (0, fs2)))"
      using run_hooks_spec [OF r] by blast
    have "by_stem started" using tr(2) run(1) by (simp add: sorted_wrt_append)
    moreover have "\<forall>h\<in>set started. \<exists>h0. chosen_hook env fs (rev (hookdirs (handle w))) (hook_name h) = Some h0 \<and>
       h = h0\<lparr>hook_matches := hook_matches h\<rparr> \<and> hook_when h0 = when \<and> affected (he_fnmatch env) w h0 \<noteq> {} \<and>
       (needs_targets h0 \<longrightarrow> set (hook_matches h) = affected (he_fnmatch env) w h0)"
    proof
      fix h assume "h \<in> set started"
      then obtain h0 where h0: "h0 \<in> set hooks" "triggered_from env when w h0 h" using tr(1) run(1) by auto
      then have "chosen_hook env fs (rev (hookdirs (handle w))) (hook_name h) = Some h0"
        using hook_table_set [OF table(1)] table(3) triggered_name by metis
      then show "\<exists>h0. chosen_hook env fs (rev (hookdirs (handle w))) (hook_name h) = Some h0 \<and>
         h = h0\<lparr>hook_matches := hook_matches h\<rparr> \<and> hook_when h0 = when \<and> affected (he_fnmatch env) w h0 \<noteq> {} \<and>
         (needs_targets h0 \<longrightarrow> set (hook_matches h) = affected (he_fnmatch env) w h0)"
        using h0 table(2) unfolding triggered_from_def by (intro exI [of _ h0]) auto
    qed
    moreover have "n \<in> hook_name ` set started" if "ret = 0 \<or> when \<noteq> ALPM_HOOK_PRE_TRANSACTION"
      "chosen_hook env fs (rev (hookdirs (handle w))) n = Some h0" "hook_when h0 = when" "affected (he_fnmatch env) w h0 \<noteq> {}" for n h0
      using that hook_table_name [of hooks n h0] table(3) tr(3) run(1,2) by auto
    ultimately show ?thesis using run(3) by blast
  qed
qed

text \<open>A hook for the installation of a package.\<close>

definition hook_items :: "ini_item list" where
  "hook_items =
     [(Some ''Trigger'', None, None), (Some ''Trigger'', Some ''Operation'', Some ''Install''),
      (Some ''Trigger'', Some ''Type'', Some ''Package''), (Some ''Trigger'', Some ''Target'', Some ''foo''),
      (Some ''Action'', None, None), (Some ''Action'', Some ''When'', Some ''PreTransaction''),
      (Some ''Action'', Some ''Exec'', Some ''run''), (Some ''Action'', Some ''NeedsTargets'', None)]"

definition sample_hooks :: hook_env where
  "sample_hooks = \<lparr>he_ini = \<lambda>_ _. (hook_items, 0), he_wordsplit = \<lambda>v. Some [v], he_fnmatch = (=), he_run = \<lambda>_ _ fs. (0, fs)\<rparr>"

definition hook_fs :: filesys where
  "hook_fs = \<lparr>fs_nodes = [([''h''], Dir), ([''h'', ''a.hook''], File ''x'')], fs_fault = \<lambda>_. None, fs_nowrite = \<lambda>_. None, fs_dev = \<lambda>_. 0\<rparr>"

definition hook_world :: alpm_world where
  "hook_world =
     \<lparr>handle = alpm_handle_new\<lparr>hookdirs := [''/h/''], trans := Some ((alpm_trans_new 0)\<lparr>tadd := [0]\<rparr>)\<rparr>, wdbs = \<lambda>_. alpm_db_new ''local'' True,
      wpkgs = \<lambda>_. alpm_pkg_new\<lparr>pname := ''foo''\<rparr>, next_ref = 1\<rparr>"

definition sample_hook :: alpm_hook_t where
  "sample_hook = \<lparr>hook_name = ''a.hook'', hook_desc = None,
     hook_triggers = [\<lparr>trig_op = 1, trig_type = ALPM_HOOK_TYPE_PACKAGE, trig_targets = [Some ''foo'']\<rparr>], hook_depends = [],
     hook_cmd = Some [''run''], hook_matches = [''foo''], hook_when = ALPM_HOOK_PRE_TRANSACTION, abort_on_fail = False, needs_targets = True\<rparr>"

lemma sample_read: "read_dirs sample_hooks hook_fs [''/h/''] 0 [] = Some (0, [sample_hook\<lparr>hook_matches := []\<rparr>])"
proof -
  have ns: "opendir hook_fs ''/h/'' = Inr [''a.hook'']" "AlpmFs.stat hook_fs ''/h/a.hook'' = Inr ([''h'', ''a.hook''], File ''x'')"
    by (simp_all add: opendir_def stat_def stat_node_def resolve_def components_def hook_fs_def look_def slashed_def children_def)
  have "parse_items (\<lambda>v. Some [v]) hook_items 0 new_hook = Some (0, sample_hook\<lparr>hook_name := [], hook_matches := []\<rparr>)"
    by (simp add: hook_items_def alpm_hook_parse_cb_def trigger_option_def trigger_operation_def trigger_kind_def action_option_def hook_moment_def
        new_hook_def new_trigger_def sample_hook_def alpm_list_add_def)
  then have "read_hook sample_hooks hook_fs ''/h/'' ''a.hook'' [] = Some (True, Some (sample_hook\<lparr>hook_matches := []\<rparr>))"
    using ns(2) by (simp add: read_hook_def PATH_MAX_def is_hook_name_def find_hook_def sample_hooks_def alpm_hook_validate_def alpm_trigger_validate_def sample_hook_def)
  then show ?thesis using ns(1) by (simp add: PATH_MAX_def alpm_list_add_def)
qed

theorem hooks_run_exactly_witness:
  "\<exists>fs'. alpm_hook_run sample_hooks ALPM_HOOK_PRE_TRANSACTION hook_world hook_fs = Some (0, fs', [sample_hook]) \<and>
    affected (=) hook_world sample_hook = {''foo''}"
proof -
  have t: "alpm_hook_triggered (=) hook_world (sample_hook\<lparr>hook_matches := []\<rparr>) = Some (True, sample_hook)"
    by (simp add: alpm_hook_triggered_def alpm_hook_trigger_match_def match_pkg_def sample_hook_def hook_world_def transaction_def alpm_trans_new_def
        match_targets_def Let_def alpm_handle_new_def alpm_pkg_new_def alpm_list_add_def)
  have "alpm_hook_run sample_hooks ALPM_HOOK_PRE_TRANSACTION hook_world hook_fs = Some (0, hook_fs, [sample_hook])"
    using sample_read t
    by (simp add: alpm_hook_run_def hook_world_def alpm_list_msort.simps sample_hooks_def alpm_hook_run_hook_def sample_hook_def)
  note run = this
  obtain h0 where h0: "sample_hook = h0\<lparr>hook_matches := hook_matches sample_hook\<rparr>"
    "needs_targets h0 \<longrightarrow> set (hook_matches sample_hook) = affected (he_fnmatch sample_hooks) hook_world h0"
    using hooks_run_exactly [OF run] by auto
  have "hook_triggers sample_hook = hook_triggers h0" "needs_targets sample_hook = needs_targets h0"
    by (subst h0(1), simp)+
  then have "affected (=) hook_world sample_hook = {''foo''}"
    using h0(2) by (simp add: affected_def sample_hooks_def) (simp add: sample_hook_def)
  then show ?thesis using run by blast
qed

end
