(* ===== verification/AlpmLocalRoundtrip.thy ===== *)
theory AlpmLocalRoundtrip
  imports AlpmLocal
begin

text \<open>
  What \<open>_alpm_local_db_write\<close> writes is what \<open>local_db_read\<close> reads back.
\<close>

section \<open>Reading lines\<close>

lemma strip_stored:
  "newline \<notin> set s \<Longrightarrow> strip_line \<lparr>rbuf = s @ [newline], rrest = t, reof = e\<rparr> = (\<lparr>rbuf = s, rrest = t, reof = e\<rparr>, length s)"
  by (simp add: strip_line_def strip_newline_line)

text \<open>What is assumed of \<open>safe_fgets\<close>: it returns whole lines that fit the buffer, and finds the end.\<close>

locale line_reader =
  fixes rd :: read_op
  assumes rd_line: "is_line s \<Longrightarrow> rrest r = s @ newline # t \<Longrightarrow> rd 1024 r = (True, \<lparr>rbuf = s @ [newline], rrest = t, reof = False\<rparr>)"
    and rd_end: "rrest r = [] \<Longrightarrow> rd 1024 r = (False, r\<lparr>reof := True\<rparr>)"
begin

lemma read_next_line:
  assumes "is_line s" "rrest r = s @ newline # t"
  shows "read_next rd r = (True, \<lparr>rbuf = s, rrest = t, reof = False\<rparr>)"
  using assms(1) by (simp add: read_next_def rd_line [OF assms] is_line_def strip_stored)

lemma read_all_lines:
  assumes "\<forall>l\<in>set ls. is_line l \<and> l \<noteq> []" "rrest r = concat (map (\<lambda>l. l @ [newline]) ls) @ newline # t"
  shows "read_all rd f r = Some (True, f @ ls, \<lparr>rbuf = [], rrest = t, reof = False\<rparr>)"
  using assms
proof (induction ls arbitrary: f r)
  case Nil
  have "rd 1024 r = (True, \<lparr>rbuf = [] @ [newline], rrest = t, reof = False\<rparr>)"
    using Nil(2) by (intro rd_line) (simp_all add: is_line_def)
  then show ?case by (subst read_all.simps) (simp add: strip_stored [of "[]", simplified])
next
  case (Cons l ls)
  define u where "u = concat (map (\<lambda>l. l @ [newline]) ls) @ newline # t"
  have l: "is_line l" "l \<noteq> []" and r: "rrest r = l @ newline # u" using Cons.prems by (simp_all add: u_def)
  have "strip_line \<lparr>rbuf = l @ [newline], rrest = u, reof = False\<rparr> = (\<lparr>rbuf = l, rrest = u, reof = False\<rparr>, length l)"
    using l(1) by (simp add: is_line_def strip_stored)
  then have "read_all rd f r = read_all rd (f @ [l]) \<lparr>rbuf = l, rrest = u, reof = False\<rparr>"
    using l(2) by (subst read_all.simps) (simp add: rd_line [OF l(1) r])
  then show ?case using Cons.IH [of "\<lparr>rbuf = l, rrest = u, reof = False\<rparr>" "f @ [l]"] Cons.prems(1) by (simp add: u_def)
qed

section \<open>The parts of a description\<close>

text \<open>Reading a part of the file has an effect on the package, and goes on with what follows.\<close>

definition reads :: "string \<Rightarrow> (alpm_pkg_t \<Rightarrow> alpm_pkg_t) \<Rightarrow> bool" where
  "reads txt f \<longleftrightarrow>
     (\<forall>info r t. rbuf r = [] \<and> \<not> reof r \<and> rrest r = txt @ t \<longrightarrow>
        (\<exists>r'. rbuf r' = [] \<and> \<not> reof r' \<and> rrest r' = t \<and> read_desc rd info r = read_desc rd (f info) r'))"

lemma reads_nothing: "reads [] (\<lambda>p. p)"
  by (auto simp: reads_def)

lemma reads_append:
  assumes "reads a f" "reads b g"
  shows "reads (a @ b) (\<lambda>p. g (f p))"
  unfolding reads_def
proof (intro allI impI)
  fix info and r :: reader and t
  assume r: "rbuf r = [] \<and> \<not> reof r \<and> rrest r = (a @ b) @ t"
  then obtain r1 where r1: "rbuf r1 = []" "\<not> reof r1" "rrest r1 = b @ t" "read_desc rd info r = read_desc rd (f info) r1"
    using assms(1) unfolding reads_def by (metis append.assoc)
  then obtain r2 where "rbuf r2 = []" "\<not> reof r2" "rrest r2 = t" "read_desc rd (f info) r1 = read_desc rd (g (f info)) r2"
    using assms(2) unfolding reads_def by blast
  then show "\<exists>r'. rbuf r' = [] \<and> \<not> reof r' \<and> rrest r' = t \<and> read_desc rd info r = read_desc rd (g (f info)) r'"
    using r1(4) by auto
qed

text \<open>A header, and an empty line.\<close>

lemma read_desc_line:
  assumes "is_line h" "\<not> reof r" "rrest r = h @ newline # t"
  shows "read_desc rd info r =
    (if h = [] then read_desc rd info \<lparr>rbuf = [], rrest = t, reof = False\<rparr>
     else case read_section rd h info \<lparr>rbuf = h, rrest = t, reof = False\<rparr> of
            None \<Rightarrow> None
          | Some (ok, info, r) \<Rightarrow> if ok then read_desc rd info r else Some (False, info))"
proof -
  have "strip_line \<lparr>rbuf = h @ [newline], rrest = t, reof = False\<rparr> = (\<lparr>rbuf = h, rrest = t, reof = False\<rparr>, length h)"
    using assms(1) by (simp add: is_line_def strip_stored)
  then show ?thesis
    using assms(2) by (subst read_desc.simps) (simp add: rd_line [OF assms(1,3)])
qed

lemma reads_one:
  assumes "is_line h" "h \<noteq> []" "is_line l" "\<And>info r. read_section rd h info r = one_line rd st info r"
  shows "reads (section_text h [l]) (st l)"
  unfolding reads_def
proof (intro allI impI)
  fix info and r :: reader and t
  assume r: "rbuf r = [] \<and> \<not> reof r \<and> rrest r = section_text h [l] @ t"
  then have rest: "rrest r = h @ newline # (l @ newline # newline # t)" by (simp add: section_text_def)
  have "read_desc rd info r = read_desc rd (st l info) \<lparr>rbuf = l, rrest = newline # t, reof = False\<rparr>"
    using read_desc_line [OF assms(1) _ rest, of info] r assms(2)
    by (simp add: assms(4) one_line_def read_next_line [OF assms(3)])
  also have "\<dots> = read_desc rd (st l info) \<lparr>rbuf = [], rrest = t, reof = False\<rparr>"
    using read_desc_line [of "[]" "\<lparr>rbuf = l, rrest = newline # t, reof = False\<rparr>" t "st l info"] by (simp add: is_line_def)
  finally show "\<exists>r'. rbuf r' = [] \<and> \<not> reof r' \<and> rrest r' = t \<and> read_desc rd info r = read_desc rd (st l info) r'"
    by (intro exI [of _ "\<lparr>rbuf = [], rrest = t, reof = False\<rparr>"]) simp
qed

lemma reads_many:
  assumes "is_line h" "h \<noteq> []" "\<forall>l\<in>set ls. is_line l \<and> l \<noteq> []"
    and "\<And>info r r'. read_all rd [] r = Some (True, ls, r') \<Longrightarrow> read_section rd h info r = Some (True, st ls info, r')"
  shows "reads (section_text h ls) (st ls)"
  unfolding reads_def
proof (intro allI impI)
  fix info and r :: reader and t
  assume r: "rbuf r = [] \<and> \<not> reof r \<and> rrest r = section_text h ls @ t"
  then have rest: "rrest r = h @ newline # (concat (map (\<lambda>l. l @ [newline]) ls) @ newline # t)" by (simp add: section_text_def)
  have "read_desc rd info r = read_desc rd (st ls info) \<lparr>rbuf = [], rrest = t, reof = False\<rparr>"
    using read_desc_line [OF assms(1) _ rest, of info] r assms(2)
    by (simp add: assms(4) [OF read_all_lines [OF assms(3), where f = "[]", simplified]])
  then show "\<exists>r'. rbuf r' = [] \<and> \<not> reof r' \<and> rrest r' = t \<and> read_desc rd info r = read_desc rd (st ls info) r'"
    by (intro exI [of _ "\<lparr>rbuf = [], rrest = t, reof = False\<rparr>"]) simp
qed

lemma reads_all:
  assumes "reads txt f"
  shows "read_desc rd info (open_reader txt) = Some (True, f info)"
proof -
  obtain r' where r': "rbuf r' = []" "\<not> reof r'" "rrest r' = []" "read_desc rd info (open_reader txt) = read_desc rd (f info) r'"
    using assms unfolding reads_def by (metis append_Nil2 open_reader_def reader.select_convs)
  have "read_desc rd (f info) r' = read_desc rd (f info) (r'\<lparr>reof := True\<rparr>)"
    using r'(1,2) by (subst read_desc.simps) (simp add: rd_end [OF r'(3)] strip_line_empty)
  also have "\<dots> = Some (True, f info)" by (subst read_desc.simps) simp
  finally show ?thesis using r'(4) by simp
qed

end

interpretation io: line_reader fgets
  by unfold_locales (simp_all add: fgets_line fgets_end)

section \<open>What can be stored\<close>

definition full_line :: "string \<Rightarrow> bool" where
  "full_line s \<longleftrightarrow> is_line s \<and> s \<noteq> []"

definition storable_deps :: "alpm_depend_t list \<Rightarrow> bool" where
  "storable_deps ds \<longleftrightarrow> (\<forall>d\<in>set ds. printable_dep d \<and> full_line (the (alpm_dep_compute_string (Some d))))"

definition storable_desc :: "alpm_pkg_t \<Rightarrow> bool" where
  "storable_desc info \<longleftrightarrow>
     is_line (pname info) \<and> is_line (c_string (version info)) \<and>
     (\<forall>s\<in>{base info, desc info, url info, arch info, packager info}. pred_option is_line s) \<and>
     - (2 ^ 63) \<le> builddate info \<and> builddate info < 2 ^ 63 \<and> - (2 ^ 63) \<le> installdate info \<and> installdate info < 2 ^ 63 \<and>
     0 \<le> isize info \<and> isize info < 2 ^ 63 \<and> preason info \<notin> {Other_reason 0, Other_reason 1} \<and> validation info < 16 \<and>
     list_all full_line (groups info) \<and> list_all full_line (licenses info) \<and>
     storable_deps (replaces info) \<and> storable_deps (depends info) \<and> storable_deps (optdepends info) \<and>
     storable_deps (conflicts info) \<and> storable_deps (provides info)"

text \<open>A package of which nothing is known but its name and version.\<close>

definition fresh :: "alpm_pkg_t \<Rightarrow> bool" where
  "fresh p \<longleftrightarrow>
     base p = None \<and> desc p = None \<and> url p = None \<and> arch p = None \<and> packager p = None \<and> builddate p = 0 \<and>
     installdate p = 0 \<and> isize p = 0 \<and> preason p = ALPM_PKG_REASON_EXPLICIT \<and> groups p = [] \<and> licenses p = [] \<and>
     validation p = 0 \<and> replaces p = [] \<and> depends p = [] \<and> optdepends p = [] \<and> conflicts p = [] \<and> provides p = [] \<and>
     files p = [] \<and> backup p = [] \<and> \<not> scriptlet p \<and> infolevel p = 0"

lemma validation_cases:
  assumes "(v::u32) < 16"
  shows "v \<in> {0, 1, 2, 3, 4, 5, 6, 7, 8, 9, 10, 11, 12, 13, 14, 15}"
proof -
  have "unat v < 16" using assms by (simp add: word_less_nat_alt)
  moreover have "n \<in> {0, 1, 2, 3, 4, 5, 6, 7, 8, 9, 10, 11, 12, 13, 14, 15}" if "n < 16" for n :: nat
    using that by (simp add: numeral_eq_Suc less_Suc_eq)
  ultimately have "unat v \<in> {0, 1, 2, 3, 4, 5, 6, 7, 8, 9, 10, 11, 12, 13, 14, 15}" by blast
  then have "v \<in> word_of_nat ` {0, 1, 2, 3, 4, 5, 6, 7, 8, 9, 10, 11, 12, 13, 14, 15}"
    by (intro image_eqI [of _ _ "unat v"]) simp_all
  then show ?thesis by simp
qed

lemma validation_names_back:
  assumes "v < 16"
  shows "foldl add_validation 0 (validation_names v) = v" "list_all full_line (validation_names v)"
  using validation_cases [OF assms] by (auto simp: validation_names_def add_validation_def full_line_def is_line_def newline_def)

lemma reason_back:
  assumes "r \<notin> {Other_reason 0, Other_reason 1}"
  shows "read_reason (dec_int (uint (reason_number r))) = r"
proof -
  have bound: "strtoll (dec_int n) = (n, False, [])" if "n < 2 ^ LENGTH(32)" "0 \<le> n" for n
    using that by (intro strtoll_dec) simp_all
  have "strtoll (dec_int (uint (reason_number r))) = (uint (reason_number r), False, [])"
    by (rule bound [OF uint_lt2p]) simp
  then show ?thesis using assms by (cases r) (auto simp: read_reason_def reason_number_def)
qed

lemma deps_back:
  assumes "storable_deps ds"
  shows "map read_dep (map (\<lambda>d. the (alpm_dep_compute_string (Some d))) ds) = ds"
    "\<forall>l\<in>set (map (\<lambda>d. the (alpm_dep_compute_string (Some d))) ds). is_line l \<and> l \<noteq> []"
proof -
  have "read_dep (the (alpm_dep_compute_string (Some d))) = d" if "d \<in> set ds" for d
  proof -
    have "alpm_dep_compute_string (Some d) \<noteq> None" by (simp add: alpm_dep_compute_string_def Let_def split_beta)
    then show ?thesis using dep_printed [of d] assms that by (auto simp: read_dep_def storable_deps_def)
  qed
  then show "map read_dep (map (\<lambda>d. the (alpm_dep_compute_string (Some d))) ds) = ds" by (simp add: map_idI)
  show "\<forall>l\<in>set (map (\<lambda>d. the (alpm_dep_compute_string (Some d))) ds). is_line l \<and> l \<noteq> []"
    using assms by (auto simp: storable_deps_def full_line_def)
qed

section \<open>Reading a description back\<close>

lemma headers [simp]:
  "is_line ''%NAME%''" "is_line ''%VERSION%''" "is_line ''%BASE%''" "is_line ''%DESC%''"
  "is_line ''%URL%''" "is_line ''%ARCH%''" "is_line ''%BUILDDATE%''" "is_line ''%INSTALLDATE%''"
  "is_line ''%PACKAGER%''" "is_line ''%SIZE%''" "is_line ''%REASON%''" "is_line ''%GROUPS%''"
  "is_line ''%LICENSE%''" "is_line ''%REPLACES%''" "is_line ''%DEPENDS%''" "is_line ''%OPTDEPENDS%''"
  "is_line ''%CONFLICTS%''" "is_line ''%PROVIDES%''" "is_line ''%FILES%''" "is_line ''%BACKUP%''"
  by (simp_all add: is_line_def newline_def)

context line_reader
begin

lemma reads_string:
  assumes "is_line h" "h \<noteq> []" "pred_option is_line x"
    and "\<And>info r. read_section rd h info r = one_line rd (\<lambda>l. st (Some l)) info r"
  shows "reads (write_string h x) (\<lambda>p. if x = None then p else st x p)"
  using reads_one [OF assms(1,2) _ assms(4)] assms(3) reads_nothing
  by (cases x) (simp_all add: write_string_def)

lemma reads_number:
  assumes "is_line h" "h \<noteq> []" "- (2 ^ 63) \<le> n" "n < 2 ^ 63" "conv (dec_int n) = v"
    and "\<And>info r. read_section rd h info r = one_line rd (\<lambda>l. st (conv l)) info r"
  shows "reads (write_number h n) (\<lambda>p. if n = 0 then p else st v p)"
  using reads_one [OF assms(1,2) _ assms(6), of "dec_int n"] dec_int_line(1) [OF assms(3,4)] reads_nothing
  by (auto simp: write_number_def assms(5))

lemma reads_list:
  assumes "is_line h" "h \<noteq> []" "list_all full_line ls"
    and "\<And>info r. read_section rd h info r = many_lines rd fld (\<lambda>l. l) st info r"
  shows "reads (write_list h ls) (\<lambda>p. if ls = [] then p else st (fld p @ ls) p)"
proof (cases "ls = []")
  case False
  have "reads (section_text h ls) ((\<lambda>ls p. st (fld p @ ls) p) ls)"
    by (rule reads_many [OF assms(1,2)])
      (use assms(3) in \<open>auto simp: list_all_iff full_line_def assms(4) many_lines_def\<close>)
  then show ?thesis using False by (simp add: write_list_def)
qed (simp add: write_list_def reads_nothing)

lemma reads_deps:
  assumes "is_line h" "h \<noteq> []" "storable_deps ds"
    and "\<And>info r. read_section rd h info r = many_lines rd fld read_dep st info r"
  shows "reads (write_deps h ds) (\<lambda>p. if ds = [] then p else st (fld p @ ds) p)"
proof (cases "ds = []")
  case False
  have "reads (section_text h (map (\<lambda>d. the (alpm_dep_compute_string (Some d))) ds))
      ((\<lambda>ls p. st (fld p @ map read_dep ls) p) (map (\<lambda>d. the (alpm_dep_compute_string (Some d))) ds))"
    by (rule reads_many [OF assms(1,2) deps_back(2) [OF assms(3)]]) (simp add: assms(4) many_lines_def)
  then show ?thesis using False unfolding deps_back(1) [OF assms(3)] by (simp add: write_deps_def)
qed (simp add: write_deps_def reads_nothing)

lemma reads_validation:
  assumes "v < 16"
  shows "reads (if v = 0 then [] else section_text ''%VALIDATION%'' (validation_names v))
    (\<lambda>p. if v = 0 then p else p\<lparr>validation := foldl add_validation (validation p) (validation_names v)\<rparr>)"
proof (cases "v = 0")
  case False
  have "reads (section_text ''%VALIDATION%'' (validation_names v))
      ((\<lambda>ls p. p\<lparr>validation := foldl add_validation (validation p) ls\<rparr>) (validation_names v))"
  proof (rule reads_many)
    show "\<forall>l\<in>set (validation_names v). is_line l \<and> l \<noteq> []"
      using validation_names_back(2) [OF assms] by (auto simp: list_all_iff full_line_def)
  qed (simp_all add: is_line_def newline_def read_section_def)
  then show ?thesis using False by simp
qed (simp add: reads_nothing)

text \<open>What the parts of a description do to a package of which nothing is known.\<close>

lemma update_fresh:
  "base p = None \<Longrightarrow> (if x = None then p else p\<lparr>base := x\<rparr>) = p\<lparr>base := x\<rparr>"
  "desc p = None \<Longrightarrow> (if x = None then p else p\<lparr>desc := x\<rparr>) = p\<lparr>desc := x\<rparr>"
  "url p = None \<Longrightarrow> (if x = None then p else p\<lparr>url := x\<rparr>) = p\<lparr>url := x\<rparr>"
  "arch p = None \<Longrightarrow> (if x = None then p else p\<lparr>arch := x\<rparr>) = p\<lparr>arch := x\<rparr>"
  "packager p = None \<Longrightarrow> (if x = None then p else p\<lparr>packager := x\<rparr>) = p\<lparr>packager := x\<rparr>"
  "builddate p = 0 \<Longrightarrow> (if n = 0 then p else p\<lparr>builddate := n\<rparr>) = p\<lparr>builddate := n\<rparr>"
  "installdate p = 0 \<Longrightarrow> (if n = 0 then p else p\<lparr>installdate := n\<rparr>) = p\<lparr>installdate := n\<rparr>"
  "isize p = 0 \<Longrightarrow> (if n = 0 then p else p\<lparr>isize := n\<rparr>) = p\<lparr>isize := n\<rparr>"
  "groups p = [] \<Longrightarrow> (if l = [] then p else p\<lparr>groups := groups p @ l\<rparr>) = p\<lparr>groups := l\<rparr>"
  "licenses p = [] \<Longrightarrow> (if l = [] then p else p\<lparr>licenses := licenses p @ l\<rparr>) = p\<lparr>licenses := l\<rparr>"
  "replaces p = [] \<Longrightarrow> (if d = [] then p else p\<lparr>replaces := replaces p @ d\<rparr>) = p\<lparr>replaces := d\<rparr>"
  "depends p = [] \<Longrightarrow> (if d = [] then p else p\<lparr>depends := depends p @ d\<rparr>) = p\<lparr>depends := d\<rparr>"
  "optdepends p = [] \<Longrightarrow> (if d = [] then p else p\<lparr>optdepends := optdepends p @ d\<rparr>) = p\<lparr>optdepends := d\<rparr>"
  "conflicts p = [] \<Longrightarrow> (if d = [] then p else p\<lparr>conflicts := conflicts p @ d\<rparr>) = p\<lparr>conflicts := d\<rparr>"
  "provides p = [] \<Longrightarrow> (if d = [] then p else p\<lparr>provides := provides p @ d\<rparr>) = p\<lparr>provides := d\<rparr>"
  by (cases p, simp)+

lemma reason_fresh:
  "preason p = ALPM_PKG_REASON_EXPLICIT \<Longrightarrow> r \<noteq> Other_reason 0 \<Longrightarrow>
   (if uint (reason_number r) = 0 then p else p\<lparr>preason := r\<rparr>) = p\<lparr>preason := r\<rparr>"
  by (cases p; cases r) (auto simp: reason_number_def uint_0_iff)

lemma validation_fresh:
  "validation p = 0 \<Longrightarrow> v < 16 \<Longrightarrow>
   (if v = 0 then p else p\<lparr>validation := foldl add_validation (validation p) (validation_names v)\<rparr>) = p\<lparr>validation := v\<rparr>"
  using validation_names_back(1) [of v] by (cases p) auto

text \<open>One step from one package to another.\<close>

definition reads_at :: "string \<Rightarrow> alpm_pkg_t \<Rightarrow> alpm_pkg_t \<Rightarrow> bool" where
  "reads_at txt p q \<longleftrightarrow> (\<exists>f. reads txt f \<and> f p = q)"

lemma reads_at_append: "reads_at a p q \<Longrightarrow> reads_at b q s \<Longrightarrow> reads_at (a @ b) p s"
  unfolding reads_at_def using reads_append by blast

lemma reads_at_all: "reads_at txt p q \<Longrightarrow> read_desc rd p (open_reader txt) = Some (True, q)"
  unfolding reads_at_def using reads_all by blast

lemma reads_atI: "reads txt f \<Longrightarrow> f p = q \<Longrightarrow> reads_at txt p q"
  unfolding reads_at_def by blast

lemma desc_read_back:
  assumes s: "storable_desc info" and f: "fresh p"
  shows "read_desc rd p (open_reader (desc_text info)) = Some (True,
    p\<lparr>base := base info, desc := desc info, url := url info, arch := arch info, builddate := builddate info,
      installdate := installdate info, packager := packager info, isize := isize info, preason := preason info,
      groups := groups info, licenses := licenses info, validation := validation info, replaces := replaces info,
      depends := depends info, optdepends := optdepends info, conflicts := conflicts info, provides := provides info\<rparr>)"
proof -
  note S = s [unfolded storable_desc_def]
  have r: "reads (section_text ''%NAME%'' [pname info]) (\<lambda>p. p)"
    "reads (section_text ''%VERSION%'' [c_string (version info)]) (\<lambda>p. p)"
    using S by (auto intro!: reads_one [where st = "\<lambda>l p. p"] simp: read_section_def)
  have strings: "reads (write_string ''%BASE%'' (base info)) (\<lambda>p. if base info = None then p else p\<lparr>base := base info\<rparr>)"
    "reads (write_string ''%DESC%'' (desc info)) (\<lambda>p. if desc info = None then p else p\<lparr>desc := desc info\<rparr>)"
    "reads (write_string ''%URL%'' (url info)) (\<lambda>p. if url info = None then p else p\<lparr>url := url info\<rparr>)"
    "reads (write_string ''%ARCH%'' (arch info)) (\<lambda>p. if arch info = None then p else p\<lparr>arch := arch info\<rparr>)"
    "reads (write_string ''%PACKAGER%'' (packager info)) (\<lambda>p. if packager info = None then p else p\<lparr>packager := packager info\<rparr>)"
    using S by (auto intro!: reads_string simp: read_section_def)
  have dates: "reads (write_number ''%BUILDDATE%'' (builddate info)) (\<lambda>p. if builddate info = 0 then p else p\<lparr>builddate := builddate info\<rparr>)"
    "reads (write_number ''%INSTALLDATE%'' (installdate info)) (\<lambda>p. if installdate info = 0 then p else p\<lparr>installdate := installdate info\<rparr>)"
    using S by (auto intro!: reads_number [where conv = alpm_parsedate] simp: read_section_def parsedate_dec)
  have size: "reads (write_number ''%SIZE%'' (isize info)) (\<lambda>p. if isize info = 0 then p else p\<lparr>isize := isize info\<rparr>)"
    using S by (intro reads_number [where conv = alpm_strtoofft]) (auto simp: read_section_def strtoofft_dec)
  have reason: "reads (write_number ''%REASON%'' (uint (reason_number (preason info))))
      (\<lambda>p. if uint (reason_number (preason info)) = 0 then p else p\<lparr>preason := preason info\<rparr>)"
  proof (rule reads_number [where conv = read_reason])
    have "uint (reason_number (preason info)) < 2 ^ LENGTH(32)" by (rule uint_lt2p)
    then show "uint (reason_number (preason info)) < 2 ^ 63" by simp
    have "0 \<le> uint (reason_number (preason info))" by simp
    then show "- (2 ^ 63) \<le> uint (reason_number (preason info))" by (rule order_trans [rotated]) simp
    show "read_reason (dec_int (uint (reason_number (preason info)))) = preason info" by (rule reason_back) (use S in simp)
  qed (simp_all add: read_section_def)
  have lists: "reads (write_list ''%GROUPS%'' (groups info)) (\<lambda>p. if groups info = [] then p else p\<lparr>groups := groups p @ groups info\<rparr>)"
    "reads (write_list ''%LICENSE%'' (licenses info)) (\<lambda>p. if licenses info = [] then p else p\<lparr>licenses := licenses p @ licenses info\<rparr>)"
    using S by (auto intro!: reads_list simp: read_section_def)
  have deps: "reads (write_deps ''%REPLACES%'' (replaces info)) (\<lambda>p. if replaces info = [] then p else p\<lparr>replaces := replaces p @ replaces info\<rparr>)"
    "reads (write_deps ''%DEPENDS%'' (depends info)) (\<lambda>p. if depends info = [] then p else p\<lparr>depends := depends p @ depends info\<rparr>)"
    "reads (write_deps ''%OPTDEPENDS%'' (optdepends info)) (\<lambda>p. if optdepends info = [] then p else p\<lparr>optdepends := optdepends p @ optdepends info\<rparr>)"
    "reads (write_deps ''%CONFLICTS%'' (conflicts info)) (\<lambda>p. if conflicts info = [] then p else p\<lparr>conflicts := conflicts p @ conflicts info\<rparr>)"
    "reads (write_deps ''%PROVIDES%'' (provides info)) (\<lambda>p. if provides info = [] then p else p\<lparr>provides := provides p @ provides info\<rparr>)"
    using S by (auto intro!: reads_deps simp: read_section_def)
  have "validation info < 16" using S by simp
  note val = reads_validation [OF this]
  have nz: "preason info \<noteq> Other_reason 0" using S by simp
  note names = reads_atI [OF r(1) refl] reads_atI [OF r(2) refl]
  note steps = reads_atI [OF strings(1) update_fresh(1)]
    reads_atI [OF strings(2) update_fresh(2)] reads_atI [OF strings(3) update_fresh(3)]
    reads_atI [OF strings(4) update_fresh(4)] reads_atI [OF dates(1) update_fresh(6)]
    reads_atI [OF dates(2) update_fresh(7)] reads_atI [OF strings(5) update_fresh(5)]
    reads_atI [OF size update_fresh(8)] reads_atI [OF reason reason_fresh [OF _ nz]]
    reads_atI [OF lists(1) update_fresh(9)] reads_atI [OF lists(2) update_fresh(10)]
    reads_atI [OF val validation_fresh [OF _ \<open>validation info < 16\<close>]]
    reads_atI [OF deps(1) update_fresh(11)] reads_atI [OF deps(2) update_fresh(12)]
    reads_atI [OF deps(3) update_fresh(13)] reads_atI [OF deps(4) update_fresh(14)] reads_atI [OF deps(5) update_fresh(15)]
  show ?thesis
    unfolding desc_text_def
    by (rule reads_at_all, rule reads_at_append, rule names, rule reads_at_append, rule names)
      ((rule reads_at_append)?, rule steps, use f in \<open>simp add: fresh_def\<close>)+
qed

end

section \<open>Reading a list of files back\<close>

definition storable_files :: "alpm_pkg_t \<Rightarrow> bool" where
  "storable_files info \<longleftrightarrow>
     sorted (map fname (files info)) \<and> (\<forall>f\<in>set (files info). full_line (fname f)) \<and>
     (\<forall>b\<in>set (backup info). CHR 0x09 \<notin> set (bname b) \<and> bhash b \<noteq> None \<and> full_line (bname b @ CHR 0x09 # c_string (bhash b)))"

text \<open>The two files of an entry: what the package is afterwards.\<close>

definition restored :: "alpm_pkg_t \<Rightarrow> bool \<Rightarrow> alpm_pkg_t \<Rightarrow> alpm_pkg_t" where
  "restored info install p =
     p\<lparr>base := base info, desc := desc info, url := url info, arch := arch info, builddate := builddate info,
       installdate := installdate info, packager := packager info, isize := isize info, preason := preason info,
       groups := groups info, licenses := licenses info, validation := validation info, replaces := replaces info,
       depends := depends info, optdepends := optdepends info, conflicts := conflicts info, provides := provides info,
       files := map (\<lambda>f. named (fname f)) (files info), backup := backup info, scriptlet := install,
       infolevel := INFRQ_DESC OR INFRQ_FILES OR INFRQ_SCRIPTLET\<rparr>"

lemma split_backup_back:
  assumes "CHR 0x09 \<notin> set (bname b)" "bhash b \<noteq> None"
  shows "alpm_split_backup (bname b @ CHR 0x09 # c_string (bhash b)) = b"
proof -
  have "takeWhile (\<lambda>c. c \<noteq> CHR 0x09) (bname b @ CHR 0x09 # x) = bname b"
    "dropWhile (\<lambda>c. c \<noteq> CHR 0x09) (bname b @ CHR 0x09 # x) = CHR 0x09 # x" for x
    using assms(1) by (auto intro: takeWhile_append2 [THEN trans] dropWhile_append2 [THEN trans])
  then show ?thesis using assms(2) by (cases b) (auto simp: alpm_split_backup_def c_string_def)
qed

lemma filelist_sort_id:
  assumes "sorted (map fname fs)"
  shows "alpm_filelist_sort fs = fs"
proof -
  have "fname (fs ! (j - 1)) \<le> fname (fs ! j)" if "1 \<le> j" "j < length fs" for j
    using sorted_nth_mono [OF assms, of "j - 1" j] that by simp
  then have "\<not> filelist_sort_from fs 1 (length fs - 1)" by (auto simp: filelist_sort_from_iff not_less)
  then show ?thesis by (simp add: alpm_filelist_sort_def)
qed

context line_reader
begin

lemma read_files_part:
  assumes "is_line h" "rrest r = section_text h ls @ t" "\<forall>l\<in>set ls. is_line l \<and> l \<noteq> []"
  shows "h = ''%FILES%'' \<Longrightarrow> read_files rd info r =
      read_files rd (info\<lparr>files := alpm_filelist_sort (map named ls)\<rparr>) \<lparr>rbuf = [], rrest = t, reof = False\<rparr>"
    and "h = ''%BACKUP%'' \<Longrightarrow> read_files rd info r =
      read_files rd (info\<lparr>backup := backup info @ map alpm_split_backup ls\<rparr>) \<lparr>rbuf = [], rrest = t, reof = False\<rparr>"
proof -
  have rest: "rrest r = h @ newline # (concat (map (\<lambda>l. l @ [newline]) ls) @ newline # t)"
    using assms(2) by (simp add: section_text_def)
  have strip: "strip_line \<lparr>rbuf = h @ [newline], rrest = u, reof = False\<rparr> = (\<lparr>rbuf = h, rrest = u, reof = False\<rparr>, length h)" for u
    using assms(1) by (simp add: is_line_def strip_stored)
  have "read_files rd info r =
      (let r = \<lparr>rbuf = h, rrest = concat (map (\<lambda>l. l @ [newline]) ls) @ newline # t, reof = False\<rparr>
       in if h = ''%FILES%''
          then (case read_all rd [] r of
                  None \<Rightarrow> None
                | Some (_, ls, r) \<Rightarrow> read_files rd (info\<lparr>files := alpm_filelist_sort (map named ls)\<rparr>) r)
          else if h = ''%BACKUP%''
          then (case read_all rd [] r of
                  None \<Rightarrow> None
                | Some (_, ls, r) \<Rightarrow> read_files rd (info\<lparr>backup := backup info @ map alpm_split_backup ls\<rparr>) r)
          else read_files rd info r)"
    by (subst read_files.simps) (simp add: rd_line [OF assms(1) rest] strip)
  moreover have "read_all rd [] \<lparr>rbuf = h, rrest = concat (map (\<lambda>l. l @ [newline]) ls) @ newline # t, reof = False\<rparr> =
      Some (True, ls, \<lparr>rbuf = [], rrest = t, reof = False\<rparr>)"
    using read_all_lines [OF assms(3), where f = "[]"] by simp
  ultimately show "h = ''%FILES%'' \<Longrightarrow> read_files rd info r =
      read_files rd (info\<lparr>files := alpm_filelist_sort (map named ls)\<rparr>) \<lparr>rbuf = [], rrest = t, reof = False\<rparr>"
    and "h = ''%BACKUP%'' \<Longrightarrow> read_files rd info r =
      read_files rd (info\<lparr>backup := backup info @ map alpm_split_backup ls\<rparr>) \<lparr>rbuf = [], rrest = t, reof = False\<rparr>"
    by (simp_all add: Let_def)
qed

lemma read_files_end: "rrest r = [] \<Longrightarrow> read_files rd info r = Some info"
  by (subst read_files.simps) (simp add: rd_end)

lemma files_read_back:
  assumes s: "storable_files info" and f: "files p = []" "backup p = []"
  shows "read_files rd p (open_reader (files_text info)) =
    Some (p\<lparr>files := map (\<lambda>f. named (fname f)) (files info), backup := backup info\<rparr>)"
proof -
  let ?b = "map (\<lambda>b. bname b @ CHR 0x09 # c_string (bhash b)) (backup info)"
  let ?q = "p\<lparr>files := map (\<lambda>f. named (fname f)) (files info)\<rparr>"
  let ?bt = "if backup info = [] then [] else section_text ''%BACKUP%'' ?b"
  have b: "map alpm_split_backup ?b = backup info" "\<forall>l\<in>set ?b. is_line l \<and> l \<noteq> []"
    using s split_backup_back by (auto simp: storable_files_def full_line_def map_idI)
  have sorted: "alpm_filelist_sort (map (\<lambda>f. named (fname f)) (files info)) = map (\<lambda>f. named (fname f)) (files info)"
    using s by (intro filelist_sort_id) (simp add: storable_files_def comp_def)
  have again: "read_files rd ?q r = Some (?q\<lparr>backup := backup info\<rparr>)" if r: "rrest r = ?bt" for r
  proof (cases "backup info = []")
    case True
    then show ?thesis using read_files_end r f by (cases p) simp
  next
    case False
    then have rest: "rrest r = section_text ''%BACKUP%'' ?b @ []" using r by simp
    have "backup p = []" using f by simp
    then show ?thesis using read_files_part(2) [OF _ rest b(2) refl, of ?q] read_files_end b(1) by simp
  qed
  show ?thesis
  proof (cases "files info = []")
    case True
    moreover have "p\<lparr>files := []\<rparr> = p" using f by (cases p) simp
    ultimately show ?thesis using again [of "open_reader (files_text info)"] by (simp add: files_text_def open_reader_def)
  next
    case False
    then have rest: "rrest (open_reader (files_text info)) = section_text ''%FILES%'' (map fname (files info)) @ ?bt"
      by (simp add: files_text_def open_reader_def)
    have "\<forall>l\<in>set (map fname (files info)). is_line l \<and> l \<noteq> []" using s by (auto simp: storable_files_def full_line_def)
    from read_files_part(1) [OF _ rest this refl, of p] show ?thesis
      using again [of "\<lparr>rbuf = [], rrest = ?bt, reof = False\<rparr>"] sorted by (simp add: comp_def)
  qed
qed

lemma read_restored:
  assumes "storable_desc info" "storable_files info" "fresh p" "pname p = pname info" "version p = version info"
    and "read_file fs (alpm_local_db_pkgpath dir info ''desc'') = Inr (desc_text info)"
    and "read_file fs (alpm_local_db_pkgpath dir info ''files'') = Inr (files_text info)"
  shows "local_db_read rd fs dir p INFRQ_ALL =
    Some (0, restored info (access_exists fs (alpm_local_db_pkgpath dir info ''install'')) p)"
proof -
  have path: "alpm_local_db_pkgpath dir q n = alpm_local_db_pkgpath dir info n"
    if "pname q = pname info" "version q = version info" for q n
    using that by (simp add: alpm_local_db_pkgpath_def)
  have lv: "infolevel p = 0" "\<not> scriptlet p" "files p = []" "backup p = []" using assms(3) by (simp_all add: fresh_def)
  define q where "q = p\<lparr>base := base info, desc := desc info, url := url info, arch := arch info, builddate := builddate info,
      installdate := installdate info, packager := packager info, isize := isize info, preason := preason info,
      groups := groups info, licenses := licenses info, validation := validation info, replaces := replaces info,
      depends := depends info, optdepends := optdepends info, conflicts := conflicts info, provides := provides info\<rparr>"
  have q: "pname q = pname info" "version q = version info" "files q = []" "backup q = []" "infolevel q = 0" "\<not> scriptlet q"
    using assms(4,5) lv by (simp_all add: q_def)
  define q1 where "q1 = q\<lparr>infolevel := INFRQ_DESC\<rparr>"
  define q2 where "q2 = q1\<lparr>files := map (\<lambda>f. named (fname f)) (files info), backup := backup info, infolevel := INFRQ_DESC OR INFRQ_FILES\<rparr>"
  have "load_desc rd fs dir INFRQ_ALL p = Some (True, q1)"
    using desc_read_back [OF assms(1,3), folded q_def] assms(6) path [OF assms(4,5)] lv(1) q(5)
    by (simp add: load_desc_def lacks_def add_level_def q1_def)
  moreover have "load_files rd fs dir INFRQ_ALL q1 = Some (True, q2)"
    using files_read_back [OF assms(2), of q1] assms(7) path [of q1] q
    by (simp add: load_files_def lacks_def add_level_def q1_def q2_def)
  moreover have "load_install fs dir INFRQ_ALL q2 =
      restored info (access_exists fs (alpm_local_db_pkgpath dir info ''install'')) p"
    using path [of q2] q by (simp add: load_install_def lacks_def add_level_def q1_def q2_def q_def restored_def)
  ultimately show ?thesis using lv(1) by (simp add: local_db_read_def)
qed

end

section \<open>The round trip\<close>

lemma written_both:
  assumes "local_db_write dir True info INFRQ_ALL fs = (0, fs')"
    and "resolve fs' True (alpm_local_db_pkgpath dir info ''desc'') \<noteq> resolve fs' True (alpm_local_db_pkgpath dir info ''files'')"
  shows "read_file fs' (alpm_local_db_pkgpath dir info ''desc'') = Inr (desc_text info)"
    "read_file fs' (alpm_local_db_pkgpath dir info ''files'') = Inr (files_text info)"
proof -
  obtain e1 fs1 where w1: "write_file (alpm_local_db_pkgpath dir info ''desc'') (desc_text info) fs = (e1, fs1)" by fastforce
  obtain e2 fs2 where w2: "write_file (alpm_local_db_pkgpath dir info ''files'') (files_text info) fs1 = (e2, fs2)" by fastforce
  have "e1 = None" using assms(1) w1 by (auto simp: local_db_write_def split: if_splits)
  moreover from this have "e2 = None \<and> fs2 = fs'" using assms(1) w1 w2 by (auto simp: local_db_write_def split: if_splits)
  ultimately show "read_file fs' (alpm_local_db_pkgpath dir info ''desc'') = Inr (desc_text info)"
    "read_file fs' (alpm_local_db_pkgpath dir info ''files'') = Inr (files_text info)"
    using read_written [of "alpm_local_db_pkgpath dir info ''files''" "files_text info" fs1 fs'] w1 w2
      read_written_before [of "alpm_local_db_pkgpath dir info ''desc''" "desc_text info" fs fs1
        "alpm_local_db_pkgpath dir info ''files''" "files_text info" fs'] assms(2) by simp_all
qed

text \<open>C15: An entry of the local database that \<open>_alpm_local_db_write\<close> wrote is read back by
  \<open>local_db_read\<close>, lazily or at once, exactly: the description, the dates, the sizes, the reason,
  the licenses, groups and dependencies, the files and the backup entries. The fields the library
  does not store (and the sizes and modes of the files) are as they were; a scriptlet is seen if its
  file is there. What the strings may be is \<open>storable_desc\<close> and \<open>storable_files\<close>: lines that fit the
  buffer, no empty entries in lists, dependencies that can be printed, sizes that are not negative.\<close>

theorem local_db_roundtrip:
  assumes "line_reader rd" "storable_desc info" "storable_files info"
    and "fresh p" "pname p = pname info" "version p = version info"
    and "local_db_write dir True info INFRQ_ALL fs = (0, fs')"
    and "resolve fs' True (alpm_local_db_pkgpath dir info ''desc'') \<noteq> resolve fs' True (alpm_local_db_pkgpath dir info ''files'')"
  shows "local_db_read rd fs' dir p INFRQ_ALL =
    Some (0, restored info (access_exists fs' (alpm_local_db_pkgpath dir info ''install'')) p)"
  by (rule line_reader.read_restored [OF assms(1-6) written_both [OF assms(7,8)]])

definition stored_pkg :: alpm_pkg_t where
  "stored_pkg = alpm_pkg_new
     \<lparr>pname := ''a'', version := Some ''1'', desc := Some ''x'', builddate := -5, isize := 42, preason := ALPM_PKG_REASON_DEPEND,
      groups := [''g''], validation := 9, files := [named ''e/c''], backup := [\<lparr>bname = ''e/c'', bhash = Some ''0f''\<rparr>]\<rparr>"

definition stored_fs :: filesys where
  "stored_fs = \<lparr>fs_nodes = [([''a-1''], Dir)], fs_fault = \<lambda>_. None, fs_nowrite = \<lambda>_. None, fs_dev = \<lambda>_. 0\<rparr>"

theorem local_db_roundtrip_witness:
  "\<exists>fs' q. local_db_write ''/'' True stored_pkg INFRQ_ALL stored_fs = (0, fs') \<and>
    local_db_read fgets fs' ''/'' (alpm_pkg_new\<lparr>pname := ''a'', version := Some ''1''\<rparr>) INFRQ_ALL = Some (0, q) \<and>
    isize q = 42 \<and> preason q = ALPM_PKG_REASON_DEPEND \<and> backup q = backup stored_pkg"
proof -
  have paths: "alpm_local_db_pkgpath ''/'' stored_pkg n = ''/a-1/'' @ n" for n
    by (simp add: alpm_local_db_pkgpath_def stored_pkg_def c_string_def alpm_pkg_new_def)
  have comps: "components ''/a-1/desc'' = [''a-1'', ''desc'']" "components ''/a-1/files'' = [''a-1'', ''files'']"
    by (simp_all add: components_def)
  let ?fs1 = "fs_put [''a-1'', ''desc''] (File (desc_text stored_pkg)) stored_fs"
  let ?fs2 = "fs_put [''a-1'', ''files''] (File (files_text stored_pkg)) ?fs1"
  have look: "look stored_fs l = (if l = [] then Some Dir else if l = [''a-1''] then Some Dir else None)" for l
    by (simp add: look_def stored_fs_def)
  have w12: "write_file ''/a-1/desc'' c stored_fs = (None, fs_put [''a-1'', ''desc''] (File c) stored_fs)"
    "write_file ''/a-1/files'' d (fs_put [''a-1'', ''desc''] (File c) stored_fs) =
      (None, fs_put [''a-1'', ''files''] (File d) (fs_put [''a-1'', ''desc''] (File c) stored_fs))" for c d
    by (simp_all add: write_file_def resolve_def comps look slashed_def) (simp_all add: fs_put_def stored_fs_def)
  have w: "local_db_write ''/'' True stored_pkg INFRQ_ALL stored_fs = (0, ?fs2)"
    using w12 by (simp add: local_db_write_def paths)
  have r: "resolve ?fs2 True ''/a-1/desc'' \<noteq> resolve ?fs2 True ''/a-1/files''"
    by (simp add: resolve_def comps look slashed_def)
  have nv: "pname stored_pkg = ''a''" "version stored_pkg = Some ''1''" by (simp_all add: stored_pkg_def)
  have "storable_desc stored_pkg" "storable_files stored_pkg"
    by (simp_all add: storable_desc_def storable_files_def stored_pkg_def alpm_pkg_new_def c_string_def is_line_def newline_def
        full_line_def storable_deps_def)
  moreover have "fresh (alpm_pkg_new\<lparr>pname := ''a'', version := Some ''1''\<rparr>)" by (simp add: fresh_def alpm_pkg_new_def)
  ultimately have "local_db_read fgets ?fs2 ''/'' (alpm_pkg_new\<lparr>pname := ''a'', version := Some ''1''\<rparr>) INFRQ_ALL =
      Some (0, restored stored_pkg (access_exists ?fs2 (alpm_local_db_pkgpath ''/'' stored_pkg ''install''))
        (alpm_pkg_new\<lparr>pname := ''a'', version := Some ''1''\<rparr>))"
    by (intro local_db_roundtrip [OF io.line_reader_axioms _ _ _ _ _ w])
      (use r nv in \<open>simp_all add: paths\<close>)
  then show ?thesis using w by (simp add: restored_def stored_pkg_def)
qed

end
