(* ===== verification/Spec2Isabelle.thy ===== *)
theory Spec2Isabelle
  imports AlpmPrelude AlpmVersion AlpmRawstr AlpmUtil AlpmBase64 AlpmList AlpmFilelist AlpmTypes
    AlpmPackage AlpmPkghash AlpmDb AlpmDeps AlpmDepSort AlpmConflict AlpmTargets AlpmRemove
    AlpmSysupgrade AlpmSync AlpmHandle AlpmIo AlpmTrans AlpmKeyid AlpmSigning AlpmPkgLoad AlpmLifecycle AlpmSyncDb AlpmSyncUpdate AlpmHook
    AlpmFs AlpmFsUtil AlpmLocal AlpmLocalRoundtrip AlpmLocalCache AlpmStream AlpmScript AlpmRemoveFiles AlpmInstall AlpmCommit
begin

text \<open>
  A model of libalpm, the package management library of pacman, under \<open>src/pacman/lib/libalpm\<close>. Source
  files are named below without that directory. The library resolves, checks and commits transactions
  that install, upgrade and remove packages; the development models it from the comparison of two versions
  up to \<open>alpm_trans_commit\<close>, \<open>alpm_db_update\<close> and the hooks, and proves what each part promises the next.

  \<^bold>\<open>How the parts interact.\<close> A frontend initialises a handle (\<open>alpm.c\<close>, \<open>handle.c\<close>), registers databases
  (\<open>db.c\<close>) whose back ends fill the caches of packages on demand (\<open>be_local.c\<close>, \<open>be_sync.c\<close>) through the
  hash table of \<open>pkghash.c\<close>, and begins a transaction (\<open>trans.c\<close>), which takes the lock. It adds targets
  (\<open>add.c\<close>, \<open>remove.c\<close>, the choice of upgrades in \<open>sync.c\<close>). Preparing resolves and checks dependencies
  and conflicts (\<open>deps.c\<close>, \<open>conflict.c\<close>) and sorts the targets. Committing loads and checks the package files
  (\<open>be_package.c\<close>, \<open>signing.c\<close>), runs the hooks (\<open>hook.c\<close>), and removes and extracts files (\<open>remove.c\<close>,
  \<open>add.c\<close>) while it keeps the local database in step. Releasing gives up the lock.

  \<^bold>\<open>How the code is represented.\<close> A structure is a record, an enumeration a datatype, bit fields and hashes
  are words of their width. Structures that are shared by pointer, packages and databases, live in the stores
  of an \<open>alpm_world\<close> (\<open>AlpmTypes\<close>, \<open>AlpmDb\<close>), which every operation takes and returns; a pointer is a
  number. A string is the list of its bytes before the NUL. An operation that can fail returns the code's
  result and sets \<open>pm_errno\<close> where the code does; \<open>None\<close> as the result of an operation stands for a
  call that does not return or that the C standard does not define, such as a read outside of a buffer.

  \<^bold>\<open>Theories and sources.\<close>
  \<^item> \<open>AlpmPrelude\<close>: bytes, C strings, three-way comparison. \<open>AlpmVersion\<close> (\<open>version.c\<close>): \<open>alpm_pkg_vercmp\<close> is
    the comparison of sequences of segments, and an order on complete versions. \<open>AlpmRawstr\<close> (\<open>rawstr.c\<close>).
    \<open>AlpmUtil\<close> (the string, hashing and look-up helpers of \<open>util.c\<close>). \<open>AlpmBase64\<close> (\<open>base64.c\<close>): decoding
    after encoding is the identity.
  \<^item> \<open>AlpmList\<close> (\<open>alpm_list.c\<close> as functions on lists), \<open>AlpmFilelist\<close> (\<open>filelist.c\<close>): the sorted operations are
    sorting, merging and set operations.
  \<^item> \<open>AlpmTypes\<close> (the structures of the headers), \<open>AlpmPackage\<close> (\<open>package.c\<close>, \<open>backup.c\<close>, \<open>group.c\<close>).
  \<^item> \<open>AlpmPkghash\<close> (\<open>pkghash.c\<close>): open addressing with linear probing refines a finite map, across
    resizes and the moves of a removal. \<open>AlpmDb\<close> (\<open>db.c\<close>): the databases and their caches.
  \<^item> \<open>AlpmDeps\<close> (\<open>deps.c\<close>): checking, resolving, unneeded dependencies. \<open>AlpmDepSort\<close> (\<open>deps.c\<close>, \<open>graph.h\<close>):
    the search that sorts the targets. \<open>AlpmConflict\<close> (\<open>conflict.c\<close>).
  \<^item> \<open>AlpmTargets\<close> (what is shared by the operations on transactions), \<open>AlpmRemove\<close> (preparing in \<open>remove.c\<close>),
    \<open>AlpmSysupgrade\<close> and \<open>AlpmSync\<close> (choosing targets and preparing in \<open>sync.c\<close>), \<open>AlpmHandle\<close> (\<open>handle.c\<close>,
    \<open>alpm.c\<close>), \<open>AlpmTrans\<close> (\<open>trans.c\<close> up to a prepared transaction, the lock of \<open>handle.c\<close>).
  \<^item> \<open>AlpmFs\<close> (the file system the library works on: a tree with links, and the system calls),
    \<open>AlpmFsUtil\<close> (the helpers of \<open>util.c\<close> that touch it), \<open>AlpmIo\<close> (streams and numbers as text),
    \<open>AlpmStream\<close> (lines from archives, pipes and copies of \<open>util.c\<close>), \<open>AlpmScript\<close> (unpacking and scriptlets in
    \<open>util.c\<close> and \<open>trans.c\<close>).
  \<^item> \<open>AlpmLocal\<close>, \<open>AlpmLocalRoundtrip\<close>, \<open>AlpmLocalCache\<close> (\<open>be_local.c\<close>): the entries of the local database, that
    they are read back as written, and that the cache has exactly them. \<open>AlpmSyncDb\<close>, \<open>AlpmSyncUpdate\<close>
    (\<open>be_sync.c\<close>): the archive of a sync database, its validation and its update.
  \<^item> \<open>AlpmKeyid\<close>, \<open>AlpmSigning\<close> (\<open>signing.c\<close>), \<open>AlpmPkgLoad\<close> (\<open>be_package.c\<close>).
  \<^item> \<open>AlpmRemoveFiles\<close> (committing in \<open>remove.c\<close>), \<open>AlpmInstall\<close> (\<open>add.c\<close>), \<open>AlpmCommit\<close>, \<open>AlpmSyncCommit\<close>
    (committing in \<open>sync.c\<close> and \<open>trans.c\<close>), \<open>AlpmLifecycle\<close> (several processes), \<open>AlpmHook\<close> (\<open>hook.c\<close>).

  \<^bold>\<open>Interfaces.\<close> Locales state what a client relies on, and are interpreted on the functions of the code:
  \<^item> \<open>comparator\<close> and \<open>strict_comparator\<close> (\<open>AlpmList\<close>): what the sorted list operations need of a comparison
    function; \<open>strcmp\<close>, \<open>alpm_files_cmp\<close>, \<open>alpm_pkg_cmp\<close> and \<open>alpm_hook_cmp\<close> provide it.
  \<^item> \<open>pkg_index\<close> (\<open>AlpmPkghash\<close>): a map from names to packages; \<open>pkghash\<close> and \<open>pkghash_sorted\<close> are the hash with
    its two insertions.
  \<^item> \<open>string_list_option\<close> (\<open>AlpmHandle\<close>): the lists of strings among the options; one interpretation for each of
    the five lists.
  \<^item> \<open>line_reader\<close> (\<open>AlpmLocalRoundtrip\<close>): what reading the local database needs of \<open>safe_fgets\<close>, whose source is
    not in the repository; the \<open>fgets\<close> of \<open>AlpmIo\<close> provides it.

  \<^bold>\<open>State machines and refinement.\<close> \<open>option_call\<close> (\<open>AlpmHandle\<close>) is the relation of the setters, with an invariant of
  the options. \<open>call\<close> and \<open>system_reached\<close> (\<open>AlpmLifecycle\<close>) are the calls that several processes make on
  one disk in any order; that at most one of them commits is an invariant of the states that are reached, and
  that a process can always begin a transaction once the others release theirs is proved of each of them.
  In \<open>AlpmCommit\<close> the abstract state is the map from the names of the installed packages to their versions;
  the steps of \<open>remove.c\<close> and \<open>add.c\<close> implement deletions and updates of it, whatever fails on the disk.

  \<^bold>\<open>Loops, fuel and bounds.\<close> Recursion is structural or has a termination proof where the code's is bounded.
  A loop that may not end is a \<open>partial_function (option)\<close>: taking the lock (\<open>lock_loop\<close>), the packets of a signature
  (\<open>subpacket_loop\<close>, \<open>keyid_loop\<close>), reading entries (\<open>read_all\<close>, \<open>read_desc\<close>, \<open>read_files\<close>), searching a
  scriptlet (\<open>grep_loop\<close>), the cascades of a removal, and the imports while a signature is checked
  (\<open>check_signatures\<close>). Where the code does return this is proved as such. The search of \<open>AlpmDepSort\<close> is a
  \<open>while_option\<close> with a measure. Fuel is used where the bound is
  a quantity of the data: probing a hash visits its \<open>buckets\<close>, and adding succeeds below 414054 packages, when the
  hash would have to grow beyond its last prime; resolving (\<open>resolve_fuel\<close>) adds a new name at every
  level, so that the number of packages at hand is enough (\<open>resolvedeps_total\<close>); the ancestors of a vertex are at most as many as
  the vertices; the levels of directories in \<open>AlpmConflict\<close> are at most \<open>PATH_MAX\<close>, as every level makes a
  path longer; \<open>desc_fuel\<close> (\<open>AlpmPkgLoad\<close>, \<open>AlpmSyncDb\<close>) allows for more calls than an entry has lines.

  \<^bold>\<open>Parameters.\<close> What is not under \<open>src\<close> is an argument of the definitions: libarchive (the entries of a file and
  what extracting them does), gpgme, the download, the digests,
  the programs that scriptlets and hooks run, \<open>fnmatch\<close>, the user's answers, and of the front end's common
  code \<open>safe_fgets\<close>, \<open>parse_ini\<close> and \<open>wordsplit\<close>, whose files hold only zero bytes in the repository.
  The system calls on files are defined in \<open>AlpmFs\<close>, with the entries that may not be changed as part of its state.
  Properties that need more of a parameter name it as a hypothesis, and their witnesses give a function that has it.

  \<^bold>\<open>Not modelled.\<close> Freeing memory, events, progress and the log; failing allocations; the linked representation of lists;
  downloading (\<open>dload.c\<close>, a driver of libcurl), the free space of the file systems (\<open>diskspace.c\<close>), the messages of
  \<open>log.c\<close> and \<open>error.c\<close>; permissions and owners of extracted files; the change log and mtree of packages, which only
  pass on to libarchive. The front end under \<open>pacman/src\<close> and its tests hold no code in the repository, and the installers in
  \<open>Pac85\<close> and \<open>Pac85r2\<close> are graphical programs that do not call the library.

  \<^bold>\<open>Where the code does something else than it means to\<close>, the definition follows the code, and the
  hypotheses of the properties say what is needed: complete versions in \<open>AlpmVersion\<close>, entries with two hyphens in
  \<open>AlpmLocal\<close>, packets with a length inside the signature in \<open>AlpmKeyid\<close>, where \<open>extract_reads_past_end\<close> and
  \<open>extract_does_not_return\<close> show what happens otherwise.
\<close>

end
